(* ===== verification/FPrelude.thy ===== *)
theory FPrelude
  imports Main "HOL-Library.State_Monad" "HOL-Library.Word" "HOL-Library.Option_ord"
    "HOL-Library.Multiset"
begin

text \<open>
  What every component shares: the Go types and library calls the services use (times, error
  values with \<^verbatim>\<open>errors.Is\<close> and \<^verbatim>\<open>fmt.Errorf\<close>, dynamic values), Hoare triples over the
  library's state monad for code that threads state through calls to its ports, and the generic
  list and map lemmas of the component proofs.
\<close>

section \<open>Go values\<close>

text \<open>
  A \<^verbatim>\<open>time.Time\<close> is its distance in nanoseconds from the zero time, so \<open>t.IsZero()\<close> is
  \<open>t = 0\<close>, \<open>Before\<close> is \<open><\<close> and \<open>After\<close> is \<open>>\<close>. A \<^verbatim>\<open>time.Duration\<close> is a number of
  nanoseconds.
\<close>

type_synonym time = int
type_synonym duration = int

definition second :: duration where
  "second = 1000000000"

text \<open>
  A value of type \<^verbatim>\<open>any\<close> as the services carry it (decoded JSON). The services only pass such
  values through; a float is kept as its 64-bit pattern.
\<close>

datatype goany = ANil | ABool bool | AInt int | AFloat "64 word" | AStr string
  | AList "goany list" | AMap "(string \<times> goany) list"

type_synonym gomap = "string \<rightharpoonup> goany"

text \<open>A 64-bit float that is neither infinite nor NaN, and the negative zero.\<close>

definition finite_float :: "64 word \<Rightarrow> bool" where
  "finite_float w = (drop_bit 52 (take_bit 63 w) \<noteq> 2047)"

definition neg_zero :: "64 word" where
  "neg_zero = push_bit 63 1"

lemma neg_zero_nonzero: "neg_zero \<noteq> 0"
  by (simp add: neg_zero_def)

section \<open>Go errors\<close>

text \<open>
  \<open>New\<close> is a package-level sentinel (\<^verbatim>\<open>errors.New\<close> bound to a variable), identified by its
  message; \<open>Dyn\<close> is an error made at run time, which is never identical to a sentinel;
  \<open>Wrapf pre e post\<close> is \<^verbatim>\<open>fmt.Errorf\<close> with one \<^verbatim>\<open>%w\<close> verb, whose text is \<open>pre\<close>, the text of
  \<open>e\<close>, and \<open>post\<close>.
\<close>

datatype goerr = New string | Dyn string | Wrapf string goerr string

fun err_msg :: "goerr \<Rightarrow> string" where
  "err_msg (New m) = m"
| "err_msg (Dyn m) = m"
| "err_msg (Wrapf pre e post) = pre @ err_msg e @ post"

text \<open>\<^verbatim>\<open>errors.Is\<close>: the error itself or one it wraps is the target.\<close>

fun errors_Is :: "goerr \<Rightarrow> goerr \<Rightarrow> bool" where
  "errors_Is (Wrapf pre e post) t = (Wrapf pre e post = t \<or> errors_Is e t)"
| "errors_Is e t = (e = t)"

lemma errors_Is_refl [simp]: "errors_Is e e"
  by (cases e) auto

lemma errors_Is_trans: "errors_Is e f \<Longrightarrow> errors_Is f g \<Longrightarrow> errors_Is e g"
proof (induction e)
  case (Wrapf pre e post)
  then show ?case by (cases "Wrapf pre e post = f") auto
qed auto

definition context_Canceled :: goerr where
  "context_Canceled = New ''context canceled''"

definition context_DeadlineExceeded :: goerr where
  "context_DeadlineExceeded = New ''context deadline exceeded''"

text \<open>An optional error tested with \<^verbatim>\<open>errors.Is\<close>: a nil error matches nothing.\<close>

definition is_err :: "goerr option \<Rightarrow> goerr \<Rightarrow> bool" where
  "is_err oe t = (case oe of None \<Rightarrow> False | Some e \<Rightarrow> errors_Is e t)"

lemma is_err_simps [simp]:
  "is_err None t = False"
  "is_err (Some e) t = errors_Is e t"
  by (simp_all add: is_err_def)

section \<open>Text of formatted errors\<close>

fun itoa_nat :: "nat \<Rightarrow> string" where
  "itoa_nat n = (if n < 10 then [char_of (48 + n)]
                 else itoa_nat (n div 10) @ [char_of (48 + n mod 10)])"

declare itoa_nat.simps [simp del]

text \<open>\<^verbatim>\<open>%d\<close> of an integer.\<close>

definition itoa :: "int \<Rightarrow> string" where
  "itoa i = (if i < 0 then ''-'' @ itoa_nat (nat (- i)) else itoa_nat (nat i))"

definition hex_digit :: "nat \<Rightarrow> char" where
  "hex_digit n = (if n < 10 then char_of (48 + n) else char_of (87 + n))"

text \<open>
  \<^verbatim>\<open>%q\<close> of a string: \<^verbatim>\<open>strconv.Quote\<close> on ASCII text. Bytes from 128 up are kept, as Quote
  keeps printable runes.
\<close>

definition quote_char :: "char \<Rightarrow> string" where
  "quote_char c = (let n = (of_char c :: nat) in
     if n = 34 \<or> n = 92 then [char_of (92::nat), c]
     else if n = 7 then [char_of (92::nat), CHR ''a'']
     else if n = 8 then [char_of (92::nat), CHR ''b'']
     else if n = 9 then [char_of (92::nat), CHR ''t'']
     else if n = 10 then [char_of (92::nat), CHR ''n'']
     else if n = 11 then [char_of (92::nat), CHR ''v'']
     else if n = 12 then [char_of (92::nat), CHR ''f'']
     else if n = 13 then [char_of (92::nat), CHR ''r'']
     else if n < 32 \<or> n = 127 then
       [char_of (92::nat), CHR ''x'', hex_digit (n div 16), hex_digit (n mod 16)]
     else [c])"

definition quote :: "string \<Rightarrow> string" where
  "quote s = char_of (34::nat) # concat (map quote_char s) @ [char_of (34::nat)]"

section \<open>Hoare triples for the state monad\<close>

text \<open>
  \<open>hoare P m Q\<close>: from a state that satisfies \<open>P\<close>, running \<open>m\<close> gives a result and a state that
  satisfy \<open>Q\<close>. The monad's functions are total, so this is total correctness. The rules of
  \<open>hoare_intros\<close> take a program apart along its binds, conditionals and cases.
\<close>

definition hoare :: "('s \<Rightarrow> bool) \<Rightarrow> ('s, 'a) state \<Rightarrow> ('a \<Rightarrow> 's \<Rightarrow> bool) \<Rightarrow> bool" where
  "hoare P m Q = (\<forall>s a s'. P s \<longrightarrow> run_state m s = (a, s') \<longrightarrow> Q a s')"

named_theorems hoare_intros

lemma hoareI: "(\<And>s a s'. P s \<Longrightarrow> run_state m s = (a, s') \<Longrightarrow> Q a s') \<Longrightarrow> hoare P m Q"
  by (simp add: hoare_def)

lemma hoareD: "hoare P m Q \<Longrightarrow> P s \<Longrightarrow> run_state m s = (a, s') \<Longrightarrow> Q a s'"
  by (simp add: hoare_def)

lemma hoare_pre: "hoare P' m Q \<Longrightarrow> (\<And>s. P s \<Longrightarrow> P' s) \<Longrightarrow> hoare P m Q"
  by (auto simp: hoare_def)

lemma hoare_post: "hoare P m Q' \<Longrightarrow> (\<And>a s. Q' a s \<Longrightarrow> Q a s) \<Longrightarrow> hoare P m Q"
  by (auto simp: hoare_def)

lemma hoare_conj: "hoare P m Q \<Longrightarrow> hoare P' m Q' \<Longrightarrow>
    hoare (\<lambda>s. P s \<and> P' s) m (\<lambda>a s. Q a s \<and> Q' a s)"
  by (auto simp: hoare_def)

lemma hoare_return [hoare_intros]: "(\<And>s. P s \<Longrightarrow> Q x s) \<Longrightarrow> hoare P (State_Monad.return x) Q"
  by (simp add: hoare_def)

lemma hoare_bind [hoare_intros]:
  "hoare P m R \<Longrightarrow> (\<And>a. hoare (R a) (f a) Q) \<Longrightarrow> hoare P (State_Monad.bind m f) Q"
  by (fastforce simp: hoare_def split: prod.splits)

lemma hoare_if [hoare_intros]:
  "(b \<Longrightarrow> hoare P m Q) \<Longrightarrow> (\<not> b \<Longrightarrow> hoare P n Q) \<Longrightarrow> hoare P (if b then m else n) Q"
  by simp

lemma hoare_case_option [hoare_intros]:
  "(x = None \<Longrightarrow> hoare P m Q) \<Longrightarrow> (\<And>y. x = Some y \<Longrightarrow> hoare P (f y) Q) \<Longrightarrow>
   hoare P (case x of None \<Rightarrow> m | Some y \<Rightarrow> f y) Q"
  by (cases x) auto

lemma hoare_case_sum [hoare_intros]:
  "(\<And>e. x = Inl e \<Longrightarrow> hoare P (f e) Q) \<Longrightarrow> (\<And>y. x = Inr y \<Longrightarrow> hoare P (g y) Q) \<Longrightarrow>
   hoare P (case x of Inl e \<Rightarrow> f e | Inr y \<Rightarrow> g y) Q"
  by (cases x) auto

section \<open>Lists\<close>

lemma distinct_map_inj_lookup:
  "distinct (map f xs) \<Longrightarrow> x \<in> set xs \<Longrightarrow> y \<in> set xs \<Longrightarrow> f x = f y \<Longrightarrow> x = y"
  by (auto simp: distinct_map inj_on_def)

lemma sum_list_pos_ex: "(0::int) < sum_list xs \<Longrightarrow> \<exists>x \<in> set xs. 0 < x"
  by (induction xs) force+

lemma rev_filter_map: "rev (map f (filter p xs)) = map f (filter p (rev xs))"
  by (simp add: rev_map rev_filter)

lemma append_before: "xs @ q = pre @ i # rest \<Longrightarrow> i \<notin> set xs \<Longrightarrow> set xs \<subseteq> set pre"
proof (induction xs arbitrary: pre)
  case (Cons x xs)
  then show ?case by (cases pre) auto
qed simp

end
