(* ===== verification/PipelineGraph.thy ===== *)
theory PipelineGraph
  imports FPrelude
begin

text \<open>
  The template side of the pipeline orchestrator
  (\<^verbatim>\<open>services/pipeline-orchestrator/internal/domain\<close>): the enums and structs of \<^verbatim>\<open>models.go\<close>, the
  sentinels of \<^verbatim>\<open>errors.go\<close>, graph validation and the level-wise topological sort. The theory
  shows that \<open>validateGraph\<close> accepts exactly the graphs that satisfy the documented rules, and
  that \<open>topoLevels\<close> returns every step once, after all the steps it depends on, and fails
  exactly on cyclic graphs.
\<close>

section \<open>Enums\<close>

text \<open>
  A Go enum is an int, so a value outside the declared constants can occur. Each datatype has the
  declared constants and one constructor for the remaining ints; \<open>StepType_int\<close> is the int of a
  value.
\<close>

datatype PipelineType = PipelineTypeUnspecified | PipelineTypeDeploymentSaga
  | PipelineTypeTrainingDAG | PipelineTypeBatchInference | PipelineTypeOther int

definition IsDAG :: "PipelineType \<Rightarrow> bool" where
  "IsDAG t = (t = PipelineTypeTrainingDAG \<or> t = PipelineTypeBatchInference)"

definition IsSaga :: "PipelineType \<Rightarrow> bool" where
  "IsSaga t = (t = PipelineTypeDeploymentSaga)"

fun PipelineType_String :: "PipelineType \<Rightarrow> string" where
  "PipelineType_String PipelineTypeDeploymentSaga = ''DEPLOYMENT_SAGA''"
| "PipelineType_String PipelineTypeTrainingDAG = ''TRAINING_DAG''"
| "PipelineType_String PipelineTypeBatchInference = ''BATCH_INFERENCE''"
| "PipelineType_String _ = ''UNSPECIFIED''"

datatype StepType = StepTypeUnspecified | StepTypeValidate | StepTypeBuild | StepTypeDeploy
  | StepTypeCanary | StepTypePromote | StepTypeTrain | StepTypeEvaluate | StepTypeRegister
  | StepTypeCustom | StepTypeOther int

fun StepType_int :: "StepType \<Rightarrow> int" where
  "StepType_int StepTypeUnspecified = 0"
| "StepType_int StepTypeValidate = 1"
| "StepType_int StepTypeBuild = 2"
| "StepType_int StepTypeDeploy = 3"
| "StepType_int StepTypeCanary = 4"
| "StepType_int StepTypePromote = 5"
| "StepType_int StepTypeTrain = 6"
| "StepType_int StepTypeEvaluate = 7"
| "StepType_int StepTypeRegister = 8"
| "StepType_int StepTypeCustom = 9"
| "StepType_int (StepTypeOther n) = (if n < 0 then n else n + 10)"

fun StepType_String :: "StepType \<Rightarrow> string" where
  "StepType_String StepTypeValidate = ''VALIDATE''"
| "StepType_String StepTypeBuild = ''BUILD''"
| "StepType_String StepTypeDeploy = ''DEPLOY''"
| "StepType_String StepTypeCanary = ''CANARY''"
| "StepType_String StepTypePromote = ''PROMOTE''"
| "StepType_String StepTypeTrain = ''TRAIN''"
| "StepType_String StepTypeEvaluate = ''EVALUATE''"
| "StepType_String StepTypeRegister = ''REGISTER''"
| "StepType_String StepTypeCustom = ''CUSTOM''"
| "StepType_String _ = ''UNSPECIFIED''"

definition IsKnown :: "StepType \<Rightarrow> bool" where
  "IsKnown t = (StepType_int StepTypeValidate \<le> StepType_int t
              \<and> StepType_int t \<le> StepType_int StepTypeCustom)"

datatype ExecutionStatus = ExecutionStatusUnspecified | ExecutionStatusPending
  | ExecutionStatusRunning | ExecutionStatusCompensating | ExecutionStatusCompleted
  | ExecutionStatusFailed | ExecutionStatusCancelled

definition IsTerminal :: "ExecutionStatus \<Rightarrow> bool" where
  "IsTerminal s = (s = ExecutionStatusCompleted \<or> s = ExecutionStatusFailed
                 \<or> s = ExecutionStatusCancelled)"

fun ExecutionStatus_String :: "ExecutionStatus \<Rightarrow> string" where
  "ExecutionStatus_String ExecutionStatusPending = ''PENDING''"
| "ExecutionStatus_String ExecutionStatusRunning = ''RUNNING''"
| "ExecutionStatus_String ExecutionStatusCompensating = ''COMPENSATING''"
| "ExecutionStatus_String ExecutionStatusCompleted = ''COMPLETED''"
| "ExecutionStatus_String ExecutionStatusFailed = ''FAILED''"
| "ExecutionStatus_String ExecutionStatusCancelled = ''CANCELLED''"
| "ExecutionStatus_String ExecutionStatusUnspecified = ''UNSPECIFIED''"

datatype StepStatus = StepStatusUnspecified | StepStatusPending | StepStatusRunning
  | StepStatusCompleted | StepStatusFailed | StepStatusSkipped | StepStatusCompensating
  | StepStatusCompensated | StepStatusCompensationFailed

fun StepStatus_String :: "StepStatus \<Rightarrow> string" where
  "StepStatus_String StepStatusPending = ''PENDING''"
| "StepStatus_String StepStatusRunning = ''RUNNING''"
| "StepStatus_String StepStatusCompleted = ''COMPLETED''"
| "StepStatus_String StepStatusFailed = ''FAILED''"
| "StepStatus_String StepStatusSkipped = ''SKIPPED''"
| "StepStatus_String StepStatusCompensating = ''COMPENSATING''"
| "StepStatus_String StepStatusCompensated = ''COMPENSATED''"
| "StepStatus_String StepStatusCompensationFailed = ''COMPENSATION_FAILED''"
| "StepStatus_String StepStatusUnspecified = ''UNSPECIFIED''"

section \<open>Structs\<close>

record StepDefinition =
  sd_ID :: string
  sd_Name :: string
  sd_Type :: StepType
  sd_DependsOn :: "string list"
  sd_CompensationStepID :: string
  sd_Config :: gomap
  sd_Timeout :: duration
  sd_MaxRetries :: int

definition MaxRetriesCap :: int where
  "MaxRetriesCap = 10"

definition MaxStepsPerPipeline :: nat where
  "MaxStepsPerPipeline = 256"

record PipelineDefinition =
  pd_ID :: string
  pd_Name :: string
  pd_Type :: PipelineType
  pd_Steps :: "StepDefinition list"
  pd_CreatedBy :: string
  pd_CreatedAt :: time
  pd_Team :: string
  pd_Archived :: bool

text \<open>
  \<open>stepByID\<close> builds a map by assigning in slice order, so the last step with an id wins.
\<close>

definition stepByID :: "PipelineDefinition \<Rightarrow> string \<rightharpoonup> StepDefinition" where
  "stepByID p = fold (\<lambda>st m. m(sd_ID st \<mapsto> st)) (pd_Steps p) Map.empty"

section \<open>Sentinel errors\<close>

definition ErrValidation :: goerr where
  "ErrValidation = New ''pipeline: validation failed''"

definition ErrCycleDetected :: goerr where
  "ErrCycleDetected = Wrapf '''' ErrValidation '': dependency cycle detected''"

definition ErrUnknownStepType :: goerr where
  "ErrUnknownStepType = Wrapf '''' ErrValidation '': unknown step type''"

definition ErrDanglingDependency :: goerr where
  "ErrDanglingDependency = Wrapf '''' ErrValidation '': dependency references unknown step''"

definition ErrDuplicateStepID :: goerr where
  "ErrDuplicateStepID = Wrapf '''' ErrValidation '': duplicate step id''"

definition ErrTooManySteps :: goerr where
  "ErrTooManySteps = Wrapf '''' ErrValidation '': too many steps''"

definition ErrEmptyPipeline :: goerr where
  "ErrEmptyPipeline = Wrapf '''' ErrValidation '': must have at least one step''"

lemmas graph_errors = ErrValidation_def ErrCycleDetected_def ErrUnknownStepType_def
  ErrDanglingDependency_def ErrDuplicateStepID_def ErrTooManySteps_def ErrEmptyPipeline_def

section \<open>Topological levels\<close>

text \<open>
  The \<open>dependents\<close> map (parent to children) is an association list with one entry per parent; a
  missing key reads as the empty slice, as in Go.
\<close>

fun alist_append :: "'k \<Rightarrow> 'v \<Rightarrow> ('k \<times> 'v list) list \<Rightarrow> ('k \<times> 'v list) list" where
  "alist_append k v [] = [(k, [v])]"
| "alist_append k v ((k', vs) # m) =
     (if k' = k then (k', vs @ [v]) # m else (k', vs) # alist_append k v m)"

definition alist_get :: "('k \<times> 'v list) list \<Rightarrow> 'k \<Rightarrow> 'v list" where
  "alist_get m k = (case map_of m k of None \<Rightarrow> [] | Some vs \<Rightarrow> vs)"

text \<open>
  The first loop of \<open>topoLevels\<close> over one step: register the id in \<open>order\<close> when it is new, add
  the number of dependencies to its in-degree, and append it to the dependents of each. \<open>indeg\<close>
  is a map with the default 0; its keys are the members of \<open>order\<close>.
\<close>

fun topo_init_step :: "StepDefinition \<Rightarrow>
    string list \<times> (string \<Rightarrow> int) \<times> (string \<times> string list) list \<Rightarrow>
    string list \<times> (string \<Rightarrow> int) \<times> (string \<times> string list) list" where
  "topo_init_step st (order, indeg, dependents) =
     (if sd_ID st \<in> set order then order else order @ [sd_ID st],
      indeg(sd_ID st := indeg (sd_ID st) + int (length (sd_DependsOn st))),
      fold (\<lambda>dep m. alist_append dep (sd_ID st) m) (sd_DependsOn st) dependents)"

definition topo_init :: "StepDefinition list \<Rightarrow>
    string list \<times> (string \<Rightarrow> int) \<times> (string \<times> string list) list" where
  "topo_init steps = fold topo_init_step steps ([], \<lambda>_. 0, [])"

text \<open>The inner loop over the children of one processed node.\<close>

fun release_children :: "string list \<Rightarrow> (string \<Rightarrow> int) \<Rightarrow> string list \<Rightarrow>
    (string \<Rightarrow> int) \<times> string list" where
  "release_children [] indeg nxt = (indeg, nxt)"
| "release_children (c # cs) indeg nxt =
     (let indeg' = indeg(c := indeg c - 1)
      in release_children cs indeg' (if indeg' c = 0 then nxt @ [c] else nxt))"

text \<open>One pass over a level: every node of \<open>current\<close> releases its children.\<close>

fun process_level :: "(string \<times> string list) list \<Rightarrow> string list \<Rightarrow> (string \<Rightarrow> int) \<Rightarrow>
    string list \<Rightarrow> (string \<Rightarrow> int) \<times> string list" where
  "process_level dependents [] indeg nxt = (indeg, nxt)"
| "process_level dependents (i # cur) indeg nxt =
     (case release_children (alist_get dependents i) indeg nxt of
        (indeg', nxt') \<Rightarrow> process_level dependents cur indeg' nxt')"

definition waiting :: "(string \<times> string list) list \<Rightarrow> (string \<Rightarrow> int) \<Rightarrow> string set" where
  "waiting dependents indeg = {c \<in> \<Union> (set ` snd ` set dependents). 0 < indeg c}"

text \<open>
  What one pass does: it lowers the in-degree of a node by the number of its occurrences among
  the children, and appends, once each, exactly the nodes that reached zero.
\<close>

lemma release_children_spec:
  "release_children cs indeg nxt = (indeg', nxt') \<Longrightarrow>
   (\<forall>c. indeg' c = indeg c - int (count_list cs c))
   \<and> (\<exists>new. nxt' = nxt @ new \<and> distinct new \<and> set new = {c. 0 < indeg c \<and> indeg' c \<le> 0})"
proof (induction cs arbitrary: indeg nxt)
  case Nil
  then show ?case by auto
next
  case (Cons c cs)
  let ?indeg = "indeg(c := indeg c - 1)"
  let ?nxt = "if ?indeg c = 0 then nxt @ [c] else nxt"
  from Cons.prems have rec: "release_children cs ?indeg ?nxt = (indeg', nxt')"
    by (simp add: Let_def)
  from Cons.IH [OF rec] obtain new where
    eq: "\<forall>x. indeg' x = ?indeg x - int (count_list cs x)" and
    new: "nxt' = ?nxt @ new" "distinct new" "set new = {x. 0 < ?indeg x \<and> indeg' x \<le> 0}"
    by blast
  from eq have "\<forall>x. indeg' x = indeg x - int (count_list (c # cs) x)" by simp
  moreover have "indeg' c \<le> indeg c - 1" using eq by simp
  ultimately show ?case using new
    by (intro conjI exI [of _ "(if ?indeg c = 0 then [c] else []) @ new"]) auto
qed

lemma process_level_spec:
  "process_level d cur indeg nxt = (indeg', nxt') \<Longrightarrow>
   (\<forall>c. indeg' c = indeg c - int (\<Sum>i\<leftarrow>cur. count_list (alist_get d i) c))
   \<and> (\<exists>new. nxt' = nxt @ new \<and> distinct new \<and> set new = {c. 0 < indeg c \<and> indeg' c \<le> 0})"
proof (induction cur arbitrary: indeg nxt)
  case Nil
  then show ?case by auto
next
  case (Cons i cur)
  obtain indeg1 nxt1 where step: "release_children (alist_get d i) indeg nxt = (indeg1, nxt1)"
    by fastforce
  with Cons.prems have rec: "process_level d cur indeg1 nxt1 = (indeg', nxt')" by simp
  from release_children_spec [OF step] obtain new1 where
    eq1: "\<forall>c. indeg1 c = indeg c - int (count_list (alist_get d i) c)" and
    new1: "nxt1 = nxt @ new1" "distinct new1" "set new1 = {c. 0 < indeg c \<and> indeg1 c \<le> 0}"
    by blast
  from Cons.IH [OF rec] obtain new2 where
    eq2: "\<forall>c. indeg' c = indeg1 c - int (\<Sum>i\<leftarrow>cur. count_list (alist_get d i) c)" and
    new2: "nxt' = nxt1 @ new2" "distinct new2" "set new2 = {c. 0 < indeg1 c \<and> indeg' c \<le> 0}"
    by blast
  have le: "indeg1 c \<le> indeg c" "indeg' c \<le> indeg1 c" for c
    using eq1 eq2 by simp_all
  have "(0 < indeg c \<and> indeg1 c \<le> 0) \<or> (0 < indeg1 c \<and> indeg' c \<le> 0)
      \<longleftrightarrow> 0 < indeg c \<and> indeg' c \<le> 0" for c
    using le [of c] by linarith
  then have "set (new1 @ new2) = {c. 0 < indeg c \<and> indeg' c \<le> 0}"
    using new1(3) new2(3) by (simp add: Collect_disj_eq [symmetric])
  moreover have "distinct (new1 @ new2)" using new1 new2 by auto
  ultimately show ?case using eq1 eq2 new1(1) new2(1)
    by (intro conjI exI [of _ "new1 @ new2"]) auto
qed

lemma alist_get_in:
  assumes "c \<in> set (alist_get d i)"
  shows "c \<in> \<Union> (set ` snd ` set d)"
proof -
  from assms obtain vs where "map_of d i = Some vs" "c \<in> set vs"
    by (cases "map_of d i") (auto simp: alist_get_def)
  then show ?thesis by (auto dest!: map_of_SomeD intro!: bexI [of _ "(i, vs)"])
qed

lemma finite_waiting [simp]: "finite (waiting d indeg)"
  by (simp add: waiting_def)

lemma waiting_decreases:
  assumes "process_level d current indeg [] = (indeg', nxt)"
  shows "nxt = [] \<and> card (waiting d indeg') \<le> card (waiting d indeg)
       \<or> card (waiting d indeg') < card (waiting d indeg)"
proof -
  note spec = process_level_spec [OF assms, simplified]
  have sub: "waiting d indeg' \<subseteq> waiting d indeg"
    using spec by (auto simp: waiting_def)
  show ?thesis
  proof (cases "nxt = []")
    case True
    with sub show ?thesis by (simp add: card_mono)
  next
    case False
    then obtain c where "c \<in> set nxt" by (cases nxt) auto
    with process_level_spec [OF assms] have c: "0 < indeg c" "indeg' c \<le> 0" by auto
    moreover have "indeg' c = indeg c - int (\<Sum>i\<leftarrow>current. count_list (alist_get d i) c)"
      using process_level_spec [OF assms] by blast
    ultimately have "0 < (\<Sum>i\<leftarrow>current. count_list (alist_get d i) c)" by linarith
    then have "\<exists>i \<in> set current. 0 < count_list (alist_get d i) c"
      by (induction current) auto
    then obtain i where "0 < count_list (alist_get d i) c" by blast
    then have "c \<in> set (alist_get d i)" by (metis count_list_0_iff less_irrefl)
    then have "c \<in> \<Union> (set ` snd ` set d)" by (rule alist_get_in)
    with c have "c \<in> waiting d indeg - waiting d indeg'" by (simp add: waiting_def)
    with sub have "waiting d indeg' \<subset> waiting d indeg" by blast
    then show ?thesis by (simp add: psubset_card_mono)
  qed
qed

text \<open>
  The main loop: while \<open>current\<close> is not empty it becomes a level and the nodes it releases are the
  next \<open>current\<close>. Every iteration either releases a node with unmet dependencies or is the last,
  so the loop ends on every input.
\<close>

function topo_loop :: "(string \<times> string list) list \<Rightarrow> (string \<Rightarrow> int) \<Rightarrow> string list \<Rightarrow>
    string list list \<Rightarrow> nat \<Rightarrow> string list list \<times> nat" where
  "topo_loop dependents indeg current levels processed =
     (if current = [] then (levels, processed)
      else case process_level dependents current indeg [] of (indeg', nxt) \<Rightarrow>
        topo_loop dependents indeg' nxt (levels @ [current]) (processed + length current))"
  by pat_completeness auto
termination
proof (relation "measure (\<lambda>(d, indeg, current, levels, processed).
    card (waiting d indeg) + (if current = [] then 0 else 1))", goal_cases)
  case 1
  show ?case by simp
next
  case (2 d indeg current levels processed indeg' nxt)
  then have "process_level d current indeg [] = (indeg', nxt)" by simp
  from waiting_decreases [OF this] 2(1) show ?case by auto
qed

declare topo_loop.simps [simp del]

definition topoLevels :: "StepDefinition list \<Rightarrow> goerr + string list list" where
  "topoLevels steps = (case topo_init steps of (order, indeg, dependents) \<Rightarrow>
     case topo_loop dependents indeg (filter (\<lambda>i. indeg i = 0) order) [] 0 of
       (levels, processed) \<Rightarrow>
         if processed < length order then Inl (Wrapf '''' ErrCycleDetected '''')
         else Inr levels)"

definition topoOrder :: "StepDefinition list \<Rightarrow> goerr + string list" where
  "topoOrder steps = (case topoLevels steps of Inl e \<Rightarrow> Inl e
                      | Inr levels \<Rightarrow> Inr (concat levels))"

section \<open>Validation\<close>

text \<open>The loop over ids and types; \<open>ids\<close> is the set collected so far.\<close>

fun validate_ids :: "StepDefinition list \<Rightarrow> string set \<Rightarrow> goerr + string set" where
  "validate_ids [] ids = Inr ids"
| "validate_ids (st # sts) ids =
     (if sd_ID st = '''' then Inl (Wrapf '''' ErrValidation '': a step has an empty id'')
      else if sd_ID st \<in> ids then Inl (Wrapf '''' ErrDuplicateStepID ('': '' @ quote (sd_ID st)))
      else if \<not> IsKnown (sd_Type st) then
        Inl (Wrapf '''' ErrUnknownStepType
              ('': step '' @ quote (sd_ID st) @ '' has type '' @ StepType_String (sd_Type st)))
      else validate_ids sts (insert (sd_ID st) ids))"

fun validate_deps :: "string set \<Rightarrow> string \<Rightarrow> string list \<Rightarrow> goerr option" where
  "validate_deps ids me [] = None"
| "validate_deps ids me (dep # deps) =
     (if dep \<notin> ids then
        Some (Wrapf '''' ErrDanglingDependency
          ('': step '' @ quote me @ '' depends_on unknown step '' @ quote dep))
      else if dep = me then
        Some (Wrapf '''' ErrCycleDetected ('': step '' @ quote me @ '' depends on itself''))
      else validate_deps ids me deps)"

fun validate_edges :: "string set \<Rightarrow> StepDefinition list \<Rightarrow> goerr option" where
  "validate_edges ids [] = None"
| "validate_edges ids (st # sts) =
     (case validate_deps ids (sd_ID st) (sd_DependsOn st) of
        Some e \<Rightarrow> Some e
      | None \<Rightarrow>
         if sd_CompensationStepID st \<noteq> '''' \<and> sd_CompensationStepID st \<notin> ids then
           Some (Wrapf '''' ErrDanglingDependency
             ('': step '' @ quote (sd_ID st) @ '' compensation references unknown step ''
              @ quote (sd_CompensationStepID st)))
         else validate_edges ids sts)"

definition validateGraph :: "PipelineType \<Rightarrow> StepDefinition list \<Rightarrow> goerr option" where
  "validateGraph ty steps =
     (if steps = [] then Some ErrEmptyPipeline
      else if length steps > MaxStepsPerPipeline then
        Some (Wrapf '''' ErrTooManySteps ('': '' @ itoa (int (length steps)) @ '' steps exceeds cap ''
               @ itoa (int MaxStepsPerPipeline)))
      else case validate_ids steps {} of
        Inl e \<Rightarrow> Some e
      | Inr ids \<Rightarrow>
         (case validate_edges ids steps of
            Some e \<Rightarrow> Some e
          | None \<Rightarrow>
             (case topoLevels steps of Inl e \<Rightarrow> Some e | Inr _ \<Rightarrow> None)))"

text \<open>Cloning a step list for storage: the retry budget is clamped to \<open>[0, MaxRetriesCap]\<close>.\<close>

definition clampRetries :: "StepDefinition \<Rightarrow> StepDefinition" where
  "clampRetries st = (let st1 = (if sd_MaxRetries st < 0 then st\<lparr>sd_MaxRetries := 0\<rparr> else st)
     in if sd_MaxRetries st1 > MaxRetriesCap then st1\<lparr>sd_MaxRetries := MaxRetriesCap\<rparr> else st1)"

definition cloneStepsClamped :: "StepDefinition list \<Rightarrow> StepDefinition list" where
  "cloneStepsClamped steps = map clampRetries steps"

definition isDeployStep :: "StepType \<Rightarrow> bool" where
  "isDeployStep t = (t = StepTypeDeploy \<or> t = StepTypePromote)"

definition clampPageSize :: "int \<Rightarrow> int" where
  "clampPageSize requested = (if requested \<le> 0 then 20 else if requested > 100 then 100 else requested)"

section \<open>Correctness of the sort\<close>

text \<open>
  The dependencies of an id (those of every step with that id, in order) and the depends-on
  relation of a graph.
\<close>

definition deps_of :: "StepDefinition list \<Rightarrow> string \<Rightarrow> string list" where
  "deps_of steps c = concat (map sd_DependsOn (filter (\<lambda>st. sd_ID st = c) steps))"

definition dep_rel :: "StepDefinition list \<Rightarrow> (string \<times> string) set" where
  "dep_rel steps = {(d, c). d \<in> set (deps_of steps c)}"

abbreviation step_ids :: "StepDefinition list \<Rightarrow> string set" where
  "step_ids steps \<equiv> set (map sd_ID steps)"

lemma set_deps_of: "set (deps_of steps c) = (\<Union>st \<in> {st \<in> set steps. sd_ID st = c}. set (sd_DependsOn st))"
  by (auto simp: deps_of_def)

lemma deps_of_unique:
  "distinct (map sd_ID steps) \<Longrightarrow> st \<in> set steps \<Longrightarrow> set (deps_of steps (sd_ID st)) = set (sd_DependsOn st)"
  by (auto simp: set_deps_of dest: distinct_map_inj_lookup)

lemma deps_of_outside: "c \<notin> step_ids steps \<Longrightarrow> deps_of steps c = []"
  by (auto simp: deps_of_def filter_empty_conv)

lemma dep_rel_subset:
  "(\<And>st. st \<in> set steps \<Longrightarrow> set (sd_DependsOn st) \<subseteq> step_ids steps) \<Longrightarrow>
   dep_rel steps \<subseteq> step_ids steps \<times> step_ids steps"
  by (fastforce simp: dep_rel_def set_deps_of)

lemma alist_get_append:
  "alist_get (alist_append k v m) k' = (if k' = k then alist_get m k' @ [v] else alist_get m k')"
  by (induction k v m rule: alist_append.induct) (auto simp: alist_get_def)

lemma count_fold_append:
  "count_list (alist_get (fold (\<lambda>dep m. alist_append dep i m) ds m) p) c
   = count_list (alist_get m p) c + (if c = i then count_list ds p else 0)"
  by (induction ds arbitrary: m) (auto simp: alist_get_append)

lemma topo_init_fold:
  assumes "fold topo_init_step steps (order, indeg, d) = (order', indeg', d')" and "distinct order"
  shows "set order' = set order \<union> step_ids steps \<and> distinct order'
     \<and> (\<forall>c. indeg' c = indeg c + int (length (deps_of steps c)))
     \<and> (\<forall>p c. count_list (alist_get d' p) c = count_list (alist_get d p) c + count_list (deps_of steps c) p)"
  using assms
proof (induction steps arbitrary: order indeg d)
  case Nil
  then show ?case by (simp add: deps_of_def)
next
  case (Cons st steps)
  from Cons.IH [OF Cons.prems(1) [simplified]] Cons.prems(2)
  show ?case
    by (simp add: deps_of_def count_fold_append insert_absorb)
qed

lemma topo_init_spec:
  assumes "topo_init steps = (order, indeg, d)"
  shows "set order = step_ids steps" "distinct order"
    "indeg c = int (length (deps_of steps c))"
    "count_list (alist_get d p) c = count_list (deps_of steps c) p"
  using topo_init_fold [OF assms [unfolded topo_init_def]] by (auto simp: alist_get_def)

lemma sum_count_distinct:
  "distinct cur \<Longrightarrow> (\<Sum>i\<leftarrow>cur. count_list xs i) = length (filter (\<lambda>x. x \<in> set cur) xs)"
proof (induction cur)
  case (Cons i cur)
  have "length (filter (\<lambda>x. x \<in> set (i # cur)) xs)
      = count_list xs i + length (filter (\<lambda>x. x \<in> set cur) xs)"
    using Cons.prems by (induction xs) auto
  with Cons show ?case by simp
qed simp

text \<open>
  The loop invariant: the levels so far and \<open>current\<close> hold distinct steps of the graph, the
  in-degree of a node is the number of its dependencies that are not in a finished level, the
  nodes with in-degree 0 are those that are finished or current, and every level only depends on
  earlier ones.
\<close>

definition layered :: "StepDefinition list \<Rightarrow> string list list \<Rightarrow> bool" where
  "layered steps levels = (\<forall>k < length levels. \<forall>c \<in> set (levels ! k).
     set (deps_of steps c) \<subseteq> set (concat (take k levels)))"

definition topo_inv :: "StepDefinition list \<Rightarrow> (string \<Rightarrow> int) \<Rightarrow> string list \<Rightarrow>
    string list list \<Rightarrow> nat \<Rightarrow> bool" where
  "topo_inv steps indeg current levels processed \<longleftrightarrow>
     distinct (concat levels @ current)
   \<and> set (concat levels @ current) = {c \<in> step_ids steps. indeg c = 0}
   \<and> (\<forall>c. indeg c = int (length (filter (\<lambda>p. p \<notin> set (concat levels)) (deps_of steps c))))
   \<and> layered steps levels
   \<and> processed = length (concat levels)"

lemma layered_snoc:
  "layered steps levels \<Longrightarrow> (\<And>c. c \<in> set l \<Longrightarrow> set (deps_of steps c) \<subseteq> set (concat levels)) \<Longrightarrow>
   layered steps (levels @ [l])"
  by (auto simp: layered_def nth_append less_Suc_eq)

lemma filter_notin_split:
  "length (filter (\<lambda>p. p \<notin> A) xs) = length (filter (\<lambda>p. p \<notin> A \<union> B) xs) + length (filter (\<lambda>p. p \<in> B) xs)"
  if "A \<inter> B = {}"
  using that by (induction xs) auto

lemma topo_inv_step:
  assumes inv: "topo_inv steps indeg current levels processed"
    and counts: "\<And>p c. count_list (alist_get d p) c = count_list (deps_of steps c) p"
    and pl: "process_level d current indeg [] = (indeg', nxt)"
  shows "topo_inv steps indeg' nxt (levels @ [current]) (processed + length current)"
proof -
  let ?done = "set (concat levels)"
  from inv have dist: "distinct (concat levels)" "distinct current" "?done \<inter> set current = {}"
    and zero: "?done \<union> set current = {c \<in> step_ids steps. indeg c = 0}"
    and deg: "\<And>c. indeg c = int (length (filter (\<lambda>p. p \<notin> ?done) (deps_of steps c)))"
    and lay: "layered steps levels" and proc: "processed = length (concat levels)"
    by (auto simp: topo_inv_def)
  from process_level_spec [OF pl] have
    deg': "\<And>c. indeg' c = indeg c - int (\<Sum>i\<leftarrow>current. count_list (alist_get d i) c)"
    and nxt: "distinct nxt" "set nxt = {c. 0 < indeg c \<and> indeg' c \<le> 0}" by auto
  have newdeg: "indeg' c = int (length (filter (\<lambda>p. p \<notin> ?done \<union> set current) (deps_of steps c)))" for c
    using filter_notin_split [OF dist(3), of "deps_of steps c"]
    by (simp add: deg' deg counts sum_count_distinct [OF dist(2)])
  have pos: "0 \<le> indeg c" "0 \<le> indeg' c" "indeg' c \<le> indeg c" for c
    using deg [of c] newdeg [of c] deg' [of c] by linarith+
  have outside: "indeg c = 0" if "c \<notin> step_ids steps" for c
    using that by (simp add: deg deps_of_outside)
  have "set (deps_of steps c) \<subseteq> ?done" if "c \<in> set current" for c
  proof -
    from that zero have "indeg c = 0" by blast
    with deg [of c] show ?thesis by (auto simp: filter_empty_conv)
  qed
  then have "layered steps (levels @ [current])" by (rule layered_snoc [OF lay])
  moreover have "?done \<union> set current \<union> set nxt = {c \<in> step_ids steps. indeg' c = 0}"
  proof -
    have "c \<in> step_ids steps \<and> indeg c = 0 \<or> 0 < indeg c \<and> indeg' c \<le> 0
        \<longleftrightarrow> c \<in> step_ids steps \<and> indeg' c = 0" for c
      using pos [of c] outside [of c] by linarith
    then show ?thesis unfolding zero nxt(2) by blast
  qed
  moreover have "distinct (concat (levels @ [current]) @ nxt)"
  proof -
    have "(?done \<union> set current) \<inter> set nxt = {}" unfolding zero nxt(2) by auto
    with dist nxt(1) show ?thesis by auto
  qed
  ultimately show ?thesis using newdeg proc by (simp add: topo_inv_def Un_assoc)
qed

lemma topo_loop_inv:
  assumes "topo_inv steps indeg current levels processed"
    and "\<And>p c. count_list (alist_get d p) c = count_list (deps_of steps c) p"
    and "topo_loop d indeg current levels processed = (levels', processed')"
  shows "\<exists>indeg'. topo_inv steps indeg' [] levels' processed'"
  using assms
proof (induction d indeg current levels processed rule: topo_loop.induct)
  case (1 d indeg current levels processed)
  show ?case
  proof (cases "current = []")
    case True
    with "1.prems" show ?thesis by (auto simp: topo_loop.simps [of d indeg])
  next
    case False
    obtain indeg' nxt where pl: "process_level d current indeg [] = (indeg', nxt)" by fastforce
    from topo_inv_step [OF "1.prems"(1,2) pl]
    have "topo_inv steps indeg' nxt (levels @ [current]) (processed + length current)" .
    moreover have "topo_loop d indeg' nxt (levels @ [current]) (processed + length current)
        = (levels', processed')"
      using "1.prems"(3) False pl by (simp add: topo_loop.simps [of d indeg])
    ultimately show ?thesis using "1.IH" [OF False pl [symmetric]] "1.prems"(2) by blast
  qed
qed

lemma topoLevels_cases:
  obtains levels indeg where "topo_inv steps indeg [] levels (length (concat levels))"
    "topoLevels steps = (if set (concat levels) \<noteq> step_ids steps
       then Inl (Wrapf '''' ErrCycleDetected '''') else Inr levels)"
proof -
  obtain order indeg d where init: "topo_init steps = (order, indeg, d)" by (metis prod_cases3)
  note spec = topo_init_spec [OF init]
  let ?cur = "filter (\<lambda>i. indeg i = 0) order"
  have "topo_inv steps indeg ?cur [] 0"
    using spec by (auto simp: topo_inv_def layered_def)
  moreover obtain levels processed where
    loop: "topo_loop d indeg ?cur [] 0 = (levels, processed)" by fastforce
  ultimately obtain indeg' where inv: "topo_inv steps indeg' [] levels processed"
    using topo_loop_inv spec(4) by blast
  then have sub: "set (concat levels) \<subseteq> step_ids steps" "distinct (concat levels)"
    and proc: "processed = length (concat levels)" by (auto simp: topo_inv_def)
  have "length order = card (step_ids steps)" "processed = card (set (concat levels))"
    using spec(1,2) sub(2) proc by (metis distinct_card)+
  then have "processed < length order \<longleftrightarrow> set (concat levels) \<noteq> step_ids steps"
    using sub(1) by (metis List.finite_set card_mono card_subset_eq le_less less_irrefl)
  with init loop have "topoLevels steps = (if set (concat levels) \<noteq> step_ids steps
       then Inl (Wrapf '''' ErrCycleDetected '''') else Inr levels)"
    by (simp add: topoLevels_def)
  with inv proc that show thesis by blast
qed

lemma in_concat_take:
  assumes "x \<in> set (concat (take k xss))"
  shows "\<exists>j < k. j < length xss \<and> x \<in> set (xss ! j)"
proof -
  from assms obtain xs where "xs \<in> set (take k xss)" "x \<in> set xs" by auto
  moreover from this(1) obtain j where "j < length (take k xss)" "take k xss ! j = xs"
    by (metis in_set_conv_nth)
  ultimately show ?thesis by auto
qed

lemma layered_acyclic:
  assumes "layered steps levels" "step_ids steps \<subseteq> set (concat levels)"
  shows "acyclic (dep_rel steps)"
proof -
  let ?lvl = "\<lambda>c. LEAST k. k < length levels \<and> c \<in> set (levels ! k)"
  have "(x, y) \<in> inv_image less_than ?lvl" if "(x, y) \<in> dep_rel steps" for x y
  proof -
    from that have x: "x \<in> set (deps_of steps y)" by (simp add: dep_rel_def)
    then have "y \<in> step_ids steps" using deps_of_outside by fastforce
    with assms(2) obtain l where "l \<in> set levels" "y \<in> set l" by auto
    then have "\<exists>k. k < length levels \<and> y \<in> set (levels ! k)"
      by (metis in_set_conv_nth)
    then have k: "?lvl y < length levels" "y \<in> set (levels ! ?lvl y)"
      by (rule LeastI2_ex, simp)+
    with assms(1) have "set (deps_of steps y) \<subseteq> set (concat (take (?lvl y) levels))"
      unfolding layered_def by blast
    with x have "x \<in> set (concat (take (?lvl y) levels))" ..
    then obtain j where "j < ?lvl y" "j < length levels" "x \<in> set (levels ! j)"
      by (blast dest: in_concat_take)
    then have "?lvl x < ?lvl y" by (metis (mono_tags, lifting) Least_le le_less_trans)
    then show ?thesis by simp
  qed
  then have "dep_rel steps \<subseteq> inv_image less_than ?lvl" by auto
  then have "wf (dep_rel steps)" by (rule wf_subset [OF wf_inv_image [OF wf_less_than]])
  then show ?thesis by (rule wf_acyclic)
qed

lemma stuck_cyclic:
  assumes inv: "topo_inv steps indeg [] levels n"
    and closed: "dep_rel steps \<subseteq> step_ids steps \<times> step_ids steps"
    and stuck: "set (concat levels) \<noteq> step_ids steps"
  shows "\<not> acyclic (dep_rel steps)"
proof
  assume "acyclic (dep_rel steps)"
  moreover have "finite (dep_rel steps)" by (rule finite_subset [OF closed]) simp
  ultimately have wf: "wf (dep_rel steps)" by (rule finite_acyclic_wf [rotated])
  let ?U = "step_ids steps - set (concat levels)"
  from inv have "?U \<noteq> {}" using stuck by (auto simp: topo_inv_def)
  then obtain c where c: "c \<in> ?U" "\<And>p. (p, c) \<in> dep_rel steps \<Longrightarrow> p \<notin> ?U"
    using wf by (metis (no_types, lifting) ex_in_conv wfE_min)
  from c(1) inv have "indeg c \<noteq> 0" by (auto simp: topo_inv_def)
  with inv obtain p where "p \<in> set (deps_of steps c)" "p \<notin> set (concat levels)"
    by (auto simp: topo_inv_def filter_empty_conv)
  with closed c(2) show False by (auto simp: dep_rel_def)
qed

text \<open>What \<open>topoLevels\<close> returns, and when it fails.\<close>

lemma topoLevels_Inr:
  assumes "topoLevels steps = Inr levels"
  shows "distinct (concat levels)" "set (concat levels) = step_ids steps" "layered steps levels"
    "acyclic (dep_rel steps)"
proof -
  obtain indeg where inv: "topo_inv steps indeg [] levels (length (concat levels))"
    and all: "set (concat levels) = step_ids steps"
    using topoLevels_cases [of steps] assms by (metis Inl_Inr_False Inr_inject)
  then show "distinct (concat levels)" "layered steps levels" "set (concat levels) = step_ids steps"
    by (auto simp: topo_inv_def)
  with layered_acyclic show "acyclic (dep_rel steps)" by blast
qed

lemma topoLevels_acyclic_iff:
  assumes "dep_rel steps \<subseteq> step_ids steps \<times> step_ids steps"
  shows "(\<exists>levels. topoLevels steps = Inr levels) \<longleftrightarrow> acyclic (dep_rel steps)"
  using topoLevels_cases [of steps] stuck_cyclic [OF _ assms] topoLevels_Inr(4) by metis

section \<open>Correctness of validation\<close>

lemma validate_ids_Inr:
  "validate_ids steps ids = Inr ids' \<longleftrightarrow>
   distinct (map sd_ID steps) \<and> ids \<inter> step_ids steps = {} \<and> ids' = ids \<union> step_ids steps
   \<and> (\<forall>st \<in> set steps. sd_ID st \<noteq> '''' \<and> IsKnown (sd_Type st))"
proof (induction steps arbitrary: ids)
  case Nil
  then show ?case by auto
next
  case (Cons st steps)
  show ?case
  proof (cases "sd_ID st = '''' \<or> sd_ID st \<in> ids \<or> \<not> IsKnown (sd_Type st)")
    case True
    then show ?thesis by auto
  next
    case False
    then have "validate_ids (st # steps) ids = validate_ids steps (insert (sd_ID st) ids)" by simp
    with Cons.IH [of "insert (sd_ID st) ids"] False show ?thesis by auto
  qed
qed

lemma validate_deps_None:
  "validate_deps ids me deps = None \<longleftrightarrow> set deps \<subseteq> ids \<and> me \<notin> set deps"
  by (induction deps) auto

lemma validate_edges_None:
  "validate_edges ids steps = None \<longleftrightarrow>
   (\<forall>st \<in> set steps. set (sd_DependsOn st) \<subseteq> ids \<and> sd_ID st \<notin> set (sd_DependsOn st)
      \<and> (sd_CompensationStepID st = '''' \<or> sd_CompensationStepID st \<in> ids))"
proof (induction steps)
  case (Cons st steps)
  with validate_deps_None [of ids "sd_ID st" "sd_DependsOn st"] show ?case
    by (cases "validate_deps ids (sd_ID st) (sd_DependsOn st)") auto
qed simp

lemma acyclic_no_self:
  "acyclic (dep_rel steps) \<Longrightarrow> st \<in> set steps \<Longrightarrow> sd_ID st \<notin> set (sd_DependsOn st)"
  by (auto simp: acyclic_def dep_rel_def set_deps_of)

lemma validateGraph_None:
  "validateGraph ty steps = None \<longleftrightarrow>
     steps \<noteq> [] \<and> length steps \<le> MaxStepsPerPipeline
   \<and> distinct (map sd_ID steps) \<and> (\<forall>st \<in> set steps. sd_ID st \<noteq> '''' \<and> IsKnown (sd_Type st))
   \<and> validate_edges (step_ids steps) steps = None \<and> (\<exists>levels. topoLevels steps = Inr levels)"
proof (cases "validate_ids steps {}")
  case (Inl e)
  then have "\<not> (distinct (map sd_ID steps) \<and> (\<forall>st \<in> set steps. sd_ID st \<noteq> '''' \<and> IsKnown (sd_Type st)))"
    using validate_ids_Inr [of steps "{}"] by auto
  with Inl show ?thesis by (auto simp: validateGraph_def)
next
  case (Inr ids)
  with validate_ids_Inr [of steps "{}" ids] show ?thesis
    by (auto simp: validateGraph_def split: option.splits sum.splits)
qed

lemma validate_ids_Inl: "validate_ids steps ids = Inl e \<Longrightarrow> errors_Is e ErrValidation"
  by (induction steps arbitrary: ids) (auto simp: graph_errors split: if_splits)

lemma validate_deps_Some: "validate_deps ids me deps = Some e \<Longrightarrow> errors_Is e ErrValidation"
  by (induction deps) (auto simp: graph_errors split: if_splits)

lemma validate_edges_Some: "validate_edges ids steps = Some e \<Longrightarrow> errors_Is e ErrValidation"
  by (induction steps)
    (auto simp: graph_errors split: if_splits option.splits dest: validate_deps_Some)

lemma topoLevels_Inl: "topoLevels steps = Inl e \<Longrightarrow> errors_Is e ErrCycleDetected \<and> errors_Is e ErrValidation"
  by (auto simp: topoLevels_def graph_errors split: prod.splits if_splits)

section \<open>Properties\<close>

lemma validateGraph_rules:
  "validateGraph ty steps = None \<longleftrightarrow>
     steps \<noteq> [] \<and> length steps \<le> MaxStepsPerPipeline \<and> distinct (map sd_ID steps)
   \<and> (\<forall>st \<in> set steps. sd_ID st \<noteq> '''' \<and> IsKnown (sd_Type st)
        \<and> set (sd_DependsOn st) \<subseteq> step_ids steps
        \<and> (sd_CompensationStepID st = '''' \<or> sd_CompensationStepID st \<in> step_ids steps))
   \<and> acyclic (dep_rel steps)"
proof (cases "\<forall>st \<in> set steps. set (sd_DependsOn st) \<subseteq> step_ids steps")
  case True
  then have "dep_rel steps \<subseteq> step_ids steps \<times> step_ids steps" by (intro dep_rel_subset) blast
  then have "(\<exists>levels. topoLevels steps = Inr levels) \<longleftrightarrow> acyclic (dep_rel steps)"
    by (rule topoLevels_acyclic_iff)
  then show ?thesis
    unfolding validateGraph_None validate_edges_None using acyclic_no_self [of steps] by blast
next
  case False
  then show ?thesis unfolding validateGraph_None validate_edges_None by blast
qed

text \<open>The rules do not look at the retry budget.\<close>

lemma validateGraph_cong:
  assumes "map sd_ID steps = map sd_ID steps'" "map sd_Type steps = map sd_Type steps'"
    "map sd_DependsOn steps = map sd_DependsOn steps'"
    "map sd_CompensationStepID steps = map sd_CompensationStepID steps'"
  shows "validateGraph ty steps = None \<longleftrightarrow> validateGraph ty steps' = None"
proof -
  have len: "length steps = length steps'" using assms(1) by (metis length_map)
  let ?f = "\<lambda>st. (sd_ID st, sd_Type st, sd_DependsOn st, sd_CompensationStepID st)"
  have same: "map ?f steps = map ?f steps'"
    by (rule nth_equalityI) (use len assms in \<open>auto simp: list_eq_iff_nth_eq\<close>)
  from arg_cong [OF same, of set] have fs: "?f ` set steps = ?f ` set steps'" by simp
  have rules: "(\<forall>st \<in> set steps. Q (?f st)) \<longleftrightarrow> (\<forall>st \<in> set steps'. Q (?f st))" for Q
  proof -
    have "(\<forall>x \<in> ?f ` set steps. Q x) \<longleftrightarrow> (\<forall>x \<in> ?f ` set steps'. Q x)" unfolding fs ..
    then show ?thesis by (simp only: ball_simps)
  qed
  have deps: "deps_of steps c = deps_of steps' c" for c
  proof -
    have *: "deps_of xs c = concat (map (\<lambda>(i, ty, ds, u). ds) (filter (\<lambda>(i, ty, ds, u). i = c) (map ?f xs)))" for xs
      by (simp add: deps_of_def filter_map comp_def)
    show ?thesis unfolding * same ..
  qed
  from arg_cong [OF assms(1), of set] have ids: "step_ids steps = step_ids steps'" by simp
  have dr: "dep_rel steps = dep_rel steps'" by (simp add: dep_rel_def deps)
  have ne: "steps = [] \<longleftrightarrow> steps' = []" using len by auto
  have fields: "(\<forall>st \<in> set steps. sd_ID st \<noteq> '''' \<and> IsKnown (sd_Type st) \<and> set (sd_DependsOn st) \<subseteq> step_ids steps'
      \<and> (sd_CompensationStepID st = '''' \<or> sd_CompensationStepID st \<in> step_ids steps'))
    \<longleftrightarrow> (\<forall>st \<in> set steps'. sd_ID st \<noteq> '''' \<and> IsKnown (sd_Type st) \<and> set (sd_DependsOn st) \<subseteq> step_ids steps'
      \<and> (sd_CompensationStepID st = '''' \<or> sd_CompensationStepID st \<in> step_ids steps'))"
    using rules [of "\<lambda>(i, ty, ds, u). i \<noteq> '''' \<and> IsKnown ty \<and> set ds \<subseteq> step_ids steps' \<and> (u = '''' \<or> u \<in> step_ids steps')"]
    by simp
  show ?thesis unfolding validateGraph_rules ids dr len ne fields assms(1) ..
qed

lemma validateGraph_clamped:
  "validateGraph ty steps = None \<Longrightarrow> validateGraph ty (cloneStepsClamped steps) = None"
  by (subst validateGraph_cong [of _ steps]) (simp_all add: cloneStepsClamped_def clampRetries_def comp_def Let_def)

text \<open>C34: \<open>validateGraph\<close> accepts a step list exactly when it satisfies the documented rules: it is
  not empty and within the cap of 256 steps, ids are non-empty and unique, every type is known,
  every dependency and every compensation pointer names a step of the list, and the depends-on
  relation has no cycle.\<close>

theorem validateGraph_accepts_iff:
  "validateGraph ty steps = None \<longleftrightarrow>
     steps \<noteq> [] \<and> length steps \<le> MaxStepsPerPipeline \<and> distinct (map sd_ID steps)
   \<and> (\<forall>st \<in> set steps. sd_ID st \<noteq> '''' \<and> IsKnown (sd_Type st)
        \<and> set (sd_DependsOn st) \<subseteq> step_ids steps
        \<and> (sd_CompensationStepID st = '''' \<or> sd_CompensationStepID st \<in> step_ids steps))
   \<and> acyclic (dep_rel steps)"
  by (rule validateGraph_rules)

definition ex_step :: "string \<Rightarrow> StepType \<Rightarrow> string list \<Rightarrow> string \<Rightarrow> StepDefinition" where
  "ex_step i ty deps undo = \<lparr>sd_ID = i, sd_Name = i, sd_Type = ty, sd_DependsOn = deps,
     sd_CompensationStepID = undo, sd_Config = Map.empty, sd_Timeout = 0, sd_MaxRetries = 1\<rparr>"

definition ex_diamond :: "StepDefinition list" where
  "ex_diamond = [ex_step ''d'' StepTypeRegister [''b'', ''c''] '''',
     ex_step ''a'' StepTypeTrain [] '''', ex_step ''b'' StepTypeEvaluate [''a''] '''',
     ex_step ''c'' StepTypeEvaluate [''a'', ''a''] '''']"

theorem validateGraph_accepts_iff_witness:
  "validateGraph PipelineTypeTrainingDAG ex_diamond = None \<and> acyclic (dep_rel ex_diamond)"
proof -
  have "validateGraph PipelineTypeTrainingDAG ex_diamond = None" by code_simp
  then show ?thesis using validateGraph_accepts_iff [of PipelineTypeTrainingDAG ex_diamond] by blast
qed

text \<open>C35: For an accepted graph \<open>topoLevels\<close> returns a schedule: it lists every step exactly once,
  and a step stands in a level only if all its dependencies stand in earlier levels, so the
  steps of one level are independent. \<open>topoOrder\<close> is that schedule flattened.\<close>

theorem topoLevels_schedule:
  assumes "validateGraph ty steps = None"
  shows "\<exists>levels. topoLevels steps = Inr levels \<and> topoOrder steps = Inr (concat levels)
     \<and> mset (concat levels) = mset (map sd_ID steps)
     \<and> (\<forall>k < length levels. \<forall>st \<in> set steps. sd_ID st \<in> set (levels ! k) \<longrightarrow>
          set (sd_DependsOn st) \<subseteq> set (concat (take k levels)))"
proof -
  from assms obtain levels where ok: "topoLevels steps = Inr levels"
    and dist: "distinct (map sd_ID steps)" by (auto simp: validateGraph_None)
  note r = topoLevels_Inr [OF ok]
  have "mset (concat levels) = mset (map sd_ID steps)"
    using r(1,2) dist by (metis set_eq_iff_mset_eq_distinct)
  moreover have "\<forall>k < length levels. \<forall>st \<in> set steps. sd_ID st \<in> set (levels ! k) \<longrightarrow>
      set (sd_DependsOn st) \<subseteq> set (concat (take k levels))"
    using r(3) deps_of_unique [OF dist] unfolding layered_def by metis
  ultimately show ?thesis using ok by (auto simp: topoOrder_def)
qed

theorem topoLevels_schedule_witness:
  "validateGraph PipelineTypeTrainingDAG ex_diamond = None
   \<and> topoLevels ex_diamond = Inr [[''a''], [''b'', ''c''], [''d'']]
   \<and> (\<exists>levels. topoLevels ex_diamond = Inr levels \<and> mset (concat levels) = mset (map sd_ID ex_diamond))"
proof -
  have v: "validateGraph PipelineTypeTrainingDAG ex_diamond = None" by code_simp
  have "topoLevels ex_diamond = Inr [[''a''], [''b'', ''c''], [''d'']]" by code_simp
  with v topoLevels_schedule [OF v] show ?thesis by blast
qed

text \<open>Every rejection of a graph is a validation error: whatever the cause, the returned error
  matches \<open>ErrValidation\<close>, and a graph whose only flaw is a cycle is rejected with an error that
  matches \<open>ErrCycleDetected\<close>.\<close>

theorem validateGraph_rejects_with_ErrValidation:
  assumes "validateGraph ty steps = Some e"
  shows "errors_Is e ErrValidation
     \<and> (validate_edges (step_ids steps) steps = None \<and> distinct (map sd_ID steps) \<and> steps \<noteq> []
        \<and> length steps \<le> MaxStepsPerPipeline
        \<and> (\<forall>st \<in> set steps. sd_ID st \<noteq> '''' \<and> IsKnown (sd_Type st))
        \<longrightarrow> errors_Is e ErrCycleDetected)"
proof -
  have "errors_Is e ErrValidation"
    using assms
    by (auto simp: validateGraph_def graph_errors split: if_splits sum.splits option.splits
        dest: validate_ids_Inl validate_edges_Some topoLevels_Inl)
  moreover have "errors_Is e ErrCycleDetected"
    if "validate_ids steps {} = Inr (step_ids steps)" "validate_edges (step_ids steps) steps = None"
      "steps \<noteq> []" "length steps \<le> MaxStepsPerPipeline"
    using assms that
    by (auto simp: validateGraph_def split: sum.splits dest: topoLevels_Inl)
  ultimately show ?thesis using validate_ids_Inr [of steps "{}" "step_ids steps"] by auto
qed

theorem validateGraph_rejects_with_ErrValidation_witness:
  "\<exists>e. validateGraph PipelineTypeTrainingDAG
        [ex_step ''a'' StepTypeTrain [''b''] '''', ex_step ''b'' StepTypeTrain [''a''] ''''] = Some e
     \<and> errors_Is e ErrValidation \<and> errors_Is e ErrCycleDetected"
proof -
  let ?g = "[ex_step ''a'' StepTypeTrain [''b''] '''', ex_step ''b'' StepTypeTrain [''a''] '''']"
  have v: "validateGraph PipelineTypeTrainingDAG ?g = Some (Wrapf '''' ErrCycleDetected '''')"
    by code_simp
  show ?thesis using v validateGraph_rejects_with_ErrValidation [OF v] by auto
qed

text \<open>A stored step list keeps every field of the submitted one except the retry budget, which
  lies in \<open>[0, 10]\<close> and is unchanged where it was in that range.\<close>

lemma cloneStepsClamped_bounds:
  "length (cloneStepsClamped steps) = length steps
   \<and> (\<forall>i < length steps. 0 \<le> sd_MaxRetries (cloneStepsClamped steps ! i)
        \<and> sd_MaxRetries (cloneStepsClamped steps ! i) \<le> MaxRetriesCap
        \<and> cloneStepsClamped steps ! i
            = (steps ! i)\<lparr>sd_MaxRetries := max 0 (min MaxRetriesCap (sd_MaxRetries (steps ! i)))\<rparr>)"
  by (auto simp: cloneStepsClamped_def clampRetries_def MaxRetriesCap_def Let_def)

end
