(* ===== verification/PipelineEngine.thy ===== *)
theory PipelineEngine
  imports PipelineGraph
begin

text \<open>
  The engine of the pipeline orchestrator (\<^verbatim>\<open>pipeline_service_impl.go\<close> from \<^verbatim>\<open>run\<close> down): the
  saga scheduler with compensation, the level-wise DAG scheduler, single-step execution with
  retries, and settlement.

  The engine reaches its surroundings through ports (\<^verbatim>\<open>ports.go\<close>): the clock, the run context,
  the repositories, the executors and the publisher. Their implementations are the parameter
  \<open>P :: 'w Ports\<close>, functions on an arbitrary world \<open>'w\<close>, so the theorems hold for every behaviour
  of executors, database, clock and cancellation. The engine's own state is the record \<open>eng\<close>: the
  world, the shared \<^verbatim>\<open>*Execution\<close>, the accumulated checkpoint errors, the cancel registry, and
  \<open>en_trace\<close>, the history of the port calls with their answers, which the code does not have and
  never reads.
\<close>

section \<open>Instance types\<close>

record StepExecution =
  se_ID :: string
  se_ExecutionID :: string
  se_StepID :: string
  se_StepType :: StepType
  se_Status :: StepStatus
  se_StartedAt :: "time option"
  se_CompletedAt :: "time option"
  se_Output :: gomap
  se_Error :: string
  se_Attempt :: int

record Execution =
  ex_ID :: string
  ex_PipelineID :: string
  ex_Status :: ExecutionStatus
  ex_CurrentStep :: string
  ex_Steps :: "StepExecution list"
  ex_TriggeredBy :: string
  ex_StartedAt :: time
  ex_CompletedAt :: "time option"
  ex_Input :: gomap
  ex_Error :: string

definition zeroExecution :: Execution where
  "zeroExecution = \<lparr>ex_ID = '''', ex_PipelineID = '''', ex_Status = ExecutionStatusUnspecified,
     ex_CurrentStep = '''', ex_Steps = [], ex_TriggeredBy = '''', ex_StartedAt = 0,
     ex_CompletedAt = None, ex_Input = Map.empty, ex_Error = ''''\<rparr>"

text \<open>
  \<^verbatim>\<open>findStep\<close> returns a pointer into the slice: here the index of the first step with the id.
\<close>

fun find_step_idx :: "StepExecution list \<Rightarrow> string \<Rightarrow> nat option" where
  "find_step_idx [] i = None"
| "find_step_idx (se # ses) i =
     (if se_StepID se = i then Some 0 else map_option Suc (find_step_idx ses i))"

definition findStep :: "Execution \<Rightarrow> string \<Rightarrow> nat option" where
  "findStep e stepID = find_step_idx (ex_Steps e) stepID"

text \<open>
  The stable sort by \<^verbatim>\<open>CompletedAt\<close>, a nil time first: \<open>sort_key\<close> is stable and \<open>None\<close> is the least
  option in \<open>Option_ord\<close>.
\<close>

definition sortStepsByCompletedAt :: "StepExecution list \<Rightarrow> StepExecution list" where
  "sortStepsByCompletedAt ses = sort_key se_CompletedAt ses"

definition completedStepsInOrder :: "Execution \<Rightarrow> StepExecution list" where
  "completedStepsInOrder e =
     sortStepsByCompletedAt (filter (\<lambda>se. se_Status se = StepStatusCompleted) (ex_Steps e))"

section \<open>Port types\<close>

record StepInput =
  si_ExecutionID :: string
  si_StepID :: string
  si_StepType :: StepType
  si_Config :: gomap
  si_Input :: gomap
  si_UpstreamOutputs :: "string \<rightharpoonup> gomap"
  si_Attempt :: int

record StepResult =
  sr_Output :: gomap
  sr_Endpoint :: string

datatype EventType = EventPipelineStarted | EventStepCompleted | EventStepFailed
  | EventCompensationTriggered | EventPipelineCompleted | EventPipelineFailed
  | EventModelDeployed | EventModelUndeployed

record StepEvent =
  ev_Type :: EventType
  ev_ExecutionID :: string
  ev_PipelineID :: string
  ev_PipelineType :: PipelineType
  ev_StepID :: string
  ev_StepType :: StepType
  ev_TriggeredBy :: string
  ev_Error :: string
  ev_Attempts :: int
  ev_Endpoint :: string
  ev_Output :: gomap
  ev_OccurredAt :: time

text \<open>An event with the execution-level fields set and the others at their zero values.\<close>

definition mkEvent :: "EventType \<Rightarrow> Execution \<Rightarrow> PipelineDefinition \<Rightarrow> time \<Rightarrow> StepEvent" where
  "mkEvent ty e p t = \<lparr>ev_Type = ty, ev_ExecutionID = ex_ID e, ev_PipelineID = pd_ID p,
     ev_PipelineType = pd_Type p, ev_StepID = '''', ev_StepType = StepTypeUnspecified,
     ev_TriggeredBy = '''', ev_Error = '''', ev_Attempts = 0, ev_Endpoint = '''',
     ev_Output = Map.empty, ev_OccurredAt = t\<rparr>"

text \<open>
  The context a call is made with: the run context (cancelled by CancelExecution), the run context
  with a step timeout, a context detached from cancellation and bounded by
  \<^verbatim>\<open>SettlementTimeout\<close>, or the context of another request.
\<close>

datatype ctx = RunCtx | StepCtx duration | DetachedCtx | ReqCtx

datatype call = CNow time | CNewID string | CCtxErr ctx "goerr option"
  | CSave ctx Execution "goerr option" | CSaveStep ctx StepExecution "goerr option"
  | CExecute ctx StepType StepInput "goerr + StepResult"
  | CCompensate ctx StepType StepInput "goerr option"
  | CPublish ctx StepEvent | CSleep ctx duration bool | CChoose "string list"
  | CGetPipeline string "goerr + PipelineDefinition"
  | CCreatePipeline PipelineDefinition string "goerr + PipelineDefinition"
  | CUpdatePipeline PipelineDefinition "goerr + PipelineDefinition"
  | CArchive string "goerr option"
  | CListPipelines string PipelineType int string
  | CCreateExec Execution string "goerr + Execution"
  | CGetExec string "goerr + Execution"
  | CListExecs string string ExecutionStatus int string
  | CCancel string | CDeadline bool

text \<open>
  The ports. \<open>p_executor\<close> says whether the registry has an executor for a type; \<open>p_sleep\<close> answers
  whether the timer fired before the context was done; \<open>p_order\<close> is the order in which the
  goroutines of a level, or the entries of a Go map, come up.
\<close>

record 'w Ports =
  p_now :: "'w \<Rightarrow> time \<times> 'w"
  p_newID :: "'w \<Rightarrow> string \<times> 'w"
  p_ctxErr :: "ctx \<Rightarrow> 'w \<Rightarrow> goerr option \<times> 'w"
  p_save :: "ctx \<Rightarrow> Execution \<Rightarrow> 'w \<Rightarrow> goerr option \<times> 'w"
  p_saveStep :: "ctx \<Rightarrow> StepExecution \<Rightarrow> 'w \<Rightarrow> goerr option \<times> 'w"
  p_executor :: "StepType \<Rightarrow> bool"
  p_execute :: "ctx \<Rightarrow> StepType \<Rightarrow> StepInput \<Rightarrow> 'w \<Rightarrow> (goerr + StepResult) \<times> 'w"
  p_compensate :: "ctx \<Rightarrow> StepType \<Rightarrow> StepInput \<Rightarrow> 'w \<Rightarrow> goerr option \<times> 'w"
  p_hasPublisher :: bool
  p_publish :: "ctx \<Rightarrow> StepEvent \<Rightarrow> 'w \<Rightarrow> 'w"
  p_sleep :: "ctx \<Rightarrow> duration \<Rightarrow> 'w \<Rightarrow> bool \<times> 'w"
  p_order :: "string list \<Rightarrow> 'w \<Rightarrow> string list \<times> 'w"
  p_getPipeline :: "string \<Rightarrow> 'w \<Rightarrow> (goerr + PipelineDefinition) \<times> 'w"
  p_createPipeline :: "PipelineDefinition \<Rightarrow> string \<Rightarrow> 'w \<Rightarrow> (goerr + PipelineDefinition) \<times> 'w"
  p_updatePipeline :: "PipelineDefinition \<Rightarrow> 'w \<Rightarrow> (goerr + PipelineDefinition) \<times> 'w"
  p_archive :: "string \<Rightarrow> 'w \<Rightarrow> goerr option \<times> 'w"
  p_listPipelines :: "string \<Rightarrow> PipelineType \<Rightarrow> int \<Rightarrow> string \<Rightarrow> 'w \<Rightarrow>
     (goerr + PipelineDefinition list \<times> string) \<times> 'w"
  p_createExec :: "Execution \<Rightarrow> string \<Rightarrow> 'w \<Rightarrow> (goerr + Execution) \<times> 'w"
  p_getExec :: "string \<Rightarrow> 'w \<Rightarrow> (goerr + Execution) \<times> 'w"
  p_listExecs :: "string \<Rightarrow> string \<Rightarrow> ExecutionStatus \<Rightarrow> int \<Rightarrow> string \<Rightarrow> 'w \<Rightarrow>
     (goerr + Execution list \<times> string) \<times> 'w"
  p_cancel :: "string \<Rightarrow> 'w \<Rightarrow> 'w"
  p_deadline :: "'w \<Rightarrow> bool \<times> 'w"

section \<open>Errors of the engine\<close>

definition ErrRepoNotFound :: goerr where
  "ErrRepoNotFound = New ''repository: not found''"

definition ErrPipelineNotFound :: goerr where
  "ErrPipelineNotFound = New ''pipeline: pipeline not found''"

definition ErrExecutionNotFound :: goerr where
  "ErrExecutionNotFound = New ''pipeline: execution not found''"

definition ErrPipelineArchived :: goerr where
  "ErrPipelineArchived = New ''pipeline: pipeline is archived and cannot be triggered''"

definition ErrExecutionNotCancellable :: goerr where
  "ErrExecutionNotCancellable = New ''pipeline: execution is already in a terminal state''"

text \<open>The source has an em dash here, three bytes in UTF-8.\<close>

definition ErrCompensationFailed :: goerr where
  "ErrCompensationFailed = New (''pipeline: compensation failed ''
     @ [char_of (226::nat), char_of (128::nat), char_of (148::nat)]
     @ '' manual reconciliation required'')"

definition ErrNoExecutor :: goerr where
  "ErrNoExecutor = New ''pipeline: no executor registered for step type''"

definition ErrTerminalPersist :: goerr where
  "ErrTerminalPersist = New ''pipeline: terminal state could not be durably persisted''"

definition ErrStepPersist :: goerr where
  "ErrStepPersist = New ''pipeline: one or more step checkpoints could not be durably persisted''"

lemmas engine_errors = ErrRepoNotFound_def ErrPipelineNotFound_def ErrExecutionNotFound_def
  ErrPipelineArchived_def ErrExecutionNotCancellable_def ErrCompensationFailed_def
  ErrNoExecutor_def ErrTerminalPersist_def ErrStepPersist_def context_Canceled_def

text \<open>A nil-pointer dereference, which panics.\<close>

definition panic_nil :: goerr where
  "panic_nil = Dyn ''runtime error: invalid memory address or nil pointer dereference''"

definition sanitize :: "goerr option \<Rightarrow> string" where
  "sanitize oe = (case oe of None \<Rightarrow> '''' | Some e \<Rightarrow> err_msg e)"

section \<open>Engine state and port calls\<close>

record stepErrs =
  serr_first :: "goerr option"
  serr_count :: nat

record 'w eng =
  en_world :: 'w
  en_exec :: Execution
  en_errs :: stepErrs
  en_cancels :: "string list"
  en_trace :: "call list"

definition port :: "('w \<Rightarrow> 'a \<times> 'w) \<Rightarrow> ('a \<Rightarrow> call) \<Rightarrow> ('w eng, 'a) state" where
  "port f c = State (\<lambda>s. case f (en_world s) of (a, w) \<Rightarrow>
     (a, s\<lparr>en_world := w, en_trace := en_trace s @ [c a]\<rparr>))"

definition getExec :: "('w eng, Execution) state" where
  "getExec = State (\<lambda>s. (en_exec s, s))"

definition modExec :: "(Execution \<Rightarrow> Execution) \<Rightarrow> ('w eng, unit) state" where
  "modExec f = State (\<lambda>s. ((), s\<lparr>en_exec := f (en_exec s)\<rparr>))"

definition modStep :: "nat \<Rightarrow> (StepExecution \<Rightarrow> StepExecution) \<Rightarrow> ('w eng, unit) state" where
  "modStep i f = modExec (\<lambda>e. e\<lparr>ex_Steps := (ex_Steps e)[i := f (ex_Steps e ! i)]\<rparr>)"

definition now :: "'w Ports \<Rightarrow> ('w eng, time) state" where
  "now P = port (p_now P) CNow"

definition newID :: "'w Ports \<Rightarrow> ('w eng, string) state" where
  "newID P = port (p_newID P) CNewID"

definition ctxErr :: "'w Ports \<Rightarrow> ctx \<Rightarrow> ('w eng, goerr option) state" where
  "ctxErr P c = port (p_ctxErr P c) (CCtxErr c)"

definition save :: "'w Ports \<Rightarrow> ctx \<Rightarrow> Execution \<Rightarrow> ('w eng, goerr option) state" where
  "save P c e = port (p_save P c e) (CSave c e)"

definition saveStep :: "'w Ports \<Rightarrow> ctx \<Rightarrow> StepExecution \<Rightarrow> ('w eng, goerr option) state" where
  "saveStep P c se = port (p_saveStep P c se) (CSaveStep c se)"

definition execute :: "'w Ports \<Rightarrow> ctx \<Rightarrow> StepType \<Rightarrow> StepInput \<Rightarrow>
    ('w eng, goerr + StepResult) state" where
  "execute P c ty inp = port (p_execute P c ty inp) (CExecute c ty inp)"

definition executor_compensate :: "'w Ports \<Rightarrow> ctx \<Rightarrow> StepType \<Rightarrow> StepInput \<Rightarrow>
    ('w eng, goerr option) state" where
  "executor_compensate P c ty inp = port (p_compensate P c ty inp) (CCompensate c ty inp)"

definition sleep :: "'w Ports \<Rightarrow> ctx \<Rightarrow> duration \<Rightarrow> ('w eng, bool) state" where
  "sleep P c d = port (p_sleep P c d) (CSleep c d)"

text \<open>The environment's order of a list of ids; an answer that is not a permutation is ignored.\<close>

definition choose_order :: "'w Ports \<Rightarrow> string list \<Rightarrow> ('w eng, string list) state" where
  "choose_order P xs = port (\<lambda>w. case p_order P xs w of (ys, w') \<Rightarrow>
     (if mset ys = mset xs then ys else xs, w')) CChoose"

definition emit :: "'w Ports \<Rightarrow> ctx \<Rightarrow> StepEvent \<Rightarrow> ('w eng, unit) state" where
  "emit P c ev = (if p_hasPublisher P
     then port (\<lambda>w. ((), p_publish P c ev w)) (\<lambda>_. CPublish c ev)
     else State_Monad.return ())"

text \<open>The methods \<open>record\<close> and \<open>err\<close> of \<^verbatim>\<open>stepErrs\<close>.\<close>

definition stepErrs_record :: "goerr option \<Rightarrow> stepErrs \<Rightarrow> stepErrs" where
  "stepErrs_record oe es = (case oe of None \<Rightarrow> es
     | Some e \<Rightarrow> es\<lparr>serr_count := Suc (serr_count es),
                    serr_first := (if serr_first es = None then Some e else serr_first es)\<rparr>)"

definition stepErrs_err :: "stepErrs \<Rightarrow> goerr option" where
  "stepErrs_err es = (if serr_count es = 0 then None
     else Some (Wrapf '''' ErrStepPersist ('': '' @ itoa (int (serr_count es))
            @ '' checkpoint write(s) failed (first: '' @ sanitize (serr_first es) @ '')'')))"

definition recordErr :: "goerr option \<Rightarrow> ('w eng, unit) state" where
  "recordErr oe = State (\<lambda>s. ((), s\<lparr>en_errs := stepErrs_record oe (en_errs s)\<rparr>))"

section \<open>Step state helpers\<close>

definition markStep :: "'w Ports \<Rightarrow> ctx \<Rightarrow> string \<Rightarrow> StepStatus \<Rightarrow> string \<Rightarrow>
    ('w eng, goerr option) state" where
  "markStep P c stepID status errMsg = do {
     e \<leftarrow> getExec;
     case findStep e stepID of
       None \<Rightarrow> State_Monad.return None
     | Some i \<Rightarrow> do {
         modStep i (\<lambda>se. se\<lparr>se_Status := status, se_Error := errMsg\<rparr>);
         (if status = StepStatusCompensated \<or> status = StepStatusCompensationFailed
             \<or> status = StepStatusSkipped
          then do { t \<leftarrow> now P; modStep i (\<lambda>se. se\<lparr>se_CompletedAt := Some t\<rparr>) }
          else State_Monad.return ());
         e' \<leftarrow> getExec;
         saveStep P c (ex_Steps e' ! i) } }"

definition markStepAttempt :: "'w Ports \<Rightarrow> ctx \<Rightarrow> StepDefinition \<Rightarrow> StepStatus \<Rightarrow> string \<Rightarrow> int \<Rightarrow>
    ('w eng, goerr option) state" where
  "markStepAttempt P c sd status errMsg attempt = do {
     e \<leftarrow> getExec;
     case findStep e (sd_ID sd) of
       None \<Rightarrow> State_Monad.return None
     | Some i \<Rightarrow> do {
         modStep i (\<lambda>se. se\<lparr>se_Status := status, se_Error := errMsg, se_Attempt := attempt\<rparr>);
         e1 \<leftarrow> getExec;
         (if status = StepStatusRunning \<and> se_StartedAt (ex_Steps e1 ! i) = None
          then do { t \<leftarrow> now P; modStep i (\<lambda>se. se\<lparr>se_StartedAt := Some t\<rparr>) }
          else State_Monad.return ());
         (if status = StepStatusFailed
          then do { t \<leftarrow> now P; modStep i (\<lambda>se. se\<lparr>se_CompletedAt := Some t\<rparr>) }
          else State_Monad.return ());
         e' \<leftarrow> getExec;
         saveStep P c (ex_Steps e' ! i) } }"

text \<open>Marks a step and folds the checkpoint's result into the run's accumulator.\<close>

definition markStep_rec :: "'w Ports \<Rightarrow> ctx \<Rightarrow> string \<Rightarrow> StepStatus \<Rightarrow> string \<Rightarrow>
    ('w eng, unit) state" where
  "markStep_rec P c stepID status errMsg = do { r \<leftarrow> markStep P c stepID status errMsg; recordErr r }"

definition markStepAttempt_rec :: "'w Ports \<Rightarrow> ctx \<Rightarrow> StepDefinition \<Rightarrow> StepStatus \<Rightarrow> string \<Rightarrow> int \<Rightarrow>
    ('w eng, unit) state" where
  "markStepAttempt_rec P c sd status errMsg attempt =
     do { r \<leftarrow> markStepAttempt P c sd status errMsg attempt; recordErr r }"

fun skipLoop :: "'w Ports \<Rightarrow> string \<Rightarrow> bool \<Rightarrow> string list \<Rightarrow> ('w eng, unit) state" where
  "skipLoop P failedStepID past [] = State_Monad.return ()"
| "skipLoop P failedStepID past (i # rest) =
     (if i = failedStepID then skipLoop P failedStepID True rest
      else if \<not> past then skipLoop P failedStepID past rest
      else do {
        e \<leftarrow> getExec;
        (case findStep e i of
           None \<Rightarrow> State_Monad.return ()
         | Some k \<Rightarrow> if se_Status (ex_Steps e ! k) = StepStatusPending
             then markStep_rec P DetachedCtx i StepStatusSkipped '''' else State_Monad.return ());
        skipLoop P failedStepID past rest })"

definition skipRemaining :: "'w Ports \<Rightarrow> string list \<Rightarrow> string \<Rightarrow> ('w eng, unit) state" where
  "skipRemaining P order failedStepID = skipLoop P failedStepID False order"

text \<open>The input of a step: the outputs of its completed dependencies, and server-side data only.\<close>

definition upstreamOutputs :: "Execution \<Rightarrow> string list \<Rightarrow> string \<rightharpoonup> gomap" where
  "upstreamOutputs e deps = fold (\<lambda>parentID m.
     case findStep e parentID of
       None \<Rightarrow> m
     | Some i \<Rightarrow> if se_Status (ex_Steps e ! i) = StepStatusCompleted
                then m(parentID \<mapsto> se_Output (ex_Steps e ! i)) else m) deps Map.empty"

definition buildStepInput :: "Execution \<Rightarrow> StepDefinition \<Rightarrow> int \<Rightarrow> StepInput" where
  "buildStepInput e sd attempt = \<lparr>si_ExecutionID = ex_ID e, si_StepID = sd_ID sd,
     si_StepType = sd_Type sd, si_Config = sd_Config sd, si_Input = ex_Input e,
     si_UpstreamOutputs = upstreamOutputs e (sd_DependsOn sd), si_Attempt = attempt\<rparr>"

section \<open>Single-step execution\<close>

definition recordSuccess :: "'w Ports \<Rightarrow> PipelineDefinition \<Rightarrow> StepDefinition \<Rightarrow> int \<Rightarrow> StepResult \<Rightarrow>
    ('w eng, goerr option) state" where
  "recordSuccess P p sd attempt result = do {
     t \<leftarrow> now P;
     e \<leftarrow> getExec;
     saveErr \<leftarrow> (case findStep e (sd_ID sd) of
         None \<Rightarrow> State_Monad.return None
       | Some i \<Rightarrow> do {
           modStep i (\<lambda>se. se\<lparr>se_Status := StepStatusCompleted, se_Output := sr_Output result,
                              se_CompletedAt := Some t, se_Attempt := attempt\<rparr>);
           e' \<leftarrow> getExec;
           saveStep P RunCtx (ex_Steps e' ! i) });
     e1 \<leftarrow> getExec;
     emit P RunCtx ((mkEvent EventStepCompleted e1 p t)\<lparr>ev_StepID := sd_ID sd,
       ev_StepType := sd_Type sd, ev_Output := sr_Output result\<rparr>);
     (if isDeployStep (sd_Type sd) \<and> sr_Endpoint result \<noteq> ''''
      then emit P RunCtx ((mkEvent EventModelDeployed e1 p t)\<lparr>ev_StepID := sd_ID sd,
             ev_StepType := sd_Type sd, ev_Endpoint := sr_Endpoint result\<rparr>)
      else State_Monad.return ());
     State_Monad.return saveErr }"

definition stepCtx :: "StepDefinition \<Rightarrow> ctx" where
  "stepCtx sd = (if sd_Timeout sd > 0 then StepCtx (sd_Timeout sd) else RunCtx)"

text \<open>
  The error of a step whose retries are used up; with no attempt at all (a negative budget) the
  last error is nil, which \<^verbatim>\<open>fmt.Errorf\<close> renders as shown and does not wrap.
\<close>

definition exhaustedErr :: "StepDefinition \<Rightarrow> goerr option \<Rightarrow> goerr" where
  "exhaustedErr sd lastErr = (let pre = ''step '' @ sd_ID sd @ '' failed after ''
       @ itoa (sd_MaxRetries sd + 1) @ '' attempts: ''
     in case lastErr of None \<Rightarrow> Dyn (pre @ ''%!w(<nil>)'') | Some e \<Rightarrow> Wrapf pre e '''')"

text \<open>
  The retry loop; the first argument is the number of attempts left. A context error, once set,
  does not change, so the second read of \<^verbatim>\<open>ctx.Err()\<close> in the cancelled branch is the first one.
\<close>

fun attemptLoop :: "'w Ports \<Rightarrow> PipelineDefinition \<Rightarrow> StepDefinition \<Rightarrow> nat \<Rightarrow> int \<Rightarrow> goerr option \<Rightarrow>
    ('w eng, goerr option) state" where
  "attemptLoop P p sd 0 attempt lastErr = do {
     markStepAttempt_rec P RunCtx sd StepStatusFailed (sanitize lastErr) (sd_MaxRetries sd + 1);
     t \<leftarrow> now P;
     e \<leftarrow> getExec;
     emit P RunCtx ((mkEvent EventStepFailed e p t)\<lparr>ev_StepID := sd_ID sd,
       ev_StepType := sd_Type sd, ev_Error := sanitize lastErr, ev_Attempts := sd_MaxRetries sd + 1\<rparr>);
     State_Monad.return (Some (exhaustedErr sd lastErr)) }"
| "attemptLoop P p sd (Suc n) attempt lastErr = do {
     ce \<leftarrow> ctxErr P RunCtx;
     case ce of
       Some c \<Rightarrow> do {
         markStepAttempt_rec P DetachedCtx sd StepStatusFailed ''cancelled'' attempt;
         State_Monad.return (Some c) }
     | None \<Rightarrow> do {
         markStepAttempt_rec P RunCtx sd StepStatusRunning '''' attempt;
         e \<leftarrow> getExec;
         res \<leftarrow> execute P (stepCtx sd) (sd_Type sd) (buildStepInput e sd attempt);
         case res of
           Inr result \<Rightarrow> do {
             r \<leftarrow> recordSuccess P p sd attempt result;
             recordErr r;
             State_Monad.return None }
         | Inl err \<Rightarrow> do {
             cancelled \<leftarrow> (if errors_Is err context_Canceled then State_Monad.return True
                else do { ce2 \<leftarrow> ctxErr P RunCtx; State_Monad.return (is_err ce2 context_Canceled) });
             if cancelled then do {
               markStepAttempt_rec P DetachedCtx sd StepStatusFailed ''cancelled'' attempt;
               State_Monad.return (Some context_Canceled) }
             else attemptLoop P p sd n (attempt + 1) (Some err) } } }"

definition runOneStep :: "'w Ports \<Rightarrow> PipelineDefinition \<Rightarrow> StepDefinition \<Rightarrow>
    ('w eng, goerr option) state" where
  "runOneStep P p sd = do {
     modExec (\<lambda>e. e\<lparr>ex_CurrentStep := sd_ID sd\<rparr>);
     if \<not> p_executor P (sd_Type sd) then do {
       markStep_rec P RunCtx (sd_ID sd) StepStatusFailed ''no executor registered'';
       State_Monad.return (Some ErrNoExecutor) }
     else attemptLoop P p sd (nat (sd_MaxRetries sd + 1)) 1 None }"

section \<open>Saga scheduler\<close>

definition compensateOne :: "'w Ports \<Rightarrow> PipelineDefinition \<Rightarrow> StepDefinition \<Rightarrow> StepExecution \<Rightarrow>
    ('w eng, goerr option) state" where
  "compensateOne P p sd se =
     (if \<not> p_executor P (sd_Type sd) then do {
        markStep_rec P DetachedCtx (se_StepID se) StepStatusCompensationFailed
          ''no executor for compensation'';
        State_Monad.return (Some ErrNoExecutor) }
      else do {
        markStep_rec P DetachedCtx (se_StepID se) StepStatusCompensating '''';
        e \<leftarrow> getExec;
        r \<leftarrow> executor_compensate P DetachedCtx (sd_Type sd) (buildStepInput e sd (se_Attempt se));
        case r of
          Some err \<Rightarrow> do {
            markStep_rec P DetachedCtx (se_StepID se) StepStatusCompensationFailed (err_msg err);
            State_Monad.return (Some err) }
        | None \<Rightarrow> do {
            markStep_rec P DetachedCtx (se_StepID se) StepStatusCompensated '''';
            (if isDeployStep (sd_Type sd) then do {
               t \<leftarrow> now P;
               e' \<leftarrow> getExec;
               emit P DetachedCtx ((mkEvent EventModelUndeployed e' p t)\<lparr>ev_StepID := sd_ID sd,
                 ev_StepType := sd_Type sd\<rparr>) }
             else State_Monad.return ());
            State_Monad.return None } })"

text \<open>The rollback loop, over the completed steps already reversed.\<close>

fun compLoop :: "'w Ports \<Rightarrow> PipelineDefinition \<Rightarrow> (string \<rightharpoonup> StepDefinition) \<Rightarrow>
    StepExecution list \<Rightarrow> bool \<Rightarrow> ('w eng, bool) state" where
  "compLoop P p byID [] compFailed = State_Monad.return compFailed"
| "compLoop P p byID (se # ses) compFailed =
     (case byID (se_StepID se) of
        None \<Rightarrow> compLoop P p byID ses compFailed
      | Some sd \<Rightarrow>
          if sd_CompensationStepID sd = '''' then compLoop P p byID ses compFailed
          else do {
            r \<leftarrow> compensateOne P p sd se;
            compLoop P p byID ses (compFailed \<or> r \<noteq> None) })"

definition compensate :: "'w Ports \<Rightarrow> PipelineDefinition \<Rightarrow> (string \<rightharpoonup> StepDefinition) \<Rightarrow> goerr \<Rightarrow>
    ('w eng, goerr) state" where
  "compensate P p byID cause = do {
     modExec (\<lambda>e. e\<lparr>ex_Status := ExecutionStatusCompensating\<rparr>);
     e \<leftarrow> getExec;
     r \<leftarrow> save P DetachedCtx e;
     recordErr r;
     t \<leftarrow> now P;
     emit P DetachedCtx (mkEvent EventCompensationTriggered e p t);
     compFailed \<leftarrow> compLoop P p byID (rev (completedStepsInOrder e)) False;
     State_Monad.return (if compFailed
       then Wrapf '''' ErrCompensationFailed ('' (original cause: '' @ err_msg cause @ '')'')
       else cause) }"

fun sagaLoop :: "'w Ports \<Rightarrow> PipelineDefinition \<Rightarrow> (string \<rightharpoonup> StepDefinition) \<Rightarrow> string list \<Rightarrow>
    string list \<Rightarrow> ('w eng, goerr option) state" where
  "sagaLoop P p byID order [] = State_Monad.return None"
| "sagaLoop P p byID order (stepID # rest) = do {
     ce \<leftarrow> ctxErr P RunCtx;
     if ce \<noteq> None then do {
       c \<leftarrow> compensate P p byID context_Canceled;
       State_Monad.return (Some c) }
     else case byID stepID of
       None \<Rightarrow> State_Monad.return (Some panic_nil)
     | Some sd \<Rightarrow> do {
         runErr \<leftarrow> runOneStep P p sd;
         case runErr of
           None \<Rightarrow> sagaLoop P p byID order rest
         | Some err \<Rightarrow> do {
             ce2 \<leftarrow> ctxErr P RunCtx;
             let cause = (if is_err ce2 context_Canceled \<or> errors_Is err context_Canceled
                          then context_Canceled else err) in do {
             skipRemaining P order stepID;
             c \<leftarrow> compensate P p byID cause;
             State_Monad.return (Some c) } } } }"

definition runStepsSaga :: "'w Ports \<Rightarrow> PipelineDefinition \<Rightarrow> ('w eng, goerr option) state" where
  "runStepsSaga P p = (case topoOrder (pd_Steps p) of
     Inl err \<Rightarrow> State_Monad.return (Some err)
   | Inr order \<Rightarrow> sagaLoop P p (stepByID p) order order)"

section \<open>DAG scheduler\<close>

definition anyParentFailed :: "StepDefinition option \<Rightarrow> string set \<Rightarrow> bool" where
  "anyParentFailed sd failed = (case sd of None \<Rightarrow> False
     | Some d \<Rightarrow> list_ex (\<lambda>parent. parent \<in> failed) (sd_DependsOn d))"

text \<open>Splits a level into the steps to run and the steps skipped because a parent failed.\<close>

fun partitionLevel :: "'w Ports \<Rightarrow> (string \<rightharpoonup> StepDefinition) \<Rightarrow> string list \<Rightarrow> string set \<Rightarrow>
    string list \<Rightarrow> ('w eng, string list \<times> string set) state" where
  "partitionLevel P byID [] failed runnable = State_Monad.return (runnable, failed)"
| "partitionLevel P byID (i # rest) failed runnable =
     (if anyParentFailed (byID i) failed then do {
        markStep_rec P DetachedCtx i StepStatusSkipped '''';
        partitionLevel P byID rest (insert i failed) runnable }
      else partitionLevel P byID rest failed (runnable @ [i]))"

text \<open>
  The goroutines of a level. Each one calls \<open>runOneStep\<close> on its own step and changes only that
  step's record and \<open>CurrentStep\<close>; the model runs them one after the other in an order the
  environment picks.
\<close>

fun runLevel :: "'w Ports \<Rightarrow> PipelineDefinition \<Rightarrow> (string \<rightharpoonup> StepDefinition) \<Rightarrow> string list \<Rightarrow>
    ('w eng, (string \<times> goerr option) list) state" where
  "runLevel P p byID [] = State_Monad.return []"
| "runLevel P p byID (i # rest) = do {
     r \<leftarrow> (case byID i of None \<Rightarrow> State_Monad.return (Some panic_nil)
          | Some sd \<Rightarrow> runOneStep P p sd);
     rs \<leftarrow> runLevel P p byID rest;
     State_Monad.return ((i, r) # rs) }"

text \<open>The loop over the results map, in the map's iteration order.\<close>

fun collectResults :: "(string \<rightharpoonup> goerr option) \<Rightarrow> string list \<Rightarrow> string set \<Rightarrow> goerr option \<Rightarrow>
    string set \<times> goerr option" where
  "collectResults results [] failed firstErr = (failed, firstErr)"
| "collectResults results (i # rest) failed firstErr =
     (case results i of
        Some (Some e) \<Rightarrow> collectResults results rest (insert i failed)
          (if firstErr = None then Some (Wrapf (''step '' @ i @ '': '') e '''') else firstErr)
      | _ \<Rightarrow> collectResults results rest failed firstErr)"

fun dagLoop :: "'w Ports \<Rightarrow> PipelineDefinition \<Rightarrow> (string \<rightharpoonup> StepDefinition) \<Rightarrow> string list list \<Rightarrow>
    string set \<Rightarrow> goerr option \<Rightarrow> ('w eng, goerr option) state" where
  "dagLoop P p byID [] failed firstErr = State_Monad.return firstErr"
| "dagLoop P p byID (level # levels) failed firstErr = do {
     (runnable, failed1) \<leftarrow> partitionLevel P byID level failed [];
     if runnable = [] then dagLoop P p byID levels failed1 firstErr
     else do {
       sched \<leftarrow> choose_order P runnable;
       results \<leftarrow> runLevel P p byID sched;
       iter \<leftarrow> choose_order P runnable;
       ce \<leftarrow> ctxErr P RunCtx;
       case collectResults (map_of results) iter failed1 firstErr of (failed2, firstErr2) \<Rightarrow>
         dagLoop P p byID levels failed2
           (if ce \<noteq> None \<and> firstErr2 = None then Some context_Canceled else firstErr2) } }"

definition runStepsDAG :: "'w Ports \<Rightarrow> PipelineDefinition \<Rightarrow> ('w eng, goerr option) state" where
  "runStepsDAG P p = (case topoLevels (pd_Steps p) of
     Inl err \<Rightarrow> State_Monad.return (Some err)
   | Inr levels \<Rightarrow> dagLoop P p (stepByID p) levels {} None)"

section \<open>Settlement and the run\<close>

definition saveAttempts :: int where
  "saveAttempts = 3"

definition backoffUnit :: duration where
  "backoffUnit = 50000000"

fun saveTerminalLoop :: "'w Ports \<Rightarrow> nat \<Rightarrow> int \<Rightarrow> goerr option \<Rightarrow> ('w eng, goerr option) state" where
  "saveTerminalLoop P 0 attempt lastErr = State_Monad.return lastErr"
| "saveTerminalLoop P (Suc n) attempt lastErr = do {
     e \<leftarrow> getExec;
     r \<leftarrow> save P DetachedCtx e;
     case r of
       None \<Rightarrow> State_Monad.return None
     | Some err \<Rightarrow>
         if attempt < saveAttempts then do {
           ce \<leftarrow> ctxErr P DetachedCtx;
           if ce = None then do {
             fired \<leftarrow> sleep P DetachedCtx (attempt * backoffUnit);
             if fired then saveTerminalLoop P n (attempt + 1) (Some err)
             else State_Monad.return (Some err) }
           else saveTerminalLoop P n (attempt + 1) (Some err) }
         else saveTerminalLoop P n (attempt + 1) (Some err) }"

definition saveTerminal :: "'w Ports \<Rightarrow> ('w eng, goerr option) state" where
  "saveTerminal P = saveTerminalLoop P (nat saveAttempts) 1 None"

definition settle :: "'w Ports \<Rightarrow> PipelineDefinition \<Rightarrow> goerr option \<Rightarrow>
    ('w eng, Execution \<times> goerr option) state" where
  "settle P p runErr = do {
     t \<leftarrow> now P;
     modExec (\<lambda>e. e\<lparr>ex_CompletedAt := Some t\<rparr>);
     (evType, evErr) \<leftarrow> (case runErr of
         None \<Rightarrow> do {
           modExec (\<lambda>e. e\<lparr>ex_Status := ExecutionStatusCompleted\<rparr>);
           State_Monad.return (EventPipelineCompleted, '''') }
       | Some err \<Rightarrow>
           if errors_Is err context_Canceled then do {
             modExec (\<lambda>e. e\<lparr>ex_Status := ExecutionStatusCancelled\<rparr>);
             State_Monad.return (EventPipelineFailed, ''cancelled'') }
           else do {
             modExec (\<lambda>e. e\<lparr>ex_Status := ExecutionStatusFailed, ex_Error := err_msg err\<rparr>);
             State_Monad.return (EventPipelineFailed, err_msg err) });
     r \<leftarrow> saveTerminal P;
     e \<leftarrow> getExec;
     case r of
       Some err \<Rightarrow> State_Monad.return (e, Some (Wrapf '''' ErrTerminalPersist
         ('': execution '' @ ex_ID e @ '' terminal state '' @ ExecutionStatus_String (ex_Status e)
          @ '' not durably persisted: '' @ err_msg err)))
     | None \<Rightarrow> do {
         emit P DetachedCtx ((mkEvent evType e p t)\<lparr>ev_Error := evErr\<rparr>);
         State_Monad.return (e, None) } }"

definition run :: "'w Ports \<Rightarrow> PipelineDefinition \<Rightarrow> ('w eng, Execution \<times> goerr option) state" where
  "run P p = do {
     modExec (\<lambda>e. e\<lparr>ex_Status := ExecutionStatusRunning\<rparr>);
     t \<leftarrow> now P;
     modExec (\<lambda>e. e\<lparr>ex_StartedAt := t\<rparr>);
     e \<leftarrow> getExec;
     r \<leftarrow> save P RunCtx e;
     case r of
       Some err \<Rightarrow> State_Monad.return (zeroExecution, Some (Wrapf ''save running: '' err ''''))
     | None \<Rightarrow> do {
         t2 \<leftarrow> now P;
         emit P RunCtx ((mkEvent EventPipelineStarted e p t2)\<lparr>ev_TriggeredBy := ex_TriggeredBy e\<rparr>);
         State (\<lambda>s. ((), s\<lparr>en_errs := \<lparr>serr_first = None, serr_count = 0\<rparr>\<rparr>));
         runErr \<leftarrow> (if IsSaga (pd_Type p) then runStepsSaga P p else runStepsDAG P p);
         (settled, settleErr) \<leftarrow> settle P p runErr;
         case settleErr of
           Some err \<Rightarrow> State_Monad.return (settled, Some err)
         | None \<Rightarrow> State (\<lambda>s. ((settled, stepErrs_err (en_errs s)), s)) } }"

end
