(* ===== verification/PipelineTrace.thy ===== *)
theory PipelineTrace
  imports PipelineEngine
begin

text \<open>
  How the engine's helpers change a step record and what they add to the call history: the lemmas
  from which the properties of the schedulers follow. \<open>get_step\<close> reads a step record by its
  template id; \<open>ok_execs\<close>, \<open>comp_calls\<close> and \<open>now_readings\<close> project the history to the steps whose
  forward action succeeded, the steps whose undo was called, and the clock readings.
\<close>

section \<open>Step records by id\<close>

definition get_step :: "Execution \<Rightarrow> string \<Rightarrow> StepExecution option" where
  "get_step e i = map_option (\<lambda>k. ex_Steps e ! k) (findStep e i)"

abbreviation step_keys :: "'w eng \<Rightarrow> string list" where
  "step_keys s \<equiv> map se_StepID (ex_Steps (en_exec s))"

abbreviation stat :: "'w eng \<Rightarrow> string \<Rightarrow> StepStatus option" where
  "stat s i \<equiv> map_option se_Status (get_step (en_exec s) i)"

lemma find_step_idx_Some:
  "find_step_idx ses i = Some k \<Longrightarrow> k < length ses \<and> se_StepID (ses ! k) = i"
  by (induction ses arbitrary: k) (auto split: if_splits)

lemma find_step_idx_None: "find_step_idx ses i = None \<longleftrightarrow> i \<notin> se_StepID ` set ses"
  by (induction ses) auto

lemma find_step_idx_cong:
  "map se_StepID ses = map se_StepID ses' \<Longrightarrow> find_step_idx ses i = find_step_idx ses' i"
proof (induction ses arbitrary: ses')
  case (Cons se ses)
  then show ?case by (cases ses') auto
qed simp

lemma findStep_Some: "findStep e i = Some k \<Longrightarrow> k < length (ex_Steps e) \<and> se_StepID (ex_Steps e ! k) = i"
  by (simp add: findStep_def find_step_idx_Some)

lemma get_step_Some: "get_step e i = Some se \<Longrightarrow> se \<in> set (ex_Steps e) \<and> se_StepID se = i"
  by (auto simp: get_step_def dest: findStep_Some)

lemma get_step_ex: "(\<exists>se. get_step e i = Some se) \<longleftrightarrow> i \<in> se_StepID ` set (ex_Steps e)"
  using find_step_idx_None [of "ex_Steps e" i]
  by (cases "findStep e i") (auto simp: get_step_def findStep_def)

lemma get_step_distinct:
  assumes "distinct (map se_StepID (ex_Steps e))" "se \<in> set (ex_Steps e)"
  shows "get_step e (se_StepID se) = Some se"
proof -
  obtain se' where se': "get_step e (se_StepID se) = Some se'"
    using get_step_ex [of e "se_StepID se"] assms(2) by blast
  from get_step_Some [OF se'] have *: "se' \<in> set (ex_Steps e)" "se_StepID se' = se_StepID se" by simp_all
  have "se' = se" by (rule distinct_map_inj_lookup [OF assms(1) *(1) assms(2) *(2)])
  with se' show ?thesis by simp
qed

lemma findStep_cong:
  "map se_StepID (ex_Steps e) = map se_StepID (ex_Steps e') \<Longrightarrow> findStep e i = findStep e' i"
  unfolding findStep_def by (rule find_step_idx_cong)

text \<open>Writing through the pointer \<^verbatim>\<open>findStep\<close> returned changes that id's record only.\<close>

definition upd_step :: "string \<Rightarrow> (StepExecution \<Rightarrow> StepExecution) \<Rightarrow> Execution \<Rightarrow> Execution" where
  "upd_step i f e = (case findStep e i of None \<Rightarrow> e
     | Some k \<Rightarrow> e\<lparr>ex_Steps := (ex_Steps e)[k := f (ex_Steps e ! k)]\<rparr>)"

lemma upd_step_keys [simp]:
  assumes "\<And>se. se_StepID (f se) = se_StepID se"
  shows "map se_StepID (ex_Steps (upd_step i f e)) = map se_StepID (ex_Steps e)"
proof (cases "findStep e i")
  case (Some k)
  then have "k < length (ex_Steps e)" by (simp add: findStep_Some)
  then have "(map se_StepID (ex_Steps e))[k := se_StepID (ex_Steps e ! k)] = map se_StepID (ex_Steps e)"
    by (metis list_update_id nth_map)
  with Some assms show ?thesis by (simp add: upd_step_def map_update)
qed (simp add: upd_step_def)

lemma get_upd_step:
  assumes "\<And>se. se_StepID (f se) = se_StepID se"
  shows "get_step (upd_step i f e) j = (if j = i then map_option f (get_step e i) else get_step e j)"
proof (cases "findStep e i")
  case None
  then show ?thesis by (simp add: upd_step_def get_step_def)
next
  case (Some k)
  from upd_step_keys [OF assms, of i e] have same: "findStep (upd_step i f e) j = findStep e j"
    by (rule findStep_cong)
  have "m \<noteq> k" if "findStep e j = Some m" "j \<noteq> i" for m
    using that Some by (auto dest: findStep_Some)
  with Some same findStep_Some [OF Some] show ?thesis
    by (cases "findStep e j") (auto simp: get_step_def upd_step_def)
qed

lemma upd_step_other [simp]:
  "ex_ID (upd_step i f e) = ex_ID e" "ex_Status (upd_step i f e) = ex_Status e"
  "ex_Input (upd_step i f e) = ex_Input e" "ex_Error (upd_step i f e) = ex_Error e"
  "ex_CompletedAt (upd_step i f e) = ex_CompletedAt e"
  by (simp_all add: upd_step_def split: option.split)

section \<open>The call history\<close>

definition ok_exec :: "call \<Rightarrow> string option" where
  "ok_exec c = (case c of CExecute _ _ inp (Inr _) \<Rightarrow> Some (si_StepID inp) | _ \<Rightarrow> None)"

definition comp_call :: "call \<Rightarrow> string option" where
  "comp_call c = (case c of CCompensate _ _ inp _ \<Rightarrow> Some (si_StepID inp) | _ \<Rightarrow> None)"

definition now_reading :: "call \<Rightarrow> time option" where
  "now_reading c = (case c of CNow t \<Rightarrow> Some t | _ \<Rightarrow> None)"

definition ok_execs :: "call list \<Rightarrow> string list" where
  "ok_execs = List.map_filter ok_exec"

definition comp_calls :: "call list \<Rightarrow> string list" where
  "comp_calls = List.map_filter comp_call"

definition now_readings :: "call list \<Rightarrow> time list" where
  "now_readings = List.map_filter now_reading"

lemma map_filter_append: "List.map_filter f (xs @ ys) = List.map_filter f xs @ List.map_filter f ys"
  by (induction xs) (auto simp: List.map_filter_simps split: option.split)

lemma trace_append [simp]:
  "ok_execs (xs @ ys) = ok_execs xs @ ok_execs ys"
  "comp_calls (xs @ ys) = comp_calls xs @ comp_calls ys"
  "now_readings (xs @ ys) = now_readings xs @ now_readings ys"
  by (simp_all add: ok_execs_def comp_calls_def now_readings_def map_filter_append)

lemma trace_Nil [simp]: "ok_execs [] = []" "comp_calls [] = []" "now_readings [] = []"
  by (simp_all add: ok_execs_def comp_calls_def now_readings_def List.map_filter_simps)

lemma trace_Cons [simp]:
  "ok_execs (c # cs) = (case ok_exec c of None \<Rightarrow> ok_execs cs | Some i \<Rightarrow> i # ok_execs cs)"
  "comp_calls (c # cs) = (case comp_call c of None \<Rightarrow> comp_calls cs | Some i \<Rightarrow> i # comp_calls cs)"
  "now_readings (c # cs) = (case now_reading c of None \<Rightarrow> now_readings cs | Some i \<Rightarrow> i # now_readings cs)"
  unfolding ok_execs_def comp_calls_def now_readings_def List.map_filter_simps by (rule refl)+

lemmas trace_calls [simp] = ok_exec_def comp_call_def now_reading_def

text \<open>The terminal events, which only settlement may publish.\<close>

definition term_event :: "StepEvent \<Rightarrow> bool" where
  "term_event ev \<longleftrightarrow> ev_Type ev = EventPipelineCompleted \<or> ev_Type ev = EventPipelineFailed"

definition term_events :: "call list \<Rightarrow> StepEvent list" where
  "term_events = List.map_filter (\<lambda>c. case c of CPublish _ ev \<Rightarrow> if term_event ev then Some ev else None | _ \<Rightarrow> None)"

lemma ev_Type_mkEvent [simp]: "ev_Type (mkEvent ty e p t) = ty"
  by (simp add: mkEvent_def)

text \<open>
  A quiet piece of history: no forward action and no undo was called, the execution row was not
  written, and no terminal event was published.
\<close>

fun quiet_call :: "call \<Rightarrow> bool" where
  "quiet_call (CExecute _ _ _ _) = False"
| "quiet_call (CCompensate _ _ _ _) = False"
| "quiet_call (CSave _ _ _) = False"
| "quiet_call (CPublish _ ev) = (\<not> term_event ev)"
| "quiet_call _ = True"

abbreviation quiet :: "call list \<Rightarrow> bool" where
  "quiet tr \<equiv> list_all quiet_call tr"

lemma quiet_call_none: "quiet_call c \<Longrightarrow> ok_exec c = None \<and> comp_call c = None"
  by (cases c) auto

lemma quiet_calls [simp]: "quiet tr \<Longrightarrow> ok_execs tr = []" "quiet tr \<Longrightarrow> comp_calls tr = []"
  by (induction tr) (auto simp del: trace_calls dest: quiet_call_none)

section \<open>Running the primitives\<close>

named_theorems run_simps

lemma run_getExec [run_simps]: "run_state getExec s = (en_exec s, s)"
  by (simp add: getExec_def)

lemma run_modExec [run_simps]: "run_state (modExec f) s = ((), s\<lparr>en_exec := f (en_exec s)\<rparr>)"
  by (simp add: modExec_def)

lemma run_recordErr [run_simps]:
  "run_state (recordErr oe) s = ((), s\<lparr>en_errs := stepErrs_record oe (en_errs s)\<rparr>)"
  by (simp add: recordErr_def)

text \<open>
  \<open>evolves J s s' tr\<close>: the run from \<open>s\<close> to \<open>s'\<close> added \<open>tr\<close> to the history and changed the records of
  the steps in \<open>J\<close> only; \<open>frame s s' tr\<close>: it did not change the execution at all.
\<close>

definition frame :: "'w eng \<Rightarrow> 'w eng \<Rightarrow> call list \<Rightarrow> bool" where
  "frame s s' tr \<longleftrightarrow> en_trace s' = en_trace s @ tr \<and> en_exec s' = en_exec s
     \<and> en_cancels s' = en_cancels s"

definition evolves :: "string set \<Rightarrow> 'w eng \<Rightarrow> 'w eng \<Rightarrow> call list \<Rightarrow> bool" where
  "evolves J s s' tr \<longleftrightarrow> en_trace s' = en_trace s @ tr \<and> step_keys s' = step_keys s
     \<and> ex_ID (en_exec s') = ex_ID (en_exec s) \<and> ex_Input (en_exec s') = ex_Input (en_exec s)
     \<and> en_cancels s' = en_cancels s
     \<and> (\<forall>j. j \<notin> J \<longrightarrow> get_step (en_exec s') j = get_step (en_exec s) j)"

lemma run_port: "run_state (port f c) s = (a, s') \<Longrightarrow> frame s s' [c a]"
  by (auto simp: port_def frame_def split: prod.splits)

lemma run_now: "run_state (now P) s = (t, s') \<Longrightarrow> frame s s' [CNow t]"
  by (simp add: now_def run_port)

lemma run_ctxErr: "run_state (ctxErr P c) s = (r, s') \<Longrightarrow> frame s s' [CCtxErr c r]"
  by (simp add: ctxErr_def run_port)

lemma run_save: "run_state (save P c e) s = (r, s') \<Longrightarrow> frame s s' [CSave c e r]"
  by (simp add: save_def run_port)

lemma run_saveStep: "run_state (saveStep P c e) s = (r, s') \<Longrightarrow> frame s s' [CSaveStep c e r]"
  by (simp add: saveStep_def run_port)

lemma run_execute: "run_state (execute P c ty inp) s = (r, s') \<Longrightarrow> frame s s' [CExecute c ty inp r]"
  by (simp add: execute_def run_port)

lemma run_executor_compensate:
  "run_state (executor_compensate P c ty inp) s = (r, s') \<Longrightarrow> frame s s' [CCompensate c ty inp r]"
  by (simp add: executor_compensate_def run_port)

lemma run_sleep: "run_state (sleep P c d) s = (r, s') \<Longrightarrow> frame s s' [CSleep c d r]"
  by (simp add: sleep_def run_port)

lemma run_choose_order:
  "run_state (choose_order P xs) s = (ys, s') \<Longrightarrow> frame s s' [CChoose ys] \<and> mset ys = mset xs"
  by (auto simp: choose_order_def port_def frame_def split: prod.splits if_splits)

lemma run_emit: "run_state (emit P c ev) s = (u, s') \<Longrightarrow> \<exists>tr. frame s s' tr \<and> set tr \<subseteq> {CPublish c ev}"
  by (auto simp: emit_def frame_def split: if_splits dest!: run_port)

lemma run_bindE:
  assumes "run_state (State_Monad.bind m f) s = (b, s'')"
  obtains a s' where "run_state m s = (a, s')" "run_state (f a) s' = (b, s'')"
  using assms by (auto split: prod.splits)

lemmas run_ports = run_now run_ctxErr run_save run_saveStep run_execute run_executor_compensate
  run_sleep

lemma frame_evolves: "frame s s' tr \<Longrightarrow> evolves {} s s' tr"
  by (simp add: frame_def evolves_def)

lemma frame_trans: "frame s s1 tr1 \<Longrightarrow> frame s1 s2 tr2 \<Longrightarrow> frame s s2 (tr1 @ tr2)"
  by (simp add: frame_def)

lemma evolves_refl [simp]: "evolves J s s []"
  by (simp add: evolves_def)

lemma evolves_trans:
  "evolves J s s1 tr1 \<Longrightarrow> evolves K s1 s2 tr2 \<Longrightarrow> evolves (J \<union> K) s s2 (tr1 @ tr2)"
  by (simp add: evolves_def)

lemma evolves_mono: "evolves J s s' tr \<Longrightarrow> J \<subseteq> K \<Longrightarrow> evolves K s s' tr"
  by (auto simp: evolves_def)

lemma evolves_exec_upd:
  "ex_Steps e = ex_Steps (en_exec s) \<Longrightarrow> ex_ID e = ex_ID (en_exec s) \<Longrightarrow>
   ex_Input e = ex_Input (en_exec s) \<Longrightarrow> evolves J s (s\<lparr>en_exec := e\<rparr>) []"
  by (simp add: evolves_def get_step_def findStep_def)

lemma evolves_errs_upd [simp]: "evolves J s (s\<lparr>en_errs := x\<rparr>) []"
  by (simp add: evolves_def)

lemma get_step_nth: "findStep e i = Some k \<Longrightarrow> get_step e i = Some (ex_Steps e ! k)"
  by (simp add: get_step_def)

section \<open>Running the step helpers\<close>

text \<open>
  \<open>stepped i f s s' tr\<close>: the record of step \<open>i\<close> was rewritten by \<open>f\<close>, and that is all that changed.
  A marking helper rewrites one record, reads the clock at most twice, and ends with the checkpoint
  of the new record.
\<close>

definition stepped :: "string \<Rightarrow> (StepExecution \<Rightarrow> StepExecution) \<Rightarrow> 'w eng \<Rightarrow> 'w eng \<Rightarrow> call list \<Rightarrow> bool"
  where "stepped i f s s' tr \<longleftrightarrow> en_trace s' = en_trace s @ tr \<and> en_cancels s' = en_cancels s
     \<and> en_exec s' = upd_step i f (en_exec s) \<and> (\<forall>se. se_StepID (f se) = se_StepID se)"

lemma stepped_evolves: "stepped i f s s' tr \<Longrightarrow> evolves {i} s s' tr"
  by (auto simp: stepped_def evolves_def get_upd_step)

lemma stepped_get: "stepped i f s s' tr \<Longrightarrow> get_step (en_exec s') i = map_option f (get_step (en_exec s) i)"
  by (simp add: stepped_def get_upd_step)

fun clock_call :: "call \<Rightarrow> bool" where
  "clock_call (CNow _) = True"
| "clock_call _ = False"

abbreviation clock_only :: "call list \<Rightarrow> bool" where
  "clock_only tr \<equiv> list_all clock_call tr"

lemma clock_only_quiet: "clock_only tr \<Longrightarrow> quiet tr"
  by (erule list.pred_mono_strong) (auto elim: clock_call.elims)

definition marks :: "string \<Rightarrow> StepStatus \<Rightarrow> ctx \<Rightarrow> goerr option \<Rightarrow> (StepExecution \<Rightarrow> bool) \<Rightarrow>
    'w eng \<Rightarrow> 'w eng \<Rightarrow> bool" where
  "marks i st c r Q s s' \<longleftrightarrow> (case get_step (en_exec s) i of None \<Rightarrow> s' = s
     | Some se \<Rightarrow> \<exists>f tr. stepped i f s s' (tr @ [CSaveStep c (f se) r]) \<and> clock_only tr
         \<and> se_Status (f se) = st \<and> se_Output (f se) = se_Output se \<and> Q (f se))"

lemma marksI:
  assumes "findStep (en_exec s) i = Some k" "stepped i f s s' (tr @ [CSaveStep c (f (ex_Steps (en_exec s) ! k)) r])"
    "clock_only tr" "\<And>se. se_Status (f se) = st" "\<And>se. se_Output (f se) = se_Output se" "\<And>se. Q (f se)"
  shows "marks i st c r Q s s'"
  unfolding marks_def get_step_nth [OF assms(1)] option.case
  by (intro exI [of _ f] exI [of _ tr] conjI assms)

lemmas run_mark_unfold = getExec_def modStep_def modExec_def now_def saveStep_def port_def
  stepped_def upd_step_def

lemma run_markStep:
  assumes "run_state (markStep P c i st msg) s = (r, s')"
  shows "marks i st c r (\<lambda>se. se_Error se = msg) s s'"
proof (cases "findStep (en_exec s) i")
  case None
  with assms show ?thesis by (simp add: marks_def markStep_def run_getExec get_step_def)
next
  case (Some k)
  note k = findStep_Some [OF Some]
  let ?f = "\<lambda>se. se\<lparr>se_Status := st, se_Error := msg\<rparr>"
  show ?thesis
  proof (cases "st = StepStatusCompensated \<or> st = StepStatusCompensationFailed \<or> st = StepStatusSkipped")
    case True
    from assms Some k True obtain t where
      "stepped i (\<lambda>se. (?f se)\<lparr>se_CompletedAt := Some t\<rparr>) s s'
         ([CNow t] @ [CSaveStep c ((?f (ex_Steps (en_exec s) ! k))\<lparr>se_CompletedAt := Some t\<rparr>) r])"
      by (auto simp: markStep_def run_mark_unfold split: prod.splits)
    then show ?thesis by (rule marksI [OF Some]) simp_all
  next
    case False
    from assms Some k False have "stepped i ?f s s' ([] @ [CSaveStep c (?f (ex_Steps (en_exec s) ! k)) r])"
      by (auto simp: markStep_def run_mark_unfold split: prod.splits)
    then show ?thesis by (rule marksI [OF Some]) simp_all
  qed
qed

lemma run_markStepAttempt:
  assumes "run_state (markStepAttempt P c sd st msg a) s = (r, s')"
  shows "marks (sd_ID sd) st c r (\<lambda>se. se_Error se = msg \<and> se_Attempt se = a) s s'"
proof (cases "findStep (en_exec s) (sd_ID sd)")
  case None
  with assms show ?thesis by (simp add: marks_def markStepAttempt_def run_getExec get_step_def)
next
  case (Some k)
  note k = findStep_Some [OF Some]
  let ?f = "\<lambda>se. se\<lparr>se_Status := st, se_Error := msg, se_Attempt := a\<rparr>"
  let ?se = "ex_Steps (en_exec s) ! k"
  consider (start) "st = StepStatusRunning" "se_StartedAt ?se = None" | (fail) "st = StepStatusFailed"
    | (plain) "st \<noteq> StepStatusFailed" "st = StepStatusRunning \<longrightarrow> se_StartedAt ?se \<noteq> None"
    by blast
  then show ?thesis
  proof cases
    case start
    from assms Some k start obtain t where
      "stepped (sd_ID sd) (\<lambda>se. (?f se)\<lparr>se_StartedAt := Some t\<rparr>) s s'
         ([CNow t] @ [CSaveStep c ((?f ?se)\<lparr>se_StartedAt := Some t\<rparr>) r])"
      by (auto simp: markStepAttempt_def run_mark_unfold split: prod.splits)
    then show ?thesis by (rule marksI [OF Some]) simp_all
  next
    case fail
    from assms Some k fail obtain t where
      "stepped (sd_ID sd) (\<lambda>se. (?f se)\<lparr>se_CompletedAt := Some t\<rparr>) s s'
         ([CNow t] @ [CSaveStep c ((?f ?se)\<lparr>se_CompletedAt := Some t\<rparr>) r])"
      by (auto simp: markStepAttempt_def run_mark_unfold split: prod.splits)
    then show ?thesis by (rule marksI [OF Some]) simp_all
  next
    case plain
    from assms Some k plain have "stepped (sd_ID sd) ?f s s' ([] @ [CSaveStep c (?f ?se) r])"
      by (auto simp: markStepAttempt_def run_mark_unfold split: prod.splits)
    then show ?thesis by (rule marksI [OF Some]) simp_all
  qed
qed

text \<open>The variants that fold the checkpoint's error into the accumulator: \<open>markd\<close> is their effect.\<close>

definition markd :: "string \<Rightarrow> StepStatus \<Rightarrow> ctx \<Rightarrow> (StepExecution \<Rightarrow> bool) \<Rightarrow> 'w eng \<Rightarrow> 'w eng \<Rightarrow>
    call list \<Rightarrow> bool" where
  "markd i st c Q s s' tr \<longleftrightarrow> evolves {i} s s' tr \<and> quiet tr
     \<and> (case get_step (en_exec s) i of None \<Rightarrow> get_step (en_exec s') i = None
        | Some se \<Rightarrow> \<exists>se' r tr'. get_step (en_exec s') i = Some se' \<and> tr = tr' @ [CSaveStep c se' r]
            \<and> clock_only tr' \<and> se_Status se' = st \<and> se_StepID se' = i
            \<and> se_Output se' = se_Output se \<and> Q se')"

lemma marks_markd:
  assumes "marks i st c r Q s s1"
  shows "\<exists>tr. markd i st c Q s (s1\<lparr>en_errs := x\<rparr>) tr"
proof (cases "get_step (en_exec s) i")
  case None
  with assms have "s1 = s" by (simp add: marks_def)
  with None show ?thesis by (auto simp: markd_def intro!: exI [of _ "[]"])
next
  case (Some se)
  with assms obtain f tr where f: "stepped i f s s1 (tr @ [CSaveStep c (f se) r])" "clock_only tr"
    "se_Status (f se) = st" "se_Output (f se) = se_Output se" "Q (f se)"
    by (auto simp: marks_def)
  from f(1) Some have g: "get_step (en_exec s1) i = Some (f se)" by (simp add: stepped_get)
  have "evolves {i} s (s1\<lparr>en_errs := x\<rparr>) ((tr @ [CSaveStep c (f se) r]) @ [])"
    using evolves_trans [OF stepped_evolves [OF f(1)] evolves_errs_upd [of "{}"]] by simp
  moreover have "quiet (tr @ [CSaveStep c (f se) r])" using f(2) by (simp add: clock_only_quiet)
  ultimately have "markd i st c Q s (s1\<lparr>en_errs := x\<rparr>) (tr @ [CSaveStep c (f se) r])"
    using f g Some get_step_Some [OF g] unfolding markd_def by auto
  then show ?thesis by blast
qed

lemma run_markStep_rec:
  assumes "run_state (markStep_rec P c i st msg) s = (u, s')"
  shows "\<exists>tr. markd i st c (\<lambda>se. se_Error se = msg) s s' tr"
  using assms unfolding markStep_rec_def
  by (elim run_bindE) (auto simp: run_recordErr dest!: run_markStep intro: marks_markd)

lemma run_markStepAttempt_rec:
  assumes "run_state (markStepAttempt_rec P c sd st msg a) s = (u, s')"
  shows "\<exists>tr. markd (sd_ID sd) st c (\<lambda>se. se_Error se = msg \<and> se_Attempt se = a) s s' tr"
  using assms unfolding markStepAttempt_rec_def
  by (elim run_bindE) (auto simp: run_recordErr dest!: run_markStepAttempt intro: marks_markd)

lemma markd_stat: "markd i st c Q s s' tr \<Longrightarrow> stat s' i = map_option (\<lambda>_. st) (stat s i)"
  by (auto simp: markd_def split: option.splits)

lemma markdD: "markd i st c Q s s' tr \<Longrightarrow> evolves {i} s s' tr" "markd i st c Q s s' tr \<Longrightarrow> quiet tr"
  by (simp_all add: markd_def)

lemma evolves_get: "evolves J s s' tr \<Longrightarrow> j \<notin> J \<Longrightarrow> get_step (en_exec s') j = get_step (en_exec s) j"
  by (simp add: evolves_def)

end
