(* ===== verification/PipelineSteps.thy ===== *)
theory PipelineSteps
  imports PipelineTrace
begin

text \<open>
  Running one step. \<open>disciplined\<close> says how the engine must call forward actions (the right step, the
  retry budget, the outputs of the dependencies, the checkpoint before the call); \<open>eng_inv\<close> is the
  invariant of every run; \<open>step_done\<close> is what \<^verbatim>\<open>runOneStep\<close> does to the step record and the history
  on success and on failure, proved by induction over the retry loop.
\<close>

section \<open>The discipline of forward actions\<close>

text \<open>\<open>outputs tr\<close>: what the last successful forward action of each step returned.\<close>

definition ok_output :: "call \<Rightarrow> (string \<times> gomap) option" where
  "ok_output c = (case c of CExecute _ _ inp (Inr res) \<Rightarrow> Some (si_StepID inp, sr_Output res) | _ \<Rightarrow> None)"

definition outputs :: "call list \<Rightarrow> string \<rightharpoonup> gomap" where
  "outputs tr = map_of (rev (List.map_filter ok_output tr))"

text \<open>No forward action was called and no terminal event published.\<close>

fun no_exec_call :: "call \<Rightarrow> bool" where
  "no_exec_call (CExecute _ _ _ _) = False"
| "no_exec_call (CPublish _ ev) = (\<not> term_event ev)"
| "no_exec_call _ = True"

abbreviation no_exec :: "call list \<Rightarrow> bool" where
  "no_exec tr \<equiv> list_all no_exec_call tr"

lemma quiet_no_exec: "quiet tr \<Longrightarrow> no_exec tr"
  by (erule list.pred_mono_strong) (auto elim: quiet_call.elims)

lemma outputs_append: "outputs (xs @ ys) = outputs xs ++ outputs ys"
  by (simp add: outputs_def map_filter_append)

lemma no_exec_output: "no_exec_call c \<Longrightarrow> ok_output c = None"
  by (cases c) (auto simp: ok_output_def)

lemma outputs_no_exec [simp]: "no_exec tr \<Longrightarrow> outputs tr = Map.empty"
  by (induction tr) (auto simp: outputs_def List.map_filter_simps dest: no_exec_output)

lemma no_exec_ok_execs: "no_exec tr \<Longrightarrow> ok_execs tr = []"
proof (induction tr)
  case (Cons c tr)
  then show ?case by (cases c) auto
qed simp

lemma term_events_append [simp]: "term_events (xs @ ys) = term_events xs @ term_events ys"
  by (simp add: term_events_def map_filter_append)

lemma no_exec_term: "no_exec tr \<Longrightarrow> term_events tr = []"
proof (induction tr)
  case (Cons c tr)
  then show ?case by (cases c) (auto simp: term_events_def List.map_filter_simps)
qed (simp add: term_events_def List.map_filter_simps)

lemma term_events_exec: "term_events [CExecute c ty inp r] = []"
  by (simp add: term_events_def List.map_filter_simps)

lemma outputs_exec:
  "outputs [CExecute c ty inp (Inr res)] = [si_StepID inp \<mapsto> sr_Output res]"
  "outputs [CExecute c ty inp (Inl err)] = Map.empty"
  by (simp_all add: outputs_def List.map_filter_simps ok_output_def)

text \<open>
  A forward action as the engine must call it, after the history \<open>before\<close>: on a step of the template,
  with the step's own type, configuration and timeout, within its retry budget, on the outputs its
  dependencies returned, and right after the checkpoint that says this attempt is running (no other
  call about the step lies between).
\<close>

fun about :: "string \<Rightarrow> call \<Rightarrow> bool" where
  "about i (CSaveStep _ se _) = (se_StepID se = i)"
| "about i (CExecute _ _ inp _) = (si_StepID inp = i)"
| "about i (CCompensate _ _ inp _) = (si_StepID inp = i)"
| "about i _ = False"

definition exec_ok :: "PipelineDefinition \<Rightarrow> call list \<Rightarrow> call \<Rightarrow> bool" where
  "exec_ok p before c = (case c of CExecute cx ty inp r \<Rightarrow>
     (\<exists>sd. stepByID p (si_StepID inp) = Some sd \<and> cx = stepCtx sd \<and> ty = sd_Type sd
        \<and> si_Config inp = sd_Config sd
        \<and> 1 \<le> si_Attempt inp \<and> si_Attempt inp \<le> sd_MaxRetries sd + 1
        \<and> set (sd_DependsOn sd) \<subseteq> dom (outputs before)
        \<and> si_UpstreamOutputs inp = outputs before |` set (sd_DependsOn sd)
        \<and> (\<exists>h se r'. filter (about (sd_ID sd)) before = h @ [CSaveStep RunCtx se r']
             \<and> se_StepID se = sd_ID sd
             \<and> se_Status se = StepStatusRunning \<and> se_Attempt se = si_Attempt inp))
     | _ \<Rightarrow> True)"

definition disciplined :: "PipelineDefinition \<Rightarrow> call list \<Rightarrow> bool" where
  "disciplined p tr \<longleftrightarrow> (\<forall>before c after. tr = before @ c # after \<longrightarrow> exec_ok p before c)"

lemma disciplined_Nil [simp]: "disciplined p []"
  by (simp add: disciplined_def)

lemma disciplined_snoc: "disciplined p (tr @ [c]) \<longleftrightarrow> disciplined p tr \<and> exec_ok p tr c"
proof
  assume d: "disciplined p (tr @ [c])"
  have "exec_ok p before c'" if "tr = before @ c' # after" for before c' after
    using d that by (auto simp: disciplined_def)
  then show "disciplined p tr \<and> exec_ok p tr c" using d by (auto simp: disciplined_def)
next
  assume d: "disciplined p tr \<and> exec_ok p tr c"
  show "disciplined p (tr @ [c])" unfolding disciplined_def
  proof (intro allI impI)
    fix before c' after assume "tr @ [c] = before @ c' # after"
    then show "exec_ok p before c'" using d
      by (cases after rule: rev_cases) (auto simp: disciplined_def)
  qed
qed

lemma no_exec_ok: "no_exec_call c \<Longrightarrow> exec_ok p before c"
  by (cases c) (auto simp: exec_ok_def)

lemma disciplined_no_exec: "disciplined p tr \<Longrightarrow> no_exec tr' \<Longrightarrow> disciplined p (tr @ tr')"
proof (induction tr' rule: rev_induct)
  case (snoc c tr')
  then show ?case by (simp add: disciplined_snoc no_exec_ok append_assoc [symmetric] del: append_assoc)
qed simp

text \<open>
  The invariant of a run: the step records are the template's steps, the history is disciplined,
  no terminal event was published, and the record of a completed step holds the output its forward
  action returned.
\<close>

definition eng_inv :: "PipelineDefinition \<Rightarrow> 'w eng \<Rightarrow> bool" where
  "eng_inv p s \<longleftrightarrow> step_keys s = map sd_ID (pd_Steps p) \<and> disciplined p (en_trace s) \<and> term_events (en_trace s) = []
     \<and> (\<forall>i se. get_step (en_exec s) i = Some se \<longrightarrow> se_Status se = StepStatusCompleted \<longrightarrow>
          outputs (en_trace s) i = Some (se_Output se))"

lemma eng_inv_evolves:
  assumes "eng_inv p s" "evolves J s s' tr" "no_exec tr"
    "\<And>i. i \<in> J \<Longrightarrow> stat s' i = Some StepStatusCompleted \<Longrightarrow>
       outputs (en_trace s) i = map_option se_Output (get_step (en_exec s') i)"
  shows "eng_inv p s'"
proof -
  have "outputs (en_trace s') i = Some (se_Output se)"
    if "get_step (en_exec s') i = Some se" "se_Status se = StepStatusCompleted" for i se
  proof (cases "i \<in> J")
    case True
    with that assms(2-3) assms(4) [OF True] show ?thesis
      by (simp add: evolves_def outputs_append)
  next
    case False
    with that assms(1-3) show ?thesis by (simp add: evolves_def outputs_append eng_inv_def)
  qed
  with assms show ?thesis by (auto simp: eng_inv_def evolves_def disciplined_no_exec no_exec_term)
qed

lemma upstreamOutputs_completed:
  assumes "\<forall>d \<in> set deps. stat s d = Some StepStatusCompleted"
  shows "upstreamOutputs (en_exec s) deps =
    (\<lambda>d. if d \<in> set deps then map_option se_Output (get_step (en_exec s) d) else None)"
proof -
  let ?e = "en_exec s"
  let ?step = "\<lambda>parentID m. case findStep ?e parentID of None \<Rightarrow> m
     | Some i \<Rightarrow> if se_Status (ex_Steps ?e ! i) = StepStatusCompleted
                then m(parentID \<mapsto> se_Output (ex_Steps ?e ! i)) else m"
  have "fold ?step deps m = (\<lambda>d. if d \<in> set deps then map_option se_Output (get_step ?e d) else m d)" for m
    using assms by (induction deps arbitrary: m) (auto simp: get_step_def fun_eq_iff)
  then show ?thesis by (simp add: upstreamOutputs_def)
qed

lemma eng_inv_upstream:
  assumes "eng_inv p s" "\<forall>d \<in> set deps. stat s d = Some StepStatusCompleted"
  shows "upstreamOutputs (en_exec s) deps = outputs (en_trace s) |` set deps"
    and "set deps \<subseteq> dom (outputs (en_trace s))"
proof -
  have *: "outputs (en_trace s) d = map_option se_Output (get_step (en_exec s) d)
    \<and> get_step (en_exec s) d \<noteq> None" if "d \<in> set deps" for d
    using assms that by (auto simp: eng_inv_def)
  then show "upstreamOutputs (en_exec s) deps = outputs (en_trace s) |` set deps"
    unfolding upstreamOutputs_completed [OF assms(2)] by (auto simp: restrict_map_def)
  show "set deps \<subseteq> dom (outputs (en_trace s))" using * by force
qed

section \<open>One step\<close>

lemma stepByID_ID: "stepByID p i = Some sd \<Longrightarrow> sd \<in> set (pd_Steps p) \<and> sd_ID sd = i"
proof -
  have "fold (\<lambda>st m. m(sd_ID st \<mapsto> st)) steps m i = Some sd \<Longrightarrow>
      sd \<in> set steps \<and> sd_ID sd = i \<or> m i = Some sd" for steps m
    by (induction steps arbitrary: m) (fastforce split: if_splits)+
  then show "stepByID p i = Some sd \<Longrightarrow> ?thesis" by (fastforce simp: stepByID_def)
qed

lemma stepByID_distinct:
  assumes "distinct (map sd_ID (pd_Steps p))" "sd \<in> set (pd_Steps p)"
  shows "stepByID p (sd_ID sd) = Some sd"
proof -
  have "fold (\<lambda>st m. m(sd_ID st \<mapsto> st)) steps m (sd_ID sd) = Some sd"
    if "distinct (map sd_ID steps)" "sd \<in> set steps \<or> m (sd_ID sd) = Some sd \<and> sd_ID sd \<notin> sd_ID ` set steps" for steps m
    using that by (induction steps arbitrary: m) (auto simp: image_iff)
  with assms show ?thesis by (simp add: stepByID_def)
qed

lemma publish_quiet: "set tr \<subseteq> {CPublish c ev} \<Longrightarrow> \<not> term_event ev \<Longrightarrow> quiet tr \<and> now_readings tr = []"
  by (induction tr) auto

lemma run_emit_quiet:
  assumes "run_state (emit P c ev) s = (u, s')" "\<not> term_event ev"
  shows "\<exists>tr. evolves {} s s' tr \<and> quiet tr \<and> now_readings tr = [] \<and> en_exec s' = en_exec s"
proof -
  from run_emit [OF assms(1)] obtain tr where tr: "frame s s' tr" "set tr \<subseteq> {CPublish c ev}" by blast
  with publish_quiet [OF tr(2) assms(2)] frame_evolves [OF tr(1)] show ?thesis by (auto simp: frame_def)
qed

lemma run_recordSuccess:
  assumes run: "run_state (recordSuccess P p sd a res) s = (r, s')"
    and k: "sd_ID sd \<in> set (step_keys s)"
  shows "\<exists>t tr se. evolves {sd_ID sd} s s' tr \<and> quiet tr \<and> now_readings tr = [t]
     \<and> get_step (en_exec s') (sd_ID sd) = Some se \<and> se_Status se = StepStatusCompleted
     \<and> se_CompletedAt se = Some t \<and> se_Output se = sr_Output res"
proof -
  let ?i = "sd_ID sd"
  let ?f = "\<lambda>t se. se\<lparr>se_Status := StepStatusCompleted, se_Output := sr_Output res,
                     se_CompletedAt := Some t, se_Attempt := a\<rparr>"
  from k get_step_ex [of "en_exec s" ?i] obtain m where m: "findStep (en_exec s) ?i = Some m"
    by (auto simp: get_step_def)
  note m' = findStep_Some [OF m]
  obtain t s1 where 1: "run_state (now P) s = (t, s1)" by fastforce
  from run_now [OF 1] have f1: "frame s s1 [CNow t]" .
  with m have m1: "findStep (en_exec s1) ?i = Some m" by (simp add: frame_def)
  from run 1 m1 obtain saveErr s2 s3 where
    2: "run_state (do { modStep m (?f t); e' \<leftarrow> getExec; saveStep P RunCtx (ex_Steps e' ! m) }) s1 = (saveErr, s2)"
    and 3: "run_state (emit P RunCtx ((mkEvent EventStepCompleted (en_exec s2) p t)\<lparr>ev_StepID := sd_ID sd,
         ev_StepType := sd_Type sd, ev_Output := sr_Output res\<rparr>)) s2 = ((), s3)"
    and 4: "run_state (if isDeployStep (sd_Type sd) \<and> sr_Endpoint res \<noteq> ''''
        then emit P RunCtx ((mkEvent EventModelDeployed (en_exec s2) p t)\<lparr>ev_StepID := sd_ID sd,
             ev_StepType := sd_Type sd, ev_Endpoint := sr_Endpoint res\<rparr>)
        else State_Monad.return ()) s3 = ((), s')"
    by (auto simp: recordSuccess_def run_getExec split: prod.splits)
  from 2 m1 m' f1 obtain se where
    st: "stepped ?i (?f t) s1 s2 [CSaveStep RunCtx se saveErr]"
    by (auto simp: run_mark_unfold split: prod.splits)
  from run_emit_quiet [OF 3] obtain tr3 where e3: "evolves {} s2 s3 tr3" "quiet tr3" "now_readings tr3 = []"
    "en_exec s3 = en_exec s2" by (auto simp: term_event_def)
  from 4 obtain tr4 where e4: "evolves {} s3 s' tr4" "quiet tr4" "now_readings tr4 = []"
    "en_exec s' = en_exec s3"
    by (auto split: if_splits simp: term_event_def dest!: run_emit_quiet intro: that [of "[]"])
  let ?tr = "[CNow t] @ [CSaveStep RunCtx se saveErr] @ tr3 @ tr4"
  have "evolves {?i} s s' ?tr"
    using evolves_trans [OF frame_evolves [OF f1] evolves_trans [OF stepped_evolves [OF st]
        evolves_trans [OF e3(1) e4(1)]]] by simp
  moreover have "quiet ?tr" "now_readings ?tr = [t]" using e3 e4 by simp_all
  moreover have "get_step (en_exec s') ?i = Some (?f t (ex_Steps (en_exec s1) ! m))"
    using stepped_get [OF st] e3(4) e4(4) get_step_nth [OF m1] by simp
  ultimately show ?thesis by (intro exI conjI) (assumption | simp)+
qed

lemma deps_evolve:
  assumes "evolves {i} s s' tr" "i \<notin> set deps" "\<forall>d \<in> set deps. stat s d = Some st"
  shows "\<forall>d \<in> set deps. stat s' d = Some st"
proof
  fix d assume d: "d \<in> set deps"
  with assms(2) have "d \<notin> {i}" by auto
  from evolves_get [OF assms(1) this] assms(3) d show "stat s' d = Some st" by simp
qed

lemma run_unit: obtains s' where "run_state (m :: ('s, unit) state) s = ((), s')"
  by (cases "run_state m s") auto

text \<open>
  One attempt up to its forward action: the step is marked running, checkpointed, and the action is
  called on it; the invariant holds again right after the call.
\<close>

lemma run_attempt_start:
  assumes inv: "eng_inv p s" and sd: "stepByID p (sd_ID sd) = Some sd"
    and deps: "\<forall>d \<in> set (sd_DependsOn sd). stat s d = Some StepStatusCompleted"
    and self: "sd_ID sd \<notin> set (sd_DependsOn sd)" and key: "sd_ID sd \<in> set (step_keys s)"
    and bounds: "1 \<le> a" "a \<le> sd_MaxRetries sd + 1"
    and mark: "run_state (markStepAttempt_rec P RunCtx sd StepStatusRunning '''' a) s = ((), s1)"
    and exec: "run_state (execute P (stepCtx sd) (sd_Type sd) (buildStepInput (en_exec s1) sd a)) s1 = (res, s2)"
  shows "\<exists>tr inp. evolves {sd_ID sd} s s2 (tr @ [CExecute (stepCtx sd) (sd_Type sd) inp res])
    \<and> quiet tr \<and> si_StepID inp = sd_ID sd \<and> eng_inv p s2 \<and> stat s2 (sd_ID sd) = Some StepStatusRunning"
proof -
  let ?i = "sd_ID sd" and ?inp = "buildStepInput (en_exec s1) sd a"
  from run_markStepAttempt_rec [OF mark] obtain tr where
    m: "markd ?i StepStatusRunning RunCtx (\<lambda>se. se_Error se = '''' \<and> se_Attempt se = a) s s1 tr" by blast
  from key get_step_ex [of "en_exec s" ?i] obtain se0 where "get_step (en_exec s) ?i = Some se0" by auto
  with m obtain se r tr' where se: "tr = tr' @ [CSaveStep RunCtx se r]" "get_step (en_exec s1) ?i = Some se"
    "se_Status se = StepStatusRunning" "se_StepID se = ?i" "se_Attempt se = a"
    by (auto simp: markd_def)
  have inv1: "eng_inv p s1"
    by (rule eng_inv_evolves [OF inv markdD(1) [OF m] quiet_no_exec [OF markdD(2) [OF m]]])
      (use se in simp)
  have "\<forall>d \<in> set (sd_DependsOn sd). stat s1 d = Some StepStatusCompleted"
    by (rule deps_evolve [OF markdD(1) [OF m] self deps])
  note up = eng_inv_upstream [OF inv1 this]
  have f2: "frame s1 s2 [CExecute (stepCtx sd) (sd_Type sd) ?inp res]" by (rule run_execute [OF exec])
  have ev1: "en_trace s1 = en_trace s @ tr' @ [CSaveStep RunCtx se r]"
    using markdD(1) [OF m] se(1) by (simp add: evolves_def)
  have ok: "exec_ok p (en_trace s1) (CExecute (stepCtx sd) (sd_Type sd) ?inp res)"
    using sd up bounds se ev1 by (auto simp: exec_ok_def buildStepInput_def)
  have out: "outputs (en_trace s2) i = outputs (en_trace s1) i" if "i \<noteq> ?i" for i
    using that f2 by (cases res) (simp_all add: frame_def outputs_append outputs_exec buildStepInput_def
        map_add_def)
  have "outputs (en_trace s2) i = Some (se_Output se')"
    if "get_step (en_exec s2) i = Some se'" "se_Status se' = StepStatusCompleted" for i se'
    using that out [of i] inv1 f2 se by (cases "i = ?i") (auto simp: eng_inv_def frame_def)
  then have "eng_inv p s2" using inv1 f2 ok
    by (auto simp: eng_inv_def frame_def disciplined_snoc term_events_exec)
  moreover have "stat s2 ?i = Some StepStatusRunning" using f2 se by (simp add: frame_def)
  moreover have "evolves {?i} s s2 (tr @ [CExecute (stepCtx sd) (sd_Type sd) ?inp res])"
    using evolves_trans [OF markdD(1) [OF m] frame_evolves [OF f2]] by simp
  ultimately show ?thesis using markdD(2) [OF m]
    by (intro exI [of _ tr] exI [of _ ?inp]) (simp add: buildStepInput_def)
qed

definition step_done :: "PipelineDefinition \<Rightarrow> string \<Rightarrow> 'w eng \<Rightarrow> goerr option \<Rightarrow> 'w eng \<Rightarrow> call list \<Rightarrow> bool"
  where "step_done p i s r s' tr \<longleftrightarrow> evolves {i} s s' tr \<and> eng_inv p s' \<and> comp_calls tr = []
     \<and> (case r of
          None \<Rightarrow> ok_execs tr = [i] \<and> (\<exists>se t. get_step (en_exec s') i = Some se
              \<and> se_Status se = StepStatusCompleted \<and> se_CompletedAt se = Some t \<and> t \<in> set (now_readings tr))
        | Some _ \<Rightarrow> ok_execs tr = [] \<and> stat s' i = Some StepStatusFailed)"

lemma eng_inv_markd:
  assumes "eng_inv p s" "markd i st c Q s s' tr" "st \<noteq> StepStatusCompleted"
  shows "eng_inv p s'"
  by (rule eng_inv_evolves [OF assms(1) markdD(1) [OF assms(2)] quiet_no_exec [OF markdD(2) [OF assms(2)]]])
    (use markd_stat [OF assms(2)] assms(3) in auto)

lemma key_stat: "i \<in> set (step_keys s) \<Longrightarrow> \<exists>st. stat s i = Some st"
  using get_step_ex [of "en_exec s" i] by auto

lemma step_done_prefix:
  assumes "evolves {i} s s1 tr1" "comp_calls tr1 = []" "ok_execs tr1 = []" "step_done p i s1 r s' tr2"
  shows "step_done p i s r s' (tr1 @ tr2)"
  using assms evolves_trans [OF assms(1), of "{i}" s' tr2]
  by (fastforce simp: step_done_def split: option.splits)

lemma markd_failed_done:
  assumes "eng_inv p s" "i \<in> set (step_keys s)" "markd i StepStatusFailed c Q s s' tr"
  shows "step_done p i s (Some err) s' tr"
  using key_stat [OF assms(2)] markd_stat [OF assms(3)] markdD [OF assms(3)] eng_inv_markd [OF assms(1,3)]
  by (auto simp: step_done_def)

lemma evolves_quiet_inv:
  "eng_inv p s \<Longrightarrow> evolves {} s s' tr \<Longrightarrow> quiet tr \<Longrightarrow> eng_inv p s'"
  by (erule (1) eng_inv_evolves) (simp_all add: quiet_no_exec)

lemma step_done_suffix:
  assumes "step_done p i s r s1 tr1" "evolves {} s1 s' tr2" "quiet tr2"
  shows "step_done p i s r s' (tr1 @ tr2)"
proof -
  from assms have "evolves {i} s s1 tr1" "eng_inv p s1" by (simp_all add: step_done_def)
  then have "evolves {i} s s' (tr1 @ tr2)" "eng_inv p s'"
    using evolves_trans [of "{i}" s s1 tr1 "{}" s' tr2] evolves_quiet_inv [OF _ assms(2,3)] assms(2) by simp_all
  with assms show ?thesis by (auto simp: step_done_def evolves_def split: option.splits)
qed

lemma attempt_success:
  assumes ev: "evolves {sd_ID sd} s s3 (tr @ [CExecute c ty inp (Inr result)])" and "quiet tr"
    and "si_StepID inp = sd_ID sd" and inv: "eng_inv p s3" and key: "sd_ID sd \<in> set (step_keys s3)"
    and rs: "run_state (recordSuccess P p sd a result) s3 = (rr, s4)"
  shows "\<exists>tr'. step_done p (sd_ID sd) s None (s4\<lparr>en_errs := x\<rparr>) tr'"
proof -
  let ?i = "sd_ID sd" and ?s' = "s4\<lparr>en_errs := x\<rparr>" and ?tr = "tr @ [CExecute c ty inp (Inr result)]"
  from run_recordSuccess [OF rs key] obtain t tr4 se where
    e4: "evolves {?i} s3 s4 tr4" "quiet tr4" "now_readings tr4 = [t]"
    and se: "get_step (en_exec s4) ?i = Some se" "se_Status se = StepStatusCompleted"
      "se_CompletedAt se = Some t" "se_Output se = sr_Output result" by blast
  have e4': "evolves {?i} s3 ?s' tr4" using evolves_trans [OF e4(1) evolves_errs_upd [of "{}"]] by simp
  have out: "outputs (en_trace s3) ?i = Some (sr_Output result)"
    using ev assms(3) by (simp add: evolves_def outputs_append outputs_exec)
  have "eng_inv p ?s'"
    by (rule eng_inv_evolves [OF inv e4' quiet_no_exec [OF e4(2)]]) (use se out in simp)
  moreover have "evolves {?i} s ?s' (?tr @ tr4)" using evolves_trans [OF ev e4'] by simp
  ultimately have "step_done p ?i s None ?s' (?tr @ tr4)"
    using assms(2,3) e4 se by (simp add: step_done_def)
  then show ?thesis by blast
qed

lemma run_attemptLoop:
  assumes "run_state (attemptLoop P p sd n a lastErr) s = (r, s')"
    and "eng_inv p s" and sd: "stepByID p (sd_ID sd) = Some sd"
    and "\<forall>d \<in> set (sd_DependsOn sd). stat s d = Some StepStatusCompleted"
    and self: "sd_ID sd \<notin> set (sd_DependsOn sd)" and "sd_ID sd \<in> set (step_keys s)"
    and "1 \<le> a" "0 < n \<Longrightarrow> a + int n \<le> sd_MaxRetries sd + 2"
  shows "\<exists>tr. step_done p (sd_ID sd) s r s' tr"
  using assms(1,2,4,6-8)
proof (induction n arbitrary: s a lastErr)
  case 0
  let ?i = "sd_ID sd"
  from "0.prems"(1) obtain s1 t s2 where
    1: "run_state (markStepAttempt_rec P RunCtx sd StepStatusFailed (sanitize lastErr) (sd_MaxRetries sd + 1)) s = ((), s1)"
    and 2: "run_state (now P) s1 = (t, s2)"
    and 3: "run_state (emit P RunCtx ((mkEvent EventStepFailed (en_exec s2) p t)\<lparr>ev_StepID := ?i,
       ev_StepType := sd_Type sd, ev_Error := sanitize lastErr, ev_Attempts := sd_MaxRetries sd + 1\<rparr>)) s2 = ((), s')"
    and r: "r = Some (exhaustedErr sd lastErr)"
    by (auto simp: run_getExec split: prod.splits)
  from run_markStepAttempt_rec [OF 1] obtain tr1 where
    "markd ?i StepStatusFailed RunCtx (\<lambda>se. se_Error se = sanitize lastErr \<and> se_Attempt se = sd_MaxRetries sd + 1) s s1 tr1"
    by blast
  from markd_failed_done [OF "0.prems"(2,4) this] have d1: "step_done p ?i s r s1 tr1" by (simp add: r)
  from run_emit_quiet [OF 3] obtain tr3 where "evolves {} s2 s' tr3" "quiet tr3"
    by (auto simp: term_event_def)
  with evolves_trans [OF frame_evolves [OF run_now [OF 2]] this(1)]
  have "evolves {} s1 s' ([CNow t] @ tr3)" "quiet ([CNow t] @ tr3)" by simp_all
  from step_done_suffix [OF d1 this] show ?case by blast
next
  case (Suc n)
  let ?i = "sd_ID sd"
  obtain ce s1 where 1: "run_state (ctxErr P RunCtx) s = (ce, s1)" by fastforce
  note f1 = run_ctxErr [OF 1]
  have e1: "evolves {?i} s s1 [CCtxErr RunCtx ce]" by (rule evolves_mono [OF frame_evolves [OF f1]]) simp
  have inv1: "eng_inv p s1" by (rule evolves_quiet_inv [OF Suc.prems(2) frame_evolves [OF f1]]) simp
  have key1: "?i \<in> set (step_keys s1)" using Suc.prems(4) f1 by (simp add: frame_def)
  have deps1: "\<forall>d \<in> set (sd_DependsOn sd). stat s1 d = Some StepStatusCompleted"
    using Suc.prems(3) f1 by (simp add: frame_def)
  have bnd: "a \<le> sd_MaxRetries sd + 1" using Suc.prems(6) by simp
  show ?case
  proof (cases ce)
    case (Some c)
    with Suc.prems(1) 1 have
      m: "run_state (markStepAttempt_rec P DetachedCtx sd StepStatusFailed ''cancelled'' a) s1 = ((), s')"
      and r: "r = Some c" by (auto split: prod.splits)
    from run_markStepAttempt_rec [OF m] obtain tr where
      "markd ?i StepStatusFailed DetachedCtx (\<lambda>se. se_Error se = ''cancelled'' \<and> se_Attempt se = a) s1 s' tr"
      by blast
    from step_done_prefix [OF e1 _ _ markd_failed_done [OF inv1 key1 this]] show ?thesis
      by (auto simp: r)
  next
    case None
    obtain s2 where 2: "run_state (markStepAttempt_rec P RunCtx sd StepStatusRunning '''' a) s1 = ((), s2)"
      by (rule run_unit)
    obtain res s3 where 3: "run_state (execute P (stepCtx sd) (sd_Type sd) (buildStepInput (en_exec s2) sd a)) s2 = (res, s3)"
      by fastforce
    from run_attempt_start [OF inv1 sd deps1 self key1 Suc.prems(5) bnd 2 3] obtain tr3 inp where
      e3: "evolves {?i} s1 s3 (tr3 @ [CExecute (stepCtx sd) (sd_Type sd) inp res])" "quiet tr3"
        "si_StepID inp = ?i" and inv3: "eng_inv p s3" and st3: "stat s3 ?i = Some StepStatusRunning"
      by blast
    let ?tr = "[CCtxErr RunCtx ce] @ tr3 @ [CExecute (stepCtx sd) (sd_Type sd) inp res]"
    have e13: "evolves {?i} s s3 ?tr" using evolves_trans [OF e1 e3(1)] by simp
    have key3: "?i \<in> set (step_keys s3)" using Suc.prems(4) e13 by (simp add: evolves_def)
    show ?thesis
    proof (cases res)
      case (Inr result)
      from Suc.prems(1) 1 None 2 3 Inr obtain rr s4 where
        4: "run_state (recordSuccess P p sd a result) s3 = (rr, s4)"
        and s': "s' = s4\<lparr>en_errs := stepErrs_record rr (en_errs s4)\<rparr>" and r: "r = None"
        by (auto simp: run_getExec run_recordErr split: prod.splits)
      from e13 e3(2) have "evolves {?i} s s3 (([CCtxErr RunCtx ce] @ tr3) @ [CExecute (stepCtx sd) (sd_Type sd) inp (Inr result)])"
        "quiet ([CCtxErr RunCtx ce] @ tr3)" by (simp_all add: Inr)
      from attempt_success [OF this e3(3) inv3 key3 4] show ?thesis unfolding r s' by blast
    next
      case (Inl err)
      from Suc.prems(1) 1 None 2 3 Inl obtain b s4 where
        4: "run_state (if errors_Is err context_Canceled then State_Monad.return True
              else do { ce2 \<leftarrow> ctxErr P RunCtx; State_Monad.return (is_err ce2 context_Canceled) }) s3 = (b, s4)"
        and 5: "run_state (if b then do {
               markStepAttempt_rec P DetachedCtx sd StepStatusFailed ''cancelled'' a;
               State_Monad.return (Some context_Canceled) }
             else attemptLoop P p sd n (a + 1) (Some err)) s4 = (r, s')"
        by (auto simp: run_getExec split: prod.splits if_splits)
      from 4 obtain tr4 where f4: "frame s3 s4 tr4" "quiet tr4"
        by (cases "errors_Is err context_Canceled")
          (auto split: prod.splits dest!: run_ctxErr intro: that [of "[]"] that simp: frame_def)
      let ?tr4 = "?tr @ tr4"
      have e14: "evolves {?i} s s4 ?tr4" "comp_calls ?tr4 = []" "ok_execs ?tr4 = []"
        using evolves_trans [OF e13 frame_evolves [OF f4(1)]] e3(2) f4(2) by (simp_all add: Inl)
      have inv4: "eng_inv p s4" by (rule evolves_quiet_inv [OF inv3 frame_evolves [OF f4(1)] f4(2)])
      have key4: "?i \<in> set (step_keys s4)" using key3 f4 by (simp add: frame_def)
      have deps4: "\<forall>d \<in> set (sd_DependsOn sd). stat s4 d = Some StepStatusCompleted"
        by (rule deps_evolve [OF e14(1) self Suc.prems(3)])
      have "\<exists>tr. step_done p ?i s4 r s' tr"
      proof (cases b)
        case True
        with 5 have m: "run_state (markStepAttempt_rec P DetachedCtx sd StepStatusFailed ''cancelled'' a) s4 = ((), s')"
          and r: "r = Some context_Canceled" by (auto split: prod.splits)
        from run_markStepAttempt_rec [OF m] markd_failed_done [OF inv4 key4] show ?thesis
          unfolding r by blast
      next
        case False
        with 5 have "run_state (attemptLoop P p sd n (a + 1) (Some err)) s4 = (r, s')" by simp
        from Suc.IH [OF this inv4 deps4 key4] Suc.prems(5,6) show ?thesis by simp
      qed
      with step_done_prefix [OF e14] show ?thesis by blast
    qed
  qed
qed

lemma run_runOneStep:
  assumes run: "run_state (runOneStep P p sd) s = (r, s')"
    and inv: "eng_inv p s" and sd: "stepByID p (sd_ID sd) = Some sd"
    and deps: "\<forall>d \<in> set (sd_DependsOn sd). stat s d = Some StepStatusCompleted"
    and self: "sd_ID sd \<notin> set (sd_DependsOn sd)" and key: "sd_ID sd \<in> set (step_keys s)"
  shows "\<exists>tr. step_done p (sd_ID sd) s r s' tr" and "r = None \<Longrightarrow> p_executor P (sd_Type sd)"
proof -
  let ?i = "sd_ID sd" and ?s1 = "s\<lparr>en_exec := (en_exec s)\<lparr>ex_CurrentStep := sd_ID sd\<rparr>\<rparr>"
  have e1: "evolves {} s ?s1 []" by (rule evolves_exec_upd) simp_all
  have inv1: "eng_inv p ?s1" by (rule evolves_quiet_inv [OF inv e1]) simp
  have key1: "?i \<in> set (step_keys ?s1)" using key by simp
  have deps1: "\<forall>d \<in> set (sd_DependsOn sd). stat ?s1 d = Some StepStatusCompleted"
    using deps evolves_get [OF e1] by simp
  have pre: "evolves {?i} s ?s1 []" by (rule evolves_mono [OF e1]) simp
  show "\<exists>tr. step_done p ?i s r s' tr"
  proof (cases "p_executor P (sd_Type sd)")
    case True
    with run have "run_state (attemptLoop P p sd (nat (sd_MaxRetries sd + 1)) 1 None) ?s1 = (r, s')"
      by (simp add: runOneStep_def run_modExec)
    from run_attemptLoop [OF this inv1 sd deps1 self key1] step_done_prefix [OF pre] show ?thesis
      by fastforce
  next
    case False
    with run have m: "run_state (markStep_rec P RunCtx ?i StepStatusFailed ''no executor registered'') ?s1 = ((), s')"
      and r: "r = Some ErrNoExecutor" by (auto simp: runOneStep_def run_modExec split: prod.splits)
    from run_markStep_rec [OF m] markd_failed_done [OF inv1 key1] step_done_prefix [OF pre]
    show ?thesis unfolding r by fastforce
  qed
  show "p_executor P (sd_Type sd)" if "r = None"
    using run that by (auto simp: runOneStep_def run_modExec split: prod.splits if_splits)
qed

end
