(* ===== verification/PipelineSaga.thy ===== *)
theory PipelineSaga
  imports PipelineSteps "HOL-Library.Sublist"
begin

text \<open>
  The saga scheduler. \<open>saga_inv\<close> holds while no step has failed, \<open>saga_aborted\<close> once the rollback has
  run: the undo actions were called over the succeeded steps in reverse, and every step with an undo
  action is settled. \<open>run_sagaLoop\<close> says every run of the loop ends in one of the two.
\<close>

section \<open>Skipping and compensation\<close>

lemma run_skipLoop:
  assumes "run_state (skipLoop P f past order) s = (u, s')"
  shows "\<exists>tr J. evolves J s s' tr \<and> quiet tr
    \<and> (\<forall>j \<in> J. stat s j = Some StepStatusPending \<and> stat s' j = Some StepStatusSkipped)"
  using assms
proof (induction P f past order arbitrary: s rule: skipLoop.induct)
  case (1 P f past)
  then show ?case by (intro exI [of _ "[]"] exI [of _ "{}"]) simp
next
  case (2 P f past i rest)
  show ?case
  proof (cases "i = f \<or> \<not> past")
    case True
    with 2 show ?thesis by (auto split: if_splits)
  next
    case False
    from False 2(4) obtain s1 where
      1: "run_state (case findStep (en_exec s) i of None \<Rightarrow> State_Monad.return ()
         | Some k \<Rightarrow> if se_Status (ex_Steps (en_exec s) ! k) = StepStatusPending
             then markStep_rec P DetachedCtx i StepStatusSkipped '''' else State_Monad.return ()) s = ((), s1)"
      and rest: "run_state (skipLoop P f past rest) s1 = (u, s')"
      by (auto simp: run_getExec split: prod.splits)
    from False 2(3) [OF _ _ rest] obtain tr J where
      J: "evolves J s1 s' tr" "quiet tr"
        "\<forall>j \<in> J. stat s1 j = Some StepStatusPending \<and> stat s' j = Some StepStatusSkipped" by blast
    show ?thesis
    proof (cases "stat s i = Some StepStatusPending")
      case True
      then have "run_state (markStep_rec P DetachedCtx i StepStatusSkipped '''') s = ((), s1)"
        using 1 by (auto simp: get_step_def)
      from run_markStep_rec [OF this] obtain tr1 where
        m: "markd i StepStatusSkipped DetachedCtx (\<lambda>se. se_Error se = '''') s s1 tr1" by blast
      have s1i: "stat s1 i = Some StepStatusSkipped" using markd_stat [OF m] True by auto
      with J(3) have "i \<notin> J" by auto
      with s1i evolves_get [OF J(1)] have "stat s' i = Some StepStatusSkipped" by simp
      moreover have "stat s j = stat s1 j" if "j \<in> J" for j
        using evolves_get [OF markdD(1) [OF m], of j] that \<open>i \<notin> J\<close> by (cases "j = i") auto
      ultimately show ?thesis
        using evolves_trans [OF markdD(1) [OF m] J(1)] markdD(2) [OF m] J True
        by (intro exI [of _ "tr1 @ tr"] exI [of _ "{i} \<union> J"]) (simp add: ball_Un)
    next
      case False
      then have "s1 = s" using 1 by (auto simp: get_step_def split: option.splits if_splits)
      with J show ?thesis by blast
    qed
  qed
qed

definition undoable :: "PipelineDefinition \<Rightarrow> string \<Rightarrow> bool" where
  "undoable p i = (case stepByID p i of None \<Rightarrow> False | Some sd \<Rightarrow> sd_CompensationStepID sd \<noteq> '''')"

definition has_executor :: "'w Ports \<Rightarrow> PipelineDefinition \<Rightarrow> string \<Rightarrow> bool" where
  "has_executor P p i = (case stepByID p i of None \<Rightarrow> False | Some sd \<Rightarrow> p_executor P (sd_Type sd))"

text \<open>The effect of undoing one step.\<close>

definition undone :: "string \<Rightarrow> bool \<Rightarrow> 'w eng \<Rightarrow> bool \<Rightarrow> 'w eng \<Rightarrow> call list \<Rightarrow> bool" where
  "undone i ex s failed s' tr \<longleftrightarrow> evolves {i} s s' tr \<and> no_exec tr
     \<and> comp_calls tr = (if ex then [i] else [])
     \<and> stat s' i = Some (if failed then StepStatusCompensationFailed else StepStatusCompensated)"

lemma run_undeployed_event:
  assumes "run_state (if b then do { t \<leftarrow> now P; e' \<leftarrow> getExec; emit P c (f t e') }
     else State_Monad.return ()) s = ((), s')" "\<And>t e. \<not> term_event (f t e)"
  shows "\<exists>tr. evolves {} s s' tr \<and> quiet tr"
proof (cases b)
  case True
  with assms obtain t s1 where 1: "run_state (now P) s = (t, s1)"
    and 2: "run_state (emit P c (f t (en_exec s1))) s1 = ((), s')"
    by (auto simp: run_getExec split: prod.splits)
  from run_emit_quiet [OF 2 assms(2)] obtain tr where "evolves {} s1 s' tr" "quiet tr" by blast
  with evolves_trans [OF frame_evolves [OF run_now [OF 1]] this(1)] show ?thesis
    by (intro exI [of _ "[CNow t] @ tr"]) simp
next
  case False
  with assms show ?thesis by (intro exI [of _ "[]"]) simp
qed

lemma run_compensateOne:
  assumes run: "run_state (compensateOne P p sd se) s = (r, s')"
    and i: "sd_ID sd = se_StepID se" "se_StepID se \<in> set (step_keys s)"
  shows "\<exists>tr. undone (se_StepID se) (p_executor P (sd_Type sd)) s (r \<noteq> None) s' tr"
proof (cases "p_executor P (sd_Type sd)")
  case False
  let ?i = "se_StepID se"
  from run False have m: "run_state (markStep_rec P DetachedCtx ?i StepStatusCompensationFailed
      ''no executor for compensation'') s = ((), s')" and r: "r = Some ErrNoExecutor"
    by (auto simp: compensateOne_def split: prod.splits)
  from run_markStep_rec [OF m] obtain tr where
    m: "markd ?i StepStatusCompensationFailed DetachedCtx (\<lambda>se. se_Error se = ''no executor for compensation'') s s' tr"
    by blast
  then show ?thesis
    using key_stat [OF i(2)] markd_stat [OF m] markdD [OF m] False
    by (intro exI [of _ tr]) (auto simp: undone_def r quiet_no_exec)
next
  case True
  let ?i = "se_StepID se"
  obtain s1 where 1: "run_state (markStep_rec P DetachedCtx ?i StepStatusCompensating '''') s = ((), s1)"
    by (rule run_unit)
  let ?inp = "buildStepInput (en_exec s1) sd (se_Attempt se)"
  obtain q s2 where 2: "run_state (executor_compensate P DetachedCtx (sd_Type sd) ?inp) s1 = (q, s2)"
    by fastforce
  let ?c = "CCompensate DetachedCtx (sd_Type sd) ?inp q"
  let ?st = "if q \<noteq> None then StepStatusCompensationFailed else StepStatusCompensated"
  let ?msg = "sanitize q"
  obtain s3 where 3: "run_state (markStep_rec P DetachedCtx ?i ?st ?msg) s2 = ((), s3)"
    by (rule run_unit)
  from run True 1 2 3 have rq: "r = q" and s': "(q \<noteq> None \<and> s' = s3) \<or> (q = None \<and>
      run_state (if isDeployStep (sd_Type sd) then do {
               t \<leftarrow> now P; e' \<leftarrow> getExec;
               emit P DetachedCtx ((mkEvent EventModelUndeployed e' p t)\<lparr>ev_StepID := sd_ID sd,
                 ev_StepType := sd_Type sd\<rparr>) }
             else State_Monad.return ()) s3 = ((), s'))"
    by (auto simp: compensateOne_def run_getExec sanitize_def split: prod.splits option.splits)
  have "\<exists>tr. evolves {} s3 s' tr \<and> quiet tr"
    using s'
  proof (elim disjE conjE)
    assume "q \<noteq> None" "s' = s3"
    then show ?thesis by (auto intro: exI [of _ "[]"])
  qed (erule run_undeployed_event, simp add: term_event_def)
  then obtain tr4 where e4: "evolves {} s3 s' tr4" "quiet tr4" by blast
  from run_markStep_rec [OF 1] obtain tr1 where
    m1: "markd ?i StepStatusCompensating DetachedCtx (\<lambda>se. se_Error se = '''') s s1 tr1" by blast
  from run_markStep_rec [OF 3] obtain tr3 where
    m3: "markd ?i ?st DetachedCtx (\<lambda>se. se_Error se = ?msg) s2 s3 tr3" by blast
  note f2 = run_executor_compensate [OF 2]
  let ?tr = "tr1 @ [?c] @ tr3 @ tr4"
  have "evolves {?i} s s' ?tr"
    using evolves_trans [OF markdD(1) [OF m1] evolves_trans [OF frame_evolves [OF f2]
      evolves_trans [OF markdD(1) [OF m3] e4(1)]]] by simp
  moreover have "no_exec ?tr" "comp_calls ?tr = [?i]"
    using markdD(2) [OF m1] markdD(2) [OF m3] e4(2) i(1) by (simp_all add: quiet_no_exec buildStepInput_def)
  moreover have "stat s' ?i = Some ?st"
    using evolves_get [OF e4(1), of ?i] markd_stat [OF m3] markd_stat [OF m1] key_stat [OF i(2)] f2
    by (auto simp: frame_def)
  ultimately have "undone ?i True s (q \<noteq> None) s' ?tr" by (simp add: undone_def)
  with True show ?thesis unfolding rq by auto
qed

abbreviation undo_settled :: "'w eng \<Rightarrow> string \<Rightarrow> bool" where
  "undo_settled s i \<equiv> stat s i = Some StepStatusCompensated \<or> stat s i = Some StepStatusCompensationFailed"

lemma run_compLoop:
  assumes "run_state (compLoop P p (stepByID p) ses b) s = (r, s')"
    and "distinct (map se_StepID ses)" "se_StepID ` set ses \<subseteq> set (step_keys s)"
  shows "\<exists>tr. evolves {i \<in> se_StepID ` set ses. undoable p i} s s' tr \<and> no_exec tr
    \<and> comp_calls tr = filter (\<lambda>i. undoable p i \<and> has_executor P p i) (map se_StepID ses)
    \<and> (\<forall>i \<in> se_StepID ` set ses. undoable p i \<longrightarrow> undo_settled s' i)
    \<and> (r \<longleftrightarrow> b \<or> (\<exists>i \<in> se_StepID ` set ses. undoable p i \<and> stat s' i = Some StepStatusCompensationFailed))"
  using assms
proof (induction ses arbitrary: b s)
  case Nil
  then show ?case by (intro exI [of _ "[]"]) simp
next
  case (Cons se ses)
  let ?i = "se_StepID se"
  let ?J = "{i \<in> se_StepID ` set ses. undoable p i}"
  show ?case
  proof (cases "undoable p ?i")
    case False
    with Cons.prems have "run_state (compLoop P p (stepByID p) ses b) s = (r, s')"
      by (auto simp: undoable_def split: option.splits)
    from Cons.IH [OF this] Cons.prems False show ?thesis
      by (simp add: Collect_disj_eq conj_disj_distribR cong: conj_cong)
  next
    case True
    then obtain sd where sd: "stepByID p ?i = Some sd" "sd_CompensationStepID sd \<noteq> ''''"
      by (auto simp: undoable_def split: option.splits)
    with Cons.prems obtain q s1 where 1: "run_state (compensateOne P p sd se) s = (q, s1)"
      and rest: "run_state (compLoop P p (stepByID p) ses (b \<or> q \<noteq> None)) s1 = (r, s')"
      by (auto split: prod.splits)
    from run_compensateOne [OF 1] stepByID_ID [OF sd(1)] Cons.prems(3) obtain tr1 where
      u: "undone ?i (p_executor P (sd_Type sd)) s (q \<noteq> None) s1 tr1" by auto
    then have e1: "evolves {?i} s s1 tr1" by (simp add: undone_def)
    have "se_StepID ` set ses \<subseteq> set (step_keys s1)" using e1 Cons.prems(3) by (simp add: evolves_def)
    from Cons.IH [OF rest _ this] Cons.prems(2) obtain tr where
      e2: "evolves ?J s1 s' tr" and rest2: "no_exec tr"
        "comp_calls tr = filter (\<lambda>i. undoable p i \<and> has_executor P p i) (map se_StepID ses)"
        "\<forall>i \<in> se_StepID ` set ses. undoable p i \<longrightarrow> undo_settled s' i"
        "r \<longleftrightarrow> (b \<or> q \<noteq> None) \<or> (\<exists>i \<in> se_StepID ` set ses. undoable p i \<and> stat s' i = Some StepStatusCompensationFailed)"
      by auto
    have "?i \<notin> ?J" using Cons.prems(2) by auto
    from evolves_get [OF e2 this] u have
      si: "stat s' ?i = Some (if q \<noteq> None then StepStatusCompensationFailed else StepStatusCompensated)"
      by (simp add: undone_def)
    have J: "{i \<in> se_StepID ` set (se # ses). undoable p i} = {?i} \<union> ?J" using True by auto
    show ?thesis unfolding J
    proof (intro exI conjI)
      show "evolves ({?i} \<union> ?J) s s' (tr1 @ tr)" by (rule evolves_trans [OF e1 e2])
      show "no_exec (tr1 @ tr)" using u rest2 by (simp add: undone_def)
      show "comp_calls (tr1 @ tr) = filter (\<lambda>i. undoable p i \<and> has_executor P p i) (map se_StepID (se # ses))"
        using u rest2 True sd by (simp add: undone_def has_executor_def)
      show "\<forall>i \<in> se_StepID ` set (se # ses). undoable p i \<longrightarrow> undo_settled s' i"
        using rest2(3) si by (cases "q = None") (simp_all del: map_option_eq_Some)
      show "r \<longleftrightarrow> b \<or> (\<exists>i \<in> se_StepID ` set (se # ses). undoable p i \<and> stat s' i = Some StepStatusCompensationFailed)"
        using rest2(4) si True by (cases "q = None") (simp_all del: map_option_eq_Some)
    qed
  qed
qed

section \<open>The saga invariant\<close>

text \<open>
  While no step has failed: the completed steps are the succeeded forward actions \<open>pre\<close>, nothing was
  undone, each had an executor, and their completion times are clock readings in that order.
\<close>

definition completion_times :: "'w eng \<Rightarrow> string list \<Rightarrow> time option list" where
  "completion_times s is = map (\<lambda>i. Option.bind (get_step (en_exec s) i) se_CompletedAt) is"

definition saga_inv :: "'w Ports \<Rightarrow> PipelineDefinition \<Rightarrow> string list \<Rightarrow> 'w eng \<Rightarrow> bool" where
  "saga_inv P p pre s \<longleftrightarrow> eng_inv p s \<and> ok_execs (en_trace s) = pre \<and> comp_calls (en_trace s) = []
     \<and> (\<forall>i. stat s i = Some StepStatusCompleted \<longleftrightarrow> i \<in> set pre)
     \<and> (\<forall>i \<in> set pre. has_executor P p i)
     \<and> (\<exists>ts. completion_times s pre = map Some ts \<and> subseq ts (now_readings (en_trace s)))"

lemma sorted_wrt_subseq: "sorted_wrt Q ys \<Longrightarrow> subseq xs ys \<Longrightarrow> sorted_wrt Q xs"
proof (induction ys arbitrary: xs)
  case Nil
  then show ?case by (cases xs) simp_all
next
  case (Cons y ys)
  show ?case
  proof (cases "subseq xs ys")
    case False
    with Cons.prems(2) obtain xs' where xs: "xs = y # xs'" "subseq xs' ys"
      by (cases xs) (auto split: if_splits)
    then have "set xs' \<subseteq> set ys" by (metis set_nths_subset subseq_conv_nths)
    with Cons xs show ?thesis by auto
  qed (use Cons in simp)
qed

lemma completed_in_order:
  assumes inv: "saga_inv P p pre s" and d: "distinct pre" "distinct (step_keys s)"
  shows "mset (map se_StepID (completedStepsInOrder (en_exec s))) = mset pre"
    and "sorted_wrt (<) (now_readings (en_trace s)) \<Longrightarrow>
      map se_StepID (completedStepsInOrder (en_exec s)) = pre"
proof -
  let ?e = "en_exec s" and ?rec = "\<lambda>i. the (get_step (en_exec s) i)"
  let ?xs = "filter (\<lambda>se. se_Status se = StepStatusCompleted) (ex_Steps ?e)"
  have g: "get_step ?e i = Some (?rec i)" "se_Status (?rec i) = StepStatusCompleted"
      "se_StepID (?rec i) = i" "?rec i \<in> set (ex_Steps ?e)" if "i \<in> set pre" for i
  proof -
    from inv that obtain se where se: "get_step ?e i = Some se" "se_Status se = StepStatusCompleted"
      by (auto simp: saga_inv_def)
    with get_step_Some [OF se(1)] show "get_step ?e i = Some (?rec i)" "se_StepID (?rec i) = i"
      "se_Status (?rec i) = StepStatusCompleted" "?rec i \<in> set (ex_Steps ?e)" by simp_all
  qed
  have ids: "map se_StepID (map ?rec pre) = pre" using g by (simp add: map_idI)
  have "set ?xs = ?rec ` set pre"
  proof (intro equalityI subsetI)
    fix se assume "se \<in> set ?xs"
    with get_step_distinct [OF d(2)] have "get_step ?e (se_StepID se) = Some se"
      "se_Status se = StepStatusCompleted" by auto
    with inv show "se \<in> ?rec ` set pre" by (auto simp: saga_inv_def intro!: rev_image_eqI [of "se_StepID se"])
  qed (use g in auto)
  moreover have "distinct ?xs" using d(2) by (auto intro: distinct_filter dest: distinct_map [THEN iffD1])
  moreover have "distinct (map ?rec pre)" using ids d(1) by (metis distinct_map)
  ultimately have ms: "mset ?xs = mset (map ?rec pre)"
    unfolding set_eq_iff_mset_eq_distinct [symmetric] by (metis list.set_map set_eq_iff_mset_eq_distinct)
  have "mset (map se_StepID (completedStepsInOrder ?e)) = image_mset se_StepID (mset ?xs)"
    by (simp add: completedStepsInOrder_def sortStepsByCompletedAt_def)
  also have "\<dots> = mset (map se_StepID (map ?rec pre))" unfolding ms by (simp only: mset_map)
  finally show "mset (map se_StepID (completedStepsInOrder ?e)) = mset pre" unfolding ids .
  show "map se_StepID (completedStepsInOrder ?e) = pre" if srt: "sorted_wrt (<) (now_readings (en_trace s))"
  proof -
    from inv obtain ts where ts: "completion_times s pre = map Some ts" "subseq ts (now_readings (en_trace s))"
      by (auto simp: saga_inv_def)
    from ts(1) have k: "map se_CompletedAt (map ?rec pre) = map Some ts"
    proof -
      have "map se_CompletedAt (map ?rec pre) = completion_times s pre"
        unfolding completion_times_def map_map comp_def
        by (rule map_cong [OF refl]) (metis g(1) bind.bind_lunit)
      with ts(1) show ?thesis by simp
    qed
    from srt ts(2) have "sorted_wrt (<) ts" by (rule sorted_wrt_subseq)
    then have "sorted_wrt (<) (map Some ts)" by (simp add: sorted_wrt_map)
    then have s2: "sorted (map se_CompletedAt (map ?rec pre))" "distinct (map se_CompletedAt (map ?rec pre))"
      unfolding k strict_sorted_iff by simp_all
    from s2(2) have "inj_on se_CompletedAt (set (map ?rec pre))" by (rule distinct_map [THEN iffD1, THEN conjunct2])
    then have "inj_on se_CompletedAt (set ?xs)" using ms by (metis mset_eq_setD)
    from sort_key_inj_key_eq [OF ms this s2(1)] ids show ?thesis
      by (simp add: completedStepsInOrder_def sortStepsByCompletedAt_def)
  qed
qed

text \<open>
  An aborted saga: the succeeded steps are \<open>pre\<close>; the undo actions ran over them in reverse order of
  completion, which is the reverse of \<open>pre\<close> when the clock is strictly increasing; each step with an
  undo action is settled, and \<open>r\<close> reports a failed undo.
\<close>

definition saga_aborted :: "PipelineDefinition \<Rightarrow> string list \<Rightarrow> goerr \<Rightarrow> goerr \<Rightarrow> 'w eng \<Rightarrow> bool" where
  "saga_aborted p pre cause r s \<longleftrightarrow> eng_inv p s \<and> ok_execs (en_trace s) = pre
     \<and> (\<exists>ord. mset ord = mset pre \<and> (sorted_wrt (<) (now_readings (en_trace s)) \<longrightarrow> ord = pre)
          \<and> comp_calls (en_trace s) = rev (filter (undoable p) ord))
     \<and> (\<forall>i. stat s i = Some StepStatusCompleted \<longleftrightarrow> i \<in> set pre \<and> \<not> undoable p i)
     \<and> (\<forall>i \<in> set pre. undoable p i \<longrightarrow> undo_settled s i)
     \<and> r = (if \<exists>i \<in> set pre. undoable p i \<and> stat s i = Some StepStatusCompensationFailed
            then Wrapf '''' ErrCompensationFailed ('' (original cause: '' @ err_msg cause @ '')'')
            else cause)"

lemma saga_inv_failed:
  assumes inv: "saga_inv P p pre s" and e: "evolves J s s' tr" and q: "ok_execs tr = []" "comp_calls tr = []"
    and inv': "eng_inv p s'"
    and J: "\<And>j. j \<in> J \<Longrightarrow> j \<notin> set pre \<and> stat s' j \<noteq> Some StepStatusCompleted"
  shows "saga_inv P p pre s'"
proof -
  have "stat s' i = Some StepStatusCompleted \<longleftrightarrow> i \<in> set pre" for i
    using inv J [of i] evolves_get [OF e, of i] by (cases "i \<in> J") (simp_all add: saga_inv_def)
  moreover have "completion_times s' pre = completion_times s pre"
    unfolding completion_times_def
  proof (rule map_cong [OF refl])
    fix i assume "i \<in> set pre"
    with J have "i \<notin> J" by blast
    from evolves_get [OF e this]
    show "Option.bind (get_step (en_exec s') i) se_CompletedAt = Option.bind (get_step (en_exec s) i) se_CompletedAt"
      by simp
  qed
  moreover have "en_trace s' = en_trace s @ tr" using e by (simp add: evolves_def)
  moreover have "subseq ts (now_readings (en_trace s) @ now_readings tr)" if "subseq ts (now_readings (en_trace s))" for ts
    using that by (rule subseq_rev_drop_many)
  ultimately show ?thesis using inv inv' q by (auto simp: saga_inv_def)
qed

lemma saga_inv_evolves:
  assumes inv: "saga_inv P p pre s" and e: "evolves J s s' tr" and q: "quiet tr"
    and J: "\<And>j. j \<in> J \<Longrightarrow> j \<notin> set pre \<and> stat s' j \<noteq> Some StepStatusCompleted"
  shows "saga_inv P p pre s'"
proof -
  have "eng_inv p s'"
    by (rule eng_inv_evolves [OF _ e quiet_no_exec [OF q]]) (use inv J in \<open>auto simp: saga_inv_def\<close>)
  from saga_inv_failed [OF inv e _ _ this J] q show ?thesis by simp
qed

lemma run_compensate:
  assumes run: "run_state (compensate P p (stepByID p) cause) s = (c, s')"
    and inv: "saga_inv P p pre s" and d: "distinct pre" "distinct (step_keys s)"
  shows "saga_aborted p pre cause c s'"
proof -
  let ?s1 = "s\<lparr>en_exec := (en_exec s)\<lparr>ex_Status := ExecutionStatusCompensating\<rparr>\<rparr>"
  obtain r s2 where 2: "run_state (save P DetachedCtx (en_exec ?s1)) ?s1 = (r, s2)" by fastforce
  let ?s3 = "s2\<lparr>en_errs := stepErrs_record r (en_errs s2)\<rparr>"
  obtain t s4 where 4: "run_state (now P) ?s3 = (t, s4)" by fastforce
  obtain s5 where 5: "run_state (emit P DetachedCtx (mkEvent EventCompensationTriggered (en_exec ?s1) p t)) s4 = ((), s5)"
    by (rule run_unit)
  let ?ses = "rev (completedStepsInOrder (en_exec ?s1))"
  from run 2 4 5 obtain b where 6: "run_state (compLoop P p (stepByID p) ?ses False) s5 = (b, s')"
    and c: "c = (if b then Wrapf '''' ErrCompensationFailed ('' (original cause: '' @ err_msg cause @ '')'') else cause)"
    by (auto simp: compensate_def run_modExec run_getExec run_recordErr split: prod.splits)
  from run_emit_quiet [OF 5] obtain tr5 where e5: "evolves {} s4 s5 tr5" "quiet tr5" "now_readings tr5 = []"
    by (auto simp: term_event_def)
  let ?tr = "[CSave DetachedCtx (en_exec ?s1) r, CNow t] @ tr5"
  have e1: "evolves {} s ?s1 []" by (rule evolves_exec_upd) simp_all
  have e15: "evolves {} s s5 ?tr"
    using evolves_trans [OF e1 evolves_trans [OF frame_evolves [OF run_save [OF 2]] evolves_trans [OF
      evolves_errs_upd [of "{}"] evolves_trans [OF frame_evolves [OF run_now [OF 4]] e5(1)]]]] by simp
  have ne: "no_exec ?tr" "ok_execs ?tr = []" "comp_calls ?tr = []" using e5 by (simp_all add: quiet_no_exec)
  have "eng_inv p s" using inv by (simp add: saga_inv_def)
  from eng_inv_evolves [OF this e15 ne(1)] have inv5: "eng_inv p s5" by simp
  have st5: "get_step (en_exec s5) i = get_step (en_exec s) i" for i using evolves_get [OF e15] by simp
  have inv1: "saga_inv P p pre ?s1" by (rule saga_inv_evolves [OF inv e1]) simp_all
  let ?ord = "map se_StepID (completedStepsInOrder (en_exec ?s1))"
  note ord = completed_in_order [OF inv1 d(1)]
  have ord1: "mset ?ord = mset pre" and ord2: "sorted_wrt (<) (now_readings (en_trace s)) \<Longrightarrow> ?ord = pre"
    using ord d(2) by simp_all
  have set_ses: "se_StepID ` set ?ses = set pre" using mset_eq_setD [OF ord1] by simp
  have "distinct (map se_StepID ?ses)" using ord1 d(1) by (metis distinct_rev mset_eq_imp_distinct_iff rev_map)
  moreover have "se_StepID ` set ?ses \<subseteq> set (step_keys s5)"
    unfolding set_ses using inv inv5 st5 get_step_ex [of "en_exec s5"] by (fastforce simp: saga_inv_def)
  ultimately obtain tr6 where e6: "evolves {i \<in> set pre. undoable p i} s5 s' tr6" "no_exec tr6"
    "comp_calls tr6 = filter (\<lambda>i. undoable p i \<and> has_executor P p i) (map se_StepID ?ses)"
    and settled: "\<forall>i \<in> set pre. undoable p i \<longrightarrow> undo_settled s' i"
    and b: "b \<longleftrightarrow> (\<exists>i \<in> set pre. undoable p i \<and> stat s' i = Some StepStatusCompensationFailed)"
    using run_compLoop [OF 6] unfolding set_ses by auto
  have not_comp: "stat s' i \<noteq> Some StepStatusCompleted" if "i \<in> set pre" "undoable p i" for i
    using settled that by auto
  have "eng_inv p s'" by (rule eng_inv_evolves [OF inv5 e6(1,2)]) (use not_comp in auto)
  moreover have "stat s' i = Some StepStatusCompleted \<longleftrightarrow> i \<in> set pre \<and> \<not> undoable p i" for i
    using not_comp [of i] evolves_get [OF e6(1), of i] st5 [of i] inv
    by (cases "i \<in> set pre \<and> undoable p i") (auto simp: saga_inv_def)
  moreover have tr': "en_trace s' = en_trace s @ ?tr @ tr6" using e15 e6(1) by (simp add: evolves_def)
  have "ok_execs (en_trace s') = pre" using inv ne no_exec_ok_execs [OF e6(2)] unfolding tr' by (simp add: saga_inv_def)
  moreover have "comp_calls tr6 = rev (filter (undoable p) ?ord)"
    using e6(3) inv mset_eq_setD [OF ord1]
    by (auto simp: rev_map rev_filter saga_inv_def filter_map comp_def intro!: arg_cong [where f = "map se_StepID"] filter_cong)
  then have "comp_calls (en_trace s') = rev (filter (undoable p) ?ord)"
    using inv ne unfolding tr' by (simp add: saga_inv_def)
  moreover have "sorted_wrt (<) (now_readings (en_trace s')) \<longrightarrow> ?ord = pre"
    using ord2 unfolding tr' by (simp add: sorted_wrt_append)
  ultimately show ?thesis using ord1 settled b c unfolding saga_aborted_def by blast
qed

section \<open>The saga scheduler\<close>

text \<open>A schedule of the template: its steps, each once, each after all its dependencies.\<close>

definition schedule :: "PipelineDefinition \<Rightarrow> string list \<Rightarrow> bool" where
  "schedule p order \<longleftrightarrow> distinct order \<and> set order = step_ids (pd_Steps p)
     \<and> distinct (map sd_ID (pd_Steps p))
     \<and> (\<forall>pre i rest sd. order = pre @ i # rest \<longrightarrow> stepByID p i = Some sd \<longrightarrow> set (sd_DependsOn sd) \<subseteq> set pre)"

lemma scheduleD:
  assumes "schedule p (pre @ i # rest)"
  obtains sd where "stepByID p i = Some sd" "sd_ID sd = i" "set (sd_DependsOn sd) \<subseteq> set pre"
    "i \<notin> set pre" "distinct pre" "i \<in> set (map sd_ID (pd_Steps p))"
proof -
  from assms have "i \<in> step_ids (pd_Steps p)" by (auto simp: schedule_def)
  then obtain sd where sd: "sd \<in> set (pd_Steps p)" "sd_ID sd = i" by auto
  with stepByID_distinct [of p sd] assms have "stepByID p i = Some sd" by (simp add: schedule_def)
  with that [of sd] sd assms show thesis by (auto simp: schedule_def)
qed

lemma saga_inv_step_ok:
  assumes inv: "saga_inv P p pre s" and dn: "step_done p i s None s' tr" and ex: "has_executor P p i"
    and i: "i \<notin> set pre"
  shows "saga_inv P p (pre @ [i]) s'"
proof -
  from dn obtain se t where e: "evolves {i} s s' tr" and d: "eng_inv p s'" "comp_calls tr = []" "ok_execs tr = [i]"
    and se: "get_step (en_exec s') i = Some se" "se_Status se = StepStatusCompleted" "se_CompletedAt se = Some t"
    and t: "t \<in> set (now_readings tr)" by (auto simp: step_done_def)
  from inv obtain ts where ts: "completion_times s pre = map Some ts" "subseq ts (now_readings (en_trace s))"
    by (auto simp: saga_inv_def)
  have tr: "en_trace s' = en_trace s @ tr" using e by (simp add: evolves_def)
  have "stat s' j = Some StepStatusCompleted \<longleftrightarrow> j \<in> set (pre @ [i])" for j
    using inv se evolves_get [OF e, of j] by (cases "j = i") (auto simp: saga_inv_def)
  moreover have "completion_times s' pre = completion_times s pre"
    unfolding completion_times_def using i evolves_get [OF e] by (intro map_cong) (auto, metis)
  then have "completion_times s' (pre @ [i]) = map Some (ts @ [t])"
    using ts(1) se unfolding completion_times_def map_append by simp
  moreover have "subseq (ts @ [t]) (now_readings (en_trace s'))"
    unfolding tr trace_append using ts(2) t by (intro list_emb_append_mono) (auto simp: subseq_singleton_left)
  ultimately have
    "\<exists>ts. completion_times s' (pre @ [i]) = map Some ts \<and> subseq ts (now_readings (en_trace s'))"
    "\<forall>j. stat s' j = Some StepStatusCompleted \<longleftrightarrow> j \<in> set (pre @ [i])" by blast+
  moreover have "ok_execs (en_trace s') = pre @ [i]" "comp_calls (en_trace s') = []"
    "\<forall>j \<in> set (pre @ [i]). has_executor P p j" using inv d ex tr by (auto simp: saga_inv_def)
  ultimately show ?thesis using d(1) unfolding saga_inv_def by blast
qed

lemma run_sagaLoop:
  assumes "run_state (sagaLoop P p (stepByID p) order rest) s = (r, s')"
    and "schedule p order" "order = pre @ rest" "saga_inv P p pre s"
  shows "(r = None \<and> saga_inv P p order s')
    \<or> (\<exists>k cause err. r = Some err \<and> saga_aborted p (take k order) cause err s')"
  using assms
proof (induction rest arbitrary: pre s)
  case Nil
  then show ?case by auto
next
  case (Cons i rest)
  have keys: "step_keys s' = map sd_ID (pd_Steps p)" if "saga_inv P p pre' s'" for pre' and s' :: "'a eng"
    using that by (simp add: saga_inv_def eng_inv_def)
  have dk: "distinct (step_keys s')" if "saga_inv P p pre' s'" for pre' and s' :: "'a eng"
    using keys [OF that] Cons.prems(2) by (simp add: schedule_def)
  have pre: "pre = take (length pre) order" using Cons.prems(3) by simp
  obtain sd where sd: "stepByID p i = Some sd" "sd_ID sd = i" "set (sd_DependsOn sd) \<subseteq> set pre"
    "i \<notin> set pre" "distinct pre" "i \<in> set (map sd_ID (pd_Steps p))"
    using scheduleD Cons.prems(2,3) by blast
  obtain ce s1 where 1: "run_state (ctxErr P RunCtx) s = (ce, s1)" by fastforce
  have inv1: "saga_inv P p pre s1"
    by (rule saga_inv_evolves [OF Cons.prems(4) frame_evolves [OF run_ctxErr [OF 1]]]) simp_all
  show ?case
  proof (cases ce)
    case (Some e)
    with Cons.prems(1) 1 obtain c where "run_state (compensate P p (stepByID p) context_Canceled) s1 = (c, s')"
      and r: "r = Some c" by (auto split: prod.splits)
    from run_compensate [OF this(1) inv1 sd(5) dk [OF inv1]] pre show ?thesis unfolding r by metis
  next
    case None
    obtain q s2 where 2: "run_state (runOneStep P p sd) s1 = (q, s2)" by fastforce
    have inv: "eng_inv p s1" using inv1 by (simp add: saga_inv_def)
    have deps: "\<forall>d \<in> set (sd_DependsOn sd). stat s1 d = Some StepStatusCompleted"
      using inv1 sd(3) by (auto simp: saga_inv_def)
    have self: "sd_ID sd \<notin> set (sd_DependsOn sd)" and key: "sd_ID sd \<in> set (step_keys s1)"
      using sd keys [OF inv1] by auto
    note one = run_runOneStep [OF 2 inv _ deps self key]
    obtain tr2 where d2: "step_done p i s1 q s2 tr2" using one(1) sd by auto
    show ?thesis
    proof (cases q)
      case q: None
      have "has_executor P p i" using one(2) q sd by (simp add: has_executor_def)
      from saga_inv_step_ok [OF inv1 d2 [unfolded q] this sd(4)] have inv2: "saga_inv P p (pre @ [i]) s2" .
      from Cons.prems(1) 1 None 2 q sd(1)
      have "run_state (sagaLoop P p (stepByID p) order rest) s2 = (r, s')" by (auto split: prod.splits)
      from Cons.IH [OF this Cons.prems(2) _ inv2] Cons.prems(3) show ?thesis by simp
    next
      case (Some err)
      let ?cause = "\<lambda>ce2. if is_err ce2 context_Canceled \<or> errors_Is err context_Canceled then context_Canceled else err"
      obtain ce2 s3 where 3: "run_state (ctxErr P RunCtx) s2 = (ce2, s3)" by fastforce
      obtain s4 where 4: "run_state (skipRemaining P order i) s3 = ((), s4)" by (rule run_unit)
      from Cons.prems(1) 1 None 2 Some sd(1) 3 4 obtain c where
        5: "run_state (compensate P p (stepByID p) (?cause ce2)) s4 = (c, s')" and r: "r = Some c"
        by (auto simp: Let_def split: prod.splits)
      have "stat s2 i = Some StepStatusFailed" "ok_execs tr2 = []" "comp_calls tr2 = []" "evolves {i} s1 s2 tr2"
        "eng_inv p s2" using d2 Some by (simp_all add: step_done_def)
      with saga_inv_failed [OF inv1, of "{i}" s2 tr2] sd(4) have inv2: "saga_inv P p pre s2" by simp
      have inv3: "saga_inv P p pre s3"
        by (rule saga_inv_evolves [OF inv2 frame_evolves [OF run_ctxErr [OF 3]]]) simp_all
      from run_skipLoop [OF 4 [unfolded skipRemaining_def]] obtain tr4 J where J: "evolves J s3 s4 tr4" "quiet tr4"
        "\<forall>j \<in> J. stat s3 j = Some StepStatusPending \<and> stat s4 j = Some StepStatusSkipped" by blast
      have inv4: "saga_inv P p pre s4"
      proof (rule saga_inv_evolves [OF inv3 J(1,2)])
        fix j assume "j \<in> J"
        with J(3) have "stat s3 j = Some StepStatusPending" "stat s4 j = Some StepStatusSkipped" by blast+
        moreover have "stat s3 j = Some StepStatusCompleted \<longleftrightarrow> j \<in> set pre" using inv3 by (simp add: saga_inv_def)
        ultimately show "j \<notin> set pre \<and> stat s4 j \<noteq> Some StepStatusCompleted" by (simp del: map_option_eq_Some)
      qed
      from run_compensate [OF 5 inv4 sd(5) dk [OF inv4]] pre show ?thesis unfolding r by metis
    qed
  qed
qed

end
