(* ===== verification/PipelineDag.thy ===== *)
theory PipelineDag
  imports PipelineSteps
begin

text \<open>
  The DAG scheduler. \<open>dag_inv p D failed s\<close> holds after the levels whose steps are \<open>D\<close>: a step of
  \<open>D\<close> is completed, or it is in \<open>failed\<close>, skipped if one of its parents is in \<open>failed\<close> and failed
  otherwise.
\<close>

definition deps_by :: "PipelineDefinition \<Rightarrow> string \<Rightarrow> string list" where
  "deps_by p i = (case stepByID p i of None \<Rightarrow> [] | Some sd \<Rightarrow> sd_DependsOn sd)"

abbreviation parent_failed :: "PipelineDefinition \<Rightarrow> string set \<Rightarrow> string \<Rightarrow> bool" where
  "parent_failed p failed i \<equiv> set (deps_by p i) \<inter> failed \<noteq> {}"

lemma anyParentFailed_iff: "anyParentFailed (stepByID p i) failed \<longleftrightarrow> parent_failed p failed i"
  by (auto simp: anyParentFailed_def deps_by_def list_ex_iff split: option.split)

lemma run_partitionLevel:
  assumes "run_state (partitionLevel P (stepByID p) xs failed r0) s = ((runnable, failed1), s')"
    and "\<forall>i \<in> set xs. set (deps_by p i) \<inter> L = {}" "set xs \<subseteq> L" "distinct xs" "set xs \<subseteq> set (step_keys s)"
  shows "runnable = r0 @ filter (\<lambda>i. \<not> parent_failed p failed i) xs
     \<and> failed1 = failed \<union> {i \<in> set xs. parent_failed p failed i}
     \<and> (\<forall>i \<in> set xs. parent_failed p failed i \<longrightarrow> stat s' i = Some StepStatusSkipped)
     \<and> (\<exists>tr. evolves {i \<in> set xs. parent_failed p failed i} s s' tr \<and> quiet tr)"
  using assms
proof (induction xs arbitrary: failed r0 s)
  case Nil
  then show ?case by (auto intro: exI [of _ "[]"])
next
  case (Cons i xs)
  show ?case
  proof (cases "parent_failed p failed i")
    case False
    with Cons.prems(1) have "run_state (partitionLevel P (stepByID p) xs failed (r0 @ [i])) s = ((runnable, failed1), s')"
      by (simp add: anyParentFailed_iff)
    moreover have J: "{j \<in> set (i # xs). parent_failed p failed j} = {j \<in> set xs. parent_failed p failed j}"
      using False by auto
    ultimately show ?thesis unfolding J using Cons.IH [of failed "r0 @ [i]" s] Cons.prems(2-5) False by simp
  next
    case True
    let ?F = "insert i failed"
    obtain s1 where 1: "run_state (markStep_rec P DetachedCtx i StepStatusSkipped '''') s = ((), s1)"
      by (rule run_unit)
    from run_markStep_rec [OF 1] obtain tr1 where
      m: "markd i StepStatusSkipped DetachedCtx (\<lambda>se. se_Error se = '''') s s1 tr1" by blast
    from Cons.prems(1) True 1
    have rest: "run_state (partitionLevel P (stepByID p) xs ?F r0) s1 = ((runnable, failed1), s')"
      by (simp add: anyParentFailed_iff)
    have pf: "parent_failed p ?F j \<longleftrightarrow> parent_failed p failed j" if "j \<in> set xs" for j
      using Cons.prems(2,3) that by auto
    let ?J = "{j \<in> set xs. parent_failed p failed j}"
    have k1: "set xs \<subseteq> set (step_keys s1)" using Cons.prems(5) markdD(1) [OF m] by (simp add: evolves_def)
    obtain tr where
      ih: "runnable = r0 @ filter (\<lambda>i. \<not> parent_failed p failed i) xs" "failed1 = ?F \<union> ?J"
        "\<forall>j \<in> set xs. parent_failed p failed j \<longrightarrow> stat s' j = Some StepStatusSkipped"
        and e: "evolves ?J s1 s' tr" "quiet tr"
    proof -
      have fl: "filter (\<lambda>j. \<not> parent_failed p ?F j) xs = filter (\<lambda>j. \<not> parent_failed p failed j) xs"
        by (rule filter_cong [OF refl]) (simp only: pf)
      have J: "{j \<in> set xs. parent_failed p ?F j} = ?J" using pf by blast
      have "\<forall>j \<in> set xs. set (deps_by p j) \<inter> L = {}" "set xs \<subseteq> L" "distinct xs" using Cons.prems(2-4) by simp_all
      from Cons.IH [OF rest this k1, unfolded fl J] pf that show thesis by blast
    qed
    have "stat s1 i = Some StepStatusSkipped"
      using markd_stat [OF m] key_stat [of i s] Cons.prems(5) by auto
    then have "stat s' i = Some StepStatusSkipped" using evolves_get [OF e(1), of i] Cons.prems(4) by simp
    moreover have J: "{j \<in> set (i # xs). parent_failed p failed j} = {i} \<union> ?J" using True by auto
    moreover have "evolves ({i} \<union> ?J) s s' (tr1 @ tr)" by (rule evolves_trans [OF markdD(1) [OF m] e(1)])
    ultimately show ?thesis using ih True e(2) markdD(2) [OF m] unfolding J
      by (intro conjI exI [of _ "tr1 @ tr"]) auto
  qed
qed

lemma run_runLevel:
  assumes "run_state (runLevel P p (stepByID p) xs) s = (rs, s')" and "eng_inv p s"
    and "\<forall>i \<in> set xs. i \<in> set (step_keys s) \<and> stepByID p i \<noteq> None \<and> set (deps_by p i) \<inter> set xs = {}
       \<and> (\<forall>d \<in> set (deps_by p i). stat s d = Some StepStatusCompleted)"
    and "distinct xs"
  shows "\<exists>tr. map fst rs = xs \<and> evolves (set xs) s s' tr \<and> eng_inv p s' \<and> comp_calls tr = []
    \<and> ok_execs tr = map fst (filter (\<lambda>(i, r). r = None) rs)
    \<and> (\<forall>(i, r) \<in> set rs. stat s' i = Some (if r = None then StepStatusCompleted else StepStatusFailed))"
  using assms
proof (induction xs arbitrary: s rs)
  case Nil
  then show ?case by (auto intro: exI [of _ "[]"])
next
  case (Cons i xs)
  from Cons.prems(3) obtain sd where sd: "stepByID p i = Some sd" by auto
  with stepByID_ID [OF sd] have id: "sd_ID sd = i" by simp
  have deps: "deps_by p i = sd_DependsOn sd" by (simp add: deps_by_def sd)
  obtain r s1 where 1: "run_state (runOneStep P p sd) s = (r, s1)" by fastforce
  from Cons.prems(1) sd 1 obtain rs' where rs: "rs = (i, r) # rs'"
    and 2: "run_state (runLevel P p (stepByID p) xs) s1 = (rs', s')" by (auto split: prod.splits)
  have "\<forall>d \<in> set (sd_DependsOn sd). stat s d = Some StepStatusCompleted" "sd_ID sd \<notin> set (sd_DependsOn sd)"
    "sd_ID sd \<in> set (step_keys s)" using Cons.prems(3) id deps by auto
  from run_runOneStep(1) [OF 1 Cons.prems(2) _ this] sd id obtain tr1 where
    d: "step_done p i s r s1 tr1" by auto
  then have e1: "evolves {i} s s1 tr1" and inv1: "eng_inv p s1" by (simp_all add: step_done_def)
  have "\<forall>j \<in> set xs. j \<in> set (step_keys s1) \<and> stepByID p j \<noteq> None \<and> set (deps_by p j) \<inter> set xs = {}
       \<and> (\<forall>d \<in> set (deps_by p j). stat s1 d = Some StepStatusCompleted)"
  proof
    fix j assume j: "j \<in> set xs"
    then have "i \<notin> set (deps_by p j)" using Cons.prems(3) by auto
    moreover have "\<forall>d \<in> set (deps_by p j). stat s d = Some StepStatusCompleted" using Cons.prems(3) j by simp
    ultimately have "\<forall>d \<in> set (deps_by p j). stat s1 d = Some StepStatusCompleted"
      by (rule deps_evolve [OF e1])
    moreover have "j \<in> set (step_keys s1)" using e1 Cons.prems(3) j by (simp add: evolves_def)
    ultimately show "j \<in> set (step_keys s1) \<and> stepByID p j \<noteq> None \<and> set (deps_by p j) \<inter> set xs = {}
       \<and> (\<forall>d \<in> set (deps_by p j). stat s1 d = Some StepStatusCompleted)"
      using Cons.prems(3) j by auto
  qed
  from Cons.IH [OF 2 inv1 this] Cons.prems(4) obtain tr where
    ih: "map fst rs' = xs" "evolves (set xs) s1 s' tr" "eng_inv p s'" "comp_calls tr = []"
      "ok_execs tr = map fst (filter (\<lambda>(i, r). r = None) rs')"
      "\<forall>(i, r) \<in> set rs'. stat s' i = Some (if r = None then StepStatusCompleted else StepStatusFailed)" by auto
  have "stat s' i = stat s1 i" using evolves_get [OF ih(2), of i] Cons.prems(4) by simp
  then have "stat s' i = Some (if r = None then StepStatusCompleted else StepStatusFailed)"
    using d by (auto simp: step_done_def split: option.splits)
  moreover have "evolves (set (i # xs)) s s' (tr1 @ tr)" using evolves_trans [OF e1 ih(2)] by simp
  moreover have "ok_execs tr1 = (if r = None then [i] else [])" "comp_calls tr1 = []"
    using d by (auto simp: step_done_def split: option.splits)
  ultimately show ?case using ih unfolding rs by (intro exI [of _ "tr1 @ tr"]) (auto simp del: map_option_eq_Some)
qed

lemma collectResults_spec:
  "collectResults m xs failed fe = (failed2, fe2) \<Longrightarrow>
     failed2 = failed \<union> {i \<in> set xs. \<exists>e. m i = Some (Some e)}
   \<and> (fe2 = None \<longleftrightarrow> fe = None \<and> (\<forall>i \<in> set xs. \<forall>e. m i \<noteq> Some (Some e)))"
proof (induction xs arbitrary: failed fe)
  case (Cons i xs)
  show ?case
  proof (cases "\<exists>e. m i = Some (Some e)")
    case True
    then obtain e where "m i = Some (Some e)" by blast
    with Cons.IH [of "insert i failed" "if fe = None then Some (Wrapf (''step '' @ i @ '': '') e '''') else fe"] Cons.prems
    show ?thesis by auto
  next
    case False
    then have "collectResults m xs failed fe = (failed2, fe2)" using Cons.prems by (auto split: option.splits)
    from Cons.IH [OF this] False show ?thesis by auto
  qed
qed simp

definition dag_inv :: "PipelineDefinition \<Rightarrow> string set \<Rightarrow> string set \<Rightarrow> 'w eng \<Rightarrow> bool" where
  "dag_inv p D failed s \<longleftrightarrow> eng_inv p s \<and> comp_calls (en_trace s) = [] \<and> failed \<subseteq> D
     \<and> distinct (ok_execs (en_trace s)) \<and> set (ok_execs (en_trace s)) = D - failed
     \<and> (\<forall>i \<in> D. set (deps_by p i) \<subseteq> D \<and> (parent_failed p failed i \<longrightarrow> i \<in> failed)
          \<and> stat s i = Some (if parent_failed p failed i then StepStatusSkipped
                             else if i \<in> failed then StepStatusFailed else StepStatusCompleted))"

lemma dag_inv_level:
  assumes inv: "dag_inv p D failed s" and L: "D \<inter> L = {}" "\<forall>i \<in> L. set (deps_by p i) \<subseteq> D"
    and e: "evolves L s s' tr" and inv': "eng_inv p s'" "comp_calls tr = []" "distinct (ok_execs tr)"
    and new: "bad \<subseteq> L" "set (ok_execs tr) = L - bad" "\<forall>i \<in> L. parent_failed p failed i \<longrightarrow> i \<in> bad"
    and st: "\<forall>i \<in> L. stat s' i = Some (if parent_failed p failed i then StepStatusSkipped
               else if i \<in> bad then StepStatusFailed else StepStatusCompleted)"
  shows "dag_inv p (D \<union> L) (failed \<union> bad) s'"
proof -
  have tr: "en_trace s' = en_trace s @ tr" using e by (simp add: evolves_def)
  have pf: "parent_failed p (failed \<union> bad) i \<longleftrightarrow> parent_failed p failed i" if "i \<in> D \<union> L" for i
  proof -
    from that L(2) inv have "set (deps_by p i) \<subseteq> D" by (auto simp: dag_inv_def)
    with L(1) new(1) have "set (deps_by p i) \<inter> bad = {}" by blast
    then show ?thesis by blast
  qed
  have "stat s' i = Some (if parent_failed p (failed \<union> bad) i then StepStatusSkipped
         else if i \<in> failed \<union> bad then StepStatusFailed else StepStatusCompleted)"
    if i: "i \<in> D \<union> L" for i
  proof (cases "i \<in> L")
    case True
    moreover have "i \<notin> failed" using True L(1) inv by (auto simp: dag_inv_def)
    ultimately show ?thesis using st pf [OF i] by (simp del: map_option_eq_Some)
  next
    case False
    then have "i \<notin> bad" "stat s' i = stat s i" using new(1) evolves_get [OF e] by auto
    with False i pf [OF i] inv show ?thesis by (simp add: dag_inv_def del: map_option_eq_Some)
  qed
  moreover have "parent_failed p (failed \<union> bad) i \<longrightarrow> i \<in> failed \<union> bad" if "i \<in> D \<union> L" for i
    using pf [OF that] that new(3) inv by (auto simp: dag_inv_def)
  moreover have "set (deps_by p i) \<subseteq> D \<union> L" if "i \<in> D \<union> L" for i
    using that L(2) inv by (auto simp: dag_inv_def)
  moreover have "distinct (ok_execs (en_trace s'))" "set (ok_execs (en_trace s')) = D \<union> L - (failed \<union> bad)"
    "comp_calls (en_trace s') = []" "failed \<union> bad \<subseteq> D \<union> L"
    using inv inv' new L(1) unfolding tr by (auto simp: dag_inv_def)
  ultimately show ?thesis using inv'(1) unfolding dag_inv_def by blast
qed

lemma run_level:
  assumes inv: "dag_inv p D failed s" and L: "D \<inter> set level = {}" "\<forall>i \<in> set level. set (deps_by p i) \<subseteq> D"
    and lv: "distinct level" "set level \<subseteq> set (step_keys s)" "\<forall>i \<in> set level. stepByID p i \<noteq> None"
    and 1: "run_state (partitionLevel P (stepByID p) level failed []) s = ((runnable, failed1), s1)"
    and 2: "run_state (runLevel P p (stepByID p) sched) s2 = (rs, s')" "mset sched = mset runnable"
    and f: "frame s1 s2 tr2" "quiet tr2"
  shows "dag_inv p (D \<union> set level) (failed1 \<union> {i \<in> set runnable. \<exists>e. map_of rs i = Some (Some e)}) s'"
    (is "dag_inv p _ (failed1 \<union> ?bad) s'")
proof -
  let ?L = "set level" and ?pf = "parent_failed p failed"
  have dl: "\<forall>i \<in> ?L. set (deps_by p i) \<inter> ?L = {}" using L by blast
  from run_partitionLevel [OF 1 dl _ lv(1,2)] obtain tr1 where
    run: "runnable = filter (\<lambda>i. \<not> ?pf i) level" and f1: "failed1 = failed \<union> {i \<in> ?L. ?pf i}"
    and sk: "\<forall>i \<in> ?L. ?pf i \<longrightarrow> stat s1 i = Some StepStatusSkipped"
    and e1: "evolves {i \<in> ?L. ?pf i} s s1 tr1" "quiet tr1" by auto
  have e12: "evolves {i \<in> ?L. ?pf i} s s2 (tr1 @ tr2)" using evolves_trans [OF e1(1) frame_evolves [OF f(1)]] by simp
  have sk2: "\<forall>i \<in> ?L. ?pf i \<longrightarrow> stat s2 i = Some StepStatusSkipped" using sk f(1) by (simp add: frame_def)
  have sched: "set sched = {i \<in> ?L. \<not> ?pf i}" "distinct sched"
    using mset_eq_setD [OF 2(2)] mset_eq_imp_distinct_iff [OF 2(2)] lv(1) run by auto
  have inv2: "eng_inv p s2"
    by (rule eng_inv_evolves [OF _ e12 quiet_no_exec]) (use inv e1 f sk2 in \<open>auto simp: dag_inv_def\<close>)
  have "\<forall>i \<in> set sched. i \<in> set (step_keys s2) \<and> stepByID p i \<noteq> None \<and> set (deps_by p i) \<inter> set sched = {}
       \<and> (\<forall>d \<in> set (deps_by p i). stat s2 d = Some StepStatusCompleted)"
  proof (intro ballI conjI)
    fix i d assume i: "i \<in> set sched" and d: "d \<in> set (deps_by p i)"
    then have "i \<in> ?L" "\<not> ?pf i" using sched(1) by auto
    with L d have "d \<in> D" "d \<notin> failed" by auto
    with L(1) have "d \<notin> ?L" by auto
    have "stat s d = Some StepStatusCompleted"
    proof -
      from inv \<open>d \<in> D\<close> have "parent_failed p failed d \<longrightarrow> d \<in> failed"
        "stat s d = Some (if parent_failed p failed d then StepStatusSkipped
           else if d \<in> failed then StepStatusFailed else StepStatusCompleted)"
        unfolding dag_inv_def by blast+
      with \<open>d \<notin> failed\<close> show ?thesis by simp
    qed
    with evolves_get [OF e12, of d] \<open>d \<notin> ?L\<close> show "stat s2 d = Some StepStatusCompleted" by simp
  qed (use sched lv e12 dl in \<open>auto simp: evolves_def\<close>)
  from run_runLevel [OF 2(1) inv2 this sched(2)] obtain tr3 where
    r: "map fst rs = sched" "evolves (set sched) s2 s' tr3" "eng_inv p s'" "comp_calls tr3 = []"
      "ok_execs tr3 = map fst (filter (\<lambda>(i, r). r = None) rs)"
      "\<forall>(i, r) \<in> set rs. stat s' i = Some (if r = None then StepStatusCompleted else StepStatusFailed)" by blast
  have drs: "distinct (map fst rs)" using r(1) sched(2) by simp
  have lookup: "\<exists>r. map_of rs i = Some r \<and> (i, r) \<in> set rs" if "i \<in> set sched" for i
    using that r(1) map_of_eq_None_iff [of rs i] by (cases "map_of rs i") (auto dest: map_of_SomeD)
  have ok: "set (ok_execs tr3) = set sched - ?bad"
  proof (intro equalityI subsetI)
    fix i assume "i \<in> set (ok_execs tr3)"
    then have i: "(i, None) \<in> set rs" unfolding r(5) by auto
    then have "i \<in> set sched" unfolding r(1) [symmetric] by force
    moreover have "map_of rs i = Some None" using i drs by (simp add: map_of_eq_Some_iff)
    ultimately show "i \<in> set sched - ?bad" by simp
  next
    fix i assume i: "i \<in> set sched - ?bad"
    with lookup obtain q where q: "map_of rs i = Some q" "(i, q) \<in> set rs" by blast
    moreover have "i \<in> set runnable" using i mset_eq_setD [OF 2(2)] by simp
    ultimately have "q = None" using i by (cases q) auto
    with q show "i \<in> set (ok_execs tr3)" unfolding r(5) by force
  qed
  have "evolves ?L s s' (tr1 @ tr2 @ tr3)"
    by (rule evolves_mono [OF evolves_trans [OF e12 r(2), simplified]]) (use sched in auto)
  moreover have "\<forall>i \<in> ?L. stat s' i = Some (if ?pf i then StepStatusSkipped
               else if i \<in> {i \<in> ?L. ?pf i} \<union> ?bad then StepStatusFailed else StepStatusCompleted)"
  proof
    fix i assume i: "i \<in> ?L"
    show "stat s' i = Some (if ?pf i then StepStatusSkipped
               else if i \<in> {i \<in> ?L. ?pf i} \<union> ?bad then StepStatusFailed else StepStatusCompleted)"
    proof (cases "?pf i")
      case True
      then have "i \<notin> set sched" using sched by simp
      from evolves_get [OF r(2) this] sk2 i True show ?thesis by simp
    next
      case False
      with i sched have "i \<in> set sched" by simp
      from lookup [OF this] obtain q where "map_of rs i = Some q" "(i, q) \<in> set rs" by blast
      with r(6) False i run show ?thesis by (cases q) auto
    qed
  qed
  moreover have "?bad \<subseteq> ?L" "set (ok_execs (tr1 @ tr2 @ tr3)) = ?L - ({i \<in> ?L. ?pf i} \<union> ?bad)"
    using run ok sched(1) e1(2) f(2) by auto
  moreover have "distinct (ok_execs (tr1 @ tr2 @ tr3))" using drs e1(2) f(2) by (simp add: r(5) distinct_map_filter)
  ultimately have "dag_inv p (D \<union> ?L) (failed \<union> ({i \<in> ?L. ?pf i} \<union> ?bad)) s'"
    using r(3,4) e1(2) f(2)
    by (intro dag_inv_level [OF inv L, where tr = "tr1 @ tr2 @ tr3"]) (auto simp del: map_option_eq_Some)
  then show ?thesis unfolding f1 by (simp add: Un_assoc)
qed

lemma run_dagLoop:
  assumes "run_state (dagLoop P p (stepByID p) levels failed fe) s = (r, s')"
    and "dag_inv p D failed s" "fe = None \<Longrightarrow> failed = {}"
    and "distinct (concat levels)" "D \<inter> set (concat levels) = {}"
    and "\<forall>k < length levels. \<forall>i \<in> set (levels ! k). set (deps_by p i) \<subseteq> D \<union> set (concat (take k levels))"
    and "\<forall>i \<in> set (concat levels). i \<in> set (step_keys s) \<and> stepByID p i \<noteq> None"
  shows "\<exists>failed'. dag_inv p (D \<union> set (concat levels)) failed' s' \<and> (r = None \<longrightarrow> failed' = {})"
  using assms
proof (induction levels arbitrary: failed fe s D)
  case Nil
  then show ?case by auto
next
  case (Cons level levels)
  obtain runnable failed1 s1 where
    1: "run_state (partitionLevel P (stepByID p) level failed []) s = ((runnable, failed1), s1)"
    by (metis prod.exhaust)
  have lv: "distinct level" "set level \<subseteq> set (step_keys s)" "\<forall>i \<in> set level. stepByID p i \<noteq> None"
    using Cons.prems(4,7) by auto
  have L: "D \<inter> set level = {}" "\<forall>i \<in> set level. set (deps_by p i) \<subseteq> D"
    using Cons.prems(5) Cons.prems(6) [rule_format, of 0] by auto
  note level = run_level [OF Cons.prems(2) L lv 1]
  have "\<forall>i \<in> set level. set (deps_by p i) \<inter> set level = {}" using L by blast
  from run_partitionLevel [OF 1 this order_refl lv(1,2)] Cons.prems(3)
  have f1: "fe = None \<Longrightarrow> failed1 = {}" by simp
  have rest: "\<forall>k < length levels. \<forall>i \<in> set (levels ! k). set (deps_by p i) \<subseteq> (D \<union> set level) \<union> set (concat (take k levels))"
    using Cons.prems(6) by fastforce
  have step: "\<exists>failed'. dag_inv p (D \<union> set (concat (level # levels))) failed' s' \<and> (r = None \<longrightarrow> failed' = {})"
    if "run_state (dagLoop P p (stepByID p) levels f2 fe2) s2 = (r, s')" "dag_inv p (D \<union> set level) f2 s2"
      "fe2 = None \<Longrightarrow> f2 = {}" "step_keys s2 = step_keys s" for f2 fe2 s2
  proof -
    have "distinct (concat levels)" "(D \<union> set level) \<inter> set (concat levels) = {}" using Cons.prems(4,5) by auto
    moreover have "\<forall>i \<in> set (concat levels). i \<in> set (step_keys s2) \<and> stepByID p i \<noteq> None"
      unfolding that(4) using Cons.prems(7) by simp
    ultimately show ?thesis using Cons.IH [OF that(1-3) _ _ rest] by (simp add: Un_assoc)
  qed
  show ?case
  proof (cases "runnable = []")
    case True
    have inv: "dag_inv p (D \<union> set level) failed1 s1"
      using level [of "[]" s1 "[]" s1 "[]"] True by (simp add: frame_def)
    then show ?thesis
      using step [OF _ inv f1] Cons.prems(1,2) 1 True by (auto simp: dag_inv_def eng_inv_def)
  next
    case False
    obtain sched s2 where 2: "run_state (choose_order P runnable) s1 = (sched, s2)" by fastforce
    obtain rs s3 where 3: "run_state (runLevel P p (stepByID p) sched) s2 = (rs, s3)" by fastforce
    obtain iter s4 where 4: "run_state (choose_order P runnable) s3 = (iter, s4)" by fastforce
    obtain ce s5 where 5: "run_state (ctxErr P RunCtx) s4 = (ce, s5)" by fastforce
    obtain failed2 fe2 where c: "collectResults (map_of rs) iter failed1 fe = (failed2, fe2)" by fastforce
    from Cons.prems(1) 1 2 3 4 5 c False
    have run: "run_state (dagLoop P p (stepByID p) levels failed2
        (if ce \<noteq> None \<and> fe2 = None then Some context_Canceled else fe2)) s5 = (r, s')" by simp
    from run_choose_order [OF 2] have f2: "frame s1 s2 [CChoose sched]" "mset sched = mset runnable" by auto
    from run_choose_order [OF 4] have f4: "frame s3 s4 [CChoose iter]" "set iter = set runnable"
      by (auto dest: mset_eq_setD)
    have inv3: "dag_inv p (D \<union> set level) (failed1 \<union> {i \<in> set runnable. \<exists>e. map_of rs i = Some (Some e)}) s3"
      by (rule level [OF 3 f2(2) f2(1)]) simp
    note cs = collectResults_spec [OF c]
    have f35: "frame s3 s5 [CChoose iter, CCtxErr RunCtx ce]" using frame_trans [OF f4(1) run_ctxErr [OF 5]] by simp
    have inv5: "dag_inv p (D \<union> set level) failed2 s5"
      using dag_inv_level [OF inv3 _ _ frame_evolves [OF f35], of "{}"]
        evolves_quiet_inv [OF _ frame_evolves [OF f35]] inv3 cs f4(2) by (auto simp: dag_inv_def)
    have "fe2 = None \<Longrightarrow> failed2 = {}"
      using cs f1 by auto
    then have fin: "(if ce \<noteq> None \<and> fe2 = None then Some context_Canceled else fe2) = None \<Longrightarrow> failed2 = {}"
      by (simp split: if_splits)
    have "step_keys s5 = step_keys s"
      using inv5 Cons.prems(2) by (simp add: dag_inv_def eng_inv_def)
    from step [OF run inv5 fin this] show ?thesis .
  qed
qed

end
