(* ===== verification/PipelineRun.thy ===== *)
theory PipelineRun
  imports PipelineSaga PipelineDag
begin

text \<open>
  Settlement and the whole run of an execution: the terminal state is written before the terminal
  event is published, and the properties of the engine, for every behaviour of its ports.
\<close>

section \<open>Settlement\<close>

fun settle_call :: "Execution \<Rightarrow> call \<Rightarrow> bool" where
  "settle_call e (CSave c e' _) = (c = DetachedCtx \<and> e' = e)"
| "settle_call e (CCtxErr c _) = (c = DetachedCtx)"
| "settle_call e (CSleep c _ _) = (c = DetachedCtx)"
| "settle_call e _ = False"

lemma run_saveTerminalLoop:
  assumes "run_state (saveTerminalLoop P n a l) s = (r, s')" "0 < n \<or> l \<noteq> None"
  shows "\<exists>tr. frame s s' tr \<and> list_all (settle_call (en_exec s)) tr
    \<and> (r = None \<longrightarrow> (\<exists>h. tr = h @ [CSave DetachedCtx (en_exec s) None]))
    \<and> (r \<noteq> None \<longrightarrow> CSave DetachedCtx (en_exec s) None \<notin> set tr)"
  using assms
proof (induction n arbitrary: a l s)
  case 0
  then show ?case by (intro exI [of _ "[]"]) (auto simp: frame_def)
next
  case (Suc n)
  obtain q s1 where 1: "run_state (save P DetachedCtx (en_exec s)) s = (q, s1)" by fastforce
  note f1 = run_save [OF 1]
  show ?case
  proof (cases q)
    case None
    with Suc.prems 1 f1 show ?thesis
      by (intro exI [of _ "[CSave DetachedCtx (en_exec s) None]"]) (auto simp: run_getExec)
  next
    case (Some err)
    have retry: ?thesis if t2: "run_state (saveTerminalLoop P n (a + 1) (Some err)) s2 = (r, s')"
      and f2: "frame s1 s2 tr2" "list_all (settle_call (en_exec s)) tr2" "CSave DetachedCtx (en_exec s) None \<notin> set tr2" for s2 tr2
    proof -
      have "en_exec s2 = en_exec s" using f1 f2 by (simp add: frame_def)
      with Suc.IH [OF t2] obtain tr where "frame s2 s' tr" "list_all (settle_call (en_exec s)) tr"
        "r = None \<longrightarrow> (\<exists>h. tr = h @ [CSave DetachedCtx (en_exec s) None])"
        "r \<noteq> None \<longrightarrow> CSave DetachedCtx (en_exec s) None \<notin> set tr" by auto
      with frame_trans [OF f1 frame_trans [OF f2(1)]] f2 Some show ?thesis
        by (intro exI [of _ "[CSave DetachedCtx (en_exec s) q] @ tr2 @ tr"]) (auto split: option.splits)
    qed
    obtain ce s2 where 2: "run_state (ctxErr P DetachedCtx) s1 = (ce, s2)" by fastforce
    obtain fired s3 where 3: "run_state (sleep P DetachedCtx (a * backoffUnit)) s2 = (fired, s3)" by fastforce
    note f2 = run_ctxErr [OF 2] and f3 = run_sleep [OF 3]
    consider (last) "a \<ge> saveAttempts" | (dead) "a < saveAttempts" "ce \<noteq> None"
      | (again) "a < saveAttempts" "ce = None" fired | (stop) "a < saveAttempts" "ce = None" "\<not> fired"
      by linarith
    then show ?thesis
    proof cases
      case last
      with Suc.prems(1) 1 Some show ?thesis by (intro retry [of s1 "[]"]) (auto simp: run_getExec frame_def)
    next
      case dead
      with Suc.prems(1) 1 2 Some f2 show ?thesis
        by (intro retry [of s2 "[CCtxErr DetachedCtx ce]"]) (auto simp: run_getExec)
    next
      case again
      with Suc.prems(1) 1 2 3 Some frame_trans [OF f2 f3] show ?thesis
        by (intro retry [of s3 "[CCtxErr DetachedCtx ce, CSleep DetachedCtx (a * backoffUnit) fired]"])
          (auto simp: run_getExec)
    next
      case stop
      with Suc.prems(1) 1 2 3 Some frame_trans [OF f1 frame_trans [OF f2 f3]] show ?thesis
        by (intro exI [of _ "[CSave DetachedCtx (en_exec s) q, CCtxErr DetachedCtx ce, CSleep DetachedCtx (a * backoffUnit) fired]"])
          (auto simp: run_getExec)
    qed
  qed
qed

definition terminal_status :: "goerr option \<Rightarrow> ExecutionStatus" where
  "terminal_status runErr = (case runErr of None \<Rightarrow> ExecutionStatusCompleted
     | Some err \<Rightarrow> if errors_Is err context_Canceled then ExecutionStatusCancelled
                   else ExecutionStatusFailed)"

definition settled :: "'w Ports \<Rightarrow> goerr option \<Rightarrow> 'w eng \<Rightarrow> Execution \<Rightarrow> goerr option \<Rightarrow> 'w eng \<Rightarrow> bool" where
  "settled P runErr s e err s' \<longleftrightarrow> e = en_exec s' \<and> ex_Status e = terminal_status runErr
     \<and> (\<forall>x. runErr = Some x \<longrightarrow> \<not> errors_Is x context_Canceled \<longrightarrow> ex_Error e = err_msg x)
     \<and> (\<exists>t saves pubs. evolves {} s s' (CNow t # saves @ pubs) \<and> ex_CompletedAt e = Some t
         \<and> list_all (settle_call e) saves
         \<and> (case err of
              None \<Rightarrow> \<exists>h ev. saves = h @ [CSave DetachedCtx e None]
                 \<and> pubs = (if p_hasPublisher P then [CPublish DetachedCtx ev] else [])
                 \<and> ev_ExecutionID ev = ex_ID e \<and> ev_Type ev = (if runErr = None then EventPipelineCompleted else EventPipelineFailed)
            | Some x \<Rightarrow> errors_Is x ErrTerminalPersist \<and> pubs = [] \<and> CSave DetachedCtx e None \<notin> set saves))"

lemma run_emit_exact:
  "run_state (emit P c ev) s = (u, s') \<Longrightarrow> frame s s' (if p_hasPublisher P then [CPublish c ev] else [])"
  by (auto simp: emit_def frame_def split: if_splits dest!: run_port)

lemma run_settle:
  assumes "run_state (settle P p runErr) s = ((e, err), s')"
  shows "settled P runErr s e err s'"
proof -
  obtain t s1 where 1: "run_state (now P) s = (t, s1)" by fastforce
  define upd where "upd = (\<lambda>e :: Execution. case runErr of
      None \<Rightarrow> e\<lparr>ex_CompletedAt := Some t, ex_Status := ExecutionStatusCompleted\<rparr>
    | Some x \<Rightarrow> if errors_Is x context_Canceled then e\<lparr>ex_CompletedAt := Some t, ex_Status := ExecutionStatusCancelled\<rparr>
        else e\<lparr>ex_CompletedAt := Some t, ex_Status := ExecutionStatusFailed, ex_Error := err_msg x\<rparr>)"
  define evt where "evt = (if runErr = None then EventPipelineCompleted else EventPipelineFailed)"
  define msg where "msg = (case runErr of None \<Rightarrow> '''' | Some x \<Rightarrow>
     if errors_Is x context_Canceled then ''cancelled'' else err_msg x)"
  let ?s2 = "s1\<lparr>en_exec := upd (en_exec s1)\<rparr>"
  obtain r s3 where 3: "run_state (saveTerminal P) ?s2 = (r, s3)" by fastforce
  let ?e = "upd (en_exec s1)"
  from run_saveTerminalLoop [OF 3 [unfolded saveTerminal_def]] obtain saves where
    f3: "frame ?s2 s3 saves" "list_all (settle_call ?e) saves"
      "r = None \<longrightarrow> (\<exists>h. saves = h @ [CSave DetachedCtx ?e None])"
      "r \<noteq> None \<longrightarrow> CSave DetachedCtx ?e None \<notin> set saves"
    by (auto simp: saveAttempts_def)
  have e3: "en_exec s3 = ?e" using f3(1) by (simp add: frame_def)
  have u: "ex_Steps ?e = ex_Steps (en_exec s1)" "ex_ID ?e = ex_ID (en_exec s1)" "ex_Input ?e = ex_Input (en_exec s1)"
    "ex_Status ?e = terminal_status runErr" "ex_CompletedAt ?e = Some t"
    "\<forall>x. runErr = Some x \<longrightarrow> \<not> errors_Is x context_Canceled \<longrightarrow> ex_Error ?e = err_msg x"
    by (auto simp: upd_def terminal_status_def split: option.splits)
  have ev3: "evolves {} s s3 (CNow t # saves)"
    using evolves_trans [OF frame_evolves [OF run_now [OF 1]] evolves_trans [OF evolves_exec_upd [OF u(1-3), of "{}"]
      frame_evolves [OF f3(1)]]] by simp
  have rest: "run_state (case r of
       Some err \<Rightarrow> State_Monad.return (en_exec s3, Some (Wrapf '''' ErrTerminalPersist
         ('': execution '' @ ex_ID (en_exec s3) @ '' terminal state '' @ ExecutionStatus_String (ex_Status (en_exec s3))
          @ '' not durably persisted: '' @ err_msg err)))
     | None \<Rightarrow> do {
         emit P DetachedCtx ((mkEvent evt (en_exec s3) p t)\<lparr>ev_Error := msg\<rparr>);
         State_Monad.return (en_exec s3, None) }) s3 = ((e, err), s')"
    using assms 1 3
    by (cases runErr; cases r) (auto simp: settle_def run_modExec run_getExec upd_def evt_def msg_def split: if_splits)
  show ?thesis
  proof (cases r)
    case (Some x)
    with rest e3 obtain post where res: "e = ?e" "s' = s3" "err = Some (Wrapf '''' ErrTerminalPersist post)" by auto
    show ?thesis unfolding settled_def res option.case
      using ev3 f3(2,4) u(4-6) e3 Some by (intro conjI exI [of _ t] exI [of _ saves] exI [of _ "[]"]) simp_all
  next
    case None
    let ?ev = "(mkEvent evt ?e p t)\<lparr>ev_Error := msg\<rparr>"
    from None rest e3 have 4: "run_state (emit P DetachedCtx ?ev) s3 = ((), s')" and res: "e = ?e" "err = None"
      by (auto split: prod.splits)
    note f4 = run_emit_exact [OF 4]
    let ?pubs = "if p_hasPublisher P then [CPublish DetachedCtx ?ev] else []"
    have "evolves {} s s' (CNow t # saves @ ?pubs)" using evolves_trans [OF ev3 frame_evolves [OF f4]] by simp
    moreover have "ev_ExecutionID ?ev = ex_ID ?e" "ev_Type ?ev = evt" by (simp_all add: mkEvent_def)
    moreover have "en_exec s' = ?e" using f4 e3 by (simp add: frame_def)
    moreover obtain h where "saves = h @ [CSave DetachedCtx ?e None]" using f3(3) None by blast
    ultimately show ?thesis using f3(2) u(4-6) unfolding settled_def res option.case evt_def [symmetric]
      by (intro conjI exI [of _ t] exI [of _ saves] exI [of _ ?pubs] exI [of _ h] exI [of _ ?ev]) simp_all
  qed
qed

section \<open>The whole run\<close>

text \<open>
  What \<^verbatim>\<open>newPendingExecution\<close> hands to the engine: one pending record per template step. No forward
  action or undo was called before.
\<close>

definition fresh :: "PipelineDefinition \<Rightarrow> 'w eng \<Rightarrow> bool" where
  "fresh p s \<longleftrightarrow> step_keys s = map sd_ID (pd_Steps p) \<and> no_exec (en_trace s) \<and> comp_calls (en_trace s) = []
     \<and> (\<forall>se \<in> set (ex_Steps (en_exec s)). se_Status se = StepStatusPending)"

definition scheduler :: "'w Ports \<Rightarrow> PipelineDefinition \<Rightarrow> ('w eng, goerr option) state" where
  "scheduler P p = (if IsSaga (pd_Type p) then runStepsSaga P p else runStepsDAG P p)"

lemma run_cases:
  assumes run: "run_state (run P p) s = ((e, err), s')"
  obtains (refused) t e0 x where "e = zeroExecution" "evolves {} s s' [CNow t, CSave RunCtx e0 (Some x)]"
      "err = Some (Wrapf ''save running: '' x '''')"
  | (ran) tr1 s1 runErr s2 settleErr where "evolves {} s s1 tr1" "no_exec tr1" "comp_calls tr1 = []"
      "run_state (scheduler P p) s1 = (runErr, s2)" "settled P runErr s2 e settleErr s'"
      "err = (case settleErr of None \<Rightarrow> stepErrs_err (en_errs s') | Some x \<Rightarrow> Some x)"
proof -
  let ?s0 = "s\<lparr>en_exec := (en_exec s)\<lparr>ex_Status := ExecutionStatusRunning\<rparr>\<rparr>"
  obtain t s1 where 1: "run_state (now P) ?s0 = (t, s1)" by fastforce
  let ?s1 = "s1\<lparr>en_exec := (en_exec s1)\<lparr>ex_StartedAt := t\<rparr>\<rparr>"
  obtain r s2 where 2: "run_state (save P RunCtx (en_exec ?s1)) ?s1 = (r, s2)" by fastforce
  have e2: "evolves {} s s2 [CNow t, CSave RunCtx (en_exec ?s1) r]"
  proof -
    have "evolves {} s ?s0 []" "evolves {} s1 ?s1 []" by (rule evolves_exec_upd, simp_all)+
    from evolves_trans [OF this(1) evolves_trans [OF frame_evolves [OF run_now [OF 1]] evolves_trans [OF this(2)
      frame_evolves [OF run_save [OF 2]]]]] show ?thesis by simp
  qed
  show thesis
  proof (cases r)
    case (Some x)
    with run 1 2 e2 refused show thesis by (auto simp: run_def run_modExec run_getExec)
  next
    case None
    obtain t2 s3 where 3: "run_state (now P) s2 = (t2, s3)" by fastforce
    obtain s4 where 4: "run_state (emit P RunCtx ((mkEvent EventPipelineStarted (en_exec ?s1) p t2)
        \<lparr>ev_TriggeredBy := ex_TriggeredBy (en_exec ?s1)\<rparr>)) s3 = ((), s4)" by (rule run_unit)
    let ?s5 = "s4\<lparr>en_errs := \<lparr>serr_first = None, serr_count = 0\<rparr>\<rparr>"
    obtain runErr s6 where 6: "run_state (scheduler P p) ?s5 = (runErr, s6)" by fastforce
    obtain e' settleErr s7 where 7: "run_state (settle P p runErr) s6 = ((e', settleErr), s7)" by (metis prod.exhaust)
    from run_emit_quiet [OF 4] obtain tr4 where e4: "evolves {} s3 s4 tr4" "quiet tr4" by (auto simp: term_event_def)
    let ?tr = "[CNow t, CSave RunCtx (en_exec ?s1) r] @ [CNow t2] @ tr4"
    have "evolves {} s ?s5 ?tr"
      using evolves_trans [OF e2 evolves_trans [OF frame_evolves [OF run_now [OF 3]] evolves_trans [OF e4(1)
        evolves_errs_upd [of "{}"]]]] by simp
    moreover have "no_exec ?tr" "comp_calls ?tr = []" using e4(2) quiet_no_exec by simp_all
    moreover from run 1 2 3 4 6 7 None have "e = e'" "s' = s7"
      "err = (case settleErr of None \<Rightarrow> stepErrs_err (en_errs s') | Some x \<Rightarrow> Some x)"
      by (auto simp: run_def run_modExec run_getExec scheduler_def split: option.splits if_splits)
    ultimately show thesis using ran [OF _ _ _ 6] run_settle [OF 7] by simp
  qed
qed

lemma fresh_eng_inv:
  assumes "fresh p s"
  shows "eng_inv p s" and "stat s i \<noteq> Some StepStatusCompleted"
proof -
  show *: "stat s i \<noteq> Some StepStatusCompleted" for i using assms by (auto simp: fresh_def dest: get_step_Some)
  have "no_exec (en_trace s)" using assms by (simp add: fresh_def)
  with assms * disciplined_no_exec [of p "[]"] show "eng_inv p s" by (auto simp: eng_inv_def fresh_def no_exec_term)
qed

lemma valid_schedule:
  assumes "validateGraph ty (pd_Steps p) = None"
  obtains levels where "topoLevels (pd_Steps p) = Inr levels" "topoOrder (pd_Steps p) = Inr (concat levels)"
    "schedule p (concat levels)" "distinct (map sd_ID (pd_Steps p))"
    "\<forall>k < length levels. \<forall>i \<in> set (levels ! k). set (deps_by p i) \<subseteq> set (concat (take k levels))"
proof -
  from assms obtain levels where lv: "topoLevels (pd_Steps p) = Inr levels" and d: "distinct (map sd_ID (pd_Steps p))"
    by (auto simp: validateGraph_None)
  note r = topoLevels_Inr [OF lv]
  have deps: "set (deps_by p i) = set (deps_of (pd_Steps p) i)" if "i \<in> step_ids (pd_Steps p)" for i
    using that deps_of_unique [OF d] stepByID_distinct [OF d] by (auto simp: deps_by_def)
  have lay: "\<forall>k < length levels. \<forall>i \<in> set (levels ! k). set (deps_by p i) \<subseteq> set (concat (take k levels))"
  proof (intro allI impI ballI)
    fix k i assume k: "k < length levels" "i \<in> set (levels ! k)"
    then have "i \<in> set (concat levels)" by (auto intro: nth_mem)
    with r(2) have "set (deps_by p i) = set (deps_of (pd_Steps p) i)" by (intro deps) simp
    with r(3) k show "set (deps_by p i) \<subseteq> set (concat (take k levels))" by (simp add: layered_def)
  qed
  have "set (sd_DependsOn sd) \<subseteq> set pre" if c: "concat levels = pre @ i # rest" and sd: "stepByID p i = Some sd" for pre i rest sd
  proof -
    have "i \<in> set (concat levels)" unfolding c by simp
    then obtain l where "l \<in> set levels" "i \<in> set l" by auto
    then obtain k where k: "k < length levels" "i \<in> set (levels ! k)" by (metis in_set_conv_nth)
    have "levels = take k levels @ levels ! k # drop (Suc k) levels" using k(1) by (simp add: id_take_nth_drop)
    then obtain q where q: "concat levels = concat (take k levels) @ q" "i \<in> set q" using k(2)
      by (metis concat.simps(2) concat_append Un_iff set_append)
    have "i \<notin> set (concat (take k levels))" using r(1) q by auto
    then have "set (concat (take k levels)) \<subseteq> set pre"
      using append_before q(1) c by metis
    moreover have "set (deps_by p i) \<subseteq> set (concat (take k levels))" using lay k by blast
    moreover have "deps_by p i = sd_DependsOn sd" using sd by (simp add: deps_by_def)
    ultimately show ?thesis by auto
  qed
  then have "schedule p (concat levels)" using r d by (simp add: schedule_def)
  with that [OF lv _ _ d lay] lv show thesis by (simp add: topoOrder_def)
qed

section \<open>Outcomes of the two schedulers\<close>

lemma evolves_saga_inv_fresh:
  assumes "fresh p s" "evolves {} s s1 tr" "no_exec tr" "comp_calls tr = []"
  shows "saga_inv P p [] s1" and "dag_inv p {} {} s1"
proof -
  have inv: "eng_inv p s1"
    by (rule eng_inv_evolves [OF fresh_eng_inv(1) [OF assms(1)] assms(2,3)]) simp
  have st: "stat s1 i \<noteq> Some StepStatusCompleted" for i
    using fresh_eng_inv(2) [OF assms(1)] evolves_get [OF assms(2)] by simp
  have tr: "ok_execs (en_trace s1) = []" "comp_calls (en_trace s1) = []"
    using assms no_exec_ok_execs by (simp_all add: fresh_def evolves_def)
  show "saga_inv P p [] s1" unfolding saga_inv_def using inv st tr by (auto simp: completion_times_def)
  show "dag_inv p {} {} s1" unfolding dag_inv_def using inv tr by auto
qed

lemma settle_calls_inert: "list_all (settle_call e) tr \<Longrightarrow> no_exec tr \<and> comp_calls tr = []"
proof (induction tr)
  case (Cons c tr)
  then show ?case by (cases c) auto
qed simp

lemma settled_inert:
  assumes "settled P runErr s e err s'"
  shows "\<exists>tr. evolves {} s s' tr \<and> ok_execs tr = [] \<and> comp_calls tr = []
    \<and> (\<forall>c \<in> set tr. \<not> (\<exists>cx ty inp r. c = CExecute cx ty inp r))"
proof -
  from assms obtain t saves pubs where e: "evolves {} s s' (CNow t # saves @ pubs)"
    and sv: "list_all (settle_call e) saves"
    and q: "case err of None \<Rightarrow> \<exists>h ev. saves = h @ [CSave DetachedCtx e None]
                 \<and> pubs = (if p_hasPublisher P then [CPublish DetachedCtx ev] else [])
                 \<and> ev_ExecutionID ev = ex_ID e \<and> ev_Type ev = (if runErr = None then EventPipelineCompleted else EventPipelineFailed)
            | Some x \<Rightarrow> errors_Is x ErrTerminalPersist \<and> pubs = [] \<and> CSave DetachedCtx e None \<notin> set saves"
    unfolding settled_def by blast
  from q have "\<exists>ev. set pubs \<subseteq> {CPublish DetachedCtx ev}" by (cases err) auto
  then obtain ev where p: "set pubs \<subseteq> {CPublish DetachedCtx ev}" by blast
  have "ok_execs pubs = [] \<and> comp_calls pubs = []" using p by (induction pubs) auto
  moreover have "no_exec saves" "comp_calls saves = []" using settle_calls_inert [OF sv] by simp_all
  ultimately show ?thesis using e p no_exec_ok_execs
    by (intro exI [of _ "CNow t # saves @ pubs"]) (auto simp: list_all_iff)
qed

lemma settled_status:
  "settled P runErr s e err s' \<Longrightarrow> e = en_exec s'"
  "settled P runErr s e err s' \<Longrightarrow> ex_Status e = terminal_status runErr"
  "settled P (Some x) s e err s' \<Longrightarrow> \<not> errors_Is x context_Canceled \<Longrightarrow> ex_Error e = err_msg x"
  unfolding settled_def by blast+

lemma settled_disciplined:
  assumes "eng_inv p s" "settled P runErr s e err s'"
  shows "disciplined p (en_trace s')"
proof -
  have "disciplined p (tr @ tr')" if "disciplined p tr"
    "\<forall>c \<in> set tr'. \<not> (\<exists>cx ty inp r. c = CExecute cx ty inp r)" for tr tr'
    using that
  proof (induction tr' rule: rev_induct)
    case (snoc c tr')
    then have "exec_ok p (tr @ tr') c" by (cases c) (auto simp: exec_ok_def)
    with snoc show ?case by (simp add: disciplined_snoc append_assoc [symmetric] del: append_assoc)
  qed simp
  with settled_inert [OF assms(2)] assms(1) show ?thesis by (auto simp: eng_inv_def evolves_def)
qed

lemma saga_scheduler:
  assumes valid: "validateGraph (pd_Type p) (pd_Steps p) = None" and saga: "IsSaga (pd_Type p)"
    and f: "fresh p s" and e1: "evolves {} s s1 tr1" "no_exec tr1" "comp_calls tr1 = []"
    and run: "run_state (scheduler P p) s1 = (runErr, s2)"
  shows "\<exists>order. topoOrder (pd_Steps p) = Inr order \<and> (runErr = None \<and> saga_inv P p order s2
     \<or> (\<exists>k cause r. runErr = Some r \<and> saga_aborted p (take k order) cause r s2))"
proof -
  obtain levels where lv: "topoOrder (pd_Steps p) = Inr (concat levels)" "schedule p (concat levels)"
    using valid_schedule [OF valid] by metis
  note inv = evolves_saga_inv_fresh(1) [OF f e1, where P = P]
  from run saga lv have "run_state (sagaLoop P p (stepByID p) (concat levels) (concat levels)) s1 = (runErr, s2)"
    by (simp add: scheduler_def runStepsSaga_def)
  from run_sagaLoop [OF this lv(2) _ inv] lv(1) show ?thesis by auto
qed

lemma dag_scheduler:
  assumes valid: "validateGraph (pd_Type p) (pd_Steps p) = None" and dag: "\<not> IsSaga (pd_Type p)"
    and f: "fresh p s" and e1: "evolves {} s s1 tr1" "no_exec tr1" "comp_calls tr1 = []"
    and run: "run_state (scheduler P p) s1 = (runErr, s2)"
  shows "\<exists>failed. dag_inv p (step_ids (pd_Steps p)) failed s2 \<and> (runErr = None \<longrightarrow> failed = {})"
proof -
  obtain levels where lv: "topoLevels (pd_Steps p) = Inr levels" "distinct (map sd_ID (pd_Steps p))"
    "\<forall>k < length levels. \<forall>i \<in> set (levels ! k). set (deps_by p i) \<subseteq> {} \<union> set (concat (take k levels))"
    using valid_schedule [OF valid] by (metis sup_bot_left)
  note r = topoLevels_Inr [OF lv(1)]
  note inv = evolves_saga_inv_fresh(2) [OF f e1]
  from run dag lv have run: "run_state (dagLoop P p (stepByID p) levels {} None) s1 = (runErr, s2)"
    by (simp add: scheduler_def runStepsDAG_def)
  have keys: "\<forall>i \<in> set (concat levels). i \<in> set (step_keys s1) \<and> stepByID p i \<noteq> None"
  proof
    fix i assume "i \<in> set (concat levels)"
    then obtain sd where "sd \<in> set (pd_Steps p)" "i = sd_ID sd" using r(2) by auto
    moreover have "step_keys s1 = map sd_ID (pd_Steps p)" using inv by (simp add: dag_inv_def eng_inv_def)
    ultimately show "i \<in> set (step_keys s1) \<and> stepByID p i \<noteq> None"
      using stepByID_distinct [OF lv(2)] by simp
  qed
  from run_dagLoop [OF run inv _ r(1) _ lv(3) keys] r(2) show ?thesis by auto
qed

lemma saga_outcome:
  assumes valid: "validateGraph (pd_Type p) (pd_Steps p) = None" and saga: "IsSaga (pd_Type p)"
    and f: "fresh p s" and run: "run_state (run P p) s = ((e, err), s')"
  obtains (refused) t e0 x where "e = zeroExecution" "en_trace s' = en_trace s @ [CNow t, CSave RunCtx e0 (Some x)]"
  | (completed) order s2 settleErr where "topoOrder (pd_Steps p) = Inr order" "saga_inv P p order s2"
      "settled P None s2 e settleErr s'"
  | (aborted) order k cause r s2 settleErr where "topoOrder (pd_Steps p) = Inr order"
      "saga_aborted p (take k order) cause r s2" "settled P (Some r) s2 e settleErr s'"
proof (cases rule: run_cases [OF run])
  case (1 t e0 x)
  with f that(1) show thesis by (auto simp: evolves_def fresh_def)
next
  case (2 tr1 s1 runErr s2 settleErr)
  with saga_scheduler [OF valid saga f 2(1-4)] that(2,3) show thesis by blast
qed


lemma scheduler_eng_inv:
  assumes valid: "validateGraph (pd_Type p) (pd_Steps p) = None" and f: "fresh p s"
    and e1: "evolves {} s s1 tr1" "no_exec tr1" "comp_calls tr1 = []"
    and run: "run_state (scheduler P p) s1 = (runErr, s2)"
  shows "eng_inv p s2"
proof (cases "IsSaga (pd_Type p)")
  case True
  from saga_scheduler [OF valid True f e1 run] show ?thesis by (auto simp: saga_inv_def saga_aborted_def)
next
  case False
  from dag_scheduler [OF valid False f e1 run] show ?thesis by (auto simp: dag_inv_def)
qed

section \<open>Properties of the engine\<close>

text \<open>C1: Compensation is last-in first-out. On a saga whose clock is strictly increasing, the forward
  actions that succeeded are a prefix of the topological order, each once. If the execution ends
  COMPLETED the prefix is the whole order and no undo was called; otherwise the undo actions called
  are exactly those of the succeeded steps that have one, in the reverse of the order in which the
  steps succeeded.\<close>

theorem saga_compensates_in_reverse:
  assumes "validateGraph (pd_Type p) (pd_Steps p) = None" "IsSaga (pd_Type p)" "fresh p s"
    and "run_state (run P p) s = ((e, err), s')"
    and clock: "sorted_wrt (<) (now_readings (en_trace s'))"
  shows "\<exists>order k. topoOrder (pd_Steps p) = Inr order \<and> ok_execs (en_trace s') = take k order
    \<and> (if ex_Status e = ExecutionStatusCompleted then take k order = order \<and> comp_calls (en_trace s') = []
       else comp_calls (en_trace s') = rev (filter (undoable p) (take k order)))"
  using assms(1-4)
proof (cases rule: saga_outcome)
  case (refused t e0 x)
  obtain levels where "topoOrder (pd_Steps p) = Inr (concat levels)" using valid_schedule [OF assms(1)] by metis
  with refused assms(3) no_exec_ok_execs show ?thesis
    by (intro exI [of _ "concat levels"] exI [of _ 0]) (simp add: zeroExecution_def fresh_def)
next
  case (completed order s2 settleErr)
  from settled_inert [OF completed(3)] obtain tr where "en_trace s' = en_trace s2 @ tr" "ok_execs tr = []" "comp_calls tr = []"
    by (auto simp: evolves_def)
  moreover have "ex_Status e = ExecutionStatusCompleted" using completed(3) by (simp add: settled_status terminal_status_def)
  ultimately show ?thesis using completed(1,2)
    by (intro exI [of _ order] exI [of _ "length order"]) (simp add: saga_inv_def)
next
  case (aborted order k cause r s2 settleErr)
  from settled_inert [OF aborted(3)] obtain tr where tr: "en_trace s' = en_trace s2 @ tr" "ok_execs tr = []" "comp_calls tr = []"
    by (auto simp: evolves_def)
  then have "sorted_wrt (<) (now_readings (en_trace s2))" using clock by (simp add: sorted_wrt_append)
  moreover have "ex_Status e \<noteq> ExecutionStatusCompleted"
    using aborted(3) by (auto simp: settled_status terminal_status_def)
  ultimately show ?thesis using aborted(1,2) tr
    by (intro exI [of _ order] exI [of _ k]) (auto simp: saga_aborted_def)
qed

text \<open>C2: Whatever the clock, a saga that does not complete leaves no step with an undo action in the
  COMPLETED state: each succeeded step with an undo action ends COMPENSATED or COMPENSATION_FAILED,
  its undo was called exactly once, and the steps left COMPLETED are the succeeded ones without an
  undo action.\<close>

theorem aborted_saga_undoes_every_step:
  assumes "validateGraph (pd_Type p) (pd_Steps p) = None" "IsSaga (pd_Type p)" "fresh p s"
    and "run_state (run P p) s = ((e, err), s')" and "ex_Status e \<noteq> ExecutionStatusCompleted"
    and "e \<noteq> zeroExecution"
  shows "mset (comp_calls (en_trace s')) = mset (filter (undoable p) (ok_execs (en_trace s')))
    \<and> (\<forall>i. map_option se_Status (get_step e i) = Some StepStatusCompleted
          \<longleftrightarrow> i \<in> set (ok_execs (en_trace s')) \<and> \<not> undoable p i)
    \<and> (\<forall>i \<in> set (ok_execs (en_trace s')). undoable p i \<longrightarrow>
          map_option se_Status (get_step e i) \<in> {Some StepStatusCompensated, Some StepStatusCompensationFailed})"
  using assms(1-4)
proof (cases rule: saga_outcome)
  case (completed order s2 settleErr)
  then show ?thesis using assms(5) by (simp add: settled_status terminal_status_def)
next
  case (aborted order k cause r s2 settleErr)
  from settled_inert [OF aborted(3)] obtain tr where tr: "evolves {} s2 s' tr" "ok_execs tr = []" "comp_calls tr = []"
    by blast
  have e: "e = en_exec s'" by (rule settled_status(1) [OF aborted(3)])
  have get: "get_step e i = get_step (en_exec s2) i" for i using evolves_get [OF tr(1)] by (simp add: e)
  have "ok_execs (en_trace s') = ok_execs (en_trace s2)" "comp_calls (en_trace s') = comp_calls (en_trace s2)"
    using tr by (simp_all add: evolves_def)
  moreover from aborted(2) obtain ord where "mset ord = mset (take k order)"
    "comp_calls (en_trace s2) = rev (filter (undoable p) ord)" by (auto simp: saga_aborted_def)
  then have "mset (comp_calls (en_trace s2)) = mset (filter (undoable p) (take k order))"
    by (simp add: mset_filter)
  ultimately show ?thesis using aborted(2) unfolding get saga_aborted_def by (simp del: map_option_eq_Some)
qed (use assms(6) in simp)

text \<open>C3: Every forward action the engine calls is called on a step of the template with that step's
  type, configuration and timeout, on an attempt between 1 and \<open>MaxRetries + 1\<close>, with exactly the
  outputs that its dependencies returned before (all of them succeeded), and only after a checkpoint
  of the step as RUNNING on that attempt, with no other call about the step in between. It holds for
  both kinds of pipeline and for every behaviour of the surroundings.\<close>

theorem forward_actions_disciplined:
  assumes "validateGraph (pd_Type p) (pd_Steps p) = None" "fresh p s"
    and "run_state (run P p) s = ((e, err), s')"
  shows "disciplined p (en_trace s')"
proof (cases rule: run_cases [OF assms(3)])
  case (1 t e0 x)
  then show ?thesis using disciplined_no_exec [of p "[]" "en_trace s @ [CNow t, CSave RunCtx e0 (Some x)]"] assms(2)
    by (simp add: evolves_def fresh_def)
next
  case (2 tr1 s1 runErr s2 settleErr)
  show ?thesis by (rule settled_disciplined [OF scheduler_eng_inv [OF assms(1,2) 2(1-4)] 2(5)])
qed


text \<open>C4: The terminal state is durable before anyone hears of it. If a started run returns without a
  persistence error for the terminal state, its history ends with a successful write of exactly the
  returned execution, made on a context that cancellation cannot reach, followed only by the one
  terminal event (when there is a publisher), and no terminal event precedes it. If the write failed
  the error matches \<open>ErrTerminalPersist\<close> and no terminal event is published at all.\<close>

theorem terminal_state_durable_before_event:
  assumes "validateGraph (pd_Type p) (pd_Steps p) = None" "fresh p s"
    and "run_state (run P p) s = ((e, err), s')" and "e \<noteq> zeroExecution"
  shows "IsTerminal (ex_Status e) \<and> ex_CompletedAt e \<noteq> None
    \<and> ((\<exists>h ev. en_trace s' = h @ CSave DetachedCtx e None # (if p_hasPublisher P then [CPublish DetachedCtx ev] else [])
           \<and> term_events h = [] \<and> ev_ExecutionID ev = ex_ID e
           \<and> ev_Type ev = (if ex_Status e = ExecutionStatusCompleted then EventPipelineCompleted else EventPipelineFailed))
      \<or> (\<exists>x. err = Some x \<and> errors_Is x ErrTerminalPersist \<and> term_events (en_trace s') = []))"
proof (cases rule: run_cases [OF assms(3)])
  case (2 tr1 s1 runErr s2 settleErr)
  have inv: "eng_inv p s2" by (rule scheduler_eng_inv [OF assms(1,2) 2(1-4)])
  from 2(5) obtain t saves pubs where e: "evolves {} s2 s' (CNow t # saves @ pubs)" "ex_CompletedAt e = Some t"
    and sv: "list_all (settle_call e) saves"
    and q: "case settleErr of None \<Rightarrow> \<exists>h ev. saves = h @ [CSave DetachedCtx e None]
                 \<and> pubs = (if p_hasPublisher P then [CPublish DetachedCtx ev] else [])
                 \<and> ev_ExecutionID ev = ex_ID e \<and> ev_Type ev = (if runErr = None then EventPipelineCompleted else EventPipelineFailed)
            | Some x \<Rightarrow> errors_Is x ErrTerminalPersist \<and> pubs = [] \<and> CSave DetachedCtx e None \<notin> set saves"
    unfolding settled_def by blast
  have tr: "en_trace s' = en_trace s2 @ CNow t # saves @ pubs" using e(1) by (simp add: evolves_def)
  have quiet_saves: "term_events (CNow t # saves) = []"
    using settle_calls_inert [OF sv] by (intro no_exec_term) simp
  have inv2: "term_events (en_trace s2) = []" using inv by (simp add: eng_inv_def)
  have st: "ex_Status e = terminal_status runErr" by (rule settled_status(2) [OF 2(5)])
  have "IsTerminal (ex_Status e)" and evt: "runErr = None \<longleftrightarrow> ex_Status e = ExecutionStatusCompleted"
    unfolding st by (auto simp: terminal_status_def IsTerminal_def split: option.splits)
  moreover have "(\<exists>h ev. en_trace s' = h @ CSave DetachedCtx e None # (if p_hasPublisher P then [CPublish DetachedCtx ev] else [])
           \<and> term_events h = [] \<and> ev_ExecutionID ev = ex_ID e
           \<and> ev_Type ev = (if ex_Status e = ExecutionStatusCompleted then EventPipelineCompleted else EventPipelineFailed))
      \<or> (\<exists>x. err = Some x \<and> errors_Is x ErrTerminalPersist \<and> term_events (en_trace s') = [])"
  proof (cases settleErr)
    case None
    with q obtain h ev where h: "saves = h @ [CSave DetachedCtx e None]"
      "pubs = (if p_hasPublisher P then [CPublish DetachedCtx ev] else [])" "ev_ExecutionID ev = ex_ID e"
      "ev_Type ev = (if runErr = None then EventPipelineCompleted else EventPipelineFailed)" by auto
    have "term_events (en_trace s2 @ CNow t # h) = []"
      using quiet_saves inv2 h(1) term_events_append [of "CNow t # h"] by simp
    with h evt show ?thesis unfolding tr
      by (intro disjI1 exI [of _ "en_trace s2 @ CNow t # h"] exI [of _ ev]) simp
  next
    case (Some x)
    with q 2(6) quiet_saves inv2 show ?thesis unfolding tr by (auto simp del: append_Cons simp add: append_Cons [symmetric])
  qed
  ultimately show ?thesis using e(2) by blast
qed (use assms(4) in simp)

text \<open>When an undo fails the execution ends FAILED and its error names the failed compensation and
  the original cause: this also holds when the cause is a cancellation, so such an execution is not
  reported as CANCELLED.\<close>

theorem failed_undo_fails_the_execution:
  assumes "validateGraph (pd_Type p) (pd_Steps p) = None" "IsSaga (pd_Type p)" "fresh p s"
    and "run_state (run P p) s = ((e, err), s')" and "e \<noteq> zeroExecution"
    and "i \<in> set (ok_execs (en_trace s'))" "map_option se_Status (get_step e i) = Some StepStatusCompensationFailed"
  shows "ex_Status e = ExecutionStatusFailed
    \<and> (\<exists>cause. ex_Error e = err_msg ErrCompensationFailed @ '' (original cause: '' @ err_msg cause @ '')'')"
  using assms(1-4)
proof (cases rule: saga_outcome)
  case (completed order s2 settleErr)
  from settled_inert [OF completed(3)] obtain tr where tr: "evolves {} s2 s' tr" "ok_execs tr = []" by blast
  with completed(2) assms(6) have "stat s2 i = Some StepStatusCompleted" by (simp add: saga_inv_def evolves_def)
  with evolves_get [OF tr(1)] assms(7) settled_status(1) [OF completed(3)] show ?thesis by auto
next
  case (aborted order k cause r s2 settleErr)
  from settled_inert [OF aborted(3)] obtain tr where tr: "evolves {} s2 s' tr" "ok_execs tr = []" by blast
  have st: "stat s2 i = Some StepStatusCompensationFailed"
    using evolves_get [OF tr(1)] assms(7) settled_status(1) [OF aborted(3)] by simp
  have "i \<in> set (take k order)" using aborted(2) tr assms(6) by (simp add: saga_aborted_def evolves_def)
  moreover have "undoable p i" using aborted(2) calculation st unfolding saga_aborted_def by (metis StepStatus.distinct option.inject)
  ultimately have r: "r = Wrapf '''' ErrCompensationFailed ('' (original cause: '' @ err_msg cause @ '')'')"
    using aborted(2) st unfolding saga_aborted_def by auto
  then have "\<not> errors_Is r context_Canceled" by (simp add: ErrCompensationFailed_def context_Canceled_def)
  with settled_status(2,3) [OF aborted(3)] r show ?thesis by (auto simp: terminal_status_def)
qed (use assms(5) in simp)

section \<open>A concrete run\<close>

text \<open>
  Surroundings to run the engine on: the world is the clock, which ticks at each reading; the named
  steps fail, the named undo actions fail, and the run context is cancelled from time \<open>c\<close> on.
\<close>

definition demo_ports :: "string list \<Rightarrow> string list \<Rightarrow> int option \<Rightarrow> int Ports" where
  "demo_ports bad_steps bad_undos c = \<lparr>
     p_now = (\<lambda>w. (w, w + 1)), p_newID = (\<lambda>w. (''id'', w)),
     p_ctxErr = (\<lambda>cx w. (if cx \<noteq> DetachedCtx \<and> c \<noteq> None \<and> the c \<le> w then Some context_Canceled else None, w)),
     p_save = (\<lambda>cx e w. (None, w)), p_saveStep = (\<lambda>cx se w. (None, w)),
     p_executor = (\<lambda>ty. True),
     p_execute = (\<lambda>cx ty inp w. (if si_StepID inp \<in> set bad_steps then Inl (Dyn ''boom'')
        else Inr \<lparr>sr_Output = Map.empty, sr_Endpoint = ''''\<rparr>, w)),
     p_compensate = (\<lambda>cx ty inp w. (if si_StepID inp \<in> set bad_undos then Some (Dyn ''undo'') else None, w)),
     p_hasPublisher = True, p_publish = (\<lambda>cx ev w. w), p_sleep = (\<lambda>cx d w. (True, w)),
     p_order = (\<lambda>xs w. (rev xs, w)),
     p_getPipeline = (\<lambda>i w. (Inl ErrRepoNotFound, w)),
     p_createPipeline = (\<lambda>p k w. (Inr p, w)), p_updatePipeline = (\<lambda>p w. (Inr p, w)),
     p_archive = (\<lambda>i w. (None, w)), p_listPipelines = (\<lambda>t ty n tok w. (Inr ([], ''''), w)),
     p_createExec = (\<lambda>e k w. (Inr e, w)), p_getExec = (\<lambda>i w. (Inl ErrRepoNotFound, w)),
     p_listExecs = (\<lambda>i t st n tok w. (Inr ([], ''''), w)), p_cancel = (\<lambda>i w. w),
     p_deadline = (\<lambda>w. (True, w))\<rparr>"

definition demo_pipeline :: "PipelineType \<Rightarrow> StepDefinition list \<Rightarrow> PipelineDefinition" where
  "demo_pipeline ty steps = \<lparr>pd_ID = ''p'', pd_Name = ''p'', pd_Type = ty, pd_Steps = steps,
     pd_CreatedBy = ''u'', pd_CreatedAt = 0, pd_Team = ''t'', pd_Archived = False\<rparr>"

definition demo_step :: "StepDefinition \<Rightarrow> StepExecution" where
  "demo_step sd = \<lparr>se_ID = sd_ID sd, se_ExecutionID = ''x'', se_StepID = sd_ID sd, se_StepType = sd_Type sd,
     se_Status = StepStatusPending, se_StartedAt = None, se_CompletedAt = None, se_Output = Map.empty,
     se_Error = '''', se_Attempt = 0\<rparr>"

definition demo_eng :: "StepDefinition list \<Rightarrow> int eng" where
  "demo_eng steps = \<lparr>en_world = 1, en_exec = zeroExecution\<lparr>ex_ID := ''x'', ex_Steps := map demo_step steps\<rparr>,
     en_errs = \<lparr>serr_first = None, serr_count = 0\<rparr>, en_cancels = [], en_trace = []\<rparr>"

text \<open>A deployment saga: two steps with undo actions and one without.\<close>

definition demo_saga :: "StepDefinition list" where
  "demo_saga = [ex_step ''b'' StepTypeBuild [] ''b'', ex_step ''d'' StepTypeDeploy [''b''] ''d'',
     ex_step ''h'' StepTypePromote [''d''] '''']"

lemma demo_fresh: "fresh (demo_pipeline ty steps) (demo_eng steps)"
  by (auto simp: fresh_def demo_pipeline_def demo_eng_def demo_step_def)

lemma demo_saga_valid: "validateGraph PipelineTypeDeploymentSaga demo_saga = None"
  by code_simp

abbreviation demo_out :: "PipelineType \<Rightarrow> StepDefinition list \<Rightarrow> string list \<Rightarrow> string list \<Rightarrow> int option \<Rightarrow>
    (Execution \<times> goerr option) \<times> int eng" where
  "demo_out ty steps bs bu c \<equiv> run_state (run (demo_ports bs bu c) (demo_pipeline ty steps)) (demo_eng steps)"

definition demo_report :: "string \<Rightarrow> (Execution \<times> goerr option) \<times> int eng \<Rightarrow>
    ExecutionStatus \<times> string list \<times> string list \<times> int list \<times> StepStatus option" where
  "demo_report i out = (let e = fst (fst out); tr = en_trace (snd out) in
     (ex_Status e, ok_execs tr, comp_calls tr, now_readings tr, map_option se_Status (get_step e i)))"

text \<open>The saga is cancelled after its second step, and the undo of the first step fails.\<close>

lemma demo_saga_report:
  "demo_report ''b'' (demo_out PipelineTypeDeploymentSaga demo_saga [] [''b''] (Some 7))
   = (ExecutionStatusFailed, [''b'', ''d''], [''d'', ''b''], [1, 2, 3, 4, 5, 6, 7, 8, 9, 10, 11],
      Some StepStatusCompensationFailed)"
  by code_simp


abbreviation saga_p :: PipelineDefinition where
  "saga_p \<equiv> demo_pipeline PipelineTypeDeploymentSaga demo_saga"

abbreviation saga_out :: "(Execution \<times> goerr option) \<times> int eng" where
  "saga_out \<equiv> demo_out PipelineTypeDeploymentSaga demo_saga [] [''b''] (Some 7)"



lemma demo_saga_facts:
  "ex_Status (fst (fst saga_out)) = ExecutionStatusFailed" "ok_execs (en_trace (snd saga_out)) = [''b'', ''d'']"
  "now_readings (en_trace (snd saga_out)) = [1, 2, 3, 4, 5, 6, 7, 8, 9, 10, 11]"
  "map_option se_Status (get_step (fst (fst saga_out)) ''b'') = Some StepStatusCompensationFailed"
  "validateGraph (pd_Type saga_p) (pd_Steps saga_p) = None" "IsSaga (pd_Type saga_p)"
  "saga_out = ((fst (fst saga_out), snd (fst saga_out)), snd saga_out)" "fst (fst saga_out) \<noteq> zeroExecution"
proof -
  show st: "ex_Status (fst (fst saga_out)) = ExecutionStatusFailed"
    "ok_execs (en_trace (snd saga_out)) = [''b'', ''d'']"
    "now_readings (en_trace (snd saga_out)) = [1, 2, 3, 4, 5, 6, 7, 8, 9, 10, 11]"
    "map_option se_Status (get_step (fst (fst saga_out)) ''b'') = Some StepStatusCompensationFailed"
    using demo_saga_report unfolding demo_report_def Let_def prod.inject by blast+
  show "validateGraph (pd_Type saga_p) (pd_Steps saga_p) = None" "IsSaga (pd_Type saga_p)"
    using demo_saga_valid by (simp_all add: demo_pipeline_def IsSaga_def)
  show "saga_out = ((fst (fst saga_out), snd (fst saga_out)), snd saga_out)" by simp
  show "fst (fst saga_out) \<noteq> zeroExecution" using st(1) by (auto simp: zeroExecution_def)
qed


theorem saga_compensates_in_reverse_witness:
  "comp_calls (en_trace (snd saga_out)) = rev (filter (undoable saga_p) [''b'', ''d''])"
proof -
  have "sorted_wrt (<) (now_readings (en_trace (snd saga_out)))" unfolding demo_saga_facts(3) by simp
  from saga_compensates_in_reverse [OF demo_saga_facts(5,6) demo_fresh demo_saga_facts(7) this]
  obtain order k where 1: "[''b'', ''d''] = take k order"
    and 2: "comp_calls (en_trace (snd saga_out)) = rev (filter (undoable saga_p) (take k order))"
    unfolding demo_saga_facts(1,2) by auto
  show ?thesis using 2 unfolding 1 [symmetric] .
qed

theorem aborted_saga_undoes_every_step_witness:
  "mset (comp_calls (en_trace (snd saga_out))) = mset (filter (undoable saga_p) [''b'', ''d''])"
proof -
  have "ex_Status (fst (fst saga_out)) \<noteq> ExecutionStatusCompleted" unfolding demo_saga_facts(1) by simp
  from aborted_saga_undoes_every_step [OF demo_saga_facts(5,6) demo_fresh demo_saga_facts(7) this demo_saga_facts(8)]
  show ?thesis unfolding demo_saga_facts(2) by blast
qed

theorem forward_actions_disciplined_witness:
  "disciplined saga_p (en_trace (snd saga_out)) \<and> ok_execs (en_trace (snd saga_out)) = [''b'', ''d'']"
  using forward_actions_disciplined [OF demo_saga_facts(5) demo_fresh demo_saga_facts(7)] demo_saga_facts(2) by blast


theorem terminal_state_durable_before_event_witness:
  "IsTerminal (ex_Status (fst (fst saga_out)))"
  using terminal_state_durable_before_event [OF demo_saga_facts(5) demo_fresh demo_saga_facts(7,8)] by blast

theorem failed_undo_fails_the_execution_witness:
  "ex_Status (fst (fst saga_out)) = ExecutionStatusFailed"
proof -
  have "''b'' \<in> set (ok_execs (en_trace (snd saga_out)))" unfolding demo_saga_facts(2) by simp
  from failed_undo_fails_the_execution [OF demo_saga_facts(5,6) demo_fresh demo_saga_facts(7,8) this demo_saga_facts(4)]
  show ?thesis by blast
qed

end
