(* ===== verification/PipelineService.thy ===== *)
theory PipelineService
  imports PipelineRun
begin

text \<open>
  The service operations of the pipeline orchestrator: authoring of templates, triggering, reading,
  cancelling and listing of executions, and the cancel registry. Tenancy comes from the actor, which
  the transport layer builds from the caller's token.
\<close>

record Actor =
  ac_Subject :: string
  ac_Team :: string

record CreatePipelineInput =
  ci_Name :: string
  ci_Type :: PipelineType
  ci_Steps :: "StepDefinition list"
  ci_IdempotencyKey :: string

record UpdatePipelineInput =
  ui_ID :: string
  ui_Name :: string
  ui_Steps :: "StepDefinition list"

record TriggerInput =
  ti_PipelineID :: string
  ti_Input :: gomap
  ti_IdempotencyKey :: string

record ListOptions =
  lo_PageSize :: int
  lo_PageToken :: string

record ListPipelinesFilter =
  lpf_Team :: string
  lpf_Type :: PipelineType
  lpf_List :: ListOptions

record ListExecutionsFilter =
  lef_Team :: string
  lef_PipelineID :: string
  lef_Status :: ExecutionStatus
  lef_List :: ListOptions

section \<open>Repository calls\<close>

definition repo_getPipeline :: "'w Ports \<Rightarrow> string \<Rightarrow> ('w eng, goerr + PipelineDefinition) state" where
  "repo_getPipeline P i = port (p_getPipeline P i) (CGetPipeline i)"

definition repo_createPipeline :: "'w Ports \<Rightarrow> PipelineDefinition \<Rightarrow> string \<Rightarrow>
    ('w eng, goerr + PipelineDefinition) state" where
  "repo_createPipeline P p k = port (p_createPipeline P p k) (CCreatePipeline p k)"

definition repo_updatePipeline :: "'w Ports \<Rightarrow> PipelineDefinition \<Rightarrow>
    ('w eng, goerr + PipelineDefinition) state" where
  "repo_updatePipeline P p = port (p_updatePipeline P p) (CUpdatePipeline p)"

definition repo_archive :: "'w Ports \<Rightarrow> string \<Rightarrow> ('w eng, goerr option) state" where
  "repo_archive P i = port (p_archive P i) (CArchive i)"

definition repo_listPipelines :: "'w Ports \<Rightarrow> ListPipelinesFilter \<Rightarrow>
    ('w eng, goerr + PipelineDefinition list \<times> string) state" where
  "repo_listPipelines P f = port
     (p_listPipelines P (lpf_Team f) (lpf_Type f) (lo_PageSize (lpf_List f)) (lo_PageToken (lpf_List f)))
     (\<lambda>_. CListPipelines (lpf_Team f) (lpf_Type f) (lo_PageSize (lpf_List f)) (lo_PageToken (lpf_List f)))"

definition repo_createExec :: "'w Ports \<Rightarrow> Execution \<Rightarrow> string \<Rightarrow> ('w eng, goerr + Execution) state" where
  "repo_createExec P e k = port (p_createExec P e k) (CCreateExec e k)"

definition repo_getExec :: "'w Ports \<Rightarrow> string \<Rightarrow> ('w eng, goerr + Execution) state" where
  "repo_getExec P i = port (p_getExec P i) (CGetExec i)"

definition repo_listExecs :: "'w Ports \<Rightarrow> ListExecutionsFilter \<Rightarrow>
    ('w eng, goerr + Execution list \<times> string) state" where
  "repo_listExecs P f = port
     (p_listExecs P (lef_Team f) (lef_PipelineID f) (lef_Status f) (lo_PageSize (lef_List f)) (lo_PageToken (lef_List f)))
     (\<lambda>_. CListExecs (lef_Team f) (lef_PipelineID f) (lef_Status f) (lo_PageSize (lef_List f)) (lo_PageToken (lef_List f)))"

section \<open>Templates\<close>

definition CreatePipeline :: "'w Ports \<Rightarrow> Actor \<Rightarrow> CreatePipelineInput \<Rightarrow>
    ('w eng, goerr + PipelineDefinition) state" where
  "CreatePipeline P actor inp = (case validateGraph (ci_Type inp) (ci_Steps inp) of
     Some err \<Rightarrow> State_Monad.return (Inl err)
   | None \<Rightarrow> do {
       i \<leftarrow> newID P;
       t \<leftarrow> now P;
       created \<leftarrow> repo_createPipeline P \<lparr>pd_ID = i, pd_Name = ci_Name inp, pd_Type = ci_Type inp,
          pd_Steps = cloneStepsClamped (ci_Steps inp), pd_CreatedBy = ac_Subject actor, pd_CreatedAt = t,
          pd_Team = ac_Team actor, pd_Archived = False\<rparr> (ci_IdempotencyKey inp);
       State_Monad.return (case created of Inl err \<Rightarrow> Inl (Wrapf ''create pipeline: '' err '''') | Inr p \<Rightarrow> Inr p) })"

definition GetPipeline :: "'w Ports \<Rightarrow> Actor \<Rightarrow> string \<Rightarrow> ('w eng, goerr + PipelineDefinition) state" where
  "GetPipeline P actor i = do {
     r \<leftarrow> repo_getPipeline P i;
     State_Monad.return (case r of
       Inl err \<Rightarrow> Inl (if errors_Is err ErrRepoNotFound then ErrPipelineNotFound
                        else Wrapf ''get pipeline: '' err '''')
     | Inr p \<Rightarrow> if pd_Team p \<noteq> ac_Team actor then Inl ErrPipelineNotFound else Inr p) }"

definition UpdatePipeline :: "'w Ports \<Rightarrow> Actor \<Rightarrow> UpdatePipelineInput \<Rightarrow>
    ('w eng, goerr + PipelineDefinition) state" where
  "UpdatePipeline P actor inp = do {
     r \<leftarrow> GetPipeline P actor (ui_ID inp);
     case r of
       Inl err \<Rightarrow> State_Monad.return (Inl err)
     | Inr existing \<Rightarrow> (case validateGraph (pd_Type existing) (ui_Steps inp) of
         Some err \<Rightarrow> State_Monad.return (Inl err)
       | None \<Rightarrow> do {
           u \<leftarrow> repo_updatePipeline P
             (existing\<lparr>pd_Name := ui_Name inp, pd_Steps := cloneStepsClamped (ui_Steps inp)\<rparr>);
           State_Monad.return (case u of
             Inl err \<Rightarrow> Inl (if errors_Is err ErrRepoNotFound then ErrPipelineNotFound
                              else Wrapf ''update pipeline: '' err '''')
           | Inr p \<Rightarrow> Inr p) }) }"

definition DeletePipeline :: "'w Ports \<Rightarrow> Actor \<Rightarrow> string \<Rightarrow> ('w eng, goerr option) state" where
  "DeletePipeline P actor i = do {
     r \<leftarrow> GetPipeline P actor i;
     case r of
       Inl err \<Rightarrow> State_Monad.return (Some err)
     | Inr _ \<Rightarrow> do {
         a \<leftarrow> repo_archive P i;
         State_Monad.return (case a of
           None \<Rightarrow> None
         | Some err \<Rightarrow> Some (if errors_Is err ErrRepoNotFound then ErrPipelineNotFound
                              else Wrapf ''archive pipeline: '' err '''')) } }"

definition ListPipelines :: "'w Ports \<Rightarrow> Actor \<Rightarrow> ListPipelinesFilter \<Rightarrow>
    ('w eng, goerr + PipelineDefinition list \<times> string) state" where
  "ListPipelines P actor f = (let f1 = f\<lparr>lpf_Team := ac_Team actor\<rparr>;
       f2 = f1\<lparr>lpf_List := (lpf_List f1)\<lparr>lo_PageSize := clampPageSize (lo_PageSize (lpf_List f1))\<rparr>\<rparr>
     in repo_listPipelines P f2)"

section \<open>Executions\<close>

text \<open>The loop over the template's steps, each with an id of its own.\<close>

fun pendingSteps :: "'w Ports \<Rightarrow> string \<Rightarrow> StepDefinition list \<Rightarrow> ('w eng, StepExecution list) state" where
  "pendingSteps P execID [] = State_Monad.return []"
| "pendingSteps P execID (sd # sds) = do {
     i \<leftarrow> newID P;
     rest \<leftarrow> pendingSteps P execID sds;
     State_Monad.return (\<lparr>se_ID = i, se_ExecutionID = execID, se_StepID = sd_ID sd, se_StepType = sd_Type sd,
        se_Status = StepStatusPending, se_StartedAt = None, se_CompletedAt = None,
        se_Output = Map.empty, se_Error = '''', se_Attempt = 0\<rparr> # rest) }"

definition newPendingExecution :: "'w Ports \<Rightarrow> Actor \<Rightarrow> PipelineDefinition \<Rightarrow> TriggerInput \<Rightarrow>
    ('w eng, Execution) state" where
  "newPendingExecution P actor p inp = do {
     i \<leftarrow> newID P;
     t \<leftarrow> now P;
     steps \<leftarrow> pendingSteps P i (pd_Steps p);
     State_Monad.return (zeroExecution\<lparr>ex_ID := i, ex_PipelineID := pd_ID p, ex_Status := ExecutionStatusPending,
       ex_TriggeredBy := ac_Subject actor, ex_StartedAt := t, ex_Input := ti_Input inp, ex_Steps := steps\<rparr>) }"

definition registerCancel :: "string \<Rightarrow> ('w eng, unit) state" where
  "registerCancel i = State (\<lambda>s. ((), s\<lparr>en_cancels := List.insert i (en_cancels s)\<rparr>))"

definition unregisterCancel :: "string \<Rightarrow> ('w eng, unit) state" where
  "unregisterCancel i = State (\<lambda>s. ((), s\<lparr>en_cancels := removeAll i (en_cancels s)\<rparr>))"

definition lookupCancel :: "string \<Rightarrow> ('w eng, bool) state" where
  "lookupCancel i = State (\<lambda>s. (i \<in> set (en_cancels s), s))"

definition callCancel :: "'w Ports \<Rightarrow> string \<Rightarrow> ('w eng, unit) state" where
  "callCancel P i = port (\<lambda>w. ((), p_cancel P i w)) (\<lambda>_. CCancel i)"

text \<open>
  The result of \<^verbatim>\<open>run\<close> is a pair of an execution and an error: a run that settled may carry a
  checkpoint error with it, so \<^verbatim>\<open>TriggerExecution\<close> returns a pair as well.
\<close>

definition TriggerExecution :: "'w Ports \<Rightarrow> Actor \<Rightarrow> TriggerInput \<Rightarrow>
    ('w eng, Execution \<times> goerr option) state" where
  "TriggerExecution P actor inp = do {
     r \<leftarrow> repo_getPipeline P (ti_PipelineID inp);
     case r of
       Inl err \<Rightarrow> State_Monad.return (zeroExecution, Some (if errors_Is err ErrRepoNotFound then ErrPipelineNotFound
                        else Wrapf ''load pipeline: '' err ''''))
     | Inr p \<Rightarrow>
         if pd_Team p \<noteq> ac_Team actor then State_Monad.return (zeroExecution, Some ErrPipelineNotFound)
         else if pd_Archived p then State_Monad.return (zeroExecution, Some ErrPipelineArchived)
         else do {
           exec \<leftarrow> newPendingExecution P actor p inp;
           c \<leftarrow> repo_createExec P exec (ti_IdempotencyKey inp);
           case c of
             Inl err \<Rightarrow> State_Monad.return (zeroExecution, Some (Wrapf ''persist execution: '' err ''''))
           | Inr stored \<Rightarrow>
               if ex_ID stored \<noteq> ex_ID exec \<or> ex_Status stored \<noteq> ExecutionStatusPending
               then State_Monad.return (stored, None)
               else do {
                 registerCancel (ex_ID exec);
                 modExec (\<lambda>_. exec);
                 res \<leftarrow> run P p;
                 callCancel P (ex_ID exec);
                 unregisterCancel (ex_ID exec);
                 State_Monad.return res } } }"

definition authorizeExecution :: "'w Ports \<Rightarrow> Actor \<Rightarrow> Execution \<Rightarrow> ('w eng, goerr option) state" where
  "authorizeExecution P actor e = do {
     r \<leftarrow> repo_getPipeline P (ex_PipelineID e);
     State_Monad.return (case r of Inl _ \<Rightarrow> Some ErrExecutionNotFound
       | Inr p \<Rightarrow> if pd_Team p \<noteq> ac_Team actor then Some ErrExecutionNotFound else None) }"

definition GetExecution :: "'w Ports \<Rightarrow> Actor \<Rightarrow> string \<Rightarrow> ('w eng, goerr + Execution) state" where
  "GetExecution P actor i = do {
     r \<leftarrow> repo_getExec P i;
     case r of
       Inl err \<Rightarrow> State_Monad.return (Inl (if errors_Is err ErrRepoNotFound then ErrExecutionNotFound
                        else Wrapf ''get execution: '' err ''''))
     | Inr e \<Rightarrow> do {
         a \<leftarrow> authorizeExecution P actor e;
         State_Monad.return (case a of Some err \<Rightarrow> Inl err | None \<Rightarrow> Inr e) } }"

text \<open>
  The polling loop of \<^verbatim>\<open>awaitTerminal\<close>. Each round sleeps five milliseconds and the deadline is five
  seconds, so after 1001 rounds the deadline has passed; \<open>p_deadline\<close> answers for the rounds before.
\<close>

definition awaitRounds :: nat where
  "awaitRounds = 1001"

fun awaitLoop :: "'w Ports \<Rightarrow> nat \<Rightarrow> string \<Rightarrow> ('w eng, Execution) state" where
  "awaitLoop P n execID = do {
     r \<leftarrow> repo_getExec P execID;
     let last = (case r of Inr e \<Rightarrow> e
       | Inl _ \<Rightarrow> zeroExecution\<lparr>ex_ID := execID, ex_Status := ExecutionStatusCompensating\<rparr>) in
     if (case r of Inr e \<Rightarrow> IsTerminal (ex_Status e) | Inl _ \<Rightarrow> False) then State_Monad.return last
     else do {
       ce \<leftarrow> ctxErr P ReqCtx;
       if ce \<noteq> None then State_Monad.return last
       else case n of
         0 \<Rightarrow> State_Monad.return last
       | Suc m \<Rightarrow> do {
           late \<leftarrow> port (p_deadline P) CDeadline;
           if late then State_Monad.return last else awaitLoop P m execID } } }"

declare awaitLoop.simps [simp del]

definition awaitTerminal :: "'w Ports \<Rightarrow> string \<Rightarrow> ('w eng, Execution) state" where
  "awaitTerminal P execID = awaitLoop P awaitRounds execID"

definition CancelExecution :: "'w Ports \<Rightarrow> Actor \<Rightarrow> string \<Rightarrow> ('w eng, goerr + Execution) state" where
  "CancelExecution P actor i = do {
     r \<leftarrow> repo_getExec P i;
     case r of
       Inl err \<Rightarrow> State_Monad.return (Inl (if errors_Is err ErrRepoNotFound then ErrExecutionNotFound
                        else Wrapf ''load execution: '' err ''''))
     | Inr e \<Rightarrow> do {
         a \<leftarrow> authorizeExecution P actor e;
         case a of
           Some err \<Rightarrow> State_Monad.return (Inl err)
         | None \<Rightarrow>
             if IsTerminal (ex_Status e) then State_Monad.return (Inl ErrExecutionNotCancellable)
             else do {
               c \<leftarrow> lookupCancel i;
               if c then do {
                 callCancel P i;
                 settled \<leftarrow> awaitTerminal P i;
                 State_Monad.return (Inr settled) }
               else do {
                 w \<leftarrow> save P ReqCtx (e\<lparr>ex_Status := ExecutionStatusCompensating\<rparr>);
                 State_Monad.return (case w of
                   Some err \<Rightarrow> Inl (Wrapf ''mark cancelling: '' err '''')
                 | None \<Rightarrow> Inr (e\<lparr>ex_Status := ExecutionStatusCompensating\<rparr>)) } } } }"

definition ListExecutions :: "'w Ports \<Rightarrow> Actor \<Rightarrow> ListExecutionsFilter \<Rightarrow>
    ('w eng, goerr + Execution list \<times> string) state" where
  "ListExecutions P actor f = (let f1 = f\<lparr>lef_Team := ac_Team actor\<rparr>;
       f2 = f1\<lparr>lef_List := (lef_List f1)\<lparr>lo_PageSize := clampPageSize (lo_PageSize (lef_List f1))\<rparr>\<rparr>
     in repo_listExecs P f2)"

section \<open>Lemmas\<close>

lemma run_repo:
  "run_state (repo_getPipeline P i) s = (r, s') \<Longrightarrow> frame s s' [CGetPipeline i r]"
  "run_state (repo_createPipeline P p k) s = (r2, s') \<Longrightarrow> frame s s' [CCreatePipeline p k r2]"
  "run_state (repo_updatePipeline P p) s = (r3, s') \<Longrightarrow> frame s s' [CUpdatePipeline p r3]"
  "run_state (repo_createExec P e k) s = (r4, s') \<Longrightarrow> frame s s' [CCreateExec e k r4]"
  "run_state (repo_getExec P i) s = (r5, s') \<Longrightarrow> frame s s' [CGetExec i r5]"
  "run_state (newID P) s = (i2, s') \<Longrightarrow> frame s s' [CNewID i2]"
  "run_state (callCancel P i) s = (u, s') \<Longrightarrow> frame s s' [CCancel i]"
  by (auto simp: repo_getPipeline_def repo_createPipeline_def repo_updatePipeline_def repo_createExec_def
      repo_getExec_def newID_def callCancel_def dest: run_port)

lemma run_getPipeline_world:
  "p_getPipeline P i (en_world s) = (r, w) \<Longrightarrow>
   run_state (repo_getPipeline P i) s = (r, s\<lparr>en_world := w, en_trace := en_trace s @ [CGetPipeline i r]\<rparr>)"
  by (simp add: repo_getPipeline_def port_def)



section \<open>Properties of the service\<close>

text \<open>A team cannot see or change another team's template. For every operation that takes a template
  id, when the stored template belongs to another team the answer is \<open>ErrPipelineNotFound\<close>, the same
  as for an id that does not exist, and the only effect is the read of the template.\<close>

theorem foreign_template_is_invisible:
  assumes "p_getPipeline P i (en_world s) = (Inr q, w)" "pd_Team q \<noteq> ac_Team actor"
  shows "fst (run_state (GetPipeline P actor i) s) = Inl ErrPipelineNotFound
    \<and> fst (run_state (UpdatePipeline P actor \<lparr>ui_ID = i, ui_Name = n, ui_Steps = sds\<rparr>) s) = Inl ErrPipelineNotFound
    \<and> fst (run_state (DeletePipeline P actor i) s) = Some ErrPipelineNotFound
    \<and> fst (run_state (TriggerExecution P actor \<lparr>ti_PipelineID = i, ti_Input = m, ti_IdempotencyKey = k\<rparr>) s)
        = (zeroExecution, Some ErrPipelineNotFound)
    \<and> (\<forall>s' \<in> {snd (run_state (GetPipeline P actor i) s),
           snd (run_state (UpdatePipeline P actor \<lparr>ui_ID = i, ui_Name = n, ui_Steps = sds\<rparr>) s),
           snd (run_state (DeletePipeline P actor i) s),
           snd (run_state (TriggerExecution P actor \<lparr>ti_PipelineID = i, ti_Input = m, ti_IdempotencyKey = k\<rparr>) s)}.
         en_trace s' = en_trace s @ [CGetPipeline i (Inr q)] \<and> en_cancels s' = en_cancels s)"
  using assms
  by (simp add: GetPipeline_def UpdatePipeline_def DeletePipeline_def TriggerExecution_def run_getPipeline_world)

definition write_ok :: "Actor \<Rightarrow> call \<Rightarrow> bool" where
  "write_ok actor c = (case c of
     CCreatePipeline q k r \<Rightarrow> validateGraph (pd_Type q) (pd_Steps q) = None \<and> pd_Team q = ac_Team actor
       \<and> pd_CreatedBy q = ac_Subject actor \<and> \<not> pd_Archived q
       \<and> list_all (\<lambda>sd. 0 \<le> sd_MaxRetries sd \<and> sd_MaxRetries sd \<le> 10) (pd_Steps q)
   | CUpdatePipeline q r \<Rightarrow> validateGraph (pd_Type q) (pd_Steps q) = None \<and> pd_Team q = ac_Team actor
       \<and> list_all (\<lambda>sd. 0 \<le> sd_MaxRetries sd \<and> sd_MaxRetries sd \<le> 10) (pd_Steps q)
   | CArchive _ _ \<Rightarrow> False | CSave _ _ _ \<Rightarrow> False | CExecute _ _ _ _ \<Rightarrow> False | _ \<Rightarrow> True)"

lemma clamped_budget: "list_all (\<lambda>sd. 0 \<le> sd_MaxRetries sd \<and> sd_MaxRetries sd \<le> 10) (cloneStepsClamped sds)"
  by (auto simp: list_all_iff cloneStepsClamped_def clampRetries_def MaxRetriesCap_def Let_def)

text \<open>Only validated templates reach the repository. Whatever the input, each write that
  \<open>CreatePipeline\<close> or \<open>UpdatePipeline\<close> makes carries a graph that passes \<open>validateGraph\<close>, retry budgets
  within [0, 10], and the actor's own team; a create also carries the actor as its author.\<close>

theorem only_validated_templates_are_written:
  assumes "run_state (CreatePipeline P actor inp) s = (r, s1)"
    and "run_state (UpdatePipeline P actor upd) s = (u, s2)"
  shows "\<exists>tr1 tr2. en_trace s1 = en_trace s @ tr1 \<and> list_all (write_ok actor) tr1
    \<and> en_trace s2 = en_trace s @ tr2 \<and> list_all (write_ok actor) tr2
    \<and> (validateGraph (ci_Type inp) (ci_Steps inp) \<noteq> None \<longrightarrow>
         tr1 = [] \<and> r = Inl (the (validateGraph (ci_Type inp) (ci_Steps inp))))"
proof -
  have 1: "\<exists>tr. en_trace s1 = en_trace s @ tr \<and> list_all (write_ok actor) tr
    \<and> (validateGraph (ci_Type inp) (ci_Steps inp) \<noteq> None \<longrightarrow>
         tr = [] \<and> r = Inl (the (validateGraph (ci_Type inp) (ci_Steps inp))))"
  proof (cases "validateGraph (ci_Type inp) (ci_Steps inp)")
    case None
    obtain i sa where a: "run_state (newID P) s = (i, sa)" by fastforce
    obtain t sb where b: "run_state (now P) sa = (t, sb)" by fastforce
    let ?p = "\<lparr>pd_ID = i, pd_Name = ci_Name inp, pd_Type = ci_Type inp,
          pd_Steps = cloneStepsClamped (ci_Steps inp), pd_CreatedBy = ac_Subject actor, pd_CreatedAt = t,
          pd_Team = ac_Team actor, pd_Archived = False\<rparr>"
    obtain c sc where c: "run_state (repo_createPipeline P ?p (ci_IdempotencyKey inp)) sb = (c, sc)" by fastforce
    from assms(1) None a b c have "s1 = sc" by (simp add: CreatePipeline_def)
    with frame_trans [OF run_repo(6) [OF a] frame_trans [OF run_now [OF b] run_repo(2) [OF c]]] None
    show ?thesis
      by (intro exI [of _ "[CNewID i] @ [CNow t] @ [CCreatePipeline ?p (ci_IdempotencyKey inp) c]"])
        (auto simp: frame_def write_ok_def validateGraph_clamped clamped_budget)
  next
    case (Some err)
    with assms(1) show ?thesis by (auto simp: CreatePipeline_def)
  qed
  have 2: "\<exists>tr. en_trace s2 = en_trace s @ tr \<and> list_all (write_ok actor) tr"
  proof -
    obtain g sa where a: "run_state (repo_getPipeline P (ui_ID upd)) s = (g, sa)" by fastforce
    note fa = run_repo(1) [OF a]
    show ?thesis
    proof (cases "\<exists>q. g = Inr q \<and> pd_Team q = ac_Team actor \<and> validateGraph (pd_Type q) (ui_Steps upd) = None")
      case True
      then obtain q where q: "g = Inr q" "pd_Team q = ac_Team actor" "validateGraph (pd_Type q) (ui_Steps upd) = None" by blast
      let ?p = "q\<lparr>pd_Name := ui_Name upd, pd_Steps := cloneStepsClamped (ui_Steps upd)\<rparr>"
      obtain v sb where b: "run_state (repo_updatePipeline P ?p) sa = (v, sb)" by fastforce
      from assms(2) a b q have "s2 = sb" by (simp add: UpdatePipeline_def GetPipeline_def)
      with frame_trans [OF fa run_repo(3) [OF b]] q show ?thesis
        by (intro exI [of _ "[CGetPipeline (ui_ID upd) g] @ [CUpdatePipeline ?p v]"])
          (auto simp: frame_def write_ok_def validateGraph_clamped clamped_budget)
    next
      case False
      with assms(2) a have "s2 = sa"
        by (auto simp: UpdatePipeline_def GetPipeline_def split: sum.splits option.splits if_splits)
      with fa show ?thesis by (intro exI [of _ "[CGetPipeline (ui_ID upd) g]"]) (simp add: frame_def write_ok_def)
    qed
  qed
  from 1 2 show ?thesis by blast
qed


fun poll_call :: "string \<Rightarrow> call \<Rightarrow> bool" where
  "poll_call i (CGetExec j _) = (j = i)"
| "poll_call i (CCtxErr c _) = (c = ReqCtx)"
| "poll_call i (CDeadline _) = True"
| "poll_call i _ = False"

lemma run_awaitLoop:
  assumes "run_state (awaitLoop P n i) s = (e, s')"
  shows "\<exists>tr. frame s s' tr \<and> list_all (poll_call i) tr \<and> length tr \<le> 3 * Suc n
    \<and> (CGetExec i (Inr e) \<in> set tr \<or> (\<exists>x. CGetExec i (Inl x) \<in> set tr))"
  using assms
proof (induction n arbitrary: s)
  case 0
  obtain r s1 where 1: "run_state (repo_getExec P i) s = (r, s1)" by fastforce
  obtain ce s2 where 2: "run_state (ctxErr P ReqCtx) s1 = (ce, s2)" by fastforce
  note f1 = run_repo(5) [OF 1] and f2 = run_ctxErr [OF 2]
  have e: "(\<exists>x. r = Inl x) \<or> r = Inr e" and s': "s' = s1 \<or> s' = s2"
    using 0 1 2 by (auto simp: awaitLoop.simps [of P 0] Let_def split: if_splits sum.splits prod.splits)
  from s' show ?case
  proof
    assume "s' = s1"
    with f1 e show ?thesis by (intro exI [of _ "[CGetExec i r]"]) auto
  next
    assume "s' = s2"
    with frame_trans [OF f1 f2] e show ?thesis by (intro exI [of _ "[CGetExec i r] @ [CCtxErr ReqCtx ce]"]) auto
  qed
next
  case (Suc n)
  obtain r s1 where 1: "run_state (repo_getExec P i) s = (r, s1)" by fastforce
  obtain ce s2 where 2: "run_state (ctxErr P ReqCtx) s1 = (ce, s2)" by fastforce
  obtain late s3 where 3: "run_state (port (p_deadline P) CDeadline) s2 = (late, s3)" by fastforce
  note f1 = run_repo(5) [OF 1] and f2 = run_ctxErr [OF 2] and f3 = run_port [OF 3]
  let ?stop = "(\<exists>x. r = Inl x) \<or> r = Inr e"
  have "(?stop \<and> (s' = s1 \<or> s' = s2 \<or> s' = s3)) \<or> run_state (awaitLoop P n i) s3 = (e, s')"
    using Suc.prems 1 2 3 by (auto simp: awaitLoop.simps [of P "Suc n"] Let_def split: if_splits sum.splits prod.splits)
  then consider (s1) ?stop "s' = s1" | (s2) ?stop "s' = s2" | (s3) ?stop "s' = s3"
    | (rec) "run_state (awaitLoop P n i) s3 = (e, s')" by blast
  then show ?case
  proof cases
    case s1
    with f1 show ?thesis by (intro exI [of _ "[CGetExec i r]"]) auto
  next
    case s2
    with frame_trans [OF f1 f2] show ?thesis by (intro exI [of _ "[CGetExec i r] @ [CCtxErr ReqCtx ce]"]) auto
  next
    case s3
    with frame_trans [OF f1 frame_trans [OF f2 f3]] show ?thesis
      by (intro exI [of _ "[CGetExec i r] @ [CCtxErr ReqCtx ce] @ [CDeadline late]"]) auto
  next
    case rec
    from Suc.IH [OF this] obtain tr where tr: "frame s3 s' tr" "list_all (poll_call i) tr" "length tr \<le> 3 * Suc n"
      "CGetExec i (Inr e) \<in> set tr \<or> (\<exists>x. CGetExec i (Inl x) \<in> set tr)" by blast
    with frame_trans [OF f1 frame_trans [OF f2 frame_trans [OF f3 tr(1)]]] show ?thesis
      by (intro exI [of _ "[CGetExec i r] @ [CCtxErr ReqCtx ce] @ [CDeadline late] @ tr"]) auto
  qed
qed

text \<open>A cancel request is bounded and touches only what it may. It makes at most 3009 calls; it
  answers with an execution only after it read a template of the actor's own team; it signals the
  engine only when the execution runs in this process; and it writes the execution row only when it
  does not run here and was not terminal when read, changing nothing but the status to COMPENSATING.
  A terminal execution is refused with \<open>ErrExecutionNotCancellable\<close>.\<close>

theorem cancel_is_bounded_and_scoped:
  assumes "run_state (CancelExecution P actor i) s = (r, s')"
  shows "\<exists>tr. frame s s' tr \<and> length tr \<le> 3009
    \<and> (CCancel i \<in> set tr \<longrightarrow> i \<in> set (en_cancels s))
    \<and> (\<forall>c e' w. CSave c e' w \<in> set tr \<longrightarrow> i \<notin> set (en_cancels s) \<and> (\<exists>e. CGetExec i (Inr e) \<in> set tr
          \<and> \<not> IsTerminal (ex_Status e) \<and> e' = e\<lparr>ex_Status := ExecutionStatusCompensating\<rparr>))
    \<and> (\<forall>e. r = Inr e \<longrightarrow> (\<exists>j q. CGetPipeline j (Inr q) \<in> set tr \<and> pd_Team q = ac_Team actor))
    \<and> (\<forall>e. tr ! 0 = CGetExec i (Inr e) \<longrightarrow> IsTerminal (ex_Status e) \<longrightarrow>
          r \<in> {Inl ErrExecutionNotFound, Inl ErrExecutionNotCancellable})"
proof -
  obtain g sa where a: "run_state (repo_getExec P i) s = (g, sa)" by fastforce
  note fa = run_repo(5) [OF a]
  show ?thesis
  proof (cases g)
    case (Inl x)
    with assms a have "s' = sa" "\<exists>y. r = Inl y" by (auto simp: CancelExecution_def)
    with fa Inl show ?thesis by (intro exI [of _ "[CGetExec i g]"]) auto
  next
    case (Inr e)
    obtain h sb where b: "run_state (repo_getPipeline P (ex_PipelineID e)) sa = (h, sb)" by fastforce
    note fb = frame_trans [OF fa run_repo(1) [OF b]]
    let ?tr = "[CGetExec i g] @ [CGetPipeline (ex_PipelineID e) h]"
    show ?thesis
    proof (cases "\<exists>q. h = Inr q \<and> pd_Team q = ac_Team actor")
      case False
      with assms a b Inr have "s' = sb" "r = Inl ErrExecutionNotFound"
        by (auto simp: CancelExecution_def authorizeExecution_def split: sum.splits if_splits)
      with fb Inr show ?thesis by (intro exI [of _ ?tr]) auto
    next
      case True
      then obtain q where q: "h = Inr q" "pd_Team q = ac_Team actor" by blast
      show ?thesis
      proof (cases "IsTerminal (ex_Status e)")
        case True
        with assms a b Inr q have "s' = sb" "r = Inl ErrExecutionNotCancellable"
          by (auto simp: CancelExecution_def authorizeExecution_def)
        with fb Inr show ?thesis by (intro exI [of _ ?tr]) auto
      next
        case nt: False
        have can: "en_cancels sb = en_cancels s" using fb by (simp add: frame_def)
        show ?thesis
        proof (cases "i \<in> set (en_cancels s)")
          case True
          obtain sc where c: "run_state (callCancel P i) sb = ((), sc)" by (rule run_unit)
          obtain e2 sd where d: "run_state (awaitTerminal P i) sc = (e2, sd)" by fastforce
          from run_awaitLoop [OF d [unfolded awaitTerminal_def awaitRounds_def]] obtain trd where
            trd: "frame sc sd trd" "list_all (poll_call i) trd" "length trd \<le> 3006" by auto
          from assms a b Inr q nt True can c d have "s' = sd"
            by (auto simp: CancelExecution_def authorizeExecution_def lookupCancel_def)
          moreover have "CSave x y z \<notin> set trd" for x y z using trd(2) by (auto simp: list_all_iff)
          ultimately show ?thesis
            using frame_trans [OF fb frame_trans [OF run_repo(7) [OF c] trd(1)]] trd(3) True Inr q nt
            by (intro exI [of _ "?tr @ [CCancel i] @ trd"]) auto
        next
          case False
          let ?e = "e\<lparr>ex_Status := ExecutionStatusCompensating\<rparr>"
          obtain w sc where c: "run_state (save P ReqCtx ?e) sb = (w, sc)" by fastforce
          from assms a b Inr q nt False can c have "s' = sc"
            by (auto simp: CancelExecution_def authorizeExecution_def lookupCancel_def)
          with frame_trans [OF fb run_save [OF c]] False Inr q nt show ?thesis
            by (intro exI [of _ "?tr @ [CSave ReqCtx ?e w]"]) auto
        qed
      qed
    qed
  qed
qed

section \<open>Instances\<close>

text \<open>A service whose repository holds a template of one step, of team \<open>t\<close>.\<close>

abbreviation one_p :: PipelineDefinition where
  "one_p \<equiv> demo_pipeline PipelineTypeDeploymentSaga [ex_step ''b'' StepTypeBuild [] '''']"

definition demo_service :: "int Ports" where
  "demo_service = (demo_ports [] [] None)\<lparr>p_newID := (\<lambda>w. (''id'', w)), p_getPipeline := (\<lambda>i w. (Inr one_p, w)),
     p_getExec := (\<lambda>i w. (Inr (zeroExecution\<lparr>ex_ID := i, ex_Status := ExecutionStatusCompleted\<rparr>), w))\<rparr>"

abbreviation demo_actor :: "string \<Rightarrow> Actor" where
  "demo_actor t \<equiv> \<lparr>ac_Subject = ''u'', ac_Team = t\<rparr>"

theorem foreign_template_is_invisible_witness:
  "fst (run_state (GetPipeline demo_service (demo_actor ''other'') ''p'') (demo_eng [])) = Inl ErrPipelineNotFound"
proof -
  have "p_getPipeline demo_service ''p'' (en_world (demo_eng [])) = (Inr one_p, 1)"
    by (simp add: demo_service_def demo_eng_def)
  moreover have "pd_Team one_p \<noteq> ac_Team (demo_actor ''other'')" by (simp add: demo_pipeline_def)
  ultimately show ?thesis by (rule foreign_template_is_invisible [THEN conjunct1])
qed

theorem only_validated_templates_are_written_witness:
  "fst (run_state (CreatePipeline demo_service (demo_actor ''t'')
     \<lparr>ci_Name = ''n'', ci_Type = PipelineTypeDeploymentSaga, ci_Steps = [], ci_IdempotencyKey = ''''\<rparr>) (demo_eng []))
   = Inl ErrEmptyPipeline"
proof -
  let ?i = "\<lparr>ci_Name = ''n'', ci_Type = PipelineTypeDeploymentSaga, ci_Steps = [], ci_IdempotencyKey = ''''\<rparr>"
  let ?u = "\<lparr>ui_ID = ''p'', ui_Name = ''n'', ui_Steps = demo_saga\<rparr>"
  have "validateGraph (ci_Type ?i) (ci_Steps ?i) = Some ErrEmptyPipeline" by (simp add: validateGraph_def)
  moreover have
    "run_state (CreatePipeline demo_service (demo_actor ''t'') ?i) (demo_eng [])
       = (fst (run_state (CreatePipeline demo_service (demo_actor ''t'') ?i) (demo_eng [])),
          snd (run_state (CreatePipeline demo_service (demo_actor ''t'') ?i) (demo_eng [])))"
    "run_state (UpdatePipeline demo_service (demo_actor ''t'') ?u) (demo_eng [])
       = (fst (run_state (UpdatePipeline demo_service (demo_actor ''t'') ?u) (demo_eng [])),
          snd (run_state (UpdatePipeline demo_service (demo_actor ''t'') ?u) (demo_eng [])))" by simp_all
  note only_validated_templates_are_written [OF this]
  ultimately show ?thesis by auto
qed


theorem cancel_is_bounded_and_scoped_witness:
  "\<exists>tr. frame (demo_eng []) (snd (run_state (CancelExecution demo_service (demo_actor ''t'') ''x'') (demo_eng []))) tr
     \<and> length tr \<le> 3009"
proof -
  let ?out = "run_state (CancelExecution demo_service (demo_actor ''t'') ''x'') (demo_eng [])"
  have "?out = (fst ?out, snd ?out)" by simp
  from cancel_is_bounded_and_scoped [OF this] show ?thesis by blast
qed

end
