(* ===== verification/GatewayBreaker.thy ===== *)
theory GatewayBreaker
  imports FPrelude "HOL-Library.Product_Lexorder" "HOL-Library.List_Lexorder" "HOL-Library.Char_ord"
begin

text \<open>
  The circuit breakers of the inference gateway (\<^verbatim>\<open>circuit_breaker.go\<close>, \<^verbatim>\<open>breaker_registry.go\<close>). A breaker
  is a record; each method is a function of it and of the clock readings it makes (\<open>maybeHalfOpen\<close>
  reads the clock to compare and \<open>transitionTo\<close> reads it again to stamp). Methods run under the
  breaker's mutex, so an execution of the gateway is a sequence of method calls: \<open>breaker_run\<close> is the
  set of states such sequences reach, together with the calls that are admitted and not yet recorded.
\<close>

section \<open>The breaker\<close>

datatype CircuitState = CircuitClosed | CircuitOpen | CircuitHalfOpen

fun CircuitState_String :: "CircuitState \<Rightarrow> string" where
  "CircuitState_String CircuitClosed = ''CLOSED''"
| "CircuitState_String CircuitOpen = ''OPEN''"
| "CircuitState_String CircuitHalfOpen = ''HALF_OPEN''"

record breakerConfig =
  failureThreshold :: int
  successThreshold :: int
  resetTimeout :: duration
  halfOpenMaxProbes :: int

definition defaultBreakerConfig :: breakerConfig where
  "defaultBreakerConfig = \<lparr>failureThreshold = 5, successThreshold = 2, resetTimeout = 30 * second,
     halfOpenMaxProbes = 1\<rparr>"

record CircuitBreaker =
  cb_cfg :: breakerConfig
  cb_state :: CircuitState
  cb_consecutiveFails :: int
  cb_halfOpenSuccess :: int
  cb_halfOpenInFlight :: int
  cb_lastTransition :: time

definition newCircuitBreaker :: "breakerConfig \<Rightarrow> time \<Rightarrow> CircuitBreaker" where
  "newCircuitBreaker cfg t = \<lparr>cb_cfg = cfg, cb_state = CircuitClosed, cb_consecutiveFails = 0,
     cb_halfOpenSuccess = 0, cb_halfOpenInFlight = 0, cb_lastTransition = t\<rparr>"

definition transitionTo :: "CircuitState \<Rightarrow> time \<Rightarrow> CircuitBreaker \<Rightarrow> CircuitBreaker" where
  "transitionTo st t b = b\<lparr>cb_state := st, cb_lastTransition := t, cb_consecutiveFails := 0,
     cb_halfOpenSuccess := 0, cb_halfOpenInFlight := 0\<rparr>"

definition maybeHalfOpen :: "time \<Rightarrow> time \<Rightarrow> CircuitBreaker \<Rightarrow> CircuitBreaker" where
  "maybeHalfOpen t t2 b = (if cb_state b = CircuitOpen \<and> \<not> t < cb_lastTransition b + resetTimeout (cb_cfg b)
     then transitionTo CircuitHalfOpen t2 b else b)"

definition State_of :: "time \<Rightarrow> time \<Rightarrow> CircuitBreaker \<Rightarrow> CircuitState \<times> CircuitBreaker" where
  "State_of t t2 b = (let b1 = maybeHalfOpen t t2 b in (cb_state b1, b1))"

definition Allow :: "time \<Rightarrow> time \<Rightarrow> CircuitBreaker \<Rightarrow> bool \<times> CircuitBreaker" where
  "Allow t t2 b = (let b1 = maybeHalfOpen t t2 b in
     case cb_state b1 of
       CircuitClosed \<Rightarrow> (True, b1)
     | CircuitOpen \<Rightarrow> (False, b1)
     | CircuitHalfOpen \<Rightarrow>
         if cb_halfOpenInFlight b1 < halfOpenMaxProbes (cb_cfg b1)
         then (True, b1\<lparr>cb_halfOpenInFlight := cb_halfOpenInFlight b1 + 1\<rparr>)
         else (False, b1))"

definition freeProbe :: "CircuitBreaker \<Rightarrow> CircuitBreaker" where
  "freeProbe b = (if cb_halfOpenInFlight b > 0
     then b\<lparr>cb_halfOpenInFlight := cb_halfOpenInFlight b - 1\<rparr> else b)"

definition RecordSuccess :: "time \<Rightarrow> CircuitBreaker \<Rightarrow> CircuitBreaker" where
  "RecordSuccess t b = (case cb_state b of
     CircuitClosed \<Rightarrow> b\<lparr>cb_consecutiveFails := 0\<rparr>
   | CircuitHalfOpen \<Rightarrow>
       (let b1 = freeProbe b; b2 = b1\<lparr>cb_halfOpenSuccess := cb_halfOpenSuccess b1 + 1\<rparr> in
        if cb_halfOpenSuccess b2 \<ge> successThreshold (cb_cfg b2) then transitionTo CircuitClosed t b2 else b2)
   | CircuitOpen \<Rightarrow> b)"

definition RecordFailure :: "time \<Rightarrow> CircuitBreaker \<Rightarrow> CircuitBreaker" where
  "RecordFailure t b = (case cb_state b of
     CircuitClosed \<Rightarrow>
       (let b1 = b\<lparr>cb_consecutiveFails := cb_consecutiveFails b + 1\<rparr> in
        if cb_consecutiveFails b1 \<ge> failureThreshold (cb_cfg b1) then transitionTo CircuitOpen t b1 else b1)
   | CircuitHalfOpen \<Rightarrow> transitionTo CircuitOpen t (freeProbe b)
   | CircuitOpen \<Rightarrow> b)"

record CircuitSnapshot =
  cs_ModelName :: string
  cs_Version :: string
  cs_State :: CircuitState
  cs_ConsecutiveFailures :: int
  cs_LastTransitionAt :: time

definition snapshot :: "time \<Rightarrow> time \<Rightarrow> string \<Rightarrow> string \<Rightarrow> CircuitBreaker \<Rightarrow> CircuitSnapshot \<times> CircuitBreaker" where
  "snapshot t t2 modelName version b = (let b1 = maybeHalfOpen t t2 b in
     (\<lparr>cs_ModelName = modelName, cs_Version = version, cs_State = cb_state b1,
       cs_ConsecutiveFailures = cb_consecutiveFails b1, cs_LastTransitionAt = cb_lastTransition b1\<rparr>, b1))"

section \<open>The registry\<close>

record BreakerTuning =
  bt_FailureThreshold :: int
  bt_SuccessThreshold :: int
  bt_ResetTimeout :: duration
  bt_HalfOpenMaxProbes :: int

type_synonym breakerKey = "string \<times> string"

text \<open>The registry: the configuration and the breakers by model and version.\<close>

record breakerRegistry =
  br_cfg :: breakerConfig
  br_breakers :: "(breakerKey \<times> CircuitBreaker) list"

definition NewBreakerRegistry :: "BreakerTuning \<Rightarrow> breakerRegistry" where
  "NewBreakerRegistry t = \<lparr>br_cfg = \<lparr>
     failureThreshold = (if bt_FailureThreshold t > 0 then bt_FailureThreshold t else failureThreshold defaultBreakerConfig),
     successThreshold = (if bt_SuccessThreshold t > 0 then bt_SuccessThreshold t else successThreshold defaultBreakerConfig),
     resetTimeout = (if bt_ResetTimeout t > 0 then bt_ResetTimeout t else resetTimeout defaultBreakerConfig),
     halfOpenMaxProbes = (if bt_HalfOpenMaxProbes t > 0 then bt_HalfOpenMaxProbes t else halfOpenMaxProbes defaultBreakerConfig)\<rparr>,
     br_breakers = []\<rparr>"

text \<open>\<^verbatim>\<open>Get\<close> returns a pointer: here the key, whose breaker is now in the registry.\<close>

definition registry_Get :: "time \<Rightarrow> string \<Rightarrow> string \<Rightarrow> breakerRegistry \<Rightarrow> breakerKey \<times> breakerRegistry" where
  "registry_Get t model version r = (let key = (model, version) in
     case map_of (br_breakers r) key of
       Some _ \<Rightarrow> (key, r)
     | None \<Rightarrow> (key, r\<lparr>br_breakers := br_breakers r @ [(key, newCircuitBreaker (br_cfg r) t)]\<rparr>))"

definition registry_update :: "breakerKey \<Rightarrow> (CircuitBreaker \<Rightarrow> CircuitBreaker) \<Rightarrow> breakerRegistry \<Rightarrow> breakerRegistry" where
  "registry_update k f r = r\<lparr>br_breakers := map (\<lambda>(k', b). (k', if k' = k then f b else b)) (br_breakers r)\<rparr>"

text \<open>
  The snapshots in key order; each breaker's method reads the clock for itself, so the clock is a
  function of the position.
\<close>

fun snapshot_loop :: "(nat \<Rightarrow> time) \<Rightarrow> nat \<Rightarrow> breakerKey list \<Rightarrow> breakerRegistry \<Rightarrow> CircuitSnapshot list \<times> breakerRegistry" where
  "snapshot_loop clk n [] r = ([], r)"
| "snapshot_loop clk n (k # ks) r = (case map_of (br_breakers r) k of
     None \<Rightarrow> snapshot_loop clk n ks r
   | Some b \<Rightarrow>
       (let (snap, b1) = snapshot (clk (2 * n)) (clk (2 * n + 1)) (fst k) (snd k) b;
            (rest, r1) = snapshot_loop clk (Suc n) ks (registry_update k (\<lambda>_. b1) r)
        in (snap # rest, r1)))"

definition registry_Snapshot :: "(nat \<Rightarrow> time) \<Rightarrow> string \<Rightarrow> breakerRegistry \<Rightarrow> CircuitSnapshot list \<times> breakerRegistry" where
  "registry_Snapshot clk modelFilter r =
     snapshot_loop clk 0 (sort (filter (\<lambda>k. modelFilter = '''' \<or> fst k = modelFilter) (map fst (br_breakers r)))) r"

section \<open>Well-formed breakers\<close>

definition cfg_ok :: "breakerConfig \<Rightarrow> bool" where
  "cfg_ok c \<longleftrightarrow> 0 < failureThreshold c \<and> 0 < successThreshold c \<and> 0 < halfOpenMaxProbes c"

definition breaker_ok :: "CircuitBreaker \<Rightarrow> bool" where
  "breaker_ok b \<longleftrightarrow> cfg_ok (cb_cfg b) \<and> (case cb_state b of
     CircuitClosed \<Rightarrow> 0 \<le> cb_consecutiveFails b \<and> cb_consecutiveFails b < failureThreshold (cb_cfg b)
       \<and> cb_halfOpenSuccess b = 0 \<and> cb_halfOpenInFlight b = 0
   | CircuitOpen \<Rightarrow> cb_consecutiveFails b = 0 \<and> cb_halfOpenSuccess b = 0 \<and> cb_halfOpenInFlight b = 0
   | CircuitHalfOpen \<Rightarrow> cb_consecutiveFails b = 0
       \<and> 0 \<le> cb_halfOpenSuccess b \<and> cb_halfOpenSuccess b < successThreshold (cb_cfg b)
       \<and> 0 \<le> cb_halfOpenInFlight b \<and> cb_halfOpenInFlight b \<le> halfOpenMaxProbes (cb_cfg b))"

lemmas breaker_defs = transitionTo_def maybeHalfOpen_def Allow_def freeProbe_def RecordSuccess_def
  RecordFailure_def Let_def

lemma new_breaker_ok: "cfg_ok c \<Longrightarrow> breaker_ok (newCircuitBreaker c t)"
  by (simp add: newCircuitBreaker_def breaker_ok_def cfg_ok_def)

lemma maybeHalfOpen_ok: "breaker_ok b \<Longrightarrow> breaker_ok (maybeHalfOpen t t2 b)"
  by (auto simp: maybeHalfOpen_def transitionTo_def breaker_ok_def cfg_ok_def)

lemma Allow_ok: "breaker_ok b \<Longrightarrow> breaker_ok (snd (Allow t t2 b))"
  using maybeHalfOpen_ok [of b t t2]
  by (auto simp: Allow_def Let_def breaker_ok_def split: CircuitState.splits)

lemma RecordSuccess_ok: "breaker_ok b \<Longrightarrow> breaker_ok (RecordSuccess t b)"
  by (cases "cb_state b") (auto simp: RecordSuccess_def freeProbe_def transitionTo_def Let_def breaker_ok_def cfg_ok_def)

lemma RecordFailure_ok: "breaker_ok b \<Longrightarrow> breaker_ok (RecordFailure t b)"
  by (cases "cb_state b") (auto simp: RecordFailure_def freeProbe_def transitionTo_def Let_def breaker_ok_def cfg_ok_def)

lemmas breaker_ops_ok = maybeHalfOpen_ok Allow_ok RecordSuccess_ok RecordFailure_ok

lemma cfg_const [simp]:
  "cb_cfg (transitionTo st t b) = cb_cfg b" "cb_cfg (maybeHalfOpen t t2 b) = cb_cfg b"
  "cb_cfg (snd (Allow t t2 b)) = cb_cfg b" "cb_cfg (RecordSuccess t b) = cb_cfg b"
  "cb_cfg (RecordFailure t b) = cb_cfg b"
  by (auto simp: breaker_defs split: CircuitState.split)

section \<open>Tripping\<close>

text \<open>An outcome of an admitted call: \<open>True\<close> a success, \<open>False\<close> a failure, with the clock reading.\<close>

fun record_outcome :: "CircuitBreaker \<Rightarrow> bool \<times> time \<Rightarrow> CircuitBreaker" where
  "record_outcome b (ok, t) = (if ok then RecordSuccess t b else RecordFailure t b)"

lemma record_open: "cb_state b = CircuitOpen \<Longrightarrow> record_outcome b o' = b"
  by (cases o') (simp add: RecordSuccess_def RecordFailure_def)

lemma fold_open: "cb_state b = CircuitOpen \<Longrightarrow> foldl record_outcome b os = b"
  by (induction os) (simp_all add: record_open)

text \<open>The number of failures at the end of a list of outcomes.\<close>

definition fail_run :: "bool list \<Rightarrow> nat" where
  "fail_run os = length (takeWhile Not (rev os))"

lemma fail_run_simps [simp]: "fail_run [] = 0" "fail_run (os @ [ok]) = (if ok then 0 else Suc (fail_run os))"
  by (simp_all add: fail_run_def)

text \<open>
  The outcomes recorded on a breaker that starts closed with no failure: as long as no
  \<open>failureThreshold\<close> failures in a row have occurred it stays closed and counts the current run.
\<close>

lemma closed_counts:
  assumes "breaker_ok b" "cb_state b = CircuitClosed" "cb_consecutiveFails b = 0"
    and "\<forall>k \<le> length os. int (fail_run (map fst (take k os))) < failureThreshold (cb_cfg b)"
  shows "cb_state (foldl record_outcome b os) = CircuitClosed
    \<and> cb_consecutiveFails (foldl record_outcome b os) = int (fail_run (map fst os))
    \<and> cb_cfg (foldl record_outcome b os) = cb_cfg b"
  using assms(4)
proof (induction os rule: rev_induct)
  case Nil
  then show ?case using assms by simp
next
  case (snoc x os)
  have "\<forall>k \<le> length os. int (fail_run (map fst (take k os))) < failureThreshold (cb_cfg b)"
  proof (intro allI impI)
    fix k assume "k \<le> length os"
    with snoc.prems [rule_format, of k] show "int (fail_run (map fst (take k os))) < failureThreshold (cb_cfg b)" by simp
  qed
  note ih = snoc.IH [OF this]
  have "int (fail_run (map fst (os @ [x]))) < failureThreshold (cb_cfg b)"
    using snoc.prems [rule_format, of "length (os @ [x])"] by simp
  with ih show ?case by (cases x) (auto simp: RecordSuccess_def RecordFailure_def Let_def)
qed

lemma fail_run_replicate:
  "k \<le> fail_run os \<longleftrightarrow> (\<exists>xs. os = xs @ replicate k False)"
proof (induction os arbitrary: k rule: rev_induct)
  case Nil
  then show ?case by auto
next
  case (snoc x os)
  show ?case
  proof (cases k)
    case (Suc m)
    have "(\<exists>xs. os @ [x] = xs @ replicate (Suc m) False) \<longleftrightarrow> \<not> x \<and> (\<exists>xs. os = xs @ replicate m False)"
    proof -
      have r: "replicate (Suc m) False = replicate m False @ [False]" by (simp add: replicate_append_same)
      show ?thesis unfolding r by (auto simp: append_assoc [symmetric] simp del: append_assoc)
    qed
    with snoc.IH [of m] Suc show ?thesis by simp
  qed simp
qed

section \<open>Sequences of calls\<close>

text \<open>
  The calls of the gateway on one breaker. \<open>sys_epoch\<close> counts the transitions and \<open>sys_calls\<close> holds,
  for each call that was admitted and has not been recorded, the epoch of its admission; neither is in
  the code. The parameter \<open>late\<close> says whether the outcome of a call that was admitted in an earlier
  epoch may be recorded in HALF_OPEN.
\<close>

record breaker_sys =
  sys_b :: CircuitBreaker
  sys_epoch :: nat
  sys_calls :: "nat multiset"

definition epoch_after :: "breaker_sys \<Rightarrow> CircuitBreaker \<Rightarrow> nat" where
  "epoch_after x b' = (if cb_state b' = cb_state (sys_b x) then sys_epoch x else Suc (sys_epoch x))"

inductive breaker_run :: "bool \<Rightarrow> breakerConfig \<Rightarrow> breaker_sys \<Rightarrow> bool" for late cfg where
  init: "breaker_run late cfg \<lparr>sys_b = newCircuitBreaker cfg t, sys_epoch = 0, sys_calls = {#}\<rparr>"
| state: "breaker_run late cfg x \<Longrightarrow> State_of t t2 (sys_b x) = (st, b') \<Longrightarrow>
    breaker_run late cfg \<lparr>sys_b = b', sys_epoch = epoch_after x b', sys_calls = sys_calls x\<rparr>"
| admit: "breaker_run late cfg x \<Longrightarrow> Allow t t2 (sys_b x) = (True, b') \<Longrightarrow>
    breaker_run late cfg \<lparr>sys_b = b', sys_epoch = epoch_after x b', sys_calls = add_mset (epoch_after x b') (sys_calls x)\<rparr>"
| refuse: "breaker_run late cfg x \<Longrightarrow> Allow t t2 (sys_b x) = (False, b') \<Longrightarrow>
    breaker_run late cfg \<lparr>sys_b = b', sys_epoch = epoch_after x b', sys_calls = sys_calls x\<rparr>"
| outcome: "breaker_run late cfg x \<Longrightarrow> c \<in># sys_calls x \<Longrightarrow>
    late \<or> cb_state (sys_b x) \<noteq> CircuitHalfOpen \<or> c = sys_epoch x \<Longrightarrow>
    record_outcome (sys_b x) (ok, t) = b' \<Longrightarrow>
    breaker_run late cfg \<lparr>sys_b = b', sys_epoch = epoch_after x b', sys_calls = sys_calls x - {#c#}\<rparr>"

inductive_cases breaker_runE: "breaker_run late cfg x"

definition sys_inv :: "bool \<Rightarrow> breakerConfig \<Rightarrow> breaker_sys \<Rightarrow> bool" where
  "sys_inv late cfg x \<longleftrightarrow> breaker_ok (sys_b x) \<and> cb_cfg (sys_b x) = cfg
     \<and> (\<forall>c \<in># sys_calls x. c \<le> sys_epoch x)
     \<and> (\<not> late \<and> cb_state (sys_b x) = CircuitHalfOpen \<longrightarrow>
          int (count (sys_calls x) (sys_epoch x)) = cb_halfOpenInFlight (sys_b x))"

lemma no_future_calls: "\<forall>c \<in># M. c \<le> n \<Longrightarrow> count M (Suc n) = 0"
  by (metis Suc_n_not_le_n not_in_iff)

lemma sys_inv_maybeHalfOpen:
  assumes "sys_inv late cfg x"
  shows "sys_inv late cfg \<lparr>sys_b = maybeHalfOpen t t2 (sys_b x),
    sys_epoch = epoch_after x (maybeHalfOpen t t2 (sys_b x)), sys_calls = sys_calls x\<rparr>"
proof (cases "maybeHalfOpen t t2 (sys_b x) = sys_b x")
  case True
  with assms show ?thesis by (simp add: sys_inv_def epoch_after_def)
next
  case False
  then have m: "maybeHalfOpen t t2 (sys_b x) = transitionTo CircuitHalfOpen t2 (sys_b x)" "cb_state (sys_b x) = CircuitOpen"
    by (auto simp: maybeHalfOpen_def split: if_splits)
  have "epoch_after x (transitionTo CircuitHalfOpen t2 (sys_b x)) = Suc (sys_epoch x)"
    using m(2) by (simp add: epoch_after_def transitionTo_def)
  with m assms maybeHalfOpen_ok [of "sys_b x" t t2] no_future_calls [of "sys_calls x" "sys_epoch x"] show ?thesis
    by (auto simp: sys_inv_def transitionTo_def dest: le_SucI)
qed

lemma Allow_maybe:
  "Allow t t2 b = (ok, b') \<Longrightarrow> (let b1 = maybeHalfOpen t t2 b in
     cb_state b' = cb_state b1 \<and> cb_cfg b' = cb_cfg b1 \<and>
     (ok \<longrightarrow> cb_state b1 = CircuitClosed \<and> b' = b1 \<or> cb_state b1 = CircuitHalfOpen
        \<and> cb_halfOpenInFlight b' = cb_halfOpenInFlight b1 + 1) \<and> (\<not> ok \<longrightarrow> b' = b1))"
  by (auto simp: Allow_def Let_def split: CircuitState.splits if_splits)

lemma sys_inv_admit:
  assumes "sys_inv late cfg x" "Allow t t2 (sys_b x) = (True, b')"
  shows "sys_inv late cfg \<lparr>sys_b = b', sys_epoch = epoch_after x b', sys_calls = add_mset (epoch_after x b') (sys_calls x)\<rparr>"
proof -
  let ?b1 = "maybeHalfOpen t t2 (sys_b x)"
  have "breaker_ok b'" using Allow_ok [of "sys_b x" t t2] assms by (simp add: sys_inv_def)
  moreover have "epoch_after x b' = epoch_after x ?b1" "cb_cfg b' = cb_cfg ?b1" "cb_state b' = cb_state ?b1"
    "cb_state ?b1 = CircuitHalfOpen \<longrightarrow> cb_halfOpenInFlight b' = cb_halfOpenInFlight ?b1 + 1"
    using Allow_maybe [OF assms(2)] by (auto simp: Let_def epoch_after_def)
  ultimately show ?thesis using sys_inv_maybeHalfOpen [OF assms(1), of t t2] by (auto simp: sys_inv_def)
qed

lemma outcome_state:
  assumes "breaker_ok b" "record_outcome b (ok, t) = b'"
  shows "cb_cfg b' = cb_cfg b" "breaker_ok b'"
    "cb_state b' = CircuitHalfOpen \<Longrightarrow> cb_state b = CircuitHalfOpen
       \<and> cb_halfOpenInFlight b' = (if cb_halfOpenInFlight b > 0 then cb_halfOpenInFlight b - 1 else 0)"
  using assms RecordSuccess_ok [of b t] RecordFailure_ok [of b t]
  by (auto simp: breaker_ok_def RecordSuccess_def RecordFailure_def freeProbe_def transitionTo_def Let_def
      split: CircuitState.splits if_splits)

lemma sys_inv_outcome:
  assumes inv: "sys_inv late cfg x" and c: "c \<in># sys_calls x" "late \<or> cb_state (sys_b x) \<noteq> CircuitHalfOpen \<or> c = sys_epoch x"
    and o: "record_outcome (sys_b x) (ok, t) = b'"
  shows "sys_inv late cfg \<lparr>sys_b = b', sys_epoch = epoch_after x b', sys_calls = sys_calls x - {#c#}\<rparr>"
proof -
  have ok: "breaker_ok (sys_b x)" using inv by (simp add: sys_inv_def)
  note st = outcome_state [OF ok o]
  have "\<forall>d \<in># sys_calls x - {#c#}. d \<le> epoch_after x b'"
    using inv by (auto simp: sys_inv_def epoch_after_def dest!: in_diffD)
  moreover have "int (count (sys_calls x - {#c#}) (epoch_after x b')) = cb_halfOpenInFlight b'"
    if h: "\<not> late" "cb_state b' = CircuitHalfOpen"
  proof -
    from st(3) [OF h(2)] have hx: "cb_state (sys_b x) = CircuitHalfOpen" by simp
    with inv h(1) have n: "int (count (sys_calls x) (sys_epoch x)) = cb_halfOpenInFlight (sys_b x)" by (simp add: sys_inv_def)
    from c h(1) hx have "c = sys_epoch x" by simp
    with c(1) n have "cb_halfOpenInFlight (sys_b x) > 0" by (metis count_greater_zero_iff of_nat_0_less_iff)
    with st(3) [OF h(2)] n \<open>c = sys_epoch x\<close> hx h(2) show ?thesis by (simp add: epoch_after_def of_nat_diff)
  qed
  ultimately show ?thesis using st(1,2) inv by (simp add: sys_inv_def)
qed

lemma breaker_run_inv: "breaker_run late cfg x \<Longrightarrow> cfg_ok cfg \<Longrightarrow> sys_inv late cfg x"
proof (induction rule: breaker_run.induct)
  case (init t)
  then show ?case by (simp add: sys_inv_def new_breaker_ok) (simp add: newCircuitBreaker_def)
next
  case (state x t t2 st b')
  then show ?case using sys_inv_maybeHalfOpen [of late cfg x t t2] by (auto simp: State_of_def Let_def)
next
  case (admit x t t2 b')
  then show ?case by (intro sys_inv_admit) auto
next
  case (refuse x t t2 b')
  then have "b' = maybeHalfOpen t t2 (sys_b x)" using Allow_maybe [of t t2 "sys_b x" False b'] by (simp add: Let_def)
  with refuse show ?case using sys_inv_maybeHalfOpen [of late cfg x t t2] by simp
next
  case (outcome x c ok t b')
  then show ?case by (intro sys_inv_outcome) auto
qed

section \<open>Properties\<close>

text \<open>A closed breaker trips exactly on enough failures in a row. Whatever outcomes are recorded on a
  closed breaker with no failure counted, it ends OPEN if and only if somewhere among them there are
  \<open>failureThreshold\<close> consecutive failures, and otherwise it is still CLOSED.\<close>

theorem closed_breaker_trips_exactly_on_threshold:
  assumes "breaker_ok b" "cb_state b = CircuitClosed" "cb_consecutiveFails b = 0"
  shows "cb_state (foldl record_outcome b os) =
    (if \<exists>xs ys. map fst os = xs @ replicate (nat (failureThreshold (cb_cfg b))) False @ ys
     then CircuitOpen else CircuitClosed)"
proof -
  let ?n = "nat (failureThreshold (cb_cfg b))"
  have n: "int ?n = failureThreshold (cb_cfg b)" "0 < ?n" using assms(1) by (auto simp: breaker_ok_def cfg_ok_def)
  have trips: "(\<exists>xs ys. map fst os = xs @ replicate ?n False @ ys) \<longleftrightarrow> (\<exists>k \<le> length os. ?n \<le> fail_run (map fst (take k os)))"
  proof
    assume "\<exists>xs ys. map fst os = xs @ replicate ?n False @ ys"
    then obtain xs ys where xs: "map fst os = xs @ replicate ?n False @ ys" by blast
    let ?k = "length xs + ?n"
    have "map fst (take ?k os) = xs @ replicate ?n False" using xs by (simp add: take_map [symmetric])
    moreover have "?k \<le> length os" using arg_cong [OF xs, of length] by simp
    ultimately show "\<exists>k \<le> length os. ?n \<le> fail_run (map fst (take k os))" using fail_run_replicate by metis
  next
    assume "\<exists>k \<le> length os. ?n \<le> fail_run (map fst (take k os))"
    then obtain k xs where "map fst (take k os) = xs @ replicate ?n False" using fail_run_replicate by metis
    then show "\<exists>xs ys. map fst os = xs @ replicate ?n False @ ys" by (metis append.assoc append_take_drop_id map_append)
  qed
  show ?thesis
  proof (cases "\<exists>k \<le> length os. ?n \<le> fail_run (map fst (take k os))")
    case False
    then have "\<forall>k \<le> length os. int (fail_run (map fst (take k os))) < failureThreshold (cb_cfg b)"
      using n(1) by (metis linorder_not_le of_nat_less_iff)
    from closed_counts [OF assms this] False trips show ?thesis by simp
  next
    case True
    then obtain k where k: "k \<le> length os" "?n \<le> fail_run (map fst (take k os))"
      "\<forall>j < k. \<not> (j \<le> length os \<and> ?n \<le> fail_run (map fst (take j os)))"
      using exists_least_iff [of "\<lambda>k. k \<le> length os \<and> ?n \<le> fail_run (map fst (take k os))"] by blast
    then obtain j where j: "k = Suc j" using n(2) by (cases k) auto
    then obtain ok t where x: "take k os = take j os @ [(ok, t)]" using k(1) by (metis Suc_le_lessD surj_pair take_Suc_conv_app_nth)
    have before: "\<forall>i \<le> length (take j os). int (fail_run (map fst (take i (take j os)))) < failureThreshold (cb_cfg b)"
    proof (intro allI impI)
      fix i assume "i \<le> length (take j os)"
      then have "i < k" "i \<le> length os" using j k(1) by auto
      with k(3) have "fail_run (map fst (take i os)) < ?n" by auto
      with n(1) \<open>i \<le> length (take j os)\<close> show "int (fail_run (map fst (take i (take j os)))) < failureThreshold (cb_cfg b)" by simp
    qed
    note cl = closed_counts [OF assms before]
    have "\<not> ok" "?n \<le> Suc (fail_run (map fst (take j os)))" using k(2) x n(2) by (auto split: if_splits)
    then have "cb_state (foldl record_outcome b (take k os)) = CircuitOpen"
      using cl n(1) unfolding x by (auto simp: RecordFailure_def transitionTo_def Let_def)
    then have "cb_state (foldl record_outcome b (take k os @ drop k os)) = CircuitOpen" using fold_open by (simp del: append_take_drop_id)
    with True trips show ?thesis by simp
  qed
qed

text \<open>An open breaker fails fast. Before the cooldown has passed no call is admitted and nothing
  changes; once it has, the first call is admitted as a probe and the breaker is HALF_OPEN with that
  one probe in flight.\<close>

theorem open_breaker_admits_only_after_cooldown:
  assumes "breaker_ok b" "cb_state b = CircuitOpen"
  shows "Allow t t2 b = (if t < cb_lastTransition b + resetTimeout (cb_cfg b) then (False, b)
    else (True, b\<lparr>cb_state := CircuitHalfOpen, cb_lastTransition := t2, cb_consecutiveFails := 0,
       cb_halfOpenSuccess := 0, cb_halfOpenInFlight := 1\<rparr>))"
  using assms by (auto simp: Allow_def maybeHalfOpen_def transitionTo_def Let_def breaker_ok_def cfg_ok_def)

text \<open>In every state that sequences of calls can reach, the breaker is well-formed: counters stay
  within their thresholds, they are zero where the state does not use them, and in HALF_OPEN at most
  \<open>halfOpenMaxProbes\<close> slots are taken. If the outcomes recorded in HALF_OPEN are those of its own
  probes, then at most \<open>halfOpenMaxProbes\<close> probes are in flight.\<close>

theorem reachable_breakers_bound_probes:
  assumes "breaker_run late cfg x" "cfg_ok cfg"
  shows "breaker_ok (sys_b x)
    \<and> (\<not> late \<and> cb_state (sys_b x) = CircuitHalfOpen \<longrightarrow> int (count (sys_calls x) (sys_epoch x)) \<le> halfOpenMaxProbes cfg)"
  using breaker_run_inv [OF assms] by (auto simp: sys_inv_def breaker_ok_def)

section \<open>Instances\<close>

definition demo_cfg :: breakerConfig where
  "demo_cfg = \<lparr>failureThreshold = 1, successThreshold = 2, resetTimeout = 10, halfOpenMaxProbes = 1\<rparr>"

theorem closed_breaker_trips_exactly_on_threshold_witness:
  "cb_state (foldl record_outcome (newCircuitBreaker defaultBreakerConfig 0)
     [(False, 1), (True, 2), (False, 3), (False, 4), (False, 5), (False, 6)]) = CircuitClosed"
proof -
  let ?os = "[(False, 1), (True, 2), (False, 3), (False, 4), (False, 5), (False, 6 :: int)]"
  let ?b = "newCircuitBreaker defaultBreakerConfig 0"
  have "breaker_ok ?b" "cb_state ?b = CircuitClosed" "cb_consecutiveFails ?b = 0"
    by (simp_all add: breaker_ok_def cfg_ok_def newCircuitBreaker_def defaultBreakerConfig_def)
  note t = closed_breaker_trips_exactly_on_threshold [OF this, of ?os]
  have "\<not> (\<exists>xs ys. map fst ?os = xs @ replicate (nat (failureThreshold (cb_cfg ?b))) False @ ys)"
    by (auto simp: newCircuitBreaker_def defaultBreakerConfig_def Cons_eq_append_conv numeral_eq_Suc)
  with t show ?thesis by simp
qed

theorem open_breaker_admits_only_after_cooldown_witness:
  "fst (Allow 9 9 (transitionTo CircuitOpen 0 (newCircuitBreaker demo_cfg 0))) = False
   \<and> fst (Allow 10 10 (transitionTo CircuitOpen 0 (newCircuitBreaker demo_cfg 0))) = True"
proof -
  let ?b = "transitionTo CircuitOpen 0 (newCircuitBreaker demo_cfg 0)"
  have "breaker_ok ?b" "cb_state ?b = CircuitOpen"
    by (simp_all add: breaker_ok_def cfg_ok_def newCircuitBreaker_def demo_cfg_def transitionTo_def)
  note t = open_breaker_admits_only_after_cooldown [OF this]
  show ?thesis unfolding t by (simp add: newCircuitBreaker_def demo_cfg_def transitionTo_def)
qed

lemma demo_half_open:
  "breaker_run late demo_cfg \<lparr>sys_b = \<lparr>cb_cfg = demo_cfg, cb_state = CircuitHalfOpen, cb_consecutiveFails = 0,
     cb_halfOpenSuccess = 0, cb_halfOpenInFlight = 1, cb_lastTransition = 12\<rparr>, sys_epoch = 2, sys_calls = {#2, 0#}\<rparr>"
proof -
  let ?c = "\<lparr>cb_cfg = demo_cfg, cb_state = CircuitClosed, cb_consecutiveFails = 0,
     cb_halfOpenSuccess = 0, cb_halfOpenInFlight = 0, cb_lastTransition = 0\<rparr>"
  let ?o = "?c\<lparr>cb_state := CircuitOpen, cb_lastTransition := 2\<rparr>"
  have "breaker_run late demo_cfg \<lparr>sys_b = ?c, sys_epoch = 0, sys_calls = {#}\<rparr>"
    using breaker_run.init [of late demo_cfg 0] by (simp add: newCircuitBreaker_def)
  from breaker_run.admit [OF this, of 1 1 ?c] have "breaker_run late demo_cfg \<lparr>sys_b = ?c, sys_epoch = 0, sys_calls = {#0#}\<rparr>"
    by (simp add: Allow_def maybeHalfOpen_def epoch_after_def)
  from breaker_run.admit [OF this, of 1 1 ?c] have "breaker_run late demo_cfg \<lparr>sys_b = ?c, sys_epoch = 0, sys_calls = {#0, 0#}\<rparr>"
    by (simp add: Allow_def maybeHalfOpen_def epoch_after_def)
  from breaker_run.outcome [OF this, of 0 False 2 ?o]
  have "breaker_run late demo_cfg \<lparr>sys_b = ?o, sys_epoch = 1, sys_calls = {#0#}\<rparr>"
    by (simp add: RecordFailure_def transitionTo_def epoch_after_def demo_cfg_def Let_def)
  from breaker_run.admit [OF this, of 12 12 "?o\<lparr>cb_state := CircuitHalfOpen, cb_lastTransition := 12, cb_halfOpenInFlight := 1\<rparr>"]
  show ?thesis by (simp add: Allow_def maybeHalfOpen_def transitionTo_def epoch_after_def demo_cfg_def Let_def numeral_2_eq_2)
qed

theorem reachable_breakers_bound_probes_witness:
  "\<exists>x. breaker_run False demo_cfg x \<and> cb_state (sys_b x) = CircuitHalfOpen
     \<and> int (count (sys_calls x) (sys_epoch x)) \<le> halfOpenMaxProbes demo_cfg"
proof -
  have "cfg_ok demo_cfg" by (simp add: cfg_ok_def demo_cfg_def)
  from demo_half_open [of False] reachable_breakers_bound_probes [OF demo_half_open [of False] this] show ?thesis
    by (intro exI conjI) (assumption | simp)+
qed

text \<open>
  When the outcome of a call that was admitted before the breaker tripped arrives in HALF_OPEN it is
  counted as a probe's: it frees a slot that a probe still holds, and then more than
  \<open>halfOpenMaxProbes\<close> probes are in flight.
\<close>

lemma late_outcome_admits_extra_probe:
  "\<exists>x. breaker_run True demo_cfg x \<and> cb_state (sys_b x) = CircuitHalfOpen
     \<and> int (count (sys_calls x) (sys_epoch x)) > halfOpenMaxProbes demo_cfg"
proof -
  let ?h = "\<lparr>cb_cfg = demo_cfg, cb_state = CircuitHalfOpen, cb_consecutiveFails = 0,
     cb_halfOpenSuccess = 1, cb_halfOpenInFlight = 0, cb_lastTransition = 12\<rparr>"
  from breaker_run.outcome [OF demo_half_open [of True], of 0 True 13 ?h]
  have "breaker_run True demo_cfg \<lparr>sys_b = ?h, sys_epoch = 2, sys_calls = {#2#}\<rparr>"
    by (simp add: RecordSuccess_def freeProbe_def epoch_after_def demo_cfg_def Let_def)
  from breaker_run.admit [OF this, of 14 14 "?h\<lparr>cb_halfOpenInFlight := 1\<rparr>"]
  have "breaker_run True demo_cfg \<lparr>sys_b = ?h\<lparr>cb_halfOpenInFlight := 1\<rparr>, sys_epoch = 2, sys_calls = {#2, 2#}\<rparr>"
    by (simp add: Allow_def maybeHalfOpen_def epoch_after_def demo_cfg_def Let_def)
  then show ?thesis by (intro exI conjI) (assumption | simp add: demo_cfg_def)+
qed

end
