(* ===== verification/GatewayRoutes.thy ===== *)
theory GatewayRoutes
  imports GatewayBreaker "HOL-Library.AList"
begin

text \<open>
  The routing table of the inference gateway: the model types (\<^verbatim>\<open>models.go\<close>), the weighted traffic
  splitter (\<^verbatim>\<open>traffic_splitter.go\<close>), the route store adapter (\<^verbatim>\<open>repository/redis/route_store.go\<close>) and
  the control-plane operations of the service (\<^verbatim>\<open>inference_service_impl.go\<close>): editing a route, setting
  a traffic split, and applying the lifecycle events of the other services.

  A service operation takes the store as a record of functions \<open>S\<close> over a store state. The locale
  \<open>route_store\<close> is the contract of the port \<^verbatim>\<open>RouteStore\<close>: what a read returns after each write. The
  lemmas about the operations are proved in it once and reach the properties through its
  interpretation on the adapter.
\<close>

section \<open>Types\<close>

definition TotalWeightBps :: int where
  "TotalWeightBps = 10000"

datatype TargetStatus = TargetStatusUnspecified | TargetStatusActive | TargetStatusDraining
  | TargetStatusUnhealthy

definition Eligible :: "TargetStatus \<Rightarrow> bool" where
  "Eligible s = (s = TargetStatusActive)"

record RouteTarget =
  rt_Version :: string
  rt_Endpoint :: string
  rt_WeightBps :: int
  rt_Status :: TargetStatus
  rt_IsStable :: bool

definition zeroTarget :: RouteTarget where
  "zeroTarget = \<lparr>rt_Version = '''', rt_Endpoint = '''', rt_WeightBps = 0,
     rt_Status = TargetStatusUnspecified, rt_IsStable = False\<rparr>"

record Route =
  r_OwnerTeam :: string
  r_ModelName :: string
  r_Targets :: "RouteTarget list"
  r_UpdatedAt :: time

definition zeroRoute :: Route where
  "zeroRoute = \<lparr>r_OwnerTeam = '''', r_ModelName = '''', r_Targets = [], r_UpdatedAt = 0\<rparr>"

definition nul :: char where
  "nul = char_of (0 :: nat)"

definition routeKey :: "string \<Rightarrow> string \<Rightarrow> string" where
  "routeKey team modelName = team @ [nul] @ modelName"

definition ActiveWeightSum :: "Route \<Rightarrow> int" where
  "ActiveWeightSum r = sum_list (map rt_WeightBps (filter (\<lambda>t. Eligible (rt_Status t)) (r_Targets r)))"

definition IsServing :: "Route \<Rightarrow> bool" where
  "IsServing r = list_ex (\<lambda>t. Eligible (rt_Status t)) (r_Targets r)"

text \<open>\<^verbatim>\<open>findTarget\<close> returns a pointer into the targets: the index of the first one with the version.\<close>

fun find_target_idx :: "RouteTarget list \<Rightarrow> string \<Rightarrow> nat option" where
  "find_target_idx [] v = None"
| "find_target_idx (t # ts) v = (if rt_Version t = v then Some 0 else map_option Suc (find_target_idx ts v))"

definition findTarget :: "Route \<Rightarrow> string \<Rightarrow> nat option" where
  "findTarget r v = find_target_idx (r_Targets r) v"

section \<open>Errors\<close>

definition ErrNoRoute :: goerr where
  "ErrNoRoute = New ''inference: no route for model''"

definition ErrRateLimited :: goerr where
  "ErrRateLimited = New ''inference: rate limited''"

definition ErrQuotaExceeded :: goerr where
  "ErrQuotaExceeded = New ''inference: team quota exceeded''"

definition ErrCircuitOpen :: goerr where
  "ErrCircuitOpen = New ''inference: circuit open''"

definition ErrUpstream :: goerr where
  "ErrUpstream = New ''inference: upstream backend error''"

definition ErrTimeout :: goerr where
  "ErrTimeout = New ''inference: upstream timeout''"

definition ErrInvalidInput :: goerr where
  "ErrInvalidInput = New ''inference: invalid input''"

definition ErrRouteValidation :: goerr where
  "ErrRouteValidation = New ''inference: route validation failed''"

section \<open>Traffic splitter\<close>

fun eligibleWeightSum :: "RouteTarget list \<Rightarrow> int" where
  "eligibleWeightSum [] = 0"
| "eligibleWeightSum (t # ts) = (if Eligible (rt_Status t) then rt_WeightBps t else 0) + eligibleWeightSum ts"

text \<open>The scan with the cumulative weight as its accumulator.\<close>

fun selectByDraw :: "RouteTarget list \<Rightarrow> int \<Rightarrow> int \<Rightarrow> goerr + RouteTarget" where
  "selectByDraw [] draw cumulative = Inl ErrNoRoute"
| "selectByDraw (t # ts) draw cumulative =
     (if \<not> Eligible (rt_Status t) then selectByDraw ts draw cumulative
      else if draw < cumulative + rt_WeightBps t then Inr t
      else selectByDraw ts draw (cumulative + rt_WeightBps t))"

text \<open>\<open>rand n\<close> is the injected source, uniform on \<open>[0, n)\<close>.\<close>

definition Pick :: "(int \<Rightarrow> int) \<Rightarrow> RouteTarget list \<Rightarrow> goerr + RouteTarget" where
  "Pick rand targets = (let total = eligibleWeightSum targets in
     if total \<le> 0 then Inl ErrNoRoute else selectByDraw targets (rand total) 0)"

lemma selectByDraw_below:
  "\<forall>t \<in> set ts. 0 \<le> rt_WeightBps t \<Longrightarrow> c \<le> d \<Longrightarrow> d < c + eligibleWeightSum ts \<Longrightarrow>
   \<exists>t \<in> set ts. Eligible (rt_Status t) \<and> 0 < rt_WeightBps t \<and> selectByDraw ts d c = Inr t"
  by (induction ts arbitrary: c) (auto split: if_splits)

lemma selectByDraw_eligible: "selectByDraw ts d c = Inr t \<Longrightarrow> t \<in> set ts \<and> Eligible (rt_Status t)"
  by (induction ts arbitrary: c) (auto split: if_splits)

lemma eligibleWeightSum_nonneg: "\<forall>t \<in> set ts. 0 \<le> rt_WeightBps t \<Longrightarrow> 0 \<le> eligibleWeightSum ts"
  by (induction ts) auto

lemma selectByDraw_before:
  "selectByDraw (t # ts) d c = Inr u \<Longrightarrow> u \<noteq> t \<Longrightarrow> selectByDraw ts d (c + (if Eligible (rt_Status t) then rt_WeightBps t else 0)) = Inr u
     \<and> (Eligible (rt_Status t) \<longrightarrow> c + rt_WeightBps t \<le> d)"
  by (auto split: if_splits)

text \<open>The draws that select a target form a band as wide as its weight.\<close>

lemma band_card:
  assumes "distinct ts" "\<forall>t \<in> set ts. 0 \<le> rt_WeightBps t" "t \<in> set ts"
  shows "card {d \<in> {c ..< c + eligibleWeightSum ts}. selectByDraw ts d c = Inr t}
    = (if Eligible (rt_Status t) then nat (rt_WeightBps t) else 0)"
  using assms
proof (induction ts arbitrary: c)
  case (Cons u ts)
  let ?w = "if Eligible (rt_Status u) then rt_WeightBps u else 0"
  have w: "0 \<le> ?w" "0 \<le> eligibleWeightSum ts" using Cons.prems eligibleWeightSum_nonneg by auto
  show ?case
  proof (cases "t = u")
    case True
    have "{d \<in> {c ..< c + eligibleWeightSum (u # ts)}. selectByDraw (u # ts) d c = Inr t} = {c ..< c + ?w}"
      using w Cons.prems(1) selectByDraw_eligible [of ts _ _ u] unfolding True
      by (auto split: if_splits dest: selectByDraw_eligible)
    then show ?thesis using True by simp
  next
    case False
    then have t: "t \<in> set ts" using Cons.prems(3) by simp
    have "{d \<in> {c ..< c + eligibleWeightSum (u # ts)}. selectByDraw (u # ts) d c = Inr t}
        = {d \<in> {c + ?w ..< c + ?w + eligibleWeightSum ts}. selectByDraw ts d (c + ?w) = Inr t}"
      using w False by (auto split: if_splits)
    with Cons.IH [OF _ _ t, of "c + ?w"] Cons.prems show ?thesis by simp
  qed
qed simp

section \<open>The store port and its adapter\<close>

record ListOptions =
  PageSize :: int
  PageToken :: string

record 's RouteStoreOps =
  rs_Get :: "string \<Rightarrow> 's \<Rightarrow> goerr + Route"
  rs_Upsert :: "string \<Rightarrow> Route \<Rightarrow> 's \<Rightarrow> goerr option \<times> 's"
  rs_Delete :: "string \<Rightarrow> 's \<Rightarrow> goerr option \<times> 's"
  rs_List :: "ListOptions \<Rightarrow> 's \<Rightarrow> goerr + Route list \<times> string"

text \<open>
  The contract of the port: a read returns what was last written under the key, and a failed read is
  a missing route. A write counts as done even when the call reports an error (the mirror may fail
  after the table was changed).
\<close>

locale route_store =
  fixes S :: "'s RouteStoreOps"
  assumes get_upsert: "rs_Get S k' (snd (rs_Upsert S k r s)) = (if k' = k then Inr r else rs_Get S k' s)"
    and get_delete: "rs_Get S k' (snd (rs_Delete S k s)) = (if k' = k then Inl ErrNoRoute else rs_Get S k' s)"
    and get_err: "rs_Get S k s = Inl e \<Longrightarrow> e = ErrNoRoute"
begin

lemma get_upsert_same: "rs_Get S k (snd (rs_Upsert S k r s)) = Inr r"
  by (simp add: get_upsert)

lemma get_upsert_other: "k' \<noteq> k \<Longrightarrow> rs_Get S k' (snd (rs_Upsert S k r s)) = rs_Get S k' s"
  by (simp add: get_upsert)

end

text \<open>
  The adapter: an authoritative in-memory table, mirrored to a Redis hash. A blob is the JSON text of
  a route: \<open>json.Marshal\<close> of the struct and its \<open>json.Unmarshal\<close> are inverse, and other text does not
  parse. The Redis client is the parameter \<open>M\<close>.
\<close>

datatype json_blob = RouteJSON Route | OtherText string

definition json_Marshal :: "Route \<Rightarrow> json_blob" where
  "json_Marshal r = RouteJSON r"

fun json_Unmarshal :: "json_blob \<Rightarrow> goerr + Route" where
  "json_Unmarshal (RouteJSON r) = Inr r"
| "json_Unmarshal (OtherText s) = Inl (Dyn ''invalid character'')"

record 'w RedisClient =
  rdb_HSet :: "string \<Rightarrow> string \<Rightarrow> json_blob \<Rightarrow> 'w \<Rightarrow> goerr option \<times> 'w"
  rdb_HDel :: "string \<Rightarrow> string \<Rightarrow> 'w \<Rightarrow> goerr option \<times> 'w"
  rdb_HGetAll :: "string \<Rightarrow> 'w \<Rightarrow> (goerr + (string \<times> json_blob) list) \<times> 'w"

definition routesHashKey :: string where
  "routesHashKey = ''fp:ig:routes''"

record 'w RouteStore =
  st_rdb :: 'w
  st_table :: "(string \<times> Route) list"

definition NewRouteStore :: "'w \<Rightarrow> 'w RouteStore" where
  "NewRouteStore w = \<lparr>st_rdb = w, st_table = []\<rparr>"

definition store_Get :: "string \<Rightarrow> 'w RouteStore \<Rightarrow> goerr + Route" where
  "store_Get key s = (case map_of (st_table s) key of None \<Rightarrow> Inl ErrNoRoute | Some r \<Rightarrow> Inr r)"

definition store_Upsert :: "'w RedisClient \<Rightarrow> string \<Rightarrow> Route \<Rightarrow> 'w RouteStore \<Rightarrow> goerr option \<times> 'w RouteStore" where
  "store_Upsert M key route s =
     (let s1 = s\<lparr>st_table := AList.update key route (st_table s)\<rparr>;
          (e, w) = rdb_HSet M routesHashKey key (json_Marshal route) (st_rdb s1);
          s2 = s1\<lparr>st_rdb := w\<rparr>
      in (map_option (\<lambda>err. Wrapf (''redisrepo: mirror upsert route '' @ quote key @ '': '') err '''') e, s2))"

definition store_Delete :: "'w RedisClient \<Rightarrow> string \<Rightarrow> 'w RouteStore \<Rightarrow> goerr option \<times> 'w RouteStore" where
  "store_Delete M key s =
     (let s1 = s\<lparr>st_table := AList.delete key (st_table s)\<rparr>;
          (e, w) = rdb_HDel M routesHashKey key (st_rdb s1);
          s2 = s1\<lparr>st_rdb := w\<rparr>
      in (map_option (\<lambda>err. Wrapf (''redisrepo: mirror delete route '' @ quote key @ '': '') err '''') e, s2))"

text \<open>
  \<^verbatim>\<open>List\<close>: the names in order, from the first one after the token (\<^verbatim>\<open>sort.Search\<close> on the sorted names).
\<close>

definition store_List :: "ListOptions \<Rightarrow> 'w RouteStore \<Rightarrow> goerr + Route list \<times> string" where
  "store_List opts s =
     (let pageSize = (if PageSize opts \<le> 0 then 50 else PageSize opts);
          names = sort (map fst (st_table s));
          start = (if PageToken opts \<noteq> '''' then length (takeWhile (\<lambda>n. n \<le> PageToken opts) names) else 0);
          end0 = int start + pageSize;
          stop = (if end0 > int (length names) then length names else nat end0);
          page = take (stop - start) (drop start names)
      in Inr (List.map_filter (map_of (st_table s)) page,
              if stop < length names then names ! (stop - 1) else ''''))"

text \<open>\<^verbatim>\<open>Warm\<close>: rebuilds the table from the mirror; one bad blob fails the whole load.\<close>

fun warm_load :: "(string \<times> json_blob) list \<Rightarrow> (string \<times> Route) list \<Rightarrow> goerr + (string \<times> Route) list" where
  "warm_load [] loaded = Inr loaded"
| "warm_load ((name, blob) # rest) loaded = (case json_Unmarshal blob of
     Inl err \<Rightarrow> Inl (Wrapf (''redisrepo: warm: unmarshal route '' @ quote name @ '': '') err '''')
   | Inr r \<Rightarrow> warm_load rest (AList.update name r loaded))"

definition store_Warm :: "'w RedisClient \<Rightarrow> 'w RouteStore \<Rightarrow> goerr option \<times> 'w RouteStore" where
  "store_Warm M s = (case rdb_HGetAll M routesHashKey (st_rdb s) of
     (Inl err, w) \<Rightarrow> (Some (Wrapf ''redisrepo: warm route table from mirror: '' err ''''), s\<lparr>st_rdb := w\<rparr>)
   | (Inr flds, w) \<Rightarrow> (case warm_load flds [] of
        Inl err \<Rightarrow> (Some err, s\<lparr>st_rdb := w\<rparr>)
      | Inr loaded \<Rightarrow> (None, s\<lparr>st_rdb := w, st_table := loaded\<rparr>)))"

definition RouteStore_ops :: "'w RedisClient \<Rightarrow> 'w RouteStore RouteStoreOps" where
  "RouteStore_ops M = \<lparr>rs_Get = store_Get, rs_Upsert = store_Upsert M, rs_Delete = store_Delete M,
     rs_List = store_List\<rparr>"

text \<open>The adapter keeps the contract, whatever the Redis client does.\<close>

interpretation adapter: route_store "RouteStore_ops M" for M :: "'w RedisClient"
  by unfold_locales
    (auto simp: RouteStore_ops_def store_Get_def store_Upsert_def store_Delete_def Let_def
      update_conv' delete_conv' split: prod.splits option.splits)

section \<open>Control plane\<close>

record ProposedTarget =
  pt_Version :: string
  pt_WeightBps :: int

record TrafficWeight =
  tw_Version :: string
  tw_WeightBps :: int

record ModelDeployed =
  md_OwnerTeam :: string
  md_ModelName :: string
  md_Version :: string
  md_Endpoint :: string
  md_WeightBps :: int

record ModelUndeployed =
  mu_OwnerTeam :: string
  mu_ModelName :: string
  mu_Version :: string
  mu_Reason :: string

record ModelPromoted =
  mp_OwnerTeam :: string
  mp_ModelName :: string
  mp_Version :: string
  mp_DemotedVersion :: string

record ModelArchived =
  ma_OwnerTeam :: string
  ma_ModelName :: string

definition validateWeight :: "int \<Rightarrow> goerr option" where
  "validateWeight bps = (if bps < 0 \<or> bps > TotalWeightBps
     then Some (Wrapf '''' ErrRouteValidation ('': weight_bps '' @ itoa bps @ '' out of range [0,''
       @ itoa TotalWeightBps @ '']'')) else None)"

definition validateActiveWeightSum :: "Route \<Rightarrow> goerr option" where
  "validateActiveWeightSum route = (let s = ActiveWeightSum route in
     if s \<noteq> TotalWeightBps
     then Some (Wrapf '''' ErrRouteValidation ('': active weights sum to '' @ itoa s @ '', want '' @ itoa TotalWeightBps))
     else None)"

definition GetRoute :: "'s RouteStoreOps \<Rightarrow> string \<Rightarrow> string \<Rightarrow> 's \<Rightarrow> goerr + Route" where
  "GetRoute S team modelName s = rs_Get S (routeKey team modelName) s"

definition ListRoutes :: "'s RouteStoreOps \<Rightarrow> string \<Rightarrow> ListOptions \<Rightarrow> 's \<Rightarrow> goerr + Route list \<times> string" where
  "ListRoutes S team opts s = (case rs_List S opts s of Inl err \<Rightarrow> Inl err
     | Inr (all, token) \<Rightarrow> Inr (filter (\<lambda>r. r_OwnerTeam r = team) all, token))"

text \<open>The loop over the proposed targets of \<^verbatim>\<open>UpsertRoute\<close>; \<open>seen\<close> holds the versions so far.\<close>

fun resolveTargets :: "(string \<rightharpoonup> string) \<Rightarrow> (string \<rightharpoonup> bool) \<Rightarrow> string set \<Rightarrow> ProposedTarget list \<Rightarrow>
    goerr + RouteTarget list" where
  "resolveTargets endpointOf stableOf seen [] = Inr []"
| "resolveTargets endpointOf stableOf seen (pt # pts) =
     (if pt_Version pt = '''' then Inl (Wrapf '''' ErrRouteValidation '': a target has an empty version'')
      else if pt_Version pt \<in> seen
      then Inl (Wrapf '''' ErrRouteValidation ('': duplicate version '' @ quote (pt_Version pt)))
      else case validateWeight (pt_WeightBps pt) of
        Some err \<Rightarrow> Inl err
      | None \<Rightarrow>
          (case endpointOf (pt_Version pt) of
             None \<Rightarrow> Inl (Wrapf '''' ErrRouteValidation ('': no resolved endpoint for version '' @ quote (pt_Version pt) @ '' (deploy it first)''))
           | Some endpoint \<Rightarrow>
               if endpoint = '''' then Inl (Wrapf '''' ErrRouteValidation ('': no resolved endpoint for version '' @ quote (pt_Version pt) @ '' (deploy it first)''))
               else case resolveTargets endpointOf stableOf (insert (pt_Version pt) seen) pts of
                 Inl err \<Rightarrow> Inl err
               | Inr ts \<Rightarrow> Inr (\<lparr>rt_Version = pt_Version pt, rt_Endpoint = endpoint, rt_WeightBps = pt_WeightBps pt,
                     rt_Status = TargetStatusActive,
                     rt_IsStable = (case stableOf (pt_Version pt) of Some b \<Rightarrow> b | None \<Rightarrow> False)\<rparr> # ts)))"

definition UpsertRoute :: "'s RouteStoreOps \<Rightarrow> time \<Rightarrow> string \<Rightarrow> string \<Rightarrow> ProposedTarget list \<Rightarrow> 's \<Rightarrow>
    (goerr + Route) \<times> 's" where
  "UpsertRoute S now team modelName proposed s =
     (if modelName = '''' then (Inl (Wrapf '''' ErrRouteValidation '': model_name is required''), s)
      else if proposed = [] then (Inl (Wrapf '''' ErrRouteValidation '': at least one target is required''), s)
      else
        let existing = (case rs_Get S (routeKey team modelName) s of Inr r \<Rightarrow> r | Inl _ \<Rightarrow> zeroRoute);
            endpointOf = fold (\<lambda>t m. m(rt_Version t \<mapsto> rt_Endpoint t)) (r_Targets existing) Map.empty;
            stableOf = fold (\<lambda>t m. m(rt_Version t \<mapsto> rt_IsStable t)) (r_Targets existing) Map.empty
        in case resolveTargets endpointOf stableOf {} proposed of
             Inl err \<Rightarrow> (Inl err, s)
           | Inr targets \<Rightarrow>
               let route = \<lparr>r_OwnerTeam = team, r_ModelName = modelName, r_Targets = targets, r_UpdatedAt = now\<rparr>
               in case validateActiveWeightSum route of
                    Some err \<Rightarrow> (Inl err, s)
                  | None \<Rightarrow> (case rs_Upsert S (routeKey team modelName) route s of
                      (Some err, s') \<Rightarrow> (Inl err, s')
                    | (None, s') \<Rightarrow> (Inr route, s')))"

text \<open>The loop of \<^verbatim>\<open>SetTrafficSplit\<close>, on the cloned targets.\<close>

fun applyWeights :: "string set \<Rightarrow> TrafficWeight list \<Rightarrow> RouteTarget list \<Rightarrow> goerr + RouteTarget list" where
  "applyWeights seen [] targets = Inr targets"
| "applyWeights seen (w # ws) targets =
     (if tw_Version w \<in> seen
      then Inl (Wrapf '''' ErrRouteValidation ('': duplicate version '' @ quote (tw_Version w)))
      else case validateWeight (tw_WeightBps w) of
        Some err \<Rightarrow> Inl err
      | None \<Rightarrow> (case find_target_idx targets (tw_Version w) of
          None \<Rightarrow> Inl (Wrapf '''' ErrRouteValidation ('': unknown version '' @ quote (tw_Version w) @ '' in route''))
        | Some i \<Rightarrow>
            let t = (targets ! i)\<lparr>rt_WeightBps := tw_WeightBps w\<rparr>;
                t1 = (if rt_Status t = TargetStatusUnspecified then t\<lparr>rt_Status := TargetStatusActive\<rparr> else t)
            in applyWeights (insert (tw_Version w) seen) ws (targets[i := t1])))"

definition SetTrafficSplit :: "'s RouteStoreOps \<Rightarrow> time \<Rightarrow> string \<Rightarrow> string \<Rightarrow> TrafficWeight list \<Rightarrow> 's \<Rightarrow>
    (goerr + Route) \<times> 's" where
  "SetTrafficSplit S now team modelName weights s =
     (case rs_Get S (routeKey team modelName) s of
        Inl _ \<Rightarrow> (Inl ErrNoRoute, s)
      | Inr route \<Rightarrow>
          if weights = [] then (Inl (Wrapf '''' ErrRouteValidation '': at least one weight is required''), s)
          else case applyWeights {} weights (r_Targets route) of
            Inl err \<Rightarrow> (Inl err, s)
          | Inr targets \<Rightarrow>
              let proposed = route\<lparr>r_Targets := targets, r_UpdatedAt := now\<rparr>
              in case validateActiveWeightSum proposed of
                   Some err \<Rightarrow> (Inl err, s)
                 | None \<Rightarrow> (case rs_Upsert S (routeKey team modelName) proposed s of
                     (Some err, s') \<Rightarrow> (Inl err, s')
                   | (None, s') \<Rightarrow> (Inr proposed, s')))"

definition DeleteRoute :: "'s RouteStoreOps \<Rightarrow> string \<Rightarrow> string \<Rightarrow> 's \<Rightarrow> goerr option \<times> 's" where
  "DeleteRoute S team modelName s = rs_Delete S (routeKey team modelName) s"

text \<open>The targets of a route after a deploy event: the first target of the version is updated, or one is added.\<close>

fun deployTarget :: "ModelDeployed \<Rightarrow> RouteTarget list \<Rightarrow> RouteTarget list option" where
  "deployTarget ev [] = None"
| "deployTarget ev (t # ts) = (if rt_Version t = md_Version ev
     then Some (t\<lparr>rt_Endpoint := md_Endpoint ev, rt_WeightBps := md_WeightBps ev, rt_Status := TargetStatusActive\<rparr> # ts)
     else map_option ((#) t) (deployTarget ev ts))"

definition deployedTargets :: "ModelDeployed \<Rightarrow> RouteTarget list \<Rightarrow> RouteTarget list" where
  "deployedTargets ev targets = (case deployTarget ev targets of
     Some ts \<Rightarrow> ts
   | None \<Rightarrow> targets @ [\<lparr>rt_Version = md_Version ev, rt_Endpoint = md_Endpoint ev,
       rt_WeightBps = md_WeightBps ev, rt_Status = TargetStatusActive, rt_IsStable = (targets = [])\<rparr>])"

definition ApplyModelDeployed :: "'s RouteStoreOps \<Rightarrow> time \<Rightarrow> ModelDeployed \<Rightarrow> 's \<Rightarrow> goerr option \<times> 's" where
  "ApplyModelDeployed S now ev s =
     (if md_ModelName ev = '''' \<or> md_Version ev = '''' \<or> md_Endpoint ev = ''''
      then (Some (Wrapf '''' ErrRouteValidation '': deploy event missing model/version/endpoint''), s)
      else case validateWeight (md_WeightBps ev) of
        Some err \<Rightarrow> (Some err, s)
      | None \<Rightarrow>
          (let key = routeKey (md_OwnerTeam ev) (md_ModelName ev);
               got = (case rs_Get S key s of
                   Inl err \<Rightarrow> if errors_Is err ErrNoRoute
                      then Inr (zeroRoute\<lparr>r_OwnerTeam := md_OwnerTeam ev, r_ModelName := md_ModelName ev\<rparr>) else Inl err
                 | Inr r \<Rightarrow> Inr r)
           in case got of
                Inl err \<Rightarrow> (Some err, s)
              | Inr route \<Rightarrow>
                  rs_Upsert S key (route\<lparr>r_Targets := deployedTargets ev (r_Targets route), r_UpdatedAt := now\<rparr>) s))"

definition ApplyModelUndeployed :: "'s RouteStoreOps \<Rightarrow> time \<Rightarrow> ModelUndeployed \<Rightarrow> 's \<Rightarrow> goerr option \<times> 's" where
  "ApplyModelUndeployed S now ev s =
     (let key = routeKey (mu_OwnerTeam ev) (mu_ModelName ev) in
      case rs_Get S key s of
        Inl err \<Rightarrow> if errors_Is err ErrNoRoute then (None, s) else (Some err, s)
      | Inr route \<Rightarrow>
          let kept = filter (\<lambda>t. rt_Version t \<noteq> mu_Version ev) (r_Targets route)
          in if kept = [] then rs_Delete S key s
             else rs_Upsert S key (route\<lparr>r_Targets := kept, r_UpdatedAt := now\<rparr>) s)"

definition promoteTarget :: "string \<Rightarrow> RouteTarget \<Rightarrow> RouteTarget" where
  "promoteTarget v t = (if rt_Version t = v
     then t\<lparr>rt_WeightBps := TotalWeightBps, rt_Status := TargetStatusActive, rt_IsStable := True\<rparr>
     else t\<lparr>rt_WeightBps := 0, rt_Status := TargetStatusDraining, rt_IsStable := False\<rparr>)"

definition ApplyModelPromoted :: "'s RouteStoreOps \<Rightarrow> time \<Rightarrow> ModelPromoted \<Rightarrow> 's \<Rightarrow> goerr option \<times> 's" where
  "ApplyModelPromoted S now ev s =
     (let key = routeKey (mp_OwnerTeam ev) (mp_ModelName ev) in
      case rs_Get S key s of
        Inl _ \<Rightarrow> (Some ErrNoRoute, s)
      | Inr route \<Rightarrow>
          if findTarget route (mp_Version ev) = None
          then (Some (Wrapf '''' ErrRouteValidation ('': promoted version '' @ quote (mp_Version ev) @ '' has no route target'')), s)
          else rs_Upsert S key (route\<lparr>r_Targets := map (promoteTarget (mp_Version ev)) (r_Targets route), r_UpdatedAt := now\<rparr>) s)"

definition ApplyModelArchived :: "'s RouteStoreOps \<Rightarrow> ModelArchived \<Rightarrow> 's \<Rightarrow> goerr option \<times> 's" where
  "ApplyModelArchived S ev s = rs_Delete S (routeKey (ma_OwnerTeam ev) (ma_ModelName ev)) s"

section \<open>What the operations write\<close>

text \<open>One write under \<open>key\<close> at most: nothing, a replacement, or a deletion.\<close>

definition writes_only :: "'s RouteStoreOps \<Rightarrow> string \<Rightarrow> 's \<Rightarrow> 's \<Rightarrow> bool" where
  "writes_only S key s s' \<longleftrightarrow> s' = s \<or> (\<exists>r. s' = snd (rs_Upsert S key r s)) \<or> s' = snd (rs_Delete S key s)"

lemma writes_only_intros [intro]:
  "rs_Upsert S key r s = (e, s') \<Longrightarrow> writes_only S key s s'" "rs_Delete S key s = (e, s') \<Longrightarrow> writes_only S key s s'"
  by (auto simp: writes_only_def intro: exI [of _ r])

lemma writes_only_simps [simp]:
  "writes_only S key s s" "writes_only S key s (snd (rs_Upsert S key r s))" "writes_only S key s (snd (rs_Delete S key s))"
  by (auto simp: writes_only_def)

lemma ops_write_own_key:
  "writes_only S (routeKey team m) s (snd (UpsertRoute S t team m pts s))"
  "writes_only S (routeKey team m) s (snd (SetTrafficSplit S t team m ws s))"
  "writes_only S (routeKey team m) s (snd (DeleteRoute S team m s))"
  "writes_only S (routeKey (md_OwnerTeam d) (md_ModelName d)) s (snd (ApplyModelDeployed S t d s))"
  "writes_only S (routeKey (mu_OwnerTeam u) (mu_ModelName u)) s (snd (ApplyModelUndeployed S t u s))"
  "writes_only S (routeKey (mp_OwnerTeam p) (mp_ModelName p)) s (snd (ApplyModelPromoted S t p s))"
  "writes_only S (routeKey (ma_OwnerTeam a) (ma_ModelName a)) s (snd (ApplyModelArchived S a s))"
  unfolding UpsertRoute_def SetTrafficSplit_def DeleteRoute_def ApplyModelDeployed_def
    ApplyModelUndeployed_def ApplyModelPromoted_def ApplyModelArchived_def Let_def
  by (auto split: sum.split option.split prod.split)

definition weight_ok :: "RouteTarget \<Rightarrow> bool" where
  "weight_ok t \<longleftrightarrow> 0 \<le> rt_WeightBps t \<and> rt_WeightBps t \<le> TotalWeightBps"

lemma validateWeight_None: "validateWeight w = None \<longleftrightarrow> 0 \<le> w \<and> w \<le> TotalWeightBps"
  by (auto simp: validateWeight_def)

lemma validateActiveWeightSum_None: "validateActiveWeightSum r = None \<longleftrightarrow> ActiveWeightSum r = TotalWeightBps"
  by (auto simp: validateActiveWeightSum_def Let_def)

lemma endpointOf_in:
  "fold (\<lambda>t m. m(rt_Version t \<mapsto> rt_Endpoint t)) ts m v = Some e \<Longrightarrow>
   (\<exists>t \<in> set ts. rt_Version t = v \<and> rt_Endpoint t = e) \<or> m v = Some e"
  by (induction ts arbitrary: m) (fastforce split: if_splits)+

lemma resolveTargets_Inr:
  "resolveTargets ep st seen pts = Inr ts \<Longrightarrow>
     distinct (map rt_Version ts)
   \<and> (\<forall>t \<in> set ts. rt_Version t \<notin> seen \<and> weight_ok t \<and> rt_Status t = TargetStatusActive \<and> ep (rt_Version t) = Some (rt_Endpoint t))"
proof (induction pts arbitrary: seen ts)
  case (Cons pt pts)
  from Cons.prems obtain ts' where
    "resolveTargets ep st (insert (pt_Version pt) seen) pts = Inr ts'"
    and ts: "\<exists>b e. ts = \<lparr>rt_Version = pt_Version pt, rt_Endpoint = e, rt_WeightBps = pt_WeightBps pt,
                     rt_Status = TargetStatusActive, rt_IsStable = b\<rparr> # ts' \<and> ep (pt_Version pt) = Some e"
    and "pt_Version pt \<notin> seen" "validateWeight (pt_WeightBps pt) = None"
    by (auto split: if_splits option.splits sum.splits)
  note ih = Cons.IH [OF this(1)]
  have "pt_Version pt \<notin> rt_Version ` set ts'" using ih by auto
  with ih ts \<open>pt_Version pt \<notin> seen\<close> \<open>validateWeight (pt_WeightBps pt) = None\<close> show ?case
    by (auto simp: weight_ok_def validateWeight_None)
qed simp

lemma resolveTargets_Inl: "resolveTargets ep st seen pts = Inl err \<Longrightarrow> errors_Is err ErrRouteValidation"
  by (induction pts arbitrary: seen)
    (auto simp: validateWeight_def split: if_splits option.splits sum.splits)

lemma resolveTargets_endpoint: "resolveTargets ep st seen pts = Inr ts \<Longrightarrow> \<forall>t \<in> set ts. rt_Endpoint t \<noteq> ''''"
  by (induction pts arbitrary: seen ts) (auto split: if_splits option.splits sum.splits)

lemma find_target_idx_Some: "find_target_idx ts v = Some i \<Longrightarrow> i < length ts \<and> rt_Version (ts ! i) = v"
  by (induction ts arbitrary: i) (auto split: if_splits)

lemma find_target_idx_None: "find_target_idx ts v = None \<longleftrightarrow> v \<notin> rt_Version ` set ts"
  by (induction ts) auto

lemma applyWeights_Inr:
  "applyWeights seen ws ts = Inr ts' \<Longrightarrow> \<forall>t \<in> set ts. weight_ok t \<Longrightarrow>
     map rt_Version ts' = map rt_Version ts \<and> map rt_Endpoint ts' = map rt_Endpoint ts \<and> (\<forall>t \<in> set ts'. weight_ok t)"
proof (induction seen ws ts rule: applyWeights.induct)
  case (2 seen w ws ts)
  from "2.prems"(1) obtain i where v: "tw_Version w \<notin> seen" "validateWeight (tw_WeightBps w) = None"
    and i: "find_target_idx ts (tw_Version w) = Some i"
    by (auto split: if_splits option.splits)
  define t1 where "t1 = (let t = (ts ! i)\<lparr>rt_WeightBps := tw_WeightBps w\<rparr>
     in if rt_Status t = TargetStatusUnspecified then t\<lparr>rt_Status := TargetStatusActive\<rparr> else t)"
  have same: "rt_Version t1 = rt_Version (ts ! i)" "rt_Endpoint t1 = rt_Endpoint (ts ! i)" "weight_ok t1"
    using v by (simp_all add: t1_def Let_def weight_ok_def validateWeight_None)
  have rest: "applyWeights (insert (tw_Version w) seen) ws (ts[i := t1]) = Inr ts'"
    using "2.prems"(1) v i by (simp add: t1_def Let_def)
  have ok: "\<forall>t \<in> set (ts[i := t1]). weight_ok t"
    using "2.prems"(2) same(3) set_update_subset_insert [of ts i t1] by blast
  have "map rt_Version (ts[i := t1]) = map rt_Version ts" "map rt_Endpoint (ts[i := t1]) = map rt_Endpoint ts"
    using find_target_idx_Some [OF i] same by (simp_all add: map_update list_update_same_conv)
  with "2.IH" [OF v i refl refl, folded t1_def] rest ok show ?case by (simp add: t1_def Let_def)
qed simp

lemma promoteTarget_simps [simp]:
  "rt_Version (promoteTarget v t) = rt_Version t" "rt_Endpoint (promoteTarget v t) = rt_Endpoint t" "weight_ok (promoteTarget v t)" "promoteTarget v (promoteTarget v t) = promoteTarget v t"
  "Eligible (rt_Status (promoteTarget v t)) \<longleftrightarrow> rt_Version t = v"
  by (auto simp: promoteTarget_def Eligible_def weight_ok_def TotalWeightBps_def)

lemma find_target_idx_map:
  "(\<And>t. rt_Version (f t) = rt_Version t) \<Longrightarrow> find_target_idx (map f ts) v = find_target_idx ts v"
  by (induction ts) auto

lemma promoted_weight_sum:
  assumes "distinct (map rt_Version ts)" "find_target_idx ts v \<noteq> None"
  shows "sum_list (map rt_WeightBps (filter (\<lambda>t. Eligible (rt_Status t)) (map (promoteTarget v) ts))) = TotalWeightBps"
proof -
  have none: "filter (\<lambda>t. Eligible (rt_Status t)) (map (promoteTarget v) xs) = []" if "v \<notin> rt_Version ` set xs" for xs
    using that by (induction xs) auto
  from assms show ?thesis
  proof (induction ts)
    case (Cons t ts)
    then show ?case
    proof (cases "rt_Version t = v")
      case True
      with Cons.prems(1) have "v \<notin> rt_Version ` set ts" by auto
      moreover have "rt_WeightBps (promoteTarget v t) = TotalWeightBps" using True by (simp add: promoteTarget_def)
      ultimately show ?thesis using none True by simp
    next
      case False
      with Cons show ?thesis by (auto simp: comp_def)
    qed
  qed simp
qed

lemma deployTarget_None: "deployTarget ev ts = None \<longleftrightarrow> md_Version ev \<notin> rt_Version ` set ts"
  by (induction ts) auto

lemma deployTarget_idem: "deployTarget ev ts = Some ts' \<Longrightarrow> deployTarget ev ts' = Some ts'"
  by (induction ts arbitrary: ts') (auto split: if_splits)

lemma deployTarget_append:
  "md_Version ev \<notin> rt_Version ` set ts \<Longrightarrow>
   deployTarget ev (ts @ us) = map_option ((@) ts) (deployTarget ev us)"
proof (induction ts)
  case Nil
  have "(@) [] = (\<lambda>x :: RouteTarget list. x)" by (simp add: fun_eq_iff)
  then show ?case by (simp add: option.map_ident)
next
  case (Cons t ts)
  then show ?case by (cases "deployTarget ev us") auto
qed

lemma deployedTargets_idem [simp]: "deployedTargets ev (deployedTargets ev ts) = deployedTargets ev ts"
proof (cases "deployTarget ev ts")
  case None
  then have "md_Version ev \<notin> rt_Version ` set ts" by (simp add: deployTarget_None)
  from deployTarget_append [OF this] None show ?thesis by (simp add: deployedTargets_def)
next
  case (Some ts')
  with deployTarget_idem show ?thesis by (simp add: deployedTargets_def)
qed

text \<open>Two store states that serve the same routes, up to the time stamps.\<close>

definition same_routes :: "'s RouteStoreOps \<Rightarrow> 's \<Rightarrow> 's \<Rightarrow> bool" where
  "same_routes S s s' \<longleftrightarrow> (\<forall>k. case (rs_Get S k s, rs_Get S k s') of
       (Inr r, Inr r') \<Rightarrow> r\<lparr>r_UpdatedAt := 0\<rparr> = r'\<lparr>r_UpdatedAt := 0\<rparr>
     | (Inl e, Inl e') \<Rightarrow> e = e' | _ \<Rightarrow> False)"

lemma same_routes_refl: "same_routes S s s"
  by (auto simp: same_routes_def split: sum.split)

context route_store
begin

lemma isolated: "writes_only S key s s' \<Longrightarrow> k' \<noteq> key \<Longrightarrow> rs_Get S k' s' = rs_Get S k' s"
  by (auto simp: writes_only_def get_upsert get_delete)

text \<open>\<open>UpsertRoute\<close> changes nothing, or it stores one valid route with endpoints the store already had.\<close>

lemma UpsertRoute_atomic:
  assumes "UpsertRoute S t team m pts s = (r, s')"
  shows "(s' = s \<and> (\<exists>e. r = Inl e \<and> errors_Is e ErrRouteValidation))
    \<or> (\<exists>route. rs_Get S (routeKey team m) s' = Inr route \<and> r_OwnerTeam route = team \<and> r_ModelName route = m
        \<and> ActiveWeightSum route = TotalWeightBps \<and> distinct (map rt_Version (r_Targets route))
        \<and> (\<forall>x \<in> set (r_Targets route). weight_ok x \<and> rt_Endpoint x \<noteq> ''''
             \<and> (\<exists>old y. rs_Get S (routeKey team m) s = Inr old \<and> y \<in> set (r_Targets old)
                  \<and> rt_Version y = rt_Version x \<and> rt_Endpoint y = rt_Endpoint x))
        \<and> (r = Inr route \<or> (\<exists>e. r = Inl e)))"
proof -
  let ?k = "routeKey team m"
  define ex where "ex = (case rs_Get S ?k s of Inr r \<Rightarrow> r | Inl _ \<Rightarrow> zeroRoute)"
  define ep where "ep = fold (\<lambda>t m. m(rt_Version t \<mapsto> rt_Endpoint t)) (r_Targets ex) Map.empty"
  define st where "st = fold (\<lambda>t m. m(rt_Version t \<mapsto> rt_IsStable t)) (r_Targets ex) Map.empty"
  have old: "\<exists>old y. rs_Get S ?k s = Inr old \<and> y \<in> set (r_Targets old) \<and> rt_Version y = v \<and> rt_Endpoint y = e"
    if "ep v = Some e" for v e
    using endpointOf_in [of "r_Targets ex" Map.empty v e] that
    by (cases "rs_Get S ?k s") (auto simp: ep_def ex_def zeroRoute_def)
  show ?thesis
  proof (cases "m = '''' \<or> pts = []")
    case True
    with assms have "s' = s" "\<exists>e. r = Inl e \<and> errors_Is e ErrRouteValidation"
      by (auto simp: UpsertRoute_def split: if_splits)
    then show ?thesis by blast
  next
    case False
    show ?thesis
    proof (cases "resolveTargets ep st {} pts")
      case (Inl err)
      with assms False have "s' = s" "r = Inl err" by (auto simp: UpsertRoute_def Let_def ep_def st_def ex_def)
      with resolveTargets_Inl [OF Inl] show ?thesis by blast
    next
      case (Inr ts)
      let ?route = "\<lparr>r_OwnerTeam = team, r_ModelName = m, r_Targets = ts, r_UpdatedAt = t\<rparr>"
      show ?thesis
      proof (cases "validateActiveWeightSum ?route")
        case (Some err)
        with assms False Inr have "s' = s" "r = Inl err" by (auto simp: UpsertRoute_def Let_def ep_def st_def ex_def)
        moreover have "errors_Is err ErrRouteValidation" using Some by (auto simp: validateActiveWeightSum_def Let_def split: if_splits)
        ultimately show ?thesis by blast
      next
        case None
        with assms False Inr have s': "s' = snd (rs_Upsert S ?k ?route s)" and r: "r = Inr ?route \<or> (\<exists>e. r = Inl e)"
          by (auto simp: UpsertRoute_def Let_def ep_def st_def ex_def split: prod.splits option.splits)
        note res = resolveTargets_Inr [OF Inr]
        have "ActiveWeightSum ?route = TotalWeightBps" using None by (simp add: validateActiveWeightSum_None)
        moreover have "\<forall>x \<in> set ts. weight_ok x \<and> rt_Endpoint x \<noteq> '''' \<and> (\<exists>old y. rs_Get S ?k s = Inr old \<and> y \<in> set (r_Targets old)
                  \<and> rt_Version y = rt_Version x \<and> rt_Endpoint y = rt_Endpoint x)"
          using res old resolveTargets_endpoint [OF Inr] by blast
        ultimately show ?thesis using res r get_upsert_same [of ?k ?route s] unfolding s' by auto
      qed
    qed
  qed
qed

end

lemma applyWeights_Inl: "applyWeights seen ws ts = Inl err \<Longrightarrow> errors_Is err ErrRouteValidation"
  by (induction seen ws ts rule: applyWeights.induct)
    (auto simp: validateWeight_def Let_def split: if_splits option.splits)

context route_store
begin

lemma SetTrafficSplit_atomic:
  assumes "SetTrafficSplit S t team m ws s = (r, s')"
  shows "(s' = s \<and> (\<exists>e. r = Inl e \<and> (errors_Is e ErrRouteValidation \<or> e = ErrNoRoute)))
    \<or> (\<exists>old route. rs_Get S (routeKey team m) s = Inr old \<and> rs_Get S (routeKey team m) s' = Inr route
        \<and> r_OwnerTeam route = r_OwnerTeam old \<and> ActiveWeightSum route = TotalWeightBps
        \<and> ((\<forall>x \<in> set (r_Targets old). weight_ok x) \<longrightarrow>
             map rt_Version (r_Targets route) = map rt_Version (r_Targets old)
           \<and> map rt_Endpoint (r_Targets route) = map rt_Endpoint (r_Targets old)
           \<and> (\<forall>x \<in> set (r_Targets route). weight_ok x))
        \<and> (r = Inr route \<or> (\<exists>e. r = Inl e)))"
proof (cases "rs_Get S (routeKey team m) s")
  case (Inl e)
  with assms show ?thesis by (auto simp: SetTrafficSplit_def)
next
  case (Inr old)
  let ?k = "routeKey team m"
  show ?thesis
  proof (cases "ws = []")
    case True
    with assms Inr show ?thesis by (auto simp: SetTrafficSplit_def)
  next
    case False
    show ?thesis
    proof (cases "applyWeights {} ws (r_Targets old)")
      case (Inl err)
      with assms Inr False have "s' = s" "r = Inl err" by (auto simp: SetTrafficSplit_def)
      with applyWeights_Inl [OF Inl] show ?thesis by blast
    next
      case ts: (Inr ts)
      let ?route = "old\<lparr>r_Targets := ts, r_UpdatedAt := t\<rparr>"
      show ?thesis
      proof (cases "validateActiveWeightSum ?route")
        case (Some err)
        with assms Inr False ts have "s' = s" "r = Inl err" by (auto simp: SetTrafficSplit_def Let_def)
        moreover have "errors_Is err ErrRouteValidation" using Some by (auto simp: validateActiveWeightSum_def Let_def split: if_splits)
        ultimately show ?thesis by blast
      next
        case None
        with assms Inr False ts have s': "s' = snd (rs_Upsert S ?k ?route s)" and r: "r = Inr ?route \<or> (\<exists>e. r = Inl e)"
          by (auto simp: SetTrafficSplit_def Let_def split: prod.splits option.splits)
        have "rs_Get S ?k s' = Inr ?route" unfolding s' by (rule get_upsert_same)
        moreover have "ActiveWeightSum ?route = TotalWeightBps" using None by (simp add: validateActiveWeightSum_None)
        ultimately show ?thesis using r Inr applyWeights_Inr [OF ts]
          by (intro disjI2 exI [of _ old] exI [of _ ?route]) simp
      qed
    qed
  qed
qed

lemma same_routesI:
  assumes "writes_only S key s s'" "\<And>r. rs_Get S key s' = Inr r \<Longrightarrow> \<exists>r0. rs_Get S key s = Inr r0 \<and> r\<lparr>r_UpdatedAt := 0\<rparr> = r0\<lparr>r_UpdatedAt := 0\<rparr>"
    "\<And>e. rs_Get S key s' = Inl e \<Longrightarrow> rs_Get S key s = Inl e"
  shows "same_routes S s s'"
  unfolding same_routes_def
proof
  fix k
  show "case (rs_Get S k s, rs_Get S k s') of (Inr r, Inr r') \<Rightarrow> r\<lparr>r_UpdatedAt := 0\<rparr> = r'\<lparr>r_UpdatedAt := 0\<rparr>
     | (Inl e, Inl e') \<Rightarrow> e = e' | _ \<Rightarrow> False"
  proof (cases "k = key")
    case True
    with assms(2,3) show ?thesis by (cases "rs_Get S key s'") fastforce+
  next
    case False
    from isolated [OF assms(1) False] show ?thesis by (cases "rs_Get S k s") auto
  qed
qed

lemma Deployed_idempotent:
  "same_routes S (snd (ApplyModelDeployed S t ev s)) (snd (ApplyModelDeployed S t2 ev (snd (ApplyModelDeployed S t ev s))))"
proof (cases "md_ModelName ev = '''' \<or> md_Version ev = '''' \<or> md_Endpoint ev = '''' \<or> validateWeight (md_WeightBps ev) \<noteq> None")
  case True
  then show ?thesis by (auto simp: ApplyModelDeployed_def same_routes_refl split: option.split)
next
  case False
  let ?k = "routeKey (md_OwnerTeam ev) (md_ModelName ev)"
  define base where "base = (case rs_Get S ?k s of
       Inl _ \<Rightarrow> zeroRoute\<lparr>r_OwnerTeam := md_OwnerTeam ev, r_ModelName := md_ModelName ev\<rparr> | Inr r \<Rightarrow> r)"
  let ?s1 = "snd (ApplyModelDeployed S t ev s)"
  have s1: "?s1 = snd (rs_Upsert S ?k (base\<lparr>r_Targets := deployedTargets ev (r_Targets base), r_UpdatedAt := t\<rparr>) s)"
    using False by (cases "rs_Get S ?k s") (auto simp: ApplyModelDeployed_def Let_def base_def dest: get_err)
  have g1: "rs_Get S ?k ?s1 = Inr (base\<lparr>r_Targets := deployedTargets ev (r_Targets base), r_UpdatedAt := t\<rparr>)"
    unfolding s1 by (rule get_upsert_same)
  have s2: "snd (ApplyModelDeployed S t2 ev ?s1) =
      snd (rs_Upsert S ?k (base\<lparr>r_Targets := deployedTargets ev (r_Targets base), r_UpdatedAt := t2\<rparr>) ?s1)"
    using False g1 by (simp add: ApplyModelDeployed_def [of S t2] Let_def)
  show ?thesis
    by (rule same_routesI [of ?k]) (use g1 in \<open>auto simp: s2 get_upsert_same\<close>)
qed

lemma Undeployed_idempotent:
  "same_routes S (snd (ApplyModelUndeployed S t ev s)) (snd (ApplyModelUndeployed S t2 ev (snd (ApplyModelUndeployed S t ev s))))"
proof -
  let ?k = "routeKey (mu_OwnerTeam ev) (mu_ModelName ev)"
  let ?s1 = "snd (ApplyModelUndeployed S t ev s)"
  let ?s2 = "snd (ApplyModelUndeployed S t2 ev ?s1)"
  have w: "writes_only S ?k ?s1 ?s2" by (rule ops_write_own_key(5))
  show ?thesis
  proof (cases "rs_Get S ?k ?s1")
    case (Inl e)
    with get_err [OF Inl] have "?s2 = ?s1" by (simp add: ApplyModelUndeployed_def Let_def)
    then show ?thesis by (simp add: same_routes_refl)
  next
    case (Inr r1)
    have "filter (\<lambda>t. rt_Version t \<noteq> mu_Version ev) (r_Targets r1) = r_Targets r1 \<and> r_Targets r1 \<noteq> []"
    proof (cases "rs_Get S ?k s")
      case (Inl e)
      with get_err [OF Inl] Inr show ?thesis by (simp add: ApplyModelUndeployed_def Let_def)
    next
      case r: (Inr r)
      with Inr show ?thesis
        by (auto simp: ApplyModelUndeployed_def Let_def get_upsert_same get_delete split: if_splits)
    qed
    with Inr have "rs_Get S ?k ?s2 = Inr (r1\<lparr>r_UpdatedAt := t2\<rparr>)"
      by (simp add: ApplyModelUndeployed_def [of S t2] Let_def get_upsert_same)
    with Inr show ?thesis by (intro same_routesI [OF w]) auto
  qed
qed

lemma Promoted_idempotent:
  "same_routes S (snd (ApplyModelPromoted S t ev s)) (snd (ApplyModelPromoted S t2 ev (snd (ApplyModelPromoted S t ev s))))"
proof -
  let ?k = "routeKey (mp_OwnerTeam ev) (mp_ModelName ev)"
  let ?s1 = "snd (ApplyModelPromoted S t ev s)"
  let ?s2 = "snd (ApplyModelPromoted S t2 ev ?s1)"
  have w: "writes_only S ?k ?s1 ?s2" by (rule ops_write_own_key(6))
  show ?thesis
  proof (cases "\<exists>r. rs_Get S ?k s = Inr r \<and> findTarget r (mp_Version ev) \<noteq> None")
    case False
    then have "?s1 = s" by (auto simp: ApplyModelPromoted_def Let_def split: sum.split)
    moreover have "snd (ApplyModelPromoted S t2 ev s) = s" using False by (auto simp: ApplyModelPromoted_def Let_def split: sum.split)
    ultimately show ?thesis by (simp add: same_routes_refl)
  next
    case True
    then obtain r where r: "rs_Get S ?k s = Inr r" "findTarget r (mp_Version ev) \<noteq> None" by blast
    let ?r1 = "r\<lparr>r_Targets := map (promoteTarget (mp_Version ev)) (r_Targets r), r_UpdatedAt := t\<rparr>"
    have g1: "rs_Get S ?k ?s1 = Inr ?r1" using r by (auto simp: ApplyModelPromoted_def Let_def get_upsert_same)
    have "findTarget ?r1 (mp_Version ev) \<noteq> None" using r(2) by (simp add: findTarget_def find_target_idx_map)
    with g1 have "rs_Get S ?k ?s2 = Inr (?r1\<lparr>r_UpdatedAt := t2\<rparr>)"
      by (auto simp: ApplyModelPromoted_def [of S t2] Let_def get_upsert_same comp_def)
    with g1 show ?thesis by (intro same_routesI [OF w]) auto
  qed
qed

lemma Archived_idempotent:
  "same_routes S (snd (ApplyModelArchived S ev s)) (snd (ApplyModelArchived S ev (snd (ApplyModelArchived S ev s))))"
  by (rule same_routesI [OF ops_write_own_key(7)]) (auto simp: ApplyModelArchived_def get_delete)

end


section \<open>Sequences of control-plane operations\<close>

text \<open>
  The operations that change the routing table, each with the clock reading it takes. The first three
  are calls of the admin API (the team is the caller's), the other four are events of the other services.
\<close>

datatype control_op =
    OpUpsertRoute time string string "ProposedTarget list"
  | OpSetTrafficSplit time string string "TrafficWeight list"
  | OpDeleteRoute string string
  | OpDeployed time ModelDeployed
  | OpUndeployed time ModelUndeployed
  | OpPromoted time ModelPromoted
  | OpArchived ModelArchived

fun apply_op :: "'s RouteStoreOps \<Rightarrow> control_op \<Rightarrow> 's \<Rightarrow> 's" where
  "apply_op S (OpUpsertRoute t team m pts) s = snd (UpsertRoute S t team m pts s)"
| "apply_op S (OpSetTrafficSplit t team m ws) s = snd (SetTrafficSplit S t team m ws s)"
| "apply_op S (OpDeleteRoute team m) s = snd (DeleteRoute S team m s)"
| "apply_op S (OpDeployed t ev) s = snd (ApplyModelDeployed S t ev s)"
| "apply_op S (OpUndeployed t ev) s = snd (ApplyModelUndeployed S t ev s)"
| "apply_op S (OpPromoted t ev) s = snd (ApplyModelPromoted S t ev s)"
| "apply_op S (OpArchived ev) s = snd (ApplyModelArchived S ev s)"

fun op_team :: "control_op \<Rightarrow> string" where
  "op_team (OpUpsertRoute t team m pts) = team"
| "op_team (OpSetTrafficSplit t team m ws) = team"
| "op_team (OpDeleteRoute team m) = team"
| "op_team (OpDeployed t ev) = md_OwnerTeam ev"
| "op_team (OpUndeployed t ev) = mu_OwnerTeam ev"
| "op_team (OpPromoted t ev) = mp_OwnerTeam ev"
| "op_team (OpArchived ev) = ma_OwnerTeam ev"

fun op_model :: "control_op \<Rightarrow> string" where
  "op_model (OpUpsertRoute t team m pts) = m"
| "op_model (OpSetTrafficSplit t team m ws) = m"
| "op_model (OpDeleteRoute team m) = m"
| "op_model (OpDeployed t ev) = md_ModelName ev"
| "op_model (OpUndeployed t ev) = mu_ModelName ev"
| "op_model (OpPromoted t ev) = mp_ModelName ev"
| "op_model (OpArchived ev) = ma_ModelName ev"

text \<open>The same lifecycle event delivered again at time \<open>t\<close>; the admin calls are not redelivered.\<close>

fun redelivered :: "time \<Rightarrow> control_op \<Rightarrow> control_op option" where
  "redelivered t (OpDeployed u ev) = Some (OpDeployed t ev)"
| "redelivered t (OpUndeployed u ev) = Some (OpUndeployed t ev)"
| "redelivered t (OpPromoted u ev) = Some (OpPromoted t ev)"
| "redelivered t (OpArchived ev) = Some (OpArchived ev)"
| "redelivered t op = None"

lemma apply_op_writes_only: "writes_only S (routeKey (op_team op) (op_model op)) s (apply_op S op s)"
  by (cases op) (simp_all add: ops_write_own_key)

lemma routeKey_inj:
  "nul \<notin> set a \<Longrightarrow> nul \<notin> set b \<Longrightarrow> routeKey a m = routeKey b m' \<Longrightarrow> a = b \<and> m = m'"
  by (auto simp: routeKey_def append_eq_append_conv2 Cons_eq_append_conv append_eq_Cons_conv)

text \<open>
  What every stored route satisfies. \<open>P k v e\<close> says where an endpoint may come from: version \<open>v\<close> of
  the route under key \<open>k\<close> may be served at \<open>e\<close>.
\<close>

definition route_wf :: "(string \<Rightarrow> string \<Rightarrow> string \<Rightarrow> bool) \<Rightarrow> string \<Rightarrow> Route \<Rightarrow> bool" where
  "route_wf P k r \<longleftrightarrow> routeKey (r_OwnerTeam r) (r_ModelName r) = k \<and> r_Targets r \<noteq> []
     \<and> distinct (map rt_Version (r_Targets r))
     \<and> (\<forall>x \<in> set (r_Targets r). weight_ok x \<and> rt_Endpoint x \<noteq> '''' \<and> P k (rt_Version x) (rt_Endpoint x))"

definition store_inv :: "'s RouteStoreOps \<Rightarrow> (string \<Rightarrow> string \<Rightarrow> string \<Rightarrow> bool) \<Rightarrow> 's \<Rightarrow> bool" where
  "store_inv S P s \<longleftrightarrow> (\<forall>k r. rs_Get S k s = Inr r \<longrightarrow> route_wf P k r)"

definition announced :: "control_op list \<Rightarrow> string \<Rightarrow> string \<Rightarrow> string \<Rightarrow> bool" where
  "announced ops k v e \<longleftrightarrow> (\<exists>t ev. OpDeployed t ev \<in> set ops \<and> routeKey (md_OwnerTeam ev) (md_ModelName ev) = k
     \<and> md_Version ev = v \<and> md_Endpoint ev = e)"

lemma announced_mono: "announced ops k v e \<Longrightarrow> announced (ops @ [op]) k v e"
  by (auto simp: announced_def)

lemma store_inv_mono: "store_inv S P s \<Longrightarrow> (\<And>k v e. P k v e \<Longrightarrow> Q k v e) \<Longrightarrow> store_inv S Q s"
  by (auto simp: store_inv_def route_wf_def)

lemma map_pair_eqI: "map f xs = map f ys \<Longrightarrow> map g xs = map g ys \<Longrightarrow> map (\<lambda>x. (f x, g x)) xs = map (\<lambda>x. (f x, g x)) ys"
  using map_eq_imp_length_eq [of f xs f ys] by (induction xs ys rule: list_induct2') simp_all

lemma sum_targets_nonempty: "ActiveWeightSum r = TotalWeightBps \<Longrightarrow> r_Targets r \<noteq> []"
  by (auto simp: ActiveWeightSum_def TotalWeightBps_def)

lemma deployTarget_wf:
  "deployTarget ev ts = Some ts' \<Longrightarrow> map rt_Version ts' = map rt_Version ts
   \<and> (\<forall>x \<in> set ts'. x \<in> set ts \<or> (rt_Version x = md_Version ev \<and> rt_Endpoint x = md_Endpoint ev \<and> rt_WeightBps x = md_WeightBps ev))"
  by (induction ts arbitrary: ts') (auto split: if_splits)

lemma deployedTargets_wf:
  assumes "distinct (map rt_Version ts)"
  shows "deployedTargets ev ts \<noteq> []" "distinct (map rt_Version (deployedTargets ev ts))"
    "\<forall>x \<in> set (deployedTargets ev ts). x \<in> set ts
       \<or> (rt_Version x = md_Version ev \<and> rt_Endpoint x = md_Endpoint ev \<and> rt_WeightBps x = md_WeightBps ev)"
proof -
  have "deployedTargets ev ts \<noteq> [] \<and> distinct (map rt_Version (deployedTargets ev ts))
    \<and> (\<forall>x \<in> set (deployedTargets ev ts). x \<in> set ts
       \<or> (rt_Version x = md_Version ev \<and> rt_Endpoint x = md_Endpoint ev \<and> rt_WeightBps x = md_WeightBps ev))"
  proof (cases "deployTarget ev ts")
    case None
    with assms show ?thesis using deployTarget_None [of ev ts] by (auto simp: deployedTargets_def)
  next
    case (Some ts')
    moreover from Some have "ts' \<noteq> []" by (cases ts) (auto split: if_splits)
    ultimately show ?thesis using assms deployTarget_wf [OF Some] by (simp add: deployedTargets_def)
  qed
  then show "deployedTargets ev ts \<noteq> []" "distinct (map rt_Version (deployedTargets ev ts))"
    "\<forall>x \<in> set (deployedTargets ev ts). x \<in> set ts
       \<or> (rt_Version x = md_Version ev \<and> rt_Endpoint x = md_Endpoint ev \<and> rt_WeightBps x = md_WeightBps ev)" by auto
qed


context route_store
begin

lemma inv_write:
  assumes "store_inv S P s" "writes_only S k s s'"
    and "\<And>r. rs_Get S k s' = Inr r \<Longrightarrow> route_wf P k r"
  shows "store_inv S P s'"
  using assms isolated [OF assms(2)] by (metis store_inv_def)

lemma inv_UpsertRoute:
  assumes "store_inv S P s"
  shows "store_inv S P (snd (UpsertRoute S t team m pts s))"
proof -
  obtain r s' where u: "UpsertRoute S t team m pts s = (r, s')" by fastforce
  show ?thesis
  proof (cases "s' = s")
    case False
    from UpsertRoute_atomic [OF u] False obtain route where
      route: "rs_Get S (routeKey team m) s' = Inr route" "r_OwnerTeam route = team" "r_ModelName route = m"
      "ActiveWeightSum route = TotalWeightBps" "distinct (map rt_Version (r_Targets route))"
      and targets: "\<forall>x \<in> set (r_Targets route). weight_ok x \<and> rt_Endpoint x \<noteq> ''''
             \<and> (\<exists>old y. rs_Get S (routeKey team m) s = Inr old \<and> y \<in> set (r_Targets old)
                  \<and> rt_Version y = rt_Version x \<and> rt_Endpoint y = rt_Endpoint x)" by blast
    have "P (routeKey team m) (rt_Version x) (rt_Endpoint x)" if "x \<in> set (r_Targets route)" for x
      using targets that assms unfolding store_inv_def route_wf_def by metis
    with route targets have "route_wf P (routeKey team m) route"
      by (simp add: route_wf_def sum_targets_nonempty)
    with route(1) inv_write [OF assms ops_write_own_key(1) [of S team m s t pts]] u show ?thesis by simp
  qed (use assms u in simp)
qed

lemma inv_SetTrafficSplit:
  assumes "store_inv S P s"
  shows "store_inv S P (snd (SetTrafficSplit S t team m ws s))"
proof -
  let ?k = "routeKey team m"
  obtain r s' where u: "SetTrafficSplit S t team m ws s = (r, s')" by fastforce
  show ?thesis
  proof (cases "s' = s")
    case False
    have "route_wf P ?k route'" if "rs_Get S ?k s' = Inr route'" for route'
    proof -
      from False u obtain old ts where old: "rs_Get S ?k s = Inr old" "applyWeights {} ws (r_Targets old) = Inr ts"
        and s': "s' = snd (rs_Upsert S ?k (old\<lparr>r_Targets := ts, r_UpdatedAt := t\<rparr>) s)"
        by (auto simp: SetTrafficSplit_def Let_def split: sum.splits if_splits option.splits prod.splits)
      have wf: "route_wf P ?k old" using assms old(1) by (simp add: store_inv_def)
      then have "\<forall>x \<in> set (r_Targets old). weight_ok x" by (simp add: route_wf_def)
      note a = applyWeights_Inr [OF old(2) this]
      have zip: "map (\<lambda>x. (rt_Version x, rt_Endpoint x)) ts = map (\<lambda>x. (rt_Version x, rt_Endpoint x)) (r_Targets old)"
        using a by (intro map_pair_eqI) auto
      then have img: "(\<lambda>x. (rt_Version x, rt_Endpoint x)) ` set ts = (\<lambda>x. (rt_Version x, rt_Endpoint x)) ` set (r_Targets old)"
        by (metis set_map)
      have "\<forall>x \<in> set ts. rt_Endpoint x \<noteq> '''' \<and> P ?k (rt_Version x) (rt_Endpoint x)"
      proof (intro ballI)
        fix x assume "x \<in> set ts"
        then have "(rt_Version x, rt_Endpoint x) \<in> (\<lambda>x. (rt_Version x, rt_Endpoint x)) ` set ts" by (rule imageI)
        with img obtain y where "y \<in> set (r_Targets old)" "rt_Version y = rt_Version x" "rt_Endpoint y = rt_Endpoint x"
          unfolding img by auto
        with wf show "rt_Endpoint x \<noteq> '''' \<and> P ?k (rt_Version x) (rt_Endpoint x)" unfolding route_wf_def by metis
      qed
      moreover have "ts \<noteq> []" using a wf by (auto simp: route_wf_def)
      moreover have "route' = old\<lparr>r_Targets := ts, r_UpdatedAt := t\<rparr>" using that s' get_upsert_same by simp
      ultimately show ?thesis using a wf by (simp add: route_wf_def)
    qed
    with inv_write [OF assms ops_write_own_key(2) [of S team m s t ws]] u show ?thesis by simp
  qed (use assms u in simp)
qed

lemma inv_Deployed:
  assumes inv: "store_inv S P s" and P: "P (routeKey (md_OwnerTeam ev) (md_ModelName ev)) (md_Version ev) (md_Endpoint ev)"
  shows "store_inv S P (snd (ApplyModelDeployed S t ev s))"
proof (cases "md_ModelName ev = '''' \<or> md_Version ev = '''' \<or> md_Endpoint ev = '''' \<or> validateWeight (md_WeightBps ev) \<noteq> None")
  case True
  then show ?thesis using inv by (auto simp: ApplyModelDeployed_def split: option.split)
next
  case False
  let ?k = "routeKey (md_OwnerTeam ev) (md_ModelName ev)"
  define base where "base = (case rs_Get S ?k s of
       Inl _ \<Rightarrow> zeroRoute\<lparr>r_OwnerTeam := md_OwnerTeam ev, r_ModelName := md_ModelName ev\<rparr> | Inr r \<Rightarrow> r)"
  let ?r = "base\<lparr>r_Targets := deployedTargets ev (r_Targets base), r_UpdatedAt := t\<rparr>"
  have s': "snd (ApplyModelDeployed S t ev s) = snd (rs_Upsert S ?k ?r s)"
    using False by (cases "rs_Get S ?k s") (auto simp: ApplyModelDeployed_def Let_def base_def dest: get_err)
  have base: "routeKey (r_OwnerTeam base) (r_ModelName base) = ?k" "distinct (map rt_Version (r_Targets base))"
      "\<forall>x \<in> set (r_Targets base). weight_ok x \<and> rt_Endpoint x \<noteq> '''' \<and> P ?k (rt_Version x) (rt_Endpoint x)"
    using inv by (auto simp: base_def zeroRoute_def store_inv_def route_wf_def split: sum.split)
  have new: "weight_ok x \<and> rt_Endpoint x \<noteq> '''' \<and> P ?k (rt_Version x) (rt_Endpoint x)"
    if "rt_Version x = md_Version ev \<and> rt_Endpoint x = md_Endpoint ev \<and> rt_WeightBps x = md_WeightBps ev" for x
    using that False P by (auto simp: weight_ok_def validateWeight_None)
  have "\<forall>x \<in> set (deployedTargets ev (r_Targets base)). weight_ok x \<and> rt_Endpoint x \<noteq> '''' \<and> P ?k (rt_Version x) (rt_Endpoint x)"
    using deployedTargets_wf(3) [OF base(2), of ev] base(3) new by blast
  with base deployedTargets_wf [OF base(2), of ev] have "route_wf P ?k ?r" by (simp add: route_wf_def)
  then show ?thesis unfolding s' by (intro inv_write [OF inv writes_only_simps(2)]) (auto simp: get_upsert_same)
qed

lemma inv_Undeployed:
  assumes inv: "store_inv S P s"
  shows "store_inv S P (snd (ApplyModelUndeployed S t ev s))"
proof (rule inv_write [OF inv ops_write_own_key(5)])
  fix r' assume r': "rs_Get S (routeKey (mu_OwnerTeam ev) (mu_ModelName ev)) (snd (ApplyModelUndeployed S t ev s)) = Inr r'"
  show "route_wf P (routeKey (mu_OwnerTeam ev) (mu_ModelName ev)) r'"
  proof (cases "rs_Get S (routeKey (mu_OwnerTeam ev) (mu_ModelName ev)) s")
    case (Inl e)
    with r' get_err [OF Inl] show ?thesis by (simp add: ApplyModelUndeployed_def Let_def)
  next
    case (Inr r)
    with inv have "route_wf P (routeKey (mu_OwnerTeam ev) (mu_ModelName ev)) r" by (simp add: store_inv_def)
    with r' Inr show ?thesis
      by (auto simp: ApplyModelUndeployed_def Let_def get_upsert get_delete route_wf_def
          intro: distinct_map_filter split: if_splits)
  qed
qed

lemma inv_Promoted:
  assumes inv: "store_inv S P s"
  shows "store_inv S P (snd (ApplyModelPromoted S t ev s))"
proof (rule inv_write [OF inv ops_write_own_key(6)])
  let ?k = "routeKey (mp_OwnerTeam ev) (mp_ModelName ev)"
  fix r' assume r': "rs_Get S ?k (snd (ApplyModelPromoted S t ev s)) = Inr r'"
  show "route_wf P ?k r'"
  proof (cases "rs_Get S ?k s")
    case (Inl e)
    with r' show ?thesis by (simp add: ApplyModelPromoted_def Let_def)
  next
    case (Inr r)
    with inv have "route_wf P ?k r" by (simp add: store_inv_def)
    with r' Inr show ?thesis
      by (auto simp: ApplyModelPromoted_def Let_def get_upsert route_wf_def comp_def split: if_splits)
  qed
qed

lemma inv_deletes:
  assumes "store_inv S P s"
  shows "store_inv S P (snd (DeleteRoute S team m s))" "store_inv S P (snd (ApplyModelArchived S a s))"
  using assms by (auto simp: store_inv_def DeleteRoute_def ApplyModelArchived_def get_delete)

lemma inv_apply_op:
  assumes "store_inv S P s"
    and "\<And>t ev. op = OpDeployed t ev \<Longrightarrow> P (routeKey (md_OwnerTeam ev) (md_ModelName ev)) (md_Version ev) (md_Endpoint ev)"
  shows "store_inv S P (apply_op S op s)"
  using assms by (cases op) (simp_all add: inv_UpsertRoute inv_SetTrafficSplit inv_Deployed inv_Undeployed inv_Promoted inv_deletes)

lemma inv_ops:
  "store_inv S (announced []) s \<Longrightarrow> store_inv S (announced ops) (fold (apply_op S) ops s)"
proof (induction ops rule: rev_induct)
  case (snoc op ops)
  have "store_inv S (announced (ops @ [op])) (fold (apply_op S) ops s)"
    by (rule store_inv_mono [OF snoc.IH [OF snoc.prems] announced_mono])
  moreover have "announced (ops @ [op]) (routeKey (md_OwnerTeam ev) (md_ModelName ev)) (md_Version ev) (md_Endpoint ev)"
    if "op = OpDeployed t ev" for t ev using that by (auto simp: announced_def)
  ultimately have "store_inv S (announced (ops @ [op])) (apply_op S op (fold (apply_op S) ops s))" by (rule inv_apply_op)
  then show ?case by simp
qed simp

lemma apply_op_isolated:
  assumes "nul \<notin> set (op_team op)" "nul \<notin> set team" "op_team op \<noteq> team"
  shows "GetRoute S team m (apply_op S op s) = GetRoute S team m s"
  unfolding GetRoute_def using assms routeKey_inj by (intro isolated [OF apply_op_writes_only]) blast

lemma redelivered_idempotent:
  "redelivered t2 op = Some op' \<Longrightarrow> same_routes S (apply_op S op s) (apply_op S op' (apply_op S op s))"
  by (cases op) (auto simp: Deployed_idempotent Undeployed_idempotent Promoted_idempotent Archived_idempotent)

end

end
