(* ===== verification/GatewayTable.thy ===== *)
theory GatewayTable
  imports GatewayRoutes
begin

text \<open>
  The properties of the gateway's routing table. They are stated on the route store adapter
  (\<open>RouteStore_ops M\<close>) and rest on the interpretation \<open>adapter\<close> of the locale \<open>route_store\<close>; \<open>M\<close> is the
  Redis client, which may fail at any call. Paging and the reload from the mirror concern the adapter alone.
\<close>

section \<open>Paging\<close>

text \<open>A client that follows the page tokens of \<^verbatim>\<open>ListRoutes\<close>, for at most \<open>n\<close> pages.\<close>

fun walk_routes :: "'s RouteStoreOps \<Rightarrow> nat \<Rightarrow> string \<Rightarrow> int \<Rightarrow> string \<Rightarrow> 's \<Rightarrow> Route list" where
  "walk_routes S 0 team psize token s = []"
| "walk_routes S (Suc n) team psize token s =
     (case ListRoutes S team \<lparr>PageSize = psize, PageToken = token\<rparr> s of
        Inl _ \<Rightarrow> []
      | Inr (page, token') \<Rightarrow> page @ (if token' = '''' then [] else walk_routes S n team psize token' s))"

definition table_ok :: "'w RouteStore \<Rightarrow> bool" where
  "table_ok s \<longleftrightarrow> distinct (map fst (st_table s)) \<and> '''' \<notin> fst ` set (st_table s)"

lemma table_ok_empty: "table_ok (NewRouteStore w)"
  by (simp add: table_ok_def NewRouteStore_def)


lemma table_ok_update:
  "table_ok s \<Longrightarrow> k \<noteq> '''' \<Longrightarrow> table_ok (snd (store_Upsert M k r s))"
  "table_ok s \<Longrightarrow> table_ok (snd (store_Delete M k s))"
proof -
  assume ok: "table_ok s"
  have "table_ok (s\<lparr>st_table := AList.update k r (st_table s), st_rdb := w\<rparr>)" if "k \<noteq> ''''" for w
    using ok that by (auto simp: table_ok_def distinct_update dom_update)
  then show "k \<noteq> '''' \<Longrightarrow> table_ok (snd (store_Upsert M k r s))"
    by (simp add: store_Upsert_def Let_def split: prod.split)
  have "table_ok (s\<lparr>st_table := AList.delete k (st_table s), st_rdb := w\<rparr>)" for w
    using ok dom_delete_subset [of k "st_table s"] unfolding table_ok_def by (auto intro: distinct_delete)
  then show "table_ok (snd (store_Delete M k s))"
    by (simp add: store_Delete_def Let_def split: prod.split)
qed

lemma table_ok_write:
  assumes "table_ok s" "writes_only (RouteStore_ops M) (routeKey team m) s s'"
  shows "table_ok s'"
proof -
  have "routeKey team m \<noteq> ''''" by (simp add: routeKey_def)
  with assms show ?thesis
    unfolding writes_only_def RouteStore_ops_def using table_ok_update by auto
qed

lemma table_ok_ops: "table_ok s \<Longrightarrow> table_ok (fold (apply_op (RouteStore_ops M)) ops s)"
proof (induction ops arbitrary: s)
  case (Cons op ops)
  from Cons.IH [OF table_ok_write [OF Cons.prems apply_op_writes_only]] show ?case by simp
qed simp

lemma sorted_distinct_takeWhile:
  assumes "sorted xs" "distinct xs" "i < length xs"
  shows "takeWhile (\<lambda>x. x \<le> xs ! i) xs = take (Suc i) xs"
proof (rule takeWhile_eq_take_P_nth)
  fix j assume "j < Suc i" "j < length xs"
  with assms show "xs ! j \<le> xs ! i" by (simp add: sorted_nth_mono)
next
  assume n: "Suc i < length xs"
  with assms have "xs ! i \<le> xs ! Suc i" "xs ! i \<noteq> xs ! Suc i" by (simp_all add: sorted_nth_mono nth_eq_iff_index_eq)
  then show "\<not> xs ! Suc i \<le> xs ! i" by simp
qed

lemma map_filter_total: "\<forall>x \<in> set xs. f x \<noteq> None \<Longrightarrow> List.map_filter f xs = map (\<lambda>x. the (f x)) xs"
  by (induction xs) (auto simp: List.map_filter_simps)

definition keys_of :: "'w RouteStore \<Rightarrow> string list" where
  "keys_of s = sort (map fst (st_table s))"

definition route_at :: "'w RouteStore \<Rightarrow> string \<Rightarrow> Route" where
  "route_at s k = the (map_of (st_table s) k)"

lemma keys_of_props:
  assumes "table_ok s"
  shows "sorted (keys_of s)" "distinct (keys_of s)" "'''' \<notin> set (keys_of s)"
    "set (keys_of s) = dom (map_of (st_table s))" "length (keys_of s) = length (st_table s)"
  using assms by (auto simp: table_ok_def keys_of_def dom_map_of_conv_image_fst)

definition token_at :: "'w RouteStore \<Rightarrow> nat \<Rightarrow> string" where
  "token_at s k = (if k = 0 \<or> length (keys_of s) < k then '''' else keys_of s ! (k - 1))"

definition page_len :: "int \<Rightarrow> nat" where
  "page_len psize = (if psize \<le> 0 then 50 else nat psize)"

lemma store_List_page:
  assumes ok: "table_ok s" and k: "k = 0 \<or> k < length (keys_of s)"
  shows "store_List \<lparr>PageSize = psize, PageToken = token_at s k\<rparr> s
    = Inr (map (route_at s) (take (page_len psize) (drop k (keys_of s))),
           if k + page_len psize < length (keys_of s) then token_at s (k + page_len psize) else '''')"
proof -
  let ?ks = "keys_of s"
  note props = keys_of_props [OF ok]
  have start: "(if token_at s k \<noteq> '''' then length (takeWhile (\<lambda>n. n \<le> token_at s k) ?ks) else 0) = k"
  proof (cases "k = 0")
    case False
    with k have "k - 1 < length ?ks" by simp
    moreover from this props(3) have "?ks ! (k - 1) \<noteq> ''''" by (metis nth_mem)
    ultimately show ?thesis
      using False k sorted_distinct_takeWhile [OF props(1,2), of "k - 1"] by (simp add: token_at_def)
  qed (simp add: token_at_def)
  define stop where "stop = (if int k + int (page_len psize) > int (length ?ks) then length ?ks else k + page_len psize)"
  have ps: "(if psize \<le> 0 then 50 else psize) = int (page_len psize)" by (simp add: page_len_def)
  have "take (stop - k) (drop k ?ks) = take (page_len psize) (drop k ?ks)"
    by (auto simp: stop_def)
  moreover have "List.map_filter (map_of (st_table s)) (take (page_len psize) (drop k ?ks))
      = map (route_at s) (take (page_len psize) (drop k ?ks))"
    unfolding route_at_def using props(4) by (intro map_filter_total) (auto dest!: in_set_takeD in_set_dropD)
  moreover have "stop < length ?ks \<longleftrightarrow> k + page_len psize < length ?ks" by (auto simp: stop_def)
  moreover have "?ks ! (stop - 1) = token_at s (k + page_len psize)" if "k + page_len psize < length ?ks"
    using that by (auto simp: stop_def token_at_def page_len_def)
  moreover have st: "(if int (length ?ks) < int k + int (page_len psize) then length ?ks else nat (int k + int (page_len psize))) = stop"
    by (simp add: stop_def nat_add_distrib)
  ultimately show ?thesis
    unfolding store_List_def Let_def ListOptions.select_convs keys_of_def [symmetric] start ps st by simp
qed

lemma walk_routes_from:
  assumes ok: "table_ok s"
  shows "k = 0 \<or> k < length (keys_of s) \<Longrightarrow> length (keys_of s) < n + k \<Longrightarrow>
    walk_routes (RouteStore_ops M) n team psize (token_at s k) s
      = filter (\<lambda>r. r_OwnerTeam r = team) (map (route_at s) (drop k (keys_of s)))"
proof (induction n arbitrary: k)
  case (Suc n)
  let ?ks = "keys_of s" and ?l = "page_len psize"
  let ?f = "\<lambda>ks. filter (\<lambda>r. r_OwnerTeam r = team) (map (route_at s) ks)"
  have page: "ListRoutes (RouteStore_ops M) team \<lparr>PageSize = psize, PageToken = token_at s k\<rparr> s
      = Inr (?f (take ?l (drop k ?ks)), if k + ?l < length ?ks then token_at s (k + ?l) else '''')"
    using store_List_page [OF ok Suc.prems(1)] by (simp add: ListRoutes_def RouteStore_ops_def)
  show ?case
  proof (cases "k + ?l < length ?ks")
    case True
    have "0 < ?l" by (simp add: page_len_def)
    with True Suc.prems have "length ?ks < n + (k + ?l)" by simp
    note ih = Suc.IH [OF disjI2 [OF True] this]
    have "?ks ! (k + ?l - 1) \<in> set ?ks" using True by (intro nth_mem) simp
    then have "token_at s (k + ?l) \<in> set ?ks" using True \<open>0 < ?l\<close> by (simp add: token_at_def)
    then have "token_at s (k + ?l) \<noteq> ''''" using keys_of_props(3) [OF ok] by metis
    moreover have "?f (take ?l (drop k ?ks)) @ ?f (drop (k + ?l) ?ks) = ?f (drop k ?ks)"
      unfolding filter_append [symmetric] map_append [symmetric] add.commute [of k] drop_drop [symmetric]
        append_take_drop_id ..
    ultimately show ?thesis using True ih page by simp
  qed (use page in simp)
qed simp

section \<open>Reload from the mirror\<close>









section \<open>Properties\<close>

definition demo_redis :: "(string \<times> json_blob) list RedisClient" where
  "demo_redis = \<lparr>rdb_HSet = (\<lambda>h k b w. (None, AList.update k b w)), rdb_HDel = (\<lambda>h k w. (None, AList.delete k w)),
     rdb_HGetAll = (\<lambda>h w. (Inr (AList.clearjunk w), w))\<rparr>"

definition demo_deploy :: "string \<Rightarrow> int \<Rightarrow> control_op" where
  "demo_deploy v w = OpDeployed 5 \<lparr>md_OwnerTeam = ''risk'', md_ModelName = ''fraud'', md_Version = v,
     md_Endpoint = ''http://'' @ v, md_WeightBps = w\<rparr>"

definition demo_table :: "(string \<times> json_blob) list RouteStore" where
  "demo_table = fold (apply_op (RouteStore_ops demo_redis)) [demo_deploy ''v1'' 9000, demo_deploy ''v2'' 1000] (NewRouteStore [])"

definition demo_target :: "string \<Rightarrow> int \<Rightarrow> bool \<Rightarrow> RouteTarget" where
  "demo_target v w stab = \<lparr>rt_Version = v, rt_Endpoint = ''http://'' @ v, rt_WeightBps = w,
     rt_Status = TargetStatusActive, rt_IsStable = stab\<rparr>"


lemma demo_table_route:
  "store_Get (routeKey ''risk'' ''fraud'') demo_table
     = Inr \<lparr>r_OwnerTeam = ''risk'', r_ModelName = ''fraud'',
            r_Targets = [demo_target ''v1'' 9000 True, demo_target ''v2'' 1000 False], r_UpdatedAt = 5\<rparr>"
  by code_simp

lemma demo_table_len: "map fst (st_table demo_table) = [routeKey ''risk'' ''fraud'']" "length (st_table demo_table) = 1"
  by code_simp+

lemma demo_table_owner: "r_OwnerTeam (the (map_of (st_table demo_table) (routeKey ''risk'' ''fraud''))) = ''risk''"
  by code_simp

lemma eligibleWeightSum_filter:
  "eligibleWeightSum ts = sum_list (map rt_WeightBps (filter (\<lambda>t. Eligible (rt_Status t)) ts))"
  by (induction ts) auto

text \<open>C33: The weighted splitter is exact. When the eligible weights sum to a positive total, every draw
  below the total selects an eligible target with a positive weight, and the number of draws that
  select a given target is exactly its weight (none for a target that is not eligible). When the sum
  is not positive, \<open>Pick\<close> reports \<open>ErrNoRoute\<close>.
\<close>

theorem splitter_draws_match_weights:
  assumes "distinct targets" "\<forall>t \<in> set targets. 0 \<le> rt_WeightBps t"
  shows "(eligibleWeightSum targets \<le> 0 \<longrightarrow> Pick rand targets = Inl ErrNoRoute)
    \<and> (\<forall>d. 0 \<le> d \<and> d < eligibleWeightSum targets \<longrightarrow>
         (\<exists>t \<in> set targets. Eligible (rt_Status t) \<and> 0 < rt_WeightBps t \<and> Pick (\<lambda>_. d) targets = Inr t))
    \<and> (0 < eligibleWeightSum targets \<longrightarrow> (\<forall>t \<in> set targets.
         card {d \<in> {0 ..< eligibleWeightSum targets}. Pick (\<lambda>_. d) targets = Inr t}
           = (if Eligible (rt_Status t) then nat (rt_WeightBps t) else 0)))"
proof (intro conjI impI allI ballI)
  show "eligibleWeightSum targets \<le> 0 \<Longrightarrow> Pick rand targets = Inl ErrNoRoute" by (simp add: Pick_def)
next
  fix d assume "0 \<le> d \<and> d < eligibleWeightSum targets"
  then show "\<exists>t \<in> set targets. Eligible (rt_Status t) \<and> 0 < rt_WeightBps t \<and> Pick (\<lambda>_. d) targets = Inr t"
    using selectByDraw_below [OF assms(2), of 0 d] by (simp add: Pick_def)
next
  fix t assume "0 < eligibleWeightSum targets" "t \<in> set targets"
  then show "card {d \<in> {0 ..< eligibleWeightSum targets}. Pick (\<lambda>_. d) targets = Inr t}
        = (if Eligible (rt_Status t) then nat (rt_WeightBps t) else 0)"
    using band_card [OF assms, of t 0] by (simp add: Pick_def)
qed

theorem splitter_draws_match_weights_witness:
  "card {d \<in> {0 ..< 10000 :: int}. Pick (\<lambda>_. d) [demo_target ''v1'' 9000 True, demo_target ''v2'' 1000 False]
     = Inr (demo_target ''v2'' 1000 False)} = 1000"
  using splitter_draws_match_weights
    [of "[demo_target ''v1'' 9000 True, demo_target ''v2'' 1000 False]" "\<lambda>_. 0"]
  by (simp add: demo_target_def Eligible_def)

text \<open>C12: Endpoints come from deploy events only. After any sequence of admin calls and lifecycle events on
  an empty table, whatever the mirror does, a stored route sits under the key of its own team and
  model, has at least one target, no version twice, weights between 0 and 10000, and every
  endpoint it can be dialled at was announced by a deploy event for that key and version.\<close>

theorem stored_routes_wellformed:
  assumes "store_Get k (fold (apply_op (RouteStore_ops M)) ops (NewRouteStore w)) = Inr r"
  shows "routeKey (r_OwnerTeam r) (r_ModelName r) = k \<and> r_Targets r \<noteq> []
     \<and> distinct (map rt_Version (r_Targets r))
     \<and> (\<forall>x \<in> set (r_Targets r). 0 \<le> rt_WeightBps x \<and> rt_WeightBps x \<le> TotalWeightBps \<and> rt_Endpoint x \<noteq> ''''
          \<and> (\<exists>t ev. OpDeployed t ev \<in> set ops \<and> routeKey (md_OwnerTeam ev) (md_ModelName ev) = k
               \<and> md_Version ev = rt_Version x \<and> md_Endpoint ev = rt_Endpoint x))"
proof -
  have "store_inv (RouteStore_ops M) (announced []) (NewRouteStore w)"
    by (simp add: store_inv_def RouteStore_ops_def store_Get_def NewRouteStore_def)
  from adapter.inv_ops [OF this, of ops] assms have "route_wf (announced ops) k r"
    by (simp add: store_inv_def RouteStore_ops_def)
  then show ?thesis by (simp add: route_wf_def weight_ok_def announced_def)
qed

theorem stored_routes_wellformed_witness:
  "\<exists>r. store_Get (routeKey ''risk'' ''fraud'') demo_table = Inr r \<and> distinct (map rt_Version (r_Targets r))"
  using stored_routes_wellformed [OF demo_table_route [unfolded demo_table_def]] demo_table_route by blast

text \<open>Editing a route is all or nothing. \<open>UpsertRoute\<close> either changes nothing and reports a
  validation error, or stores one route of the caller's team and model whose active weights sum to
  exactly 10000, whose versions are distinct, and whose endpoints are ones the stored route already
  had for the same versions, so a caller cannot inject an endpoint.
\<close>

theorem UpsertRoute_all_or_nothing:
  assumes "UpsertRoute (RouteStore_ops M) t team m pts s = (r, s')"
  shows "(s' = s \<and> (\<exists>e. r = Inl e \<and> errors_Is e ErrRouteValidation))
    \<or> (\<exists>route. store_Get (routeKey team m) s' = Inr route \<and> r_OwnerTeam route = team \<and> r_ModelName route = m
        \<and> ActiveWeightSum route = TotalWeightBps \<and> distinct (map rt_Version (r_Targets route))
        \<and> (\<forall>x \<in> set (r_Targets route). weight_ok x \<and> rt_Endpoint x \<noteq> ''''
             \<and> (\<exists>old y. store_Get (routeKey team m) s = Inr old \<and> y \<in> set (r_Targets old)
                  \<and> rt_Version y = rt_Version x \<and> rt_Endpoint y = rt_Endpoint x))
        \<and> (r = Inr route \<or> (\<exists>e. r = Inl e)))"
  using adapter.UpsertRoute_atomic [OF assms] by (simp add: RouteStore_ops_def)

theorem UpsertRoute_all_or_nothing_witness:
  "\<exists>route s'. UpsertRoute (RouteStore_ops demo_redis) 9 ''risk'' ''fraud'' [\<lparr>pt_Version = ''v2'', pt_WeightBps = 10000\<rparr>] demo_table
       = (Inr route, s') \<and> store_Get (routeKey ''risk'' ''fraud'') s' = Inr route \<and> ActiveWeightSum route = TotalWeightBps"
proof -
  let ?u = "UpsertRoute (RouteStore_ops demo_redis) 9 ''risk'' ''fraud'' [\<lparr>pt_Version = ''v2'', pt_WeightBps = 10000\<rparr>] demo_table"
  obtain r s' where u: "?u = (r, s')" by fastforce
  have "\<not> isl (fst ?u)" by code_simp
  then have "\<nexists>e. r = Inl e" unfolding u by auto
  with UpsertRoute_all_or_nothing [OF u] u show ?thesis by blast
qed

text \<open>Setting a traffic split is all or nothing. \<open>SetTrafficSplit\<close> either changes nothing and reports
  \<open>ErrNoRoute\<close> or a validation error, or stores the same targets at the same endpoints with new
  weights whose active sum is exactly 10000.
\<close>

theorem SetTrafficSplit_all_or_nothing:
  assumes "SetTrafficSplit (RouteStore_ops M) t team m ws s = (r, s')"
  shows "(s' = s \<and> (\<exists>e. r = Inl e \<and> (errors_Is e ErrRouteValidation \<or> e = ErrNoRoute)))
    \<or> (\<exists>old route. store_Get (routeKey team m) s = Inr old \<and> store_Get (routeKey team m) s' = Inr route
        \<and> r_OwnerTeam route = r_OwnerTeam old \<and> ActiveWeightSum route = TotalWeightBps
        \<and> ((\<forall>x \<in> set (r_Targets old). weight_ok x) \<longrightarrow>
             map rt_Version (r_Targets route) = map rt_Version (r_Targets old)
           \<and> map rt_Endpoint (r_Targets route) = map rt_Endpoint (r_Targets old)
           \<and> (\<forall>x \<in> set (r_Targets route). weight_ok x))
        \<and> (r = Inr route \<or> (\<exists>e. r = Inl e)))"
  using adapter.SetTrafficSplit_atomic [OF assms] by (simp add: RouteStore_ops_def)

theorem SetTrafficSplit_all_or_nothing_witness:
  "\<exists>route s'. SetTrafficSplit (RouteStore_ops demo_redis) 9 ''risk'' ''fraud''
        [\<lparr>tw_Version = ''v1'', tw_WeightBps = 4000\<rparr>, \<lparr>tw_Version = ''v2'', tw_WeightBps = 6000\<rparr>] demo_table
       = (Inr route, s') \<and> store_Get (routeKey ''risk'' ''fraud'') s' = Inr route \<and> ActiveWeightSum route = TotalWeightBps"
proof -
  let ?u = "SetTrafficSplit (RouteStore_ops demo_redis) 9 ''risk'' ''fraud''
        [\<lparr>tw_Version = ''v1'', tw_WeightBps = 4000\<rparr>, \<lparr>tw_Version = ''v2'', tw_WeightBps = 6000\<rparr>] demo_table"
  obtain r s' where u: "?u = (r, s')" by fastforce
  have "\<not> isl (fst ?u)" by code_simp
  then have "\<nexists>e. r = Inl e" unfolding u by auto
  with SetTrafficSplit_all_or_nothing [OF u] u show ?thesis by blast
qed

text \<open>C37: Tenant isolation. An admin call or lifecycle event of one team leaves every route of another
  team as it was, for every model name, when the team names hold no NUL byte (the key separator).\<close>

theorem tenants_are_isolated:
  assumes "nul \<notin> set (op_team op)" "nul \<notin> set team" "op_team op \<noteq> team"
  shows "GetRoute (RouteStore_ops M) team m (apply_op (RouteStore_ops M) op s) = GetRoute (RouteStore_ops M) team m s"
  by (rule adapter.apply_op_isolated [OF assms])

theorem tenants_are_isolated_witness:
  "GetRoute (RouteStore_ops demo_redis) ''risk'' ''fraud''
     (apply_op (RouteStore_ops demo_redis) (OpArchived \<lparr>ma_OwnerTeam = ''ads'', ma_ModelName = ''fraud''\<rparr>) demo_table)
   = GetRoute (RouteStore_ops demo_redis) ''risk'' ''fraud'' demo_table"
  by (rule tenants_are_isolated) (code_simp+)

text \<open>Lifecycle events may be redelivered. Applying a deploy, undeploy, promote or archive event a
  second time leaves every stored route as the first delivery left it, up to its time stamp.\<close>

theorem lifecycle_events_idempotent:
  assumes "redelivered t op = Some op'"
  shows "same_routes (RouteStore_ops M) (apply_op (RouteStore_ops M) op s)
           (apply_op (RouteStore_ops M) op' (apply_op (RouteStore_ops M) op s))"
  by (rule adapter.redelivered_idempotent [OF assms])

theorem lifecycle_events_idempotent_witness:
  "same_routes (RouteStore_ops demo_redis) (apply_op (RouteStore_ops demo_redis) (demo_deploy ''v1'' 9000) (NewRouteStore []))
     (apply_op (RouteStore_ops demo_redis) (demo_deploy ''v1'' 9000)
       (apply_op (RouteStore_ops demo_redis) (demo_deploy ''v1'' 9000) (NewRouteStore [])))"
  by (rule lifecycle_events_idempotent [of 5]) (simp add: demo_deploy_def)

text \<open>A promotion sends all traffic to the promoted version. On a table reached from the empty one, a
  promote event that is accepted leaves a route whose active weights sum to 10000 and on which every
  draw selects the promoted version, marked stable.\<close>

theorem promotion_takes_all_traffic:
  assumes s: "s = fold (apply_op (RouteStore_ops M)) ops (NewRouteStore w)"
    and "ApplyModelPromoted (RouteStore_ops M) t ev s = (None, s')"
  shows "\<exists>route. store_Get (routeKey (mp_OwnerTeam ev) (mp_ModelName ev)) s' = Inr route
    \<and> ActiveWeightSum route = TotalWeightBps
    \<and> (\<forall>d. 0 \<le> d \<and> d < TotalWeightBps \<longrightarrow>
         (\<exists>x. Pick (\<lambda>_. d) (r_Targets route) = Inr x \<and> rt_Version x = mp_Version ev \<and> rt_IsStable x))"
proof -
  let ?k = "routeKey (mp_OwnerTeam ev) (mp_ModelName ev)" and ?p = "promoteTarget (mp_Version ev)"
  from assms(2) obtain r where r: "store_Get ?k s = Inr r" "findTarget r (mp_Version ev) \<noteq> None"
    and s': "s' = snd (store_Upsert M ?k (r\<lparr>r_Targets := map ?p (r_Targets r), r_UpdatedAt := t\<rparr>) s)"
    by (cases "store_Get ?k s") (auto simp: ApplyModelPromoted_def RouteStore_ops_def Let_def split: if_splits)
  have "store_inv (RouteStore_ops M) (announced []) (NewRouteStore w)"
    by (simp add: store_inv_def RouteStore_ops_def store_Get_def NewRouteStore_def)
  from adapter.inv_ops [OF this, of ops] r(1) have "distinct (map rt_Version (r_Targets r))"
    by (simp add: store_inv_def RouteStore_ops_def route_wf_def s)
  with promoted_weight_sum r(2)
  have total: "ActiveWeightSum (r\<lparr>r_Targets := map ?p (r_Targets r), r_UpdatedAt := t\<rparr>) = TotalWeightBps"
    by (simp add: ActiveWeightSum_def findTarget_def)
  have sum: "eligibleWeightSum (map ?p (r_Targets r)) = TotalWeightBps"
    using total by (simp add: ActiveWeightSum_def eligibleWeightSum_filter)
  have "\<exists>x. Pick (\<lambda>_. d) (map ?p (r_Targets r)) = Inr x \<and> rt_Version x = mp_Version ev \<and> rt_IsStable x"
    if "0 \<le> d \<and> d < TotalWeightBps" for d
  proof -
    have "\<forall>x \<in> set (map ?p (r_Targets r)). 0 \<le> rt_WeightBps x" using promoteTarget_simps(3) by (auto simp: weight_ok_def)
    from selectByDraw_below [OF this, of 0 d] sum that obtain x where
      "x \<in> set (map ?p (r_Targets r))" "Eligible (rt_Status x)" "selectByDraw (map ?p (r_Targets r)) d 0 = Inr x"
      by (metis add_0)
    then show ?thesis using sum by (auto simp: Pick_def TotalWeightBps_def promoteTarget_def Eligible_def)
  qed
  moreover have "store_Get ?k s' = Inr (r\<lparr>r_Targets := map ?p (r_Targets r), r_UpdatedAt := t\<rparr>)"
    using adapter.get_upsert_same by (simp add: RouteStore_ops_def s')
  ultimately show ?thesis using total by auto
qed

theorem promotion_takes_all_traffic_witness:
  "\<exists>s' route. ApplyModelPromoted (RouteStore_ops demo_redis) 9
       \<lparr>mp_OwnerTeam = ''risk'', mp_ModelName = ''fraud'', mp_Version = ''v2'', mp_DemotedVersion = ''v1''\<rparr> demo_table = (None, s')
     \<and> store_Get (routeKey ''risk'' ''fraud'') s' = Inr route \<and> ActiveWeightSum route = TotalWeightBps"
proof -
  let ?ev = "\<lparr>mp_OwnerTeam = ''risk'', mp_ModelName = ''fraud'', mp_Version = ''v2'', mp_DemotedVersion = ''v1''\<rparr>"
  obtain e s' where u: "ApplyModelPromoted (RouteStore_ops demo_redis) 9 ?ev demo_table = (e, s')" by fastforce
  have "fst (ApplyModelPromoted (RouteStore_ops demo_redis) 9 ?ev demo_table) = None" by code_simp
  with u have "e = None" by simp
  with promotion_takes_all_traffic [OF demo_table_def, of 9 ?ev s'] u show ?thesis by auto
qed

text \<open>Paging loses and repeats nothing. On a table reached from the empty one, a client that follows
  the page tokens of \<open>ListRoutes\<close>, for any page size, sees each route of its own team exactly once, in
  key order, and no route of another team.
\<close>

theorem paging_visits_every_route_once:
  assumes "s = fold (apply_op (RouteStore_ops M)) ops (NewRouteStore w)" "length (st_table s) < n"
  shows "walk_routes (RouteStore_ops M) n team psize '''' s
      = filter (\<lambda>r. r_OwnerTeam r = team) (map (\<lambda>k. the (map_of (st_table s) k)) (sort (map fst (st_table s))))
    \<and> distinct (sort (map fst (st_table s)))"
proof -
  have ok: "table_ok s" unfolding assms(1) by (rule table_ok_ops [OF table_ok_empty])
  have n: "length (keys_of s) < n + 0" using assms(2) by (simp add: keys_of_def)
  from walk_routes_from [OF ok _ n] keys_of_props(2) [OF ok] show ?thesis
    by (simp add: token_at_def keys_of_def route_at_def [abs_def])
qed

theorem paging_visits_every_route_once_witness:
  "length (walk_routes (RouteStore_ops demo_redis) 2 ''risk'' 1 '''' demo_table) = 1"
  using paging_visits_every_route_once [OF demo_table_def, of 2 "''risk''" 1] demo_table_len demo_table_owner
  by simp



end
