(* ===== verification/GatewayPredict.thy ===== *)
theory GatewayPredict
  imports GatewayRoutes
begin

text \<open>
  The hot path of the inference gateway (\<^verbatim>\<open>inference_service_impl.go\<close>): the operation \<^verbatim>\<open>Predict\<close>, which
  runs validation, quota, rate limit, route lookup, traffic split, breaker gate and the backend call
  in this order and reports the outcome as one event. The ports are the parameter \<open>P\<close>, over an
  environment \<open>'w\<close>; the route store is the record \<open>S\<close> of the routing table. Every call of a port is
  recorded in a trace, in which the properties are stated.
\<close>

section \<open>Types\<close>

record Tensor =
  tn_Shape :: "64 word list"
  tn_DType :: string
  tn_Data :: "8 word list"

text \<open>The map of named tensors is the list of its entries, in the order the loop over it takes.\<close>

record PredictInput =
  pi_ModelName :: string
  pi_Inputs :: "(string \<times> Tensor) list"
  pi_VersionOverride :: string
  pi_IdempotencyKey :: string

record Principal =
  pr_APIKeyID :: string
  pr_Team :: string

record PredictOutput =
  po_Outputs :: "(string \<times> Tensor) list"
  po_ServedVersion :: string
  po_IsCanary :: bool
  po_Latency :: duration
  po_RequestID :: string

record PredictResult =
  prs_Outputs :: "(string \<times> Tensor) list"

datatype FailureReason = FailureReasonUnspecified | FailureReasonNoRoute | FailureReasonRateLimited
  | FailureReasonBulkheadFull | FailureReasonCircuitOpen | FailureReasonUpstreamError
  | FailureReasonTimeout | FailureReasonInvalidInput | FailureReasonQuotaExceeded

record InferenceCompleted =
  ic_RequestID :: string
  ic_ModelName :: string
  ic_Version :: string
  ic_APIKeyID :: string
  ic_IsCanary :: bool
  ic_Latency :: duration
  ic_CompletedAt :: time

record InferenceFailed =
  if_RequestID :: string
  if_ModelName :: string
  if_Version :: string
  if_APIKeyID :: string
  if_Reason :: FailureReason
  if_Message :: string
  if_FailedAt :: time

section \<open>Validation\<close>

definition elemSize :: "string \<Rightarrow> 64 word" where
  "elemSize dtype = (if dtype = ''float32'' \<or> dtype = ''int32'' then 4
     else if dtype = ''float64'' \<or> dtype = ''int64'' then 8
     else if dtype = ''bool'' then 1 else 0)"

text \<open>The loop over the dimensions; \<open>want\<close> is a 64-bit integer and wraps.\<close>

fun shapeBytes :: "string \<Rightarrow> 64 word \<Rightarrow> 64 word list \<Rightarrow> goerr + 64 word" where
  "shapeBytes name want [] = Inr want"
| "shapeBytes name want (dim # dims) =
     (if sint dim < 0 then Inl (Wrapf '''' ErrInvalidInput ('': tensor '' @ quote name @ '' has negative dimension''))
      else shapeBytes name (want * dim) dims)"

definition validateTensor :: "string \<Rightarrow> Tensor \<Rightarrow> goerr option" where
  "validateTensor name tensor =
     (if tn_Data tensor = [] then Some (Wrapf '''' ErrInvalidInput ('': tensor '' @ quote name @ '' has empty data''))
      else let elem = elemSize (tn_DType tensor) in
        if sint elem > 0 then
          (case shapeBytes name elem (tn_Shape tensor) of
             Inl err \<Rightarrow> Some err
           | Inr want \<Rightarrow>
               if sint want > 0 \<and> int (length (tn_Data tensor)) \<noteq> sint want
               then Some (Wrapf '''' ErrInvalidInput ('': tensor '' @ quote name @ '' is '' @ itoa (int (length (tn_Data tensor)))
                 @ '' bytes, want '' @ itoa (sint want) @ '' for shape/dtype''))
               else None)
        else None)"

fun validateTensors :: "(string \<times> Tensor) list \<Rightarrow> goerr option" where
  "validateTensors [] = None"
| "validateTensors ((name, tensor) # rest) = (case validateTensor name tensor of
     Some err \<Rightarrow> Some err | None \<Rightarrow> validateTensors rest)"

definition validatePredict :: "PredictInput \<Rightarrow> goerr option" where
  "validatePredict inp =
     (if pi_ModelName inp = '''' then Some (Wrapf '''' ErrInvalidInput '': model_name is required'')
      else if pi_Inputs inp = [] then Some (Wrapf '''' ErrInvalidInput '': at least one input tensor is required'')
      else validateTensors (pi_Inputs inp))"

section \<open>Ports and state\<close>

text \<open>
  \<open>gp_IsBlocked\<close> is absent when the service has no quota checker. \<open>gp_breakerNow\<close> is the clock of the
  breakers, which the registry holds.
\<close>

record 'w GatewayPorts =
  gp_newRequestID :: "'w \<Rightarrow> string \<times> 'w"
  gp_IsBlocked :: "(string \<Rightarrow> 'w \<Rightarrow> bool \<times> 'w) option"
  gp_Allow :: "string \<Rightarrow> 'w \<Rightarrow> (bool \<times> goerr option) \<times> 'w"
  gp_rand :: "int \<Rightarrow> 'w \<Rightarrow> int \<times> 'w"
  gp_Predict :: "string \<Rightarrow> PredictInput \<Rightarrow> 'w \<Rightarrow> (goerr + PredictResult) \<times> 'w"
  gp_PublishCompleted :: "InferenceCompleted \<Rightarrow> 'w \<Rightarrow> goerr option \<times> 'w"
  gp_PublishFailed :: "InferenceFailed \<Rightarrow> 'w \<Rightarrow> goerr option \<times> 'w"
  gp_now :: "'w \<Rightarrow> time \<times> 'w"
  gp_breakerNow :: "'w \<Rightarrow> time \<times> 'w"

datatype gcall = GRequestID string | GIsBlocked string bool | GLimit string "bool \<times> goerr option"
  | GRand int int | GBackend string PredictInput "goerr + PredictResult"
  | GAdmit breakerKey bool | GRecord breakerKey bool
  | GCompleted InferenceCompleted "goerr option" | GFailed InferenceFailed "goerr option"
  | GNow time | GBreakerNow time

record ('s, 'w) gw =
  gw_world :: 'w
  gw_store :: 's
  gw_breakers :: breakerRegistry
  gw_trace :: "gcall list"

definition gport :: "('w \<Rightarrow> 'a \<times> 'w) \<Rightarrow> ('a \<Rightarrow> gcall) \<Rightarrow> (('s, 'w) gw, 'a) state" where
  "gport f c = State (\<lambda>s. case f (gw_world s) of (a, w) \<Rightarrow>
     (a, s\<lparr>gw_world := w, gw_trace := gw_trace s @ [c a]\<rparr>))"

definition getStore :: "(('s, 'w) gw, 's) state" where
  "getStore = State (\<lambda>s. (gw_store s, s))"

definition breakers_Get :: "'w GatewayPorts \<Rightarrow> string \<Rightarrow> string \<Rightarrow> (('s, 'w) gw, breakerKey) state" where
  "breakers_Get P model version = do {
     t \<leftarrow> gport (gp_breakerNow P) GBreakerNow;
     State (\<lambda>s. case registry_Get t model version (gw_breakers s) of (k, r) \<Rightarrow> (k, s\<lparr>gw_breakers := r\<rparr>)) }"

text \<open>
  The breaker's methods, on the breaker under the key. \<open>Allow\<close> takes up to two clock readings; one it
  does not need has no effect on it.
\<close>

definition breaker_Allow :: "'w GatewayPorts \<Rightarrow> breakerKey \<Rightarrow> (('s, 'w) gw, bool) state" where
  "breaker_Allow P k = do {
     t \<leftarrow> gport (gp_breakerNow P) GBreakerNow;
     t2 \<leftarrow> gport (gp_breakerNow P) GBreakerNow;
     State (\<lambda>s. case map_of (br_breakers (gw_breakers s)) k of
         None \<Rightarrow> (False, s)
       | Some b \<Rightarrow> (case Allow t t2 b of (ok, b') \<Rightarrow>
           (ok, s\<lparr>gw_breakers := registry_update k (\<lambda>_. b') (gw_breakers s), gw_trace := gw_trace s @ [GAdmit k ok]\<rparr>))) }"

definition breaker_Record :: "'w GatewayPorts \<Rightarrow> breakerKey \<Rightarrow> bool \<Rightarrow> (('s, 'w) gw, unit) state" where
  "breaker_Record P k ok = do {
     t \<leftarrow> gport (gp_breakerNow P) GBreakerNow;
     State (\<lambda>s. ((), s\<lparr>gw_breakers := registry_update k (if ok then RecordSuccess t else RecordFailure t) (gw_breakers s),
                      gw_trace := gw_trace s @ [GRecord k ok]\<rparr>)) }"

section \<open>Predict\<close>

definition fail :: "'w GatewayPorts \<Rightarrow> string \<Rightarrow> string \<Rightarrow> string \<Rightarrow> Principal \<Rightarrow> FailureReason \<Rightarrow> goerr \<Rightarrow>
    (('s, 'w) gw, goerr + PredictOutput) state" where
  "fail P requestID model version p reason err = do {
     t \<leftarrow> gport (gp_now P) GNow;
     let ev = \<lparr>if_RequestID = requestID, if_ModelName = model, if_Version = version, if_APIKeyID = pr_APIKeyID p,
               if_Reason = reason, if_Message = err_msg err, if_FailedAt = t\<rparr>;
     gport (gp_PublishFailed P ev) (GFailed ev);
     State_Monad.return (Inl err) }"

text \<open>\<^verbatim>\<open>Pick\<close> with the draw taken from the port; the port is only asked when the total is positive.\<close>

definition splitter_Pick :: "'w GatewayPorts \<Rightarrow> RouteTarget list \<Rightarrow> (('s, 'w) gw, goerr + RouteTarget) state" where
  "splitter_Pick P targets = (let total = eligibleWeightSum targets in
     if total \<le> 0 then State_Monad.return (Inl ErrNoRoute)
     else do { d \<leftarrow> gport (gp_rand P total) (GRand total); State_Monad.return (Pick (\<lambda>_. d) targets) })"

definition selectTarget :: "'w GatewayPorts \<Rightarrow> Route \<Rightarrow> string \<Rightarrow> (('s, 'w) gw, goerr + RouteTarget) state" where
  "selectTarget P route override =
     (if override \<noteq> '''' then
        (case findTarget route override of
           None \<Rightarrow> State_Monad.return (Inl ErrNoRoute)
         | Some i \<Rightarrow> State_Monad.return
             (if \<not> Eligible (rt_Status (r_Targets route ! i)) then Inl ErrNoRoute else Inr (r_Targets route ! i)))
      else splitter_Pick P (r_Targets route))"

text \<open>Steps 7 and 8: the call of the chosen backend, the breaker's record of it and the event.\<close>

definition forward :: "'w GatewayPorts \<Rightarrow> string \<Rightarrow> Principal \<Rightarrow> PredictInput \<Rightarrow> RouteTarget \<Rightarrow> breakerKey \<Rightarrow>
    (('s, 'w) gw, goerr + PredictOutput) state" where
  "forward P requestID p inp target breaker = do {
     start \<leftarrow> gport (gp_now P) GNow;
     res \<leftarrow> gport (gp_Predict P (rt_Endpoint target) inp) (GBackend (rt_Endpoint target) inp);
     stop \<leftarrow> gport (gp_now P) GNow;
     let latency = stop - start;
     case res of
       Inl callErr \<Rightarrow> do {
         breaker_Record P breaker False;
         let timeout = (errors_Is callErr ErrTimeout \<or> errors_Is callErr context_DeadlineExceeded);
         fail P requestID (pi_ModelName inp) (rt_Version target) p
           (if timeout then FailureReasonTimeout else FailureReasonUpstreamError)
           (if timeout then ErrTimeout else ErrUpstream) }
     | Inr r \<Rightarrow> do {
         breaker_Record P breaker True;
         let out = \<lparr>po_Outputs = prs_Outputs r, po_ServedVersion = rt_Version target,
                    po_IsCanary = (\<not> rt_IsStable target), po_Latency = latency, po_RequestID = requestID\<rparr>;
         t \<leftarrow> gport (gp_now P) GNow;
         let ev = \<lparr>ic_RequestID = requestID, ic_ModelName = pi_ModelName inp, ic_Version = rt_Version target,
                   ic_APIKeyID = pr_APIKeyID p, ic_IsCanary = po_IsCanary out, ic_Latency = latency, ic_CompletedAt = t\<rparr>;
         gport (gp_PublishCompleted P ev) (GCompleted ev);
         State_Monad.return (Inr out) } }"

text \<open>Steps 4 to 6: route lookup under the caller's team, traffic split, breaker gate.\<close>

definition route_request :: "'s RouteStoreOps \<Rightarrow> 'w GatewayPorts \<Rightarrow> string \<Rightarrow> Principal \<Rightarrow> PredictInput \<Rightarrow>
    (('s, 'w) gw, goerr + PredictOutput) state" where
  "route_request S P requestID p inp = do {
     st \<leftarrow> getStore;
     case rs_Get S (routeKey (pr_Team p) (pi_ModelName inp)) st of
       Inl _ \<Rightarrow> fail P requestID (pi_ModelName inp) '''' p FailureReasonNoRoute ErrNoRoute
     | Inr route \<Rightarrow> do {
         sel \<leftarrow> selectTarget P route (pi_VersionOverride inp);
         case sel of
           Inl err \<Rightarrow> fail P requestID (pi_ModelName inp) '''' p FailureReasonNoRoute err
         | Inr target \<Rightarrow> do {
             breaker \<leftarrow> breakers_Get P (r_ModelName route) (rt_Version target);
             ok \<leftarrow> breaker_Allow P breaker;
             if \<not> ok then fail P requestID (pi_ModelName inp) (rt_Version target) p FailureReasonCircuitOpen ErrCircuitOpen
             else forward P requestID p inp target breaker } } }"

definition Predict :: "'s RouteStoreOps \<Rightarrow> 'w GatewayPorts \<Rightarrow> Principal \<Rightarrow> PredictInput \<Rightarrow>
    (('s, 'w) gw, goerr + PredictOutput) state" where
  "Predict S P p inp = do {
     requestID \<leftarrow> gport (gp_newRequestID P) GRequestID;
     case validatePredict inp of
       Some err \<Rightarrow> fail P requestID (pi_ModelName inp) '''' p FailureReasonInvalidInput err
     | None \<Rightarrow> do {
         blocked \<leftarrow> (case gp_IsBlocked P of
             None \<Rightarrow> State_Monad.return False
           | Some f \<Rightarrow> gport (f (pr_Team p)) (GIsBlocked (pr_Team p)));
         if blocked then fail P requestID (pi_ModelName inp) '''' p FailureReasonQuotaExceeded ErrQuotaExceeded
         else do {
           lim \<leftarrow> gport (gp_Allow P (pr_APIKeyID p)) (GLimit (pr_APIKeyID p));
           let allowed = (if snd lim \<noteq> None then True else fst lim);
           if \<not> allowed then fail P requestID (pi_ModelName inp) '''' p FailureReasonRateLimited ErrRateLimited
           else route_request S P requestID p inp } } }"

definition CircuitStates :: "(nat \<Rightarrow> time) \<Rightarrow> string \<Rightarrow> breakerRegistry \<Rightarrow> CircuitSnapshot list \<times> breakerRegistry" where
  "CircuitStates clk modelNameFilter r = registry_Snapshot clk modelNameFilter r"


section \<open>The calls of a request\<close>


lemma run_gport: "\<exists>a w. run_state (gport f c) s = (a, s\<lparr>gw_world := w, gw_trace := gw_trace s @ [c a]\<rparr>)"
  by (auto simp: gport_def split: prod.split)

lemma bind_gport_elim:
  assumes "run_state (State_Monad.bind (gport f c) g) s = (r, s')"
  obtains a s1 where "run_state (g a) s1 = (r, s')" "gw_trace s1 = gw_trace s @ [c a]" "gw_store s1 = gw_store s"
    "gw_breakers s1 = gw_breakers s"
proof -
  obtain a w where "run_state (gport f c) s = (a, s\<lparr>gw_world := w, gw_trace := gw_trace s @ [c a]\<rparr>)"
    using run_gport by metis
  with assms show ?thesis by (intro that [of a "s\<lparr>gw_world := w, gw_trace := gw_trace s @ [c a]\<rparr>"]) simp_all
qed

text \<open>A call that is neither an event, nor a call of a backend, nor one of its breaker.\<close>

fun quiet :: "gcall \<Rightarrow> bool" where
  "quiet (GBackend ep inp res) = False"
| "quiet (GAdmit k ok) = False"
| "quiet (GRecord k ok) = False"
| "quiet (GCompleted c e) = False"
| "quiet (GFailed f e) = False"
| "quiet _ = True"

text \<open>The error that goes with each reason of a failure event.\<close>

fun reason_error :: "FailureReason \<Rightarrow> goerr \<Rightarrow> bool" where
  "reason_error FailureReasonNoRoute err = (err = ErrNoRoute)"
| "reason_error FailureReasonRateLimited err = (err = ErrRateLimited)"
| "reason_error FailureReasonCircuitOpen err = (err = ErrCircuitOpen)"
| "reason_error FailureReasonUpstreamError err = (err = ErrUpstream)"
| "reason_error FailureReasonTimeout err = (err = ErrTimeout)"
| "reason_error FailureReasonInvalidInput err = errors_Is err ErrInvalidInput"
| "reason_error FailureReasonQuotaExceeded err = (err = ErrQuotaExceeded)"
| "reason_error _ err = False"

definition failed_event :: "string \<Rightarrow> Principal \<Rightarrow> PredictInput \<Rightarrow> goerr \<Rightarrow> InferenceFailed \<Rightarrow> bool" where
  "failed_event rid p inp err f \<longleftrightarrow> if_RequestID f = rid \<and> if_ModelName f = pi_ModelName inp
     \<and> if_APIKeyID f = pr_APIKeyID p \<and> if_Message f = err_msg err \<and> reason_error (if_Reason f) err"

definition completed_event :: "string \<Rightarrow> Principal \<Rightarrow> PredictInput \<Rightarrow> PredictOutput \<Rightarrow> InferenceCompleted \<Rightarrow> bool" where
  "completed_event rid p inp out c \<longleftrightarrow> ic_RequestID c = rid \<and> po_RequestID out = rid \<and> ic_ModelName c = pi_ModelName inp
     \<and> ic_APIKeyID c = pr_APIKeyID p \<and> ic_Version c = po_ServedVersion out \<and> ic_IsCanary c = po_IsCanary out
     \<and> ic_Latency c = po_Latency out"

text \<open>A request that ended before the backend: at most one refusal by the breaker, then the failure event.\<close>

definition refused :: "string \<Rightarrow> Principal \<Rightarrow> PredictInput \<Rightarrow> goerr + PredictOutput \<Rightarrow> gcall list \<Rightarrow> bool" where
  "refused rid p inp r tr \<longleftrightarrow> (\<exists>pre gate t f e err. tr = pre @ gate @ [GNow t, GFailed f e] \<and> (\<forall>c \<in> set pre. quiet c)
     \<and> (gate = [] \<or> (\<exists>k. gate = [GAdmit k False])) \<and> r = Inl err \<and> failed_event rid p inp err f)"

text \<open>A request that reached the backend of \<open>target\<close>: admitted, called, recorded, reported.\<close>

definition forwarded :: "string \<Rightarrow> Principal \<Rightarrow> PredictInput \<Rightarrow> RouteTarget \<Rightarrow> breakerKey \<Rightarrow> goerr + PredictOutput \<Rightarrow> gcall list \<Rightarrow> bool" where
  "forwarded rid p inp target k r tr \<longleftrightarrow> (\<exists>pre a res b u t ev.
     tr = pre @ [GAdmit k True, GNow a, GBackend (rt_Endpoint target) inp res, GNow b, GBreakerNow u, GRecord k (\<not> isl res), GNow t, ev]
     \<and> (\<forall>c \<in> set pre. quiet c)
     \<and> (case r of Inl err \<Rightarrow> isl res \<and> (\<exists>f e. ev = GFailed f e \<and> failed_event rid p inp err f \<and> if_Version f = rt_Version target)
        | Inr out \<Rightarrow> (\<exists>c e x. res = Inr x \<and> po_Outputs out = prs_Outputs x \<and> ev = GCompleted c e \<and> completed_event rid p inp out c
             \<and> po_ServedVersion out = rt_Version target \<and> po_IsCanary out = (\<not> rt_IsStable target) \<and> po_Latency out = b - a)))"

lemma fail_run:
  assumes "run_state (fail P rid m v p reason err) s = (r, s')"
  obtains t f e where "r = Inl err" "gw_trace s' = gw_trace s @ [GNow t, GFailed f e]" "gw_store s' = gw_store s"
    "if_RequestID f = rid" "if_ModelName f = m" "if_Version f = v" "if_APIKeyID f = pr_APIKeyID p"
    "if_Message f = err_msg err" "if_Reason f = reason"
  using assms unfolding fail_def Let_def by (elim bind_gport_elim) (auto intro: that)

lemma fail_tail:
  assumes "run_state (fail P rid (pi_ModelName inp) v p reason err) s = (r, s')" "reason_error reason err"
  obtains t f e where "r = Inl err" "gw_trace s' = gw_trace s @ [GNow t, GFailed f e]" "gw_store s' = gw_store s"
    "failed_event rid p inp err f" "if_Version f = v"
  by (rule fail_run [OF assms(1)]) (use assms(2) in \<open>auto simp: failed_event_def intro: that\<close>)

lemma fail_refused:
  assumes "run_state (fail P rid (pi_ModelName inp) v p reason err) s = (r, s')" "reason_error reason err"
    and "\<forall>c \<in> set pre. quiet c" "gate = [] \<or> (\<exists>k. gate = [GAdmit k False])"
  shows "gw_store s' = gw_store s \<and> (\<exists>tl. gw_trace s' = gw_trace s @ tl \<and> refused rid p inp r (pre @ gate @ tl))"
proof -
  obtain t f e where r: "r = Inl err" "gw_trace s' = gw_trace s @ [GNow t, GFailed f e]" "gw_store s' = gw_store s"
    and f: "failed_event rid p inp err f" by (rule fail_tail [OF assms(1,2)])
  then have "refused rid p inp r (pre @ gate @ [GNow t, GFailed f e])"
    unfolding refused_def using assms(3,4) by blast
  then show ?thesis using r by simp
qed

lemma breaker_Record_run:
  assumes "run_state (State_Monad.bind (breaker_Record P k ok) g) s = (r, s')"
  obtains u s1 where "run_state (g ()) s1 = (r, s')" "gw_trace s1 = gw_trace s @ [GBreakerNow u, GRecord k ok]"
    "gw_store s1 = gw_store s"
  using assms unfolding breaker_Record_def gport_def
  by (auto split: prod.splits intro: that)

lemma forward_forwarded:
  assumes "run_state (forward P rid p inp target k) s = (r, s')"
    and tr: "\<forall>c \<in> set pre. quiet c"
  shows "gw_store s' = gw_store s \<and> (\<exists>tl. gw_trace s' = gw_trace s @ tl \<and> forwarded rid p inp target k r (pre @ GAdmit k True # tl))"
proof -
  from assms(1) obtain a res b s3 where m: "run_state (case res of
       Inl callErr \<Rightarrow> do {
         breaker_Record P k False;
         let timeout = (errors_Is callErr ErrTimeout \<or> errors_Is callErr context_DeadlineExceeded);
         fail P rid (pi_ModelName inp) (rt_Version target) p
           (if timeout then FailureReasonTimeout else FailureReasonUpstreamError)
           (if timeout then ErrTimeout else ErrUpstream) }
     | Inr r \<Rightarrow> do {
         breaker_Record P k True;
         let out = \<lparr>po_Outputs = prs_Outputs r, po_ServedVersion = rt_Version target,
                    po_IsCanary = (\<not> rt_IsStable target), po_Latency = b - a, po_RequestID = rid\<rparr>;
         t \<leftarrow> gport (gp_now P) GNow;
         let ev = \<lparr>ic_RequestID = rid, ic_ModelName = pi_ModelName inp, ic_Version = rt_Version target,
                   ic_APIKeyID = pr_APIKeyID p, ic_IsCanary = po_IsCanary out, ic_Latency = b - a, ic_CompletedAt = t\<rparr>;
         gport (gp_PublishCompleted P ev) (GCompleted ev);
         State_Monad.return (Inr out) }) s3 = (r, s')"
    and s3: "gw_store s3 = gw_store s"
      "gw_trace s3 = gw_trace s @ [GNow a, GBackend (rt_Endpoint target) inp res, GNow b]"
    unfolding forward_def Let_def by (elim bind_gport_elim) simp
  show ?thesis
  proof (cases res)
    case (Inl callErr)
    let ?to = "errors_Is callErr ErrTimeout \<or> errors_Is callErr context_DeadlineExceeded"
    from m [unfolded Inl sum.case Let_def] obtain u s4 where "run_state (fail P rid (pi_ModelName inp) (rt_Version target) p
           (if ?to then FailureReasonTimeout else FailureReasonUpstreamError) (if ?to then ErrTimeout else ErrUpstream)) s4 = (r, s')"
      and s4: "gw_trace s4 = gw_trace s3 @ [GBreakerNow u, GRecord k False]" "gw_store s4 = gw_store s3"
      by (rule breaker_Record_run)
    from this(1) obtain t f e where "r = Inl (if ?to then ErrTimeout else ErrUpstream)" "gw_trace s' = gw_trace s4 @ [GNow t, GFailed f e]"
      "gw_store s' = gw_store s4" "failed_event rid p inp (if ?to then ErrTimeout else ErrUpstream) f" "if_Version f = rt_Version target"
      by (rule fail_tail) simp
    with Inl s3 s4 tr show ?thesis unfolding forwarded_def by auto
  next
    case (Inr x)
    from m [unfolded Inr sum.case Let_def PredictOutput.select_convs] obtain u s4 where n: "run_state (do {
         t \<leftarrow> gport (gp_now P) GNow;
         gport (gp_PublishCompleted P \<lparr>ic_RequestID = rid, ic_ModelName = pi_ModelName inp, ic_Version = rt_Version target,
                   ic_APIKeyID = pr_APIKeyID p, ic_IsCanary = (\<not> rt_IsStable target), ic_Latency = b - a, ic_CompletedAt = t\<rparr>)
           (GCompleted \<lparr>ic_RequestID = rid, ic_ModelName = pi_ModelName inp, ic_Version = rt_Version target,
                   ic_APIKeyID = pr_APIKeyID p, ic_IsCanary = (\<not> rt_IsStable target), ic_Latency = b - a, ic_CompletedAt = t\<rparr>);
         State_Monad.return (Inr \<lparr>po_Outputs = prs_Outputs x, po_ServedVersion = rt_Version target,
                    po_IsCanary = (\<not> rt_IsStable target), po_Latency = b - a, po_RequestID = rid\<rparr>) }) s4 = (r, s')"
      and s4: "gw_trace s4 = gw_trace s3 @ [GBreakerNow u, GRecord k True]" "gw_store s4 = gw_store s3"
      by (rule breaker_Record_run)
    from n obtain t e where "gw_store s' = gw_store s4"
      "r = Inr \<lparr>po_Outputs = prs_Outputs x, po_ServedVersion = rt_Version target,
                    po_IsCanary = (\<not> rt_IsStable target), po_Latency = b - a, po_RequestID = rid\<rparr>"
      "gw_trace s' = gw_trace s4 @ [GNow t, GCompleted \<lparr>ic_RequestID = rid, ic_ModelName = pi_ModelName inp, ic_Version = rt_Version target,
                   ic_APIKeyID = pr_APIKeyID p, ic_IsCanary = (\<not> rt_IsStable target), ic_Latency = b - a, ic_CompletedAt = t\<rparr> e]"
      by (elim bind_gport_elim) auto
    with Inr s3 s4 tr show ?thesis unfolding forwarded_def completed_event_def by auto
  qed
qed


lemma Pick_member: "Pick rand ts = Inr t \<Longrightarrow> t \<in> set ts \<and> Eligible (rt_Status t)"
  by (auto simp: Pick_def Let_def split: if_splits dest: selectByDraw_eligible)

lemma Pick_err: "Pick rand ts = Inl e \<Longrightarrow> e = ErrNoRoute"
proof -
  have "selectByDraw ts d c = Inl e \<Longrightarrow> e = ErrNoRoute" for d c
    by (induction ts arbitrary: c) (auto split: if_splits)
  then show "Pick rand ts = Inl e \<Longrightarrow> e = ErrNoRoute" by (auto simp: Pick_def Let_def split: if_splits)
qed

lemma selectTarget_run:
  assumes "run_state (selectTarget P route override) s = (sel, s1)"
  shows "gw_store s1 = gw_store s \<and> (\<exists>tr. gw_trace s1 = gw_trace s @ tr \<and> (\<forall>c \<in> set tr. quiet c))
    \<and> (case sel of Inl err \<Rightarrow> err = ErrNoRoute
       | Inr t \<Rightarrow> t \<in> set (r_Targets route) \<and> Eligible (rt_Status t) \<and> (override \<noteq> '''' \<longrightarrow> rt_Version t = override))"
proof (cases "override = '''' \<and> 0 < eligibleWeightSum (r_Targets route)")
  case True
  with assms have "run_state (do { d \<leftarrow> gport (gp_rand P (eligibleWeightSum (r_Targets route))) (GRand (eligibleWeightSum (r_Targets route)));
      State_Monad.return (Pick (\<lambda>_. d) (r_Targets route)) }) s = (sel, s1)"
    by (simp add: selectTarget_def splitter_Pick_def Let_def)
  then show ?thesis
    by (rule bind_gport_elim) (use True in \<open>auto dest: Pick_member Pick_err split: sum.split\<close>)
next
  case False
  with assms show ?thesis
    by (auto simp: selectTarget_def splitter_Pick_def Let_def findTarget_def dest!: find_target_idx_Some
        split: option.splits if_splits)
qed

lemma registry_Get_present:
  "fst (registry_Get t m v r) = (m, v) \<and> map_of (br_breakers (snd (registry_Get t m v r))) (m, v) \<noteq> None"
  by (cases "map_of (br_breakers r) (m, v)") (simp_all add: registry_Get_def Let_def)

lemma breakers_Get_elim:
  assumes "run_state (State_Monad.bind (breakers_Get P m v) g) s = (r, s')"
  obtains t s1 where "run_state (g (m, v)) s1 = (r, s')" "gw_trace s1 = gw_trace s @ [GBreakerNow t]" "gw_store s1 = gw_store s"
    "map_of (br_breakers (gw_breakers s1)) (m, v) \<noteq> None"
proof -
  obtain t w where "run_state (gport (gp_breakerNow P) GBreakerNow) s = (t, s\<lparr>gw_world := w, gw_trace := gw_trace s @ [GBreakerNow t]\<rparr>)"
    using run_gport by metis
  moreover obtain reg where reg: "registry_Get t m v (gw_breakers s) = ((m, v), reg)" "map_of (br_breakers reg) (m, v) \<noteq> None"
    using registry_Get_present [of t m v "gw_breakers s"] by (metis prod.collapse)
  ultimately show ?thesis using assms
    by (intro that [of "s\<lparr>gw_world := w, gw_trace := gw_trace s @ [GBreakerNow t], gw_breakers := reg\<rparr>" t])
      (simp_all add: breakers_Get_def)
qed

lemma breaker_Allow_elim:
  assumes "run_state (State_Monad.bind (breaker_Allow P k) g) s = (r, s')" "map_of (br_breakers (gw_breakers s)) k \<noteq> None"
  obtains t t2 ok s1 where "run_state (g ok) s1 = (r, s')" "gw_trace s1 = gw_trace s @ [GBreakerNow t, GBreakerNow t2, GAdmit k ok]"
    "gw_store s1 = gw_store s"
proof -
  obtain t w where p1: "run_state (gport (gp_breakerNow P) GBreakerNow) s = (t, s\<lparr>gw_world := w, gw_trace := gw_trace s @ [GBreakerNow t]\<rparr>)"
    using run_gport by metis
  let ?s1 = "s\<lparr>gw_world := w, gw_trace := gw_trace s @ [GBreakerNow t]\<rparr>"
  obtain t2 w2 where p2: "run_state (gport (gp_breakerNow P) GBreakerNow) ?s1 = (t2, ?s1\<lparr>gw_world := w2, gw_trace := gw_trace ?s1 @ [GBreakerNow t2]\<rparr>)"
    using run_gport by metis
  obtain b where b: "map_of (br_breakers (gw_breakers s)) k = Some b" using assms(2) by blast
  obtain ok b' where a: "Allow t t2 b = (ok, b')" by fastforce
  show ?thesis
    by (rule that [of ok "s\<lparr>gw_world := w2, gw_breakers := registry_update k (\<lambda>_. b') (gw_breakers s),
            gw_trace := gw_trace s @ [GBreakerNow t, GBreakerNow t2, GAdmit k ok]\<rparr>" t t2])
      (use assms(1) p1 p2 b a in \<open>simp_all add: breaker_Allow_def\<close>)
qed

text \<open>The target a request may reach: eligible, of the route under the caller's team, pinned by the override.\<close>

definition reachable_target :: "'s RouteStoreOps \<Rightarrow> 's \<Rightarrow> Principal \<Rightarrow> PredictInput \<Rightarrow> RouteTarget \<Rightarrow> breakerKey \<Rightarrow> bool" where
  "reachable_target S st p inp t k \<longleftrightarrow> (\<exists>route. rs_Get S (routeKey (pr_Team p) (pi_ModelName inp)) st = Inr route
     \<and> t \<in> set (r_Targets route) \<and> Eligible (rt_Status t) \<and> (pi_VersionOverride inp \<noteq> '''' \<longrightarrow> rt_Version t = pi_VersionOverride inp)
     \<and> k = (r_ModelName route, rt_Version t))"

lemma route_request_run:
  assumes "run_state (route_request S P rid p inp) s = (r, s')" and tr: "\<forall>c \<in> set pre. quiet c"
  shows "gw_store s' = gw_store s \<and> (\<exists>tl. gw_trace s' = gw_trace s @ tl \<and>
    (refused rid p inp r (pre @ tl) \<or> (\<exists>t k. reachable_target S (gw_store s) p inp t k \<and> forwarded rid p inp t k r (pre @ tl))))"
proof (cases "rs_Get S (routeKey (pr_Team p) (pi_ModelName inp)) (gw_store s)")
  case (Inl e)
  with assms(1) have "run_state (fail P rid (pi_ModelName inp) '''' p FailureReasonNoRoute ErrNoRoute) s = (r, s')"
    by (simp add: route_request_def getStore_def)
  from fail_refused [OF this _ tr, of "[]"] show ?thesis by auto
next
  case (Inr route)
  obtain sel s1 where sel: "run_state (selectTarget P route (pi_VersionOverride inp)) s = (sel, s1)" by fastforce
  from selectTarget_run [OF sel] obtain tr1 where s1: "gw_store s1 = gw_store s" "gw_trace s1 = gw_trace s @ tr1" "\<forall>c \<in> set (pre @ tr1). quiet c"
    and t_ok: "case sel of Inl err \<Rightarrow> err = ErrNoRoute
       | Inr t \<Rightarrow> t \<in> set (r_Targets route) \<and> Eligible (rt_Status t) \<and> (pi_VersionOverride inp \<noteq> '''' \<longrightarrow> rt_Version t = pi_VersionOverride inp)"
    using tr by auto
  show ?thesis
  proof (cases sel)
    case (Inl err)
    with assms(1) Inr sel t_ok have "run_state (fail P rid (pi_ModelName inp) '''' p FailureReasonNoRoute ErrNoRoute) s1 = (r, s')"
      by (simp add: route_request_def getStore_def)
    from fail_refused [OF this _ s1(3), of "[]"] s1 show ?thesis by auto
  next
    case target: (Inr target)
    let ?k = "(r_ModelName route, rt_Version target)"
    from assms(1) Inr sel target have "run_state (do {
             breaker \<leftarrow> breakers_Get P (r_ModelName route) (rt_Version target);
             ok \<leftarrow> breaker_Allow P breaker;
             if \<not> ok then fail P rid (pi_ModelName inp) (rt_Version target) p FailureReasonCircuitOpen ErrCircuitOpen
             else forward P rid p inp target breaker }) s1 = (r, s')"
      by (simp add: route_request_def getStore_def)
    then obtain u s2 where "run_state (do {
             ok \<leftarrow> breaker_Allow P ?k;
             if \<not> ok then fail P rid (pi_ModelName inp) (rt_Version target) p FailureReasonCircuitOpen ErrCircuitOpen
             else forward P rid p inp target ?k }) s2 = (r, s')"
      and s2: "gw_trace s2 = gw_trace s1 @ [GBreakerNow u]" "gw_store s2 = gw_store s1" "map_of (br_breakers (gw_breakers s2)) ?k \<noteq> None"
      by (rule breakers_Get_elim)
    from this(1) obtain t t2 ok s3 where run: "run_state (if \<not> ok then fail P rid (pi_ModelName inp) (rt_Version target) p FailureReasonCircuitOpen ErrCircuitOpen
             else forward P rid p inp target ?k) s3 = (r, s')"
      and s3: "gw_trace s3 = gw_trace s2 @ [GBreakerNow t, GBreakerNow t2, GAdmit ?k ok]" "gw_store s3 = gw_store s2"
      by (rule breaker_Allow_elim [OF _ s2(3)])
    let ?mid = "tr1 @ [GBreakerNow u, GBreakerNow t, GBreakerNow t2]"
    have pre: "\<forall>c \<in> set (pre @ ?mid). quiet c" "gw_trace s3 = gw_trace s @ ?mid @ [GAdmit ?k ok]" "gw_store s3 = gw_store s"
      using s1 s2 s3 by auto
    show ?thesis
    proof (cases ok)
      case True
      with run forward_forwarded [OF _ pre(1), of P rid p inp target ?k s3 r s'] pre(2,3)
      obtain tl where "gw_store s' = gw_store s" "gw_trace s' = gw_trace s @ ?mid @ GAdmit ?k True # tl"
        "forwarded rid p inp target ?k r (pre @ ?mid @ GAdmit ?k True # tl)" by auto
      moreover have "reachable_target S (gw_store s) p inp target ?k"
        using Inr t_ok target by (simp add: reachable_target_def)
      ultimately show ?thesis by blast
    next
      case False
      with run fail_refused [OF _ _ pre(1), of P rid inp "rt_Version target" p FailureReasonCircuitOpen ErrCircuitOpen s3 r s' "[GAdmit ?k False]"] pre(2,3)
      show ?thesis by auto
    qed
  qed
qed

lemma validatePredict_error: "validatePredict inp = Some err \<Longrightarrow> errors_Is err ErrInvalidInput"
proof -
  have sb: "shapeBytes n w ds = Inl err \<Longrightarrow> errors_Is err ErrInvalidInput" for n w ds
    by (induction n w ds rule: shapeBytes.induct) (auto split: if_splits)
  have "validateTensor n t = Some err \<Longrightarrow> errors_Is err ErrInvalidInput" for n t
    by (auto simp: validateTensor_def Let_def split: if_splits sum.splits dest: sb)
  then have "validateTensors ts = Some err \<Longrightarrow> errors_Is err ErrInvalidInput" for ts
    by (induction ts) (auto split: option.splits)
  then show "validatePredict inp = Some err \<Longrightarrow> errors_Is err ErrInvalidInput"
    by (auto simp: validatePredict_def split: if_splits)
qed

text \<open>
  Every request ends in one of two ways: refused before the backend, or forwarded to one target after the
  rate limiter admitted the caller's key (or failed to answer).
\<close>

definition admitted_by_limiter :: "Principal \<Rightarrow> gcall list \<Rightarrow> bool" where
  "admitted_by_limiter p tr \<longleftrightarrow> (\<exists>pre lim post. tr = pre @ GLimit (pr_APIKeyID p) lim # post \<and> (snd lim \<noteq> None \<or> fst lim)
     \<and> GIsBlocked (pr_Team p) True \<notin> set pre)"

lemma Predict_run:
  assumes "run_state (Predict S P p inp) s = (r, s')"
  shows "gw_store s' = gw_store s \<and> (\<exists>rid tr. gw_trace s' = gw_trace s @ GRequestID rid # tr \<and>
    (refused rid p inp r tr \<or> (validatePredict inp = None \<and> admitted_by_limiter p tr
       \<and> (\<exists>t k. reachable_target S (gw_store s) p inp t k \<and> forwarded rid p inp t k r tr))))"
proof -
  let ?limited = "\<lambda>rid. do {
           lim \<leftarrow> gport (gp_Allow P (pr_APIKeyID p)) (GLimit (pr_APIKeyID p));
           let allowed = (if snd lim \<noteq> None then True else fst lim);
           if \<not> allowed then fail P rid (pi_ModelName inp) '''' p FailureReasonRateLimited ErrRateLimited
           else route_request S P rid p inp }"
  let ?quota = "\<lambda>rid blocked. if blocked then fail P rid (pi_ModelName inp) '''' p FailureReasonQuotaExceeded ErrQuotaExceeded else ?limited rid"
  from assms obtain rid s1 where run: "run_state (case validatePredict inp of
       Some err \<Rightarrow> fail P rid (pi_ModelName inp) '''' p FailureReasonInvalidInput err
     | None \<Rightarrow> do {
         blocked \<leftarrow> (case gp_IsBlocked P of None \<Rightarrow> State_Monad.return False
           | Some f \<Rightarrow> gport (f (pr_Team p)) (GIsBlocked (pr_Team p)));
         ?quota rid blocked }) s1 = (r, s')"
    and s1: "gw_trace s1 = gw_trace s @ [GRequestID rid]" "gw_store s1 = gw_store s"
    unfolding Predict_def by (rule bind_gport_elim)
  show ?thesis
  proof (cases "validatePredict inp")
    case (Some err)
    with run have "run_state (fail P rid (pi_ModelName inp) '''' p FailureReasonInvalidInput err) s1 = (r, s')" by simp
    from fail_refused [OF this, of "[]" "[]"] validatePredict_error [OF Some] s1 show ?thesis by auto
  next
    case None
    have "\<exists>blocked s2 pre. run_state (?quota rid blocked) s2 = (r, s') \<and> gw_trace s2 = gw_trace s1 @ pre
        \<and> (\<forall>c \<in> set pre. quiet c) \<and> gw_store s2 = gw_store s \<and> set pre \<subseteq> {GIsBlocked (pr_Team p) blocked}"
    proof (cases "gp_IsBlocked P")
      case None
      with run \<open>validatePredict inp = None\<close> s1 show ?thesis by (intro exI [of _ False] exI [of _ s1] exI [of _ "[]"]) simp
    next
      case (Some f)
      with run \<open>validatePredict inp = None\<close> have "run_state (do { blocked \<leftarrow> gport (f (pr_Team p)) (GIsBlocked (pr_Team p)); ?quota rid blocked }) s1 = (r, s')"
        by (simp only: option.case)
      then obtain b s2 where "run_state (?quota rid b) s2 = (r, s')" "gw_trace s2 = gw_trace s1 @ [GIsBlocked (pr_Team p) b]" "gw_store s2 = gw_store s1"
        by (rule bind_gport_elim)
      with s1 show ?thesis by (intro exI [of _ b] exI [of _ s2] exI [of _ "[GIsBlocked (pr_Team p) b]"]) simp
    qed
    then obtain blocked s2 pre where q: "run_state (?quota rid blocked) s2 = (r, s')"
      and s2: "gw_trace s2 = gw_trace s1 @ pre" "\<forall>c \<in> set pre. quiet c" "gw_store s2 = gw_store s" "set pre \<subseteq> {GIsBlocked (pr_Team p) blocked}" by blast
    show ?thesis
    proof (cases blocked)
      case True
      with q have "run_state (fail P rid (pi_ModelName inp) '''' p FailureReasonQuotaExceeded ErrQuotaExceeded) s2 = (r, s')" by simp
      from fail_refused [OF this _ s2(2), of "[]"] s1 s2 show ?thesis by auto
    next
      case False
      with q have "run_state (?limited rid) s2 = (r, s')" by simp
      then obtain lim s3 where l: "run_state (let allowed = (if snd lim \<noteq> None then True else fst lim) in
             if \<not> allowed then fail P rid (pi_ModelName inp) '''' p FailureReasonRateLimited ErrRateLimited
             else route_request S P rid p inp) s3 = (r, s')"
        and s3: "gw_trace s3 = gw_trace s2 @ [GLimit (pr_APIKeyID p) lim]" "gw_store s3 = gw_store s2"
        by (rule bind_gport_elim)
      let ?pre = "pre @ [GLimit (pr_APIKeyID p) lim]"
      have pre: "\<forall>c \<in> set ?pre. quiet c" using s2 by auto
      show ?thesis
      proof (cases "snd lim \<noteq> None \<or> fst lim")
        case True
        with l have run: "run_state (route_request S P rid p inp) s3 = (r, s')" by (auto simp: Let_def split: if_splits)
        have "admitted_by_limiter p (?pre @ tl)" for tl
          unfolding admitted_by_limiter_def using True False s2(4)
          by (intro exI [of _ pre] exI [of _ lim] exI [of _ tl]) auto
        with route_request_run [OF run pre] s1 s2 s3 None show ?thesis by fastforce
      next
        case no: False
        with l have "run_state (fail P rid (pi_ModelName inp) '''' p FailureReasonRateLimited ErrRateLimited) s3 = (r, s')" by (auto simp: Let_def)
        from fail_refused [OF this _ pre, of "[]"] s1 s2 s3 show ?thesis by auto
      qed
    qed
  qed
qed


section \<open>Properties\<close>

fun is_event :: "gcall \<Rightarrow> bool" where
  "is_event (GCompleted c e) = True"
| "is_event (GFailed f e) = True"
| "is_event _ = False"

lemma quiet_not_event: "quiet c \<Longrightarrow> \<not> is_event c"
  by (cases c) auto

lemma refused_event:
  assumes "refused rid p inp r tr"
  shows "\<exists>pre f e err. tr = pre @ [GFailed f e] \<and> (\<forall>c \<in> set pre. \<not> is_event c) \<and> r = Inl err \<and> failed_event rid p inp err f
    \<and> (\<forall>ep i res. GBackend ep i res \<notin> set tr)"
proof -
  from assms obtain pre gate t f e err where tr: "tr = pre @ gate @ [GNow t, GFailed f e]" "\<forall>c \<in> set pre. quiet c"
    "gate = [] \<or> (\<exists>k. gate = [GAdmit k False])" "r = Inl err" "failed_event rid p inp err f" unfolding refused_def by blast
  then have "\<forall>c \<in> set (pre @ gate @ [GNow t]). \<not> is_event c" by (auto dest: quiet_not_event)
  moreover have "GBackend ep i res \<notin> set tr" for ep i res using tr by auto
  moreover have "tr = (pre @ gate @ [GNow t]) @ [GFailed f e]" using tr(1) by simp
  ultimately show ?thesis using tr(4,5) by blast
qed

lemma forwarded_event:
  assumes "forwarded rid p inp target k r tr"
  shows "\<exists>pre ev. tr = pre @ [ev] \<and> (\<forall>c \<in> set pre. \<not> is_event c)
    \<and> (case r of Inl err \<Rightarrow> \<exists>f e. ev = GFailed f e \<and> failed_event rid p inp err f
       | Inr out \<Rightarrow> \<exists>c e. ev = GCompleted c e \<and> completed_event rid p inp out c)"
proof -
  from assms obtain pre a res b u t ev where
    tr: "tr = pre @ [GAdmit k True, GNow a, GBackend (rt_Endpoint target) inp res, GNow b, GBreakerNow u, GRecord k (\<not> isl res), GNow t, ev]"
      "\<forall>c \<in> set pre. quiet c"
    and ev: "case r of Inl err \<Rightarrow> isl res \<and> (\<exists>f e. ev = GFailed f e \<and> failed_event rid p inp err f \<and> if_Version f = rt_Version target)
        | Inr out \<Rightarrow> (\<exists>c e x. res = Inr x \<and> po_Outputs out = prs_Outputs x \<and> ev = GCompleted c e \<and> completed_event rid p inp out c
             \<and> po_ServedVersion out = rt_Version target \<and> po_IsCanary out = (\<not> rt_IsStable target) \<and> po_Latency out = b - a)"
    unfolding forwarded_def by blast
  let ?pre = "pre @ [GAdmit k True, GNow a, GBackend (rt_Endpoint target) inp res, GNow b, GBreakerNow u, GRecord k (\<not> isl res), GNow t]"
  have "tr = ?pre @ [ev]" "\<forall>c \<in> set ?pre. \<not> is_event c" using tr quiet_not_event by auto
  moreover have "case r of Inl err \<Rightarrow> \<exists>f e. ev = GFailed f e \<and> failed_event rid p inp err f
       | Inr out \<Rightarrow> \<exists>c e. ev = GCompleted c e \<and> completed_event rid p inp out c" using ev by (auto split: sum.splits)
  ultimately show ?thesis by blast
qed

text \<open>C36: Every request is reported by exactly one event, as its last call, under the request id minted at
  the start: a completion event carrying the served version, canary flag and latency of the answer
  when the request succeeds, and a failure event carrying the reason and the message of the returned
  error when it does not. The billed key is the principal's. The routing table is not changed.\<close>

theorem predict_reports_exactly_one_event:
  "case run_state (Predict S P p inp) s of (r, s') \<Rightarrow>
     gw_store s' = gw_store s \<and>
     (\<exists>rid pre ev. gw_trace s' = gw_trace s @ GRequestID rid # pre @ [ev] \<and> filter is_event pre = []
       \<and> (case r of
            Inl err \<Rightarrow> \<exists>f e. ev = GFailed f e \<and> if_RequestID f = rid \<and> if_ModelName f = pi_ModelName inp
              \<and> if_APIKeyID f = pr_APIKeyID p \<and> if_Message f = err_msg err \<and> reason_error (if_Reason f) err
          | Inr out \<Rightarrow> \<exists>c e. ev = GCompleted c e \<and> ic_RequestID c = rid \<and> po_RequestID out = rid
              \<and> ic_ModelName c = pi_ModelName inp \<and> ic_APIKeyID c = pr_APIKeyID p \<and> ic_Version c = po_ServedVersion out
              \<and> ic_IsCanary c = po_IsCanary out \<and> ic_Latency c = po_Latency out))"
proof -
  obtain r s' where run: "run_state (Predict S P p inp) s = (r, s')" by fastforce
  from Predict_run [OF run] obtain rid tr where st: "gw_store s' = gw_store s" "gw_trace s' = gw_trace s @ GRequestID rid # tr"
    and "refused rid p inp r tr \<or> (\<exists>t k. forwarded rid p inp t k r tr)" by blast
  then have "\<exists>pre ev. tr = pre @ [ev] \<and> (\<forall>c \<in> set pre. \<not> is_event c)
    \<and> (case r of Inl err \<Rightarrow> \<exists>f e. ev = GFailed f e \<and> failed_event rid p inp err f
       | Inr out \<Rightarrow> \<exists>c e. ev = GCompleted c e \<and> completed_event rid p inp out c)"
    using refused_event forwarded_event by fastforce
  with st run show ?thesis unfolding failed_event_def completed_event_def by (auto simp: filter_empty_conv)
qed

text \<open>The ports of a small gateway: no quota checker, a limiter that answers, a backend that returns its input.\<close>

definition demo_gateway :: "unit GatewayPorts" where
  "demo_gateway = \<lparr>gp_newRequestID = (\<lambda>w. (''r1'', w)), gp_IsBlocked = None, gp_Allow = (\<lambda>k w. ((True, None), w)),
     gp_rand = (\<lambda>n w. (0, w)), gp_Predict = (\<lambda>ep i w. (Inr \<lparr>prs_Outputs = pi_Inputs i\<rparr>, w)),
     gp_PublishCompleted = (\<lambda>ev w. (None, w)), gp_PublishFailed = (\<lambda>ev w. (None, w)),
     gp_now = (\<lambda>w. (7, w)), gp_breakerNow = (\<lambda>w. (7, w))\<rparr>"

definition demo_input :: PredictInput where
  "demo_input = \<lparr>pi_ModelName = ''m'', pi_Inputs = [(''x'', \<lparr>tn_Shape = [2], tn_DType = ''bool'', tn_Data = [1, 0]\<rparr>)],
     pi_VersionOverride = '''', pi_IdempotencyKey = ''''\<rparr>"

definition demo_principal :: Principal where
  "demo_principal = \<lparr>pr_APIKeyID = ''k1'', pr_Team = ''a''\<rparr>"

definition demo_gw :: "(unit RouteStore, unit) gw" where
  "demo_gw = \<lparr>gw_world = (), gw_store = \<lparr>st_rdb = (), st_table = [(routeKey ''a'' ''m'',
       \<lparr>r_OwnerTeam = ''a'', r_ModelName = ''m'', r_Targets = [\<lparr>rt_Version = ''v1'', rt_Endpoint = ''e1'',
          rt_WeightBps = 10000, rt_Status = TargetStatusActive, rt_IsStable = True\<rparr>], r_UpdatedAt = 1\<rparr>)]\<rparr>,
     gw_breakers = \<lparr>br_cfg = defaultBreakerConfig, br_breakers = []\<rparr>, gw_trace = []\<rparr>"

definition demo_client :: "unit RedisClient" where
  "demo_client = \<lparr>rdb_HSet = (\<lambda>h k b w. (None, w)), rdb_HDel = (\<lambda>h k w. (None, w)), rdb_HGetAll = (\<lambda>h w. (Inr [], w))\<rparr>"

lemma demo_predict:
  "GBackend ''e1'' demo_input (Inr \<lparr>prs_Outputs = pi_Inputs demo_input\<rparr>) \<in> set (gw_trace (snd
     (run_state (Predict (RouteStore_ops demo_client) demo_gateway demo_principal demo_input) demo_gw)))"
  by code_simp

text \<open>C13: A backend is called only for a valid request, after the rate limiter admitted the caller's key
  or failed to answer and the breaker of the chosen target admitted the call, and the endpoint is the
  one stored for an eligible target of the route under the caller's own team (the pinned version when
  the request names one). There is one backend call at most, and its outcome is recorded on that
  breaker: a success when the backend answered and a failure otherwise.\<close>

theorem predict_dials_only_admitted_targets:
  assumes run: "run_state (Predict (RouteStore_ops M) P p inp) s = (r, s')" "gw_trace s' = gw_trace s @ tr"
    and call: "GBackend ep inp' res \<in> set tr"
  shows "validatePredict inp = None \<and> inp' = inp \<and> admitted_by_limiter p tr \<and>
    (\<exists>route t k pre a b u now ev. store_Get (routeKey (pr_Team p) (pi_ModelName inp)) (gw_store s) = Inr route
       \<and> t \<in> set (r_Targets route) \<and> Eligible (rt_Status t) \<and> ep = rt_Endpoint t
       \<and> (pi_VersionOverride inp \<noteq> '''' \<longrightarrow> rt_Version t = pi_VersionOverride inp) \<and> k = (r_ModelName route, rt_Version t)
       \<and> tr = pre @ [GAdmit k True, GNow a, GBackend ep inp res, GNow b, GBreakerNow u, GRecord k (\<not> isl res), GNow now, ev]
       \<and> (\<forall>c \<in> set pre. quiet c) \<and> is_event ev)"
proof -
  from Predict_run [OF run(1)] obtain rid tr' where "gw_trace s' = gw_trace s @ GRequestID rid # tr'"
    and ends: "refused rid p inp r tr' \<or> (validatePredict inp = None \<and> admitted_by_limiter p tr'
       \<and> (\<exists>t k. reachable_target (RouteStore_ops M) (gw_store s) p inp t k \<and> forwarded rid p inp t k r tr'))" by blast
  with run(2) have tr: "tr = GRequestID rid # tr'" by simp
  have "\<not> refused rid p inp r tr'" using refused_event [of rid p inp r tr'] call tr by auto
  with ends obtain t k where v: "validatePredict inp = None" "admitted_by_limiter p tr'"
    and t: "reachable_target (RouteStore_ops M) (gw_store s) p inp t k" and f: "forwarded rid p inp t k r tr'" by blast
  from f obtain pre a res' b u now ev where
    tr': "tr' = pre @ [GAdmit k True, GNow a, GBackend (rt_Endpoint t) inp res', GNow b, GBreakerNow u, GRecord k (\<not> isl res'), GNow now, ev]"
      "\<forall>c \<in> set pre. quiet c" "is_event ev" unfolding forwarded_def by (fastforce split: sum.splits)
  have "GBackend ep inp' res \<notin> set pre" "ev \<noteq> GBackend ep inp' res" using tr'(2,3) by auto
  then have "ep = rt_Endpoint t" "inp' = inp" "res' = res" using call tr tr'(1) by auto
  moreover have "admitted_by_limiter p tr" using v(2) unfolding tr admitted_by_limiter_def
    by (metis append_Cons gcall.distinct(1) set_ConsD)
  moreover have "\<forall>c \<in> set (GRequestID rid # pre). quiet c"
    "tr = (GRequestID rid # pre) @ [GAdmit k True, GNow a, GBackend (rt_Endpoint t) inp res', GNow b, GBreakerNow u, GRecord k (\<not> isl res'), GNow now, ev]"
    using tr tr' by auto
  ultimately show ?thesis using v(1) t tr'(3) unfolding reachable_target_def RouteStore_ops_def by auto
qed

theorem predict_dials_only_admitted_targets_witness:
  "\<exists>r s'. run_state (Predict (RouteStore_ops demo_client) demo_gateway demo_principal demo_input) demo_gw = (r, s')
     \<and> admitted_by_limiter demo_principal (gw_trace s')"
proof -
  obtain r s' where run: "run_state (Predict (RouteStore_ops demo_client) demo_gateway demo_principal demo_input) demo_gw = (r, s')"
    by fastforce
  with demo_predict have call: "GBackend ''e1'' demo_input (Inr \<lparr>prs_Outputs = pi_Inputs demo_input\<rparr>) \<in> set (gw_trace s')" by simp
  have "gw_trace s' = gw_trace demo_gw @ gw_trace s'" by (simp add: demo_gw_def)
  from predict_dials_only_admitted_targets [OF run this call] run show ?thesis by blast
qed

text \<open>The number of bytes a shape asks for, over the integers.\<close>

definition shape_size :: "Tensor \<Rightarrow> int" where
  "shape_size t = sint (elemSize (tn_DType t)) * prod_list (map sint (tn_Shape t))"

definition tensor_fits :: "Tensor \<Rightarrow> bool" where
  "tensor_fits t \<longleftrightarrow> tn_Data t \<noteq> [] \<and> (sint (elemSize (tn_DType t)) > 0 \<longrightarrow>
     (\<forall>d \<in> set (tn_Shape t). 0 \<le> sint d) \<and> (shape_size t = 0 \<or> int (length (tn_Data t)) = shape_size t))"

lemma prod_list_pos: "\<forall>d \<in> set ds. (0::int) < d \<Longrightarrow> 0 < prod_list ds"
  by (induction ds) auto

lemma sint_mult_exact:
  fixes a b :: "64 word"
  assumes "0 \<le> sint a" "0 \<le> sint b" "sint a * sint b < 2 ^ 63"
  shows "sint (a * b) = sint a * sint b"
proof -
  have "signed_take_bit 63 (sint a * sint b) = sint a * sint b"
    using assms mult_nonneg_nonneg [OF assms(1,2)] by (intro signed_take_bit_int_eq_self) linarith+
  then show ?thesis by (simp add: sint_word_ariths)
qed

lemma shapeBytes_exact:
  assumes "\<forall>d \<in> set ds. 0 < sint d" "0 < sint w" "sint w * prod_list (map sint ds) < 2 ^ 63"
  shows "\<exists>v. shapeBytes n w ds = Inr v \<and> sint v = sint w * prod_list (map sint ds)"
  using assms
proof (induction n w ds rule: shapeBytes.induct)
  case (2 n w d ds)
  have "1 \<le> prod_list (map sint ds)" using prod_list_pos [of "map sint ds"] "2.prems"(1) by (simp add: int_one_le_iff_zero_less)
  moreover have "0 < sint w * sint d" using "2.prems" by simp
  ultimately have "sint w * sint d * 1 \<le> sint w * sint d * prod_list (map sint ds)" by (intro mult_left_mono) auto
  then have "sint w * sint d < 2 ^ 63" using "2.prems"(3) by (simp add: mult.assoc)
  then have eq: "sint (w * d) = sint w * sint d" using "2.prems" by (intro sint_mult_exact) auto
  with "2.IH" "2.prems" show ?case by (auto simp: mult.assoc)
qed simp

lemma shapeBytes_negative: "(\<exists>v. shapeBytes n w ds = Inr v) \<longleftrightarrow> (\<forall>d \<in> set ds. 0 \<le> sint d)"
  by (induction n w ds rule: shapeBytes.induct) auto

lemma shapeBytes_zero: "w = 0 \<or> 0 \<in> set ds \<Longrightarrow> shapeBytes n w ds = Inr v \<Longrightarrow> v = 0"
  by (induction n w ds rule: shapeBytes.induct) (auto split: if_splits)

lemma validateTensor_exact:
  assumes "shape_size t < 2 ^ 63"
  shows "validateTensor n t = None \<longleftrightarrow> tensor_fits t"
proof (cases "tn_Data t = [] \<or> \<not> 0 < sint (elemSize (tn_DType t)) \<or> (\<exists>d \<in> set (tn_Shape t). sint d < 0)")
  case True
  then show ?thesis
  proof (elim disjE)
    assume "\<exists>d \<in> set (tn_Shape t). sint d < 0"
    with shapeBytes_negative [of n "elemSize (tn_DType t)" "tn_Shape t"] obtain e where
      "shapeBytes n (elemSize (tn_DType t)) (tn_Shape t) = Inl e" "\<not> (\<forall>d \<in> set (tn_Shape t). 0 \<le> sint d)"
      by (metis sum.exhaust not_less)
    then show ?thesis by (auto simp: validateTensor_def tensor_fits_def Let_def elemSize_def)
  qed (auto simp: validateTensor_def tensor_fits_def Let_def)
next
  case False
  then have dims: "\<forall>d \<in> set (tn_Shape t). 0 \<le> sint d" and elem: "0 < sint (elemSize (tn_DType t))" by auto
  then obtain v where v: "shapeBytes n (elemSize (tn_DType t)) (tn_Shape t) = Inr v" using shapeBytes_negative by blast
  have "sint v = shape_size t"
  proof (cases "0 \<in> set (tn_Shape t)")
    case True
    then have "prod_list (map sint (tn_Shape t)) = 0" by (force simp: prod_list_zero_iff)
    with shapeBytes_zero [OF disjI2 [OF True] v] show ?thesis by (simp add: shape_size_def)
  next
    case nz: False
    have "\<forall>d \<in> set (tn_Shape t). 0 < sint d"
    proof
      fix d assume "d \<in> set (tn_Shape t)"
      with nz dims have "d \<noteq> 0" "0 \<le> sint d" by auto
      then show "0 < sint d" by (metis order_le_less signed_eq_0_iff)
    qed
    from shapeBytes_exact [OF this elem, of n] assms v show ?thesis by (auto simp: shape_size_def)
  qed
  moreover have "0 \<le> shape_size t" unfolding shape_size_def using elem dims
    by (intro mult_nonneg_nonneg prod_list_nonneg) auto
  ultimately show ?thesis using False v dims elem by (auto simp: validateTensor_def tensor_fits_def Let_def)
qed

lemma validateTensors_exact:
  "\<forall>(name, t) \<in> set ts. shape_size t < 2 ^ 63 \<Longrightarrow> validateTensors ts = None \<longleftrightarrow> (\<forall>(name, t) \<in> set ts. tensor_fits t)"
proof (induction ts rule: validateTensors.induct)
  case (2 name t rest)
  then have "validateTensor name t = None \<longleftrightarrow> tensor_fits t" by (intro validateTensor_exact) simp
  with 2 show ?case by (cases "validateTensor name t") auto
qed simp

text \<open>Validation is exact. For a request whose shapes describe fewer than \<open>2^63\<close> bytes, \<open>validatePredict\<close>
  accepts exactly when the model name and the tensors are present and every tensor has data, no
  negative dimension and, for a known element type and a non-zero shape product, exactly as many
  bytes as its shape and type ask for; in every other case it reports \<open>ErrInvalidInput\<close>.
\<close>

theorem validatePredict_exact:
  assumes "\<forall>(name, t) \<in> set (pi_Inputs inp). shape_size t < 2 ^ 63"
  shows "(validatePredict inp = None \<longleftrightarrow> pi_ModelName inp \<noteq> '''' \<and> pi_Inputs inp \<noteq> []
            \<and> (\<forall>(name, t) \<in> set (pi_Inputs inp). tensor_fits t))
    \<and> (\<forall>err. validatePredict inp = Some err \<longrightarrow> errors_Is err ErrInvalidInput)"
proof -
  from validateTensors_exact [OF assms] show ?thesis
    using validatePredict_error by (auto simp: validatePredict_def)
qed

theorem validatePredict_exact_witness:
  "validatePredict demo_input = None \<longleftrightarrow> tensor_fits \<lparr>tn_Shape = [2], tn_DType = ''bool'', tn_Data = [1, 0]\<rparr>"
  using validatePredict_exact [of demo_input] by (simp add: demo_input_def shape_size_def elemSize_def)

text \<open>
  Beyond that bound the product wraps: a shape of \<open>2^31\<close> by \<open>2^31\<close> elements of four bytes asks for
  \<open>2^64\<close> bytes, the computed size is 0, and one byte of data is accepted.
\<close>

lemma shape_overflow_accepted:
  "validateTensor ''x'' \<lparr>tn_Shape = [2147483648, 2147483648], tn_DType = ''float32'', tn_Data = [1]\<rparr> = None
   \<and> shape_size \<lparr>tn_Shape = [2147483648, 2147483648], tn_DType = ''float32'', tn_Data = [1 :: 8 word]\<rparr> = 2 ^ 64"
  by (simp add: validateTensor_def elemSize_def shape_size_def)


end
