(* ===== verification/FeatureFold.thy ===== *)
theory FeatureFold
  imports FPrelude "HOL-Library.Product_Lexorder"
begin

text \<open>
  The event-sourcing core of the feature store (\<^verbatim>\<open>models.go\<close>): the types of the log and of its
  projections, the two folds over a log (\<open>ProjectLatest\<close> for online serving, \<open>ProjectAsOf\<close> for
  point-in-time reads) and the fold \<open>foldView\<close> of a view's definition events, with the facts that make
  them sound projections: they do not depend on the order in which the events are presented, they
  can be computed incrementally, and a point-in-time read never sees a later event.
\<close>

section \<open>Types\<close>

definition MaxBatchSize :: int where
  "MaxBatchSize = 1000"

definition DefaultPageSize :: int where
  "DefaultPageSize = 20"

definition MaxPageSize :: int where
  "MaxPageSize = 100"

datatype FeatureValueType = FeatureTypeUnspecified | FeatureTypeInt64 | FeatureTypeDouble | FeatureTypeString
  | FeatureTypeBool | FeatureTypeTimestamp | FeatureTypeDoubleList | FeatureTypeStruct

fun FeatureValueType_String :: "FeatureValueType \<Rightarrow> string" where
  "FeatureValueType_String FeatureTypeInt64 = ''INT64''"
| "FeatureValueType_String FeatureTypeDouble = ''DOUBLE''"
| "FeatureValueType_String FeatureTypeString = ''STRING''"
| "FeatureValueType_String FeatureTypeBool = ''BOOL''"
| "FeatureValueType_String FeatureTypeTimestamp = ''TIMESTAMP''"
| "FeatureValueType_String FeatureTypeDoubleList = ''DOUBLE_LIST''"
| "FeatureValueType_String FeatureTypeStruct = ''STRUCT''"
| "FeatureValueType_String FeatureTypeUnspecified = ''UNSPECIFIED''"

record Entity =
  en_Name :: string
  en_JoinKey :: string
  en_Description :: string

record FeatureSpec =
  sp_Name :: string
  sp_ValueType :: FeatureValueType
  sp_Description :: string
  sp_Dimension :: int

record FeatureView =
  fv_ID :: string
  fv_Name :: string
  fv_Description :: string
  fv_Entity :: Entity
  fv_Features :: "FeatureSpec list"
  fv_SchemaVersion :: int
  fv_OwnerUserID :: string
  fv_OwnerTeam :: string
  fv_CreatedAt :: time
  fv_UpdatedAt :: time
  fv_DeletedAt :: time

definition zeroView :: FeatureView where
  "zeroView = \<lparr>fv_ID = '''', fv_Name = '''', fv_Description = '''',
     fv_Entity = \<lparr>en_Name = '''', en_JoinKey = '''', en_Description = ''''\<rparr>, fv_Features = [], fv_SchemaVersion = 0,
     fv_OwnerUserID = '''', fv_OwnerTeam = '''', fv_CreatedAt = 0, fv_UpdatedAt = 0, fv_DeletedAt = 0\<rparr>"

definition IsDeleted :: "FeatureView \<Rightarrow> bool" where
  "IsDeleted v = (fv_DeletedAt v \<noteq> 0)"

definition specByName :: "FeatureView \<Rightarrow> string \<Rightarrow> FeatureSpec option" where
  "specByName v name = find (\<lambda>s. sp_Name s = name) (fv_Features v)"

text \<open>A tagged union: the fields that do not belong to the kind are zero. Floats are 64-bit patterns.\<close>

record FeatureValue =
  vl_Kind :: FeatureValueType
  vl_Int :: "64 word"
  vl_Double :: "64 word"
  vl_Str :: string
  vl_Bool :: bool
  vl_Time :: time
  vl_List :: "64 word list"
  vl_Struct :: "(string \<times> goany) list"

text \<open>A map of named values is the list of its entries, in the order a loop over it takes.\<close>

type_synonym featureMap = "(string \<times> FeatureValue) list"

record FeatureRow =
  rw_EntityID :: string
  rw_Values :: featureMap
  rw_EventTime :: time

record ViewDefinition =
  vd_ID :: string
  vd_Name :: string
  vd_Description :: string
  vd_Entity :: Entity
  vd_Features :: "FeatureSpec list"
  vd_SchemaVersion :: int
  vd_OwnerUserID :: string
  vd_OwnerTeam :: string

datatype EventType = FeatureEventViewDefined | FeatureEventValuesWritten | FeatureEventViewDeleted

record FeatureEvent =
  fe_ID :: string
  fe_Type :: EventType
  fe_FeatureViewID :: string
  fe_Version :: int
  fe_EntityID :: string
  fe_Values :: featureMap
  fe_EventTime :: time
  fe_ViewDef :: "ViewDefinition option"
  fe_AppendedAt :: time

record FeatureVector =
  fc_EntityID :: string
  fc_Values :: featureMap
  fc_AsOfVersion :: int
  fc_EventTime :: time
  fc_SchemaVersion :: int

type_synonym projection = "string \<rightharpoonup> FeatureVector"

section \<open>Errors\<close>

definition ErrValidation :: goerr where
  "ErrValidation = New ''featurestore: validation failed''"

definition ErrViewNotFound :: goerr where
  "ErrViewNotFound = New ''featurestore: feature view not found''"

definition ErrViewDeleted :: goerr where
  "ErrViewDeleted = New ''featurestore: feature view is deleted''"

definition ErrSchemaViolation :: goerr where
  "ErrSchemaViolation = New ''featurestore: schema violation''"

definition ErrViewNameConflict :: goerr where
  "ErrViewNameConflict = New ''featurestore: feature view entity conflict''"

definition ErrAsOfRequired :: goerr where
  "ErrAsOfRequired = New ''featurestore: as_of timestamp is required for historical reads''"

definition ErrBatchTooLarge :: goerr where
  "ErrBatchTooLarge = New ''featurestore: batch exceeds maximum size''"

definition ErrEventLogNotFound :: goerr where
  "ErrEventLogNotFound = New ''featurestore: event log empty for view''"

lemmas fs_errors = ErrValidation_def ErrViewNotFound_def ErrViewDeleted_def ErrSchemaViolation_def
  ErrViewNameConflict_def ErrAsOfRequired_def ErrBatchTooLarge_def ErrEventLogNotFound_def

section \<open>The folds\<close>

text \<open>
  \<^verbatim>\<open>sort.Slice\<close> leaves the order of equal versions open; here equal versions keep their order. The
  facts below assume distinct versions, for which there is one sorted order.
\<close>

definition sortedByVersion :: "FeatureEvent list \<Rightarrow> FeatureEvent list" where
  "sortedByVersion events = sort_key fe_Version events"

definition vectorOf :: "int \<Rightarrow> FeatureEvent \<Rightarrow> FeatureVector" where
  "vectorOf schemaVersion e = \<lparr>fc_EntityID = fe_EntityID e, fc_Values = fe_Values e, fc_AsOfVersion = fe_Version e,
     fc_EventTime = fe_EventTime e, fc_SchemaVersion = schemaVersion\<rparr>"

definition latest_step :: "int \<Rightarrow> FeatureEvent \<Rightarrow> projection \<Rightarrow> projection" where
  "latest_step schemaVersion e out =
     (if fe_Type e \<noteq> FeatureEventValuesWritten then out
      else out(fe_EntityID e \<mapsto> vectorOf schemaVersion e))"

definition ProjectLatest :: "FeatureEvent list \<Rightarrow> int \<Rightarrow> projection" where
  "ProjectLatest events schemaVersion = fold (latest_step schemaVersion) (sortedByVersion events) Map.empty"

definition moreRecentAsOf :: "FeatureEvent \<Rightarrow> FeatureEvent \<Rightarrow> bool" where
  "moreRecentAsOf candidate current =
     (if fe_EventTime candidate > fe_EventTime current then True
      else if fe_EventTime candidate = fe_EventTime current then fe_Version candidate > fe_Version current
      else False)"

definition best_step :: "time \<Rightarrow> FeatureEvent \<Rightarrow> (string \<rightharpoonup> FeatureEvent) \<Rightarrow> (string \<rightharpoonup> FeatureEvent)" where
  "best_step asOf e best =
     (if fe_Type e \<noteq> FeatureEventValuesWritten then best
      else if fe_EventTime e > asOf then best
      else case best (fe_EntityID e) of
        None \<Rightarrow> best(fe_EntityID e \<mapsto> e)
      | Some cur \<Rightarrow> if moreRecentAsOf e cur then best(fe_EntityID e \<mapsto> e) else best)"

definition ProjectAsOf :: "FeatureEvent list \<Rightarrow> time \<Rightarrow> int \<Rightarrow> projection" where
  "ProjectAsOf events asOf schemaVersion =
     (\<lambda>eid. map_option (\<lambda>e. (vectorOf schemaVersion e)\<lparr>fc_EntityID := eid\<rparr>) (fold (best_step asOf) events Map.empty eid))"

text \<open>One event of \<^verbatim>\<open>foldView\<close>, on the view so far and the flag that a definition was seen.\<close>

fun fold_event :: "FeatureEvent \<Rightarrow> FeatureView \<times> bool \<Rightarrow> FeatureView \<times> bool" where
  "fold_event e (view, defined) = (case fe_Type e of
     FeatureEventViewDefined \<Rightarrow> (case fe_ViewDef e of
        None \<Rightarrow> (view, defined)
      | Some d \<Rightarrow>
          (view\<lparr>fv_CreatedAt := (if \<not> defined then fe_EventTime e else fv_CreatedAt view),
                fv_ID := vd_ID d, fv_Name := vd_Name d, fv_Description := vd_Description d,
                fv_Entity := vd_Entity d, fv_Features := vd_Features d, fv_SchemaVersion := vd_SchemaVersion d,
                fv_OwnerUserID := vd_OwnerUserID d, fv_OwnerTeam := vd_OwnerTeam d,
                fv_UpdatedAt := fe_EventTime e\<rparr>, True))
   | FeatureEventViewDeleted \<Rightarrow> (view\<lparr>fv_DeletedAt := fe_EventTime e, fv_UpdatedAt := fe_EventTime e\<rparr>, defined)
   | FeatureEventValuesWritten \<Rightarrow> (view, defined))"

text \<open>The second result of \<^verbatim>\<open>foldView\<close>, whether the view was defined, is \<open>None\<close> against \<open>Some\<close> in \<open>foldView\<close>.\<close>

definition foldView_raw :: "FeatureEvent list \<Rightarrow> FeatureView \<times> bool" where
  "foldView_raw events = fold fold_event (sortedByVersion events) (zeroView, False)"

definition foldView :: "FeatureEvent list \<Rightarrow> FeatureView option" where
  "foldView events = (case foldView_raw events of (view, True) \<Rightarrow> Some view | _ \<Rightarrow> None)"

section \<open>What the folds compute\<close>

definition written_for :: "string \<Rightarrow> FeatureEvent \<Rightarrow> bool" where
  "written_for eid e \<longleftrightarrow> fe_Type e = FeatureEventValuesWritten \<and> fe_EntityID e = eid"

text \<open>The value event of the entity with the highest version.\<close>

definition is_latest :: "FeatureEvent list \<Rightarrow> string \<Rightarrow> FeatureEvent \<Rightarrow> bool" where
  "is_latest es eid e \<longleftrightarrow> e \<in> set es \<and> written_for eid e \<and> (\<forall>e' \<in> set es. written_for eid e' \<longrightarrow> fe_Version e' \<le> fe_Version e)"

text \<open>The value event of the entity, not later than \<open>asOf\<close>, with the greatest event time and, among those, version.\<close>

definition rank :: "FeatureEvent \<Rightarrow> int \<times> int" where
  "rank e = (fe_EventTime e, fe_Version e)"

definition visible :: "time \<Rightarrow> string \<Rightarrow> FeatureEvent \<Rightarrow> bool" where
  "visible asOf eid e \<longleftrightarrow> written_for eid e \<and> fe_EventTime e \<le> asOf"

definition is_as_of :: "FeatureEvent list \<Rightarrow> time \<Rightarrow> string \<Rightarrow> FeatureEvent \<Rightarrow> bool" where
  "is_as_of es asOf eid e \<longleftrightarrow> e \<in> set es \<and> visible asOf eid e \<and> (\<forall>e' \<in> set es. visible asOf eid e' \<longrightarrow> rank e' \<le> rank e)"

lemma sorted_key_unique:
  fixes f :: "'a \<Rightarrow> 'b :: linorder"
  assumes "mset xs = mset ys" "sorted (map f xs)" "sorted (map f ys)" "distinct (map f xs)"
  shows "xs = ys"
proof -
  have "mset (map f xs) = mset (map f ys)" using assms(1) by (metis mset_map)
  then have "map f xs = map f ys" using assms(2,3) by (metis properties_for_sort)
  moreover have "set xs = set ys" using assms(1) by (metis set_mset_mset)
  ultimately show ?thesis using assms(4) by (intro map_inj_on [of f]) (auto simp: distinct_map)
qed

lemma distinct_perm: "mset xs = mset ys \<Longrightarrow> distinct (map f xs) \<Longrightarrow> distinct (map f ys)"
  by (metis mset_map mset_eq_imp_distinct_iff)

lemma sortedByVersion_props [simp]:
  "mset (sortedByVersion es) = mset es" "set (sortedByVersion es) = set es" "sorted (map fe_Version (sortedByVersion es))"
  "distinct (map fe_Version (sortedByVersion es)) \<longleftrightarrow> distinct (map fe_Version es)"
  using distinct_perm [of es "sortedByVersion es" fe_Version] distinct_perm [of "sortedByVersion es" es fe_Version]
  by (auto simp: sortedByVersion_def)

lemma sortedByVersion_cong:
  assumes "mset es = mset es'" "distinct (map fe_Version es)"
  shows "sortedByVersion es = sortedByVersion es'"
  by (rule sorted_key_unique [of _ _ fe_Version]) (use assms in simp_all)

lemma sortedByVersion_id: "sorted (map fe_Version es) \<Longrightarrow> sortedByVersion es = es"
  by (simp add: sortedByVersion_def sorted_sort_id sort_key_id_if_sorted)

lemma latest_step_at: "latest_step sv e out eid = (if written_for eid e then Some (vectorOf sv e) else out eid)"
  by (auto simp: latest_step_def written_for_def)

lemma latest_fold_last:
  "fold (latest_step sv) es out eid = (if filter (written_for eid) es = [] then out eid
     else Some (vectorOf sv (last (filter (written_for eid) es))))"
  by (induction es arbitrary: out) (auto simp: latest_step_at)

lemma latest_fold_add: "fold (latest_step sv) ys m = m ++ fold (latest_step sv) ys Map.empty"
  by (rule ext) (simp add: latest_fold_last map_add_def)

lemma sorted_last_max: "sorted (map f xs) \<Longrightarrow> x \<in> set xs \<Longrightarrow> f x \<le> f (last xs)"
  by (induction xs) auto

lemma ProjectLatest_is_latest:
  assumes "distinct (map fe_Version es)"
  shows "ProjectLatest es sv eid = Some v \<longleftrightarrow> (\<exists>e. is_latest es eid e \<and> v = vectorOf sv e)"
    and "ProjectLatest es sv eid = None \<longleftrightarrow> \<not> (\<exists>e \<in> set es. written_for eid e)"
proof -
  let ?f = "filter (written_for eid) (sortedByVersion es)"
  have eq: "ProjectLatest es sv eid = (if ?f = [] then None else Some (vectorOf sv (last ?f)))"
    by (simp add: ProjectLatest_def latest_fold_last)
  have nil: "?f = [] \<longleftrightarrow> \<not> (\<exists>e \<in> set es. written_for eid e)" by (simp add: filter_empty_conv)
  show "ProjectLatest es sv eid = None \<longleftrightarrow> \<not> (\<exists>e \<in> set es. written_for eid e)" using eq nil by simp
  have "is_latest es eid (last ?f)" if "?f \<noteq> []"
  proof -
    have "last ?f \<in> set ?f" using that by (rule last_in_set)
    then have "last ?f \<in> set es \<and> written_for eid (last ?f)" by simp
    moreover have "fe_Version e \<le> fe_Version (last ?f)" if "e \<in> set ?f" for e
      using that by (intro sorted_last_max sorted_filter) auto
    ultimately show ?thesis by (simp add: is_latest_def)
  qed
  moreover have "e = e'" if "is_latest es eid e" "is_latest es eid e'" for e e'
  proof -
    from that have "fe_Version e = fe_Version e'" by (auto simp: is_latest_def intro: antisym)
    with that assms show ?thesis by (auto simp: is_latest_def distinct_map inj_on_def)
  qed
  moreover have "?f \<noteq> []" if "is_latest es eid e" for e using that nil by (auto simp: is_latest_def)
  ultimately show "ProjectLatest es sv eid = Some v \<longleftrightarrow> (\<exists>e. is_latest es eid e \<and> v = vectorOf sv e)"
    using eq by (cases "?f = []") auto
qed

lemma ProjectLatest_cong:
  "mset es = mset es' \<Longrightarrow> distinct (map fe_Version es) \<Longrightarrow> ProjectLatest es sv = ProjectLatest es' sv"
  by (simp add: ProjectLatest_def sortedByVersion_cong)

lemma ProjectLatest_append:
  assumes "\<forall>x \<in> set xs. \<forall>y \<in> set ys. fe_Version x < fe_Version y" "distinct (map fe_Version (xs @ ys))"
  shows "ProjectLatest (xs @ ys) sv = ProjectLatest xs sv ++ ProjectLatest ys sv"
proof -
  have "sortedByVersion (xs @ ys) = sortedByVersion xs @ sortedByVersion ys"
  proof (rule sorted_key_unique [of _ _ fe_Version])
    show "sorted (map fe_Version (sortedByVersion xs @ sortedByVersion ys))"
      using assms(1) by (auto simp: sorted_append intro: less_imp_le)
    show "distinct (map fe_Version (sortedByVersion (xs @ ys)))"
      unfolding sortedByVersion_props(4) by (rule assms(2))
  qed simp_all
  then show ?thesis unfolding ProjectLatest_def fold_append comp_apply
    by (simp only: fold_append comp_apply) (rule latest_fold_add)
qed

lemma moreRecentAsOf_rank: "moreRecentAsOf e c \<longleftrightarrow> rank c < rank e"
  by (auto simp: moreRecentAsOf_def rank_def)

lemma best_step_at:
  "best_step asOf e best eid =
     (if visible asOf eid e \<and> (case best eid of None \<Rightarrow> True | Some cur \<Rightarrow> rank cur < rank e) then Some e else best eid)"
  by (auto simp: best_step_def visible_def written_for_def moreRecentAsOf_rank split: option.split)

lemma best_fold_None:
  "fold (best_step asOf) es best eid = None \<longleftrightarrow> best eid = None \<and> \<not> (\<exists>e \<in> set es. visible asOf eid e)"
  by (induction es arbitrary: best) (auto simp: best_step_at)

lemma best_fold_Some:
  "fold (best_step asOf) es best eid = Some e \<Longrightarrow>
     (best eid = Some e \<or> (e \<in> set es \<and> visible asOf eid e)) \<and> (\<forall>b. best eid = Some b \<longrightarrow> rank b \<le> rank e)
     \<and> (\<forall>e' \<in> set es. visible asOf eid e' \<longrightarrow> rank e' \<le> rank e)"
proof (induction es arbitrary: best)
  case (Cons x es)
  from Cons.prems have "fold (best_step asOf) es (best_step asOf x best) eid = Some e" by simp
  note ih = Cons.IH [OF this]
  show ?case
  proof (cases "best eid")
    case None
    with ih show ?thesis by (auto simp: best_step_at split: if_splits)
  next
    case (Some cur)
    with ih show ?thesis by (cases "visible asOf eid x \<and> rank cur < rank x") (auto simp: best_step_at not_less)
  qed
qed simp

lemma ProjectAsOf_is_as_of:
  assumes "distinct (map fe_Version es)"
  shows "ProjectAsOf es asOf sv eid = Some v \<longleftrightarrow> (\<exists>e. is_as_of es asOf eid e \<and> v = vectorOf sv e)"
    and "ProjectAsOf es asOf sv eid = None \<longleftrightarrow> \<not> (\<exists>e \<in> set es. visible asOf eid e)"
proof -
  show "ProjectAsOf es asOf sv eid = None \<longleftrightarrow> \<not> (\<exists>e \<in> set es. visible asOf eid e)"
    by (simp add: ProjectAsOf_def best_fold_None)
  have uniq: "e = e'" if "is_as_of es asOf eid e" "is_as_of es asOf eid e'" for e e'
  proof -
    from that have "rank e = rank e'" by (auto simp: is_as_of_def intro: antisym)
    with that assms show ?thesis by (auto simp: is_as_of_def distinct_map inj_on_def rank_def)
  qed
  have best: "is_as_of es asOf eid e" if "fold (best_step asOf) es Map.empty eid = Some e" for e
    using best_fold_Some [OF that] by (simp add: is_as_of_def)
  have ent: "(vectorOf sv e)\<lparr>fc_EntityID := eid\<rparr> = vectorOf sv e" if "is_as_of es asOf eid e" for e
    using that by (simp add: is_as_of_def visible_def written_for_def vectorOf_def)
  show "ProjectAsOf es asOf sv eid = Some v \<longleftrightarrow> (\<exists>e. is_as_of es asOf eid e \<and> v = vectorOf sv e)"
  proof (cases "fold (best_step asOf) es Map.empty eid")
    case None
    then have "\<not> is_as_of es asOf eid e" for e by (auto simp: best_fold_None is_as_of_def)
    with None show ?thesis by (simp add: ProjectAsOf_def)
  next
    case (Some e)
    with uniq best ent show ?thesis by (auto simp: ProjectAsOf_def)
  qed
qed


text \<open>Events later than the instant do not change the projection at it.\<close>

lemma ProjectAsOf_later:
  assumes "\<forall>e \<in> set new. fe_Type e = FeatureEventValuesWritten \<longrightarrow> asOf < fe_EventTime e"
  shows "ProjectAsOf (es @ new) asOf sv = ProjectAsOf es asOf sv"
proof -
  have "fold (best_step asOf) new m = m" for m using assms by (induction new arbitrary: m) (auto simp: best_step_def)
  then show ?thesis by (simp add: ProjectAsOf_def)
qed

section \<open>Properties\<close>

definition demo_value :: "string \<Rightarrow> int \<Rightarrow> time \<Rightarrow> FeatureEvent" where
  "demo_value e v t = \<lparr>fe_ID = itoa v, fe_Type = FeatureEventValuesWritten, fe_FeatureViewID = ''view'', fe_Version = v,
     fe_EntityID = e, fe_Values = [], fe_EventTime = t, fe_ViewDef = None, fe_AppendedAt = 0\<rparr>"

text \<open>C40: A point-in-time read is exact and reproducible. For a log with distinct versions \<open>ProjectAsOf\<close> gives
  an entity exactly the value event with the greatest event time not after \<open>asOf\<close>, the greater version
  winning a tie, and nothing when there is none; the result does not depend on the order of the
  events, and appending events that are later than \<open>asOf\<close> (or carry no values) does not change it.\<close>

theorem as_of_read_is_exact:
  assumes "distinct (map fe_Version es)"
  shows "(\<forall>eid v. ProjectAsOf es asOf sv eid = Some v \<longleftrightarrow>
            (\<exists>e \<in> set es. visible asOf eid e \<and> (\<forall>e' \<in> set es. visible asOf eid e' \<longrightarrow> rank e' \<le> rank e) \<and> v = vectorOf sv e))
    \<and> (\<forall>eid. ProjectAsOf es asOf sv eid = None \<longleftrightarrow> (\<forall>e \<in> set es. \<not> visible asOf eid e))
    \<and> (\<forall>es'. mset es' = mset es \<longrightarrow> ProjectAsOf es' asOf sv = ProjectAsOf es asOf sv)
    \<and> (\<forall>new. (\<forall>e \<in> set new. fe_Type e = FeatureEventValuesWritten \<longrightarrow> asOf < fe_EventTime e) \<longrightarrow>
         ProjectAsOf (es @ new) asOf sv = ProjectAsOf es asOf sv)"
proof (intro conjI allI impI)
  fix eid v
  show "ProjectAsOf es asOf sv eid = Some v \<longleftrightarrow>
      (\<exists>e \<in> set es. visible asOf eid e \<and> (\<forall>e' \<in> set es. visible asOf eid e' \<longrightarrow> rank e' \<le> rank e) \<and> v = vectorOf sv e)"
    using ProjectAsOf_is_as_of(1) [OF assms] by (auto simp: is_as_of_def)
next
  fix eid
  show "ProjectAsOf es asOf sv eid = None \<longleftrightarrow> (\<forall>e \<in> set es. \<not> visible asOf eid e)"
    using ProjectAsOf_is_as_of(2) [OF assms] by auto
next
  fix es' assume perm: "mset es' = mset es"
  then have "is_as_of es' asOf eid e = is_as_of es asOf eid e" for eid e
    using mset_eq_setD [OF perm] by (simp add: is_as_of_def)
  moreover have "distinct (map fe_Version es')" using distinct_perm [OF perm [symmetric] assms] .
  ultimately have "ProjectAsOf es' asOf sv eid = Some v \<longleftrightarrow> ProjectAsOf es asOf sv eid = Some v" for eid v
    using ProjectAsOf_is_as_of(1) assms by simp
  then show "ProjectAsOf es' asOf sv = ProjectAsOf es asOf sv" by (intro ext) (metis not_Some_eq)
next
  fix new :: "FeatureEvent list"
  assume later: "\<forall>e \<in> set new. fe_Type e = FeatureEventValuesWritten \<longrightarrow> asOf < fe_EventTime e"
  then show "ProjectAsOf (es @ new) asOf sv = ProjectAsOf es asOf sv" by (rule ProjectAsOf_later)
qed

theorem as_of_read_is_exact_witness:
  "ProjectAsOf [demo_value ''u'' 1 10, demo_value ''u'' 2 5, demo_value ''u'' 3 30] 20 1 ''u'' = Some (vectorOf 1 (demo_value ''u'' 1 10))"
proof -
  let ?es = "[demo_value ''u'' 1 10, demo_value ''u'' 2 5, demo_value ''u'' 3 30]"
  have d: "distinct (map fe_Version ?es)" by (simp add: demo_value_def)
  have "\<exists>e \<in> set ?es. visible 20 ''u'' e \<and> (\<forall>e' \<in> set ?es. visible 20 ''u'' e' \<longrightarrow> rank e' \<le> rank e)
      \<and> vectorOf 1 (demo_value ''u'' 1 10) = vectorOf 1 e"
    by (rule bexI [of _ "demo_value ''u'' 1 10"]) (simp_all add: demo_value_def visible_def written_for_def rank_def)
  with as_of_read_is_exact [OF d, of 20 1] show ?thesis by blast
qed

text \<open>The online projection can be maintained incrementally. For distinct versions \<open>ProjectLatest\<close> gives an
  entity its value event of highest version, whatever the order of the events; and projecting a log
  extended by events of higher versions is the projection of the old log overridden by that of the
  new events alone, which is what the write path computes.\<close>

theorem latest_projection_is_incremental:
  assumes "distinct (map fe_Version (es @ new))" "\<forall>x \<in> set es. \<forall>y \<in> set new. fe_Version x < fe_Version y"
  shows "ProjectLatest (es @ new) sv = ProjectLatest es sv ++ ProjectLatest new sv
    \<and> (\<forall>eid v. ProjectLatest es sv eid = Some v \<longleftrightarrow>
         (\<exists>e \<in> set es. written_for eid e \<and> (\<forall>e' \<in> set es. written_for eid e' \<longrightarrow> fe_Version e' \<le> fe_Version e) \<and> v = vectorOf sv e))
    \<and> (\<forall>es'. mset es' = mset es \<longrightarrow> ProjectLatest es' sv = ProjectLatest es sv)"
proof (intro conjI allI impI)
  have d: "distinct (map fe_Version es)" using assms(1) by simp
  show "ProjectLatest (es @ new) sv = ProjectLatest es sv ++ ProjectLatest new sv"
    by (rule ProjectLatest_append [OF assms(2,1)])
  show "ProjectLatest es sv eid = Some v \<longleftrightarrow>
         (\<exists>e \<in> set es. written_for eid e \<and> (\<forall>e' \<in> set es. written_for eid e' \<longrightarrow> fe_Version e' \<le> fe_Version e) \<and> v = vectorOf sv e)" for eid v
    using ProjectLatest_is_latest(1) [OF d] by (auto simp: is_latest_def)
  show "mset es' = mset es \<Longrightarrow> ProjectLatest es' sv = ProjectLatest es sv" for es'
    using ProjectLatest_cong [of es es' sv] d by simp
qed

theorem latest_projection_is_incremental_witness:
  "ProjectLatest ([demo_value ''u'' 2 5, demo_value ''w'' 1 9] @ [demo_value ''u'' 3 1]) 1
     = ProjectLatest [demo_value ''u'' 2 5, demo_value ''w'' 1 9] 1 ++ ProjectLatest [demo_value ''u'' 3 1] 1"
proof -
  let ?es = "[demo_value ''u'' 2 5, demo_value ''w'' 1 9]" and ?new = "[demo_value ''u'' 3 1]"
  have d: "distinct (map fe_Version (?es @ ?new))" by (simp add: demo_value_def)
  have higher: "\<forall>x \<in> set ?es. \<forall>y \<in> set ?new. fe_Version x < fe_Version y" by (simp add: demo_value_def)
  from latest_projection_is_incremental [OF d higher, of 1] show ?thesis by blast
qed

text \<open>
  The fold of a view's definition events never clears the deletion mark: a view that was deleted stays
  deleted when it is defined again, although the name index marks it live.
\<close>

lemma redefinition_keeps_deletion:
  assumes "fe_Type e = FeatureEventViewDefined" "fold_event e (view, defined) = (view', defined')"
  shows "fv_DeletedAt view' = fv_DeletedAt view"
  using assms by (auto split: option.splits)

end
