(* ===== verification/FeatureLog.thy ===== *)
theory FeatureLog
  imports FeatureFold "HOL-Library.List_Lexorder" "HOL-Library.Char_ord"
begin

text \<open>
  The append-only log of the feature store: the port \<^verbatim>\<open>EventLog\<close> as a locale, and the Postgres adapter
  that implements it (\<^verbatim>\<open>repository/postgres/eventlog.go\<close>, \<^verbatim>\<open>codec.go\<close>) on the rows of its three tables.
  Each call of the database may fail: the state carries the faults to come, one per call, and a call
  whose transaction fails leaves the tables as they were. What Postgres itself decides is a parameter
  of the adapter: the precision of a stored time stamp and the pattern match of \<^verbatim>\<open>ILIKE\<close>. The ids of views
  and events are the text of a UUID; a call with a text that is not one fails in the driver, as a fault.
\<close>

section \<open>Codec\<close>

fun valueTypeTag :: "FeatureValueType \<Rightarrow> string" where
  "valueTypeTag FeatureTypeInt64 = ''INT64''"
| "valueTypeTag FeatureTypeDouble = ''DOUBLE''"
| "valueTypeTag FeatureTypeString = ''STRING''"
| "valueTypeTag FeatureTypeBool = ''BOOL''"
| "valueTypeTag FeatureTypeTimestamp = ''TIMESTAMP''"
| "valueTypeTag FeatureTypeDoubleList = ''DOUBLE_LIST''"
| "valueTypeTag FeatureTypeStruct = ''STRUCT''"
| "valueTypeTag FeatureTypeUnspecified = ''UNSPECIFIED''"

definition valueTypeFromTag :: "string \<Rightarrow> FeatureValueType" where
  "valueTypeFromTag tag = (if tag = ''INT64'' then FeatureTypeInt64 else if tag = ''DOUBLE'' then FeatureTypeDouble
     else if tag = ''STRING'' then FeatureTypeString else if tag = ''BOOL'' then FeatureTypeBool
     else if tag = ''TIMESTAMP'' then FeatureTypeTimestamp else if tag = ''DOUBLE_LIST'' then FeatureTypeDoubleList
     else if tag = ''STRUCT'' then FeatureTypeStruct else FeatureTypeUnspecified)"

record jsonValue =
  jv_Type :: string
  jv_Int :: "64 word"
  jv_Double :: "64 word"
  jv_Str :: string
  jv_Bool :: bool
  jv_Time :: "time option"
  jv_List :: "64 word list"
  jv_Struct :: "(string \<times> goany) list"

definition emptyJSON :: "string \<Rightarrow> jsonValue" where
  "emptyJSON tag = \<lparr>jv_Type = tag, jv_Int = 0, jv_Double = 0, jv_Str = '''', jv_Bool = False, jv_Time = None,
     jv_List = [], jv_Struct = []\<rparr>"

definition emptyValue :: "FeatureValueType \<Rightarrow> FeatureValue" where
  "emptyValue k = \<lparr>vl_Kind = k, vl_Int = 0, vl_Double = 0, vl_Str = '''', vl_Bool = False, vl_Time = 0,
     vl_List = [], vl_Struct = []\<rparr>"

definition toJSONValue :: "FeatureValue \<Rightarrow> jsonValue" where
  "toJSONValue v = (let jv = emptyJSON (valueTypeTag (vl_Kind v)) in case vl_Kind v of
     FeatureTypeInt64 \<Rightarrow> jv\<lparr>jv_Int := vl_Int v\<rparr>
   | FeatureTypeDouble \<Rightarrow> jv\<lparr>jv_Double := vl_Double v\<rparr>
   | FeatureTypeString \<Rightarrow> jv\<lparr>jv_Str := vl_Str v\<rparr>
   | FeatureTypeBool \<Rightarrow> jv\<lparr>jv_Bool := vl_Bool v\<rparr>
   | FeatureTypeTimestamp \<Rightarrow> jv\<lparr>jv_Time := Some (vl_Time v)\<rparr>
   | FeatureTypeDoubleList \<Rightarrow> jv\<lparr>jv_List := vl_List v\<rparr>
   | FeatureTypeStruct \<Rightarrow> jv\<lparr>jv_Struct := vl_Struct v\<rparr>
   | FeatureTypeUnspecified \<Rightarrow> jv)"

definition fromJSONValue :: "jsonValue \<Rightarrow> FeatureValue" where
  "fromJSONValue jv = (let v = emptyValue (valueTypeFromTag (jv_Type jv)) in case vl_Kind v of
     FeatureTypeInt64 \<Rightarrow> v\<lparr>vl_Int := jv_Int jv\<rparr>
   | FeatureTypeDouble \<Rightarrow> v\<lparr>vl_Double := jv_Double jv\<rparr>
   | FeatureTypeString \<Rightarrow> v\<lparr>vl_Str := jv_Str jv\<rparr>
   | FeatureTypeBool \<Rightarrow> v\<lparr>vl_Bool := jv_Bool jv\<rparr>
   | FeatureTypeTimestamp \<Rightarrow> (case jv_Time jv of Some t \<Rightarrow> v\<lparr>vl_Time := t\<rparr> | None \<Rightarrow> v)
   | FeatureTypeDoubleList \<Rightarrow> v\<lparr>vl_List := jv_List jv\<rparr>
   | FeatureTypeStruct \<Rightarrow> v\<lparr>vl_Struct := jv_Struct jv\<rparr>
   | FeatureTypeUnspecified \<Rightarrow> v)"

text \<open>
  The JSON text of a wire value is the wire value it reads back as. \<^verbatim>\<open>json.Unmarshal\<close> inverts \<^verbatim>\<open>json.Marshal\<close>
  on these types, but for the tag \<^verbatim>\<open>omitempty\<close>, which drops a negative zero (\<open>json_wire\<close>). \<^verbatim>\<open>json.Marshal\<close>
  refuses an infinite or NaN float, whose exponent bits are all ones, and a time outside the years 0 to
  9999. The values of a struct are those of a decoded protobuf struct, which has no integers.
\<close>

definition json_time_ok :: "time \<Rightarrow> bool" where
  "json_time_ok t = (- 31622400 * second \<le> t \<and> t < 315537897600 * second)"

definition json_wire :: "jsonValue \<Rightarrow> jsonValue" where
  "json_wire jv = jv\<lparr>jv_Double := (if jv_Double jv = neg_zero then 0 else jv_Double jv)\<rparr>"

fun json_any_ok :: "goany \<Rightarrow> bool" where
  "json_any_ok (AFloat w) = finite_float w"
| "json_any_ok (AList xs) = list_all json_any_ok xs"
| "json_any_ok (AMap kvs) = list_all (\<lambda>kv. json_any_ok (snd kv)) kvs"
| "json_any_ok _ = True"

definition json_ok :: "jsonValue \<Rightarrow> bool" where
  "json_ok jv = (finite_float (jv_Double jv) \<and> list_all finite_float (jv_List jv) \<and> list_all (\<lambda>kv. json_any_ok (snd kv)) (jv_Struct jv)
     \<and> (case jv_Time jv of None \<Rightarrow> True | Some t \<Rightarrow> json_time_ok t))"

definition marshalValues :: "featureMap \<Rightarrow> goerr + (string \<times> jsonValue) list option" where
  "marshalValues vs =
     (if vs = [] then Inr None
      else let wire = map (\<lambda>(n, v). (n, toJSONValue v)) vs in
        if list_all (\<lambda>(n, jv). json_ok jv) wire then Inr (Some (map (\<lambda>(n, jv). (n, json_wire jv)) wire))
        else Inl (Wrapf ''marshal feature values: '' (Dyn ''json: unsupported value'') ''''))"

definition unmarshalValues :: "(string \<times> jsonValue) list option \<Rightarrow> featureMap" where
  "unmarshalValues b = (case b of None \<Rightarrow> [] | Some wire \<Rightarrow> map (\<lambda>(n, jv). (n, fromJSONValue jv)) wire)"

record jsonSpec =
  js_Name :: string
  js_ValueType :: string
  js_Description :: string
  js_Dimension :: int

record jsonViewDef =
  jd_ID :: string
  jd_Name :: string
  jd_Description :: string
  jd_Entity :: Entity
  jd_Features :: "jsonSpec list"
  jd_SchemaVersion :: int
  jd_OwnerUserID :: string
  jd_OwnerTeam :: string

definition marshalViewDef :: "ViewDefinition option \<Rightarrow> jsonViewDef option" where
  "marshalViewDef = map_option (\<lambda>d. \<lparr>jd_ID = vd_ID d, jd_Name = vd_Name d, jd_Description = vd_Description d,
     jd_Entity = vd_Entity d,
     jd_Features = map (\<lambda>f. \<lparr>js_Name = sp_Name f, js_ValueType = valueTypeTag (sp_ValueType f),
        js_Description = sp_Description f, js_Dimension = sp_Dimension f\<rparr>) (vd_Features d),
     jd_SchemaVersion = vd_SchemaVersion d, jd_OwnerUserID = vd_OwnerUserID d, jd_OwnerTeam = vd_OwnerTeam d\<rparr>)"

definition unmarshalViewDef :: "jsonViewDef option \<Rightarrow> ViewDefinition option" where
  "unmarshalViewDef = map_option (\<lambda>d. \<lparr>vd_ID = jd_ID d, vd_Name = jd_Name d, vd_Description = jd_Description d,
     vd_Entity = jd_Entity d,
     vd_Features = map (\<lambda>f. \<lparr>sp_Name = js_Name f, sp_ValueType = valueTypeFromTag (js_ValueType f),
        sp_Description = js_Description f, sp_Dimension = js_Dimension f\<rparr>) (jd_Features d),
     vd_SchemaVersion = jd_SchemaVersion d, vd_OwnerUserID = jd_OwnerUserID d, vd_OwnerTeam = jd_OwnerTeam d\<rparr>)"

lemma valueType_roundtrip [simp]: "valueTypeFromTag (valueTypeTag t) = t"
  by (cases t) (simp_all add: valueTypeFromTag_def)

lemma spec_eta: "\<lparr>sp_Name = sp_Name x, sp_ValueType = sp_ValueType x, sp_Description = sp_Description x, sp_Dimension = sp_Dimension x\<rparr> = x"
  by simp

lemma viewDef_roundtrip [simp]: "unmarshalViewDef (marshalViewDef d) = d"
  by (cases d) (simp_all add: unmarshalViewDef_def marshalViewDef_def comp_def spec_eta)

text \<open>A value whose fields outside its kind are zero, and which is not a negative zero.\<close>

definition canonical :: "FeatureValue \<Rightarrow> bool" where
  "canonical v \<longleftrightarrow> (let z = emptyValue (vl_Kind v) in case vl_Kind v of
     FeatureTypeInt64 \<Rightarrow> v = z\<lparr>vl_Int := vl_Int v\<rparr>
   | FeatureTypeDouble \<Rightarrow> v = z\<lparr>vl_Double := vl_Double v\<rparr> \<and> vl_Double v \<noteq> neg_zero
   | FeatureTypeString \<Rightarrow> v = z\<lparr>vl_Str := vl_Str v\<rparr>
   | FeatureTypeBool \<Rightarrow> v = z\<lparr>vl_Bool := vl_Bool v\<rparr>
   | FeatureTypeTimestamp \<Rightarrow> v = z\<lparr>vl_Time := vl_Time v\<rparr>
   | FeatureTypeDoubleList \<Rightarrow> v = z\<lparr>vl_List := vl_List v\<rparr>
   | FeatureTypeStruct \<Rightarrow> v = z\<lparr>vl_Struct := vl_Struct v\<rparr>
   | FeatureTypeUnspecified \<Rightarrow> v = z)"

lemmas value_codec_defs = canonical_def fromJSONValue_def toJSONValue_def json_wire_def emptyJSON_def emptyValue_def Let_def
  valueTypeFromTag_def

text \<open>A value as it reads back from its JSON text.\<close>

definition json_value :: "FeatureValue \<Rightarrow> FeatureValue" where
  "json_value v = fromJSONValue (json_wire (toJSONValue v))"

lemma value_roundtrip: "canonical v \<Longrightarrow> json_value v = v"
  by (cases "vl_Kind v") (simp_all add: value_codec_defs json_value_def)

lemma value_canonical: "canonical (json_value v)"
  by (cases "vl_Kind v") (auto simp: value_codec_defs json_value_def neg_zero_nonzero neg_zero_nonzero [symmetric])

lemma json_value_idem [simp]: "json_value (json_value v) = json_value v"
  by (rule value_roundtrip [OF value_canonical])

lemma marshal_unmarshal:
  "marshalValues vs = Inr w \<Longrightarrow> unmarshalValues w = map (\<lambda>(n, v). (n, json_value v)) vs"
  by (auto simp: marshalValues_def unmarshalValues_def json_value_def Let_def split: if_splits)


section \<open>The port\<close>

record ListOptions =
  lo_PageSize :: int
  lo_PageToken :: string

record 'l EventLogOps =
  el_Append :: "string \<Rightarrow> FeatureEvent list \<Rightarrow> 'l \<Rightarrow> (goerr + FeatureEvent list \<times> int \<times> bool) \<times> 'l"
  el_Load :: "string \<Rightarrow> 'l \<Rightarrow> (goerr + FeatureEvent list) \<times> 'l"
  el_LoadView :: "string \<Rightarrow> 'l \<Rightarrow> (goerr + FeatureEvent list) \<times> 'l"
  el_ResolveViewIDByName :: "string \<Rightarrow> string \<Rightarrow> 'l \<Rightarrow> (goerr + string) \<times> 'l"
  el_ListViewIDs :: "string \<Rightarrow> string \<Rightarrow> ListOptions \<Rightarrow> 'l \<Rightarrow> (goerr + string list \<times> string) \<times> 'l"

text \<open>The events with the versions an append gives them: contiguous from \<open>n\<close> on.\<close>

fun numbered :: "int \<Rightarrow> FeatureEvent list \<Rightarrow> FeatureEvent list" where
  "numbered n [] = []"
| "numbered n (e # es) = e\<lparr>fe_Version := n\<rparr> # numbered (n + 1) es"

definition of_view :: "string \<Rightarrow> FeatureEvent \<Rightarrow> bool" where
  "of_view v e \<longleftrightarrow> fe_FeatureViewID e = v"

definition is_definition :: "FeatureEvent \<Rightarrow> bool" where
  "is_definition e \<longleftrightarrow> fe_Type e = FeatureEventViewDefined \<or> fe_Type e = FeatureEventViewDeleted"

text \<open>
  The contract. \<open>evs\<close> is the log as it reads back, \<open>stored\<close> what an event reads back as. A failed append
  changes nothing; a fresh one adds the events, numbered from the end of the log; a repeated one adds
  nothing and returns events of the log. A read returns the events of the view in order. While the log
  is healthy a read changes nothing and fails only for a view without events.
\<close>

locale event_log =
  fixes L :: "'l EventLogOps" and evs :: "'l \<Rightarrow> FeatureEvent list" and inv :: "'l \<Rightarrow> bool"
    and stored :: "FeatureEvent \<Rightarrow> FeatureEvent" and healthy :: "'l \<Rightarrow> bool"
  assumes stored_keeps: "fe_ID (stored e) = fe_ID e \<and> fe_Type (stored e) = fe_Type e \<and> fe_FeatureViewID (stored e) = fe_FeatureViewID e
      \<and> fe_Version (stored e) = fe_Version e \<and> fe_EntityID (stored e) = fe_EntityID e \<and> fe_ViewDef (stored e) = fe_ViewDef e"
    and gap_free: "inv l \<Longrightarrow> map fe_Version (evs l) = map int [1 ..< Suc (length (evs l))]"
    and append: "inv l \<Longrightarrow> es \<noteq> [] \<Longrightarrow> \<forall>e \<in> set es. of_view v e \<Longrightarrow> el_Append L k es l = (r, l') \<Longrightarrow>
      inv l' \<and> (case r of
         Inl err \<Rightarrow> evs l' = evs l
       | Inr (out, wt, False) \<Rightarrow> out = numbered (int (length (evs l)) + 1) es \<and> evs l' = evs l @ map stored out
           \<and> wt = int (length (evs l'))
       | Inr (out, wt, True) \<Rightarrow> evs l' = evs l \<and> set out \<subseteq> set (filter (of_view v) (evs l)))"
    and load: "inv l \<Longrightarrow> el_Load L v l = (rl, l') \<Longrightarrow> inv l' \<and> evs l' = evs l \<and> (case rl of
         Inl err \<Rightarrow> errors_Is err ErrEventLogNotFound \<longrightarrow> filter (of_view v) (evs l) = []
       | Inr es \<Rightarrow> es = filter (of_view v) (evs l) \<and> es \<noteq> [])"
    and load_view: "inv l \<Longrightarrow> el_LoadView L v l = (rl, l') \<Longrightarrow> inv l' \<and> evs l' = evs l \<and> (case rl of
         Inl err \<Rightarrow> errors_Is err ErrEventLogNotFound \<longrightarrow> filter (\<lambda>e. of_view v e \<and> is_definition e) (evs l) = []
       | Inr es \<Rightarrow> es = filter (\<lambda>e. of_view v e \<and> is_definition e) (evs l) \<and> es \<noteq> [])"
    and healthy_reads: "healthy l \<Longrightarrow> el_Load L v l = (rl, l') \<or> el_LoadView L v l = (rl, l') \<Longrightarrow>
      l' = l \<and> (\<forall>err. rl = Inl err \<longrightarrow> err = ErrEventLogNotFound)"
    and healthy_append: "healthy l \<Longrightarrow> el_Append L k es l = (r, l') \<Longrightarrow> healthy l'"
    and resolve: "inv l \<Longrightarrow> el_ResolveViewIDByName L team name l = (r', l') \<Longrightarrow> inv l' \<and> evs l' = evs l"
    and list_ids: "inv l \<Longrightarrow> el_ListViewIDs L team flt opts l = (r'', l') \<Longrightarrow> inv l' \<and> evs l' = evs l"

section \<open>The Postgres adapter\<close>

text \<open>\<^verbatim>\<open>strings.ToLower\<close> on ASCII text.\<close>

definition toLower :: "string \<Rightarrow> string" where
  "toLower s = map (\<lambda>c. let n = (of_char c :: nat) in if 65 \<le> n \<and> n \<le> 90 then char_of (n + 32) else c) s"

record nameRow =
  nr_ViewID :: string
  nr_Team :: string
  nr_Name :: string
  nr_NameLower :: string
  nr_IsDeleted :: bool
  nr_CreatedAt :: time
  nr_UpdatedAt :: time

record keyRow =
  kr_Key :: string
  kr_ViewID :: string
  kr_First :: int
  kr_Last :: int
  kr_CreatedAt :: time

record pgState =
  pg_events :: "FeatureEvent list"
  pg_names :: "nameRow list"
  pg_keys :: "keyRow list"
  pg_faults :: "string option list"

text \<open>The fault of the next call: its transaction or query fails with the error.\<close>

definition db_fault :: "pgState \<Rightarrow> goerr option \<times> pgState" where
  "db_fault s = (case pg_faults s of
     [] \<Rightarrow> (None, s) | f # fs \<Rightarrow> (map_option Dyn f, s\<lparr>pg_faults := fs\<rparr>))"

definition head :: "pgState \<Rightarrow> int" where
  "head s = fold max (map fe_Version (pg_events s)) 0"

text \<open>The row of an event as it reads back (\<^verbatim>\<open>scanEvents\<close> of what \<^verbatim>\<open>insertEvent\<close> wrote).\<close>

definition pg_row :: "(time \<Rightarrow> time) \<Rightarrow> FeatureEvent \<Rightarrow> FeatureEvent" where
  "pg_row pgtime e = e\<lparr>fe_Values := (case marshalValues (fe_Values e) of Inr wire \<Rightarrow> unmarshalValues wire | Inl _ \<Rightarrow> []),
     fe_EventTime := pgtime (fe_EventTime e), fe_ViewDef := unmarshalViewDef (marshalViewDef (fe_ViewDef e)),
     fe_AppendedAt := pgtime (fe_AppendedAt e)\<rparr>"

definition insertEvent :: "(time \<Rightarrow> time) \<Rightarrow> FeatureEvent \<Rightarrow> pgState \<Rightarrow> goerr + pgState" where
  "insertEvent pgtime e s = (case marshalValues (fe_Values e) of
     Inl err \<Rightarrow> Inl err
   | Inr _ \<Rightarrow>
       if fe_ID e \<in> fe_ID ` set (pg_events s) \<or> fe_Version e \<in> fe_Version ` set (pg_events s)
       then Inl (Wrapf (''duplicate event id '' @ fe_ID e @ '': '') ErrEventLogNotFound '''')
       else Inr (s\<lparr>pg_events := pg_events s @ [pg_row pgtime e]\<rparr>))"

definition upsertNameIndex :: "(time \<Rightarrow> time) \<Rightarrow> FeatureEvent \<Rightarrow> pgState \<Rightarrow> goerr + pgState" where
  "upsertNameIndex pgtime e s = (case fe_Type e of
     FeatureEventViewDefined \<Rightarrow> (case fe_ViewDef e of
        None \<Rightarrow> Inl (Dyn (''view-defined event '' @ fe_ID e @ '' missing view_def''))
      | Some d \<Rightarrow>
          let lower = toLower (vd_Name d);
              mine = find (\<lambda>r. nr_ViewID r = fe_FeatureViewID e) (pg_names s);
              team = (case mine of Some r \<Rightarrow> nr_Team r | None \<Rightarrow> vd_OwnerTeam d)
          in if \<exists>r \<in> set (pg_names s). nr_ViewID r \<noteq> fe_FeatureViewID e \<and> nr_Team r = team \<and> nr_NameLower r = lower
             then Inl (Wrapf (''view name '' @ quote (vd_Name d) @ '' already used in team '' @ quote (vd_OwnerTeam d) @ '': '') ErrEventLogNotFound '''')
             else case mine of
               Some _ \<Rightarrow> Inr (s\<lparr>pg_names := map (\<lambda>r. if nr_ViewID r = fe_FeatureViewID e
                   then r\<lparr>nr_Name := vd_Name d, nr_NameLower := lower, nr_UpdatedAt := pgtime (fe_EventTime e), nr_IsDeleted := False\<rparr>
                   else r) (pg_names s)\<rparr>)
             | None \<Rightarrow> Inr (s\<lparr>pg_names := pg_names s @ [\<lparr>nr_ViewID = fe_FeatureViewID e, nr_Team = vd_OwnerTeam d, nr_Name = vd_Name d,
                   nr_NameLower = lower, nr_IsDeleted = False, nr_CreatedAt = pgtime (fe_EventTime e), nr_UpdatedAt = pgtime (fe_EventTime e)\<rparr>]\<rparr>))
   | FeatureEventViewDeleted \<Rightarrow> Inr (s\<lparr>pg_names := map (\<lambda>r. if nr_ViewID r = fe_FeatureViewID e
         then r\<lparr>nr_IsDeleted := True, nr_UpdatedAt := pgtime (fe_EventTime e)\<rparr> else r) (pg_names s)\<rparr>)
   | FeatureEventValuesWritten \<Rightarrow> Inr s)"

definition lookupIdempotency :: "string \<Rightarrow> string \<Rightarrow> pgState \<Rightarrow> (int \<times> int) option" where
  "lookupIdempotency key viewID s =
     map_option (\<lambda>r. (kr_First r, kr_Last r)) (find (\<lambda>r. kr_Key r = key \<and> kr_ViewID r = viewID) (pg_keys s))"

definition recordIdempotency :: "string \<Rightarrow> string \<Rightarrow> int \<Rightarrow> int \<Rightarrow> time \<Rightarrow> pgState \<Rightarrow> pgState" where
  "recordIdempotency key viewID first lastV createdAt s =
     (if lookupIdempotency key viewID s \<noteq> None then s
      else s\<lparr>pg_keys := pg_keys s @ [\<lparr>kr_Key = key, kr_ViewID = viewID, kr_First = first, kr_Last = lastV, kr_CreatedAt = createdAt\<rparr>]\<rparr>)"

definition loadRange :: "int \<Rightarrow> int \<Rightarrow> pgState \<Rightarrow> FeatureEvent list" where
  "loadRange first lastV s = sortedByVersion (filter (\<lambda>e. first \<le> fe_Version e \<and> fe_Version e \<le> lastV) (pg_events s))"

text \<open>The insert loop of \<^verbatim>\<open>Append\<close>, on the events already numbered.\<close>

fun insertAll :: "(time \<Rightarrow> time) \<Rightarrow> FeatureEvent list \<Rightarrow> pgState \<Rightarrow> goerr + pgState" where
  "insertAll pgtime [] s = Inr s"
| "insertAll pgtime (e # es) s = (case insertEvent pgtime e s of
     Inl err \<Rightarrow> Inl err
   | Inr s1 \<Rightarrow>
       (if fe_Type e = FeatureEventViewDefined \<or> fe_Type e = FeatureEventViewDeleted
        then (case upsertNameIndex pgtime e s1 of Inl err \<Rightarrow> Inl err | Inr s2 \<Rightarrow> insertAll pgtime es s2)
        else insertAll pgtime es s1))"

text \<open>
  \<^verbatim>\<open>Append\<close> after the lookup of the key: the part that runs under the advisory lock. A fault rolls the
  transaction back.
\<close>

definition appendLocked :: "(time \<Rightarrow> time) \<Rightarrow> string \<Rightarrow> FeatureEvent list \<Rightarrow> pgState \<Rightarrow>
    (goerr + FeatureEvent list \<times> int \<times> bool) \<times> pgState" where
  "appendLocked pgtime key events s0 =
     (let (fault, s) = db_fault s0;
          h = head s; out = numbered (h + 1) events;
          writtenThrough = h + int (length events);
          viewID = fe_FeatureViewID (hd events)
      in case insertAll pgtime out s of
           Inl err \<Rightarrow> (Inl err, s)
         | Inr s1 \<Rightarrow>
             (let s2 = (if key \<noteq> '''' then recordIdempotency key viewID (fe_Version (hd out)) writtenThrough
                          (pgtime (fe_AppendedAt (hd out))) s1 else s1)
              in case fault of Some err \<Rightarrow> (Inl err, s) | None \<Rightarrow> (Inr (out, writtenThrough, False), s2)))"

definition pg_Append :: "(time \<Rightarrow> time) \<Rightarrow> string \<Rightarrow> FeatureEvent list \<Rightarrow> pgState \<Rightarrow>
    (goerr + FeatureEvent list \<times> int \<times> bool) \<times> pgState" where
  "pg_Append pgtime key events s =
     (if events = [] then
        (case db_fault s of (Some err, s1) \<Rightarrow> (Inl err, s1) | (None, s1) \<Rightarrow> (Inr ([], head s1, False), s1))
      else case (if key \<noteq> '''' then lookupIdempotency key (fe_FeatureViewID (hd events)) s else None) of
        Some (first, lastV) \<Rightarrow>
          (case db_fault s of (Some err, s1) \<Rightarrow> (Inl err, s1)
           | (None, s1) \<Rightarrow> (Inr (loadRange first lastV s1, lastV, True), s1))
      | None \<Rightarrow> appendLocked pgtime key events s)"

definition queryEvents :: "(FeatureEvent \<Rightarrow> bool) \<Rightarrow> pgState \<Rightarrow> (goerr + FeatureEvent list) \<times> pgState" where
  "queryEvents p s = (case db_fault s of
     (Some err, s1) \<Rightarrow> (Inl (Wrapf ''query events: '' err ''''), s1)
   | (None, s1) \<Rightarrow>
       (let es = sortedByVersion (filter p (pg_events s1)) in
        if es = [] then (Inl ErrEventLogNotFound, s1) else (Inr es, s1)))"

definition pg_Load :: "string \<Rightarrow> pgState \<Rightarrow> (goerr + FeatureEvent list) \<times> pgState" where
  "pg_Load viewID s = queryEvents (of_view viewID) s"

definition pg_LoadView :: "string \<Rightarrow> pgState \<Rightarrow> (goerr + FeatureEvent list) \<times> pgState" where
  "pg_LoadView viewID s = queryEvents (\<lambda>e. of_view viewID e \<and> is_definition e) s"

definition pg_ResolveViewIDByName :: "string \<Rightarrow> string \<Rightarrow> pgState \<Rightarrow> (goerr + string) \<times> pgState" where
  "pg_ResolveViewIDByName team name s = (case db_fault s of
     (Some err, s1) \<Rightarrow> (Inl (Wrapf ''resolve view by name: '' err ''''), s1)
   | (None, s1) \<Rightarrow>
       (case find (\<lambda>r. nr_Team r = team \<and> nr_NameLower r = toLower name) (pg_names s1) of
          None \<Rightarrow> (Inl ErrEventLogNotFound, s1) | Some r \<Rightarrow> (Inr (nr_ViewID r), s1)))"

definition pg_ListViewIDs :: "(string \<Rightarrow> string \<Rightarrow> bool) \<Rightarrow> string \<Rightarrow> string \<Rightarrow> ListOptions \<Rightarrow> pgState \<Rightarrow>
    (goerr + string list \<times> string) \<times> pgState" where
  "pg_ListViewIDs ilike team nameFilter opts s = (case db_fault s of
     (Some err, s1) \<Rightarrow> (Inl (Wrapf ''list view ids: '' err ''''), s1)
   | (None, s1) \<Rightarrow>
       (let p0 = (if lo_PageSize opts \<le> 0 then DefaultPageSize else lo_PageSize opts);
            pageSize = (if p0 > MaxPageSize then MaxPageSize else p0);
            rows = filter (\<lambda>r. nr_Team r = team
                \<and> (nameFilter \<noteq> '''' \<longrightarrow> ilike (nr_Name r) (''%'' @ nameFilter @ ''%''))
                \<and> (lo_PageToken opts \<noteq> '''' \<longrightarrow> lo_PageToken opts < nr_ViewID r)) (pg_names s1);
            ids = take (nat (pageSize + 1)) (sort (map nr_ViewID rows))
        in if int (length ids) > pageSize
           then (let kept = take (nat pageSize) ids in (Inr (kept, last kept), s1))
           else (Inr (ids, ''''), s1)))"

definition PgLog_ops :: "(time \<Rightarrow> time) \<Rightarrow> (string \<Rightarrow> string \<Rightarrow> bool) \<Rightarrow> pgState EventLogOps" where
  "PgLog_ops pgtime ilike = \<lparr>el_Append = pg_Append pgtime, el_Load = pg_Load, el_LoadView = pg_LoadView,
     el_ResolveViewIDByName = pg_ResolveViewIDByName, el_ListViewIDs = pg_ListViewIDs ilike\<rparr>"


section \<open>The adapter keeps the contract\<close>

text \<open>
  The log is numbered from 1 without gaps, ids are unique, a view has one row in the name index and a
  team one view per name, and a recorded key names a range of events of its view.
\<close>

definition pg_inv :: "pgState \<Rightarrow> bool" where
  "pg_inv s \<longleftrightarrow> map fe_Version (pg_events s) = map int [1 ..< Suc (length (pg_events s))]
     \<and> distinct (map fe_ID (pg_events s))
     \<and> distinct (map nr_ViewID (pg_names s)) \<and> distinct (map (\<lambda>r. (nr_Team r, nr_NameLower r)) (pg_names s))
     \<and> (\<forall>r \<in> set (pg_keys s). kr_Last r \<le> int (length (pg_events s))
          \<and> (\<forall>e \<in> set (pg_events s). kr_First r \<le> fe_Version e \<and> fe_Version e \<le> kr_Last r \<longrightarrow> of_view (kr_ViewID r) e))"

definition pg_empty :: "string option list \<Rightarrow> pgState" where
  "pg_empty fs = \<lparr>pg_events = [], pg_names = [], pg_keys = [], pg_faults = fs\<rparr>"

lemma pg_inv_empty: "pg_inv (pg_empty fs)"
  by (simp add: pg_inv_def pg_empty_def)

lemma pg_row_keeps [simp]:
  "fe_ID (pg_row p e) = fe_ID e" "fe_Type (pg_row p e) = fe_Type e" "fe_FeatureViewID (pg_row p e) = fe_FeatureViewID e"
  "fe_Version (pg_row p e) = fe_Version e" "fe_EntityID (pg_row p e) = fe_EntityID e" "fe_ViewDef (pg_row p e) = fe_ViewDef e"
  "of_view v (pg_row p e) = of_view v e"
  by (simp_all add: pg_row_def of_view_def)

lemma db_fault_tables [simp]:
  "pg_events (snd (db_fault s)) = pg_events s" "pg_names (snd (db_fault s)) = pg_names s" "pg_keys (snd (db_fault s)) = pg_keys s"
  by (auto simp: db_fault_def split: list.split)

lemma db_fault_cases:
  "db_fault s = (f, s1) \<Longrightarrow> pg_events s1 = pg_events s \<and> pg_names s1 = pg_names s \<and> pg_keys s1 = pg_keys s \<and> (\<forall>e. f = Some e \<longrightarrow> (\<exists>m. e = Dyn m))"
  by (auto simp: db_fault_def split: list.splits)

lemma pg_inv_tables: "pg_events s1 = pg_events s \<Longrightarrow> pg_names s1 = pg_names s \<Longrightarrow> pg_keys s1 = pg_keys s \<Longrightarrow> pg_inv s1 = pg_inv s"
  by (simp add: pg_inv_def)

lemma length_numbered [simp]: "length (numbered n es) = length es"
  by (induction n es rule: numbered.induct) auto

lemma numbered_versions: "map fe_Version (numbered (int n) es) = map int [n ..< n + length es]"
proof (induction es arbitrary: n)
  case (Cons e es)
  have "int n + 1 = int (Suc n)" by simp
  with Cons.IH [of "Suc n"] show ?case by (simp add: upt_conv_Cons add.commute del: upt_Suc)
qed simp

lemma numbered_view: "\<forall>e \<in> set es. of_view v e \<Longrightarrow> \<forall>e \<in> set (numbered n es). of_view v e"
  by (induction n es rule: numbered.induct) (auto simp: of_view_def)

lemma insertEvent_Inr:
  "insertEvent p e s = Inr s' \<Longrightarrow> pg_events s' = pg_events s @ [pg_row p e] \<and> pg_names s' = pg_names s \<and> pg_keys s' = pg_keys s
     \<and> pg_faults s' = pg_faults s \<and> fe_ID e \<notin> fe_ID ` set (pg_events s)"
  by (auto simp: insertEvent_def split: sum.splits if_splits)

definition names_ok :: "pgState \<Rightarrow> bool" where
  "names_ok s \<longleftrightarrow> distinct (map nr_ViewID (pg_names s)) \<and> distinct (map (\<lambda>r. (nr_Team r, nr_NameLower r)) (pg_names s))"

lemma distinct_map_update:
  assumes "distinct (map key rows)" "distinct (map f rows)" "row \<in> set rows" "key row = k"
    and "\<forall>r \<in> set rows. key r \<noteq> k \<longrightarrow> f r \<noteq> f (g row)"
  shows "distinct (map (\<lambda>r. f (if key r = k then g r else r)) rows)"
proof -
  have k: "\<forall>r \<in> set rows. key r = k \<longrightarrow> r = row"
    using assms(1,3,4) by (auto simp: distinct_map inj_on_def)
  have "inj_on (\<lambda>r. f (if key r = k then g r else r)) (set rows)"
  proof (rule inj_onI)
    fix x y assume xy: "x \<in> set rows" "y \<in> set rows" and eq: "f (if key x = k then g x else x) = f (if key y = k then g y else y)"
    show "x = y"
    proof (cases "key x = k")
      case True
      then have x: "x = row" using k xy(1) by simp
      show ?thesis
      proof (cases "key y = k")
        case False
        with eq True x have "f (g row) = f y" by simp
        with assms(5) xy(2) False show ?thesis by metis
      qed (use k xy x in simp)
    next
      case False
      show ?thesis
      proof (cases "key y = k")
        case True
        with k xy have "y = row" by simp
        with eq True False have "f x = f (g row)" by simp
        with assms(5) xy(1) False show ?thesis by metis
      next
        case y: False
        with eq False assms(2) xy show ?thesis by (auto simp: distinct_map inj_on_def)
      qed
    qed
  qed
  moreover have "distinct rows" using assms(1) by (simp add: distinct_map)
  ultimately show ?thesis by (simp add: distinct_map)
qed

lemma find_key_Some: "find P xs = Some x \<Longrightarrow> x \<in> set xs \<and> P x"
  by (auto simp: find_Some_iff)

lemma upsertNameIndex_Inr:
  assumes "upsertNameIndex p e s = Inr s'" "names_ok s"
  shows "names_ok s' \<and> pg_events s' = pg_events s \<and> pg_keys s' = pg_keys s \<and> pg_faults s' = pg_faults s"
proof (cases "fe_Type e")
  case FeatureEventViewDefined
  with assms obtain d where d: "fe_ViewDef e = Some d" by (auto simp: upsertNameIndex_def split: option.splits)
  let ?lower = "toLower (vd_Name d)"
  show ?thesis
  proof (cases "find (\<lambda>r. nr_ViewID r = fe_FeatureViewID e) (pg_names s)")
    case None
    then have new: "fe_FeatureViewID e \<notin> nr_ViewID ` set (pg_names s)" by (auto simp: find_None_iff)
    from assms FeatureEventViewDefined d None
    have free: "\<not> (\<exists>r \<in> set (pg_names s). nr_ViewID r \<noteq> fe_FeatureViewID e \<and> nr_Team r = vd_OwnerTeam d \<and> nr_NameLower r = ?lower)"
      and s': "s' = s\<lparr>pg_names := pg_names s @ [\<lparr>nr_ViewID = fe_FeatureViewID e, nr_Team = vd_OwnerTeam d, nr_Name = vd_Name d,
                   nr_NameLower = ?lower, nr_IsDeleted = False, nr_CreatedAt = p (fe_EventTime e), nr_UpdatedAt = p (fe_EventTime e)\<rparr>]\<rparr>"
      by (auto simp: upsertNameIndex_def Let_def split: if_splits)
    have "(vd_OwnerTeam d, ?lower) \<notin> (\<lambda>r. (nr_Team r, nr_NameLower r)) ` set (pg_names s)"
    proof
      assume "(vd_OwnerTeam d, ?lower) \<in> (\<lambda>r. (nr_Team r, nr_NameLower r)) ` set (pg_names s)"
      then obtain r where r: "r \<in> set (pg_names s)" "nr_Team r = vd_OwnerTeam d" "nr_NameLower r = ?lower" by auto
      with new have "nr_ViewID r \<noteq> fe_FeatureViewID e" by (metis imageI)
      with r free show False by blast
    qed
    with new assms(2) show ?thesis by (simp add: s' names_ok_def)
  next
    case (Some r0)
    then have r0: "r0 \<in> set (pg_names s)" "nr_ViewID r0 = fe_FeatureViewID e" by (auto dest: find_key_Some)
    let ?g = "\<lambda>r. r\<lparr>nr_Name := vd_Name d, nr_NameLower := ?lower, nr_UpdatedAt := p (fe_EventTime e), nr_IsDeleted := False\<rparr>"
    from assms FeatureEventViewDefined d Some
    have free: "\<forall>r \<in> set (pg_names s). nr_ViewID r \<noteq> fe_FeatureViewID e \<longrightarrow> (nr_Team r, nr_NameLower r) \<noteq> (nr_Team (?g r0), nr_NameLower (?g r0))"
      and s': "s' = s\<lparr>pg_names := map (\<lambda>r. if nr_ViewID r = fe_FeatureViewID e then ?g r else r) (pg_names s)\<rparr>"
      by (auto simp: upsertNameIndex_def Let_def split: if_splits)
    have "distinct (map (\<lambda>r. (\<lambda>r. (nr_Team r, nr_NameLower r)) (if nr_ViewID r = fe_FeatureViewID e then ?g r else r)) (pg_names s))"
      using assms(2) r0 free by (intro distinct_map_update [where row = r0]) (auto simp: names_ok_def)
    then have "distinct (map (\<lambda>r. (nr_Team r, nr_NameLower r)) (pg_names s'))" by (simp add: s' comp_def)
    moreover have "map nr_ViewID (pg_names s') = map nr_ViewID (pg_names s)" by (simp add: s')
    ultimately have "names_ok s'" using assms(2) unfolding names_ok_def by metis
    then show ?thesis by (simp add: s')
  qed
next
  case FeatureEventViewDeleted
  let ?h = "\<lambda>r. if nr_ViewID r = fe_FeatureViewID e then r\<lparr>nr_IsDeleted := True, nr_UpdatedAt := p (fe_EventTime e)\<rparr> else r"
  from FeatureEventViewDeleted assms(1) have s': "s' = s\<lparr>pg_names := map ?h (pg_names s)\<rparr>" by (simp add: upsertNameIndex_def)
  have "map nr_ViewID (pg_names s') = map nr_ViewID (pg_names s)"
    "map (\<lambda>r. (nr_Team r, nr_NameLower r)) (pg_names s') = map (\<lambda>r. (nr_Team r, nr_NameLower r)) (pg_names s)" by (auto simp: s')
  with assms(2) have "names_ok s'" unfolding names_ok_def by metis
  then show ?thesis by (simp add: s')
next
  case FeatureEventValuesWritten
  with assms show ?thesis by (auto simp: upsertNameIndex_def)
qed


lemma insertAll_Inr:
  "insertAll p es s = Inr s' \<Longrightarrow> names_ok s \<Longrightarrow> distinct (map fe_ID (pg_events s)) \<Longrightarrow>
     pg_events s' = pg_events s @ map (pg_row p) es \<and> names_ok s' \<and> pg_keys s' = pg_keys s \<and> pg_faults s' = pg_faults s
     \<and> distinct (map fe_ID (pg_events s'))"
proof (induction es arbitrary: s)
  case (Cons e es)
  from Cons.prems(1) obtain s1 where s1: "insertEvent p e s = Inr s1" by (auto split: sum.splits)
  note i = insertEvent_Inr [OF s1]
  from Cons.prems s1 obtain s2 where s2: "insertAll p es s2 = Inr s'" "upsertNameIndex p e s1 = Inr s2 \<or> s2 = s1"
    by (auto split: if_splits sum.splits)
  have n1: "names_ok s1" using Cons.prems(2) i by (simp add: names_ok_def)
  have t2: "names_ok s2 \<and> pg_events s2 = pg_events s1 \<and> pg_keys s2 = pg_keys s1 \<and> pg_faults s2 = pg_faults s1"
    using s2(2) upsertNameIndex_Inr [OF _ n1] n1 by blast
  have d: "distinct (map fe_ID (pg_events s2))" using Cons.prems(3) i t2 by simp
  have ih: "pg_events s' = pg_events s2 @ map (pg_row p) es" "names_ok s'" "pg_keys s' = pg_keys s2" "pg_faults s' = pg_faults s2"
    "distinct (map fe_ID (pg_events s'))" using Cons.IH [OF s2(1) _ d] t2 by blast+
  have "pg_events s' = pg_events s @ map (pg_row p) (e # es)" "pg_keys s' = pg_keys s" "pg_faults s' = pg_faults s"
    using ih(1,3,4) t2 i by simp_all
  with ih(2,5) show ?case by blast
qed simp

lemma head_eq: "pg_inv s \<Longrightarrow> head s = int (length (pg_events s))"
proof -
  have "fold max (map int [1 ..< Suc n]) 0 = int n" for n
    by (induction n) (auto simp: fold_append)
  then show "pg_inv s \<Longrightarrow> head s = int (length (pg_events s))" by (simp add: head_def pg_inv_def del: upt_Suc)
qed

lemma versions_range: "pg_inv s \<Longrightarrow> e \<in> set (pg_events s) \<Longrightarrow> 1 \<le> fe_Version e \<and> fe_Version e \<le> int (length (pg_events s))"
proof -
  assume a: "pg_inv s" "e \<in> set (pg_events s)"
  then have "fe_Version e \<in> set (map int [1 ..< Suc (length (pg_events s))])" by (metis imageI pg_inv_def set_map)
  then show ?thesis by auto
qed

lemma sorted_map_int: "sorted (map int [a ..< b])"
  by (induction b) (auto simp: sorted_append)

lemma pg_sorted: "pg_inv s \<Longrightarrow> sorted (map fe_Version (pg_events s))"
  unfolding pg_inv_def by (metis sorted_map_int)

lemma pg_sorted_filter: "pg_inv s \<Longrightarrow> sortedByVersion (filter q (pg_events s)) = filter q (pg_events s)"
  by (intro sortedByVersion_id sorted_filter pg_sorted)

lemma appendLocked_run:
  assumes inv: "pg_inv s" and ne: "es \<noteq> []" and v: "\<forall>e \<in> set es. of_view v e" and run: "appendLocked p k es s = (r, s')"
  shows "pg_inv s' \<and> (case r of
      Inl err \<Rightarrow> pg_events s' = pg_events s \<and> pg_names s' = pg_names s \<and> pg_keys s' = pg_keys s
    | Inr (out, wt, replayed) \<Rightarrow> \<not> replayed \<and> out = numbered (int (length (pg_events s)) + 1) es
        \<and> pg_events s' = pg_events s @ map (pg_row p) out \<and> wt = int (length (pg_events s'))
        \<and> pg_keys s' = (if k \<noteq> '''' \<and> lookupIdempotency k v s = None
             then pg_keys s @ [\<lparr>kr_Key = k, kr_ViewID = v, kr_First = int (length (pg_events s)) + 1, kr_Last = wt,
                 kr_CreatedAt = p (fe_AppendedAt (hd out))\<rparr>] else pg_keys s))"
proof -
  obtain f s0 where f: "db_fault s = (f, s0)" by fastforce
  note s0 = db_fault_cases [OF f]
  then have inv0: "pg_inv s0" using inv pg_inv_tables by blast
  let ?out = "numbered (int (length (pg_events s)) + 1) es"
  have h: "head s0 = int (length (pg_events s))" using head_eq [OF inv0] s0 by simp
  have hd_v: "fe_FeatureViewID (hd es) = v" using v ne by (simp add: of_view_def)
  have hd_out: "fe_Version (hd ?out) = int (length (pg_events s)) + 1" using ne by (cases es) auto
  show ?thesis
  proof (cases "insertAll p ?out s0")
    case (Inl err)
    with run f h s0 inv0 show ?thesis by (auto simp: appendLocked_def Let_def)
  next
    case (Inr s1)
    show ?thesis
    proof (cases f)
      case (Some err)
      with run f h s0 inv0 Inr show ?thesis by (auto simp: appendLocked_def Let_def)
    next
      case None
      let ?n = "length (pg_events s)" and ?wt = "int (length (pg_events s)) + int (length es)"
      let ?key = "\<lparr>kr_Key = k, kr_ViewID = v, kr_First = int ?n + 1, kr_Last = ?wt, kr_CreatedAt = p (fe_AppendedAt (hd ?out))\<rparr>"
      have "names_ok s0" "distinct (map fe_ID (pg_events s0))" using inv0 by (simp_all add: pg_inv_def names_ok_def)
      note s1 = insertAll_Inr [OF Inr this]
      have look: "lookupIdempotency k v s1 = lookupIdempotency k v s" using s1 s0 by (simp add: lookupIdempotency_def)
      define s2 where "s2 = (if k \<noteq> '''' then recordIdempotency k v (int ?n + 1) ?wt (p (fe_AppendedAt (hd ?out))) s1 else s1)"
      have s2: "pg_events s2 = pg_events s @ map (pg_row p) ?out" "pg_names s2 = pg_names s1"
        "pg_keys s2 = (if k \<noteq> '''' \<and> lookupIdempotency k v s = None then pg_keys s @ [?key] else pg_keys s)"
        using s1 s0 look by (auto simp: s2_def recordIdempotency_def)
      have r: "r = Inr (?out, ?wt, False)" "s' = s2"
        using run f h Inr None hd_v hd_out by (auto simp: appendLocked_def Let_def s2_def)
      have vs: "map fe_Version (pg_events s2) = map int [1 ..< Suc (length (pg_events s2))]"
      proof -
        have "map fe_Version (numbered (int (Suc ?n)) es) = map int [Suc ?n ..< Suc ?n + length es]" by (rule numbered_versions)
        moreover have "map fe_Version (pg_events s) = map int [1 ..< Suc ?n]" using inv by (simp add: pg_inv_def)
        moreover have "[1 ..< Suc ?n] @ [Suc ?n ..< Suc ?n + length es] = [1 ..< Suc (?n + length es)]"
          using upt_add_eq_append [of 1 "Suc ?n" "length es"] by simp
        moreover have "numbered (int (Suc ?n)) es = ?out" by (simp add: add.commute)
        moreover have "map fe_Version (pg_events s2) = map fe_Version (pg_events s) @ map fe_Version ?out"
          using s2(1) by (simp add: comp_def)
        moreover have "length (pg_events s2) = ?n + length es" using s2(1) by simp
        ultimately show ?thesis by (metis map_append)
      qed
      have keys: "\<forall>r \<in> set (pg_keys s2). kr_Last r \<le> int (length (pg_events s2))
          \<and> (\<forall>e \<in> set (pg_events s2). kr_First r \<le> fe_Version e \<and> fe_Version e \<le> kr_Last r \<longrightarrow> of_view (kr_ViewID r) e)"
      proof
        fix kr assume kr: "kr \<in> set (pg_keys s2)"
        have new_v: "\<forall>e \<in> set ?out. of_view v e" by (rule numbered_view [OF v])
        have new_ver: "\<forall>e \<in> set ?out. int ?n < fe_Version e"
        proof
          fix e assume "e \<in> set ?out"
          then have "fe_Version e \<in> set (map fe_Version (numbered (int (Suc ?n)) es))" by (simp add: add.commute)
          then show "int ?n < fe_Version e" unfolding numbered_versions by auto
        qed
        show "kr_Last kr \<le> int (length (pg_events s2))
          \<and> (\<forall>e \<in> set (pg_events s2). kr_First kr \<le> fe_Version e \<and> fe_Version e \<le> kr_Last kr \<longrightarrow> of_view (kr_ViewID kr) e)"
        proof (cases "kr \<in> set (pg_keys s)")
          case True
          with inv have old: "kr_Last kr \<le> int ?n"
            "\<forall>e \<in> set (pg_events s). kr_First kr \<le> fe_Version e \<and> fe_Version e \<le> kr_Last kr \<longrightarrow> of_view (kr_ViewID kr) e"
            by (auto simp: pg_inv_def)
          with new_ver show ?thesis by (fastforce simp: s2(1))
        next
          case False
          with kr s2(3) have "kr = ?key" by (auto split: if_splits)
          moreover have "\<forall>e \<in> set (pg_events s). fe_Version e \<le> int ?n" using versions_range [OF inv] by blast
          ultimately show ?thesis using new_v by (fastforce simp: s2(1))
        qed
      qed
      have "pg_events s2 = pg_events s1" using s1 s2(1) s0 by simp
      then have "distinct (map fe_ID (pg_events s2))" using s1 by metis
      moreover have "distinct (map nr_ViewID (pg_names s2))" "distinct (map (\<lambda>r. (nr_Team r, nr_NameLower r)) (pg_names s2))"
        using s1 s2(2) unfolding names_ok_def by metis+
      ultimately have "pg_inv s2" unfolding pg_inv_def using vs keys by blast
      then show ?thesis using r s2 by auto
    qed
  qed
qed


lemma replay_run:
  assumes inv: "pg_inv s" and look: "lookupIdempotency k v s = Some (a, b)"
  shows "loadRange a b s = filter (\<lambda>e. a \<le> fe_Version e \<and> fe_Version e \<le> b) (pg_events s)
    \<and> set (loadRange a b s) \<subseteq> set (filter (of_view v) (pg_events s))"
proof -
  from look obtain r where r: "r \<in> set (pg_keys s)" "kr_ViewID r = v" "kr_First r = a" "kr_Last r = b"
    unfolding lookupIdempotency_def by (auto dest: find_key_Some)
  have "\<forall>e \<in> set (pg_events s). a \<le> fe_Version e \<and> fe_Version e \<le> b \<longrightarrow> of_view v e" using inv r by (auto simp: pg_inv_def)
  then show ?thesis using pg_sorted_filter [OF inv] by (auto simp: loadRange_def)
qed

lemma pg_Append_run:
  assumes inv: "pg_inv s" and ne: "es \<noteq> []" and v: "\<forall>e \<in> set es. of_view v e" and run: "pg_Append p k es s = (r, s')"
  shows "pg_inv s' \<and> (case r of
         Inl err \<Rightarrow> pg_events s' = pg_events s
       | Inr (out, wt, False) \<Rightarrow> out = numbered (int (length (pg_events s)) + 1) es \<and> pg_events s' = pg_events s @ map (pg_row p) out
           \<and> wt = int (length (pg_events s'))
       | Inr (out, wt, True) \<Rightarrow> pg_events s' = pg_events s \<and> set out \<subseteq> set (filter (of_view v) (pg_events s)))"
proof (cases "if k \<noteq> '''' then lookupIdempotency k v s else None")
  case None
  have hd_v: "fe_FeatureViewID (hd es) = v" using v ne by (simp add: of_view_def)
  have "appendLocked p k es s = (r, s')"
    using run ne unfolding pg_Append_def hd_v None by simp
  from appendLocked_run [OF inv ne v this] show ?thesis by (auto split: sum.splits bool.splits)
next
  case (Some ab)
  obtain a b where ab: "ab = (a, b)" by fastforce
  have hd_v: "fe_FeatureViewID (hd es) = v" using v ne by (simp add: of_view_def)
  obtain f s1 where f: "db_fault s = (f, s1)" by fastforce
  note s1 = db_fault_cases [OF f]
  have inv1: "pg_inv s1" using inv s1 pg_inv_tables by blast
  have look: "lookupIdempotency k v s1 = Some (a, b)" using Some ab s1 by (auto simp: lookupIdempotency_def split: if_splits)
  have "s' = s1 \<and> (r = Inl (the f) \<or> r = Inr (loadRange a b s1, b, True))"
    using Some ab run ne hd_v f by (auto simp: pg_Append_def split: option.splits)
  with replay_run [OF inv1 look] s1 inv1 show ?thesis by auto
qed

lemma queryEvents_run:
  assumes inv: "pg_inv s" and run: "queryEvents q s = (r, s')"
  shows "pg_inv s' \<and> pg_events s' = pg_events s \<and> (case r of
      Inl err \<Rightarrow> errors_Is err ErrEventLogNotFound \<longrightarrow> filter q (pg_events s) = []
    | Inr es \<Rightarrow> es = filter q (pg_events s) \<and> es \<noteq> [])"
proof -
  obtain f s1 where f: "db_fault s = (f, s1)" by fastforce
  note s1 = db_fault_cases [OF f]
  have inv1: "pg_inv s1" using inv s1 pg_inv_tables by blast
  show ?thesis
  proof (cases f)
    case None
    with run f pg_sorted_filter [OF inv1, of q] s1 inv1 show ?thesis
      by (cases "filter q (pg_events s) = []") (auto simp: queryEvents_def)
  next
    case (Some err)
    with s1 obtain m where "err = Dyn m" by blast
    with run f Some s1 inv1 show ?thesis by (auto simp: queryEvents_def ErrEventLogNotFound_def)
  qed
qed

lemma pg_reads_run:
  assumes "pg_inv s"
  shows "pg_ResolveViewIDByName team name s = (r, s') \<Longrightarrow> pg_inv s' \<and> pg_events s' = pg_events s"
    and "pg_ListViewIDs ilike team flt opts s = (r2, s') \<Longrightarrow> pg_inv s' \<and> pg_events s' = pg_events s"
proof -
  obtain f s1 where f: "db_fault s = (f, s1)" by fastforce
  note s1 = db_fault_cases [OF f]
  have inv1: "pg_inv s1" using assms s1 pg_inv_tables by blast
  show "pg_ResolveViewIDByName team name s = (r, s') \<Longrightarrow> pg_inv s' \<and> pg_events s' = pg_events s"
    using f s1 inv1 by (auto simp: pg_ResolveViewIDByName_def split: option.splits)
  show "pg_ListViewIDs ilike team flt opts s = (r2, s') \<Longrightarrow> pg_inv s' \<and> pg_events s' = pg_events s"
    using f s1 inv1 by (auto simp: pg_ListViewIDs_def Let_def split: option.splits if_splits)
qed

definition pg_healthy :: "pgState \<Rightarrow> bool" where
  "pg_healthy s \<longleftrightarrow> pg_faults s = []"

lemma queryEvents_healthy: "pg_healthy s \<Longrightarrow> queryEvents q s = (r, s') \<Longrightarrow> s' = s \<and> (\<forall>err. r = Inl err \<longrightarrow> err = ErrEventLogNotFound)"
  by (auto simp: queryEvents_def pg_healthy_def db_fault_def Let_def split: if_splits)

lemma insertAll_faults: "insertAll p es s = Inr s' \<Longrightarrow> pg_faults s' = pg_faults s"
  by (induction es arbitrary: s)
    (auto simp: insertEvent_def upsertNameIndex_def Let_def split: sum.splits if_splits EventType.splits option.splits)

lemma pg_Append_healthy: "pg_healthy s \<Longrightarrow> pg_Append p k es s = (r, s') \<Longrightarrow> pg_healthy s'"
  by (auto simp: pg_Append_def pg_healthy_def db_fault_def appendLocked_def recordIdempotency_def Let_def dest: insertAll_faults
      split: sum.splits if_splits option.splits)

interpretation pg: event_log "PgLog_ops pgtime ilike" pg_events pg_inv "pg_row pgtime" pg_healthy
  for pgtime :: "time \<Rightarrow> time" and ilike :: "string \<Rightarrow> string \<Rightarrow> bool"
proof unfold_locales
  fix l l' :: pgState and es v k r
  assume a: "pg_inv l" "es \<noteq> []" "\<forall>e \<in> set es. of_view v e" "el_Append (PgLog_ops pgtime ilike) k es l = (r, l')"
  then show "pg_inv l' \<and> (case r of
         Inl err \<Rightarrow> pg_events l' = pg_events l
       | Inr (out, wt, False) \<Rightarrow> out = numbered (int (length (pg_events l)) + 1) es \<and> pg_events l' = pg_events l @ map (pg_row pgtime) out
           \<and> wt = int (length (pg_events l'))
       | Inr (out, wt, True) \<Rightarrow> pg_events l' = pg_events l \<and> set out \<subseteq> set (filter (of_view v) (pg_events l)))"
    using pg_Append_run [OF a(1,2,3), of pgtime k r l'] by (simp add: PgLog_ops_def)
next
  fix l l' :: pgState and v rl
  assume a: "pg_inv l"
  show "map fe_Version (pg_events l) = map int [1 ..< Suc (length (pg_events l))]" using a unfolding pg_inv_def by blast
  show "el_Load (PgLog_ops pgtime ilike) v l = (rl, l') \<Longrightarrow> pg_inv l' \<and> pg_events l' = pg_events l \<and> (case rl of
         Inl err \<Rightarrow> errors_Is err ErrEventLogNotFound \<longrightarrow> filter (of_view v) (pg_events l) = []
       | Inr es \<Rightarrow> es = filter (of_view v) (pg_events l) \<and> es \<noteq> [])"
    using queryEvents_run [OF a, of "of_view v"] by (simp add: PgLog_ops_def pg_Load_def)
  show "el_LoadView (PgLog_ops pgtime ilike) v l = (rl, l') \<Longrightarrow> pg_inv l' \<and> pg_events l' = pg_events l \<and> (case rl of
         Inl err \<Rightarrow> errors_Is err ErrEventLogNotFound \<longrightarrow> filter (\<lambda>e. of_view v e \<and> is_definition e) (pg_events l) = []
       | Inr es \<Rightarrow> es = filter (\<lambda>e. of_view v e \<and> is_definition e) (pg_events l) \<and> es \<noteq> [])"
    using queryEvents_run [OF a, of "\<lambda>e. of_view v e \<and> is_definition e"] by (simp add: PgLog_ops_def pg_LoadView_def)
next
  fix l l' :: pgState and v rl k es r
  assume a: "pg_healthy l"
  show "el_Load (PgLog_ops pgtime ilike) v l = (rl, l') \<or> el_LoadView (PgLog_ops pgtime ilike) v l = (rl, l') \<Longrightarrow>
      l' = l \<and> (\<forall>err. rl = Inl err \<longrightarrow> err = ErrEventLogNotFound)"
    using queryEvents_healthy [OF a] by (auto simp: PgLog_ops_def pg_Load_def pg_LoadView_def)
  show "el_Append (PgLog_ops pgtime ilike) k es l = (r, l') \<Longrightarrow> pg_healthy l'"
    using pg_Append_healthy [OF a] by (simp add: PgLog_ops_def)
next
  fix l l' :: pgState and team name flt opts r r2
  assume a: "pg_inv l"
  show "el_ResolveViewIDByName (PgLog_ops pgtime ilike) team name l = (r, l') \<Longrightarrow> pg_inv l' \<and> pg_events l' = pg_events l"
    using pg_reads_run(1) [OF a] by (simp add: PgLog_ops_def)
  show "el_ListViewIDs (PgLog_ops pgtime ilike) team flt opts l = (r2, l') \<Longrightarrow> pg_inv l' \<and> pg_events l' = pg_events l"
    using pg_reads_run(2) [OF a] by (simp add: PgLog_ops_def)
qed simp


section \<open>The log over a run of calls\<close>

text \<open>One call of the adapter, as the service makes them: a batch appended belongs to one view.\<close>

inductive pg_step :: "(time \<Rightarrow> time) \<Rightarrow> (string \<Rightarrow> string \<Rightarrow> bool) \<Rightarrow> pgState \<Rightarrow> pgState \<Rightarrow> bool" for pgtime ilike where
  "\<forall>e \<in> set es. of_view v e \<Longrightarrow> pg_Append pgtime k es s = (r, s') \<Longrightarrow> pg_step pgtime ilike s s'"
| "pg_Load v s = (rl, s') \<Longrightarrow> pg_step pgtime ilike s s'"
| "pg_LoadView v s = (rl, s') \<Longrightarrow> pg_step pgtime ilike s s'"
| "pg_ResolveViewIDByName team name s = (ri, s') \<Longrightarrow> pg_step pgtime ilike s s'"
| "pg_ListViewIDs ilike team flt opts s = (rp, s') \<Longrightarrow> pg_step pgtime ilike s s'"

lemma pg_Append_empty: "pg_Append p k [] s = (r, s') \<Longrightarrow> pg_events s' = pg_events s \<and> pg_names s' = pg_names s \<and> pg_keys s' = pg_keys s"
  by (auto simp: pg_Append_def dest: db_fault_cases split: prod.splits option.splits)

lemma pg_step_props:
  assumes "pg_step p il s s'" "pg_inv s"
  shows "pg_inv s' \<and> (\<exists>new. pg_events s' = pg_events s @ new)"
  using assms(1)
proof (cases rule: pg_step.cases)
  case (1 es v k r)
  show ?thesis
  proof (cases "es = []")
    case True
    with 1 pg_Append_empty assms(2) pg_inv_tables show ?thesis by (metis append_Nil2)
  next
    case False
    from pg_Append_run [OF assms(2) this 1(1,2)] show ?thesis by (auto split: sum.splits bool.splits)
  qed
next
  case (2 v rl)
  with queryEvents_run [OF assms(2), of "of_view v" rl s'] show ?thesis by (simp add: pg_Load_def)
next
  case (3 v rl)
  with queryEvents_run [OF assms(2), of "\<lambda>e. of_view v e \<and> is_definition e" rl s'] show ?thesis by (simp add: pg_LoadView_def)
next
  case (4 team name ri)
  with pg_reads_run(1) [OF assms(2)] show ?thesis by simp
next
  case (5 team flt opts rp)
  with pg_reads_run(2) [OF assms(2)] show ?thesis by simp
qed

lemma pg_run_props:
  assumes "(pg_step p il)\<^sup>*\<^sup>* s s'" "pg_inv s"
  shows "pg_inv s' \<and> (\<exists>new. pg_events s' = pg_events s @ new)"
  using assms
proof (induction rule: rtranclp_induct)
  case (step y z)
  with pg_step_props show ?case by (metis append.assoc)
qed auto

lemma insertAll_keys: "insertAll p es s = Inr s' \<Longrightarrow> pg_keys s' = pg_keys s"
  by (induction es arbitrary: s)
    (auto simp: insertEvent_def upsertNameIndex_def Let_def split: sum.splits if_splits EventType.splits option.splits)

lemma pg_step_keys:
  assumes "pg_step p il s s'" shows "\<exists>more. pg_keys s' = pg_keys s @ more"
  using assms
proof (cases rule: pg_step.cases)
  case (1 es v k r)
  then show ?thesis
    by (auto simp: pg_Append_def appendLocked_def recordIdempotency_def Let_def dest!: insertAll_keys db_fault_cases
        split: sum.splits if_splits option.splits prod.splits)
qed (auto simp: pg_Load_def pg_LoadView_def queryEvents_def pg_ResolveViewIDByName_def pg_ListViewIDs_def Let_def dest!: db_fault_cases
     split: prod.splits option.splits if_splits)

lemma find_append: "find P (xs @ ys) = (case find P xs of None \<Rightarrow> find P ys | Some x \<Rightarrow> Some x)"
  by (induction xs) auto

lemma pg_run_lookup:
  "(pg_step p il)\<^sup>*\<^sup>* s s' \<Longrightarrow> lookupIdempotency k v s = Some ab \<Longrightarrow> lookupIdempotency k v s' = Some ab"
proof (induction rule: rtranclp_induct)
  case (step y z)
  from pg_step_keys [OF step(2)] obtain more where "pg_keys z = pg_keys y @ more" by blast
  with step show ?case by (auto simp: lookupIdempotency_def find_append)
qed simp

lemma fresh_append_records:
  assumes "pg_inv s" "k \<noteq> ''''" "es \<noteq> []" "\<forall>e \<in> set es. of_view v e" "pg_Append p k es s = (Inr (out, wt, False), s')"
  shows "lookupIdempotency k v s' = Some (int (length (pg_events s)) + 1, wt)"
proof -
  have v: "fe_FeatureViewID (hd es) = v" using assms(3,4) by (simp add: of_view_def)
  obtain f s0 where f: "db_fault s = (f, s0)" by fastforce
  note s0 = db_fault_cases [OF f]
  have h: "head s0 = int (length (pg_events s))" using s0 assms(1) pg_inv_tables [of s0 s] head_eq [of s0] by simp
  from assms(2,3) v have none: "lookupIdempotency k v s = None"
    using assms(5) by (auto simp: pg_Append_def split: option.splits prod.splits)
  with assms v have "appendLocked p k es s = (Inr (out, wt, False), s')" by (simp add: pg_Append_def)
  then obtain s1 where s1: "insertAll p (numbered (head s0 + 1) es) s0 = Inr s1" "wt = head s0 + int (length es)"
    and s': "s' = recordIdempotency k v (fe_Version (hd (numbered (head s0 + 1) es))) wt (p (fe_AppendedAt (hd (numbered (head s0 + 1) es)))) s1"
    using f v assms(2) by (auto simp: appendLocked_def Let_def split: sum.splits option.splits)
  have "lookupIdempotency k v s1 = None" using none insertAll_keys [OF s1(1)] s0 by (simp add: lookupIdempotency_def)
  moreover have "fe_Version (hd (numbered (head s0 + 1) es)) = head s0 + 1" using assms(3) by (cases es) auto
  ultimately show ?thesis using s' h by (auto simp: recordIdempotency_def lookupIdempotency_def find_append split: option.splits)
qed

lemma gap_free_part:
  assumes "map fe_Version (a @ b @ c) = map int [1 ..< Suc (length (a @ b @ c))]"
  shows "filter (\<lambda>e. int (length a) + 1 \<le> fe_Version e \<and> fe_Version e \<le> int (length a) + int (length b)) (a @ b @ c) = b"
proof -
  have nth: "fe_Version ((a @ b @ c) ! i) = int i + 1" if "i < length (a @ b @ c)" for i
  proof -
    have "fe_Version ((a @ b @ c) ! i) = map fe_Version (a @ b @ c) ! i" using that by (metis nth_map)
    also have "\<dots> = int ([1 ..< Suc (length (a @ b @ c))] ! i)" unfolding assms using that by (simp del: upt_Suc)
    also have "\<dots> = int i + 1" using that by (simp del: upt_Suc)
    finally show ?thesis .
  qed
  have "fe_Version e \<le> int (length a)" if "e \<in> set a" for e
  proof -
    from that obtain i where i: "i < length a" "e = a ! i" by (auto simp: in_set_conv_nth)
    then show ?thesis using nth [of i] by (simp add: nth_append)
  qed
  moreover have "int (length a) + 1 \<le> fe_Version e \<and> fe_Version e \<le> int (length a) + int (length b)" if "e \<in> set b" for e
  proof -
    from that obtain i where i: "i < length b" "e = b ! i" by (auto simp: in_set_conv_nth)
    then show ?thesis using nth [of "length a + i"] by (simp add: nth_append)
  qed
  moreover have "int (length a) + int (length b) < fe_Version e" if "e \<in> set c" for e
  proof -
    from that obtain i where i: "i < length c" "e = c ! i" by (auto simp: in_set_conv_nth)
    then show ?thesis using nth [of "length a + length b + i"] by (simp add: nth_append)
  qed
  ultimately have "filter (\<lambda>e. int (length a) + 1 \<le> fe_Version e \<and> fe_Version e \<le> int (length a) + int (length b)) a = []"
    "filter (\<lambda>e. int (length a) + 1 \<le> fe_Version e \<and> fe_Version e \<le> int (length a) + int (length b)) b = b"
    "filter (\<lambda>e. int (length a) + 1 \<le> fe_Version e \<and> fe_Version e \<le> int (length a) + int (length b)) c = []"
    by (force simp: filter_empty_conv filter_id_conv)+
  then show ?thesis by simp
qed


section \<open>Properties\<close>

text \<open>C39: The log is append-only and gap-free, whatever faults the database has. After any run of adapter
  calls from an empty database the versions are 1, 2, 3 and so on in order, event ids are unique, no
  team has two views of one name; and what was in the log before a run is a prefix of what is in it
  afterwards.\<close>

theorem log_is_gap_free_and_append_only:
  assumes "(pg_step pgtime ilike)\<^sup>*\<^sup>* (pg_empty faults) s" "(pg_step pgtime ilike)\<^sup>*\<^sup>* s s'"
  shows "map fe_Version (pg_events s') = map int [1 ..< Suc (length (pg_events s'))]
    \<and> distinct (map fe_ID (pg_events s'))
    \<and> distinct (map (\<lambda>r. (nr_Team r, nr_NameLower r)) (pg_names s'))
    \<and> (\<exists>new. pg_events s' = pg_events s @ new)"
proof -
  have "pg_inv s" using pg_run_props [OF assms(1) pg_inv_empty] by blast
  with pg_run_props [OF assms(2)] show ?thesis by (simp add: pg_inv_def)
qed

definition demo_log :: "pgState" where
  "demo_log = snd (pg_Append (\<lambda>t. t) ''k'' [demo_value ''u'' 0 10] (pg_empty []))"

lemma demo_log_run: "(pg_step (\<lambda>t. t) (\<lambda>a b. True))\<^sup>*\<^sup>* (pg_empty []) demo_log"
proof -
  let ?es = "[demo_value ''u'' 0 10]"
  have "\<forall>e \<in> set ?es. of_view ''view'' e" by (simp add: demo_value_def of_view_def)
  moreover have "pg_Append (\<lambda>t. t) ''k'' ?es (pg_empty []) = (fst (pg_Append (\<lambda>t. t) ''k'' ?es (pg_empty [])), demo_log)"
    by (simp add: demo_log_def)
  ultimately show ?thesis by (intro r_into_rtranclp pg_step.intros(1))
qed

theorem log_is_gap_free_and_append_only_witness:
  "map fe_Version (pg_events demo_log) = map int [1 ..< Suc (length (pg_events demo_log))] \<and> length (pg_events demo_log) = 1"
proof
  show "map fe_Version (pg_events demo_log) = map int [1 ..< Suc (length (pg_events demo_log))]"
    using log_is_gap_free_and_append_only [OF rtranclp.rtrancl_refl demo_log_run] by blast
  show "length (pg_events demo_log) = 1" by code_simp
qed

text \<open>C15: An append is atomic, and a retry has no effect. A failed append leaves the events as they were; a
  fresh one adds exactly its events, in order, numbered from the end of the log. After a fresh append
  under a key, and any further calls in between, an append for the same view under the same key that
  succeeds adds nothing: it answers with the events the first one stored, its last version, and the
  mark that it was replayed.\<close>

theorem append_atomic_and_idempotent:
  assumes inv: "pg_inv s" and es: "es \<noteq> []" "\<forall>e \<in> set es. of_view v e"
    and run: "pg_Append pgtime k es s = (r, s1)"
  shows "(\<forall>err. r = Inl err \<longrightarrow> pg_events s1 = pg_events s)
    \<and> (\<forall>out wt. r = Inr (out, wt, False) \<longrightarrow>
         out = numbered (int (length (pg_events s)) + 1) es \<and> pg_events s1 = pg_events s @ map (pg_row pgtime) out
         \<and> (\<forall>s2 es' r' s3. k \<noteq> '''' \<longrightarrow> (pg_step pgtime ilike)\<^sup>*\<^sup>* s1 s2 \<longrightarrow> es' \<noteq> [] \<longrightarrow> (\<forall>e \<in> set es'. of_view v e) \<longrightarrow>
              pg_Append pgtime k es' s2 = (Inr r', s3) \<longrightarrow>
              r' = (map (pg_row pgtime) out, wt, True) \<and> pg_events s3 = pg_events s2))"
proof (intro conjI allI impI)
  note props = pg_Append_run [OF inv es run]
  then show "pg_events s1 = pg_events s" if "r = Inl err" for err using that by simp
  fix out wt assume fresh: "r = Inr (out, wt, False)"
  with props have out: "out = numbered (int (length (pg_events s)) + 1) es" "pg_events s1 = pg_events s @ map (pg_row pgtime) out"
      "wt = int (length (pg_events s1))" "pg_inv s1" by auto
  show "out = numbered (int (length (pg_events s)) + 1) es" "pg_events s1 = pg_events s @ map (pg_row pgtime) out" using out by auto
  fix s2 es' r' s3
  assume k: "k \<noteq> ''''" and steps: "(pg_step pgtime ilike)\<^sup>*\<^sup>* s1 s2" and es': "es' \<noteq> []" "\<forall>e \<in> set es'. of_view v e"
    and run2: "pg_Append pgtime k es' s2 = (Inr r', s3)"
  have look: "lookupIdempotency k v s2 = Some (int (length (pg_events s)) + 1, wt)"
    using pg_run_lookup [OF steps] fresh_append_records [OF inv k es] run fresh by blast
  obtain new where new: "pg_events s2 = pg_events s @ map (pg_row pgtime) out @ new" and inv2: "pg_inv s2"
    using pg_run_props [OF steps out(4)] out(2) by auto
  have v: "fe_FeatureViewID (hd es') = v" using es' by (simp add: of_view_def)
  obtain f s2' where f: "db_fault s2 = (f, s2')" by fastforce
  note s2' = db_fault_cases [OF f]
  have res: "s3 = s2' \<and> r' = (loadRange (int (length (pg_events s)) + 1) wt s2', wt, True)"
    using run2 es'(1) k look v f by (auto simp: pg_Append_def split: option.splits)
  have "loadRange (int (length (pg_events s)) + 1) wt s2' = map (pg_row pgtime) out"
  proof -
    have "pg_inv s2'" using s2' inv2 pg_inv_tables by blast
    moreover have "map fe_Version (pg_events s2) = map int [1 ..< Suc (length (pg_events s2))]" using inv2 by (simp add: pg_inv_def)
    then have "filter (\<lambda>e. int (length (pg_events s)) + 1 \<le> fe_Version e \<and> fe_Version e \<le> wt) (pg_events s2) = map (pg_row pgtime) out"
      using gap_free_part [of "pg_events s" "map (pg_row pgtime) out" new] out(2,3) unfolding new by simp
    ultimately show ?thesis using s2' pg_sorted_filter [of s2'] unfolding loadRange_def by metis
  qed
  with res s2' show "r' = (map (pg_row pgtime) out, wt, True)" "pg_events s3 = pg_events s2" by simp_all
qed

theorem append_atomic_and_idempotent_witness:
  "fst (pg_Append (\<lambda>t. t) ''k'' [demo_value ''w'' 0 99] demo_log) = Inr ([demo_value ''u'' 1 10\<lparr>fe_ID := itoa 0\<rparr>], 1, True)
   \<and> length (pg_events (snd (pg_Append (\<lambda>t. t) ''k'' [demo_value ''w'' 0 99] demo_log))) = 1"
proof -
  let ?es = "[demo_value ''u'' 0 10]" and ?es' = "[demo_value ''w'' 0 99]" and ?out = "[demo_value ''u'' 1 10\<lparr>fe_ID := itoa 0\<rparr>]"
  have v: "?es \<noteq> []" "\<forall>e \<in> set ?es. of_view ''view'' e" and v': "?es' \<noteq> []" "\<forall>e \<in> set ?es'. of_view ''view'' e"
    by (simp_all add: demo_value_def of_view_def)
  have out: "map (pg_row (\<lambda>t. t)) ?out = ?out" by code_simp
  have run: "pg_Append (\<lambda>t. t) ''k'' ?es (pg_empty []) = (Inr (?out, 1, False), demo_log)" by code_simp
  obtain r' s3 where run2: "pg_Append (\<lambda>t. t) ''k'' ?es' demo_log = (Inr r', s3)"
  proof -
    have "\<not> isl (fst (pg_Append (\<lambda>t. t) ''k'' ?es' demo_log))" by code_simp
    then show ?thesis using that by (metis isl_def prod.collapse sum.exhaust_sel)
  qed
  have "r' = (map (pg_row (\<lambda>t. t)) ?out, 1, True) \<and> pg_events s3 = pg_events demo_log"
    using append_atomic_and_idempotent [OF pg_inv_empty v run, of "\<lambda>a b. True"] run2 v' by blast
  moreover have "length (pg_events demo_log) = 1" by code_simp
  ultimately show ?thesis using run2 out by simp
qed

text \<open>The storage codec is a round trip. Values in the form the codec produces, with finite floats and
  times it can print, are accepted and read back unchanged; any accepted values read back in that form,
  under the same names and with the same kinds; and a definition always reads back unchanged.\<close>

theorem codec_roundtrip:
  "((\<forall>(n, v) \<in> set vs. canonical v \<and> json_ok (toJSONValue v)) \<longrightarrow>
      (\<exists>w. marshalValues vs = Inr w \<and> unmarshalValues w = vs))
   \<and> (\<forall>w. marshalValues vs = Inr w \<longrightarrow>
        map (\<lambda>(n, v). (n, vl_Kind v)) (unmarshalValues w) = map (\<lambda>(n, v). (n, vl_Kind v)) vs
        \<and> (\<forall>(n, v) \<in> set (unmarshalValues w). canonical v))
   \<and> unmarshalViewDef (marshalViewDef d) = d"
proof (intro conjI allI impI)
  assume a: "\<forall>(n, v) \<in> set vs. canonical v \<and> json_ok (toJSONValue v)"
  then have "list_all (\<lambda>(n, jv). json_ok jv) (map (\<lambda>(n, v). (n, toJSONValue v)) vs)" by (auto simp: list_all_iff)
  then obtain w where w: "marshalValues vs = Inr w" by (cases "vs = []") (simp_all add: marshalValues_def Let_def)
  moreover have "map (\<lambda>(n, v). (n, json_value v)) vs = vs" using a by (intro map_idI) (auto simp: value_roundtrip)
  ultimately show "\<exists>w. marshalValues vs = Inr w \<and> unmarshalValues w = vs" using marshal_unmarshal by metis
next
  fix w assume w: "marshalValues vs = Inr w"
  have "vl_Kind (json_value v) = vl_Kind v" for v
    by (cases "vl_Kind v") (auto simp: value_codec_defs json_value_def)
  then show "map (\<lambda>(n, v). (n, vl_Kind v)) (unmarshalValues w) = map (\<lambda>(n, v). (n, vl_Kind v)) vs"
    unfolding marshal_unmarshal [OF w] by (simp add: comp_def split_def)
  show "\<forall>(n, v) \<in> set (unmarshalValues w). canonical v"
    unfolding marshal_unmarshal [OF w] by (auto simp: value_canonical)
qed simp

theorem codec_roundtrip_witness:
  "unmarshalValues (projr (marshalValues [(''n'', emptyValue FeatureTypeInt64\<lparr>vl_Int := 7\<rparr>)])) = [(''n'', emptyValue FeatureTypeInt64\<lparr>vl_Int := 7\<rparr>)]"
proof -
  have "\<forall>(n, v) \<in> set [(''n'', emptyValue FeatureTypeInt64\<lparr>vl_Int := 7\<rparr>)]. canonical v \<and> json_ok (toJSONValue v)" by code_simp
  with codec_roundtrip [of "[(''n'', emptyValue FeatureTypeInt64\<lparr>vl_Int := 7\<rparr>)]" None] show ?thesis by force
qed

text \<open>
  The key is looked up before the advisory lock is taken. Two appends under one key that both pass the
  lookup before either commits both append: the retry is not recognised and its events are in the log
  twice.
\<close>

lemma concurrent_retry_appends_twice:
  "lookupIdempotency ''k'' ''view'' (pg_empty []) = None
   \<and> map fe_EntityID (pg_events (snd (appendLocked (\<lambda>t. t) ''k'' [demo_value ''u'' 7 10]
       (snd (appendLocked (\<lambda>t. t) ''k'' [demo_value ''u'' 0 10] (pg_empty [])))))) = [''u'', ''u'']"
  by code_simp

end
