(* ===== verification/FeatureViews.thy ===== *)
theory FeatureViews
  imports FeatureLog
begin

text \<open>
  The read models of the feature store: the online store in Redis (\<^verbatim>\<open>repository/redis/online.go\<close>) and
  the offline store in Postgres (\<^verbatim>\<open>repository/postgres/offline.go\<close>), each with its port as a locale. Redis
  is one key space, a key holding a text or a set. A pipeline is not a transaction: a fault stops it
  after some of its commands. A Go map passed to a store is the list of its entries, with distinct keys,
  in the order a loop over it takes.
\<close>

section \<open>Online vectors\<close>

record jsonVector =
  jc_EntityID :: string
  jc_Values :: "(string \<times> jsonValue) list"
  jc_AsOfVersion :: int
  jc_EventTime :: time
  jc_SchemaVersion :: int

definition encodeVector :: "FeatureVector \<Rightarrow> goerr + jsonVector" where
  "encodeVector v =
     (let vs = map (\<lambda>(n, x). (n, toJSONValue x)) (fc_Values v);
          jv = \<lparr>jc_EntityID = fc_EntityID v, jc_Values = map (\<lambda>(n, x). (n, json_wire x)) vs, jc_AsOfVersion = fc_AsOfVersion v,
             jc_EventTime = fc_EventTime v, jc_SchemaVersion = fc_SchemaVersion v\<rparr>
      in if list_all (\<lambda>(n, x). json_ok x) vs \<and> json_time_ok (fc_EventTime v) then Inr jv
         else Inl (Dyn ''json: unsupported value''))"

definition decodeVector :: "jsonVector \<Rightarrow> FeatureVector" where
  "decodeVector jv = \<lparr>fc_EntityID = jc_EntityID jv, fc_Values = map (\<lambda>(n, x). (n, fromJSONValue x)) (jc_Values jv),
     fc_AsOfVersion = jc_AsOfVersion jv, fc_EventTime = jc_EventTime jv, fc_SchemaVersion = jc_SchemaVersion jv\<rparr>"

text \<open>A vector as it reads back from the cache.\<close>

definition cached :: "FeatureVector \<Rightarrow> FeatureVector" where
  "cached v = v\<lparr>fc_Values := map (\<lambda>(n, x). (n, json_value x)) (fc_Values v)\<rparr>"

lemma vector_roundtrip: "encodeVector v = Inr jv \<Longrightarrow> decodeVector jv = cached v"
  by (cases v) (auto simp: encodeVector_def decodeVector_def cached_def json_value_def Let_def comp_def split_def split: if_splits)

section \<open>Redis\<close>

datatype rval = RText jsonVector | RSet "string list"

datatype rcmd = SET string jsonVector | SADD string string | DEL string

record redisState =
  rs_keys :: "string \<rightharpoonup> rval"
  rs_faults :: "(nat \<times> string) option list"

definition wrongType :: goerr where
  "wrongType = Dyn ''WRONGTYPE Operation against a key holding the wrong kind of value''"

fun exec_cmd :: "rcmd \<Rightarrow> (string \<rightharpoonup> rval) \<Rightarrow> goerr option \<times> (string \<rightharpoonup> rval)" where
  "exec_cmd (SET k v) m = (None, m(k \<mapsto> RText v))"
| "exec_cmd (SADD k x) m = (case m k of
     None \<Rightarrow> (None, m(k \<mapsto> RSet [x]))
   | Some (RSet xs) \<Rightarrow> (None, m(k \<mapsto> RSet (List.insert x xs)))
   | Some (RText _) \<Rightarrow> (Some wrongType, m))"
| "exec_cmd (DEL k) m = (None, m(k := None))"

text \<open>All commands run; the error of the pipeline is the first of theirs.\<close>

fun exec_cmds :: "rcmd list \<Rightarrow> (string \<rightharpoonup> rval) \<Rightarrow> goerr option \<times> (string \<rightharpoonup> rval)" where
  "exec_cmds [] m = (None, m)"
| "exec_cmds (c # cs) m = (let (e1, m1) = exec_cmd c m; (e2, m2) = exec_cmds cs m1
     in (case e1 of Some e \<Rightarrow> Some e | None \<Rightarrow> e2, m2))"

text \<open>The fault \<open>(n, msg)\<close> of the next round trip breaks it with the error \<open>msg\<close> after \<open>n\<close> commands took effect.\<close>

definition redis_fault :: "redisState \<Rightarrow> (nat \<times> string) option \<times> redisState" where
  "redis_fault s = (case rs_faults s of [] \<Rightarrow> (None, s) | f # fs \<Rightarrow> (f, s\<lparr>rs_faults := fs\<rparr>))"

definition exec_pipe :: "rcmd list \<Rightarrow> redisState \<Rightarrow> goerr option \<times> redisState" where
  "exec_pipe cs s = (case redis_fault s of
     (Some (n, msg), s1) \<Rightarrow> (Some (Dyn msg), s1\<lparr>rs_keys := snd (exec_cmds (take n cs) (rs_keys s1))\<rparr>)
   | (None, s1) \<Rightarrow> (fst (exec_cmds cs (rs_keys s1)), s1\<lparr>rs_keys := snd (exec_cmds cs (rs_keys s1))\<rparr>))"

section \<open>The online store\<close>

definition keyPrefix :: string where
  "keyPrefix = ''fp:fs:online''"

definition vectorKey :: "string \<Rightarrow> string \<Rightarrow> string" where
  "vectorKey viewID entityID = keyPrefix @ '':'' @ viewID @ '':vec:'' @ entityID"

definition entitiesKey :: "string \<Rightarrow> string" where
  "entitiesKey viewID = keyPrefix @ '':'' @ viewID @ '':entities''"

text \<open>The replies of the pipeline of reads: nil, a text, or the error of a read of a set.\<close>

fun read_replies :: "(string \<times> rval option) list \<Rightarrow> (string \<rightharpoonup> FeatureVector) \<Rightarrow> goerr + (string \<rightharpoonup> FeatureVector)" where
  "read_replies [] out = Inr out"
| "read_replies ((eid, reply) # rest) out = (case reply of
     None \<Rightarrow> read_replies rest out
   | Some (RSet _) \<Rightarrow> Inl (Wrapf (''online get '' @ quote eid @ '': '') wrongType '''')
   | Some (RText jv) \<Rightarrow> read_replies rest (out(eid \<mapsto> decodeVector jv)))"

definition is_RSet :: "rval option \<Rightarrow> bool" where
  "is_RSet r = (case r of Some (RSet _) \<Rightarrow> True | _ \<Rightarrow> False)"

definition is_RText :: "rval option \<Rightarrow> bool" where
  "is_RText r = (case r of Some (RText _) \<Rightarrow> True | _ \<Rightarrow> False)"

text \<open>\<^verbatim>\<open>Exec\<close> answers with the error of the first command that failed, nil counting as one.\<close>

definition GetLatest :: "string \<Rightarrow> string list \<Rightarrow> redisState \<Rightarrow> (goerr + (string \<rightharpoonup> FeatureVector)) \<times> redisState" where
  "GetLatest viewID entityIDs s =
     (if entityIDs = [] then (Inr Map.empty, s)
      else case redis_fault s of
        (Some (n, msg), s1) \<Rightarrow> (Inl (Wrapf ''online get pipeline: '' (Dyn msg) ''''), s1)
      | (None, s1) \<Rightarrow>
          (let replies = map (\<lambda>e. (e, rs_keys s1 (vectorKey viewID e))) entityIDs;
               failed = filter (\<lambda>(e, r). \<not> is_RText r) replies
           in if failed \<noteq> [] \<and> is_RSet (snd (hd failed))
              then (Inl (Wrapf ''online get pipeline: '' wrongType ''''), s1)
              else (read_replies replies Map.empty, s1)))"

fun put_cmds :: "string \<Rightarrow> (string \<times> FeatureVector) list \<Rightarrow> goerr + rcmd list" where
  "put_cmds viewID [] = Inr []"
| "put_cmds viewID ((entityID, vec) # rest) = (case encodeVector vec of
     Inl err \<Rightarrow> Inl err
   | Inr b \<Rightarrow> (case put_cmds viewID rest of
        Inl err \<Rightarrow> Inl err
      | Inr cs \<Rightarrow> Inr (SET (vectorKey viewID entityID) b # SADD (entitiesKey viewID) entityID # cs)))"

definition Put :: "string \<Rightarrow> (string \<times> FeatureVector) list \<Rightarrow> redisState \<Rightarrow> goerr option \<times> redisState" where
  "Put viewID vectors s =
     (if vectors = [] then (None, s)
      else case put_cmds viewID vectors of
        Inl err \<Rightarrow> (Some err, s)
      | Inr cs \<Rightarrow> (case exec_pipe cs s of
           (Some err, s1) \<Rightarrow> (Some (Wrapf ''online put pipeline: '' err ''''), s1)
         | (None, s1) \<Rightarrow> (None, s1)))"

definition Purge :: "string \<Rightarrow> redisState \<Rightarrow> goerr option \<times> redisState" where
  "Purge viewID s = (case redis_fault s of
     (Some (n, msg), s1) \<Rightarrow> (Some (Wrapf ''online purge read entities: '' (Dyn msg) ''''), s1)
   | (None, s1) \<Rightarrow>
       (if is_RText (rs_keys s1 (entitiesKey viewID))
        then (Some (Wrapf ''online purge read entities: '' wrongType ''''), s1)
        else let members = (case rs_keys s1 (entitiesKey viewID) of Some (RSet xs) \<Rightarrow> xs | _ \<Rightarrow> []);
                 cs = map (\<lambda>e. DEL (vectorKey viewID e)) members @ [DEL (entitiesKey viewID)]
             in case exec_pipe cs s1 of
               (Some err, s2) \<Rightarrow> (Some (Wrapf ''online purge pipeline: '' err ''''), s2)
             | (None, s2) \<Rightarrow> (None, s2)))"

record 'o OnlineOps =
  on_GetLatest :: "string \<Rightarrow> string list \<Rightarrow> 'o \<Rightarrow> (goerr + (string \<rightharpoonup> FeatureVector)) \<times> 'o"
  on_Put :: "string \<Rightarrow> (string \<times> FeatureVector) list \<Rightarrow> 'o \<Rightarrow> goerr option \<times> 'o"
  on_Purge :: "string \<Rightarrow> 'o \<Rightarrow> goerr option \<times> 'o"

definition RedisOnline_ops :: "redisState OnlineOps" where
  "RedisOnline_ops = \<lparr>on_GetLatest = GetLatest, on_Put = Put, on_Purge = Purge\<rparr>"


text \<open>
  The contract. \<open>onl c v\<close> is what the store serves for the view \<open>v\<close>, \<open>tidy c v\<close> that its index names every
  entity it serves. A failed write may have taken effect for some entities; no call touches another
  view.
\<close>

locale online_store =
  fixes Cache :: "'o OnlineOps" and onl :: "'o \<Rightarrow> string \<Rightarrow> projection" and oinv :: "'o \<Rightarrow> bool"
    and tidy :: "'o \<Rightarrow> string \<Rightarrow> bool" and good_id :: "string \<Rightarrow> bool"
  assumes get: "oinv c \<Longrightarrow> good_id v \<Longrightarrow> on_GetLatest Cache v ids c = (r, c') \<Longrightarrow> oinv c' \<and> onl c' = onl c \<and> tidy c' = tidy c
      \<and> (case r of Inl _ \<Rightarrow> True | Inr found \<Rightarrow> found = onl c v |` set ids)"
    and put: "oinv c \<Longrightarrow> good_id v \<Longrightarrow> distinct (map fst vs) \<Longrightarrow> on_Put Cache v vs c = (err, c') \<Longrightarrow>
      oinv c' \<and> (\<forall>w. good_id w \<and> w \<noteq> v \<longrightarrow> onl c' w = onl c w \<and> tidy c' w = tidy c w)
      \<and> (case err of
           None \<Rightarrow> onl c' v = onl c v ++ (map_option cached \<circ> map_of vs) \<and> (tidy c v \<longrightarrow> tidy c' v)
         | Some _ \<Rightarrow> (\<forall>e. onl c' v e = onl c v e \<or> onl c' v e = (onl c v ++ (map_option cached \<circ> map_of vs)) e))"
    and purge: "oinv c \<Longrightarrow> good_id v \<Longrightarrow> on_Purge Cache v c = (err, c') \<Longrightarrow>
      oinv c' \<and> (\<forall>w. good_id w \<and> w \<noteq> v \<longrightarrow> onl c' w = onl c w \<and> tidy c' w = tidy c w)
      \<and> (\<forall>e. onl c' v e = onl c v e \<or> onl c' v e = None)
      \<and> (err = None \<longrightarrow> tidy c v \<longrightarrow> onl c' v = Map.empty \<and> tidy c' v)"

section \<open>The Redis adapter keeps the contract\<close>

text \<open>The text of a UUID has no colon, so the keys of different views and entities differ.\<close>

definition plain_id :: "string \<Rightarrow> bool" where
  "plain_id v \<longleftrightarrow> CHR '':'' \<notin> set v"

definition redis_view :: "redisState \<Rightarrow> string \<Rightarrow> projection" where
  "redis_view s v e = (case rs_keys s (vectorKey v e) of Some (RText jv) \<Rightarrow> Some (decodeVector jv) | _ \<Rightarrow> None)"

definition redis_inv :: "redisState \<Rightarrow> bool" where
  "redis_inv s \<longleftrightarrow> (\<forall>v. plain_id v \<longrightarrow> \<not> is_RText (rs_keys s (entitiesKey v)) \<and> (\<forall>e. \<not> is_RSet (rs_keys s (vectorKey v e))))"

definition redis_tidy :: "redisState \<Rightarrow> string \<Rightarrow> bool" where
  "redis_tidy s v \<longleftrightarrow> (\<forall>e. is_RText (rs_keys s (vectorKey v e)) \<longrightarrow> (\<exists>xs. rs_keys s (entitiesKey v) = Some (RSet xs) \<and> e \<in> set xs))"

lemma split_at_first: "c \<notin> set a \<Longrightarrow> c \<notin> set b \<Longrightarrow> a @ c # x = b @ c # y \<longleftrightarrow> a = b \<and> x = y"
proof (induction a arbitrary: b)
  case Nil
  then show ?case by (cases b) auto
next
  case (Cons h t)
  then show ?case by (cases b) auto
qed

lemma vectorKey_eq [simp]: "plain_id v \<Longrightarrow> plain_id w \<Longrightarrow> vectorKey v e = vectorKey w e' \<longleftrightarrow> v = w \<and> e = e'"
  using split_at_first [of "CHR '':''" v w "''vec:'' @ e" "''vec:'' @ e'"] by (simp add: vectorKey_def plain_id_def)

lemma entitiesKey_eq [simp]: "plain_id v \<Longrightarrow> plain_id w \<Longrightarrow> entitiesKey v = entitiesKey w \<longleftrightarrow> v = w"
  using split_at_first [of "CHR '':''" v w "''entities''" "''entities''"] by (simp add: entitiesKey_def plain_id_def)

lemma keys_differ [simp]:
  assumes "plain_id v" "plain_id w"
  shows "vectorKey v e \<noteq> entitiesKey w" "entitiesKey w \<noteq> vectorKey v e"
  using assms split_at_first [of "CHR '':''" v w "''vec:'' @ e" "''entities''"] by (auto simp: vectorKey_def entitiesKey_def plain_id_def)

text \<open>The commands the adapter sends for a view.\<close>

fun cmd_of :: "string \<Rightarrow> rcmd \<Rightarrow> bool" where
  "cmd_of v (SET k b) \<longleftrightarrow> (\<exists>e. k = vectorKey v e)"
| "cmd_of v (SADD k x) \<longleftrightarrow> k = entitiesKey v"
| "cmd_of v (DEL k) \<longleftrightarrow> k = entitiesKey v \<or> (\<exists>e. k = vectorKey v e)"

definition keys_ok :: "(string \<rightharpoonup> rval) \<Rightarrow> bool" where
  "keys_ok m \<longleftrightarrow> (\<forall>v. plain_id v \<longrightarrow> \<not> is_RText (m (entitiesKey v)) \<and> (\<forall>e. \<not> is_RSet (m (vectorKey v e))))"

lemma is_R_simps [simp]:
  "\<not> is_RText None" "is_RText (Some (RText b))" "\<not> is_RText (Some (RSet xs))"
  "\<not> is_RSet None" "\<not> is_RSet (Some (RText b))" "is_RSet (Some (RSet xs))"
  by (simp_all add: is_RText_def is_RSet_def)

lemma exec_cmd_props:
  assumes "keys_ok m" "plain_id v" "cmd_of v c" "exec_cmd c m = (err, m')"
  shows "err = None \<and> keys_ok m'
    \<and> (\<forall>w. plain_id w \<and> w \<noteq> v \<longrightarrow> m' (entitiesKey w) = m (entitiesKey w) \<and> (\<forall>e. m' (vectorKey w e) = m (vectorKey w e)))"
proof (cases c)
  case (SET k b)
  with assms obtain e where "k = vectorKey v e" "err = None" "m' = m(k \<mapsto> RText b)" by auto
  with assms show ?thesis by (auto simp: keys_ok_def)
next
  case (SADD k x)
  with assms(3) have k: "k = entitiesKey v" by simp
  with assms(1,2) have "\<not> is_RText (m k)" by (simp add: keys_ok_def)
  with SADD assms(4) obtain xs where "err = None" "m' = m(k \<mapsto> RSet xs)" by (auto split: option.splits rval.splits)
  with k assms show ?thesis by (auto simp: keys_ok_def)
next
  case (DEL k)
  with assms have "k = entitiesKey v \<or> (\<exists>e. k = vectorKey v e)" "err = None" "m' = m(k := None)" by auto
  with assms show ?thesis by (auto simp: keys_ok_def)
qed

lemma exec_cmds_props:
  assumes "keys_ok m" "plain_id v" "\<forall>c \<in> set cs. cmd_of v c" "exec_cmds cs m = (err, m')"
  shows "err = None \<and> keys_ok m'
    \<and> (\<forall>w. plain_id w \<and> w \<noteq> v \<longrightarrow> m' (entitiesKey w) = m (entitiesKey w) \<and> (\<forall>e. m' (vectorKey w e) = m (vectorKey w e)))"
  using assms
proof (induction cs arbitrary: m err)
  case (Cons c cs)
  obtain e1 m1 where 1: "exec_cmd c m = (e1, m1)" by fastforce
  obtain e2 m2 where 2: "exec_cmds cs m1 = (e2, m2)" by fastforce
  have p1: "e1 = None \<and> keys_ok m1
    \<and> (\<forall>w. plain_id w \<and> w \<noteq> v \<longrightarrow> m1 (entitiesKey w) = m (entitiesKey w) \<and> (\<forall>e. m1 (vectorKey w e) = m (vectorKey w e)))"
    using exec_cmd_props [OF Cons.prems(1,2) _ 1] Cons.prems(3) by simp
  then have "err = e2" "m' = m2" using Cons.prems(4) 1 2 by simp_all
  with Cons.IH [of m1 e2] p1 Cons.prems(2,3) 2 show ?case by simp
qed simp

lemma exec_pipe_props:
  assumes "redis_inv s" "plain_id v" "\<forall>c \<in> set cs. cmd_of v c" "exec_pipe cs s = (err, s')"
  shows "redis_inv s' \<and> (\<forall>w. plain_id w \<and> w \<noteq> v \<longrightarrow> redis_view s' w = redis_view s w \<and> redis_tidy s' w = redis_tidy s w)
    \<and> (\<exists>n. rs_keys s' = snd (exec_cmds (take n cs) (rs_keys s)) \<and> (err = None \<longrightarrow> n = length cs))"
proof -
  obtain f s1 where f: "redis_fault s = (f, s1)" by fastforce
  then have s1: "rs_keys s1 = rs_keys s" by (auto simp: redis_fault_def split: list.splits)
  have ok: "keys_ok (rs_keys s)" using assms(1) by (simp add: redis_inv_def keys_ok_def)
  obtain n where n: "rs_keys s' = snd (exec_cmds (take n cs) (rs_keys s))" "err = None \<longrightarrow> n = length cs"
  proof (cases f)
    case None
    with assms(4) f s1 have "rs_keys s' = snd (exec_cmds (take (length cs) cs) (rs_keys s))" by (auto simp: exec_pipe_def)
    then show ?thesis using that by blast
  next
    case (Some nm)
    with assms(4) f s1 have "rs_keys s' = snd (exec_cmds (take (fst nm) cs) (rs_keys s))" "err \<noteq> None" by (auto simp: exec_pipe_def split: prod.splits)
    then show ?thesis using that by blast
  qed
  have sub: "\<forall>c \<in> set (take n cs). cmd_of v c" using assms(3) by (auto dest: in_set_takeD)
  have p: "keys_ok (rs_keys s') \<and> (\<forall>w. plain_id w \<and> w \<noteq> v \<longrightarrow>
      rs_keys s' (entitiesKey w) = rs_keys s (entitiesKey w) \<and> (\<forall>e. rs_keys s' (vectorKey w e) = rs_keys s (vectorKey w e)))"
    using exec_cmds_props [OF ok assms(2) sub, of "fst (exec_cmds (take n cs) (rs_keys s))" "rs_keys s'"] n(1)
    by (metis prod.collapse)
  then have "redis_inv s'" by (simp add: redis_inv_def keys_ok_def)
  moreover have "redis_view s' w = redis_view s w \<and> redis_tidy s' w = redis_tidy s w" if "plain_id w \<and> w \<noteq> v" for w
    using p that unfolding redis_view_def [abs_def] redis_tidy_def by simp
  ultimately show ?thesis using n by blast
qed


lemma put_cmds_of: "put_cmds v vs = Inr cs \<Longrightarrow> \<forall>c \<in> set cs. cmd_of v c"
  by (induction vs arbitrary: cs) (fastforce split: sum.splits)+

lemma put_cmds_SET:
  "put_cmds v vs = Inr cs \<Longrightarrow> SET k b \<in> set cs \<Longrightarrow> \<exists>e x. k = vectorKey v e \<and> (e, x) \<in> set vs \<and> encodeVector x = Inr b"
  by (induction vs arbitrary: cs) (fastforce split: sum.splits)+

lemma put_cmds_DEL: "put_cmds v vs = Inr cs \<Longrightarrow> DEL k \<notin> set cs"
  by (induction vs arbitrary: cs) (auto split: sum.splits)

text \<open>After any commands a vector is as it was, deleted, or one that was set.\<close>

lemma exec_cmds_vector:
  assumes "plain_id v" "\<forall>c \<in> set cs. cmd_of v c"
  shows "snd (exec_cmds cs m) (vectorKey v e) = m (vectorKey v e)
     \<or> (\<exists>b. SET (vectorKey v e) b \<in> set cs \<and> snd (exec_cmds cs m) (vectorKey v e) = Some (RText b))
     \<or> (DEL (vectorKey v e) \<in> set cs \<and> snd (exec_cmds cs m) (vectorKey v e) = None)"
  using assms(2)
proof (induction cs arbitrary: m)
  case (Cons c cs)
  obtain e1 m1 where 1: "exec_cmd c m = (e1, m1)" by fastforce
  have "m1 (vectorKey v e) = m (vectorKey v e) \<or> (\<exists>b. c = SET (vectorKey v e) b \<and> m1 (vectorKey v e) = Some (RText b))
      \<or> (c = DEL (vectorKey v e) \<and> m1 (vectorKey v e) = None)"
    using 1 assms(1) Cons.prems by (cases c) (auto split: option.splits rval.splits if_splits)
  moreover have "snd (exec_cmds (c # cs) m) = snd (exec_cmds cs m1)" using 1 by (simp add: split_def Let_def)
  ultimately show ?case using Cons.IH [of m1] Cons.prems by auto
qed simp

lemma exec_put_all:
  assumes "put_cmds v vs = Inr cs" "plain_id v" "distinct (map fst vs)" "keys_ok m"
  shows "snd (exec_cmds cs m) (vectorKey v e)
      = (case map_of vs e of None \<Rightarrow> m (vectorKey v e) | Some x \<Rightarrow> Some (RText (projr (encodeVector x))))
    \<and> (\<forall>xs. m (entitiesKey v) = Some (RSet xs) \<longrightarrow> (\<exists>ys. snd (exec_cmds cs m) (entitiesKey v) = Some (RSet ys) \<and> set ys = set xs \<union> fst ` set vs))
    \<and> (m (entitiesKey v) = None \<longrightarrow> vs \<noteq> [] \<longrightarrow> (\<exists>ys. snd (exec_cmds cs m) (entitiesKey v) = Some (RSet ys) \<and> set ys = fst ` set vs))"
  using assms
proof (induction vs arbitrary: cs m)
  case (Cons kv vs)
  obtain e0 x0 where kv: "kv = (e0, x0)" by fastforce
  from Cons.prems(1) kv obtain b cs' where b: "encodeVector x0 = Inr b" and cs': "put_cmds v vs = Inr cs'"
    and cs: "cs = SET (vectorKey v e0) b # SADD (entitiesKey v) e0 # cs'" by (auto split: sum.splits)
  let ?m1 = "m(vectorKey v e0 \<mapsto> RText b)"
  have ent: "?m1 (entitiesKey v) = m (entitiesKey v)" using Cons.prems(2) by simp
  have nt: "\<not> is_RText (m (entitiesKey v))" using Cons.prems(2,4) by (simp add: keys_ok_def)
  define ys where "ys = (case m (entitiesKey v) of Some (RSet xs) \<Rightarrow> List.insert e0 xs | _ \<Rightarrow> [e0])"
  define m2 where "m2 = ?m1(entitiesKey v \<mapsto> RSet ys)"
  have step: "snd (exec_cmds cs m) = snd (exec_cmds cs' m2)"
    using nt ent by (auto simp: cs ys_def m2_def split_def split: option.splits rval.splits)
  have ok2: "keys_ok m2" using Cons.prems(2,4) by (auto simp: keys_ok_def m2_def)
  have m2: "m2 (entitiesKey v) = Some (RSet ys)" "m2 (vectorKey v e) = (if e = e0 then Some (RText b) else m (vectorKey v e))" for e
    using Cons.prems(2) by (auto simp: m2_def)
  have d: "distinct (map fst vs)" "e0 \<notin> fst ` set vs" using Cons.prems(3) kv by auto
  note ih = Cons.IH [OF cs' Cons.prems(2) d(1) ok2]
  have vec: "snd (exec_cmds cs m) (vectorKey v e)
      = (case map_of (kv # vs) e of None \<Rightarrow> m (vectorKey v e) | Some x \<Rightarrow> Some (RText (projr (encodeVector x))))"
  proof (cases "e = e0")
    case True
    with d(2) have "map_of vs e = None" by (simp add: map_of_eq_None_iff)
    with ih True step b kv m2 show ?thesis by simp
  next
    case False
    with ih step kv m2 show ?thesis by (simp split: option.split)
  qed
  from ih m2(1) obtain zs where zs: "snd (exec_cmds cs m) (entitiesKey v) = Some (RSet zs)" "set zs = set ys \<union> fst ` set vs"
    unfolding step by blast
  have "m (entitiesKey v) = Some (RSet xs) \<Longrightarrow> set ys = insert e0 (set xs)" for xs by (simp add: ys_def)
  moreover have "m (entitiesKey v) = None \<Longrightarrow> set ys = {e0}" by (simp add: ys_def)
  ultimately show ?case using vec zs kv by auto
qed simp


lemma put_run:
  assumes inv: "redis_inv s" and v: "plain_id v" and d: "distinct (map fst vs)" and run: "Put v vs s = (err, s')"
  shows "redis_inv s' \<and> (\<forall>w. plain_id w \<and> w \<noteq> v \<longrightarrow> redis_view s' w = redis_view s w \<and> redis_tidy s' w = redis_tidy s w)
      \<and> (case err of
           None \<Rightarrow> redis_view s' v = redis_view s v ++ (map_option cached \<circ> map_of vs) \<and> (redis_tidy s v \<longrightarrow> redis_tidy s' v)
         | Some _ \<Rightarrow> (\<forall>e. redis_view s' v e = redis_view s v e
              \<or> redis_view s' v e = (redis_view s v ++ (map_option cached \<circ> map_of vs)) e))"
proof (cases "vs = [] \<or> isl (put_cmds v vs)")
  case True
  then show ?thesis
  proof
    assume e: "vs = []"
    then have "map_option cached \<circ> map_of vs = Map.empty" by auto
    with e run inv show ?thesis by (simp add: Put_def)
  qed (use inv run in \<open>auto simp: Put_def isl_def split: if_splits option.splits\<close>)
next
  case False
  then obtain cs where cs: "put_cmds v vs = Inr cs" by (auto simp: isl_def) (metis sum.exhaust)
  obtain e1 where pipe: "exec_pipe cs s = (e1, s')" "err = None \<longleftrightarrow> e1 = None"
    using run False cs by (auto simp: Put_def split: prod.splits option.splits)
  from exec_pipe_props [OF inv v put_cmds_of [OF cs] pipe(1)] obtain n where
    frame: "redis_inv s'" "\<forall>w. plain_id w \<and> w \<noteq> v \<longrightarrow> redis_view s' w = redis_view s w \<and> redis_tidy s' w = redis_tidy s w"
    and n: "rs_keys s' = snd (exec_cmds (take n cs) (rs_keys s))" "e1 = None \<longrightarrow> n = length cs" by blast
  have ok: "keys_ok (rs_keys s)" using inv by (simp add: redis_inv_def keys_ok_def)
  have enc: "encodeVector x = Inr (projr (encodeVector x))" if "(e, x) \<in> set vs" for e x
    using that cs by (induction vs arbitrary: cs) (auto split: sum.splits)
  have new: "(redis_view s v ++ (map_option cached \<circ> map_of vs)) e
      = (case map_of vs e of None \<Rightarrow> redis_view s v e | Some x \<Rightarrow> Some (cached x))" for e
    by (simp add: map_add_def split: option.split)
  show ?thesis
  proof (cases err)
    case None
    then have all: "rs_keys s' = snd (exec_cmds cs (rs_keys s))" using n pipe(2) by simp
    note ex = exec_put_all [OF cs v d ok]
    have "redis_view s' v e = (redis_view s v ++ (map_option cached \<circ> map_of vs)) e" for e
    proof (cases "map_of vs e")
      case None
      with ex [of e] show ?thesis unfolding new by (simp add: redis_view_def all)
    next
      case (Some x)
      then have "decodeVector (projr (encodeVector x)) = cached x" using vector_roundtrip [OF enc] by (auto dest: map_of_SomeD)
      with Some ex [of e] show ?thesis unfolding new by (simp add: redis_view_def all)
    qed
    moreover have "redis_tidy s' v" if t: "redis_tidy s v"
    proof -
      have "vs \<noteq> []" using False by simp
      moreover have "\<not> is_RText (rs_keys s (entitiesKey v))" using ok v by (simp add: keys_ok_def)
      ultimately obtain zs where zs: "rs_keys s' (entitiesKey v) = Some (RSet zs)"
        "set zs = fst ` set vs \<union> (case rs_keys s (entitiesKey v) of Some (RSet xs) \<Rightarrow> set xs | _ \<Rightarrow> {})"
        using ex unfolding all by (cases "rs_keys s (entitiesKey v)") (fastforce split: rval.splits)+
      have "e \<in> set zs" if e: "is_RText (rs_keys s' (vectorKey v e))" for e
      proof (cases "map_of vs e")
        case None
        with ex [of e] e have "is_RText (rs_keys s (vectorKey v e))" by (simp add: all)
        with t zs(2) show ?thesis by (force simp: redis_tidy_def)
      qed (use zs(2) in \<open>auto dest: map_of_SomeD intro: rev_image_eqI\<close>)
      with zs(1) show ?thesis by (simp add: redis_tidy_def)
    qed
    ultimately show ?thesis using None frame by auto
  next
    case (Some x)
    have "redis_view s' v e = redis_view s v e \<or> redis_view s' v e = (redis_view s v ++ (map_option cached \<circ> map_of vs)) e" for e
    proof -
      have sub: "\<forall>c \<in> set (take n cs). cmd_of v c" using put_cmds_of [OF cs] by (auto dest: in_set_takeD)
      have del: "DEL (vectorKey v e) \<notin> set (take n cs)" using put_cmds_DEL [OF cs] by (auto dest: in_set_takeD)
      from exec_cmds_vector [OF v sub, of "rs_keys s" e] del
      consider "rs_keys s' (vectorKey v e) = rs_keys s (vectorKey v e)"
        | b where "SET (vectorKey v e) b \<in> set cs" "rs_keys s' (vectorKey v e) = Some (RText b)"
        unfolding n(1) by (auto dest: in_set_takeD)
      then show ?thesis
      proof cases
        case 2
        from put_cmds_SET [OF cs 2(1)] v obtain x where x: "(e, x) \<in> set vs" "encodeVector x = Inr b" by auto
        then have "map_of vs e = Some x" using d by simp
        with 2(2) vector_roundtrip [OF x(2)] show ?thesis unfolding new by (simp add: redis_view_def)
      qed (simp add: redis_view_def)
    qed
    with Some frame show ?thesis by simp
  qed
qed

lemma purge_run:
  assumes inv: "redis_inv s" and v: "plain_id v" and run: "Purge v s = (err, s')"
  shows "redis_inv s' \<and> (\<forall>w. plain_id w \<and> w \<noteq> v \<longrightarrow> redis_view s' w = redis_view s w \<and> redis_tidy s' w = redis_tidy s w)
      \<and> (\<forall>e. redis_view s' v e = redis_view s v e \<or> redis_view s' v e = None)
      \<and> (err = None \<longrightarrow> redis_tidy s v \<longrightarrow> redis_view s' v = Map.empty \<and> redis_tidy s' v)"
proof -
  obtain f s1 where f: "redis_fault s = (f, s1)" by fastforce
  then have k1: "rs_keys s1 = rs_keys s" by (auto simp: redis_fault_def split: list.splits)
  have same: "redis_inv s1" "redis_view s1 = redis_view s" "redis_tidy s1 = redis_tidy s"
    using inv by (simp_all add: redis_inv_def redis_view_def [abs_def] redis_tidy_def [abs_def] k1)
  have nt: "\<not> is_RText (rs_keys s1 (entitiesKey v))" using same(1) v by (simp add: redis_inv_def)
  define members where "members = (case rs_keys s1 (entitiesKey v) of Some (RSet xs) \<Rightarrow> xs | _ \<Rightarrow> [])"
  define cs where "cs = map (\<lambda>e. DEL (vectorKey v e)) members @ [DEL (entitiesKey v)]"
  show ?thesis
  proof (cases f)
    case (Some nm)
    with run f have "err \<noteq> None" "s' = s1" by (auto simp: Purge_def split: prod.splits)
    with same show ?thesis by auto
  next
    case None
    obtain e1 where pipe: "exec_pipe cs s1 = (e1, s')" "err = None \<longleftrightarrow> e1 = None"
      using run f None nt by (auto simp: Purge_def cs_def members_def Let_def split: prod.splits option.splits)
    have cmds: "\<forall>c \<in> set cs. cmd_of v c" by (auto simp: cs_def)
    from exec_pipe_props [OF same(1) v cmds pipe(1)] obtain n where
      frame: "redis_inv s'" "\<forall>w. plain_id w \<and> w \<noteq> v \<longrightarrow> redis_view s' w = redis_view s1 w \<and> redis_tidy s' w = redis_tidy s1 w"
      and n: "rs_keys s' = snd (exec_cmds (take n cs) (rs_keys s1))" "e1 = None \<longrightarrow> n = length cs" by blast
    have sub: "\<forall>c \<in> set (take n cs). cmd_of v c" using cmds by (auto dest: in_set_takeD)
    have noset: "SET k b \<notin> set (take n cs)" for k b by (auto simp: cs_def dest!: in_set_takeD)
    have gone: "redis_view s' v e = redis_view s v e \<or> redis_view s' v e = None" for e
      using exec_cmds_vector [OF v sub, of "rs_keys s1" e] noset unfolding n(1) [symmetric] by (auto simp: redis_view_def k1)
    have "redis_view s' v = Map.empty \<and> redis_tidy s' v" if "err = None" and t: "redis_tidy s v"
    proof -
      have all: "rs_keys s' = snd (exec_cmds cs (rs_keys s1))" using n pipe(2) that by simp
      have dels: "snd (exec_cmds (map DEL ks) m) = (\<lambda>k. if k \<in> set ks then None else m k)" for ks m
        by (induction ks arbitrary: m) (auto simp: split_def Let_def)
      have "cs = map DEL (map (vectorKey v) members @ [entitiesKey v])" by (simp add: cs_def)
      then have keys: "rs_keys s' = (\<lambda>k. if k \<in> set (map (vectorKey v) members @ [entitiesKey v]) then None else rs_keys s1 k)"
        unfolding all by (simp only: dels)
      have "\<not> is_RText (rs_keys s' (vectorKey v e))" for e
      proof
        assume "is_RText (rs_keys s' (vectorKey v e))"
        then have "is_RText (rs_keys s1 (vectorKey v e))" "e \<notin> set members" by (auto simp: keys split: if_splits)
        with t k1 show False by (auto simp: redis_tidy_def members_def)
      qed
      moreover have "\<not> is_RSet (rs_keys s' (vectorKey v e))" for e using frame(1) v by (simp add: redis_inv_def)
      ultimately have "rs_keys s' (vectorKey v e) = None" for e
        by (metis is_R_simps(2,6) not_Some_eq rval.exhaust)
      then show ?thesis by (auto simp: redis_view_def redis_tidy_def)
    qed
    then show ?thesis using frame gone same by auto
  qed
qed

lemma read_replies_run:
  "\<forall>e. \<not> is_RSet (g e) \<Longrightarrow> read_replies (map (\<lambda>e. (e, g e)) ids) out
     = Inr (\<lambda>e. if e \<in> set ids then (case g e of Some (RText b) \<Rightarrow> Some (decodeVector b) | _ \<Rightarrow> out e) else out e)"
proof (induction ids arbitrary: out)
  case (Cons i ids)
  have "\<not> is_RSet (g i)" using Cons.prems by blast
  then consider "g i = None" | b where "g i = Some (RText b)" by (cases "g i") (auto simp: is_RSet_def split: rval.splits)
  then show ?case
  proof cases
    case 1
    with Cons show ?thesis by (auto intro!: ext)
  next
    case 2
    with Cons show ?thesis by (auto intro!: ext split: option.split rval.split)
  qed
qed simp

lemma get_run:
  assumes inv: "redis_inv s" and v: "plain_id v" and run: "GetLatest v ids s = (r, s')"
  shows "rs_keys s' = rs_keys s \<and> (case r of Inl _ \<Rightarrow> True | Inr found \<Rightarrow> found = redis_view s v |` set ids)"
proof -
  obtain f s1 where f: "redis_fault s = (f, s1)" by fastforce
  then have k1: "rs_keys s1 = rs_keys s" by (auto simp: redis_fault_def split: list.splits)
  let ?g = "\<lambda>e. rs_keys s1 (vectorKey v e)"
  have ns: "\<forall>e. \<not> is_RSet (?g e)" using inv v by (simp add: k1 redis_inv_def)
  have hd: "\<not> (fl \<noteq> [] \<and> is_RSet (snd (hd fl)))" if "fl = filter p (map (\<lambda>e. (e, ?g e)) ids)" for fl p
  proof
    assume a: "fl \<noteq> [] \<and> is_RSet (snd (hd fl))"
    then have "hd fl \<in> set fl" by simp
    then have "\<exists>e. hd fl = (e, ?g e)" unfolding that by auto
    with a ns show False by auto
  qed
  have "(\<lambda>e. if e \<in> set ids then (case ?g e of Some (RText b) \<Rightarrow> Some (decodeVector b) | _ \<Rightarrow> Map.empty e) else Map.empty e)
      = redis_view s v |` set ids"
    by (auto simp: redis_view_def restrict_map_def k1 intro!: ext)
  with read_replies_run [OF ns, of ids Map.empty] have reads: "read_replies (map (\<lambda>e. (e, ?g e)) ids) Map.empty = Inr (redis_view s v |` set ids)"
    by simp
  then show ?thesis
  proof (cases "ids = []")
    case False
    with run f k1 hd reads show ?thesis
      by (cases f) (auto simp: GetLatest_def Let_def split: prod.splits)
  qed (use run in \<open>auto simp: GetLatest_def\<close>)
qed

interpretation redis: online_store RedisOnline_ops redis_view redis_inv redis_tidy plain_id
proof unfold_locales
  fix c c' :: redisState and v ids r
  assume a: "redis_inv c" "plain_id v" "on_GetLatest RedisOnline_ops v ids c = (r, c')"
  then have run: "GetLatest v ids c = (r, c')" by (simp add: RedisOnline_ops_def)
  note g = get_run [OF a(1,2) run]
  have "redis_inv c'" "redis_view c' = redis_view c" "redis_tidy c' = redis_tidy c"
    using a(1) g by (simp_all add: redis_inv_def redis_view_def [abs_def] redis_tidy_def [abs_def])
  with g show "redis_inv c' \<and> redis_view c' = redis_view c \<and> redis_tidy c' = redis_tidy c
      \<and> (case r of Inl _ \<Rightarrow> True | Inr found \<Rightarrow> found = redis_view c v |` set ids)" by simp
next
  fix c c' :: redisState and v vs err
  assume "redis_inv c" "plain_id v" "distinct (map fst vs)" "on_Put RedisOnline_ops v vs c = (err, c')"
  then show "redis_inv c' \<and> (\<forall>w. plain_id w \<and> w \<noteq> v \<longrightarrow> redis_view c' w = redis_view c w \<and> redis_tidy c' w = redis_tidy c w)
      \<and> (case err of
           None \<Rightarrow> redis_view c' v = redis_view c v ++ (map_option cached \<circ> map_of vs) \<and> (redis_tidy c v \<longrightarrow> redis_tidy c' v)
         | Some _ \<Rightarrow> (\<forall>e. redis_view c' v e = redis_view c v e
              \<or> redis_view c' v e = (redis_view c v ++ (map_option cached \<circ> map_of vs)) e))"
    using put_run by (simp add: RedisOnline_ops_def)
next
  fix c c' :: redisState and v err
  assume "redis_inv c" "plain_id v" "on_Purge RedisOnline_ops v c = (err, c')"
  then show "redis_inv c' \<and> (\<forall>w. plain_id w \<and> w \<noteq> v \<longrightarrow> redis_view c' w = redis_view c w \<and> redis_tidy c' w = redis_tidy c w)
      \<and> (\<forall>e. redis_view c' v e = redis_view c v e \<or> redis_view c' v e = None)
      \<and> (err = None \<longrightarrow> redis_tidy c v \<longrightarrow> redis_view c' v = Map.empty \<and> redis_tidy c' v)"
    using purge_run [of c v err c'] by (simp add: RedisOnline_ops_def)
qed


text \<open>
  A put that breaks off between the vector and its entry in the index leaves a vector the index does not
  name. A purge does not find it: the deleted view goes on being served for that entity.
\<close>

definition demo_vector :: FeatureVector where
  "demo_vector = \<lparr>fc_EntityID = ''u'', fc_Values = [], fc_AsOfVersion = 1, fc_EventTime = 10, fc_SchemaVersion = 1\<rparr>"

lemma broken_put_survives_purge:
  "let (e1, s1) = Put ''v'' [(''u'', demo_vector)] \<lparr>rs_keys = Map.empty, rs_faults = [Some (1, ''connection reset'')]\<rparr>;
       (e2, s2) = Purge ''v'' s1;
       (found, s3) = GetLatest ''v'' [''u''] s2
   in e1 \<noteq> None \<and> e2 = None \<and> map_option fc_AsOfVersion (projr found ''u'') = Some 1"
  by code_simp

section \<open>The offline store\<close>

record offlineRow =
  ow_ViewID :: string
  ow_EntityID :: string
  ow_Values :: "(string \<times> jsonValue) list"
  ow_AsOfVersion :: int
  ow_EventTime :: time
  ow_SchemaVersion :: int

record offlineState =
  of_rows :: "offlineRow list"
  of_faults :: "string option list"

definition offline_fault :: "offlineState \<Rightarrow> goerr option \<times> offlineState" where
  "offline_fault s = (case of_faults s of [] \<Rightarrow> (None, s) | f # fs \<Rightarrow> (map_option Dyn f, s\<lparr>of_faults := fs\<rparr>))"

definition marshalVector :: "featureMap \<Rightarrow> goerr + (string \<times> jsonValue) list" where
  "marshalVector values = (case marshalValues values of
     Inl err \<Rightarrow> Inl err | Inr None \<Rightarrow> Inr [] | Inr (Some b) \<Rightarrow> Inr b)"

definition row_vector :: "offlineRow \<Rightarrow> FeatureVector" where
  "row_vector r = \<lparr>fc_EntityID = ow_EntityID r, fc_Values = unmarshalValues (Some (ow_Values r)), fc_AsOfVersion = ow_AsOfVersion r,
     fc_EventTime = ow_EventTime r, fc_SchemaVersion = ow_SchemaVersion r\<rparr>"

text \<open>\<open>coll\<close> is the sort key of the database's collation, which orders the entity ids.\<close>

definition GetAsOf :: "(string \<Rightarrow> string) \<Rightarrow> string \<Rightarrow> string list \<Rightarrow> time \<Rightarrow> ListOptions \<Rightarrow> offlineState \<Rightarrow>
    (goerr + projection \<times> string) \<times> offlineState" where
  "GetAsOf coll viewID entityIDs asOf opts s =
     (if entityIDs = [] then (Inr (Map.empty, ''''), s)
      else case offline_fault s of
        (Some err, s1) \<Rightarrow> (Inl (Wrapf ''get as-of: '' err ''''), s1)
      | (None, s1) \<Rightarrow>
          (let p0 = (if lo_PageSize opts \<le> 0 then DefaultPageSize else lo_PageSize opts);
               pageSize = nat (if p0 > MaxPageSize then MaxPageSize else p0);
               rows = take (pageSize + 1) (sort_key (\<lambda>r. coll (ow_EntityID r))
                 (filter (\<lambda>r. ow_ViewID r = viewID \<and> ow_EntityID r \<in> set entityIDs \<and> ow_EventTime r \<le> asOf
                    \<and> coll (lo_PageToken opts) < coll (ow_EntityID r)) (of_rows s1)));
               out = fold (\<lambda>r m. m(ow_EntityID r \<mapsto> row_vector r)) rows Map.empty;
               orderedIDs = map ow_EntityID rows
           in if length orderedIDs > pageSize
              then (Inr (out(orderedIDs ! pageSize := None), last (take pageSize orderedIDs)), s1)
              else (Inr (out, ''''), s1)))"

fun offline_rows :: "(time \<Rightarrow> time) \<Rightarrow> string \<Rightarrow> (string \<times> FeatureVector) list \<Rightarrow> goerr + offlineRow list" where
  "offline_rows pgtime viewID [] = Inr []"
| "offline_rows pgtime viewID ((entityID, vec) # rest) = (case marshalVector (fc_Values vec) of
     Inl err \<Rightarrow> Inl err
   | Inr b \<Rightarrow> (case offline_rows pgtime viewID rest of
        Inl err \<Rightarrow> Inl err
      | Inr rows \<Rightarrow> Inr (\<lparr>ow_ViewID = viewID, ow_EntityID = entityID, ow_Values = b, ow_AsOfVersion = fc_AsOfVersion vec,
           ow_EventTime = pgtime (fc_EventTime vec), ow_SchemaVersion = fc_SchemaVersion vec\<rparr> # rows)))"

definition Rebuild :: "(time \<Rightarrow> time) \<Rightarrow> string \<Rightarrow> (string \<times> FeatureVector) list \<Rightarrow> offlineState \<Rightarrow> goerr option \<times> offlineState" where
  "Rebuild pgtime viewID vectors s =
     (let (fault, s1) = offline_fault s in
      case offline_rows pgtime viewID vectors of
        Inl err \<Rightarrow> (Some err, s1)
      | Inr rows \<Rightarrow> (case fault of
           Some err \<Rightarrow> (Some err, s1)
         | None \<Rightarrow> (None, s1\<lparr>of_rows := filter (\<lambda>r. ow_ViewID r \<noteq> viewID) (of_rows s1) @ rows\<rparr>)))"

record 'f OfflineOps =
  of_GetAsOf :: "string \<Rightarrow> string list \<Rightarrow> time \<Rightarrow> ListOptions \<Rightarrow> 'f \<Rightarrow> (goerr + projection \<times> string) \<times> 'f"
  of_Rebuild :: "string \<Rightarrow> (string \<times> FeatureVector) list \<Rightarrow> 'f \<Rightarrow> goerr option \<times> 'f"

definition PgOffline_ops :: "(string \<Rightarrow> string) \<Rightarrow> (time \<Rightarrow> time) \<Rightarrow> offlineState OfflineOps" where
  "PgOffline_ops coll pgtime = \<lparr>of_GetAsOf = GetAsOf coll, of_Rebuild = Rebuild pgtime\<rparr>"

text \<open>
  The contract: \<open>base f v\<close> is the stored baseline of a view and \<open>kept\<close> what a vector reads back as. A rebuild
  replaces the baseline of its view or does nothing; a read returns vectors of the baseline that are
  not later than the instant asked for.
\<close>

locale offline_store =
  fixes Off :: "'f OfflineOps" and base :: "'f \<Rightarrow> string \<Rightarrow> projection" and finv :: "'f \<Rightarrow> bool"
    and kept :: "FeatureVector \<Rightarrow> FeatureVector"
  assumes get_as_of: "finv f \<Longrightarrow> of_GetAsOf Off v ids asOf opts f = (r, f') \<Longrightarrow> finv f' \<and> base f' = base f
      \<and> (\<forall>m tok e x. r = Inr (m, tok) \<longrightarrow> m e = Some x \<longrightarrow> base f v e = Some x \<and> e \<in> set ids \<and> fc_EventTime x \<le> asOf)"
    and rebuild: "finv f \<Longrightarrow> distinct (map fst vs) \<Longrightarrow> of_Rebuild Off v vs f = (err, f') \<Longrightarrow>
      finv f' \<and> (case err of
         Some _ \<Rightarrow> base f' = base f
       | None \<Rightarrow> base f' = (base f)(v := (\<lambda>e. map_option (\<lambda>x. (kept x)\<lparr>fc_EntityID := e\<rparr>) (map_of vs e))))"

definition offline_base :: "offlineState \<Rightarrow> string \<Rightarrow> projection" where
  "offline_base s v e = map_option row_vector (find (\<lambda>r. ow_ViewID r = v \<and> ow_EntityID r = e) (of_rows s))"

definition offline_inv :: "offlineState \<Rightarrow> bool" where
  "offline_inv s \<longleftrightarrow> distinct (map (\<lambda>r. (ow_ViewID r, ow_EntityID r)) (of_rows s))"

definition offline_kept :: "(time \<Rightarrow> time) \<Rightarrow> FeatureVector \<Rightarrow> FeatureVector" where
  "offline_kept pgtime v = (cached v)\<lparr>fc_EventTime := pgtime (fc_EventTime v)\<rparr>"

lemma marshalVector_read: "marshalVector vs = Inr b \<Longrightarrow> unmarshalValues (Some b) = map (\<lambda>(n, v). (n, json_value v)) vs"
  using marshal_unmarshal [of vs]
  by (cases "vs = []") (auto simp: marshalVector_def marshalValues_def unmarshalValues_def Let_def split: sum.splits option.splits if_splits)

lemma offline_rows_run:
  "offline_rows p v vs = Inr rows \<Longrightarrow> map ow_EntityID rows = map fst vs \<and> (\<forall>r \<in> set rows. ow_ViewID r = v)
     \<and> map_option row_vector (find (\<lambda>r. ow_ViewID r = v \<and> ow_EntityID r = e) rows)
       = map_option (\<lambda>x. (offline_kept p x)\<lparr>fc_EntityID := e\<rparr>) (map_of vs e)"
proof (induction vs arbitrary: rows)
  case (Cons kv vs)
  obtain e0 x0 where kv: "kv = (e0, x0)" by fastforce
  from Cons.prems kv obtain b rest where b: "marshalVector (fc_Values x0) = Inr b" and rest: "offline_rows p v vs = Inr rest"
    and rows: "rows = \<lparr>ow_ViewID = v, ow_EntityID = e0, ow_Values = b, ow_AsOfVersion = fc_AsOfVersion x0,
        ow_EventTime = p (fc_EventTime x0), ow_SchemaVersion = fc_SchemaVersion x0\<rparr> # rest" by (auto split: sum.splits)
  have "row_vector (hd rows) = (offline_kept p x0)\<lparr>fc_EntityID := e0\<rparr>"
    using marshalVector_read [OF b] by (simp add: rows row_vector_def offline_kept_def cached_def)
  with Cons.IH [OF rest] kv rows show ?case by simp
qed simp

lemma find_filter_other: "(\<And>x. P x \<Longrightarrow> Q x) \<Longrightarrow> find P (filter Q xs) = find P xs"
  by (induction xs) auto

lemma find_none_all: "\<forall>x \<in> set xs. \<not> P x \<Longrightarrow> find P xs = None"
  by (simp add: find_None_iff)

lemma rebuild_run:
  assumes inv: "offline_inv f" and d: "distinct (map fst vs)" and run: "Rebuild p v vs f = (err, f')"
  shows "offline_inv f' \<and> (case err of
         Some _ \<Rightarrow> offline_base f' = offline_base f
       | None \<Rightarrow> offline_base f' = (offline_base f)(v := (\<lambda>e. map_option (\<lambda>x. (offline_kept p x)\<lparr>fc_EntityID := e\<rparr>) (map_of vs e))))"
proof -
  obtain flt f1 where f: "offline_fault f = (flt, f1)" by fastforce
  then have k: "of_rows f1 = of_rows f" by (auto simp: offline_fault_def split: list.splits)
  show ?thesis
  proof (cases err)
    case (Some e)
    with run f k have "of_rows f' = of_rows f" by (auto simp: Rebuild_def split: sum.splits option.splits)
    with inv Some show ?thesis by (simp add: offline_inv_def offline_base_def [abs_def])
  next
    case None
    with run f obtain rows where rows: "offline_rows p v vs = Inr rows"
      and f': "of_rows f' = filter (\<lambda>r. ow_ViewID r \<noteq> v) (of_rows f) @ rows"
      by (auto simp: Rebuild_def k split: sum.splits option.splits)
    note r = offline_rows_run [OF rows]
    have "offline_base f' w e = ((offline_base f)(v := (\<lambda>e. map_option (\<lambda>x. (offline_kept p x)\<lparr>fc_EntityID := e\<rparr>) (map_of vs e)))) w e" for w e
    proof (cases "w = v")
      case True
      have "find (\<lambda>r. ow_ViewID r = v \<and> ow_EntityID r = e) (filter (\<lambda>r. ow_ViewID r \<noteq> v) (of_rows f)) = None"
        by (rule find_none_all) auto
      with True r show ?thesis by (simp add: offline_base_def f' find_append)
    next
      case False
      have "find (\<lambda>r. ow_ViewID r = w \<and> ow_EntityID r = e) rows = None"
        using r False by (intro find_none_all) auto
      moreover have "find (\<lambda>r. ow_ViewID r = w \<and> ow_EntityID r = e) (filter (\<lambda>r. ow_ViewID r \<noteq> v) (of_rows f))
          = find (\<lambda>r. ow_ViewID r = w \<and> ow_EntityID r = e) (of_rows f)" using False by (intro find_filter_other) auto
      ultimately show ?thesis using False by (simp add: offline_base_def f' find_append split: option.split)
    qed
    moreover have "offline_inv f'"
    proof -
      let ?k = "\<lambda>r. (ow_ViewID r, ow_EntityID r)"
      have "distinct (map ow_EntityID rows)" using r d by metis
      then have "distinct (map ?k rows)" by (auto simp: distinct_map inj_on_def)
      moreover have "distinct (map ?k (filter (\<lambda>r. ow_ViewID r \<noteq> v) (of_rows f)))"
        using inv by (simp add: offline_inv_def distinct_map_filter)
      moreover have "set (map ?k (filter (\<lambda>r. ow_ViewID r \<noteq> v) (of_rows f))) \<inter> set (map ?k rows) = {}" using r by auto
      ultimately show ?thesis unfolding offline_inv_def f' by simp
    qed
    ultimately show ?thesis using None by (auto intro!: ext)
  qed
qed


lemma fold_upd_Some: "fold (\<lambda>r m. m(k r \<mapsto> g r)) rows m0 e = Some x \<Longrightarrow> m0 e = Some x \<or> (\<exists>r \<in> set rows. k r = e \<and> g r = x)"
proof (induction rows arbitrary: m0)
  case (Cons r rows)
  from Cons.prems have "fold (\<lambda>r m. m(k r \<mapsto> g r)) rows (m0(k r \<mapsto> g r)) e = Some x" by (simp only: fold_simps)
  from Cons.IH [OF this] show ?case by (auto split: if_splits)
qed simp

lemma offline_base_row: "offline_inv f \<Longrightarrow> r \<in> set (of_rows f) \<Longrightarrow> offline_base f (ow_ViewID r) (ow_EntityID r) = Some (row_vector r)"
proof -
  assume a: "offline_inv f" "r \<in> set (of_rows f)"
  then obtain r' where r': "find (\<lambda>x. ow_ViewID x = ow_ViewID r \<and> ow_EntityID x = ow_EntityID r) (of_rows f) = Some r'"
    by (cases "find (\<lambda>x. ow_ViewID x = ow_ViewID r \<and> ow_EntityID x = ow_EntityID r) (of_rows f)") (auto simp: find_None_iff)
  then have "r' \<in> set (of_rows f)" "ow_ViewID r' = ow_ViewID r" "ow_EntityID r' = ow_EntityID r" by (auto dest: find_key_Some)
  with a have "r' = r" by (auto simp: offline_inv_def distinct_map inj_on_def)
  with r' show ?thesis by (simp add: offline_base_def)
qed

lemma get_as_of_run:
  assumes inv: "offline_inv f" and run: "GetAsOf coll v ids asOf opts f = (r, f')"
  shows "of_rows f' = of_rows f
    \<and> (\<forall>m tok e x. r = Inr (m, tok) \<longrightarrow> m e = Some x \<longrightarrow> offline_base f v e = Some x \<and> e \<in> set ids \<and> fc_EventTime x \<le> asOf)"
proof -
  obtain flt f1 where f: "offline_fault f = (flt, f1)" by fastforce
  then have k: "of_rows f1 = of_rows f" by (auto simp: offline_fault_def split: list.splits)
  let ?sel = "\<lambda>r. ow_ViewID r = v \<and> ow_EntityID r \<in> set ids \<and> ow_EventTime r \<le> asOf \<and> coll (lo_PageToken opts) < coll (ow_EntityID r)"
  let ?fold = "\<lambda>rows. fold (\<lambda>r m. m(ow_EntityID r \<mapsto> row_vector r)) rows Map.empty :: projection"
  have rows: "offline_base f v e = Some x \<and> e \<in> set ids \<and> fc_EventTime x \<le> asOf"
    if m: "?fold rows e = Some x" and sub: "set rows \<subseteq> set (filter ?sel (of_rows f))" for rows e x
  proof -
    from fold_upd_Some [OF m] obtain row where row: "row \<in> set rows" "ow_EntityID row = e" "row_vector row = x" by auto
    with sub have "row \<in> set (of_rows f)" "?sel row" by auto
    with row offline_base_row [OF inv, of row] show ?thesis by (auto simp: row_vector_def)
  qed
  have out: "m e = Some x \<Longrightarrow> \<exists>rows. ?fold rows e = Some x \<and> set rows \<subseteq> set (filter ?sel (of_rows f))"
    if "r = Inr (m, tok)" for m tok e x
  proof (cases "ids = [] \<or> flt \<noteq> None")
    case False
    then have flt: "flt = None" "ids \<noteq> []" by auto
    define n where "n = nat (let p0 = (if lo_PageSize opts \<le> 0 then DefaultPageSize else lo_PageSize opts) in if p0 > MaxPageSize then MaxPageSize else p0)"
    define rows where "rows = take (n + 1) (sort_key (\<lambda>r. coll (ow_EntityID r)) (filter ?sel (of_rows f)))"
    have "m = ?fold rows \<or> m = (?fold rows)(map ow_EntityID rows ! n := None)"
      using run that f flt k unfolding GetAsOf_def n_def rows_def by (auto simp: Let_def split: if_splits)
    moreover assume "m e = Some x"
    moreover have "set rows \<subseteq> set (filter ?sel (of_rows f))" unfolding rows_def by (rule subset_trans [OF set_take_subset]) simp
    ultimately show ?thesis by (intro exI [of _ rows]) (auto split: if_splits)
  next
    case True
    assume "m e = Some x"
    with True run f that show ?thesis by (cases "ids = []") (auto simp: GetAsOf_def)
  qed
  have "of_rows f' = of_rows f" using run f k by (auto simp: GetAsOf_def Let_def split: if_splits option.splits)
  with rows out show ?thesis by blast
qed

interpretation offline: offline_store "PgOffline_ops coll pgtime" offline_base offline_inv "offline_kept pgtime"
  for coll :: "string \<Rightarrow> string" and pgtime :: "time \<Rightarrow> time"
proof unfold_locales
  fix f f' :: offlineState and v ids asOf opts r
  assume a: "offline_inv f" "of_GetAsOf (PgOffline_ops coll pgtime) v ids asOf opts f = (r, f')"
  then have run: "GetAsOf coll v ids asOf opts f = (r, f')" by (simp add: PgOffline_ops_def)
  note g = get_as_of_run [OF a(1) run]
  then have "offline_inv f'" "offline_base f' = offline_base f" using a(1) by (simp_all add: offline_inv_def offline_base_def [abs_def])
  with g show "offline_inv f' \<and> offline_base f' = offline_base f
      \<and> (\<forall>m tok e x. r = Inr (m, tok) \<longrightarrow> m e = Some x \<longrightarrow> offline_base f v e = Some x \<and> e \<in> set ids \<and> fc_EventTime x \<le> asOf)"
    by blast
next
  fix f f' :: offlineState and v vs err
  assume "offline_inv f" "distinct (map fst vs)" "of_Rebuild (PgOffline_ops coll pgtime) v vs f = (err, f')"
  then show "offline_inv f' \<and> (case err of
         Some _ \<Rightarrow> offline_base f' = offline_base f
       | None \<Rightarrow> offline_base f' = (offline_base f)(v := (\<lambda>e. map_option (\<lambda>x. (offline_kept pgtime x)\<lparr>fc_EntityID := e\<rparr>) (map_of vs e))))"
    using rebuild_run [of f vs pgtime v err f'] by (simp add: PgOffline_ops_def)
qed

text \<open>
  The baseline holds the latest event of an entity only, so a read from it is not the point-in-time
  projection: here the log has a value of the entity at the instant asked for, and the rebuilt baseline
  answers with nothing.
\<close>

lemma baseline_is_not_as_of:
  "let es = [demo_value ''u'' 1 10, demo_value ''u'' 2 30];
       vectors = [(''u'', the (ProjectLatest es 1 ''u''))];
       (e1, s1) = Rebuild (\<lambda>t. t) ''view'' vectors \<lparr>of_rows = [], of_faults = []\<rparr>;
       (r, s2) = GetAsOf (\<lambda>x. x) ''view'' [''u''] 20 \<lparr>lo_PageSize = 0, lo_PageToken = ''''\<rparr> s1
   in e1 = None \<and> fst (projr r) ''u'' = None \<and> ProjectAsOf es 20 1 ''u'' = Some (vectorOf 1 (demo_value ''u'' 1 10))"
  by code_simp

end
