(* ===== verification/FeatureService.thy ===== *)
theory FeatureService
  imports FeatureViews
begin

text \<open>
  The operations of the feature store (\<^verbatim>\<open>featurestore_service_impl.go\<close>): defining, reading, listing and
  deleting views, writing features, the online and the point-in-time read, and the rebuild of the
  projections from the log. An operation takes the ports as a record and threads one state through
  its calls: the log, the two view stores and the positions of the clock and the id generator. The lemmas
  about the operations are proved in the locale \<open>feature_store\<close>, which joins the contracts of the
  three ports, and reach the properties through its interpretation on the three adapters.
\<close>

section \<open>Inputs and results\<close>

record Principal =
  pr_UserID :: string
  pr_Team :: string
  pr_Scopes :: "string list"

record DefineFeatureViewInput =
  df_Name :: string
  df_Description :: string
  df_Entity :: Entity
  df_Features :: "FeatureSpec list"
  df_IdempotencyKey :: string

record WriteFeaturesInput =
  wi_FeatureViewID :: string
  wi_Rows :: "FeatureRow list"
  wi_IdempotencyKey :: string

record WriteFeaturesResult =
  wr_WrittenCount :: int
  wr_WrittenThroughVersion :: int
  wr_AffectedEntityIDs :: "string list"

record GetOnlineFeaturesInput =
  oi_FeatureViewID :: string
  oi_EntityIDs :: "string list"
  oi_FeatureNames :: "string list"

record GetHistoricalFeaturesInput =
  hi_FeatureViewID :: string
  hi_EntityIDs :: "string list"
  hi_AsOf :: time
  hi_FeatureNames :: "string list"
  hi_Pagination :: ListOptions

record FeatureVectorPage =
  pg_Vectors :: "FeatureVector list"
  pg_MissingEntityIDs :: "string list"
  pg_NextPageToken :: string

record RebuildProgress =
  rp_EventsReplayed :: int
  rp_TotalEvents :: int
  rp_CurrentFeatureViewID :: string
  rp_Done :: bool

datatype RebuildTarget = RebuildTargetAll | RebuildTargetOnline | RebuildTargetOffline

record RebuildViewsInput =
  ri_FeatureViewID :: string
  ri_Target :: RebuildTarget

record ('l, 'o, 'f) featureStoreService =
  fp_log :: "'l EventLogOps"
  fp_online :: "'o OnlineOps"
  fp_offline :: "'f OfflineOps"
  fp_clock :: "nat \<Rightarrow> time"
  fp_idgen :: "nat \<Rightarrow> string"

record ('l, 'o, 'f) fsState =
  fs_log :: 'l
  fs_online :: 'o
  fs_offline :: 'f
  fs_ticks :: nat
  fs_ids :: nat

definition adminScope :: string where
  "adminScope = ''features:admin''"

section \<open>Helpers\<close>

definition validateSpec :: "string list \<Rightarrow> FeatureSpec \<Rightarrow> goerr option" where
  "validateSpec seen f =
     (if sp_Name f = '''' then Some (Wrapf '''' ErrValidation '': feature name is required'')
      else if sp_Name f \<in> set seen then Some (Wrapf '''' ErrValidation ('': duplicate feature name '' @ quote (sp_Name f)))
      else if sp_ValueType f = FeatureTypeUnspecified
        then Some (Wrapf '''' ErrValidation ('': feature '' @ quote (sp_Name f) @ '' has UNSPECIFIED value_type''))
      else if sp_Dimension f < 0
        then Some (Wrapf '''' ErrValidation ('': feature '' @ quote (sp_Name f) @ '' has negative dimension '' @ itoa (sp_Dimension f)))
      else if sp_Dimension f > 0 \<and> sp_ValueType f \<noteq> FeatureTypeDoubleList
        then Some (Wrapf '''' ErrValidation ('': feature '' @ quote (sp_Name f) @ '' declares a dimension but is not DOUBLE_LIST''))
      else None)"

fun validateSpecs :: "string list \<Rightarrow> FeatureSpec list \<Rightarrow> goerr option" where
  "validateSpecs seen [] = None"
| "validateSpecs seen (f # fs) = (case validateSpec seen f of Some err \<Rightarrow> Some err | None \<Rightarrow> validateSpecs (sp_Name f # seen) fs)"

definition validateDefineInput :: "DefineFeatureViewInput \<Rightarrow> goerr option" where
  "validateDefineInput inp =
     (if df_Name inp = '''' then Some (Wrapf '''' ErrValidation '': view name is required'')
      else if en_Name (df_Entity inp) = '''' \<or> en_JoinKey (df_Entity inp) = ''''
        then Some (Wrapf '''' ErrValidation '': entity name and join_key are required'')
      else if df_Features inp = [] then Some (Wrapf '''' ErrValidation '': at least one feature spec is required'')
      else validateSpecs [] (df_Features inp))"

definition validateValue :: "FeatureView \<Rightarrow> string \<Rightarrow> FeatureValue \<Rightarrow> goerr option" where
  "validateValue view name val = (case specByName view name of
     None \<Rightarrow> Some (Wrapf '''' ErrSchemaViolation ('': feature '' @ quote name @ '' is not in the view schema''))
   | Some spec \<Rightarrow>
       if vl_Kind val \<noteq> sp_ValueType spec
       then Some (Wrapf '''' ErrSchemaViolation ('': feature '' @ quote name @ '' is '' @ FeatureValueType_String (sp_ValueType spec)
              @ '' but value is '' @ FeatureValueType_String (vl_Kind val)))
       else if sp_ValueType spec = FeatureTypeDoubleList \<and> sp_Dimension spec > 0 \<and> int (length (vl_List val)) \<noteq> sp_Dimension spec
       then Some (Wrapf '''' ErrSchemaViolation ('': feature '' @ quote name @ '' expects dimension '' @ itoa (sp_Dimension spec)
              @ '', got '' @ itoa (int (length (vl_List val)))))
       else None)"

fun validateValues :: "FeatureView \<Rightarrow> featureMap \<Rightarrow> goerr option" where
  "validateValues view [] = None"
| "validateValues view ((name, val) # rest) = (case validateValue view name val of Some err \<Rightarrow> Some err | None \<Rightarrow> validateValues view rest)"

definition validateRow :: "FeatureView \<Rightarrow> FeatureRow \<Rightarrow> goerr option" where
  "validateRow view row =
     (if rw_EntityID row = '''' then Some (Wrapf '''' ErrSchemaViolation '': entity_id is required'')
      else if rw_Values row = [] then Some (Wrapf '''' ErrSchemaViolation '': row has no feature values'')
      else validateValues view (rw_Values row))"

definition clampPage :: "ListOptions \<Rightarrow> ListOptions" where
  "clampPage opts = (let p = (if lo_PageSize opts \<le> 0 then DefaultPageSize else lo_PageSize opts)
     in opts\<lparr>lo_PageSize := (if p > MaxPageSize then MaxPageSize else p)\<rparr>)"

fun dedupeStrings :: "string list \<Rightarrow> string list \<Rightarrow> string list" where
  "dedupeStrings seen [] = []"
| "dedupeStrings seen (x # xs) = (if x \<in> set seen then dedupeStrings seen xs else x # dedupeStrings (x # seen) xs)"

text \<open>A name requested twice sets the same entry twice.\<close>

fun projectColumns :: "featureMap \<Rightarrow> string list \<Rightarrow> featureMap" where
  "projectColumns values [] = []"
| "projectColumns values (n # names) = (case map_of values n of
     None \<Rightarrow> projectColumns values names
   | Some v \<Rightarrow> (n, v) # filter (\<lambda>(m, _). m \<noteq> n) (projectColumns values names))"

fun assemblePage :: "string list \<Rightarrow> projection \<Rightarrow> string list \<Rightarrow> string \<Rightarrow> FeatureVectorPage" where
  "assemblePage [] found featureNames nextToken = \<lparr>pg_Vectors = [], pg_MissingEntityIDs = [], pg_NextPageToken = nextToken\<rparr>"
| "assemblePage (eid # requested) found featureNames nextToken =
     (let page = assemblePage requested found featureNames nextToken in case found eid of
        None \<Rightarrow> page\<lparr>pg_MissingEntityIDs := eid # pg_MissingEntityIDs page\<rparr>
      | Some v \<Rightarrow> page\<lparr>pg_Vectors := (if featureNames \<noteq> [] then v\<lparr>fc_Values := projectColumns (fc_Values v) featureNames\<rparr> else v)
           # pg_Vectors page\<rparr>)"

text \<open>The entries of a projection of the events, in the order of the entities' first events.\<close>

definition entries :: "FeatureEvent list \<Rightarrow> projection \<Rightarrow> (string \<times> FeatureVector) list" where
  "entries es m = List.map_filter (\<lambda>k. map_option (Pair k) (m k)) (remdups (map fe_EntityID es))"

section \<open>Calls of the ports\<close>

definition onLog :: "('l \<Rightarrow> 'a \<times> 'l) \<Rightarrow> ('l, 'o, 'f) fsState \<Rightarrow> 'a \<times> ('l, 'o, 'f) fsState" where
  "onLog f s = (let (a, l) = f (fs_log s) in (a, s\<lparr>fs_log := l\<rparr>))"

definition onOnline :: "('o \<Rightarrow> 'a \<times> 'o) \<Rightarrow> ('l, 'o, 'f) fsState \<Rightarrow> 'a \<times> ('l, 'o, 'f) fsState" where
  "onOnline f s = (let (a, c) = f (fs_online s) in (a, s\<lparr>fs_online := c\<rparr>))"

definition onOffline :: "('f \<Rightarrow> 'a \<times> 'f) \<Rightarrow> ('l, 'o, 'f) fsState \<Rightarrow> 'a \<times> ('l, 'o, 'f) fsState" where
  "onOffline f s = (let (a, c) = f (fs_offline s) in (a, s\<lparr>fs_offline := c\<rparr>))"

definition Now :: "('l, 'o, 'f) featureStoreService \<Rightarrow> ('l, 'o, 'f) fsState \<Rightarrow> time \<times> ('l, 'o, 'f) fsState" where
  "Now P s = (fp_clock P (fs_ticks s), s\<lparr>fs_ticks := Suc (fs_ticks s)\<rparr>)"

definition NewID :: "('l, 'o, 'f) featureStoreService \<Rightarrow> ('l, 'o, 'f) fsState \<Rightarrow> string \<times> ('l, 'o, 'f) fsState" where
  "NewID P s = (fp_idgen P (fs_ids s), s\<lparr>fs_ids := Suc (fs_ids s)\<rparr>)"

section \<open>Operations\<close>

definition foldViewByID :: "('l, 'o, 'f) featureStoreService \<Rightarrow> string \<Rightarrow> ('l, 'o, 'f) fsState \<Rightarrow>
    (goerr + FeatureView) \<times> ('l, 'o, 'f) fsState" where
  "foldViewByID P viewID s = (case onLog (el_LoadView (fp_log P) viewID) s of
     (Inl err, s1) \<Rightarrow>
       (if errors_Is err ErrEventLogNotFound then (Inl ErrViewNotFound, s1)
        else (Inl (Wrapf ''load view events: '' err ''''), s1))
   | (Inr es, s1) \<Rightarrow> (case foldView es of None \<Rightarrow> (Inl ErrViewNotFound, s1) | Some view \<Rightarrow> (Inr view, s1)))"

definition authorizedView :: "('l, 'o, 'f) featureStoreService \<Rightarrow> Principal \<Rightarrow> string \<Rightarrow> ('l, 'o, 'f) fsState \<Rightarrow>
    (goerr + FeatureView) \<times> ('l, 'o, 'f) fsState" where
  "authorizedView P p viewID s =
     (if viewID = '''' then (Inl (Wrapf '''' ErrValidation '': feature_view_id is required''), s)
      else case foldViewByID P viewID s of
        (Inl err, s1) \<Rightarrow> (Inl err, s1)
      | (Inr view, s1) \<Rightarrow> if fv_OwnerTeam view \<noteq> pr_Team p then (Inl ErrViewNotFound, s1) else (Inr view, s1))"

definition appendViewDefinition :: "('l, 'o, 'f) featureStoreService \<Rightarrow> Principal \<Rightarrow> DefineFeatureViewInput \<Rightarrow> string \<Rightarrow> int \<Rightarrow>
    ('l, 'o, 'f) fsState \<Rightarrow> (goerr + FeatureView) \<times> ('l, 'o, 'f) fsState" where
  "appendViewDefinition P p inp viewID version s =
     (let (now, s1) = Now P s;
          vdef = \<lparr>vd_ID = viewID, vd_Name = df_Name inp, vd_Description = df_Description inp, vd_Entity = df_Entity inp,
            vd_Features = df_Features inp, vd_SchemaVersion = version, vd_OwnerUserID = pr_UserID p, vd_OwnerTeam = pr_Team p\<rparr>;
          (eid, s2) = NewID P s1;
          event = \<lparr>fe_ID = eid, fe_Type = FeatureEventViewDefined, fe_FeatureViewID = viewID, fe_Version = 0, fe_EntityID = '''',
            fe_Values = [], fe_EventTime = now, fe_ViewDef = Some vdef, fe_AppendedAt = now\<rparr>
      in case onLog (el_Append (fp_log P) (df_IdempotencyKey inp) [event]) s2 of
           (Inl err, s3) \<Rightarrow> (Inl (Wrapf ''append view definition: '' err ''''), s3)
         | (Inr _, s3) \<Rightarrow> foldViewByID P viewID s3)"

definition DefineFeatureView :: "('l, 'o, 'f) featureStoreService \<Rightarrow> Principal \<Rightarrow> DefineFeatureViewInput \<Rightarrow>
    ('l, 'o, 'f) fsState \<Rightarrow> (goerr + FeatureView) \<times> ('l, 'o, 'f) fsState" where
  "DefineFeatureView P p inp s = (case validateDefineInput inp of
     Some err \<Rightarrow> (Inl err, s)
   | None \<Rightarrow> (case onLog (el_ResolveViewIDByName (fp_log P) (pr_Team p) (df_Name inp)) s of
        (Inr existingID, s1) \<Rightarrow> (case foldViewByID P existingID s1 of
           (Inl ferr, s2) \<Rightarrow> (Inl ferr, s2)
         | (Inr current, s2) \<Rightarrow>
             if fv_Entity current \<noteq> df_Entity inp
             then (Inl (Wrapf '''' ErrViewNameConflict ('': view '' @ quote (df_Name inp) @ '' is keyed by entity ''
                    @ quote (en_Name (fv_Entity current)) @ '', cannot redefine with '' @ quote (en_Name (df_Entity inp)))), s2)
             else appendViewDefinition P p inp (fv_ID current) (fv_SchemaVersion current + 1) s2)
      | (Inl err, s1) \<Rightarrow>
          if errors_Is err ErrEventLogNotFound
          then (let (viewID, s2) = NewID P s1 in appendViewDefinition P p inp viewID 1 s2)
          else (Inl (Wrapf ''resolve view by name: '' err ''''), s1)))"

definition GetFeatureViewByID :: "('l, 'o, 'f) featureStoreService \<Rightarrow> Principal \<Rightarrow> string \<Rightarrow> ('l, 'o, 'f) fsState \<Rightarrow>
    (goerr + FeatureView) \<times> ('l, 'o, 'f) fsState" where
  "GetFeatureViewByID P p viewID s = authorizedView P p viewID s"

definition GetFeatureViewByName :: "('l, 'o, 'f) featureStoreService \<Rightarrow> Principal \<Rightarrow> string \<Rightarrow> ('l, 'o, 'f) fsState \<Rightarrow>
    (goerr + FeatureView) \<times> ('l, 'o, 'f) fsState" where
  "GetFeatureViewByName P p name s = (case onLog (el_ResolveViewIDByName (fp_log P) (pr_Team p) name) s of
     (Inl err, s1) \<Rightarrow> if errors_Is err ErrEventLogNotFound then (Inl ErrViewNotFound, s1)
        else (Inl (Wrapf ''resolve view by name: '' err ''''), s1)
   | (Inr viewID, s1) \<Rightarrow> authorizedView P p viewID s1)"

fun foldListed :: "('l, 'o, 'f) featureStoreService \<Rightarrow> string list \<Rightarrow> ('l, 'o, 'f) fsState \<Rightarrow>
    (goerr + FeatureView list) \<times> ('l, 'o, 'f) fsState" where
  "foldListed P [] s = (Inr [], s)"
| "foldListed P (viewID # ids) s = (case foldViewByID P viewID s of
     (Inl ferr, s1) \<Rightarrow> (Inl (Wrapf (''fold listed view '' @ viewID @ '': '') ferr ''''), s1)
   | (Inr v, s1) \<Rightarrow> (case foldListed P ids s1 of (Inl err, s2) \<Rightarrow> (Inl err, s2) | (Inr vs, s2) \<Rightarrow> (Inr (v # vs), s2)))"

definition ListFeatureViews :: "('l, 'o, 'f) featureStoreService \<Rightarrow> Principal \<Rightarrow> string \<Rightarrow> ListOptions \<Rightarrow> ('l, 'o, 'f) fsState \<Rightarrow>
    (goerr + FeatureView list \<times> string) \<times> ('l, 'o, 'f) fsState" where
  "ListFeatureViews P p nameFilter opts s =
     (case onLog (el_ListViewIDs (fp_log P) (pr_Team p) nameFilter (clampPage opts)) s of
        (Inl err, s1) \<Rightarrow> (Inl (Wrapf ''list view ids: '' err ''''), s1)
      | (Inr (ids, nextTok), s1) \<Rightarrow> (case foldListed P ids s1 of
           (Inl err, s2) \<Rightarrow> (Inl err, s2) | (Inr views, s2) \<Rightarrow> (Inr (views, nextTok), s2)))"


text \<open>
  The loop of \<^verbatim>\<open>WriteFeatures\<close> over the rows, with the row index and the position of the id generator.
  \<^verbatim>\<open>cloneValues\<close> copies the map of a row, which is the identity on values.
\<close>

fun buildEvents :: "(nat \<Rightarrow> string) \<Rightarrow> FeatureView \<Rightarrow> time \<Rightarrow> int \<Rightarrow> FeatureRow list \<Rightarrow> nat \<Rightarrow> (goerr + FeatureEvent list) \<times> nat" where
  "buildEvents idgen view now i [] n = (Inr [], n)"
| "buildEvents idgen view now i (row # rows) n = (case validateRow view row of
     Some err \<Rightarrow> (Inl (Wrapf (''row '' @ itoa i @ '' (entity '' @ quote (rw_EntityID row) @ ''): '') err ''''), n)
   | None \<Rightarrow>
       (let event = \<lparr>fe_ID = idgen n, fe_Type = FeatureEventValuesWritten, fe_FeatureViewID = fv_ID view, fe_Version = 0,
              fe_EntityID = rw_EntityID row, fe_Values = rw_Values row,
              fe_EventTime = (if rw_EventTime row = 0 then now else rw_EventTime row), fe_ViewDef = None, fe_AppendedAt = now\<rparr>
        in case buildEvents idgen view now (i + 1) rows (Suc n) of
             (Inl err, n') \<Rightarrow> (Inl err, n')
           | (Inr es, n') \<Rightarrow> (Inr (event # es), n')))"

definition WriteFeatures :: "('l, 'o, 'f) featureStoreService \<Rightarrow> Principal \<Rightarrow> WriteFeaturesInput \<Rightarrow> ('l, 'o, 'f) fsState \<Rightarrow>
    (goerr + WriteFeaturesResult) \<times> ('l, 'o, 'f) fsState" where
  "WriteFeatures P p inp s =
     (if int (length (wi_Rows inp)) > MaxBatchSize
      then (Inl (Wrapf '''' ErrBatchTooLarge ('': '' @ itoa (int (length (wi_Rows inp))) @ '' rows > '' @ itoa MaxBatchSize)), s)
      else if wi_Rows inp = [] then (Inl (Wrapf '''' ErrValidation '': no feature rows to write''), s)
      else case authorizedView P p (wi_FeatureViewID inp) s of
        (Inl err, s1) \<Rightarrow> (Inl err, s1)
      | (Inr view, s1) \<Rightarrow>
          if IsDeleted view then (Inl (Wrapf '''' ErrViewDeleted ('': '' @ fv_ID view)), s1)
          else (let (now, s2) = Now P s1 in
            case buildEvents (fp_idgen P) view now 0 (wi_Rows inp) (fs_ids s2) of
              (Inl err, n) \<Rightarrow> (Inl err, s2\<lparr>fs_ids := n\<rparr>)
            | (Inr es, n) \<Rightarrow> (case onLog (el_Append (fp_log P) (wi_IdempotencyKey inp) es) (s2\<lparr>fs_ids := n\<rparr>) of
                 (Inl err, s3) \<Rightarrow> (Inl (Wrapf ''append feature events: '' err ''''), s3)
               | (Inr (appended, writtenThrough, replayed), s3) \<Rightarrow>
                   (let latest = ProjectLatest appended (fv_SchemaVersion view) in
                    case onOnline (on_Put (fp_online P) (fv_ID view) (entries appended latest)) s3 of
                      (Some err, s4) \<Rightarrow> (Inl (Wrapf ''update online projection (write durable in log): '' err ''''), s4)
                    | (None, s4) \<Rightarrow> (Inr \<lparr>wr_WrittenCount = int (length appended), wr_WrittenThroughVersion = writtenThrough,
                         wr_AffectedEntityIDs = dedupeStrings [] (map rw_EntityID (wi_Rows inp))\<rparr>, s4)))))"

definition GetOnlineFeatures :: "('l, 'o, 'f) featureStoreService \<Rightarrow> Principal \<Rightarrow> GetOnlineFeaturesInput \<Rightarrow> ('l, 'o, 'f) fsState \<Rightarrow>
    (goerr + FeatureVectorPage) \<times> ('l, 'o, 'f) fsState" where
  "GetOnlineFeatures P p inp s =
     (if int (length (oi_EntityIDs inp)) > MaxBatchSize
      then (Inl (Wrapf '''' ErrBatchTooLarge ('': '' @ itoa (int (length (oi_EntityIDs inp))) @ '' entities > '' @ itoa MaxBatchSize)), s)
      else case authorizedView P p (oi_FeatureViewID inp) s of
        (Inl err, s1) \<Rightarrow> (Inl err, s1)
      | (Inr view, s1) \<Rightarrow> (case onOnline (on_GetLatest (fp_online P) (fv_ID view) (oi_EntityIDs inp)) s1 of
           (Inl err, s2) \<Rightarrow> (Inl (Wrapf ''online get: '' err ''''), s2)
         | (Inr found, s2) \<Rightarrow> (Inr (assemblePage (oi_EntityIDs inp) found (oi_FeatureNames inp) ''''), s2)))"

definition GetHistoricalFeatures :: "('l, 'o, 'f) featureStoreService \<Rightarrow> Principal \<Rightarrow> GetHistoricalFeaturesInput \<Rightarrow> ('l, 'o, 'f) fsState \<Rightarrow>
    (goerr + FeatureVectorPage) \<times> ('l, 'o, 'f) fsState" where
  "GetHistoricalFeatures P p inp s =
     (if hi_AsOf inp = 0 then (Inl ErrAsOfRequired, s)
      else if int (length (hi_EntityIDs inp)) > MaxBatchSize
      then (Inl (Wrapf '''' ErrBatchTooLarge ('': '' @ itoa (int (length (hi_EntityIDs inp))) @ '' entities > '' @ itoa MaxBatchSize)), s)
      else case authorizedView P p (hi_FeatureViewID inp) s of
        (Inl err, s1) \<Rightarrow> (Inl err, s1)
      | (Inr view, s1) \<Rightarrow> (case onLog (el_Load (fp_log P) (fv_ID view)) s1 of
           (Inl err, s2) \<Rightarrow>
             if errors_Is err ErrEventLogNotFound
             then (Inr (assemblePage (hi_EntityIDs inp) Map.empty (hi_FeatureNames inp) ''''), s2)
             else (Inl (Wrapf ''load log: '' err ''''), s2)
         | (Inr es, s2) \<Rightarrow>
             (let asOfView = ProjectAsOf es (hi_AsOf inp) (fv_SchemaVersion view);
                  requested = fold (\<lambda>i m. case asOfView i of None \<Rightarrow> m | Some v \<Rightarrow> m(i \<mapsto> v)) (hi_EntityIDs inp) Map.empty
              in (Inr (assemblePage (hi_EntityIDs inp) requested (hi_FeatureNames inp) ''''), s2))))"

definition DeleteFeatureView :: "('l, 'o, 'f) featureStoreService \<Rightarrow> Principal \<Rightarrow> string \<Rightarrow> string \<Rightarrow> ('l, 'o, 'f) fsState \<Rightarrow>
    (goerr + FeatureView) \<times> ('l, 'o, 'f) fsState" where
  "DeleteFeatureView P p featureViewID idempotencyKey s = (case authorizedView P p featureViewID s of
     (Inl err, s1) \<Rightarrow> (Inl err, s1)
   | (Inr view, s1) \<Rightarrow>
       if IsDeleted view then (Inr view, s1)
       else (let (now, s2) = Now P s1; (eid, s3) = NewID P s2;
                 event = \<lparr>fe_ID = eid, fe_Type = FeatureEventViewDeleted, fe_FeatureViewID = fv_ID view, fe_Version = 0, fe_EntityID = '''',
                   fe_Values = [], fe_EventTime = now, fe_ViewDef = None, fe_AppendedAt = now\<rparr>
             in case onLog (el_Append (fp_log P) idempotencyKey [event]) s3 of
                  (Inl err, s4) \<Rightarrow> (Inl (Wrapf ''append delete event: '' err ''''), s4)
                | (Inr _, s4) \<Rightarrow> (case onOnline (on_Purge (fp_online P) (fv_ID view)) s4 of
                     (Some err, s5) \<Rightarrow> (Inl (Wrapf ''purge online projection: '' err ''''), s5)
                   | (None, s5) \<Rightarrow> foldViewByID P (fv_ID view) s5)))"

text \<open>The rebuild of one view: the online and then the offline projection of its events.\<close>

definition rebuildOnline :: "('l, 'o, 'f) featureStoreService \<Rightarrow> string \<Rightarrow> FeatureEvent list \<Rightarrow> ('l, 'o, 'f) fsState \<Rightarrow>
    goerr option \<times> ('l, 'o, 'f) fsState" where
  "rebuildOnline P viewID es s =
     (let view = fst (foldView_raw es) in
      case onOnline (on_Purge (fp_online P) viewID) s of
        (Some err, s1) \<Rightarrow> (Some (Wrapf (''purge online for rebuild '' @ viewID @ '': '') err ''''), s1)
      | (None, s1) \<Rightarrow>
          if IsDeleted view then (None, s1)
          else (case onOnline (on_Put (fp_online P) viewID (entries es (ProjectLatest es (fv_SchemaVersion view)))) s1 of
             (Some err, s2) \<Rightarrow> (Some (Wrapf (''rebuild online '' @ viewID @ '': '') err ''''), s2)
           | (None, s2) \<Rightarrow> (None, s2)))"

definition rebuildOffline :: "('l, 'o, 'f) featureStoreService \<Rightarrow> string \<Rightarrow> FeatureEvent list \<Rightarrow> ('l, 'o, 'f) fsState \<Rightarrow>
    goerr option \<times> ('l, 'o, 'f) fsState" where
  "rebuildOffline P viewID es s =
     (let view = fst (foldView_raw es) in
      case onOffline (of_Rebuild (fp_offline P) viewID (entries es (ProjectLatest es (fv_SchemaVersion view)))) s of
        (Some err, s1) \<Rightarrow> (Some (Wrapf (''rebuild offline '' @ viewID @ '': '') err ''''), s1)
      | (None, s1) \<Rightarrow> (None, s1))"

text \<open>
  The loop of \<^verbatim>\<open>RebuildViews\<close>. \<open>emit sent frame\<close> is the answer of the callback to a frame after the
  frames \<open>sent\<close>; the frames sent are part of the result.
\<close>

fun rebuildLoop :: "('l, 'o, 'f) featureStoreService \<Rightarrow> RebuildTarget \<Rightarrow> (RebuildProgress list \<Rightarrow> RebuildProgress \<Rightarrow> goerr option) \<Rightarrow>
    string list \<Rightarrow> int \<Rightarrow> RebuildProgress list \<Rightarrow> ('l, 'o, 'f) fsState \<Rightarrow>
    (goerr + int) \<times> RebuildProgress list \<times> ('l, 'o, 'f) fsState" where
  "rebuildLoop P target emit [] replayed sent s = (Inr replayed, sent, s)"
| "rebuildLoop P target emit (viewID # ids) replayed sent s = (case onLog (el_Load (fp_log P) viewID) s of
     (Inl err, s1) \<Rightarrow>
       if errors_Is err ErrEventLogNotFound then rebuildLoop P target emit ids replayed sent s1
       else (Inl (Wrapf (''load log for rebuild '' @ viewID @ '': '') err ''''), sent, s1)
   | (Inr es, s1) \<Rightarrow>
       (case (if target = RebuildTargetAll \<or> target = RebuildTargetOnline then rebuildOnline P viewID es s1 else (None, s1)) of
          (Some err, s2) \<Rightarrow> (Inl err, sent, s2)
        | (None, s2) \<Rightarrow>
            (case (if target = RebuildTargetAll \<or> target = RebuildTargetOffline then rebuildOffline P viewID es s2 else (None, s2)) of
               (Some err, s3) \<Rightarrow> (Inl err, sent, s3)
             | (None, s3) \<Rightarrow>
                 (let n = replayed + int (length es);
                      frame = \<lparr>rp_EventsReplayed = n, rp_TotalEvents = - 1, rp_CurrentFeatureViewID = viewID, rp_Done = False\<rparr>
                  in case emit sent frame of
                       Some err \<Rightarrow> (Inl (Wrapf ''emit progress: '' err ''''), sent @ [frame], s3)
                     | None \<Rightarrow> rebuildLoop P target emit ids n (sent @ [frame]) s3))))"

text \<open>The views to rebuild: the one asked for, or the first page of the team's.\<close>

definition rebuildIDs :: "('l, 'o, 'f) featureStoreService \<Rightarrow> Principal \<Rightarrow> RebuildViewsInput \<Rightarrow> ('l, 'o, 'f) fsState \<Rightarrow>
    (goerr + string list) \<times> ('l, 'o, 'f) fsState" where
  "rebuildIDs P p inp s =
     (if ri_FeatureViewID inp \<noteq> '''' then
        (case authorizedView P p (ri_FeatureViewID inp) s of (Inl err, s1) \<Rightarrow> (Inl err, s1) | (Inr v, s1) \<Rightarrow> (Inr [fv_ID v], s1))
      else (case onLog (el_ListViewIDs (fp_log P) (pr_Team p) '''' \<lparr>lo_PageSize = MaxPageSize, lo_PageToken = ''''\<rparr>) s of
          (Inl err, s1) \<Rightarrow> (Inl (Wrapf ''list views for rebuild: '' err ''''), s1) | (Inr (ids, _), s1) \<Rightarrow> (Inr ids, s1)))"

definition RebuildViews :: "('l, 'o, 'f) featureStoreService \<Rightarrow> Principal \<Rightarrow> RebuildViewsInput \<Rightarrow>
    (RebuildProgress list \<Rightarrow> RebuildProgress \<Rightarrow> goerr option) \<Rightarrow> ('l, 'o, 'f) fsState \<Rightarrow>
    goerr option \<times> RebuildProgress list \<times> ('l, 'o, 'f) fsState" where
  "RebuildViews P p inp emit s =
     (if adminScope \<notin> set (pr_Scopes p)
      then (Some (Wrapf '''' ErrValidation ('': RebuildViews requires the '' @ quote adminScope @ '' scope'')), [], s)
      else case rebuildIDs P p inp s of
        (Inl err, s1) \<Rightarrow> (Some err, [], s1)
      | (Inr viewIDs, s1) \<Rightarrow> (case rebuildLoop P (ri_Target inp) emit viewIDs 0 [] s1 of
           (Inl err, sent, s2) \<Rightarrow> (Some err, sent, s2)
         | (Inr replayed, sent, s2) \<Rightarrow>
             (let frame = \<lparr>rp_EventsReplayed = replayed, rp_TotalEvents = replayed, rp_CurrentFeatureViewID = '''', rp_Done = True\<rparr>
              in (emit sent frame, sent @ [frame], s2))))"


section \<open>What the helpers compute\<close>

text \<open>A value fits its feature: declared, of the declared type and, for a list with a declared dimension, of that length.\<close>

definition fits_schema :: "FeatureView \<Rightarrow> FeatureRow \<Rightarrow> bool" where
  "fits_schema view row \<longleftrightarrow> rw_EntityID row \<noteq> '''' \<and> rw_Values row \<noteq> [] \<and>
     (\<forall>(name, val) \<in> set (rw_Values row). \<exists>spec. specByName view name = Some spec \<and> vl_Kind val = sp_ValueType spec
        \<and> (sp_ValueType spec = FeatureTypeDoubleList \<and> 0 < sp_Dimension spec \<longrightarrow> int (length (vl_List val)) = sp_Dimension spec))"

lemma validateValues_None: "validateValues view vs = None \<longleftrightarrow> (\<forall>(name, val) \<in> set vs. validateValue view name val = None)"
  by (induction view vs rule: validateValues.induct) (auto split: option.split)

lemma validateValue_None:
  "validateValue view name val = None \<longleftrightarrow> (\<exists>spec. specByName view name = Some spec \<and> vl_Kind val = sp_ValueType spec
     \<and> (sp_ValueType spec = FeatureTypeDoubleList \<and> 0 < sp_Dimension spec \<longrightarrow> int (length (vl_List val)) = sp_Dimension spec))"
  by (cases "specByName view name") (auto simp: validateValue_def)

lemma validateRow_exact: "validateRow view row = None \<longleftrightarrow> fits_schema view row"
  by (simp add: validateRow_def fits_schema_def validateValues_None validateValue_None)

lemma validateValues_err: "validateValues view vs = Some err \<Longrightarrow> errors_Is err ErrSchemaViolation"
  by (induction view vs rule: validateValues.induct) (auto simp: validateValue_def split: option.splits if_splits)

lemma validateRow_err: "validateRow view row = Some err \<Longrightarrow> errors_Is err ErrSchemaViolation"
  by (auto simp: validateRow_def dest: validateValues_err split: if_splits)

lemma dedupeStrings_props:
  "distinct (dedupeStrings seen xs) \<and> set (dedupeStrings seen xs) = set xs - set seen"
  by (induction seen xs rule: dedupeStrings.induct) auto

lemma page_vectors:
  "map fc_EntityID (pg_Vectors (assemblePage ids found names tok)) = map (\<lambda>i. fc_EntityID (the (found i))) (filter (\<lambda>i. found i \<noteq> None) ids)"
  "pg_MissingEntityIDs (assemblePage ids found names tok) = filter (\<lambda>i. found i = None) ids"
  by (induction ids) (auto simp: Let_def split: option.split)

lemma page_cong: "(\<And>i. i \<in> set ids \<Longrightarrow> found i = found' i) \<Longrightarrow> assemblePage ids found names tok = assemblePage ids found' names tok"
  by (induction ids) (simp_all add: Let_def)

lemma requested_fold:
  "fold (\<lambda>i m. case f i of None \<Rightarrow> m | Some v \<Rightarrow> m(i \<mapsto> v)) ids m i = (if i \<in> set ids \<and> f i \<noteq> None then f i else m i)"
  by (induction ids arbitrary: m) (auto split: option.split)

lemma entries_map_of: "map_of (List.map_filter (\<lambda>k. map_option (Pair k) (m k)) ks) = m |` set ks"
proof (induction ks)
  case (Cons k ks)
  then show ?case by (cases "m k") (auto simp: map_filter_simps restrict_map_def fun_eq_iff)
qed (simp add: map_filter_simps)

lemma entries_distinct: "distinct (map fst (entries es m))"
proof -
  have "set (map fst (List.map_filter (\<lambda>k. map_option (Pair k) (m k)) ks)) \<subseteq> set ks" for ks
    by (induction ks) (auto simp: map_filter_simps split: option.splits)
  then have "distinct ks \<Longrightarrow> distinct (map fst (List.map_filter (\<lambda>k. map_option (Pair k) (m k)) ks))" for ks
    by (induction ks) (auto simp: map_filter_simps split: option.splits)
  then show ?thesis by (simp add: entries_def)
qed

lemma latest_dom: "ProjectLatest es sv e = Some x \<Longrightarrow> e \<in> fe_EntityID ` set es"
proof -
  assume a: "ProjectLatest es sv e = Some x"
  then have "filter (written_for e) (sortedByVersion es) \<noteq> []" by (auto simp: ProjectLatest_def latest_fold_last split: if_splits)
  then show ?thesis by (auto simp: filter_empty_conv written_for_def)
qed

lemma entries_latest [simp]: "map_of (entries es (ProjectLatest es sv)) = ProjectLatest es sv"
proof -
  have "ProjectLatest es sv e = None" if "e \<notin> fe_EntityID ` set es" for e
    using that latest_dom [of es sv e] by (cases "ProjectLatest es sv e") auto
  then show ?thesis by (auto simp: entries_def entries_map_of restrict_map_def fun_eq_iff)
qed

text \<open>The definition of a view does not depend on its value events.\<close>

lemma sort_filter_versions: "sortedByVersion (filter q es) = filter q (sortedByVersion es)"
  by (simp add: sortedByVersion_def filter_sort)

lemma fold_event_values: "\<not> is_definition e \<Longrightarrow> fold_event e acc = acc"
  by (cases acc) (auto simp: is_definition_def split: EventType.split)

lemma foldView_raw_defs: "foldView_raw (filter (\<lambda>e. q e \<and> is_definition e) es) = foldView_raw (filter q es)"
proof -
  have "fold fold_event (filter (\<lambda>e. q e \<and> is_definition e) xs) acc = fold fold_event (filter q xs) acc" for xs acc
    by (induction xs arbitrary: acc) (auto simp: fold_event_values)
  then show ?thesis by (simp add: foldView_raw_def sort_filter_versions)
qed

lemma foldView_defs: "foldView (filter (\<lambda>e. q e \<and> is_definition e) es) = foldView (filter q es)"
  by (simp add: foldView_def foldView_raw_defs)

lemma fold_event_id:
  "\<forall>e \<in> set es. \<forall>d. fe_ViewDef e = Some d \<longrightarrow> vd_ID d = v \<Longrightarrow> (snd acc \<longrightarrow> fv_ID (fst acc) = v) \<Longrightarrow>
     snd (fold fold_event es acc) \<longrightarrow> fv_ID (fst (fold fold_event es acc)) = v"
proof (induction es arbitrary: acc)
  case (Cons e es)
  have "snd (fold_event e acc) \<longrightarrow> fv_ID (fst (fold_event e acc)) = v"
    using Cons.prems by (cases acc) (auto split: EventType.splits option.splits)
  with Cons show ?case by simp
qed simp

lemma foldView_id:
  assumes "foldView es = Some view" "\<forall>e \<in> set es. \<forall>d. fe_ViewDef e = Some d \<longrightarrow> vd_ID d = v"
  shows "fv_ID view = v"
proof -
  have "fst (foldView_raw es) = view" "snd (foldView_raw es)" using assms(1) by (auto simp: foldView_def split: prod.splits bool.splits)
  with fold_event_id [of "sortedByVersion es" v "(zeroView, False)"] assms(2) show ?thesis by (simp add: foldView_raw_def)
qed


section \<open>The operations over the contracts of the ports\<close>

text \<open>
  The invariant of the service state: those of the ports, and that the definitions in the log carry the
  id of their view.
\<close>

definition store_inv :: "('l \<Rightarrow> FeatureEvent list) \<Rightarrow> ('l \<Rightarrow> bool) \<Rightarrow> ('o \<Rightarrow> bool) \<Rightarrow> ('f \<Rightarrow> bool) \<Rightarrow> (string \<Rightarrow> bool) \<Rightarrow>
    ('l, 'o, 'f) fsState \<Rightarrow> bool" where
  "store_inv evs linv oinv finv good_id s \<longleftrightarrow> linv (fs_log s) \<and> oinv (fs_online s) \<and> finv (fs_offline s)
     \<and> (\<forall>e \<in> set (evs (fs_log s)). good_id (fe_FeatureViewID e) \<and> (\<forall>d. fe_ViewDef e = Some d \<longrightarrow> vd_ID d = fe_FeatureViewID e))"

definition view_events :: "('l \<Rightarrow> FeatureEvent list) \<Rightarrow> ('l, 'o, 'f) fsState \<Rightarrow> string \<Rightarrow> FeatureEvent list" where
  "view_events evs s v = filter (of_view v) (evs (fs_log s))"

definition current_view :: "('l \<Rightarrow> FeatureEvent list) \<Rightarrow> ('l, 'o, 'f) fsState \<Rightarrow> string \<Rightarrow> FeatureView option" where
  "current_view evs s v = foldView (view_events evs s v)"

definition unchanged :: "('l \<Rightarrow> FeatureEvent list) \<Rightarrow> ('l, 'o, 'f) fsState \<Rightarrow> ('l, 'o, 'f) fsState \<Rightarrow> bool" where
  "unchanged evs s s' \<longleftrightarrow> evs (fs_log s') = evs (fs_log s) \<and> fs_online s' = fs_online s \<and> fs_offline s' = fs_offline s"

text \<open>The event a row of a write becomes.\<close>

definition row_event :: "string \<Rightarrow> time \<Rightarrow> FeatureRow \<Rightarrow> FeatureEvent \<Rightarrow> bool" where
  "row_event v now row e \<longleftrightarrow> fe_Type e = FeatureEventValuesWritten \<and> fe_FeatureViewID e = v \<and> fe_EntityID e = rw_EntityID row
     \<and> fe_Values e = rw_Values row \<and> fe_EventTime e = (if rw_EventTime row = 0 then now else rw_EventTime row)
     \<and> fe_ViewDef e = None \<and> fe_AppendedAt e = now"

lemma buildEvents_Inr:
  "buildEvents idgen view now i rows n = (Inr es, n') \<Longrightarrow> (\<forall>row \<in> set rows. fits_schema view row) \<and> list_all2 (row_event (fv_ID view) now) rows es"
proof (induction idgen view now i rows n arbitrary: es rule: buildEvents.induct)
  case (2 idgen view now i row rows n)
  then show ?case
    by (auto simp: row_event_def validateRow_exact Let_def split: option.splits prod.splits sum.splits)
qed simp

lemma buildEvents_Inl:
  "buildEvents idgen view now i rows n = (Inl err, n') \<Longrightarrow> errors_Is err ErrSchemaViolation \<and> (\<exists>row \<in> set rows. \<not> fits_schema view row)"
proof (induction idgen view now i rows n rule: buildEvents.induct)
  case (2 idgen view now i row rows n)
  show ?case
  proof (cases "validateRow view row")
    case None
    with 2 show ?thesis by (fastforce simp: Let_def split: prod.splits sum.splits)
  next
    case (Some e)
    with 2 validateRow_exact [of view row] validateRow_err [OF Some] show ?thesis by auto
  qed
qed simp

lemma list_all2_view: "list_all2 (row_event v now) rows es \<Longrightarrow> \<forall>e \<in> set es. of_view v e \<and> fe_ViewDef e = None \<and> fe_Type e = FeatureEventValuesWritten"
  by (induction rule: list_all2_induct) (auto simp: row_event_def of_view_def)

lemma numbered_keeps:
  "e \<in> set (numbered n es) \<Longrightarrow> \<exists>e' \<in> set es. e = e'\<lparr>fe_Version := fe_Version e\<rparr>"
  by (induction n es rule: numbered.induct) auto

lemma authorizedView_log: "authorizedView P p v s = (r, s') \<Longrightarrow> \<exists>l. s' = s\<lparr>fs_log := l\<rparr>"
  by (auto simp: authorizedView_def foldViewByID_def onLog_def split: if_splits sum.splits option.splits prod.splits)
    (metis fsState.surjective fsState.update_convs(1))+

locale feature_store =
  lg: event_log "fp_log P" evs linv stored healthy +
  onl: online_store "fp_online P" served oinv tidy good_id +
  off: offline_store "fp_offline P" base finv kept
  for P :: "('l, 'o, 'f) featureStoreService" and evs linv stored healthy served oinv tidy good_id base finv kept
begin

abbreviation wf :: "('l, 'o, 'f) fsState \<Rightarrow> bool" where
  "wf \<equiv> store_inv evs linv oinv finv good_id"

lemma wf_ids:
  assumes "wf s" "current_view evs s v = Some view"
  shows "fv_ID view = v \<and> good_id v"
proof -
  have ne: "view_events evs s v \<noteq> []" using assms(2) by (auto simp: current_view_def foldView_def foldView_raw_def sortedByVersion_def)
  then obtain e where "e \<in> set (view_events evs s v)" by (cases "view_events evs s v") auto
  then have "good_id v" using assms(1) by (auto simp: view_events_def store_inv_def of_view_def)
  moreover have "fv_ID view = v"
    using assms by (intro foldView_id [of "view_events evs s v"]) (auto simp: current_view_def view_events_def store_inv_def of_view_def)
  ultimately show ?thesis by simp
qed

lemma fold_by_id:
  assumes "wf s" "foldViewByID P v s = (r, s')"
  shows "wf s' \<and> unchanged evs s s' \<and> (\<forall>view. r = Inr view \<longrightarrow> current_view evs s v = Some view)
    \<and> (healthy (fs_log s) \<longrightarrow> s' = s \<and> (\<forall>err. r = Inl err \<longrightarrow> err = ErrViewNotFound \<and> current_view evs s v = None))"
proof -
  have inv: "linv (fs_log s)" using assms(1) by (simp add: store_inv_def)
  obtain rl l where l: "el_LoadView (fp_log P) v (fs_log s) = (rl, l)" by fastforce
  have s': "s' = s\<lparr>fs_log := l\<rparr>" using assms(2) l
    by (auto simp: foldViewByID_def onLog_def split: sum.splits option.splits if_splits)
  note ld = lg.load_view [OF inv l]
  have "wf s'" "unchanged evs s s'" using ld assms(1) by (simp_all add: s' store_inv_def unchanged_def)
  moreover have cv: "current_view evs s v = foldView (filter (\<lambda>e. of_view v e \<and> is_definition e) (evs (fs_log s)))"
    by (simp add: current_view_def view_events_def foldView_defs)
  have "r = Inr view \<longrightarrow> current_view evs s v = Some view" for view
    using assms(2) l ld unfolding cv by (auto simp: foldViewByID_def onLog_def split: sum.splits option.splits if_splits)
  moreover have "s' = s \<and> (\<forall>err. r = Inl err \<longrightarrow> err = ErrViewNotFound \<and> current_view evs s v = None)" if h: "healthy (fs_log s)"
  proof -
    from lg.healthy_reads [OF h] l have "l = fs_log s" "\<forall>err. rl = Inl err \<longrightarrow> err = ErrEventLogNotFound" by blast+
    moreover have "foldView [] = None" by (simp add: foldView_def foldView_raw_def sortedByVersion_def)
    ultimately show ?thesis using assms(2) l ld unfolding cv s'
      by (auto simp: foldViewByID_def onLog_def split: sum.splits option.splits if_splits)
  qed
  ultimately show ?thesis by blast
qed

lemma authorized:
  assumes "wf s" "authorizedView P p v s = (r, s')"
  shows "wf s' \<and> unchanged evs s s'
    \<and> (\<forall>view. r = Inr view \<longrightarrow> v \<noteq> '''' \<and> current_view evs s v = Some view \<and> fv_OwnerTeam view = pr_Team p \<and> fv_ID view = v \<and> good_id v)
    \<and> (healthy (fs_log s) \<longrightarrow> s' = s
         \<and> (\<forall>view. v \<noteq> '''' \<and> current_view evs s v = Some view \<and> fv_OwnerTeam view = pr_Team p \<longrightarrow> r = Inr view)
         \<and> (v \<noteq> '''' \<and> (\<forall>view. current_view evs s v = Some view \<longrightarrow> fv_OwnerTeam view \<noteq> pr_Team p) \<longrightarrow> r = Inl ErrViewNotFound))"
proof (cases "v = ''''")
  case True
  with assms show ?thesis by (auto simp: authorizedView_def unchanged_def)
next
  case False
  obtain rf s1 where f: "foldViewByID P v s = (rf, s1)" by fastforce
  note fb = fold_by_id [OF assms(1) f]
  have "s' = s1" "r = (case rf of Inl err \<Rightarrow> Inl err | Inr view \<Rightarrow> if fv_OwnerTeam view \<noteq> pr_Team p then Inl ErrViewNotFound else Inr view)"
    using assms(2) f False by (auto simp: authorizedView_def split: sum.splits if_splits)
  with fb wf_ids [OF assms(1)] False show ?thesis by (cases rf) (auto split: if_splits)
qed

end


context feature_store
begin

lemma append_run:
  assumes wf: "wf s" and ne: "es \<noteq> []" and v: "\<forall>e \<in> set es. of_view v e" and g: "good_id v"
    and vd: "\<forall>e \<in> set es. \<forall>d. fe_ViewDef e = Some d \<longrightarrow> vd_ID d = v"
    and run: "onLog (el_Append (fp_log P) k es) s = (r, s')"
  shows "wf s' \<and> fs_online s' = fs_online s \<and> fs_offline s' = fs_offline s \<and> fs_ids s' = fs_ids s \<and> fs_ticks s' = fs_ticks s
    \<and> (case r of
         Inl err \<Rightarrow> evs (fs_log s') = evs (fs_log s)
       | Inr (out, wt, False) \<Rightarrow> out = numbered (int (length (evs (fs_log s))) + 1) es
            \<and> evs (fs_log s') = evs (fs_log s) @ map stored out \<and> wt = int (length (evs (fs_log s')))
       | Inr (out, wt, True) \<Rightarrow> evs (fs_log s') = evs (fs_log s) \<and> set out \<subseteq> set (view_events evs s v))"
proof -
  obtain l where l: "el_Append (fp_log P) k es (fs_log s) = (r, l)" and s': "s' = s\<lparr>fs_log := l\<rparr>"
    using run by (auto simp: onLog_def split: prod.splits)
  have "linv (fs_log s)" using wf by (simp add: store_inv_def)
  note ap = lg.append [OF this ne v l]
  have new: "good_id (fe_FeatureViewID e) \<and> (\<forall>d. fe_ViewDef e = Some d \<longrightarrow> vd_ID d = fe_FeatureViewID e)"
    if "e \<in> set (map stored (numbered n es))" for e n
  proof -
    from that obtain e1 where e1: "e1 \<in> set (numbered n es)" "e = stored e1" by auto
    from numbered_keeps [OF e1(1)] obtain e2 where e2: "e2 \<in> set es" "e1 = e2\<lparr>fe_Version := fe_Version e1\<rparr>" by blast
    then have "fe_FeatureViewID e1 = v" "fe_ViewDef e1 = fe_ViewDef e2"
      using v by (metis FeatureEvent.select_convs(3) FeatureEvent.surjective FeatureEvent.update_convs(4) of_view_def)
        (metis FeatureEvent.select_convs(8) FeatureEvent.surjective FeatureEvent.update_convs(4) e2(2))
    with e2(1) vd g lg.stored_keeps [of e1] e1(2) show ?thesis by auto
  qed
  have "wf s'"
  proof (cases r)
    case (Inl err)
    with ap wf show ?thesis by (simp add: s' store_inv_def)
  next
    case (Inr x)
    obtain out wt b where x: "x = (out, wt, b)" by (cases x) auto
    show ?thesis
    proof (cases b)
      case True
      with ap wf Inr x show ?thesis by (simp add: s' store_inv_def)
    next
      case False
      with ap Inr x have "evs l = evs (fs_log s) @ map stored (numbered (int (length (evs (fs_log s))) + 1) es)" "linv l" by auto
      with wf new show ?thesis by (auto simp: s' store_inv_def)
    qed
  qed
  moreover have "fs_log s' = l" "fs_online s' = fs_online s" "fs_offline s' = fs_offline s" "fs_ids s' = fs_ids s" "fs_ticks s' = fs_ticks s"
    by (simp_all add: s')
  note keep = this
  ultimately show ?thesis unfolding view_events_def keep using ap by blast
qed

text \<open>A write ends in one of three ways: refused, replayed, or fresh.\<close>

lemma write_cases:
  assumes wf: "wf s" and run: "WriteFeatures P p inp s = (r, s')"
  obtains
    (refused) err where "r = Inl err" "wf s'" "unchanged evs s s'"
  | (accepted) view now es out wt replayed where
      "wf s'" "fs_offline s' = fs_offline s"
      "current_view evs s (wi_FeatureViewID inp) = Some view" "fv_OwnerTeam view = pr_Team p" "\<not> IsDeleted view"
      "fv_ID view = wi_FeatureViewID inp" "good_id (wi_FeatureViewID inp)"
      "wi_Rows inp \<noteq> []" "int (length (wi_Rows inp)) \<le> MaxBatchSize" "\<forall>row \<in> set (wi_Rows inp). fits_schema view row"
      "list_all2 (row_event (wi_FeatureViewID inp) now) (wi_Rows inp) es" "now = fp_clock P (fs_ticks s)"
      "if replayed then evs (fs_log s') = evs (fs_log s) \<and> set out \<subseteq> set (view_events evs s (wi_FeatureViewID inp))
       else out = numbered (int (length (evs (fs_log s))) + 1) es \<and> evs (fs_log s') = evs (fs_log s) @ map stored out
         \<and> wt = int (length (evs (fs_log s')))"
      "\<exists>perr c. on_Put (fp_online P) (wi_FeatureViewID inp) (entries out (ProjectLatest out (fv_SchemaVersion view))) (fs_online s) = (perr, c)
         \<and> fs_online s' = c \<and> (perr = None \<longleftrightarrow> (\<exists>res. r = Inr res))"
      "\<And>res. r = Inr res \<Longrightarrow> res = \<lparr>wr_WrittenCount = int (length out), wr_WrittenThroughVersion = wt,
         wr_AffectedEntityIDs = dedupeStrings [] (map rw_EntityID (wi_Rows inp))\<rparr>"
proof -
  let ?v = "wi_FeatureViewID inp"
  consider (early) "int (length (wi_Rows inp)) > MaxBatchSize \<or> wi_Rows inp = []"
    | (go) "int (length (wi_Rows inp)) \<le> MaxBatchSize" "wi_Rows inp \<noteq> []" by fastforce
  then show ?thesis
  proof cases
    case early
    with run have "\<exists>err. r = Inl err" "s' = s" by (auto simp: WriteFeatures_def split: if_splits)
    then show ?thesis using refused wf by (auto simp: unchanged_def)
  next
    case go
    obtain ra s1 where a: "authorizedView P p ?v s = (ra, s1)" by fastforce
    note au = authorized [OF wf a]
    show ?thesis
    proof (cases ra)
      case (Inl err)
      with run go a have "r = Inl err" "s' = s1" by (auto simp: WriteFeatures_def)
      then show ?thesis using au refused by blast
    next
      case (Inr vw)
      note aut = au [unfolded Inr, simplified]
      show ?thesis
      proof (cases "IsDeleted vw")
        case True
        with run go a Inr have "\<exists>err. r = Inl err" "s' = s1" by (auto simp: WriteFeatures_def)
        then show ?thesis using aut refused by blast
      next
        case live: False
        define s2 where "s2 = s1\<lparr>fs_ticks := Suc (fs_ticks s1)\<rparr>"
        define now where "now = fp_clock P (fs_ticks s1)"
        obtain rb n where b: "buildEvents (fp_idgen P) vw now 0 (wi_Rows inp) (fs_ids s2) = (rb, n)" by fastforce
        show ?thesis
        proof (cases rb)
          case (Inl err)
          with run go a Inr live b have "r = Inl err" "s' = s2\<lparr>fs_ids := n\<rparr>" by (auto simp: WriteFeatures_def Now_def s2_def now_def)
          moreover have "wf s'" "unchanged evs s s'" using aut calculation(2) by (auto simp: s2_def store_inv_def unchanged_def)
          ultimately show ?thesis using refused by blast
        next
          case es: (Inr es)
          note be = buildEvents_Inr [OF b [unfolded es]]
          define s2n where "s2n = s2\<lparr>fs_ids := n\<rparr>"
          have keep: "evs (fs_log s2n) = evs (fs_log s)" "fs_online s2n = fs_online s" "fs_offline s2n = fs_offline s" "wf s2n"
            using aut by (auto simp: s2n_def s2_def unchanged_def store_inv_def)
          have same: "view_events evs s2n w = view_events evs s w" for w using keep(1) by (simp add: view_events_def)
          have be2: "list_all2 (row_event ?v now) (wi_Rows inp) es" using be aut by simp
          note lv = list_all2_view [OF be2]
          have ne: "es \<noteq> []" using be2 go(2) by (auto dest: list_all2_lengthD)
          obtain rp s3 where ap: "onLog (el_Append (fp_log P) (wi_IdempotencyKey inp) es) s2n = (rp, s3)" by fastforce
          have "\<forall>e \<in> set es. of_view ?v e" "\<forall>e \<in> set es. \<forall>d. fe_ViewDef e = Some d \<longrightarrow> vd_ID d = ?v" "good_id ?v" using lv aut by auto
          note ar = append_run [OF keep(4) ne this(1,3,2) ap, unfolded keep(1-3) same]
          show ?thesis
          proof (cases rp)
            case (Inl err)
            with run go a Inr live b es ap have "\<exists>err. r = Inl err" "s' = s3" by (auto simp: WriteFeatures_def Now_def s2_def now_def s2n_def)
            with ar Inl refused show ?thesis by (auto simp: unchanged_def)
          next
            case x: (Inr x)
            obtain out wt rep where xx: "x = (out, wt, rep)" by (cases x) auto
            obtain perr c where pt: "on_Put (fp_online P) ?v (entries out (ProjectLatest out (fv_SchemaVersion vw))) (fs_online s) = (perr, c)" by fastforce
            have res: "s' = s3\<lparr>fs_online := c\<rparr>"
              "r = (case perr of Some err \<Rightarrow> Inl (Wrapf ''update online projection (write durable in log): '' err '''')
                 | None \<Rightarrow> Inr \<lparr>wr_WrittenCount = int (length out), wr_WrittenThroughVersion = wt,
                     wr_AffectedEntityIDs = dedupeStrings [] (map rw_EntityID (wi_Rows inp))\<rparr>)"
              using run go a Inr live b es ap x xx pt ar aut
              by (auto simp: WriteFeatures_def Now_def s2_def now_def s2n_def onOnline_def split: option.splits)
            have "oinv (fs_online s)" using wf by (simp add: store_inv_def)
            then have "oinv c" using onl.put [OF _ _ entries_distinct pt] aut by blast
            with ar have "wf s'" "fs_offline s' = fs_offline s" by (auto simp: res store_inv_def)
            moreover have "if rep then evs (fs_log s') = evs (fs_log s) \<and> set out \<subseteq> set (view_events evs s ?v)
               else out = numbered (int (length (evs (fs_log s))) + 1) es \<and> evs (fs_log s') = evs (fs_log s) @ map stored out
                 \<and> wt = int (length (evs (fs_log s')))"
              using ar x xx by (auto simp: res split: bool.splits)
            moreover have "\<exists>perr c. on_Put (fp_online P) ?v (entries out (ProjectLatest out (fv_SchemaVersion vw))) (fs_online s) = (perr, c)
                \<and> fs_online s' = c \<and> (perr = None \<longleftrightarrow> (\<exists>res. r = Inr res))"
              using pt res by (auto split: option.splits)
            moreover have "res' = \<lparr>wr_WrittenCount = int (length out), wr_WrittenThroughVersion = wt,
                wr_AffectedEntityIDs = dedupeStrings [] (map rw_EntityID (wi_Rows inp))\<rparr>" if "r = Inr res'" for res'
              using that res(2) by (auto split: option.splits)
            moreover have "now = fp_clock P (fs_ticks s)" using authorizedView_log [OF a] by (auto simp: now_def)
            ultimately show ?thesis using aut live go be be2 by (intro accepted [of vw now es rep out wt]) auto
          qed
        qed
      qed
    qed
  qed
qed

end


context feature_store
begin

lemma unchanged_views: "unchanged evs s s' \<Longrightarrow> view_events evs s' = view_events evs s \<and> current_view evs s' = current_view evs s"
  by (simp add: unchanged_def view_events_def [abs_def] current_view_def [abs_def])

lemma historical_run:
  assumes wf: "wf s" and run: "GetHistoricalFeatures P p inp s = (r, s')"
  shows "wf s' \<and> unchanged evs s s'
    \<and> (\<forall>page. r = Inr page \<longrightarrow> (\<exists>view. current_view evs s (hi_FeatureViewID inp) = Some view \<and> fv_OwnerTeam view = pr_Team p
         \<and> page = assemblePage (hi_EntityIDs inp)
             (ProjectAsOf (view_events evs s (hi_FeatureViewID inp)) (hi_AsOf inp) (fv_SchemaVersion view)) (hi_FeatureNames inp) ''''))
    \<and> (\<forall>view. healthy (fs_log s) \<and> hi_AsOf inp \<noteq> 0 \<and> int (length (hi_EntityIDs inp)) \<le> MaxBatchSize \<and> hi_FeatureViewID inp \<noteq> ''''
         \<and> current_view evs s (hi_FeatureViewID inp) = Some view \<and> fv_OwnerTeam view = pr_Team p \<longrightarrow> (\<exists>page. r = Inr page))"
proof (cases "hi_AsOf inp = 0 \<or> int (length (hi_EntityIDs inp)) > MaxBatchSize")
  case True
  with run wf show ?thesis by (auto simp: GetHistoricalFeatures_def unchanged_def split: if_splits)
next
  case False
  let ?v = "hi_FeatureViewID inp"
  obtain ra s1 where a: "authorizedView P p ?v s = (ra, s1)" by fastforce
  note au = authorized [OF wf a]
  show ?thesis
  proof (cases ra)
    case (Inl err)
    with run a False have "r = Inl err" "s' = s1" by (auto simp: GetHistoricalFeatures_def)
    with au Inl show ?thesis by auto
  next
    case (Inr view)
    obtain rl l where ld: "el_Load (fp_log P) ?v (fs_log s1) = (rl, l)" by fastforce
    have "linv (fs_log s1)" using au by (simp add: store_inv_def)
    note lr = lg.load [OF this ld]
    have s': "s' = s1\<lparr>fs_log := l\<rparr>"
      using run a False Inr au ld by (auto simp: GetHistoricalFeatures_def onLog_def Let_def split: sum.splits if_splits)
    have w: "wf s'" "unchanged evs s s'" using lr au by (auto simp: s' store_inv_def unchanged_def)
    have ve: "view_events evs s ?v = filter (of_view ?v) (evs (fs_log s1))" using au by (simp add: view_events_def unchanged_def)
    have page: "page = assemblePage (hi_EntityIDs inp) (ProjectAsOf (view_events evs s ?v) (hi_AsOf inp) (fv_SchemaVersion view)) (hi_FeatureNames inp) ''''"
      if "r = Inr page" for page
    proof (cases rl)
      case e: (Inl err)
      with that run a False Inr au ld have ee: "errors_Is err ErrEventLogNotFound"
        and pe: "page = assemblePage (hi_EntityIDs inp) Map.empty (hi_FeatureNames inp) ''''"
        by (auto simp: GetHistoricalFeatures_def onLog_def split: if_splits)
      with lr e ve have "view_events evs s ?v = []" by simp
      then show ?thesis unfolding pe by (intro page_cong) (simp add: ProjectAsOf_def)
    next
      case es: (Inr es)
      with lr ve have es2: "es = view_events evs s ?v" by simp
      from that run a False Inr au ld es have pe: "page = assemblePage (hi_EntityIDs inp)
          (fold (\<lambda>i m. case ProjectAsOf es (hi_AsOf inp) (fv_SchemaVersion view) i of None \<Rightarrow> m | Some v \<Rightarrow> m(i \<mapsto> v)) (hi_EntityIDs inp) Map.empty)
          (hi_FeatureNames inp) ''''"
        by (auto simp: GetHistoricalFeatures_def onLog_def Let_def)
      show ?thesis unfolding pe es2 by (intro page_cong) (simp add: requested_fold)
    qed
    have "\<exists>page. r = Inr page" if "healthy (fs_log s)"
    proof -
      have "s1 = s" using au that by blast
      with lg.healthy_reads [OF that] ld have "\<forall>err. rl = Inl err \<longrightarrow> err = ErrEventLogNotFound" by blast
      with run a False Inr au ld show ?thesis by (auto simp: GetHistoricalFeatures_def onLog_def Let_def split: sum.splits)
    qed
    with w page au Inr show ?thesis by blast
  qed
qed

lemma cross_team:
  assumes wf: "wf s" and h: "healthy (fs_log s)" and v: "v \<noteq> ''''"
    and other: "\<forall>view. current_view evs s v = Some view \<longrightarrow> fv_OwnerTeam view \<noteq> pr_Team p"
  shows "GetFeatureViewByID P p v s = (Inl ErrViewNotFound, s)"
    and "0 < length rows \<Longrightarrow> int (length rows) \<le> MaxBatchSize \<Longrightarrow>
      WriteFeatures P p \<lparr>wi_FeatureViewID = v, wi_Rows = rows, wi_IdempotencyKey = k\<rparr> s = (Inl ErrViewNotFound, s)"
    and "int (length ids) \<le> MaxBatchSize \<Longrightarrow>
      GetOnlineFeatures P p \<lparr>oi_FeatureViewID = v, oi_EntityIDs = ids, oi_FeatureNames = names\<rparr> s = (Inl ErrViewNotFound, s)"
    and "int (length ids) \<le> MaxBatchSize \<Longrightarrow> asOf \<noteq> 0 \<Longrightarrow>
      GetHistoricalFeatures P p \<lparr>hi_FeatureViewID = v, hi_EntityIDs = ids, hi_AsOf = asOf, hi_FeatureNames = names, hi_Pagination = opts\<rparr> s
        = (Inl ErrViewNotFound, s)"
    and "DeleteFeatureView P p v k s = (Inl ErrViewNotFound, s)"
    and "adminScope \<in> set (pr_Scopes p) \<Longrightarrow>
      RebuildViews P p \<lparr>ri_FeatureViewID = v, ri_Target = target\<rparr> emit s = (Some ErrViewNotFound, [], s)"
proof -
  obtain ra s1 where a: "authorizedView P p v s = (ra, s1)" by fastforce
  from authorized [OF wf a] h v other have "ra = Inl ErrViewNotFound" "s1 = s" by blast+
  with a have au: "authorizedView P p v s = (Inl ErrViewNotFound, s)" by simp
  show "GetFeatureViewByID P p v s = (Inl ErrViewNotFound, s)" by (simp add: GetFeatureViewByID_def au)
  show "0 < length rows \<Longrightarrow> int (length rows) \<le> MaxBatchSize \<Longrightarrow>
      WriteFeatures P p \<lparr>wi_FeatureViewID = v, wi_Rows = rows, wi_IdempotencyKey = k\<rparr> s = (Inl ErrViewNotFound, s)"
    by (simp add: WriteFeatures_def au)
  show "int (length ids) \<le> MaxBatchSize \<Longrightarrow>
      GetOnlineFeatures P p \<lparr>oi_FeatureViewID = v, oi_EntityIDs = ids, oi_FeatureNames = names\<rparr> s = (Inl ErrViewNotFound, s)"
    by (simp add: GetOnlineFeatures_def au)
  show "int (length ids) \<le> MaxBatchSize \<Longrightarrow> asOf \<noteq> 0 \<Longrightarrow>
      GetHistoricalFeatures P p \<lparr>hi_FeatureViewID = v, hi_EntityIDs = ids, hi_AsOf = asOf, hi_FeatureNames = names, hi_Pagination = opts\<rparr> s
        = (Inl ErrViewNotFound, s)"
    by (simp add: GetHistoricalFeatures_def au)
  show "DeleteFeatureView P p v k s = (Inl ErrViewNotFound, s)" by (simp add: DeleteFeatureView_def au)
  show "adminScope \<in> set (pr_Scopes p) \<Longrightarrow>
      RebuildViews P p \<lparr>ri_FeatureViewID = v, ri_Target = target\<rparr> emit s = (Some ErrViewNotFound, [], s)"
    using v by (simp add: RebuildViews_def rebuildIDs_def au)
qed

end


text \<open>What a rebuild is to leave in the stores: a function of the events of the view alone.\<close>

definition rebuilt_online :: "FeatureEvent list \<Rightarrow> projection" where
  "rebuilt_online es = (let view = fst (foldView_raw es) in
     if IsDeleted view then Map.empty else map_option cached \<circ> ProjectLatest es (fv_SchemaVersion view))"

definition rebuilt_offline :: "(FeatureVector \<Rightarrow> FeatureVector) \<Rightarrow> FeatureEvent list \<Rightarrow> projection" where
  "rebuilt_offline kept es = (\<lambda>e. map_option (\<lambda>x. (kept x)\<lparr>fc_EntityID := e\<rparr>) (ProjectLatest es (fv_SchemaVersion (fst (foldView_raw es))) e))"

definition wants_online :: "RebuildTarget \<Rightarrow> bool" where
  "wants_online t \<longleftrightarrow> t = RebuildTargetAll \<or> t = RebuildTargetOnline"

definition wants_offline :: "RebuildTarget \<Rightarrow> bool" where
  "wants_offline t \<longleftrightarrow> t = RebuildTargetAll \<or> t = RebuildTargetOffline"

context feature_store
begin

lemma rebuildOnline_run:
  assumes wf: "wf s" and g: "good_id v" and t: "tidy (fs_online s) v" and run: "rebuildOnline P v es s = (None, s')"
  shows "wf s' \<and> fs_log s' = fs_log s \<and> fs_offline s' = fs_offline s
    \<and> served (fs_online s') v = rebuilt_online es \<and> tidy (fs_online s') v
    \<and> (\<forall>w. good_id w \<and> w \<noteq> v \<longrightarrow> served (fs_online s') w = served (fs_online s) w \<and> tidy (fs_online s') w = tidy (fs_online s) w)"
proof -
  let ?view = "fst (foldView_raw es)" and ?vs = "entries es (ProjectLatest es (fv_SchemaVersion (fst (foldView_raw es))))"
  obtain e1 c1 where p: "on_Purge (fp_online P) v (fs_online s) = (e1, c1)" by fastforce
  have e1: "e1 = None" using run p by (auto simp: rebuildOnline_def onOnline_def Let_def split: option.splits)
  have o: "oinv (fs_online s)" using wf by (simp add: store_inv_def)
  note pu = onl.purge [OF o g p [unfolded e1]]
  show ?thesis
  proof (cases "IsDeleted ?view")
    case True
    then have s': "s' = s\<lparr>fs_online := c1\<rparr>" using run p e1 by (simp add: rebuildOnline_def onOnline_def)
    with True pu wf t show ?thesis by (simp add: store_inv_def rebuilt_online_def)
  next
    case False
    obtain e2 c2 where q: "on_Put (fp_online P) v ?vs c1 = (e2, c2)" by fastforce
    have s': "e2 = None" "s' = s\<lparr>fs_online := c2\<rparr>"
      using run p e1 q False by (auto simp: rebuildOnline_def onOnline_def Let_def split: option.splits)
    have "oinv c1" using pu by blast
    note pt = onl.put [OF this g entries_distinct q [unfolded s'(1)]]
    have "served c2 v = rebuilt_online es" using pt pu t False by (simp add: rebuilt_online_def)
    with pt pu wf t show ?thesis by (simp add: s' store_inv_def)
  qed
qed

lemma rebuildOffline_run:
  assumes wf: "wf s" and run: "rebuildOffline P v es s = (None, s')"
  shows "wf s' \<and> fs_log s' = fs_log s \<and> fs_online s' = fs_online s
    \<and> base (fs_offline s') = (base (fs_offline s))(v := rebuilt_offline kept es)"
proof -
  let ?vs = "entries es (ProjectLatest es (fv_SchemaVersion (fst (foldView_raw es))))"
  obtain e1 f1 where p: "of_Rebuild (fp_offline P) v ?vs (fs_offline s) = (e1, f1)" by fastforce
  have s': "e1 = None" "s' = s\<lparr>fs_offline := f1\<rparr>"
    using run p by (auto simp: rebuildOffline_def onOffline_def Let_def split: option.splits)
  have "finv (fs_offline s)" using wf by (simp add: store_inv_def)
  from off.rebuild [OF this entries_distinct p [unfolded s'(1)]] wf show ?thesis
    by (simp add: s' store_inv_def rebuilt_offline_def)
qed

lemma rebuildStep_run:
  assumes wf: "wf s" and g: "good_id v" and t: "tidy (fs_online s) v"
    and r1: "(if wants_online target then rebuildOnline P v es s else (None, s)) = (None, s2)"
    and r2: "(if wants_offline target then rebuildOffline P v es s2 else (None, s2)) = (None, s3)"
  shows "wf s3 \<and> fs_log s3 = fs_log s \<and> tidy (fs_online s3) v
    \<and> (wants_online target \<longrightarrow> served (fs_online s3) v = rebuilt_online es)
    \<and> (wants_offline target \<longrightarrow> base (fs_offline s3) v = rebuilt_offline kept es)
    \<and> (\<forall>w. good_id w \<and> w \<noteq> v \<longrightarrow> served (fs_online s3) w = served (fs_online s) w \<and> tidy (fs_online s3) w = tidy (fs_online s) w)
    \<and> (\<forall>w. w \<noteq> v \<longrightarrow> base (fs_offline s3) w = base (fs_offline s) w)"
proof -
  have 1: "wf s2 \<and> fs_log s2 = fs_log s \<and> fs_offline s2 = fs_offline s \<and> tidy (fs_online s2) v
    \<and> (wants_online target \<longrightarrow> served (fs_online s2) v = rebuilt_online es)
    \<and> (\<forall>w. good_id w \<and> w \<noteq> v \<longrightarrow> served (fs_online s2) w = served (fs_online s) w \<and> tidy (fs_online s2) w = tidy (fs_online s) w)"
  proof (cases "wants_online target")
    case True
    with r1 rebuildOnline_run [OF wf g t, of es s2] show ?thesis by simp
  qed (use r1 wf t in simp)
  show ?thesis
  proof (cases "wants_offline target")
    case True
    with r2 rebuildOffline_run [of s2 v es s3] 1 show ?thesis by simp
  qed (use r2 1 in simp)
qed

lemma rebuildLoop_run:
  assumes "wf s" "\<forall>v \<in> set ids. good_id v \<longrightarrow> tidy (fs_online s) v" "rebuildLoop P target emit ids n sent s = (Inr m, sent', s')"
  shows "wf s' \<and> evs (fs_log s') = evs (fs_log s)
    \<and> (\<forall>v \<in> set ids. view_events evs s v \<noteq> [] \<longrightarrow>
         (wants_online target \<longrightarrow> served (fs_online s') v = rebuilt_online (view_events evs s v))
         \<and> (wants_offline target \<longrightarrow> base (fs_offline s') v = rebuilt_offline kept (view_events evs s v)))
    \<and> (\<forall>w. good_id w \<and> w \<notin> set ids \<longrightarrow> served (fs_online s') w = served (fs_online s) w \<and> base (fs_offline s') w = base (fs_offline s) w)"
  using assms
proof (induction ids arbitrary: n sent s)
  case Nil
  then show ?case by simp
next
  case (Cons v ids)
  obtain rl l where ld: "el_Load (fp_log P) v (fs_log s) = (rl, l)" by fastforce
  have "linv (fs_log s)" using Cons.prems(1) by (simp add: store_inv_def)
  note lr = lg.load [OF this ld]
  define s1 where "s1 = s\<lparr>fs_log := l\<rparr>"
  have 1: "wf s1" "evs (fs_log s1) = evs (fs_log s)" "fs_online s1 = fs_online s" "fs_offline s1 = fs_offline s"
    "view_events evs s1 = view_events evs s"
    using lr Cons.prems(1) by (simp_all add: s1_def store_inv_def view_events_def [abs_def])
  have load: "onLog (el_Load (fp_log P) v) s = (rl, s1)" by (simp add: onLog_def ld s1_def)
  show ?case
  proof (cases rl)
    case (Inl err)
    with Cons.prems(3) load have ee: "errors_Is err ErrEventLogNotFound"
      and rest: "rebuildLoop P target emit ids n sent s1 = (Inr m, sent', s')" by (auto split: if_splits)
    have "view_events evs s v = []" using lr Inl ee by (simp add: view_events_def)
    with Cons.IH [OF 1(1) _ rest] Cons.prems(2) 1 show ?thesis by simp
  next
    case (Inr es)
    have es: "es = view_events evs s v" "es \<noteq> []" unfolding view_events_def using lr Inr by auto
    then obtain e where "e \<in> set (view_events evs s v)" by (metis hd_in_set)
    then have g: "good_id v" using Cons.prems(1) by (auto simp: view_events_def store_inv_def of_view_def)
    from Cons.prems(3) load Inr obtain s2 s3 n' sent2 where
      r1: "(if wants_online target then rebuildOnline P v es s1 else (None, s1)) = (None, s2)"
      and r2: "(if wants_offline target then rebuildOffline P v es s2 else (None, s2)) = (None, s3)"
      and rest: "rebuildLoop P target emit ids n' sent2 s3 = (Inr m, sent', s')"
      by (auto simp: wants_online_def [symmetric] wants_offline_def [symmetric] Let_def split: prod.splits option.splits)
    have t1: "tidy (fs_online s1) v" using Cons.prems(2) 1 g by simp
    note st = rebuildStep_run [OF 1(1) g t1 r1 r2]
    have ve: "view_events evs s3 = view_events evs s" using st 1 by (simp add: view_events_def [abs_def])
    have t3: "\<forall>w \<in> set ids. good_id w \<longrightarrow> tidy (fs_online s3) w"
    proof (intro ballI impI)
      fix w assume w: "w \<in> set ids" "good_id w"
      show "tidy (fs_online s3) w"
      proof (cases "w = v")
        case False
        with st w Cons.prems(2) 1(3) show ?thesis by simp
      qed (use st in simp)
    qed
    have "wf s3" using st by blast
    note ih = Cons.IH [OF this t3 rest, unfolded ve]
    have ev3: "evs (fs_log s3) = evs (fs_log s)" using st 1 by simp
    have "(wants_online target \<longrightarrow> served (fs_online s') w = rebuilt_online (view_events evs s w))
         \<and> (wants_offline target \<longrightarrow> base (fs_offline s') w = rebuilt_offline kept (view_events evs s w))"
      if w: "w \<in> set (v # ids)" "view_events evs s w \<noteq> []" for w
    proof (cases "w \<in> set ids")
      case False
      with w(1) have "w = v" by simp
      with ih st g es False show ?thesis by simp
    qed (use ih w in blast)
    moreover have "served (fs_online s') w = served (fs_online s) w \<and> base (fs_offline s') w = base (fs_offline s) w"
      if "good_id w \<and> w \<notin> set (v # ids)" for w
      using ih st 1 that by simp
    ultimately show ?thesis using ih ev3 by auto
  qed
qed

end


lemma foldView_raw_snoc:
  "sorted (map fe_Version (es @ [e])) \<Longrightarrow> foldView_raw (es @ [e]) = fold_event e (foldView_raw es)"
proof -
  assume a: "sorted (map fe_Version (es @ [e]))"
  then have "sorted (map fe_Version es)" by (simp add: sorted_append)
  with sortedByVersion_id [OF a] show ?thesis by (simp add: foldView_raw_def sortedByVersion_id)
qed

text \<open>The definition event a define call appends.\<close>

definition defines_view :: "Principal \<Rightarrow> DefineFeatureViewInput \<Rightarrow> string \<Rightarrow> int \<Rightarrow> FeatureEvent \<Rightarrow> bool" where
  "defines_view p inp v version e \<longleftrightarrow> fe_Type e = FeatureEventViewDefined \<and> fe_FeatureViewID e = v
     \<and> fe_ViewDef e = Some \<lparr>vd_ID = v, vd_Name = df_Name inp, vd_Description = df_Description inp, vd_Entity = df_Entity inp,
            vd_Features = df_Features inp, vd_SchemaVersion = version, vd_OwnerUserID = pr_UserID p, vd_OwnerTeam = pr_Team p\<rparr>"

context feature_store
begin

lemma sorted_view_events: "wf s \<Longrightarrow> sorted (map fe_Version (view_events evs s v))"
proof -
  assume "wf s"
  then have "map fe_Version (evs (fs_log s)) = map int [1 ..< Suc (length (evs (fs_log s)))]" by (simp add: store_inv_def lg.gap_free)
  moreover have "sorted (map int [1 ..< Suc n])" for n by (simp add: sorted_iff_nth_mono del: upt_Suc)
  ultimately show ?thesis unfolding view_events_def by (intro sorted_filter) metis
qed

lemma view_snoc:
  assumes "wf s'" "view_events evs s' v = view_events evs s v @ [e]"
  shows "foldView_raw (view_events evs s' v) = fold_event e (foldView_raw (view_events evs s v))"
  using sorted_view_events [OF assms(1), of v] unfolding assms(2) by (rule foldView_raw_snoc)

lemma view_events_append:
  "evs (fs_log s') = evs (fs_log s) @ map stored out \<Longrightarrow> \<forall>e \<in> set out. of_view v e \<Longrightarrow>
    view_events evs s' w = view_events evs s w @ (if w = v then map stored out else [])"
proof -
  assume a: "evs (fs_log s') = evs (fs_log s) @ map stored out" "\<forall>e \<in> set out. of_view v e"
  have "of_view w (stored e) \<longleftrightarrow> w = v" if "e \<in> set out" for e using a(2) that lg.stored_keeps [of e] by (auto simp: of_view_def)
  then have "filter (of_view w) (map stored out) = (if w = v then map stored out else [])" by (auto simp: filter_id_conv filter_empty_conv)
  with a(1) show ?thesis by (simp add: view_events_def)
qed

lemma append_definition_run:
  assumes wf: "wf s" and g: "good_id v" and run: "appendViewDefinition P p inp v version s = (r, s')"
  shows "wf s' \<and> fs_online s' = fs_online s \<and> fs_offline s' = fs_offline s
    \<and> (evs (fs_log s') = evs (fs_log s)
       \<or> (\<exists>e. defines_view p inp v version e \<and> fe_Version e = int (length (evs (fs_log s))) + 1 \<and> evs (fs_log s') = evs (fs_log s) @ [stored e]
            \<and> (\<forall>view. r = Inr view \<longrightarrow> fv_ID view = v \<and> fv_SchemaVersion view = version \<and> fv_Features view = df_Features inp
                 \<and> fv_Entity view = df_Entity inp \<and> fv_OwnerTeam view = pr_Team p)))"
proof -
  define now where "now = fp_clock P (fs_ticks s)"
  define s2 where "s2 = s\<lparr>fs_ticks := Suc (fs_ticks s), fs_ids := Suc (fs_ids s)\<rparr>"
  define vdef where "vdef = \<lparr>vd_ID = v, vd_Name = df_Name inp, vd_Description = df_Description inp, vd_Entity = df_Entity inp,
            vd_Features = df_Features inp, vd_SchemaVersion = version, vd_OwnerUserID = pr_UserID p, vd_OwnerTeam = pr_Team p\<rparr>"
  define ev where "ev = \<lparr>fe_ID = fp_idgen P (fs_ids s), fe_Type = FeatureEventViewDefined, fe_FeatureViewID = v, fe_Version = 0, fe_EntityID = '''',
            fe_Values = [], fe_EventTime = now, fe_ViewDef = Some vdef, fe_AppendedAt = now\<rparr>"
  have 2: "wf s2" "evs (fs_log s2) = evs (fs_log s)" "fs_online s2 = fs_online s" "fs_offline s2 = fs_offline s"
    using wf by (simp_all add: s2_def store_inv_def)
  obtain rp s3 where ap: "onLog (el_Append (fp_log P) (df_IdempotencyKey inp) [ev]) s2 = (rp, s3)" by fastforce
  have "\<forall>e \<in> set [ev]. of_view v e" "\<forall>e \<in> set [ev]. \<forall>d. fe_ViewDef e = Some d \<longrightarrow> vd_ID d = v"
    by (simp_all add: ev_def vdef_def of_view_def)
  note ar = append_run [OF 2(1) _ this(1) g this(2) ap, simplified, unfolded 2]
  show ?thesis
  proof (cases rp)
    case (Inl err)
    with run ap have "s' = s3" by (simp add: appendViewDefinition_def Now_def NewID_def ev_def vdef_def s2_def now_def)
    with ar Inl 2 show ?thesis by auto
  next
    case (Inr x)
    obtain out wt b where x: "x = (out, wt, b)" by (cases x) auto
    have fb: "foldViewByID P v s3 = (r, s')"
      using run ap Inr by (simp add: appendViewDefinition_def Now_def NewID_def ev_def vdef_def s2_def now_def)
    have w3: "wf s3" "fs_online s3 = fs_online s" "fs_offline s3 = fs_offline s" using ar 2 by auto
    note fbr = fold_by_id [OF w3(1) fb]
    show ?thesis
    proof (cases b)
      case True
      with ar Inr x 2 fbr w3 show ?thesis by (simp add: unchanged_def)
    next
      case False
      let ?e = "ev\<lparr>fe_Version := int (length (evs (fs_log s))) + 1\<rparr>"
      have e3: "evs (fs_log s3) = evs (fs_log s) @ map stored [?e]" using ar Inr x False 2 by simp
      have d: "defines_view p inp v version ?e" by (simp add: defines_view_def ev_def vdef_def)
      have "fv_ID view = v \<and> fv_SchemaVersion view = version \<and> fv_Features view = df_Features inp
          \<and> fv_Entity view = df_Entity inp \<and> fv_OwnerTeam view = pr_Team p" if rv: "r = Inr view" for view
      proof -
        have "view_events evs s3 v = view_events evs s v @ [stored ?e]"
          using view_events_append [OF e3, of v v] by (simp add: of_view_def ev_def)
        note vs = view_snoc [OF w3(1) this]
        have cv: "current_view evs s3 v = Some view" using fbr rv by blast
        obtain v0 b0 where raw: "foldView_raw (view_events evs s v) = (v0, b0)" by fastforce
        have keep: "fe_Type (stored ?e) = FeatureEventViewDefined" "fe_ViewDef (stored ?e) = Some vdef"
          using lg.stored_keeps [of ?e] by (simp_all add: ev_def)
        from cv vs raw keep show ?thesis by (auto simp: current_view_def foldView_def vdef_def)
      qed
      with d e3 fbr w3 show ?thesis by (auto simp: unchanged_def intro!: exI [of _ ?e])
    qed
  qed
qed

definition define_outcome where
  "define_outcome s v version p inp r s' \<longleftrightarrow> wf s' \<and> fs_online s' = fs_online s \<and> fs_offline s' = fs_offline s
    \<and> (evs (fs_log s') = evs (fs_log s)
       \<or> (\<exists>e. defines_view p inp v version e \<and> fe_Version e = int (length (evs (fs_log s))) + 1 \<and> evs (fs_log s') = evs (fs_log s) @ [stored e]
            \<and> (\<forall>view. r = Inr view \<longrightarrow> fv_ID view = v \<and> fv_SchemaVersion view = version \<and> fv_Features view = df_Features inp
                 \<and> fv_Entity view = df_Entity inp \<and> fv_OwnerTeam view = pr_Team p)))"

definition version_choice where
  "version_choice s v version inp \<longleftrightarrow> version = 1 \<and> (\<exists>n. v = fp_idgen P n)
     \<or> (\<exists>cur. current_view evs s v = Some cur \<and> fv_Entity cur = df_Entity inp \<and> version = fv_SchemaVersion cur + 1)"

lemma define_outcomeD:
  assumes "define_outcome s v version p inp r s'" "version_choice s v version inp" "validateDefineInput inp = None"
  shows "wf s' \<and> fs_online s' = fs_online s \<and> fs_offline s' = fs_offline s
    \<and> (evs (fs_log s') = evs (fs_log s)
       \<or> (\<exists>e v version. validateDefineInput inp = None \<and> defines_view p inp v version e \<and> fe_Version e = int (length (evs (fs_log s))) + 1
            \<and> evs (fs_log s') = evs (fs_log s) @ [stored e]
            \<and> (version = 1 \<and> (\<exists>n. v = fp_idgen P n)
               \<or> (\<exists>cur. current_view evs s v = Some cur \<and> fv_Entity cur = df_Entity inp \<and> version = fv_SchemaVersion cur + 1))
            \<and> (\<forall>view. r = Inr view \<longrightarrow> fv_ID view = v \<and> fv_SchemaVersion view = version \<and> fv_Features view = df_Features inp
                 \<and> fv_Entity view = df_Entity inp \<and> fv_OwnerTeam view = pr_Team p)))"
proof (cases "evs (fs_log s') = evs (fs_log s)")
  case True
  with assms(1) show ?thesis by (simp add: define_outcome_def)
next
  case False
  with assms(1) obtain e where e: "defines_view p inp v version e \<and> fe_Version e = int (length (evs (fs_log s))) + 1
      \<and> evs (fs_log s') = evs (fs_log s) @ [stored e]
      \<and> (\<forall>view. r = Inr view \<longrightarrow> fv_ID view = v \<and> fv_SchemaVersion view = version \<and> fv_Features view = df_Features inp
                 \<and> fv_Entity view = df_Entity inp \<and> fv_OwnerTeam view = pr_Team p)" by (auto simp: define_outcome_def)
  have "wf s'" "fs_online s' = fs_online s" "fs_offline s' = fs_offline s" using assms(1) by (simp_all add: define_outcome_def)
  then show ?thesis
    using assms(3) e assms(2) [unfolded version_choice_def]
    by (intro conjI, simp_all only: simp_thms) (rule disjI2, rule exI [of _ e], rule exI [of _ v], rule exI [of _ version], simp only: simp_thms)
qed

lemma define_run:
  assumes wf: "wf s" and ids: "\<forall>n. good_id (fp_idgen P n)" and run: "DefineFeatureView P p inp s = (r, s')"
  shows "wf s' \<and> fs_online s' = fs_online s \<and> fs_offline s' = fs_offline s
    \<and> (evs (fs_log s') = evs (fs_log s)
       \<or> (\<exists>e v version. validateDefineInput inp = None \<and> defines_view p inp v version e \<and> fe_Version e = int (length (evs (fs_log s))) + 1
            \<and> evs (fs_log s') = evs (fs_log s) @ [stored e]
            \<and> (version = 1 \<and> (\<exists>n. v = fp_idgen P n)
               \<or> (\<exists>cur. current_view evs s v = Some cur \<and> fv_Entity cur = df_Entity inp \<and> version = fv_SchemaVersion cur + 1))
            \<and> (\<forall>view. r = Inr view \<longrightarrow> fv_ID view = v \<and> fv_SchemaVersion view = version \<and> fv_Features view = df_Features inp
                 \<and> fv_Entity view = df_Entity inp \<and> fv_OwnerTeam view = pr_Team p)))"
proof (cases "validateDefineInput inp")
  case (Some err)
  with run wf show ?thesis by (simp add: DefineFeatureView_def)
next
  case valid: None
  obtain rr l where rs: "el_ResolveViewIDByName (fp_log P) (pr_Team p) (df_Name inp) (fs_log s) = (rr, l)" by fastforce
  define s1 where "s1 = s\<lparr>fs_log := l\<rparr>"
  have "linv (fs_log s)" using wf by (simp add: store_inv_def)
  with lg.resolve [OF this rs] wf have 1: "wf s1" "evs (fs_log s1) = evs (fs_log s)" "fs_online s1 = fs_online s" "fs_offline s1 = fs_offline s"
    by (simp_all add: s1_def store_inv_def)
  have cv1: "current_view evs s1 = current_view evs s" using 1(2) by (simp add: current_view_def [abs_def] view_events_def)
  show ?thesis
  proof (cases rr)
    case (Inr existing)
    obtain rf s2 where f: "foldViewByID P existing s1 = (rf, s2)" by fastforce
    note fb = fold_by_id [OF 1(1) f]
    have 2: "wf s2" "evs (fs_log s2) = evs (fs_log s)" "fs_online s2 = fs_online s" "fs_offline s2 = fs_offline s"
      using fb 1 by (auto simp: unchanged_def)
    show ?thesis
    proof (cases rf)
      case (Inl err)
      with run valid rs Inr f have "s' = s2" by (simp add: DefineFeatureView_def onLog_def s1_def)
      with 2 show ?thesis by simp
    next
      case c: (Inr cur)
      then have cv: "current_view evs s existing = Some cur" using fb cv1 by simp
      then have g: "fv_ID cur = existing" "good_id existing" using wf_ids [OF wf] by blast+
      show ?thesis
      proof (cases "fv_Entity cur = df_Entity inp")
        case False
        with run valid rs Inr f c have "s' = s2" by (simp add: DefineFeatureView_def onLog_def s1_def)
        with 2 show ?thesis by simp
      next
        case True
        with run valid rs Inr f c g have "appendViewDefinition P p inp existing (fv_SchemaVersion cur + 1) s2 = (r, s')"
          by (simp add: DefineFeatureView_def onLog_def s1_def)
        from append_definition_run [OF 2(1) g(2) this, unfolded 2] have
          "define_outcome s existing (fv_SchemaVersion cur + 1) p inp r s'" by (simp add: define_outcome_def)
        moreover have "version_choice s existing (fv_SchemaVersion cur + 1) inp" using cv True by (simp add: version_choice_def)
        ultimately show ?thesis using valid by (rule define_outcomeD)
      qed
    qed
  next
    case (Inl err)
    show ?thesis
    proof (cases "errors_Is err ErrEventLogNotFound")
      case False
      with run valid rs Inl have "s' = s1" by (simp add: DefineFeatureView_def onLog_def s1_def)
      with 1 show ?thesis by simp
    next
      case True
      define s2 where "s2 = s1\<lparr>fs_ids := Suc (fs_ids s1)\<rparr>"
      have 2: "wf s2" "evs (fs_log s2) = evs (fs_log s)" "fs_online s2 = fs_online s" "fs_offline s2 = fs_offline s"
        using 1 by (simp_all add: s2_def store_inv_def)
      from True run valid rs Inl have "appendViewDefinition P p inp (fp_idgen P (fs_ids s1)) 1 s2 = (r, s')"
        by (simp add: DefineFeatureView_def onLog_def NewID_def s1_def s2_def)
      from append_definition_run [OF 2(1) ids [rule_format] this, unfolded 2] have
        "define_outcome s (fp_idgen P (fs_ids s1)) 1 p inp r s'" by (simp add: define_outcome_def)
      moreover have "version_choice s (fp_idgen P (fs_ids s1)) 1 inp" by (auto simp: version_choice_def)
      ultimately show ?thesis using valid by (rule define_outcomeD)
    qed
  qed
qed

end


text \<open>The online store serves, for every entity, the version of its latest value event in the log.\<close>

definition online_current :: "('l \<Rightarrow> FeatureEvent list) \<Rightarrow> ('o \<Rightarrow> string \<Rightarrow> projection) \<Rightarrow> ('l, 'o, 'f) fsState \<Rightarrow> string \<Rightarrow> bool" where
  "online_current evs served s v \<longleftrightarrow>
     (\<forall>e. map_option fc_AsOfVersion (served (fs_online s) v e) = map_option fc_AsOfVersion (ProjectLatest (view_events evs s v) 0 e))"

lemma latest_versions:
  "sorted (map fe_Version es) \<Longrightarrow> map_option fc_AsOfVersion (ProjectLatest es sv e)
     = (if filter (written_for e) es = [] then None else Some (fe_Version (last (filter (written_for e) es))))"
  by (simp add: ProjectLatest_def latest_fold_last sortedByVersion_id vectorOf_def)

lemma cached_version [simp]: "fc_AsOfVersion (cached v) = fc_AsOfVersion v"
  by (simp add: cached_def)

context feature_store
begin

lemma strict_view_events: "wf s \<Longrightarrow> sorted_wrt (<) (map fe_Version (view_events evs s v))"
proof -
  assume "wf s"
  then have "map fe_Version (evs (fs_log s)) = map int [1 ..< Suc (length (evs (fs_log s)))]" by (simp add: store_inv_def lg.gap_free)
  moreover have "sorted_wrt (<) (map int [1 ..< Suc n])" for n by (simp add: sorted_wrt_iff_nth_less del: upt_Suc)
  ultimately have "sorted_wrt (<) (map fe_Version (evs (fs_log s)))" by metis
  then show ?thesis unfolding view_events_def by (simp add: sorted_wrt_map sorted_wrt_filter)
qed

lemma stored_versions:
  "sorted (map fe_Version out) \<Longrightarrow> map_option fc_AsOfVersion (ProjectLatest (map stored out) sv e) = map_option fc_AsOfVersion (ProjectLatest out sv' e)"
proof -
  assume s: "sorted (map fe_Version out)"
  have "map fe_Version (map stored out) = map fe_Version out" using lg.stored_keeps by simp
  then have s2: "sorted (map fe_Version (map stored out))" using s by metis
  have "written_for e (stored x) = written_for e x" for x using lg.stored_keeps by (simp add: written_for_def)
  then have "filter (written_for e) (map stored out) = map stored (filter (written_for e) out)" by (simp add: filter_map comp_def)
  then show ?thesis using lg.stored_keeps unfolding latest_versions [OF s] latest_versions [OF s2] by (simp add: last_map)
qed

lemma write_keeps_current:
  assumes wf: "wf s" and run: "WriteFeatures P p inp s = (Inr res, s')" and fresh: "evs (fs_log s') \<noteq> evs (fs_log s)"
    and cur: "online_current evs served s (wi_FeatureViewID inp)"
  shows "online_current evs served s' (wi_FeatureViewID inp)"
  using wf run
proof (cases rule: write_cases)
  case (refused err)
  then show ?thesis by simp
next
  case (accepted view now es out wt replayed)
  let ?v = "wi_FeatureViewID inp"
  have out: "out = numbered (int (length (evs (fs_log s))) + 1) es" "evs (fs_log s') = evs (fs_log s) @ map stored out"
    using accepted(13) fresh by (auto split: if_splits)
  obtain c where c: "on_Put (fp_online P) ?v (entries out (ProjectLatest out (fv_SchemaVersion view))) (fs_online s) = (None, c)" "fs_online s' = c"
    using accepted(14) by auto
  have "oinv (fs_online s)" using wf by (simp add: store_inv_def)
  with onl.put [OF _ accepted(7) entries_distinct c(1)]
  have put: "served (fs_online s') ?v = served (fs_online s) ?v ++ (map_option cached \<circ> ProjectLatest out (fv_SchemaVersion view))" by (simp add: c)
  have "\<forall>e \<in> set out. of_view ?v e" unfolding out(1) by (rule numbered_view) (use list_all2_view [OF accepted(11)] in blast)
  then have ve: "view_events evs s' ?v = view_events evs s ?v @ map stored out" using view_events_append [OF out(2)] by simp
  have strict: "sorted_wrt (<) (map fe_Version (view_events evs s ?v @ map stored out))" using strict_view_events [OF accepted(1)] unfolding ve [symmetric] .
  then have "\<forall>x \<in> set (view_events evs s ?v). \<forall>y \<in> set (map stored out). fe_Version x < fe_Version y" by (auto simp: sorted_wrt_append)
  moreover have "distinct (map fe_Version (view_events evs s ?v @ map stored out))" using strict strict_sorted_iff by blast
  ultimately have split: "ProjectLatest (view_events evs s' ?v) 0 = ProjectLatest (view_events evs s ?v) 0 ++ ProjectLatest (map stored out) 0"
    unfolding ve by (rule ProjectLatest_append)
  have "sorted (map fe_Version out)"
  proof -
    have "sorted (map fe_Version (map stored out))" using strict by (auto simp: sorted_wrt_append strict_sorted_iff)
    then show ?thesis using lg.stored_keeps by (simp add: comp_def)
  qed
  note sv = stored_versions [OF this, of 0 _ "fv_SchemaVersion view"]
  have "map_option fc_AsOfVersion (served (fs_online s') ?v e) = map_option fc_AsOfVersion (ProjectLatest (view_events evs s' ?v) 0 e)" for e
  proof (cases "ProjectLatest out (fv_SchemaVersion view) e")
    case None
    with sv [of e] have "ProjectLatest (map stored out) 0 e = None" by simp
    with None cur show ?thesis by (simp add: put split map_add_def online_current_def)
  next
    case (Some x)
    with sv [of e] obtain y where "ProjectLatest (map stored out) 0 e = Some y" "fc_AsOfVersion y = fc_AsOfVersion x"
      by (cases "ProjectLatest (map stored out) 0 e") auto
    with Some show ?thesis by (simp add: put split map_add_def)
  qed
  then show ?thesis by (simp add: online_current_def)
qed

end


context feature_store
begin

lemma delete_run:
  assumes wf: "wf s" and run: "DeleteFeatureView P p v k s = (r, s')"
  shows "wf s' \<and> fs_offline s' = fs_offline s
    \<and> (evs (fs_log s') = evs (fs_log s)
       \<or> (\<exists>e view. current_view evs s v = Some view \<and> fv_OwnerTeam view = pr_Team p \<and> \<not> IsDeleted view
            \<and> fe_Type e = FeatureEventViewDeleted \<and> fe_FeatureViewID e = v \<and> fe_EventTime e = fp_clock P (fs_ticks s)
            \<and> evs (fs_log s') = evs (fs_log s) @ [stored e]
            \<and> (\<forall>vw. r = Inr vw \<longrightarrow> fv_DeletedAt vw = fe_EventTime (stored e) \<and> current_view evs s' v = Some vw
                 \<and> (tidy (fs_online s) v \<longrightarrow> served (fs_online s') v = Map.empty))))"
proof -
  obtain ra s1 where a: "authorizedView P p v s = (ra, s1)" by fastforce
  note au = authorized [OF wf a]
  have idle: ?thesis if "s' = s1" using that au by (simp add: unchanged_def)
  show ?thesis
  proof (cases ra)
    case (Inl err)
    with run a idle show ?thesis by (simp add: DeleteFeatureView_def)
  next
    case (Inr view)
    note aut = au [unfolded Inr, simplified]
    show ?thesis
    proof (cases "IsDeleted view")
      case True
      with run a Inr idle show ?thesis by (simp add: DeleteFeatureView_def)
    next
      case live: False
      define now where "now = fp_clock P (fs_ticks s1)"
      define s3 where "s3 = s1\<lparr>fs_ticks := Suc (fs_ticks s1), fs_ids := Suc (fs_ids s1)\<rparr>"
      define ev where "ev = \<lparr>fe_ID = fp_idgen P (fs_ids s1), fe_Type = FeatureEventViewDeleted, fe_FeatureViewID = v, fe_Version = 0,
        fe_EntityID = '''', fe_Values = [], fe_EventTime = now, fe_ViewDef = None, fe_AppendedAt = now\<rparr>"
      have 3: "wf s3" "evs (fs_log s3) = evs (fs_log s)" "fs_online s3 = fs_online s" "fs_offline s3 = fs_offline s"
        using aut by (auto simp: s3_def store_inv_def unchanged_def)
      obtain rp s4 where ap: "onLog (el_Append (fp_log P) k [ev]) s3 = (rp, s4)" by fastforce
      have "\<forall>e \<in> set [ev]. of_view v e" "\<forall>e \<in> set [ev]. \<forall>d. fe_ViewDef e = Some d \<longrightarrow> vd_ID d = v" "good_id v"
        using aut by (simp_all add: ev_def of_view_def)
      note ar = append_run [OF 3(1) _ this(1,3,2) ap, simplified, unfolded 3]
      have now: "now = fp_clock P (fs_ticks s)" using authorizedView_log [OF a] by (auto simp: now_def)
      show ?thesis
      proof (cases rp)
        case e: (Inl err)
        with run a Inr live ap aut have "s' = s4" by (simp add: DeleteFeatureView_def Now_def NewID_def s3_def ev_def now_def)
        with ar e show ?thesis by simp
      next
        case x: (Inr x)
        obtain out wt b where xx: "x = (out, wt, b)" by (cases x) auto
        obtain perr c where pu: "on_Purge (fp_online P) v (fs_online s) = (perr, c)" by fastforce
        define s5 where "s5 = s4\<lparr>fs_online := c\<rparr>"
        have "oinv (fs_online s)" using wf by (simp add: store_inv_def)
        note pr = onl.purge [OF this \<open>good_id v\<close> pu]
        have 5: "wf s5" "evs (fs_log s5) = evs (fs_log s4)" "fs_offline s5 = fs_offline s" "fs_online s5 = c"
          using ar pr by (auto simp: s5_def store_inv_def)
        have fin: "if perr = None then foldViewByID P v s5 = (r, s') else (\<exists>err. r = Inl err) \<and> s' = s5"
          using run a Inr live ap aut x xx ar pu
          by (auto simp: DeleteFeatureView_def Now_def NewID_def s3_def ev_def now_def onOnline_def s5_def split: option.splits)
        have w: "wf s'" "fs_offline s' = fs_offline s" "evs (fs_log s') = evs (fs_log s4)"
          and rr: "\<forall>vw. r = Inr vw \<longrightarrow> perr = None \<and> current_view evs s' v = Some vw \<and> fs_online s' = c"
        proof -
          have "wf s' \<and> unchanged evs s5 s' \<and> (\<forall>vw. r = Inr vw \<longrightarrow> perr = None \<and> current_view evs s5 v = Some vw)"
            using fin fold_by_id [OF 5(1), of v r s'] 5(1) by (auto simp: unchanged_def split: if_splits)
          with 5 unchanged_views [of s5 s'] show "wf s'" "fs_offline s' = fs_offline s" "evs (fs_log s') = evs (fs_log s4)"
            "\<forall>vw. r = Inr vw \<longrightarrow> perr = None \<and> current_view evs s' v = Some vw \<and> fs_online s' = c" by (auto simp: unchanged_def)
        qed
        show ?thesis
        proof (cases b)
          case True
          with ar x xx w show ?thesis by simp
        next
          case False
          let ?e = "ev\<lparr>fe_Version := int (length (evs (fs_log s))) + 1\<rparr>"
          have e4: "evs (fs_log s') = evs (fs_log s) @ map stored [?e]" using ar x xx False w by simp
          have "fv_DeletedAt vw = fe_EventTime (stored ?e)" if "r = Inr vw" for vw
          proof -
            have "view_events evs s' v = view_events evs s v @ [stored ?e]"
              using view_events_append [OF e4, of v v] by (simp add: of_view_def ev_def)
            note vs = view_snoc [OF w(1) this]
            have cv: "current_view evs s' v = Some vw" using rr that by blast
            obtain v0 b0 where raw: "foldView_raw (view_events evs s v) = (v0, b0)" by fastforce
            have "fe_Type (stored ?e) = FeatureEventViewDeleted" using lg.stored_keeps [of ?e] by (simp add: ev_def)
            with cv vs raw show ?thesis by (auto simp: current_view_def foldView_def split: bool.splits)
          qed
          then have out: "\<forall>vw. r = Inr vw \<longrightarrow> fv_DeletedAt vw = fe_EventTime (stored ?e) \<and> current_view evs s' v = Some vw
                 \<and> (tidy (fs_online s) v \<longrightarrow> served (fs_online s') v = Map.empty)" using rr pr by auto
          have "fe_Type ?e = FeatureEventViewDeleted" "fe_FeatureViewID ?e = v" "fe_EventTime ?e = fp_clock P (fs_ticks s)"
            by (simp_all add: ev_def now)
          with w e4 out aut live show ?thesis by (intro conjI disjI2 exI [of _ ?e] exI [of _ view]) simp_all
        qed
      qed
    qed
  qed
qed

lemma write_to_deleted:
  assumes "wf s" "healthy (fs_log s)" "wi_FeatureViewID inp \<noteq> ''''" "current_view evs s (wi_FeatureViewID inp) = Some view"
    "fv_OwnerTeam view = pr_Team p" "IsDeleted view" "wi_Rows inp \<noteq> []" "int (length (wi_Rows inp)) \<le> MaxBatchSize"
  shows "WriteFeatures P p inp s = (Inl (Wrapf '''' ErrViewDeleted ('': '' @ wi_FeatureViewID inp)), s)"
proof -
  obtain ra s1 where a: "authorizedView P p (wi_FeatureViewID inp) s = (ra, s1)" by fastforce
  from authorized [OF assms(1) a] assms have "ra = Inr view" "s1 = s" by blast+
  with a assms(6-8) wf_ids [OF assms(1,4)] show ?thesis by (simp add: WriteFeatures_def)
qed

lemma schema_violation:
  assumes "wf s" "healthy (fs_log s)" "wi_FeatureViewID inp \<noteq> ''''" "current_view evs s (wi_FeatureViewID inp) = Some view"
    "fv_OwnerTeam view = pr_Team p" "\<not> IsDeleted view" "int (length (wi_Rows inp)) \<le> MaxBatchSize"
    "row \<in> set (wi_Rows inp)" "\<not> fits_schema view row"
  shows "\<exists>err s'. WriteFeatures P p inp s = (Inl err, s') \<and> errors_Is err ErrSchemaViolation \<and> unchanged evs s s'"
proof -
  obtain ra s1 where a: "authorizedView P p (wi_FeatureViewID inp) s = (ra, s1)" by fastforce
  from authorized [OF assms(1) a] assms have 1: "ra = Inr view" "s1 = s" by blast+
  obtain rb n where b: "buildEvents (fp_idgen P) view (fp_clock P (fs_ticks s)) 0 (wi_Rows inp) (fs_ids s) = (rb, n)" by fastforce
  have ne: "wi_Rows inp \<noteq> []" using assms(8) by auto
  show ?thesis
  proof (cases rb)
    case (Inl err)
    with 1 a assms(6,7) b ne buildEvents_Inl [OF b [unfolded Inl]] show ?thesis by (auto simp: WriteFeatures_def Now_def unchanged_def)
  next
    case (Inr es)
    with buildEvents_Inr b assms(8,9) show ?thesis by blast
  qed
qed

end

context feature_store
begin

lemma write_keeps_views:
  assumes wf: "wf s" and run: "WriteFeatures P p inp s = (r, s')"
  shows "current_view evs s' v = current_view evs s v"
  using wf run
proof (cases rule: write_cases)
  case (refused err)
  then show ?thesis using unchanged_views by metis
next
  case (accepted view now es out wt replayed)
  show ?thesis
  proof (cases replayed)
    case True
    with accepted(13) show ?thesis by (simp add: current_view_def view_events_def)
  next
    case False
    with accepted(13) have out: "out = numbered (int (length (evs (fs_log s))) + 1) es" "evs (fs_log s') = evs (fs_log s) @ map stored out" by auto
    have "\<not> is_definition (stored e)" if "e \<in> set out" for e
    proof -
      from that out(1) obtain e' where "e' \<in> set es" "e = e'\<lparr>fe_Version := fe_Version e\<rparr>" using numbered_keeps by blast
      moreover have "fe_Type (x\<lparr>fe_Version := n\<rparr>) = fe_Type x" for x :: FeatureEvent and n by simp
      ultimately have "fe_Type e = FeatureEventValuesWritten" using list_all2_view [OF accepted(11)] by metis
      then show ?thesis using lg.stored_keeps [of e] by (simp add: is_definition_def)
    qed
    then have "filter (\<lambda>e. of_view v e \<and> is_definition e) (evs (fs_log s')) = filter (\<lambda>e. of_view v e \<and> is_definition e) (evs (fs_log s))"
      by (auto simp: out(2) filter_empty_conv)
    then show ?thesis unfolding current_view_def view_events_def by (metis foldView_defs)
  qed
qed

lemma rebuildIDs_run:
  assumes wf: "wf s" and run: "rebuildIDs P p inp s = (Inr ids, s1)"
  shows "wf s1 \<and> unchanged evs s s1 \<and> (ri_FeatureViewID inp \<noteq> '''' \<longrightarrow> ids = [ri_FeatureViewID inp]
    \<and> (\<exists>view. current_view evs s (ri_FeatureViewID inp) = Some view \<and> fv_OwnerTeam view = pr_Team p))"
proof (cases "ri_FeatureViewID inp = ''''")
  case True
  obtain r l where l: "el_ListViewIDs (fp_log P) (pr_Team p) '''' \<lparr>lo_PageSize = MaxPageSize, lo_PageToken = ''''\<rparr> (fs_log s) = (r, l)" by fastforce
  have "linv (fs_log s)" using wf by (simp add: store_inv_def)
  from lg.list_ids [OF this l] wf run True l show ?thesis
    by (auto simp: rebuildIDs_def onLog_def store_inv_def unchanged_def split: sum.splits)
next
  case False
  obtain ra s2 where a: "authorizedView P p (ri_FeatureViewID inp) s = (ra, s2)" by fastforce
  from authorized [OF wf a] run False a show ?thesis by (auto simp: rebuildIDs_def split: sum.splits)
qed

end

end
