(* ===== verification/FeatureStore.thy ===== *)
theory FeatureStore
  imports FeatureService
begin

text \<open>
  The feature store put together: the service on the Postgres log, the Redis online store and the Postgres
  offline store, and the properties of its operations. Each is a statement about any state that satisfies
  the invariant \<open>fs_inv\<close> and any run of an operation, with the faults of the stores left open.
\<close>

section \<open>The service on its adapters\<close>

definition FeaturePorts :: "(time \<Rightarrow> time) \<Rightarrow> (string \<Rightarrow> string \<Rightarrow> bool) \<Rightarrow> (string \<Rightarrow> string) \<Rightarrow> (nat \<Rightarrow> time) \<Rightarrow> (nat \<Rightarrow> string) \<Rightarrow>
    (pgState, redisState, offlineState) featureStoreService" where
  "FeaturePorts pgtime ilike coll clock idgen = \<lparr>fp_log = PgLog_ops pgtime ilike, fp_online = RedisOnline_ops,
     fp_offline = PgOffline_ops coll pgtime, fp_clock = clock, fp_idgen = idgen\<rparr>"

interpretation fs: feature_store "FeaturePorts pgtime ilike coll clock idgen" pg_events pg_inv "pg_row pgtime" pg_healthy
    redis_view redis_inv redis_tidy plain_id offline_base offline_inv "offline_kept pgtime"
  for pgtime ilike coll clock idgen
  by (simp add: feature_store_def FeaturePorts_def pg.event_log_axioms redis.online_store_axioms offline.offline_store_axioms)

type_synonym fs_state = "(pgState, redisState, offlineState) fsState"

abbreviation fs_inv :: "fs_state \<Rightarrow> bool" where
  "fs_inv \<equiv> store_inv pg_events pg_inv redis_inv offline_inv plain_id"


section \<open>Properties\<close>

definition demo_fs :: "(pgState, redisState, offlineState) featureStoreService" where
  "demo_fs = FeaturePorts (\<lambda>t. t) (\<lambda>a b. True) (\<lambda>x. x) (\<lambda>n. 100 + int n) (\<lambda>n. replicate (Suc n) CHR ''i'')"

definition demo_fs0 :: fs_state where
  "demo_fs0 = \<lparr>fs_log = pg_empty [], fs_online = \<lparr>rs_keys = Map.empty, rs_faults = []\<rparr>, fs_offline = \<lparr>of_rows = [], of_faults = []\<rparr>,
     fs_ticks = 0, fs_ids = 0\<rparr>"

definition demo_user :: Principal where
  "demo_user = \<lparr>pr_UserID = ''alice'', pr_Team = ''ml'', pr_Scopes = [adminScope]\<rparr>"

definition demo_define :: DefineFeatureViewInput where
  "demo_define = \<lparr>df_Name = ''credit'', df_Description = '''', df_Entity = \<lparr>en_Name = ''user'', en_JoinKey = ''user_id'', en_Description = ''''\<rparr>,
     df_Features = [\<lparr>sp_Name = ''score'', sp_ValueType = FeatureTypeInt64, sp_Description = '''', sp_Dimension = 0\<rparr>], df_IdempotencyKey = ''d''\<rparr>"

definition demo_write :: "string \<Rightarrow> 64 word \<Rightarrow> time \<Rightarrow> WriteFeaturesInput" where
  "demo_write k n t = \<lparr>wi_FeatureViewID = ''i'', wi_Rows = [\<lparr>rw_EntityID = ''u'', rw_Values = [(''score'', emptyValue FeatureTypeInt64\<lparr>vl_Int := n\<rparr>)],
     rw_EventTime = t\<rparr>], wi_IdempotencyKey = k\<rparr>"

definition demo_fs1 :: fs_state where
  "demo_fs1 = snd (DefineFeatureView demo_fs demo_user demo_define demo_fs0)"

definition demo_fs2 :: fs_state where
  "demo_fs2 = snd (WriteFeatures demo_fs demo_user (demo_write ''w'' 7 10) demo_fs1)"

lemma demo_inv0: "fs_inv demo_fs0"
  by (simp add: store_inv_def demo_fs0_def pg_inv_empty redis_inv_def offline_inv_def pg_empty_def pg_inv_def)

lemma demo_inv1: "fs_inv demo_fs1"
proof -
  have "\<forall>n. plain_id (fp_idgen demo_fs n)" by (simp add: demo_fs_def FeaturePorts_def plain_id_def)
  moreover have "DefineFeatureView demo_fs demo_user demo_define demo_fs0 = (fst (DefineFeatureView demo_fs demo_user demo_define demo_fs0), demo_fs1)"
    by (simp add: demo_fs1_def)
  ultimately show ?thesis using fs.define_run [OF demo_inv0] unfolding demo_fs_def by blast
qed

lemma demo_view1: "\<exists>view. current_view pg_events demo_fs1 ''i'' = Some view \<and> fv_OwnerTeam view = ''ml'' \<and> \<not> IsDeleted view \<and> fv_SchemaVersion view = 1"
proof -
  have "map_option (\<lambda>v. (fv_OwnerTeam v, IsDeleted v, fv_SchemaVersion v)) (current_view pg_events demo_fs1 ''i'') = Some (''ml'', False, 1)" by code_simp
  then show ?thesis by auto
qed

lemma demo_length2: "map fe_Type (pg_events (fs_log demo_fs2)) = [FeatureEventViewDefined, FeatureEventValuesWritten]"
  by code_simp


text \<open>C8: A write of features is all or nothing, and only valid facts reach the log. Whatever the answer and
  whatever the faults of the stores, the log is either as it was or has grown by exactly one event per
  row of the batch, in order and numbered from its end, each with the entity, the values and the time of
  its row; and it grows only for a live view of the caller's team, a batch within the cap, and rows that
  all fit the schema. A success that grew the log reports the number of rows and the new end of the log.
  A row that does not fit is refused as a schema violation and changes nothing.\<close>

theorem write_is_all_or_nothing:
  assumes inv: "fs_inv s" and run: "WriteFeatures (FeaturePorts pgtime ilike coll clock idgen) p inp s = (r, s')"
  shows "fs_inv s' \<and> fs_offline s' = fs_offline s
    \<and> (pg_events (fs_log s') = pg_events (fs_log s)
       \<or> (\<exists>view es. current_view pg_events s (wi_FeatureViewID inp) = Some view \<and> fv_OwnerTeam view = pr_Team p \<and> \<not> IsDeleted view
            \<and> int (length (wi_Rows inp)) \<le> MaxBatchSize \<and> (\<forall>row \<in> set (wi_Rows inp). fits_schema view row)
            \<and> list_all2 (row_event (wi_FeatureViewID inp) (clock (fs_ticks s))) (wi_Rows inp) es
            \<and> pg_events (fs_log s') = pg_events (fs_log s) @ map (pg_row pgtime) (numbered (int (length (pg_events (fs_log s))) + 1) es)
            \<and> (\<forall>res. r = Inr res \<longrightarrow> wr_WrittenCount res = int (length (wi_Rows inp))
                 \<and> wr_WrittenThroughVersion res = int (length (pg_events (fs_log s'))))))
    \<and> (\<forall>view row. pg_healthy (fs_log s) \<and> wi_FeatureViewID inp \<noteq> '''' \<and> current_view pg_events s (wi_FeatureViewID inp) = Some view
         \<and> fv_OwnerTeam view = pr_Team p \<and> \<not> IsDeleted view \<and> int (length (wi_Rows inp)) \<le> MaxBatchSize
         \<and> row \<in> set (wi_Rows inp) \<and> \<not> fits_schema view row \<longrightarrow>
           (\<exists>err. r = Inl err \<and> errors_Is err ErrSchemaViolation \<and> unchanged pg_events s s'))"
  (is "?frame \<and> ?off \<and> (?same \<or> (\<exists>view es. ?grown view es)) \<and> ?bad")
proof -
  have bad: ?bad
  proof (intro allI impI, elim conjE)
    fix view row
    assume "pg_healthy (fs_log s)" "wi_FeatureViewID inp \<noteq> ''''" "current_view pg_events s (wi_FeatureViewID inp) = Some view"
      "fv_OwnerTeam view = pr_Team p" "\<not> IsDeleted view" "int (length (wi_Rows inp)) \<le> MaxBatchSize"
      "row \<in> set (wi_Rows inp)" "\<not> fits_schema view row"
    from fs.schema_violation [OF inv this, of pgtime ilike coll clock idgen] run
    show "\<exists>err. r = Inl err \<and> errors_Is err ErrSchemaViolation \<and> unchanged pg_events s s'" by auto
  qed
  have "?frame \<and> ?off \<and> (?same \<or> (\<exists>view es. ?grown view es))"
    using inv run
  proof (cases rule: fs.write_cases)
    case (refused err)
    then show ?thesis by (simp add: unchanged_def)
  next
    case (accepted view now es out wt replayed)
    show ?thesis
    proof (cases replayed)
      case True
      with accepted show ?thesis by simp
    next
      case False
      with accepted(13) have out: "out = numbered (int (length (pg_events (fs_log s))) + 1) es"
        "pg_events (fs_log s') = pg_events (fs_log s) @ map (pg_row pgtime) out" "wt = int (length (pg_events (fs_log s')))" by auto
      have "length out = length (wi_Rows inp)" using out(1) accepted(11) by (simp add: list_all2_lengthD)
      then have res: "\<forall>res. r = Inr res \<longrightarrow> wr_WrittenCount res = int (length (wi_Rows inp))
          \<and> wr_WrittenThroughVersion res = int (length (pg_events (fs_log s')))" using accepted(15) out(3) by auto
      have "now = clock (fs_ticks s)" using accepted(12) by (simp add: FeaturePorts_def)
      then have "?grown view es" using accepted(3-5,9-11) out res by blast
      then show ?thesis using accepted(1,2) by blast
    qed
  qed
  with bad show ?thesis by blast
qed

theorem write_is_all_or_nothing_witness:
  "\<exists>es. pg_events (fs_log demo_fs2) = pg_events (fs_log demo_fs1) @ map (pg_row (\<lambda>t. t)) (numbered 2 es)
     \<and> list_all2 (row_event ''i'' 101) (wi_Rows (demo_write ''w'' 7 10)) es"
proof -
  obtain r where run: "WriteFeatures demo_fs demo_user (demo_write ''w'' 7 10) demo_fs1 = (r, demo_fs2)"
    by (simp add: demo_fs2_def) (metis prod.collapse)
  have len: "int (length (pg_events (fs_log demo_fs1))) + 1 = 2" "fs_ticks demo_fs1 = 1"
    "length (pg_events (fs_log demo_fs2)) \<noteq> length (pg_events (fs_log demo_fs1))" "wi_FeatureViewID (demo_write ''w'' 7 10) = ''i''" by code_simp+
  have "pg_events (fs_log demo_fs2) \<noteq> pg_events (fs_log demo_fs1)" using len(3) by metis
  with write_is_all_or_nothing [OF demo_inv1 run [unfolded demo_fs_def]] show ?thesis unfolding len(1,2,4) by auto
qed

text \<open>C30: Teams cannot see each other's views. When a view id names no view of the caller's team, because there
  is none or because it belongs to another team, every operation addressed by the id gives the same
  answer, not found, and changes nothing: reading the definition, writing, the online and the
  point-in-time read, deleting, and rebuilding.\<close>

theorem cross_team_is_not_found:
  assumes "fs_inv s" "pg_healthy (fs_log s)" "v \<noteq> ''''"
    and "\<forall>view. current_view pg_events s v = Some view \<longrightarrow> fv_OwnerTeam view \<noteq> pr_Team p"
    and "P = FeaturePorts pgtime ilike coll clock idgen"
  shows "GetFeatureViewByID P p v s = (Inl ErrViewNotFound, s)
    \<and> (0 < length rows \<and> int (length rows) \<le> MaxBatchSize \<longrightarrow>
         WriteFeatures P p \<lparr>wi_FeatureViewID = v, wi_Rows = rows, wi_IdempotencyKey = k\<rparr> s = (Inl ErrViewNotFound, s))
    \<and> (int (length ids) \<le> MaxBatchSize \<longrightarrow>
         GetOnlineFeatures P p \<lparr>oi_FeatureViewID = v, oi_EntityIDs = ids, oi_FeatureNames = names\<rparr> s = (Inl ErrViewNotFound, s))
    \<and> (int (length ids) \<le> MaxBatchSize \<and> asOf \<noteq> 0 \<longrightarrow>
         GetHistoricalFeatures P p \<lparr>hi_FeatureViewID = v, hi_EntityIDs = ids, hi_AsOf = asOf, hi_FeatureNames = names, hi_Pagination = opts\<rparr> s
           = (Inl ErrViewNotFound, s))
    \<and> DeleteFeatureView P p v k s = (Inl ErrViewNotFound, s)
    \<and> (adminScope \<in> set (pr_Scopes p) \<longrightarrow>
         RebuildViews P p \<lparr>ri_FeatureViewID = v, ri_Target = target\<rparr> emit s = (Some ErrViewNotFound, [], s))"
  unfolding assms(5) by (simp add: fs.cross_team [OF assms(1-4)])

theorem cross_team_is_not_found_witness:
  "DeleteFeatureView demo_fs (demo_user\<lparr>pr_Team := ''other''\<rparr>) ''i'' ''k'' demo_fs1 = (Inl ErrViewNotFound, demo_fs1)"
proof -
  have h: "pg_healthy (fs_log demo_fs1)" by code_simp
  have "\<forall>view. current_view pg_events demo_fs1 ''i'' = Some view \<longrightarrow> fv_OwnerTeam view \<noteq> pr_Team (demo_user\<lparr>pr_Team := ''other''\<rparr>)"
    using demo_view1 by auto
  from cross_team_is_not_found [OF demo_inv1 h _ this demo_fs_def] show ?thesis by blast
qed

text \<open>C14: Point-in-time reads are exact and reproducible. For a view of the caller's team a historical read
  answers with the requested entities, in the order of the request, at the as-of projection of the
  view's events; and a later write, by anyone and to any view, whose stored event times are all after
  the instant does not change the answer.\<close>

theorem historical_read_reproducible:
  assumes inv: "fs_inv s" and h: "pg_healthy (fs_log s)" and P: "P = FeaturePorts pgtime ilike coll clock idgen"
    and inp: "hi_AsOf inp \<noteq> 0" "int (length (hi_EntityIDs inp)) \<le> MaxBatchSize" "hi_FeatureViewID inp \<noteq> ''''"
    and view: "current_view pg_events s (hi_FeatureViewID inp) = Some view" "fv_OwnerTeam view = pr_Team p"
    and w: "WriteFeatures P q win s = (wr, s')"
    and later: "\<forall>row \<in> set (wi_Rows win). hi_AsOf inp < pgtime (if rw_EventTime row = 0 then clock (fs_ticks s) else rw_EventTime row)"
  shows "fst (GetHistoricalFeatures P p inp s) = Inr (assemblePage (hi_EntityIDs inp)
             (ProjectAsOf (view_events pg_events s (hi_FeatureViewID inp)) (hi_AsOf inp) (fv_SchemaVersion view)) (hi_FeatureNames inp) '''')
    \<and> (pg_healthy (fs_log s') \<longrightarrow> fst (GetHistoricalFeatures P p inp s') = fst (GetHistoricalFeatures P p inp s))"
proof -
  let ?v = "hi_FeatureViewID inp"
  have read: "fst (GetHistoricalFeatures P p inp t) = Inr (assemblePage (hi_EntityIDs inp)
      (ProjectAsOf (view_events pg_events t ?v) (hi_AsOf inp) (fv_SchemaVersion view)) (hi_FeatureNames inp) '''')"
    if t: "fs_inv t" "pg_healthy (fs_log t)" "current_view pg_events t ?v = Some view" for t
  proof -
    obtain r t' where r: "GetHistoricalFeatures P p inp t = (r, t')" by fastforce
    from fs.historical_run [OF t(1) r [unfolded P]] t inp view(2) show ?thesis by (auto simp: r)
  qed
  have inv': "fs_inv s'" using inv w [unfolded P] by (cases rule: fs.write_cases) auto
  have cv: "current_view pg_events s' ?v = Some view" using fs.write_keeps_views [OF inv w [unfolded P]] view by simp
  have same: "ProjectAsOf (view_events pg_events s' ?v) (hi_AsOf inp) sv = ProjectAsOf (view_events pg_events s ?v) (hi_AsOf inp) sv" for sv
    using inv w [unfolded P]
  proof (cases rule: fs.write_cases)
    case (refused err)
    then show ?thesis by (simp add: unchanged_def view_events_def)
  next
    case (accepted vw now es out wt replayed)
    show ?thesis
    proof (cases replayed)
      case True
      with accepted(13) show ?thesis by (simp add: view_events_def)
    next
      case False
      with accepted(13) have out: "out = numbered (int (length (pg_events (fs_log s))) + 1) es"
        "pg_events (fs_log s') = pg_events (fs_log s) @ map (pg_row pgtime) out" by auto
      have "hi_AsOf inp < fe_EventTime (pg_row pgtime e)" if e: "e \<in> set out" for e
      proof -
        from e out(1) obtain e' where e': "e' \<in> set es" "e = e'\<lparr>fe_Version := fe_Version e\<rparr>" using numbered_keeps by blast
        then obtain row where "row \<in> set (wi_Rows win)" "row_event (wi_FeatureViewID win) now row e'"
          using accepted(11) by (metis in_set_conv_nth list_all2_conv_all_nth)
        then have "hi_AsOf inp < pgtime (fe_EventTime e')" using later accepted(12) by (auto simp: row_event_def FeaturePorts_def)
        moreover have "fe_EventTime e = fe_EventTime e'" using e'(2) by (metis FeatureEvent.select_convs(7) FeatureEvent.surjective FeatureEvent.update_convs(4))
        ultimately show ?thesis by (simp add: pg_row_def)
      qed
      then have "\<forall>e \<in> set (filter (of_view ?v) (map (pg_row pgtime) out)). fe_Type e = FeatureEventValuesWritten \<longrightarrow> hi_AsOf inp < fe_EventTime e" by auto
      from ProjectAsOf_later [OF this] show ?thesis by (simp add: view_events_def out(2))
    qed
  qed
  show ?thesis using read [OF inv h view(1)] read [OF inv' _ cv] same by auto
qed


theorem historical_read_reproducible_witness:
  "let inp = \<lparr>hi_FeatureViewID = ''i'', hi_EntityIDs = [''u''], hi_AsOf = 20, hi_FeatureNames = [], hi_Pagination = \<lparr>lo_PageSize = 0, lo_PageToken = ''''\<rparr>\<rparr>;
       s' = snd (WriteFeatures demo_fs demo_user (demo_write ''w2'' 9 30) demo_fs2)
   in fst (GetHistoricalFeatures demo_fs demo_user inp s') = fst (GetHistoricalFeatures demo_fs demo_user inp demo_fs2)"
proof -
  let ?inp = "\<lparr>hi_FeatureViewID = ''i'', hi_EntityIDs = [''u''], hi_AsOf = 20, hi_FeatureNames = [], hi_Pagination = \<lparr>lo_PageSize = 0, lo_PageToken = ''''\<rparr>\<rparr>"
  let ?w = "WriteFeatures demo_fs demo_user (demo_write ''w2'' 9 30) demo_fs2"
  have run2: "WriteFeatures demo_fs demo_user (demo_write ''w'' 7 10) demo_fs1 = (fst (WriteFeatures demo_fs demo_user (demo_write ''w'' 7 10) demo_fs1), demo_fs2)"
    by (simp add: demo_fs2_def)
  have inv2: "fs_inv demo_fs2" using demo_inv1 run2 [unfolded demo_fs_def] by (cases rule: fs.write_cases) auto
  obtain view where view: "current_view pg_events demo_fs2 ''i'' = Some view" "fv_OwnerTeam view = pr_Team demo_user"
    using demo_view1 fs.write_keeps_views [OF demo_inv1 run2 [unfolded demo_fs_def], of "''i''"] by (auto simp: demo_user_def)
  have h: "pg_healthy (fs_log demo_fs2)" "pg_healthy (fs_log (snd ?w))" by code_simp+
  have cap: "int (length (hi_EntityIDs ?inp)) \<le> MaxBatchSize" by (simp add: MaxBatchSize_def)
  have later: "\<forall>row \<in> set (wi_Rows (demo_write ''w2'' 9 30)). hi_AsOf ?inp < (if rw_EventTime row = 0 then 100 + int (fs_ticks demo_fs2) else rw_EventTime row)"
    by (simp add: demo_write_def)
  have "pg_healthy (fs_log (snd ?w)) \<longrightarrow> fst (GetHistoricalFeatures demo_fs demo_user ?inp (snd ?w)) = fst (GetHistoricalFeatures demo_fs demo_user ?inp demo_fs2)"
    using historical_read_reproducible [OF inv2 h(1) demo_fs_def, of ?inp view demo_user demo_user "demo_write ''w2'' 9 30" "fst ?w" "snd ?w"] view cap later by simp
  with h(2) show ?thesis by simp
qed






text \<open>Defining a view creates it or evolves it, and authority comes from the caller's credentials. Whatever
  the answer, the log is as it was or has grown by one definition event, which carries the requested name,
  entity and features of a valid request and the caller's user and team; its view is new, with a generated
  id and schema version 1, or an existing one of the same entity, with the next schema version. The view
  read back after the growth is the one defined. The view stores are not touched.\<close>

theorem define_creates_or_evolves:
  assumes inv: "fs_inv s" and ids: "\<forall>n. plain_id (idgen n)"
    and run: "DefineFeatureView (FeaturePorts pgtime ilike coll clock idgen) p inp s = (r, s')"
  shows "fs_inv s' \<and> fs_online s' = fs_online s \<and> fs_offline s' = fs_offline s
    \<and> (pg_events (fs_log s') = pg_events (fs_log s)
       \<or> (\<exists>e v version. validateDefineInput inp = None \<and> defines_view p inp v version e
            \<and> fe_Version e = int (length (pg_events (fs_log s))) + 1 \<and> pg_events (fs_log s') = pg_events (fs_log s) @ [pg_row pgtime e]
            \<and> (version = 1 \<and> (\<exists>n. v = idgen n)
               \<or> (\<exists>cur. current_view pg_events s v = Some cur \<and> fv_Entity cur = df_Entity inp \<and> version = fv_SchemaVersion cur + 1))
            \<and> (\<forall>view. r = Inr view \<longrightarrow> fv_ID view = v \<and> fv_SchemaVersion view = version \<and> fv_Features view = df_Features inp
                 \<and> fv_Entity view = df_Entity inp \<and> fv_OwnerTeam view = pr_Team p)))"
proof -
  have "\<forall>n. plain_id (fp_idgen (FeaturePorts pgtime ilike coll clock idgen) n)" using ids by (simp add: FeaturePorts_def)
  from fs.define_run [OF inv this run] show ?thesis unfolding FeaturePorts_def featureStoreService.select_convs .
qed

theorem define_creates_or_evolves_witness:
  "fs_inv demo_fs1 \<and> length (pg_events (fs_log demo_fs1)) = 1"
proof
  have ids: "\<forall>n. plain_id ((\<lambda>n. replicate (Suc n) CHR ''i'') n)" by (simp add: plain_id_def)
  have run: "DefineFeatureView demo_fs demo_user demo_define demo_fs0 = (fst (DefineFeatureView demo_fs demo_user demo_define demo_fs0), demo_fs1)"
    by (simp add: demo_fs1_def)
  show "fs_inv demo_fs1" using define_creates_or_evolves [OF demo_inv0 ids run [unfolded demo_fs_def]] by blast
  show "length (pg_events (fs_log demo_fs1)) = 1" by code_simp
qed

text \<open>Deleting a view retires it and keeps its history. The log is as it was or has grown by one deletion
  event of the view, which was live and of the caller's team. After a deletion that grew the log and
  succeeded, the view reads as deleted, the online store, when its index was complete, serves nothing
  for it, and every write to it by its team is refused as to a deleted view and changes nothing.\<close>

theorem delete_retires_the_view:
  assumes inv: "fs_inv s" and P: "P = FeaturePorts pgtime ilike coll clock idgen" and stamp: "pgtime (clock (fs_ticks s)) \<noteq> 0"
    and run: "DeleteFeatureView P p v k s = (r, s')"
  shows "pg_events (fs_log s') = pg_events (fs_log s)
    \<or> (\<exists>e view. current_view pg_events s v = Some view \<and> fv_OwnerTeam view = pr_Team p \<and> \<not> IsDeleted view
         \<and> fe_Type e = FeatureEventViewDeleted \<and> fe_FeatureViewID e = v \<and> pg_events (fs_log s') = pg_events (fs_log s) @ [e]
         \<and> (\<forall>vw. r = Inr vw \<longrightarrow> IsDeleted vw \<and> current_view pg_events s' v = Some vw
              \<and> (redis_tidy (fs_online s) v \<longrightarrow> redis_view (fs_online s') v = Map.empty)
              \<and> (\<forall>q inp. pg_healthy (fs_log s') \<and> v \<noteq> '''' \<and> wi_FeatureViewID inp = v \<and> pr_Team q = fv_OwnerTeam vw \<and> wi_Rows inp \<noteq> []
                   \<and> int (length (wi_Rows inp)) \<le> MaxBatchSize \<longrightarrow>
                     WriteFeatures P q inp s' = (Inl (Wrapf '''' ErrViewDeleted ('': '' @ v)), s'))))"
proof (cases "pg_events (fs_log s') = pg_events (fs_log s)")
  case False
  note dr = fs.delete_run [OF inv run [unfolded P]]
  with False obtain e view where e: "current_view pg_events s v = Some view" "fv_OwnerTeam view = pr_Team p" "\<not> IsDeleted view"
      "fe_Type e = FeatureEventViewDeleted" "fe_FeatureViewID e = v" "fe_EventTime e = clock (fs_ticks s)"
      "pg_events (fs_log s') = pg_events (fs_log s) @ [pg_row pgtime e]"
    and ok: "\<forall>vw. r = Inr vw \<longrightarrow> fv_DeletedAt vw = fe_EventTime (pg_row pgtime e) \<and> current_view pg_events s' v = Some vw
                 \<and> (redis_tidy (fs_online s) v \<longrightarrow> redis_view (fs_online s') v = Map.empty)"
    by (auto simp: FeaturePorts_def)
  have inv': "fs_inv s'" using dr by blast
  have "IsDeleted vw \<and> current_view pg_events s' v = Some vw \<and> (redis_tidy (fs_online s) v \<longrightarrow> redis_view (fs_online s') v = Map.empty)
      \<and> (\<forall>q inp. pg_healthy (fs_log s') \<and> v \<noteq> '''' \<and> wi_FeatureViewID inp = v \<and> pr_Team q = fv_OwnerTeam vw \<and> wi_Rows inp \<noteq> []
            \<and> int (length (wi_Rows inp)) \<le> MaxBatchSize \<longrightarrow> WriteFeatures P q inp s' = (Inl (Wrapf '''' ErrViewDeleted ('': '' @ v)), s'))"
    if r: "r = Inr vw" for vw
  proof -
    have d: "IsDeleted vw" using ok r e(6) stamp by (simp add: IsDeleted_def pg_row_def)
    have cv: "current_view pg_events s' v = Some vw" using ok r by blast
    have "WriteFeatures P q inp s' = (Inl (Wrapf '''' ErrViewDeleted ('': '' @ v)), s')"
      if "pg_healthy (fs_log s') \<and> v \<noteq> '''' \<and> wi_FeatureViewID inp = v \<and> pr_Team q = fv_OwnerTeam vw \<and> wi_Rows inp \<noteq> []
            \<and> int (length (wi_Rows inp)) \<le> MaxBatchSize" for q :: Principal and inp :: WriteFeaturesInput
      using fs.write_to_deleted [OF inv', of inp vw q pgtime ilike coll clock idgen] that d cv unfolding P by auto
    with d cv ok r show ?thesis by blast
  qed
  with e show ?thesis by (intro disjI2 exI [of _ "pg_row pgtime e"] exI [of _ view]) simp
qed simp

theorem delete_retires_the_view_witness:
  "let (r, s') = DeleteFeatureView demo_fs demo_user ''i'' ''del'' demo_fs1
   in pg_events (fs_log s') \<noteq> pg_events (fs_log demo_fs1)
      \<and> fst (WriteFeatures demo_fs demo_user (demo_write ''w3'' 1 5) s') = Inl (Wrapf '''' ErrViewDeleted '': i'')"
proof -
  obtain r s' where run: "DeleteFeatureView demo_fs demo_user ''i'' ''del'' demo_fs1 = (r, s')" by fastforce
  have len: "length (pg_events (fs_log (snd (DeleteFeatureView demo_fs demo_user ''i'' ''del'' demo_fs1)))) \<noteq> length (pg_events (fs_log demo_fs1))"
    "isl (fst (DeleteFeatureView demo_fs demo_user ''i'' ''del'' demo_fs1)) = False"
    "map_option fv_OwnerTeam (current_view pg_events (snd (DeleteFeatureView demo_fs demo_user ''i'' ''del'' demo_fs1)) ''i'') = Some ''ml''"
    "pg_healthy (fs_log (snd (DeleteFeatureView demo_fs demo_user ''i'' ''del'' demo_fs1)))" by code_simp+
  then have grown: "pg_events (fs_log s') \<noteq> pg_events (fs_log demo_fs1)" using run by (metis snd_conv)
  obtain vw where vw: "r = Inr vw" using len(2) run by (cases r) auto
  have inp: "wi_FeatureViewID (demo_write ''w3'' 1 5) = ''i''" "wi_Rows (demo_write ''w3'' 1 5) \<noteq> []"
    "int (length (wi_Rows (demo_write ''w3'' 1 5))) \<le> MaxBatchSize" by (simp_all add: demo_write_def MaxBatchSize_def)
  have "100 + int (fs_ticks demo_fs1) \<noteq> 0" by simp
  note del = delete_retires_the_view [OF demo_inv1 demo_fs_def this run]
  have h: "pg_healthy (fs_log s')" using len(4) run by simp
  from del grown vw have cv: "current_view pg_events s' ''i'' = Some vw"
    and refuse: "\<forall>q inp. pg_healthy (fs_log s') \<and> ''i'' \<noteq> '''' \<and> wi_FeatureViewID inp = ''i'' \<and> pr_Team q = fv_OwnerTeam vw \<and> wi_Rows inp \<noteq> []
                   \<and> int (length (wi_Rows inp)) \<le> MaxBatchSize \<longrightarrow>
                     WriteFeatures demo_fs q inp s' = (Inl (Wrapf '''' ErrViewDeleted ('': '' @ ''i'')), s')" by auto
  have "pr_Team demo_user = fv_OwnerTeam vw" using len(3) run cv by (simp add: demo_user_def)
  with refuse h inp have "WriteFeatures demo_fs demo_user (demo_write ''w3'' 1 5) s' = (Inl (Wrapf '''' ErrViewDeleted ('': '' @ ''i'')), s')" by blast
  with grown run show ?thesis by simp
qed

section \<open>Where the code falls short of its comments\<close>

text \<open>
  A retried write puts its old values into the online store again. After a newer write of the entity the
  store serves the older version, although the log has the newer one.
\<close>

lemma replayed_write_regresses_online:
  "let s3 = snd (WriteFeatures demo_fs demo_user (demo_write ''w2'' 9 30) demo_fs2);
       s4 = snd (WriteFeatures demo_fs demo_user (demo_write ''w'' 7 10) s3)
   in map_option fc_AsOfVersion (redis_view (fs_online s3) ''i'' ''u'') = Some 3
      \<and> map_option fc_AsOfVersion (redis_view (fs_online s4) ''i'' ''u'') = Some 2
      \<and> length (pg_events (fs_log s4)) = 3"
  by code_simp

text \<open>
  A vector is stamped with the schema version of the view at the time of the read or rebuild, not with the
  one its values were validated against.
\<close>

lemma vectors_carry_the_current_schema:
  "let s3 = snd (DefineFeatureView demo_fs demo_user (demo_define\<lparr>df_IdempotencyKey := ''d2''\<rparr>) demo_fs2);
       inp = \<lparr>hi_FeatureViewID = ''i'', hi_EntityIDs = [''u''], hi_AsOf = 20, hi_FeatureNames = [], hi_Pagination = \<lparr>lo_PageSize = 0, lo_PageToken = ''''\<rparr>\<rparr>
   in map fc_SchemaVersion (pg_Vectors (projr (fst (GetHistoricalFeatures demo_fs demo_user inp demo_fs2)))) = [1]
      \<and> map fc_SchemaVersion (pg_Vectors (projr (fst (GetHistoricalFeatures demo_fs demo_user inp s3)))) = [2]"
  by code_simp

end
