(* ===== verification/RegistryModel.thy ===== *)
theory RegistryModel
  imports FPrelude
begin

text \<open>
  The domain of the model registry (\<^verbatim>\<open>services/registry/internal/domain\<close>): models and their versions, the two
  state machines of a version (its stage in the life cycle and the status of its artifact), the errors,
  the inputs of the commands, the events they emit and the ports as records of operations. Tags and
  metrics are association lists; a float is its 64-bit pattern.
\<close>

section \<open>Stages and statuses\<close>

datatype ModelStage = StageUnspecified | StageDev | StageStaging | StageProduction | StageArchived

fun ModelStage_String :: "ModelStage \<Rightarrow> string" where
  "ModelStage_String StageDev = ''DEV''"
| "ModelStage_String StageStaging = ''STAGING''"
| "ModelStage_String StageProduction = ''PRODUCTION''"
| "ModelStage_String StageArchived = ''ARCHIVED''"
| "ModelStage_String StageUnspecified = ''UNSPECIFIED''"

fun stage_int :: "ModelStage \<Rightarrow> int" where
  "stage_int StageUnspecified = 0"
| "stage_int StageDev = 1"
| "stage_int StageStaging = 2"
| "stage_int StageProduction = 3"
| "stage_int StageArchived = 4"

definition IsValid :: "ModelStage \<Rightarrow> bool" where
  "IsValid s = (stage_int s \<ge> stage_int StageDev \<and> stage_int s \<le> stage_int StageArchived)"

fun CanTransitionTo :: "ModelStage \<Rightarrow> ModelStage \<Rightarrow> bool" where
  "CanTransitionTo StageDev target = (target = StageStaging \<or> target = StageArchived)"
| "CanTransitionTo StageStaging target = (target = StageProduction \<or> target = StageArchived)"
| "CanTransitionTo StageProduction target = (target = StageArchived)"
| "CanTransitionTo _ target = False"

datatype VersionStatus = StatusUnspecified | StatusPendingUpload | StatusReady | StatusFailed

fun VersionStatus_String :: "VersionStatus \<Rightarrow> string" where
  "VersionStatus_String StatusPendingUpload = ''PENDING_UPLOAD''"
| "VersionStatus_String StatusReady = ''READY''"
| "VersionStatus_String StatusFailed = ''FAILED''"
| "VersionStatus_String StatusUnspecified = ''UNSPECIFIED''"

fun status_int :: "VersionStatus \<Rightarrow> int" where
  "status_int StatusUnspecified = 0"
| "status_int StatusPendingUpload = 1"
| "status_int StatusReady = 2"
| "status_int StatusFailed = 3"

text \<open>The conversions \<^verbatim>\<open>ModelStage(n)\<close> and \<^verbatim>\<open>VersionStatus(n)\<close>, for the numbers that name a stage or a status.\<close>

definition stage_of_int :: "int \<Rightarrow> ModelStage" where
  "stage_of_int n = (if n = 1 then StageDev else if n = 2 then StageStaging else if n = 3 then StageProduction
     else if n = 4 then StageArchived else StageUnspecified)"

definition status_of_int :: "int \<Rightarrow> VersionStatus" where
  "status_of_int n = (if n = 1 then StatusPendingUpload else if n = 2 then StatusReady else if n = 3 then StatusFailed
     else StatusUnspecified)"

lemma stage_of_int_inverse [simp]: "stage_of_int (stage_int s) = s"
  by (cases s) (simp_all add: stage_of_int_def)

lemma status_of_int_inverse [simp]: "status_of_int (status_int s) = s"
  by (cases s) (simp_all add: status_of_int_def)

lemma stage_int_inject [simp]: "stage_int s = stage_int t \<longleftrightarrow> s = t"
  using stage_of_int_inverse by metis

lemma IsValid_iff: "IsValid s \<longleftrightarrow> s \<noteq> StageUnspecified"
  by (cases s) (simp_all add: IsValid_def)

section \<open>Models, versions, actors\<close>

record Model =
  md_ID :: string
  md_Name :: string
  md_Description :: string
  md_OwnerID :: string
  md_Team :: string
  md_Framework :: string
  md_TaskType :: string
  md_Tags :: "(string \<times> string) list"
  md_ProductionVersion :: string
  md_LatestVersion :: string
  md_CreatedAt :: time
  md_UpdatedAt :: time
  md_ArchivedAt :: time

definition IsArchived :: "Model \<Rightarrow> bool" where
  "IsArchived m \<longleftrightarrow> md_ArchivedAt m \<noteq> 0"

definition zeroModel :: Model where
  "zeroModel = \<lparr>md_ID = '''', md_Name = '''', md_Description = '''', md_OwnerID = '''', md_Team = '''', md_Framework = '''',
     md_TaskType = '''', md_Tags = [], md_ProductionVersion = '''', md_LatestVersion = '''', md_CreatedAt = 0, md_UpdatedAt = 0,
     md_ArchivedAt = 0\<rparr>"

record ModelVersion =
  mv_ID :: string
  mv_ModelID :: string
  mv_Version :: string
  mv_Description :: string
  mv_Metrics :: "(string \<times> 64 word) list"
  mv_ArtifactPath :: string
  mv_ArtifactDigest :: string
  mv_SizeBytes :: "64 word"
  mv_Stage :: ModelStage
  mv_Status :: VersionStatus
  mv_CreatedBy :: string
  mv_CreatedAt :: time

definition zeroVersion :: ModelVersion where
  "zeroVersion = \<lparr>mv_ID = '''', mv_ModelID = '''', mv_Version = '''', mv_Description = '''', mv_Metrics = [], mv_ArtifactPath = '''',
     mv_ArtifactDigest = '''', mv_SizeBytes = 0, mv_Stage = StageUnspecified, mv_Status = StatusUnspecified, mv_CreatedBy = '''',
     mv_CreatedAt = 0\<rparr>"

definition IsServable :: "ModelVersion \<Rightarrow> bool" where
  "IsServable v \<longleftrightarrow> mv_Stage v = StageProduction \<and> mv_Status v = StatusReady"

record Actor =
  ac_UserID :: string
  ac_Team :: string

section \<open>Errors\<close>

definition ErrValidation :: goerr where
  "ErrValidation = New ''registry: validation failed''"

definition ErrModelNotFound :: goerr where
  "ErrModelNotFound = New ''registry: model not found''"

definition ErrVersionNotFound :: goerr where
  "ErrVersionNotFound = New ''registry: version not found''"

definition ErrModelNameTaken :: goerr where
  "ErrModelNameTaken = New ''registry: model name already exists in team''"

definition ErrVersionExists :: goerr where
  "ErrVersionExists = New ''registry: version already exists for model''"

definition ErrModelArchived :: goerr where
  "ErrModelArchived = New ''registry: model is archived''"

definition ErrIllegalTransition :: goerr where
  "ErrIllegalTransition = New ''registry: illegal stage transition''"

definition ErrVersionNotReady :: goerr where
  "ErrVersionNotReady = New ''registry: version artifact is not READY''"

definition ErrInvalidStatusTransition :: goerr where
  "ErrInvalidStatusTransition = New ''registry: invalid version status transition''"

definition ErrRecordNotFound :: goerr where
  "ErrRecordNotFound = New ''registry/store: record not found''"

definition ErrWriteConflict :: goerr where
  "ErrWriteConflict = New ''registry/store: unique constraint violation''"

lemmas reg_errs = ErrValidation_def ErrModelNotFound_def ErrVersionNotFound_def ErrModelNameTaken_def ErrVersionExists_def
  ErrModelArchived_def ErrIllegalTransition_def ErrVersionNotReady_def ErrInvalidStatusTransition_def ErrRecordNotFound_def
  ErrWriteConflict_def

lemma reg_neq [simp]:
  "Wrapf a e b \<noteq> ErrValidation" "Dyn t \<noteq> ErrValidation"
  "Wrapf a e b \<noteq> ErrModelNotFound" "Dyn t \<noteq> ErrModelNotFound"
  "Wrapf a e b \<noteq> ErrVersionNotFound" "Dyn t \<noteq> ErrVersionNotFound"
  "Wrapf a e b \<noteq> ErrModelNameTaken" "Dyn t \<noteq> ErrModelNameTaken"
  "Wrapf a e b \<noteq> ErrVersionExists" "Dyn t \<noteq> ErrVersionExists"
  "Wrapf a e b \<noteq> ErrModelArchived" "Dyn t \<noteq> ErrModelArchived"
  "Wrapf a e b \<noteq> ErrIllegalTransition" "Dyn t \<noteq> ErrIllegalTransition"
  "Wrapf a e b \<noteq> ErrVersionNotReady" "Dyn t \<noteq> ErrVersionNotReady"
  "Wrapf a e b \<noteq> ErrInvalidStatusTransition" "Dyn t \<noteq> ErrInvalidStatusTransition"
  "Wrapf a e b \<noteq> ErrRecordNotFound" "Dyn t \<noteq> ErrRecordNotFound"
  "Wrapf a e b \<noteq> ErrWriteConflict" "Dyn t \<noteq> ErrWriteConflict"
  by (simp_all add: reg_errs)

section \<open>Inputs, results, events\<close>

definition MaxPageSize :: int where
  "MaxPageSize = 100"

definition DefaultPageSize :: int where
  "DefaultPageSize = 20"

record RegisterModelInput =
  rm_Name :: string
  rm_Description :: string
  rm_Framework :: string
  rm_TaskType :: string
  rm_Tags :: "(string \<times> string) list"
  rm_IdempotencyKey :: string

record CreateVersionInput =
  cv_ModelID :: string
  cv_Version :: string
  cv_Description :: string
  cv_Metrics :: "(string \<times> 64 word) list"
  cv_IdempotencyKey :: string

record MarkVersionReadyInput =
  mk_VersionID :: string
  mk_Success :: bool
  mk_ArtifactPath :: string
  mk_ArtifactDigest :: string
  mk_SizeBytes :: "64 word"
  mk_IdempotencyKey :: string

record PromoteVersionInput =
  pv_VersionID :: string
  pv_TargetStage :: ModelStage
  pv_IdempotencyKey :: string

record UpdateModelInput =
  um_ModelID :: string
  um_Description :: string
  um_UpdateDescription :: bool
  um_Tags :: "(string \<times> string) list"
  um_ReplaceTags :: bool
  um_IdempotencyKey :: string

record PromoteResult =
  pr_Promoted :: ModelVersion
  pr_Demoted :: ModelVersion

record ListOptions =
  lo_PageSize :: int
  lo_PageToken :: string

record ListModelsFilter =
  lf_TaskType :: string
  lf_Framework :: string
  lf_IncludeArchived :: bool

record ListModelsInput =
  li_Filter :: ListModelsFilter
  li_PageSize :: int
  li_PageToken :: string

record 'a Page =
  pg_Items :: "'a list"
  pg_NextToken :: string
  pg_Total :: int

datatype Command = CommandMarkVersionReady | CommandPromoteVersion | CommandArchiveModel

fun Command_String :: "Command \<Rightarrow> string" where
  "Command_String CommandMarkVersionReady = ''mark_version_ready''"
| "Command_String CommandPromoteVersion = ''promote_version''"
| "Command_String CommandArchiveModel = ''archive_model''"

datatype ProjectionEventKind = EventModelRegistered | EventVersionCreated | EventVersionReady | EventModelPromoted | EventModelArchived

record ProjectionEvent =
  ev_Kind :: ProjectionEventKind
  ev_Model :: Model
  ev_Version :: ModelVersion
  ev_DemotedVersion :: ModelVersion
  ev_FromStage :: ModelStage
  ev_ToStage :: ModelStage
  ev_Actor :: Actor
  ev_OccurredAt :: time

section \<open>Ports\<close>

record 'w WriteStoreOps =
  ws_CreateModel :: "Model \<Rightarrow> string \<Rightarrow> 'w \<Rightarrow> (goerr + Model) \<times> 'w"
  ws_LookupModelByIdempotencyKey :: "string \<Rightarrow> string \<Rightarrow> 'w \<Rightarrow> (goerr + Model) \<times> 'w"
  ws_GetModel :: "string \<Rightarrow> 'w \<Rightarrow> (goerr + Model) \<times> 'w"
  ws_UpdateModel :: "Model \<Rightarrow> 'w \<Rightarrow> (goerr + Model) \<times> 'w"
  ws_CreateVersion :: "ModelVersion \<Rightarrow> string \<Rightarrow> 'w \<Rightarrow> (goerr + ModelVersion) \<times> 'w"
  ws_LookupVersionByIdempotencyKey :: "string \<Rightarrow> string \<Rightarrow> 'w \<Rightarrow> (goerr + ModelVersion) \<times> 'w"
  ws_GetVersion :: "string \<Rightarrow> 'w \<Rightarrow> (goerr + ModelVersion) \<times> 'w"
  ws_CountVersions :: "string \<Rightarrow> 'w \<Rightarrow> (goerr + int) \<times> 'w"
  ws_UpdateVersionStatus :: "ModelVersion \<Rightarrow> 'w \<Rightarrow> (goerr + ModelVersion) \<times> 'w"
  ws_PromoteVersionTx :: "ModelVersion \<Rightarrow> ModelVersion \<Rightarrow> 'w \<Rightarrow> (goerr + ModelVersion \<times> ModelVersion) \<times> 'w"
  ws_FindProductionVersion :: "string \<Rightarrow> 'w \<Rightarrow> (goerr + ModelVersion) \<times> 'w"
  ws_ArchiveModelTx :: "Model \<Rightarrow> 'w \<Rightarrow> (goerr + Model) \<times> 'w"
  ws_LookupCommandIdempotency :: "string \<Rightarrow> Command \<Rightarrow> string \<Rightarrow> 'w \<Rightarrow> (goerr + string) \<times> 'w"
  ws_RecordCommandIdempotency :: "string \<Rightarrow> Command \<Rightarrow> string \<Rightarrow> string \<Rightarrow> 'w \<Rightarrow> goerr option \<times> 'w"

record 'r ReadStoreOps =
  rd_GetModelByID :: "string \<Rightarrow> string \<Rightarrow> 'r \<Rightarrow> (goerr + Model) \<times> 'r"
  rd_GetModelByName :: "string \<Rightarrow> string \<Rightarrow> 'r \<Rightarrow> (goerr + Model) \<times> 'r"
  rd_ListModels :: "string \<Rightarrow> ListModelsFilter \<Rightarrow> ListOptions \<Rightarrow> 'r \<Rightarrow> (goerr + Model list \<times> string) \<times> 'r"
  rd_CountModels :: "string \<Rightarrow> ListModelsFilter \<Rightarrow> 'r \<Rightarrow> (goerr + int) \<times> 'r"
  rd_GetVersionByID :: "string \<Rightarrow> 'r \<Rightarrow> (goerr + ModelVersion) \<times> 'r"
  rd_GetVersionByLabel :: "string \<Rightarrow> string \<Rightarrow> 'r \<Rightarrow> (goerr + ModelVersion) \<times> 'r"
  rd_ListVersions :: "string \<Rightarrow> ModelStage \<Rightarrow> ListOptions \<Rightarrow> 'r \<Rightarrow> (goerr + ModelVersion list \<times> string) \<times> 'r"

end
