(* ===== verification/RegistryStore.thy ===== *)
theory RegistryStore
  imports RegistryModel
begin

text \<open>
  The write store of the registry (the port \<^verbatim>\<open>WriteStore\<close> of \<^verbatim>\<open>domain/ports.go\<close>) as a locale over the abstract
  contents of a store: the models and the versions by id, the keys of the creating commands, and the
  ledger of the keys of the other commands.
\<close>

section \<open>Contents of a store\<close>

record regView =
  v_models :: "string \<rightharpoonup> Model"
  v_versions :: "string \<rightharpoonup> ModelVersion"
  v_mkeys :: "string \<times> string \<rightharpoonup> string"
  v_vkeys :: "string \<times> string \<rightharpoonup> string"
  v_ledger :: "string \<times> Command \<times> string \<rightharpoonup> string"

definition name_taken :: "regView \<Rightarrow> string \<Rightarrow> string \<Rightarrow> bool" where
  "name_taken A team name \<longleftrightarrow> (\<exists>i m. v_models A i = Some m \<and> md_Team m = team \<and> md_Name m = name)"

definition label_taken :: "regView \<Rightarrow> string \<Rightarrow> string \<Rightarrow> bool" where
  "label_taken A mid lbl \<longleftrightarrow> (\<exists>i v. v_versions A i = Some v \<and> mv_ModelID v = mid \<and> mv_Version v = lbl)"

definition versions_of :: "regView \<Rightarrow> string \<Rightarrow> string set" where
  "versions_of A mid = {i. \<exists>v. v_versions A i = Some v \<and> mv_ModelID v = mid}"

definition in_production :: "regView \<Rightarrow> string \<Rightarrow> string \<Rightarrow> bool" where
  "in_production A mid i \<longleftrightarrow> (\<exists>v. v_versions A i = Some v \<and> mv_ModelID v = mid \<and> mv_Stage v = StageProduction)"

text \<open>Well-formed contents: what the schema's keys, indexes, checks and references guarantee.\<close>

definition single_production :: "regView \<Rightarrow> bool" where
  "single_production A \<longleftrightarrow> (\<forall>mid i j. in_production A mid i \<and> in_production A mid j \<longrightarrow> i = j)"

definition version_ok :: "regView \<Rightarrow> string \<Rightarrow> ModelVersion \<Rightarrow> bool" where
  "version_ok A i v \<longleftrightarrow> mv_ID v = i \<and> v_models A (mv_ModelID v) \<noteq> None \<and> mv_Stage v \<noteq> StageUnspecified
     \<and> mv_Status v \<noteq> StatusUnspecified"

definition unique_labels :: "regView \<Rightarrow> bool" where
  "unique_labels A \<longleftrightarrow> (\<forall>i j u v. v_versions A i = Some u \<and> v_versions A j = Some v \<and> mv_ModelID u = mv_ModelID v
     \<and> mv_Version u = mv_Version v \<longrightarrow> i = j)"

definition unique_names :: "regView \<Rightarrow> bool" where
  "unique_names A \<longleftrightarrow> (\<forall>i j m n. v_models A i = Some m \<and> v_models A j = Some n \<and> md_Team m = md_Team n
     \<and> md_Name m = md_Name n \<longrightarrow> i = j)"

definition view_ok :: "regView \<Rightarrow> bool" where
  "view_ok A \<longleftrightarrow> (\<forall>i m. v_models A i = Some m \<longrightarrow> md_ID m = i) \<and> (\<forall>i v. v_versions A i = Some v \<longrightarrow> version_ok A i v)
     \<and> finite (dom (v_versions A)) \<and> unique_names A \<and> unique_labels A \<and> single_production A"

definition put_version :: "ModelVersion \<Rightarrow> regView \<Rightarrow> regView" where
  "put_version v A = A\<lparr>v_versions := (v_versions A)(mv_ID v \<mapsto> v)\<rparr>"

definition set_stage :: "string \<Rightarrow> ModelStage \<Rightarrow> regView \<Rightarrow> regView" where
  "set_stage i st A = (case v_versions A i of None \<Rightarrow> A | Some v \<Rightarrow> A\<lparr>v_versions := (v_versions A)(i \<mapsto> v\<lparr>mv_Stage := st\<rparr>)\<rparr>)"

definition set_keyed :: "'k \<Rightarrow> string \<Rightarrow> string \<Rightarrow> ('k \<times> string \<rightharpoonup> string) \<Rightarrow> ('k \<times> string \<rightharpoonup> string)" where
  "set_keyed a key i m = (if key = '''' then m else m((a, key) \<mapsto> i))"

definition archived_view :: "string \<Rightarrow> time \<Rightarrow> time \<Rightarrow> regView \<Rightarrow> regView" where
  "archived_view mid at upd A = A\<lparr>v_models := (\<lambda>i. map_option (\<lambda>m. if i = mid
         then m\<lparr>md_ArchivedAt := at, md_UpdatedAt := upd, md_ProductionVersion := ''''\<rparr> else m) (v_models A i)),
     v_versions := (\<lambda>i. map_option (\<lambda>v. if mv_ModelID v = mid then v\<lparr>mv_Stage := StageArchived\<rparr> else v) (v_versions A i))\<rparr>"

definition can_create_model :: "regView \<Rightarrow> Model \<Rightarrow> string \<Rightarrow> bool" where
  "can_create_model A m key \<longleftrightarrow> v_models A (md_ID m) = None \<and> \<not> name_taken A (md_Team m) (md_Name m)
     \<and> (key \<noteq> '''' \<longrightarrow> v_mkeys A (md_Team m, key) = None)"

definition can_create_version :: "regView \<Rightarrow> ModelVersion \<Rightarrow> string \<Rightarrow> bool" where
  "can_create_version A v key \<longleftrightarrow> v_versions A (mv_ID v) = None \<and> \<not> label_taken A (mv_ModelID v) (mv_Version v)
     \<and> (key \<noteq> '''' \<longrightarrow> v_vkeys A (mv_ModelID v, key) = None)"

text \<open>
  Contents whose entries come from well-formed ones, with the keys kept and no version newly in production, are well formed.
\<close>

lemma view_ok_from:
  assumes ok: "view_ok A"
    and models: "\<And>i m. v_models B i = Some m \<Longrightarrow> \<exists>n. v_models A i = Some n \<and> md_ID m = md_ID n \<and> md_Team m = md_Team n \<and> md_Name m = md_Name n"
    and kept: "\<And>i. v_models A i \<noteq> None \<Longrightarrow> v_models B i \<noteq> None"
    and versions: "\<And>i v. v_versions B i = Some v \<Longrightarrow> \<exists>u. v_versions A i = Some u \<and> mv_ID v = mv_ID u \<and> mv_ModelID v = mv_ModelID u
      \<and> mv_Version v = mv_Version u \<and> (mv_Stage v = StageProduction \<longrightarrow> mv_Stage u = StageProduction)
      \<and> mv_Stage v \<noteq> StageUnspecified \<and> mv_Status v \<noteq> StatusUnspecified"
  shows "view_ok B"
proof -
  note w = ok [unfolded view_ok_def]
  have ids: "md_ID m = i" if "v_models B i = Some m" for i m using models [OF that] w by auto
  have vok: "version_ok B i v" if v: "v_versions B i = Some v" for i v
  proof -
    from versions [OF v] obtain u where u: "v_versions A i = Some u" "mv_ID v = mv_ID u" "mv_ModelID v = mv_ModelID u"
      "mv_Stage v \<noteq> StageUnspecified" "mv_Status v \<noteq> StatusUnspecified" by blast
    from w u(1) have "version_ok A i u" by blast
    then show ?thesis using u kept by (simp add: version_ok_def)
  qed
  have un: "unique_names B" unfolding unique_names_def
  proof (intro allI impI, elim conjE)
    fix i j m n
    assume a: "v_models B i = Some m" "v_models B j = Some n" and b: "md_Team m = md_Team n" "md_Name m = md_Name n"
    from models [OF a(1)] models [OF a(2)] b obtain m0 n0 where "v_models A i = Some m0" "v_models A j = Some n0" "md_Team m0 = md_Team n0" "md_Name m0 = md_Name n0"
      by auto
    with w show "i = j" unfolding unique_names_def by blast
  qed
  have ul: "unique_labels B" unfolding unique_labels_def
  proof (intro allI impI, elim conjE)
    fix i j u v
    assume a: "v_versions B i = Some u" "v_versions B j = Some v" and b: "mv_ModelID u = mv_ModelID v" "mv_Version u = mv_Version v"
    from versions [OF a(1)] versions [OF a(2)] b obtain x y where "v_versions A i = Some x" "v_versions A j = Some y" "mv_ModelID x = mv_ModelID y" "mv_Version x = mv_Version y"
      by auto
    with w show "i = j" unfolding unique_labels_def by blast
  qed
  have "in_production A mid i" if "in_production B mid i" for mid i
  proof -
    from that obtain v where v: "v_versions B i = Some v" "mv_ModelID v = mid" "mv_Stage v = StageProduction" by (auto simp: in_production_def)
    from versions [OF v(1)] v show ?thesis by (auto simp: in_production_def)
  qed
  then have sp: "single_production B" using w unfolding single_production_def by blast
  have "dom (v_versions B) \<subseteq> dom (v_versions A)" using versions by blast
  then have "finite (dom (v_versions B))" using w finite_subset by blast
  then show ?thesis unfolding view_ok_def using ids vok un ul sp by blast
qed

lemma archived_view_ok: "view_ok A \<Longrightarrow> view_ok (archived_view mid t u A)"
proof (rule view_ok_from)
  fix i v
  assume ok: "view_ok A" and v: "v_versions (archived_view mid t u A) i = Some v"
  then obtain x where x: "v_versions A i = Some x" "v = (if mv_ModelID x = mid then x\<lparr>mv_Stage := StageArchived\<rparr> else x)"
    by (auto simp: archived_view_def)
  have "version_ok A i x" using ok x(1) unfolding view_ok_def by blast
  then show "\<exists>u. v_versions A i = Some u \<and> mv_ID v = mv_ID u \<and> mv_ModelID v = mv_ModelID u \<and> mv_Version v = mv_Version u
      \<and> (mv_Stage v = StageProduction \<longrightarrow> mv_Stage u = StageProduction) \<and> mv_Stage v \<noteq> StageUnspecified \<and> mv_Status v \<noteq> StatusUnspecified"
    using x by (simp add: version_ok_def)
qed (auto simp: archived_view_def)

section \<open>The port\<close>

text \<open>The answer of a read for an entry that is \<open>x\<close>: the entry, or not found; any other error says nothing.\<close>

definition reads :: "'a option \<Rightarrow> goerr + 'a \<Rightarrow> bool" where
  "reads x r \<longleftrightarrow> (case r of Inr y \<Rightarrow> x = Some y | Inl e \<Rightarrow> errors_Is e ErrRecordNotFound \<longrightarrow> x = None)"

definition answer :: "'a option \<Rightarrow> goerr + 'a" where
  "answer x = (case x of Some y \<Rightarrow> Inr y | None \<Rightarrow> Inl ErrRecordNotFound)"

text \<open>
  The contract. \<open>view\<close> is the contents as they read back, \<open>sm\<close> and \<open>sv\<close> a model and a version as the store
  keeps them. An operation that fails changes nothing. While the store is healthy an operation fails only
  for the reason its error names.
\<close>

locale write_store =
  fixes W :: "'w WriteStoreOps" and view :: "'w \<Rightarrow> regView" and inv :: "'w \<Rightarrow> bool" and healthy :: "'w \<Rightarrow> bool"
    and sm :: "Model \<Rightarrow> Model" and sv :: "ModelVersion \<Rightarrow> ModelVersion" and st :: "time \<Rightarrow> time"
  assumes view_wf: "inv w \<Longrightarrow> view_ok (view w)"
    and sm_keeps: "sm m = m\<lparr>md_CreatedAt := st (md_CreatedAt m), md_UpdatedAt := st (md_UpdatedAt m),
      md_ArchivedAt := (if md_ArchivedAt m = 0 then 0 else st (md_ArchivedAt m))\<rparr>"
    and sv_keeps: "mv_ID (sv v) = mv_ID v \<and> mv_ModelID (sv v) = mv_ModelID v \<and> mv_Version (sv v) = mv_Version v
      \<and> mv_Stage (sv v) = mv_Stage v \<and> mv_Status (sv v) = mv_Status v"
    and keys_ok: "inv w \<Longrightarrow> v_mkeys (view w) (t, k) = Some i \<Longrightarrow> \<exists>m. v_models (view w) i = Some m \<and> md_Team m = t"
    and vkeys_ok: "inv w \<Longrightarrow> v_vkeys (view w) (d, k) = Some i \<Longrightarrow> \<exists>v. v_versions (view w) i = Some v \<and> mv_ModelID v = d"
    and get_model: "inv w \<Longrightarrow> ws_GetModel W i w = (r, w') \<Longrightarrow> inv w' \<and> view w' = view w \<and> reads (v_models (view w) i) r
      \<and> (healthy w \<longrightarrow> healthy w' \<and> r = answer (v_models (view w) i))"
    and get_version: "inv w \<Longrightarrow> ws_GetVersion W i w = (rv, w') \<Longrightarrow> inv w' \<and> view w' = view w \<and> reads (v_versions (view w) i) rv
      \<and> (healthy w \<longrightarrow> healthy w' \<and> rv = answer (v_versions (view w) i))"
    and lookup_model_key: "inv w \<Longrightarrow> ws_LookupModelByIdempotencyKey W t k w = (r, w') \<Longrightarrow> inv w' \<and> view w' = view w
      \<and> (let x = (if k = '''' then None else Option.bind (v_mkeys (view w) (t, k)) (v_models (view w))) in
         reads x r \<and> (healthy w \<longrightarrow> healthy w' \<and> r = answer x))"
    and lookup_version_key: "inv w \<Longrightarrow> ws_LookupVersionByIdempotencyKey W d k w = (rv, w') \<Longrightarrow> inv w' \<and> view w' = view w
      \<and> (let x = (if k = '''' then None else Option.bind (v_vkeys (view w) (d, k)) (v_versions (view w))) in
         reads x rv \<and> (healthy w \<longrightarrow> healthy w' \<and> rv = answer x))"
    and count_versions: "inv w \<Longrightarrow> ws_CountVersions W d w = (rn, w') \<Longrightarrow> inv w' \<and> view w' = view w
      \<and> (\<forall>n. rn = Inr n \<longrightarrow> n = int (card (versions_of (view w) d))) \<and> (healthy w \<longrightarrow> healthy w' \<and> isl rn = False)"
    and find_production: "inv w \<Longrightarrow> ws_FindProductionVersion W d w = (rv, w') \<Longrightarrow> inv w' \<and> view w' = view w
      \<and> (case rv of Inr v \<Rightarrow> v_versions (view w) (mv_ID v) = Some v \<and> in_production (view w) d (mv_ID v)
         | Inl e \<Rightarrow> errors_Is e ErrRecordNotFound \<longrightarrow> (\<forall>i. \<not> in_production (view w) d i))
      \<and> (healthy w \<longrightarrow> healthy w' \<and> (\<forall>e. rv = Inl e \<longrightarrow> e = ErrRecordNotFound))"
    and create_model: "inv w \<Longrightarrow> ws_CreateModel W m k w = (r, w') \<Longrightarrow> inv w' \<and> (case r of
           Inl e \<Rightarrow> view w' = view w \<and> (errors_Is e ErrWriteConflict \<longrightarrow> \<not> can_create_model (view w) m k)
         | Inr m' \<Rightarrow> m' = m \<and> can_create_model (view w) m k \<and> view w' = (view w)\<lparr>v_models := (v_models (view w))(md_ID m \<mapsto> sm m),
             v_mkeys := set_keyed (md_Team m) k (md_ID m) (v_mkeys (view w))\<rparr>)
      \<and> (healthy w \<longrightarrow> healthy w' \<and> (can_create_model (view w) m k \<longrightarrow> r = Inr m)
           \<and> (\<not> can_create_model (view w) m k \<longrightarrow> r = Inl ErrWriteConflict))"
    and update_model: "inv w \<Longrightarrow> ws_UpdateModel W m w = (r, w') \<Longrightarrow> inv w' \<and> (case r of
           Inl e \<Rightarrow> view w' = view w
         | Inr m' \<Rightarrow> m' = m \<and> (\<exists>old. v_models (view w) (md_ID m) = Some old \<and> view w' = (view w)\<lparr>v_models := (v_models (view w))(md_ID m \<mapsto>
             (sm m)\<lparr>md_Name := md_Name old, md_Team := md_Team old, md_OwnerID := md_OwnerID old, md_CreatedAt := md_CreatedAt old\<rparr>)\<rparr>))
      \<and> (healthy w \<longrightarrow> healthy w' \<and> (v_models (view w) (md_ID m) \<noteq> None \<longrightarrow> r = Inr m))"
    and create_version: "inv w \<Longrightarrow> ws_CreateVersion W v k w = (rv, w') \<Longrightarrow> inv w' \<and> (case rv of
           Inl e \<Rightarrow> view w' = view w \<and> (errors_Is e ErrWriteConflict \<longrightarrow> mv_Stage v \<noteq> StageProduction \<longrightarrow> \<not> can_create_version (view w) v k)
         | Inr v' \<Rightarrow> v' = v \<and> can_create_version (view w) v k \<and> view w' = (view w)\<lparr>v_versions := (v_versions (view w))(mv_ID v \<mapsto> sv v),
             v_vkeys := set_keyed (mv_ModelID v) k (mv_ID v) (v_vkeys (view w))\<rparr>)
      \<and> (healthy w \<longrightarrow> healthy w' \<and> (list_all (finite_float \<circ> snd) (mv_Metrics v) \<and> mv_Stage v = StageDev \<and> mv_Status v = StatusPendingUpload
             \<and> v_models (view w) (mv_ModelID v) \<noteq> None \<longrightarrow>
               (if can_create_version (view w) v k then rv = Inr v else rv = Inl ErrWriteConflict)))"
    and update_status: "inv w \<Longrightarrow> ws_UpdateVersionStatus W v w = (rv, w') \<Longrightarrow> inv w' \<and> (case rv of
           Inl e \<Rightarrow> view w' = view w
         | Inr v' \<Rightarrow> v' = v \<and> (\<exists>old. v_versions (view w) (mv_ID v) = Some old \<and> view w' = put_version (old\<lparr>mv_Status := mv_Status v,
             mv_Stage := mv_Stage v, mv_ArtifactPath := mv_ArtifactPath v, mv_ArtifactDigest := mv_ArtifactDigest v,
             mv_SizeBytes := mv_SizeBytes v\<rparr>) (view w)))
      \<and> (healthy w \<longrightarrow> healthy w' \<and> (\<forall>old. v_versions (view w) (mv_ID v) = Some old \<and> mv_Stage v = mv_Stage old
             \<and> mv_Status v \<noteq> StatusUnspecified \<longrightarrow> rv = Inr v))"
    and promote_tx: "inv w \<Longrightarrow> ws_PromoteVersionTx W p q w = (rp, w') \<Longrightarrow> inv w' \<and> (case rp of
           Inl e \<Rightarrow> view w' = view w
         | Inr (p', q') \<Rightarrow> p' = p \<and> q' = q \<and> v_versions (view w) (mv_ID p) \<noteq> None
             \<and> view w' = set_stage (mv_ID p) (mv_Stage p) (if mv_ID q \<noteq> '''' then set_stage (mv_ID q) (mv_Stage q) (view w) else view w))
      \<and> (healthy w \<longrightarrow> healthy w' \<and> (v_versions (view w) (mv_ID p) \<noteq> None \<and> (mv_ID q \<noteq> '''' \<longrightarrow> v_versions (view w) (mv_ID q) \<noteq> None)
           \<and> view_ok (if mv_ID q \<noteq> '''' then set_stage (mv_ID q) (mv_Stage q) (view w) else view w)
           \<and> view_ok (set_stage (mv_ID p) (mv_Stage p) (if mv_ID q \<noteq> '''' then set_stage (mv_ID q) (mv_Stage q) (view w) else view w))
           \<longrightarrow> rp = Inr (p, q)))"
    and archive_tx: "inv w \<Longrightarrow> ws_ArchiveModelTx W m w = (r, w') \<Longrightarrow> inv w' \<and> (case r of
           Inl e \<Rightarrow> view w' = view w
         | Inr m' \<Rightarrow> m' = m \<and> v_models (view w) (md_ID m) \<noteq> None
             \<and> view w' = archived_view (md_ID m) (st (md_ArchivedAt m)) (st (md_UpdatedAt m)) (view w))
      \<and> (healthy w \<longrightarrow> healthy w' \<and> (v_models (view w) (md_ID m) \<noteq> None \<longrightarrow> r = Inr m))"
    and lookup_command: "inv w \<Longrightarrow> ws_LookupCommandIdempotency W t c k w = (rs, w') \<Longrightarrow> inv w' \<and> view w' = view w
      \<and> (let x = (if k = '''' then None else v_ledger (view w) (t, c, k)) in
         reads x rs \<and> (healthy w \<longrightarrow> healthy w' \<and> rs = answer x))"
    and record_command: "inv w \<Longrightarrow> ws_RecordCommandIdempotency W t c k i w = (oe, w') \<Longrightarrow> inv w'
      \<and> (if k \<noteq> '''' \<and> v_ledger (view w) (t, c, k) = None
         then (case oe of None \<Rightarrow> view w' = (view w)\<lparr>v_ledger := (v_ledger (view w))((t, c, k) \<mapsto> i)\<rparr>
               | Some e \<Rightarrow> view w' = view w)
         else view w' = view w \<and> (k \<noteq> '''' \<and> oe = None \<longrightarrow> v_ledger (view w) (t, c, k) = Some i))
      \<and> (healthy w \<longrightarrow> healthy w' \<and> (k = '''' \<or> v_ledger (view w) (t, c, k) \<in> {None, Some i} \<longrightarrow> oe = None))"

end
