(* ===== verification/RegistryLife.thy ===== *)
theory RegistryLife
  imports RegistryStore
begin

text \<open>
  The life cycle of models and versions as a step relation on the contents of a store: what the registry promises,
  before any code. The invariants are proved by rule induction; the service refines the relation
  (\<open>RegistryService\<close>).
\<close>

section \<open>The life cycle\<close>

text \<open>
  What the registry promises about its contents, step by step and without the store: a model is registered
  active under a free name; the description and the tags of an active model are edited; a version is cut for
  an active model, in development with its upload pending; a pending upload is confirmed or fails, once; a version
  moves along the stage machine, into a serving stage only when it is ready, and the version it replaces in production
  is archived first; an active model is archived with all its versions; a key is recorded, once.
\<close>

inductive reg_step :: "regView \<Rightarrow> regView \<Rightarrow> bool" where
  registered: "can_create_model A m k \<Longrightarrow> \<not> IsArchived m \<Longrightarrow> reg_step A (A\<lparr>v_models := (v_models A)(md_ID m \<mapsto> m),
      v_mkeys := set_keyed (md_Team m) k (md_ID m) (v_mkeys A)\<rparr>)"
| edited: "v_models A i = Some m \<Longrightarrow> \<not> IsArchived m \<Longrightarrow>
      reg_step A (A\<lparr>v_models := (v_models A)(i \<mapsto> m\<lparr>md_Description := d, md_Tags := ts, md_UpdatedAt := t\<rparr>)\<rparr>)"
| cut: "v_models A (mv_ModelID v) = Some m \<Longrightarrow> \<not> IsArchived m \<Longrightarrow> can_create_version A v k \<Longrightarrow> mv_Stage v = StageDev \<Longrightarrow>
      mv_Status v = StatusPendingUpload \<Longrightarrow> reg_step A (A\<lparr>v_versions := (v_versions A)(mv_ID v \<mapsto> v),
      v_vkeys := set_keyed (mv_ModelID v) k (mv_ID v) (v_vkeys A)\<rparr>)"
| confirmed: "v_versions A i = Some v \<Longrightarrow> mv_Status v = StatusPendingUpload \<Longrightarrow>
      reg_step A (A\<lparr>v_versions := (v_versions A)(i \<mapsto> v\<lparr>mv_Status := StatusReady, mv_ArtifactPath := p, mv_ArtifactDigest := g, mv_SizeBytes := n\<rparr>)\<rparr>)"
| failed: "v_versions A i = Some v \<Longrightarrow> mv_Status v = StatusPendingUpload \<Longrightarrow>
      reg_step A (A\<lparr>v_versions := (v_versions A)(i \<mapsto> v\<lparr>mv_Status := StatusFailed\<rparr>)\<rparr>)"
| moved: "v_versions A i = Some v \<Longrightarrow> CanTransitionTo (mv_Stage v) t \<Longrightarrow> (t = StageStaging \<or> t = StageProduction \<Longrightarrow> mv_Status v = StatusReady) \<Longrightarrow>
      B = A \<or> (\<exists>d. t = StageProduction \<and> in_production A (mv_ModelID v) d \<and> B = set_stage d StageArchived A) \<Longrightarrow>
      (t = StageProduction \<Longrightarrow> (\<forall>j. \<not> in_production B (mv_ModelID v) j)) \<Longrightarrow> reg_step A (set_stage i t B)"
| archived: "v_models A i = Some m \<Longrightarrow> \<not> IsArchived m \<Longrightarrow> reg_step A (archived_view i t u A)"
| recorded: "v_ledger A a = None \<Longrightarrow> reg_step A (A\<lparr>v_ledger := (v_ledger A)(a \<mapsto> i)\<rparr>)"


lemmas [intro] = reg_step.intros

inductive_cases reg_stepE: "reg_step A B"

section \<open>Invariant\<close>

text \<open>A serving version is ready, and nothing under an archived model is in any stage but archived.\<close>

definition life_ok :: "regView \<Rightarrow> bool" where
  "life_ok A \<longleftrightarrow> view_ok A
     \<and> (\<forall>i v. v_versions A i = Some v \<and> mv_Stage v \<in> {StageStaging, StageProduction} \<longrightarrow> mv_Status v = StatusReady)
     \<and> (\<forall>i v m. v_versions A i = Some v \<and> v_models A (mv_ModelID v) = Some m \<and> IsArchived m \<longrightarrow> mv_Stage v = StageArchived)"

lemma view_okI:
  "(\<And>i m. v_models A i = Some m \<Longrightarrow> md_ID m = i) \<Longrightarrow> (\<And>i v. v_versions A i = Some v \<Longrightarrow> version_ok A i v) \<Longrightarrow> finite (dom (v_versions A)) \<Longrightarrow>
   unique_names A \<Longrightarrow> unique_labels A \<Longrightarrow> single_production A \<Longrightarrow> view_ok A"
  by (simp add: view_ok_def)

lemma view_okD:
  assumes "view_ok A"
  shows "finite (dom (v_versions A))" "unique_names A" "unique_labels A" "single_production A" and "v_models A i = Some m \<Longrightarrow> md_ID m = i" "v_versions A i = Some v \<Longrightarrow> mv_ID v = i"
    "v_versions A i = Some v \<Longrightarrow> v_models A (mv_ModelID v) \<noteq> None" "v_versions A i = Some v \<Longrightarrow> mv_Stage v \<noteq> StageUnspecified"
    "v_versions A i = Some v \<Longrightarrow> mv_Status v \<noteq> StatusUnspecified"
  using assms unfolding view_ok_def version_ok_def by blast+

lemma view_ok_registered:
  assumes ok: "view_ok A" and can: "can_create_model A m k"
  shows "view_ok (A\<lparr>v_models := (v_models A)(md_ID m \<mapsto> m), v_mkeys := f\<rparr>)"
proof -
  let ?B = "A\<lparr>v_models := (v_models A)(md_ID m \<mapsto> m), v_mkeys := f\<rparr>"
  note w = ok [unfolded view_ok_def]
  have free: "v_models A i = Some n \<Longrightarrow> \<not> (md_Team n = md_Team m \<and> md_Name n = md_Name m)" for i n
    using can by (auto simp: can_create_model_def name_taken_def)
  have un: "unique_names ?B" unfolding unique_names_def
  proof (intro allI impI, elim conjE)
    fix i j a b
    assume "v_models ?B i = Some a" "v_models ?B j = Some b" and e: "md_Team a = md_Team b" "md_Name a = md_Name b"
    then have c: "i = md_ID m \<and> a = m \<or> v_models A i = Some a" "j = md_ID m \<and> b = m \<or> v_models A j = Some b" by (auto split: if_splits)
    have "v_models A i = Some a \<Longrightarrow> v_models A j = Some b \<Longrightarrow> i = j" using w e unfolding unique_names_def by blast
    then show "i = j" using c e free [of i a] free [of j b] by auto
  qed
  have vo: "version_ok ?B i v" if "v_versions ?B i = Some v" for i v
    using that w by (auto simp: version_ok_def)
  have ids: "md_ID n = i" if "v_models ?B i = Some n" for i n using that w by (auto split: if_splits)
  have "unique_labels ?B = unique_labels A" "single_production ?B = single_production A"
    by (simp_all add: unique_labels_def single_production_def in_production_def)
  then have "unique_labels ?B" "single_production ?B" "finite (dom (v_versions ?B))" using view_okD(1,3,4) [OF ok] by simp_all
  from view_okI [OF ids vo this(3) un this(1,2)] show ?thesis .
qed

lemma view_ok_cut:
  assumes ok: "view_ok A" and can: "can_create_version A v k" and m: "v_models A (mv_ModelID v) \<noteq> None"
    and st: "mv_Stage v = StageDev" "mv_Status v = StatusPendingUpload"
  shows "view_ok (A\<lparr>v_versions := (v_versions A)(mv_ID v \<mapsto> v), v_vkeys := f\<rparr>)"
proof -
  let ?B = "A\<lparr>v_versions := (v_versions A)(mv_ID v \<mapsto> v), v_vkeys := f\<rparr>"
  note w = ok [unfolded view_ok_def]
  have free: "v_versions A i = Some u \<Longrightarrow> \<not> (mv_ModelID u = mv_ModelID v \<and> mv_Version u = mv_Version v)" for i u
    using can by (auto simp: can_create_version_def label_taken_def)
  have ul: "unique_labels ?B" unfolding unique_labels_def
  proof (intro allI impI, elim conjE)
    fix i j a b
    assume "v_versions ?B i = Some a" "v_versions ?B j = Some b" and e: "mv_ModelID a = mv_ModelID b" "mv_Version a = mv_Version b"
    then have c: "i = mv_ID v \<and> a = v \<or> v_versions A i = Some a" "j = mv_ID v \<and> b = v \<or> v_versions A j = Some b" by (auto split: if_splits)
    have "v_versions A i = Some a \<Longrightarrow> v_versions A j = Some b \<Longrightarrow> i = j" using w e unfolding unique_labels_def by blast
    then show "i = j" using c e free [of i a] free [of j b] by auto
  qed
  have "in_production ?B d i \<Longrightarrow> in_production A d i" for d i using st by (auto simp: in_production_def split: if_splits)
  then have sp: "single_production ?B" using w unfolding single_production_def by blast
  have vo: "version_ok ?B i u" if "v_versions ?B i = Some u" for i u
    using that w m st by (auto simp: version_ok_def split: if_splits)
  have "unique_names ?B = unique_names A" by (simp add: unique_names_def)
  then have un: "unique_names ?B" and fin: "finite (dom (v_versions ?B))" using view_okD(1,2) [OF ok] by simp_all
  have ids: "md_ID n = i" if "v_models ?B i = Some n" for i n using that view_okD(5) [OF ok] by simp
  from view_okI [OF ids vo fin un ul sp] show ?thesis .
qed

lemma set_stage_versions: "v_versions (set_stage i t A) j = (if j = i then map_option (\<lambda>v. v\<lparr>mv_Stage := t\<rparr>) (v_versions A i) else v_versions A j)"
  "v_models (set_stage i t A) = v_models A"
  by (auto simp: set_stage_def split: option.split)

lemma view_ok_set_stage:
  assumes ok: "view_ok A" and t: "t \<noteq> StageUnspecified"
    and prod: "t = StageProduction \<Longrightarrow> \<forall>v j. v_versions A i = Some v \<longrightarrow> \<not> in_production A (mv_ModelID v) j"
  shows "view_ok (set_stage i t A)"
proof -
  note w = ok [unfolded view_ok_def]
  let ?B = "set_stage i t A"
  have orig: "\<exists>u. v_versions A j = Some u \<and> v = (if j = i then u\<lparr>mv_Stage := t\<rparr> else u)" if "v_versions ?B j = Some v" for j v
    using that by (auto simp: set_stage_versions split: if_splits)
  have vo: "version_ok ?B j v" if "v_versions ?B j = Some v" for j v
    using orig [OF that] w t by (auto simp: version_ok_def set_stage_versions split: if_splits)
  have ul: "unique_labels ?B" unfolding unique_labels_def
  proof (intro allI impI, elim conjE)
    fix a b u v
    assume "v_versions ?B a = Some u" "v_versions ?B b = Some v" and e: "mv_ModelID u = mv_ModelID v" "mv_Version u = mv_Version v"
    from orig [OF this(1)] orig [OF this(2)] e obtain x y where "v_versions A a = Some x" "v_versions A b = Some y"
      "mv_ModelID x = mv_ModelID y" "mv_Version x = mv_Version y" by (auto split: if_splits)
    then show "a = b" using w unfolding unique_labels_def by blast
  qed
  have sp: "single_production ?B" unfolding single_production_def
  proof (intro allI impI, elim conjE)
    fix d a b
    assume ab: "in_production ?B d a" "in_production ?B d b"
    have cs: "in_production A d x \<or> x = i \<and> t = StageProduction \<and> (\<exists>v. v_versions A i = Some v \<and> mv_ModelID v = d)" if "in_production ?B d x" for x
      using that by (auto simp: in_production_def set_stage_versions split: if_splits)
    show "a = b" using cs [OF ab(1)] cs [OF ab(2)] prod w unfolding single_production_def by blast
  qed
  have "dom (v_versions ?B) \<subseteq> dom (v_versions A)" by (auto simp: set_stage_versions split: if_splits)
  then have fin: "finite (dom (v_versions ?B))" using w finite_subset by blast
  have "unique_names ?B = unique_names A" by (simp add: unique_names_def set_stage_versions)
  then have un: "unique_names ?B" using view_okD(2) [OF ok] by simp
  have ids: "md_ID n = i" if "v_models ?B i = Some n" for i n using that view_okD(5) [OF ok] by (simp add: set_stage_versions)
  from view_okI [OF ids vo fin un ul sp] show ?thesis .
qed

lemma set_stage_demoted: "in_production A d i \<Longrightarrow> view_ok A \<Longrightarrow> view_ok (set_stage i StageArchived A)"
  by (rule view_ok_set_stage) auto

lemma reg_step_view_ok: "reg_step A B \<Longrightarrow> view_ok A \<Longrightarrow> view_ok B"
proof (induction rule: reg_step.induct)
  case (registered A m k)
  then show ?case by (intro view_ok_registered)
next
  case (edited A i m d ts t)
  then show ?case by (intro view_ok_from [OF edited(3)]) (auto simp: view_okD split: if_splits)
next
  case (cut A v m k)
  then show ?case by (intro view_ok_cut) auto
next
  case (confirmed A i v p g n)
  then show ?case by (intro view_ok_from [OF confirmed(3)]) (auto simp: view_okD split: if_splits)
next
  case (failed A i v)
  then show ?case by (intro view_ok_from [OF failed(3)]) (auto simp: view_okD split: if_splits)
next
  case (moved A i v t B)
  have B: "view_ok B" "\<And>x. v_versions B i = Some x \<Longrightarrow> mv_ModelID x = mv_ModelID v"
    using moved(4,6) moved(1) by (auto intro: view_ok_set_stage simp: set_stage_versions split: if_splits)
  show ?case
  proof (rule view_ok_set_stage [OF B(1)])
    show "t \<noteq> StageUnspecified" using moved(2) by (cases "mv_Stage v") auto
    show "\<forall>x j. v_versions B i = Some x \<longrightarrow> \<not> in_production B (mv_ModelID x) j" if "t = StageProduction" using moved(5) that B(2) by auto
  qed
next
  case (archived A i m t u)
  then show ?case by (intro archived_view_ok)
next
  case (recorded A a i)
  then show ?case by (intro view_ok_from [OF recorded(2)]) (auto simp: view_okD)
qed


lemma life_okD:
  assumes "life_ok A"
  shows "view_ok A" and "v_versions A i = Some v \<Longrightarrow> mv_Stage v \<in> {StageStaging, StageProduction} \<Longrightarrow> mv_Status v = StatusReady"
    and "v_versions A i = Some v \<Longrightarrow> v_models A (mv_ModelID v) = Some m \<Longrightarrow> IsArchived m \<Longrightarrow> mv_Stage v = StageArchived"
  using assms unfolding life_ok_def by blast+

lemma life_okI:
  assumes "view_ok A"
    "\<And>i v. v_versions A i = Some v \<Longrightarrow> mv_Stage v \<in> {StageStaging, StageProduction} \<Longrightarrow> mv_Status v = StatusReady"
    "\<And>i v m. v_versions A i = Some v \<Longrightarrow> v_models A (mv_ModelID v) = Some m \<Longrightarrow> IsArchived m \<Longrightarrow> mv_Stage v = StageArchived"
  shows "life_ok A"
  using assms unfolding life_ok_def by blast

lemma reg_step_life_ok:
  assumes "reg_step A B" "life_ok A"
  shows "life_ok B"
proof (rule life_okI)
  note ok = life_okD [OF assms(2)]
  show "view_ok B" using reg_step_view_ok assms(1) ok(1) by blast
  show "mv_Status x = StatusReady" if bx: "v_versions B j = Some x" and sx: "mv_Stage x \<in> {StageStaging, StageProduction}" for j x
    using assms(1)
  proof cases
    case (moved i v t C)
    have C: "v_versions C i = Some y \<Longrightarrow> mv_Status y = mv_Status v" for y
      using moved(2,5) by (auto simp: set_stage_versions split: if_splits)
    have D: "j \<noteq> i \<Longrightarrow> v_versions C j = Some x \<Longrightarrow> v_versions A j = Some x"
      using moved(5) sx by (auto simp: set_stage_versions split: if_splits)
    show ?thesis
    proof (cases "j = i")
      case True
      then obtain y where "v_versions C i = Some y" "x = y\<lparr>mv_Stage := t\<rparr>" using bx moved(1) by (auto simp: set_stage_versions)
      then show ?thesis using C moved(4) sx by auto
    next
      case False
      then show ?thesis using bx sx moved(1) D ok(2) by (auto simp: set_stage_versions)
    qed
  qed (use bx sx ok(2) in \<open>auto simp: archived_view_def split: if_splits\<close>)
  show "mv_Stage x = StageArchived" if "v_versions B j = Some x" "v_models B (mv_ModelID x) = Some m" "IsArchived m" for j x m
    using assms(1)
  proof cases
    case (registered n k)
    then have "v_models A (md_ID n) = None" by (simp add: can_create_model_def)
    then have "mv_ModelID x \<noteq> md_ID n" using view_okD(7) [OF ok(1), of j x] that(1) registered(1) by auto
    then show ?thesis using that registered(1) ok(3) by auto
  next
    case (edited i n d ts t)
    then show ?thesis using that ok(3) by (auto simp: IsArchived_def split: if_splits)
  next
    case (cut v n k)
    then show ?thesis using that ok(3) by (auto split: if_splits)
  next
    case (confirmed i v p g n)
    then show ?thesis using that ok(3) by (auto split: if_splits)
  next
    case (failed i v)
    then show ?thesis using that ok(3) by (auto split: if_splits)
  next
    case (moved i v t C)
    have C: "v_models C = v_models A" using moved(5) by (auto simp: set_stage_versions)
    have own: "v_versions A j = Some x0 \<Longrightarrow> mv_ModelID x0 = mv_ModelID x \<Longrightarrow> mv_Stage x0 = StageArchived" for x0
      using that moved(1) C ok(3) by (simp add: set_stage_versions)
    have iv: "mv_ModelID x = mv_ModelID v \<Longrightarrow> mv_Stage v = StageArchived"
      using that moved(1,2) C ok(3) by (simp add: set_stage_versions)
    show ?thesis
    proof (cases "j = i")
      case True
      then have "mv_ModelID x = mv_ModelID v" using that(1) moved(1,2,5) by (auto simp: set_stage_versions split: if_splits)
      with iv moved(3) show ?thesis by simp
    next
      case False
      then have "v_versions C j = Some x" using that(1) moved(1) by (simp add: set_stage_versions)
      then show ?thesis using moved(5) own by (auto simp: set_stage_versions split: if_splits)
    qed
  next
    case (archived i n t u)
    from that(1) archived(1) have "\<exists>y. v_versions A j = Some y \<and> x = (if mv_ModelID y = i then y\<lparr>mv_Stage := StageArchived\<rparr> else y)"
      by (auto simp: archived_view_def)
    then obtain y where y: "v_versions A j = Some y" "x = (if mv_ModelID y = i then y\<lparr>mv_Stage := StageArchived\<rparr> else y)" by blast
    show ?thesis
    proof (cases "mv_ModelID y = i")
      case False
      then have "v_models A (mv_ModelID y) = Some m" using y(2) \<open>v_models B _ = Some m\<close> archived(1) by (simp add: archived_view_def)
      from ok(3) [OF y(1) this] show ?thesis using False y(2) \<open>IsArchived m\<close> by simp
    qed (simp add: y(2))
  next
    case (recorded a i)
    then show ?thesis using that ok(3) by auto
  qed
qed

lemma reg_steps_life_ok: "reg_step\<^sup>*\<^sup>* A B \<Longrightarrow> life_ok A \<Longrightarrow> life_ok B"
  by (induction rule: rtranclp_induct) (auto intro: reg_step_life_ok)

section \<open>History\<close>

text \<open>
  What may become of a version: its identity, label, description, metrics and origin stay; its stage moves along the
  machine; its status and the measured facts of its artifact change only from a pending upload.
\<close>

definition version_grows :: "ModelVersion \<Rightarrow> ModelVersion \<Rightarrow> bool" where
  "version_grows u v \<longleftrightarrow> mv_ID v = mv_ID u \<and> mv_ModelID v = mv_ModelID u \<and> mv_Version v = mv_Version u
     \<and> mv_Description v = mv_Description u \<and> mv_Metrics v = mv_Metrics u \<and> mv_CreatedBy v = mv_CreatedBy u \<and> mv_CreatedAt v = mv_CreatedAt u
     \<and> CanTransitionTo\<^sup>*\<^sup>* (mv_Stage u) (mv_Stage v)
     \<and> (mv_Status u \<noteq> StatusPendingUpload \<longrightarrow> mv_Status v = mv_Status u \<and> mv_ArtifactPath v = mv_ArtifactPath u
          \<and> mv_ArtifactDigest v = mv_ArtifactDigest u \<and> mv_SizeBytes v = mv_SizeBytes u)"

lemma version_grows_refl [simp]: "version_grows v v"
  by (simp add: version_grows_def)

lemma version_grows_trans: "version_grows u v \<Longrightarrow> version_grows v w \<Longrightarrow> version_grows u w"
  unfolding version_grows_def by (metis (no_types, lifting) rtranclp_trans)

lemma version_grows_stage: "mv_Stage v = t \<or> CanTransitionTo (mv_Stage v) t \<Longrightarrow> version_grows v (v\<lparr>mv_Stage := t\<rparr>)"
  by (auto simp: version_grows_def)

lemma archived_edge: "st \<noteq> StageUnspecified \<Longrightarrow> st = StageArchived \<or> CanTransitionTo st StageArchived"
  by (cases st) simp_all

text \<open>What may become of a model: its identity, name, owner and origin stay, and once archived it is never edited again.\<close>

definition model_grows :: "Model \<Rightarrow> Model \<Rightarrow> bool" where
  "model_grows m n \<longleftrightarrow> md_ID n = md_ID m \<and> md_Name n = md_Name m \<and> md_OwnerID n = md_OwnerID m \<and> md_Team n = md_Team m
     \<and> md_CreatedAt n = md_CreatedAt m \<and> (IsArchived m \<longrightarrow> n = m)"

lemma model_grows_refl [simp]: "model_grows m m"
  by (simp add: model_grows_def)

lemma model_grows_trans: "model_grows m n \<Longrightarrow> model_grows n k \<Longrightarrow> model_grows m k"
  by (auto simp: model_grows_def)

lemma reg_step_history:
  assumes step: "reg_step A B" and ok: "view_ok A"
  shows "v_versions A j = Some u \<Longrightarrow> \<exists>v. v_versions B j = Some v \<and> version_grows u v"
    "v_models A j = Some m \<Longrightarrow> \<exists>n. v_models B j = Some n \<and> model_grows m n"
proof -
  show "\<exists>v. v_versions B j = Some v \<and> version_grows u v" if u: "v_versions A j = Some u"
    using step
  proof cases
    case (cut v m k)
    then have "mv_ID v \<noteq> j" using u by (auto simp: can_create_version_def)
    then show ?thesis using u cut(1) by simp
  next
    case (confirmed i v p g n)
    then show ?thesis using u by (auto simp: version_grows_def)
  next
    case (failed i v)
    then show ?thesis using u by (auto simp: version_grows_def)
  next
    case (moved i v t C)
    have C: "\<exists>c. v_versions C j = Some c \<and> version_grows u c \<and> (j = i \<longrightarrow> c = u)"
    proof (cases "C = A")
      case False
      then obtain d where d: "t = StageProduction" "in_production A (mv_ModelID v) d" "C = set_stage d StageArchived A" using moved(5) by blast
      then obtain w where w: "v_versions A d = Some w" "mv_Stage w = StageProduction" by (auto simp: in_production_def)
      have "d \<noteq> i" using w moved(2,3) d(1) by auto
      then show ?thesis using u d(3) w version_grows_stage [of w StageArchived] by (auto simp: set_stage_versions)
    qed (use u in auto)
    then obtain c where c: "v_versions C j = Some c" "version_grows u c" "j = i \<longrightarrow> c = u" by blast
    show ?thesis
    proof (cases "j = i")
      case True
      then have "u = v" using u moved(2) by simp
      then show ?thesis using True c moved(1,3) version_grows_stage [of v t] by (auto simp: set_stage_versions)
    next
      case False
      then show ?thesis using c moved(1) by (simp add: set_stage_versions)
    qed
  next
    case (archived i m t x)
    have "mv_Stage u \<noteq> StageUnspecified" using view_okD(8) [OF ok u] .
    then show ?thesis using u archived(1) version_grows_stage [of u StageArchived] archived_edge by (auto simp: archived_view_def)
  qed (use u in auto)
  show "\<exists>n. v_models B j = Some n \<and> model_grows m n" if m: "v_models A j = Some m"
    using step
  proof cases
    case (registered n k)
    then have "md_ID n \<noteq> j" using m by (auto simp: can_create_model_def)
    then show ?thesis using m registered(1) by simp
  next
    case (edited i n d ts t)
    then show ?thesis using m by (auto simp: model_grows_def)
  next
    case (moved i v t C)
    then have "v_models B = v_models A" by (auto simp: set_stage_versions)
    then show ?thesis using m by simp
  next
    case (archived i n t x)
    then show ?thesis using m by (auto simp: archived_view_def model_grows_def)
  qed (use m in auto)
qed

lemma reg_steps_history:
  assumes "reg_step\<^sup>*\<^sup>* A B" "view_ok A"
  shows "v_versions A j = Some u \<Longrightarrow> \<exists>v. v_versions B j = Some v \<and> version_grows u v"
    "v_models A j = Some m \<Longrightarrow> \<exists>n. v_models B j = Some n \<and> model_grows m n"
proof -
  have ok: "reg_step\<^sup>*\<^sup>* A X \<Longrightarrow> view_ok X" for X by (induction rule: rtranclp_induct) (auto intro: assms(2) reg_step_view_ok)
  show "\<exists>v. v_versions B j = Some v \<and> version_grows u v" if u: "v_versions A j = Some u"
    using assms(1)
  proof (induction rule: rtranclp_induct)
    case (step X Y)
    then obtain x where "v_versions X j = Some x" "version_grows u x" by blast
    with reg_step_history(1) [OF step(2) ok [OF step(1)]] show ?case using version_grows_trans by blast
  qed (use u in simp)
  show "\<exists>n. v_models B j = Some n \<and> model_grows m n" if m: "v_models A j = Some m"
    using assms(1)
  proof (induction rule: rtranclp_induct)
    case (step X Y)
    then obtain x where "v_models X j = Some x" "model_grows m x" by blast
    with reg_step_history(2) [OF step(2) ok [OF step(1)]] show ?case using model_grows_trans by blast
  qed (use m in simp)
qed

end
