(* ===== verification/RegistryService.thy ===== *)
theory RegistryService
  imports RegistryLife
begin

text \<open>
  The operations of the registry (\<^verbatim>\<open>registry_service_impl.go\<close>): the six commands, which write the store and
  emit an event, and the four queries, which read the projection. An operation takes the ports as a record
  and threads one state through its calls: the two stores, the events handed to the emitter (whose error
  the service ignores) and the positions of the clock and the id generator. Copying a map of tags or
  metrics is the identity on values. The lemmas about the commands are proved in the locale
  \<open>write_store\<close>, from the contract of the store alone.
\<close>

section \<open>Text\<close>

text \<open>\<^verbatim>\<open>strings.TrimSpace\<close> on ASCII text, and \<^verbatim>\<open>strconv.Atoi\<close>, which fails on text that is no 64-bit integer.\<close>

definition is_space :: "char \<Rightarrow> bool" where
  "is_space c = (let n = (of_char c :: nat) in 9 \<le> n \<and> n \<le> 13 \<or> n = 32)"

definition TrimSpace :: "string \<Rightarrow> string" where
  "TrimSpace s = rev (dropWhile is_space (rev (dropWhile is_space s)))"

definition is_digit :: "char \<Rightarrow> bool" where
  "is_digit c = (let n = (of_char c :: nat) in 48 \<le> n \<and> n \<le> 57)"

definition digits_val :: "string \<Rightarrow> int" where
  "digits_val ds = foldl (\<lambda>a c. 10 * a + (int (of_char c) - 48)) 0 ds"

definition Atoi :: "string \<Rightarrow> int option" where
  "Atoi s = (let neg = (s \<noteq> [] \<and> hd s = CHR ''-''); ds = (if s \<noteq> [] \<and> (hd s = CHR ''-'' \<or> hd s = CHR ''+'') then tl s else s);
       n = (if neg then - digits_val ds else digits_val ds)
     in if ds = [] \<or> \<not> list_all is_digit ds \<or> n < - (2 ^ 63) \<or> n \<ge> 2 ^ 63 then None else Some n)"

text \<open>The UTF-8 text of a right arrow.\<close>

definition arrow :: string where
  "arrow = [CHR 0xE2, CHR 0x86, CHR 0x92]"

section \<open>Ports and state\<close>

record ('w, 'r) registryService =
  rs_write :: "'w WriteStoreOps"
  rs_read :: "'r ReadStoreOps"
  rs_clock :: "nat \<Rightarrow> time"
  rs_ids :: "nat \<Rightarrow> string"

record ('w, 'r) regState =
  rg_write :: 'w
  rg_read :: 'r
  rg_emitted :: "ProjectionEvent list"
  rg_ticks :: nat
  rg_ids :: nat

definition onWrite :: "('w \<Rightarrow> 'a \<times> 'w) \<Rightarrow> ('w, 'r) regState \<Rightarrow> 'a \<times> ('w, 'r) regState" where
  "onWrite f s = (let (a, w) = f (rg_write s) in (a, s\<lparr>rg_write := w\<rparr>))"

definition onRead :: "('r \<Rightarrow> 'a \<times> 'r) \<Rightarrow> ('w, 'r) regState \<Rightarrow> 'a \<times> ('w, 'r) regState" where
  "onRead f s = (let (a, x) = f (rg_read s) in (a, s\<lparr>rg_read := x\<rparr>))"

definition Now :: "('w, 'r) registryService \<Rightarrow> ('w, 'r) regState \<Rightarrow> time \<times> ('w, 'r) regState" where
  "Now P s = (rs_clock P (rg_ticks s), s\<lparr>rg_ticks := Suc (rg_ticks s)\<rparr>)"

definition NewID :: "('w, 'r) registryService \<Rightarrow> ('w, 'r) regState \<Rightarrow> string \<times> ('w, 'r) regState" where
  "NewID P s = (rs_ids P (rg_ids s), s\<lparr>rg_ids := Suc (rg_ids s)\<rparr>)"

definition emit :: "ProjectionEvent \<Rightarrow> ('w, 'r) regState \<Rightarrow> ('w, 'r) regState" where
  "emit ev s = s\<lparr>rg_emitted := rg_emitted s @ [ev]\<rparr>"

section \<open>Helpers\<close>

definition loadOwnedModel :: "('w, 'r) registryService \<Rightarrow> Actor \<Rightarrow> string \<Rightarrow> ('w, 'r) regState \<Rightarrow> (goerr + Model) \<times> ('w, 'r) regState" where
  "loadOwnedModel P actor modelID s = (case onWrite (ws_GetModel (rs_write P) modelID) s of
     (Inl err, s1) \<Rightarrow> if errors_Is err ErrRecordNotFound then (Inl ErrModelNotFound, s1) else (Inl (Wrapf ''get model: '' err ''''), s1)
   | (Inr m, s1) \<Rightarrow> if md_Team m \<noteq> ac_Team actor then (Inl ErrModelNotFound, s1) else (Inr m, s1))"

text \<open>The result is an error, \<open>None\<close> when the key is new, or the entity the key stands for.\<close>

definition lookupCommandIdempotency :: "('w, 'r) registryService \<Rightarrow> string \<Rightarrow> Command \<Rightarrow> string \<Rightarrow>
    (string \<Rightarrow> ('w, 'r) regState \<Rightarrow> (goerr + 'a) \<times> ('w, 'r) regState) \<Rightarrow> ('w, 'r) regState \<Rightarrow>
    (goerr + 'a option) \<times> ('w, 'r) regState" where
  "lookupCommandIdempotency P team command key load s =
     (if key = '''' then (Inr None, s)
      else case onWrite (ws_LookupCommandIdempotency (rs_write P) team command key) s of
        (Inl lookupErr, s1) \<Rightarrow>
          if errors_Is lookupErr ErrRecordNotFound then (Inr None, s1) else (Inl (Wrapf ''idempotency lookup: '' lookupErr ''''), s1)
      | (Inr entityID, s1) \<Rightarrow> (case load entityID s1 of
           (Inl loadErr, s2) \<Rightarrow> (Inl (Wrapf ''reload idempotent entity: '' loadErr ''''), s2)
         | (Inr got, s2) \<Rightarrow> (Inr (Some got), s2)))"

definition recordCommandIdempotency :: "('w, 'r) registryService \<Rightarrow> string \<Rightarrow> Command \<Rightarrow> string \<Rightarrow> string \<Rightarrow> ('w, 'r) regState \<Rightarrow>
    goerr option \<times> ('w, 'r) regState" where
  "recordCommandIdempotency P team command key entityID s =
     (if key = '''' then (None, s)
      else case onWrite (ws_RecordCommandIdempotency (rs_write P) team command key entityID) s of
        (Some err, s1) \<Rightarrow> (Some (Wrapf ''record idempotency: '' err ''''), s1)
      | (None, s1) \<Rightarrow> (None, s1))"

definition clampPageSize :: "int \<Rightarrow> int" where
  "clampPageSize requested = (if requested \<le> 0 then DefaultPageSize else if requested > MaxPageSize then MaxPageSize else requested)"

definition modelEvent :: "ProjectionEventKind \<Rightarrow> Model \<Rightarrow> Actor \<Rightarrow> time \<Rightarrow> ProjectionEvent" where
  "modelEvent kind m actor now = \<lparr>ev_Kind = kind, ev_Model = m, ev_Version = zeroVersion, ev_DemotedVersion = zeroVersion,
     ev_FromStage = StageUnspecified, ev_ToStage = StageUnspecified, ev_Actor = actor, ev_OccurredAt = now\<rparr>"

section \<open>Commands\<close>

text \<open>The part of \<^verbatim>\<open>RegisterModel\<close> after the lookup of the key: stamp, write, emit.\<close>

definition registerFresh :: "('w, 'r) registryService \<Rightarrow> Actor \<Rightarrow> RegisterModelInput \<Rightarrow> string \<Rightarrow> ('w, 'r) regState \<Rightarrow>
    (goerr + Model) \<times> ('w, 'r) regState" where
  "registerFresh P actor inp name s =
     (let (now, s1) = Now P s; (mid, s2) = NewID P s1;
          m = zeroModel\<lparr>md_ID := mid, md_Name := name, md_Description := rm_Description inp, md_OwnerID := ac_UserID actor,
            md_Team := ac_Team actor, md_Framework := rm_Framework inp, md_TaskType := rm_TaskType inp, md_Tags := rm_Tags inp,
            md_CreatedAt := now, md_UpdatedAt := now\<rparr>
      in case onWrite (ws_CreateModel (rs_write P) m (rm_IdempotencyKey inp)) s2 of
           (Inl err, s3) \<Rightarrow>
             if errors_Is err ErrWriteConflict then (Inl ErrModelNameTaken, s3) else (Inl (Wrapf ''create model: '' err ''''), s3)
         | (Inr created, s3) \<Rightarrow> (Inr created, emit (modelEvent EventModelRegistered created actor now) s3))"

definition RegisterModel :: "('w, 'r) registryService \<Rightarrow> Actor \<Rightarrow> RegisterModelInput \<Rightarrow> ('w, 'r) regState \<Rightarrow>
    (goerr + Model) \<times> ('w, 'r) regState" where
  "RegisterModel P actor inp s =
     (let name = TrimSpace (rm_Name inp) in
      if name = '''' then (Inl (Wrapf '''' ErrValidation '': model name is required''), s)
      else if ac_Team actor = '''' \<or> ac_UserID actor = '''' then (Inl (Wrapf '''' ErrValidation '': actor identity is required''), s)
      else if rm_IdempotencyKey inp \<noteq> '''' then
        (case onWrite (ws_LookupModelByIdempotencyKey (rs_write P) (ac_Team actor) (rm_IdempotencyKey inp)) s of
           (Inr existing, s1) \<Rightarrow> (Inr existing, s1)
         | (Inl err, s1) \<Rightarrow> if \<not> errors_Is err ErrRecordNotFound then (Inl (Wrapf ''idempotency lookup: '' err ''''), s1)
             else registerFresh P actor inp name s1)
      else registerFresh P actor inp name s)"

definition UpdateModel :: "('w, 'r) registryService \<Rightarrow> Actor \<Rightarrow> UpdateModelInput \<Rightarrow> ('w, 'r) regState \<Rightarrow>
    (goerr + Model) \<times> ('w, 'r) regState" where
  "UpdateModel P actor inp s =
     (if TrimSpace (um_ModelID inp) = '''' then (Inl (Wrapf '''' ErrValidation '': model id is required''), s)
      else case loadOwnedModel P actor (um_ModelID inp) s of
        (Inl err, s1) \<Rightarrow> (Inl err, s1)
      | (Inr m, s1) \<Rightarrow>
          if IsArchived m then (Inl ErrModelArchived, s1)
          else (let m1 = (if um_UpdateDescription inp then m\<lparr>md_Description := um_Description inp\<rparr> else m);
                    m2 = (if um_ReplaceTags inp then m1\<lparr>md_Tags := um_Tags inp\<rparr> else m1);
                    (now, s2) = Now P s1
                in case onWrite (ws_UpdateModel (rs_write P) (m2\<lparr>md_UpdatedAt := now\<rparr>)) s2 of
                     (Inl err, s3) \<Rightarrow> (Inl (Wrapf ''update model: '' err ''''), s3)
                   | (Inr updated, s3) \<Rightarrow> (Inr updated, s3)))"

definition maxAutoLabelAttempts :: nat where
  "maxAutoLabelAttempts = 100"

text \<open>The insert loop of \<^verbatim>\<open>CreateVersion\<close>, from the attempt \<open>attempt\<close> on.\<close>

function insertLoop :: "('w, 'r) registryService \<Rightarrow> Actor \<Rightarrow> CreateVersionInput \<Rightarrow> Model \<Rightarrow> time \<Rightarrow> bool \<Rightarrow> nat \<Rightarrow> string \<Rightarrow>
    ('w, 'r) regState \<Rightarrow> (goerr + ModelVersion) \<times> ('w, 'r) regState" where
  "insertLoop P actor inp m now autoAssign attempt candidate s =
     (let (vid, s1) = NewID P s;
          v = zeroVersion\<lparr>mv_ID := vid, mv_ModelID := cv_ModelID inp, mv_Version := candidate, mv_Description := cv_Description inp,
            mv_Metrics := cv_Metrics inp, mv_Stage := StageDev, mv_Status := StatusPendingUpload, mv_CreatedBy := ac_UserID actor,
            mv_CreatedAt := now\<rparr>;
          (r, s2) = onWrite (ws_CreateVersion (rs_write P) v (cv_IdempotencyKey inp)) s1
      in case r of
           Inr created \<Rightarrow> (Inr created, emit ((modelEvent EventVersionCreated m actor now)\<lparr>ev_Version := created\<rparr>) s2)
         | Inl err \<Rightarrow>
             if \<not> errors_Is err ErrWriteConflict then (Inl (Wrapf ''create version: '' err ''''), s2)
             else if \<not> autoAssign then (Inl ErrVersionExists, s2)
             else if attempt \<ge> maxAutoLabelAttempts
             then (Inl (Wrapf ''auto-assign version label: '' ErrWriteConflict ('' after '' @ itoa (int attempt) @ '' attempts'')), s2)
             else (case Atoi candidate of
                None \<Rightarrow> (Inl (Wrapf (''auto-assign version label: non-numeric candidate '' @ quote candidate @ '': '') ErrWriteConflict ''''), s2)
              | Some n \<Rightarrow> insertLoop P actor inp m now autoAssign (Suc attempt) (itoa (n + 1)) s2))"
  by pat_completeness auto

termination
  by (relation "measure (\<lambda>(P, actor, inp, m, now, autoAssign, attempt, candidate, s). maxAutoLabelAttempts - attempt)") auto

declare insertLoop.simps [simp del]

text \<open>The part of \<^verbatim>\<open>CreateVersion\<close> after the lookup of the key: the gate, the label, the loop.\<close>

definition createFresh :: "('w, 'r) registryService \<Rightarrow> Actor \<Rightarrow> CreateVersionInput \<Rightarrow> ('w, 'r) regState \<Rightarrow>
    (goerr + ModelVersion) \<times> ('w, 'r) regState" where
  "createFresh P actor inp s = (case loadOwnedModel P actor (cv_ModelID inp) s of
     (Inl err, s1) \<Rightarrow> (Inl err, s1)
   | (Inr m, s1) \<Rightarrow>
       if IsArchived m then (Inl ErrModelArchived, s1)
       else (let pinned = TrimSpace (cv_Version inp); autoAssign = (pinned = '''') in
         if autoAssign then
           (case onWrite (ws_CountVersions (rs_write P) (cv_ModelID inp)) s1 of
              (Inl err, s2) \<Rightarrow> (Inl (Wrapf ''count versions: '' err ''''), s2)
            | (Inr n, s2) \<Rightarrow> (let (now, s3) = Now P s2 in insertLoop P actor inp m now True 0 (itoa (n + 1)) s3))
         else (let (now, s3) = Now P s1 in insertLoop P actor inp m now False 0 pinned s3)))"

definition CreateVersion :: "('w, 'r) registryService \<Rightarrow> Actor \<Rightarrow> CreateVersionInput \<Rightarrow> ('w, 'r) regState \<Rightarrow>
    (goerr + ModelVersion) \<times> ('w, 'r) regState" where
  "CreateVersion P actor inp s =
     (if TrimSpace (cv_ModelID inp) = '''' then (Inl (Wrapf '''' ErrValidation '': model id is required''), s)
      else if cv_IdempotencyKey inp \<noteq> '''' then
        (case onWrite (ws_LookupVersionByIdempotencyKey (rs_write P) (cv_ModelID inp) (cv_IdempotencyKey inp)) s of
           (Inr existing, s1) \<Rightarrow> (Inr existing, s1)
         | (Inl err, s1) \<Rightarrow> if \<not> errors_Is err ErrRecordNotFound then (Inl (Wrapf ''idempotency lookup: '' err ''''), s1)
             else createFresh P actor inp s1)
      else createFresh P actor inp s)"

text \<open>
  The gate of the two commands on a version, up to the model of the version: the version by its id, and not found when it
  does not exist or its model is another team's.
\<close>

definition loadOwnedVersion :: "('w, 'r) registryService \<Rightarrow> Actor \<Rightarrow> string \<Rightarrow> ('w, 'r) regState \<Rightarrow> (goerr + ModelVersion) \<times> ('w, 'r) regState" where
  "loadOwnedVersion P actor versionID s = (case onWrite (ws_GetVersion (rs_write P) versionID) s of
     (Inl err, s1) \<Rightarrow> if errors_Is err ErrRecordNotFound then (Inl ErrVersionNotFound, s1) else (Inl (Wrapf ''get version: '' err ''''), s1)
   | (Inr v, s1) \<Rightarrow> (case loadOwnedModel P actor (mv_ModelID v) s1 of
        (Inl err, s2) \<Rightarrow> if errors_Is err ErrModelNotFound then (Inl ErrVersionNotFound, s2) else (Inl err, s2)
      | (Inr _, s2) \<Rightarrow> (Inr v, s2)))"

text \<open>When the model of a confirmed version cannot be loaded, the code returns the version beside the error; the error is the result here.\<close>

definition MarkVersionReady :: "('w, 'r) registryService \<Rightarrow> Actor \<Rightarrow> MarkVersionReadyInput \<Rightarrow> ('w, 'r) regState \<Rightarrow>
    (goerr + ModelVersion) \<times> ('w, 'r) regState" where
  "MarkVersionReady P actor inp s =
     (if TrimSpace (mk_VersionID inp) = '''' then (Inl (Wrapf '''' ErrValidation '': version id is required''), s)
      else case lookupCommandIdempotency P (ac_Team actor) CommandMarkVersionReady (mk_IdempotencyKey inp) (\<lambda>i. onWrite (ws_GetVersion (rs_write P) i)) s of
        (Inl err, s1) \<Rightarrow> (Inl err, s1)
      | (Inr (Some v), s1) \<Rightarrow> (Inr v, s1)
      | (Inr None, s1) \<Rightarrow> (case loadOwnedVersion P actor (mk_VersionID inp) s1 of
           (Inl err, s2) \<Rightarrow> (Inl err, s2)
         | (Inr v, s2) \<Rightarrow>
             if mv_Status v = StatusReady \<and> mk_Success inp then (Inr v, s2)
             else if mv_Status v = StatusFailed \<and> \<not> mk_Success inp then (Inr v, s2)
             else if mv_Status v \<noteq> StatusPendingUpload
             then (Inl (Wrapf '''' ErrInvalidStatusTransition ('': cannot confirm a version in status '' @ VersionStatus_String (mv_Status v))), s2)
             else (let (now, s3) = Now P s2;
                       v1 = (if mk_Success inp
                         then v\<lparr>mv_Status := StatusReady, mv_ArtifactPath := mk_ArtifactPath inp, mv_ArtifactDigest := mk_ArtifactDigest inp,
                           mv_SizeBytes := mk_SizeBytes inp\<rparr>
                         else v\<lparr>mv_Status := StatusFailed\<rparr>)
                   in case onWrite (ws_UpdateVersionStatus (rs_write P) v1) s3 of
                        (Inl err, s4) \<Rightarrow> (Inl (Wrapf ''update version status: '' err ''''), s4)
                      | (Inr updated, s4) \<Rightarrow>
                          (case recordCommandIdempotency P (ac_Team actor) CommandMarkVersionReady (mk_IdempotencyKey inp) (mv_ID updated) s4 of
                             (Some err, s5) \<Rightarrow> (Inl err, s5)
                           | (None, s5) \<Rightarrow>
                               if mk_Success inp then
                                 (case onWrite (ws_GetModel (rs_write P) (mv_ModelID updated)) s5 of
                                    (Inl mErr, s6) \<Rightarrow> (Inl (Wrapf ''load owning model for ready event: '' mErr ''''), s6)
                                  | (Inr m, s6) \<Rightarrow> (Inr updated, emit ((modelEvent EventVersionReady m actor now)\<lparr>ev_Version := updated\<rparr>) s6))
                               else (Inr updated, s5)))))"

text \<open>
  The version to demote: for a promotion to production the incumbent of the model, archived, when it is another version. The
  cases of the switch are tried in order.
\<close>

definition findDemoted :: "('w, 'r) registryService \<Rightarrow> ModelStage \<Rightarrow> ModelVersion \<Rightarrow> ('w, 'r) regState \<Rightarrow>
    (goerr + ModelVersion) \<times> ('w, 'r) regState" where
  "findDemoted P target v s =
     (if target = StageProduction then
        (case onWrite (ws_FindProductionVersion (rs_write P) (mv_ModelID v)) s of
           (Inr prior, s1) \<Rightarrow> if mv_ID prior \<noteq> mv_ID v then (Inr (prior\<lparr>mv_Stage := StageArchived\<rparr>), s1) else (Inr zeroVersion, s1)
         | (Inl err, s1) \<Rightarrow> if errors_Is err ErrRecordNotFound then (Inr zeroVersion, s1) else (Inl (Wrapf ''find production version: '' err ''''), s1))
      else (Inr zeroVersion, s))"

definition PromoteVersion :: "('w, 'r) registryService \<Rightarrow> Actor \<Rightarrow> PromoteVersionInput \<Rightarrow> ('w, 'r) regState \<Rightarrow>
    (goerr + PromoteResult) \<times> ('w, 'r) regState" where
  "PromoteVersion P actor inp s =
     (if TrimSpace (pv_VersionID inp) = '''' then (Inl (Wrapf '''' ErrValidation '': version id is required''), s)
      else if \<not> IsValid (pv_TargetStage inp) then (Inl (Wrapf '''' ErrValidation '': target stage is invalid''), s)
      else case lookupCommandIdempotency P (ac_Team actor) CommandPromoteVersion (pv_IdempotencyKey inp) (\<lambda>i. onWrite (ws_GetVersion (rs_write P) i)) s of
        (Inl err, s1) \<Rightarrow> (Inl err, s1)
      | (Inr (Some v), s1) \<Rightarrow> (Inr \<lparr>pr_Promoted = v, pr_Demoted = zeroVersion\<rparr>, s1)
      | (Inr None, s1) \<Rightarrow> (case loadOwnedVersion P actor (pv_VersionID inp) s1 of
           (Inl err, s2) \<Rightarrow> (Inl err, s2)
         | (Inr v, s2) \<Rightarrow>
             if mv_Stage v = pv_TargetStage inp then (Inr \<lparr>pr_Promoted = v, pr_Demoted = zeroVersion\<rparr>, s2)
             else if \<not> CanTransitionTo (mv_Stage v) (pv_TargetStage inp)
             then (Inl (Wrapf '''' ErrIllegalTransition ('': '' @ ModelStage_String (mv_Stage v) @ '' '' @ arrow @ '' '' @ ModelStage_String (pv_TargetStage inp))), s2)
             else if (pv_TargetStage inp = StageStaging \<or> pv_TargetStage inp = StageProduction) \<and> mv_Status v \<noteq> StatusReady
             then (Inl (Wrapf '''' ErrVersionNotReady ('': version status is '' @ VersionStatus_String (mv_Status v))), s2)
             else (let (now, s3) = Now P s2; v1 = v\<lparr>mv_Stage := pv_TargetStage inp\<rparr>
                   in case findDemoted P (pv_TargetStage inp) v1 s3 of
                        (Inl err, s4) \<Rightarrow> (Inl err, s4)
                      | (Inr demoted, s4) \<Rightarrow>
                          (case onWrite (ws_PromoteVersionTx (rs_write P) v1 demoted) s4 of
                             (Inl err, s5) \<Rightarrow> (Inl (Wrapf ''promote tx: '' err ''''), s5)
                           | (Inr (newPromoted, newDemoted), s5) \<Rightarrow>
                               (case recordCommandIdempotency P (ac_Team actor) CommandPromoteVersion (pv_IdempotencyKey inp) (mv_ID newPromoted) s5 of
                                  (Some err, s6) \<Rightarrow> (Inl err, s6)
                                | (None, s6) \<Rightarrow>
                                    (case onWrite (ws_GetModel (rs_write P) (mv_ModelID newPromoted)) s6 of
                                       (Inl mErr, s7) \<Rightarrow> (Inl (Wrapf ''load owning model for promote event: '' mErr ''''), s7)
                                     | (Inr m, s7) \<Rightarrow> (Inr \<lparr>pr_Promoted = newPromoted, pr_Demoted = newDemoted\<rparr>,
                                         emit ((modelEvent EventModelPromoted m actor now)\<lparr>ev_Version := newPromoted, ev_DemotedVersion := newDemoted,
                                           ev_FromStage := mv_Stage v, ev_ToStage := pv_TargetStage inp\<rparr>) s7)))))))"

definition ArchiveModel :: "('w, 'r) registryService \<Rightarrow> Actor \<Rightarrow> string \<Rightarrow> string \<Rightarrow> ('w, 'r) regState \<Rightarrow>
    (goerr + Model) \<times> ('w, 'r) regState" where
  "ArchiveModel P actor modelID idempotencyKey s =
     (if TrimSpace modelID = '''' then (Inl (Wrapf '''' ErrValidation '': model id is required''), s)
      else case lookupCommandIdempotency P (ac_Team actor) CommandArchiveModel idempotencyKey (loadOwnedModel P actor) s of
        (Inl err, s1) \<Rightarrow> (Inl err, s1)
      | (Inr (Some m), s1) \<Rightarrow> (Inr m, s1)
      | (Inr None, s1) \<Rightarrow> (case loadOwnedModel P actor modelID s1 of
           (Inl err, s2) \<Rightarrow> (Inl err, s2)
         | (Inr m, s2) \<Rightarrow>
             if IsArchived m then (Inr m, s2)
             else (let (now, s3) = Now P s2; m1 = m\<lparr>md_ArchivedAt := now, md_UpdatedAt := now\<rparr>
                   in case onWrite (ws_ArchiveModelTx (rs_write P) m1) s3 of
                        (Inl err, s4) \<Rightarrow> (Inl (Wrapf ''archive model tx: '' err ''''), s4)
                      | (Inr archived, s4) \<Rightarrow>
                          (case recordCommandIdempotency P (ac_Team actor) CommandArchiveModel idempotencyKey (md_ID archived) s4 of
                             (Some err, s5) \<Rightarrow> (Inl err, s5)
                           | (None, s5) \<Rightarrow> (Inr archived, emit (modelEvent EventModelArchived archived actor now) s5)))))"

section \<open>Queries\<close>

definition GetModel :: "('w, 'r) registryService \<Rightarrow> Actor \<Rightarrow> string \<Rightarrow> string \<Rightarrow> ('w, 'r) regState \<Rightarrow> (goerr + Model) \<times> ('w, 'r) regState" where
  "GetModel P actor mid mname s =
     (let i = TrimSpace mid; name = TrimSpace mname in
      if i = '''' \<and> name = '''' then (Inl (Wrapf '''' ErrValidation '': provide a model id or name''), s)
      else case (if i \<noteq> '''' then onRead (rd_GetModelByID (rs_read P) (ac_Team actor) i) s
                 else onRead (rd_GetModelByName (rs_read P) (ac_Team actor) name) s) of
        (Inl err, s1) \<Rightarrow> if errors_Is err ErrRecordNotFound then (Inl ErrModelNotFound, s1) else (Inl (Wrapf ''read model: '' err ''''), s1)
      | (Inr m, s1) \<Rightarrow> (Inr m, s1))"

definition ListModels :: "('w, 'r) registryService \<Rightarrow> Actor \<Rightarrow> ListModelsInput \<Rightarrow> ('w, 'r) regState \<Rightarrow>
    (goerr + Model Page) \<times> ('w, 'r) regState" where
  "ListModels P actor inp s =
     (let opts = \<lparr>lo_PageSize = clampPageSize (li_PageSize inp), lo_PageToken = li_PageToken inp\<rparr> in
      case onRead (rd_ListModels (rs_read P) (ac_Team actor) (li_Filter inp) opts) s of
        (Inl err, s1) \<Rightarrow> (Inl (Wrapf ''list models: '' err ''''), s1)
      | (Inr (models, nextTok), s1) \<Rightarrow> (case onRead (rd_CountModels (rs_read P) (ac_Team actor) (li_Filter inp)) s1 of
           (Inl err, s2) \<Rightarrow> (Inl (Wrapf ''count models: '' err ''''), s2)
         | (Inr tot, s2) \<Rightarrow> (Inr \<lparr>pg_Items = models, pg_NextToken = nextTok, pg_Total = tot\<rparr>, s2)))"

definition assertVersionInTeam :: "('w, 'r) registryService \<Rightarrow> Actor \<Rightarrow> string \<Rightarrow> ('w, 'r) regState \<Rightarrow> goerr option \<times> ('w, 'r) regState" where
  "assertVersionInTeam P actor modelID s = (case onRead (rd_GetModelByID (rs_read P) (ac_Team actor) modelID) s of
     (Inl err, s1) \<Rightarrow> if errors_Is err ErrRecordNotFound then (Some ErrVersionNotFound, s1) else (Some (Wrapf ''read version owner model: '' err ''''), s1)
   | (Inr _, s1) \<Rightarrow> (None, s1))"

definition GetVersion :: "('w, 'r) registryService \<Rightarrow> Actor \<Rightarrow> string \<Rightarrow> string \<Rightarrow> string \<Rightarrow> ('w, 'r) regState \<Rightarrow>
    (goerr + ModelVersion) \<times> ('w, 'r) regState" where
  "GetVersion P actor vid mid vlabel s =
     (let i = TrimSpace vid; modelID = TrimSpace mid; version = TrimSpace vlabel in
      if i = '''' \<and> (modelID = '''' \<or> version = '''')
      then (Inl (Wrapf '''' ErrValidation '': provide a version id or (model id + version label)''), s)
      else case (if i \<noteq> '''' then onRead (rd_GetVersionByID (rs_read P) i) s else onRead (rd_GetVersionByLabel (rs_read P) modelID version) s) of
        (Inl err, s1) \<Rightarrow> if errors_Is err ErrRecordNotFound then (Inl ErrVersionNotFound, s1) else (Inl (Wrapf ''read version: '' err ''''), s1)
      | (Inr v, s1) \<Rightarrow> (case assertVersionInTeam P actor (mv_ModelID v) s1 of
           (Some err, s2) \<Rightarrow> (Inl err, s2) | (None, s2) \<Rightarrow> (Inr v, s2)))"

definition ListVersions :: "('w, 'r) registryService \<Rightarrow> Actor \<Rightarrow> string \<Rightarrow> ModelStage \<Rightarrow> int \<Rightarrow> string \<Rightarrow> ('w, 'r) regState \<Rightarrow>
    (goerr + ModelVersion Page) \<times> ('w, 'r) regState" where
  "ListVersions P actor modelID stageFilter pageSize pageToken s =
     (if TrimSpace modelID = '''' then (Inl (Wrapf '''' ErrValidation '': model id is required''), s)
      else case assertVersionInTeam P actor modelID s of
        (Some err, s1) \<Rightarrow> (Inl err, s1)
      | (None, s1) \<Rightarrow> (case onRead (rd_ListVersions (rs_read P) modelID stageFilter \<lparr>lo_PageSize = clampPageSize pageSize, lo_PageToken = pageToken\<rparr>) s1 of
           (Inl err, s2) \<Rightarrow> (Inl (Wrapf ''list versions: '' err ''''), s2)
         | (Inr (versions, nextTok), s2) \<Rightarrow> (Inr \<lparr>pg_Items = versions, pg_NextToken = nextTok, pg_Total = 0\<rparr>, s2)))"


section \<open>What the commands do to the store\<close>

text \<open>A step that leaves the contents of the store, the projection and the events alone.\<close>

definition still :: "('w \<Rightarrow> regView) \<Rightarrow> ('w \<Rightarrow> bool) \<Rightarrow> ('w \<Rightarrow> bool) \<Rightarrow> ('w, 'r) regState \<Rightarrow> ('w, 'r) regState \<Rightarrow> bool" where
  "still vf iv hl s s' \<longleftrightarrow> iv (rg_write s') \<and> vf (rg_write s') = vf (rg_write s) \<and> rg_read s' = rg_read s
     \<and> rg_emitted s' = rg_emitted s \<and> (hl (rg_write s) \<longrightarrow> hl (rg_write s'))"

definition owned_model :: "regView \<Rightarrow> Actor \<Rightarrow> string \<Rightarrow> Model option" where
  "owned_model A actor i = (case v_models A i of None \<Rightarrow> None | Some m \<Rightarrow> if md_Team m = ac_Team actor then Some m else None)"

definition owned_version :: "regView \<Rightarrow> Actor \<Rightarrow> string \<Rightarrow> ModelVersion option" where
  "owned_version A actor i = (case v_versions A i of None \<Rightarrow> None
     | Some v \<Rightarrow> if owned_model A actor (mv_ModelID v) = None then None else Some v)"

lemma onWrite_eq: "onWrite f s = (a, s') \<longleftrightarrow> (\<exists>w. f (rg_write s) = (a, w) \<and> s' = s\<lparr>rg_write := w\<rparr>)"
  by (auto simp: onWrite_def split: prod.splits)

lemma still_trans: "still vf iv hl s s1 \<Longrightarrow> still vf iv hl s1 s2 \<Longrightarrow> still vf iv hl s s2"
  by (simp add: still_def)

lemma still_refl: "iv (rg_write s) \<Longrightarrow> still vf iv hl s s"
  by (simp add: still_def)

lemma still_Now: "still vf iv hl s s1 \<Longrightarrow> Now P s1 = (t, s2) \<Longrightarrow> still vf iv hl s s2"
  by (auto simp: still_def Now_def)

lemma still_NewID: "still vf iv hl s s1 \<Longrightarrow> NewID P s1 = (t, s2) \<Longrightarrow> still vf iv hl s s2"
  by (auto simp: still_def NewID_def)

context write_store
begin

abbreviation stl :: "('w, 'r) regState \<Rightarrow> ('w, 'r) regState \<Rightarrow> bool" where
  "stl \<equiv> still view inv healthy"

abbreviation vw :: "('w, 'r) regState \<Rightarrow> regView" where
  "vw s \<equiv> view (rg_write s)"

lemma loadOwnedModel_run:
  assumes inv: "inv (rg_write s)" and P: "rs_write P = W" and run: "loadOwnedModel P actor i s = (r, s')"
  shows "stl s s' \<and> (\<forall>m. r = Inr m \<longrightarrow> owned_model (vw s) actor i = Some m)
    \<and> (healthy (rg_write s) \<longrightarrow> r = (case owned_model (vw s) actor i of Some m \<Rightarrow> Inr m | None \<Rightarrow> Inl ErrModelNotFound))"
proof -
  obtain a w where w: "ws_GetModel W i (rg_write s) = (a, w)" by (cases "ws_GetModel W i (rg_write s)")
  note g = get_model [OF inv w]
  have ow: "onWrite (ws_GetModel W i) s = (a, s\<lparr>rg_write := w\<rparr>)" using w by (simp add: onWrite_eq)
  have st: "stl s (s\<lparr>rg_write := w\<rparr>)" using g by (simp add: still_def)
  show ?thesis
  proof (cases a)
    case (Inl e)
    show ?thesis
    proof (cases "errors_Is e ErrRecordNotFound")
      case True
      then have "v_models (vw s) i = None" using g Inl by (simp add: reads_def)
      then show ?thesis using run st True by (auto simp: loadOwnedModel_def P ow Inl owned_model_def)
    next
      case False
      then have nh: "\<not> healthy (rg_write s)" using g Inl by (auto simp: answer_def split: option.splits)
      have "r = Inl (Wrapf ''get model: '' e '''')" "s' = s\<lparr>rg_write := w\<rparr>" using run False by (auto simp: loadOwnedModel_def P ow Inl)
      then show ?thesis using st nh False by auto
    qed
  next
    case (Inr m)
    then have "v_models (vw s) i = Some m" using g by (simp add: reads_def)
    then show ?thesis using run st by (auto simp: loadOwnedModel_def P ow Inr owned_model_def split: if_splits)
  qed
qed

end


text \<open>A load of an entity by its id that reads the contents \<open>L\<close> gives.\<close>

definition loads :: "('w \<Rightarrow> regView) \<Rightarrow> ('w \<Rightarrow> bool) \<Rightarrow> ('w \<Rightarrow> bool) \<Rightarrow>
    (string \<Rightarrow> ('w, 'r) regState \<Rightarrow> (goerr + 'a) \<times> ('w, 'r) regState) \<Rightarrow> (regView \<Rightarrow> string \<Rightarrow> 'a option) \<Rightarrow> bool" where
  "loads vf iv hl load L \<longleftrightarrow> (\<forall>i s r s'. iv (rg_write s) \<longrightarrow> load i s = (r, s') \<longrightarrow> still vf iv hl s s'
     \<and> (\<forall>x. r = Inr x \<longrightarrow> L (vf (rg_write s)) i = Some x) \<and> (hl (rg_write s) \<longrightarrow> (\<forall>x. L (vf (rg_write s)) i = Some x \<longrightarrow> r = Inr x)))"

context write_store
begin

lemma get_version_run:
  assumes inv: "inv (rg_write s)" and run: "onWrite (ws_GetVersion W i) s = (r, s')"
  shows "stl s s' \<and> reads (v_versions (vw s) i) r \<and> (healthy (rg_write s) \<longrightarrow> r = answer (v_versions (vw s) i))"
proof -
  from run obtain w where w: "ws_GetVersion W i (rg_write s) = (r, w)" "s' = s\<lparr>rg_write := w\<rparr>" by (auto simp: onWrite_eq)
  from get_version [OF inv w(1)] show ?thesis by (simp add: w(2) still_def)
qed

lemma get_model_run:
  assumes inv: "inv (rg_write s)" and run: "onWrite (ws_GetModel W i) s = (r, s')"
  shows "stl s s' \<and> reads (v_models (vw s) i) r \<and> (healthy (rg_write s) \<longrightarrow> r = answer (v_models (vw s) i))"
proof -
  from run obtain w where w: "ws_GetModel W i (rg_write s) = (r, w)" "s' = s\<lparr>rg_write := w\<rparr>" by (auto simp: onWrite_eq)
  from get_model [OF inv w(1)] show ?thesis by (simp add: w(2) still_def)
qed

lemma loads_version: "loads view inv healthy (\<lambda>i. onWrite (ws_GetVersion W i)) v_versions"
  unfolding loads_def
proof (intro allI impI)
  fix i and s s' :: "('w, 'r) regState" and r
  assume a: "inv (rg_write s)" "onWrite (ws_GetVersion W i) s = (r, s')"
  from get_version_run [OF a] show "stl s s' \<and> (\<forall>x. r = Inr x \<longrightarrow> v_versions (vw s) i = Some x)
      \<and> (healthy (rg_write s) \<longrightarrow> (\<forall>x. v_versions (vw s) i = Some x \<longrightarrow> r = Inr x))"
    by (auto simp: reads_def answer_def split: option.splits)
qed

lemma loads_owned:
  fixes P :: "('w, 'r) registryService"
  assumes P: "rs_write P = W"
  shows "loads view inv healthy (loadOwnedModel P actor) (\<lambda>A. owned_model A actor)"
  unfolding loads_def
proof (intro allI impI)
  fix i and s s' :: "('w, 'r) regState" and r
  assume a: "inv (rg_write s)" "loadOwnedModel P actor i s = (r, s')"
  from loadOwnedModel_run [OF a(1) P a(2)] show "stl s s' \<and> (\<forall>x. r = Inr x \<longrightarrow> owned_model (vw s) actor i = Some x)
      \<and> (healthy (rg_write s) \<longrightarrow> (\<forall>x. owned_model (vw s) actor i = Some x \<longrightarrow> r = Inr x))"
    by auto
qed

lemma lookupCommand_run:
  assumes inv: "inv (rg_write s)" and P: "rs_write P = W" and load: "loads view inv healthy load L"
    and run: "lookupCommandIdempotency P t c k load s = (r, s')"
  shows "stl s s' \<and> (\<forall>x. r = Inr (Some x) \<longrightarrow> k \<noteq> '''' \<and> (\<exists>i. v_ledger (vw s) (t, c, k) = Some i \<and> L (vw s) i = Some x))
    \<and> (r = Inr None \<longrightarrow> k = '''' \<or> v_ledger (vw s) (t, c, k) = None)
    \<and> (healthy (rg_write s) \<longrightarrow> (k = '''' \<or> v_ledger (vw s) (t, c, k) = None \<longrightarrow> r = Inr None)
        \<and> (\<forall>i x. k \<noteq> '''' \<and> v_ledger (vw s) (t, c, k) = Some i \<and> L (vw s) i = Some x \<longrightarrow> r = Inr (Some x)))"
proof (cases "k = ''''")
  case True
  then show ?thesis using run inv by (auto simp: lookupCommandIdempotency_def still_def)
next
  case k: False
  obtain a w where w: "ws_LookupCommandIdempotency W t c k (rg_write s) = (a, w)" by (cases "ws_LookupCommandIdempotency W t c k (rg_write s)")
  have l: "inv w" "view w = vw s" "reads (v_ledger (vw s) (t, c, k)) a" "healthy (rg_write s) \<longrightarrow> healthy w \<and> a = answer (v_ledger (vw s) (t, c, k))"
    using lookup_command [OF inv w] k by (simp_all add: Let_def)
  have ow: "onWrite (ws_LookupCommandIdempotency W t c k) s = (a, s\<lparr>rg_write := w\<rparr>)" using w by (simp add: onWrite_eq)
  have st: "stl s (s\<lparr>rg_write := w\<rparr>)" using l by (simp add: still_def)
  show ?thesis
  proof (cases a)
    case (Inl e)
    show ?thesis
    proof (cases "errors_Is e ErrRecordNotFound")
      case True
      then have "v_ledger (vw s) (t, c, k) = None" using l(3) Inl by (simp add: reads_def)
      then show ?thesis using run st k True by (auto simp: lookupCommandIdempotency_def P ow Inl)
    next
      case False
      then have "\<not> healthy (rg_write s)" using l(4) Inl by (auto simp: answer_def split: option.splits)
      then show ?thesis using run st k False by (auto simp: lookupCommandIdempotency_def P ow Inl)
    qed
  next
    case (Inr i)
    then have li: "v_ledger (vw s) (t, c, k) = Some i" using l(3) by (simp add: reads_def)
    obtain b s2 where b: "load i (s\<lparr>rg_write := w\<rparr>) = (b, s2)" by (cases "load i (s\<lparr>rg_write := w\<rparr>)")
    have inv1: "inv (rg_write (s\<lparr>rg_write := w\<rparr>))" and vs: "view (rg_write (s\<lparr>rg_write := w\<rparr>)) = vw s" using l(1,2) by simp_all
    have hw: "healthy (rg_write s) \<longrightarrow> healthy (rg_write (s\<lparr>rg_write := w\<rparr>))" using l(4) by simp
    note ld0 = load [unfolded loads_def, THEN spec, THEN spec, THEN spec, THEN spec, THEN mp, OF inv1, THEN mp, OF b, unfolded vs]
    have ld: "stl (s\<lparr>rg_write := w\<rparr>) s2" "\<forall>x. b = Inr x \<longrightarrow> L (vw s) i = Some x" "healthy (rg_write s) \<longrightarrow> (\<forall>x. L (vw s) i = Some x \<longrightarrow> b = Inr x)"
      using ld0 hw by blast+
    have "stl s s2" using still_trans [OF st ld(1)] .
    then show ?thesis using run k li ld(2,3) by (cases b) (auto simp: lookupCommandIdempotency_def P ow Inr b)
  qed
qed

lemma loadOwnedVersion_run:
  assumes inv: "inv (rg_write s)" and P: "rs_write P = W" and run: "loadOwnedVersion P actor i s = (r, s')"
  shows "stl s s' \<and> (\<forall>v. r = Inr v \<longrightarrow> owned_version (vw s) actor i = Some v)
    \<and> (healthy (rg_write s) \<longrightarrow> r = (case owned_version (vw s) actor i of Some v \<Rightarrow> Inr v | None \<Rightarrow> Inl ErrVersionNotFound))"
proof -
  obtain a s1 where a: "onWrite (ws_GetVersion W i) s = (a, s1)" by (cases "onWrite (ws_GetVersion W i) s")
  note g = get_version_run [OF inv a]
  show ?thesis
  proof (cases a)
    case (Inl e)
    show ?thesis
    proof (cases "errors_Is e ErrRecordNotFound")
      case True
      then have "v_versions (vw s) i = None" using g Inl by (simp add: reads_def)
      then show ?thesis using run g True by (auto simp: loadOwnedVersion_def P a Inl owned_version_def)
    next
      case False
      then have "\<not> healthy (rg_write s)" using g Inl by (auto simp: answer_def split: option.splits)
      then show ?thesis using run g False by (auto simp: loadOwnedVersion_def P a Inl)
    qed
  next
    case (Inr v)
    then have v: "v_versions (vw s) i = Some v" using g by (simp add: reads_def)
    obtain b s2 where b: "loadOwnedModel P actor (mv_ModelID v) s1 = (b, s2)" by (cases "loadOwnedModel P actor (mv_ModelID v) s1")
    have inv1: "inv (rg_write s1)" and vs: "vw s1 = vw s" and hs: "healthy (rg_write s) \<longrightarrow> healthy (rg_write s1)" using g by (simp_all add: still_def)
    note m = loadOwnedModel_run [OF inv1 P b, unfolded vs]
    have st: "stl s s2" using g m still_trans by blast
    show ?thesis
    proof (cases b)
      case (Inl e)
      then have "healthy (rg_write s) \<longrightarrow> owned_model (vw s) actor (mv_ModelID v) = None \<and> e = ErrModelNotFound" using m hs by (auto split: option.splits)
      then show ?thesis using run st v by (auto simp: loadOwnedVersion_def P a Inr b Inl owned_version_def split: if_splits)
    next
      case I: (Inr m0)
      then have "owned_model (vw s) actor (mv_ModelID v) = Some m0" using m by simp
      then show ?thesis using run st v by (auto simp: loadOwnedVersion_def P a Inr b I owned_version_def)
    qed
  qed
qed

lemma recordCommand_run:
  assumes inv: "inv (rg_write s)" and P: "rs_write P = W" and run: "recordCommandIdempotency P t c k i s = (oe, s')"
    and new: "k = '''' \<or> v_ledger (vw s) (t, c, k) = None"
  shows "inv (rg_write s') \<and> rg_read s' = rg_read s \<and> rg_emitted s' = rg_emitted s \<and> (healthy (rg_write s) \<longrightarrow> healthy (rg_write s') \<and> oe = None)
    \<and> vw s' = (if oe = None \<and> k \<noteq> '''' then (vw s)\<lparr>v_ledger := (v_ledger (vw s))((t, c, k) \<mapsto> i)\<rparr> else vw s)"
proof (cases "k = ''''")
  case True
  then show ?thesis using run inv by (simp add: recordCommandIdempotency_def)
next
  case k: False
  obtain a w where w: "ws_RecordCommandIdempotency W t c k i (rg_write s) = (a, w)" by (cases "ws_RecordCommandIdempotency W t c k i (rg_write s)")
  have l: "inv w" "case a of None \<Rightarrow> view w = (vw s)\<lparr>v_ledger := (v_ledger (vw s))((t, c, k) \<mapsto> i)\<rparr> | Some e \<Rightarrow> view w = vw s"
    "healthy (rg_write s) \<longrightarrow> healthy w \<and> a = None" using record_command [OF inv w] k new by simp_all
  have ow: "onWrite (ws_RecordCommandIdempotency W t c k i) s = (a, s\<lparr>rg_write := w\<rparr>)" using w by (simp add: onWrite_eq)
  show ?thesis using run k l by (cases a) (auto simp: recordCommandIdempotency_def P ow)
qed

end


section \<open>Outcomes\<close>

text \<open>A step that changed the contents to \<open>A\<close> and emitted \<open>evs\<close>.\<close>

definition changed :: "('w \<Rightarrow> regView) \<Rightarrow> ('w \<Rightarrow> bool) \<Rightarrow> ('w \<Rightarrow> bool) \<Rightarrow> ('w, 'r) regState \<Rightarrow> ('w, 'r) regState \<Rightarrow> regView \<Rightarrow> ProjectionEvent list \<Rightarrow> bool" where
  "changed vf iv hl s s' A evs \<longleftrightarrow> iv (rg_write s') \<and> vf (rg_write s') = A \<and> rg_read s' = rg_read s
     \<and> rg_emitted s' = rg_emitted s @ evs \<and> (hl (rg_write s) \<longrightarrow> hl (rg_write s'))"

lemma still_changed: "still vf iv hl s s1 \<Longrightarrow> changed vf iv hl s1 s2 A evs \<Longrightarrow> changed vf iv hl s s2 A evs"
  by (simp add: still_def changed_def)

lemma changed_emit: "changed vf iv hl s s1 A evs \<Longrightarrow> changed vf iv hl s (emit ev s1) A (evs @ [ev])"
  by (simp add: changed_def emit_def)

context write_store
begin

abbreviation chg :: "('w, 'r) regState \<Rightarrow> ('w, 'r) regState \<Rightarrow> regView \<Rightarrow> ProjectionEvent list \<Rightarrow> bool" where
  "chg \<equiv> changed view inv healthy"

definition put_model_keyed :: "Model \<Rightarrow> string \<Rightarrow> regView \<Rightarrow> regView" where
  "put_model_keyed m k A = A\<lparr>v_models := (v_models A)(md_ID m \<mapsto> sm m), v_mkeys := set_keyed (md_Team m) k (md_ID m) (v_mkeys A)\<rparr>"

definition put_version_keyed :: "ModelVersion \<Rightarrow> string \<Rightarrow> regView \<Rightarrow> regView" where
  "put_version_keyed v k A = A\<lparr>v_versions := (v_versions A)(mv_ID v \<mapsto> sv v), v_vkeys := set_keyed (mv_ModelID v) k (mv_ID v) (v_vkeys A)\<rparr>"

lemma registerFresh_run:
  assumes inv: "inv (rg_write s)" and P: "rs_write P = W" and run: "registerFresh P actor inp name s = (r, s')"
    and m: "m = zeroModel\<lparr>md_ID := rs_ids P (rg_ids s), md_Name := name, md_Description := rm_Description inp, md_OwnerID := ac_UserID actor,
            md_Team := ac_Team actor, md_Framework := rm_Framework inp, md_TaskType := rm_TaskType inp, md_Tags := rm_Tags inp,
            md_CreatedAt := rs_clock P (rg_ticks s), md_UpdatedAt := rs_clock P (rg_ticks s)\<rparr>"
  shows "(if isl r then stl s s' else r = Inr m \<and> can_create_model (vw s) m (rm_IdempotencyKey inp)
      \<and> chg s s' (put_model_keyed m (rm_IdempotencyKey inp) (vw s)) [modelEvent EventModelRegistered m actor (rs_clock P (rg_ticks s))])
    \<and> (healthy (rg_write s) \<longrightarrow> r = (if can_create_model (vw s) m (rm_IdempotencyKey inp) then Inr m else Inl ErrModelNameTaken))"
proof -
  define s2 where "s2 = s\<lparr>rg_ticks := Suc (rg_ticks s), rg_ids := Suc (rg_ids s)\<rparr>"
  obtain a w where w: "ws_CreateModel W m (rm_IdempotencyKey inp) (rg_write s) = (a, w)" by (cases "ws_CreateModel W m (rm_IdempotencyKey inp) (rg_write s)")
  note c = create_model [OF inv w]
  have ow: "onWrite (ws_CreateModel W m (rm_IdempotencyKey inp)) s2 = (a, s2\<lparr>rg_write := w\<rparr>)" using w by (simp add: onWrite_eq s2_def)
  have unf: "registerFresh P actor inp name s = (case onWrite (ws_CreateModel W m (rm_IdempotencyKey inp)) s2 of
           (Inl err, s3) \<Rightarrow>
             if errors_Is err ErrWriteConflict then (Inl ErrModelNameTaken, s3) else (Inl (Wrapf ''create model: '' err ''''), s3)
         | (Inr created, s3) \<Rightarrow> (Inr created, emit (modelEvent EventModelRegistered created actor (rs_clock P (rg_ticks s))) s3))"
    by (simp add: registerFresh_def Now_def NewID_def P m s2_def)
  show ?thesis
  proof (cases a)
    case (Inl e)
    have "stl s (s2\<lparr>rg_write := w\<rparr>)" using c Inl by (simp add: still_def s2_def)
    then show ?thesis using run c unfolding unf ow Inl by (auto split: if_splits)
  next
    case (Inr m')
    have "chg s (s2\<lparr>rg_write := w\<rparr>) (put_model_keyed m (rm_IdempotencyKey inp) (vw s)) []" using c Inr by (simp add: changed_def s2_def put_model_keyed_def)
    from changed_emit [OF this] show ?thesis using run c unfolding unf ow Inr by auto
  qed
qed

lemma RegisterModel_cases:
  assumes inv: "inv (rg_write s)" and P: "rs_write P = W" and run: "RegisterModel P actor inp s = (r, s')"
  obtains (still) "stl s s'"
  | (fresh) m now where "r = Inr m" "md_Team m = ac_Team actor" "md_OwnerID m = ac_UserID actor" "md_Name m = TrimSpace (rm_Name inp)"
      "md_Name m \<noteq> ''''" "md_ArchivedAt m = 0" "md_CreatedAt m = now" "md_UpdatedAt m = now" "md_ProductionVersion m = ''''" "md_LatestVersion m = ''''"
      "\<exists>n. md_ID m = rs_ids P n" "\<exists>n. now = rs_clock P n" "can_create_model (vw s) m (rm_IdempotencyKey inp)"
      "chg s s' (put_model_keyed m (rm_IdempotencyKey inp) (vw s)) [modelEvent EventModelRegistered m actor now]"
proof -
  note outs = that
  have fresh: thesis if st: "stl s s1" and f: "registerFresh P actor inp (TrimSpace (rm_Name inp)) s1 = (r, s')" and nm: "TrimSpace (rm_Name inp) \<noteq> ''''" for s1
  proof -
    have inv1: "inv (rg_write s1)" and vs: "vw s1 = vw s" using st by (simp_all add: still_def)
    let ?now = "rs_clock P (rg_ticks s1)"
    define m where "m = zeroModel\<lparr>md_ID := rs_ids P (rg_ids s1), md_Name := TrimSpace (rm_Name inp), md_Description := rm_Description inp, md_OwnerID := ac_UserID actor,
            md_Team := ac_Team actor, md_Framework := rm_Framework inp, md_TaskType := rm_TaskType inp, md_Tags := rm_Tags inp,
            md_CreatedAt := ?now, md_UpdatedAt := ?now\<rparr>"
    note rf = registerFresh_run [OF inv1 P f m_def, unfolded vs]
    have fm: "md_Team m = ac_Team actor" "md_OwnerID m = ac_UserID actor" "md_Name m = TrimSpace (rm_Name inp)" "md_Name m \<noteq> ''''" "md_ArchivedAt m = 0"
      "md_CreatedAt m = ?now" "md_UpdatedAt m = ?now" "md_ProductionVersion m = ''''" "md_LatestVersion m = ''''" "\<exists>n. md_ID m = rs_ids P n"
      using nm by (auto simp: m_def zeroModel_def)
    show thesis
    proof (cases "isl r")
      case True
      then have "stl s1 s'" using rf by simp
      from still_trans [OF st this] show thesis by (rule outs(1))
    next
      case False
      then have c: "r = Inr m" "can_create_model (vw s) m (rm_IdempotencyKey inp)"
        "chg s1 s' (put_model_keyed m (rm_IdempotencyKey inp) (vw s)) [modelEvent EventModelRegistered m actor ?now]" using rf by simp_all
      show thesis by (rule outs(2) [OF c(1) fm _ c(2) still_changed [OF st c(3)]]) blast
    qed
  qed
  have id: "stl s s" using inv by (rule still_refl)
  show thesis
  proof (cases "TrimSpace (rm_Name inp) = '''' \<or> ac_Team actor = '''' \<or> ac_UserID actor = ''''")
    case True
    then have "s' = s" using run by (auto simp: RegisterModel_def Let_def split: if_splits)
    then show thesis using id outs(1) by simp
  next
    case nv: False
    show thesis
    proof (cases "rm_IdempotencyKey inp = ''''")
      case True
      then show thesis using run nv fresh [OF id] by (auto simp: RegisterModel_def Let_def)
    next
      case False
      obtain a w where w: "ws_LookupModelByIdempotencyKey W (ac_Team actor) (rm_IdempotencyKey inp) (rg_write s) = (a, w)"
        by (cases "ws_LookupModelByIdempotencyKey W (ac_Team actor) (rm_IdempotencyKey inp) (rg_write s)")
      have st: "stl s (s\<lparr>rg_write := w\<rparr>)" using lookup_model_key [OF inv w] by (auto simp: still_def Let_def)
      have ow: "onWrite (ws_LookupModelByIdempotencyKey W (ac_Team actor) (rm_IdempotencyKey inp)) s = (a, s\<lparr>rg_write := w\<rparr>)" using w by (simp add: onWrite_eq)
      show thesis using run nv False st outs(1) fresh [OF st] by (cases a) (auto simp: RegisterModel_def Let_def P ow split: if_splits)
    qed
  qed
qed

end


context write_store
begin

lemma UpdateModel_cases:
  assumes inv: "inv (rg_write s)" and P: "rs_write P = W" and run: "UpdateModel P actor inp s = (r, s')"
  obtains (still) "stl s s'"
  | (edited) m d ts now where "owned_model (vw s) actor (um_ModelID inp) = Some m" "\<not> IsArchived m"
      "r = Inr (m\<lparr>md_Description := d, md_Tags := ts, md_UpdatedAt := now\<rparr>)"
      "d = (if um_UpdateDescription inp then um_Description inp else md_Description m)" "ts = (if um_ReplaceTags inp then um_Tags inp else md_Tags m)"
      "chg s s' ((vw s)\<lparr>v_models := (v_models (vw s))(um_ModelID inp \<mapsto> m\<lparr>md_Description := d, md_Tags := ts, md_UpdatedAt := st now\<rparr>)\<rparr>) []"
proof -
  note outs = that
  have id: "stl s s" using inv by (rule still_refl)
  obtain a s1 where l: "loadOwnedModel P actor (um_ModelID inp) s = (a, s1)" by (cases "loadOwnedModel P actor (um_ModelID inp) s")
  note lr = loadOwnedModel_run [OF inv P l]
  show thesis
  proof (cases "TrimSpace (um_ModelID inp) = '''' \<or> isl a \<or> (\<exists>m. a = Inr m \<and> IsArchived m)")
    case True
    then have "s' = s \<or> s' = s1" using run l by (auto simp: UpdateModel_def split: if_splits sum.splits)
    then show thesis using id lr outs(1) by blast
  next
    case False
    then obtain m where m: "a = Inr m" "\<not> IsArchived m" by (cases a) auto
    have own: "owned_model (vw s) actor (um_ModelID inp) = Some m" using lr m(1) by simp
    have vs: "vw s1 = vw s" and inv1: "inv (rg_write s1)" and st1: "stl s s1" using lr by (simp_all add: still_def)
    have vm: "v_models (vw s) (um_ModelID inp) = Some m" using own by (auto simp: owned_model_def split: option.splits if_splits)
    have mid: "md_ID m = um_ModelID inp" using view_okD(5) [OF view_wf [OF inv] vm] .
    define now where "now = rs_clock P (rg_ticks s1)"
    define d where "d = (if um_UpdateDescription inp then um_Description inp else md_Description m)"
    define ts where "ts = (if um_ReplaceTags inp then um_Tags inp else md_Tags m)"
    define m2 where "m2 = m\<lparr>md_Description := d, md_Tags := ts, md_UpdatedAt := now\<rparr>"
    define s2 where "s2 = s1\<lparr>rg_ticks := Suc (rg_ticks s1)\<rparr>"
    have m2': "(let m1 = (if um_UpdateDescription inp then m\<lparr>md_Description := um_Description inp\<rparr> else m);
                    m2 = (if um_ReplaceTags inp then m1\<lparr>md_Tags := um_Tags inp\<rparr> else m1) in m2\<lparr>md_UpdatedAt := now\<rparr>) = m2"
      by (simp add: m2_def d_def ts_def Let_def)
    obtain b w where w: "ws_UpdateModel W m2 (rg_write s1) = (b, w)" by (cases "ws_UpdateModel W m2 (rg_write s1)")
    note u = update_model [OF inv1 w, unfolded vs]
    have ow: "onWrite (ws_UpdateModel W m2) s2 = (b, s2\<lparr>rg_write := w\<rparr>)" using w by (simp add: onWrite_eq s2_def)
    have unf: "UpdateModel P actor inp s = (case onWrite (ws_UpdateModel W m2) s2 of
                     (Inl err, s3) \<Rightarrow> (Inl (Wrapf ''update model: '' err ''''), s3)
                   | (Inr updated, s3) \<Rightarrow> (Inr updated, s3))"
      using False m2' [unfolded Let_def] by (simp add: UpdateModel_def l m P Now_def Let_def now_def s2_def)
    show thesis
    proof (cases b)
      case (Inl e)
      have "stl s (s2\<lparr>rg_write := w\<rparr>)" using u Inl st1 vs by (simp add: still_def s2_def)
      then show thesis using outs(1) run unfolding unf ow Inl by auto
    next
      case (Inr m')
      have old: "(sm m2)\<lparr>md_Name := md_Name m, md_Team := md_Team m, md_OwnerID := md_OwnerID m, md_CreatedAt := md_CreatedAt m\<rparr>
          = m\<lparr>md_Description := d, md_Tags := ts, md_UpdatedAt := st now\<rparr>"
        using m(2) by (subst sm_keeps) (simp add: m2_def IsArchived_def)
      have c: "chg s (s2\<lparr>rg_write := w\<rparr>) ((vw s)\<lparr>v_models := (v_models (vw s))(um_ModelID inp \<mapsto> m\<lparr>md_Description := d, md_Tags := ts, md_UpdatedAt := st now\<rparr>)\<rparr>) []"
        using u Inr st1 vm mid old by (auto simp: changed_def still_def s2_def m2_def)
      have "r = Inr m2" "s' = s2\<lparr>rg_write := w\<rparr>" using run u Inr unfolding unf ow Inr by auto
      then show thesis using outs(2) [OF own m(2) _ d_def ts_def, of now] c by (simp add: m2_def)
    qed
  qed
qed

text \<open>The version an attempt of the insert loop tries to insert.\<close>

definition attempt_version :: "('w, 'r) registryService \<Rightarrow> Actor \<Rightarrow> CreateVersionInput \<Rightarrow> time \<Rightarrow> string \<Rightarrow> nat \<Rightarrow> ModelVersion" where
  "attempt_version P actor inp now candidate n = zeroVersion\<lparr>mv_ID := rs_ids P n, mv_ModelID := cv_ModelID inp, mv_Version := candidate,
     mv_Description := cv_Description inp, mv_Metrics := cv_Metrics inp, mv_Stage := StageDev, mv_Status := StatusPendingUpload,
     mv_CreatedBy := ac_UserID actor, mv_CreatedAt := now\<rparr>"

lemma insertLoop_step:
  fixes P :: "('w, 'r) registryService"
  assumes inv: "inv (rg_write s)" and P: "rs_write P = W"
    and v: "v = attempt_version P actor inp now candidate (rg_ids s)"
  obtains (inserted) s' where "insertLoop P actor inp m now auto n candidate s = (Inr v, s')"
      "can_create_version (vw s) v (cv_IdempotencyKey inp)"
      "chg s s' (put_version_keyed v (cv_IdempotencyKey inp) (vw s)) [(modelEvent EventVersionCreated m actor now)\<lparr>ev_Version := v\<rparr>]"
  | (failed) s' e where "insertLoop P actor inp m now auto n candidate s = (Inl e, s')" "stl s s'" "e \<noteq> ErrVersionExists"
      "errors_Is e ErrWriteConflict \<longrightarrow> \<not> can_create_version (vw s) v (cv_IdempotencyKey inp) \<and> (\<not> auto \<longrightarrow> False) \<and> (n \<ge> maxAutoLabelAttempts \<or> Atoi candidate = None)"
      "healthy (rg_write s) \<and> list_all (finite_float \<circ> snd) (cv_Metrics inp) \<and> v_models (vw s) (cv_ModelID inp) \<noteq> None \<longrightarrow> errors_Is e ErrWriteConflict"
  | (pinned) s' where "insertLoop P actor inp m now auto n candidate s = (Inl ErrVersionExists, s')" "stl s s'" "\<not> auto"
      "\<not> can_create_version (vw s) v (cv_IdempotencyKey inp)"
  | (again) s' x where "auto" "n < maxAutoLabelAttempts" "Atoi candidate = Some x" "stl s s'" "rg_ids s' = Suc (rg_ids s)"
      "\<not> can_create_version (vw s) v (cv_IdempotencyKey inp)"
      "insertLoop P actor inp m now auto n candidate s = insertLoop P actor inp m now auto (Suc n) (itoa (x + 1)) s'"
proof -
  note outs = that
  define s1 where "s1 = s\<lparr>rg_ids := Suc (rg_ids s)\<rparr>"
  obtain a w where w: "ws_CreateVersion W v (cv_IdempotencyKey inp) (rg_write s) = (a, w)" by (cases "ws_CreateVersion W v (cv_IdempotencyKey inp) (rg_write s)")
  note c = create_version [OF inv w]
  have ow: "onWrite (ws_CreateVersion W v (cv_IdempotencyKey inp)) s1 = (a, s1\<lparr>rg_write := w\<rparr>)" using w by (simp add: onWrite_eq s1_def)
  have nid: "NewID P s = (rs_ids P (rg_ids s), s1)" by (simp add: NewID_def s1_def)
  note vd = v [unfolded attempt_version_def, symmetric]
  have fv: "mv_Stage v = StageDev" "mv_Status v = StatusPendingUpload" "mv_ModelID v = cv_ModelID inp" "mv_Metrics v = cv_Metrics inp" by (simp_all add: v attempt_version_def)
  have unf: "insertLoop P actor inp m now auto n candidate s = (case a of
           Inr created \<Rightarrow> (Inr created, emit ((modelEvent EventVersionCreated m actor now)\<lparr>ev_Version := created\<rparr>) (s1\<lparr>rg_write := w\<rparr>))
         | Inl err \<Rightarrow>
             if \<not> errors_Is err ErrWriteConflict then (Inl (Wrapf ''create version: '' err ''''), s1\<lparr>rg_write := w\<rparr>)
             else if \<not> auto then (Inl ErrVersionExists, s1\<lparr>rg_write := w\<rparr>)
             else if n \<ge> maxAutoLabelAttempts
             then (Inl (Wrapf ''auto-assign version label: '' ErrWriteConflict ('' after '' @ itoa (int n) @ '' attempts'')), s1\<lparr>rg_write := w\<rparr>)
             else (case Atoi candidate of
                None \<Rightarrow> (Inl (Wrapf (''auto-assign version label: non-numeric candidate '' @ quote candidate @ '': '') ErrWriteConflict ''''), s1\<lparr>rg_write := w\<rparr>)
              | Some x \<Rightarrow> insertLoop P actor inp m now auto (Suc n) (itoa (x + 1)) (s1\<lparr>rg_write := w\<rparr>)))"
    by (subst insertLoop.simps) (simp only: nid Let_def prod.case vd P ow)
  show thesis
  proof (cases a)
    case (Inr v')
    have "chg s (s1\<lparr>rg_write := w\<rparr>) (put_version_keyed v (cv_IdempotencyKey inp) (vw s)) []" using c Inr by (simp add: changed_def s1_def put_version_keyed_def)
    from changed_emit [OF this] show thesis using c Inr by (intro outs(1)) (simp_all add: unf)
  next
    case (Inl e)
    have st: "stl s (s1\<lparr>rg_write := w\<rparr>)" using c Inl by (simp add: still_def s1_def)
    have hl: "healthy (rg_write s) \<and> list_all (finite_float \<circ> snd) (cv_Metrics inp) \<and> v_models (vw s) (cv_ModelID inp) \<noteq> None \<longrightarrow> errors_Is e ErrWriteConflict"
      using c Inl fv by (auto split: if_splits)
    show thesis
    proof (cases "errors_Is e ErrWriteConflict")
      case False
      then show thesis using st hl by (intro outs(2) [of "Wrapf ''create version: '' e ''''" "s1\<lparr>rg_write := w\<rparr>"]) (simp_all add: unf Inl)
    next
      case True
      have nc: "\<not> can_create_version (vw s) v (cv_IdempotencyKey inp)" using c Inl True fv(1) by simp
      show thesis
      proof (cases "auto \<and> n < maxAutoLabelAttempts \<and> Atoi candidate \<noteq> None")
        case go: True
        then obtain x where "Atoi candidate = Some x" by blast
        moreover have "rg_ids (s1\<lparr>rg_write := w\<rparr>) = Suc (rg_ids s)" by (simp add: s1_def)
        moreover have "insertLoop P actor inp m now auto n candidate s = insertLoop P actor inp m now auto (Suc n) (itoa (x + 1)) (s1\<lparr>rg_write := w\<rparr>)"
          using go True \<open>Atoi candidate = Some x\<close> by (subst unf) (simp add: Inl)
        ultimately show thesis using go st nc by (intro outs(4) [of x "s1\<lparr>rg_write := w\<rparr>"]) blast+
      next
        case stop: False
        show thesis
        proof (cases "auto")
          case False
          then have "insertLoop P actor inp m now auto n candidate s = (Inl ErrVersionExists, s1\<lparr>rg_write := w\<rparr>)" using True by (subst unf) (simp add: Inl)
          from outs(3) [OF this st False nc] show thesis .
        next
          case at: True
          then have "n \<ge> maxAutoLabelAttempts \<or> Atoi candidate = None" using stop by auto
          then obtain e' where "insertLoop P actor inp m now auto n candidate s = (Inl e', s1\<lparr>rg_write := w\<rparr>)" "errors_Is e' ErrWriteConflict" "e' \<noteq> ErrVersionExists"
            using True at by (subst (asm) unf, cases "n \<ge> maxAutoLabelAttempts") (auto simp: Inl)
          then show thesis using st nc at stop by (intro outs(2) [of e' "s1\<lparr>rg_write := w\<rparr>"]) auto
        qed
      qed
    qed
  qed
qed

end

end
