(* ===== verification/RegistryCommands.thy ===== *)
theory RegistryCommands
  imports RegistryService
begin

text \<open>
  What every command of the registry does to the store, from the contract of the store alone: it changes nothing,
  or it makes exactly the change its name says and emits exactly the event of the change. The cases of
  the commands together give the refinement of the life cycle (\<open>RegistryLife\<close>) by any run of commands.
\<close>

section \<open>Cutting a version\<close>

context write_store
begin

lemma insertLoop_cases:
  fixes P :: "('w, 'r) registryService"
  assumes inv: "inv (rg_write s)" and P: "rs_write P = W" and run: "insertLoop P actor inp m now aut n candidate s = (r, s')"
  obtains (still) "stl s s'" "isl r"
  | (inserted) v lbl k where "r = Inr v" "v = attempt_version P actor inp now lbl k" "can_create_version (vw s) v (cv_IdempotencyKey inp)"
      "aut \<or> lbl = candidate"
      "chg s s' (put_version_keyed v (cv_IdempotencyKey inp) (vw s)) [(modelEvent EventVersionCreated m actor now)\<lparr>ev_Version := v\<rparr>]"
  using inv run
proof (induction "maxAutoLabelAttempts - n" arbitrary: n candidate s thesis rule: less_induct)
  case less
  define v where "v = attempt_version P actor inp now candidate (rg_ids s)"
  from less(4) P v_def show thesis
  proof (cases rule: insertLoop_step [where n = n and auto = aut and m = m])
    case (inserted t)
    then show thesis using less(5) less(3) [of v candidate "rg_ids s"] by (simp add: v_def)
  next
    case (failed t e)
    then show thesis using less(5) less(2) by simp
  next
    case (pinned t)
    then show thesis using less(5) less(2) by auto
  next
    case (again t x)
    have dec: "maxAutoLabelAttempts - Suc n < maxAutoLabelAttempts - n" using again(2) by simp
    have invt: "inv (rg_write t)" and vt: "vw t = vw s" using again(4) by (simp_all add: still_def)
    have run: "insertLoop P actor inp m now aut (Suc n) (itoa (x + 1)) t = (r, s')" using less(5) again(7) by simp
    show thesis
    proof (rule less(1) [OF dec _ _ invt run])
      assume "stl t s'" "isl r"
      then show thesis using less(2) still_trans [OF again(4)] by blast
    next
      fix u lbl k
      assume a: "r = Inr u" "u = attempt_version P actor inp now lbl k" "can_create_version (vw t) u (cv_IdempotencyKey inp)"
        "chg t s' (put_version_keyed u (cv_IdempotencyKey inp) (vw t)) [(modelEvent EventVersionCreated m actor now)\<lparr>ev_Version := u\<rparr>]"
      from still_changed [OF again(4) a(4)] show thesis using less(3) [OF a(1,2)] a(3) again(1) by (simp add: vt)
    qed
  qed
qed

end

context write_store
begin

lemma createFresh_cases:
  fixes P :: "('w, 'r) registryService"
  assumes inv: "inv (rg_write s)" and P: "rs_write P = W" and run: "createFresh P actor inp s = (r, s')"
  obtains (still) "stl s s'" "isl r"
  | (cut) m v now lbl k where "owned_model (vw s) actor (cv_ModelID inp) = Some m" "\<not> IsArchived m" "r = Inr v"
      "v = attempt_version P actor inp now lbl k" "TrimSpace (cv_Version inp) \<noteq> '''' \<longrightarrow> lbl = TrimSpace (cv_Version inp)"
      "can_create_version (vw s) v (cv_IdempotencyKey inp)"
      "chg s s' (put_version_keyed v (cv_IdempotencyKey inp) (vw s)) [(modelEvent EventVersionCreated m actor now)\<lparr>ev_Version := v\<rparr>]"
proof -
  note outs = that
  obtain a s1 where a: "loadOwnedModel P actor (cv_ModelID inp) s = (a, s1)" by (cases "loadOwnedModel P actor (cv_ModelID inp) s")
  note l = loadOwnedModel_run [OF inv P a]
  have st1: "stl s s1" and own: "\<And>m. a = Inr m \<Longrightarrow> owned_model (vw s) actor (cv_ModelID inp) = Some m" using l by blast+
  show thesis
  proof (cases "\<exists>m. a = Inr m \<and> \<not> IsArchived m")
    case False
    then have "s' = s1" "isl r" using run a by (auto simp: createFresh_def split: sum.splits if_splits)
    then show thesis using st1 outs(1) by simp
  next
    case True
    then obtain m where m: "a = Inr m" "\<not> IsArchived m" by blast
    have enter: thesis if st2: "stl s s2" and i: "insertLoop P actor inp m now aut 0 c s2 = (r, s')" and c: "aut \<or> c = TrimSpace (cv_Version inp)"
        and at: "aut \<longrightarrow> TrimSpace (cv_Version inp) = ''''" for s2 now aut c
    proof -
      have inv2: "inv (rg_write s2)" and v2: "vw s2 = vw s" using st2 by (simp_all add: still_def)
      from inv2 P i show thesis
      proof (cases rule: insertLoop_cases)
        case still
        then show thesis using outs(1) still_trans [OF st2] by blast
      next
        case (inserted v lbl k)
        have "TrimSpace (cv_Version inp) \<noteq> '''' \<longrightarrow> lbl = TrimSpace (cv_Version inp)" using inserted(4) c at by auto
        from outs(2) [OF own [OF m(1)] m(2) inserted(1,2) this] show thesis using inserted(3) still_changed [OF st2 inserted(5)] by (simp add: v2)
      qed
    qed
    show thesis
    proof (cases "TrimSpace (cv_Version inp) = ''''")
      case False
      have "stl s (s1\<lparr>rg_ticks := Suc (rg_ticks s1)\<rparr>)" using st1 by (simp add: still_def)
      from enter [OF this, of "rs_clock P (rg_ticks s1)" False] show thesis using run m False by (simp add: createFresh_def a Now_def)
    next
      case tr: True
      obtain b w where b: "ws_CountVersions W (cv_ModelID inp) (rg_write s1) = (b, w)" by (cases "ws_CountVersions W (cv_ModelID inp) (rg_write s1)")
      have inv1: "inv (rg_write s1)" using st1 by (simp add: still_def)
      have ow: "onWrite (ws_CountVersions W (cv_ModelID inp)) s1 = (b, s1\<lparr>rg_write := w\<rparr>)" using b by (simp add: onWrite_eq)
      have st2: "stl s (s1\<lparr>rg_write := w\<rparr>)" using st1 count_versions [OF inv1 b] by (simp add: still_def)
      show thesis
      proof (cases b)
        case (Inl e)
        then have "s' = s1\<lparr>rg_write := w\<rparr>" "isl r" using run m tr by (auto simp: createFresh_def a P ow)
        then show thesis using st2 outs(1) by simp
      next
        case (Inr x)
        have "stl s (s1\<lparr>rg_write := w, rg_ticks := Suc (rg_ticks s1)\<rparr>)" using st2 by (simp add: still_def)
        from enter [OF this, of "rs_clock P (rg_ticks s1)" True] show thesis using run m tr Inr by (simp add: createFresh_def a P ow Now_def)
      qed
    qed
  qed
qed

lemma CreateVersion_cases:
  fixes P :: "('w, 'r) registryService"
  assumes inv: "inv (rg_write s)" and P: "rs_write P = W" and run: "CreateVersion P actor inp s = (r, s')"
  obtains (still) "stl s s'"
  | (cut) m v now lbl k where "owned_model (vw s) actor (cv_ModelID inp) = Some m" "\<not> IsArchived m" "r = Inr v"
      "v = attempt_version P actor inp now lbl k" "TrimSpace (cv_Version inp) \<noteq> '''' \<longrightarrow> lbl = TrimSpace (cv_Version inp)"
      "can_create_version (vw s) v (cv_IdempotencyKey inp)"
      "chg s s' (put_version_keyed v (cv_IdempotencyKey inp) (vw s)) [(modelEvent EventVersionCreated m actor now)\<lparr>ev_Version := v\<rparr>]"
proof -
  note outs = that
  have fresh: thesis if st: "stl s s1" and f: "createFresh P actor inp s1 = (r, s')" for s1
  proof -
    have inv1: "inv (rg_write s1)" and vs: "vw s1 = vw s" using st by (simp_all add: still_def)
    from inv1 P f show thesis
    proof (cases rule: createFresh_cases)
      case still
      then show thesis using outs(1) still_trans [OF st] by blast
    next
      case (cut m v now lbl k)
      from outs(2) [OF _ cut(2,3,4,5)] cut(1,6) still_changed [OF st cut(7)] show thesis by (simp add: vs)
    qed
  qed
  have id: "stl s s" using inv by (rule still_refl)
  show thesis
  proof (cases "TrimSpace (cv_ModelID inp) = '''' \<or> cv_IdempotencyKey inp = ''''")
    case True
    then show thesis using run id outs(1) fresh [OF id] by (auto simp: CreateVersion_def split: if_splits)
  next
    case False
    obtain a w where w: "ws_LookupVersionByIdempotencyKey W (cv_ModelID inp) (cv_IdempotencyKey inp) (rg_write s) = (a, w)"
      by (cases "ws_LookupVersionByIdempotencyKey W (cv_ModelID inp) (cv_IdempotencyKey inp) (rg_write s)")
    have st: "stl s (s\<lparr>rg_write := w\<rparr>)" using lookup_version_key [OF inv w] by (auto simp: still_def Let_def)
    have ow: "onWrite (ws_LookupVersionByIdempotencyKey W (cv_ModelID inp) (cv_IdempotencyKey inp)) s = (a, s\<lparr>rg_write := w\<rparr>)" using w by (simp add: onWrite_eq)
    show thesis using run False st outs(1) fresh [OF st] by (cases a) (auto simp: CreateVersion_def P ow split: if_splits)
  qed
qed

end

section \<open>Keyed commands\<close>

text \<open>
  The commands that move a version or a model record their key after the change. When recording the key or loading the model
  for the event fails, the change stays and no event is emitted.
\<close>

definition keyed :: "string \<Rightarrow> Command \<Rightarrow> string \<Rightarrow> string \<Rightarrow> regView \<Rightarrow> regView" where
  "keyed t c k i A = (if k = '''' then A else A\<lparr>v_ledger := (v_ledger A)((t, c, k) \<mapsto> i)\<rparr>)"

definition key_new :: "regView \<Rightarrow> string \<Rightarrow> Command \<Rightarrow> string \<Rightarrow> bool" where
  "key_new A t c k \<longleftrightarrow> k = '''' \<or> v_ledger A (t, c, k) = None"

definition settled :: "('w \<Rightarrow> regView) \<Rightarrow> ('w \<Rightarrow> bool) \<Rightarrow> ('w \<Rightarrow> bool) \<Rightarrow> ('w, 'r) regState \<Rightarrow> ('w, 'r) regState \<Rightarrow> regView \<Rightarrow> regView \<Rightarrow>
    ProjectionEvent list \<Rightarrow> bool \<Rightarrow> bool" where
  "settled vf iv hl s s' A K evs ok \<longleftrightarrow>
     (if ok then changed vf iv hl s s' K evs else \<not> hl (rg_write s) \<and> (changed vf iv hl s s' A [] \<or> changed vf iv hl s s' K []))"

lemma keyed_models [simp]: "v_models (keyed t c k i A) = v_models A" "v_versions (keyed t c k i A) = v_versions A"
  by (simp_all add: keyed_def)

lemma changed_still: "changed vf iv hl s s1 A evs \<Longrightarrow> still vf iv hl s1 s2 \<Longrightarrow> changed vf iv hl s s2 A evs"
  by (simp add: still_def changed_def)

context write_store
begin

lemma recordCommand_change:
  assumes chg: "chg s s1 A []" and P: "rs_write P = W" and run: "recordCommandIdempotency P t c k i s1 = (oe, s2)"
    and new: "key_new A t c k"
  shows "(case oe of Some e \<Rightarrow> \<not> healthy (rg_write s) \<and> chg s s2 A [] | None \<Rightarrow> chg s s2 (keyed t c k i A) [])"
proof -
  have inv: "inv (rg_write s1)" and v: "vw s1 = A" and rest: "rg_read s1 = rg_read s" "rg_emitted s1 = rg_emitted s"
    "healthy (rg_write s) \<longrightarrow> healthy (rg_write s1)" using chg by (simp_all add: changed_def)
  have "k = '''' \<or> v_ledger (vw s1) (t, c, k) = None" using new by (simp add: key_new_def v)
  from recordCommand_run [OF inv P run this] show ?thesis using rest
    by (cases oe) (auto simp: changed_def keyed_def v)
qed

text \<open>After a change: record the key, load the model of the version, emit.\<close>

lemma get_model_change:
  assumes chg: "chg s s1 A evs" and m: "v_models A i = Some m" and run: "onWrite (ws_GetModel W i) s1 = (r, s2)"
  shows "chg s s2 A evs \<and> (case r of Inl e \<Rightarrow> \<not> healthy (rg_write s) | Inr m' \<Rightarrow> m' = m)"
proof -
  have inv: "inv (rg_write s1)" and v: "vw s1 = A" and hl: "healthy (rg_write s) \<longrightarrow> healthy (rg_write s1)" using chg by (simp_all add: changed_def)
  from get_model_run [OF inv run] v m have "stl s1 s2" "reads (Some m) r" "healthy (rg_write s1) \<longrightarrow> r = Inr m" by (simp_all add: answer_def)
  then show ?thesis using changed_still [OF chg] hl by (cases r) (auto simp: reads_def)
qed

end

text \<open>The version a confirmation makes of a pending one.\<close>

definition confirm :: "MarkVersionReadyInput \<Rightarrow> ModelVersion \<Rightarrow> ModelVersion" where
  "confirm inp v = (if mk_Success inp
     then v\<lparr>mv_Status := StatusReady, mv_ArtifactPath := mk_ArtifactPath inp, mv_ArtifactDigest := mk_ArtifactDigest inp, mv_SizeBytes := mk_SizeBytes inp\<rparr>
     else v\<lparr>mv_Status := StatusFailed\<rparr>)"

definition confirmable :: "regView \<Rightarrow> Actor \<Rightarrow> MarkVersionReadyInput \<Rightarrow> ModelVersion \<Rightarrow> bool" where
  "confirmable A actor inp v \<longleftrightarrow> TrimSpace (mk_VersionID inp) \<noteq> '''' \<and> key_new A (ac_Team actor) CommandMarkVersionReady (mk_IdempotencyKey inp)
     \<and> owned_version A actor (mk_VersionID inp) = Some v \<and> mv_Status v = StatusPendingUpload"

lemma confirm_keeps: "mv_ID (confirm inp v) = mv_ID v" "mv_ModelID (confirm inp v) = mv_ModelID v" "mv_Stage (confirm inp v) = mv_Stage v"
  "mv_Status (confirm inp v) \<noteq> StatusUnspecified"
  by (simp_all add: confirm_def)

lemma owned_versionD:
  assumes "owned_version A actor i = Some v"
  shows "v_versions A i = Some v" "\<exists>m. v_models A (mv_ModelID v) = Some m \<and> md_Team m = ac_Team actor"
  using assms by (auto simp: owned_version_def owned_model_def split: option.splits if_splits)

lemma owned_modelD:
  assumes "owned_model A actor i = Some m"
  shows "v_models A i = Some m" "md_Team m = ac_Team actor"
  using assms by (auto simp: owned_model_def split: option.splits if_splits)

context write_store
begin

lemma lookup_stops:
  assumes inv: "inv (rg_write s)" and P: "rs_write P = W" and load: "loads view inv healthy load L"
    and run: "lookupCommandIdempotency P t c k load s = (a, s1)"
  shows "stl s s1" "a = Inr None \<Longrightarrow> key_new (vw s) t c k" "a \<noteq> Inr None \<Longrightarrow> healthy (rg_write s) \<Longrightarrow> \<not> key_new (vw s) t c k"
proof -
  note l = lookupCommand_run [OF inv P load run]
  show "stl s s1" using l by (rule conjunct1)
  show "key_new (vw s) t c k" if "a = Inr None"
    using l [THEN conjunct2, THEN conjunct2, THEN conjunct1] that unfolding key_new_def by (rule mp)
  show "\<not> key_new (vw s) t c k" if "a \<noteq> Inr None" "healthy (rg_write s)"
    using l [THEN conjunct2, THEN conjunct2, THEN conjunct2, THEN mp, OF that(2), THEN conjunct1] that(1) unfolding key_new_def by iprover
qed

lemma gate_stops:
  assumes st: "stl s s1" and P: "rs_write P = W" and run: "loadOwnedVersion P actor i s1 = (b, s2)"
  shows "stl s s2" "b = Inr v \<Longrightarrow> owned_version (vw s) actor i = Some v" "isl b \<Longrightarrow> healthy (rg_write s) \<Longrightarrow> owned_version (vw s) actor i = None"
proof -
  have inv1: "inv (rg_write s1)" and vs: "view (rg_write s1) = view (rg_write s)" and hs: "healthy (rg_write s) \<Longrightarrow> healthy (rg_write s1)"
    using st by (simp_all add: still_def)
  note g = loadOwnedVersion_run [OF inv1 P run, unfolded vs]
  show "stl s s2" using g still_trans [OF st] by blast
  show "b = Inr v \<Longrightarrow> owned_version (vw s) actor i = Some v" using g by blast
  show "isl b \<Longrightarrow> healthy (rg_write s) \<Longrightarrow> owned_version (vw s) actor i = None"
  proof -
    assume "isl b" "healthy (rg_write s)"
    then have "b = (case owned_version (vw s) actor i of Some v \<Rightarrow> Inr v | None \<Rightarrow> Inl ErrVersionNotFound)" using g hs by blast
    then show ?thesis using \<open>isl b\<close> by (cases "owned_version (vw s) actor i") simp_all
  qed
qed

lemma update_status_change:
  assumes st: "stl s s1" and w: "onWrite (ws_UpdateVersionStatus W v1) s1 = (a, s2)" and v: "v_versions (vw s) (mv_ID v) = Some v"
    and v1: "v1 = confirm inp v"
  shows "case a of Inl e \<Rightarrow> stl s s2 \<and> \<not> healthy (rg_write s) | Inr u \<Rightarrow> u = v1 \<and> chg s s2 (put_version v1 (vw s)) []"
proof -
  have inv1: "inv (rg_write s1)" and vs: "view (rg_write s1) = view (rg_write s)" and hs: "healthy (rg_write s) \<longrightarrow> healthy (rg_write s1)"
    and kept: "rg_read s1 = rg_read s" "rg_emitted s1 = rg_emitted s"
    using st by (simp_all add: still_def)
  from w obtain x where x: "ws_UpdateVersionStatus W v1 (rg_write s1) = (a, x)" "s2 = s1\<lparr>rg_write := x\<rparr>" by (auto simp: onWrite_eq)
  note u = update_status [OF inv1 x(1), unfolded vs]
  have new: "v\<lparr>mv_Status := mv_Status v1, mv_Stage := mv_Stage v1, mv_ArtifactPath := mv_ArtifactPath v1, mv_ArtifactDigest := mv_ArtifactDigest v1,
      mv_SizeBytes := mv_SizeBytes v1\<rparr> = v1" by (simp add: v1 confirm_def)
  show ?thesis
  proof (cases a)
    case (Inl e)
    have "inv x" "view x = vw s" "healthy (rg_write s) \<longrightarrow> healthy x" using u hs by (auto simp: Inl)
    then have "stl s s2" using kept by (simp add: still_def x(2))
    moreover have "\<not> healthy (rg_write s)" using u hs v by (auto simp: Inl v1 confirm_keeps)
    ultimately show ?thesis by (simp add: Inl)
  next
    case (Inr z)
    have "inv x" "z = v1" "view x = put_version v1 (vw s)" "healthy (rg_write s) \<longrightarrow> healthy x"
      using u v hs new by (auto simp: Inr v1 confirm_keeps)
    then show ?thesis using kept by (simp add: Inr changed_def x(2))
  qed
qed

end

context write_store
begin

lemma MarkVersionReady_cases:
  fixes P :: "('w, 'r) registryService"
  assumes inv: "inv (rg_write s)" and P: "rs_write P = W" and run: "MarkVersionReady P actor inp s = (r, s')"
  obtains (still) "stl s s'" "healthy (rg_write s) \<longrightarrow> \<not> (\<exists>v. confirmable (vw s) actor inp v)"
  | (confirmed) v m now where "confirmable (vw s) actor inp v" "v_models (vw s) (mv_ModelID v) = Some m"
      "\<not> isl r \<longrightarrow> r = Inr (confirm inp v)"
      "settled view inv healthy s s' (put_version (confirm inp v) (vw s))
         (keyed (ac_Team actor) CommandMarkVersionReady (mk_IdempotencyKey inp) (mv_ID v) (put_version (confirm inp v) (vw s)))
         (if mk_Success inp then [(modelEvent EventVersionReady m actor now)\<lparr>ev_Version := confirm inp v\<rparr>] else []) (\<not> isl r)"
proof -
  note outs = that
  let ?lk = "lookupCommandIdempotency P (ac_Team actor) CommandMarkVersionReady (mk_IdempotencyKey inp) (\<lambda>i. onWrite (ws_GetVersion (rs_write P) i)) s"
  obtain a s1 where a: "?lk = (a, s1)" by (cases ?lk)
  note lk = lookup_stops [OF inv P loads_version a [unfolded P]]
  obtain b s2 where b: "loadOwnedVersion P actor (mk_VersionID inp) s1 = (b, s2)" by (cases "loadOwnedVersion P actor (mk_VersionID inp) s1")
  note g = gate_stops [OF lk(1) P b]
  have id: "stl s s" using inv by (rule still_refl)
  show thesis
  proof (cases "TrimSpace (mk_VersionID inp) = '''' \<or> a \<noteq> Inr None \<or> isl b \<or> (\<exists>v. b = Inr v \<and> mv_Status v \<noteq> StatusPendingUpload)")
    case True
    have "healthy (rg_write s) \<longrightarrow> \<not> (\<exists>v. confirmable (vw s) actor inp v)"
      using True lk(3) g(2,3) unfolding confirmable_def by (metis option.distinct(1) option.inject)
    moreover have "s' = s \<or> s' = s1 \<or> s' = s2"
      using run True unfolding MarkVersionReady_def a b by (auto simp: b split: if_splits sum.splits option.splits)
    ultimately show thesis using outs(1) id lk(1) g(1) by blast
  next
    case False
    then obtain v where v: "b = Inr v" "mv_Status v = StatusPendingUpload" and an: "a = Inr None" and tr: "TrimSpace (mk_VersionID inp) \<noteq> ''''" by (cases b) auto
    have own: "owned_version (vw s) actor (mk_VersionID inp) = Some v" using g(2) v(1) by blast
    have kn: "key_new (vw s) (ac_Team actor) CommandMarkVersionReady (mk_IdempotencyKey inp)" using lk(2) an by blast
    have cf: "confirmable (vw s) actor inp v" using own kn tr v(2) by (simp add: confirmable_def)
    obtain m where m: "v_models (vw s) (mv_ModelID v) = Some m" using owned_versionD(2) [OF own] by blast
    have vid: "v_versions (vw s) (mv_ID v) = Some v" using owned_versionD(1) [OF own] view_okD(6) [OF view_wf [OF inv]] by metis
    define now where "now = rs_clock P (rg_ticks s2)"
    define s3 where "s3 = s2\<lparr>rg_ticks := Suc (rg_ticks s2)\<rparr>"
    have st3: "stl s s3" using g(1) by (simp add: still_def s3_def)
    obtain c s4 where c: "onWrite (ws_UpdateVersionStatus W (confirm inp v)) s3 = (c, s4)" by (cases "onWrite (ws_UpdateVersionStatus W (confirm inp v)) s3")
    note u = update_status_change [OF st3 c vid refl]
    have unf: "MarkVersionReady P actor inp s = (case onWrite (ws_UpdateVersionStatus W (confirm inp v)) s3 of
                        (Inl err, s4) \<Rightarrow> (Inl (Wrapf ''update version status: '' err ''''), s4)
                      | (Inr updated, s4) \<Rightarrow>
                          (case recordCommandIdempotency P (ac_Team actor) CommandMarkVersionReady (mk_IdempotencyKey inp) (mv_ID updated) s4 of
                             (Some err, s5) \<Rightarrow> (Inl err, s5)
                           | (None, s5) \<Rightarrow>
                               if mk_Success inp then
                                 (case onWrite (ws_GetModel W (mv_ModelID updated)) s5 of
                                    (Inl mErr, s6) \<Rightarrow> (Inl (Wrapf ''load owning model for ready event: '' mErr ''''), s6)
                                  | (Inr m, s6) \<Rightarrow> (Inr updated, emit ((modelEvent EventVersionReady m actor now)\<lparr>ev_Version := updated\<rparr>) s6))
                               else (Inr updated, s5)))"
      unfolding MarkVersionReady_def a b an v(1) P now_def using tr v(2)
      by (simp add: b v(1) Now_def Let_def s3_def a [unfolded P] an confirm_def [symmetric])
    show thesis
    proof (cases c)
      case (Inl e)
      then have "s' = s4" using run unfolding unf c by simp
      then show thesis using u outs(1) by (simp add: Inl)
    next
      case (Inr z)
      let ?A = "put_version (confirm inp v) (vw s)"
      let ?K = "keyed (ac_Team actor) CommandMarkVersionReady (mk_IdempotencyKey inp) (mv_ID v) ?A"
      have z: "z = confirm inp v" and ch: "chg s s4 ?A []" using u by (simp_all add: Inr)
      have kn': "key_new ?A (ac_Team actor) CommandMarkVersionReady (mk_IdempotencyKey inp)" using kn by (simp add: key_new_def put_version_def)
      obtain e s5 where e: "recordCommandIdempotency P (ac_Team actor) CommandMarkVersionReady (mk_IdempotencyKey inp) (mv_ID v) s4 = (e, s5)"
        by (cases "recordCommandIdempotency P (ac_Team actor) CommandMarkVersionReady (mk_IdempotencyKey inp) (mv_ID v) s4")
      note rc = recordCommand_change [OF ch P e kn']
      obtain d s6 where d: "onWrite (ws_GetModel W (mv_ModelID v)) s5 = (d, s6)" by (cases "onWrite (ws_GetModel W (mv_ModelID v)) s5")
      have unf2: "MarkVersionReady P actor inp s = (case e of Some err \<Rightarrow> (Inl err, s5)
          | None \<Rightarrow> if mk_Success inp then (case d of Inl mErr \<Rightarrow> (Inl (Wrapf ''load owning model for ready event: '' mErr ''''), s6)
                      | Inr m \<Rightarrow> (Inr (confirm inp v), emit ((modelEvent EventVersionReady m actor now)\<lparr>ev_Version := confirm inp v\<rparr>) s6))
             else (Inr (confirm inp v), s5))"
        unfolding unf c Inr z by (cases e; cases d) (simp_all add: confirm_keeps e d)
      have gm: "chg s s6 ?K [] \<and> (case d of Inl _ \<Rightarrow> \<not> healthy (rg_write s) | Inr m' \<Rightarrow> m' = m)" if "e = None"
        using get_model_change [OF _ _ d, of s ?K "[]" m] rc that m by (simp add: put_version_def)
      show thesis
        by (rule outs(2) [OF cf m])
          (use run rc gm in \<open>auto simp: unf2 settled_def dest: changed_emit split: option.splits if_splits sum.splits\<close>)
    qed
  qed
qed

end

section \<open>Promotion\<close>

definition promotable :: "regView \<Rightarrow> Actor \<Rightarrow> PromoteVersionInput \<Rightarrow> ModelVersion \<Rightarrow> bool" where
  "promotable A actor inp v \<longleftrightarrow> TrimSpace (pv_VersionID inp) \<noteq> '''' \<and> IsValid (pv_TargetStage inp)
     \<and> key_new A (ac_Team actor) CommandPromoteVersion (pv_IdempotencyKey inp) \<and> owned_version A actor (pv_VersionID inp) = Some v
     \<and> CanTransitionTo (mv_Stage v) (pv_TargetStage inp)
     \<and> (pv_TargetStage inp = StageStaging \<or> pv_TargetStage inp = StageProduction \<longrightarrow> mv_Status v = StatusReady)"

text \<open>The version a promotion of \<open>v\<close> to \<open>t\<close> displaces: the incumbent, archived, or the zero version.\<close>

definition displaced :: "regView \<Rightarrow> ModelVersion \<Rightarrow> ModelStage \<Rightarrow> ModelVersion \<Rightarrow> bool" where
  "displaced A v t q \<longleftrightarrow> (if t = StageProduction \<and> (\<exists>d. in_production A (mv_ModelID v) d)
     then \<exists>u. v_versions A (mv_ID u) = Some u \<and> in_production A (mv_ModelID v) (mv_ID u) \<and> q = u\<lparr>mv_Stage := StageArchived\<rparr>
     else q = zeroVersion)"

definition demoted_view :: "ModelVersion \<Rightarrow> regView \<Rightarrow> regView" where
  "demoted_view q A = (if mv_ID q \<noteq> '''' then set_stage (mv_ID q) (mv_Stage q) A else A)"

lemma zero_id [simp]: "mv_ID zeroVersion = ''''"
  by (simp add: zeroVersion_def)

lemma CanTransitionTo_neq: "CanTransitionTo a b \<Longrightarrow> a \<noteq> b"
  by (cases a) auto

lemma displaced_view:
  assumes "displaced A v t q"
  shows "demoted_view q A = A \<or> (\<exists>d. t = StageProduction \<and> in_production A (mv_ModelID v) d \<and> demoted_view q A = set_stage d StageArchived A)"
  using assms by (auto simp: displaced_def demoted_view_def split: if_splits)

lemma demoted_view_ok: "displaced A v t q \<Longrightarrow> view_ok A \<Longrightarrow> view_ok (demoted_view q A)"
  using displaced_view [of A v t q] set_stage_demoted by metis

text \<open>With its incumbent archived a model serves nothing.\<close>

lemma demoted_none_left:
  assumes q: "displaced A v t q" and t: "t = StageProduction" and ok: "view_ok A" and ids: "\<And>d. in_production A (mv_ModelID v) d \<Longrightarrow> d \<noteq> ''''"
  shows "\<not> in_production (demoted_view q A) (mv_ModelID v) j"
proof (cases "\<exists>d. in_production A (mv_ModelID v) d")
  case False
  then show ?thesis using q by (simp add: displaced_def demoted_view_def)
next
  case True
  then obtain u where u: "in_production A (mv_ModelID v) (mv_ID u)" "q = u\<lparr>mv_Stage := StageArchived\<rparr>" using q t by (auto simp: displaced_def)
  show ?thesis
  proof
    assume a: "in_production (demoted_view q A) (mv_ModelID v) j"
    have "in_production A (mv_ModelID v) j" "j \<noteq> mv_ID u"
      using a u ids [OF u(1)] by (auto simp: in_production_def demoted_view_def set_stage_versions split: if_splits)
    then show False using view_okD(4) [OF ok] u(1) unfolding single_production_def by blast
  qed
qed

text \<open>A stage change into well-formed contents finds the place free.\<close>

lemma set_stage_found_free:
  assumes ok: "view_ok (set_stage i StageProduction B)" and v: "v_versions B i = Some v" and ns: "mv_Stage v \<noteq> StageProduction"
  shows "\<not> in_production B (mv_ModelID v) j"
proof
  assume j: "in_production B (mv_ModelID v) j"
  have ji: "j \<noteq> i" using j v ns by (auto simp: in_production_def)
  have "in_production (set_stage i StageProduction B) (mv_ModelID v) j" using j ji by (simp add: in_production_def set_stage_versions)
  moreover have "in_production (set_stage i StageProduction B) (mv_ModelID v) i" using v by (simp add: in_production_def set_stage_versions)
  ultimately show False using view_okD(4) [OF ok] ji unfolding single_production_def by blast
qed

context write_store
begin

lemma findDemoted_run:
  fixes P :: "('w, 'r) registryService"
  assumes st: "stl s s1" and P: "rs_write P = W" and run: "findDemoted P t (v\<lparr>mv_Stage := t\<rparr>) s1 = (a, s2)"
    and v: "v_versions (vw s) (mv_ID v) = Some v" and ns: "mv_Stage v \<noteq> t"
  shows "stl s s2 \<and> (case a of Inl e \<Rightarrow> \<not> healthy (rg_write s) | Inr q \<Rightarrow> displaced (vw s) v t q)"
proof (cases "t = StageProduction")
  case False
  then show ?thesis using run st by (auto simp: findDemoted_def displaced_def)
next
  case t: True
  have inv1: "inv (rg_write s1)" and vs: "view (rg_write s1) = view (rg_write s)" and hs: "healthy (rg_write s) \<longrightarrow> healthy (rg_write s1)"
    using st by (simp_all add: still_def)
  obtain b w where b: "ws_FindProductionVersion W (mv_ModelID v) (rg_write s1) = (b, w)" by (cases "ws_FindProductionVersion W (mv_ModelID v) (rg_write s1)")
  note f = find_production [OF inv1 b, unfolded vs]
  have ow: "onWrite (ws_FindProductionVersion W (mv_ModelID v)) s1 = (b, s1\<lparr>rg_write := w\<rparr>)" using b by (simp add: onWrite_eq)
  have kept: "rg_read s1 = rg_read s" "rg_emitted s1 = rg_emitted s" using st by (simp_all add: still_def)
  have st2: "stl s (s1\<lparr>rg_write := w\<rparr>)" unfolding still_def using f hs kept by simp
  show ?thesis
  proof (cases b)
    case (Inl e)
    have none: "errors_Is e ErrRecordNotFound \<longrightarrow> (\<forall>i. \<not> in_production (vw s) (mv_ModelID v) i)" "healthy (rg_write s) \<longrightarrow> e = ErrRecordNotFound"
      using f hs by (simp_all add: Inl)
    then show ?thesis using run st2 t by (auto simp: findDemoted_def P ow Inl displaced_def split: if_splits)
  next
    case (Inr u)
    have u: "v_versions (vw s) (mv_ID u) = Some u" "in_production (vw s) (mv_ModelID v) (mv_ID u)" using f by (simp_all add: Inr)
    have ne: "mv_ID u \<noteq> mv_ID v"
    proof
      assume eq: "mv_ID u = mv_ID v"
      have "Some u = Some v" using trans [OF u(1) [unfolded eq, symmetric] v] .
      then have "u = v" by (rule option.inject [THEN iffD1])
      moreover have "mv_Stage u = StageProduction" using u(2) unfolding in_production_def u(1) by blast
      ultimately show False using ns t by blast
    qed
    then have "a = Inr (u\<lparr>mv_Stage := StageArchived\<rparr>)" "s2 = s1\<lparr>rg_write := w\<rparr>" using run t by (auto simp: findDemoted_def P ow Inr)
    then show ?thesis using st2 u t unfolding displaced_def by auto
  qed
qed

end

context write_store
begin

lemma promote_tx_change:
  assumes st: "stl s s1" and w: "onWrite (ws_PromoteVersionTx W (v\<lparr>mv_Stage := t\<rparr>) q) s1 = (a, s2)" and v: "v_versions (vw s) (mv_ID v) = Some v"
    and edge: "CanTransitionTo (mv_Stage v) t" and q: "displaced (vw s) v t q"
  shows "case a of
      Inl e \<Rightarrow> stl s s2 \<and> (healthy (rg_write s) \<longrightarrow> (\<exists>d. in_production (vw s) (mv_ModelID v) d \<and> d = ''''))
    | Inr x \<Rightarrow> x = (v\<lparr>mv_Stage := t\<rparr>, q) \<and> chg s s2 (set_stage (mv_ID v) t (demoted_view q (vw s))) []"
proof -
  have inv1: "inv (rg_write s1)" and vs: "view (rg_write s1) = view (rg_write s)" and hs: "healthy (rg_write s) \<longrightarrow> healthy (rg_write s1)"
    and kept: "rg_read s1 = rg_read s" "rg_emitted s1 = rg_emitted s" using st by (simp_all add: still_def)
  from w obtain x where x: "ws_PromoteVersionTx W (v\<lparr>mv_Stage := t\<rparr>) q (rg_write s1) = (a, x)" "s2 = s1\<lparr>rg_write := x\<rparr>" by (auto simp: onWrite_eq)
  note p = promote_tx [OF inv1 x(1), unfolded vs, folded demoted_view_def]
  have ok: "view_ok (vw s)" using view_wf [OF inv1] vs by simp
  show ?thesis
  proof (cases a)
    case (Inr y)
    have "inv x" "y = (v\<lparr>mv_Stage := t\<rparr>, q)" "view x = set_stage (mv_ID v) t (demoted_view q (vw s))" "healthy (rg_write s) \<longrightarrow> healthy x"
      using p hs by (auto simp: Inr)
    then show ?thesis using kept by (simp add: Inr changed_def x(2))
  next
    case (Inl e)
    have px: "inv x" "view x = vw s" "healthy (rg_write s) \<longrightarrow> healthy x" using p hs by (auto simp: Inl)
    then have "stl s s2" using kept by (simp add: still_def x(2))
    moreover have "\<exists>d. in_production (vw s) (mv_ModelID v) d \<and> d = ''''" if hl: "healthy (rg_write s)"
    proof (rule ccontr)
      assume "\<not> ?thesis"
      then have ids: "\<And>d. in_production (vw s) (mv_ModelID v) d \<Longrightarrow> d \<noteq> ''''" by blast
      have dok: "view_ok (demoted_view q (vw s))" using demoted_view_ok [OF q ok] .
      have qv: "mv_ID q \<noteq> '''' \<longrightarrow> v_versions (vw s) (mv_ID q) \<noteq> None" using q by (auto simp: displaced_def split: if_splits)
      have mid: "\<forall>u. v_versions (demoted_view q (vw s)) (mv_ID v) = Some u \<longrightarrow> mv_ModelID u = mv_ModelID v"
        using v by (auto simp: demoted_view_def set_stage_versions split: if_splits)
      have tu: "t \<noteq> StageUnspecified" using edge by (cases "mv_Stage v") auto
      have "view_ok (set_stage (mv_ID v) t (demoted_view q (vw s)))"
        by (rule view_ok_set_stage [OF dok tu]) (use mid demoted_none_left [OF q _ ok ids] in auto)
      then have "a = Inr (v\<lparr>mv_Stage := t\<rparr>, q)" using p hs hl v dok qv by simp
      then show False using Inl by simp
    qed
    ultimately show ?thesis by (simp add: Inl)
  qed
qed

end

context write_store
begin

text \<open>The steps of a promotion after its gates: displace, write, record, load the model, emit.\<close>

lemma promote_tail:
  fixes P :: "('w, 'r) registryService"
  assumes st: "stl s s3" and P: "rs_write P = W" and v: "v_versions (vw s) (mv_ID v) = Some v" and m: "v_models (vw s) (mv_ModelID v) = Some m"
    and edge: "CanTransitionTo (mv_Stage v) t" and kn: "key_new (vw s) (ac_Team actor) CommandPromoteVersion k"
    and run: "(r, s') = (case findDemoted P t (v\<lparr>mv_Stage := t\<rparr>) s3 of
        (Inl err, s4) \<Rightarrow> (Inl err, s4)
      | (Inr demoted, s4) \<Rightarrow>
          (case onWrite (ws_PromoteVersionTx W (v\<lparr>mv_Stage := t\<rparr>) demoted) s4 of
             (Inl err, s5) \<Rightarrow> (Inl (Wrapf ''promote tx: '' err ''''), s5)
           | (Inr (newPromoted, newDemoted), s5) \<Rightarrow>
               (case recordCommandIdempotency P (ac_Team actor) CommandPromoteVersion k (mv_ID newPromoted) s5 of
                  (Some err, s6) \<Rightarrow> (Inl err, s6)
                | (None, s6) \<Rightarrow>
                    (case onWrite (ws_GetModel W (mv_ModelID newPromoted)) s6 of
                       (Inl mErr, s7) \<Rightarrow> (Inl (Wrapf ''load owning model for promote event: '' mErr ''''), s7)
                     | (Inr m, s7) \<Rightarrow> (Inr \<lparr>pr_Promoted = newPromoted, pr_Demoted = newDemoted\<rparr>,
                         emit ((modelEvent EventModelPromoted m actor now)\<lparr>ev_Version := newPromoted, ev_DemotedVersion := newDemoted,
                           ev_FromStage := mv_Stage v, ev_ToStage := t\<rparr>) s7)))))"
  obtains (still) "stl s s'" "isl r" "healthy (rg_write s) \<longrightarrow> in_production (vw s) (mv_ModelID v) ''''"
  | (moved) q where "displaced (vw s) v t q" "\<not> isl r \<longrightarrow> r = Inr \<lparr>pr_Promoted = v\<lparr>mv_Stage := t\<rparr>, pr_Demoted = q\<rparr>"
      "settled view inv healthy s s' (set_stage (mv_ID v) t (demoted_view q (vw s)))
         (keyed (ac_Team actor) CommandPromoteVersion k (mv_ID v) (set_stage (mv_ID v) t (demoted_view q (vw s))))
         [(modelEvent EventModelPromoted m actor now)\<lparr>ev_Version := v\<lparr>mv_Stage := t\<rparr>, ev_DemotedVersion := q, ev_FromStage := mv_Stage v, ev_ToStage := t\<rparr>] (\<not> isl r)"
proof -
  note outs = that
  obtain a s4 where a: "findDemoted P t (v\<lparr>mv_Stage := t\<rparr>) s3 = (a, s4)" by (cases "findDemoted P t (v\<lparr>mv_Stage := t\<rparr>) s3")
  note f = findDemoted_run [OF st P a v CanTransitionTo_neq [OF edge]]
  show thesis
  proof (cases a)
    case (Inl e)
    have "stl s s4" "\<not> healthy (rg_write s)" using f by (simp_all add: Inl)
    then show thesis using run outs(1) by (simp add: a Inl)
  next
    case (Inr q)
    have st4: "stl s s4" and q: "displaced (vw s) v t q" using f by (simp_all add: Inr)
    let ?tx = "onWrite (ws_PromoteVersionTx W (v\<lparr>mv_Stage := t\<rparr>) q) s4"
    obtain b s5 where b: "?tx = (b, s5)" by (cases ?tx)
    note p = promote_tx_change [OF st4 b v edge q]
    let ?A = "set_stage (mv_ID v) t (demoted_view q (vw s))"
    let ?K = "keyed (ac_Team actor) CommandPromoteVersion k (mv_ID v) ?A"
    let ?e = "(modelEvent EventModelPromoted m actor now)\<lparr>ev_Version := v\<lparr>mv_Stage := t\<rparr>, ev_DemotedVersion := q, ev_FromStage := mv_Stage v, ev_ToStage := t\<rparr>"
    show thesis
    proof (cases b)
      case I: (Inl e)
      have "stl s s5" "healthy (rg_write s) \<longrightarrow> in_production (vw s) (mv_ModelID v) ''''" using p by (auto simp: I)
      then show thesis using run outs(1) by (simp add: a Inr b I)
    next
      case I: (Inr y)
      have y: "y = (v\<lparr>mv_Stage := t\<rparr>, q)" and ch: "chg s s5 ?A []" using p by (simp_all add: I)
      have led: "v_ledger ?A = v_ledger (vw s)" and mod: "v_models ?A = v_models (vw s)" by (auto simp: demoted_view_def set_stage_def split: option.splits)
      have kn': "key_new ?A (ac_Team actor) CommandPromoteVersion k" using kn by (simp add: key_new_def led)
      obtain c s6 where c: "recordCommandIdempotency P (ac_Team actor) CommandPromoteVersion k (mv_ID v) s5 = (c, s6)"
        by (cases "recordCommandIdempotency P (ac_Team actor) CommandPromoteVersion k (mv_ID v) s5")
      note rc = recordCommand_change [OF ch P c kn']
      obtain d s7 where d: "onWrite (ws_GetModel W (mv_ModelID v)) s6 = (d, s7)" by (cases "onWrite (ws_GetModel W (mv_ModelID v)) s6")
      have gm: "chg s s7 ?K [] \<and> (case d of Inl _ \<Rightarrow> \<not> healthy (rg_write s) | Inr m' \<Rightarrow> m' = m)" if "c = None"
        using get_model_change [OF _ _ d, of s ?K "[]" m] rc that m mod by simp
      have fin: "(r, s') = (case c of Some err \<Rightarrow> (Inl err, s6)
          | None \<Rightarrow> (case d of Inl mErr \<Rightarrow> (Inl (Wrapf ''load owning model for promote event: '' mErr ''''), s7)
               | Inr m \<Rightarrow> (Inr \<lparr>pr_Promoted = v\<lparr>mv_Stage := t\<rparr>, pr_Demoted = q\<rparr>,
                    emit ((modelEvent EventModelPromoted m actor now)\<lparr>ev_Version := v\<lparr>mv_Stage := t\<rparr>, ev_DemotedVersion := q, ev_FromStage := mv_Stage v, ev_ToStage := t\<rparr>) s7)))"
        unfolding run a Inr b I y by (cases c; cases d) (simp_all add: a Inr b I y c d)
      show thesis
      proof (cases c)
        case (Some e)
        have "\<not> healthy (rg_write s) \<and> chg s s6 ?A []" using rc by (simp add: Some)
        then show thesis using fin outs(2) [OF q] by (simp add: Some settled_def)
      next
        case None
        note gn = gm [OF None]
        show thesis
        proof (cases d)
          case (Inl e)
          then show thesis using fin gn outs(2) [OF q] by (simp add: None settled_def)
        next
          case (Inr m')
          have "chg s (emit ?e s7) ?K [?e]" using changed_emit [of view inv healthy s s7 ?K "[]" ?e] gn by simp
          then show thesis using fin gn outs(2) [OF q] by (simp add: None Inr settled_def)
        qed
      qed
    qed
  qed
qed

end

context write_store
begin

lemma PromoteVersion_cases:
  fixes P :: "('w, 'r) registryService"
  assumes inv: "inv (rg_write s)" and P: "rs_write P = W" and run: "PromoteVersion P actor inp s = (r, s')"
  obtains (still) "stl s s'" "healthy (rg_write s) \<longrightarrow> (\<forall>v. promotable (vw s) actor inp v \<longrightarrow> isl r \<and> in_production (vw s) (mv_ModelID v) '''')"
  | (moved) v m q now where "promotable (vw s) actor inp v" "v_models (vw s) (mv_ModelID v) = Some m" "displaced (vw s) v (pv_TargetStage inp) q"
      "\<not> isl r \<longrightarrow> r = Inr \<lparr>pr_Promoted = v\<lparr>mv_Stage := pv_TargetStage inp\<rparr>, pr_Demoted = q\<rparr>"
      "settled view inv healthy s s' (set_stage (mv_ID v) (pv_TargetStage inp) (demoted_view q (vw s)))
         (keyed (ac_Team actor) CommandPromoteVersion (pv_IdempotencyKey inp) (mv_ID v) (set_stage (mv_ID v) (pv_TargetStage inp) (demoted_view q (vw s))))
         [(modelEvent EventModelPromoted m actor now)\<lparr>ev_Version := v\<lparr>mv_Stage := pv_TargetStage inp\<rparr>, ev_DemotedVersion := q,
            ev_FromStage := mv_Stage v, ev_ToStage := pv_TargetStage inp\<rparr>] (\<not> isl r)"
proof -
  note outs = that
  let ?lk = "lookupCommandIdempotency P (ac_Team actor) CommandPromoteVersion (pv_IdempotencyKey inp) (\<lambda>i. onWrite (ws_GetVersion (rs_write P) i)) s"
  obtain a s1 where a: "?lk = (a, s1)" by (cases ?lk)
  note lk = lookup_stops [OF inv P loads_version a [unfolded P]]
  obtain b s2 where b: "loadOwnedVersion P actor (pv_VersionID inp) s1 = (b, s2)" by (cases "loadOwnedVersion P actor (pv_VersionID inp) s1")
  note g = gate_stops [OF lk(1) P b]
  have id: "stl s s" using inv by (rule still_refl)
  let ?t = "pv_TargetStage inp"
  let ?pass = "\<lambda>v. CanTransitionTo (mv_Stage v) ?t \<and> (?t = StageStaging \<or> ?t = StageProduction \<longrightarrow> mv_Status v = StatusReady)"
  show thesis
  proof (cases "TrimSpace (pv_VersionID inp) = '''' \<or> \<not> IsValid ?t \<or> a \<noteq> Inr None \<or> isl b \<or> (\<exists>v. b = Inr v \<and> \<not> ?pass v)")
    case True
    have np: "\<not> promotable (vw s) actor inp v" if hl: "healthy (rg_write s)" for v
    proof
      assume p: "promotable (vw s) actor inp v"
      then have "a = Inr None" "\<not> isl b" using lk(3) [OF _ hl] g(3) [OF _ hl] unfolding promotable_def by auto
      moreover have "b = Inr u \<Longrightarrow> u = v" for u using g(2) [of u] p unfolding promotable_def by auto
      ultimately show False using True p unfolding promotable_def by auto
    qed
    have "s' = s \<or> s' = s1 \<or> s' = s2"
      using run True CanTransitionTo_neq unfolding PromoteVersion_def a b by (auto simp: b split: if_splits sum.splits option.splits)
    then show thesis using outs(1) id lk(1) g(1) np by blast
  next
    case False
    then obtain v where v: "b = Inr v" "?pass v" and an: "a = Inr None" and tr: "TrimSpace (pv_VersionID inp) \<noteq> ''''" "IsValid ?t" by (cases b) auto
    have own: "owned_version (vw s) actor (pv_VersionID inp) = Some v" using g(2) v(1) by blast
    have kn: "key_new (vw s) (ac_Team actor) CommandPromoteVersion (pv_IdempotencyKey inp)" using lk(2) an by blast
    have pm: "promotable (vw s) actor inp v" using own kn tr v(2) by (simp add: promotable_def)
    have uniq: "promotable (vw s) actor inp u \<Longrightarrow> u = v" for u using own by (simp add: promotable_def)
    obtain m where m: "v_models (vw s) (mv_ModelID v) = Some m" using owned_versionD(2) [OF own] by blast
    have vid: "v_versions (vw s) (mv_ID v) = Some v" using owned_versionD(1) [OF own] view_okD(6) [OF view_wf [OF inv]] by metis
    define now where "now = rs_clock P (rg_ticks s2)"
    define s3 where "s3 = s2\<lparr>rg_ticks := Suc (rg_ticks s2)\<rparr>"
    have st3: "stl s s3" using g(1) by (simp add: still_def s3_def)
    have ne: "mv_Stage v \<noteq> ?t" using CanTransitionTo_neq v(2) by blast
    have edge: "CanTransitionTo (mv_Stage v) ?t" using v(2) by blast
    have rdy: "\<not> ((?t = StageStaging \<or> ?t = StageProduction) \<and> mv_Status v \<noteq> StatusReady)" using v(2) by blast
    have tail: "PromoteVersion P actor inp s = (case findDemoted P ?t (v\<lparr>mv_Stage := ?t\<rparr>) s3 of
        (Inl err, s4) \<Rightarrow> (Inl err, s4)
      | (Inr demoted, s4) \<Rightarrow>
          (case onWrite (ws_PromoteVersionTx W (v\<lparr>mv_Stage := ?t\<rparr>) demoted) s4 of
             (Inl err, s5) \<Rightarrow> (Inl (Wrapf ''promote tx: '' err ''''), s5)
           | (Inr (newPromoted, newDemoted), s5) \<Rightarrow>
               (case recordCommandIdempotency P (ac_Team actor) CommandPromoteVersion (pv_IdempotencyKey inp) (mv_ID newPromoted) s5 of
                  (Some err, s6) \<Rightarrow> (Inl err, s6)
                | (None, s6) \<Rightarrow>
                    (case onWrite (ws_GetModel W (mv_ModelID newPromoted)) s6 of
                       (Inl mErr, s7) \<Rightarrow> (Inl (Wrapf ''load owning model for promote event: '' mErr ''''), s7)
                     | (Inr m, s7) \<Rightarrow> (Inr \<lparr>pr_Promoted = newPromoted, pr_Demoted = newDemoted\<rparr>,
                         emit ((modelEvent EventModelPromoted m actor now)\<lparr>ev_Version := newPromoted, ev_DemotedVersion := newDemoted,
                           ev_FromStage := mv_Stage v, ev_ToStage := ?t\<rparr>) s7)))))"
      unfolding PromoteVersion_def P now_def using tr edge ne rdy by (simp only: a [unfolded P] an b v(1) Now_def Let_def s3_def prod.case sum.case option.case if_False not_True_eq_False if_True)
    from st3 P vid m edge kn run [symmetric, unfolded tail] show thesis
    proof (cases rule: promote_tail)
      case still
      then show thesis using outs(1) uniq by blast
    next
      case (moved q)
      then show thesis using outs(2) [OF pm m] by blast
    qed
  qed
qed

end

section \<open>Archiving\<close>

definition archivable :: "regView \<Rightarrow> Actor \<Rightarrow> string \<Rightarrow> string \<Rightarrow> Model \<Rightarrow> bool" where
  "archivable A actor modelID k m \<longleftrightarrow> TrimSpace modelID \<noteq> '''' \<and> key_new A (ac_Team actor) CommandArchiveModel k
     \<and> owned_model A actor modelID = Some m \<and> \<not> IsArchived m"

context write_store
begin

lemma ArchiveModel_cases:
  fixes P :: "('w, 'r) registryService"
  assumes inv: "inv (rg_write s)" and P: "rs_write P = W" and run: "ArchiveModel P actor mid k s = (r, s')"
  obtains (still) "stl s s'" "healthy (rg_write s) \<longrightarrow> \<not> (\<exists>m. archivable (vw s) actor mid k m)"
  | (archived) m now where "archivable (vw s) actor mid k m" "\<exists>n. now = rs_clock P n"
      "\<not> isl r \<longrightarrow> r = Inr (m\<lparr>md_ArchivedAt := now, md_UpdatedAt := now\<rparr>)"
      "settled view inv healthy s s' (archived_view mid (st now) (st now) (vw s))
         (keyed (ac_Team actor) CommandArchiveModel k mid (archived_view mid (st now) (st now) (vw s)))
         [modelEvent EventModelArchived (m\<lparr>md_ArchivedAt := now, md_UpdatedAt := now\<rparr>) actor now] (\<not> isl r)"
proof -
  note outs = that
  let ?lk = "lookupCommandIdempotency P (ac_Team actor) CommandArchiveModel k (loadOwnedModel P actor) s"
  obtain a s1 where a: "?lk = (a, s1)" by (cases ?lk)
  note lk = lookup_stops [OF inv P loads_owned [OF P] a]
  have inv1: "inv (rg_write s1)" and vs: "view (rg_write s1) = view (rg_write s)" and hs: "healthy (rg_write s) \<longrightarrow> healthy (rg_write s1)"
    using lk(1) by (simp_all add: still_def)
  obtain b s2 where b: "loadOwnedModel P actor mid s1 = (b, s2)" by (cases "loadOwnedModel P actor mid s1")
  note g = loadOwnedModel_run [OF inv1 P b, unfolded vs]
  have st2: "stl s s2" using g still_trans [OF lk(1)] by blast
  have id: "stl s s" using inv by (rule still_refl)
  show thesis
  proof (cases "TrimSpace mid = '''' \<or> a \<noteq> Inr None \<or> isl b \<or> (\<exists>m. b = Inr m \<and> IsArchived m)")
    case True
    have np: "\<not> archivable (vw s) actor mid k m" if hl: "healthy (rg_write s)" for m
    proof
      assume p: "archivable (vw s) actor mid k m"
      then have "a = Inr None" using lk(3) [OF _ hl] unfolding archivable_def by auto
      moreover have "b = (case owned_model (vw s) actor mid of Some m \<Rightarrow> Inr m | None \<Rightarrow> Inl ErrModelNotFound)" using g hs hl by blast
      ultimately show False using True p unfolding archivable_def by auto
    qed
    have "s' = s \<or> s' = s1 \<or> s' = s2" using run True unfolding ArchiveModel_def a b by (auto simp: b split: if_splits sum.splits option.splits)
    then show thesis using outs(1) id lk(1) st2 np by blast
  next
    case False
    then obtain m where m: "b = Inr m" "\<not> IsArchived m" and an: "a = Inr None" and tr: "TrimSpace mid \<noteq> ''''" by (cases b) auto
    have own: "owned_model (vw s) actor mid = Some m" using g m(1) by blast
    have kn: "key_new (vw s) (ac_Team actor) CommandArchiveModel k" using lk(2) an by blast
    have am: "archivable (vw s) actor mid k m" using own kn tr m(2) by (simp add: archivable_def)
    have mi: "md_ID m = mid" using view_okD(5) [OF view_wf [OF inv] owned_modelD(1) [OF own]] .
    define now where "now = rs_clock P (rg_ticks s2)"
    define s3 where "s3 = s2\<lparr>rg_ticks := Suc (rg_ticks s2)\<rparr>"
    define m1 where "m1 = m\<lparr>md_ArchivedAt := now, md_UpdatedAt := now\<rparr>"
    have inv3: "inv (rg_write s3)" and vs3: "view (rg_write s3) = view (rg_write s)" and hs3: "healthy (rg_write s) \<longrightarrow> healthy (rg_write s3)"
      and kept: "rg_read s3 = rg_read s" "rg_emitted s3 = rg_emitted s" using st2 by (simp_all add: still_def s3_def)
    obtain c w where c: "ws_ArchiveModelTx W m1 (rg_write s3) = (c, w)" by (cases "ws_ArchiveModelTx W m1 (rg_write s3)")
    note t = archive_tx [OF inv3 c, unfolded vs3]
    define s4 where "s4 = s3\<lparr>rg_write := w\<rparr>"
    have ow: "onWrite (ws_ArchiveModelTx W m1) s3 = (c, s4)" using c by (simp add: onWrite_eq s4_def)
    have unf: "ArchiveModel P actor mid k s = (case c of Inl err \<Rightarrow> (Inl (Wrapf ''archive model tx: '' err ''''), s4)
        | Inr archived \<Rightarrow> (case recordCommandIdempotency P (ac_Team actor) CommandArchiveModel k (md_ID archived) s4 of
                             (Some err, s5) \<Rightarrow> (Inl err, s5)
                           | (None, s5) \<Rightarrow> (Inr archived, emit (modelEvent EventModelArchived archived actor now) s5)))"
      unfolding ArchiveModel_def P now_def using tr m(2)
      by (simp add: a an b m(1) Now_def Let_def s3_def [symmetric] ow [unfolded m1_def now_def])
    show thesis
    proof (cases c)
      case (Inl e)
      have "inv w" "view w = vw s" "healthy (rg_write s) \<longrightarrow> False" using t hs3 owned_modelD(1) [OF own] mi by (auto simp: Inl m1_def)
      then have "stl s s4" "\<not> healthy (rg_write s)" using kept by (simp_all add: still_def s4_def)
      then show thesis using run outs(1) by (simp add: unf Inl)
    next
      case (Inr m')
      let ?A = "archived_view mid (st now) (st now) (vw s)"
      have w: "m' = m1" "inv w" "view w = ?A" "healthy (rg_write s) \<longrightarrow> healthy w" using t hs3 mi by (auto simp: Inr m1_def)
      then have ch: "chg s s4 ?A []" using kept by (simp add: changed_def s4_def)
      have kn': "key_new ?A (ac_Team actor) CommandArchiveModel k" using kn by (simp add: key_new_def archived_view_def)
      obtain e s5 where e: "recordCommandIdempotency P (ac_Team actor) CommandArchiveModel k mid s4 = (e, s5)"
        by (cases "recordCommandIdempotency P (ac_Team actor) CommandArchiveModel k mid s4")
      note rc = recordCommand_change [OF ch P e kn']
      have "md_ID m1 = mid" using mi by (simp add: m1_def)
      then have fin: "ArchiveModel P actor mid k s = (case e of Some err \<Rightarrow> (Inl err, s5) | None \<Rightarrow> (Inr m1, emit (modelEvent EventModelArchived m1 actor now) s5))"
        unfolding unf Inr w(1) by (simp add: e split: option.split)
      have nx: "\<exists>n. now = rs_clock P n" unfolding now_def by blast
      show thesis
        by (rule outs(2) [OF am nx]) (use run rc in \<open>auto simp: fin m1_def settled_def dest: changed_emit split: option.splits\<close>)
    qed
  qed
qed

end

end
