(* ===== verification/RegistryRun.thy ===== *)
theory RegistryRun
  imports RegistryCommands
begin

text \<open>
  Sequences of calls of the registry, from the contract of the write store alone: any sequence of commands and
  queries refines the life cycle, whatever fails on the way, and every event emitted tells the change that was made.
\<close>

section \<open>Calls\<close>

datatype RegCall =
    CallRegisterModel Actor RegisterModelInput
  | CallUpdateModel Actor UpdateModelInput
  | CallCreateVersion Actor CreateVersionInput
  | CallMarkVersionReady Actor MarkVersionReadyInput
  | CallPromoteVersion Actor PromoteVersionInput
  | CallArchiveModel Actor string string
  | CallGetModel Actor string string
  | CallListModels Actor ListModelsInput
  | CallGetVersion Actor string string string
  | CallListVersions Actor string ModelStage int string

fun run_call :: "('w, 'r) registryService \<Rightarrow> RegCall \<Rightarrow> ('w, 'r) regState \<Rightarrow> ('w, 'r) regState" where
  "run_call P (CallRegisterModel actor inp) s = snd (RegisterModel P actor inp s)"
| "run_call P (CallUpdateModel actor inp) s = snd (UpdateModel P actor inp s)"
| "run_call P (CallCreateVersion actor inp) s = snd (CreateVersion P actor inp s)"
| "run_call P (CallMarkVersionReady actor inp) s = snd (MarkVersionReady P actor inp s)"
| "run_call P (CallPromoteVersion actor inp) s = snd (PromoteVersion P actor inp s)"
| "run_call P (CallArchiveModel actor mid k) s = snd (ArchiveModel P actor mid k s)"
| "run_call P (CallGetModel actor mid name) s = snd (GetModel P actor mid name s)"
| "run_call P (CallListModels actor inp) s = snd (ListModels P actor inp s)"
| "run_call P (CallGetVersion actor vid mid lbl) s = snd (GetVersion P actor vid mid lbl s)"
| "run_call P (CallListVersions actor mid st n tok) s = snd (ListVersions P actor mid st n tok s)"

definition run_calls :: "('w, 'r) registryService \<Rightarrow> RegCall list \<Rightarrow> ('w, 'r) regState \<Rightarrow> ('w, 'r) regState" where
  "run_calls P cs s = fold (run_call P) cs s"

fun is_query :: "RegCall \<Rightarrow> bool" where
  "is_query (CallGetModel actor mid name) = True"
| "is_query (CallListModels actor inp) = True"
| "is_query (CallGetVersion actor vid mid lbl) = True"
| "is_query (CallListVersions actor mid st n tok) = True"
| "is_query _ = False"

text \<open>A query reads the projection and leaves the write side, the events, the clock and the ids alone.\<close>

definition write_side_same :: "('w, 'r) regState \<Rightarrow> ('w, 'r) regState \<Rightarrow> bool" where
  "write_side_same s s' \<longleftrightarrow> rg_write s' = rg_write s \<and> rg_emitted s' = rg_emitted s \<and> rg_ticks s' = rg_ticks s \<and> rg_ids s' = rg_ids s"

lemma onRead_same: "onRead f s = (a, s') \<Longrightarrow> write_side_same s s'"
  by (auto simp: onRead_def write_side_same_def split: prod.splits)

lemma write_side_refl: "write_side_same s s"
  by (simp add: write_side_same_def)

lemma write_side_trans: "write_side_same s t \<Longrightarrow> write_side_same t u \<Longrightarrow> write_side_same s u"
  by (simp add: write_side_same_def)

lemma assertVersionInTeam_same: "assertVersionInTeam P actor mid s = (a, s') \<Longrightarrow> write_side_same s s'"
  by (auto simp: assertVersionInTeam_def dest: onRead_same split: prod.splits sum.splits if_splits)

lemma query_same: "is_query c \<Longrightarrow> write_side_same s (run_call P c s)"
proof (cases c)
  case (CallGetModel actor mid name)
  then show ?thesis by (auto simp: GetModel_def Let_def write_side_refl dest: onRead_same split: prod.splits sum.splits if_splits)
next
  case (CallListModels actor inp)
  then show ?thesis
    by (auto simp: ListModels_def Let_def write_side_refl dest!: onRead_same split: prod.splits sum.splits if_splits intro: write_side_trans)
next
  case (CallGetVersion actor vid mid lbl)
  then show ?thesis
    by (auto simp: GetVersion_def Let_def write_side_refl dest!: onRead_same assertVersionInTeam_same
        split: prod.splits sum.splits option.splits if_splits intro: write_side_trans)
next
  case (CallListVersions actor mid st n tok)
  then show ?thesis
    by (auto simp: ListVersions_def write_side_refl dest!: onRead_same assertVersionInTeam_same
        split: prod.splits sum.splits option.splits if_splits intro: write_side_trans)
qed simp_all

section \<open>Refinement of the life cycle\<close>

lemma reg_step_keyed: "key_new A t c k \<Longrightarrow> reg_step\<^sup>*\<^sup>* A (keyed t c k i A)"
  by (auto simp: keyed_def key_new_def)

lemma settled_refines:
  assumes s: "settled vf iv hl s s' A (keyed t c k i A) evs ok" and step: "reg_step (vf (rg_write s)) A" and kn: "key_new A t c k"
  shows "iv (rg_write s') \<and> reg_step\<^sup>*\<^sup>* (vf (rg_write s)) (vf (rg_write s'))"
proof -
  have "iv (rg_write s') \<and> (vf (rg_write s') = A \<or> vf (rg_write s') = keyed t c k i A)"
    using s by (auto simp: settled_def changed_def split: if_splits)
  then show ?thesis using step reg_step_keyed [OF kn, of i] by (auto intro: converse_rtranclp_into_rtranclp)
qed

lemma changed_refines:
  "changed vf iv hl s s' A evs \<Longrightarrow> reg_step (vf (rg_write s)) A \<Longrightarrow> iv (rg_write s') \<and> reg_step\<^sup>*\<^sup>* (vf (rg_write s)) (vf (rg_write s'))"
  by (auto simp: changed_def)

lemma still_refines: "still vf iv hl s s' \<Longrightarrow> iv (rg_write s') \<and> reg_step\<^sup>*\<^sup>* (vf (rg_write s)) (vf (rg_write s'))"
  by (simp add: still_def)

context write_store
begin

lemma registered_step:
  assumes "can_create_model A m k" "md_ArchivedAt m = 0"
  shows "reg_step A (put_model_keyed m k A)"
proof -
  have f: "md_ID (sm m) = md_ID m" "md_Team (sm m) = md_Team m" "md_Name (sm m) = md_Name m" "md_ArchivedAt (sm m) = md_ArchivedAt m"
    using assms(2) by (subst sm_keeps, simp)+
  have "reg_step A (A\<lparr>v_models := (v_models A)(md_ID (sm m) \<mapsto> sm m), v_mkeys := set_keyed (md_Team (sm m)) k (md_ID (sm m)) (v_mkeys A)\<rparr>)"
    using assms by (intro reg_step.registered) (simp_all add: can_create_model_def f IsArchived_def)
  then show ?thesis by (simp add: put_model_keyed_def f)
qed

lemma cut_step:
  assumes m: "v_models A (mv_ModelID v) = Some m" "\<not> IsArchived m" and c: "can_create_version A v k" and s: "mv_Stage v = StageDev" "mv_Status v = StatusPendingUpload"
  shows "reg_step A (put_version_keyed v k A)"
proof -
  have f: "mv_ID (sv v) = mv_ID v" "mv_ModelID (sv v) = mv_ModelID v" "mv_Version (sv v) = mv_Version v" "mv_Stage (sv v) = mv_Stage v" "mv_Status (sv v) = mv_Status v"
    using sv_keeps [of v] by simp_all
  have "reg_step A (A\<lparr>v_versions := (v_versions A)(mv_ID (sv v) \<mapsto> sv v), v_vkeys := set_keyed (mv_ModelID (sv v)) k (mv_ID (sv v)) (v_vkeys A)\<rparr>)"
    using assms by (intro reg_step.cut [of _ _ m]) (simp_all add: can_create_version_def f)
  then show ?thesis by (simp add: put_version_keyed_def f)
qed

lemma confirm_step:
  assumes "v_versions A (mv_ID v) = Some v" "mv_Status v = StatusPendingUpload"
  shows "reg_step A (put_version (confirm inp v) A)"
proof (cases "mk_Success inp")
  case True
  then show ?thesis
    using reg_step.confirmed [OF assms, where p = "mk_ArtifactPath inp" and g = "mk_ArtifactDigest inp" and n = "mk_SizeBytes inp"]
    by (simp add: put_version_def confirm_def)
next
  case False
  then show ?thesis using reg_step.failed [OF assms] by (simp add: put_version_def confirm_def)
qed

lemma moved_step:
  assumes v: "v_versions A (mv_ID v) = Some v" and e: "CanTransitionTo (mv_Stage v) t"
    and r: "t = StageStaging \<or> t = StageProduction \<longrightarrow> mv_Status v = StatusReady" and q: "displaced A v t q"
    and ok: "view_ok (set_stage (mv_ID v) t (demoted_view q A))"
  shows "reg_step A (set_stage (mv_ID v) t (demoted_view q A))"
proof (rule reg_step.moved [OF v e _ displaced_view [OF q]])
  show "mv_Status v = StatusReady" if "t = StageStaging \<or> t = StageProduction" using r that by blast
  assume t: "t = StageProduction"
  have ns: "mv_Stage v \<noteq> StageProduction" using CanTransitionTo_neq [OF e] t by blast
  show "\<forall>j. \<not> in_production (demoted_view q A) (mv_ModelID v) j"
  proof (cases "demoted_view q A = A")
    case True
    then show ?thesis using set_stage_found_free [of "mv_ID v" "demoted_view q A" v] ok v ns t by simp
  next
    case False
    then obtain d where d: "in_production A (mv_ModelID v) d" "demoted_view q A = set_stage d StageArchived A" using displaced_view [OF q] by blast
    have "d \<noteq> mv_ID v" using d(1) v ns by (auto simp: in_production_def)
    then have "v_versions (demoted_view q A) (mv_ID v) = Some v" using v d(2) by (simp add: set_stage_versions)
    then show ?thesis using set_stage_found_free [OF ok [unfolded t]] ns by blast
  qed
qed

end

lemma view_ok_keyed: "view_ok (keyed t c k i A) = view_ok A"
  by (simp add: view_ok_def version_ok_def unique_names_def unique_labels_def single_production_def in_production_def)

context write_store
begin

lemma settled_ok: "settled view inv healthy s s' A (keyed t c k i A) evs ok \<Longrightarrow> view_ok A"
  using view_wf [of "rg_write s'"] by (auto simp: settled_def changed_def view_ok_keyed split: if_splits)

lemma owned_by_id:
  assumes "inv (rg_write s)" "owned_version (vw s) actor i = Some v"
  shows "v_versions (vw s) (mv_ID v) = Some v"
  using owned_versionD(1) [OF assms(2)] view_okD(6) [OF view_wf [OF assms(1)]] by metis

text \<open>One call of the registry, in any state the store can be in, with any of its calls to the store failing.\<close>

lemma call_refines:
  fixes P :: "('w, 'r) registryService"
  assumes inv: "inv (rg_write s)" and P: "rs_write P = W"
  shows "inv (rg_write (run_call P c s)) \<and> reg_step\<^sup>*\<^sup>* (vw s) (vw (run_call P c s))"
proof (cases "is_query c")
  case True
  then have "rg_write (run_call P c s) = rg_write s" using query_same [of c s P] by (simp add: write_side_same_def)
  then show ?thesis using inv by simp
next
  case False
  obtain s' where s': "run_call P c s = s'" by blast
  have "inv (rg_write s') \<and> reg_step\<^sup>*\<^sup>* (vw s) (vw s')"
  proof (cases c)
    case (CallRegisterModel actor inp)
    then obtain r where run: "RegisterModel P actor inp s = (r, s')" using s' by (cases "RegisterModel P actor inp s") simp
    from inv P run show ?thesis
    proof (cases rule: RegisterModel_cases)
      case (fresh m now)
      show ?thesis using changed_refines [OF fresh(14)] registered_step [OF fresh(13) fresh(6)] by blast
    qed (rule still_refines)
  next
    case (CallUpdateModel actor inp)
    then obtain r where run: "UpdateModel P actor inp s = (r, s')" using s' by (cases "UpdateModel P actor inp s") simp
    from inv P run show ?thesis
    proof (cases rule: UpdateModel_cases)
      case (edited m d ts now)
      from owned_modelD(1) [OF edited(1)] show ?thesis using changed_refines [OF edited(6)] edited(2) by blast
    qed (rule still_refines)
  next
    case (CallCreateVersion actor inp)
    then obtain r where run: "CreateVersion P actor inp s = (r, s')" using s' by (cases "CreateVersion P actor inp s") simp
    from inv P run show ?thesis
    proof (cases rule: CreateVersion_cases)
      case (cut m v now lbl k)
      have "mv_ModelID v = cv_ModelID inp" "mv_Stage v = StageDev" "mv_Status v = StatusPendingUpload" by (simp_all add: cut(4) attempt_version_def)
      then show ?thesis using changed_refines [OF cut(7)] cut_step [OF _ cut(2,6)] owned_modelD(1) [OF cut(1)] by simp
    qed (rule still_refines)
  next
    case (CallMarkVersionReady actor inp)
    then obtain r where run: "MarkVersionReady P actor inp s = (r, s')" using s' by (cases "MarkVersionReady P actor inp s") simp
    from inv P run show ?thesis
    proof (cases rule: MarkVersionReady_cases)
      case (confirmed v m now)
      have v: "v_versions (vw s) (mv_ID v) = Some v" "mv_Status v = StatusPendingUpload"
        using confirmed(1) owned_by_id [OF inv] unfolding confirmable_def by blast+
      have "key_new (put_version (confirm inp v) (vw s)) (ac_Team actor) CommandMarkVersionReady (mk_IdempotencyKey inp)"
        using confirmed(1) by (simp add: confirmable_def key_new_def put_version_def)
      from settled_refines [OF confirmed(4) confirm_step [OF v] this] show ?thesis .
    qed (rule still_refines)
  next
    case (CallPromoteVersion actor inp)
    then obtain r where run: "PromoteVersion P actor inp s = (r, s')" using s' by (cases "PromoteVersion P actor inp s") simp
    from inv P run show ?thesis
    proof (cases rule: PromoteVersion_cases)
      case (moved v m q now)
      note pm = moved(1) [unfolded promotable_def]
      have v: "v_versions (vw s) (mv_ID v) = Some v" using pm owned_by_id [OF inv] by blast
      have step: "reg_step (vw s) (set_stage (mv_ID v) (pv_TargetStage inp) (demoted_view q (vw s)))"
        by (rule moved_step [OF v _ _ moved(3) settled_ok [OF moved(5)]]) (use pm in blast)+
      have "key_new (set_stage (mv_ID v) (pv_TargetStage inp) (demoted_view q (vw s))) (ac_Team actor) CommandPromoteVersion (pv_IdempotencyKey inp)"
        using pm by (auto simp: key_new_def demoted_view_def set_stage_def split: option.splits)
      from settled_refines [OF moved(5) step this] show ?thesis .
    qed (rule still_refines)
  next
    case (CallArchiveModel actor mid k)
    then obtain r where run: "ArchiveModel P actor mid k s = (r, s')" using s' by (cases "ArchiveModel P actor mid k s") simp
    from inv P run show ?thesis
    proof (cases rule: ArchiveModel_cases)
      case (archived m now)
      have "v_models (vw s) mid = Some m" "\<not> IsArchived m" using archived(1) owned_modelD(1) unfolding archivable_def by blast+
      then have step: "reg_step (vw s) (archived_view mid (st now) (st now) (vw s))" by (rule reg_step.archived)
      have "key_new (archived_view mid (st now) (st now) (vw s)) (ac_Team actor) CommandArchiveModel k"
        using archived(1) by (simp add: archivable_def key_new_def archived_view_def)
      from settled_refines [OF archived(4) step this] show ?thesis .
    qed (rule still_refines)
  qed (use False in simp_all)
  then show ?thesis by (simp add: s')
qed

lemma calls_refine:
  fixes P :: "('w, 'r) registryService"
  assumes inv: "inv (rg_write s)" and P: "rs_write P = W"
  shows "inv (rg_write (run_calls P cs s)) \<and> reg_step\<^sup>*\<^sup>* (vw s) (vw (run_calls P cs s))"
  unfolding run_calls_def using inv
proof (induction cs arbitrary: s)
  case (Cons c cs)
  note c = call_refines [OF Cons.prems P, of c]
  have "inv (rg_write (fold (run_call P) cs (run_call P c s))) \<and> reg_step\<^sup>*\<^sup>* (vw (run_call P c s)) (vw (fold (run_call P) cs (run_call P c s)))"
    using Cons.IH c by blast
  then show ?case using c by (auto intro: rtranclp_trans)
qed simp

end

section \<open>Events\<close>

text \<open>What an event says about the contents before and after the call that emitted it.\<close>

definition tells :: "regView \<Rightarrow> regView \<Rightarrow> ProjectionEvent \<Rightarrow> bool" where
  "tells A B ev \<longleftrightarrow> (let m = ev_Model ev; v = ev_Version ev; q = ev_DemotedVersion ev in case ev_Kind ev of
     EventModelRegistered \<Rightarrow> v_models A (md_ID m) = None \<and> (\<exists>n. v_models B (md_ID m) = Some n \<and> md_Name n = md_Name m \<and> md_Team n = md_Team m)
   | EventVersionCreated \<Rightarrow> v_versions A (mv_ID v) = None \<and> v_models A (mv_ModelID v) = Some m
       \<and> (\<exists>w. v_versions B (mv_ID v) = Some w \<and> mv_ModelID w = mv_ModelID v \<and> mv_Version w = mv_Version v \<and> mv_Stage w = StageDev \<and> mv_Status w = StatusPendingUpload)
   | EventVersionReady \<Rightarrow> v_models A (mv_ModelID v) = Some m
       \<and> (\<exists>u. v_versions A (mv_ID v) = Some u \<and> mv_Status u = StatusPendingUpload) \<and> mv_Status v = StatusReady \<and> v_versions B (mv_ID v) = Some v
   | EventModelPromoted \<Rightarrow> v_models A (mv_ModelID v) = Some m \<and> CanTransitionTo (ev_FromStage ev) (ev_ToStage ev)
       \<and> (\<exists>u. v_versions A (mv_ID v) = Some u \<and> mv_Stage u = ev_FromStage ev \<and> v = u\<lparr>mv_Stage := ev_ToStage ev\<rparr>) \<and> v_versions B (mv_ID v) = Some v
       \<and> (if ev_ToStage ev = StageProduction \<and> (\<exists>d. in_production A (mv_ModelID v) d)
          then in_production A (mv_ModelID v) (mv_ID q) \<and> mv_Stage q = StageArchived \<and> v_versions B (mv_ID q) = Some q else q = zeroVersion)
   | EventModelArchived \<Rightarrow> (\<exists>n. v_models A (md_ID m) = Some n \<and> \<not> IsArchived n) \<and> (\<forall>i v. v_versions B i = Some v \<and> mv_ModelID v = md_ID m \<longrightarrow> mv_Stage v = StageArchived))"

text \<open>A call emits at most one event, and the event tells the change.\<close>

definition reports :: "regView \<Rightarrow> regView \<Rightarrow> ProjectionEvent list \<Rightarrow> ProjectionEvent list \<Rightarrow> bool" where
  "reports A B old new \<longleftrightarrow> new = old \<or> (\<exists>ev. new = old @ [ev] \<and> tells A B ev)"

lemma still_reports: "still vf iv hl s s' \<Longrightarrow> reports A B (rg_emitted s) (rg_emitted s')"
  by (simp add: still_def reports_def)

lemma changed_reports:
  "changed vf iv hl s s' K [ev] \<Longrightarrow> tells A (vf (rg_write s')) ev \<Longrightarrow> reports A (vf (rg_write s')) (rg_emitted s) (rg_emitted s')"
  by (simp add: changed_def reports_def)

lemma settled_reports:
  assumes "settled vf iv hl s s' C (keyed t c k i C) evs ok" and "evs = [] \<or> (\<exists>ev. evs = [ev] \<and> tells A (keyed t c k i C) ev)"
  shows "reports A (vf (rg_write s')) (rg_emitted s) (rg_emitted s')"
  using assms by (auto simp: settled_def changed_def reports_def split: if_splits)

lemma promoted_tells:
  assumes v: "v_versions A (mv_ID v) = Some v" and m: "v_models A (mv_ModelID v) = Some m" and e: "CanTransitionTo (mv_Stage v) t"
    and q: "displaced A v t q" and ok: "view_ok (set_stage (mv_ID v) t (demoted_view q A))" and B: "v_versions B = v_versions (set_stage (mv_ID v) t (demoted_view q A))"
  shows "tells A B ((modelEvent EventModelPromoted m actor now)\<lparr>ev_Version := v\<lparr>mv_Stage := t\<rparr>, ev_DemotedVersion := q, ev_FromStage := mv_Stage v, ev_ToStage := t\<rparr>)"
proof -
  have ns: "mv_Stage v \<noteq> t" using CanTransitionTo_neq [OF e] .
  have dem: "in_production A (mv_ModelID v) (mv_ID q) \<and> mv_Stage q = StageArchived \<and> v_versions B (mv_ID q) = Some q \<and> v_versions (demoted_view q A) (mv_ID v) = Some v"
    if t: "t = StageProduction" and d: "in_production A (mv_ModelID v) d" for d
  proof -
    have "\<exists>u. v_versions A (mv_ID u) = Some u \<and> in_production A (mv_ModelID v) (mv_ID u) \<and> q = u\<lparr>mv_Stage := StageArchived\<rparr>"
      using q d t unfolding displaced_def by meson
    then obtain u where u: "v_versions A (mv_ID u) = Some u" "in_production A (mv_ModelID v) (mv_ID u)" and qu: "q = u\<lparr>mv_Stage := StageArchived\<rparr>" by blast
    have uv: "mv_ID u \<noteq> mv_ID v"
    proof
      assume "mv_ID u = mv_ID v"
      then have "in_production A (mv_ModelID v) (mv_ID v)" using u(2) by simp
      then show False using v ns t by (simp add: in_production_def)
    qed
    have "mv_ID u \<noteq> ''''"
    proof
      assume empty: "mv_ID u = ''''"
      then have "demoted_view q A = A" by (simp add: demoted_view_def qu)
      then show False using set_stage_found_free [of "mv_ID v" A v "mv_ID u"] ok v ns t u(2) by simp
    qed
    then have dv: "demoted_view q A = set_stage (mv_ID u) StageArchived A" by (simp add: demoted_view_def qu)
    have "v_versions B (mv_ID u) = Some q" unfolding B dv using u(1) uv by (simp add: set_stage_versions qu)
    moreover have "v_versions (demoted_view q A) (mv_ID v) = Some v" unfolding dv using v uv by (simp add: set_stage_versions)
    ultimately show ?thesis using u(2) by (simp add: qu)
  qed
  have dv: "v_versions (demoted_view q A) (mv_ID v) = Some v"
  proof (cases "t = StageProduction \<and> (\<exists>d. in_production A (mv_ModelID v) d)")
    case False
    then have "q = zeroVersion" using q unfolding displaced_def by presburger
    then show ?thesis using v by (simp add: demoted_view_def)
  qed (use dem in blast)
  have zero: "q = zeroVersion" if "\<not> (t = StageProduction \<and> (\<exists>d. in_production A (mv_ModelID v) d))"
    using q that unfolding displaced_def by presburger
  have bv: "v_versions B (mv_ID v) = Some (v\<lparr>mv_Stage := t\<rparr>)" unfolding B using dv by (simp add: set_stage_versions)
  show ?thesis
    unfolding tells_def Let_def modelEvent_def using v m e bv dem zero by (simp split: if_split) blast
qed

context write_store
begin

lemma call_reports:
  fixes P :: "('w, 'r) registryService"
  assumes inv: "inv (rg_write s)" and P: "rs_write P = W"
  shows "reports (vw s) (vw (run_call P c s)) (rg_emitted s) (rg_emitted (run_call P c s))"
proof (cases "is_query c")
  case True
  then show ?thesis using query_same [of c s P] by (simp add: write_side_same_def reports_def)
next
  case False
  obtain s' where s': "run_call P c s = s'" by blast
  have "reports (vw s) (vw s') (rg_emitted s) (rg_emitted s')"
  proof (cases c)
    case (CallRegisterModel actor inp)
    then obtain r where run: "RegisterModel P actor inp s = (r, s')" using s' by (cases "RegisterModel P actor inp s") simp
    from inv P run show ?thesis
    proof (cases rule: RegisterModel_cases)
      case (fresh m now)
      have "md_Name (sm m) = md_Name m" "md_Team (sm m) = md_Team m" by (subst sm_keeps, simp)+
      moreover have "vw s' = put_model_keyed m (rm_IdempotencyKey inp) (vw s)" using fresh(14) by (simp add: changed_def)
      ultimately show ?thesis using fresh(13)
        by (intro changed_reports [OF fresh(14)]) (simp add: tells_def modelEvent_def put_model_keyed_def can_create_model_def)
    qed (rule still_reports)
  next
    case (CallUpdateModel actor inp)
    then obtain r where run: "UpdateModel P actor inp s = (r, s')" using s' by (cases "UpdateModel P actor inp s") simp
    from inv P run show ?thesis
    proof (cases rule: UpdateModel_cases)
      case (edited m d ts now)
      from edited(6) show ?thesis by (simp add: changed_def reports_def)
    qed (rule still_reports)
  next
    case (CallCreateVersion actor inp)
    then obtain r where run: "CreateVersion P actor inp s = (r, s')" using s' by (cases "CreateVersion P actor inp s") simp
    from inv P run show ?thesis
    proof (cases rule: CreateVersion_cases)
      case (cut m v now lbl k)
      have f: "mv_ModelID v = cv_ModelID inp" "mv_Stage v = StageDev" "mv_Status v = StatusPendingUpload" by (simp_all add: cut(4) attempt_version_def)
      have "vw s' = put_version_keyed v (cv_IdempotencyKey inp) (vw s)" using cut(7) by (simp add: changed_def)
      then show ?thesis using cut(6) owned_modelD(1) [OF cut(1)] sv_keeps [of v] f
        by (intro changed_reports [OF cut(7)]) (simp add: tells_def modelEvent_def put_version_keyed_def can_create_version_def)
    qed (rule still_reports)
  next
    case (CallMarkVersionReady actor inp)
    then obtain r where run: "MarkVersionReady P actor inp s = (r, s')" using s' by (cases "MarkVersionReady P actor inp s") simp
    from inv P run show ?thesis
    proof (cases rule: MarkVersionReady_cases)
      case (confirmed v m now)
      have v: "v_versions (vw s) (mv_ID v) = Some v" "mv_Status v = StatusPendingUpload"
        using confirmed(1) owned_by_id [OF inv] unfolding confirmable_def by blast+
      show ?thesis using v confirmed(2) by (intro settled_reports [OF confirmed(4)]) (simp add: tells_def modelEvent_def put_version_def confirm_def)
    qed (rule still_reports)
  next
    case (CallPromoteVersion actor inp)
    then obtain r where run: "PromoteVersion P actor inp s = (r, s')" using s' by (cases "PromoteVersion P actor inp s") simp
    from inv P run show ?thesis
    proof (cases rule: PromoteVersion_cases)
      case (moved v m q now)
      have v: "v_versions (vw s) (mv_ID v) = Some v" and e: "CanTransitionTo (mv_Stage v) (pv_TargetStage inp)"
        using moved(1) owned_by_id [OF inv] unfolding promotable_def by blast+
      show ?thesis
        by (rule settled_reports [OF moved(5)]) (use promoted_tells [OF v moved(2) e moved(3) settled_ok [OF moved(5)] keyed_models(2)] in blast)
    qed (rule still_reports)
  next
    case (CallArchiveModel actor mid k)
    then obtain r where run: "ArchiveModel P actor mid k s = (r, s')" using s' by (cases "ArchiveModel P actor mid k s") simp
    from inv P run show ?thesis
    proof (cases rule: ArchiveModel_cases)
      case (archived m now)
      have m: "v_models (vw s) mid = Some m" "\<not> IsArchived m" using archived(1) owned_modelD(1) unfolding archivable_def by blast+
      have mi: "md_ID m = mid" using view_okD(5) [OF view_wf [OF inv] m(1)] .
      have all: "mv_Stage v = StageArchived" if "v_versions (archived_view mid t u A) i = Some v" "mv_ModelID v = mid" for i v t u A
      proof -
        from that(1) obtain z where "v = (if mv_ModelID z = mid then z\<lparr>mv_Stage := StageArchived\<rparr> else z)" by (auto simp: archived_view_def)
        then show ?thesis using that(2) by (cases "mv_ModelID z = mid") simp_all
      qed
      show ?thesis using m mi by (intro settled_reports [OF archived(4)]) (auto simp: tells_def modelEvent_def intro: all)
    qed (rule still_reports)
  qed (use False in simp_all)
  then show ?thesis by (simp add: s')
qed

end

section \<open>Promotion of a healthy store\<close>

context write_store
begin

lemma PromoteVersion_swaps:
  fixes P :: "('w, 'r) registryService"
  assumes inv: "inv (rg_write s)" and P: "rs_write P = W" and hl: "healthy (rg_write s)" and pm: "promotable (vw s) actor inp v"
    and t: "pv_TargetStage inp = StageProduction" and inc: "in_production (vw s) (mv_ModelID v) d" "v_versions (vw s) d = Some u" and ne: "d \<noteq> ''''"
    and run: "PromoteVersion P actor inp s = (r, s')"
  shows "r = Inr \<lparr>pr_Promoted = v\<lparr>mv_Stage := StageProduction\<rparr>, pr_Demoted = u\<lparr>mv_Stage := StageArchived\<rparr>\<rparr>
    \<and> v_versions (vw s') = (v_versions (vw s))(d \<mapsto> u\<lparr>mv_Stage := StageArchived\<rparr>, mv_ID v \<mapsto> v\<lparr>mv_Stage := StageProduction\<rparr>)
    \<and> (\<forall>i. in_production (vw s') (mv_ModelID v) i \<longleftrightarrow> i = mv_ID v)
    \<and> v_models (vw s') = v_models (vw s) \<and> (\<exists>ev. rg_emitted s' = rg_emitted s @ [ev] \<and> ev_Kind ev = EventModelPromoted)"
proof -
  have only: "in_production (vw s) (mv_ModelID v) e \<Longrightarrow> e = d" for e
    using inc(1) view_okD(4) [OF view_wf [OF inv]] unfolding single_production_def by blast
  from inv P run show ?thesis
  proof (cases rule: PromoteVersion_cases)
    case still
    then have "in_production (vw s) (mv_ModelID v) ''''" using hl pm by blast
    then show ?thesis using only ne by blast
  next
    case (moved v' m q now)
    have v': "v' = v" using moved(1) pm unfolding promotable_def by auto
    have vid: "v_versions (vw s) (mv_ID v) = Some v" and e: "CanTransitionTo (mv_Stage v) StageProduction"
      using pm owned_by_id [OF inv] t unfolding promotable_def by auto
    have "\<exists>x. v_versions (vw s) (mv_ID x) = Some x \<and> in_production (vw s) (mv_ModelID v) (mv_ID x) \<and> q = x\<lparr>mv_Stage := StageArchived\<rparr>"
      using moved(3) inc(1) unfolding t v' displaced_def by meson
    then obtain x where x: "v_versions (vw s) (mv_ID x) = Some x" "in_production (vw s) (mv_ModelID v) (mv_ID x)" "q = x\<lparr>mv_Stage := StageArchived\<rparr>" by blast
    have xd: "mv_ID x = d" using only x(2) by blast
    then have q: "q = u\<lparr>mv_Stage := StageArchived\<rparr>" "mv_ID u = d" using x inc(2) by auto
    have vd: "mv_ID v \<noteq> d"
    proof
      assume "mv_ID v = d"
      then have "mv_Stage v = StageProduction" using inc(1) vid by (auto simp: in_production_def)
      then show False using CanTransitionTo_neq [OF e] by blast
    qed
    have ok: "\<not> isl r" and ch: "chg s s' (keyed (ac_Team actor) CommandPromoteVersion (pv_IdempotencyKey inp) (mv_ID v)
          (set_stage (mv_ID v) StageProduction (demoted_view q (vw s)))) [(modelEvent EventModelPromoted m actor now)\<lparr>ev_Version := v\<lparr>mv_Stage := StageProduction\<rparr>,
          ev_DemotedVersion := q, ev_FromStage := mv_Stage v, ev_ToStage := StageProduction\<rparr>]"
      using moved(5) hl unfolding t v' by (auto simp: settled_def split: if_splits)
    have dv: "demoted_view q (vw s) = set_stage d StageArchived (vw s)" using ne q by (simp add: demoted_view_def)
    have vv: "v_versions (vw s') = (v_versions (vw s))(d \<mapsto> u\<lparr>mv_Stage := StageArchived\<rparr>, mv_ID v \<mapsto> v\<lparr>mv_Stage := StageProduction\<rparr>)"
      using ch vd vid inc(2) by (auto simp: changed_def dv set_stage_versions fun_eq_iff)
    have mm: "v_models (vw s') = v_models (vw s)" using ch by (simp add: changed_def dv set_stage_versions)
    have um: "mv_ModelID u = mv_ModelID v" using inc by (auto simp: in_production_def)
    have "in_production (vw s') (mv_ModelID v) i \<longleftrightarrow> i = mv_ID v" for i
      using only [of i] by (auto simp: in_production_def vv split: if_splits)
    then show ?thesis using ok moved(4) ch vv mm by (auto simp: t v' q(1) changed_def modelEvent_def)
  qed
qed

text \<open>A key found in the ledger answers with the entity it names and changes nothing.\<close>

lemma lookupCommand_hit:
  assumes inv: "inv (rg_write s)" and P: "rs_write P = W" and load: "loads view inv healthy load L" and hl: "healthy (rg_write s)"
    and hit: "k \<noteq> ''''" "v_ledger (vw s) (t, c, k) = Some i" "L (vw s) i = Some x"
  obtains s1 where "lookupCommandIdempotency P t c k load s = (Inr (Some x), s1)" "stl s s1"
proof -
  obtain a s1 where a: "lookupCommandIdempotency P t c k load s = (a, s1)" by (cases "lookupCommandIdempotency P t c k load s")
  note l = lookupCommand_run [OF inv P load a]
  have "stl s s1" using l by (rule conjunct1)
  moreover have "a = Inr (Some x)" using l [THEN conjunct2, THEN conjunct2, THEN conjunct2, THEN mp, OF hl, THEN conjunct2] hit by blast
  ultimately show ?thesis using that a by blast
qed

text \<open>A promotion repeated under its key.\<close>

lemma PromoteVersion_replay:
  fixes P :: "('w, 'r) registryService"
  assumes inv: "inv (rg_write s)" and P: "rs_write P = W" and hl: "healthy (rg_write s)" and pm: "promotable (vw s) actor inp v"
    and key: "pv_IdempotencyKey inp \<noteq> ''''" and run: "PromoteVersion P actor inp s = (Inr res, s1)"
  shows "\<exists>s2. PromoteVersion P actor inp s1 = (Inr \<lparr>pr_Promoted = v\<lparr>mv_Stage := pv_TargetStage inp\<rparr>, pr_Demoted = zeroVersion\<rparr>, s2)
      \<and> pr_Promoted res = v\<lparr>mv_Stage := pv_TargetStage inp\<rparr> \<and> vw s2 = vw s1 \<and> rg_emitted s2 = rg_emitted s1"
  using inv P run
proof (cases rule: PromoteVersion_cases)
  case still
  then show ?thesis using hl pm by auto
next
  case (moved v' m q now)
  have v': "v' = v" using moved(1) pm unfolding promotable_def by auto
  note p = pm [unfolded promotable_def]
  have vid: "v_versions (vw s) (mv_ID v) = Some v" using p owned_by_id [OF inv] by blast
  let ?K = "keyed (ac_Team actor) CommandPromoteVersion (pv_IdempotencyKey inp) (mv_ID v) (set_stage (mv_ID v) (pv_TargetStage inp) (demoted_view q (vw s)))"
  have ch: "chg s s1 ?K [(modelEvent EventModelPromoted m actor now)\<lparr>ev_Version := v\<lparr>mv_Stage := pv_TargetStage inp\<rparr>, ev_DemotedVersion := q,
      ev_FromStage := mv_Stage v, ev_ToStage := pv_TargetStage inp\<rparr>]" using moved(5) unfolding v' by (simp add: settled_def)
  have e: "CanTransitionTo (mv_Stage v) (pv_TargetStage inp)" using p by blast
  note tl = promoted_tells [OF vid moved(2) [unfolded v'] e moved(3) [unfolded v'] settled_ok [OF moved(5) [unfolded v']] keyed_models(2) [of "ac_Team actor" CommandPromoteVersion "pv_IdempotencyKey inp" "mv_ID v"],
      where actor = actor and now = now]
  have inv1: "inv (rg_write s1)" and h1: "healthy (rg_write s1)" and v1: "vw s1 = ?K" using ch hl by (simp_all add: changed_def)
  have "v_ledger (vw s1) (ac_Team actor, CommandPromoteVersion, pv_IdempotencyKey inp) = Some (mv_ID v)" using key by (simp add: v1 keyed_def)
  moreover have "v_versions (vw s1) (mv_ID v) = Some (v\<lparr>mv_Stage := pv_TargetStage inp\<rparr>)" using tl by (simp add: v1 tells_def modelEvent_def Let_def)
  ultimately obtain s2 where s2: "lookupCommandIdempotency P (ac_Team actor) CommandPromoteVersion (pv_IdempotencyKey inp) (\<lambda>i. onWrite (ws_GetVersion W i)) s1
      = (Inr (Some (v\<lparr>mv_Stage := pv_TargetStage inp\<rparr>)), s2)" "stl s1 s2"
    using lookupCommand_hit [OF inv1 P loads_version h1 key] by blast
  have "PromoteVersion P actor inp s1 = (Inr \<lparr>pr_Promoted = v\<lparr>mv_Stage := pv_TargetStage inp\<rparr>, pr_Demoted = zeroVersion\<rparr>, s2)"
    using p by (simp add: PromoteVersion_def P s2(1))
  then show ?thesis using s2(2) moved(4) by (simp add: still_def v')
qed

end

section \<open>Teams\<close>

text \<open>What another team's actor gets from a healthy store, for a model or a version its team does not own.\<close>

definition refused :: "('w \<Rightarrow> regView) \<Rightarrow> ('w, 'r) regState \<Rightarrow> goerr \<Rightarrow> (goerr + 'a) \<times> ('w, 'r) regState \<Rightarrow> bool" where
  "refused vf s e out \<longleftrightarrow> fst out = Inl e \<and> vf (rg_write (snd out)) = vf (rg_write s) \<and> rg_emitted (snd out) = rg_emitted s"

context write_store
begin

lemma loadOwnedModel_refused:
  assumes inv: "inv (rg_write s)" and P: "rs_write P = W" and hl: "healthy (rg_write s)" and no: "owned_model (vw s) actor i = None"
  obtains s1 where "loadOwnedModel P actor i s = (Inl ErrModelNotFound, s1)" "stl s s1"
proof -
  obtain a s1 where a: "loadOwnedModel P actor i s = (a, s1)" by (cases "loadOwnedModel P actor i s")
  note l = loadOwnedModel_run [OF inv P a]
  have "a = Inl ErrModelNotFound" using l [THEN conjunct2, THEN conjunct2, THEN mp, OF hl] by (simp add: no)
  then show ?thesis using that a l [THEN conjunct1] by blast
qed

lemma foreign_model_refused:
  fixes P :: "('w, 'r) registryService"
  assumes inv: "inv (rg_write s)" and P: "rs_write P = W" and hl: "healthy (rg_write s)" and no: "owned_model (vw s) actor i = None" and i: "TrimSpace i \<noteq> ''''"
  shows "um_ModelID u = i \<Longrightarrow> refused view s ErrModelNotFound (UpdateModel P actor u s)"
    and "refused view s ErrModelNotFound (ArchiveModel P actor i '''' s)"
    and "cv_ModelID c = i \<Longrightarrow> cv_IdempotencyKey c = '''' \<Longrightarrow> refused view s ErrModelNotFound (CreateVersion P actor c s)"
proof -
  obtain s1 where s1: "loadOwnedModel P actor i s = (Inl ErrModelNotFound, s1)" "stl s s1" using loadOwnedModel_refused [OF inv P hl no] .
  show "um_ModelID u = i \<Longrightarrow> refused view s ErrModelNotFound (UpdateModel P actor u s)"
    using i s1 by (simp add: UpdateModel_def refused_def still_def)
  show "refused view s ErrModelNotFound (ArchiveModel P actor i '''' s)"
    using i s1 by (simp add: ArchiveModel_def refused_def still_def lookupCommandIdempotency_def)
  show "cv_ModelID c = i \<Longrightarrow> cv_IdempotencyKey c = '''' \<Longrightarrow> refused view s ErrModelNotFound (CreateVersion P actor c s)"
    using i s1 by (simp add: CreateVersion_def createFresh_def refused_def still_def)
qed

lemma foreign_version_refused:
  fixes P :: "('w, 'r) registryService"
  assumes inv: "inv (rg_write s)" and P: "rs_write P = W" and hl: "healthy (rg_write s)" and no: "owned_version (vw s) actor i = None" and i: "TrimSpace i \<noteq> ''''"
  shows "mk_VersionID k = i \<Longrightarrow> mk_IdempotencyKey k = '''' \<Longrightarrow> refused view s ErrVersionNotFound (MarkVersionReady P actor k s)"
    and "pv_VersionID p = i \<Longrightarrow> pv_IdempotencyKey p = '''' \<Longrightarrow> IsValid (pv_TargetStage p) \<Longrightarrow> refused view s ErrVersionNotFound (PromoteVersion P actor p s)"
proof -
  obtain a s1 where a: "loadOwnedVersion P actor i s = (a, s1)" by (cases "loadOwnedVersion P actor i s")
  note l = loadOwnedVersion_run [OF inv P a]
  have "a = Inl ErrVersionNotFound" using l [THEN conjunct2, THEN conjunct2, THEN mp, OF hl] by (simp add: no)
  then have a': "loadOwnedVersion P actor i s = (Inl ErrVersionNotFound, s1)" and st: "stl s s1" using a l [THEN conjunct1] by blast+
  show "mk_VersionID k = i \<Longrightarrow> mk_IdempotencyKey k = '''' \<Longrightarrow> refused view s ErrVersionNotFound (MarkVersionReady P actor k s)"
    using i a' st by (simp add: MarkVersionReady_def refused_def still_def lookupCommandIdempotency_def)
  show "pv_VersionID p = i \<Longrightarrow> pv_IdempotencyKey p = '''' \<Longrightarrow> IsValid (pv_TargetStage p) \<Longrightarrow> refused view s ErrVersionNotFound (PromoteVersion P actor p s)"
    using i a' st by (simp add: PromoteVersion_def refused_def still_def lookupCommandIdempotency_def)
qed

end

end
