(* ===== verification/RegistryLabels.thy ===== *)
theory RegistryLabels
  imports RegistryRun
begin

text \<open>
  The labels the registry assigns itself: counting up from the number of versions to the first label that is free.
  Labels of pinned versions may be in the way; the loop steps over them, and gives up after a hundred.
\<close>

section \<open>Numbers as text\<close>

lemma is_digit_char_of: "n < 10 \<Longrightarrow> is_digit (char_of (48 + n :: nat))"
  by (simp add: is_digit_def)

lemma digit_value: "n < 10 \<Longrightarrow> int (of_char (char_of (48 + n :: nat) :: char)) - 48 = int n"
  by simp

lemma digits_val_snoc: "digits_val (ds @ [c]) = 10 * digits_val ds + (int (of_char c) - 48)"
  by (simp add: digits_val_def)

lemma itoa_nat_digits: "list_all is_digit (itoa_nat n) \<and> itoa_nat n \<noteq> [] \<and> digits_val (itoa_nat n) = int n"
proof (induction n rule: less_induct)
  case (less n)
  show ?case
  proof (cases "n < 10")
    case True
    then show ?thesis by (subst (1 2 3) itoa_nat.simps) (simp add: is_digit_char_of digits_val_def digit_value del: of_char_of)
  next
    case False
    then have IH: "list_all is_digit (itoa_nat (n div 10)) \<and> digits_val (itoa_nat (n div 10)) = int (n div 10)" using less by simp
    have u: "itoa_nat n = itoa_nat (n div 10) @ [char_of (48 + n mod 10)]" using False by (subst itoa_nat.simps) simp
    have "digits_val (itoa_nat n) = 10 * int (n div 10) + int (n mod 10)"
      unfolding u digits_val_snoc using IH digit_value [of "n mod 10"] by simp
    also have "\<dots> = int n" by presburger
    finally have "digits_val (itoa_nat n) = int n" .
    moreover have "list_all is_digit (itoa_nat n)" "itoa_nat n \<noteq> []" unfolding u using IH is_digit_char_of [of "n mod 10"] by simp_all
    ultimately show ?thesis by blast
  qed
qed

lemma itoa_nat_unsigned: "hd (itoa_nat n) \<noteq> CHR ''-'' \<and> hd (itoa_nat n) \<noteq> CHR ''+''"
proof -
  have "is_digit (hd (itoa_nat n))" using itoa_nat_digits [of n] by (cases "itoa_nat n") auto
  then show ?thesis by (auto simp: is_digit_def)
qed

lemma Atoi_itoa: "0 \<le> i \<Longrightarrow> i < 2 ^ 63 \<Longrightarrow> Atoi (itoa i) = Some i"
proof -
  assume i: "0 \<le> i" "i < 2 ^ 63"
  define ds where "ds = itoa_nat (nat i)"
  have d: "list_all is_digit ds" "ds \<noteq> []" "digits_val ds = i" "hd ds \<noteq> CHR ''-''" "hd ds \<noteq> CHR ''+''"
    using itoa_nat_digits [of "nat i"] itoa_nat_unsigned [of "nat i"] i(1) unfolding ds_def by simp_all
  have "itoa i = ds" using i(1) by (simp add: itoa_def ds_def)
  then show ?thesis using d i by (simp add: Atoi_def Let_def)
qed

lemma itoa_inj: "0 \<le> i \<Longrightarrow> 0 \<le> j \<Longrightarrow> itoa i = itoa j \<Longrightarrow> i = j"
proof -
  assume a: "0 \<le> i" "0 \<le> j" "itoa i = itoa j"
  then have "digits_val (itoa_nat (nat i)) = digits_val (itoa_nat (nat j))" by (simp add: itoa_def)
  then show "i = j" using itoa_nat_digits [of "nat i"] itoa_nat_digits [of "nat j"] a(1,2) by simp
qed

section \<open>The first free label\<close>

context write_store
begin

lemma insertLoop_first_free:
  fixes P :: "('w, 'r) registryService"
  assumes P: "rs_write P = W" and "inv (rg_write s)" "healthy (rg_write s)" and fin: "list_all (finite_float \<circ> snd) (cv_Metrics inp)"
    and "v_models (vw s) (cv_ModelID inp) \<noteq> None" "cv_IdempotencyKey inp = '''' \<or> v_vkeys (vw s) (cv_ModelID inp, cv_IdempotencyKey inp) = None"
    and "\<forall>n\<ge>rg_ids s. v_versions (vw s) (rs_ids P n) = None" and "0 \<le> x" "x + int j < 2 ^ 63" "n + j \<le> maxAutoLabelAttempts"
    and "\<forall>i<j. label_taken (vw s) (cv_ModelID inp) (itoa (x + int i))" "\<not> label_taken (vw s) (cv_ModelID inp) (itoa (x + int j))"
  shows "\<exists>v s'. insertLoop P actor inp m now True n (itoa x) s = (Inr v, s') \<and> mv_Version v = itoa (x + int j) \<and> mv_ModelID v = cv_ModelID inp"
  using assms(2,3,5-)
proof (induction j arbitrary: n x s)
  case 0
  define v where "v = attempt_version P actor inp now (itoa x) (rg_ids s)"
  have can: "can_create_version (vw s) v (cv_IdempotencyKey inp)"
    using 0 by (auto simp: can_create_version_def v_def attempt_version_def)
  from 0(1) P v_def show ?case
  proof (cases rule: insertLoop_step [where n = n and auto = True and m = m])
    case (inserted s')
    then show ?thesis by (auto simp: v_def attempt_version_def)
  qed (use can 0 fin in auto)
next
  case (Suc j)
  define v where "v = attempt_version P actor inp now (itoa x) (rg_ids s)"
  have no: "\<not> can_create_version (vw s) v (cv_IdempotencyKey inp)"
    using Suc.prems(9) by (auto simp: can_create_version_def v_def attempt_version_def dest: spec [of _ 0])
  have ax: "Atoi (itoa x) = Some x" using Suc.prems(6,7) by (intro Atoi_itoa) simp_all
  from Suc.prems(1) P v_def show ?case
  proof (cases rule: insertLoop_step [where n = n and auto = True and m = m])
    case (failed s' e)
    then show ?thesis using Suc.prems fin ax by auto
  next
    case (again s' y)
    have y: "y = x" using again(3) ax by simp
    have vs: "vw s' = vw s" and st: "inv (rg_write s')" "healthy (rg_write s')" using again(4) Suc.prems(2) by (simp_all add: still_def)
    have tk: "\<forall>i<j. label_taken (vw s) (cv_ModelID inp) (itoa (x + 1 + int i))"
    proof (intro allI impI)
      fix i assume "i < j"
      then have "label_taken (vw s) (cv_ModelID inp) (itoa (x + int (Suc i)))" using Suc.prems(9) by blast
      then show "label_taken (vw s) (cv_ModelID inp) (itoa (x + 1 + int i))" by (simp add: add.commute add.left_commute)
    qed
    have eq: "x + int (Suc j) = x + 1 + int j" by simp
    have "\<exists>v t. insertLoop P actor inp m now True (Suc n) (itoa (x + 1)) s' = (Inr v, t) \<and> mv_Version v = itoa (x + 1 + int j) \<and> mv_ModelID v = cv_ModelID inp"
      by (rule Suc.IH [OF st]) (use Suc.prems again(5) tk in \<open>simp_all add: vs algebra_simps\<close>)
    then show ?thesis using again(7) y unfolding eq by simp
  qed (use no in auto)
qed

end

text \<open>Among one label more than the model has versions, one is free.\<close>

lemma free_label_exists:
  assumes ok: "view_ok A" and x: "0 \<le> x"
  shows "\<exists>j\<le>card (versions_of A d). \<not> label_taken A d (itoa (x + int j))"
proof (rule ccontr)
  assume "\<not> ?thesis"
  then have all: "\<forall>j\<le>card (versions_of A d). label_taken A d (itoa (x + int j))" by blast
  have fin: "finite (versions_of A d)" using view_okD(1) [OF ok] by (rule rev_finite_subset) (auto simp: versions_of_def)
  define lbl where "lbl i = mv_Version (the (v_versions A i))" for i
  have sub: "(\<lambda>j. itoa (x + int j)) ` {..card (versions_of A d)} \<subseteq> lbl ` versions_of A d"
  proof
    fix y
    assume "y \<in> (\<lambda>j. itoa (x + int j)) ` {..card (versions_of A d)}"
    then have "label_taken A d y" using all by auto
    then obtain i v where "v_versions A i = Some v" "mv_ModelID v = d" "mv_Version v = y" by (auto simp: label_taken_def)
    then show "y \<in> lbl ` versions_of A d" by (intro image_eqI [of _ _ i]) (simp_all add: lbl_def versions_of_def)
  qed
  have inj: "inj_on (\<lambda>j. itoa (x + int j)) {..card (versions_of A d)}"
  proof (rule inj_onI)
    fix a b
    assume "itoa (x + int a) = itoa (x + int b)"
    then have "x + int a = x + int b" using x by (intro itoa_inj) simp_all
    then show "a = b" by simp
  qed
  have "card (versions_of A d) + 1 = card ((\<lambda>j. itoa (x + int j)) ` {..card (versions_of A d)})" using card_image [OF inj] by simp
  also have "\<dots> \<le> card (lbl ` versions_of A d)" using sub fin by (intro card_mono) auto
  also have "\<dots> \<le> card (versions_of A d)" using fin by (rule card_image_le)
  finally show False by simp
qed

context write_store
begin

lemma createFresh_auto:
  fixes P :: "('w, 'r) registryService"
  assumes P: "rs_write P = W" and inv: "inv (rg_write s)" and hl: "healthy (rg_write s)" and fin: "list_all (finite_float \<circ> snd) (cv_Metrics inp)"
    and own: "owned_model (vw s) actor (cv_ModelID inp) = Some m" "\<not> IsArchived m" and lbl: "TrimSpace (cv_Version inp) = ''''"
    and key: "cv_IdempotencyKey inp = '''' \<or> v_vkeys (vw s) (cv_ModelID inp, cv_IdempotencyKey inp) = None"
    and ids: "\<forall>n\<ge>rg_ids s. v_versions (vw s) (rs_ids P n) = None" and few: "card (versions_of (vw s) (cv_ModelID inp)) + 1 + j < 2 ^ 63" "j \<le> maxAutoLabelAttempts"
    and tk: "\<forall>i<j. label_taken (vw s) (cv_ModelID inp) (itoa (int (card (versions_of (vw s) (cv_ModelID inp))) + 1 + int i))"
    and fr: "\<not> label_taken (vw s) (cv_ModelID inp) (itoa (int (card (versions_of (vw s) (cv_ModelID inp))) + 1 + int j))"
    and run: "createFresh P actor inp s = (r, s')"
  shows "\<exists>v. r = Inr v \<and> mv_Version v = itoa (int (card (versions_of (vw s) (cv_ModelID inp))) + 1 + int j) \<and> mv_ModelID v = cv_ModelID inp"
proof -
  let ?n = "int (card (versions_of (vw s) (cv_ModelID inp)))"
  obtain a s1 where a: "loadOwnedModel P actor (cv_ModelID inp) s = (a, s1)" by (cases "loadOwnedModel P actor (cv_ModelID inp) s")
  note lo = loadOwnedModel_run [OF inv P a]
  have l: "stl s s1" using lo by (rule conjunct1)
  have am: "a = Inr m" using lo [THEN conjunct2, THEN conjunct2, THEN mp, OF hl] by (simp add: own(1))
  have inv1: "inv (rg_write s1)" and vs: "view (rg_write s1) = view (rg_write s)" and h1: "healthy (rg_write s1)" using l hl by (simp_all add: still_def)
  obtain b w where b: "ws_CountVersions W (cv_ModelID inp) (rg_write s1) = (b, w)" by (cases "ws_CountVersions W (cv_ModelID inp) (rg_write s1)")
  note cv = count_versions [OF inv1 b, unfolded vs]
  have c: "inv w" "view w = vw s" "b = Inr ?n" "healthy w" using cv h1 by (cases b; simp)+
  have ow: "onWrite (ws_CountVersions W (cv_ModelID inp)) s1 = (b, s1\<lparr>rg_write := w\<rparr>)" using b by (simp add: onWrite_eq)
  define s3 where "s3 = s1\<lparr>rg_write := w, rg_ticks := Suc (rg_ticks s1)\<rparr>"
  have eq: "createFresh P actor inp s = insertLoop P actor inp m (rs_clock P (rg_ticks s1)) True 0 (itoa (?n + 1)) s3"
    using own(2) lbl by (simp add: createFresh_def a am P ow c(3) Now_def s3_def)
  have rid: "rg_ids s1 = rg_ids s" using a by (auto simp: loadOwnedModel_def onWrite_def split: prod.splits sum.splits if_splits)
  have md: "v_models (vw s) (cv_ModelID inp) \<noteq> None" using owned_modelD(1) [OF own(1)] by simp
  have v3: "view (rg_write s3) = vw s" by (simp add: s3_def c(2))
  have "\<exists>v t. insertLoop P actor inp m (rs_clock P (rg_ticks s1)) True 0 (itoa (?n + 1)) s3 = (Inr v, t) \<and> mv_Version v = itoa (?n + 1 + int j) \<and> mv_ModelID v = cv_ModelID inp"
  proof (rule insertLoop_first_free [where s = s3, OF P _ _ fin, unfolded v3])
    show "inv (rg_write s3)" "healthy (rg_write s3)" using c by (simp_all add: s3_def)
    show "\<forall>n\<ge>rg_ids s3. v_versions (vw s) (rs_ids P n) = None" using ids rid by (simp add: s3_def)
    show "?n + 1 + int j < 2 ^ 63" using few(1) by simp
    show "0 + j \<le> maxAutoLabelAttempts" using few(2) by linarith
  qed (use md key tk fr in \<open>assumption | simp\<close>)+
  then show ?thesis using run eq by auto
qed

lemma CreateVersion_auto:
  fixes P :: "('w, 'r) registryService"
  assumes P: "rs_write P = W" and inv: "inv (rg_write s)" and hl: "healthy (rg_write s)" and fin: "list_all (finite_float \<circ> snd) (cv_Metrics inp)"
    and mid: "TrimSpace (cv_ModelID inp) \<noteq> ''''"
    and own: "owned_model (vw s) actor (cv_ModelID inp) = Some m" "\<not> IsArchived m" and lbl: "TrimSpace (cv_Version inp) = ''''"
    and key: "cv_IdempotencyKey inp = '''' \<or> v_vkeys (vw s) (cv_ModelID inp, cv_IdempotencyKey inp) = None"
    and ids: "\<forall>n\<ge>rg_ids s. v_versions (vw s) (rs_ids P n) = None" and few: "card (versions_of (vw s) (cv_ModelID inp)) \<le> maxAutoLabelAttempts"
    and run: "CreateVersion P actor inp s = (r, s')"
  shows "\<exists>v j. r = Inr v \<and> mv_ModelID v = cv_ModelID inp \<and> mv_Version v = itoa (int (card (versions_of (vw s) (cv_ModelID inp))) + 1 + int j)
      \<and> \<not> label_taken (vw s) (cv_ModelID inp) (mv_Version v)
      \<and> (\<forall>i<j. label_taken (vw s) (cv_ModelID inp) (itoa (int (card (versions_of (vw s) (cv_ModelID inp))) + 1 + int i)))"
proof -
  let ?n = "card (versions_of (vw s) (cv_ModelID inp))" and ?free = "\<lambda>j. \<not> label_taken (vw s) (cv_ModelID inp) (itoa (int (card (versions_of (vw s) (cv_ModelID inp))) + 1 + int j))"
  define j where "j = (LEAST j. ?free j)"
  have ex: "\<exists>j\<le>?n. ?free j" by (rule free_label_exists [OF view_wf [OF inv]]) simp
  then obtain i where i: "i \<le> ?n" "?free i" by blast
  have j: "?free j" "j \<le> ?n" "\<forall>i<j. \<not> ?free i" unfolding j_def using LeastI [of ?free i] Least_le [of ?free i] not_less_Least i by auto
  have b: "?n + 1 + j < 2 ^ 63" "j \<le> maxAutoLabelAttempts" using few j(2) by (simp_all add: maxAutoLabelAttempts_def)
  have tk: "\<forall>i<j. label_taken (vw s) (cv_ModelID inp) (itoa (int ?n + 1 + int i))" using j(3) by blast
  obtain s1 where s1: "createFresh P actor inp s1 = (r, s')" "inv (rg_write s1)" "healthy (rg_write s1)" "vw s1 = vw s" "rg_ids s1 = rg_ids s"
  proof (cases "cv_IdempotencyKey inp = ''''")
    case True
    then show ?thesis using that [of s] run mid inv hl by (simp add: CreateVersion_def)
  next
    case False
    obtain a w where w: "ws_LookupVersionByIdempotencyKey W (cv_ModelID inp) (cv_IdempotencyKey inp) (rg_write s) = (a, w)"
      by (cases "ws_LookupVersionByIdempotencyKey W (cv_ModelID inp) (cv_IdempotencyKey inp) (rg_write s)")
    have lw: "inv w" "view w = vw s" "healthy w" "a = Inl ErrRecordNotFound" using lookup_version_key [OF inv w] hl False key by (simp_all add: Let_def answer_def)
    have ow: "onWrite (ws_LookupVersionByIdempotencyKey W (cv_ModelID inp) (cv_IdempotencyKey inp)) s = (a, s\<lparr>rg_write := w\<rparr>)" using w by (simp add: onWrite_eq)
    show ?thesis using that [of "s\<lparr>rg_write := w\<rparr>"] run mid lw False by (simp add: CreateVersion_def P ow)
  qed
  have "\<exists>v. r = Inr v \<and> mv_Version v = itoa (int ?n + 1 + int j) \<and> mv_ModelID v = cv_ModelID inp"
    using createFresh_auto [OF P s1(2,3) fin _ own(2) lbl _ _ _ b(2) _ _ s1(1), unfolded s1(4,5)] own(1) key ids b(1) tk j(1) by blast
  then show ?thesis using j(1) tk by auto
qed

end

section \<open>How often the loop tries\<close>

text \<open>Every attempt takes one id, so the ids count the attempts, whatever the store answers.\<close>

lemma onWrite_ids: "onWrite f s = (a, s') \<Longrightarrow> rg_ids s' = rg_ids s"
  by (auto simp: onWrite_def split: prod.splits)

lemma insertLoop_attempts:
  "n \<le> maxAutoLabelAttempts \<Longrightarrow> rg_ids (snd (insertLoop P actor inp m now aut n c s)) \<le> rg_ids s + (maxAutoLabelAttempts + 1 - n)"
proof (induction "maxAutoLabelAttempts - n" arbitrary: n c s)
  case 0
  then have n: "n = maxAutoLabelAttempts" by simp
  show ?case unfolding n
    by (subst insertLoop.simps) (auto simp: NewID_def Let_def emit_def dest: onWrite_ids split: prod.split sum.split)
next
  case (Suc k)
  obtain a s2 where a: "onWrite (ws_CreateVersion (rs_write P) (zeroVersion\<lparr>mv_ID := rs_ids P (rg_ids s), mv_ModelID := cv_ModelID inp, mv_Version := c,
      mv_Description := cv_Description inp, mv_Metrics := cv_Metrics inp, mv_Stage := StageDev, mv_Status := StatusPendingUpload,
      mv_CreatedBy := ac_UserID actor, mv_CreatedAt := now\<rparr>) (cv_IdempotencyKey inp)) (s\<lparr>rg_ids := Suc (rg_ids s)\<rparr>) = (a, s2)" by fastforce
  have s2: "rg_ids s2 = Suc (rg_ids s)" using onWrite_ids [OF a] by simp
  have IH: "rg_ids (snd (insertLoop P actor inp m now aut (Suc n) c' s2)) \<le> rg_ids s2 + (maxAutoLabelAttempts + 1 - Suc n)" for c'
    using Suc.hyps(2) by (intro Suc.hyps(1)) simp_all
  have b: "rg_ids s2 \<le> rg_ids s + (maxAutoLabelAttempts + 1 - n)" "rg_ids s2 + (maxAutoLabelAttempts + 1 - Suc n) \<le> rg_ids s + (maxAutoLabelAttempts + 1 - n)"
    using Suc.prems Suc.hyps(2) s2 by linarith+
  show ?case
    by (subst insertLoop.simps) (use b IH [THEN le_trans, OF b(2)] in \<open>auto simp: NewID_def Let_def emit_def a split: sum.split option.split\<close>)
qed

lemma loadOwnedModel_ids: "loadOwnedModel P actor i s = (a, s') \<Longrightarrow> rg_ids s' = rg_ids s"
  by (auto simp: loadOwnedModel_def dest: onWrite_ids split: prod.splits sum.splits if_splits)

lemma createFresh_attempts: "rg_ids (snd (createFresh P actor inp s)) \<le> rg_ids s + (maxAutoLabelAttempts + 1)"
proof -
  obtain a s1 where a: "loadOwnedModel P actor (cv_ModelID inp) s = (a, s1)" by fastforce
  obtain b s2 where b: "onWrite (ws_CountVersions (rs_write P) (cv_ModelID inp)) s1 = (b, s2)" by fastforce
  have ids: "rg_ids s1 = rg_ids s" "rg_ids s2 = rg_ids s" using loadOwnedModel_ids [OF a] onWrite_ids [OF b] by simp_all

  have go: "rg_ids (snd (insertLoop P actor inp m now aut 0 c (t\<lparr>rg_ticks := k\<rparr>))) \<le> rg_ids s + (maxAutoLabelAttempts + 1)"
    if "rg_ids t = rg_ids s" for m now aut c t k
    using insertLoop_attempts [of 0 P actor inp m now aut c "t\<lparr>rg_ticks := k\<rparr>"] that by simp
  show ?thesis unfolding createFresh_def
    by (auto simp: a b Now_def Let_def ids intro: go [simplified] split: sum.split)
qed

end
