(* ===== verification/RegistryPostgres.thy ===== *)
theory RegistryPostgres
  imports RegistryLabels
begin

text \<open>
  The Postgres adapter of the write store (\<^verbatim>\<open>repository/postgres/write_store.go\<close>) on the rows of the tables of
  \<^verbatim>\<open>migrations/001_init.up.sql\<close>. A statement is applied to the rows and refused when the result breaks a
  constraint of the schema; a transaction that fails leaves the rows as they were. Each call of the
  database may fail: the state carries the faults to come, one per query or transaction. The precision of
  a stored time stamp is a parameter. A text or a number that Postgres refuses is a fault.
\<close>

section \<open>Rows and constraints\<close>

record regDB =
  db_models :: "(Model \<times> string option) list"
  db_versions :: "(ModelVersion \<times> string option) list"
  db_ledger :: "((string \<times> Command \<times> string) \<times> string) list"
  db_faults :: "string option list"

definition next_fault :: "regDB \<Rightarrow> goerr option \<times> regDB" where
  "next_fault s = (case db_faults s of
     [] \<Rightarrow> (None, s) | f # fs \<Rightarrow> (map_option Dyn f, s\<lparr>db_faults := fs\<rparr>))"

text \<open>The violation of a unique index (SQLSTATE 23505), and of a check or a reference.\<close>

definition uniqueViolation :: goerr where
  "uniqueViolation = New ''ERROR: duplicate key value violates unique constraint (SQLSTATE 23505)''"

definition isUniqueViolation :: "goerr \<Rightarrow> bool" where
  "isUniqueViolation err = errors_Is err uniqueViolation"

definition checks_hold :: "regDB \<Rightarrow> bool" where
  "checks_hold s = list_all (\<lambda>(v, k). 1 \<le> stage_int (mv_Stage v) \<and> stage_int (mv_Stage v) \<le> 4
     \<and> 1 \<le> status_int (mv_Status v) \<and> status_int (mv_Status v) \<le> 3) (db_versions s)"

definition indexes_hold :: "regDB \<Rightarrow> bool" where
  "indexes_hold s \<longleftrightarrow>
     distinct (map (\<lambda>(m, k). md_ID m) (db_models s))
     \<and> distinct (map (\<lambda>(m, k). (md_Team m, md_Name m)) (db_models s))
     \<and> distinct (List.map_filter (\<lambda>(m, k). map_option (Pair (md_Team m)) k) (db_models s))
     \<and> distinct (map (\<lambda>(v, k). mv_ID v) (db_versions s))
     \<and> distinct (map (\<lambda>(v, k). (mv_ModelID v, mv_Version v)) (db_versions s))
     \<and> distinct (map (\<lambda>(v, k). mv_ModelID v) (filter (\<lambda>(v, k). mv_Stage v = StageProduction) (db_versions s)))
     \<and> distinct (List.map_filter (\<lambda>(v, k). map_option (Pair (mv_ModelID v)) k) (db_versions s))
     \<and> distinct (map fst (db_ledger s))"

definition references_hold :: "regDB \<Rightarrow> bool" where
  "references_hold s = list_all (\<lambda>(v, k). mv_ModelID v \<in> (\<lambda>(m, k). md_ID m) ` set (db_models s)) (db_versions s)"

definition statement :: "(regDB \<Rightarrow> regDB) \<Rightarrow> regDB \<Rightarrow> goerr + regDB" where
  "statement f s = (let s' = f s in
     if \<not> checks_hold s' then Inl (Dyn ''ERROR: new row violates check constraint (SQLSTATE 23514)'')
     else if \<not> indexes_hold s' then Inl uniqueViolation
     else if \<not> references_hold s' then Inl (Dyn ''ERROR: insert or update violates foreign key constraint (SQLSTATE 23503)'')
     else Inr s')"

section \<open>Columns\<close>

definition nullableString :: "string \<Rightarrow> string option" where
  "nullableString s = (if s = '''' then None else Some s)"

text \<open>A column of type \<^verbatim>\<open>TIMESTAMPTZ\<close> that may be null reads back as the zero time when it is.\<close>

definition nullableTime :: "(time \<Rightarrow> time) \<Rightarrow> time \<Rightarrow> time" where
  "nullableTime pgtime t = (if t = 0 then 0 else pgtime t)"

text \<open>
  A row as it reads back (\<^verbatim>\<open>scanModel\<close>, \<^verbatim>\<open>scanVersion\<close>). JSON keeps a map of strings; a map of floats it
  keeps but for the sign of a zero, and \<^verbatim>\<open>json.Marshal\<close> refuses a float that is not finite.
\<close>

definition model_row :: "(time \<Rightarrow> time) \<Rightarrow> Model \<Rightarrow> Model" where
  "model_row pgtime m = m\<lparr>md_CreatedAt := pgtime (md_CreatedAt m), md_UpdatedAt := pgtime (md_UpdatedAt m),
     md_ArchivedAt := nullableTime pgtime (md_ArchivedAt m)\<rparr>"

definition marshalMetrics :: "(string \<times> 64 word) list \<Rightarrow> goerr + (string \<times> 64 word) list" where
  "marshalMetrics metrics =
     (if list_all (finite_float \<circ> snd) metrics then Inr (map (\<lambda>(n, w). (n, if w = neg_zero then 0 else w)) metrics)
      else Inl (Wrapf ''registry/postgres: marshal metrics: '' (Dyn ''json: unsupported value'') ''''))"

definition version_row :: "(time \<Rightarrow> time) \<Rightarrow> ModelVersion \<Rightarrow> ModelVersion" where
  "version_row pgtime v = v\<lparr>mv_Metrics := (case marshalMetrics (mv_Metrics v) of Inr metrics \<Rightarrow> metrics | Inl _ \<Rightarrow> []),
     mv_CreatedAt := pgtime (mv_CreatedAt v)\<rparr>"

text \<open>The first row a query finds.\<close>

definition select :: "string \<Rightarrow> ('a \<times> 'k \<Rightarrow> bool) \<Rightarrow> (regDB \<Rightarrow> ('a \<times> 'k) list) \<Rightarrow> regDB \<Rightarrow> (goerr + 'a) \<times> regDB" where
  "select what p rows s = (case next_fault s of
     (Some err, s1) \<Rightarrow> (Inl (Wrapf what err ''''), s1)
   | (None, s1) \<Rightarrow> (case find p (rows s1) of None \<Rightarrow> (Inl ErrRecordNotFound, s1) | Some row \<Rightarrow> (Inr (fst row), s1)))"

section \<open>Models\<close>

definition CreateModel :: "(time \<Rightarrow> time) \<Rightarrow> Model \<Rightarrow> string \<Rightarrow> regDB \<Rightarrow> (goerr + Model) \<times> regDB" where
  "CreateModel pgtime m idempotencyKey s = (case next_fault s of
     (Some err, s1) \<Rightarrow> (Inl (Wrapf ''registry/postgres: insert model: '' err ''''), s1)
   | (None, s1) \<Rightarrow> (case statement (\<lambda>db. db\<lparr>db_models := db_models db @ [(model_row pgtime m, nullableString idempotencyKey)]\<rparr>) s1 of
        Inl err \<Rightarrow> (Inl (if isUniqueViolation err then ErrWriteConflict else Wrapf ''registry/postgres: insert model: '' err ''''), s1)
      | Inr s2 \<Rightarrow> (Inr m, s2)))"

definition LookupModelByIdempotencyKey :: "string \<Rightarrow> string \<Rightarrow> regDB \<Rightarrow> (goerr + Model) \<times> regDB" where
  "LookupModelByIdempotencyKey team key s =
     (if key = '''' then (Inl ErrRecordNotFound, s)
      else select ''registry/postgres: scan model: '' (\<lambda>(m, k). md_Team m = team \<and> k = Some key) db_models s)"

definition GetModel :: "string \<Rightarrow> regDB \<Rightarrow> (goerr + Model) \<times> regDB" where
  "GetModel i s = select ''registry/postgres: scan model: '' (\<lambda>(m, k). md_ID m = i) db_models s"

definition UpdateModel :: "(time \<Rightarrow> time) \<Rightarrow> Model \<Rightarrow> regDB \<Rightarrow> (goerr + Model) \<times> regDB" where
  "UpdateModel pgtime m s = (case next_fault s of
     (Some err, s1) \<Rightarrow> (Inl (Wrapf ''registry/postgres: update model: '' err ''''), s1)
   | (None, s1) \<Rightarrow>
       (case statement (\<lambda>db. db\<lparr>db_models := map (\<lambda>(row, k). (if md_ID row = md_ID m
            then row\<lparr>md_Description := md_Description m, md_Framework := md_Framework m, md_TaskType := md_TaskType m,
              md_Tags := md_Tags m, md_ProductionVersion := md_ProductionVersion m, md_LatestVersion := md_LatestVersion m,
              md_ArchivedAt := nullableTime pgtime (md_ArchivedAt m), md_UpdatedAt := pgtime (md_UpdatedAt m)\<rparr>
            else row, k)) (db_models db)\<rparr>) s1 of
          Inl err \<Rightarrow> (Inl (Wrapf ''registry/postgres: update model: '' err ''''), s1)
        | Inr s2 \<Rightarrow>
            if \<not> list_ex (\<lambda>(row, k). md_ID row = md_ID m) (db_models s1) then (Inl ErrRecordNotFound, s2) else (Inr m, s2)))"

section \<open>Versions\<close>

definition CreateVersion :: "(time \<Rightarrow> time) \<Rightarrow> ModelVersion \<Rightarrow> string \<Rightarrow> regDB \<Rightarrow> (goerr + ModelVersion) \<times> regDB" where
  "CreateVersion pgtime v idempotencyKey s = (case marshalMetrics (mv_Metrics v) of
     Inl err \<Rightarrow> (Inl err, s)
   | Inr _ \<Rightarrow> (case next_fault s of
        (Some err, s1) \<Rightarrow> (Inl (Wrapf ''registry/postgres: insert version: '' err ''''), s1)
      | (None, s1) \<Rightarrow> (case statement (\<lambda>db. db\<lparr>db_versions := db_versions db @ [(version_row pgtime v, nullableString idempotencyKey)]\<rparr>) s1 of
           Inl err \<Rightarrow> (Inl (if isUniqueViolation err then ErrWriteConflict else Wrapf ''registry/postgres: insert version: '' err ''''), s1)
         | Inr s2 \<Rightarrow> (Inr v, s2))))"

definition LookupVersionByIdempotencyKey :: "string \<Rightarrow> string \<Rightarrow> regDB \<Rightarrow> (goerr + ModelVersion) \<times> regDB" where
  "LookupVersionByIdempotencyKey modelID key s =
     (if key = '''' then (Inl ErrRecordNotFound, s)
      else select ''registry/postgres: scan version: '' (\<lambda>(v, k). mv_ModelID v = modelID \<and> k = Some key) db_versions s)"

definition GetVersion :: "string \<Rightarrow> regDB \<Rightarrow> (goerr + ModelVersion) \<times> regDB" where
  "GetVersion i s = select ''registry/postgres: scan version: '' (\<lambda>(v, k). mv_ID v = i) db_versions s"

definition CountVersions :: "string \<Rightarrow> regDB \<Rightarrow> (goerr + int) \<times> regDB" where
  "CountVersions modelID s = (case next_fault s of
     (Some err, s1) \<Rightarrow> (Inl (Wrapf ''registry/postgres: count versions: '' err ''''), s1)
   | (None, s1) \<Rightarrow> (Inr (int (length (filter (\<lambda>(v, k). mv_ModelID v = modelID) (db_versions s1)))), s1))"

definition UpdateVersionStatus :: "ModelVersion \<Rightarrow> regDB \<Rightarrow> (goerr + ModelVersion) \<times> regDB" where
  "UpdateVersionStatus v s = (case next_fault s of
     (Some err, s1) \<Rightarrow> (Inl (Wrapf ''registry/postgres: update version status: '' err ''''), s1)
   | (None, s1) \<Rightarrow>
       (case statement (\<lambda>db. db\<lparr>db_versions := map (\<lambda>(row, k). (if mv_ID row = mv_ID v
            then row\<lparr>mv_Status := mv_Status v, mv_Stage := mv_Stage v, mv_ArtifactPath := mv_ArtifactPath v,
              mv_ArtifactDigest := mv_ArtifactDigest v, mv_SizeBytes := mv_SizeBytes v\<rparr> else row, k)) (db_versions db)\<rparr>) s1 of
          Inl err \<Rightarrow> (Inl (Wrapf ''registry/postgres: update version status: '' err ''''), s1)
        | Inr s2 \<Rightarrow>
            if \<not> list_ex (\<lambda>(row, k). mv_ID row = mv_ID v) (db_versions s1) then (Inl ErrRecordNotFound, s2) else (Inr v, s2)))"

definition FindProductionVersion :: "string \<Rightarrow> regDB \<Rightarrow> (goerr + ModelVersion) \<times> regDB" where
  "FindProductionVersion modelID s = select ''registry/postgres: scan version: ''
     (\<lambda>(v, k). mv_ModelID v = modelID \<and> mv_Stage v = StageProduction) db_versions s"

definition updateVersionStageTx :: "string \<Rightarrow> ModelStage \<Rightarrow> regDB \<Rightarrow> goerr + regDB" where
  "updateVersionStageTx i stage s =
     (case statement (\<lambda>db. db\<lparr>db_versions := map (\<lambda>(row, k). (if mv_ID row = i then row\<lparr>mv_Stage := stage\<rparr> else row, k)) (db_versions db)\<rparr>) s of
        Inl err \<Rightarrow> Inl err
      | Inr s2 \<Rightarrow> if \<not> list_ex (\<lambda>(row, k). mv_ID row = i) (db_versions s) then Inl ErrRecordNotFound else Inr s2)"

text \<open>The function \<^verbatim>\<open>pgx.BeginFunc\<close> runs: its error rolls the transaction back.\<close>

definition promoteFunc :: "ModelVersion \<Rightarrow> ModelVersion \<Rightarrow> regDB \<Rightarrow> goerr + regDB" where
  "promoteFunc promoted demoted s =
     (case (if mv_ID demoted \<noteq> '''' then updateVersionStageTx (mv_ID demoted) (mv_Stage demoted) s else Inr s) of
        Inl err \<Rightarrow> Inl (Wrapf ''demote prior production: '' err '''')
      | Inr s1 \<Rightarrow> (case updateVersionStageTx (mv_ID promoted) (mv_Stage promoted) s1 of
           Inl err \<Rightarrow> Inl (Wrapf ''promote version: '' err '''')
         | Inr s2 \<Rightarrow> Inr s2))"

definition PromoteVersionTx :: "ModelVersion \<Rightarrow> ModelVersion \<Rightarrow> regDB \<Rightarrow> (goerr + ModelVersion \<times> ModelVersion) \<times> regDB" where
  "PromoteVersionTx promoted demoted s = (case next_fault s of
     (Some err, s1) \<Rightarrow> (Inl (Wrapf ''registry/postgres: promote tx: '' err ''''), s1)
   | (None, s1) \<Rightarrow> (case promoteFunc promoted demoted s1 of
        Inl err \<Rightarrow> (Inl (if isUniqueViolation err then ErrWriteConflict else Wrapf ''registry/postgres: promote tx: '' err ''''), s1)
      | Inr s2 \<Rightarrow> (Inr (promoted, demoted), s2)))"

definition archiveFunc :: "(time \<Rightarrow> time) \<Rightarrow> Model \<Rightarrow> regDB \<Rightarrow> goerr + regDB" where
  "archiveFunc pgtime m s =
     (case statement (\<lambda>db. db\<lparr>db_models := map (\<lambda>(row, k). (if md_ID row = md_ID m
          then row\<lparr>md_ArchivedAt := pgtime (md_ArchivedAt m), md_UpdatedAt := pgtime (md_UpdatedAt m), md_ProductionVersion := ''''\<rparr>
          else row, k)) (db_models db)\<rparr>) s of
        Inl err \<Rightarrow> Inl (Wrapf ''archive model row: '' err '''')
      | Inr s1 \<Rightarrow>
          if \<not> list_ex (\<lambda>(row, k). md_ID row = md_ID m) (db_models s) then Inl ErrRecordNotFound
          else (case statement (\<lambda>db. db\<lparr>db_versions := map (\<lambda>(row, k). (if mv_ModelID row = md_ID m \<and> mv_Stage row \<noteq> StageArchived
               then row\<lparr>mv_Stage := StageArchived\<rparr> else row, k)) (db_versions db)\<rparr>) s1 of
             Inl err \<Rightarrow> Inl (Wrapf ''archive versions: '' err '''')
           | Inr s2 \<Rightarrow> Inr s2))"

definition ArchiveModelTx :: "(time \<Rightarrow> time) \<Rightarrow> Model \<Rightarrow> regDB \<Rightarrow> (goerr + Model) \<times> regDB" where
  "ArchiveModelTx pgtime m s = (case next_fault s of
     (Some err, s1) \<Rightarrow> (Inl (Wrapf ''registry/postgres: archive tx: '' err ''''), s1)
   | (None, s1) \<Rightarrow> (case archiveFunc pgtime m s1 of
        Inl err \<Rightarrow> (Inl (if errors_Is err ErrRecordNotFound then ErrRecordNotFound else Wrapf ''registry/postgres: archive tx: '' err ''''), s1)
      | Inr s2 \<Rightarrow> (Inr m, s2)))"

section \<open>The ledger of commands\<close>

definition LookupCommandIdempotency :: "string \<Rightarrow> Command \<Rightarrow> string \<Rightarrow> regDB \<Rightarrow> (goerr + string) \<times> regDB" where
  "LookupCommandIdempotency team command key s =
     (if key = '''' then (Inl ErrRecordNotFound, s)
      else case next_fault s of
        (Some err, s1) \<Rightarrow> (Inl (Wrapf ''registry/postgres: lookup command idempotency: '' err ''''), s1)
      | (None, s1) \<Rightarrow> (case map_of (db_ledger s1) (team, command, key) of
           None \<Rightarrow> (Inl ErrRecordNotFound, s1) | Some i \<Rightarrow> (Inr i, s1)))"

definition RecordCommandIdempotency :: "string \<Rightarrow> Command \<Rightarrow> string \<Rightarrow> string \<Rightarrow> regDB \<Rightarrow> goerr option \<times> regDB" where
  "RecordCommandIdempotency team command key entityID s =
     (if key = '''' then (None, s)
      else case next_fault s of
        (Some err, s1) \<Rightarrow> (Some (Wrapf ''registry/postgres: record command idempotency: '' err ''''), s1)
      | (None, s1) \<Rightarrow> (case map_of (db_ledger s1) (team, command, key) of
           None \<Rightarrow> (None, s1\<lparr>db_ledger := db_ledger s1 @ [((team, command, key), entityID)]\<rparr>)
         | Some existing \<Rightarrow> (case next_fault s1 of
              (Some err, s2) \<Rightarrow> (Some (Wrapf ''registry/postgres: read-back command idempotency: '' err ''''), s2)
            | (None, s2) \<Rightarrow> if existing \<noteq> entityID then (Some ErrWriteConflict, s2) else (None, s2))))"

definition PgWriteStore :: "(time \<Rightarrow> time) \<Rightarrow> regDB WriteStoreOps" where
  "PgWriteStore pgtime = \<lparr>ws_CreateModel = CreateModel pgtime, ws_LookupModelByIdempotencyKey = LookupModelByIdempotencyKey,
     ws_GetModel = GetModel, ws_UpdateModel = UpdateModel pgtime, ws_CreateVersion = CreateVersion pgtime,
     ws_LookupVersionByIdempotencyKey = LookupVersionByIdempotencyKey, ws_GetVersion = GetVersion, ws_CountVersions = CountVersions,
     ws_UpdateVersionStatus = UpdateVersionStatus, ws_PromoteVersionTx = PromoteVersionTx,
     ws_FindProductionVersion = FindProductionVersion, ws_ArchiveModelTx = ArchiveModelTx pgtime,
     ws_LookupCommandIdempotency = LookupCommandIdempotency, ws_RecordCommandIdempotency = RecordCommandIdempotency\<rparr>"

section \<open>The contents of the tables\<close>

definition db_view :: "regDB \<Rightarrow> regView" where
  "db_view s = \<lparr>v_models = map_of (map (\<lambda>(m, k). (md_ID m, m)) (db_models s)),
     v_versions = map_of (map (\<lambda>(v, k). (mv_ID v, v)) (db_versions s)),
     v_mkeys = map_of (List.map_filter (\<lambda>(m, k). map_option (\<lambda>x. ((md_Team m, x), md_ID m)) k) (db_models s)),
     v_vkeys = map_of (List.map_filter (\<lambda>(v, k). map_option (\<lambda>x. ((mv_ModelID v, x), mv_ID v)) k) (db_versions s)),
     v_ledger = map_of (db_ledger s)\<rparr>"

definition db_inv :: "regDB \<Rightarrow> bool" where
  "db_inv s \<longleftrightarrow> checks_hold s \<and> indexes_hold s \<and> references_hold s"

definition db_healthy :: "regDB \<Rightarrow> bool" where
  "db_healthy s \<longleftrightarrow> db_faults s = []"

lemma map_of_row:
  "distinct (map (\<lambda>(a, k). g a) rows) \<Longrightarrow> map_of (map (\<lambda>(a, k). (g a, a)) rows) i = Some x \<longleftrightarrow> (\<exists>k. (x, k) \<in> set rows \<and> g x = i)"
  by (induction rows) (auto split: if_splits intro: rev_image_eqI)

lemma find_row: "map_option fst (find (\<lambda>(a, k). g a = i) rows) = map_of (map (\<lambda>(a, k). (g a, a)) rows) i"
  by (induction rows) auto

lemma find_keyed:
  assumes "\<And>a k. (a, k) \<in> set rows \<Longrightarrow> F (g a) = Some a"
  shows "map_option fst (find (\<lambda>(a, k). h a = t \<and> k = Some key) rows)
    = Option.bind (map_of (List.map_filter (\<lambda>(a, k). map_option (\<lambda>x. ((h a, x), g a)) k) rows) (t, key)) F"
  using assms
proof (induction rows)
  case Nil
  then show ?case by (simp add: List.map_filter_def)
next
  case (Cons row rows)
  obtain a k where row: "row = (a, k)" by (cases row)
  have IH: "map_option fst (find (\<lambda>(a, k). h a = t \<and> k = Some key) rows)
    = Option.bind (map_of (List.map_filter (\<lambda>(a, k). map_option (\<lambda>x. ((h a, x), g a)) k) rows) (t, key)) F"
    by (rule Cons.IH) (use Cons.prems in auto)
  have Fa: "F (g a) = Some a" using Cons.prems row by auto
  show ?case using IH Fa by (cases k) (auto simp: row List.map_filter_def)
qed

lemma keyed_row:
  "map_of (List.map_filter (\<lambda>(a, k). map_option (\<lambda>x. ((h a, x), g a)) k) rows) (t, key) = Some i \<Longrightarrow>
   \<exists>a. (a, Some key) \<in> set rows \<and> h a = t \<and> g a = i"
  by (drule map_of_SomeD) (auto simp: List.map_filter_def)

lemma map_of_mapped:
  assumes "\<And>a. g (f a) = g a"
  shows "map_of (map (\<lambda>(a, k). (g a, a)) (map (\<lambda>(a, k). (f a, k)) rows)) j = map_option f (map_of (map (\<lambda>(a, k). (g a, a)) rows) j)"
  by (induction rows) (auto simp: assms)

lemma map_filter_mapped:
  assumes "\<And>a. h (f a) = h a" "\<And>a. g (f a) = g a"
  shows "List.map_filter (\<lambda>(a, k). map_option (\<lambda>x. ((h a, x), g a)) k) (map (\<lambda>(a, k). (f a, k)) rows)
    = List.map_filter (\<lambda>(a, k). map_option (\<lambda>x. ((h a, x), g a)) k) rows"
  by (induction rows) (auto simp: List.map_filter_def assms)

lemma key_index_mapped:
  assumes "\<And>a. h (f a) = h a"
  shows "List.map_filter (\<lambda>(a, k). map_option (Pair (h a)) k) (map (\<lambda>(a, k). (f a, k)) rows)
    = List.map_filter (\<lambda>(a, k). map_option (Pair (h a)) k) rows"
  by (induction rows) (auto simp: List.map_filter_def assms)

lemma column_mapped: "(\<And>a. g (f a) = g a) \<Longrightarrow> map (\<lambda>(a, k). g a) (map (\<lambda>(a, k). (f a, k)) rows) = map (\<lambda>(a, k). g a) rows"
  by (induction rows) auto

lemma distinct_column_inj:
  "distinct (map (\<lambda>(a, k). h a) rows) \<Longrightarrow> (a, k) \<in> set rows \<Longrightarrow> (b, l) \<in> set rows \<Longrightarrow> h a = h b \<Longrightarrow> (a, k) = (b, l)"
  by (auto simp: distinct_map inj_on_def)

lemma distinct_column_iff:
  assumes "distinct (map (\<lambda>(a, k). g a) rows)"
  shows "distinct (map (\<lambda>(a, k). h a) (filter (\<lambda>(a, k). P a) rows))
    \<longleftrightarrow> (\<forall>a k b l. (a, k) \<in> set rows \<and> (b, l) \<in> set rows \<and> P a \<and> P b \<and> h a = h b \<longrightarrow> g a = g b)"
    (is "?l \<longleftrightarrow> ?r")
proof
  assume ?l
  then have "inj_on (\<lambda>(a, k). h a) (set (filter (\<lambda>(a, k). P a) rows))" by (simp add: distinct_map)
  then show ?r unfolding inj_on_def by fastforce
next
  assume r: ?r
  have "inj_on (\<lambda>(a, k). h a) (set (filter (\<lambda>(a, k). P a) rows))"
  proof (rule inj_onI)
    fix x y
    assume "x \<in> set (filter (\<lambda>(a, k). P a) rows)" "y \<in> set (filter (\<lambda>(a, k). P a) rows)" "(case x of (a, k) \<Rightarrow> h a) = (case y of (a, k) \<Rightarrow> h a)"
    moreover obtain a k b l where xy: "x = (a, k)" "y = (b, l)" by (cases x, cases y)
    ultimately have m: "(a, k) \<in> set rows" "(b, l) \<in> set rows" "P a" "P b" "h a = h b" by auto
    then have "g a = g b" using r by blast
    then show "x = y" using distinct_column_inj [OF assms m(1,2)] xy by simp
  qed
  moreover have "distinct rows" using assms by (simp add: distinct_map)
  ultimately show ?l by (simp add: distinct_map)
qed

lemma schema_ids:
  assumes "db_inv s"
  shows "distinct (map (\<lambda>(m, k). md_ID m) (db_models s))" "distinct (map (\<lambda>(v, k). mv_ID v) (db_versions s))"
  using assms by (simp_all add: db_inv_def indexes_hold_def)

lemma view_models: "db_inv s \<Longrightarrow> v_models (db_view s) i = Some m \<longleftrightarrow> (\<exists>k. (m, k) \<in> set (db_models s) \<and> md_ID m = i)"
  by (simp add: db_view_def map_of_row schema_ids)

lemma view_versions: "db_inv s \<Longrightarrow> v_versions (db_view s) i = Some v \<longleftrightarrow> (\<exists>k. (v, k) \<in> set (db_versions s) \<and> mv_ID v = i)"
  by (simp add: db_view_def map_of_row schema_ids)

lemma stage_check: "1 \<le> stage_int x \<and> stage_int x \<le> 4 \<longleftrightarrow> x \<noteq> StageUnspecified"
  by (cases x) simp_all

lemma status_check: "1 \<le> status_int x \<and> status_int x \<le> 3 \<longleftrightarrow> x \<noteq> StatusUnspecified"
  by (cases x) simp_all

lemma checks_iff: "checks_hold s \<longleftrightarrow> (\<forall>v k. (v, k) \<in> set (db_versions s) \<longrightarrow> mv_Stage v \<noteq> StageUnspecified \<and> mv_Status v \<noteq> StatusUnspecified)"
  unfolding checks_hold_def list_all_iff using stage_check status_check by fastforce

lemma references_iff: "references_hold s \<longleftrightarrow> (\<forall>v k. (v, k) \<in> set (db_versions s) \<longrightarrow> (\<exists>m l. (m, l) \<in> set (db_models s) \<and> md_ID m = mv_ModelID v))"
proof -
  have "a \<in> (\<lambda>(m, k). md_ID m) ` set rows \<longleftrightarrow> (\<exists>m l. (m, l) \<in> set rows \<and> md_ID m = a)" for a and rows :: "(Model \<times> string option) list"
    by force
  then show ?thesis by (auto simp: references_hold_def list_all_iff)
qed

lemma production_iff:
  "distinct (map (\<lambda>(v, k). mv_ID v) (db_versions s)) \<Longrightarrow>
   distinct (map (\<lambda>(v, k). mv_ModelID v) (filter (\<lambda>(v, k). mv_Stage v = StageProduction) (db_versions s)))
   \<longleftrightarrow> single_production (db_view s)"
  unfolding distinct_column_iff [where g = mv_ID and P = "\<lambda>v. mv_Stage v = StageProduction"] single_production_def in_production_def
  by (simp add: db_view_def map_of_row) metis

lemma column_pairs:
  assumes "distinct (map (\<lambda>(a, k). g a) rows)" "(a, k) \<in> set rows" "(b, l) \<in> set rows" "g a = g b"
  shows "a = b"
  using distinct_column_inj [OF assms] by simp

lemma db_view_ok: assumes inv: "db_inv s" shows "view_ok (db_view s)"
proof -
  note ids = schema_ids [OF inv]
  have "distinct (map (\<lambda>(m, k). (md_Team m, md_Name m)) (db_models s))" "distinct (map (\<lambda>(v, k). (mv_ModelID v, mv_Version v)) (db_versions s))"
    using inv by (simp_all add: db_inv_def indexes_hold_def)
  note cols = column_pairs [OF this(1)] column_pairs [OF this(2)]
  have "unique_names (db_view s)" unfolding unique_names_def view_models [OF inv] using cols(1) by (metis (no_types))
  moreover have "unique_labels (db_view s)" unfolding unique_labels_def view_versions [OF inv] using cols(2) by (metis (no_types))
  moreover have "single_production (db_view s)"
    using inv production_iff [OF ids(2)] by (simp add: db_inv_def indexes_hold_def)
  moreover have "version_ok (db_view s) i v" if "v_versions (db_view s) i = Some v" for i v
  proof -
    from that [unfolded view_versions [OF inv]] obtain k where v: "(v, k) \<in> set (db_versions s)" "mv_ID v = i" by (elim exE conjE)
    have "\<exists>m l. (m, l) \<in> set (db_models s) \<and> md_ID m = mv_ModelID v" "mv_Stage v \<noteq> StageUnspecified" "mv_Status v \<noteq> StatusUnspecified"
      using inv v(1) by (auto simp: db_inv_def checks_iff references_iff)
    moreover from this(1) obtain m where "v_models (db_view s) (mv_ModelID v) = Some m" by (metis view_models [OF inv])
    ultimately show ?thesis using v(2) by (simp add: version_ok_def)
  qed
  moreover have "finite (dom (v_versions (db_view s)))" by (simp add: db_view_def finite_dom_map_of)
  moreover have "md_ID m = i" if "v_models (db_view s) i = Some m" for i m using that [unfolded view_models [OF inv]] by (elim exE conjE)
  ultimately show ?thesis unfolding view_ok_def by (intro conjI allI impI)
qed

section \<open>Reads\<close>

lemma next_fault_run:
  "next_fault s = (f, s1) \<Longrightarrow> db_models s1 = db_models s \<and> db_versions s1 = db_versions s \<and> db_ledger s1 = db_ledger s
     \<and> (db_healthy s \<longrightarrow> f = None \<and> s1 = s) \<and> (\<forall>e. f = Some e \<longrightarrow> (\<exists>t. e = Dyn t))"
  by (auto simp: next_fault_def db_healthy_def split: list.splits)

lemma same_tables:
  assumes "db_models s1 = db_models s" "db_versions s1 = db_versions s" "db_ledger s1 = db_ledger s"
  shows "db_view s1 = db_view s" "db_inv s1 = db_inv s"
  using assms by (simp_all add: db_view_def db_inv_def checks_hold_def indexes_hold_def references_hold_def)

lemma next_fault_keeps:
  assumes "next_fault s = (f, s1)"
  shows "db_view s1 = db_view s" "db_inv s1 = db_inv s"
  using same_tables next_fault_run [OF assms] by blast+

lemma select_run:
  assumes "select what p rows s = (r, s')" "\<And>s1 f. next_fault s = (f, s1) \<Longrightarrow> rows s1 = rows s" "x = map_option fst (find p (rows s))"
  shows "db_view s' = db_view s \<and> db_inv s' = db_inv s \<and> reads x r \<and> (db_healthy s \<longrightarrow> s' = s \<and> r = answer x)"
proof -
  obtain f s1 where f: "next_fault s = (f, s1)" by (cases "next_fault s")
  note run = next_fault_run [OF f] and keep = next_fault_keeps [OF f] and rows = assms(2) [OF f]
  show ?thesis
  proof (cases f)
    case None
    then show ?thesis using assms(1,3) f keep rows run
      by (cases "find p (rows s1)") (auto simp: select_def reads_def answer_def)
  next
    case (Some e)
    then obtain t where "e = Dyn t" using run by blast
    then show ?thesis using assms(1,3) f keep run Some by (auto simp: select_def reads_def ErrRecordNotFound_def)
  qed
qed

lemma fault_models: "next_fault s = (f, s1) \<Longrightarrow> db_models s1 = db_models s"
  and fault_versions: "next_fault s = (f, s1) \<Longrightarrow> db_versions s1 = db_versions s"
  using next_fault_run by blast+

lemma select_models:
  "select what p db_models s = (r, s') \<Longrightarrow> x = map_option fst (find p (db_models s)) \<Longrightarrow>
   db_view s' = db_view s \<and> db_inv s' = db_inv s \<and> reads x r \<and> (db_healthy s \<longrightarrow> s' = s \<and> r = answer x)"
  by (erule select_run) (auto dest: fault_models)

lemma select_versions:
  "select what p db_versions s = (r, s') \<Longrightarrow> x = map_option fst (find p (db_versions s)) \<Longrightarrow>
   db_view s' = db_view s \<and> db_inv s' = db_inv s \<and> reads x r \<and> (db_healthy s \<longrightarrow> s' = s \<and> r = answer x)"
  by (erule select_run) (auto dest: fault_versions)


lemma GetModel_run:
  "GetModel i s = (r, s') \<Longrightarrow> db_view s' = db_view s \<and> db_inv s' = db_inv s \<and> reads (v_models (db_view s) i) r
     \<and> (db_healthy s \<longrightarrow> s' = s \<and> r = answer (v_models (db_view s) i))"
  unfolding GetModel_def by (drule select_models) (auto simp: db_view_def find_row)

lemma GetVersion_run:
  "GetVersion i s = (r, s') \<Longrightarrow> db_view s' = db_view s \<and> db_inv s' = db_inv s \<and> reads (v_versions (db_view s) i) r
     \<and> (db_healthy s \<longrightarrow> s' = s \<and> r = answer (v_versions (db_view s) i))"
  unfolding GetVersion_def by (drule select_versions) (auto simp: db_view_def find_row)

lemma find_model_key:
  assumes inv: "db_inv s"
  shows "map_option fst (find (\<lambda>(a, k). md_Team a = t \<and> k = Some key) (db_models s))
    = Option.bind (v_mkeys (db_view s) (t, key)) (v_models (db_view s))"
proof -
  have "v_models (db_view s) (md_ID a) = Some a" if "(a, k) \<in> set (db_models s)" for a k using that by (auto simp: view_models [OF inv])
  from find_keyed [where F = "v_models (db_view s)" and g = md_ID, OF this] show ?thesis by (simp add: db_view_def)
qed

lemma find_version_key:
  assumes inv: "db_inv s"
  shows "map_option fst (find (\<lambda>(a, k). mv_ModelID a = t \<and> k = Some key) (db_versions s))
    = Option.bind (v_vkeys (db_view s) (t, key)) (v_versions (db_view s))"
proof -
  have "v_versions (db_view s) (mv_ID a) = Some a" if "(a, k) \<in> set (db_versions s)" for a k using that by (auto simp: view_versions [OF inv])
  from find_keyed [where F = "v_versions (db_view s)" and g = mv_ID, OF this] show ?thesis by (simp add: db_view_def)
qed

lemma LookupModelByIdempotencyKey_run:
  assumes "db_inv s" "LookupModelByIdempotencyKey t k s = (r, s')"
    "x = (if k = '''' then None else Option.bind (v_mkeys (db_view s) (t, k)) (v_models (db_view s)))"
  shows "db_view s' = db_view s \<and> db_inv s' = db_inv s \<and> reads x r \<and> (db_healthy s \<longrightarrow> s' = s \<and> r = answer x)"
proof (cases "k = ''''")
  case True
  then show ?thesis using assms by (auto simp: LookupModelByIdempotencyKey_def reads_def answer_def)
next
  case False
  have x: "x = map_option fst (find (\<lambda>(a, l). md_Team a = t \<and> l = Some k) (db_models s))"
    using find_model_key [OF assms(1), of t k] assms(3) False by simp
  show ?thesis using assms(2) False by (intro select_models [OF _ x]) (simp add: LookupModelByIdempotencyKey_def)
qed

lemma LookupVersionByIdempotencyKey_run:
  assumes "db_inv s" "LookupVersionByIdempotencyKey t k s = (r, s')"
    "x = (if k = '''' then None else Option.bind (v_vkeys (db_view s) (t, k)) (v_versions (db_view s)))"
  shows "db_view s' = db_view s \<and> db_inv s' = db_inv s \<and> reads x r \<and> (db_healthy s \<longrightarrow> s' = s \<and> r = answer x)"
proof (cases "k = ''''")
  case True
  then show ?thesis using assms by (auto simp: LookupVersionByIdempotencyKey_def reads_def answer_def)
next
  case False
  have x: "x = map_option fst (find (\<lambda>(a, l). mv_ModelID a = t \<and> l = Some k) (db_versions s))"
    using find_version_key [OF assms(1), of t k] assms(3) False by simp
  show ?thesis using assms(2) False by (intro select_versions [OF _ x]) (simp add: LookupVersionByIdempotencyKey_def)
qed

lemma count_rows: "db_inv s \<Longrightarrow> length (filter (\<lambda>(v, k). mv_ModelID v = d) (db_versions s)) = card (versions_of (db_view s) d)"
proof -
  assume inv: "db_inv s"
  let ?rows = "filter (\<lambda>(v, k). mv_ModelID v = d) (db_versions s)"
  have "versions_of (db_view s) d = set (map (\<lambda>(v, k). mv_ID v) ?rows)"
    unfolding versions_of_def view_versions [OF inv] by force
  moreover have "distinct (map (\<lambda>(v, k). mv_ID v) ?rows)" using schema_ids(2) [OF inv] by (rule distinct_map_filter)
  ultimately show ?thesis by (simp add: distinct_card del: set_map)
qed

lemma CountVersions_run:
  assumes "db_inv s" "CountVersions d s = (r, s')"
  shows "db_view s' = db_view s \<and> db_inv s' \<and> (\<forall>n. r = Inr n \<longrightarrow> n = int (card (versions_of (db_view s) d)))
    \<and> (db_healthy s \<longrightarrow> s' = s \<and> \<not> isl r)"
proof -
  obtain f s1 where f: "next_fault s = (f, s1)" by (cases "next_fault s")
  show ?thesis using assms next_fault_run [OF f] next_fault_keeps [OF f] f count_rows [OF assms(1), of d]
    by (auto simp: CountVersions_def split: option.splits)
qed

lemma find_Some_mem: "find p xs = Some x \<Longrightarrow> x \<in> set xs \<and> p x"
  by (metis find_Some_iff nth_mem)

lemma FindProductionVersion_run:
  assumes inv: "db_inv s" and run: "FindProductionVersion d s = (r, s')"
  shows "db_view s' = db_view s \<and> db_inv s'
    \<and> (case r of Inr v \<Rightarrow> v_versions (db_view s) (mv_ID v) = Some v \<and> in_production (db_view s) d (mv_ID v)
       | Inl e \<Rightarrow> errors_Is e ErrRecordNotFound \<longrightarrow> (\<forall>i. \<not> in_production (db_view s) d i))
    \<and> (db_healthy s \<longrightarrow> s' = s \<and> (\<forall>e. r = Inl e \<longrightarrow> e = ErrRecordNotFound))"
proof -
  let ?p = "\<lambda>(v, k). mv_ModelID v = d \<and> mv_Stage v = StageProduction"
  define x where "x = map_option fst (find ?p (db_versions s))"
  have sr: "db_view s' = db_view s \<and> db_inv s' = db_inv s \<and> reads x r \<and> (db_healthy s \<longrightarrow> s' = s \<and> r = answer x)"
    by (rule select_versions [OF run [unfolded FindProductionVersion_def] x_def])
  have hit: "v_versions (db_view s) (mv_ID v) = Some v \<and> in_production (db_view s) d (mv_ID v)" if "x = Some v" for v
  proof -
    from that obtain k where "(v, k) \<in> set (db_versions s)" "mv_ModelID v = d" "mv_Stage v = StageProduction"
      unfolding x_def using find_Some_mem by fastforce
    then show ?thesis by (auto simp: in_production_def view_versions [OF inv])
  qed
  have miss: "\<not> in_production (db_view s) d i" if "x = None" for i
  proof
    assume "in_production (db_view s) d i"
    then obtain v k where "(v, k) \<in> set (db_versions s)" "?p (v, k)" unfolding in_production_def view_versions [OF inv] by auto
    then show False using that unfolding x_def by (auto simp: find_None_iff)
  qed
  have "case r of Inr v \<Rightarrow> v_versions (db_view s) (mv_ID v) = Some v \<and> in_production (db_view s) d (mv_ID v)
      | Inl e \<Rightarrow> errors_Is e ErrRecordNotFound \<longrightarrow> (\<forall>i. \<not> in_production (db_view s) d i)"
  proof (cases r)
    case (Inl e)
    then show ?thesis using sr miss by (simp add: reads_def)
  next
    case (Inr v)
    then have "x = Some v" using sr by (simp add: reads_def)
    from hit [OF this] show ?thesis using Inr by simp
  qed
  moreover have "db_healthy s \<longrightarrow> s' = s \<and> (\<forall>e. r = Inl e \<longrightarrow> e = ErrRecordNotFound)"
    using sr by (cases x) (simp_all add: answer_def)
  ultimately show ?thesis using sr inv by simp
qed


section \<open>Writes\<close>

lemma statement_Inr: "statement f s = Inr s' \<Longrightarrow> s' = f s \<and> db_inv s'"
  by (auto simp: statement_def db_inv_def Let_def split: if_splits)

lemma statement_ok: "db_inv (f s) \<Longrightarrow> statement f s = Inr (f s)"
  by (simp add: statement_def db_inv_def Let_def)

lemma statement_Inl: "statement f s = Inl e \<Longrightarrow> \<not> db_inv (f s) \<and> (isUniqueViolation e \<longleftrightarrow> checks_hold (f s) \<and> \<not> indexes_hold (f s))
    \<and> (\<not> isUniqueViolation e \<longrightarrow> (\<exists>t. e = Dyn t))"
  by (auto simp: statement_def db_inv_def Let_def isUniqueViolation_def uniqueViolation_def split: if_splits)

lemma rows_None: "map_of (map (\<lambda>(a, k). (g a, a)) rows) i = None \<longleftrightarrow> i \<notin> set (map (\<lambda>(a, k). g a) rows)"
  by (induction rows) auto

lemma keys_None: "map_of (List.map_filter (\<lambda>(a, k). map_option (\<lambda>x. ((h a, x), g a)) k) rows) y = None
    \<longleftrightarrow> y \<notin> set (List.map_filter (\<lambda>(a, k). map_option (Pair (h a)) k) rows)"
proof (induction rows)
  case (Cons row rows)
  obtain a k where "row = (a, k)" by (cases row)
  with Cons show ?case by (cases k) (auto simp: List.map_filter_simps)
qed (simp add: List.map_filter_simps)

lemma map_filter_snoc:
  "List.map_filter f (xs @ [x]) = List.map_filter f xs @ (case f x of None \<Rightarrow> [] | Some y \<Rightarrow> [y])"
  by (auto simp: List.map_filter_def split: option.split)

lemma single_add: "m a = None \<Longrightarrow> [a \<mapsto> b] ++ m = m(a \<mapsto> b)"
  by (auto simp: map_add_def fun_eq_iff split: option.splits)

lemma name_taken_iff: "db_inv s \<Longrightarrow> name_taken (db_view s) t n \<longleftrightarrow> (t, n) \<in> set (map (\<lambda>(m, k). (md_Team m, md_Name m)) (db_models s))"
  unfolding name_taken_def by (force simp: view_models)

lemma label_taken_iff: "db_inv s \<Longrightarrow> label_taken (db_view s) d l \<longleftrightarrow> (d, l) \<in> set (map (\<lambda>(v, k). (mv_ModelID v, mv_Version v)) (db_versions s))"
  unfolding label_taken_def by (force simp: view_versions)

lemma insert_model_inv:
  assumes inv: "db_inv s"
  shows "db_inv (s\<lparr>db_models := db_models s @ [(m, nullableString k)]\<rparr>) \<longleftrightarrow> can_create_model (db_view s) m k"
    "checks_hold (s\<lparr>db_models := db_models s @ [(m, nullableString k)]\<rparr>)"
    "references_hold (s\<lparr>db_models := db_models s @ [(m, nullableString k)]\<rparr>)"
proof -
  let ?s' = "s\<lparr>db_models := db_models s @ [(m, nullableString k)]\<rparr>"
  show c: "checks_hold ?s'" using inv by (simp add: checks_hold_def db_inv_def)
  show "references_hold ?s'" using inv unfolding db_inv_def references_iff by simp blast
  moreover have "indexes_hold ?s' \<longleftrightarrow> can_create_model (db_view s) m k"
    using inv unfolding can_create_model_def name_taken_iff [OF inv]
    by (auto simp: db_inv_def indexes_hold_def map_filter_snoc nullableString_def db_view_def rows_None keys_None)
  ultimately show "db_inv ?s' \<longleftrightarrow> can_create_model (db_view s) m k" using c by (simp add: db_inv_def)
qed

lemma insert_model_view:
  assumes inv: "db_inv s" and can: "can_create_model (db_view s) m k"
  shows "db_view (s\<lparr>db_models := db_models s @ [(m, nullableString k)]\<rparr>)
    = (db_view s)\<lparr>v_models := (v_models (db_view s))(md_ID m \<mapsto> m), v_mkeys := set_keyed (md_Team m) k (md_ID m) (v_mkeys (db_view s))\<rparr>"
  using can by (simp add: db_view_def can_create_model_def map_filter_snoc single_add set_keyed_def nullableString_def)

lemma insert_version_inv:
  assumes inv: "db_inv s" and stage: "mv_Stage v \<noteq> StageProduction"
  shows "mv_Stage v \<noteq> StageUnspecified \<and> mv_Status v \<noteq> StatusUnspecified \<and> v_models (db_view s) (mv_ModelID v) \<noteq> None \<Longrightarrow>
      db_inv (s\<lparr>db_versions := db_versions s @ [(v, nullableString k)]\<rparr>) \<longleftrightarrow> can_create_version (db_view s) v k"
    "indexes_hold (s\<lparr>db_versions := db_versions s @ [(v, nullableString k)]\<rparr>) \<longleftrightarrow> can_create_version (db_view s) v k"
    "mv_Stage v \<noteq> StageUnspecified \<and> mv_Status v \<noteq> StatusUnspecified \<Longrightarrow> checks_hold (s\<lparr>db_versions := db_versions s @ [(v, nullableString k)]\<rparr>)"
proof -
  let ?s' = "s\<lparr>db_versions := db_versions s @ [(v, nullableString k)]\<rparr>"
  show c: "checks_hold ?s'" if "mv_Stage v \<noteq> StageUnspecified \<and> mv_Status v \<noteq> StatusUnspecified"
    using that inv unfolding db_inv_def checks_iff by auto
  have r: "references_hold ?s'" if "v_models (db_view s) (mv_ModelID v) \<noteq> None"
  proof -
    from that obtain m where "v_models (db_view s) (mv_ModelID v) = Some m" by auto
    then show ?thesis using inv unfolding view_models [OF inv] db_inv_def references_iff by auto
  qed
  show i: "indexes_hold ?s' \<longleftrightarrow> can_create_version (db_view s) v k"
    using inv stage unfolding can_create_version_def label_taken_iff [OF inv]
    by (auto simp: db_inv_def indexes_hold_def map_filter_snoc nullableString_def db_view_def rows_None keys_None)
  show "db_inv ?s' \<longleftrightarrow> can_create_version (db_view s) v k"
    if "mv_Stage v \<noteq> StageUnspecified \<and> mv_Status v \<noteq> StatusUnspecified \<and> v_models (db_view s) (mv_ModelID v) \<noteq> None"
    using that c r i by (simp add: db_inv_def)
qed

lemma insert_version_view:
  assumes "v_versions (db_view s) (mv_ID v) = None" "k \<noteq> '''' \<longrightarrow> v_vkeys (db_view s) (mv_ModelID v, k) = None"
  shows "db_view (s\<lparr>db_versions := db_versions s @ [(v, nullableString k)]\<rparr>)
    = (db_view s)\<lparr>v_versions := (v_versions (db_view s))(mv_ID v \<mapsto> v), v_vkeys := set_keyed (mv_ModelID v) k (mv_ID v) (v_vkeys (db_view s))\<rparr>"
  using assms by (simp add: db_view_def map_filter_snoc single_add set_keyed_def nullableString_def)


text \<open>An update of rows that leaves the keys alone.\<close>

lemma map_versions_view:
  assumes "\<And>v. mv_ID (f v) = mv_ID v" "\<And>v. mv_ModelID (f v) = mv_ModelID v"
  shows "db_view (s\<lparr>db_versions := map (\<lambda>(v, k). (f v, k)) (db_versions s)\<rparr>)
    = (db_view s)\<lparr>v_versions := (\<lambda>i. map_option f (v_versions (db_view s) i))\<rparr>"
  by (simp add: db_view_def fun_eq_iff assms map_of_mapped [where g = mv_ID and f = f] map_filter_mapped [where g = mv_ID and h = mv_ModelID and f = f]
      del: map_map)

lemma map_versions_inv:
  assumes inv: "db_inv s" and f: "\<And>v. mv_ID (f v) = mv_ID v" "\<And>v. mv_ModelID (f v) = mv_ModelID v" "\<And>v. mv_Version (f v) = mv_Version v"
    and s': "s' = s\<lparr>db_versions := map (\<lambda>(v, k). (f v, k)) (db_versions s)\<rparr>"
  shows "db_inv s' \<longleftrightarrow> view_ok (db_view s')"
proof
  assume ok: "view_ok (db_view s')"
  have rows: "db_versions s' = map (\<lambda>(v, k). (f v, k)) (db_versions s)" "db_models s' = db_models s" "db_ledger s' = db_ledger s" by (simp_all add: s')
  have ids: "distinct (map (\<lambda>(v, k). mv_ID v) (db_versions s'))"
    unfolding rows column_mapped [where g = mv_ID and f = f, OF f(1)] by (rule schema_ids(2) [OF inv])
  have in_view: "v_versions (db_view s') (mv_ID v) = Some v" if "(v, k) \<in> set (db_versions s')" for v k
    using that map_of_row [OF ids] by (auto simp: db_view_def)
  have "checks_hold s'" unfolding checks_iff using in_view ok unfolding view_ok_def version_ok_def by blast
  moreover have "references_hold s'"
    unfolding references_iff rows using inv [unfolded db_inv_def references_iff] by (auto simp: f(2)) blast
  moreover have "indexes_hold s'"
  proof -
    have "distinct (map (\<lambda>(v, k). mv_ModelID v) (filter (\<lambda>(v, k). mv_Stage v = StageProduction) (db_versions s')))"
      using ok production_iff [OF ids] by (simp add: view_ok_def)
    moreover have "map (\<lambda>(v, k). (mv_ModelID v, mv_Version v)) (db_versions s') = map (\<lambda>(v, k). (mv_ModelID v, mv_Version v)) (db_versions s)"
      unfolding rows by (rule column_mapped [where g = "\<lambda>v. (mv_ModelID v, mv_Version v)"]) (simp add: f)
    moreover have "List.map_filter (\<lambda>(v, k). map_option (Pair (mv_ModelID v)) k) (db_versions s') = List.map_filter (\<lambda>(v, k). map_option (Pair (mv_ModelID v)) k) (db_versions s)"
      unfolding rows by (rule key_index_mapped [where h = mv_ModelID]) (simp add: f)
    ultimately show ?thesis using inv ids unfolding db_inv_def indexes_hold_def rows(2,3) by simp
  qed
  ultimately show "db_inv s'" by (simp add: db_inv_def)
qed (rule db_view_ok)

lemma map_models_view:
  assumes "\<And>m. md_ID (f m) = md_ID m" "\<And>m. md_Team (f m) = md_Team m"
  shows "db_view (s\<lparr>db_models := map (\<lambda>(m, k). (f m, k)) (db_models s)\<rparr>)
    = (db_view s)\<lparr>v_models := (\<lambda>i. map_option f (v_models (db_view s) i))\<rparr>"
  by (simp add: db_view_def fun_eq_iff assms map_of_mapped [where g = md_ID and f = f] map_filter_mapped [where g = md_ID and h = md_Team and f = f]
      del: map_map)

lemma map_models_inv:
  assumes inv: "db_inv s" and f: "\<And>m. md_ID (f m) = md_ID m" "\<And>m. md_Team (f m) = md_Team m" "\<And>m. md_Name (f m) = md_Name m"
  shows "db_inv (s\<lparr>db_models := map (\<lambda>(m, k). (f m, k)) (db_models s)\<rparr>)"
proof -
  let ?s' = "s\<lparr>db_models := map (\<lambda>(m, k). (f m, k)) (db_models s)\<rparr>"
  have "checks_hold ?s'" using inv by (simp add: db_inv_def checks_hold_def)
  moreover have "references_hold ?s'"
    unfolding references_iff
  proof (intro allI impI)
    fix v k
    assume "(v, k) \<in> set (db_versions ?s')"
    then obtain m l where "(m, l) \<in> set (db_models s)" "md_ID m = mv_ModelID v"
      using inv unfolding db_inv_def references_iff by auto
    then have "(f m, l) \<in> set (db_models ?s')" "md_ID (f m) = mv_ModelID v" using f(1) by force+
    then show "\<exists>m l. (m, l) \<in> set (db_models ?s') \<and> md_ID m = mv_ModelID v" by blast
  qed
  moreover have "indexes_hold ?s'"
    using inv column_mapped [where g = md_ID and f = f, OF f(1), of "db_models s"]
      column_mapped [where g = "\<lambda>m. (md_Team m, md_Name m)" and f = f, of "db_models s"]
      key_index_mapped [where h = md_Team and f = f, OF f(2), of "db_models s"]
    unfolding db_inv_def indexes_hold_def by (simp add: f del: map_map)
  ultimately show ?thesis by (simp add: db_inv_def)
qed


lemma fault_not_sentinel: "next_fault s = (Some e, s1) \<Longrightarrow> \<not> errors_Is e ErrWriteConflict \<and> \<not> errors_Is e ErrRecordNotFound \<and> \<not> isUniqueViolation e"
  using next_fault_run by (fastforce simp: reg_errs isUniqueViolation_def uniqueViolation_def)

lemma model_row_keeps [simp]: "md_ID (model_row pgtime m) = md_ID m" "md_Team (model_row pgtime m) = md_Team m" "md_Name (model_row pgtime m) = md_Name m"
    "md_OwnerID (model_row pgtime m) = md_OwnerID m"
  by (simp_all add: model_row_def)

lemma version_row_keeps [simp]: "mv_ID (version_row pgtime v) = mv_ID v" "mv_ModelID (version_row pgtime v) = mv_ModelID v"
    "mv_Version (version_row pgtime v) = mv_Version v" "mv_Stage (version_row pgtime v) = mv_Stage v" "mv_Status (version_row pgtime v) = mv_Status v"
  by (simp_all add: version_row_def)

lemma can_create_model_row [simp]: "can_create_model A (model_row pgtime m) k = can_create_model A m k"
  by (simp add: can_create_model_def)

lemma can_create_version_row [simp]: "can_create_version A (version_row pgtime v) k = can_create_version A v k"
  by (simp add: can_create_version_def)

lemma CreateModel_run:
  assumes inv: "db_inv s" and run: "CreateModel pgtime m k s = (r, s')"
  shows "db_inv s' \<and> (case r of
       Inl e \<Rightarrow> db_view s' = db_view s \<and> (errors_Is e ErrWriteConflict \<longrightarrow> \<not> can_create_model (db_view s) m k)
     | Inr m' \<Rightarrow> m' = m \<and> can_create_model (db_view s) m k \<and> db_view s' = (db_view s)\<lparr>v_models := (v_models (db_view s))(md_ID m \<mapsto> model_row pgtime m),
         v_mkeys := set_keyed (md_Team m) k (md_ID m) (v_mkeys (db_view s))\<rparr>)
    \<and> (db_healthy s \<longrightarrow> db_healthy s' \<and> (can_create_model (db_view s) m k \<longrightarrow> r = Inr m) \<and> (\<not> can_create_model (db_view s) m k \<longrightarrow> r = Inl ErrWriteConflict))"
proof -
  obtain f s1 where f: "next_fault s = (f, s1)" by (cases "next_fault s")
  note keep = next_fault_keeps [OF f] and h = next_fault_run [OF f]
  have inv1: "db_inv s1" using keep(2) inv by simp
  let ?ins = "\<lambda>db. db\<lparr>db_models := db_models db @ [(model_row pgtime m, nullableString k)]\<rparr>"
  show ?thesis
  proof (cases f)
    case (Some e)
    then show ?thesis using run f keep inv h fault_not_sentinel by (auto simp: CreateModel_def)
  next
    case None
    show ?thesis
    proof (cases "can_create_model (db_view s) m k")
      case True
      then have "db_inv (?ins s1)" using insert_model_inv(1) [OF inv1] keep(1) by simp
      from statement_ok [of ?ins, OF this] True None run f insert_model_view [OF inv1, of "model_row pgtime m" k] keep \<open>db_inv (?ins s1)\<close> h
      show ?thesis by (auto simp: CreateModel_def db_healthy_def)
    next
      case False
      have n: "\<not> db_inv (?ins s1)" "checks_hold (?ins s1)" "references_hold (?ins s1)" using insert_model_inv [OF inv1] False keep(1) by simp_all
      then obtain e where e: "statement ?ins s1 = Inl e" "isUniqueViolation e" using statement_Inl [of ?ins s1] statement_Inr [of ?ins s1]
        by (cases "statement ?ins s1") (auto simp: db_inv_def)
      then show ?thesis using False None run f keep inv h by (auto simp: CreateModel_def)
    qed
  qed
qed

lemma CreateVersion_run:
  assumes inv: "db_inv s" and run: "CreateVersion pgtime v k s = (r, s')"
  shows "db_inv s' \<and> (case r of
       Inl e \<Rightarrow> db_view s' = db_view s \<and> (errors_Is e ErrWriteConflict \<longrightarrow> mv_Stage v \<noteq> StageProduction \<longrightarrow> \<not> can_create_version (db_view s) v k)
     | Inr v' \<Rightarrow> v' = v \<and> can_create_version (db_view s) v k \<and> db_view s' = (db_view s)\<lparr>v_versions := (v_versions (db_view s))(mv_ID v \<mapsto> version_row pgtime v),
         v_vkeys := set_keyed (mv_ModelID v) k (mv_ID v) (v_vkeys (db_view s))\<rparr>)
    \<and> (db_healthy s \<longrightarrow> db_healthy s' \<and> (list_all (finite_float \<circ> snd) (mv_Metrics v) \<and> mv_Stage v = StageDev \<and> mv_Status v = StatusPendingUpload
         \<and> v_models (db_view s) (mv_ModelID v) \<noteq> None \<longrightarrow> (if can_create_version (db_view s) v k then r = Inr v else r = Inl ErrWriteConflict)))"
proof (cases "list_all (finite_float \<circ> snd) (mv_Metrics v)")
  case False
  then show ?thesis using run inv by (auto simp: CreateVersion_def marshalMetrics_def reg_errs)
next
  case True
  then obtain ms where ms: "marshalMetrics (mv_Metrics v) = Inr ms" by (simp add: marshalMetrics_def)
  obtain f s1 where f: "next_fault s = (f, s1)" by (cases "next_fault s")
  note keep = next_fault_keeps [OF f] and h = next_fault_run [OF f]
  have inv1: "db_inv s1" using keep(2) inv by simp
  let ?ins = "\<lambda>db. db\<lparr>db_versions := db_versions db @ [(version_row pgtime v, nullableString k)]\<rparr>"
  show ?thesis
  proof (cases f)
    case (Some e)
    then show ?thesis using run f keep inv h fault_not_sentinel ms by (auto simp: CreateVersion_def)
  next
    case None
    show ?thesis
    proof (cases "statement ?ins s1")
      case (Inr s2)
      then have s2: "s2 = ?ins s1" "db_inv s2" using statement_Inr by blast+
      have ix: "indexes_hold (?ins s1)" using s2 by (simp add: db_inv_def)
      have can: "can_create_version (db_view s) v k"
        using inv ix h unfolding can_create_version_def label_taken_iff [OF inv]
        by (auto simp: db_inv_def indexes_hold_def map_filter_snoc nullableString_def db_view_def rows_None keys_None)
      then show ?thesis using Inr None run f ms s2 keep h insert_version_view [of s1 "version_row pgtime v" k]
        by (auto simp: CreateVersion_def can_create_version_def db_healthy_def)
    next
      case (Inl e)
      note se = statement_Inl [OF Inl]
      have r: "r = Inl (if isUniqueViolation e then ErrWriteConflict else Wrapf ''registry/postgres: insert version: '' e '''')" "s' = s1"
        using Inl None run f ms by (auto simp: CreateVersion_def)
      have nc: "\<not> can_create_version (db_view s) v k" if "mv_Stage v \<noteq> StageProduction" "isUniqueViolation e"
        using that se insert_version_inv(2) [OF inv1, of "version_row pgtime v" k] keep(1) by simp
      have uq: "\<not> can_create_version (db_view s) v k \<and> isUniqueViolation e" if "mv_Stage v = StageDev" "mv_Status v = StatusPendingUpload" "v_models (db_view s) (mv_ModelID v) \<noteq> None"
        using that se insert_version_inv [OF inv1, of "version_row pgtime v" k] keep(1) by auto
      have "\<not> errors_Is (Wrapf ''registry/postgres: insert version: '' e '''') ErrWriteConflict" if "\<not> isUniqueViolation e"
        using that se by (auto simp: reg_errs)
      then show ?thesis using r nc uq keep inv h by (auto split: if_splits)
    qed
  qed
qed


lemma model_exists_iff: "list_ex (\<lambda>(row, k). md_ID row = i) (db_models s) \<longleftrightarrow> v_models (db_view s) i \<noteq> None"
  by (auto simp: db_view_def rows_None list_ex_iff)

lemma version_exists_iff: "list_ex (\<lambda>(row, k). mv_ID row = i) (db_versions s) \<longleftrightarrow> v_versions (db_view s) i \<noteq> None"
  by (auto simp: db_view_def rows_None list_ex_iff)

lemma point_update:
  assumes "\<And>i x. M i = Some x \<Longrightarrow> g x = i" "\<And>x. g x \<noteq> i \<Longrightarrow> f x = x"
  shows "(\<lambda>j. map_option f (M j)) = (case M i of None \<Rightarrow> M | Some old \<Rightarrow> M(i \<mapsto> f old))"
proof
  fix j
  show "map_option f (M j) = (case M i of None \<Rightarrow> M | Some old \<Rightarrow> M(i \<mapsto> f old)) j"
  proof (cases "j = i")
    case False
    then have "map_option f (M j) = M j" using assms by (cases "M j") auto
    with False show ?thesis by (simp split: option.split)
  qed (simp split: option.split)
qed

lemma UpdateModel_run:
  assumes inv: "db_inv s" and run: "UpdateModel pgtime m s = (r, s')"
  shows "db_inv s' \<and> (case r of
       Inl e \<Rightarrow> db_view s' = db_view s
     | Inr m' \<Rightarrow> m' = m \<and> (\<exists>old. v_models (db_view s) (md_ID m) = Some old \<and> db_view s' = (db_view s)\<lparr>v_models := (v_models (db_view s))(md_ID m \<mapsto>
         (model_row pgtime m)\<lparr>md_Name := md_Name old, md_Team := md_Team old, md_OwnerID := md_OwnerID old, md_CreatedAt := md_CreatedAt old\<rparr>)\<rparr>))
    \<and> (db_healthy s \<longrightarrow> db_healthy s' \<and> (v_models (db_view s) (md_ID m) \<noteq> None \<longrightarrow> r = Inr m))"
proof -
  obtain f s1 where f: "next_fault s = (f, s1)" by (cases "next_fault s")
  note keep = next_fault_keeps [OF f] and h = next_fault_run [OF f]
  have inv1: "db_inv s1" using keep(2) inv by simp
  define g :: "Model \<Rightarrow> Model" where "g = (\<lambda>row. if md_ID row = md_ID m
            then row\<lparr>md_Description := md_Description m, md_Framework := md_Framework m, md_TaskType := md_TaskType m,
              md_Tags := md_Tags m, md_ProductionVersion := md_ProductionVersion m, md_LatestVersion := md_LatestVersion m,
              md_ArchivedAt := nullableTime pgtime (md_ArchivedAt m), md_UpdatedAt := pgtime (md_UpdatedAt m)\<rparr> else row)"
  let ?upd = "\<lambda>db. db\<lparr>db_models := map (\<lambda>(row, k). (g row, k)) (db_models db)\<rparr>"
  have gk: "md_ID (g x) = md_ID x" "md_Team (g x) = md_Team x" "md_Name (g x) = md_Name x" for x by (simp_all add: g_def)
  have inv2: "db_inv (?upd s1)" by (rule map_models_inv [OF inv1 gk])
  have view2: "db_view (?upd s1) = (db_view s)\<lparr>v_models := (\<lambda>i. map_option g (v_models (db_view s) i))\<rparr>"
    using map_models_view [of g, OF gk(1,2)] keep(1) by simp
  have r: "UpdateModel pgtime m s = (case f of Some err \<Rightarrow> (Inl (Wrapf ''registry/postgres: update model: '' err ''''), s1)
      | None \<Rightarrow> if v_models (db_view s) (md_ID m) = None then (Inl ErrRecordNotFound, ?upd s1) else (Inr m, ?upd s1))"
    using statement_ok [of ?upd, OF inv2] by (simp add: UpdateModel_def f g_def model_exists_iff keep(1) [symmetric] split: option.split)
  have ids: "v_models (db_view s) i = Some x \<Longrightarrow> md_ID x = i" for i x using view_models [OF inv] by blast
  have eq: "(\<lambda>i. map_option g (v_models (db_view s) i)) = (case v_models (db_view s) (md_ID m) of None \<Rightarrow> v_models (db_view s)
      | Some old \<Rightarrow> (v_models (db_view s))(md_ID m \<mapsto> g old))"
    by (rule point_update [where g = md_ID]) (auto simp: ids g_def)
  have gold: "g old = (model_row pgtime m)\<lparr>md_Name := md_Name old, md_Team := md_Team old, md_OwnerID := md_OwnerID old, md_CreatedAt := md_CreatedAt old\<rparr>"
    if "v_models (db_view s) (md_ID m) = Some old" for old using ids [OF that] by (simp add: g_def model_row_def)
  show ?thesis using run unfolding r
    by (cases f; cases "v_models (db_view s) (md_ID m)") (use inv keep h inv2 view2 eq gold in \<open>auto simp: db_healthy_def\<close>)
qed

text \<open>An update of the row of one version.\<close>

lemma update_version_row:
  assumes inv: "db_inv s" and f: "\<And>v. mv_ID (f v) = mv_ID v" "\<And>v. mv_ModelID (f v) = mv_ModelID v" "\<And>v. mv_Version (f v) = mv_Version v"
    "\<And>v. mv_ID v \<noteq> i \<Longrightarrow> f v = v"
    and A: "A = (case v_versions (db_view s) i of None \<Rightarrow> db_view s | Some old \<Rightarrow> (db_view s)\<lparr>v_versions := (v_versions (db_view s))(i \<mapsto> f old)\<rparr>)"
  shows "db_view (s\<lparr>db_versions := map (\<lambda>(v, k). (f v, k)) (db_versions s)\<rparr>) = A"
    "db_inv (s\<lparr>db_versions := map (\<lambda>(v, k). (f v, k)) (db_versions s)\<rparr>) \<longleftrightarrow> view_ok A"
proof -
  have ids: "v_versions (db_view s) j = Some x \<Longrightarrow> mv_ID x = j" for j x by (simp add: view_versions [OF inv])
  show v: "db_view (s\<lparr>db_versions := map (\<lambda>(v, k). (f v, k)) (db_versions s)\<rparr>) = A"
    using point_update [of "v_versions (db_view s)" mv_ID i f, OF ids] f(4)
    by (simp add: map_versions_view [of f, OF f(1,2)] A split: option.split)
  show "db_inv (s\<lparr>db_versions := map (\<lambda>(v, k). (f v, k)) (db_versions s)\<rparr>) \<longleftrightarrow> view_ok A"
    using map_versions_inv [OF inv, of f, OF f(1-3) refl] v by simp
qed

lemma UpdateVersionStatus_run:
  assumes inv: "db_inv s" and run: "UpdateVersionStatus v s = (r, s')"
  shows "db_inv s' \<and> (case r of
       Inl e \<Rightarrow> db_view s' = db_view s
     | Inr v' \<Rightarrow> v' = v \<and> (\<exists>old. v_versions (db_view s) (mv_ID v) = Some old \<and> db_view s' = put_version (old\<lparr>mv_Status := mv_Status v,
         mv_Stage := mv_Stage v, mv_ArtifactPath := mv_ArtifactPath v, mv_ArtifactDigest := mv_ArtifactDigest v, mv_SizeBytes := mv_SizeBytes v\<rparr>) (db_view s)))
    \<and> (db_healthy s \<longrightarrow> db_healthy s' \<and> (\<forall>old. v_versions (db_view s) (mv_ID v) = Some old \<and> mv_Stage v = mv_Stage old
         \<and> mv_Status v \<noteq> StatusUnspecified \<longrightarrow> r = Inr v))"
proof -
  obtain f s1 where f: "next_fault s = (f, s1)" by (cases "next_fault s")
  note keep = next_fault_keeps [OF f] and h = next_fault_run [OF f]
  have inv1: "db_inv s1" using keep(2) inv by simp
  define g :: "ModelVersion \<Rightarrow> ModelVersion" where "g = (\<lambda>row. if mv_ID row = mv_ID v
            then row\<lparr>mv_Status := mv_Status v, mv_Stage := mv_Stage v, mv_ArtifactPath := mv_ArtifactPath v,
              mv_ArtifactDigest := mv_ArtifactDigest v, mv_SizeBytes := mv_SizeBytes v\<rparr> else row)"
  let ?upd = "\<lambda>db. db\<lparr>db_versions := map (\<lambda>(row, k). (g row, k)) (db_versions db)\<rparr>"
  define A where "A = (case v_versions (db_view s) (mv_ID v) of None \<Rightarrow> db_view s
      | Some old \<Rightarrow> (db_view s)\<lparr>v_versions := (v_versions (db_view s))(mv_ID v \<mapsto> g old)\<rparr>)"
  have gk: "mv_ID (g x) = mv_ID x" "mv_ModelID (g x) = mv_ModelID x" "mv_Version (g x) = mv_Version x" "mv_ID x \<noteq> mv_ID v \<Longrightarrow> g x = x" for x
    by (simp_all add: g_def)
  have A1: "A = (case v_versions (db_view s1) (mv_ID v) of None \<Rightarrow> db_view s1
      | Some old \<Rightarrow> (db_view s1)\<lparr>v_versions := (v_versions (db_view s1))(mv_ID v \<mapsto> g old)\<rparr>)" unfolding A_def keep(1) ..
  have up: "db_view (?upd s1) = A" "db_inv (?upd s1) \<longleftrightarrow> view_ok A"
    using update_version_row [where f = g, OF inv1 gk(1-3) _ A1] gk(4) by blast+
  have r: "UpdateVersionStatus v s = (case f of Some err \<Rightarrow> (Inl (Wrapf ''registry/postgres: update version status: '' err ''''), s1)
      | None \<Rightarrow> (case statement ?upd s1 of Inl err \<Rightarrow> (Inl (Wrapf ''registry/postgres: update version status: '' err ''''), s1)
         | Inr s2 \<Rightarrow> if v_versions (db_view s) (mv_ID v) = None then (Inl ErrRecordNotFound, s2) else (Inr v, s2)))"
    by (simp add: UpdateVersionStatus_def f g_def version_exists_iff keep(1) [symmetric] split: option.split sum.split)
  have ok: "view_ok A" if old: "v_versions (db_view s) (mv_ID v) = Some old" and stg: "mv_Stage v = mv_Stage old" and sts: "mv_Status v \<noteq> StatusUnspecified" for old
  proof -
    have w: "view_ok (db_view s)" by (rule db_view_ok [OF inv])
    have idv: "mv_ID old = mv_ID v" using w old unfolding view_ok_def version_ok_def by blast
    have A: "A = (db_view s)\<lparr>v_versions := (v_versions (db_view s))(mv_ID v \<mapsto> g old)\<rparr>" using old by (simp add: A_def)
    have go: "mv_ID (g old) = mv_ID old" "mv_ModelID (g old) = mv_ModelID old" "mv_Version (g old) = mv_Version old" "mv_Stage (g old) = mv_Stage old" "mv_Status (g old) = mv_Status v"
      using stg idv by (simp_all add: g_def)
    show ?thesis
    proof (rule view_ok_from [OF w])
      fix j x
      assume jx: "v_versions A j = Some x"
      have okv: "version_ok (db_view s) k y" if "v_versions (db_view s) k = Some y" for k y using w that unfolding view_ok_def by blast
      show "\<exists>u. v_versions (db_view s) j = Some u \<and> mv_ID x = mv_ID u \<and> mv_ModelID x = mv_ModelID u \<and> mv_Version x = mv_Version u
        \<and> (mv_Stage x = StageProduction \<longrightarrow> mv_Stage u = StageProduction) \<and> mv_Stage x \<noteq> StageUnspecified \<and> mv_Status x \<noteq> StatusUnspecified"
      proof (cases "j = mv_ID v")
        case True
        then have "x = g old" using jx by (simp add: A)
        then show ?thesis using True old go sts okv [OF old] by (simp add: version_ok_def)
      next
        case False
        then have "v_versions (db_view s) j = Some x" using jx by (simp add: A)
        then show ?thesis using okv by (simp add: version_ok_def)
      qed
    qed (auto simp: A)
  qed
  have st: "statement ?upd s1 = Inr s2 \<Longrightarrow> s2 = ?upd s1 \<and> view_ok A" for s2 using statement_Inr [of ?upd s1 s2] up(2) by blast
  have stok: "view_ok A \<Longrightarrow> statement ?upd s1 = Inr (?upd s1)" using statement_ok [of ?upd s1] up(2) by blast
  have ids: "v_versions (db_view s) i = Some x \<Longrightarrow> mv_ID x = i" for i x by (simp add: view_versions [OF inv])
  show ?thesis
  proof (cases f)
    case (Some e)
    then show ?thesis using run [unfolded r] keep inv h by auto
  next
    case None
    show ?thesis
    proof (cases "statement ?upd s1")
      case (Inl e)
      then show ?thesis using run [unfolded r] None keep inv h stok ok by (auto simp: db_healthy_def)
    next
      case (Inr s2)
      with st have s2: "s2 = ?upd s1" "view_ok A" by auto
      have iv: "db_inv s2" "db_view s2 = A" using s2 up by auto
      show ?thesis
      proof (cases "v_versions (db_view s) (mv_ID v)")
        case None': None
        then show ?thesis using run [unfolded r] None Inr iv h s2 by (auto simp: A_def db_healthy_def)
      next
        case (Some old)
        then have "A = put_version (old\<lparr>mv_Status := mv_Status v,
           mv_Stage := mv_Stage v, mv_ArtifactPath := mv_ArtifactPath v, mv_ArtifactDigest := mv_ArtifactDigest v, mv_SizeBytes := mv_SizeBytes v\<rparr>) (db_view s)"
          using ids [OF Some] by (simp add: A_def put_version_def g_def)
        then show ?thesis using run [unfolded r] None Inr iv h s2 Some by (auto simp: db_healthy_def)
      qed
    qed
  qed
qed


lemma updateVersionStageTx_run:
  assumes inv: "db_inv s"
  shows "updateVersionStageTx i st s = Inr s' \<Longrightarrow> db_inv s' \<and> db_view s' = set_stage i st (db_view s) \<and> v_versions (db_view s) i \<noteq> None
      \<and> db_faults s' = db_faults s"
    "v_versions (db_view s) i \<noteq> None \<Longrightarrow> view_ok (set_stage i st (db_view s)) \<Longrightarrow> \<exists>s'. updateVersionStageTx i st s = Inr s'"
    "v_versions (db_view s) i \<noteq> None \<Longrightarrow> st \<noteq> StageProduction \<Longrightarrow> updateVersionStageTx i st s = Inl e \<Longrightarrow> \<not> isUniqueViolation e"
proof -
  define g :: "ModelVersion \<Rightarrow> ModelVersion" where "g = (\<lambda>row. if mv_ID row = i then row\<lparr>mv_Stage := st\<rparr> else row)"
  let ?upd = "\<lambda>db. db\<lparr>db_versions := map (\<lambda>(row, k). (g row, k)) (db_versions db)\<rparr>"
  have gk: "mv_ID (g x) = mv_ID x" "mv_ModelID (g x) = mv_ModelID x" "mv_Version (g x) = mv_Version x" "mv_ID x \<noteq> i \<Longrightarrow> g x = x" for x
    by (simp_all add: g_def)
  have ids: "v_versions (db_view s) j = Some x \<Longrightarrow> mv_ID x = j" for j x by (simp add: view_versions [OF inv])
  have A: "set_stage i st (db_view s) = (case v_versions (db_view s) i of None \<Rightarrow> db_view s
      | Some old \<Rightarrow> (db_view s)\<lparr>v_versions := (v_versions (db_view s))(i \<mapsto> g old)\<rparr>)"
    by (auto simp: set_stage_def g_def ids split: option.split)
  have up: "db_view (?upd s) = set_stage i st (db_view s)" "db_inv (?upd s) \<longleftrightarrow> view_ok (set_stage i st (db_view s))"
    using update_version_row [where f = g, OF inv gk(1-3) _ A] gk(4) by blast+
  have r: "updateVersionStageTx i st s = (case statement ?upd s of Inl err \<Rightarrow> Inl err
      | Inr s2 \<Rightarrow> if v_versions (db_view s) i = None then Inl ErrRecordNotFound else Inr s2)"
    by (simp add: updateVersionStageTx_def g_def version_exists_iff split: sum.split)
  show "updateVersionStageTx i st s = Inr s' \<Longrightarrow> db_inv s' \<and> db_view s' = set_stage i st (db_view s) \<and> v_versions (db_view s) i \<noteq> None
      \<and> db_faults s' = db_faults s"
    using statement_Inr [of ?upd s] up unfolding r by (auto split: sum.splits if_splits)
  show "\<exists>s'. updateVersionStageTx i st s = Inr s'" if "v_versions (db_view s) i \<noteq> None" "view_ok (set_stage i st (db_view s))"
  proof -
    have "db_inv (?upd s)" using that(2) up(2) by simp
    from statement_ok [of ?upd, OF this] that(1) show ?thesis unfolding r by simp
  qed
  assume ex: "v_versions (db_view s) i \<noteq> None" and np: "st \<noteq> StageProduction" and e: "updateVersionStageTx i st s = Inl e"
  then have se: "statement ?upd s = Inl e" unfolding r by (auto split: sum.splits if_splits)
  show "\<not> isUniqueViolation e"
  proof
    assume "isUniqueViolation e"
    then have ni: "\<not> indexes_hold (?upd s)" using statement_Inl [OF se] by blast
    have ids2: "distinct (map (\<lambda>(v, k). mv_ID v) (db_versions (?upd s)))"
      using column_mapped [where g = mv_ID and f = g, OF gk(1), of "db_versions s"] schema_ids(2) [OF inv] by (simp del: map_map)
    have sp: "single_production (db_view s)" using db_view_ok [OF inv] by (simp add: view_ok_def)
    have "single_production (db_view (?upd s))" unfolding up(1) single_production_def
    proof (intro allI impI, elim conjE)
      fix mid a b
      assume ab: "in_production (set_stage i st (db_view s)) mid a" "in_production (set_stage i st (db_view s)) mid b"
      have "in_production (db_view s) mid x" if "in_production (set_stage i st (db_view s)) mid x" for x
        using that np by (auto simp: in_production_def set_stage_def split: option.splits if_splits)
      then show "a = b" using ab sp unfolding single_production_def by blast
    qed
    then have "distinct (map (\<lambda>(v, k). mv_ModelID v) (filter (\<lambda>(v, k). mv_Stage v = StageProduction) (db_versions (?upd s))))"
      using production_iff [OF ids2] by simp
    then have "indexes_hold (?upd s)"
      using inv ids2 column_mapped [where g = "\<lambda>v. (mv_ModelID v, mv_Version v)" and f = g, of "db_versions s"]
        key_index_mapped [where h = mv_ModelID and f = g, OF gk(2), of "db_versions s"]
      unfolding db_inv_def indexes_hold_def by (simp add: gk del: map_map)
    with ni show False ..
  qed
qed

lemma PromoteVersionTx_run:
  assumes inv: "db_inv s" and run: "PromoteVersionTx p d s = (r, s')"
    and B: "B = (if mv_ID d \<noteq> '''' then set_stage (mv_ID d) (mv_Stage d) (db_view s) else db_view s)"
  shows "db_inv s' \<and> (case r of
       Inl e \<Rightarrow> db_view s' = db_view s
     | Inr (p', d') \<Rightarrow> p' = p \<and> d' = d \<and> v_versions (db_view s) (mv_ID p) \<noteq> None \<and> db_view s' = set_stage (mv_ID p) (mv_Stage p) B)
    \<and> (db_healthy s \<longrightarrow> db_healthy s' \<and> (v_versions (db_view s) (mv_ID p) \<noteq> None \<and> (mv_ID d \<noteq> '''' \<longrightarrow> v_versions (db_view s) (mv_ID d) \<noteq> None)
         \<and> view_ok B \<and> view_ok (set_stage (mv_ID p) (mv_Stage p) B) \<longrightarrow> r = Inr (p, d)))"
proof -
  obtain f s1 where f: "next_fault s = (f, s1)" by (cases "next_fault s")
  note keep = next_fault_keeps [OF f] and h = next_fault_run [OF f]
  have inv1: "db_inv s1" using keep(2) inv by simp
  let ?dem = "if mv_ID d \<noteq> '''' then updateVersionStageTx (mv_ID d) (mv_Stage d) s1 else Inr s1"
  have dem: "db_inv s2 \<and> db_view s2 = B \<and> db_faults s2 = db_faults s1" if "?dem = Inr s2" for s2
    using that updateVersionStageTx_run(1) [OF inv1] inv1 keep(1) by (auto simp: B split: if_splits)
  have stage_dom: "v_versions B i \<noteq> None \<longleftrightarrow> v_versions (db_view s) i \<noteq> None" for i
    by (auto simp: B set_stage_def split: option.splits)
  have pr: "db_inv s3 \<and> db_view s3 = set_stage (mv_ID p) (mv_Stage p) B \<and> v_versions (db_view s) (mv_ID p) \<noteq> None \<and> db_faults s3 = db_faults s1"
    if "promoteFunc p d s1 = Inr s3" for s3
  proof -
    from that obtain s2 where s2: "?dem = Inr s2" "updateVersionStageTx (mv_ID p) (mv_Stage p) s2 = Inr s3"
      by (auto simp: promoteFunc_def split: sum.splits)
    from dem [OF s2(1)] updateVersionStageTx_run(1) [OF _ s2(2)] stage_dom show ?thesis by auto
  qed
  have ok: "\<exists>s3. promoteFunc p d s1 = Inr s3"
    if a: "v_versions (db_view s) (mv_ID p) \<noteq> None" "mv_ID d \<noteq> '''' \<longrightarrow> v_versions (db_view s) (mv_ID d) \<noteq> None"
      "view_ok B" "view_ok (set_stage (mv_ID p) (mv_Stage p) B)"
  proof -
    obtain s2 where s2: "?dem = Inr s2"
      using updateVersionStageTx_run(2) [OF inv1, of "mv_ID d" "mv_Stage d"] a(2,3) keep(1) by (auto simp: B split: if_splits)
    from dem [OF s2] have "db_inv s2" "db_view s2 = B" by auto
    from updateVersionStageTx_run(2) [OF this(1), unfolded this(2)] a(1,4) stage_dom obtain s3 where "updateVersionStageTx (mv_ID p) (mv_Stage p) s2 = Inr s3" by blast
    with s2 show ?thesis by (auto simp: promoteFunc_def)
  qed
  show ?thesis
  proof (cases f)
    case (Some e)
    then show ?thesis using run f keep inv h by (auto simp: PromoteVersionTx_def)
  next
    case None
    show ?thesis
    proof (cases "promoteFunc p d s1")
      case (Inl e)
      then show ?thesis using run f keep inv h None ok by (auto simp: PromoteVersionTx_def)
    next
      case (Inr s3)
      then show ?thesis using run f h None pr [OF Inr] by (auto simp: PromoteVersionTx_def db_healthy_def)
    qed
  qed
qed


lemma archiveFunc_run:
  assumes inv: "db_inv s"
  shows "v_models (db_view s) (md_ID m) = None \<Longrightarrow> archiveFunc pgtime m s = Inl ErrRecordNotFound"
    "v_models (db_view s) (md_ID m) \<noteq> None \<Longrightarrow> \<exists>s'. archiveFunc pgtime m s = Inr s' \<and> db_inv s'
      \<and> db_view s' = archived_view (md_ID m) (pgtime (md_ArchivedAt m)) (pgtime (md_UpdatedAt m)) (db_view s) \<and> db_faults s' = db_faults s"
proof -
  define g :: "Model \<Rightarrow> Model" where "g = (\<lambda>row. if md_ID row = md_ID m
      then row\<lparr>md_ArchivedAt := pgtime (md_ArchivedAt m), md_UpdatedAt := pgtime (md_UpdatedAt m), md_ProductionVersion := ''''\<rparr> else row)"
  define h :: "ModelVersion \<Rightarrow> ModelVersion" where "h = (\<lambda>row. if mv_ModelID row = md_ID m \<and> mv_Stage row \<noteq> StageArchived
      then row\<lparr>mv_Stage := StageArchived\<rparr> else row)"
  let ?um = "\<lambda>db. db\<lparr>db_models := map (\<lambda>(row, k). (g row, k)) (db_models db)\<rparr>"
  let ?uv = "\<lambda>db. db\<lparr>db_versions := map (\<lambda>(row, k). (h row, k)) (db_versions db)\<rparr>"
  define A where "A = archived_view (md_ID m) (pgtime (md_ArchivedAt m)) (pgtime (md_UpdatedAt m)) (db_view s)"
  have gk: "md_ID (g x) = md_ID x" "md_Team (g x) = md_Team x" "md_Name (g x) = md_Name x" for x by (simp_all add: g_def)
  have hk: "mv_ID (h x) = mv_ID x" "mv_ModelID (h x) = mv_ModelID x" "mv_Version (h x) = mv_Version x" for x by (simp_all add: h_def)
  have hx: "h = (\<lambda>x. if mv_ModelID x = md_ID m then x\<lparr>mv_Stage := StageArchived\<rparr> else x)" by (auto simp: h_def)
  have inv1: "db_inv (?um s)" by (rule map_models_inv [OF inv gk])
  have ids: "v_models (db_view s) i = Some x \<Longrightarrow> md_ID x = i" for i x by (simp add: view_models [OF inv])
  have "map_option g (v_models (db_view s) i) = v_models A i" for i
    by (cases "v_models (db_view s) i") (auto simp: g_def A_def archived_view_def dest: ids)
  then have view2: "db_view (?uv (?um s)) = A"
    unfolding map_versions_view [of h, OF hk(1,2)] map_models_view [of g, OF gk(1,2)] by (simp add: A_def archived_view_def hx)
  have "view_ok A" unfolding A_def by (rule archived_view_ok [OF db_view_ok [OF inv]])
  then have inv2: "db_inv (?uv (?um s))" using map_versions_inv [OF inv1, of h, OF hk refl] view2 by simp
  have r: "archiveFunc pgtime m s = (if v_models (db_view s) (md_ID m) = None then Inl ErrRecordNotFound else Inr (?uv (?um s)))"
    using statement_ok [of ?um, OF inv1] statement_ok [of ?uv, OF inv2] by (simp add: archiveFunc_def g_def h_def model_exists_iff)
  show "v_models (db_view s) (md_ID m) = None \<Longrightarrow> archiveFunc pgtime m s = Inl ErrRecordNotFound" by (simp add: r)
  show "v_models (db_view s) (md_ID m) \<noteq> None \<Longrightarrow> \<exists>s'. archiveFunc pgtime m s = Inr s' \<and> db_inv s'
      \<and> db_view s' = archived_view (md_ID m) (pgtime (md_ArchivedAt m)) (pgtime (md_UpdatedAt m)) (db_view s) \<and> db_faults s' = db_faults s"
    using inv2 view2 by (simp add: r A_def)
qed

lemma ArchiveModelTx_run:
  assumes inv: "db_inv s" and run: "ArchiveModelTx pgtime m s = (r, s')"
  shows "db_inv s' \<and> (case r of
       Inl e \<Rightarrow> db_view s' = db_view s
     | Inr m' \<Rightarrow> m' = m \<and> v_models (db_view s) (md_ID m) \<noteq> None
         \<and> db_view s' = archived_view (md_ID m) (pgtime (md_ArchivedAt m)) (pgtime (md_UpdatedAt m)) (db_view s))
    \<and> (db_healthy s \<longrightarrow> db_healthy s' \<and> (v_models (db_view s) (md_ID m) \<noteq> None \<longrightarrow> r = Inr m))"
proof -
  obtain f s1 where f: "next_fault s = (f, s1)" by (cases "next_fault s")
  note keep = next_fault_keeps [OF f] and h = next_fault_run [OF f]
  have inv1: "db_inv s1" using keep(2) inv by simp
  note af = archiveFunc_run [OF inv1, of m pgtime, unfolded keep(1)]
  show ?thesis
  proof (cases f)
    case (Some e)
    then show ?thesis using run f keep inv h by (auto simp: ArchiveModelTx_def)
  next
    case None
    show ?thesis
    proof (cases "v_models (db_view s) (md_ID m) = None")
      case True
      then show ?thesis using run f keep inv h None af(1) by (auto simp: ArchiveModelTx_def)
    next
      case False
      from af(2) [OF this] obtain s2 where "archiveFunc pgtime m s1 = Inr s2" "db_inv s2" "db_faults s2 = db_faults s1"
        "db_view s2 = archived_view (md_ID m) (pgtime (md_ArchivedAt m)) (pgtime (md_UpdatedAt m)) (db_view s)" by blast
      then show ?thesis using run f h None False by (auto simp: ArchiveModelTx_def db_healthy_def)
    qed
  qed
qed

lemma LookupCommandIdempotency_run:
  assumes "LookupCommandIdempotency t c k s = (r, s')" "x = (if k = '''' then None else v_ledger (db_view s) (t, c, k))"
  shows "db_view s' = db_view s \<and> db_inv s' = db_inv s \<and> reads x r \<and> (db_healthy s \<longrightarrow> s' = s \<and> r = answer x)"
proof -
  obtain f s1 where f: "next_fault s = (f, s1)" by (cases "next_fault s")
  note keep = next_fault_keeps [OF f] and h = next_fault_run [OF f]
  have l: "map_of (db_ledger s1) = v_ledger (db_view s)" using h by (simp add: db_view_def)
  show ?thesis using assms f keep h fault_not_sentinel l
    by (cases f; cases "v_ledger (db_view s) (t, c, k)") (auto simp: LookupCommandIdempotency_def reads_def answer_def split: if_splits)
qed

lemma ledger_add:
  assumes "db_inv s" "map_of (db_ledger s) a = None"
  shows "db_inv (s\<lparr>db_ledger := db_ledger s @ [(a, i)]\<rparr>)"
    "db_view (s\<lparr>db_ledger := db_ledger s @ [(a, i)]\<rparr>) = (db_view s)\<lparr>v_ledger := (v_ledger (db_view s))(a \<mapsto> i)\<rparr>"
  using assms by (auto simp: db_inv_def checks_hold_def indexes_hold_def references_hold_def db_view_def single_add map_of_eq_None_iff)

lemma RecordCommandIdempotency_run:
  assumes inv: "db_inv s" and run: "RecordCommandIdempotency t c k i s = (oe, s')"
  shows "db_inv s'
    \<and> (if k \<noteq> '''' \<and> v_ledger (db_view s) (t, c, k) = None
       then (case oe of None \<Rightarrow> db_view s' = (db_view s)\<lparr>v_ledger := (v_ledger (db_view s))((t, c, k) \<mapsto> i)\<rparr> | Some e \<Rightarrow> db_view s' = db_view s)
       else db_view s' = db_view s \<and> (k \<noteq> '''' \<and> oe = None \<longrightarrow> v_ledger (db_view s) (t, c, k) = Some i))
    \<and> (db_healthy s \<longrightarrow> db_healthy s' \<and> (k = '''' \<or> v_ledger (db_view s) (t, c, k) \<in> {None, Some i} \<longrightarrow> oe = None))"
proof (cases "k = ''''")
  case True
  then show ?thesis using run inv by (simp add: RecordCommandIdempotency_def)
next
  case k: False
  obtain f s1 where f: "next_fault s = (f, s1)" by (cases "next_fault s")
  obtain f2 s2 where f2: "next_fault s1 = (f2, s2)" by (cases "next_fault s1")
  note keep = next_fault_keeps [OF f] and h = next_fault_run [OF f] and keep2 = next_fault_keeps [OF f2] and h2 = next_fault_run [OF f2]
  have inv1: "db_inv s1" using keep(2) inv by simp
  have l: "map_of (db_ledger s1) = v_ledger (db_view s)" using h by (simp add: db_view_def)
  show ?thesis
  proof (cases f)
    case (Some e)
    then show ?thesis using run k f keep inv h by (auto simp: RecordCommandIdempotency_def)
  next
    case None
    show ?thesis
    proof (cases "v_ledger (db_view s) (t, c, k)")
      case N: None
      then have s': "oe = None" "s' = s1\<lparr>db_ledger := db_ledger s1 @ [((t, c, k), i)]\<rparr>" using run k f None l by (auto simp: RecordCommandIdempotency_def)
      from ledger_add [OF inv1, of "(t, c, k)" i] N l s' keep(1) h k show ?thesis by (auto simp: db_healthy_def)
    next
      case (Some j)
      then show ?thesis using run k f None l f2 keep keep2 inv h h2
        by (cases f2) (auto simp: RecordCommandIdempotency_def split: if_splits)
    qed
  qed
qed

section \<open>The adapter implements the port\<close>

interpretation pgw: write_store "PgWriteStore pgtime" db_view db_inv db_healthy "model_row pgtime" "version_row pgtime" pgtime
  for pgtime
proof (unfold_locales, goal_cases)
  case (1 w) then show ?case by (rule db_view_ok)
next
  case (2 m) then show ?case by (simp add: model_row_def nullableTime_def)
next
  case (3 v) then show ?case by simp
next
  case (4 w t k i)
  from keyed_row [of md_Team md_ID "db_models w" t k i] 4(2) obtain a where "(a, Some k) \<in> set (db_models w)" "md_Team a = t" "md_ID a = i"
    by (auto simp: db_view_def)
  then show ?case by (auto simp: view_models [OF 4(1)])
next
  case (5 w d k i)
  from keyed_row [of mv_ModelID mv_ID "db_versions w" d k i] 5(2) obtain a where "(a, Some k) \<in> set (db_versions w)" "mv_ModelID a = d" "mv_ID a = i"
    by (auto simp: db_view_def)
  then show ?case by (auto simp: view_versions [OF 5(1)])
next
  case (6 w i r w') then show ?case using GetModel_run [of i w r w'] by (simp add: PgWriteStore_def)
next
  case (7 w i r w') then show ?case using GetVersion_run [of i w r w'] by (simp add: PgWriteStore_def)
next
  case (8 w t k r w') then show ?case using LookupModelByIdempotencyKey_run [OF 8(1), of t k r w', OF _ refl] by (simp add: PgWriteStore_def Let_def)
next
  case (9 w t k r w') then show ?case using LookupVersionByIdempotencyKey_run [OF 9(1), of t k r w', OF _ refl] by (simp add: PgWriteStore_def Let_def)
next
  case (10 w d r w') then show ?case using CountVersions_run [OF 10(1), of d r w'] by (simp add: PgWriteStore_def)
next
  case (11 w d r w') then show ?case using FindProductionVersion_run [OF 11(1), of d r w'] by (simp add: PgWriteStore_def)
next
  case (12 w m k r w') then show ?case using CreateModel_run [OF 12(1), of pgtime m k r w'] by (simp add: PgWriteStore_def)
next
  case (13 w m r w') then show ?case using UpdateModel_run [OF 13(1), of pgtime m r w'] by (simp add: PgWriteStore_def)
next
  case (14 w v k r w') then show ?case using CreateVersion_run [OF 14(1), of pgtime v k r w'] by (simp add: PgWriteStore_def)
next
  case (15 w v r w') then show ?case using UpdateVersionStatus_run [OF 15(1), of v r w'] by (simp add: PgWriteStore_def)
next
  case (16 w p q r w') then show ?case using PromoteVersionTx_run [OF 16(1), of p q r w', OF _ refl] by (simp add: PgWriteStore_def)
next
  case (17 w m r w') then show ?case using ArchiveModelTx_run [OF 17(1), of pgtime m r w'] by (simp add: PgWriteStore_def)
next
  case (18 w t c k r w') then show ?case using LookupCommandIdempotency_run [of t c k w r w', OF _ refl] by (simp add: PgWriteStore_def Let_def)
next
  case (19 w t c k i oe w')
  then have "RecordCommandIdempotency t c k i w = (oe, w')" by (simp add: PgWriteStore_def)
  from RecordCommandIdempotency_run [OF 19(1) this] show ?case .
qed

end
