(* ===== verification/Registry.thy ===== *)
theory Registry
  imports RegistryPostgres
begin

text \<open>
  The registry on its Postgres store: the service of \<open>RegistryService\<close> over the adapter of \<open>RegistryPostgres\<close>. The
  properties rest on the interpretation \<open>pgw\<close> of the write store's contract. The projection and the
  events' transport stay parameters.
\<close>

section \<open>Wiring\<close>

definition NewRegistryService :: "'w WriteStoreOps \<Rightarrow> 'r ReadStoreOps \<Rightarrow> (nat \<Rightarrow> time) \<Rightarrow> (nat \<Rightarrow> string) \<Rightarrow> ('w, 'r) registryService" where
  "NewRegistryService write read clock ids = \<lparr>rs_write = write, rs_read = read, rs_clock = clock, rs_ids = ids\<rparr>"

text \<open>The tables after the migration, with the faults to come.\<close>

definition emptyDB :: "string option list \<Rightarrow> regDB" where
  "emptyDB faults = \<lparr>db_models = [], db_versions = [], db_ledger = [], db_faults = faults\<rparr>"

definition startState :: "'w \<Rightarrow> 'r \<Rightarrow> ('w, 'r) regState" where
  "startState w r = \<lparr>rg_write = w, rg_read = r, rg_emitted = [], rg_ticks = 0, rg_ids = 0\<rparr>"

lemma NewRegistryService_write [simp]: "rs_write (NewRegistryService W R c i) = W"
  by (simp add: NewRegistryService_def)

lemma startState_write [simp]: "rg_write (startState w r) = w"
  by (simp add: startState_def)

lemma emptyDB_ok [simp]: "db_inv (emptyDB faults)"
  by (simp add: db_inv_def emptyDB_def checks_hold_def indexes_hold_def references_hold_def map_filter_def)

lemma emptyDB_view: "db_view (emptyDB faults) = \<lparr>v_models = Map.empty, v_versions = Map.empty, v_mkeys = Map.empty, v_vkeys = Map.empty, v_ledger = Map.empty\<rparr>"
  by (simp add: db_view_def emptyDB_def map_filter_def)

lemma emptyDB_life: "life_ok (db_view (emptyDB faults))"
  unfolding emptyDB_view by (simp add: life_ok_def view_ok_def unique_names_def unique_labels_def single_production_def in_production_def)

section \<open>The life cycle\<close>

text \<open>C10: Whatever the tables hold, whatever calls of the database fail and in whatever order commands and queries are made, the
  registry on Postgres takes the tables only through steps of the life cycle.\<close>

theorem registry_refines_life_cycle:
  fixes s :: "(regDB, 'r) regState"
  assumes "db_inv (rg_write s)" "rs_write P = PgWriteStore pgtime"
  shows "db_inv (rg_write (run_calls P cs s)) \<and> reg_step\<^sup>*\<^sup>* (db_view (rg_write s)) (db_view (rg_write (run_calls P cs s)))"
  by (rule pgw.calls_refine [OF assms])

text \<open>C11: From empty tables, after any calls with any faults of the database, a model has at most one version in production,
  a version in staging or production is ready, the versions of an archived model are archived, and names and labels are unique.\<close>

theorem registry_life_ok:
  "life_ok (db_view (rg_write (run_calls (NewRegistryService (PgWriteStore pgtime) R clock ids) cs (startState (emptyDB faults) r))))"
proof -
  have "reg_step\<^sup>*\<^sup>* (db_view (emptyDB faults))
      (db_view (rg_write (run_calls (NewRegistryService (PgWriteStore pgtime) R clock ids) cs (startState (emptyDB faults) r))))"
    using pgw.calls_refine [of "startState (emptyDB faults) r" "NewRegistryService (PgWriteStore pgtime) R clock ids" pgtime cs] by simp
  then show ?thesis using emptyDB_life by (rule reg_steps_life_ok)
qed

text \<open>C26: A version once cut stays, with its label, description, metrics and origin; its stage only moves along the stage machine and its
  status and artifact change only while its upload is pending. A model once registered stays, with its name, team and owner, and is never edited once
  archived.\<close>

theorem registry_history:
  fixes s :: "(regDB, 'r) regState"
  assumes "db_inv (rg_write s)" "rs_write P = PgWriteStore pgtime"
  shows "(\<forall>i u. v_versions (db_view (rg_write s)) i = Some u \<longrightarrow> (\<exists>v. v_versions (db_view (rg_write (run_calls P cs s))) i = Some v \<and> version_grows u v))
    \<and> (\<forall>i m. v_models (db_view (rg_write s)) i = Some m \<longrightarrow> (\<exists>n. v_models (db_view (rg_write (run_calls P cs s))) i = Some n \<and> model_grows m n))"
proof -
  have "reg_step\<^sup>*\<^sup>* (db_view (rg_write s)) (db_view (rg_write (run_calls P cs s)))" using pgw.calls_refine [OF assms] by blast
  from reg_steps_history [OF this db_view_ok [OF assms(1)]] show ?thesis by blast
qed

text \<open>C27: A call emits at most one event, and an event emitted tells the change the call made: the entity it names was as the event
  says before and is as the event says after.\<close>

theorem registry_events_tell_the_change:
  fixes s :: "(regDB, 'r) regState"
  assumes "db_inv (rg_write s)" "rs_write P = PgWriteStore pgtime"
  shows "reports (db_view (rg_write s)) (db_view (rg_write (run_call P c s))) (rg_emitted s) (rg_emitted (run_call P c s))"
  by (rule pgw.call_reports [OF assms])

section \<open>Commands on a healthy database\<close>

text \<open>C25: Promoting a ready version out of staging while another version serves: the call succeeds, the incumbent is archived and the
  version serves, in one step; it is then the only version of the model in production; no other row changes, and one event is emitted.\<close>

theorem promotion_swaps_production:
  fixes s :: "(regDB, 'r) regState"
  assumes "db_inv (rg_write s)" "rs_write P = PgWriteStore pgtime" "db_healthy (rg_write s)"
    and "promotable (db_view (rg_write s)) actor inp v" "pv_TargetStage inp = StageProduction"
    and "in_production (db_view (rg_write s)) (mv_ModelID v) d" "v_versions (db_view (rg_write s)) d = Some u" "d \<noteq> ''''"
    and "PromoteVersion P actor inp s = (r, s')"
  shows "r = Inr \<lparr>pr_Promoted = v\<lparr>mv_Stage := StageProduction\<rparr>, pr_Demoted = u\<lparr>mv_Stage := StageArchived\<rparr>\<rparr>
    \<and> v_versions (db_view (rg_write s')) = (v_versions (db_view (rg_write s)))(d \<mapsto> u\<lparr>mv_Stage := StageArchived\<rparr>, mv_ID v \<mapsto> v\<lparr>mv_Stage := StageProduction\<rparr>)
    \<and> (\<forall>i. in_production (db_view (rg_write s')) (mv_ModelID v) i \<longleftrightarrow> i = mv_ID v)
    \<and> v_models (db_view (rg_write s')) = v_models (db_view (rg_write s))
    \<and> (\<exists>ev. rg_emitted s' = rg_emitted s @ [ev] \<and> ev_Kind ev = EventModelPromoted)"
  by (rule pgw.PromoteVersion_swaps [OF assms])

text \<open>A promotion repeated with its idempotency key answers with the version as the first call left it, changes no row and emits no second event.\<close>

theorem promotion_replay_changes_nothing:
  fixes s :: "(regDB, 'r) regState"
  assumes "db_inv (rg_write s)" "rs_write P = PgWriteStore pgtime" "db_healthy (rg_write s)"
    and "promotable (db_view (rg_write s)) actor inp v" "pv_IdempotencyKey inp \<noteq> ''''" "PromoteVersion P actor inp s = (Inr res, s1)"
  shows "\<exists>s2. PromoteVersion P actor inp s1 = (Inr \<lparr>pr_Promoted = v\<lparr>mv_Stage := pv_TargetStage inp\<rparr>, pr_Demoted = zeroVersion\<rparr>, s2)
      \<and> pr_Promoted res = v\<lparr>mv_Stage := pv_TargetStage inp\<rparr> \<and> db_view (rg_write s2) = db_view (rg_write s1) \<and> rg_emitted s2 = rg_emitted s1"
  by (rule pgw.PromoteVersion_replay [OF assms])

text \<open>Another team's version does not exist for an actor: confirming it and promoting it without a key answer that the version is not found,
  and editing, archiving or cutting a version of another team's model that the model is not found; nothing changes and no event is emitted.\<close>

theorem other_team_sees_not_found:
  fixes s :: "(regDB, 'r) regState"
  assumes "db_inv (rg_write s)" "rs_write P = PgWriteStore pgtime" "db_healthy (rg_write s)"
    and v: "v_versions (db_view (rg_write s)) vid = Some v" "v_models (db_view (rg_write s)) (mv_ModelID v) = Some m" "md_Team m \<noteq> ac_Team actor"
    and i: "TrimSpace vid \<noteq> ''''" "TrimSpace (mv_ModelID v) \<noteq> ''''"
    and p: "IsValid t"
  shows "refused db_view s ErrVersionNotFound (MarkVersionReady P actor \<lparr>mk_VersionID = vid, mk_Success = ok, mk_ArtifactPath = path, mk_ArtifactDigest = dig, mk_SizeBytes = n, mk_IdempotencyKey = ''''\<rparr> s)
    \<and> refused db_view s ErrVersionNotFound (PromoteVersion P actor \<lparr>pv_VersionID = vid, pv_TargetStage = t, pv_IdempotencyKey = ''''\<rparr> s)
    \<and> refused db_view s ErrModelNotFound (RegistryService.UpdateModel P actor (edit\<lparr>um_ModelID := mv_ModelID v\<rparr>) s)
    \<and> refused db_view s ErrModelNotFound (ArchiveModel P actor (mv_ModelID v) '''' s)
    \<and> refused db_view s ErrModelNotFound (RegistryService.CreateVersion P actor (draft\<lparr>cv_ModelID := mv_ModelID v, cv_IdempotencyKey := ''''\<rparr>) s)"
proof -
  have m: "owned_model (db_view (rg_write s)) actor (mv_ModelID v) = None" using v(2,3) by (simp add: owned_model_def)
  have ow: "owned_version (db_view (rg_write s)) actor vid = None" using v(1) m by (simp add: owned_version_def)
  show ?thesis
    using pgw.foreign_version_refused [OF assms(1-3) ow i(1)] pgw.foreign_model_refused [OF assms(1-3) m i(2)] p by simp
qed

text \<open>A version cut without a label gets the number of the versions of the model plus one or, when pinned labels are in the way, the first
  number after it that is free; with at most a hundred versions there always is one within the attempts, so the call succeeds.\<close>

theorem auto_label_is_first_free:
  fixes s :: "(regDB, 'r) regState"
  assumes "rs_write P = PgWriteStore pgtime" "db_inv (rg_write s)" "db_healthy (rg_write s)" "list_all (finite_float \<circ> snd) (cv_Metrics inp)"
    and "TrimSpace (cv_ModelID inp) \<noteq> ''''" "owned_model (db_view (rg_write s)) actor (cv_ModelID inp) = Some m" "\<not> IsArchived m" "TrimSpace (cv_Version inp) = ''''"
    and "cv_IdempotencyKey inp = '''' \<or> v_vkeys (db_view (rg_write s)) (cv_ModelID inp, cv_IdempotencyKey inp) = None"
    and "\<forall>n\<ge>rg_ids s. v_versions (db_view (rg_write s)) (rs_ids P n) = None"
    and "card (versions_of (db_view (rg_write s)) (cv_ModelID inp)) \<le> maxAutoLabelAttempts" "RegistryService.CreateVersion P actor inp s = (r, s')"
  shows "\<exists>v j. r = Inr v \<and> mv_ModelID v = cv_ModelID inp
      \<and> mv_Version v = itoa (int (card (versions_of (db_view (rg_write s)) (cv_ModelID inp))) + 1 + int j)
      \<and> \<not> label_taken (db_view (rg_write s)) (cv_ModelID inp) (mv_Version v)
      \<and> (\<forall>i<j. label_taken (db_view (rg_write s)) (cv_ModelID inp) (itoa (int (card (versions_of (db_view (rg_write s)) (cv_ModelID inp))) + 1 + int i)))"
  by (rule pgw.CreateVersion_auto [OF assms])


section \<open>A small registry\<close>

text \<open>Tables with one model of the team \<open>ml\<close>, its first version in production, its second one ready in staging, and a third label pinned.\<close>

definition demoModel :: Model where
  "demoModel = zeroModel\<lparr>md_ID := ''m'', md_Name := ''churn'', md_OwnerID := ''ann'', md_Team := ''ml'', md_CreatedAt := 5, md_UpdatedAt := 5\<rparr>"

definition demoVersion :: "string \<Rightarrow> string \<Rightarrow> ModelStage \<Rightarrow> ModelVersion" where
  "demoVersion i lbl st = zeroVersion\<lparr>mv_ID := i, mv_ModelID := ''m'', mv_Version := lbl, mv_Stage := st, mv_Status := StatusReady\<rparr>"

definition demoDB :: regDB where
  "demoDB = \<lparr>db_models = [(demoModel, None)],
     db_versions = [(demoVersion ''a'' ''1'' StageProduction, None), (demoVersion ''b'' ''4'' StageStaging, Some ''k'')], db_ledger = [], db_faults = []\<rparr>"

definition noRead :: "unit ReadStoreOps" where
  "noRead = \<lparr>rd_GetModelByID = (\<lambda>team i r. (Inl ErrRecordNotFound, r)), rd_GetModelByName = (\<lambda>team n r. (Inl ErrRecordNotFound, r)),
     rd_ListModels = (\<lambda>team f opts r. (Inr ([], ''''), r)), rd_CountModels = (\<lambda>team f r. (Inr 0, r)), rd_GetVersionByID = (\<lambda>i r. (Inl ErrRecordNotFound, r)),
     rd_GetVersionByLabel = (\<lambda>m l r. (Inl ErrRecordNotFound, r)), rd_ListVersions = (\<lambda>m st opts r. (Inr ([], ''''), r))\<rparr>"

definition demoService :: "(regDB, unit) registryService" where
  "demoService = NewRegistryService (PgWriteStore (\<lambda>t. t)) noRead (\<lambda>n. 100 + int n) (\<lambda>n. ''id'' @ itoa_nat n)"

definition demoState :: "(regDB, unit) regState" where
  "demoState = startState demoDB ()"

definition ann :: Actor where
  "ann = \<lparr>ac_UserID = ''ann'', ac_Team = ''ml''\<rparr>"

definition eve :: Actor where
  "eve = \<lparr>ac_UserID = ''eve'', ac_Team = ''red''\<rparr>"

definition demoPromotion :: PromoteVersionInput where
  "demoPromotion = \<lparr>pv_VersionID = ''b'', pv_TargetStage = StageProduction, pv_IdempotencyKey = ''p''\<rparr>"

definition demoCut :: CreateVersionInput where
  "demoCut = \<lparr>cv_ModelID = ''m'', cv_Version = '''', cv_Description = '''', cv_Metrics = [], cv_IdempotencyKey = ''''\<rparr>"

lemma demo_ok: "db_inv (rg_write demoState)" "db_healthy (rg_write demoState)"
  by code_simp+

lemma demo_pg: "rs_write demoService = PgWriteStore (\<lambda>t. t)"
  by (simp add: demoService_def)

lemma demo_versions: "v_versions (db_view (rg_write demoState)) = [''a'' \<mapsto> demoVersion ''a'' ''1'' StageProduction, ''b'' \<mapsto> demoVersion ''b'' ''4'' StageStaging]"
  by (auto simp: demoState_def startState_def demoDB_def db_view_def demoVersion_def)

lemma demo_models: "v_models (db_view (rg_write demoState)) = [''m'' \<mapsto> demoModel]"
  by (simp add: demoState_def startState_def demoDB_def db_view_def demoModel_def)

lemma demo_promotable: "promotable (db_view (rg_write demoState)) ann demoPromotion (demoVersion ''b'' ''4'' StageStaging)"
proof -
  have "owned_version (db_view (rg_write demoState)) ann ''b'' = Some (demoVersion ''b'' ''4'' StageStaging)"
    by (simp add: owned_version_def owned_model_def demo_versions demo_models demoVersion_def demoModel_def ann_def zeroVersion_def)
  moreover have "v_ledger (db_view (rg_write demoState)) = Map.empty"
    by (simp add: demoState_def startState_def demoDB_def db_view_def)
  ultimately show ?thesis by (simp add: promotable_def demoPromotion_def key_new_def demoVersion_def TrimSpace_def is_space_def IsValid_def)
qed

lemma demo_incumbent: "in_production (db_view (rg_write demoState)) (mv_ModelID (demoVersion ''b'' ''4'' StageStaging)) ''a''"
  by (simp add: in_production_def demo_versions demoVersion_def)

lemma demo_promotion:
  obtains s1 ev where "PromoteVersion demoService ann demoPromotion demoState
      = (Inr \<lparr>pr_Promoted = demoVersion ''b'' ''4'' StageProduction, pr_Demoted = demoVersion ''a'' ''1'' StageArchived\<rparr>, s1)" "rg_emitted s1 = [ev]"
proof -
  obtain r s1 where run: "PromoteVersion demoService ann demoPromotion demoState = (r, s1)" by fastforce
  have t: "pv_TargetStage demoPromotion = StageProduction" "rg_emitted demoState = []" by (simp_all add: demoPromotion_def demoState_def startState_def)
  have a: "v_versions (db_view (rg_write demoState)) ''a'' = Some (demoVersion ''a'' ''1'' StageProduction)" by (simp add: demo_versions)
  have n: "''a'' \<noteq> ''''" by simp
  note sw = pgw.PromoteVersion_swaps [OF demo_ok(1) demo_pg demo_ok(2) demo_promotable t(1) demo_incumbent a n run]
  have "r = Inr \<lparr>pr_Promoted = demoVersion ''b'' ''4'' StageProduction, pr_Demoted = demoVersion ''a'' ''1'' StageArchived\<rparr>"
    using sw [THEN conjunct1] by (simp add: demoVersion_def)
  then show ?thesis using that run sw t(2) by auto
qed

theorem registry_refines_life_cycle_witness:
  "reg_step\<^sup>*\<^sup>* (db_view (rg_write demoState)) (db_view (rg_write (run_calls demoService [CallPromoteVersion ann demoPromotion, CallArchiveModel ann ''m'' ''''] demoState)))"
  using registry_refines_life_cycle [OF demo_ok(1) demo_pg] by blast

theorem registry_history_witness:
  "\<exists>v. v_versions (db_view (rg_write (run_calls demoService [CallPromoteVersion ann demoPromotion, CallArchiveModel ann ''m'' ''''] demoState))) ''a'' = Some v
     \<and> version_grows (demoVersion ''a'' ''1'' StageProduction) v"
  using registry_history [OF demo_ok(1) demo_pg] by (simp add: demo_versions)

theorem registry_events_tell_the_change_witness:
  "reports (db_view (rg_write demoState)) (db_view (rg_write (run_call demoService (CallPromoteVersion ann demoPromotion) demoState))) []
     (rg_emitted (run_call demoService (CallPromoteVersion ann demoPromotion) demoState))
   \<and> length (rg_emitted (run_call demoService (CallPromoteVersion ann demoPromotion) demoState)) = 1"
proof -
  have "rg_emitted demoState = []" by (simp add: demoState_def startState_def)
  moreover have "length (rg_emitted (run_call demoService (CallPromoteVersion ann demoPromotion) demoState)) = 1" by (rule demo_promotion) simp
  ultimately show ?thesis using registry_events_tell_the_change [OF demo_ok(1) demo_pg, of "CallPromoteVersion ann demoPromotion"] by simp
qed

theorem promotion_swaps_production_witness:
  "fst (PromoteVersion demoService ann demoPromotion demoState)
     = Inr \<lparr>pr_Promoted = demoVersion ''b'' ''4'' StageProduction, pr_Demoted = demoVersion ''a'' ''1'' StageArchived\<rparr>"
proof -
  from promotion_swaps_production [OF demo_ok(1) demo_pg demo_ok(2) demo_promotable _ demo_incumbent, of "demoVersion ''a'' ''1'' StageProduction"]
  show ?thesis by (cases "PromoteVersion demoService ann demoPromotion demoState") (simp add: demo_versions demoPromotion_def demoVersion_def)
qed

theorem promotion_replay_changes_nothing_witness:
  "\<exists>res s1 s2. PromoteVersion demoService ann demoPromotion demoState = (Inr res, s1)
     \<and> PromoteVersion demoService ann demoPromotion s1 = (Inr \<lparr>pr_Promoted = pr_Promoted res, pr_Demoted = zeroVersion\<rparr>, s2) \<and> rg_emitted s2 = rg_emitted s1"
proof -
  obtain res s1 where r: "PromoteVersion demoService ann demoPromotion demoState = (Inr res, s1)" by (rule demo_promotion)
  have "pv_IdempotencyKey demoPromotion \<noteq> ''''" by (simp add: demoPromotion_def)
  from promotion_replay_changes_nothing [OF demo_ok(1) demo_pg demo_ok(2) demo_promotable this r] show ?thesis using r by auto
qed

theorem other_team_sees_not_found_witness:
  "fst (ArchiveModel demoService eve ''m'' '''' demoState) = Inl ErrModelNotFound"
proof -
  have "v_versions (db_view (rg_write demoState)) ''b'' = Some (demoVersion ''b'' ''4'' StageStaging)"
    "v_models (db_view (rg_write demoState)) (mv_ModelID (demoVersion ''b'' ''4'' StageStaging)) = Some demoModel" "md_Team demoModel \<noteq> ac_Team eve"
    "TrimSpace ''b'' \<noteq> ''''" "TrimSpace (mv_ModelID (demoVersion ''b'' ''4'' StageStaging)) \<noteq> ''''"
    by (simp_all add: demo_versions demo_models demoVersion_def demoModel_def eve_def TrimSpace_def is_space_def)
  moreover have "IsValid StageArchived" by (simp add: IsValid_def)
  ultimately have "refused db_view demoState ErrModelNotFound (ArchiveModel demoService eve (mv_ModelID (demoVersion ''b'' ''4'' StageStaging)) '''' demoState)"
    using other_team_sees_not_found [OF demo_ok(1) demo_pg demo_ok(2)] by blast
  then show ?thesis by (simp add: refused_def demoVersion_def)
qed

theorem auto_label_is_first_free_witness:
  "\<exists>v. fst (RegistryService.CreateVersion demoService ann demoCut demoState) = Inr v \<and> \<not> label_taken (db_view (rg_write demoState)) ''m'' (mv_Version v)"
proof -
  obtain r s' where run: "RegistryService.CreateVersion demoService ann demoCut demoState = (r, s')" by fastforce
  have own: "owned_model (db_view (rg_write demoState)) ann (cv_ModelID demoCut) = Some demoModel"
    by (simp add: owned_model_def demo_models demoCut_def demoModel_def ann_def)
  have ids: "\<forall>n\<ge>rg_ids demoState. v_versions (db_view (rg_write demoState)) (rs_ids demoService n) = None"
    by (simp add: demo_versions demoService_def NewRegistryService_def)
  have "versions_of (db_view (rg_write demoState)) (cv_ModelID demoCut) \<subseteq> {''a'', ''b''}"
    by (auto simp: versions_of_def demo_versions split: if_splits)
  then have few: "card (versions_of (db_view (rg_write demoState)) (cv_ModelID demoCut)) \<le> maxAutoLabelAttempts"
    using card_mono [of "{''a'', ''b''}" "versions_of (db_view (rg_write demoState)) (cv_ModelID demoCut)"] by (simp add: maxAutoLabelAttempts_def)
  have inp: "list_all (finite_float \<circ> snd) (cv_Metrics demoCut)" "TrimSpace (cv_ModelID demoCut) \<noteq> ''''" "\<not> IsArchived demoModel"
    "TrimSpace (cv_Version demoCut) = ''''" "cv_IdempotencyKey demoCut = '''' \<or> v_vkeys (db_view (rg_write demoState)) (cv_ModelID demoCut, cv_IdempotencyKey demoCut) = None"
    by (simp_all add: demoCut_def TrimSpace_def is_space_def demoModel_def IsArchived_def zeroModel_def)
  obtain v where "r = Inr v" "\<not> label_taken (db_view (rg_write demoState)) (cv_ModelID demoCut) (mv_Version v)"
    using auto_label_is_first_free [OF demo_pg demo_ok inp(1,2) own inp(3-5) ids few run] by (elim exE conjE)
  then show ?thesis using run by (simp add: demoCut_def)
qed

section \<open>A key read across teams\<close>

text \<open>
  The key of a created version is looked up before the model's team is checked and by the model's id alone: an actor of
  another team who repeats the key is answered with the version.
\<close>

lemma create_key_answers_other_team:
  "fst (RegistryService.CreateVersion demoService eve (demoCut\<lparr>cv_IdempotencyKey := ''k''\<rparr>) demoState) = Inr (demoVersion ''b'' ''4'' StageStaging)
   \<and> md_Team demoModel \<noteq> ac_Team eve"
  by (simp add: RegistryService.CreateVersion_def demoCut_def onWrite_def demo_pg PgWriteStore_def LookupVersionByIdempotencyKey_def select_def next_fault_def
      demoState_def startState_def demoDB_def demoVersion_def TrimSpace_def is_space_def demoModel_def eve_def)

section \<open>A confirmation that races an archive\<close>

text \<open>
  The life cycle holds for calls one after the other. Between the read and the write of \<^verbatim>\<open>MarkVersionReady\<close> another call can
  commit: the write puts the stage of the read version back, so a version of a model archived in between is in development again.
\<close>

definition racedDB :: regDB where
  "racedDB = \<lparr>db_models = [(demoModel, None)], db_versions = [((demoVersion ''a'' ''1'' StageDev)\<lparr>mv_Status := StatusPendingUpload\<rparr>, None)], db_ledger = [], db_faults = []\<rparr>"

lemma stale_confirmation_revives_version:
  "\<not> life_ok (db_view (snd (UpdateVersionStatus (demoVersion ''a'' ''1'' StageDev) (snd (ArchiveModelTx (\<lambda>t. t) (demoModel\<lparr>md_ArchivedAt := 9, md_UpdatedAt := 9\<rparr>) racedDB)))))"
proof -
  let ?w = "snd (UpdateVersionStatus (demoVersion ''a'' ''1'' StageDev) (snd (ArchiveModelTx (\<lambda>t. t) (demoModel\<lparr>md_ArchivedAt := 9, md_UpdatedAt := 9\<rparr>) racedDB)))"
  have v: "map fst (db_versions ?w) = [demoVersion ''a'' ''1'' StageDev]" and m: "map fst (db_models ?w) = [demoModel\<lparr>md_ArchivedAt := 9, md_UpdatedAt := 9\<rparr>]"
    by code_simp+
  have "v_versions (db_view ?w) ''a'' = Some (demoVersion ''a'' ''1'' StageDev)" "v_models (db_view ?w) ''m'' = Some (demoModel\<lparr>md_ArchivedAt := 9, md_UpdatedAt := 9\<rparr>)"
    using v m by (auto simp: db_view_def demoVersion_def demoModel_def map_eq_Cons_conv)
  then have a: "v_versions (db_view ?w) ''a'' = Some (demoVersion ''a'' ''1'' StageDev)"
    "v_models (db_view ?w) (mv_ModelID (demoVersion ''a'' ''1'' StageDev)) = Some (demoModel\<lparr>md_ArchivedAt := 9, md_UpdatedAt := 9\<rparr>)" by (simp_all add: demoVersion_def)
  show ?thesis
  proof
    assume "life_ok (db_view ?w)"
    from life_okD(3) [OF this a] show False by (simp add: IsArchived_def demoVersion_def)
  qed
qed

end
