(* ===== verification/BillingMoney.thy ===== *)
theory BillingMoney
  imports FPrelude "HOL-Library.Signed_Division"
begin

unbundle bit_operations_syntax

text \<open>
  The money arithmetic of the billing service (\<^verbatim>\<open>domain/models.go\<close>, \<^verbatim>\<open>domain/errors.go\<close>): amounts in
  micro units as 64-bit words read as signed, the checked multiplication and addition, the sum of amounts
  of one currency and the rounding to cents. The lemmas relate each operation to exact integers.
\<close>

section \<open>Signed 64-bit integers\<close>

type_synonym int64 = "64 word"

definition in_int64 :: "int \<Rightarrow> bool" where
  "in_int64 i \<longleftrightarrow> - (2 ^ 63) \<le> i \<and> i < 2 ^ 63"

lemma sint64_range [simp]: "in_int64 (sint (w :: int64))"
  using sint_ge [of w] sint_lt [of w] by (simp add: in_int64_def)

lemma sint64_of_int: "in_int64 i \<Longrightarrow> sint (word_of_int i :: int64) = i"
  by (simp add: in_int64_def int_word_sint)

lemma sint64_cases: "sint (w :: int64) = (if uint w < 2 ^ 63 then uint w else uint w - 2 ^ 64)"
proof -
  have b: "0 \<le> uint w" "uint w < 2 ^ 64" using uint_lt2p [of w] by simp_all
  have "sint w = (uint w + 2 ^ 63) mod 2 ^ 64 - 2 ^ 63"
    using int_word_sint [of "uint w", where 'a = 64] by simp
  moreover have "(uint w + 2 ^ 63) mod 2 ^ 64 = (if uint w < 2 ^ 63 then uint w + 2 ^ 63 else uint w - 2 ^ 63)"
    using b mod_add_self2 [of "uint w - 2 ^ 63" "2 ^ 64"] by (auto simp: mod_pos_pos_trivial add.commute)
  ultimately show ?thesis by auto
qed

lemma uint64_cases: "uint (w :: int64) = (if 0 \<le> sint w then sint w else sint w + 2 ^ 64)"
  using sint64_cases [of w] uint_lt2p [of w] by (auto split: if_splits)

section \<open>Errors\<close>

definition ErrValidation :: goerr where "ErrValidation = New ''billing: validation failed''"
definition ErrNegativeQuantity :: goerr where
  "ErrNegativeQuantity = New ''billing: quantity must be non-negative (only server-issued credits may be negative)''"
definition ErrQuantityTooLarge :: goerr where "ErrQuantityTooLarge = New ''billing: quantity exceeds per-record maximum''"
definition ErrAmountOverflow :: goerr where "ErrAmountOverflow = New ''billing: monetary amount overflowed int64 micro-units''"
definition ErrCurrencyMismatch :: goerr where
  "ErrCurrencyMismatch = New ''billing: cannot combine amounts of different currencies''"
definition ErrInvalidCurrency :: goerr where
  "ErrInvalidCurrency = New ''billing: currency code must be a 3-letter uppercase ISO-4217 code''"
definition ErrUnknownMeter :: goerr where "ErrUnknownMeter = New ''billing: unknown or unpriced meter type''"
definition ErrRatePlanNotFound :: goerr where "ErrRatePlanNotFound = New ''billing: rate plan not found''"
definition ErrInvoiceNotFound :: goerr where "ErrInvoiceNotFound = New ''billing: invoice not found''"
definition ErrNoUsage :: goerr where "ErrNoUsage = New ''billing: no usage records in period''"
definition ErrInvalidPeriod :: goerr where "ErrInvalidPeriod = New ''billing: invalid or too-wide reporting period''"

lemmas billing_errors = ErrValidation_def ErrNegativeQuantity_def ErrQuantityTooLarge_def ErrAmountOverflow_def
  ErrCurrencyMismatch_def ErrInvalidCurrency_def ErrUnknownMeter_def ErrRatePlanNotFound_def ErrInvoiceNotFound_def
  ErrNoUsage_def ErrInvalidPeriod_def

section \<open>Checked arithmetic\<close>

text \<open>\<^verbatim>\<open>bits.Mul64\<close>: the two halves of the 128-bit product.\<close>

definition bits_Mul64 :: "64 word \<Rightarrow> 64 word \<Rightarrow> 64 word \<times> 64 word" where
  "bits_Mul64 x y = (word_of_int (uint x * uint y div 2 ^ 64), x * y)"

definition abs64 :: "int64 \<Rightarrow> 64 word" where
  "abs64 v = (if v <s 0 then NOT v + 1 else v)"

definition mulInt64Checked :: "int64 \<Rightarrow> int64 \<Rightarrow> goerr + int64" where
  "mulInt64Checked a b =
     (if a = 0 \<or> b = 0 then Inr 0
      else let negative = ((a <s 0) \<noteq> (b <s 0)); (hi, lo) = bits_Mul64 (abs64 a) (abs64 b) in
        if hi \<noteq> 0 then Inl ErrAmountOverflow
        else if negative then
          (if lo > 2 ^ 63 then Inl ErrAmountOverflow else if lo = 2 ^ 63 then Inr (word_of_int (- (2 ^ 63))) else Inr (- lo))
        else if lo > 2 ^ 63 - 1 then Inl ErrAmountOverflow else Inr lo)"

definition addInt64Checked :: "int64 \<Rightarrow> int64 \<Rightarrow> goerr + int64" where
  "addInt64Checked a b = (let s = a + b in
     if (0 <s a \<and> 0 <s b \<and> s <s 0) \<or> (a <s 0 \<and> b <s 0 \<and> 0 \<le>s s) then Inl ErrAmountOverflow else Inr s)"

lemma uint_abs64: "uint (abs64 v) = \<bar>sint v\<bar>"
proof (cases "sint v < 0")
  case True
  then have neg: "v <s 0" by (simp add: word_sless_alt)
  have "uint (- v) = (- uint v) mod 2 ^ 64" by (simp add: uint_word_ariths)
  also have "\<dots> = (2 ^ 64 - uint v) mod 2 ^ 64" by (simp add: mod_diff_left_eq [symmetric, of "2 ^ 64"] flip: mod_diff_left_eq)
  finally have "uint (- v) = (2 ^ 64 - uint v) mod 2 ^ 64" .
  moreover have "uint v = sint v + 2 ^ 64" using True uint64_cases [of v] by simp
  moreover have "- (2 ^ 63) \<le> sint v" using sint64_range [of v] by (simp add: in_int64_def)
  ultimately have "uint (- v) = - sint v" using True by (simp add: mod_pos_pos_trivial)
  then show ?thesis using True neg by (simp add: abs64_def minus_eq_not_plus_1)
next
  case False
  then show ?thesis using uint64_cases [of v] by (simp add: abs64_def word_sless_alt)
qed

lemma mulInt64Checked_exact:
  "mulInt64Checked a b = (if in_int64 (sint a * sint b) then Inr (word_of_int (sint a * sint b)) else Inl ErrAmountOverflow)"
proof (cases "a = 0 \<or> b = 0")
  case True
  then show ?thesis by (auto simp: mulInt64Checked_def in_int64_def)
next
  case False
  define P where "P = sint a * sint b"
  have nz: "sint a \<noteq> 0" "sint b \<noteq> 0" using False by (simp_all add: signed_eq_0_iff)
  define hi lo where "hi = fst (bits_Mul64 (abs64 a) (abs64 b))" and "lo = snd (bits_Mul64 (abs64 a) (abs64 b))"
  have bound: "\<bar>sint w\<bar> \<le> 2 ^ 63" for w :: int64 using sint64_range [of w] by (simp add: in_int64_def abs_le_iff)
  have "\<bar>P\<bar> \<le> 2 ^ 63 * 2 ^ 63" using mult_mono [OF bound bound, of a b] by (simp add: P_def abs_mult mult.commute)
  then have hib: "0 \<le> \<bar>P\<bar> div 2 ^ 64" "\<bar>P\<bar> div 2 ^ 64 < 2 ^ 64" by simp_all
  have hi: "uint hi = \<bar>P\<bar> div 2 ^ 64"
    using hib by (simp add: hi_def bits_Mul64_def uint_abs64 P_def abs_mult uint_word_of_int take_bit_eq_mod)
  have lo: "uint lo = \<bar>P\<bar> mod 2 ^ 64"
    by (simp add: lo_def bits_Mul64_def uint_word_ariths uint_abs64 P_def abs_mult)
  have hi0: "hi = 0 \<longleftrightarrow> \<bar>P\<bar> < 2 ^ 64"
    using hi zdiv_eq_0_iff [of "\<bar>P\<bar>" "2 ^ 64"] by (auto simp: word_uint_eq_iff)
  have neg: "((a <s 0) \<noteq> (b <s 0)) \<longleftrightarrow> P < 0"
    using nz by (auto simp: word_sless_alt P_def mult_less_0_iff)
  have P0: "P \<noteq> 0" using nz by (simp add: P_def)
  have unfolded: "mulInt64Checked a b = (if hi \<noteq> 0 then Inl ErrAmountOverflow
      else if P < 0 then (if lo > 2 ^ 63 then Inl ErrAmountOverflow else if lo = 2 ^ 63 then Inr (word_of_int (- (2 ^ 63))) else Inr (- lo))
      else if lo > 2 ^ 63 - 1 then Inl ErrAmountOverflow else Inr lo)"
    using False neg by (simp add: mulInt64Checked_def hi_def lo_def split_beta Let_def)
  show ?thesis
  proof (cases "\<bar>P\<bar> < 2 ^ 64")
    case False
    then show ?thesis using unfolded hi0 by (auto simp: in_int64_def P_def [symmetric])
  next
    case True
    then have lo': "uint lo = \<bar>P\<bar>" using lo by (simp add: mod_pos_pos_trivial)
    then have low: "lo = word_of_int \<bar>P\<bar>" by (metis word_of_int_uint)
    have gt: "lo > 2 ^ 63 \<longleftrightarrow> \<bar>P\<bar> > 2 ^ 63" "lo > 2 ^ 63 - 1 \<longleftrightarrow> \<bar>P\<bar> > 2 ^ 63 - 1" "lo = 2 ^ 63 \<longleftrightarrow> \<bar>P\<bar> = 2 ^ 63"
      by (simp_all add: word_less_def word_uint_eq_iff lo')
    have h0: "(hi \<noteq> 0) = False" using hi0 True by simp
    show ?thesis
    proof (cases "P < 0")
      case neg: True
      then have P: "\<bar>P\<bar> = - P" by simp
      have m: "- lo = word_of_int P" using low P by simp
      have r: "mulInt64Checked a b = (if - P > 2 ^ 63 then Inl ErrAmountOverflow
          else if - P = 2 ^ 63 then Inr (word_of_int (- (2 ^ 63))) else Inr (word_of_int P))"
        using unfolded unfolding h0 gt P m by (simp only: neg if_True if_False)
      show ?thesis
      proof (cases "- P = 2 ^ 63")
        case True
        then have e: "P = - (2 ^ 63)" by simp
        show ?thesis unfolding r P_def [symmetric] e by (simp add: in_int64_def)
      next
        case False
        then show ?thesis using neg unfolding r P_def [symmetric] by (auto simp: in_int64_def)
      qed
    next
      case pos: False
      then have P: "\<bar>P\<bar> = P" by simp
      have l: "lo = word_of_int P" using low P by simp
      have r: "mulInt64Checked a b = (if P > 2 ^ 63 - 1 then Inl ErrAmountOverflow else Inr (word_of_int P))"
        using unfolded gt P l pos unfolding h0 by (simp only: if_False)
      show ?thesis using pos unfolding r P_def [symmetric] by (auto simp: in_int64_def)
    qed
  qed
qed

lemma addInt64Checked_exact:
  "addInt64Checked a b = (if in_int64 (sint a + sint b) then Inr (word_of_int (sint a + sint b)) else Inl ErrAmountOverflow)"
proof -
  define S where "S = sint a + sint b"
  have b: "- (2 ^ 64) \<le> S" "S < 2 ^ 64 - 1"
    using sint64_range [of a] sint64_range [of b] by (simp_all add: in_int64_def S_def)
  have s: "sint (a + b) = (S + 2 ^ 63) mod 2 ^ 64 - 2 ^ 63"
    using int_word_sint [of S, where 'a = 64] by (simp add: S_def)
  have m: "(S + 2 ^ 63) mod 2 ^ 64 = (if S < - (2 ^ 63) then S + 2 ^ 63 + 2 ^ 64 else if S < 2 ^ 63 then S + 2 ^ 63 else S - 2 ^ 63)"
    using b mod_add_self2 [of "S - 2 ^ 63" "2 ^ 64"] mod_add_self2 [of "S + 2 ^ 63" "2 ^ 64"]
    by (auto simp: mod_pos_pos_trivial add.commute)
  have sum: "sint (a + b) = (if S < - (2 ^ 63) then S + 2 ^ 64 else if S < 2 ^ 63 then S else S - 2 ^ 64)"
    unfolding s m by simp
  have w: "word_of_int (sint a + sint b) = a + b" by simp
  have ranges: "- (2 ^ 63) \<le> sint a" "sint a < 2 ^ 63" "- (2 ^ 63) \<le> sint b" "sint b < 2 ^ 63"
    using sint64_range [of a] sint64_range [of b] by (simp_all add: in_int64_def)
  show ?thesis
    using ranges unfolding addInt64Checked_def Let_def word_sless_alt word_sle_eq w sum in_int64_def
    by (auto simp: S_def split: if_splits)
qed

section \<open>Amounts\<close>

record Money =
  AmountMicros :: int64
  CurrencyCode :: string

definition zeroMoney :: Money where
  "zeroMoney = \<lparr>AmountMicros = 0, CurrencyCode = ''''\<rparr>"

definition MicrosPerUnit :: int64 where "MicrosPerUnit = 1000000"
definition MicrosPerCent :: int64 where "MicrosPerCent = 10000"
definition MaxQuantityPerRecord :: int64 where "MaxQuantityPerRecord = 1000000000000"

definition IsZero :: "Money \<Rightarrow> bool" where
  "IsZero m \<longleftrightarrow> AmountMicros m = 0"

definition Add :: "Money \<Rightarrow> Money \<Rightarrow> goerr + Money" where
  "Add m other =
     (if CurrencyCode m = '''' then Inr other
      else if CurrencyCode other = '''' \<and> AmountMicros other = 0 then Inr m
      else if CurrencyCode m \<noteq> CurrencyCode other then Inl ErrCurrencyMismatch
      else case addInt64Checked (AmountMicros m) (AmountMicros other) of
        Inl err \<Rightarrow> Inl err
      | Inr s \<Rightarrow> Inr \<lparr>AmountMicros = s, CurrencyCode = CurrencyCode m\<rparr>)"

text \<open>The quotient of signed integers truncates toward zero.\<close>

definition quot64 :: "int64 \<Rightarrow> int64 \<Rightarrow> int64" where
  "quot64 a b = word_of_int (sint a sdiv sint b)"

definition RoundToCents :: "Money \<Rightarrow> Money" where
  "RoundToCents m = (let micros = AmountMicros m; half = quot64 MicrosPerCent 2;
       rounded = (if 0 \<le>s micros then quot64 (micros + half) MicrosPerCent * MicrosPerCent
                  else quot64 (micros - half) MicrosPerCent * MicrosPerCent)
     in \<lparr>AmountMicros = rounded, CurrencyCode = CurrencyCode m\<rparr>)"

text \<open>A text all of whose characters are upper-case letters is its own \<^verbatim>\<open>strings.ToUpper\<close>.\<close>

definition IsValidCurrencyCode :: "string \<Rightarrow> bool" where
  "IsValidCurrencyCode s \<longleftrightarrow> length s = 3 \<and> list_all (\<lambda>c. let n = (of_char c :: nat) in 65 \<le> n \<and> n \<le> 90) s"

section \<open>Sums of amounts\<close>

text \<open>The loop that adds amounts from the zero amount, as \<^verbatim>\<open>GetUsage\<close> and \<^verbatim>\<open>GenerateInvoice\<close> run it.\<close>

fun addAll :: "Money \<Rightarrow> Money list \<Rightarrow> goerr + Money" where
  "addAll acc [] = Inr acc"
| "addAll acc (m # ms) = (case Add acc m of Inl err \<Rightarrow> Inl err | Inr acc' \<Rightarrow> addAll acc' ms)"

lemma sint64_add: "in_int64 (sint a + sint b) \<Longrightarrow> sint (a + b :: int64) = sint a + sint b"
  using sint64_of_int [of "sint a + sint b"] by simp

lemma sint64_diff: "in_int64 (sint a - sint b) \<Longrightarrow> sint (a - b :: int64) = sint a - sint b"
  using sint64_of_int [of "sint a - sint b"] by simp

lemma sint64_mult: "in_int64 (sint a * sint b) \<Longrightarrow> sint (a * b :: int64) = sint a * sint b"
  using sint64_of_int [of "sint a * sint b"] by simp

lemma Add_same:
  assumes "CurrencyCode m = c" "CurrencyCode n = c" "c \<noteq> ''''"
  shows "Add m n = (if in_int64 (sint (AmountMicros m) + sint (AmountMicros n))
     then Inr \<lparr>AmountMicros = word_of_int (sint (AmountMicros m) + sint (AmountMicros n)), CurrencyCode = c\<rparr> else Inl ErrAmountOverflow)"
  using assms by (auto simp: Add_def addInt64Checked_exact)

lemma Add_mismatch:
  "CurrencyCode m \<noteq> '''' \<Longrightarrow> CurrencyCode n \<noteq> '''' \<Longrightarrow> CurrencyCode m \<noteq> CurrencyCode n \<Longrightarrow> Add m n = Inl ErrCurrencyMismatch"
  by (simp add: Add_def)

lemma addAll_exact:
  assumes "addAll acc ms = Inr t" "CurrencyCode acc \<noteq> ''''" "\<forall>m \<in> set ms. CurrencyCode m \<noteq> ''''"
  shows "CurrencyCode t = CurrencyCode acc \<and> (\<forall>m \<in> set ms. CurrencyCode m = CurrencyCode acc)
     \<and> sint (AmountMicros t) = sint (AmountMicros acc) + sum_list (map (sint \<circ> AmountMicros) ms)"
  using assms
proof (induction ms arbitrary: acc)
  case (Cons m ms)
  have same: "CurrencyCode m = CurrencyCode acc"
    using Cons.prems by (cases "CurrencyCode m = CurrencyCode acc") (simp_all add: Add_mismatch)
  show ?case
  proof (cases "in_int64 (sint (AmountMicros acc) + sint (AmountMicros m))")
    case True
    then have "Add acc m = Inr \<lparr>AmountMicros = word_of_int (sint (AmountMicros acc) + sint (AmountMicros m)), CurrencyCode = CurrencyCode acc\<rparr>"
      using Add_same [OF refl same] Cons.prems by simp
    then show ?thesis using Cons.IH [of "\<lparr>AmountMicros = word_of_int (sint (AmountMicros acc) + sint (AmountMicros m)), CurrencyCode = CurrencyCode acc\<rparr>"]
        Cons.prems same True by (simp add: sint64_add)
  next
    case False
    then show ?thesis using Add_same [OF refl same] Cons.prems by simp
  qed
qed simp

lemma addAll_zero:
  assumes "addAll zeroMoney ms = Inr t" "ms \<noteq> []" "\<forall>m \<in> set ms. CurrencyCode m \<noteq> ''''"
  shows "CurrencyCode t \<noteq> '''' \<and> (\<forall>m \<in> set ms. CurrencyCode m = CurrencyCode t)
     \<and> sint (AmountMicros t) = sum_list (map (sint \<circ> AmountMicros) ms)"
proof (cases ms)
  case (Cons m rest)
  then have "addAll m rest = Inr t" using assms(1) by (simp add: Add_def zeroMoney_def)
  from addAll_exact [OF this] show ?thesis using Cons assms(3) by auto
qed (use assms in simp)

section \<open>Rounding\<close>

definition nearest_cent :: "int \<Rightarrow> int \<Rightarrow> bool" where
  "nearest_cent m r \<longleftrightarrow> 10000 dvd r \<and> \<bar>r - m\<bar> \<le> 5000 \<and> (\<bar>r - m\<bar> = 5000 \<longrightarrow> \<bar>m\<bar> < \<bar>r\<bar>)"

lemma nearest_cent_unique: "nearest_cent m r \<Longrightarrow> nearest_cent m s \<Longrightarrow> r = s"
proof (elim nearest_cent_def [THEN iffD1, THEN conjE] conjE dvdE)
  fix k l assume a: "\<bar>r - m\<bar> \<le> 5000" "\<bar>s - m\<bar> \<le> 5000" "\<bar>r - m\<bar> = 5000 \<longrightarrow> \<bar>m\<bar> < \<bar>r\<bar>" "\<bar>s - m\<bar> = 5000 \<longrightarrow> \<bar>m\<bar> < \<bar>s\<bar>"
    and rs: "r = 10000 * k" "s = 10000 * l"
  have "k = l \<or> k = l + 1 \<or> l = k + 1" using a(1,2) rs by linarith
  then show "r = s" using a rs by auto
qed

lemma nearest_cent_up:
  assumes "0 \<le> x"
  shows "nearest_cent x ((x + 5000) div 10000 * 10000)"
proof -
  define q r where "q = (x + 5000) div 10000 * 10000" and "r = (x + 5000) mod 10000"
  have "q + r = x + 5000" "0 \<le> r" "r < 10000" by (simp_all add: q_def r_def)
  then have "\<bar>q - x\<bar> \<le> 5000" "\<bar>q - x\<bar> = 5000 \<longrightarrow> \<bar>x\<bar> < \<bar>q\<bar>" using assms by linarith+
  then show ?thesis by (simp add: nearest_cent_def q_def)
qed

lemma nearest_cent_neg: "nearest_cent x y \<Longrightarrow> nearest_cent (- x) (- y)"
  by (auto simp: nearest_cent_def)

lemma RoundToCents_nearest:
  assumes "\<bar>sint (AmountMicros m)\<bar> < 2 ^ 63 - 5000"
  shows "nearest_cent (sint (AmountMicros m)) (sint (AmountMicros (RoundToCents m)))"
    and "CurrencyCode (RoundToCents m) = CurrencyCode m"
proof -
  define x where "x = sint (AmountMicros m)"
  have c: "sint MicrosPerCent = 10000" by (simp add: MicrosPerCent_def)
  have h: "quot64 MicrosPerCent 2 = 5000" by (simp add: quot64_def c signed_divide_int_def)
  have q: "sint (quot64 w MicrosPerCent * MicrosPerCent) = (sint w sdiv 10000) * 10000" for w :: int64
  proof -
    have "\<bar>sint w\<bar> div 10000 * 10000 \<le> \<bar>sint w\<bar>"
      using div_mult_mod_eq [of "\<bar>sint w\<bar>" 10000] pos_mod_sign [of 10000 "\<bar>sint w\<bar>"] by linarith
    then have k: "\<bar>sint w sdiv 10000 * 10000\<bar> \<le> \<bar>sint w\<bar>"
      by (simp add: signed_divide_int_def abs_mult abs_sgn_eq)
    have w: "in_int64 (sint w)" by simp
    have "in_int64 (sint w sdiv 10000 * 10000)" using k w
      by (cases "0 \<le> sint w") (auto simp: in_int64_def signed_divide_int_def sgn_if abs_le_iff zero_le_mult_iff split: if_splits)
    moreover have "quot64 w MicrosPerCent * MicrosPerCent = word_of_int (sint w sdiv 10000 * 10000)"
      by (simp add: quot64_def c MicrosPerCent_def)
    ultimately show ?thesis by (metis sint64_of_int)
  qed
  have "nearest_cent x (sint (AmountMicros (RoundToCents m)))"
  proof (cases "0 \<le> x")
    case True
    then have "sint (AmountMicros m + 5000) = x + 5000" using assms by (subst sint64_add) (simp_all add: x_def in_int64_def)
    then have "sint (AmountMicros (RoundToCents m)) = ((x + 5000) div 10000) * 10000"
      using True q [of "AmountMicros m + 5000"] by (simp add: RoundToCents_def h word_sle_eq x_def signed_divide_int_def Let_def)
    moreover have "nearest_cent x (((x + 5000) div 10000) * 10000)" using True by (rule nearest_cent_up)
    ultimately show ?thesis by simp
  next
    case False
    then have "sint (AmountMicros m - 5000) = x - 5000" using assms by (subst sint64_diff) (simp_all add: x_def in_int64_def)
    then have "sint (AmountMicros (RoundToCents m)) = - ((5000 - x) div 10000) * 10000"
      using False q [of "AmountMicros m - 5000"] by (simp add: RoundToCents_def h word_sle_eq x_def signed_divide_int_def Let_def)
    moreover have "nearest_cent x (- ((5000 - x) div 10000) * 10000)" using False nearest_cent_neg [OF nearest_cent_up [of "- x"]] by simp
    ultimately show ?thesis by simp
  qed
  then show "nearest_cent (sint (AmountMicros m)) (sint (AmountMicros (RoundToCents m)))" by (simp add: x_def)
qed (simp add: RoundToCents_def Let_def)

end

