(* ===== verification/BillingModel.thy ===== *)
theory BillingModel
  imports BillingMoney
begin

text \<open>
  The data of the billing service (\<^verbatim>\<open>domain/models.go\<close>, \<^verbatim>\<open>domain/ports.go\<close>,
  \<^verbatim>\<open>domain/billing_service.go\<close>): meters, rate plans, usage records, invoices, the events of the
  transactional outbox, the inputs and results of the operations, and the three storage ports as one record
  of operations on one database state. Go's maps are association lists in an order of their iteration. The
  calendar is the part of \<^verbatim>\<open>time\<close> the service uses: the year and the month of an instant in UTC.
\<close>

section \<open>Meters\<close>

type_synonym MeterType = string

definition MeterTypeUnspecified :: MeterType where "MeterTypeUnspecified = ''''"
definition MeterTypeInferenceRequest :: MeterType where "MeterTypeInferenceRequest = ''INFERENCE_REQUEST''"
definition MeterTypeInferenceTokens :: MeterType where "MeterTypeInferenceTokens = ''INFERENCE_TOKENS''"
definition MeterTypeComputeSeconds :: MeterType where "MeterTypeComputeSeconds = ''COMPUTE_SECONDS''"
definition MeterTypeStorageBytes :: MeterType where "MeterTypeStorageBytes = ''STORAGE_BYTES''"

lemmas meter_defs = MeterTypeUnspecified_def MeterTypeInferenceRequest_def MeterTypeInferenceTokens_def
  MeterTypeComputeSeconds_def MeterTypeStorageBytes_def

definition IsBillable :: "MeterType \<Rightarrow> bool" where
  "IsBillable mt \<longleftrightarrow> mt \<in> {MeterTypeInferenceRequest, MeterTypeInferenceTokens, MeterTypeComputeSeconds, MeterTypeStorageBytes}"

text \<open>Reading a map at a key: the value, or the zero value of its type.\<close>

definition map_get :: "('k \<times> 'v) list \<Rightarrow> 'k \<Rightarrow> 'v \<Rightarrow> 'v" where
  "map_get m k zero = (case map_of m k of Some v \<Rightarrow> v | None \<Rightarrow> zero)"

section \<open>Rate plans\<close>

record RatePlan =
  rp_ID :: string
  rp_Name :: string
  rp_UnitPrices :: "(MeterType \<times> Money) list"
  rp_IncludedQuantities :: "(MeterType \<times> int64) list"
  rp_QuotaLimits :: "(MeterType \<times> int64) list"
  rp_CreatedAt :: time

definition Currency :: "RatePlan \<Rightarrow> string" where
  "Currency p = (case rp_UnitPrices p of [] \<Rightarrow> '''' | (mt, price) # rest \<Rightarrow> CurrencyCode price)"

definition PriceFor :: "RatePlan \<Rightarrow> MeterType \<Rightarrow> Money option" where
  "PriceFor p mt = map_of (rp_UnitPrices p) mt"

section \<open>Usage records and invoices\<close>

record UsageRecord =
  ur_ID :: string
  ur_Team :: string
  ur_RatePlanID :: string
  ur_MeterType :: MeterType
  ur_Quantity :: int64
  ur_Cost :: Money
  ur_ModelID :: string
  ur_ModelVersion :: string
  ur_SourceRequestID :: string
  ur_IdempotencyKey :: string
  ur_OccurredAt :: time
  ur_CreatedAt :: time

datatype InvoiceStatus = InvoiceStatusUnspecified | InvoiceStatusDraft | InvoiceStatusFinalized | InvoiceStatusPaid
  | InvoiceStatusOverdue | InvoiceStatusVoid

record InvoiceLineItem =
  li_MeterType :: MeterType
  li_Description :: string
  li_Quantity :: int64
  li_UnitPrice :: Money
  li_Amount :: Money

record Invoice =
  iv_ID :: string
  iv_InvoiceNumber :: string
  iv_Team :: string
  iv_RatePlanID :: string
  iv_Status :: InvoiceStatus
  iv_PeriodStart :: time
  iv_PeriodEnd :: time
  iv_LineItems :: "InvoiceLineItem list"
  iv_Total :: Money
  iv_CreatedAt :: time
  iv_FinalizedAt :: "time option"
  iv_DueAt :: "time option"

record MeterUsage =
  mu_MeterType :: MeterType
  mu_TotalQuantity :: int64
  mu_TotalCost :: Money

record UsageSummary =
  su_Team :: string
  su_PeriodStart :: time
  su_PeriodEnd :: time
  su_ByMeter :: "MeterType \<rightharpoonup> MeterUsage"
  su_TotalCost :: Money

section \<open>The outbox\<close>

definition EventTypeUsageRecorded :: string where "EventTypeUsageRecorded = ''fp.billing.usage.recorded''"
definition EventTypeQuotaExceeded :: string where "EventTypeQuotaExceeded = ''fp.billing.quota.exceeded''"
definition EventTypeInvoiceGenerated :: string where "EventTypeInvoiceGenerated = ''fp.billing.invoice.generated''"

lemmas event_type_defs = EventTypeUsageRecorded_def EventTypeQuotaExceeded_def EventTypeInvoiceGenerated_def

record UsageRecordedPayload =
  up_RecordID :: string
  up_Team :: string
  up_RatePlanID :: string
  up_MeterType :: MeterType
  up_Quantity :: int64
  up_CostMicros :: int64
  up_CurrencyCode :: string
  up_ModelID :: string
  up_ModelVersion :: string
  up_SourceRequestID :: string
  up_OccurredAt :: time

record QuotaExceededPayload =
  qp_Team :: string
  qp_RatePlanID :: string
  qp_MeterType :: MeterType
  qp_QuotaLimit :: int64
  qp_CurrentUsage :: int64
  qp_OccurredAt :: time

record InvoiceGeneratedPayload =
  ip_InvoiceID :: string
  ip_InvoiceNumber :: string
  ip_Team :: string
  ip_RatePlanID :: string
  ip_PeriodStart :: time
  ip_PeriodEnd :: time
  ip_TotalMicros :: int64
  ip_CurrencyCode :: string
  ip_FinalizedAt :: time

datatype OutboxPayload = UsageRecordedP UsageRecordedPayload | QuotaExceededP QuotaExceededPayload
  | InvoiceGeneratedP InvoiceGeneratedPayload

fun EventType :: "OutboxPayload \<Rightarrow> string" where
  "EventType (UsageRecordedP p) = EventTypeUsageRecorded"
| "EventType (QuotaExceededP p) = EventTypeQuotaExceeded"
| "EventType (InvoiceGeneratedP p) = EventTypeInvoiceGenerated"

record OutboxEvent =
  oe_ID :: string
  oe_AggregateID :: string
  oe_EventType :: string
  oe_Payload :: OutboxPayload
  oe_CreatedAt :: time
  oe_PublishedAt :: "time option"

section \<open>Inputs and results\<close>

record RecordUsageInput =
  ru_MeterType :: MeterType
  ru_Quantity :: int64
  ru_ModelID :: string
  ru_ModelVersion :: string
  ru_SourceRequestID :: string
  ru_OccurredAt :: time
  ru_IdempotencyKey :: string

record CreateRatePlanInput =
  cr_Name :: string
  cr_UnitPrices :: "(MeterType \<times> Money) list"
  cr_IncludedQuantities :: "(MeterType \<times> int64) list"
  cr_QuotaLimits :: "(MeterType \<times> int64) list"
  cr_IdempotencyKey :: string

record GetUsageInput =
  gu_Team :: string
  gu_PeriodStart :: time
  gu_PeriodEnd :: time
  gu_MeterFilter :: MeterType
  gu_PageSize :: int
  gu_PageToken :: string

record QuotaStatus =
  qs_Team :: string
  qs_RatePlanID :: string
  qs_MeterType :: MeterType
  qs_QuotaLimit :: int64
  qs_CurrentUsage :: int64
  qs_Remaining :: int64
  qs_Exceeded :: bool

record ListInvoicesOptions =
  lo_Team :: string
  lo_StatusFilter :: InvoiceStatus
  lo_PageSize :: int
  lo_PageToken :: string

section \<open>Ports\<close>

definition ErrRepoNotFound :: goerr where "ErrRepoNotFound = New ''repository: not found''"
definition ErrRepoDuplicate :: goerr where "ErrRepoDuplicate = New ''repository: duplicate key''"

text \<open>\<^verbatim>\<open>UsageStore\<close>, \<^verbatim>\<open>RatePlanStore\<close> and \<^verbatim>\<open>InvoiceStore\<close>, which share one database state.\<close>

record 's BillingStores =
  us_FindByIdempotencyKey :: "string \<Rightarrow> string \<Rightarrow> 's \<Rightarrow> (goerr + UsageRecord) \<times> 's"
  us_CurrentPeriodUsage :: "string \<Rightarrow> MeterType \<Rightarrow> time \<Rightarrow> 's \<Rightarrow> (goerr + int64) \<times> 's"
  us_RecordUsageTx :: "UsageRecord \<Rightarrow> OutboxEvent list \<Rightarrow> 's \<Rightarrow> (goerr + UsageRecord) \<times> 's"
  pl_CreatePlan :: "RatePlan \<Rightarrow> string \<Rightarrow> 's \<Rightarrow> (goerr + RatePlan) \<times> 's"
  pl_FindPlanByIdempotencyKey :: "string \<Rightarrow> 's \<Rightarrow> (goerr + RatePlan) \<times> 's"
  pl_GetPlan :: "string \<Rightarrow> 's \<Rightarrow> (goerr + RatePlan) \<times> 's"
  pl_ResolvePlanForTeam :: "string \<Rightarrow> 's \<Rightarrow> (goerr + RatePlan) \<times> 's"
  in_AggregateUsageForPeriod :: "string \<Rightarrow> time \<Rightarrow> time \<Rightarrow> 's \<Rightarrow> (goerr + MeterUsage list) \<times> 's"
  in_SaveInvoiceTx :: "Invoice \<Rightarrow> OutboxEvent \<Rightarrow> 's \<Rightarrow> (goerr + Invoice) \<times> 's"
  in_GetInvoice :: "string \<Rightarrow> 's \<Rightarrow> (goerr + Invoice) \<times> 's"
  in_ListInvoices :: "ListInvoicesOptions \<Rightarrow> 's \<Rightarrow> (goerr + Invoice list \<times> string) \<times> 's"

section \<open>The calendar\<close>

text \<open>
  The proleptic Gregorian calendar of package \<^verbatim>\<open>time\<close>. Days are counted from the first of January of year 1,
  the day of the zero time.
\<close>

definition a_day :: duration where
  "a_day = 86400 * second"

definition is_leap :: "int \<Rightarrow> bool" where
  "is_leap y \<longleftrightarrow> y mod 4 = 0 \<and> (y mod 100 \<noteq> 0 \<or> y mod 400 = 0)"

definition days_before_year :: "int \<Rightarrow> int" where
  "days_before_year y = 365 * (y - 1) + (y - 1) div 4 - (y - 1) div 100 + (y - 1) div 400"

definition year_of_day :: "int \<Rightarrow> int" where
  "year_of_day d = (let n400 = d div 146097; r400 = d mod 146097; n100 = min 3 (r400 div 36524); r100 = r400 - 36524 * n100;
       n4 = r100 div 1461; r4 = r100 mod 1461; n1 = min 3 (r4 div 365)
     in 400 * n400 + 100 * n100 + 4 * n4 + n1 + 1)"

definition month_starts :: "bool \<Rightarrow> int list" where
  "month_starts leap = (let l = (if leap then 1 else 0) in
     [0, 31, 59 + l, 90 + l, 120 + l, 151 + l, 181 + l, 212 + l, 243 + l, 273 + l, 304 + l, 334 + l])"

definition Year :: "time \<Rightarrow> int" where
  "Year t = year_of_day (t div a_day)"

text \<open>The first instant of the month of \<open>t\<close>: \<^verbatim>\<open>time.Date(t.Year(), t.Month(), 1, 0, 0, 0, 0, time.UTC)\<close>.\<close>

definition monthStart :: "time \<Rightarrow> time" where
  "monthStart t = (let d = t div a_day; y = year_of_day d; first = days_before_year y
     in (first + foldl max 0 (filter (\<lambda>m. m \<le> d - first) (month_starts (is_leap y)))) * a_day)"

text \<open>\<^verbatim>\<open>AddDate(0, 0, n)\<close> of an instant in UTC.\<close>

definition AddDays :: "time \<Rightarrow> int \<Rightarrow> time" where
  "AddDays t n = t + n * a_day"

lemma year_of_day_start:
  obtains k where "d = days_before_year (year_of_day d) + k" "0 \<le> k" "k \<le> 365"
proof -
  define a r where "a = d div 146097" and "r = d mod 146097"
  define b s where "b = min 3 (r div 36524)" and "s = r - 36524 * b"
  define c u where "c = s div 1461" and "u = s mod 1461"
  define e where "e = min 3 (u div 365)"
  have r: "0 \<le> r" "r < 146097" "d = 146097 * a + r" by (simp_all add: r_def a_def)
  have b: "0 \<le> b" "b \<le> 3" using r by (simp_all add: b_def)
  have rq: "36524 * (r div 36524) \<le> r" "r < 36524 * (r div 36524) + 36524"
    using div_mult_mod_eq [of r 36524] pos_mod_sign [of 36524 r] pos_mod_bound [of 36524 r] by linarith+
  have s: "0 \<le> s" "s \<le> 36524" using rq r unfolding s_def b_def by (auto simp: min_def)
  have u: "0 \<le> u" "u < 1461" "s = 1461 * c + u" by (simp_all add: u_def c_def)
  have c: "0 \<le> c" "c \<le> 24" using s u by linarith+
  have uq: "365 * (u div 365) \<le> u" "u < 365 * (u div 365) + 365"
    using div_mult_mod_eq [of u 365] pos_mod_sign [of 365 u] pos_mod_bound [of 365 u] by linarith+
  have e: "0 \<le> e" "e \<le> 3" using u by (simp_all add: e_def)
  have k: "0 \<le> u - 365 * e" "u - 365 * e \<le> 365" using uq u unfolding e_def by (auto simp: min_def)
  have y: "year_of_day d = 400 * a + 100 * b + 4 * c + e + 1"
    by (simp add: year_of_day_def Let_def a_def r_def b_def s_def c_def u_def e_def)
  define y1 where "y1 = 400 * a + 100 * b + 4 * c + e"
  have "y1 div 4 = 100 * a + 25 * b + c" "y1 div 100 = 4 * a + b" "y1 div 400 = a"
    using b c e by (auto simp: y1_def intro!: int_div_pos_eq)
  then have "days_before_year (year_of_day d) = 146097 * a + 36524 * b + 1461 * c + 365 * e"
    by (simp add: days_before_year_def y y1_def [symmetric]) (simp add: y1_def)
  then have "d = days_before_year (year_of_day d) + (u - 365 * e)" using r u by (simp add: s_def)
  with k that show thesis by blast
qed

lemma last_start_near:
  assumes "sorted (a # xs)" "successively (\<lambda>x y. y \<le> x + g) (a # xs)" "a \<le> k" "k < last (a # xs) + g"
  shows "foldl max a (filter (\<lambda>m. m \<le> k) xs) \<le> k \<and> k < foldl max a (filter (\<lambda>m. m \<le> k) xs) + (g :: int)"
  using assms
proof (induction xs arbitrary: a)
  case (Cons x xs)
  show ?case
  proof (cases "x \<le> k")
    case True
    then show ?thesis using Cons.IH [of x] Cons.prems by (simp add: max_def)
  next
    case False
    then have "filter (\<lambda>m. m \<le> k) xs = []" using Cons.prems by (force simp: filter_empty_conv)
    then show ?thesis using False Cons.prems by simp
  qed
qed simp

lemma month_starts_near:
  "0 \<le> k \<Longrightarrow> k \<le> 365 \<Longrightarrow>
   foldl max 0 (filter (\<lambda>m. m \<le> k) (month_starts l)) \<le> k \<and> k < foldl max 0 (filter (\<lambda>m. m \<le> k) (month_starts l)) + 32"
  by (rule last_start_near) (simp_all add: month_starts_def Let_def)

lemma monthStart_near: "monthStart t \<le> t \<and> t < monthStart t + 32 * a_day"
proof -
  obtain k where k: "t div a_day = days_before_year (year_of_day (t div a_day)) + k" "0 \<le> k" "k \<le> 365"
    by (rule year_of_day_start)
  define m where "m = foldl max 0 (filter (\<lambda>m. m \<le> k) (month_starts (is_leap (year_of_day (t div a_day)))))"
  have m: "m \<le> k" "k < m + 32" using month_starts_near [OF k(2,3)] by (simp_all add: m_def)
  have f: "t div a_day - days_before_year (year_of_day (t div a_day)) = k" using k(1) by simp
  have "monthStart t = (t div a_day - k + m) * a_day"
    unfolding monthStart_def Let_def f m_def [symmetric] using k(1) by simp
  moreover have "t div a_day * a_day \<le> t" "t < t div a_day * a_day + a_day"
    using div_mult_mod_eq [of t a_day] pos_mod_sign [of a_day t] pos_mod_bound [of a_day t] by (simp_all add: a_day_def second_def)
  moreover have "a_day * m \<le> a_day * k" "a_day * k \<le> a_day * m + a_day * 31"
    using m by (simp_all add: a_day_def second_def)
  ultimately have "a_day * m \<le> a_day * k" "a_day * k \<le> a_day * m + a_day * 31" "monthStart t = a_day * (t div a_day) - a_day * k + a_day * m"
      "a_day * (t div a_day) \<le> t" "t < a_day * (t div a_day) + a_day"
    by (simp_all add: algebra_simps)
  then show ?thesis by linarith
qed

end
