(* ===== verification/BillingService.thy ===== *)
theory BillingService
  imports BillingModel
begin

text \<open>
  The operations of the billing service (\<^verbatim>\<open>domain/billing_service_impl.go\<close>). An operation takes the ports
  as a record and threads one state through its calls: the database behind the three stores and the
  positions of the clock and of the id generator. Times are instants in UTC, as the service's clock gives
  them. The rendering of times and durations in the text of an error is left out.
\<close>

section \<open>Ports and state\<close>

record 's billingService =
  bs_stores :: "'s BillingStores"
  bs_clock :: "nat \<Rightarrow> time"
  bs_ids :: "nat \<Rightarrow> string"

record 's billState =
  bl_db :: 's
  bl_ticks :: nat
  bl_ids :: nat

definition onStore :: "('s \<Rightarrow> 'a \<times> 's) \<Rightarrow> 's billState \<Rightarrow> 'a \<times> 's billState" where
  "onStore f s = (let (a, d) = f (bl_db s) in (a, s\<lparr>bl_db := d\<rparr>))"

definition Now :: "'s billingService \<Rightarrow> 's billState \<Rightarrow> time \<times> 's billState" where
  "Now P s = (bs_clock P (bl_ticks s), s\<lparr>bl_ticks := Suc (bl_ticks s)\<rparr>)"

definition NewID :: "'s billingService \<Rightarrow> 's billState \<Rightarrow> string \<times> 's billState" where
  "NewID P s = (bs_ids P (bl_ids s), s\<lparr>bl_ids := Suc (bl_ids s)\<rparr>)"

section \<open>Pricing\<close>

definition billableQuantity :: "int64 \<Rightarrow> int64 \<Rightarrow> int64 \<Rightarrow> int64" where
  "billableQuantity priorUsage quantity included =
     (if included \<le>s 0 then quantity
      else let remainingFree = included - priorUsage; remainingFree = (if remainingFree <s 0 then 0 else remainingFree)
        in if quantity \<le>s remainingFree then 0 else quantity - remainingFree)"

definition computeCost :: "RatePlan \<Rightarrow> MeterType \<Rightarrow> int64 \<Rightarrow> goerr + Money" where
  "computeCost plan meter billableQty = (case PriceFor plan meter of
     None \<Rightarrow> Inl (Wrapf '''' ErrUnknownMeter ('': meter '' @ quote meter @ '' not priced by plan '' @ rp_ID plan))
   | Some price \<Rightarrow> (case mulInt64Checked billableQty (AmountMicros price) of
        Inl err \<Rightarrow> Inl err
      | Inr amount \<Rightarrow> Inr \<lparr>AmountMicros = amount, CurrencyCode = CurrencyCode price\<rparr>))"

definition currentPeriodStart :: "'s billingService \<Rightarrow> 's billState \<Rightarrow> time \<times> 's billState" where
  "currentPeriodStart P s = (let (now, s1) = Now P s in (monthStart now, s1))"

definition clampOccurredAt :: "'s billingService \<Rightarrow> time \<Rightarrow> 's billState \<Rightarrow> time \<times> 's billState" where
  "clampOccurredAt P t s = (let (now, s1) = Now P s in
     if t = 0 \<or> t > now then (now, s1)
     else let (periodStart, s2) = currentPeriodStart P s1 in if t < periodStart then (periodStart, s2) else (t, s2))"

definition buildOutboxEvent :: "'s billingService \<Rightarrow> string \<Rightarrow> OutboxPayload \<Rightarrow> time \<Rightarrow> 's billState \<Rightarrow> OutboxEvent \<times> 's billState" where
  "buildOutboxEvent P aggregateID payload now s = (let (i, s1) = NewID P s in
     (\<lparr>oe_ID = i, oe_AggregateID = aggregateID, oe_EventType = EventType payload, oe_Payload = payload, oe_CreatedAt = now,
       oe_PublishedAt = None\<rparr>, s1))"

section \<open>Metering\<close>

definition usagePayload :: "UsageRecord \<Rightarrow> UsageRecordedPayload" where
  "usagePayload r = \<lparr>up_RecordID = ur_ID r, up_Team = ur_Team r, up_RatePlanID = ur_RatePlanID r, up_MeterType = ur_MeterType r,
     up_Quantity = ur_Quantity r, up_CostMicros = AmountMicros (ur_Cost r), up_CurrencyCode = CurrencyCode (ur_Cost r),
     up_ModelID = ur_ModelID r, up_ModelVersion = ur_ModelVersion r, up_SourceRequestID = ur_SourceRequestID r,
     up_OccurredAt = ur_OccurredAt r\<rparr>"

text \<open>Step 5: the record and its events, from the plan, the prior usage and the cost.\<close>

definition buildUsage :: "'s billingService \<Rightarrow> string \<Rightarrow> RecordUsageInput \<Rightarrow> RatePlan \<Rightarrow> int64 \<Rightarrow> int64 \<Rightarrow> Money \<Rightarrow> 's billState \<Rightarrow>
    (UsageRecord \<times> OutboxEvent list) \<times> 's billState" where
  "buildUsage P team inp plan priorUsage billableQty cost s =
     (let (occurredAt, s1) = clampOccurredAt P (ru_OccurredAt inp) s; (now, s2) = Now P s1; (rid, s3) = NewID P s2;
          r = \<lparr>ur_ID = rid, ur_Team = team, ur_RatePlanID = rp_ID plan, ur_MeterType = ru_MeterType inp, ur_Quantity = billableQty,
            ur_Cost = cost, ur_ModelID = ru_ModelID inp, ur_ModelVersion = ru_ModelVersion inp,
            ur_SourceRequestID = ru_SourceRequestID inp, ur_IdempotencyKey = ru_IdempotencyKey inp, ur_OccurredAt = occurredAt,
            ur_CreatedAt = now\<rparr>;
          (ev, s4) = buildOutboxEvent P rid (UsageRecordedP (usagePayload r)) now s3
      in case map_of (rp_QuotaLimits plan) (ru_MeterType inp) of
           None \<Rightarrow> ((r, [ev]), s4)
         | Some limit \<Rightarrow>
             if 0 <s limit \<and> limit \<le>s priorUsage + ru_Quantity inp \<and> priorUsage <s limit
             then let (qev, s5) = buildOutboxEvent P rid (QuotaExceededP \<lparr>qp_Team = team, qp_RatePlanID = rp_ID plan,
                    qp_MeterType = ru_MeterType inp, qp_QuotaLimit = limit, qp_CurrentUsage = priorUsage + ru_Quantity inp,
                    qp_OccurredAt = occurredAt\<rparr>) now s4 in ((r, [ev, qev]), s5)
             else ((r, [ev]), s4))"

text \<open>Step 6: the transaction, and the read of the winner when the key was taken meanwhile.\<close>

definition storeUsage :: "'s billingService \<Rightarrow> string \<Rightarrow> string \<Rightarrow> UsageRecord \<Rightarrow> OutboxEvent list \<Rightarrow> 's billState \<Rightarrow>
    (goerr + UsageRecord \<times> bool) \<times> 's billState" where
  "storeUsage P team key r events s = (case onStore (us_RecordUsageTx (bs_stores P) r events) s of
     (Inr stored, s1) \<Rightarrow> (Inr (stored, False), s1)
   | (Inl err, s1) \<Rightarrow>
       if errors_Is err ErrRepoDuplicate \<and> key \<noteq> ''''
       then (case onStore (us_FindByIdempotencyKey (bs_stores P) team key) s1 of
           (Inl rerr, s2) \<Rightarrow> (Inl (Wrapf ''resolving idempotency race: '' rerr ''''), s2)
         | (Inr winner, s2) \<Rightarrow> (Inr (winner, True), s2))
       else (Inl (Wrapf ''recording usage: '' err ''''), s1))"

definition recordFresh :: "'s billingService \<Rightarrow> string \<Rightarrow> RecordUsageInput \<Rightarrow> 's billState \<Rightarrow>
    (goerr + UsageRecord \<times> bool) \<times> 's billState" where
  "recordFresh P team inp s = (case onStore (pl_ResolvePlanForTeam (bs_stores P) team) s of
     (Inl err, s1) \<Rightarrow> if errors_Is err ErrRepoNotFound then (Inl ErrRatePlanNotFound, s1)
        else (Inl (Wrapf ''resolving rate plan: '' err ''''), s1)
   | (Inr plan, s1) \<Rightarrow>
       (let (periodStart, s2) = currentPeriodStart P s1 in
        case onStore (us_CurrentPeriodUsage (bs_stores P) team (ru_MeterType inp) periodStart) s2 of
          (Inl err, s3) \<Rightarrow> (Inl (Wrapf ''reading period usage: '' err ''''), s3)
        | (Inr priorUsage, s3) \<Rightarrow>
            (let billableQty = billableQuantity priorUsage (ru_Quantity inp) (map_get (rp_IncludedQuantities plan) (ru_MeterType inp) 0) in
             case computeCost plan (ru_MeterType inp) billableQty of
               Inl err \<Rightarrow> (Inl err, s3)
             | Inr cost \<Rightarrow> (let ((r, events), s4) = buildUsage P team inp plan priorUsage billableQty cost s3
                 in storeUsage P team (ru_IdempotencyKey inp) r events s4))))"

definition RecordUsage :: "'s billingService \<Rightarrow> string \<Rightarrow> RecordUsageInput \<Rightarrow> 's billState \<Rightarrow>
    (goerr + UsageRecord \<times> bool) \<times> 's billState" where
  "RecordUsage P team inp s =
     (if team = '''' then (Inl (Wrapf '''' ErrValidation '': server-authoritative team is empty''), s)
      else if \<not> IsBillable (ru_MeterType inp) then (Inl (Wrapf '''' ErrUnknownMeter ('': '' @ quote (ru_MeterType inp))), s)
      else if ru_Quantity inp <s 0 then (Inl ErrNegativeQuantity, s)
      else if MaxQuantityPerRecord <s ru_Quantity inp
        then (Inl (Wrapf '''' ErrQuantityTooLarge ('': '' @ itoa (sint (ru_Quantity inp)) @ '' > '' @ itoa (sint MaxQuantityPerRecord))), s)
      else if ru_IdempotencyKey inp \<noteq> ''''
        then (case onStore (us_FindByIdempotencyKey (bs_stores P) team (ru_IdempotencyKey inp)) s of
            (Inr existing, s1) \<Rightarrow> (Inr (existing, True), s1)
          | (Inl err, s1) \<Rightarrow> if \<not> errors_Is err ErrRepoNotFound then (Inl (Wrapf ''idempotency lookup: '' err ''''), s1)
              else recordFresh P team inp s1)
      else recordFresh P team inp s)"

section \<open>Rate plans\<close>

text \<open>The loop that checks the prices, with the currency seen so far.\<close>

fun checkPrices :: "string \<Rightarrow> (MeterType \<times> Money) list \<Rightarrow> goerr option" where
  "checkPrices planCurrency [] = None"
| "checkPrices planCurrency ((meter, price) # rest) =
     (if \<not> IsBillable meter then Some (Wrapf '''' ErrValidation ('': '' @ quote meter @ '' is not a valid meter type''))
      else if \<not> IsValidCurrencyCode (CurrencyCode price) then Some (Wrapf '''' ErrInvalidCurrency ('': '' @ quote (CurrencyCode price)))
      else if AmountMicros price <s 0 then Some (Wrapf '''' ErrValidation ('': price for '' @ quote meter @ '' is negative''))
      else if planCurrency = '''' then checkPrices (CurrencyCode price) rest
      else if CurrencyCode price \<noteq> planCurrency
        then Some (Wrapf '''' ErrCurrencyMismatch ('': plan mixes '' @ planCurrency @ '' and '' @ CurrencyCode price))
      else checkPrices planCurrency rest)"

definition createFresh :: "'s billingService \<Rightarrow> CreateRatePlanInput \<Rightarrow> 's billState \<Rightarrow> (goerr + RatePlan \<times> bool) \<times> 's billState" where
  "createFresh P inp s =
     (let (pid, s1) = NewID P s; (now, s2) = Now P s1;
          plan = \<lparr>rp_ID = pid, rp_Name = cr_Name inp, rp_UnitPrices = cr_UnitPrices inp,
            rp_IncludedQuantities = cr_IncludedQuantities inp, rp_QuotaLimits = cr_QuotaLimits inp, rp_CreatedAt = now\<rparr>
      in case onStore (pl_CreatePlan (bs_stores P) plan (cr_IdempotencyKey inp)) s2 of
           (Inr stored, s3) \<Rightarrow> (Inr (stored, False), s3)
         | (Inl err, s3) \<Rightarrow>
             if errors_Is err ErrRepoDuplicate \<and> cr_IdempotencyKey inp \<noteq> ''''
             then (case onStore (pl_FindPlanByIdempotencyKey (bs_stores P) (cr_IdempotencyKey inp)) s3 of
                 (Inl rerr, s4) \<Rightarrow> (Inl (Wrapf ''resolving rate-plan race: '' rerr ''''), s4)
               | (Inr winner, s4) \<Rightarrow> (Inr (winner, True), s4))
             else (Inl (Wrapf ''creating rate plan: '' err ''''), s3))"

definition CreateRatePlan :: "'s billingService \<Rightarrow> CreateRatePlanInput \<Rightarrow> 's billState \<Rightarrow> (goerr + RatePlan \<times> bool) \<times> 's billState" where
  "CreateRatePlan P inp s =
     (if cr_UnitPrices inp = [] then (Inl (Wrapf '''' ErrValidation '': a plan must price at least one meter''), s)
      else case checkPrices '''' (cr_UnitPrices inp) of
        Some err \<Rightarrow> (Inl err, s)
      | None \<Rightarrow>
          if cr_IdempotencyKey inp \<noteq> ''''
          then (case onStore (pl_FindPlanByIdempotencyKey (bs_stores P) (cr_IdempotencyKey inp)) s of
              (Inr existing, s1) \<Rightarrow> (Inr (existing, True), s1)
            | (Inl err, s1) \<Rightarrow> if \<not> errors_Is err ErrRepoNotFound then (Inl (Wrapf ''rate-plan idempotency lookup: '' err ''''), s1)
                else createFresh P inp s1)
          else createFresh P inp s)"

definition GetRatePlan :: "'s billingService \<Rightarrow> string \<Rightarrow> 's billState \<Rightarrow> (goerr + RatePlan) \<times> 's billState" where
  "GetRatePlan P i s = (case onStore (pl_GetPlan (bs_stores P) i) s of
     (Inl err, s1) \<Rightarrow> if errors_Is err ErrRepoNotFound then (Inl ErrRatePlanNotFound, s1) else (Inl (Wrapf ''getting rate plan: '' err ''''), s1)
   | (Inr plan, s1) \<Rightarrow> (Inr plan, s1))"

section \<open>Quota\<close>

definition quotaStatus :: "string \<Rightarrow> RatePlan \<Rightarrow> MeterType \<Rightarrow> int64 \<Rightarrow> QuotaStatus" where
  "quotaStatus team plan meter usage =
     (let limit = map_get (rp_QuotaLimits plan) meter 0;
          status = \<lparr>qs_Team = team, qs_RatePlanID = rp_ID plan, qs_MeterType = meter, qs_QuotaLimit = limit, qs_CurrentUsage = usage,
            qs_Remaining = 0, qs_Exceeded = False\<rparr>
      in if 0 <s limit then status\<lparr>qs_Remaining := (if limit - usage <s 0 then 0 else limit - usage), qs_Exceeded := (limit \<le>s usage)\<rparr>
         else status)"

definition CheckQuota :: "'s billingService \<Rightarrow> string \<Rightarrow> MeterType \<Rightarrow> 's billState \<Rightarrow> (goerr + QuotaStatus) \<times> 's billState" where
  "CheckQuota P team meter s =
     (if team = '''' then (Inl (Wrapf '''' ErrValidation '': team is required''), s)
      else if \<not> IsBillable meter then (Inl (Wrapf '''' ErrUnknownMeter ('': '' @ quote meter)), s)
      else case onStore (pl_ResolvePlanForTeam (bs_stores P) team) s of
        (Inl err, s1) \<Rightarrow> if errors_Is err ErrRepoNotFound then (Inl ErrRatePlanNotFound, s1)
           else (Inl (Wrapf ''resolving rate plan: '' err ''''), s1)
      | (Inr plan, s1) \<Rightarrow>
          (let (periodStart, s2) = currentPeriodStart P s1 in
           case onStore (us_CurrentPeriodUsage (bs_stores P) team meter periodStart) s2 of
             (Inl err, s3) \<Rightarrow> (Inl (Wrapf ''reading period usage: '' err ''''), s3)
           | (Inr usage, s3) \<Rightarrow> (Inr (quotaStatus team plan meter usage), s3)))"

section \<open>Reports\<close>

definition MaxUsageWindow :: duration where
  "MaxUsageWindow = 366 * 24 * 3600 * second"

definition MaxPageSize :: int where "MaxPageSize = 100"
definition defaultPageSize :: int where "defaultPageSize = 20"

text \<open>\<^verbatim>\<open>end.Sub(start)\<close> saturates at the largest duration.\<close>

definition Sub :: "time \<Rightarrow> time \<Rightarrow> duration" where
  "Sub t u = max (- (2 ^ 63)) (min (2 ^ 63 - 1) (t - u))"

text \<open>The loop over the buckets: the buckets by meter and the total.\<close>

fun sumBuckets :: "MeterType \<Rightarrow> MeterUsage list \<Rightarrow> (MeterType \<rightharpoonup> MeterUsage) \<Rightarrow> Money \<Rightarrow> goerr + (MeterType \<rightharpoonup> MeterUsage) \<times> Money" where
  "sumBuckets flt [] byMeter tot = Inr (byMeter, tot)"
| "sumBuckets flt (b # bs) byMeter tot =
     (if flt \<noteq> MeterTypeUnspecified \<and> mu_MeterType b \<noteq> flt then sumBuckets flt bs byMeter tot
      else case Add tot (mu_TotalCost b) of
        Inl err \<Rightarrow> Inl (Wrapf ''summing usage cost: '' err '''')
      | Inr tot' \<Rightarrow> sumBuckets flt bs (byMeter(mu_MeterType b \<mapsto> b)) tot')"

definition GetUsage :: "'s billingService \<Rightarrow> GetUsageInput \<Rightarrow> 's billState \<Rightarrow>
    (goerr + UsageSummary list \<times> Money \<times> string) \<times> 's billState" where
  "GetUsage P inp s =
     (if gu_Team inp = '''' then (Inl (Wrapf '''' ErrValidation '': team is required''), s)
      else let (start, s1) = (if gu_PeriodStart inp = 0 then currentPeriodStart P s else (gu_PeriodStart inp, s));
               (stop, s2) = (if gu_PeriodEnd inp = 0 then Now P s1 else (gu_PeriodEnd inp, s1))
        in if \<not> stop > start then (Inl (Wrapf '''' ErrInvalidPeriod '': end must be after start''), s2)
           else if Sub stop start > MaxUsageWindow then (Inl (Wrapf '''' ErrInvalidPeriod '': window exceeds max''), s2)
           else case onStore (in_AggregateUsageForPeriod (bs_stores P) (gu_Team inp) start stop) s2 of
             (Inl err, s3) \<Rightarrow> (Inl (Wrapf ''aggregating usage: '' err ''''), s3)
           | (Inr buckets, s3) \<Rightarrow> (case sumBuckets (gu_MeterFilter inp) buckets Map.empty zeroMoney of
                Inl err \<Rightarrow> (Inl err, s3)
              | Inr (byMeter, grandTotal) \<Rightarrow>
                  (Inr ([\<lparr>su_Team = gu_Team inp, su_PeriodStart = start, su_PeriodEnd = stop, su_ByMeter = byMeter,
                     su_TotalCost = grandTotal\<rparr>], grandTotal, ''''), s3)))"

definition GetInvoice :: "'s billingService \<Rightarrow> string \<Rightarrow> 's billState \<Rightarrow> (goerr + Invoice) \<times> 's billState" where
  "GetInvoice P i s = (case onStore (in_GetInvoice (bs_stores P) i) s of
     (Inl err, s1) \<Rightarrow> if errors_Is err ErrRepoNotFound then (Inl ErrInvoiceNotFound, s1) else (Inl (Wrapf ''getting invoice: '' err ''''), s1)
   | (Inr iv, s1) \<Rightarrow> (Inr iv, s1))"

definition clampOptions :: "ListInvoicesOptions \<Rightarrow> ListInvoicesOptions" where
  "clampOptions opts = (if lo_PageSize opts \<le> 0 then opts\<lparr>lo_PageSize := defaultPageSize\<rparr>
     else if lo_PageSize opts > MaxPageSize then opts\<lparr>lo_PageSize := MaxPageSize\<rparr> else opts)"

definition ListInvoices :: "'s billingService \<Rightarrow> ListInvoicesOptions \<Rightarrow> 's billState \<Rightarrow> (goerr + Invoice list \<times> string) \<times> 's billState" where
  "ListInvoices P opts s =
     (if lo_Team opts = '''' then (Inl (Wrapf '''' ErrValidation '': team is required''), s)
      else case onStore (in_ListInvoices (bs_stores P) (clampOptions opts)) s of
        (Inl err, s1) \<Rightarrow> (Inl (Wrapf ''listing invoices: '' err ''''), s1)
      | (Inr page, s1) \<Rightarrow> (Inr page, s1))"

section \<open>Invoicing\<close>

definition lineDescription :: "MeterType \<Rightarrow> string" where
  "lineDescription mt =
     (if mt = MeterTypeInferenceRequest then ''Inference requests''
      else if mt = MeterTypeInferenceTokens then ''Inference tokens''
      else if mt = MeterTypeComputeSeconds then ''Compute seconds''
      else if mt = MeterTypeStorageBytes then ''Storage bytes'' else mt)"

definition invoiceNumber :: "'s billingService \<Rightarrow> time \<Rightarrow> 's billState \<Rightarrow> string \<times> 's billState" where
  "invoiceNumber P now s = (let (i, s1) = NewID P s in (''INV-'' @ itoa (Year now) @ ''-'' @ i, s1))"

definition lineItem :: "RatePlan \<Rightarrow> MeterUsage \<Rightarrow> InvoiceLineItem" where
  "lineItem plan b = \<lparr>li_MeterType = mu_MeterType b, li_Description = lineDescription (mu_MeterType b), li_Quantity = mu_TotalQuantity b,
     li_UnitPrice = (case PriceFor plan (mu_MeterType b) of Some price \<Rightarrow> price | None \<Rightarrow> zeroMoney), li_Amount = mu_TotalCost b\<rparr>"

fun sumLines :: "RatePlan \<Rightarrow> MeterUsage list \<Rightarrow> InvoiceLineItem list \<Rightarrow> Money \<Rightarrow> goerr + InvoiceLineItem list \<times> Money" where
  "sumLines plan [] items tot = Inr (items, tot)"
| "sumLines plan (b # bs) items tot = (case Add tot (mu_TotalCost b) of
     Inl err \<Rightarrow> Inl (Wrapf ''summing invoice total: '' err '''')
   | Inr tot' \<Rightarrow> sumLines plan bs (items @ [lineItem plan b]) tot')"

definition invoicePayload :: "Invoice \<Rightarrow> time \<Rightarrow> InvoiceGeneratedPayload" where
  "invoicePayload iv now = \<lparr>ip_InvoiceID = iv_ID iv, ip_InvoiceNumber = iv_InvoiceNumber iv, ip_Team = iv_Team iv,
     ip_RatePlanID = iv_RatePlanID iv, ip_PeriodStart = iv_PeriodStart iv, ip_PeriodEnd = iv_PeriodEnd iv,
     ip_TotalMicros = AmountMicros (iv_Total iv), ip_CurrencyCode = CurrencyCode (iv_Total iv), ip_FinalizedAt = now\<rparr>"

definition buildInvoice :: "'s billingService \<Rightarrow> string \<Rightarrow> time \<Rightarrow> time \<Rightarrow> RatePlan \<Rightarrow> InvoiceLineItem list \<Rightarrow> Money \<Rightarrow> 's billState \<Rightarrow>
    (Invoice \<times> OutboxEvent) \<times> 's billState" where
  "buildInvoice P team periodStart periodEnd plan items tot s =
     (let (now, s1) = Now P s; dueAt = AddDays now 30; (iid, s2) = NewID P s1; (number, s3) = invoiceNumber P now s2;
          iv = \<lparr>iv_ID = iid, iv_InvoiceNumber = number, iv_Team = team, iv_RatePlanID = rp_ID plan, iv_Status = InvoiceStatusFinalized,
            iv_PeriodStart = periodStart, iv_PeriodEnd = periodEnd, iv_LineItems = items, iv_Total = tot, iv_CreatedAt = now,
            iv_FinalizedAt = Some now, iv_DueAt = Some dueAt\<rparr>;
          (ev, s4) = buildOutboxEvent P iid (InvoiceGeneratedP (invoicePayload iv now)) now s3
      in ((iv, ev), s4))"

definition GenerateInvoice :: "'s billingService \<Rightarrow> string \<Rightarrow> time \<Rightarrow> time \<Rightarrow> 's billState \<Rightarrow> (goerr + Invoice) \<times> 's billState" where
  "GenerateInvoice P team periodStart periodEnd s =
     (if team = '''' then (Inl (Wrapf '''' ErrValidation '': team is required''), s)
      else if \<not> periodEnd > periodStart then (Inl (Wrapf '''' ErrInvalidPeriod '': end must be after start''), s)
      else if Sub periodEnd periodStart > MaxUsageWindow then (Inl (Wrapf '''' ErrInvalidPeriod '': period exceeds max''), s)
      else case onStore (in_AggregateUsageForPeriod (bs_stores P) team periodStart periodEnd) s of
        (Inl err, s1) \<Rightarrow> (Inl (Wrapf ''aggregating period usage: '' err ''''), s1)
      | (Inr buckets, s1) \<Rightarrow>
          if buckets = [] then (Inl ErrNoUsage, s1)
          else (case onStore (pl_ResolvePlanForTeam (bs_stores P) team) s1 of
             (Inl err, s2) \<Rightarrow> if errors_Is err ErrRepoNotFound then (Inl ErrRatePlanNotFound, s2)
                else (Inl (Wrapf ''resolving rate plan: '' err ''''), s2)
           | (Inr plan, s2) \<Rightarrow> (case sumLines plan buckets [] zeroMoney of
                Inl err \<Rightarrow> (Inl err, s2)
              | Inr (items, tot) \<Rightarrow>
                  (let ((iv, ev), s3) = buildInvoice P team periodStart periodEnd plan items (RoundToCents tot) s2
                   in case onStore (in_SaveInvoiceTx (bs_stores P) iv ev) s3 of
                        (Inl err, s4) \<Rightarrow> (Inl (Wrapf ''saving invoice: '' err ''''), s4)
                      | (Inr stored, s4) \<Rightarrow> (Inr stored, s4)))))"

end
