(* ===== verification/BillingLedger.thy ===== *)
theory BillingLedger
  imports BillingService
begin

text \<open>
  What the billing service relies on in its stores (\<^verbatim>\<open>domain/ports.go\<close>), over the abstract contents of the
  database: the ledger of usage records, the outbox, the rate plans with their keys and teams, and the
  invoices. A write is committed whole or refused; between two calls of one replica others may commit
  writes of the same kinds. The contract is the locale \<open>bill_store\<close>.
\<close>

section \<open>Contents\<close>

record billView =
  bv_ledger :: "UsageRecord list"
  bv_outbox :: "OutboxEvent list"
  bv_plans :: "string \<rightharpoonup> RatePlan"
  bv_pkeys :: "string \<rightharpoonup> string"
  bv_teams :: "string \<rightharpoonup> string"
  bv_invoices :: "Invoice list"

text \<open>An entry as it reads back: the database keeps times with the precision \<open>pt\<close>.\<close>

definition usage_row :: "(time \<Rightarrow> time) \<Rightarrow> UsageRecord \<Rightarrow> UsageRecord" where
  "usage_row pt r = r\<lparr>ur_OccurredAt := pt (ur_OccurredAt r), ur_CreatedAt := pt (ur_CreatedAt r)\<rparr>"

definition event_row :: "(time \<Rightarrow> time) \<Rightarrow> OutboxEvent \<Rightarrow> OutboxEvent" where
  "event_row pt e = e\<lparr>oe_CreatedAt := pt (oe_CreatedAt e)\<rparr>"

definition plan_row :: "(time \<Rightarrow> time) \<Rightarrow> RatePlan \<Rightarrow> RatePlan" where
  "plan_row pt p = p\<lparr>rp_CreatedAt := pt (rp_CreatedAt p)\<rparr>"

definition invoice_row :: "(time \<Rightarrow> time) \<Rightarrow> Invoice \<Rightarrow> Invoice" where
  "invoice_row pt iv = iv\<lparr>iv_PeriodStart := pt (iv_PeriodStart iv), iv_PeriodEnd := pt (iv_PeriodEnd iv),
     iv_CreatedAt := pt (iv_CreatedAt iv), iv_FinalizedAt := map_option pt (iv_FinalizedAt iv), iv_DueAt := map_option pt (iv_DueAt iv)\<rparr>"

section \<open>Writes\<close>

datatype billWrite = WUsage UsageRecord "OutboxEvent list" | WInvoice Invoice OutboxEvent | WPlan RatePlan string
  | WAssign string string

definition keyed :: "billView \<Rightarrow> string \<Rightarrow> string \<Rightarrow> bool" where
  "keyed A team key \<longleftrightarrow> (\<exists>r \<in> set (bv_ledger A). ur_Team r = team \<and> ur_IdempotencyKey r = key)"

definition fresh_events :: "billView \<Rightarrow> OutboxEvent list \<Rightarrow> bool" where
  "fresh_events A evs \<longleftrightarrow> distinct (map oe_ID evs) \<and> set (map oe_ID evs) \<inter> set (map oe_ID (bv_outbox A)) = {}"

fun admits :: "billView \<Rightarrow> billWrite \<Rightarrow> bool" where
  "admits A (WUsage r evs) = (ur_ID r \<notin> ur_ID ` set (bv_ledger A)
     \<and> (ur_IdempotencyKey r \<noteq> '''' \<longrightarrow> \<not> keyed A (ur_Team r) (ur_IdempotencyKey r)) \<and> fresh_events A evs)"
| "admits A (WInvoice iv ev) = (iv_ID iv \<notin> iv_ID ` set (bv_invoices A) \<and> iv_InvoiceNumber iv \<notin> iv_InvoiceNumber ` set (bv_invoices A)
     \<and> fresh_events A [ev])"
| "admits A (WPlan p key) = (bv_plans A (rp_ID p) = None \<and> (key \<noteq> '''' \<longrightarrow> bv_pkeys A key = None))"
| "admits A (WAssign team pid) = (bv_plans A pid \<noteq> None)"

fun commit :: "(time \<Rightarrow> time) \<Rightarrow> billWrite \<Rightarrow> billView \<Rightarrow> billView" where
  "commit pt (WUsage r evs) A = A\<lparr>bv_ledger := bv_ledger A @ [usage_row pt r], bv_outbox := bv_outbox A @ map (event_row pt) evs\<rparr>"
| "commit pt (WInvoice iv ev) A = A\<lparr>bv_invoices := bv_invoices A @ [invoice_row pt iv], bv_outbox := bv_outbox A @ [event_row pt ev]\<rparr>"
| "commit pt (WPlan p key) A = A\<lparr>bv_plans := (bv_plans A)(rp_ID p \<mapsto> plan_row pt p),
     bv_pkeys := (if key = '''' then bv_pkeys A else (bv_pkeys A)(key \<mapsto> rp_ID p))\<rparr>"
| "commit pt (WAssign team pid) A = A\<lparr>bv_teams := (bv_teams A)(team \<mapsto> pid)\<rparr>"

text \<open>The writes the service makes: each record and each invoice comes with its own events, a plan has passed the checks.\<close>

definition own_event :: "string \<Rightarrow> OutboxEvent \<Rightarrow> bool" where
  "own_event agg e \<longleftrightarrow> oe_AggregateID e = agg \<and> oe_EventType e = EventType (oe_Payload e) \<and> oe_PublishedAt e = None"

definition plan_ok :: "RatePlan \<Rightarrow> bool" where
  "plan_ok p \<longleftrightarrow> rp_UnitPrices p \<noteq> [] \<and> checkPrices '''' (rp_UnitPrices p) = None"

definition record_ok :: "UsageRecord \<Rightarrow> bool" where
  "record_ok r \<longleftrightarrow> ur_Team r \<noteq> '''' \<and> IsBillable (ur_MeterType r) \<and> IsValidCurrencyCode (CurrencyCode (ur_Cost r))
     \<and> 0 \<le> sint (ur_Quantity r) \<and> sint (ur_Quantity r) \<le> 1000000000000 \<and> 0 \<le> sint (AmountMicros (ur_Cost r))"

fun honest :: "billWrite \<Rightarrow> bool" where
  "honest (WUsage r evs) = (record_ok r \<and> list_all (own_event (ur_ID r)) evs \<and> (\<exists>ev rest. evs = ev # rest \<and> oe_Payload ev = UsageRecordedP (usagePayload r)
     \<and> (\<forall>q \<in> set rest. \<exists>p. oe_Payload q = QuotaExceededP p)))"
| "honest (WInvoice iv ev) = (own_event (iv_ID iv) ev
     \<and> (\<exists>now. iv_FinalizedAt iv = Some now \<and> oe_Payload ev = InvoiceGeneratedP (invoicePayload iv now)))"
| "honest (WPlan p key) = plan_ok p"
| "honest (WAssign team pid) = True"

definition bill_step :: "(time \<Rightarrow> time) \<Rightarrow> billView \<Rightarrow> billView \<Rightarrow> bool" where
  "bill_step pt A B \<longleftrightarrow> (\<exists>w. honest w \<and> admits A w \<and> B = commit pt w A)"

abbreviation evolves :: "(time \<Rightarrow> time) \<Rightarrow> billView \<Rightarrow> billView \<Rightarrow> bool" where
  "evolves pt \<equiv> (bill_step pt)\<^sup>*\<^sup>*"

section \<open>Invariants of the contents\<close>

definition usage_payloads :: "OutboxEvent list \<Rightarrow> UsageRecordedPayload list" where
  "usage_payloads es = List.map_filter (\<lambda>e. case oe_Payload e of UsageRecordedP p \<Rightarrow> Some p | _ \<Rightarrow> None) es"

definition invoice_payloads :: "OutboxEvent list \<Rightarrow> InvoiceGeneratedPayload list" where
  "invoice_payloads es = List.map_filter (\<lambda>e. case oe_Payload e of InvoiceGeneratedP p \<Rightarrow> Some p | _ \<Rightarrow> None) es"

definition stamp_usage :: "(time \<Rightarrow> time) \<Rightarrow> UsageRecordedPayload \<Rightarrow> UsageRecordedPayload" where
  "stamp_usage pt p = p\<lparr>up_OccurredAt := pt (up_OccurredAt p)\<rparr>"

definition stamp_invoice :: "(time \<Rightarrow> time) \<Rightarrow> InvoiceGeneratedPayload \<Rightarrow> InvoiceGeneratedPayload" where
  "stamp_invoice pt p = p\<lparr>ip_PeriodStart := pt (ip_PeriodStart p), ip_PeriodEnd := pt (ip_PeriodEnd p), ip_FinalizedAt := pt (ip_FinalizedAt p)\<rparr>"

text \<open>The outbox and the ledger tell the same: one event for each record, in the order of the commits, and one for each invoice.\<close>

definition paired :: "(time \<Rightarrow> time) \<Rightarrow> billView \<Rightarrow> bool" where
  "paired pt A \<longleftrightarrow> map usagePayload (bv_ledger A) = map (stamp_usage pt) (usage_payloads (bv_outbox A))
     \<and> map (\<lambda>iv. invoicePayload iv (case iv_FinalizedAt iv of Some t \<Rightarrow> t | None \<Rightarrow> 0)) (bv_invoices A)
       = map (stamp_invoice pt) (invoice_payloads (bv_outbox A))
     \<and> list_all (\<lambda>e. oe_EventType e = EventType (oe_Payload e)) (bv_outbox A)"

definition unique_keys :: "UsageRecord list \<Rightarrow> bool" where
  "unique_keys rs \<longleftrightarrow> distinct (map (\<lambda>r. (ur_Team r, ur_IdempotencyKey r)) (filter (\<lambda>r. ur_IdempotencyKey r \<noteq> '''') rs))"

definition bview_ok :: "billView \<Rightarrow> bool" where
  "bview_ok A \<longleftrightarrow> list_all record_ok (bv_ledger A) \<and> distinct (map ur_ID (bv_ledger A)) \<and> unique_keys (bv_ledger A) \<and> distinct (map oe_ID (bv_outbox A))
     \<and> distinct (map iv_ID (bv_invoices A)) \<and> distinct (map iv_InvoiceNumber (bv_invoices A))
     \<and> (\<forall>i p. bv_plans A i = Some p \<longrightarrow> rp_ID p = i \<and> plan_ok p)
     \<and> ran (bv_pkeys A) \<subseteq> dom (bv_plans A) \<and> ran (bv_teams A) \<subseteq> dom (bv_plans A)"

lemmas rows_defs = usage_row_def event_row_def plan_row_def invoice_row_def

lemma payload_filter_append: "List.map_filter f (xs @ ys) = List.map_filter f xs @ List.map_filter f ys"
  by (simp add: List.map_filter_def)

lemma payloads_append [simp]:
  "usage_payloads (xs @ ys) = usage_payloads xs @ usage_payloads ys"
  "invoice_payloads (xs @ ys) = invoice_payloads xs @ invoice_payloads ys"
  by (simp_all add: usage_payloads_def invoice_payloads_def payload_filter_append)

lemma payloads_row [simp]:
  "usage_payloads (map (event_row pt) es) = usage_payloads es"
  "invoice_payloads (map (event_row pt) es) = invoice_payloads es"
  by (induction es) (simp_all add: usage_payloads_def invoice_payloads_def event_row_def List.map_filter_def)

lemma payloads_quota:
  "\<forall>q \<in> set rest. \<exists>p. oe_Payload q = QuotaExceededP p \<Longrightarrow> usage_payloads rest = [] \<and> invoice_payloads rest = []"
  by (induction rest) (auto simp: usage_payloads_def invoice_payloads_def List.map_filter_def)

lemma paired_commit: "paired pt A \<Longrightarrow> honest w \<Longrightarrow> paired pt (commit pt w A)"
proof (cases w)
  case (WUsage r evs)
  assume p: "paired pt A" and h: "honest w"
  from h WUsage obtain ev rest where e: "evs = ev # rest" "oe_Payload ev = UsageRecordedP (usagePayload r)"
      "\<forall>q \<in> set rest. \<exists>p. oe_Payload q = QuotaExceededP p" "list_all (own_event (ur_ID r)) evs" by auto
  have "usage_payloads evs = [usagePayload r]" "invoice_payloads evs = []"
    using payloads_quota [OF e(3)] e(2) by (simp_all add: e(1) usage_payloads_def invoice_payloads_def List.map_filter_def)
  moreover have "usagePayload (usage_row pt r) = stamp_usage pt (usagePayload r)"
    by (simp add: usagePayload_def usage_row_def stamp_usage_def)
  moreover have "list_all (\<lambda>e. oe_EventType e = EventType (oe_Payload e)) (map (event_row pt) evs)"
    using e(4) by (auto simp: list_all_iff own_event_def event_row_def)
  ultimately show ?thesis using p WUsage by (simp add: paired_def)
next
  case (WInvoice iv ev)
  assume p: "paired pt A" and h: "honest w"
  from h WInvoice obtain now where e: "iv_FinalizedAt iv = Some now" "oe_Payload ev = InvoiceGeneratedP (invoicePayload iv now)" "own_event (iv_ID iv) ev"
    by auto
  have "usage_payloads [event_row pt ev] = []" "invoice_payloads [event_row pt ev] = [invoicePayload iv now]"
    using e(2) by (simp_all add: usage_payloads_def invoice_payloads_def List.map_filter_def event_row_def)
  moreover have "invoicePayload (invoice_row pt iv) (pt now) = stamp_invoice pt (invoicePayload iv now)" "iv_FinalizedAt (invoice_row pt iv) = Some (pt now)"
    using e(1) by (simp_all add: invoicePayload_def invoice_row_def stamp_invoice_def)
  moreover have "oe_EventType (event_row pt ev) = EventType (oe_Payload (event_row pt ev))"
    using e(3) by (simp add: own_event_def event_row_def)
  ultimately show ?thesis using p WInvoice by (simp add: paired_def)
qed (simp_all add: paired_def)

lemma evolves_paired: "evolves pt A B \<Longrightarrow> paired pt A \<Longrightarrow> paired pt B"
  by (induction rule: rtranclp_induct) (auto simp: bill_step_def paired_commit)

lemma unique_keys_snoc:
  "unique_keys (rs @ [r]) \<longleftrightarrow> unique_keys rs \<and> (ur_IdempotencyKey r \<noteq> '''' \<longrightarrow>
     \<not> (\<exists>x \<in> set rs. ur_Team x = ur_Team r \<and> ur_IdempotencyKey x = ur_IdempotencyKey r))"
  by (cases "ur_IdempotencyKey r = ''''") (auto simp: unique_keys_def intro: rev_image_eqI)

lemma bview_ok_commit: "bview_ok A \<Longrightarrow> honest w \<Longrightarrow> admits A w \<Longrightarrow> bview_ok (commit pt w A)"
proof (cases w)
  case (WUsage r evs)
  assume "bview_ok A" "honest w" "admits A w"
  then show ?thesis using WUsage
    by (auto simp: bview_ok_def record_ok_def unique_keys_snoc usage_row_def event_row_def keyed_def fresh_events_def comp_def)
next
  case (WInvoice iv ev)
  assume "bview_ok A" "honest w" "admits A w"
  then show ?thesis using WInvoice by (auto simp: bview_ok_def invoice_row_def event_row_def fresh_events_def)
next
  case (WPlan p key)
  assume "bview_ok A" "honest w" "admits A w"
  then show ?thesis using WPlan by (auto simp: bview_ok_def plan_row_def plan_ok_def ran_def subset_iff dom_def split: if_splits)
next
  case (WAssign team pid)
  assume "bview_ok A" "honest w" "admits A w"
  then show ?thesis using WAssign by (auto simp: bview_ok_def ran_def subset_iff dom_def split: if_splits)
qed

lemma evolves_ok: "evolves pt A B \<Longrightarrow> bview_ok A \<Longrightarrow> bview_ok B"
  by (induction rule: rtranclp_induct) (auto simp: bill_step_def bview_ok_commit)

text \<open>The contents only grow.\<close>

lemma commit_grows:
  "(\<exists>rs. bv_ledger (commit pt w A) = bv_ledger A @ rs) \<and> (\<exists>es. bv_outbox (commit pt w A) = bv_outbox A @ es)
   \<and> (\<exists>is. bv_invoices (commit pt w A) = bv_invoices A @ is)"
  by (cases w) auto

lemma evolves_grows:
  assumes "evolves pt A B"
  obtains rs es ivs where "bv_ledger B = bv_ledger A @ rs" "bv_outbox B = bv_outbox A @ es" "bv_invoices B = bv_invoices A @ ivs"
proof -
  have "(\<exists>rs. bv_ledger B = bv_ledger A @ rs) \<and> (\<exists>es. bv_outbox B = bv_outbox A @ es) \<and> (\<exists>ivs. bv_invoices B = bv_invoices A @ ivs)"
    using assms
  proof (induction rule: rtranclp_induct)
    case (step B C)
    then obtain w where "C = commit pt w B" by (auto simp: bill_step_def)
    then show ?case using step.IH commit_grows [of pt w B] by (metis append_assoc)
  qed simp
  with that show thesis by blast
qed

lemma evolves_plans: "evolves pt A B \<Longrightarrow> bv_plans A \<subseteq>\<^sub>m bv_plans B \<and> bv_pkeys A \<subseteq>\<^sub>m bv_pkeys B"
proof (induction rule: rtranclp_induct)
  case (step B C)
  then obtain w where w: "admits B w" "C = commit pt w B" by (auto simp: bill_step_def)
  have "bv_plans B \<subseteq>\<^sub>m bv_plans C \<and> bv_pkeys B \<subseteq>\<^sub>m bv_pkeys C" using w by (cases w) (auto simp: map_le_def)
  then show ?case using step.IH map_le_trans [of "bv_plans A" "bv_plans B" "bv_plans C"] map_le_trans [of "bv_pkeys A" "bv_pkeys B" "bv_pkeys C"] by simp
qed simp

lemma evolves_one: "honest w \<Longrightarrow> admits A w \<Longrightarrow> bill_step pt A (commit pt w A)"
  by (auto simp: bill_step_def)

section \<open>Sums over the ledger\<close>

definition billed_since :: "billView \<Rightarrow> string \<Rightarrow> MeterType \<Rightarrow> time \<Rightarrow> int" where
  "billed_since A team meter t = sum_list (map (sint \<circ> ur_Quantity)
     (filter (\<lambda>r. ur_Team r = team \<and> ur_MeterType r = meter \<and> ur_OccurredAt r \<ge> t) (bv_ledger A)))"

definition period_rows :: "billView \<Rightarrow> string \<Rightarrow> time \<Rightarrow> time \<Rightarrow> UsageRecord list" where
  "period_rows A team a b = filter (\<lambda>r. ur_Team r = team \<and> a \<le> ur_OccurredAt r \<and> ur_OccurredAt r < b) (bv_ledger A)"

definition row_kind :: "UsageRecord \<Rightarrow> MeterType \<times> string" where
  "row_kind r = (ur_MeterType r, CurrencyCode (ur_Cost r))"

definition bucket_kind :: "MeterUsage \<Rightarrow> MeterType \<times> string" where
  "bucket_kind b = (mu_MeterType b, CurrencyCode (mu_TotalCost b))"

text \<open>The buckets are the rows grouped by meter and currency, each with its sums.\<close>

definition rollup :: "UsageRecord list \<Rightarrow> MeterUsage list \<Rightarrow> bool" where
  "rollup rows bs \<longleftrightarrow> distinct (map bucket_kind bs) \<and> set (map bucket_kind bs) = row_kind ` set rows
     \<and> (\<forall>b \<in> set bs. sint (mu_TotalQuantity b) = sum_list (map (sint \<circ> ur_Quantity) (filter (\<lambda>r. row_kind r = bucket_kind b) rows))
        \<and> sint (AmountMicros (mu_TotalCost b)) = sum_list (map (sint \<circ> AmountMicros \<circ> ur_Cost) (filter (\<lambda>r. row_kind r = bucket_kind b) rows)))"

lemma sum_list_groups:
  fixes f :: "'a \<Rightarrow> int"
  assumes "distinct ks" "g ` set xs \<subseteq> set ks"
  shows "sum_list (map (\<lambda>k. sum_list (map f (filter (\<lambda>x. g x = k) xs))) ks) = sum_list (map f xs)"
  using assms
proof (induction xs)
  case (Cons x xs)
  have split: "sum_list (map f (filter (\<lambda>y. g y = k) (x # xs))) = (if k = g x then f x else 0) + sum_list (map f (filter (\<lambda>y. g y = k) xs))" for k
    by auto
  have "sum_list (map (\<lambda>k. if k = g x then f x else 0) ks) = f x"
    using Cons.prems by (simp add: sum_list_map_eq_sum_count sum_list_distinct_conv_sum_set)
  then show ?case using Cons unfolding split by (simp add: sum_list_addf)
qed simp

lemma rollup_total:
  assumes "rollup rows bs"
  shows "sum_list (map (sint \<circ> AmountMicros \<circ> mu_TotalCost) bs) = sum_list (map (sint \<circ> AmountMicros \<circ> ur_Cost) rows)"
proof -
  let ?f = "sint \<circ> AmountMicros \<circ> ur_Cost"
  have "sum_list (map (\<lambda>k. sum_list (map ?f (filter (\<lambda>x. row_kind x = k) rows))) (map bucket_kind bs)) = sum_list (map ?f rows)"
    using assms by (intro sum_list_groups) (auto simp: rollup_def)
  moreover have e: "map (sint \<circ> AmountMicros \<circ> mu_TotalCost) bs = map (\<lambda>b. sum_list (map ?f (filter (\<lambda>x. row_kind x = bucket_kind b) rows))) bs"
    using assms by (auto simp: rollup_def)
  ultimately show ?thesis unfolding e by (simp add: comp_def)
qed

definition plan_of :: "billView \<Rightarrow> string \<Rightarrow> RatePlan option" where
  "plan_of A team = Option.bind (bv_teams A team) (bv_plans A)"

definition plan_by_key :: "billView \<Rightarrow> string \<Rightarrow> RatePlan option" where
  "plan_by_key A key = Option.bind (bv_pkeys A key) (bv_plans A)"

text \<open>The answer of a read for an entry that is \<open>x\<close>: the entry, or not found; any other error says nothing.\<close>

definition found :: "'a option \<Rightarrow> goerr + 'a \<Rightarrow> bool" where
  "found x r \<longleftrightarrow> (case r of Inr y \<Rightarrow> x = Some y | Inl e \<Rightarrow> errors_Is e ErrRepoNotFound \<longrightarrow> x = None)"

definition reply :: "'a option \<Rightarrow> goerr + 'a" where
  "reply x = (case x of Some y \<Rightarrow> Inr y | None \<Rightarrow> Inl ErrRepoNotFound)"

lemma found_reply [simp]: "found x (reply x)"
  by (auto simp: found_def reply_def split: option.splits)

definition keyed_record :: "billView \<Rightarrow> string \<Rightarrow> string \<Rightarrow> UsageRecord option" where
  "keyed_record A team key = find (\<lambda>r. ur_Team r = team \<and> ur_IdempotencyKey r = key) (bv_ledger A)"

lemma keyed_record_Some:
  "keyed_record A team key = Some r \<Longrightarrow> r \<in> set (bv_ledger A) \<and> ur_Team r = team \<and> ur_IdempotencyKey r = key"
  by (auto simp: keyed_record_def find_Some_iff)

lemma keyed_record_None: "keyed_record A team key = None \<longleftrightarrow> \<not> keyed A team key"
  by (auto simp: keyed_record_def keyed_def find_None_iff)

lemma keyed_unique:
  assumes "unique_keys rs" "r \<in> set rs" "x \<in> set rs" "ur_Team r = ur_Team x" "ur_IdempotencyKey r = ur_IdempotencyKey x" "ur_IdempotencyKey r \<noteq> ''''"
  shows "r = x"
  using assms unfolding unique_keys_def
  by (intro distinct_map_inj_lookup [of "\<lambda>r. (ur_Team r, ur_IdempotencyKey r)" "filter (\<lambda>r. ur_IdempotencyKey r \<noteq> '''') rs"]) auto

text \<open>A record found under a key is found under it ever after.\<close>

lemma keyed_record_stays:
  assumes "evolves pt A B" "keyed_record A team key = Some r"
  shows "keyed_record B team key = Some r"
proof -
  obtain rs where "bv_ledger B = bv_ledger A @ rs" using evolves_grows [OF assms(1)] by metis
  moreover have "find P (xs @ ys) = Some r" if "find P xs = Some r" for P :: "UsageRecord \<Rightarrow> bool" and xs ys
    using that by (induction xs) (auto split: if_splits)
  ultimately show ?thesis using assms(2) by (simp add: keyed_record_def)
qed

section \<open>The contract of the stores\<close>

text \<open>
  \<open>kept\<close>: after a call the invariant holds and the contents have only moved by writes of the service's kinds,
  its own or those of other replicas. While the database is healthy (no fault and no other replica to come)
  it stays so.
\<close>

definition kept :: "(time \<Rightarrow> time) \<Rightarrow> ('s \<Rightarrow> billView) \<Rightarrow> ('s \<Rightarrow> bool) \<Rightarrow> ('s \<Rightarrow> bool) \<Rightarrow> 's \<Rightarrow> 's \<Rightarrow> bool" where
  "kept pt view sound healthy d d' \<longleftrightarrow> sound d' \<and> evolves pt (view d) (view d') \<and> (healthy d \<longrightarrow> healthy d')"

lemma kept_refl: "sound d \<Longrightarrow> kept pt view sound healthy d d"
  by (simp add: kept_def)

lemma kept_trans: "kept pt view sound healthy d e \<Longrightarrow> kept pt view sound healthy e f \<Longrightarrow> kept pt view sound healthy d f"
  by (auto simp: kept_def)

text \<open>An own write that succeeds is the last thing that happened; one that fails may still have been committed.\<close>

definition wrote :: "(time \<Rightarrow> time) \<Rightarrow> billView \<Rightarrow> billWrite \<Rightarrow> billView \<Rightarrow> bool" where
  "wrote pt A w B \<longleftrightarrow> (\<exists>C. evolves pt A C \<and> admits C w \<and> B = commit pt w C)"

text \<open>A time the JSON encoding of package \<^verbatim>\<open>time\<close> accepts.\<close>

definition json_time :: "time \<Rightarrow> bool" where
  "json_time t \<longleftrightarrow> 0 \<le> Year t \<and> Year t \<le> 9999"

fun encodable :: "OutboxPayload \<Rightarrow> bool" where
  "encodable (UsageRecordedP p) = json_time (up_OccurredAt p)"
| "encodable (QuotaExceededP p) = json_time (qp_OccurredAt p)"
| "encodable (InvoiceGeneratedP p) = (json_time (ip_PeriodStart p) \<and> json_time (ip_PeriodEnd p) \<and> json_time (ip_FinalizedAt p))"

locale bill_store =
  fixes B :: "'s BillingStores" and pt :: "time \<Rightarrow> time" and view :: "'s \<Rightarrow> billView" and sound :: "'s \<Rightarrow> bool" and healthy :: "'s \<Rightarrow> bool"
  assumes view_wf: "sound d \<Longrightarrow> bview_ok (view d)"
    and find_usage: "sound d \<Longrightarrow> key \<noteq> '''' \<Longrightarrow> us_FindByIdempotencyKey B team key d = (ru, d') \<Longrightarrow>
      kept pt view sound healthy d d' \<and> found (keyed_record (view d') team key) ru
      \<and> (healthy d \<longrightarrow> view d' = view d \<and> ru = reply (keyed_record (view d) team key))"
    and period_usage: "sound d \<Longrightarrow> us_CurrentPeriodUsage B team meter t d = (rq, d') \<Longrightarrow>
      kept pt view sound healthy d d' \<and> (\<forall>q. rq = Inr q \<longrightarrow> sint q = billed_since (view d') team meter (pt t))
      \<and> (healthy d \<longrightarrow> view d' = view d \<and> (in_int64 (billed_since (view d) team meter (pt t)) \<longrightarrow> rq = Inr (word_of_int (billed_since (view d) team meter (pt t)))))"
    and record_tx: "sound d \<Longrightarrow> honest (WUsage r evs) \<Longrightarrow> us_RecordUsageTx B r evs d = (ru, d') \<Longrightarrow>
      kept pt view sound healthy d d' \<and> (\<forall>x. ru = Inr x \<longrightarrow> x = r \<and> wrote pt (view d) (WUsage r evs) (view d'))
      \<and> (healthy d \<longrightarrow> (if admits (view d) (WUsage r evs) \<and> list_all (encodable \<circ> oe_Payload) evs
           then ru = Inr r \<and> view d' = commit pt (WUsage r evs) (view d) else isl ru \<and> view d' = view d))"
    and create_plan: "sound d \<Longrightarrow> plan_ok p \<Longrightarrow> pl_CreatePlan B p key d = (rp, d') \<Longrightarrow>
      kept pt view sound healthy d d' \<and> (\<forall>x. rp = Inr x \<longrightarrow> x = p \<and> wrote pt (view d) (WPlan p key) (view d'))"
    and find_plan: "sound d \<Longrightarrow> pl_FindPlanByIdempotencyKey B key d = (rp, d') \<Longrightarrow>
      kept pt view sound healthy d d' \<and> found (plan_by_key (view d') key) rp"
    and get_plan: "sound d \<Longrightarrow> pl_GetPlan B i d = (rp, d') \<Longrightarrow> kept pt view sound healthy d d' \<and> found (bv_plans (view d') i) rp"
    and resolve_plan: "sound d \<Longrightarrow> pl_ResolvePlanForTeam B team d = (rp, d') \<Longrightarrow>
      kept pt view sound healthy d d' \<and> found (plan_of (view d') team) rp
      \<and> (healthy d \<longrightarrow> view d' = view d \<and> rp = reply (plan_of (view d) team))"
    and aggregate: "sound d \<Longrightarrow> in_AggregateUsageForPeriod B team a b d = (rb, d') \<Longrightarrow>
      kept pt view sound healthy d d' \<and> (\<forall>bs. rb = Inr bs \<longrightarrow> rollup (period_rows (view d') team (pt a) (pt b)) bs)"
    and save_invoice: "sound d \<Longrightarrow> honest (WInvoice iv ev) \<Longrightarrow> in_SaveInvoiceTx B iv ev d = (ri, d') \<Longrightarrow>
      kept pt view sound healthy d d' \<and> (\<forall>x. ri = Inr x \<longrightarrow> x = iv \<and> wrote pt (view d) (WInvoice iv ev) (view d'))"
    and get_invoice: "sound d \<Longrightarrow> in_GetInvoice B i d = (ri, d') \<Longrightarrow>
      kept pt view sound healthy d d' \<and> found (find (\<lambda>iv. iv_ID iv = i) (bv_invoices (view d'))) ri"
    and list_invoices: "sound d \<Longrightarrow> in_ListInvoices B opts d = (rl, d') \<Longrightarrow>
      kept pt view sound healthy d d' \<and> (\<forall>xs tok. rl = Inr (xs, tok) \<longrightarrow> (\<forall>iv \<in> set xs. iv \<in> set (bv_invoices (view d')) \<and> iv_Team iv = lo_Team opts))"

end
