(* ===== verification/BillingCalls.thy ===== *)
theory BillingCalls
  imports BillingLedger
begin

text \<open>
  What the operations of the billing service do, from the contract of its stores: pricing is exact and
  never wraps, a record is committed with its event or not at all, a repeated key reads the first record,
  an invoice is the rounded sum of the ledger. The lemmas of the stateful operations are proved in the
  locale \<open>bill_store\<close>.
\<close>

section \<open>Pricing\<close>

text \<open>The free allowance as it is meant: of the units from \<open>p\<close> up to \<open>p + q\<close>, those from \<open>i\<close> on are billed.\<close>

definition billed_units :: "int \<Rightarrow> int \<Rightarrow> int \<Rightarrow> int" where
  "billed_units p q i = max 0 (p + q - max p i)"

lemma billableQuantity_exact:
  assumes "0 \<le> sint prior" "0 \<le> sint q" "0 \<le> sint included"
  shows "sint (billableQuantity prior q included) = billed_units (sint prior) (sint q) (sint included)"
proof -
  have d: "sint (included - prior) = sint included - sint prior"
    using assms sint64_range [of included] sint64_range [of prior] by (intro sint64_diff) (simp add: in_int64_def)
  have m: "sint (q - (included - prior)) = sint q - (sint included - sint prior)" if "sint prior \<le> sint included" "sint included - sint prior < sint q"
    using assms that sint64_range [of q] d by (subst sint64_diff) (simp_all add: in_int64_def)
  show ?thesis using assms m by (auto simp: billableQuantity_def Let_def word_sle_eq word_sless_alt d billed_units_def max_def)
qed

lemma billableQuantity_bounds:
  assumes "0 \<le> sint q"
  shows "0 \<le> sint (billableQuantity prior q included) \<and> sint (billableQuantity prior q included) \<le> sint q"
proof -
  define f where "f = (if included - prior <s 0 then 0 else included - prior)"
  have f: "0 \<le> sint f" by (auto simp: f_def word_sless_alt)
  have b: "billableQuantity prior q included = (if included \<le>s 0 then q else if q \<le>s f then 0 else q - f)"
    by (simp add: billableQuantity_def Let_def f_def)
  have "sint (q - f) = sint q - sint f" if "sint f < sint q"
    using that f assms sint64_range [of q] by (intro sint64_diff) (simp add: in_int64_def)
  then show ?thesis using f assms by (auto simp: b word_sle_eq)
qed

text \<open>Fed with the gross usage so far, the allowance is spent once over a sequence of records.\<close>

fun metered :: "int64 \<Rightarrow> int64 \<Rightarrow> int64 list \<Rightarrow> int64 list" where
  "metered included prior [] = []"
| "metered included prior (q # qs) = billableQuantity prior q included # metered included (prior + q) qs"

lemma metered_total:
  assumes "0 \<le> sint prior" "0 \<le> sint included" "\<forall>q \<in> set qs. 0 \<le> sint q" "in_int64 (sint prior + sum_list (map sint qs))"
  shows "sum_list (map sint (metered included prior qs)) = billed_units (sint prior) (sum_list (map sint qs)) (sint included)"
  using assms
proof (induction qs arbitrary: prior)
  case (Cons q qs)
  have nn: "0 \<le> sum_list (map sint qs)" using Cons.prems(3) by (auto intro!: sum_list_nonneg)
  have "in_int64 (sint prior + sint q)" using Cons.prems nn by (auto simp: in_int64_def)
  then have s: "sint (prior + q) = sint prior + sint q" by (rule sint64_add)
  have "sum_list (map sint (metered included (prior + q) qs)) = billed_units (sint (prior + q)) (sum_list (map sint qs)) (sint included)"
    using Cons.prems s by (intro Cons.IH) (simp_all add: add.assoc)
  then show ?case using Cons.prems nn s billableQuantity_exact [of prior q included] by (auto simp: billed_units_def max_def)
qed (simp add: billed_units_def)

lemma computeCost_exact:
  "computeCost plan meter qty = (case PriceFor plan meter of
     None \<Rightarrow> Inl (Wrapf '''' ErrUnknownMeter ('': meter '' @ quote meter @ '' not priced by plan '' @ rp_ID plan))
   | Some price \<Rightarrow> if in_int64 (sint qty * sint (AmountMicros price))
       then Inr \<lparr>AmountMicros = word_of_int (sint qty * sint (AmountMicros price)), CurrencyCode = CurrencyCode price\<rparr>
       else Inl ErrAmountOverflow)"
  by (simp add: computeCost_def mulInt64Checked_exact split: option.splits)

section \<open>Rate plans\<close>

lemma checkPrices_ok:
  assumes "checkPrices c ps = None"
  shows "\<forall>(mt, price) \<in> set ps. IsBillable mt \<and> IsValidCurrencyCode (CurrencyCode price) \<and> 0 \<le> sint (AmountMicros price)
     \<and> (c \<noteq> '''' \<longrightarrow> CurrencyCode price = c)"
  using assms
proof (induction c ps rule: checkPrices.induct)
  case (2 c mt price rest)
  then show ?case by (auto simp: word_sless_alt split: if_splits)
qed simp

lemma checkPrices_single:
  assumes "checkPrices '''' ps = None"
  shows "\<exists>c. IsValidCurrencyCode c \<and> (\<forall>(mt, price) \<in> set ps. CurrencyCode price = c) \<or> ps = []"
proof (cases ps)
  case (Cons p rest)
  obtain mt price where p: "p = (mt, price)" by (cases p)
  have "checkPrices (CurrencyCode price) rest = None" "IsValidCurrencyCode (CurrencyCode price)"
    using assms by (simp_all add: Cons p split: if_splits)
  moreover have "CurrencyCode price \<noteq> ''''" using calculation(2) by (auto simp: IsValidCurrencyCode_def)
  ultimately show ?thesis using checkPrices_ok [of "CurrencyCode price" rest] by (auto simp: Cons p)
qed simp

lemma valid_code_nonempty: "IsValidCurrencyCode c \<Longrightarrow> c \<noteq> ''''"
  by (auto simp: IsValidCurrencyCode_def)

lemma plan_ok_price:
  assumes "plan_ok p" "PriceFor p mt = Some price"
  shows "IsBillable mt \<and> IsValidCurrencyCode (CurrencyCode price) \<and> 0 \<le> sint (AmountMicros price)"
  using assms checkPrices_ok [of "''''" "rp_UnitPrices p"] map_of_SomeD [of "rp_UnitPrices p" mt price]
  by (auto simp: plan_ok_def PriceFor_def)

section \<open>Sums\<close>

lemma sumLines_addAll:
  "sumLines plan bs items tot = (case addAll tot (map mu_TotalCost bs) of
     Inl err \<Rightarrow> Inl (Wrapf ''summing invoice total: '' err '''') | Inr t \<Rightarrow> Inr (items @ map (lineItem plan) bs, t))"
  by (induction bs arbitrary: items tot) (auto split: sum.splits)

lemma sumBuckets_addAll:
  "sumBuckets flt bs m tot = Inr (m', t) \<Longrightarrow>
   addAll tot (map mu_TotalCost (filter (\<lambda>b. flt = MeterTypeUnspecified \<or> mu_MeterType b = flt) bs)) = Inr t"
  by (induction flt bs m tot rule: sumBuckets.induct) (auto split: if_splits sum.splits)

section \<open>Records and events as the service builds them\<close>

lemma clock_ids:
  "Now P s = (t, s') \<Longrightarrow> bl_db s' = bl_db s" "NewID P s = (i, s') \<Longrightarrow> bl_db s' = bl_db s"
  by (auto simp: Now_def NewID_def)

lemma period_db: "currentPeriodStart P s = (t, s') \<Longrightarrow> bl_db s' = bl_db s"
  by (auto simp: currentPeriodStart_def Now_def)

lemma clamp_db: "clampOccurredAt P t s = (u, s') \<Longrightarrow> bl_db s' = bl_db s"
  by (auto simp: clampOccurredAt_def currentPeriodStart_def Now_def split: if_splits)

lemma clamp_bounds:
  assumes "clampOccurredAt P t s = (u, s')" "mono (bs_clock P)"
  shows "u \<le> bs_clock P (bl_ticks s')" and "\<exists>n \<ge> bl_ticks s. monthStart (bs_clock P n) \<le> u"
proof -
  define n where "n = bl_ticks s"
  have le: "bs_clock P n \<le> bs_clock P (Suc n)" "bs_clock P n \<le> bs_clock P (Suc (Suc n))" "bs_clock P (Suc n) \<le> bs_clock P (Suc (Suc n))"
    using assms(2) by (simp_all add: mono_def)
  have ms: "monthStart (bs_clock P m) \<le> bs_clock P m" for m using monthStart_near by blast
  have c: "(u = bs_clock P n \<and> bl_ticks s' = Suc n) \<or> (bl_ticks s' = Suc (Suc n) \<and> monthStart (bs_clock P (Suc n)) \<le> u
       \<and> (u = monthStart (bs_clock P (Suc n)) \<or> u \<le> bs_clock P n))"
    using assms(1) by (auto simp: clampOccurredAt_def currentPeriodStart_def Now_def n_def split: if_splits)
  show "u \<le> bs_clock P (bl_ticks s')" using c le ms [of "Suc n"] by auto
  show "\<exists>n \<ge> bl_ticks s. monthStart (bs_clock P n) \<le> u"
    using c ms [of n] by (auto simp: n_def [symmetric] intro: exI [of _ n] exI [of _ "Suc n"])
qed

lemma buildOutboxEvent_simp:
  "buildOutboxEvent P agg p now s = (\<lparr>oe_ID = bs_ids P (bl_ids s), oe_AggregateID = agg, oe_EventType = EventType p, oe_Payload = p,
     oe_CreatedAt = now, oe_PublishedAt = None\<rparr>, s\<lparr>bl_ids := Suc (bl_ids s)\<rparr>)"
  by (simp add: buildOutboxEvent_def NewID_def)

text \<open>The record as built: what the caller said, the server's plan and price, and the times of the clock.\<close>

definition record_of :: "string \<Rightarrow> RecordUsageInput \<Rightarrow> RatePlan \<Rightarrow> int64 \<Rightarrow> Money \<Rightarrow> UsageRecord \<Rightarrow> bool" where
  "record_of team inp plan qty cost r \<longleftrightarrow> ur_Team r = team \<and> ur_RatePlanID r = rp_ID plan \<and> ur_MeterType r = ru_MeterType inp
     \<and> ur_Quantity r = qty \<and> ur_Cost r = cost \<and> ur_ModelID r = ru_ModelID inp \<and> ur_ModelVersion r = ru_ModelVersion inp
     \<and> ur_SourceRequestID r = ru_SourceRequestID inp \<and> ur_IdempotencyKey r = ru_IdempotencyKey inp"

lemma buildUsage_spec:
  assumes "buildUsage P team inp plan prior qty cost s = ((r, evs), s')"
  shows "bl_db s' = bl_db s" and "record_ok r \<Longrightarrow> honest (WUsage r evs)" and "record_of team inp plan qty cost r"
    and "mono (bs_clock P) \<Longrightarrow> ur_OccurredAt r \<le> ur_CreatedAt r \<and> (\<exists>n \<ge> bl_ticks s. monthStart (bs_clock P n) \<le> ur_OccurredAt r)"
    and "ur_ID r = bs_ids P (bl_ids s)"
    and "length evs = (case map_of (rp_QuotaLimits plan) (ru_MeterType inp) of None \<Rightarrow> 1
       | Some limit \<Rightarrow> if 0 <s limit \<and> limit \<le>s prior + ru_Quantity inp \<and> prior <s limit then 2 else 1)"
proof -
  obtain u s1 where c: "clampOccurredAt P (ru_OccurredAt inp) s = (u, s1)" by fastforce
  have ids: "bl_ids s1 = bl_ids s" using c by (auto simp: clampOccurredAt_def currentPeriodStart_def Now_def split: if_splits)
  note b = assms [unfolded buildUsage_def c Now_def NewID_def buildOutboxEvent_simp]
  show "bl_db s' = bl_db s" using b clamp_db [OF c] by (auto simp: Let_def split: option.splits if_splits)
  show "record_ok r \<Longrightarrow> honest (WUsage r evs)" using b by (auto simp: Let_def own_event_def split: option.splits if_splits)
  show "record_of team inp plan qty cost r" using b by (auto simp: Let_def record_of_def split: option.splits if_splits)
  show "ur_ID r = bs_ids P (bl_ids s)" using b ids by (auto simp: Let_def split: option.splits if_splits)
  show "length evs = (case map_of (rp_QuotaLimits plan) (ru_MeterType inp) of None \<Rightarrow> 1
       | Some limit \<Rightarrow> if 0 <s limit \<and> limit \<le>s prior + ru_Quantity inp \<and> prior <s limit then 2 else 1)"
    using b by (auto simp: Let_def split: option.splits if_splits)
  have "ur_OccurredAt r = u \<and> ur_CreatedAt r = bs_clock P (bl_ticks s1)"
    using b by (auto simp: Let_def split: option.splits if_splits)
  then show "mono (bs_clock P) \<Longrightarrow> ur_OccurredAt r \<le> ur_CreatedAt r \<and> (\<exists>n \<ge> bl_ticks s. monthStart (bs_clock P n) \<le> ur_OccurredAt r)"
    using clamp_bounds [OF c] by simp
qed

lemma buildInvoice_spec:
  assumes "buildInvoice P team a b plan items tot s = ((iv, ev), s')"
  shows "bl_db s' = bl_db s \<and> honest (WInvoice iv ev) \<and> iv_Team iv = team \<and> iv_RatePlanID iv = rp_ID plan \<and> iv_LineItems iv = items
    \<and> iv_Total iv = tot \<and> iv_PeriodStart iv = a \<and> iv_PeriodEnd iv = b \<and> iv_Status iv = InvoiceStatusFinalized"
  using assms by (auto simp: buildInvoice_def Let_def Now_def NewID_def invoiceNumber_def buildOutboxEvent_simp own_event_def invoicePayload_def)

section \<open>Operations on a store that keeps its contract\<close>

text \<open>
  What a new record says: the plan the server found for the team, the usage billed so far in the period, the
  quantity left to bill, and the exact product with the plan's price.
\<close>

definition charged :: "billView \<Rightarrow> billView \<Rightarrow> time \<Rightarrow> string \<Rightarrow> RecordUsageInput \<Rightarrow> UsageRecord \<Rightarrow> bool" where
  "charged C D period team inp r \<longleftrightarrow> (\<exists>plan price prior. plan_of C team = Some plan \<and> PriceFor plan (ru_MeterType inp) = Some price
     \<and> sint prior = billed_since D team (ru_MeterType inp) period
     \<and> record_of team inp plan (billableQuantity prior (ru_Quantity inp) (map_get (rp_IncludedQuantities plan) (ru_MeterType inp) 0)) (ur_Cost r) r
     \<and> sint (AmountMicros (ur_Cost r)) = sint (ur_Quantity r) * sint (AmountMicros price) \<and> CurrencyCode (ur_Cost r) = CurrencyCode price)"

lemma onStore_run: "onStore f s = (r, s') \<Longrightarrow> f (bl_db s) = (r, bl_db s') \<and> bl_ticks s' = bl_ticks s \<and> bl_ids s' = bl_ids s"
  by (auto simp: onStore_def split: prod.splits)

lemma wrote_evolves: "wrote pt A w B \<Longrightarrow> honest w \<Longrightarrow> evolves pt A B"
  unfolding wrote_def by (meson evolves_one rtranclp.rtrancl_into_rtrancl)

lemma wrote_after: "evolves pt A C \<Longrightarrow> wrote pt C w B \<Longrightarrow> wrote pt A w B"
  unfolding wrote_def using rtranclp_trans [of "bill_step pt" A C] by blast

lemma plan_of_ok: "bview_ok A \<Longrightarrow> plan_of A team = Some p \<Longrightarrow> plan_ok p"
  by (auto simp: plan_of_def bview_ok_def bind_eq_Some_conv)

context bill_store
begin

abbreviation calm :: "'s \<Rightarrow> 's \<Rightarrow> bool" where
  "calm \<equiv> kept pt view sound healthy"

lemma calm_refl: "sound d \<Longrightarrow> calm d d"
  by (simp add: kept_def)

lemma calm_trans: "calm d e \<Longrightarrow> calm e f \<Longrightarrow> calm d f"
  by (auto simp: kept_def)

lemma calm_evolves: "calm d d' \<Longrightarrow> evolves pt (view d) (view d')"
  by (simp add: kept_def)

lemma calm_sound: "calm d d' \<Longrightarrow> sound d'"
  by (simp add: kept_def)

text \<open>The result of an attempt to record: a new record, committed last, or the record the key already stands for.\<close>

definition recorded :: "('s billingService) \<Rightarrow> string \<Rightarrow> RecordUsageInput \<Rightarrow> 's \<Rightarrow> 's \<Rightarrow> UsageRecord \<times> bool \<Rightarrow> bool" where
  "recorded P team inp d d' rd \<longleftrightarrow> (case rd of (r, dup) \<Rightarrow>
     if dup then ru_IdempotencyKey inp \<noteq> '''' \<and> keyed_record (view d') team (ru_IdempotencyKey inp) = Some r
     else (\<exists>C D n evs. evolves pt (view d) C \<and> evolves pt C D \<and> charged C D (pt (monthStart (bs_clock P n))) team inp r
       \<and> honest (WUsage r evs) \<and> wrote pt D (WUsage r evs) (view d')))"

lemma recorded_after:
  assumes "evolves pt (view d) (view e)" "recorded P team inp e d' rd"
  shows "recorded P team inp d d' rd"
proof (cases rd)
  case (Pair r dup)
  have "evolves pt (view d) C" if "evolves pt (view e) C" for C using assms(1) that by (rule rtranclp_trans)
  then show ?thesis using assms(2) unfolding recorded_def Pair prod.case by metis
qed

lemma storeUsage_spec:
  assumes "sound (bl_db s)" "bs_stores P = B" "honest (WUsage r evs)" "storeUsage P team key r evs s = (res, s')"
  shows "calm (bl_db s) (bl_db s') \<and> (\<forall>x dup. res = Inr (x, dup) \<longrightarrow>
     (if dup then key \<noteq> '''' \<and> keyed_record (view (bl_db s')) team key = Some x
      else x = r \<and> wrote pt (view (bl_db s)) (WUsage r evs) (view (bl_db s'))))"
proof -
  obtain ru s1 where t: "onStore (us_RecordUsageTx B r evs) s = (ru, s1)" by fastforce
  note l = record_tx [OF assms(1,3) onStore_run [OF t, THEN conjunct1]]
  show ?thesis
  proof (cases ru)
    case (Inr x)
    then show ?thesis using l assms t by (auto simp: storeUsage_def)
  next
    case (Inl err)
    show ?thesis
    proof (cases "errors_Is err ErrRepoDuplicate \<and> key \<noteq> ''''")
      case True
      obtain rf s2 where f: "onStore (us_FindByIdempotencyKey B team key) s1 = (rf, s2)" by fastforce
      have "sound (bl_db s1)" using l calm_sound by blast
      from find_usage [OF this _ onStore_run [OF f, THEN conjunct1]] True
      have k: "calm (bl_db s1) (bl_db s2) \<and> found (keyed_record (view (bl_db s2)) team key) rf" by simp
      then have c: "calm (bl_db s) (bl_db s2)" using l calm_trans by blast
      have "storeUsage P team key r evs s = (case rf of Inl rerr \<Rightarrow> Inl (Wrapf ''resolving idempotency race: '' rerr '''') | Inr winner \<Rightarrow> Inr (winner, True), s2)"
        using t f Inl True by (simp add: storeUsage_def assms(2) split: sum.splits)
      then show ?thesis using assms(4) c k True by (cases rf) (simp_all add: found_def)
    next
      case False
      then have "storeUsage P team key r evs s = (Inl (Wrapf ''recording usage: '' err ''''), s1)"
        using t Inl by (auto simp: storeUsage_def assms(2))
      then show ?thesis using l assms(4) by simp
    qed
  qed
qed

lemma recordFresh_spec:
  assumes "sound (bl_db s)" "bs_stores P = B" "recordFresh P team inp s = (res, s')"
    and valid: "team \<noteq> ''''" "IsBillable (ru_MeterType inp)" "0 \<le> sint (ru_Quantity inp)" "sint (ru_Quantity inp) \<le> 1000000000000"
  shows "calm (bl_db s) (bl_db s') \<and> (\<forall>rd. res = Inr rd \<longrightarrow> recorded P team inp (bl_db s) (bl_db s') rd)"
proof -
  obtain rp s1 where a: "onStore (pl_ResolvePlanForTeam B team) s = (rp, s1)" by fastforce
  have l1: "calm (bl_db s) (bl_db s1)" "found (plan_of (view (bl_db s1)) team) rp"
    using resolve_plan [OF assms(1) onStore_run [OF a, THEN conjunct1]] by blast+
  show ?thesis
  proof (cases rp)
    case (Inl err)
    then show ?thesis using a l1 assms by (auto simp: recordFresh_def split: if_splits)
  next
    case plan: (Inr plan)
    obtain ps s2 where b: "currentPeriodStart P s1 = (ps, s2)" by fastforce
    have ps: "ps = monthStart (bs_clock P (bl_ticks s1))" using b by (auto simp: currentPeriodStart_def Now_def)
    have db2: "bl_db s2 = bl_db s1" using period_db [OF b] .
    obtain rq s3 where c: "onStore (us_CurrentPeriodUsage B team (ru_MeterType inp) ps) s2 = (rq, s3)" by fastforce
    have snd1: "sound (bl_db s2)" using l1(1) calm_sound db2 by simp
    have l2: "calm (bl_db s2) (bl_db s3)" "\<forall>q. rq = Inr q \<longrightarrow> sint q = billed_since (view (bl_db s3)) team (ru_MeterType inp) (pt ps)"
      using period_usage [OF snd1 onStore_run [OF c, THEN conjunct1]] by blast+
    have k: "calm (bl_db s) (bl_db s3)" using calm_trans [OF l1(1) l2(1) [unfolded db2]] .
    show ?thesis
    proof (cases rq)
      case (Inl err)
      then have "s' = s3 \<and> (\<exists>e. res = Inl e)" using a b c plan assms by (auto simp: recordFresh_def)
      then show ?thesis using k by auto
    next
      case prior: (Inr prior)
      define qty where "qty = billableQuantity prior (ru_Quantity inp) (map_get (rp_IncludedQuantities plan) (ru_MeterType inp) 0)"
      show ?thesis
      proof (cases "computeCost plan (ru_MeterType inp) qty")
        case (Inl err)
        then have "s' = s3 \<and> res = Inl err" using a b c plan prior assms by (simp add: recordFresh_def qty_def)
        then show ?thesis using k by simp
      next
        case cost: (Inr cost)
        obtain r evs s4 where d: "buildUsage P team inp plan prior qty cost s3 = ((r, evs), s4)" by (metis prod.exhaust)
        note bu = buildUsage_spec [OF d]
        have run: "storeUsage P team (ru_IdempotencyKey inp) r evs s4 = (res, s')"
          using a b c d plan prior cost assms by (simp add: recordFresh_def qty_def [symmetric])
        obtain price where price: "PriceFor plan (ru_MeterType inp) = Some price" "in_int64 (sint qty * sint (AmountMicros price))"
            "cost = \<lparr>AmountMicros = word_of_int (sint qty * sint (AmountMicros price)), CurrencyCode = CurrencyCode price\<rparr>"
          using cost by (auto simp: computeCost_exact split: option.splits if_splits)
        have "sint (AmountMicros cost) = sint qty * sint (AmountMicros price)"
          using sint64_of_int [OF price(2)] price(3) by simp
        then have cost_exact: "sint (AmountMicros cost) = sint qty * sint (AmountMicros price)" .
        have "plan_ok plan" using plan_of_ok [OF view_wf [OF calm_sound [OF l1(1)]]] l1(2) plan by (simp add: found_def)
        note pr = plan_ok_price [OF this price(1)]
        have "0 \<le> sint qty" "sint qty \<le> 1000000000000"
          using billableQuantity_bounds [OF valid(3)] valid(4) by (auto simp: qty_def intro: order_trans)
        then have "record_ok r" using bu(3) pr valid cost_exact price(3) by (simp add: record_ok_def record_of_def)
        note hw = bu(2) [OF this]
        have "sound (bl_db s4)" using k calm_sound bu(1) by simp
        note st = storeUsage_spec [OF this assms(2) hw run]
        have ch: "charged (view (bl_db s1)) (view (bl_db s3)) (pt ps) team inp r"
          unfolding charged_def using l1(2) plan price(1,3) l2(2) prior bu(3) cost_exact
          by (intro exI [of _ plan] exI [of _ price] exI [of _ prior]) (simp add: found_def record_of_def qty_def)
        have "recorded P team inp (bl_db s) (bl_db s') rd" if "res = Inr rd" for rd
        proof (cases rd)
          case (Pair x dup)
          show ?thesis
          proof (cases dup)
            case True
            then show ?thesis using st [THEN conjunct2, rule_format, of x dup] that Pair by (simp add: recorded_def)
          next
            case False
            then have "x = r" "wrote pt (view (bl_db s3)) (WUsage r evs) (view (bl_db s'))" using st that Pair bu(1) by auto
            then show ?thesis unfolding recorded_def Pair prod.case if_not_P [OF False]
              using ch ps hw calm_evolves [OF l1(1)] calm_evolves [OF l2(1)] db2 by metis
          qed
        qed
        moreover have "calm (bl_db s) (bl_db s')" using st k bu(1) calm_trans by metis
        ultimately show ?thesis by blast
      qed
    qed
  qed
qed

lemma RecordUsage_spec:
  assumes "sound (bl_db s)" "bs_stores P = B" "RecordUsage P team inp s = (res, s')"
  shows "calm (bl_db s) (bl_db s') \<and> (\<forall>rd. res = Inr rd \<longrightarrow> recorded P team inp (bl_db s) (bl_db s') rd
     \<and> team \<noteq> '''' \<and> IsBillable (ru_MeterType inp) \<and> 0 \<le> sint (ru_Quantity inp) \<and> sint (ru_Quantity inp) \<le> 1000000000000)"
proof (cases "team = '''' \<or> \<not> IsBillable (ru_MeterType inp) \<or> ru_Quantity inp <s 0 \<or> MaxQuantityPerRecord <s ru_Quantity inp")
  case True
  then have "s' = s \<and> (\<exists>e. res = Inl e)" using assms(3) by (auto simp: RecordUsage_def split: if_splits)
  then show ?thesis using calm_refl [OF assms(1)] by auto
next
  case False
  then have valid: "team \<noteq> '''' \<and> IsBillable (ru_MeterType inp) \<and> 0 \<le> sint (ru_Quantity inp) \<and> sint (ru_Quantity inp) \<le> 1000000000000"
    by (auto simp: word_sless_alt MaxQuantityPerRecord_def)
  show ?thesis
  proof (cases "ru_IdempotencyKey inp = ''''")
    case True
    then have "recordFresh P team inp s = (res, s')" using assms(3) False by (simp add: RecordUsage_def)
    from recordFresh_spec [OF assms(1,2) this] valid show ?thesis by blast
  next
    case key: False
    obtain ru s1 where f: "onStore (us_FindByIdempotencyKey B team (ru_IdempotencyKey inp)) s = (ru, s1)" by fastforce
    have l: "calm (bl_db s) (bl_db s1)" "found (keyed_record (view (bl_db s1)) team (ru_IdempotencyKey inp)) ru"
      using find_usage [OF assms(1) key onStore_run [OF f, THEN conjunct1]] by blast+
    show ?thesis
    proof (cases ru)
      case (Inr x)
      then have "res = Inr (x, True)" "s' = s1" using assms f False key by (auto simp: RecordUsage_def)
      then show ?thesis using l Inr key valid by (simp add: recorded_def found_def)
    next
      case (Inl err)
      show ?thesis
      proof (cases "errors_Is err ErrRepoNotFound")
        case True
        then have run: "recordFresh P team inp s1 = (res, s')" using assms f False key Inl by (simp add: RecordUsage_def)
        have sp: "calm (bl_db s1) (bl_db s') \<and> (\<forall>rd. res = Inr rd \<longrightarrow> recorded P team inp (bl_db s1) (bl_db s') rd)"
          using recordFresh_spec [OF calm_sound [OF l(1)] assms(2) run] valid by blast
        have "recorded P team inp (bl_db s) (bl_db s') rd" if "recorded P team inp (bl_db s1) (bl_db s') rd" for rd
          by (rule recorded_after [OF calm_evolves [OF l(1)] that])
        then show ?thesis using sp calm_trans [OF l(1)] valid by simp
      next
        case nf: False
        then have "s' = s1 \<and> (\<exists>e. res = Inl e)" using assms f False key Inl by (auto simp: RecordUsage_def)
        then show ?thesis using l by auto
      qed
    qed
  qed
qed

end

end
