(* ===== verification/BillingRun.thy ===== *)
theory BillingRun
  imports BillingCalls
begin

text \<open>
  The other operations of the billing service on a store that keeps its contract, and runs of operations:
  rate plans are created checked and once per key, an invoice is the ledger's sum of its period rounded
  once, a retry of a keyed record finds the first record, and every sequence of calls keeps the ledger and
  the outbox in step.
\<close>

section \<open>Invoices\<close>

text \<open>
  What an invoice says of the ledger: it has a line for each meter of the period's records, their costs are
  all of one currency, and its total is their exact sum, rounded to cents.
\<close>

definition invoices_rows :: "UsageRecord list \<Rightarrow> RatePlan \<Rightarrow> Invoice \<Rightarrow> bool" where
  "invoices_rows rows plan iv \<longleftrightarrow> rows \<noteq> [] \<and> iv_RatePlanID iv = rp_ID plan
     \<and> (\<exists>bs t. rollup rows bs \<and> iv_LineItems iv = map (lineItem plan) bs \<and> iv_Total iv = RoundToCents t
        \<and> (\<forall>r \<in> set rows. CurrencyCode (ur_Cost r) = CurrencyCode t)
        \<and> sint (AmountMicros t) = sum_list (map (sint \<circ> AmountMicros \<circ> ur_Cost) rows))"

lemma rollup_nonempty: "rollup rows bs \<Longrightarrow> bs \<noteq> [] \<Longrightarrow> rows \<noteq> []"
  by (auto simp: rollup_def)

lemma rollup_currencies:
  assumes "rollup rows bs" "r \<in> set rows"
  shows "\<exists>b \<in> set bs. CurrencyCode (mu_TotalCost b) = CurrencyCode (ur_Cost r)"
proof -
  have "row_kind r \<in> set (map bucket_kind bs)" using assms by (auto simp: rollup_def)
  then show ?thesis by (auto simp: row_kind_def bucket_kind_def)
qed

lemma rollup_currency_ok:
  assumes "rollup rows bs" "list_all record_ok rows" "b \<in> set bs"
  shows "CurrencyCode (mu_TotalCost b) \<noteq> ''''"
proof -
  have "bucket_kind b \<in> row_kind ` set rows" using assms(1,3) by (auto simp: rollup_def)
  then obtain r where "r \<in> set rows" "CurrencyCode (mu_TotalCost b) = CurrencyCode (ur_Cost r)"
    by (auto simp: row_kind_def bucket_kind_def)
  then show ?thesis using assms(2) valid_code_nonempty by (auto simp: list_all_iff record_ok_def)
qed

lemma sumLines_rows:
  assumes "rollup rows bs" "list_all record_ok rows" "bs \<noteq> []" "sumLines plan bs [] zeroMoney = Inr (items, t)"
  shows "items = map (lineItem plan) bs \<and> (\<forall>r \<in> set rows. CurrencyCode (ur_Cost r) = CurrencyCode t)
     \<and> sint (AmountMicros t) = sum_list (map (sint \<circ> AmountMicros \<circ> ur_Cost) rows)"
proof -
  have add: "addAll zeroMoney (map mu_TotalCost bs) = Inr t" "items = map (lineItem plan) bs"
    using assms(4) by (auto simp: sumLines_addAll split: sum.splits)
  have "\<forall>m \<in> set (map mu_TotalCost bs). CurrencyCode m \<noteq> ''''" using rollup_currency_ok [OF assms(1,2)] by auto
  from addAll_zero [OF add(1) _ this] assms(3)
  have z: "\<forall>m \<in> set (map mu_TotalCost bs). CurrencyCode m = CurrencyCode t"
      "sint (AmountMicros t) = sum_list (map (sint \<circ> AmountMicros) (map mu_TotalCost bs))" by auto
  have "\<forall>r \<in> set rows. CurrencyCode (ur_Cost r) = CurrencyCode t" using z(1) rollup_currencies [OF assms(1)] by fastforce
  then show ?thesis using add(2) z(2) rollup_total [OF assms(1)] by (simp add: comp_def)
qed

context bill_store
begin

lemma CreateRatePlan_spec:
  assumes "sound (bl_db s)" "bs_stores P = B" "CreateRatePlan P inp s = (res, s')"
  shows "calm (bl_db s) (bl_db s') \<and> (\<forall>p dup. res = Inr (p, dup) \<longrightarrow>
    (if dup then cr_IdempotencyKey inp \<noteq> '''' \<and> plan_by_key (view (bl_db s')) (cr_IdempotencyKey inp) = Some p
     else plan_ok p \<and> rp_UnitPrices p = cr_UnitPrices inp \<and> rp_IncludedQuantities p = cr_IncludedQuantities inp
       \<and> rp_QuotaLimits p = cr_QuotaLimits inp \<and> wrote pt (view (bl_db s)) (WPlan p (cr_IdempotencyKey inp)) (view (bl_db s'))))"
proof (cases "cr_UnitPrices inp = [] \<or> checkPrices '''' (cr_UnitPrices inp) \<noteq> None")
  case True
  then have "s' = s \<and> (\<exists>e. res = Inl e)" using assms(3) by (auto simp: CreateRatePlan_def split: if_splits)
  then show ?thesis using calm_refl [OF assms(1)] by auto
next
  case False
  define key where "key = cr_IdempotencyKey inp"
  have fresh: "calm (bl_db u) (bl_db v) \<and> (\<forall>p dup. rs = Inr (p, dup) \<longrightarrow>
    (if dup then key \<noteq> '''' \<and> plan_by_key (view (bl_db v)) key = Some p
     else plan_ok p \<and> rp_UnitPrices p = cr_UnitPrices inp \<and> rp_IncludedQuantities p = cr_IncludedQuantities inp
       \<and> rp_QuotaLimits p = cr_QuotaLimits inp \<and> wrote pt (view (bl_db u)) (WPlan p key) (view (bl_db v))))"
    if u: "sound (bl_db u)" and run: "createFresh P inp u = (rs, v)" for u v rs
  proof -
    define pl where "pl = \<lparr>rp_ID = bs_ids P (bl_ids u), rp_Name = cr_Name inp, rp_UnitPrices = cr_UnitPrices inp,
        rp_IncludedQuantities = cr_IncludedQuantities inp, rp_QuotaLimits = cr_QuotaLimits inp, rp_CreatedAt = bs_clock P (bl_ticks u)\<rparr>"
    define u2 where "u2 = u\<lparr>bl_ids := Suc (bl_ids u), bl_ticks := Suc (bl_ticks u)\<rparr>"
    have pl: "plan_ok pl" using False by (simp add: plan_ok_def pl_def)
    obtain rp u3 where c: "onStore (pl_CreatePlan B pl key) u2 = (rp, u3)" by fastforce
    have l: "calm (bl_db u) (bl_db u3)" "\<forall>x. rp = Inr x \<longrightarrow> x = pl \<and> wrote pt (view (bl_db u)) (WPlan pl key) (view (bl_db u3))"
      using create_plan [OF _ pl onStore_run [OF c, THEN conjunct1]] u by (auto simp: u2_def)
    have unf: "createFresh P inp u = (case rp of Inr stored \<Rightarrow> (Inr (stored, False), u3)
        | Inl err \<Rightarrow> if errors_Is err ErrRepoDuplicate \<and> key \<noteq> ''''
            then (case onStore (pl_FindPlanByIdempotencyKey B key) u3 of
               (Inl rerr, s4) \<Rightarrow> (Inl (Wrapf ''resolving rate-plan race: '' rerr ''''), s4)
             | (Inr winner, s4) \<Rightarrow> (Inr (winner, True), s4))
            else (Inl (Wrapf ''creating rate plan: '' err ''''), u3))"
      using c by (simp add: createFresh_def NewID_def Now_def assms(2) pl_def u2_def key_def split: sum.splits)
    show ?thesis
    proof (cases rp)
      case (Inr x)
      then have "rs = Inr (pl, False)" "v = u3" using unf run l by simp_all
      then show ?thesis using l Inr pl by (simp add: pl_def)
    next
      case (Inl err)
      show ?thesis
      proof (cases "errors_Is err ErrRepoDuplicate \<and> key \<noteq> ''''")
        case True
        obtain rf u4 where f: "onStore (pl_FindPlanByIdempotencyKey B key) u3 = (rf, u4)" by fastforce
        have k: "calm (bl_db u3) (bl_db u4)" "found (plan_by_key (view (bl_db u4)) key) rf"
          using find_plan [OF calm_sound [OF l(1)] onStore_run [OF f, THEN conjunct1]] by blast+
        have "v = u4 \<and> rs = (case rf of Inl rerr \<Rightarrow> Inl (Wrapf ''resolving rate-plan race: '' rerr '''') | Inr w \<Rightarrow> Inr (w, True))"
          using unf run Inl True f by (auto split: sum.splits)
        then show ?thesis using k calm_trans [OF l(1)] True by (cases rf) (simp_all add: found_def)
      next
        case False
        then have "v = u3 \<and> (\<exists>e. rs = Inl e)" using unf run Inl by auto
        then show ?thesis using l by auto
      qed
    qed
  qed
  show ?thesis
  proof (cases "key = ''''")
    case True
    then have "createFresh P inp s = (res, s')" using False assms(3) by (simp add: CreateRatePlan_def key_def split: option.splits)
    from fresh [OF assms(1) this] show ?thesis unfolding key_def .
  next
    case keyed: False
    obtain rf s1 where f: "onStore (pl_FindPlanByIdempotencyKey B key) s = (rf, s1)" by fastforce
    have k: "calm (bl_db s) (bl_db s1)" "found (plan_by_key (view (bl_db s1)) key) rf"
      using find_plan [OF assms(1) onStore_run [OF f, THEN conjunct1]] by blast+
    have unf: "CreateRatePlan P inp s = (case rf of Inr existing \<Rightarrow> (Inr (existing, True), s1)
       | Inl err \<Rightarrow> if \<not> errors_Is err ErrRepoNotFound then (Inl (Wrapf ''rate-plan idempotency lookup: '' err ''''), s1) else createFresh P inp s1)"
      using f False keyed by (auto simp: CreateRatePlan_def assms(2) key_def split: sum.splits)
    show ?thesis
    proof (cases rf)
      case (Inr x)
      then have "res = Inr (x, True)" "s' = s1" using unf assms(3) by simp_all
      then show ?thesis using k Inr keyed by (simp add: found_def key_def)
    next
      case (Inl err)
      show ?thesis
      proof (cases "errors_Is err ErrRepoNotFound")
        case True
        then have "createFresh P inp s1 = (res, s')" using unf assms(3) Inl by simp
        note g = fresh [OF calm_sound [OF k(1)] this]
        have c: "calm (bl_db s) (bl_db s')" using g calm_trans [OF k(1)] by blast
        have "wrote pt (view (bl_db s)) w C" if "wrote pt (view (bl_db s1)) w C" for w C
          using wrote_after [OF calm_evolves [OF k(1)] that] .
        with g c show ?thesis unfolding key_def by metis
      next
        case nf: False
        then have "s' = s1 \<and> (\<exists>e. res = Inl e)" using unf assms(3) Inl by auto
        then show ?thesis using k by auto
      qed
    qed
  qed
qed

lemma GenerateInvoice_spec:
  assumes "sound (bl_db s)" "bs_stores P = B" "GenerateInvoice P team a b s = (res, s')"
  shows "calm (bl_db s) (bl_db s') \<and> (\<forall>iv. res = Inr iv \<longrightarrow> (\<exists>C D plan ev. evolves pt (view (bl_db s)) C \<and> evolves pt C D
    \<and> iv_Team iv = team \<and> iv_PeriodStart iv = a \<and> iv_PeriodEnd iv = b \<and> iv_Status iv = InvoiceStatusFinalized
    \<and> invoices_rows (period_rows C team (pt a) (pt b)) plan iv \<and> plan_of D team = Some plan
    \<and> honest (WInvoice iv ev) \<and> wrote pt D (WInvoice iv ev) (view (bl_db s'))))"
proof (cases "team = '''' \<or> \<not> b > a \<or> Sub b a > MaxUsageWindow")
  case True
  then have "s' = s \<and> (\<exists>e. res = Inl e)" using assms(3) by (auto simp: GenerateInvoice_def split: if_splits)
  then show ?thesis using calm_refl [OF assms(1)] by auto
next
  case False
  obtain rb s1 where ag: "onStore (in_AggregateUsageForPeriod B team a b) s = (rb, s1)" by fastforce
  have l1: "calm (bl_db s) (bl_db s1)" "\<forall>bs. rb = Inr bs \<longrightarrow> rollup (period_rows (view (bl_db s1)) team (pt a) (pt b)) bs"
    using aggregate [OF assms(1) onStore_run [OF ag, THEN conjunct1]] by blast+
  show ?thesis
  proof (cases "\<exists>bs. rb = Inr bs \<and> bs \<noteq> []")
    case False2: False
    then have "s' = s1 \<and> (\<exists>e. res = Inl e)" using assms False ag by (auto simp: GenerateInvoice_def split: sum.splits)
    then show ?thesis using l1 by auto
  next
    case True
    then obtain bs where bs: "rb = Inr bs" "bs \<noteq> []" by blast
    obtain rp s2 where rs: "onStore (pl_ResolvePlanForTeam B team) s1 = (rp, s2)" by fastforce
    have l2: "calm (bl_db s1) (bl_db s2)" "found (plan_of (view (bl_db s2)) team) rp"
      using resolve_plan [OF calm_sound [OF l1(1)] onStore_run [OF rs, THEN conjunct1]] by blast+
    have k: "calm (bl_db s) (bl_db s2)" using calm_trans [OF l1(1) l2(1)] .
    show ?thesis
    proof (cases "\<exists>plan items t. rp = Inr plan \<and> sumLines plan bs [] zeroMoney = Inr (items, t)")
      case none: False
      then have "s' = s2 \<and> (\<exists>e. res = Inl e)" using assms False ag bs rs
        by (auto simp: GenerateInvoice_def split: sum.splits if_splits)
      then show ?thesis using k by auto
    next
      case True
      then obtain plan items t where pl: "rp = Inr plan" "sumLines plan bs [] zeroMoney = Inr (items, t)" by blast
      obtain iv ev s3 where bi: "buildInvoice P team a b plan items (RoundToCents t) s2 = ((iv, ev), s3)" by (metis prod.exhaust)
      note iv = buildInvoice_spec [OF bi]
      obtain ri s4 where sv: "onStore (in_SaveInvoiceTx B iv ev) s3 = (ri, s4)" by fastforce
      have "sound (bl_db s3)" using iv calm_sound [OF k] by simp
      from save_invoice [OF this _ onStore_run [OF sv, THEN conjunct1]] iv
      have l3: "calm (bl_db s2) (bl_db s4)" "\<forall>x. ri = Inr x \<longrightarrow> x = iv \<and> wrote pt (view (bl_db s2)) (WInvoice iv ev) (view (bl_db s4))"
        by auto
      have r: "s' = s4 \<and> res = (case ri of Inl err \<Rightarrow> Inl (Wrapf ''saving invoice: '' err '''') | Inr x \<Rightarrow> Inr x)"
        using assms False ag bs rs pl bi sv by (auto simp: GenerateInvoice_def split: sum.splits)
      have ok: "list_all record_ok (period_rows (view (bl_db s1)) team (pt a) (pt b))"
        using view_wf [OF calm_sound [OF l1(1)]] by (auto simp: bview_ok_def period_rows_def list_all_iff)
      have ru: "rollup (period_rows (view (bl_db s1)) team (pt a) (pt b)) bs" using l1(2) bs by blast
      have rows: "invoices_rows (period_rows (view (bl_db s1)) team (pt a) (pt b)) plan iv"
        using sumLines_rows [OF ru ok bs(2) pl(2)] iv rollup_nonempty [OF ru bs(2)] ru unfolding invoices_rows_def by metis
      have pd: "plan_of (view (bl_db s2)) team = Some plan" using l2(2) pl(1) by (simp add: found_def)
      have c: "calm (bl_db s) (bl_db s')" using r calm_trans [OF k l3(1)] by blast
      have "\<exists>C D plan ev. evolves pt (view (bl_db s)) C \<and> evolves pt C D
          \<and> iv_Team x = team \<and> iv_PeriodStart x = a \<and> iv_PeriodEnd x = b \<and> iv_Status x = InvoiceStatusFinalized
          \<and> invoices_rows (period_rows C team (pt a) (pt b)) plan x \<and> plan_of D team = Some plan
          \<and> honest (WInvoice x ev) \<and> wrote pt D (WInvoice x ev) (view (bl_db s'))" if "res = Inr x" for x
      proof -
        have "x = iv" "wrote pt (view (bl_db s2)) (WInvoice iv ev) (view (bl_db s'))" using r l3(2) that by (cases ri; simp)+
        then show ?thesis using rows pd iv calm_evolves [OF l1(1)] calm_evolves [OF l2(1)] by blast
      qed
      with c show ?thesis by blast
    qed
  qed
qed

lemma reads_calm:
  assumes "sound (bl_db s)" "bs_stores P = B"
  shows "calm (bl_db s) (bl_db (snd (GetRatePlan P i s)))" and "calm (bl_db s) (bl_db (snd (CheckQuota P team meter s)))"
    and "calm (bl_db s) (bl_db (snd (GetUsage P gu s)))" and "calm (bl_db s) (bl_db (snd (GetInvoice P i s)))"
    and "calm (bl_db s) (bl_db (snd (ListInvoices P opts s)))"
proof -
  obtain r1 s1 where a: "onStore (pl_GetPlan B i) s = (r1, s1)" by fastforce
  then show "calm (bl_db s) (bl_db (snd (GetRatePlan P i s)))"
    using get_plan [OF assms(1) onStore_run [OF a, THEN conjunct1]] assms(2) by (simp add: GetRatePlan_def split: sum.splits)
  obtain r2 s2 where b: "onStore (in_GetInvoice B i) s = (r2, s2)" by fastforce
  then show "calm (bl_db s) (bl_db (snd (GetInvoice P i s)))"
    using get_invoice [OF assms(1) onStore_run [OF b, THEN conjunct1]] assms(2) by (simp add: GetInvoice_def split: sum.splits)
  obtain r3 s3 where c: "onStore (in_ListInvoices B (clampOptions opts)) s = (r3, s3)" by fastforce
  then show "calm (bl_db s) (bl_db (snd (ListInvoices P opts s)))"
    using list_invoices [OF assms(1) onStore_run [OF c, THEN conjunct1]] calm_refl [OF assms(1)] assms(2)
    by (simp add: ListInvoices_def split: sum.splits)
  show "calm (bl_db s) (bl_db (snd (CheckQuota P team meter s)))"
  proof -
    obtain r4 s4 where d: "onStore (pl_ResolvePlanForTeam B team) s = (r4, s4)" by fastforce
    have l: "calm (bl_db s) (bl_db s4)" using resolve_plan [OF assms(1) onStore_run [OF d, THEN conjunct1]] by blast
    obtain ps s5 where e: "currentPeriodStart P s4 = (ps, s5)" by fastforce
    obtain r6 s6 where f: "onStore (us_CurrentPeriodUsage B team meter ps) s5 = (r6, s6)" by fastforce
    have "calm (bl_db s) (bl_db s6)"
      using period_usage [OF _ onStore_run [OF f, THEN conjunct1]] calm_sound [OF l] calm_trans [OF l] period_db [OF e] by metis
    moreover have "snd (CheckQuota P team meter s) \<in> {s, s4, s6}"
      by (cases r4; cases r6) (simp_all only: CheckQuota_def assms(2) d e f prod.case sum.case Let_def if_distrib [of snd] snd_conv split: if_split, blast+)
    ultimately show ?thesis using l calm_refl [OF assms(1)] by auto
  qed
  show "calm (bl_db s) (bl_db (snd (GetUsage P gu s)))"
  proof -
    obtain a s4 where d: "(if gu_PeriodStart gu = 0 then currentPeriodStart P s else (gu_PeriodStart gu, s)) = (a, s4)" by fastforce
    obtain b s5 where e: "(if gu_PeriodEnd gu = 0 then Now P s4 else (gu_PeriodEnd gu, s4)) = (b, s5)" by fastforce
    have db: "bl_db s5 = bl_db s" using d e period_db clock_ids(1) by (metis Pair_inject)
    obtain r6 s6 where f: "onStore (in_AggregateUsageForPeriod B (gu_Team gu) a b) s5 = (r6, s6)" by fastforce
    have "calm (bl_db s) (bl_db s6)" using aggregate [OF _ onStore_run [OF f, THEN conjunct1]] assms(1) db by metis
    moreover have "snd (GetUsage P gu s) \<in> {s, s5, s6}"
      unfolding GetUsage_def assms(2) d Let_def prod.case e by (cases r6) (simp_all add: f split: sum.splits)
    ultimately show ?thesis using db calm_refl [OF assms(1)] by auto
  qed
qed

end

section \<open>Runs\<close>

datatype BillCall = CallUsage string RecordUsageInput | CallPlan CreateRatePlanInput | CallGetPlan string | CallQuota string MeterType
  | CallGetUsage GetUsageInput | CallGetInvoice string | CallListInvoices ListInvoicesOptions | CallInvoice string time time

fun run_call :: "'s billingService \<Rightarrow> BillCall \<Rightarrow> 's billState \<Rightarrow> 's billState" where
  "run_call P (CallUsage team inp) s = snd (RecordUsage P team inp s)"
| "run_call P (CallPlan inp) s = snd (CreateRatePlan P inp s)"
| "run_call P (CallGetPlan i) s = snd (GetRatePlan P i s)"
| "run_call P (CallQuota team meter) s = snd (CheckQuota P team meter s)"
| "run_call P (CallGetUsage inp) s = snd (GetUsage P inp s)"
| "run_call P (CallGetInvoice i) s = snd (GetInvoice P i s)"
| "run_call P (CallListInvoices opts) s = snd (ListInvoices P opts s)"
| "run_call P (CallInvoice team a b) s = snd (GenerateInvoice P team a b s)"

fun run_calls :: "'s billingService \<Rightarrow> BillCall list \<Rightarrow> 's billState \<Rightarrow> 's billState" where
  "run_calls P [] s = s"
| "run_calls P (c # cs) s = run_calls P cs (run_call P c s)"

lemma find_snoc_None: "find Q xs = None \<Longrightarrow> find Q (xs @ [x]) = (if Q x then Some x else None)"
  by (induction xs) (auto split: if_splits)

lemma distinct_single:
  assumes "distinct xs" "set xs = {x}" shows "xs = [x]"
proof -
  have "length xs = card {x}" using distinct_card [OF assms(1)] unfolding assms(2) by (rule sym)
  then obtain y where "xs = [y]" by (auto simp: length_Suc_conv)
  with assms(2) show ?thesis by simp
qed

context bill_store
begin

lemma run_call_calm:
  assumes "sound (bl_db s)" "bs_stores P = B"
  shows "calm (bl_db s) (bl_db (run_call P c s))"
proof (cases c)
  case (CallUsage team inp)
  then show ?thesis using RecordUsage_spec [OF assms surjective_pairing] by auto
next
  case (CallPlan inp)
  then show ?thesis using CreateRatePlan_spec [OF assms surjective_pairing] by auto
next
  case (CallInvoice team a b)
  then show ?thesis using GenerateInvoice_spec [OF assms surjective_pairing] by auto
qed (simp_all add: reads_calm assms)

lemma run_calls_calm: "sound (bl_db s) \<Longrightarrow> bs_stores P = B \<Longrightarrow> calm (bl_db s) (bl_db (run_calls P cs s))"
proof (induction cs arbitrary: s)
  case (Cons c cs)
  note k = run_call_calm [OF Cons.prems, of c]
  show ?case using Cons.IH [OF calm_sound [OF k] Cons.prems(2)] calm_trans [OF k] by simp
qed (simp add: calm_refl)

lemma run_paired:
  "sound (bl_db s) \<Longrightarrow> bs_stores P = B \<Longrightarrow> paired pt (view (bl_db s)) \<Longrightarrow> paired pt (view (bl_db (run_calls P cs s)))"
  using evolves_paired [OF calm_evolves [OF run_calls_calm]] by blast

text \<open>A keyed record reads back under its key, and any later call with the key gives that record.\<close>

lemma RecordUsage_keyed:
  assumes "sound (bl_db s)" "bs_stores P = B" "RecordUsage P team inp s = (Inr (r, dup), s')" "ru_IdempotencyKey inp \<noteq> ''''"
  shows "keyed_record (view (bl_db s')) team (ru_IdempotencyKey inp) = Some (if dup then r else usage_row pt r)"
proof (cases dup)
  case True
  then show ?thesis using RecordUsage_spec [OF assms(1-3)] by (auto simp: recorded_def)
next
  case False
  then obtain C D n evs where w: "charged C D (pt (monthStart (bs_clock P n))) team inp r" "wrote pt D (WUsage r evs) (view (bl_db s'))"
    using RecordUsage_spec [OF assms(1-3)] by (auto simp: recorded_def)
  then have f: "ur_Team r = team" "ur_IdempotencyKey r = ru_IdempotencyKey inp" by (auto simp: charged_def record_of_def)
  from w(2) obtain E where e: "admits E (WUsage r evs)" "view (bl_db s') = commit pt (WUsage r evs) E" by (auto simp: wrote_def)
  then have "keyed_record E team (ru_IdempotencyKey inp) = None" using f assms(4) by (simp add: keyed_record_None)
  then show ?thesis using f False e(2) by (simp add: keyed_record_def find_snoc_None usage_row_def)
qed

lemma RecordUsage_repeat:
  assumes "sound (bl_db s)" "bs_stores P = B" "RecordUsage P team inp s = (Inr (r, dup), s')" "ru_IdempotencyKey inp \<noteq> ''''"
    and "keyed_record (view (bl_db s)) team (ru_IdempotencyKey inp) = Some x"
  shows "dup \<and> r = x"
proof (cases dup)
  case True
  have "keyed_record (view (bl_db s')) team (ru_IdempotencyKey inp) = Some x"
    using keyed_record_stays [OF _ assms(5)] calm_evolves RecordUsage_spec [OF assms(1-3)] by blast
  then show ?thesis using RecordUsage_keyed [OF assms(1-4)] True by simp
next
  case False
  then obtain C D n evs where w: "evolves pt (view (bl_db s)) C" "evolves pt C D" "charged C D (pt (monthStart (bs_clock P n))) team inp r"
      "wrote pt D (WUsage r evs) (view (bl_db s'))"
    using RecordUsage_spec [OF assms(1-3)] by (auto simp: recorded_def)
  then obtain E where e: "evolves pt D E" "admits E (WUsage r evs)" by (auto simp: wrote_def)
  have "evolves pt (view (bl_db s)) E" using w(1,2) e(1) by (meson rtranclp_trans)
  from keyed_record_stays [OF this assms(5)] have "keyed E team (ru_IdempotencyKey inp)"
    using keyed_record_None by (metis option.distinct(1))
  moreover have "ur_Team r = team" "ur_IdempotencyKey r = ru_IdempotencyKey inp" using w(3) by (auto simp: charged_def record_of_def)
  ultimately show ?thesis using e(2) assms(4) by simp
qed

lemma keyed_once:
  assumes "sound d" "keyed_record (view d) team key = Some r" "key \<noteq> ''''"
  shows "filter (\<lambda>x. ur_Team x = team \<and> ur_IdempotencyKey x = key) (bv_ledger (view d)) = [r]"
proof -
  have ok: "bview_ok (view d)" using view_wf [OF assms(1)] .
  have r: "r \<in> set (bv_ledger (view d))" "ur_Team r = team" "ur_IdempotencyKey r = key" using keyed_record_Some [OF assms(2)] by auto
  have "x = r" if "x \<in> set (bv_ledger (view d))" "ur_Team x = team" "ur_IdempotencyKey x = key" for x
    using keyed_unique [of "bv_ledger (view d)" x r] ok that r assms(3) by (simp add: bview_ok_def)
  then have "set (filter (\<lambda>x. ur_Team x = team \<and> ur_IdempotencyKey x = key) (bv_ledger (view d))) = {r}"
    unfolding set_filter using r by blast
  moreover have "distinct (bv_ledger (view d))" using ok by (simp add: bview_ok_def distinct_map)
  ultimately show ?thesis by (intro distinct_single) simp_all
qed

end

section \<open>The free allowance\<close>

text \<open>No record of the team and the meter was billed any unit.\<close>

definition unbilled :: "billView \<Rightarrow> string \<Rightarrow> MeterType \<Rightarrow> bool" where
  "unbilled A team meter \<longleftrightarrow> (\<forall>r \<in> set (bv_ledger A). ur_Team r = team \<and> ur_MeterType r = meter \<longrightarrow> ur_Quantity r = 0 \<and> AmountMicros (ur_Cost r) = 0)"

text \<open>The ids to come are new.\<close>

definition fresh_ids :: "(nat \<Rightarrow> string) \<Rightarrow> nat \<Rightarrow> billView \<Rightarrow> bool" where
  "fresh_ids ids n A \<longleftrightarrow> inj ids \<and> (\<forall>k \<ge> n. ids k \<notin> ur_ID ` set (bv_ledger A) \<and> ids k \<notin> oe_ID ` set (bv_outbox A))"

text \<open>A call within the allowance: no key, no event time, and a quantity the whole allowance of the plan covers.\<close>

definition within_allowance :: "RatePlan \<Rightarrow> MeterType \<Rightarrow> RecordUsageInput \<Rightarrow> bool" where
  "within_allowance plan meter inp \<longleftrightarrow> ru_MeterType inp = meter \<and> ru_IdempotencyKey inp = '''' \<and> ru_OccurredAt inp = 0
     \<and> 0 \<le> sint (ru_Quantity inp) \<and> sint (ru_Quantity inp) \<le> 1000000000000
     \<and> sint (ru_Quantity inp) \<le> sint (map_get (rp_IncludedQuantities plan) meter 0) \<and> 0 < sint (map_get (rp_IncludedQuantities plan) meter 0)"

lemma unbilled_sum: "unbilled A team meter \<Longrightarrow> billed_since A team meter t = 0"
proof -
  assume u: "unbilled A team meter"
  let ?xs = "filter (\<lambda>r. ur_Team r = team \<and> ur_MeterType r = meter \<and> ur_OccurredAt r \<ge> t) (bv_ledger A)"
  have "map (sint \<circ> ur_Quantity) ?xs = map (\<lambda>r. 0) ?xs" using u by (auto simp: unbilled_def)
  then show ?thesis unfolding billed_since_def by (simp only: sum_list_0)
qed

lemma buildUsage_ids:
  assumes "buildUsage P team inp plan prior qty cost s = ((r, evs), s')" "ru_OccurredAt inp = 0"
  shows "ur_ID r = bs_ids P (bl_ids s) \<and> map oe_ID evs = map (bs_ids P) [Suc (bl_ids s)..<bl_ids s'] \<and> bl_ids s' > Suc (bl_ids s)
    \<and> (\<exists>n. ur_OccurredAt r = bs_clock P n)
    \<and> list_all (\<lambda>e. oe_Payload e = UsageRecordedP (usagePayload r) \<or> (\<exists>p. oe_Payload e = QuotaExceededP p \<and> qp_OccurredAt p = ur_OccurredAt r)) evs"
  using assms by (auto simp: buildUsage_def clampOccurredAt_def Now_def NewID_def buildOutboxEvent_simp Let_def split: option.splits if_splits)

context bill_store
begin

lemma RecordUsage_within_allowance:
  assumes "sound (bl_db s)" "bs_stores P = B" "healthy (bl_db s)" "plan_of (view (bl_db s)) team = Some plan"
    and "PriceFor plan meter = Some price" "team \<noteq> ''''" "IsBillable meter" "within_allowance plan meter inp"
    and "unbilled (view (bl_db s)) team meter" "fresh_ids (bs_ids P) (bl_ids s) (view (bl_db s))" "\<forall>n. json_time (bs_clock P n)"
  obtains r evs s' where "RecordUsage P team inp s = (Inr (r, False), s')" "healthy (bl_db s')" "sound (bl_db s')"
    "view (bl_db s') = commit pt (WUsage r evs) (view (bl_db s))" "ur_Quantity r = 0" "AmountMicros (ur_Cost r) = 0"
    "fresh_ids (bs_ids P) (bl_ids s') (view (bl_db s'))" "ur_Team r = team" "ur_MeterType r = meter"
proof -
  note outs = that
  note w = assms(8) [unfolded within_allowance_def]
  obtain rp s1 where a: "onStore (pl_ResolvePlanForTeam B team) s = (rp, s1)" by fastforce
  have l1: "calm (bl_db s) (bl_db s1)" "view (bl_db s1) = view (bl_db s)" "rp = Inr plan" "bl_ids s1 = bl_ids s"
    using resolve_plan [OF assms(1) onStore_run [OF a, THEN conjunct1]] assms(3,4) onStore_run [OF a] by (auto simp: reply_def)
  obtain ps s2 where b: "currentPeriodStart P s1 = (ps, s2)" by fastforce
  have db2: "bl_db s2 = bl_db s1" "bl_ids s2 = bl_ids s1" using period_db [OF b] b by (auto simp: currentPeriodStart_def Now_def)
  have h2: "sound (bl_db s2)" "healthy (bl_db s2)" using l1(1) assms(3) db2 by (simp_all add: kept_def)
  obtain rq s3 where c: "onStore (us_CurrentPeriodUsage B team meter ps) s2 = (rq, s3)" by fastforce
  have zero: "billed_since (view (bl_db s2)) team meter (pt ps) = 0" using unbilled_sum [OF assms(9)] l1(2) db2 by simp
  have l2: "calm (bl_db s2) (bl_db s3)" "view (bl_db s3) = view (bl_db s2)" "rq = Inr 0" "bl_ids s3 = bl_ids s2"
    using period_usage [OF h2(1) onStore_run [OF c, THEN conjunct1]] h2(2) onStore_run [OF c] zero by (auto simp: in_int64_def)
  have q0: "billableQuantity 0 (ru_Quantity inp) (map_get (rp_IncludedQuantities plan) meter 0) = 0"
    using w by (auto simp: billableQuantity_def Let_def word_sle_eq word_sless_alt)
  define cost where "cost = \<lparr>AmountMicros = 0, CurrencyCode = CurrencyCode price\<rparr>"
  have cc: "computeCost plan meter 0 = Inr cost" using assms(5) by (simp add: computeCost_exact in_int64_def cost_def)
  obtain r evs s4 where d: "buildUsage P team inp plan 0 0 cost s3 = ((r, evs), s4)" by (metis prod.exhaust)
  note bu = buildUsage_spec [OF d]
  have bi: "ur_ID r = bs_ids P (bl_ids s3)" "map oe_ID evs = map (bs_ids P) [Suc (bl_ids s3)..<bl_ids s4]" "bl_ids s4 > Suc (bl_ids s3)"
      "\<exists>n. ur_OccurredAt r = bs_clock P n"
      "list_all (\<lambda>e. oe_Payload e = UsageRecordedP (usagePayload r) \<or> (\<exists>p. oe_Payload e = QuotaExceededP p \<and> qp_OccurredAt p = ur_OccurredAt r)) evs"
    using buildUsage_ids [OF d] w by blast+
  have ids3: "bl_ids s3 = bl_ids s" using l1(4) l2(4) db2 by simp
  have v4: "view (bl_db s4) = view (bl_db s)" using bu(1) l2(2) l1(2) db2 by simp
  have h4: "sound (bl_db s4)" "healthy (bl_db s4)" using l2(1) h2 bu(1) by (simp_all add: kept_def)
  have f: "ur_Team r = team" "ur_MeterType r = meter" "ur_IdempotencyKey r = ''''" "ur_Quantity r = 0" "ur_Cost r = cost"
    using bu(3) w by (auto simp: record_of_def)
  have "plan_ok plan" using plan_of_ok [OF view_wf [OF assms(1)] assms(4)] .
  from plan_ok_price [OF this assms(5)] have "record_ok r" using f assms(6,7) by (simp add: record_ok_def cost_def)
  note hw = bu(2) [OF this]
  note fr = assms(10) [unfolded fresh_ids_def]
  have inj: "inj (bs_ids P)" using fr by blast
  have evids: "set (map oe_ID evs) \<subseteq> bs_ids P ` {bl_ids s..}" unfolding bi(2) ids3 by auto
  have "bs_ids P ` {bl_ids s..} \<inter> oe_ID ` set (bv_outbox (view (bl_db s))) = {}" using fr by blast
  then have "set (map oe_ID evs) \<inter> set (map oe_ID (bv_outbox (view (bl_db s)))) = {}"
    using evids unfolding set_map by blast
  moreover have "distinct (map oe_ID evs)" unfolding bi(2) by (simp add: distinct_map inj_on_subset [OF inj subset_UNIV])
  moreover have "ur_ID r \<notin> ur_ID ` set (bv_ledger (view (bl_db s)))" using fr bi(1) ids3 by simp
  ultimately have adm: "admits (view (bl_db s4)) (WUsage r evs)" using f(3) v4 by (simp add: fresh_events_def)
  have enc: "list_all (encodable \<circ> oe_Payload) evs" using bi(4,5) assms(11) by (auto simp: list_all_iff usagePayload_def)
  obtain ru s5 where t: "onStore (us_RecordUsageTx B r evs) s4 = (ru, s5)" by fastforce
  note tx = record_tx [OF h4(1) hw onStore_run [OF t, THEN conjunct1]]
  have l5: "calm (bl_db s4) (bl_db s5)" "ru = Inr r" "view (bl_db s5) = commit pt (WUsage r evs) (view (bl_db s))" "bl_ids s5 = bl_ids s4"
    using tx [THEN conjunct1] tx [THEN conjunct2, THEN conjunct2, rule_format, OF h4(2), unfolded if_P [OF conjI [OF adm enc]]]
      onStore_run [OF t] v4 by simp_all
  have run: "RecordUsage P team inp s = (Inr (r, False), s5)"
    using a b c d l1(3) l2(3) q0 cc t l5(2) w assms(2,6,7)
    by (simp add: RecordUsage_def recordFresh_def storeUsage_def word_sless_alt MaxQuantityPerRecord_def)
  have led: "ur_ID ` set (bv_ledger (view (bl_db s5))) = insert (bs_ids P (bl_ids s)) (ur_ID ` set (bv_ledger (view (bl_db s))))"
    unfolding l5(3) using bi(1) ids3 by (auto simp: usage_row_def)
  have "set (map oe_ID evs) = bs_ids P ` {Suc (bl_ids s)..<bl_ids s4}" unfolding bi(2) ids3 by simp
  then have ob: "oe_ID ` set (bv_outbox (view (bl_db s5))) = oe_ID ` set (bv_outbox (view (bl_db s))) \<union> bs_ids P ` {Suc (bl_ids s)..<bl_ids s4}"
    unfolding l5(3) by (simp add: image_Un image_image event_row_def)
  have fr5: "fresh_ids (bs_ids P) (bl_ids s5) (view (bl_db s5))"
    unfolding fresh_ids_def led ob using fr bi(3) ids3 l5(4) by (auto dest: injD [OF inj])
  show thesis
    using outs [OF run _ _ l5(3) f(4) _ fr5 f(1,2)] l5(1) h4 f(5) by (simp add: kept_def cost_def)
qed

lemma run_within_allowance:
  assumes "sound (bl_db s)" "bs_stores P = B" "healthy (bl_db s)" "plan_of (view (bl_db s)) team = Some plan"
    and "PriceFor plan meter = Some price" "team \<noteq> ''''" "IsBillable meter" "list_all (within_allowance plan meter) inps"
    and "unbilled (view (bl_db s)) team meter" "fresh_ids (bs_ids P) (bl_ids s) (view (bl_db s))" "\<forall>n. json_time (bs_clock P n)"
  shows "unbilled (view (bl_db (run_calls P (map (CallUsage team) inps) s))) team meter
    \<and> (\<exists>rs. bv_ledger (view (bl_db (run_calls P (map (CallUsage team) inps) s))) = bv_ledger (view (bl_db s)) @ rs \<and> length rs = length inps
        \<and> (\<forall>r \<in> set rs. ur_Team r = team \<and> ur_MeterType r = meter))"
  using assms
proof (induction inps arbitrary: s)
  case (Cons inp inps)
  have w: "within_allowance plan meter inp" using Cons.prems(8) by simp
  obtain r evs s' where r: "RecordUsage P team inp s = (Inr (r, False), s')" "healthy (bl_db s')" "sound (bl_db s')"
    "view (bl_db s') = commit pt (WUsage r evs) (view (bl_db s))" "ur_Quantity r = 0" "AmountMicros (ur_Cost r) = 0"
    "fresh_ids (bs_ids P) (bl_ids s') (view (bl_db s'))" "ur_Team r = team" "ur_MeterType r = meter"
    by (rule RecordUsage_within_allowance [OF Cons.prems(1-7) w Cons.prems(9-11)])
  have p: "plan_of (view (bl_db s')) team = Some plan" using Cons.prems(4) by (simp add: r(4) plan_of_def)
  have u: "unbilled (view (bl_db s')) team meter" using Cons.prems(9) r(5,6) by (auto simp: r(4) unbilled_def usage_row_def)
  have ws: "list_all (within_allowance plan meter) inps" using Cons.prems(8) by simp
  from Cons.IH [OF r(3) Cons.prems(2) r(2) p Cons.prems(5-7) ws u r(7) Cons.prems(11)] obtain rs where
    rs: "unbilled (view (bl_db (run_calls P (map (CallUsage team) inps) s'))) team meter"
      "bv_ledger (view (bl_db (run_calls P (map (CallUsage team) inps) s'))) = bv_ledger (view (bl_db s')) @ rs" "length rs = length inps"
      "\<forall>r \<in> set rs. ur_Team r = team \<and> ur_MeterType r = meter" by blast
  have run: "run_calls P (map (CallUsage team) (inp # inps)) s = run_calls P (map (CallUsage team) inps) s'" by (simp add: r(1))
  have led: "bv_ledger (view (bl_db s')) = bv_ledger (view (bl_db s)) @ [usage_row pt r]" by (simp add: r(4))
  show ?case unfolding run
    using rs led r(8,9) by (intro conjI exI [of _ "usage_row pt r # rs"]) (auto simp: usage_row_def)
qed simp

end

end
