(* ===== verification/BillingColumns.thy ===== *)
theory BillingColumns
  imports BillingRun
begin

text \<open>
  The JSON columns of billing's tables (\<^verbatim>\<open>repository/postgres/mapping.go\<close>) and their decoding by the relay
  (\<^verbatim>\<open>events/relay.go\<close>): price and quantity maps, the lines of an invoice, and the payloads of the outbox.
  Every document reads back as what was written.
\<close>

section \<open>JSON columns\<close>

text \<open>
  A JSON document; \<open>JTime\<close> is the text of a time. Reading a field that is absent or null gives the zero
  value, a value of another type is an error.
\<close>

datatype json = JNull | JStr string | JNum int | JTime time | JArr "json list" | JObj "(string \<times> json) list"

definition jsonError :: goerr where
  "jsonError = Dyn ''json: cannot unmarshal value''"

definition field :: "json \<Rightarrow> string \<Rightarrow> json" where
  "field j k = (case j of JObj fs \<Rightarrow> (case map_of fs k of Some v \<Rightarrow> v | None \<Rightarrow> JNull) | _ \<Rightarrow> JNull)"

fun asStr :: "json \<Rightarrow> goerr + string" where
  "asStr JNull = Inr ''''" | "asStr (JStr s) = Inr s" | "asStr j = Inl jsonError"

fun asInt :: "json \<Rightarrow> goerr + int64" where
  "asInt JNull = Inr 0" | "asInt (JNum i) = (if in_int64 i then Inr (word_of_int i) else Inl jsonError)" | "asInt j = Inl jsonError"

fun asTime :: "json \<Rightarrow> goerr + time" where
  "asTime JNull = Inr 0" | "asTime (JTime t) = Inr t" | "asTime j = Inl jsonError"

definition ebind :: "goerr + 'a \<Rightarrow> ('a \<Rightarrow> goerr + 'b) \<Rightarrow> goerr + 'b" where
  "ebind x f = (case x of Inl e \<Rightarrow> Inl e | Inr y \<Rightarrow> f y)"

lemma ebind_simps [simp]: "ebind (Inr y) f = f y" "ebind (Inl e) f = Inl e"
  by (simp_all add: ebind_def)

fun emap :: "('a \<Rightarrow> goerr + 'b) \<Rightarrow> 'a list \<Rightarrow> goerr + 'b list" where
  "emap f [] = Inr []"
| "emap f (x # xs) = ebind (f x) (\<lambda>y. ebind (emap f xs) (\<lambda>ys. Inr (y # ys)))"

definition jnum :: "int64 \<Rightarrow> json" where
  "jnum w = JNum (sint w)"

lemma asInt_jnum [simp]: "asInt (jnum w) = Inr w"
  by (simp add: jnum_def)

lemma field_simps [simp]:
  "field (JObj ((k, v) # fs)) k' = (if k = k' then v else field (JObj fs) k')" "field (JObj []) k' = JNull"
  by (simp_all add: field_def)

definition toMoneyJSON :: "Money \<Rightarrow> json" where
  "toMoneyJSON m = JObj [(''micros'', jnum (AmountMicros m)), (''currency'', JStr (CurrencyCode m))]"

definition toDomain :: "json \<Rightarrow> goerr + Money" where
  "toDomain j = (case j of JObj _ \<Rightarrow> ebind (asInt (field j ''micros'')) (\<lambda>micros. ebind (asStr (field j ''currency'')) (\<lambda>currency.
       Inr \<lparr>AmountMicros = micros, CurrencyCode = currency\<rparr>)) | JNull \<Rightarrow> Inr zeroMoney | _ \<Rightarrow> Inl jsonError)"

lemma toDomain_toMoneyJSON [simp]: "toDomain (toMoneyJSON m) = Inr m"
  by (simp add: toDomain_def toMoneyJSON_def)

definition marshalUnitPrices :: "(MeterType \<times> Money) list \<Rightarrow> json" where
  "marshalUnitPrices prices = JObj (map (\<lambda>(meter, price). (meter, toMoneyJSON price)) prices)"

fun unmarshalUnitPrices :: "json \<Rightarrow> goerr + (MeterType \<times> Money) list" where
  "unmarshalUnitPrices (JObj fs) = emap (\<lambda>(meter, mj). ebind (toDomain mj) (\<lambda>price. Inr (meter, price))) fs"
| "unmarshalUnitPrices JNull = Inr []"
| "unmarshalUnitPrices j = Inl (Wrapf ''unmarshal unit_prices: '' jsonError '''')"

definition marshalQtyMap :: "(MeterType \<times> int64) list \<Rightarrow> json" where
  "marshalQtyMap m = JObj (map (\<lambda>(meter, v). (meter, jnum v)) m)"

fun unmarshalQtyMap :: "json \<Rightarrow> goerr + (MeterType \<times> int64) list" where
  "unmarshalQtyMap (JObj fs) = emap (\<lambda>(meter, j). ebind (asInt j) (\<lambda>v. Inr (meter, v))) fs"
| "unmarshalQtyMap JNull = Inr []"
| "unmarshalQtyMap j = Inl (Wrapf ''unmarshal quantity map: '' jsonError '''')"

definition lineJSON :: "InvoiceLineItem \<Rightarrow> json" where
  "lineJSON li = JObj [(''meter_type'', JStr (li_MeterType li)), (''description'', JStr (li_Description li)), (''quantity'', jnum (li_Quantity li)),
     (''unit_price'', toMoneyJSON (li_UnitPrice li)), (''amount'', toMoneyJSON (li_Amount li))]"

definition lineOfJSON :: "json \<Rightarrow> goerr + InvoiceLineItem" where
  "lineOfJSON j = ebind (asStr (field j ''meter_type'')) (\<lambda>meter. ebind (asStr (field j ''description'')) (\<lambda>descr.
     ebind (asInt (field j ''quantity'')) (\<lambda>qty. ebind (toDomain (field j ''unit_price'')) (\<lambda>price. ebind (toDomain (field j ''amount'')) (\<lambda>amount.
       Inr \<lparr>li_MeterType = meter, li_Description = descr, li_Quantity = qty, li_UnitPrice = price, li_Amount = amount\<rparr>)))))"

definition marshalLineItems :: "InvoiceLineItem list \<Rightarrow> json" where
  "marshalLineItems items = JArr (map lineJSON items)"

fun unmarshalLineItems :: "json \<Rightarrow> goerr + InvoiceLineItem list" where
  "unmarshalLineItems (JArr js) = emap lineOfJSON js"
| "unmarshalLineItems JNull = Inr []"
| "unmarshalLineItems j = Inl (Wrapf ''unmarshal line_items: '' jsonError '''')"

text \<open>\<^verbatim>\<open>json.Marshal\<close> of a payload: an object with the exported fields; a time outside of the years 0 to 9999 is an error.\<close>

fun marshalOutboxPayload :: "OutboxPayload \<Rightarrow> goerr + json" where
  "marshalOutboxPayload p = (if \<not> encodable p
     then Inl (Wrapf (''marshal outbox payload ('' @ EventType p @ ''): '') (Dyn ''Time.MarshalJSON: year outside of range [0,9999]'') '''')
     else Inr (case p of
       UsageRecordedP u \<Rightarrow> JObj [(''RecordID'', JStr (up_RecordID u)), (''Team'', JStr (up_Team u)), (''RatePlanID'', JStr (up_RatePlanID u)),
         (''MeterType'', JStr (up_MeterType u)), (''Quantity'', jnum (up_Quantity u)), (''CostMicros'', jnum (up_CostMicros u)),
         (''CurrencyCode'', JStr (up_CurrencyCode u)), (''ModelID'', JStr (up_ModelID u)), (''ModelVersion'', JStr (up_ModelVersion u)),
         (''SourceRequestID'', JStr (up_SourceRequestID u)), (''OccurredAt'', JTime (up_OccurredAt u))]
     | QuotaExceededP q \<Rightarrow> JObj [(''Team'', JStr (qp_Team q)), (''RatePlanID'', JStr (qp_RatePlanID q)), (''MeterType'', JStr (qp_MeterType q)),
         (''QuotaLimit'', jnum (qp_QuotaLimit q)), (''CurrentUsage'', jnum (qp_CurrentUsage q)), (''OccurredAt'', JTime (qp_OccurredAt q))]
     | InvoiceGeneratedP i \<Rightarrow> JObj [(''InvoiceID'', JStr (ip_InvoiceID i)), (''InvoiceNumber'', JStr (ip_InvoiceNumber i)), (''Team'', JStr (ip_Team i)),
         (''RatePlanID'', JStr (ip_RatePlanID i)), (''PeriodStart'', JTime (ip_PeriodStart i)), (''PeriodEnd'', JTime (ip_PeriodEnd i)),
         (''TotalMicros'', jnum (ip_TotalMicros i)), (''CurrencyCode'', JStr (ip_CurrencyCode i)), (''FinalizedAt'', JTime (ip_FinalizedAt i))]))"

declare marshalOutboxPayload.simps [simp del]

text \<open>\<^verbatim>\<open>json.Unmarshal\<close> into the payload type an event type stands for, as the relay reads a row.\<close>

definition unmarshalUsage :: "json \<Rightarrow> goerr + UsageRecordedPayload" where
  "unmarshalUsage j = ebind (asStr (field j ''RecordID'')) (\<lambda>a. ebind (asStr (field j ''Team'')) (\<lambda>b. ebind (asStr (field j ''RatePlanID'')) (\<lambda>c.
     ebind (asStr (field j ''MeterType'')) (\<lambda>d. ebind (asInt (field j ''Quantity'')) (\<lambda>e. ebind (asInt (field j ''CostMicros'')) (\<lambda>f.
     ebind (asStr (field j ''CurrencyCode'')) (\<lambda>g. ebind (asStr (field j ''ModelID'')) (\<lambda>h. ebind (asStr (field j ''ModelVersion'')) (\<lambda>i.
     ebind (asStr (field j ''SourceRequestID'')) (\<lambda>k. ebind (asTime (field j ''OccurredAt'')) (\<lambda>t.
       Inr \<lparr>up_RecordID = a, up_Team = b, up_RatePlanID = c, up_MeterType = d, up_Quantity = e, up_CostMicros = f, up_CurrencyCode = g,
         up_ModelID = h, up_ModelVersion = i, up_SourceRequestID = k, up_OccurredAt = t\<rparr>)))))))))))"

definition unmarshalQuota :: "json \<Rightarrow> goerr + QuotaExceededPayload" where
  "unmarshalQuota j = ebind (asStr (field j ''Team'')) (\<lambda>a. ebind (asStr (field j ''RatePlanID'')) (\<lambda>b. ebind (asStr (field j ''MeterType'')) (\<lambda>c.
     ebind (asInt (field j ''QuotaLimit'')) (\<lambda>d. ebind (asInt (field j ''CurrentUsage'')) (\<lambda>e. ebind (asTime (field j ''OccurredAt'')) (\<lambda>t.
       Inr \<lparr>qp_Team = a, qp_RatePlanID = b, qp_MeterType = c, qp_QuotaLimit = d, qp_CurrentUsage = e, qp_OccurredAt = t\<rparr>))))))"

definition unmarshalInvoice :: "json \<Rightarrow> goerr + InvoiceGeneratedPayload" where
  "unmarshalInvoice j = ebind (asStr (field j ''InvoiceID'')) (\<lambda>a. ebind (asStr (field j ''InvoiceNumber'')) (\<lambda>b. ebind (asStr (field j ''Team'')) (\<lambda>c.
     ebind (asStr (field j ''RatePlanID'')) (\<lambda>d. ebind (asTime (field j ''PeriodStart'')) (\<lambda>e. ebind (asTime (field j ''PeriodEnd'')) (\<lambda>f.
     ebind (asInt (field j ''TotalMicros'')) (\<lambda>g. ebind (asStr (field j ''CurrencyCode'')) (\<lambda>h. ebind (asTime (field j ''FinalizedAt'')) (\<lambda>t.
       Inr \<lparr>ip_InvoiceID = a, ip_InvoiceNumber = b, ip_Team = c, ip_RatePlanID = d, ip_PeriodStart = e, ip_PeriodEnd = f, ip_TotalMicros = g,
         ip_CurrencyCode = h, ip_FinalizedAt = t\<rparr>)))))))))"

definition unmarshalPayload :: "string \<Rightarrow> json \<Rightarrow> goerr + OutboxPayload" where
  "unmarshalPayload eventType j =
     (if eventType = EventTypeUsageRecorded then (case unmarshalUsage j of
          Inl err \<Rightarrow> Inl (Wrapf ''decode UsageRecorded payload: '' err '''') | Inr p \<Rightarrow> Inr (UsageRecordedP p))
      else if eventType = EventTypeQuotaExceeded then (case unmarshalQuota j of
          Inl err \<Rightarrow> Inl (Wrapf ''decode QuotaExceeded payload: '' err '''') | Inr p \<Rightarrow> Inr (QuotaExceededP p))
      else if eventType = EventTypeInvoiceGenerated then (case unmarshalInvoice j of
          Inl err \<Rightarrow> Inl (Wrapf ''decode InvoiceGenerated payload: '' err '''') | Inr p \<Rightarrow> Inr (InvoiceGeneratedP p))
      else Inl (Dyn (''unknown outbox event_type '' @ quote eventType @ '' (no events.v1 mapping)'')))"

text \<open>What is written in a column is what is read.\<close>

lemma emap_map: "(\<And>x. x \<in> set xs \<Longrightarrow> f (g x) = Inr x) \<Longrightarrow> emap f (map g xs) = Inr xs"
  by (induction xs) auto

lemma unit_prices_roundtrip [simp]: "unmarshalUnitPrices (marshalUnitPrices prices) = Inr prices"
  by (auto simp: marshalUnitPrices_def intro!: emap_map)

lemma qty_map_roundtrip [simp]: "unmarshalQtyMap (marshalQtyMap m) = Inr m"
  by (auto simp: marshalQtyMap_def intro!: emap_map)

lemma line_items_roundtrip [simp]: "unmarshalLineItems (marshalLineItems items) = Inr items"
  by (auto simp: marshalLineItems_def lineJSON_def lineOfJSON_def intro!: emap_map)

lemma event_types_distinct:
  "EventTypeUsageRecorded \<noteq> EventTypeQuotaExceeded" "EventTypeUsageRecorded \<noteq> EventTypeInvoiceGenerated" "EventTypeQuotaExceeded \<noteq> EventTypeInvoiceGenerated"
  by (simp_all add: event_type_defs)

lemma payload_roundtrip:
  assumes "marshalOutboxPayload p = Inr j" shows "unmarshalPayload (EventType p) j = Inr p"
proof -
  have e: "encodable p" using assms by (auto simp: marshalOutboxPayload.simps split: if_splits)
  show ?thesis
  proof (cases p)
    case (UsageRecordedP u)
    then have "unmarshalUsage j = Inr u" using assms e by (auto simp: marshalOutboxPayload.simps unmarshalUsage_def)
    then show ?thesis using UsageRecordedP by (simp add: unmarshalPayload_def)
  next
    case (QuotaExceededP q)
    then have "unmarshalQuota j = Inr q" using assms e by (auto simp: marshalOutboxPayload.simps unmarshalQuota_def)
    then show ?thesis using QuotaExceededP event_types_distinct by (simp add: unmarshalPayload_def)
  next
    case (InvoiceGeneratedP i)
    then have "unmarshalInvoice j = Inr i" using assms e by (auto simp: marshalOutboxPayload.simps unmarshalInvoice_def)
    then show ?thesis using InvoiceGeneratedP event_types_distinct by (simp add: unmarshalPayload_def)
  qed
qed

lemma marshal_ok: "encodable p \<longleftrightarrow> (\<exists>j. marshalOutboxPayload p = Inr j)"
  by (simp add: marshalOutboxPayload.simps)

end
