(* ===== verification/BillingPostgres.thy ===== *)
theory BillingPostgres
  imports BillingColumns "HOL-Library.AList" "HOL-Library.List_Lexorder" "HOL-Library.Char_ord"
begin

text \<open>
  The Postgres adapters of billing (\<^verbatim>\<open>repository/postgres/\<close>) on the rows of the tables of
  \<^verbatim>\<open>migrations/001_init.up.sql\<close>. A statement is applied to the rows and refused when the result breaks an
  index or a reference; a transaction that fails leaves the rows as they were. Each call of the database
  takes a turn: first other replicas commit transactions of the same kinds, then a fault may strike, before
  the work or after its commit. The precision of a stored time stamp and the encoding of the page token
  are parameters. A text or a number that Postgres refuses is a fault.
\<close>

section \<open>Rows\<close>

text \<open>The key column of a usage row is null when the record has none.\<close>

record planRow =
  pr_ID :: string
  pr_Name :: string
  pr_UnitPrices :: json
  pr_Included :: json
  pr_Quotas :: json
  pr_CreatedAt :: time

record outboxRow =
  ox_ID :: string
  ox_AggregateID :: string
  ox_EventType :: string
  ox_Payload :: json
  ox_CreatedAt :: time
  ox_PublishedAt :: "time option"

datatype turnFault = Refused string | AckLost string

record turn =
  tn_others :: "billWrite list"
  tn_fault :: "turnFault option"

record billDB =
  bd_usage :: "(UsageRecord \<times> string option) list"
  bd_plans :: "planRow list"
  bd_pkeys :: "(string \<times> string) list"
  bd_teams :: "(string \<times> string) list"
  bd_invoices :: "(Invoice \<times> json) list"
  bd_outbox :: "outboxRow list"
  bd_turns :: "turn list"

definition uniqueViolation :: goerr where
  "uniqueViolation = New ''ERROR: duplicate key value violates unique constraint (SQLSTATE 23505)''"

definition isUniqueViolation :: "goerr \<Rightarrow> bool" where
  "isUniqueViolation err = errors_Is err uniqueViolation"

definition indexes_hold :: "billDB \<Rightarrow> bool" where
  "indexes_hold s \<longleftrightarrow> distinct (map (\<lambda>(r, k). ur_ID r) (bd_usage s))
     \<and> distinct (List.map_filter (\<lambda>(r, k). map_option (Pair (ur_Team r)) k) (bd_usage s))
     \<and> distinct (map pr_ID (bd_plans s)) \<and> distinct (map fst (bd_pkeys s)) \<and> distinct (map fst (bd_teams s))
     \<and> distinct (map (\<lambda>(iv, l). iv_ID iv) (bd_invoices s)) \<and> distinct (map (\<lambda>(iv, l). iv_InvoiceNumber iv) (bd_invoices s))
     \<and> distinct (map ox_ID (bd_outbox s))"

definition references_hold :: "billDB \<Rightarrow> bool" where
  "references_hold s \<longleftrightarrow> snd ` set (bd_pkeys s) \<subseteq> pr_ID ` set (bd_plans s) \<and> snd ` set (bd_teams s) \<subseteq> pr_ID ` set (bd_plans s)"

definition statement :: "(billDB \<Rightarrow> billDB) \<Rightarrow> billDB \<Rightarrow> goerr + billDB" where
  "statement f s = (let s' = f s in
     if \<not> indexes_hold s' then Inl uniqueViolation
     else if \<not> references_hold s' then Inl (Dyn ''ERROR: insert or update violates foreign key constraint (SQLSTATE 23503)'')
     else Inr s')"

definition nullIfEmpty :: "string \<Rightarrow> string option" where
  "nullIfEmpty s = (if s = '''' then None else Some s)"

section \<open>Transactions\<close>

definition insertOutbox :: "(time \<Rightarrow> time) \<Rightarrow> OutboxEvent \<Rightarrow> json \<Rightarrow> billDB \<Rightarrow> goerr + billDB" where
  "insertOutbox pt ev payload = statement (\<lambda>db. db\<lparr>bd_outbox := bd_outbox db @
     [\<lparr>ox_ID = oe_ID ev, ox_AggregateID = oe_AggregateID ev, ox_EventType = oe_EventType ev, ox_Payload = payload,
       ox_CreatedAt = pt (oe_CreatedAt ev), ox_PublishedAt = None\<rparr>]\<rparr>)"

fun insertOutboxes :: "(time \<Rightarrow> time) \<Rightarrow> (OutboxEvent \<times> json) list \<Rightarrow> billDB \<Rightarrow> goerr + billDB" where
  "insertOutboxes pt [] s = Inr s"
| "insertOutboxes pt ((ev, payload) # rest) s = (case insertOutbox pt ev payload s of Inl err \<Rightarrow> Inl err | Inr s1 \<Rightarrow> insertOutboxes pt rest s1)"

text \<open>The function \<^verbatim>\<open>pgx.BeginFunc\<close> runs: its error rolls the transaction back.\<close>

definition usageFunc :: "(time \<Rightarrow> time) \<Rightarrow> UsageRecord \<Rightarrow> (OutboxEvent \<times> json) list \<Rightarrow> billDB \<Rightarrow> goerr + billDB" where
  "usageFunc pt r evs s =
     (case statement (\<lambda>db. db\<lparr>bd_usage := bd_usage db @ [(usage_row pt r, nullIfEmpty (ur_IdempotencyKey r))]\<rparr>) s of
        Inl err \<Rightarrow> Inl err | Inr s1 \<Rightarrow> insertOutboxes pt evs s1)"

definition invoiceFunc :: "(time \<Rightarrow> time) \<Rightarrow> Invoice \<Rightarrow> OutboxEvent \<Rightarrow> json \<Rightarrow> billDB \<Rightarrow> goerr + billDB" where
  "invoiceFunc pt iv ev payload s =
     (case statement (\<lambda>db. db\<lparr>bd_invoices := bd_invoices db @ [(invoice_row pt iv, marshalLineItems (iv_LineItems iv))]\<rparr>) s of
        Inl err \<Rightarrow> Inl err | Inr s1 \<Rightarrow> insertOutbox pt ev payload s1)"

definition planFunc :: "(time \<Rightarrow> time) \<Rightarrow> RatePlan \<Rightarrow> string \<Rightarrow> billDB \<Rightarrow> goerr + billDB" where
  "planFunc pt p key s =
     (case statement (\<lambda>db. db\<lparr>bd_plans := bd_plans db @ [\<lparr>pr_ID = rp_ID p, pr_Name = rp_Name p, pr_UnitPrices = marshalUnitPrices (rp_UnitPrices p),
          pr_Included = marshalQtyMap (rp_IncludedQuantities p), pr_Quotas = marshalQtyMap (rp_QuotaLimits p), pr_CreatedAt = pt (rp_CreatedAt p)\<rparr>]\<rparr>) s of
        Inl err \<Rightarrow> Inl err
      | Inr s1 \<Rightarrow> if key \<noteq> '''' then statement (\<lambda>db. db\<lparr>bd_pkeys := bd_pkeys db @ [(key, rp_ID p)]\<rparr>) s1 else Inr s1)"

definition assignFunc :: "string \<Rightarrow> string \<Rightarrow> billDB \<Rightarrow> goerr + billDB" where
  "assignFunc team pid = statement (\<lambda>db. db\<lparr>bd_teams := AList.update team pid (bd_teams db)\<rparr>)"

definition marshalEvents :: "OutboxEvent list \<Rightarrow> goerr + (OutboxEvent \<times> json) list" where
  "marshalEvents evs = emap (\<lambda>ev. ebind (marshalOutboxPayload (oe_Payload ev)) (\<lambda>b. Inr (ev, b))) evs"

text \<open>A write as a transaction, as this replica and the others run it.\<close>

fun transact :: "(time \<Rightarrow> time) \<Rightarrow> billWrite \<Rightarrow> billDB \<Rightarrow> goerr + billDB" where
  "transact pt (WUsage r evs) s = ebind (marshalEvents evs) (\<lambda>es. usageFunc pt r es s)"
| "transact pt (WInvoice iv ev) s = ebind (marshalOutboxPayload (oe_Payload ev)) (\<lambda>b. invoiceFunc pt iv ev b s)"
| "transact pt (WPlan p key) s = planFunc pt p key s"
| "transact pt (WAssign team pid) s = assignFunc team pid s"

definition committed :: "(time \<Rightarrow> time) \<Rightarrow> billWrite \<Rightarrow> billDB \<Rightarrow> billDB" where
  "committed pt w s = (case transact pt w s of Inl _ \<Rightarrow> s | Inr s' \<Rightarrow> s')"

section \<open>Turns\<close>

definition next_turn :: "(time \<Rightarrow> time) \<Rightarrow> billDB \<Rightarrow> turnFault option \<times> billDB" where
  "next_turn pt s = (case bd_turns s of [] \<Rightarrow> (None, s)
     | t # ts \<Rightarrow> (tn_fault t, fold (committed pt) (tn_others t) (s\<lparr>bd_turns := ts\<rparr>)))"

fun fault_err :: "turnFault \<Rightarrow> goerr" where
  "fault_err (Refused m) = Dyn m" | "fault_err (AckLost m) = Dyn m"

definition query :: "(time \<Rightarrow> time) \<Rightarrow> (billDB \<Rightarrow> goerr + 'a) \<Rightarrow> (goerr \<Rightarrow> goerr) \<Rightarrow> billDB \<Rightarrow> (goerr + 'a) \<times> billDB" where
  "query pt f wrap s = (case next_turn pt s of
     (Some flt, s1) \<Rightarrow> (Inl (wrap (fault_err flt)), s1) | (None, s1) \<Rightarrow> (f s1, s1))"

text \<open>
  \<^verbatim>\<open>pgx.BeginFunc\<close>: the transaction is refused, or runs and is committed; the answer to the commit may be lost.
\<close>

definition beginFunc :: "(time \<Rightarrow> time) \<Rightarrow> (billDB \<Rightarrow> goerr + billDB) \<Rightarrow> billDB \<Rightarrow> goerr option \<times> billDB" where
  "beginFunc pt f s = (case next_turn pt s of
     (Some (Refused m), s1) \<Rightarrow> (Some (Dyn m), s1)
   | (Some (AckLost m), s1) \<Rightarrow> (case f s1 of Inl err \<Rightarrow> (Some err, s1) | Inr s2 \<Rightarrow> (Some (Dyn m), s2))
   | (None, s1) \<Rightarrow> (case f s1 of Inl err \<Rightarrow> (Some err, s1) | Inr s2 \<Rightarrow> (None, s2)))"

section \<open>The usage store\<close>

definition scanUsageRecord :: "UsageRecord \<times> string option \<Rightarrow> UsageRecord" where
  "scanUsageRecord row = (fst row)\<lparr>ur_IdempotencyKey := (case snd row of None \<Rightarrow> '''' | Some k \<Rightarrow> k)\<rparr>"

definition FindByIdempotencyKey :: "(time \<Rightarrow> time) \<Rightarrow> string \<Rightarrow> string \<Rightarrow> billDB \<Rightarrow> (goerr + UsageRecord) \<times> billDB" where
  "FindByIdempotencyKey pt team key = query pt
     (\<lambda>s. case find (\<lambda>(r, k). ur_Team r = team \<and> k = Some key) (bd_usage s) of
        None \<Rightarrow> Inl ErrRepoNotFound | Some row \<Rightarrow> Inr (scanUsageRecord row))
     (\<lambda>err. Wrapf ''scan usage record: '' err '''')"

text \<open>A sum of 64-bit columns is exact; reading one that no 64-bit integer holds is an error.\<close>

definition scanSum :: "int \<Rightarrow> goerr + int64" where
  "scanSum i = (if in_int64 i then Inr (word_of_int i) else Inl (Dyn ''cannot scan numeric into int64''))"

definition CurrentPeriodUsage :: "(time \<Rightarrow> time) \<Rightarrow> string \<Rightarrow> MeterType \<Rightarrow> time \<Rightarrow> billDB \<Rightarrow> (goerr + int64) \<times> billDB" where
  "CurrentPeriodUsage pt team meter periodStart = query pt
     (\<lambda>s. case scanSum (sum_list (map (sint \<circ> ur_Quantity \<circ> fst)
          (filter (\<lambda>(r, k). ur_Team r = team \<and> ur_MeterType r = meter \<and> ur_OccurredAt r \<ge> pt periodStart) (bd_usage s)))) of
        Inl err \<Rightarrow> Inl (Wrapf ''current period usage: '' err '''') | Inr q \<Rightarrow> Inr q)
     (\<lambda>err. Wrapf ''current period usage: '' err '''')"

definition RecordUsageTx :: "(time \<Rightarrow> time) \<Rightarrow> UsageRecord \<Rightarrow> OutboxEvent list \<Rightarrow> billDB \<Rightarrow> (goerr + UsageRecord) \<times> billDB" where
  "RecordUsageTx pt r evs s = (case marshalEvents evs of
     Inl err \<Rightarrow> (Inl err, s)
   | Inr es \<Rightarrow> (case beginFunc pt (usageFunc pt r es) s of
        (Some err, s1) \<Rightarrow> (Inl (if isUniqueViolation err then ErrRepoDuplicate else Wrapf ''record usage tx: '' err ''''), s1)
      | (None, s1) \<Rightarrow> (Inr r, s1)))"

section \<open>The rate plan store\<close>

definition scanPlan :: "planRow \<Rightarrow> goerr + RatePlan" where
  "scanPlan row = ebind (unmarshalUnitPrices (pr_UnitPrices row)) (\<lambda>prices. ebind (unmarshalQtyMap (pr_Included row)) (\<lambda>included.
     ebind (unmarshalQtyMap (pr_Quotas row)) (\<lambda>quotas. Inr \<lparr>rp_ID = pr_ID row, rp_Name = pr_Name row, rp_UnitPrices = prices,
       rp_IncludedQuantities = included, rp_QuotaLimits = quotas, rp_CreatedAt = pr_CreatedAt row\<rparr>)))"

definition scanPlanOpt :: "planRow option \<Rightarrow> goerr + RatePlan" where
  "scanPlanOpt row = (case row of None \<Rightarrow> Inl ErrRepoNotFound | Some row \<Rightarrow> scanPlan row)"

definition plan_with :: "billDB \<Rightarrow> string \<Rightarrow> planRow option" where
  "plan_with s i = find (\<lambda>row. pr_ID row = i) (bd_plans s)"

definition CreatePlan :: "(time \<Rightarrow> time) \<Rightarrow> RatePlan \<Rightarrow> string \<Rightarrow> billDB \<Rightarrow> (goerr + RatePlan) \<times> billDB" where
  "CreatePlan pt p key s = (case beginFunc pt (planFunc pt p key) s of
     (Some err, s1) \<Rightarrow> (Inl (if isUniqueViolation err then ErrRepoDuplicate else Wrapf ''create rate plan: '' err ''''), s1)
   | (None, s1) \<Rightarrow> (Inr p, s1))"

definition FindPlanByIdempotencyKey :: "(time \<Rightarrow> time) \<Rightarrow> string \<Rightarrow> billDB \<Rightarrow> (goerr + RatePlan) \<times> billDB" where
  "FindPlanByIdempotencyKey pt key = query pt (\<lambda>s. scanPlanOpt (Option.bind (map_of (bd_pkeys s) key) (plan_with s)))
     (\<lambda>err. Wrapf ''scan rate plan: '' err '''')"

definition GetPlan :: "(time \<Rightarrow> time) \<Rightarrow> string \<Rightarrow> billDB \<Rightarrow> (goerr + RatePlan) \<times> billDB" where
  "GetPlan pt i = query pt (\<lambda>s. scanPlanOpt (plan_with s i)) (\<lambda>err. Wrapf ''scan rate plan: '' err '''')"

definition ResolvePlanForTeam :: "(time \<Rightarrow> time) \<Rightarrow> string \<Rightarrow> billDB \<Rightarrow> (goerr + RatePlan) \<times> billDB" where
  "ResolvePlanForTeam pt team = query pt (\<lambda>s. scanPlanOpt (Option.bind (map_of (bd_teams s) team) (plan_with s)))
     (\<lambda>err. Wrapf ''scan rate plan: '' err '''')"

definition AssignPlanToTeam :: "(time \<Rightarrow> time) \<Rightarrow> string \<Rightarrow> string \<Rightarrow> billDB \<Rightarrow> goerr option \<times> billDB" where
  "AssignPlanToTeam pt team pid s = (case beginFunc pt (assignFunc team pid) s of
     (Some err, s1) \<Rightarrow> (Some (Wrapf ''assign plan to team: '' err ''''), s1) | (None, s1) \<Rightarrow> (None, s1))"

section \<open>The invoice store\<close>

definition usage_between :: "(time \<Rightarrow> time) \<Rightarrow> string \<Rightarrow> time \<Rightarrow> time \<Rightarrow> billDB \<Rightarrow> UsageRecord list" where
  "usage_between pt team a b s = filter (\<lambda>r. ur_Team r = team \<and> ur_OccurredAt r \<ge> pt a \<and> ur_OccurredAt r < pt b) (map fst (bd_usage s))"

text \<open>\<^verbatim>\<open>GROUP BY meter_type, currency_code ORDER BY meter_type\<close>; two currencies of a meter come in any order, here in that of the rows.\<close>

definition bucketOf :: "UsageRecord list \<Rightarrow> MeterType \<times> string \<Rightarrow> goerr + MeterUsage" where
  "bucketOf rows k = ebind (scanSum (sum_list (map (sint \<circ> ur_Quantity) (filter (\<lambda>r. row_kind r = k) rows)))) (\<lambda>qty.
     ebind (scanSum (sum_list (map (sint \<circ> AmountMicros \<circ> ur_Cost) (filter (\<lambda>r. row_kind r = k) rows)))) (\<lambda>costMic.
       Inr \<lparr>mu_MeterType = fst k, mu_TotalQuantity = qty, mu_TotalCost = \<lparr>AmountMicros = costMic, CurrencyCode = snd k\<rparr>\<rparr>))"

definition AggregateUsageForPeriod :: "(time \<Rightarrow> time) \<Rightarrow> string \<Rightarrow> time \<Rightarrow> time \<Rightarrow> billDB \<Rightarrow> (goerr + MeterUsage list) \<times> billDB" where
  "AggregateUsageForPeriod pt team a b = query pt
     (\<lambda>s. let rows = usage_between pt team a b s in
        case emap (bucketOf rows) (sort_key fst (remdups (map row_kind rows))) of
          Inl err \<Rightarrow> Inl (Wrapf ''scan usage bucket: '' err '''') | Inr buckets \<Rightarrow> Inr buckets)
     (\<lambda>err. Wrapf ''aggregate usage: '' err '''')"

definition SaveInvoiceTx :: "(time \<Rightarrow> time) \<Rightarrow> Invoice \<Rightarrow> OutboxEvent \<Rightarrow> billDB \<Rightarrow> (goerr + Invoice) \<times> billDB" where
  "SaveInvoiceTx pt iv ev s = (case marshalOutboxPayload (oe_Payload ev) of
     Inl err \<Rightarrow> (Inl err, s)
   | Inr payload \<Rightarrow> (case beginFunc pt (invoiceFunc pt iv ev payload) s of
        (Some err, s1) \<Rightarrow> (Inl (if isUniqueViolation err then ErrRepoDuplicate else Wrapf ''save invoice tx: '' err ''''), s1)
      | (None, s1) \<Rightarrow> (Inr iv, s1)))"

definition scanInvoice :: "Invoice \<times> json \<Rightarrow> goerr + Invoice" where
  "scanInvoice row = ebind (unmarshalLineItems (snd row)) (\<lambda>items. Inr ((fst row)\<lparr>iv_LineItems := items\<rparr>))"

definition GetInvoice :: "(time \<Rightarrow> time) \<Rightarrow> string \<Rightarrow> billDB \<Rightarrow> (goerr + Invoice) \<times> billDB" where
  "GetInvoice pt i = query pt
     (\<lambda>s. case find (\<lambda>(iv, l). iv_ID iv = i) (bd_invoices s) of None \<Rightarrow> Inl ErrRepoNotFound | Some row \<Rightarrow> scanInvoice row)
     (\<lambda>err. Wrapf ''scan invoice: '' err '''')"

text \<open>The position after which a page starts, and its encoding as an opaque token.\<close>

record cursorCodec =
  encodeCursor :: "time \<times> string \<Rightarrow> string"
  decodeToken :: "string \<Rightarrow> goerr + time \<times> string"

definition decodeCursor :: "cursorCodec \<Rightarrow> string \<Rightarrow> goerr + (time \<times> string) option" where
  "decodeCursor cc token = (if token = '''' then Inr None else ebind (decodeToken cc token) (\<lambda>c. Inr (Some c)))"

definition before :: "Invoice \<Rightarrow> time \<times> string \<Rightarrow> bool" where
  "before iv c \<longleftrightarrow> iv_CreatedAt iv < fst c \<or> iv_CreatedAt iv = fst c \<and> iv_ID iv < snd c"

definition invoice_page :: "(time \<Rightarrow> time) \<Rightarrow> ListInvoicesOptions \<Rightarrow> (time \<times> string) option \<Rightarrow> billDB \<Rightarrow> (Invoice \<times> json) list" where
  "invoice_page pt opts cur s = rev (sort_key (iv_CreatedAt \<circ> fst) (sort_key (iv_ID \<circ> fst)
     (filter (\<lambda>(iv, l). iv_Team iv = lo_Team opts \<and> (lo_StatusFilter opts \<noteq> InvoiceStatusUnspecified \<longrightarrow> iv_Status iv = lo_StatusFilter opts)
        \<and> (case cur of None \<Rightarrow> True | Some c \<Rightarrow> before iv (pt (fst c), snd c))) (bd_invoices s))))"

definition ListInvoices :: "(time \<Rightarrow> time) \<Rightarrow> cursorCodec \<Rightarrow> ListInvoicesOptions \<Rightarrow> billDB \<Rightarrow> (goerr + Invoice list \<times> string) \<times> billDB" where
  "ListInvoices pt cc opts s =
     (let pageSize = nat (if lo_PageSize opts \<le> 0 then defaultPageSize else lo_PageSize opts) in
      case decodeCursor cc (lo_PageToken opts) of
        Inl err \<Rightarrow> (Inl (Wrapf ''list invoices: '' err ''''), s)
      | Inr cur \<Rightarrow> query pt
          (\<lambda>s. case emap scanInvoice (take (pageSize + 1) (invoice_page pt opts cur s)) of
             Inl err \<Rightarrow> Inl (Wrapf ''scan invoice: '' err '''')
           | Inr invoices \<Rightarrow>
               if length invoices > pageSize
               then let kept = take pageSize invoices; l = last kept in Inr (kept, encodeCursor cc (iv_CreatedAt l, iv_ID l))
               else Inr (invoices, ''''))
          (\<lambda>err. Wrapf ''list invoices: '' err '''') s)"

definition PgStores :: "(time \<Rightarrow> time) \<Rightarrow> cursorCodec \<Rightarrow> billDB BillingStores" where
  "PgStores pt cc = \<lparr>us_FindByIdempotencyKey = FindByIdempotencyKey pt, us_CurrentPeriodUsage = CurrentPeriodUsage pt,
     us_RecordUsageTx = RecordUsageTx pt, pl_CreatePlan = CreatePlan pt, pl_FindPlanByIdempotencyKey = FindPlanByIdempotencyKey pt,
     pl_GetPlan = GetPlan pt, pl_ResolvePlanForTeam = ResolvePlanForTeam pt, in_AggregateUsageForPeriod = AggregateUsageForPeriod pt,
     in_SaveInvoiceTx = SaveInvoiceTx pt, in_GetInvoice = GetInvoice pt, in_ListInvoices = ListInvoices pt cc\<rparr>"

end
