(* ===== verification/BillingTables.thy ===== *)
theory BillingTables
  imports BillingPostgres
begin

text \<open>
  The tables of billing keep the contract of its stores: the contents a set of rows stands for, the
  invariant of the rows, each transaction as a whole write or none, and the interpretation of the locale
  \<open>bill_store\<close> on the Postgres adapters.
\<close>

section \<open>The contents of the tables\<close>

definition row_event :: "outboxRow \<Rightarrow> OutboxEvent" where
  "row_event row = \<lparr>oe_ID = ox_ID row, oe_AggregateID = ox_AggregateID row, oe_EventType = ox_EventType row,
     oe_Payload = projr (unmarshalPayload (ox_EventType row) (ox_Payload row)), oe_CreatedAt = ox_CreatedAt row,
     oe_PublishedAt = ox_PublishedAt row\<rparr>"

definition db_view :: "billDB \<Rightarrow> billView" where
  "db_view s = \<lparr>bv_ledger = map fst (bd_usage s), bv_outbox = map row_event (bd_outbox s),
     bv_plans = (\<lambda>i. map_option (projr \<circ> scanPlan) (plan_with s i)), bv_pkeys = map_of (bd_pkeys s), bv_teams = map_of (bd_teams s),
     bv_invoices = map fst (bd_invoices s)\<rparr>"

definition rows_ok :: "billDB \<Rightarrow> bool" where
  "rows_ok s \<longleftrightarrow> list_all (\<lambda>(r, k). record_ok r \<and> k = nullIfEmpty (ur_IdempotencyKey r)) (bd_usage s)
     \<and> list_all (\<lambda>row. \<exists>p. scanPlan row = Inr p \<and> plan_ok p) (bd_plans s)
     \<and> list_all (\<lambda>row. \<exists>p. unmarshalPayload (ox_EventType row) (ox_Payload row) = Inr p) (bd_outbox s)
     \<and> list_all (\<lambda>row. scanInvoice row = Inr (fst row)) (bd_invoices s)"

definition db_inv :: "billDB \<Rightarrow> bool" where
  "db_inv s \<longleftrightarrow> indexes_hold s \<and> references_hold s \<and> rows_ok s \<and> list_all (\<lambda>t. list_all honest (tn_others t)) (bd_turns s)"

definition db_healthy :: "billDB \<Rightarrow> bool" where
  "db_healthy s \<longleftrightarrow> bd_turns s = []"

lemma scan_key [simp]: "scanUsageRecord (r, nullIfEmpty (ur_IdempotencyKey r)) = r"
  by (simp add: scanUsageRecord_def nullIfEmpty_def)

lemma key_index:
  assumes "list_all (\<lambda>(r, k). k = nullIfEmpty (ur_IdempotencyKey r)) us"
  shows "List.map_filter (\<lambda>(r, k). map_option (Pair (ur_Team r)) k) us
    = map (\<lambda>r. (ur_Team r, ur_IdempotencyKey r)) (filter (\<lambda>r. ur_IdempotencyKey r \<noteq> '''') (map fst us))"
  using assms by (induction us) (auto simp: List.map_filter_def nullIfEmpty_def split: if_splits)

lemma plan_with_some: "plan_with s i = Some row \<Longrightarrow> row \<in> set (bd_plans s) \<and> pr_ID row = i"
  by (auto simp: plan_with_def find_Some_iff)

lemma plan_with_none: "plan_with s i = None \<longleftrightarrow> i \<notin> pr_ID ` set (bd_plans s)"
  by (auto simp: plan_with_def find_None_iff)

lemma scanPlan_id: "scanPlan row = Inr p \<Longrightarrow> rp_ID p = pr_ID row"
  by (auto simp: scanPlan_def ebind_def split: sum.splits)

lemma map_fst_case: "map (\<lambda>(r, k). f r) us = map f (map fst us)"
  by (induction us) auto

lemma db_plans_dom: "dom (bv_plans (db_view s)) = pr_ID ` set (bd_plans s)"
proof (rule set_eqI)
  fix i
  show "i \<in> dom (bv_plans (db_view s)) \<longleftrightarrow> i \<in> pr_ID ` set (bd_plans s)"
    using plan_with_none [of s i] by (cases "plan_with s i") (simp_all add: db_view_def dom_def)
qed

lemma db_plan_ok:
  assumes "db_inv s" "bv_plans (db_view s) j = Some p"
  shows "rp_ID p = j \<and> plan_ok p"
proof -
  obtain row where row: "plan_with s j = Some row" "p = projr (scanPlan row)" using assms(2) by (auto simp: db_view_def)
  then have r: "row \<in> set (bd_plans s)" "pr_ID row = j" using plan_with_some by auto
  have "list_all (\<lambda>row. \<exists>p. scanPlan row = Inr p \<and> plan_ok p) (bd_plans s)" using assms(1) by (simp add: db_inv_def rows_ok_def)
  then obtain q where "scanPlan row = Inr q" "plan_ok q" using r(1) by (auto simp: list_all_iff)
  then show ?thesis using scanPlan_id [of row q] row r by simp
qed

lemma ran_map_of: "ran (map_of xs) \<subseteq> snd ` set xs"
  by (auto simp: ran_def dest!: map_of_SomeD intro: rev_image_eqI)

lemma db_view_simps:
  "bv_ledger (db_view s) = map fst (bd_usage s)" "bv_outbox (db_view s) = map row_event (bd_outbox s)"
  "bv_pkeys (db_view s) = map_of (bd_pkeys s)" "bv_teams (db_view s) = map_of (bd_teams s)" "bv_invoices (db_view s) = map fst (bd_invoices s)"
  by (simp_all add: db_view_def)

lemma bill_view_ok:
  assumes "db_inv s" shows "bview_ok (db_view s)"
proof -
  have ix: "indexes_hold s" and rf: "references_hold s" and ro: "rows_ok s" using assms by (simp_all add: db_inv_def)
  have us: "list_all (\<lambda>(r, k). record_ok r \<and> k = nullIfEmpty (ur_IdempotencyKey r)) (bd_usage s)" using ro by (simp add: rows_ok_def)
  have ks: "list_all (\<lambda>(r, k). k = nullIfEmpty (ur_IdempotencyKey r)) (bd_usage s)" using us by (auto simp: list_all_iff)
  have "list_all record_ok (map fst (bd_usage s))" using us by (auto simp: list_all_iff)
  moreover have "distinct (map ur_ID (map fst (bd_usage s)))" using ix by (simp add: indexes_hold_def map_fst_case [of ur_ID])
  moreover have "unique_keys (map fst (bd_usage s))" using ix key_index [OF ks] by (simp add: indexes_hold_def unique_keys_def)
  moreover have "distinct (map oe_ID (map row_event (bd_outbox s)))" using ix by (simp add: indexes_hold_def row_event_def comp_def)
  moreover have "distinct (map iv_ID (map fst (bd_invoices s)))" "distinct (map iv_InvoiceNumber (map fst (bd_invoices s)))"
    using ix by (simp_all add: indexes_hold_def map_fst_case [of iv_ID] map_fst_case [of iv_InvoiceNumber])
  moreover have "ran (map_of (bd_pkeys s)) \<subseteq> dom (bv_plans (db_view s))" "ran (map_of (bd_teams s)) \<subseteq> dom (bv_plans (db_view s))"
    using rf ran_map_of [of "bd_pkeys s"] ran_map_of [of "bd_teams s"] unfolding db_plans_dom references_hold_def by (meson subset_trans)+
  ultimately show ?thesis using db_plan_ok [OF assms] unfolding bview_ok_def db_view_simps by blast
qed

section \<open>Transactions are writes\<close>

lemma bill_statement_Inr: "statement f s = Inr s' \<longleftrightarrow> s' = f s \<and> indexes_hold (f s) \<and> references_hold (f s)"
  by (auto simp: statement_def Let_def)

definition outbox_row :: "(time \<Rightarrow> time) \<Rightarrow> OutboxEvent \<times> json \<Rightarrow> outboxRow" where
  "outbox_row pt e = \<lparr>ox_ID = oe_ID (fst e), ox_AggregateID = oe_AggregateID (fst e), ox_EventType = oe_EventType (fst e), ox_Payload = snd e,
     ox_CreatedAt = pt (oe_CreatedAt (fst e)), ox_PublishedAt = None\<rparr>"

lemma insertOutbox_Inr: "insertOutbox pt ev b s = Inr s' \<longleftrightarrow> s' = s\<lparr>bd_outbox := bd_outbox s @ [outbox_row pt (ev, b)]\<rparr> \<and> indexes_hold s' \<and> references_hold s'"
  by (auto simp: insertOutbox_def bill_statement_Inr outbox_row_def)

lemma indexes_outbox_sub:
  "indexes_hold (s\<lparr>bd_outbox := xs @ ys\<rparr>) \<Longrightarrow> indexes_hold (s\<lparr>bd_outbox := xs\<rparr>)"
  by (simp add: indexes_hold_def)

lemma references_outbox [simp]: "references_hold (s\<lparr>bd_outbox := xs\<rparr>) = references_hold s"
  by (simp add: references_hold_def)

lemma insertOutboxes_Inr:
  assumes "indexes_hold s" "references_hold s"
  shows "insertOutboxes pt es s = Inr s' \<longleftrightarrow> s' = s\<lparr>bd_outbox := bd_outbox s @ map (outbox_row pt) es\<rparr> \<and> indexes_hold s'"
  using assms
proof (induction es arbitrary: s)
  case (Cons e es)
  obtain ev b where e: "e = (ev, b)" by (cases e)
  define s1 where "s1 = s\<lparr>bd_outbox := bd_outbox s @ [outbox_row pt (ev, b)]\<rparr>"
  show ?case
  proof (cases "indexes_hold s1")
    case True
    then have "insertOutbox pt ev b s = Inr s1" using Cons.prems by (simp add: insertOutbox_Inr s1_def)
    then have "insertOutboxes pt (e # es) s = insertOutboxes pt es s1" by (simp add: e)
    then show ?thesis using Cons.IH [of s1] True Cons.prems by (simp add: s1_def e)
  next
    case False
    then have "insertOutbox pt ev b s \<noteq> Inr x" for x using insertOutbox_Inr [of pt ev b s x] by (auto simp: s1_def)
    then obtain err where "insertOutbox pt ev b s = Inl err" by (metis sum.exhaust)
    then have "insertOutboxes pt (e # es) s = Inl err" by (simp add: e)
    moreover have "\<not> indexes_hold (s\<lparr>bd_outbox := (bd_outbox s @ [outbox_row pt (ev, b)]) @ map (outbox_row pt) es\<rparr>)"
      using False indexes_outbox_sub [where s = s and xs = "bd_outbox s @ [outbox_row pt (ev, b)]"] unfolding s1_def by blast
    ultimately show ?thesis by (auto simp: e)
  qed
qed auto

lemma marshalEvents_Inr:
  "marshalEvents evs = Inr es \<Longrightarrow> map fst es = evs \<and> list_all (\<lambda>(ev, b). marshalOutboxPayload (oe_Payload ev) = Inr b) es"
proof (induction evs arbitrary: es)
  case (Cons ev evs)
  then show ?case by (cases es) (auto simp: marshalEvents_def ebind_def split: sum.splits)
qed (auto simp: marshalEvents_def)

lemma marshalEvents_encodable: "(\<exists>es. marshalEvents evs = Inr es) \<longleftrightarrow> list_all (encodable \<circ> oe_Payload) evs"
  by (induction evs) (auto simp: marshalEvents_def ebind_def marshal_ok split: sum.splits)

lemma row_event_outbox:
  assumes "marshalOutboxPayload (oe_Payload ev) = Inr b" "own_event agg ev"
  shows "row_event (outbox_row pt (ev, b)) = event_row pt ev" and "unmarshalPayload (ox_EventType (outbox_row pt (ev, b))) b = Inr (oe_Payload ev)"
  using payload_roundtrip [OF assms(1)] assms(2) by (simp_all add: row_event_def outbox_row_def event_row_def own_event_def)
lemma usage_indexes:
  assumes "db_inv s" "map fst es = evs"
  shows "indexes_hold (s\<lparr>bd_usage := bd_usage s @ [(usage_row pt r, nullIfEmpty (ur_IdempotencyKey r))],
      bd_outbox := bd_outbox s @ map (outbox_row pt) es\<rparr>) \<longleftrightarrow> admits (db_view s) (WUsage r evs)"
proof -
  have ix: "indexes_hold s" and ro: "rows_ok s" using assms(1) by (simp_all add: db_inv_def)
  have us: "list_all (\<lambda>(r, k). record_ok r \<and> k = nullIfEmpty (ur_IdempotencyKey r)) (bd_usage s)" using ro by (simp add: rows_ok_def)
  have ids: "map ox_ID (map (outbox_row pt) es) = map oe_ID evs" using assms(2) by (auto simp: outbox_row_def)
  have oid: "set (map ox_ID (bd_outbox s)) = set (map oe_ID (bv_outbox (db_view s)))" by (simp add: db_view_simps row_event_def image_image)
  have outbox: "distinct (map ox_ID (bd_outbox s @ map (outbox_row pt) es)) \<longleftrightarrow> fresh_events (db_view s) evs"
    unfolding map_append ids distinct_append oid fresh_events_def using ix by (auto simp: indexes_hold_def)
  have key: "distinct (List.map_filter (\<lambda>(r, k). map_option (Pair (ur_Team r)) k) (bd_usage s @ [(usage_row pt r, nullIfEmpty (ur_IdempotencyKey r))]))
      \<longleftrightarrow> (ur_IdempotencyKey r \<noteq> '''' \<longrightarrow> \<not> keyed (db_view s) (ur_Team r) (ur_IdempotencyKey r))"
  proof -
    have ks: "list_all (\<lambda>(r, k). k = nullIfEmpty (ur_IdempotencyKey r)) (bd_usage s)" using us by (auto simp: list_all_iff)
    then have ks2: "list_all (\<lambda>(r, k). k = nullIfEmpty (ur_IdempotencyKey r)) (bd_usage s @ [(usage_row pt r, nullIfEmpty (ur_IdempotencyKey r))])"
      by (simp add: usage_row_def)
    have "unique_keys (map fst (bd_usage s))" using ix key_index [OF ks] by (simp add: indexes_hold_def unique_keys_def)
    then show ?thesis unfolding key_index [OF ks2] unique_keys_def [symmetric] keyed_def db_view_simps
      by (simp add: unique_keys_snoc usage_row_def)
  qed
  have uid: "distinct (map (\<lambda>(r, k). ur_ID r) (bd_usage s @ [(usage_row pt r, nullIfEmpty (ur_IdempotencyKey r))]))
      \<longleftrightarrow> ur_ID r \<notin> ur_ID ` set (bv_ledger (db_view s))"
    using ix by (auto simp: indexes_hold_def db_view_simps usage_row_def image_iff)
  show ?thesis unfolding admits.simps outbox [symmetric] key [symmetric] uid [symmetric]
    using ix by (simp add: indexes_hold_def)
qed

lemma usageFunc_Inr:
  assumes "db_inv s" "map fst es = evs"
  shows "usageFunc pt r es s = Inr s' \<longleftrightarrow> admits (db_view s) (WUsage r evs)
    \<and> s' = s\<lparr>bd_usage := bd_usage s @ [(usage_row pt r, nullIfEmpty (ur_IdempotencyKey r))], bd_outbox := bd_outbox s @ map (outbox_row pt) es\<rparr>"
proof -
  define s1 where "s1 = s\<lparr>bd_usage := bd_usage s @ [(usage_row pt r, nullIfEmpty (ur_IdempotencyKey r))]\<rparr>"
  define s2 where "s2 = s1\<lparr>bd_outbox := bd_outbox s @ map (outbox_row pt) es\<rparr>"
  have r: "references_hold s1" using assms(1) by (simp add: db_inv_def references_hold_def s1_def)
  have sub: "indexes_hold s2 \<Longrightarrow> indexes_hold s1" by (simp add: indexes_hold_def s1_def s2_def)
  have ix: "indexes_hold s2 \<longleftrightarrow> admits (db_view s) (WUsage r evs)" using usage_indexes [OF assms] by (simp add: s2_def s1_def)
  have "usageFunc pt r es s = Inr s' \<longleftrightarrow> indexes_hold s1 \<and> insertOutboxes pt es s1 = Inr s'"
    using r by (auto simp: usageFunc_def statement_def Let_def s1_def)
  also have "\<dots> \<longleftrightarrow> indexes_hold s2 \<and> s' = s2"
    using insertOutboxes_Inr [OF _ r, of pt es s'] sub by (auto simp: s2_def s1_def)
  finally show ?thesis unfolding ix by (simp add: s2_def s1_def)
qed

lemma plan_with_cong: "bd_plans s' = bd_plans s \<Longrightarrow> plan_with s' = plan_with s"
  by (simp add: plan_with_def fun_eq_iff)

lemma transact_usage:
  assumes "db_inv s" "honest (WUsage r evs)" "transact pt (WUsage r evs) s = Inr s'"
  shows "admits (db_view s) (WUsage r evs) \<and> db_view s' = commit pt (WUsage r evs) (db_view s) \<and> db_inv s' \<and> bd_turns s' = bd_turns s"
proof -
  obtain es where es: "marshalEvents evs = Inr es" "usageFunc pt r es s = Inr s'" using assms(3) by (auto simp: ebind_def split: sum.splits)
  have m: "map fst es = evs" "list_all (\<lambda>(ev, b). marshalOutboxPayload (oe_Payload ev) = Inr b) es" using marshalEvents_Inr [OF es(1)] by blast+
  have u: "admits (db_view s) (WUsage r evs)"
      "s' = s\<lparr>bd_usage := bd_usage s @ [(usage_row pt r, nullIfEmpty (ur_IdempotencyKey r))], bd_outbox := bd_outbox s @ map (outbox_row pt) es\<rparr>"
    using usageFunc_Inr [OF assms(1) m(1)] es(2) by blast+
  have own: "list_all (own_event (ur_ID r)) evs" "record_ok r" using assms(2) by auto
  have e: "row_event (outbox_row pt x) = event_row pt (fst x)" "\<exists>p. unmarshalPayload (ox_EventType (outbox_row pt x)) (ox_Payload (outbox_row pt x)) = Inr p"
    if "x \<in> set es" for x
  proof -
    have "own_event (ur_ID r) (fst x)" "marshalOutboxPayload (oe_Payload (fst x)) = Inr (snd x)"
      using that m own(1) by (auto simp: list_all_iff)
    from row_event_outbox [OF this(2,1), of pt]
    show "row_event (outbox_row pt x) = event_row pt (fst x)" "\<exists>p. unmarshalPayload (ox_EventType (outbox_row pt x)) (ox_Payload (outbox_row pt x)) = Inr p"
      by (auto simp: outbox_row_def)
  qed
  have "map row_event (map (outbox_row pt) es) = map (event_row pt) evs" using e(1) m(1) by auto
  then have v: "db_view s' = commit pt (WUsage r evs) (db_view s)" by (simp add: db_view_def u(2) plan_with_def)
  have "indexes_hold s'" using usage_indexes [OF assms(1) m(1), of pt r] u by simp
  moreover have "references_hold s'" using assms(1) by (simp add: u(2) db_inv_def references_hold_def)
  moreover have "rows_ok s'" using assms(1) own(2) e(2) by (auto simp: u(2) db_inv_def rows_ok_def list_all_iff usage_row_def record_ok_def)
  ultimately show ?thesis using u v assms(1) by (simp add: db_inv_def)
qed

lemma transact_invoice:
  assumes "db_inv s" "honest (WInvoice iv ev)" "transact pt (WInvoice iv ev) s = Inr s'"
  shows "admits (db_view s) (WInvoice iv ev) \<and> db_view s' = commit pt (WInvoice iv ev) (db_view s) \<and> db_inv s' \<and> bd_turns s' = bd_turns s"
proof -
  obtain b where b: "marshalOutboxPayload (oe_Payload ev) = Inr b" "invoiceFunc pt iv ev b s = Inr s'" using assms(3) by (auto simp: ebind_def split: sum.splits)
  have u: "s' = s\<lparr>bd_invoices := bd_invoices s @ [(invoice_row pt iv, marshalLineItems (iv_LineItems iv))], bd_outbox := bd_outbox s @ [outbox_row pt (ev, b)]\<rparr>"
      "indexes_hold s'" "references_hold s'"
    using b(2) by (auto simp: invoiceFunc_def bill_statement_Inr insertOutbox_Inr split: sum.splits)
  have own: "own_event (iv_ID iv) ev" using assms(2) by auto
  note e = row_event_outbox [OF b(1) own, of pt]
  have v: "db_view s' = commit pt (WInvoice iv ev) (db_view s)" using e(1) by (simp add: db_view_def u(1) plan_with_def)
  have "distinct (map iv_ID (map fst (bd_invoices s')))" "distinct (map iv_InvoiceNumber (map fst (bd_invoices s')))" "distinct (map ox_ID (bd_outbox s'))"
    using u(2) by (simp_all add: indexes_hold_def map_fst_case [of iv_ID] map_fst_case [of iv_InvoiceNumber])
  then have a: "admits (db_view s) (WInvoice iv ev)"
    by (auto simp: u(1) db_view_simps fresh_events_def invoice_row_def outbox_row_def row_event_def image_iff)
  have "rows_ok s'" using assms(1) e(2) by (auto simp: u(1) db_inv_def rows_ok_def scanInvoice_def invoice_row_def outbox_row_def)
  then show ?thesis using a v u assms(1) by (simp add: db_inv_def)
qed

lemma scan_plan_row:
  "scanPlan \<lparr>pr_ID = rp_ID p, pr_Name = rp_Name p, pr_UnitPrices = marshalUnitPrices (rp_UnitPrices p), pr_Included = marshalQtyMap (rp_IncludedQuantities p),
     pr_Quotas = marshalQtyMap (rp_QuotaLimits p), pr_CreatedAt = t\<rparr> = Inr (p\<lparr>rp_CreatedAt := t\<rparr>)"
  by (simp add: scanPlan_def)

lemma find_append_case: "find Q (xs @ ys) = (case find Q xs of None \<Rightarrow> find Q ys | Some x \<Rightarrow> Some x)"
  by (induction xs) auto

lemma map_of_snoc: "k \<notin> fst ` set m \<Longrightarrow> map_of (m @ [(k, v)]) = (map_of m)(k \<mapsto> v)"
  by (induction m) (auto simp: fun_eq_iff)

lemma transact_plan:
  assumes "db_inv s" "honest (WPlan p key)" "transact pt (WPlan p key) s = Inr s'"
  shows "admits (db_view s) (WPlan p key) \<and> db_view s' = commit pt (WPlan p key) (db_view s) \<and> db_inv s' \<and> bd_turns s' = bd_turns s"
proof -
  define row where "row = \<lparr>pr_ID = rp_ID p, pr_Name = rp_Name p, pr_UnitPrices = marshalUnitPrices (rp_UnitPrices p),
    pr_Included = marshalQtyMap (rp_IncludedQuantities p), pr_Quotas = marshalQtyMap (rp_QuotaLimits p), pr_CreatedAt = pt (rp_CreatedAt p)\<rparr>"
  have row: "scanPlan row = Inr (plan_row pt p)" "pr_ID row = rp_ID p" by (simp_all add: row_def scan_plan_row plan_row_def)
  have u: "s' = s\<lparr>bd_plans := bd_plans s @ [row], bd_pkeys := (if key = '''' then bd_pkeys s else bd_pkeys s @ [(key, rp_ID p)])\<rparr>"
      "indexes_hold s'" "references_hold s'"
    using assms(3) by (auto simp: planFunc_def bill_statement_Inr row_def split: sum.splits if_splits)
  have d: "rp_ID p \<notin> pr_ID ` set (bd_plans s)" "key \<noteq> '''' \<Longrightarrow> key \<notin> fst ` set (bd_pkeys s)"
    using u(2) by (auto simp: u(1) indexes_hold_def row)
  have pw: "plan_with s (rp_ID p) = None" using d(1) plan_with_none by blast
  have a: "admits (db_view s) (WPlan p key)" using d(2) pw by (auto simp: db_view_def map_of_eq_None_iff)
  have "map_option (projr \<circ> scanPlan) (plan_with s' i) = ((\<lambda>i. map_option (projr \<circ> scanPlan) (plan_with s i))(rp_ID p \<mapsto> plan_row pt p)) i" for i
    using pw row by (cases "plan_with s i") (auto simp: u(1) plan_with_def find_append_case)
  then have v: "db_view s' = commit pt (WPlan p key) (db_view s)"
    using map_of_snoc [OF d(2), of "rp_ID p"] by (auto simp: db_view_def u(1) fun_eq_iff)
  have "plan_ok (plan_row pt p)" using assms(2) by (simp add: plan_row_def plan_ok_def)
  then have "rows_ok s'" using assms(1) row by (simp add: u(1) db_inv_def rows_ok_def)
  then show ?thesis using a v u assms(1) by (simp add: db_inv_def)
qed

lemma transact_assign:
  assumes "db_inv s" "transact pt (WAssign team pid) s = Inr s'"
  shows "admits (db_view s) (WAssign team pid) \<and> db_view s' = commit pt (WAssign team pid) (db_view s) \<and> db_inv s' \<and> bd_turns s' = bd_turns s"
proof -
  have u: "s' = s\<lparr>bd_teams := AList.update team pid (bd_teams s)\<rparr>" "indexes_hold s'" "references_hold s'"
    using assms(2) by (auto simp: assignFunc_def bill_statement_Inr)
  have "map_of (bd_teams s') team = Some pid" by (simp add: u(1) update_conv)
  then have "pid \<in> snd ` set (bd_teams s')" by (auto dest!: map_of_SomeD intro: rev_image_eqI)
  then have "pid \<in> dom (bv_plans (db_view s))" using u(3) unfolding db_plans_dom references_hold_def by (auto simp: u(1))
  then have a: "admits (db_view s) (WAssign team pid)" by auto
  have v: "db_view s' = commit pt (WAssign team pid) (db_view s)" by (simp add: db_view_def u(1) plan_with_def update_conv')
  have "rows_ok s'" using assms(1) by (simp add: u(1) db_inv_def rows_ok_def)
  then show ?thesis using a v u assms(1) by (simp add: db_inv_def)
qed

lemma transact_spec:
  assumes "db_inv s" "honest w" "transact pt w s = Inr s'"
  shows "admits (db_view s) w \<and> db_view s' = commit pt w (db_view s) \<and> db_inv s' \<and> bd_turns s' = bd_turns s"
  using assms transact_usage transact_invoice transact_plan transact_assign by (cases w) blast+

lemma committed_spec:
  assumes "db_inv s" "honest w"
  shows "evolves pt (db_view s) (db_view (committed pt w s)) \<and> db_inv (committed pt w s) \<and> bd_turns (committed pt w s) = bd_turns s"
proof (cases "transact pt w s")
  case (Inr s')
  from transact_spec [OF assms Inr] assms(2) show ?thesis by (simp add: committed_def Inr evolves_one r_into_rtranclp)
qed (simp add: committed_def assms)

lemma others_spec:
  "db_inv s \<Longrightarrow> list_all honest ws \<Longrightarrow> evolves pt (db_view s) (db_view (fold (committed pt) ws s)) \<and> db_inv (fold (committed pt) ws s)
     \<and> bd_turns (fold (committed pt) ws s) = bd_turns s"
proof (induction ws arbitrary: s)
  case (Cons w ws)
  from Cons.prems committed_spec [of s w pt] have c: "evolves pt (db_view s) (db_view (committed pt w s))" "db_inv (committed pt w s)"
      "bd_turns (committed pt w s) = bd_turns s" by simp_all
  from Cons.IH [OF c(2)] Cons.prems(2) c show ?case by (auto intro: rtranclp_trans)
qed simp

lemma next_turn_spec:
  assumes "db_inv s" "next_turn pt s = (flt, s')"
  shows "kept pt db_view db_inv db_healthy s s'" and "db_healthy s \<Longrightarrow> flt = None \<and> s' = s"
proof -
  show "kept pt db_view db_inv db_healthy s s'"
  proof (cases "bd_turns s")
    case Nil
    then show ?thesis using assms by (simp add: next_turn_def kept_def)
  next
    case (Cons t ts)
    define s0 where "s0 = s\<lparr>bd_turns := ts\<rparr>"
    have "db_view s0 = db_view s" by (simp add: s0_def db_view_def plan_with_def)
    moreover have "db_inv s0" using assms(1) Cons by (simp add: s0_def db_inv_def indexes_hold_def references_hold_def rows_ok_def)
    moreover have "list_all honest (tn_others t)" using assms(1) Cons by (simp add: db_inv_def)
    moreover have "s' = fold (committed pt) (tn_others t) s0" using assms(2) Cons by (simp add: next_turn_def s0_def)
    ultimately show ?thesis using others_spec [of s0 "tn_others t" pt] Cons by (simp add: kept_def db_healthy_def)
  qed
  show "db_healthy s \<Longrightarrow> flt = None \<and> s' = s" using assms(2) by (simp add: db_healthy_def next_turn_def)
qed

section \<open>Queries\<close>

lemma query_spec:
  assumes "db_inv s" "query pt f (\<lambda>err. Wrapf what err '''') s = (res, s')"
  shows "kept pt db_view db_inv db_healthy s s'" and "res = f s' \<or> (\<exists>m. res = Inl (Wrapf what (Dyn m) ''''))"
    and "db_healthy s \<Longrightarrow> s' = s \<and> res = f s"
proof -
  obtain flt s1 where t: "next_turn pt s = (flt, s1)" by fastforce
  have s1: "s' = s1" using assms(2) t by (simp add: query_def split: option.splits)
  show "kept pt db_view db_inv db_healthy s s'" using next_turn_spec(1) [OF assms(1) t] s1 by simp
  show "res = f s' \<or> (\<exists>m. res = Inl (Wrapf what (Dyn m) ''''))"
  proof (cases flt)
    case (Some x)
    then show ?thesis using assms(2) t by (cases x) (auto simp: query_def)
  qed (use assms(2) t in \<open>auto simp: query_def\<close>)
  show "db_healthy s \<Longrightarrow> s' = s \<and> res = f s" using next_turn_spec(2) [OF assms(1) t] assms(2) t by (auto simp: query_def)
qed

lemma not_found_wrapped [simp]: "errors_Is (Wrapf a (Dyn m) b) ErrRepoNotFound = False"
  by (simp add: ErrRepoNotFound_def)

lemma found_query: "res = reply x \<or> (\<exists>m. res = Inl (Wrapf what (Dyn m) '''')) \<Longrightarrow> found x res"
proof (elim disjE exE)
  fix m assume "res = Inl (Wrapf what (Dyn m) '''')"
  then show "found x res" by (simp add: found_def ErrRepoNotFound_def)
qed simp

lemma db_inv_rows: "db_inv s \<Longrightarrow> rows_ok s"
  by (simp add: db_inv_def)

lemma find_pairs:
  assumes "\<And>r k. (r, k) \<in> set rows \<Longrightarrow> P (r, k) = Q r"
  shows "map_option fst (find P rows) = find Q (map fst rows)"
  using assms by (induction rows) fastforce+

lemma find_usage_reply:
  assumes "db_inv s" "key \<noteq> ''''"
  shows "(case find (\<lambda>(r, k). ur_Team r = team \<and> k = Some key) (bd_usage s) of None \<Rightarrow> Inl ErrRepoNotFound | Some row \<Rightarrow> Inr (scanUsageRecord row))
    = reply (keyed_record (db_view s) team key)"
proof -
  have k: "k = nullIfEmpty (ur_IdempotencyKey r)" if "(r, k) \<in> set (bd_usage s)" for r k
    using db_inv_rows [OF assms(1)] that by (auto simp: rows_ok_def list_all_iff)
  have "map_option fst (find (\<lambda>(r, k). ur_Team r = team \<and> k = Some key) (bd_usage s)) = keyed_record (db_view s) team key"
    unfolding keyed_record_def db_view_simps
  proof (rule find_pairs)
    fix r x assume "(r, x) \<in> set (bd_usage s)"
    from k [OF this] show "(case (r, x) of (r, k) \<Rightarrow> ur_Team r = team \<and> k = Some key) = (ur_Team r = team \<and> ur_IdempotencyKey r = key)"
      using assms(2) by (auto simp: nullIfEmpty_def)
  qed
  moreover have "scanUsageRecord row = fst row" if "find (\<lambda>(r, k). ur_Team r = team \<and> k = Some key) (bd_usage s) = Some row" for row
  proof -
    obtain r x where row: "row = (r, x)" by (cases row)
    have "row \<in> set (bd_usage s)" using that by (auto simp: find_Some_iff intro: nth_mem dest: sym)
    then have "x = nullIfEmpty (ur_IdempotencyKey r)" using k row by blast
    then show ?thesis by (simp add: row)
  qed
  ultimately show ?thesis by (auto simp: reply_def split: option.splits dest: sym)
qed

lemma period_sum:
  "sum_list (map (sint \<circ> ur_Quantity \<circ> fst) (filter (\<lambda>(r, k). ur_Team r = team \<and> ur_MeterType r = meter \<and> ur_OccurredAt r \<ge> t) (bd_usage s)))
   = billed_since (db_view s) team meter t"
proof -
  have "filter (\<lambda>r. Q r) (map fst us) = map fst (filter (\<lambda>(r, k). Q r) us)" for Q and us :: "(UsageRecord \<times> string option) list"
    by (induction us) auto
  then show ?thesis by (simp add: billed_since_def db_view_simps comp_def)
qed

lemma scan_plan_reply:
  assumes "db_inv s"
  shows "scanPlanOpt (Option.bind x (plan_with s)) = reply (Option.bind x (bv_plans (db_view s)))"
    and "scanPlanOpt (plan_with s i) = reply (bv_plans (db_view s) i)"
proof -
  have p: "scanPlanOpt (plan_with s i) = reply (bv_plans (db_view s) i)" for i
  proof (cases "plan_with s i")
    case (Some row)
    then have "row \<in> set (bd_plans s)" using plan_with_some by blast
    then obtain p where "scanPlan row = Inr p" using db_inv_rows [OF assms] by (auto simp: rows_ok_def list_all_iff)
    then show ?thesis using Some by (simp add: scanPlanOpt_def db_view_def reply_def)
  qed (simp add: scanPlanOpt_def db_view_def reply_def)
  show "scanPlanOpt (plan_with s i) = reply (bv_plans (db_view s) i)" by (rule p)
  show "scanPlanOpt (Option.bind x (plan_with s)) = reply (Option.bind x (bv_plans (db_view s)))"
    using p by (cases x) (simp_all add: scanPlanOpt_def reply_def)
qed

lemma scanSum_Inr: "scanSum i = Inr w \<Longrightarrow> sint w = i"
  by (auto simp: scanSum_def sint64_of_int split: if_splits)

lemma bucketOf_Inr:
  assumes "bucketOf rows k = Inr b"
  shows "bucket_kind b = k \<and> sint (mu_TotalQuantity b) = sum_list (map (sint \<circ> ur_Quantity) (filter (\<lambda>r. row_kind r = k) rows))
    \<and> sint (AmountMicros (mu_TotalCost b)) = sum_list (map (sint \<circ> AmountMicros \<circ> ur_Cost) (filter (\<lambda>r. row_kind r = k) rows))"
  using assms by (auto simp: bucketOf_def ebind_def bucket_kind_def split: sum.splits dest!: scanSum_Inr)

lemma emap_Inr: "emap f xs = Inr ys \<Longrightarrow> list_all2 (\<lambda>x y. f x = Inr y) xs ys"
  by (induction xs arbitrary: ys) (auto simp: ebind_def split: sum.splits)

lemma buckets_rollup:
  assumes "emap (bucketOf rows) ks = Inr bs" "distinct ks" "set ks = row_kind ` set rows"
  shows "rollup rows bs"
proof -
  have l: "list_all2 (\<lambda>k b. bucketOf rows k = Inr b) ks bs" using emap_Inr [OF assms(1)] .
  then have m: "map bucket_kind bs = ks" by (induction) (auto dest: bucketOf_Inr)
  have "\<forall>b \<in> set bs. \<exists>k. bucketOf rows k = Inr b" using l by (induction) auto
  then have "bucketOf rows (bucket_kind b) = Inr b" if "b \<in> set bs" for b
    using that bucketOf_Inr by fastforce
  then have "\<forall>b \<in> set bs. sint (mu_TotalQuantity b) = sum_list (map (sint \<circ> ur_Quantity) (filter (\<lambda>r. row_kind r = bucket_kind b) rows))
      \<and> sint (AmountMicros (mu_TotalCost b)) = sum_list (map (sint \<circ> AmountMicros \<circ> ur_Cost) (filter (\<lambda>r. row_kind r = bucket_kind b) rows))"
    using bucketOf_Inr by blast
  then show ?thesis unfolding rollup_def m using assms(2,3) by simp
qed

lemma between_rows: "usage_between pt team a b s = period_rows (db_view s) team (pt a) (pt b)"
  by (simp add: usage_between_def period_rows_def db_view_simps)

lemma scan_invoices:
  assumes "rows_ok s" "set rows \<subseteq> set (bd_invoices s)" shows "emap scanInvoice rows = Inr (map fst rows)"
  using assms(2)
proof (induction rows)
  case (Cons row rows)
  then have "scanInvoice row = Inr (fst row)" using assms(1) by (auto simp: rows_ok_def list_all_iff)
  then show ?case using Cons by simp
qed simp

section \<open>Transactions of the adapters\<close>

lemma beginFunc_spec:
  assumes "db_inv s" "honest w" "beginFunc pt f s = (e, s')" and f: "\<And>s1. f s1 = transact pt w s1"
  shows "kept pt db_view db_inv db_healthy s s'" and "e = None \<Longrightarrow> wrote pt (db_view s) w (db_view s')"
    and "db_healthy s \<Longrightarrow> (case transact pt w s of Inr s2 \<Rightarrow> e = None \<and> s' = s2 | Inl err \<Rightarrow> e = Some err \<and> s' = s)"
proof -
  obtain flt s1 where t: "next_turn pt s = (flt, s1)" by fastforce
  have k: "kept pt db_view db_inv db_healthy s s1" using next_turn_spec(1) [OF assms(1) t] .
  then have i1: "db_inv s1" "evolves pt (db_view s) (db_view s1)" "db_healthy s \<longrightarrow> db_healthy s1" by (simp_all add: kept_def)
  have step: "kept pt db_view db_inv db_healthy s s2 \<and> wrote pt (db_view s) w (db_view s2)" if "transact pt w s1 = Inr s2" for s2
  proof -
    note ts = transact_spec [OF i1(1) assms(2) that]
    then have wr: "wrote pt (db_view s) w (db_view s2)" using i1(2) by (auto simp: wrote_def)
    then show ?thesis using ts i1(3) wrote_evolves [OF wr assms(2)] by (simp add: kept_def db_healthy_def)
  qed
  have "(e \<noteq> None \<and> s' = s1) \<or> transact pt w s1 = Inr s'"
    using assms(3) t by (auto simp: beginFunc_def f split: option.splits turnFault.splits sum.splits)
  then show "kept pt db_view db_inv db_healthy s s'" using k step by blast
  have "e = None \<longrightarrow> transact pt w s1 = Inr s'"
    using assms(3) t by (auto simp: beginFunc_def f split: option.splits turnFault.splits sum.splits)
  then show "e = None \<Longrightarrow> wrote pt (db_view s) w (db_view s')" using step by blast
  show "db_healthy s \<Longrightarrow> (case transact pt w s of Inr s2 \<Rightarrow> e = None \<and> s' = s2 | Inl err \<Rightarrow> e = Some err \<and> s' = s)"
    using next_turn_spec(2) [OF assms(1) t] assms(3) t by (auto simp: beginFunc_def f split: sum.splits)
qed

section \<open>The contract holds\<close>

lemma db_kept_refl: "db_inv d \<Longrightarrow> kept pt db_view db_inv db_healthy d d"
  by (simp add: kept_def)

lemma record_tx_law:
  assumes "db_inv d" "honest (WUsage r evs)" "RecordUsageTx pt r evs d = (ru, d')"
  shows "kept pt db_view db_inv db_healthy d d' \<and> (\<forall>x. ru = Inr x \<longrightarrow> x = r \<and> wrote pt (db_view d) (WUsage r evs) (db_view d'))
    \<and> (db_healthy d \<longrightarrow> (if admits (db_view d) (WUsage r evs) \<and> list_all (encodable \<circ> oe_Payload) evs
         then ru = Inr r \<and> db_view d' = commit pt (WUsage r evs) (db_view d) else isl ru \<and> db_view d' = db_view d))"
proof (cases "marshalEvents evs")
  case (Inl err)
  then have "\<not> list_all (encodable \<circ> oe_Payload) evs" using marshalEvents_encodable by (metis Inl_Inr_False)
  then show ?thesis using assms Inl db_kept_refl [OF assms(1)] by (auto simp: RecordUsageTx_def)
next
  case (Inr es)
  have enc: "list_all (encodable \<circ> oe_Payload) evs" using Inr marshalEvents_encodable by blast
  have m: "map fst es = evs" using marshalEvents_Inr [OF Inr] by blast
  obtain e d1 where b: "beginFunc pt (usageFunc pt r es) d = (e, d1)" by fastforce
  have f: "usageFunc pt r es s1 = transact pt (WUsage r evs) s1" for s1 using Inr by simp
  note bs = beginFunc_spec [OF assms(1,2) b f]
  have r: "d' = d1" "ru = (case e of Some err \<Rightarrow> Inl (if isUniqueViolation err then ErrRepoDuplicate else Wrapf ''record usage tx: '' err '''') | None \<Rightarrow> Inr r)"
    using assms(3) Inr b by (auto simp: RecordUsageTx_def split: option.splits)
  have ok: "admits (db_view d) (WUsage r evs) \<longleftrightarrow> (\<exists>s'. transact pt (WUsage r evs) d = Inr s')"
    using usageFunc_Inr [OF assms(1) m, of pt r] f by metis
  have "if admits (db_view d) (WUsage r evs) \<and> list_all (encodable \<circ> oe_Payload) evs
         then ru = Inr r \<and> db_view d' = commit pt (WUsage r evs) (db_view d) else isl ru \<and> db_view d' = db_view d" if h: "db_healthy d"
  proof (cases "transact pt (WUsage r evs) d")
    case (Inl err)
    then show ?thesis using bs(3) [OF h] r ok by (cases "isUniqueViolation err") auto
  next
    case (Inr s2)
    then show ?thesis using bs(3) [OF h] r ok enc transact_spec [OF assms(1,2) Inr] by auto
  qed
  then show ?thesis using bs(1,2) r by (auto split: option.splits)
qed

lemma save_invoice_law:
  assumes "db_inv d" "honest (WInvoice iv ev)" "SaveInvoiceTx pt iv ev d = (ri, d')"
  shows "kept pt db_view db_inv db_healthy d d' \<and> (\<forall>x. ri = Inr x \<longrightarrow> x = iv \<and> wrote pt (db_view d) (WInvoice iv ev) (db_view d'))"
proof (cases "marshalOutboxPayload (oe_Payload ev)")
  case (Inl err)
  then show ?thesis using assms(3) db_kept_refl [OF assms(1)] by (auto simp: SaveInvoiceTx_def)
next
  case (Inr b)
  obtain e d1 where b: "beginFunc pt (invoiceFunc pt iv ev b) d = (e, d1)" by fastforce
  have f: "invoiceFunc pt iv ev b s1 = transact pt (WInvoice iv ev) s1" for s1 using Inr by simp
  note bs = beginFunc_spec [OF assms(1,2) b f]
  have "d' = d1 \<and> (\<forall>x. ri = Inr x \<longrightarrow> x = iv \<and> e = None)" using assms(3) Inr b by (auto simp: SaveInvoiceTx_def split: option.splits)
  then show ?thesis using bs(1,2) by blast
qed

lemma create_plan_law:
  assumes "db_inv d" "plan_ok p" "CreatePlan pt p key d = (rp, d')"
  shows "kept pt db_view db_inv db_healthy d d' \<and> (\<forall>x. rp = Inr x \<longrightarrow> x = p \<and> wrote pt (db_view d) (WPlan p key) (db_view d'))"
proof -
  obtain e d1 where b: "beginFunc pt (planFunc pt p key) d = (e, d1)" by fastforce
  have h: "honest (WPlan p key)" using assms(2) by simp
  have f: "planFunc pt p key s1 = transact pt (WPlan p key) s1" for s1 by simp
  note bs = beginFunc_spec [OF assms(1) h b f]
  have "d' = d1 \<and> (\<forall>x. rp = Inr x \<longrightarrow> x = p \<and> e = None)" using assms(3) b by (auto simp: CreatePlan_def split: option.splits)
  then show ?thesis using bs(1,2) by blast
qed

lemma find_usage_law:
  assumes "db_inv d" "key \<noteq> ''''" "FindByIdempotencyKey pt team key d = (ru, d')"
  shows "kept pt db_view db_inv db_healthy d d' \<and> found (keyed_record (db_view d') team key) ru
      \<and> (db_healthy d \<longrightarrow> db_view d' = db_view d \<and> ru = reply (keyed_record (db_view d) team key))"
proof -
  note q = query_spec [OF assms(1) assms(3) [unfolded FindByIdempotencyKey_def]]
  have i: "db_inv d'" using q(1) by (simp add: kept_def)
  show ?thesis using q(1) found_query [OF q(2) [unfolded find_usage_reply [OF i assms(2)]]] q(3) find_usage_reply [OF assms(1,2)] by simp
qed

lemma period_usage_law:
  assumes "db_inv d" "CurrentPeriodUsage pt team meter t d = (rq, d')"
  shows "kept pt db_view db_inv db_healthy d d' \<and> (\<forall>q. rq = Inr q \<longrightarrow> sint q = billed_since (db_view d') team meter (pt t))
      \<and> (db_healthy d \<longrightarrow> db_view d' = db_view d
          \<and> (in_int64 (billed_since (db_view d) team meter (pt t)) \<longrightarrow> rq = Inr (word_of_int (billed_since (db_view d) team meter (pt t)))))"
proof -
  note q = query_spec [OF assms(1) assms(2) [unfolded CurrentPeriodUsage_def period_sum]]
  have "sint x = billed_since (db_view d') team meter (pt t)" if "rq = Inr x" for x
    using q(2) that by (auto split: sum.splits dest: scanSum_Inr)
  then show ?thesis using q(1,3) by (auto simp: scanSum_def)
qed

lemma plan_laws:
  assumes "db_inv d"
  shows "FindPlanByIdempotencyKey pt key d = (rp, d') \<Longrightarrow> kept pt db_view db_inv db_healthy d d' \<and> found (plan_by_key (db_view d') key) rp"
    and "GetPlan pt i d = (rp, d') \<Longrightarrow> kept pt db_view db_inv db_healthy d d' \<and> found (bv_plans (db_view d') i) rp"
    and "ResolvePlanForTeam pt team d = (rp, d') \<Longrightarrow> kept pt db_view db_inv db_healthy d d' \<and> found (plan_of (db_view d') team) rp
      \<and> (db_healthy d \<longrightarrow> db_view d' = db_view d \<and> rp = reply (plan_of (db_view d) team))"
proof -
  assume a: "FindPlanByIdempotencyKey pt key d = (rp, d')"
  note q = query_spec [OF assms a [unfolded FindPlanByIdempotencyKey_def]]
  have i: "db_inv d'" using q(1) by (simp add: kept_def)
  show "kept pt db_view db_inv db_healthy d d' \<and> found (plan_by_key (db_view d') key) rp"
    using q(1) found_query [OF q(2) [unfolded scan_plan_reply(1) [OF i]]] by (simp add: plan_by_key_def db_view_simps)
next
  assume a: "GetPlan pt i d = (rp, d')"
  note q = query_spec [OF assms a [unfolded GetPlan_def]]
  have i: "db_inv d'" using q(1) by (simp add: kept_def)
  show "kept pt db_view db_inv db_healthy d d' \<and> found (bv_plans (db_view d') i) rp"
    using q(1) found_query [OF q(2) [unfolded scan_plan_reply(2) [OF i]]] by simp
next
  assume a: "ResolvePlanForTeam pt team d = (rp, d')"
  note q = query_spec [OF assms a [unfolded ResolvePlanForTeam_def]]
  have i: "db_inv d'" using q(1) by (simp add: kept_def)
  show "kept pt db_view db_inv db_healthy d d' \<and> found (plan_of (db_view d') team) rp
      \<and> (db_healthy d \<longrightarrow> db_view d' = db_view d \<and> rp = reply (plan_of (db_view d) team))"
    using q(1,3) found_query [OF q(2) [unfolded scan_plan_reply(1) [OF i]]] scan_plan_reply(1) [OF assms]
    by (simp add: plan_of_def db_view_simps)
qed

lemma aggregate_law:
  assumes "db_inv d" "AggregateUsageForPeriod pt team a b d = (rb, d')"
  shows "kept pt db_view db_inv db_healthy d d' \<and> (\<forall>bs. rb = Inr bs \<longrightarrow> rollup (period_rows (db_view d') team (pt a) (pt b)) bs)"
proof -
  note q = query_spec [OF assms(1) assms(2) [unfolded AggregateUsageForPeriod_def Let_def between_rows]]
  let ?rows = "period_rows (db_view d') team (pt a) (pt b)"
  have "rollup ?rows bs" if "rb = Inr bs" for bs
  proof -
    have "emap (bucketOf ?rows) (sort_key fst (remdups (map row_kind ?rows))) = Inr bs" using q(2) that by (auto split: sum.splits)
    then show ?thesis by (rule buckets_rollup) simp_all
  qed
  then show ?thesis using q(1) by blast
qed

lemma get_invoice_law:
  assumes "db_inv d" "GetInvoice pt i d = (ri, d')"
  shows "kept pt db_view db_inv db_healthy d d' \<and> found (find (\<lambda>iv. iv_ID iv = i) (bv_invoices (db_view d'))) ri"
proof -
  note q = query_spec [OF assms(1) assms(2) [unfolded GetInvoice_def]]
  have ro: "rows_ok d'" using q(1) db_inv_rows by (simp add: kept_def)
  have "map_option fst (find (\<lambda>(iv, l). iv_ID iv = i) (bd_invoices d')) = find (\<lambda>iv. iv_ID iv = i) (bv_invoices (db_view d'))"
    unfolding db_view_simps by (rule find_pairs) simp
  moreover have "scanInvoice row = Inr (fst row)" if "find (\<lambda>(iv, l). iv_ID iv = i) (bd_invoices d') = Some row" for row
    using that ro by (auto simp: find_Some_iff rows_ok_def list_all_length)
  ultimately have "(case find (\<lambda>(iv, l). iv_ID iv = i) (bd_invoices d') of None \<Rightarrow> Inl ErrRepoNotFound | Some row \<Rightarrow> scanInvoice row)
      = reply (find (\<lambda>iv. iv_ID iv = i) (bv_invoices (db_view d')))"
    by (auto simp: reply_def split: option.splits dest: sym)
  then show ?thesis using q(1) found_query q(2) by metis
qed

lemma list_invoices_law:
  assumes "db_inv d" "ListInvoices pt cc opts d = (rl, d')"
  shows "kept pt db_view db_inv db_healthy d d' \<and> (\<forall>xs tok. rl = Inr (xs, tok) \<longrightarrow> (\<forall>iv \<in> set xs. iv \<in> set (bv_invoices (db_view d')) \<and> iv_Team iv = lo_Team opts))"
proof (cases "decodeCursor cc (lo_PageToken opts)")
  case (Inl err)
  then show ?thesis using assms(2) db_kept_refl [OF assms(1)] by (auto simp: ListInvoices_def)
next
  case (Inr cur)
  define n where "n = nat (if lo_PageSize opts \<le> 0 then defaultPageSize else lo_PageSize opts)"
  note run = assms(2) [unfolded ListInvoices_def Let_def Inr sum.case]
  note q = query_spec [OF assms(1) run]
  have ro: "rows_ok d'" using q(1) db_inv_rows by (simp add: kept_def)
  have sub: "set (invoice_page pt opts cur d') \<subseteq> {row \<in> set (bd_invoices d'). iv_Team (fst row) = lo_Team opts}"
    by (auto simp: invoice_page_def)
  have "emap scanInvoice (take (n + 1) (invoice_page pt opts cur d')) = Inr (map fst (take (n + 1) (invoice_page pt opts cur d')))"
    using sub set_take_subset [of "n + 1" "invoice_page pt opts cur d'"] by (intro scan_invoices [OF ro]) blast
  then have "set xs \<subseteq> fst ` set (invoice_page pt opts cur d')" if "rl = Inr (xs, tok)" for xs tok
    using q(2) that unfolding n_def [symmetric] by (auto simp: take_map split: if_splits dest!: in_set_takeD)
  then show ?thesis using q(1) sub by (fastforce simp: db_view_simps)
qed

interpretation pgb: bill_store "PgStores pt cc" pt db_view db_inv db_healthy for pt cc
proof
  show "bview_ok (db_view d)" if "db_inv d" for d using that by (rule bill_view_ok)
qed (simp_all only: PgStores_def BillingStores.simps,
  (erule find_usage_law period_usage_law record_tx_law create_plan_law plan_laws aggregate_law save_invoice_law get_invoice_law list_invoices_law; assumption)+)

end
