(* ===== verification/BillingRelay.thy ===== *)
theory BillingRelay
  imports BillingTables
begin

text \<open>
  The relay of billing's outbox (\<^verbatim>\<open>events/relay.go\<close>, \<^verbatim>\<open>events/outbox_reader.go\<close>,
  \<^verbatim>\<open>events/publisher.go\<close>): the messages of \<^verbatim>\<open>events/v1\<close>, decoding a row, publishing under the id of the
  row, marking, and the loop. The encoding of a message and the stream of the broker are third-party code: the
  encoding is a parameter, and publishing to the stream takes a turn that may refuse, lose the acknowledgement,
  or drop a duplicate id.
\<close>

section \<open>Messages\<close>

datatype ProtoMeter = METER_TYPE_UNSPECIFIED | METER_TYPE_INFERENCE_REQUEST | METER_TYPE_INFERENCE_TOKENS
  | METER_TYPE_COMPUTE_SECONDS | METER_TYPE_STORAGE_BYTES

text \<open>A \<^verbatim>\<open>timestamppb.Timestamp\<close> is the instant it stands for, an unset field of that type is \<open>None\<close>.\<close>

record UsageRecordedMsg =
  pu_RecordId :: string
  pu_Team :: string
  pu_RatePlanId :: string
  pu_MeterType :: ProtoMeter
  pu_Quantity :: int64
  pu_CostMicros :: int64
  pu_CurrencyCode :: string
  pu_ModelId :: string
  pu_ModelVersion :: string
  pu_SourceRequestId :: string
  pu_OccurredAt :: "time option"

record QuotaExceededMsg =
  pq_Team :: string
  pq_RatePlanId :: string
  pq_MeterType :: ProtoMeter
  pq_QuotaLimit :: int64
  pq_CurrentUsage :: int64
  pq_OccurredAt :: "time option"

record InvoiceGeneratedMsg =
  pv_InvoiceId :: string
  pv_InvoiceNumber :: string
  pv_Team :: string
  pv_RatePlanId :: string
  pv_PeriodStart :: "time option"
  pv_PeriodEnd :: "time option"
  pv_TotalMicros :: int64
  pv_CurrencyCode :: string
  pv_FinalizedAt :: "time option"

datatype EventMessage = UsageRecordedM UsageRecordedMsg | QuotaExceededM QuotaExceededMsg | InvoiceGeneratedM InvoiceGeneratedMsg

definition meterTypeToProto :: "MeterType \<Rightarrow> ProtoMeter" where
  "meterTypeToProto mt =
     (if mt = MeterTypeInferenceRequest then METER_TYPE_INFERENCE_REQUEST
      else if mt = MeterTypeInferenceTokens then METER_TYPE_INFERENCE_TOKENS
      else if mt = MeterTypeComputeSeconds then METER_TYPE_COMPUTE_SECONDS
      else if mt = MeterTypeStorageBytes then METER_TYPE_STORAGE_BYTES
      else METER_TYPE_UNSPECIFIED)"

definition usageRecordedToProto :: "UsageRecordedPayload \<Rightarrow> UsageRecordedMsg" where
  "usageRecordedToProto p = \<lparr>pu_RecordId = up_RecordID p, pu_Team = up_Team p, pu_RatePlanId = up_RatePlanID p,
     pu_MeterType = meterTypeToProto (up_MeterType p), pu_Quantity = up_Quantity p, pu_CostMicros = up_CostMicros p,
     pu_CurrencyCode = up_CurrencyCode p, pu_ModelId = up_ModelID p, pu_ModelVersion = up_ModelVersion p,
     pu_SourceRequestId = up_SourceRequestID p, pu_OccurredAt = Some (up_OccurredAt p)\<rparr>"

definition quotaExceededToProto :: "QuotaExceededPayload \<Rightarrow> QuotaExceededMsg" where
  "quotaExceededToProto p = \<lparr>pq_Team = qp_Team p, pq_RatePlanId = qp_RatePlanID p, pq_MeterType = meterTypeToProto (qp_MeterType p),
     pq_QuotaLimit = qp_QuotaLimit p, pq_CurrentUsage = qp_CurrentUsage p, pq_OccurredAt = Some (qp_OccurredAt p)\<rparr>"

definition invoiceGeneratedToProto :: "InvoiceGeneratedPayload \<Rightarrow> InvoiceGeneratedMsg" where
  "invoiceGeneratedToProto p = \<lparr>pv_InvoiceId = ip_InvoiceID p, pv_InvoiceNumber = ip_InvoiceNumber p, pv_Team = ip_Team p,
     pv_RatePlanId = ip_RatePlanID p, pv_PeriodStart = Some (ip_PeriodStart p), pv_PeriodEnd = Some (ip_PeriodEnd p),
     pv_TotalMicros = ip_TotalMicros p, pv_CurrencyCode = ip_CurrencyCode p, pv_FinalizedAt = Some (ip_FinalizedAt p)\<rparr>"

fun toProto :: "OutboxPayload \<Rightarrow> EventMessage" where
  "toProto (UsageRecordedP p) = UsageRecordedM (usageRecordedToProto p)"
| "toProto (QuotaExceededP p) = QuotaExceededM (quotaExceededToProto p)"
| "toProto (InvoiceGeneratedP p) = InvoiceGeneratedM (invoiceGeneratedToProto p)"

definition decodeOutboxPayload :: "string \<Rightarrow> json \<Rightarrow> goerr + EventMessage" where
  "decodeOutboxPayload eventType body = ebind (unmarshalPayload eventType body) (\<lambda>p. Inr (toProto p))"

section \<open>The ports of the relay\<close>

record OutboxRow =
  rw_ID :: string
  rw_EventType :: string
  rw_Payload :: json
  rw_CreatedAt :: time

record 's OutboxReader =
  or_ClaimUnpublished :: "int \<Rightarrow> 's \<Rightarrow> (goerr + OutboxRow list) \<times> 's"
  or_MarkPublished :: "string \<Rightarrow> 's \<Rightarrow> goerr option \<times> 's"

text \<open>\<^verbatim>\<open>natsPublisher\<close>, with the method of \<^verbatim>\<open>idPublisher\<close> when the value has it.\<close>

record 'b natsPublisher =
  np_Publish :: "string \<Rightarrow> EventMessage \<Rightarrow> 'b \<Rightarrow> goerr option \<times> 'b"
  np_PublishWithID :: "(string \<Rightarrow> string \<Rightarrow> EventMessage \<Rightarrow> 'b \<Rightarrow> goerr option \<times> 'b) option"

record RelayConfig =
  rc_PollInterval :: duration
  rc_BatchSize :: int

definition withDefaults :: "RelayConfig \<Rightarrow> RelayConfig" where
  "withDefaults c = c\<lparr>rc_PollInterval := (if rc_PollInterval c \<le> 0 then second else rc_PollInterval c),
     rc_BatchSize := (if rc_BatchSize c \<le> 0 then 100 else rc_BatchSize c)\<rparr>"

record ('s, 'b) OutboxRelay =
  rl_reader :: "'s OutboxReader"
  rl_pub :: "'b natsPublisher"
  rl_cfg :: RelayConfig

definition NewOutboxRelay :: "'s OutboxReader \<Rightarrow> 'b natsPublisher \<Rightarrow> RelayConfig \<Rightarrow> ('s, 'b) OutboxRelay" where
  "NewOutboxRelay reader pub cfg = \<lparr>rl_reader = reader, rl_pub = pub, rl_cfg = withDefaults cfg\<rparr>"

section \<open>The relay\<close>

definition publishRow :: "('s, 'b) OutboxRelay \<Rightarrow> OutboxRow \<Rightarrow> 'b \<Rightarrow> goerr option \<times> 'b" where
  "publishRow r row b = (case decodeOutboxPayload (rw_EventType row) (rw_Payload row) of
     Inl err \<Rightarrow> (Some err, b)
   | Inr payload \<Rightarrow> (case np_PublishWithID (rl_pub r) of
        Some publishWithID \<Rightarrow> publishWithID (rw_EventType row) (rw_ID row) payload b
      | None \<Rightarrow> np_Publish (rl_pub r) (rw_EventType row) payload b))"

text \<open>The loop over the rows of a batch, with the count so far.\<close>

fun publishRows :: "('s, 'b) OutboxRelay \<Rightarrow> OutboxRow list \<Rightarrow> int \<Rightarrow> 's \<times> 'b \<Rightarrow> int \<times> 's \<times> 'b" where
  "publishRows r [] published w = (published, w)"
| "publishRows r (row # rows) published (s, b) = (case publishRow r row b of
     (Some err, b1) \<Rightarrow> publishRows r rows published (s, b1)
   | (None, b1) \<Rightarrow> (case or_MarkPublished (rl_reader r) (rw_ID row) s of
        (Some err, s1) \<Rightarrow> publishRows r rows published (s1, b1)
      | (None, s1) \<Rightarrow> publishRows r rows (published + 1) (s1, b1)))"

definition processBatch :: "('s, 'b) OutboxRelay \<Rightarrow> 's \<times> 'b \<Rightarrow> (goerr + int) \<times> 's \<times> 'b" where
  "processBatch r w = (case or_ClaimUnpublished (rl_reader r) (rc_BatchSize (rl_cfg r)) (fst w) of
     (Inl err, s1) \<Rightarrow> (Inl (Wrapf ''claim unpublished outbox rows: '' err ''''), s1, snd w)
   | (Inr rows, s1) \<Rightarrow> (let (n, w1) = publishRows r rows 0 (s1, snd w) in (Inr n, w1)))"

definition ctx_stopped :: "goerr \<Rightarrow> bool" where
  "ctx_stopped err \<longleftrightarrow> errors_Is err context_Canceled \<or> errors_Is err context_DeadlineExceeded"

text \<open>The inner loop of \<^verbatim>\<open>Run\<close>; the flag says that \<^verbatim>\<open>Run\<close> returns from it.\<close>

partial_function (option) drain :: "('s, 'b) OutboxRelay \<Rightarrow> 's \<times> 'b \<Rightarrow> (bool \<times> 's \<times> 'b) option" where
  "drain r w = (case processBatch r w of
     (Inl err, w1) \<Rightarrow> Some (ctx_stopped err, w1)
   | (Inr n, w1) \<Rightarrow> if n < rc_BatchSize (rl_cfg r) then Some (False, w1) else drain r w1)"

declare drain.simps [code]

text \<open>
  What a round finds after draining: the ticker fires while the context is alive, or the context has ended
  with an error.
\<close>

datatype round = Tick | Done goerr

fun ctx_Err :: "round \<Rightarrow> goerr option" where
  "ctx_Err Tick = None" | "ctx_Err (Done e) = Some e"

text \<open>\<^verbatim>\<open>Run\<close> for the given rounds: what it has returned, if it has, and the state; no result when a drain never ends.\<close>

fun Run :: "('s, 'b) OutboxRelay \<Rightarrow> round list \<Rightarrow> 's \<times> 'b \<Rightarrow> (goerr option option \<times> 's \<times> 'b) option" where
  "Run r [] w = Some (None, w)"
| "Run r (rd # rounds) w = (case drain r w of
     None \<Rightarrow> None
   | Some (stop, w1) \<Rightarrow> if stop then Some (Some (ctx_Err rd), w1)
       else (case rd of Tick \<Rightarrow> Run r rounds w1 | Done e \<Rightarrow> Some (Some (Some e), w1)))"

section \<open>The reader\<close>

definition unpublished :: "outboxRow list \<Rightarrow> outboxRow list" where
  "unpublished rows = filter (\<lambda>row. ox_PublishedAt row = None) rows"

definition outbox_view :: "outboxRow \<Rightarrow> OutboxRow" where
  "outbox_view row = \<lparr>rw_ID = ox_ID row, rw_EventType = ox_EventType row, rw_Payload = ox_Payload row, rw_CreatedAt = ox_CreatedAt row\<rparr>"

text \<open>\<^verbatim>\<open>ORDER BY created_at\<close>: rows of one instant come in any order, here in that of the table.\<close>

definition ClaimUnpublished :: "(time \<Rightarrow> time) \<Rightarrow> int \<Rightarrow> billDB \<Rightarrow> (goerr + OutboxRow list) \<times> billDB" where
  "ClaimUnpublished pt limit = query pt
     (\<lambda>s. Inr (map outbox_view (take (nat limit) (sort_key ox_CreatedAt (unpublished (bd_outbox s))))))
     (\<lambda>err. Wrapf ''query unpublished outbox: '' err '''')"

text \<open>The update stamps the row with the clock of the database, \<open>clk\<close>.\<close>

definition markFunc :: "(billDB \<Rightarrow> time) \<Rightarrow> string \<Rightarrow> billDB \<Rightarrow> billDB" where
  "markFunc clk i s = s\<lparr>bd_outbox := map (\<lambda>row. if ox_ID row = i then row\<lparr>ox_PublishedAt := Some (clk s)\<rparr> else row) (bd_outbox s)\<rparr>"

definition MarkPublished :: "(time \<Rightarrow> time) \<Rightarrow> (billDB \<Rightarrow> time) \<Rightarrow> string \<Rightarrow> billDB \<Rightarrow> goerr option \<times> billDB" where
  "MarkPublished pt clk i s = (case beginFunc pt (\<lambda>s. Inr (markFunc clk i s)) s of
     (Some err, s1) \<Rightarrow> (Some (Wrapf (''mark outbox row '' @ i @ '' published: '') err ''''), s1)
   | (None, s1) \<Rightarrow> (None, s1))"

definition PgxOutboxReader :: "(time \<Rightarrow> time) \<Rightarrow> (billDB \<Rightarrow> time) \<Rightarrow> billDB OutboxReader" where
  "PgxOutboxReader pt clk = \<lparr>or_ClaimUnpublished = ClaimUnpublished pt, or_MarkPublished = MarkPublished pt clk\<rparr>"

section \<open>The publisher\<close>

record EventEnvelope =
  ee_ID :: string
  ee_Type :: string
  ee_Source :: string
  ee_Timestamp :: time
  ee_CorrelationID :: string
  ee_TraceContext :: "(string \<times> string) list"
  ee_Data :: string

text \<open>
  What a publish takes from its surroundings: fresh ids and the clock, by the number of the call, the correlation
  id and the trace of the context, and the headers the propagator injects.
\<close>

record pubContext =
  px_uuid :: "nat \<Rightarrow> string"
  px_now :: "nat \<Rightarrow> time"
  px_correlation :: "string option"
  px_trace :: "string option"
  px_carrier :: "(string \<times> string) list"

text \<open>The stream: the messages it holds, and for each publish to come a fault and whether the window of duplicates is still open.\<close>

record pubTurn =
  pn_window :: bool
  pn_fault :: "turnFault option"

record jetStream =
  js_log :: "(string \<times> EventEnvelope) list"
  js_turns :: "pubTurn list"
  js_calls :: nat

definition js_store :: "string \<Rightarrow> EventEnvelope \<Rightarrow> bool \<Rightarrow> jetStream \<Rightarrow> jetStream" where
  "js_store subject env window b =
     (if window \<and> ee_ID env \<in> (ee_ID \<circ> snd) ` set (js_log b) then b else b\<lparr>js_log := js_log b @ [(subject, env)]\<rparr>)"

definition js_Publish :: "string \<Rightarrow> EventEnvelope \<Rightarrow> jetStream \<Rightarrow> goerr option \<times> jetStream" where
  "js_Publish subject env b = (case js_turns b of
     [] \<Rightarrow> (None, js_store subject env False b)
   | t # ts \<Rightarrow> (let b1 = b\<lparr>js_turns := ts\<rparr> in case pn_fault t of
        Some (Refused m) \<Rightarrow> (Some (Dyn m), b1)
      | Some (AckLost m) \<Rightarrow> (Some (Dyn m), js_store subject env (pn_window t) b1)
      | None \<Rightarrow> (None, js_store subject env (pn_window t) b1)))"

fun indexByte :: "string \<Rightarrow> char \<Rightarrow> int" where
  "indexByte [] c = - 1"
| "indexByte (x # s) c = (if x = c then 0 else let i = indexByte s c in if i < 0 then - 1 else i + 1)"

definition eventTypeFromSubject :: "string \<Rightarrow> string" where
  "eventTypeFromSubject subject = (let f = indexByte subject (CHR ''.'') in
     if f < 0 then subject
     else let s = indexByte (drop (nat (f + 1)) subject) (CHR ''.'') in
       if s < 0 then subject else drop (nat (f + 1 + s + 1)) subject)"

definition NewEnvelope :: "pubContext \<Rightarrow> nat \<Rightarrow> string \<Rightarrow> string \<Rightarrow> string \<Rightarrow> EventEnvelope" where
  "NewEnvelope px n eventType src data = \<lparr>ee_ID = px_uuid px n, ee_Type = eventType, ee_Source = src, ee_Timestamp = px_now px n,
     ee_CorrelationID = '''', ee_TraceContext = [], ee_Data = data\<rparr>"

definition correlationIDForPublish :: "pubContext \<Rightarrow> nat \<Rightarrow> string" where
  "correlationIDForPublish px n = (case px_correlation px of Some i \<Rightarrow> i
     | None \<Rightarrow> (case px_trace px of Some t \<Rightarrow> t | None \<Rightarrow> px_uuid px n))"

definition injectTraceContext :: "pubContext \<Rightarrow> EventEnvelope \<Rightarrow> EventEnvelope" where
  "injectTraceContext px env = (if px_carrier px \<noteq> [] then env\<lparr>ee_TraceContext := px_carrier px\<rparr> else env)"

text \<open>\<open>marshal\<close> is \<^verbatim>\<open>protojson.Marshal\<close>; the envelope around its result always encodes.\<close>

definition PublishWithID :: "(EventMessage \<Rightarrow> goerr + string) \<Rightarrow> pubContext \<Rightarrow> string \<Rightarrow> string \<Rightarrow> string \<Rightarrow> EventMessage \<Rightarrow> jetStream \<Rightarrow> goerr option \<times> jetStream" where
  "PublishWithID marshal px src subject envelopeID payload b = (case marshal payload of
     Inl err \<Rightarrow> (Some (Wrapf (''events: marshal payload for '' @ subject @ '': '') err ''''), b)
   | Inr data \<Rightarrow>
       let n = js_calls b;
           env = (NewEnvelope px n (eventTypeFromSubject subject) src data)\<lparr>ee_ID := envelopeID\<rparr>;
           env = injectTraceContext px (env\<lparr>ee_CorrelationID := correlationIDForPublish px n\<rparr>)
       in case js_Publish subject env (b\<lparr>js_calls := n + 1\<rparr>) of
         (Some err, b1) \<Rightarrow> (Some (Wrapf (''events: publish to '' @ subject @ '' (id='' @ envelopeID @ ''): '') err ''''), b1)
       | (None, b1) \<Rightarrow> (None, b1))"

definition Publish :: "string \<Rightarrow> EventMessage \<Rightarrow> jetStream \<Rightarrow> goerr option \<times> jetStream" where
  "Publish subject payload b =
     (Some (Dyn (''events: RelayPublisher requires an explicit envelope id; use PublishWithID (subject='' @ subject @ '')'')), b)"

definition RelayPublisher :: "(EventMessage \<Rightarrow> goerr + string) \<Rightarrow> pubContext \<Rightarrow> string \<Rightarrow> jetStream natsPublisher" where
  "RelayPublisher marshal px src = \<lparr>np_Publish = Publish, np_PublishWithID = Some (PublishWithID marshal px src)\<rparr>"

definition Source :: string where "Source = ''billing''"

end
