(* ===== verification/BillingDelivery.thy ===== *)
theory BillingDelivery
  imports BillingRelay
begin

text \<open>
  What the relay of the outbox guarantees: its contracts with the reader and the publisher as locales, no
  message without its row and no mark without its message, and delivery of every row once the faults end.
\<close>

section \<open>Contracts\<close>

text \<open>The queue is the rows of the outbox in the order of their commits, each with its mark.\<close>

type_synonym queue = "(OutboxRow \<times> bool) list"

definition mark_id :: "string \<Rightarrow> queue \<Rightarrow> queue" where
  "mark_id i q = map (\<lambda>(row, p). (row, p \<or> rw_ID row = i)) q"

definition pending :: "queue \<Rightarrow> OutboxRow list" where
  "pending q = map fst (filter (Not \<circ> snd) q)"

definition grew :: "queue \<Rightarrow> queue \<Rightarrow> bool" where
  "grew q q' \<longleftrightarrow> (\<exists>rows. q' = q @ map (\<lambda>row. (row, False)) rows)"

definition row_message :: "OutboxRow \<Rightarrow> EventMessage \<Rightarrow> bool" where
  "row_message row m \<longleftrightarrow> decodeOutboxPayload (rw_EventType row) (rw_Payload row) = Inr m"

locale outbox_reader =
  fixes R :: "'s OutboxReader" and queue_of :: "'s \<Rightarrow> queue" and sound :: "'s \<Rightarrow> bool" and turns :: "'s \<Rightarrow> nat"
  assumes queue_ok: "sound s \<Longrightarrow> distinct (map (rw_ID \<circ> fst) (queue_of s)) \<and> (\<forall>x \<in> set (queue_of s). \<exists>m. row_message (fst x) m)"
    and claim: "sound s \<Longrightarrow> or_ClaimUnpublished R n s = (rr, s') \<Longrightarrow>
      sound s' \<and> turns s' = turns s - 1 \<and> grew (queue_of s) (queue_of s')
      \<and> (\<forall>rows. rr = Inr rows \<longrightarrow> rows = take (nat n) (sort_key rw_CreatedAt (pending (queue_of s'))))
      \<and> (\<forall>err. rr = Inl err \<longrightarrow> \<not> ctx_stopped err) \<and> (turns s = 0 \<longrightarrow> queue_of s' = queue_of s \<and> \<not> isl rr)"
    and mark: "sound s \<Longrightarrow> or_MarkPublished R i s = (e, s') \<Longrightarrow>
      sound s' \<and> turns s' = turns s - 1 \<and> (\<exists>q. grew (queue_of s) q \<and> (queue_of s' = mark_id i q \<or> e \<noteq> None \<and> queue_of s' = q))
      \<and> (turns s = 0 \<longrightarrow> e = None \<and> queue_of s' = mark_id i (queue_of s))"

text \<open>The log is what consumers can read: subject, id and data of each message.\<close>

locale id_publisher =
  fixes P :: "'b natsPublisher" and log :: "'b \<Rightarrow> (string \<times> string \<times> string) list" and faults :: "'b \<Rightarrow> nat" and encode :: "EventMessage \<Rightarrow> goerr + string"
  assumes has_id: "np_PublishWithID P \<noteq> None"
    and publish: "np_PublishWithID P = Some f \<Longrightarrow> f subject i m b = (e, b') \<Longrightarrow>
      (log b' = log b \<or> (\<exists>d. encode m = Inr d \<and> log b' = log b @ [(subject, i, d)])) \<and> (e = None \<longrightarrow> i \<in> (fst \<circ> snd) ` set (log b'))
      \<and> faults b' \<le> faults b \<and> (e \<noteq> None \<longrightarrow> \<not> isl (encode m) \<longrightarrow> faults b' < faults b)"

definition from_row :: "(EventMessage \<Rightarrow> goerr + string) \<Rightarrow> OutboxRow set \<Rightarrow> string \<times> string \<times> string \<Rightarrow> bool" where
  "from_row encode rows x \<longleftrightarrow> (\<exists>row \<in> rows. \<exists>m d. row_message row m \<and> encode m = Inr d \<and> x = (rw_EventType row, rw_ID row, d))"

lemma from_row_mono: "A \<subseteq> B \<Longrightarrow> from_row encode A x \<Longrightarrow> from_row encode B x"
  by (auto simp: from_row_def)

definition relay_ok :: "(EventMessage \<Rightarrow> goerr + string) \<Rightarrow> queue \<Rightarrow> (string \<times> string \<times> string) list \<Rightarrow> bool" where
  "relay_ok encode q l \<longleftrightarrow> (\<forall>x \<in> set q. snd x \<longrightarrow> rw_ID (fst x) \<in> (fst \<circ> snd) ` set l)
     \<and> (\<forall>x \<in> set l. from_row encode (fst ` set q) x)"

lemma mark_rows [simp]: "fst ` set (mark_id i q) = fst ` set q"
  by (auto simp: mark_id_def image_image case_prod_beta)

lemma mark_ids: "map (rw_ID \<circ> fst) (mark_id i q) = map (rw_ID \<circ> fst) q"
  by (auto simp: mark_id_def)

lemma pending_mark: "pending (mark_id i q) = filter (\<lambda>row. rw_ID row \<noteq> i) (pending q)"
  by (induction q) (auto simp: pending_def mark_id_def)

lemma grew_rows: "grew q q' \<Longrightarrow> fst ` set q \<subseteq> fst ` set q'"
  by (auto simp: grew_def)

lemma grew_refl [simp]: "grew q q"
  by (simp add: grew_def)

lemma relay_ok_grew: "grew q q' \<Longrightarrow> relay_ok encode q l \<Longrightarrow> relay_ok encode q' l"
proof -
  assume g: "grew q q'" and r: "relay_ok encode q l"
  have "snd x \<longrightarrow> rw_ID (fst x) \<in> (fst \<circ> snd) ` set l" if "x \<in> set q'" for x
    using that g r unfolding grew_def relay_ok_def by auto
  then show ?thesis using r from_row_mono [OF grew_rows [OF g]] unfolding relay_ok_def by blast
qed

lemma relay_ok_mark: "relay_ok encode q l \<Longrightarrow> i \<in> (fst \<circ> snd) ` set l \<Longrightarrow> relay_ok encode (mark_id i q) l"
proof -
  assume r: "relay_ok encode q l" and i: "i \<in> (fst \<circ> snd) ` set l"
  have "rw_ID (fst x) \<in> (fst \<circ> snd) ` set l" if "x \<in> set (mark_id i q)" "snd x" for x
  proof -
    obtain row p where x: "(row, p) \<in> set q" "x = (row, p \<or> rw_ID row = i)" using \<open>x \<in> set (mark_id i q)\<close> by (auto simp: mark_id_def)
    have m: "\<forall>y \<in> set q. snd y \<longrightarrow> rw_ID (fst y) \<in> (fst \<circ> snd) ` set l" using r unfolding relay_ok_def by blast
    show ?thesis using i bspec [OF m x(1)] x(2) \<open>snd x\<close> by (cases "rw_ID row = i") simp_all
  qed
  then show ?thesis using r unfolding relay_ok_def mark_rows by blast
qed

lemma relay_ok_publish:
  assumes "relay_ok encode q l" "row \<in> fst ` set q" "row_message row m" "encode m = Inr d"
  shows "relay_ok encode q (l @ [(rw_EventType row, rw_ID row, d)])"
proof -
  have "from_row encode (fst ` set q) (rw_EventType row, rw_ID row, d)" unfolding from_row_def using assms(2-4) by blast
  then show ?thesis using assms(1) by (auto simp: relay_ok_def)
qed

text \<open>A marked row's own message is in the log, under its type and id.\<close>

lemma relay_ok_marked:
  assumes "relay_ok encode q l" "distinct (map (rw_ID \<circ> fst) q)" "(row, True) \<in> set q"
  shows "\<exists>m d. row_message row m \<and> encode m = Inr d \<and> (rw_EventType row, rw_ID row, d) \<in> set l"
proof -
  have "\<forall>x \<in> set q. snd x \<longrightarrow> rw_ID (fst x) \<in> (fst \<circ> snd) ` set l" using assms(1) unfolding relay_ok_def by blast
  from bspec [OF this assms(3)] have "rw_ID row \<in> (fst \<circ> snd) ` set l" by simp
  then obtain subject d where l: "(subject, rw_ID row, d) \<in> set l" by auto
  then have "from_row encode (fst ` set q) (subject, rw_ID row, d)" using assms(1) unfolding relay_ok_def by blast
  then obtain row' m p where r: "(row', p) \<in> set q" "subject = rw_EventType row'" "rw_ID row = rw_ID row'" "row_message row' m" "encode m = Inr d"
    by (auto simp: from_row_def)
  have "inj_on (rw_ID \<circ> fst) (set q)" using assms(2) by (simp add: distinct_map)
  from inj_onD [OF this _ assms(3) r(1)] r(3) have "row' = row" by simp
  with l r show ?thesis by blast
qed

section \<open>Safety\<close>

locale outbox_relay = outbox_reader R queue_of sound turns + id_publisher P log faults encode
  for R :: "'s OutboxReader" and queue_of sound turns and P :: "'b natsPublisher" and log faults encode +
  fixes cfg :: RelayConfig
begin

definition rl :: "('s, 'b) OutboxRelay" where
  "rl = NewOutboxRelay R P cfg"

definition good :: "'s \<times> 'b \<Rightarrow> bool" where
  "good w \<longleftrightarrow> sound (fst w) \<and> relay_ok encode (queue_of (fst w)) (log (snd w))"

definition extends :: "'s \<times> 'b \<Rightarrow> 's \<times> 'b \<Rightarrow> bool" where
  "extends w w' \<longleftrightarrow> fst ` set (queue_of (fst w)) \<subseteq> fst ` set (queue_of (fst w')) \<and> set (log (snd w)) \<subseteq> set (log (snd w'))
     \<and> turns (fst w') \<le> turns (fst w) \<and> faults (snd w') \<le> faults (snd w)"

lemma extends_trans: "extends w w' \<Longrightarrow> extends w' w'' \<Longrightarrow> extends w w''"
  by (auto simp: extends_def)

lemma batch_pos: "0 < rc_BatchSize (rl_cfg rl)"
  by (simp add: rl_def NewOutboxRelay_def withDefaults_def)

lemma rl_simps [simp]: "rl_reader rl = R" "rl_pub rl = P"
  by (simp_all add: rl_def NewOutboxRelay_def)

lemma publishRow_spec:
  assumes "good (s, b)" "row \<in> fst ` set (queue_of s)" "publishRow rl row b = (e, b')"
  shows "good (s, b')" "extends (s, b) (s, b')" "e = None \<Longrightarrow> rw_ID row \<in> (fst \<circ> snd) ` set (log b')"
    and "\<forall>m. \<not> isl (encode m) \<Longrightarrow> e \<noteq> None \<Longrightarrow> faults b' < faults b"
proof -
  have s: "sound s" "relay_ok encode (queue_of s) (log b)" using assms(1) by (simp_all add: good_def)
  obtain m where m: "row_message row m" using queue_ok [OF s(1)] assms(2) by auto
  obtain f where f: "np_PublishWithID P = Some f" using has_id by auto
  have p: "f (rw_EventType row) (rw_ID row) m b = (e, b')" using assms(3) m f by (simp add: publishRow_def row_message_def)
  note pub = publish [OF f p]
  show "good (s, b')" using pub s relay_ok_publish [OF s(2) assms(2) m] by (auto simp: good_def)
  show "extends (s, b) (s, b')" using pub by (auto simp: extends_def)
  show "e = None \<Longrightarrow> rw_ID row \<in> (fst \<circ> snd) ` set (log b')" using pub by blast
  show "\<forall>m. \<not> isl (encode m) \<Longrightarrow> e \<noteq> None \<Longrightarrow> faults b' < faults b" using pub by blast
qed

lemma mark_spec:
  assumes "good (s, b)" "or_MarkPublished R i s = (e, s')" "i \<in> (fst \<circ> snd) ` set (log b)"
  shows "good (s', b)" "extends (s, b) (s', b)"
proof -
  have s: "sound s" "relay_ok encode (queue_of s) (log b)" using assms(1) by (simp_all add: good_def)
  note mk = mark [OF s(1) assms(2)]
  obtain q where q: "grew (queue_of s) q" "queue_of s' = mark_id i q \<or> queue_of s' = q" using mk by blast
  have "relay_ok encode q (log b)" using relay_ok_grew [OF q(1) s(2)] .
  then show "good (s', b)" using mk q(2) relay_ok_mark [OF _ assms(3)] by (auto simp: good_def)
  have "fst ` set (queue_of s') = fst ` set q" using q(2) by (elim disjE) simp_all
  then show "extends (s, b) (s', b)" using grew_rows [OF q(1)] mk by (simp add: extends_def)
qed

lemma publishRows_safe:
  assumes "good (s, b)" "set rows \<subseteq> fst ` set (queue_of s)" "publishRows rl rows k (s, b) = (n, w')"
  shows "good w' \<and> extends (s, b) w'"
  using assms
proof (induction rows arbitrary: k s b)
  case Nil
  then show ?case by (auto simp: extends_def)
next
  case (Cons row rows)
  obtain e b1 where p: "publishRow rl row b = (e, b1)" by fastforce
  have row: "row \<in> fst ` set (queue_of s)" using Cons.prems(2) by simp
  note ps = publishRow_spec [OF Cons.prems(1) row p]
  show ?case
  proof (cases e)
    case (Some err)
    then have "publishRows rl rows k (s, b1) = (n, w')" using Cons.prems(3) p by simp
    then show ?thesis using Cons.IH [OF ps(1)] Cons.prems(2) extends_trans [OF ps(2)] by simp
  next
    case None
    obtain me s1 where mp: "or_MarkPublished R (rw_ID row) s = (me, s1)" by fastforce
    note ms = mark_spec [OF ps(1) mp ps(3) [OF None]]
    have sub: "set rows \<subseteq> fst ` set (queue_of s1)" using ms(2) Cons.prems(2) by (auto simp: extends_def)
    have "\<exists>k'. publishRows rl rows k' (s1, b1) = (n, w')" using Cons.prems(3) p None mp by (cases me) auto
    then show ?thesis using Cons.IH [OF ms(1) sub] extends_trans [OF ps(2) extends_trans [OF ms(2)]] by blast
  qed
qed

lemma pending_rows: "set (pending q) \<subseteq> fst ` set q"
  by (auto simp: pending_def)

lemma processBatch_safe:
  assumes "good w" "processBatch rl w = (rn, w')"
  shows "good w' \<and> extends w w'"
proof -
  obtain s b where w: "w = (s, b)" by (cases w)
  obtain rr s1 where c: "or_ClaimUnpublished R (rc_BatchSize (rl_cfg rl)) s = (rr, s1)" by fastforce
  have s: "sound s" "relay_ok encode (queue_of s) (log b)" using assms(1) by (simp_all add: good_def w)
  note cl = claim [OF s(1) c]
  have g: "good (s1, b)" "extends (s, b) (s1, b)" using cl s relay_ok_grew [of "queue_of s" "queue_of s1"] grew_rows [of "queue_of s" "queue_of s1"]
    by (auto simp: good_def extends_def)
  show ?thesis
  proof (cases rr)
    case (Inl err)
    then show ?thesis using assms(2) c g by (auto simp: processBatch_def w)
  next
    case (Inr rows)
    have "rows = take (nat (rc_BatchSize (rl_cfg rl))) (sort_key rw_CreatedAt (pending (queue_of s1)))" using cl Inr by blast
    then have "set rows \<subseteq> set (pending (queue_of s1))" using set_take_subset by fastforce
    then have "set rows \<subseteq> fst ` set (queue_of s1)" using pending_rows by blast
    moreover have "\<exists>n. publishRows rl rows 0 (s1, b) = (n, w')" using assms(2) c Inr by (auto simp: processBatch_def w split: prod.splits)
    ultimately show ?thesis unfolding w using publishRows_safe [OF g(1)] extends_trans [OF g(2)] by blast
  qed
qed


text \<open>Liveness: without database faults a batch marks exactly the rows it could publish.\<close>

lemma publishRows_marks:
  assumes "good (s, b)" "turns s = 0" "\<forall>m. \<not> isl (encode m)" "set rows \<subseteq> fst ` set (queue_of s)" "publishRows rl rows k (s, b) = (n, (s', b'))"
  shows "\<exists>ms. turns s' = 0 \<and> set ms \<subseteq> set rows \<and> n = k + int (length ms)
    \<and> pending (queue_of s') = filter (\<lambda>row. rw_ID row \<notin> rw_ID ` set ms) (pending (queue_of s)) \<and> (faults b' < faults b \<or> ms = rows)"
  using assms
proof (induction rows arbitrary: k s b)
  case Nil
  then show ?case by (intro exI [of _ "[]"]) auto
next
  case (Cons row rows)
  obtain e b1 where p: "publishRow rl row b = (e, b1)" by fastforce
  have row: "row \<in> fst ` set (queue_of s)" using Cons.prems(4) by simp
  note ps = publishRow_spec [OF Cons.prems(1) row p]
  show ?case
  proof (cases e)
    case (Some err)
    then have r: "publishRows rl rows k (s, b1) = (n, (s', b'))" using Cons.prems(5) p by simp
    obtain ms where ms: "turns s' = 0" "set ms \<subseteq> set rows" "n = k + int (length ms)"
        "pending (queue_of s') = filter (\<lambda>row. rw_ID row \<notin> rw_ID ` set ms) (pending (queue_of s))" "faults b' < faults b1 \<or> ms = rows"
      using Cons.IH [OF ps(1) Cons.prems(2,3) _ r] Cons.prems(4) by auto
    have "faults b1 < faults b" using ps(4) [OF Cons.prems(3)] Some by simp
    moreover have "faults b' \<le> faults b1" using ms(5) publishRows_safe [OF ps(1) _ r] Cons.prems(4) by (auto simp: extends_def)
    ultimately show ?thesis using ms by (intro exI [of _ ms]) auto
  next
    case None
    obtain me s1 where mp: "or_MarkPublished R (rw_ID row) s = (me, s1)" by fastforce
    have "sound s" using Cons.prems(1) by (simp add: good_def)
    from mark [OF this mp] Cons.prems(2) have m: "me = None" "queue_of s1 = mark_id (rw_ID row) (queue_of s)" "turns s1 = 0" by auto
    note g = mark_spec(1) [OF ps(1) mp ps(3) [OF None]]
    have r: "publishRows rl rows (k + 1) (s1, b1) = (n, (s', b'))" using Cons.prems(5) p None mp m(1) by simp
    have sub: "set rows \<subseteq> fst ` set (queue_of s1)" using m(2) Cons.prems(4) by simp
    obtain ms where ms: "turns s' = 0" "set ms \<subseteq> set rows" "n = k + 1 + int (length ms)"
        "pending (queue_of s') = filter (\<lambda>row. rw_ID row \<notin> rw_ID ` set ms) (pending (queue_of s1))" "faults b' < faults b1 \<or> ms = rows"
      using Cons.IH [OF g m(3) Cons.prems(3) sub r] by auto
    have "faults b1 \<le> faults b" using ps(2) by (simp add: extends_def)
    moreover have "pending (queue_of s') = filter (\<lambda>x. rw_ID x \<notin> rw_ID ` set (row # ms)) (pending (queue_of s))"
      unfolding ms(4) m(2) pending_mark filter_filter by (rule filter_cong) auto
    ultimately show ?thesis using ms by (intro exI [of _ "row # ms"]) auto
  qed
qed

lemma claimed:
  assumes "good (s, b)" "turns s = 0" "or_ClaimUnpublished R n s = (rr, s1)"
  shows "rr = Inr (take (nat n) (sort_key rw_CreatedAt (pending (queue_of s)))) \<and> queue_of s1 = queue_of s \<and> turns s1 = 0 \<and> good (s1, b)"
proof -
  have s: "sound s" using assms(1) by (simp add: good_def)
  note cl = claim [OF s assms(3)]
  have q: "queue_of s1 = queue_of s" "\<not> isl rr" using cl assms(2) by blast+
  then obtain rows where rr: "rr = Inr rows" by (cases rr) auto
  then have "rows = take (nat n) (sort_key rw_CreatedAt (pending (queue_of s)))" using cl q(1) by auto
  then show ?thesis using rr cl q assms(1,2) by (simp add: good_def)
qed

lemma processBatch_calm:
  assumes "good (s, b)" "turns s = 0" "\<forall>m. \<not> isl (encode m)" "processBatch rl (s, b) = (rn, (s', b'))"
  shows "\<exists>n. rn = Inr n \<and> turns s' = 0 \<and> good (s', b') \<and> faults b' \<le> faults b \<and> length (pending (queue_of s')) \<le> length (pending (queue_of s))
    \<and> (0 < n \<longrightarrow> length (pending (queue_of s')) < length (pending (queue_of s)))
    \<and> (n < rc_BatchSize (rl_cfg rl) \<longrightarrow> faults b' < faults b \<or> pending (queue_of s') = [])"
proof -
  define bs where "bs = rc_BatchSize (rl_cfg rl)"
  define pd where "pd = pending (queue_of s)"
  obtain rr s1 where c: "or_ClaimUnpublished R bs s = (rr, s1)" by fastforce
  have c1: "queue_of s1 = queue_of s" "turns s1 = 0" "good (s1, b)" "rr = Inr (take (nat bs) (sort_key rw_CreatedAt pd))"
    using claimed [OF assms(1,2) c] by (simp_all add: pd_def)
  define rows where "rows = take (nat bs) (sort_key rw_CreatedAt pd)"
  have rs: "set rows \<subseteq> set pd" using set_take_subset [of "nat bs" "sort_key rw_CreatedAt pd"] by (simp add: rows_def)
  then have sub: "set rows \<subseteq> fst ` set (queue_of s1)" using pending_rows [of "queue_of s"] c1(1) by (auto simp: pd_def)
  obtain n where pr: "publishRows rl rows 0 (s1, b) = (n, (s', b'))" "rn = Inr n"
    using assms(4) c c1(4) by (auto simp: processBatch_def bs_def rows_def split: prod.splits)
  obtain ms where ms: "turns s' = 0" "set ms \<subseteq> set rows" "n = int (length ms)"
      "pending (queue_of s') = filter (\<lambda>row. rw_ID row \<notin> rw_ID ` set ms) pd" "faults b' < faults b \<or> ms = rows"
    using publishRows_marks [OF c1(3,2) assms(3) sub pr(1)] c1(1) by (auto simp: pd_def)
  have g: "good (s', b')" "faults b' \<le> faults b" using publishRows_safe [OF c1(3) sub pr(1)] by (simp_all add: extends_def)
  have lt: "length (pending (queue_of s')) < length pd" if "0 < n"
  proof -
    obtain x where "x \<in> set ms" using \<open>0 < n\<close> ms(3) by (cases ms) auto
    then have "x \<in> set pd" "rw_ID x \<in> rw_ID ` set ms" using ms(2) rs by auto
    then show ?thesis unfolding ms(4) by (auto intro!: length_filter_less)
  qed
  have all: "pending (queue_of s') = []" if "n < bs" "ms = rows"
  proof -
    have "length rows = length pd" using that ms(3) by (auto simp: rows_def)
    then have "set rows = set pd" using rows_def by (simp add: rows_def min_def split: if_splits)
    then show ?thesis unfolding ms(4) using that(2) by (auto simp: filter_empty_conv)
  qed
  have le: "length (pending (queue_of s')) \<le> length pd" unfolding ms(4) by simp
  show ?thesis using pr(2) ms(1,5) g lt all le unfolding bs_def pd_def by blast
qed


text \<open>A drain always ends, and it does not end the relay.\<close>

definition emptied :: "'s \<times> 'b \<Rightarrow> bool" where
  "emptied w \<longleftrightarrow> turns (fst w) = 0 \<and> pending (queue_of (fst w)) = []"

lemma batch_turn:
  assumes "good (s, b)" "0 < turns s" "processBatch rl (s, b) = (rn, w')"
  shows "turns (fst w') < turns s" and "rn = Inl err \<Longrightarrow> \<not> ctx_stopped err"
proof -
  obtain rr s1 where c: "or_ClaimUnpublished R (rc_BatchSize (rl_cfg rl)) s = (rr, s1)" by fastforce
  have s: "sound s" "relay_ok encode (queue_of s) (log b)" using assms(1) by (simp_all add: good_def)
  note cl = claim [OF s(1) c]
  have g: "good (s1, b)" using cl s relay_ok_grew [of "queue_of s" "queue_of s1"] by (auto simp: good_def)
  have t: "turns s1 < turns s" using cl assms(2) by simp
  show "turns (fst w') < turns s"
  proof (cases rr)
    case (Inl err)
    then show ?thesis using assms(3) c t by (auto simp: processBatch_def)
  next
    case (Inr rows)
    then have "rows = take (nat (rc_BatchSize (rl_cfg rl))) (sort_key rw_CreatedAt (pending (queue_of s1)))" using cl by blast
    then have "set rows \<subseteq> set (pending (queue_of s1))" using set_take_subset by fastforce
    then have "set rows \<subseteq> fst ` set (queue_of s1)" using pending_rows by blast
    moreover have "\<exists>n. publishRows rl rows 0 (s1, b) = (n, w')" using assms(3) c Inr by (auto simp: processBatch_def split: prod.splits)
    ultimately have "extends (s1, b) w'" using publishRows_safe [OF g] by blast
    then show ?thesis using t by (simp add: extends_def)
  qed
  show "rn = Inl err \<Longrightarrow> \<not> ctx_stopped err"
    using assms(3) c cl by (auto simp: processBatch_def ctx_stopped_def context_Canceled_def context_DeadlineExceeded_def split: sum.splits prod.splits)
qed

lemma drain_ends:
  assumes "good w" "\<forall>m. \<not> isl (encode m)"
  shows "\<exists>w'. drain rl w = Some (False, w') \<and> good w' \<and> extends w w' \<and> (0 < turns (fst w) \<longrightarrow> turns (fst w') < turns (fst w))
    \<and> (turns (fst w) = 0 \<longrightarrow> length (pending (queue_of (fst w'))) \<le> length (pending (queue_of (fst w))) \<and> (faults (snd w') < faults (snd w) \<or> emptied w'))"
  using assms
proof (induction "(turns (fst w), length (pending (queue_of (fst w))))" arbitrary: w rule: wf_induct_rule [OF wf_lex_prod [OF wf_less_than wf_less_than]])
  case 1
  obtain s b where w: "w = (s, b)" by (cases w)
  obtain rn s' b' where p: "processBatch rl w = (rn, (s', b'))" by (cases "processBatch rl w") auto
  note sf = processBatch_safe [OF 1(2) p]
  show ?case
  proof (cases "turns s = 0")
    case True
    obtain n where n: "rn = Inr n" "turns s' = 0" "length (pending (queue_of s')) \<le> length (pending (queue_of s))"
        "0 < n \<longrightarrow> length (pending (queue_of s')) < length (pending (queue_of s))"
        "n < rc_BatchSize (rl_cfg rl) \<longrightarrow> faults b' < faults b \<or> pending (queue_of s') = []"
      using processBatch_calm [OF 1(2) [unfolded w] True 1(3) p [unfolded w]] by blast
    show ?thesis
    proof (cases "n < rc_BatchSize (rl_cfg rl)")
      case True
      then have "drain rl w = Some (False, (s', b'))" using p n(1) by (subst drain.simps) simp
      then show ?thesis using sf n True \<open>turns s = 0\<close> by (simp add: w emptied_def)
    next
      case False
      then have d: "drain rl w = drain rl (s', b')" using p n(1) by (subst drain.simps) simp
      have lt: "length (pending (queue_of s')) < length (pending (queue_of s))" using False batch_pos n(4) by linarith
      obtain w'' where h: "drain rl (s', b') = Some (False, w'')" "good w''" "extends (s', b') w''"
          "length (pending (queue_of (fst w''))) \<le> length (pending (queue_of s'))" "faults (snd w'') < faults b' \<or> emptied w''"
        using 1(1) [of "(s', b')"] sf 1(3) n(2) True lt by (auto simp: w)
      have "faults b' \<le> faults b" using sf by (simp add: w extends_def)
      then show ?thesis using d h lt True extends_trans [OF conjunct2 [OF sf] h(3)] by (intro exI [of _ w'']) (auto simp: w)
    qed
  next
    case False
    have t: "turns s' < turns s" "\<And>err. rn = Inl err \<Longrightarrow> \<not> ctx_stopped err"
      using batch_turn [OF 1(2) [unfolded w] _ p [unfolded w]] False by auto
    show ?thesis
    proof (cases "\<exists>n. rn = Inr n \<and> \<not> n < rc_BatchSize (rl_cfg rl)")
      case True
      then have d: "drain rl w = drain rl (s', b')" using p by (subst drain.simps) auto
      obtain w'' where h: "drain rl (s', b') = Some (False, w'')" "good w''" "extends (s', b') w''"
        using 1(1) [of "(s', b')"] sf 1(3) t(1) by (auto simp: w)
      have "turns (fst w'') \<le> turns s'" using h(3) by (simp add: extends_def)
      then show ?thesis using d h False t(1) extends_trans [OF conjunct2 [OF sf] h(3)] by (intro exI [of _ w'']) (auto simp: w)
    next
      case no: False
      then have "drain rl w = Some (False, (s', b'))" using p t(2) by (subst drain.simps) (auto split: sum.splits)
      then show ?thesis using sf t(1) False by (simp add: w)
    qed
  qed
qed

lemma drain_safe:
  assumes "drain rl w = Some (stop, w')" "good w"
  shows "good w' \<and> extends w w'"
proof -
  have "r = rl \<longrightarrow> good v \<longrightarrow> good (snd y) \<and> extends v (snd y)" if "drain r v = Some y" for r v y
  proof (rule drain.raw_induct [where P = "\<lambda>r v y. r = rl \<longrightarrow> good v \<longrightarrow> good (snd y) \<and> extends v (snd y)", OF _ that])
    fix dr :: "('s, 'b) OutboxRelay \<Rightarrow> 's \<times> 'b \<Rightarrow> (bool \<times> 's \<times> 'b) option" and r v y
    assume 1: "\<And>r v y. dr r v = Some y \<Longrightarrow> r = rl \<longrightarrow> good v \<longrightarrow> good (snd y) \<and> extends v (snd y)"
      "(case processBatch r v of (Inl err, v1) \<Rightarrow> Some (ctx_stopped err, v1) | (Inr n, v1) \<Rightarrow> if n < rc_BatchSize (rl_cfg r) then Some (False, v1) else dr r v1) = Some y"
    obtain rn v1 where p: "processBatch r v = (rn, v1)" by (cases "processBatch r v")
    have sf: "good v1 \<and> extends v v1" if "r = rl" "good v" using processBatch_safe that p by blast
    show "r = rl \<longrightarrow> good v \<longrightarrow> good (snd y) \<and> extends v (snd y)"
    proof (cases "dr r v1 = Some y \<and> snd y \<noteq> v1")
      case True
      then show ?thesis using 1(1) [of r v1 y] sf extends_trans by blast
    next
      case False
      then have "snd y = v1 \<or> dr r v1 = Some y" using 1(2) p by (auto split: sum.splits if_splits)
      then show ?thesis using False sf by blast
    qed
  qed
  then show ?thesis using assms by fastforce
qed


lemma Run_safe: "good w \<Longrightarrow> Run rl rounds w = Some (ret, w') \<Longrightarrow> good w' \<and> extends w w'"
proof (induction rounds arbitrary: w)
  case Nil
  then show ?case by (auto simp: extends_def)
next
  case (Cons rd rounds)
  then obtain stop w1 where d: "drain rl w = Some (stop, w1)" by (auto split: option.splits)
  note s1 = drain_safe [OF d Cons.prems(1)]
  show ?case
  proof (cases "w' = w1")
    case False
    then have "Run rl rounds w1 = Some (ret, w')" using Cons.prems(2) d by (auto split: if_splits round.splits)
    then show ?thesis using Cons.IH s1 extends_trans by blast
  qed (use s1 in simp)
qed

text \<open>Rounds as many as the faults and the writes of others to come, and one more, leave nothing unpublished; the relay still runs.\<close>

lemma Run_empties:
  assumes "good w" "\<forall>m. \<not> isl (encode m)" "turns (fst w) + faults (snd w) < n \<or> emptied w"
  shows "\<exists>w'. Run rl (replicate n Tick) w = Some (None, w') \<and> good w' \<and> extends w w' \<and> emptied w'"
  using assms
proof (induction n arbitrary: w)
  case 0
  then show ?case by (simp add: extends_def)
next
  case (Suc n)
  obtain w1 where d: "drain rl w = Some (False, w1)" "good w1" "extends w w1" "0 < turns (fst w) \<longrightarrow> turns (fst w1) < turns (fst w)"
      "turns (fst w) = 0 \<longrightarrow> length (pending (queue_of (fst w1))) \<le> length (pending (queue_of (fst w))) \<and> (faults (snd w1) < faults (snd w) \<or> emptied w1)"
    using drain_ends [OF Suc.prems(1,2)] by (elim exE conjE) (rule that, assumption+)
  have le: "turns (fst w1) \<le> turns (fst w)" "faults (snd w1) \<le> faults (snd w)" using d(3) by (simp_all add: extends_def)
  have "turns (fst w1) + faults (snd w1) < n \<or> emptied w1"
  proof (cases "emptied w")
    case True
    then show ?thesis using d(5) le by (auto simp: emptied_def)
  next
    case False
    then have "turns (fst w) + faults (snd w) < Suc n" using Suc.prems(3) by blast
    then show ?thesis using d(4,5) le by (cases "turns (fst w) = 0") auto
  qed
  from Suc.IH [OF d(2) Suc.prems(2) this] obtain w' where
    "Run rl (replicate n Tick) w1 = Some (None, w')" "good w'" "extends w1 w'" "emptied w'" by blast
  note w' = this
  have "Run rl (replicate (Suc n) Tick) w = Some (None, w')" using d(1) w'(1) by simp
  then show ?case using w'(2,4) extends_trans [OF d(3) w'(3)] by blast
qed

text \<open>When nothing is unpublished, the message of every row can be read.\<close>

lemma emptied_delivered:
  assumes "good w" "emptied w" "row \<in> fst ` set (queue_of (fst w))"
  shows "\<exists>m d. row_message row m \<and> encode m = Inr d \<and> (rw_EventType row, rw_ID row, d) \<in> set (log (snd w))"
proof -
  have g: "sound (fst w)" "relay_ok encode (queue_of (fst w)) (log (snd w))" using assms(1) by (simp_all add: good_def)
  obtain p where p: "(row, p) \<in> set (queue_of (fst w))" using assms(3) by auto
  have "filter (Not \<circ> snd) (queue_of (fst w)) = []" using assms(2) by (simp add: emptied_def pending_def)
  then have p: "(row, True) \<in> set (queue_of (fst w))" using p by (cases p) (auto simp: filter_empty_conv)
  then show ?thesis using relay_ok_marked [OF g(2) _ p] queue_ok [OF g(1)] by blast
qed

end

end
