(* ===== verification/BillingOutbox.thy ===== *)
theory BillingOutbox
  imports BillingDelivery
begin

text \<open>
  The relay's contracts hold of the outbox table and of the publisher over the stream: the interpretation of
  the locale \<open>outbox_relay\<close>, and marking rows on the contents billing's service sees.
\<close>

section \<open>The outbox table only grows\<close>

definition db_queue :: "billDB \<Rightarrow> queue" where
  "db_queue s = map (\<lambda>row. (outbox_view row, ox_PublishedAt row \<noteq> None)) (bd_outbox s)"

definition db_turns :: "billDB \<Rightarrow> nat" where
  "db_turns s = length (bd_turns s)"

definition appended :: "billDB \<Rightarrow> billDB \<Rightarrow> bool" where
  "appended s s' \<longleftrightarrow> (\<exists>rows. bd_outbox s' = bd_outbox s @ rows \<and> list_all (\<lambda>row. ox_PublishedAt row = None) rows)"

lemma appended_same: "bd_outbox s' = bd_outbox s \<Longrightarrow> appended s s'"
  by (auto simp: appended_def)

lemma appended_trans: "appended s s1 \<Longrightarrow> appended s1 s2 \<Longrightarrow> appended s s2"
  by (fastforce simp: appended_def)

lemma appended_insert: "insertOutbox pt ev b s = Inr s' \<Longrightarrow> appended s s'"
  by (auto simp: insertOutbox_Inr appended_def outbox_row_def)

lemma appended_inserts: "insertOutboxes pt es s = Inr s' \<Longrightarrow> appended s s'"
proof (induction es arbitrary: s)
  case (Cons e es)
  obtain ev b where e: "e = (ev, b)" by (cases e)
  then obtain s1 where "insertOutbox pt ev b s = Inr s1" "insertOutboxes pt es s1 = Inr s'" using Cons.prems by (auto split: sum.splits)
  then show ?case using Cons.IH appended_insert appended_trans by blast
qed (simp add: appended_same)

lemma appended_write: "transact pt w s = Inr s' \<Longrightarrow> appended s s'"
proof (cases w)
  case (WUsage r evs)
  assume "transact pt w s = Inr s'"
  then obtain es s1 where "statement (\<lambda>db. db\<lparr>bd_usage := bd_usage db @ [(usage_row pt r, nullIfEmpty (ur_IdempotencyKey r))]\<rparr>) s = Inr s1"
      "insertOutboxes pt es s1 = Inr s'"
    using WUsage by (auto simp: ebind_def usageFunc_def split: sum.splits)
  moreover from this(1) have "appended s s1" by (auto simp: bill_statement_Inr intro!: appended_same)
  ultimately show ?thesis using appended_inserts appended_trans by blast
next
  case (WInvoice iv ev)
  assume "transact pt w s = Inr s'"
  then obtain b s1 where "statement (\<lambda>db. db\<lparr>bd_invoices := bd_invoices db @ [(invoice_row pt iv, marshalLineItems (iv_LineItems iv))]\<rparr>) s = Inr s1"
      "insertOutbox pt ev b s1 = Inr s'"
    using WInvoice by (auto simp: ebind_def invoiceFunc_def split: sum.splits)
  moreover from this(1) have "appended s s1" by (auto simp: bill_statement_Inr intro!: appended_same)
  ultimately show ?thesis using appended_insert appended_trans by blast
next
  case (WPlan p key)
  assume "transact pt w s = Inr s'"
  then show ?thesis using WPlan by (auto simp: planFunc_def bill_statement_Inr intro!: appended_same split: sum.splits if_splits)
next
  case (WAssign team pid)
  assume "transact pt w s = Inr s'"
  then show ?thesis using WAssign by (auto simp: assignFunc_def bill_statement_Inr intro!: appended_same)
qed

lemma appended_committed: "appended s (committed pt w s)"
  using appended_write appended_same [of s s] by (auto simp: committed_def split: sum.splits)

lemma appended_others: "appended s (fold (committed pt) ws s)"
proof (induction ws arbitrary: s)
  case (Cons w ws)
  show ?case using appended_trans [OF appended_committed Cons.IH] by simp
qed (simp add: appended_same)

lemma next_turn_queue:
  assumes "db_inv s" "next_turn pt s = (flt, s1)"
  shows "db_inv s1 \<and> appended s s1 \<and> db_turns s1 = db_turns s - 1 \<and> (db_turns s = 0 \<longrightarrow> flt = None \<and> s1 = s)"
proof (cases "bd_turns s")
  case Nil
  then show ?thesis using assms by (auto simp: next_turn_def db_turns_def appended_same)
next
  case (Cons t ts)
  define s0 where "s0 = s\<lparr>bd_turns := ts\<rparr>"
  have s1: "s1 = fold (committed pt) (tn_others t) s0" using assms(2) Cons by (simp add: next_turn_def s0_def)
  have "db_inv s0" "list_all honest (tn_others t)" using assms(1) Cons by (simp_all add: s0_def db_inv_def indexes_hold_def references_hold_def rows_ok_def)
  then have "bd_turns s1 = ts" using others_spec [of s0 "tn_others t" pt] by (simp add: s1 s0_def)
  moreover have "appended s s1" using appended_trans [OF appended_same appended_others] by (simp add: s1 s0_def)
  moreover have "db_inv s1" using next_turn_spec(1) [OF assms] by (simp add: kept_def)
  ultimately show ?thesis using Cons by (simp add: db_turns_def)
qed

lemma appended_grew: "appended s s' \<Longrightarrow> grew (db_queue s) (db_queue s')"
proof -
  assume "appended s s'"
  then obtain rows where r: "bd_outbox s' = bd_outbox s @ rows" "list_all (\<lambda>row. ox_PublishedAt row = None) rows" by (auto simp: appended_def)
  have "db_queue s' = db_queue s @ map (\<lambda>row. (row, False)) (map outbox_view rows)" using r by (auto simp: db_queue_def list_all_iff)
  then show ?thesis unfolding grew_def by blast
qed

section \<open>The laws of the reader\<close>

lemma sort_key_map: "sort_key f (map g xs) = map g (sort_key (f \<circ> g) xs)"
proof -
  have ins: "insort_key f (g x) (map g ys) = map g (insort_key (\<lambda>a. f (g a)) x ys)" for x ys
    by (induction ys) auto
  show ?thesis by (induction xs) (simp_all add: ins comp_def)
qed

lemma pending_unpublished: "pending (db_queue s) = map outbox_view (unpublished (bd_outbox s))"
  by (simp add: pending_def db_queue_def unpublished_def filter_map comp_def)

lemma claimed_rows:
  "map outbox_view (take n (sort_key ox_CreatedAt (unpublished (bd_outbox s)))) = take n (sort_key rw_CreatedAt (pending (db_queue s)))"
proof -
  have "rw_CreatedAt \<circ> outbox_view = ox_CreatedAt" by (simp add: fun_eq_iff outbox_view_def)
  then show ?thesis unfolding pending_unpublished sort_key_map by (simp add: take_map)
qed

lemma mark_queue: "db_queue (markFunc clk i s) = mark_id i (db_queue s)"
  by (auto simp: db_queue_def markFunc_def mark_id_def outbox_view_def)

lemma mark_inv: "db_inv s \<Longrightarrow> db_inv (markFunc clk i s)"
proof -
  assume s: "db_inv s"
  have ids: "map ox_ID (bd_outbox (markFunc clk i s)) = map ox_ID (bd_outbox s)" by (auto simp: markFunc_def)
  have "list_all (\<lambda>row. \<exists>p. unmarshalPayload (ox_EventType row) (ox_Payload row) = Inr p) (bd_outbox (markFunc clk i s))"
    using s by (auto simp: db_inv_def rows_ok_def markFunc_def list_all_iff)
  then show ?thesis using s ids by (simp add: db_inv_def rows_ok_def indexes_hold_def references_hold_def) (simp add: markFunc_def)
qed

text \<open>
  The tables are sound when they keep their invariant, the outbox tells what the ledger tells, and the ledger
  continues \<open>L\<close>, the ledger of an earlier moment.
\<close>

definition db_sound :: "(time \<Rightarrow> time) \<Rightarrow> UsageRecord list \<Rightarrow> billDB \<Rightarrow> bool" where
  "db_sound pt L s \<longleftrightarrow> db_inv s \<and> paired pt (db_view s) \<and> (\<exists>rs. bv_ledger (db_view s) = L @ rs)"

lemma mark_view: "db_view (markFunc clk i s) = (db_view s)\<lparr>bv_outbox := map (\<lambda>e. if oe_ID e = i then e\<lparr>oe_PublishedAt := Some (clk s)\<rparr> else e) (bv_outbox (db_view s))\<rparr>"
  by (auto simp: db_view_def markFunc_def row_event_def plan_with_def)

lemma payloads_mark:
  "usage_payloads (map (\<lambda>e. if oe_ID e = i then e\<lparr>oe_PublishedAt := t\<rparr> else e) es) = usage_payloads es"
  "invoice_payloads (map (\<lambda>e. if oe_ID e = i then e\<lparr>oe_PublishedAt := t\<rparr> else e) es) = invoice_payloads es"
  by (induction es) (simp_all add: usage_payloads_def invoice_payloads_def List.map_filter_def)

lemma mark_paired: "paired pt (db_view s) \<Longrightarrow> paired pt (db_view (markFunc clk i s))"
  unfolding mark_view paired_def by (auto simp: payloads_mark list_all_iff)

lemma mark_sound: "db_sound pt L s \<Longrightarrow> db_sound pt L (markFunc clk i s)"
  by (simp add: db_sound_def mark_inv mark_paired) (simp add: mark_view)

lemma kept_sound: "db_sound pt L s \<Longrightarrow> kept pt db_view db_inv db_healthy s s1 \<Longrightarrow> db_sound pt L s1"
proof -
  assume s: "db_sound pt L s" and k: "kept pt db_view db_inv db_healthy s s1"
  then have e: "evolves pt (db_view s) (db_view s1)" by (simp add: kept_def)
  obtain rs where "bv_ledger (db_view s1) = bv_ledger (db_view s) @ rs" using evolves_grows [OF e] by metis
  then show ?thesis using s k evolves_paired [OF e] by (auto simp: db_sound_def kept_def)
qed

lemma next_turn_sound: "db_sound pt L s \<Longrightarrow> next_turn pt s = (flt, s1) \<Longrightarrow> db_sound pt L s1"
  using kept_sound next_turn_spec(1) by (metis db_sound_def)

lemma queue_law:
  assumes "db_sound pt L s"
  shows "distinct (map (rw_ID \<circ> fst) (db_queue s)) \<and> (\<forall>x \<in> set (db_queue s). \<exists>m. row_message (fst x) m)"
proof -
  have assms: "db_inv s" using assms by (simp add: db_sound_def)
  have "map (rw_ID \<circ> fst) (db_queue s) = map ox_ID (bd_outbox s)" by (simp add: db_queue_def outbox_view_def)
  then have "distinct (map (rw_ID \<circ> fst) (db_queue s))" using assms by (simp add: db_inv_def indexes_hold_def)
  moreover have "\<exists>m. row_message (outbox_view row) m" if "row \<in> set (bd_outbox s)" for row
  proof -
    have "list_all (\<lambda>row. \<exists>p. unmarshalPayload (ox_EventType row) (ox_Payload row) = Inr p) (bd_outbox s)" using assms by (simp add: db_inv_def rows_ok_def)
    then obtain p where "unmarshalPayload (ox_EventType row) (ox_Payload row) = Inr p" using \<open>row \<in> _\<close> by (auto simp: list_all_iff)
    then show ?thesis by (auto simp: row_message_def decodeOutboxPayload_def outbox_view_def)
  qed
  ultimately show ?thesis unfolding db_queue_def by auto
qed

lemma claim_law:
  assumes "db_sound pt L s" "ClaimUnpublished pt n s = (rr, s')"
  shows "db_sound pt L s' \<and> db_turns s' = db_turns s - 1 \<and> grew (db_queue s) (db_queue s')
    \<and> (\<forall>rows. rr = Inr rows \<longrightarrow> rows = take (nat n) (sort_key rw_CreatedAt (pending (db_queue s'))))
    \<and> (\<forall>err. rr = Inl err \<longrightarrow> \<not> ctx_stopped err) \<and> (db_turns s = 0 \<longrightarrow> db_queue s' = db_queue s \<and> \<not> isl rr)"
proof -
  obtain flt s1 where t: "next_turn pt s = (flt, s1)" by fastforce
  note nt = next_turn_queue [OF assms(1) [unfolded db_sound_def, THEN conjunct1] t] next_turn_sound [OF assms(1) t]
  have r: "s' = s1" "rr = (case flt of Some f \<Rightarrow> Inl (Wrapf ''query unpublished outbox: '' (fault_err f) '''')
      | None \<Rightarrow> Inr (take (nat n) (sort_key rw_CreatedAt (pending (db_queue s1)))))"
    using assms(2) t by (auto simp: ClaimUnpublished_def query_def claimed_rows split: option.splits)
  have f: "\<not> ctx_stopped (Wrapf ''query unpublished outbox: '' (fault_err f) '''')" for f
    by (cases f) (simp_all add: ctx_stopped_def context_Canceled_def context_DeadlineExceeded_def)
  show ?thesis using nt r f appended_grew [of s s1] by (auto split: option.splits)
qed

lemma mark_law:
  assumes "db_sound pt L s" "MarkPublished pt clk i s = (e, s')"
  shows "db_sound pt L s' \<and> db_turns s' = db_turns s - 1 \<and> (\<exists>q. grew (db_queue s) q \<and> (db_queue s' = mark_id i q \<or> e \<noteq> None \<and> db_queue s' = q))
    \<and> (db_turns s = 0 \<longrightarrow> e = None \<and> db_queue s' = mark_id i (db_queue s))"
proof -
  obtain flt s1 where t: "next_turn pt s = (flt, s1)" by fastforce
  note nt = next_turn_queue [OF assms(1) [unfolded db_sound_def, THEN conjunct1] t] next_turn_sound [OF assms(1) t]
  have g: "grew (db_queue s) (db_queue s1)" using nt appended_grew by blast
  have tu: "db_turns (markFunc clk i s1) = db_turns s1" by (simp add: db_turns_def markFunc_def)
  have "s' = markFunc clk i s1 \<or> e \<noteq> None \<and> s' = s1" "db_turns s = 0 \<longrightarrow> e = None \<and> s' = markFunc clk i s"
    using assms(2) t nt by (auto simp: MarkPublished_def beginFunc_def split: option.splits turnFault.splits)
  then show ?thesis using nt g tu mark_sound mark_queue by metis
qed

section \<open>The laws of the publisher\<close>

definition js_view :: "jetStream \<Rightarrow> (string \<times> string \<times> string) list" where
  "js_view b = map (\<lambda>(subject, env). (subject, ee_ID env, ee_Data env)) (js_log b)"

definition js_faults :: "jetStream \<Rightarrow> nat" where
  "js_faults b = length (js_turns b)"

lemma js_store_spec:
  "(js_view (js_store subject env window b) = js_view b \<or> js_view (js_store subject env window b) = js_view b @ [(subject, ee_ID env, ee_Data env)])
   \<and> ee_ID env \<in> (fst \<circ> snd) ` set (js_view (js_store subject env window b)) \<and> js_turns (js_store subject env window b) = js_turns b"
  by (auto simp: js_store_def js_view_def image_image case_prod_beta image_iff)

lemma js_Publish_spec:
  assumes "js_Publish subject env b = (e, b')"
  shows "(js_view b' = js_view b \<or> js_view b' = js_view b @ [(subject, ee_ID env, ee_Data env)]) \<and> (e = None \<longrightarrow> ee_ID env \<in> (fst \<circ> snd) ` set (js_view b'))
    \<and> js_faults b' \<le> js_faults b \<and> (e \<noteq> None \<longrightarrow> js_faults b' < js_faults b)"
proof (cases "js_turns b")
  case Nil
  then show ?thesis using assms js_store_spec [of subject env False b] by (auto simp: js_Publish_def js_faults_def)
next
  case (Cons t ts)
  have v: "js_view (b\<lparr>js_turns := ts\<rparr>) = js_view b" by (simp add: js_view_def)
  have "b' = b\<lparr>js_turns := ts\<rparr> \<and> e \<noteq> None \<or> b' = js_store subject env (pn_window t) (b\<lparr>js_turns := ts\<rparr>)"
    using assms Cons by (auto simp: js_Publish_def Let_def split: option.splits turnFault.splits)
  then show ?thesis using js_store_spec [of subject env "pn_window t" "b\<lparr>js_turns := ts\<rparr>"] Cons v by (auto simp: js_faults_def)
qed

lemma publish_law:
  assumes "PublishWithID encode px src subject i m b = (e, b')"
  shows "(js_view b' = js_view b \<or> (\<exists>d. encode m = Inr d \<and> js_view b' = js_view b @ [(subject, i, d)])) \<and> (e = None \<longrightarrow> i \<in> (fst \<circ> snd) ` set (js_view b'))
    \<and> js_faults b' \<le> js_faults b \<and> (e \<noteq> None \<longrightarrow> \<not> isl (encode m) \<longrightarrow> js_faults b' < js_faults b)"
proof (cases "encode m")
  case (Inl err)
  then show ?thesis using assms by (auto simp: PublishWithID_def)
next
  case (Inr d)
  define b0 where "b0 = b\<lparr>js_calls := js_calls b + 1\<rparr>"
  obtain env e1 where p: "js_Publish subject env b0 = (e1, b')" "ee_ID env = i" "ee_Data env = d" "e1 = None \<longleftrightarrow> e = None"
    using assms Inr by (auto simp: PublishWithID_def Let_def b0_def injectTraceContext_def NewEnvelope_def split: prod.splits option.splits)
  have "js_view b0 = js_view b" "js_faults b0 = js_faults b" by (simp_all add: b0_def js_view_def js_faults_def)
  then show ?thesis using js_Publish_spec [OF p(1)] p(2-4) Inr by auto
qed

interpretation pgo: outbox_relay "PgxOutboxReader pt clk" db_queue "db_sound pt L" db_turns "RelayPublisher encode px src" js_view js_faults encode cfg
  for pt L clk encode px src cfg
  by unfold_locales (simp_all only: PgxOutboxReader_def OutboxReader.simps RelayPublisher_def natsPublisher.simps option.simps,
    (erule queue_law claim_law mark_law | blast intro: publish_law | hypsubst, erule publish_law)+)

end
