(* ===== verification/BillingConsumers.thy ===== *)
theory BillingConsumers
  imports BillingOutbox
begin

text \<open>
  How billing meters events: the subscriber every service shares (\<^verbatim>\<open>pkg/natsutil/subscriber.go\<close>), the three
  consumers of billing (\<^verbatim>\<open>events/subscriber.go\<close>, \<^verbatim>\<open>events/ai_consumer.go\<close>), and that an event is metered
  exactly once however often it is delivered. The decoding of messages, the resolver of teams, the store of
  processed ids and the publish to the dead-letter subject are parameters. The time limit of a handler is
  part of what its calls may answer.
\<close>

section \<open>The subscriber\<close>

definition ErrProcessingFailed :: goerr where
  "ErrProcessingFailed = New ''natsutil: processing failed''"

record 'w ProcessedStore =
  ps_IsProcessed :: "string \<Rightarrow> 'w \<Rightarrow> (goerr + bool) \<times> 'w"
  ps_MarkProcessed :: "string \<Rightarrow> 'w \<Rightarrow> goerr option \<times> 'w"

record 'w subConfig =
  sc_consumerGroup :: string
  sc_maxRetries :: int
  sc_dlqSubject :: string
  sc_store :: "'w ProcessedStore option"

text \<open>A subscriber: the decoding of an envelope, and a publish of data to a subject under a message id.\<close>

record 'w Subscriber =
  sb_decode :: "string \<Rightarrow> goerr + EventEnvelope"
  sb_publish :: "string \<Rightarrow> string \<Rightarrow> string \<Rightarrow> 'w \<Rightarrow> goerr option \<times> 'w"
  sb_cfg :: "'w subConfig"

type_synonym 'w EventHandler = "EventEnvelope \<Rightarrow> 'w \<Rightarrow> goerr option \<times> 'w"

text \<open>A message, and how often it has been delivered when its metadata can be read.\<close>

record jsMsg =
  jm_Data :: string
  jm_NumDelivered :: "int option"

datatype disposition = Ack | Nak | Term

definition maxDeliverFromCfg :: "'w subConfig \<Rightarrow> int" where
  "maxDeliverFromCfg cfg = (if sc_maxRetries cfg > 0 then sc_maxRetries cfg + 1 else - 1)"

definition routeToDLQ :: "'w Subscriber \<Rightarrow> jsMsg \<Rightarrow> EventEnvelope \<Rightarrow> 'w \<Rightarrow> disposition \<times> 'w" where
  "routeToDLQ S msg env w = (if sc_dlqSubject (sb_cfg S) = '''' then (Term, w)
     else (case sb_publish S (sc_dlqSubject (sb_cfg S)) (ee_ID env @ ''-dlq'') (jm_Data msg) w of
       (Some err, w1) \<Rightarrow> (Term, w1) | (None, w1) \<Rightarrow> (Term, w1)))"

definition handleFailure :: "'w Subscriber \<Rightarrow> jsMsg \<Rightarrow> EventEnvelope \<Rightarrow> 'w \<Rightarrow> disposition \<times> 'w" where
  "handleFailure S msg env w = (case jm_NumDelivered msg of
     Some n \<Rightarrow> if sc_maxRetries (sb_cfg S) > 0 \<and> n \<ge> sc_maxRetries (sb_cfg S) + 1 then routeToDLQ S msg env w else (Nak, w)
   | None \<Rightarrow> (Nak, w))"

definition runHandler :: "'w Subscriber \<Rightarrow> 'w EventHandler \<Rightarrow> jsMsg \<Rightarrow> EventEnvelope \<Rightarrow> 'w \<Rightarrow> disposition \<times> 'w" where
  "runHandler S handler msg env w = (case handler env w of
     (Some err, w1) \<Rightarrow> handleFailure S msg env w1
   | (None, w1) \<Rightarrow> (case sc_store (sb_cfg S) of
        None \<Rightarrow> (Ack, w1)
      | Some st \<Rightarrow> (case ps_MarkProcessed st (ee_ID env) w1 of (Some err, w2) \<Rightarrow> (Nak, w2) | (None, w2) \<Rightarrow> (Ack, w2))))"

definition handleMessage :: "'w Subscriber \<Rightarrow> 'w EventHandler \<Rightarrow> jsMsg \<Rightarrow> 'w \<Rightarrow> disposition \<times> 'w" where
  "handleMessage S handler msg w = (case sb_decode S (jm_Data msg) of
     Inl err \<Rightarrow> (Term, w)
   | Inr env \<Rightarrow> (case sc_store (sb_cfg S) of
        None \<Rightarrow> runHandler S handler msg env w
      | Some st \<Rightarrow> (case ps_IsProcessed st (ee_ID env) w of
           (Inl err, w1) \<Rightarrow> (Nak, w1)
         | (Inr processed, w1) \<Rightarrow> if processed then (Ack, w1) else runHandler S handler msg env w1)))"

text \<open>JetStream delivers a message again after a Nak, until \<^verbatim>\<open>MaxDeliver\<close>: the \<open>n\<close>th delivery, with \<open>k\<close> to go.\<close>

fun deliver :: "'w Subscriber \<Rightarrow> 'w EventHandler \<Rightarrow> string \<Rightarrow> nat \<Rightarrow> int \<Rightarrow> 'w \<Rightarrow> disposition \<times> 'w" where
  "deliver S handler data 0 n w = (Nak, w)"
| "deliver S handler data (Suc k) n w = (case handleMessage S handler \<lparr>jm_Data = data, jm_NumDelivered = Some n\<rparr> w of
     (Nak, w1) \<Rightarrow> if k = 0 then (Nak, w1) else deliver S handler data k (n + 1) w1
   | (d, w1) \<Rightarrow> (d, w1))"

section \<open>The consumers of billing\<close>

definition ErrTeamNotFound :: goerr where
  "ErrTeamNotFound = New ''events: team not found for api key''"

text \<open>The world of a consumer: the service's state, and the rest the ports of the consumer act on.\<close>

record ('s, 'p) meterWorld =
  mw_bill :: "'s billState"
  mw_net :: 'p

definition onNet :: "('p \<Rightarrow> 'a \<times> 'p) \<Rightarrow> ('s, 'p) meterWorld \<Rightarrow> 'a \<times> ('s, 'p) meterWorld" where
  "onNet f w = (let (a, p) = f (mw_net w) in (a, w\<lparr>mw_net := p\<rparr>))"

definition isPermanentBillingError :: "goerr \<Rightarrow> bool" where
  "isPermanentBillingError err \<longleftrightarrow> errors_Is err ErrUnknownMeter \<or> errors_Is err ErrNegativeQuantity \<or> errors_Is err ErrQuantityTooLarge
     \<or> errors_Is err ErrRatePlanNotFound \<or> errors_Is err ErrValidation \<or> errors_Is err ErrAmountOverflow"

definition poison :: "string \<Rightarrow> goerr option" where
  "poison m = Some (Wrapf '''' ErrProcessingFailed m)"

definition meter :: "'s billingService \<Rightarrow> string \<Rightarrow> RecordUsageInput \<Rightarrow> ('s, 'p) meterWorld \<Rightarrow> goerr option \<times> ('s, 'p) meterWorld" where
  "meter P team inp w = (case RecordUsage P team inp (mw_bill w) of
     (Inr rd, b) \<Rightarrow> (None, w\<lparr>mw_bill := b\<rparr>)
   | (Inl err, b) \<Rightarrow>
       (if isPermanentBillingError err
        then poison ('': meter '' @ ru_MeterType inp @ '' for team='' @ team @ '': '' @ err_msg err)
        else Some (Wrapf (''events: meter '' @ ru_MeterType inp @ '' for team='' @ team @ '': '') err ''''), w\<lparr>mw_bill := b\<rparr>))"

text \<open>\<^verbatim>\<open>AsTime\<close> of a timestamp: an unset one is the first instant of 1970.\<close>

definition unix_epoch :: time where
  "unix_epoch = days_before_year 1970 * a_day"

definition AsTime :: "time option \<Rightarrow> time" where
  "AsTime t = (case t of None \<Rightarrow> unix_epoch | Some t \<Rightarrow> t)"

text \<open>The messages, with the fields the consumers read.\<close>

record InferenceCompleted =
  if_RequestId :: string
  if_ModelId :: string
  if_Version :: string
  if_ApiKeyId :: string
  if_TokenCount :: int64
  if_CompletedAt :: "time option"

record ModelVersionReady =
  mr_ModelId :: string
  mr_VersionId :: string
  mr_Version :: string
  mr_SizeBytes :: int64
  mr_ReadyAt :: "time option"

record aiCompletionServed =
  al_RequestID :: string
  al_Team :: string
  al_Model :: string
  al_TotalTokens :: "32 word"

record ('s, 'p) InferenceConsumer =
  ic_svc :: "'s billingService"
  ic_decode :: "string \<Rightarrow> goerr + InferenceCompleted"
  ic_ResolveTeam :: "string \<Rightarrow> 'p \<Rightarrow> (goerr + string) \<times> 'p"

record ('s, 'p) StorageConsumer =
  st_svc :: "'s billingService"
  st_decode :: "string \<Rightarrow> goerr + ModelVersionReady"
  st_ResolveVersionTeam :: "string \<Rightarrow> string \<Rightarrow> 'p \<Rightarrow> (goerr + string) \<times> 'p"

record ('s, 'p) AIConsumer =
  ac_svc :: "'s billingService"
  ac_decode :: "string \<Rightarrow> goerr + aiCompletionServed"
  ac_store :: "'p ProcessedStore option"

definition requestInput :: "InferenceCompleted \<Rightarrow> RecordUsageInput" where
  "requestInput ev = \<lparr>ru_MeterType = MeterTypeInferenceRequest, ru_Quantity = 1, ru_ModelID = if_ModelId ev, ru_ModelVersion = if_Version ev,
     ru_SourceRequestID = if_RequestId ev, ru_OccurredAt = AsTime (if_CompletedAt ev), ru_IdempotencyKey = if_RequestId ev\<rparr>"

definition tokenInput :: "InferenceCompleted \<Rightarrow> RecordUsageInput" where
  "tokenInput ev = \<lparr>ru_MeterType = MeterTypeInferenceTokens, ru_Quantity = if_TokenCount ev, ru_ModelID = if_ModelId ev, ru_ModelVersion = if_Version ev,
     ru_SourceRequestID = if_RequestId ev, ru_OccurredAt = AsTime (if_CompletedAt ev), ru_IdempotencyKey = if_RequestId ev @ '':tokens''\<rparr>"

definition handleInferenceCompleted :: "('s, 'p) InferenceConsumer \<Rightarrow> ('s, 'p) meterWorld EventHandler" where
  "handleInferenceCompleted c env w = (case ic_decode c (ee_Data env) of
     Inl err \<Rightarrow> (poison ('': decode InferenceCompleted from event '' @ ee_ID env @ '': '' @ err_msg err), w)
   | Inr ev \<Rightarrow>
       if if_RequestId ev = '''' then (poison '': InferenceCompleted with empty request_id (no idempotency anchor)'', w)
       else if if_ApiKeyId ev = ''''
         then (poison ('': InferenceCompleted '' @ if_RequestId ev @ '' with empty api_key_id (cannot attribute charge)''), w)
       else (case onNet (ic_ResolveTeam c (if_ApiKeyId ev)) w of
          (Inl err, w1) \<Rightarrow>
            (if errors_Is err ErrTeamNotFound then poison ('': no team for api_key on InferenceCompleted '' @ if_RequestId ev)
             else Some (Wrapf (''events: resolve team for InferenceCompleted '' @ if_RequestId ev @ '': '') err ''''), w1)
        | (Inr team, w1) \<Rightarrow> (case meter (ic_svc c) team (requestInput ev) w1 of
             (Some err, w2) \<Rightarrow> (Some err, w2)
           | (None, w2) \<Rightarrow> if 0 <s if_TokenCount ev then meter (ic_svc c) team (tokenInput ev) w2 else (None, w2))))"

definition storageInput :: "ModelVersionReady \<Rightarrow> RecordUsageInput" where
  "storageInput ev = \<lparr>ru_MeterType = MeterTypeStorageBytes, ru_Quantity = mr_SizeBytes ev, ru_ModelID = mr_ModelId ev, ru_ModelVersion = mr_Version ev,
     ru_SourceRequestID = mr_VersionId ev, ru_OccurredAt = AsTime (mr_ReadyAt ev), ru_IdempotencyKey = mr_VersionId ev @ '':storage''\<rparr>"

definition handleModelVersionReady :: "('s, 'p) StorageConsumer \<Rightarrow> ('s, 'p) meterWorld EventHandler" where
  "handleModelVersionReady c env w = (case st_decode c (ee_Data env) of
     Inl err \<Rightarrow> (poison ('': decode ModelVersionReady from event '' @ ee_ID env @ '': '' @ err_msg err), w)
   | Inr ev \<Rightarrow>
       if mr_VersionId ev = '''' then (poison '': ModelVersionReady with empty version_id (no idempotency anchor)'', w)
       else if mr_ModelId ev = ''''
         then (poison ('': ModelVersionReady '' @ mr_VersionId ev @ '' with empty model_id (cannot attribute storage charge)''), w)
       else if mr_SizeBytes ev \<le>s 0 then (None, w)
       else (case onNet (st_ResolveVersionTeam c (mr_ModelId ev) (mr_VersionId ev)) w of
          (Inl err, w1) \<Rightarrow>
            (if errors_Is err ErrTeamNotFound then poison ('': no team for model on ModelVersionReady '' @ mr_VersionId ev)
             else Some (Wrapf (''events: resolve team for ModelVersionReady '' @ mr_VersionId ev @ '': '') err ''''), w1)
        | (Inr team, w1) \<Rightarrow> meter (st_svc c) team (storageInput ev) w1))"

definition aiInput :: "aiCompletionServed \<Rightarrow> RecordUsageInput" where
  "aiInput ev = \<lparr>ru_MeterType = MeterTypeInferenceTokens, ru_Quantity = scast (al_TotalTokens ev), ru_ModelID = al_Model ev, ru_ModelVersion = '''',
     ru_SourceRequestID = al_RequestID ev, ru_OccurredAt = 0, ru_IdempotencyKey = al_RequestID ev @ '':ai-tokens''\<rparr>"

definition handle :: "('s, 'p) AIConsumer \<Rightarrow> ('s, 'p) meterWorld EventHandler" where
  "handle c env w = (case ac_decode c (ee_Data env) of
     Inl err \<Rightarrow> (poison ('': decode AiCompletionServed from event '' @ ee_ID env @ '': '' @ err_msg err), w)
   | Inr ev \<Rightarrow>
       if al_RequestID ev = '''' then (poison '': AiCompletionServed with empty request_id (no idempotency anchor)'', w)
       else if al_Team ev = '''' then (poison ('': AiCompletionServed '' @ al_RequestID ev @ '' with empty team (cannot attribute charge)''), w)
       else if (scast (al_TotalTokens ev) :: int64) \<le>s 0 then (None, w)
       else meter (ac_svc c) (al_Team ev) (aiInput ev) w)"

definition dispatch :: "('s, 'p) AIConsumer \<Rightarrow> ('s, 'p) meterWorld EventHandler" where
  "dispatch c env w = (case ac_store c of
     None \<Rightarrow> handle c env w
   | Some st \<Rightarrow> (case onNet (ps_IsProcessed st (ee_ID env)) w of
        (Inl err, w1) \<Rightarrow> (Some (Wrapf (''events: idempotency check for AI event '' @ ee_ID env @ '': '') err ''''), w1)
      | (Inr processed, w1) \<Rightarrow>
          if processed then (None, w1)
          else (case handle c env w1 of
             (Some err, w2) \<Rightarrow> (Some err, w2)
           | (None, w2) \<Rightarrow> (case onNet (ps_MarkProcessed st (ee_ID env)) w2 of
                (Some err, w3) \<Rightarrow> (Some (Wrapf (''events: mark AI event '' @ ee_ID env @ '' processed: '') err ''''), w3)
              | (None, w3) \<Rightarrow> (None, w3)))))"

end
