(* ===== verification/BillingMetering.thy ===== *)
theory BillingMetering
  imports BillingConsumers
begin

text \<open>
  What the consumers guarantee: an event a handler has accepted has its records in the ledger, one for each
  key, and no later delivery adds another; a message ends acknowledged, dead-lettered or, when the store of
  processed ids fails on the last delivery, lost.
\<close>

section \<open>The subscriber\<close>

text \<open>A handler's error decides only by being there.\<close>

lemma runHandler_error: "handler env w = (Some e, w1) \<Longrightarrow> runHandler S handler msg env w = handleFailure S msg env w1"
  by (simp add: runHandler_def)

definition store_fails :: "'w Subscriber \<Rightarrow> 'w EventHandler \<Rightarrow> jsMsg \<Rightarrow> 'w \<Rightarrow> bool" where
  "store_fails S handler msg w \<longleftrightarrow> (\<exists>env st. sb_decode S (jm_Data msg) = Inr env \<and> sc_store (sb_cfg S) = Some st
     \<and> (isl (fst (ps_IsProcessed st (ee_ID env) w))
        \<or> (\<exists>w1 w2. ps_IsProcessed st (ee_ID env) w = (Inr False, w1) \<and> handler env w1 = (None, w2) \<and> fst (ps_MarkProcessed st (ee_ID env) w2) \<noteq> None)))"

text \<open>The message was given to the dead-letter subject, the last thing that happened.\<close>

definition dead_lettered :: "'w Subscriber \<Rightarrow> string \<Rightarrow> 'w \<Rightarrow> bool" where
  "dead_lettered S data w' \<longleftrightarrow> (\<exists>env v. sb_decode S data = Inr env
     \<and> snd (sb_publish S (sc_dlqSubject (sb_cfg S)) (ee_ID env @ ''-dlq'') data v) = w')"

definition accepted :: "'w Subscriber \<Rightarrow> 'w EventHandler \<Rightarrow> jsMsg \<Rightarrow> 'w \<Rightarrow> bool" where
  "accepted S handler msg w \<longleftrightarrow> (\<exists>env. sb_decode S (jm_Data msg) = Inr env \<and>
     (case sc_store (sb_cfg S) of None \<Rightarrow> fst (handler env w) = None
      | Some st \<Rightarrow> (\<exists>w1. ps_IsProcessed st (ee_ID env) w = (Inr True, w1) \<or> ps_IsProcessed st (ee_ID env) w = (Inr False, w1) \<and> fst (handler env w1) = None)))"

lemma handleFailure_last:
  assumes "sc_maxRetries (sb_cfg S) > 0" "jm_NumDelivered msg = Some n" "n \<ge> sc_maxRetries (sb_cfg S) + 1"
  shows "fst (handleFailure S msg env w) = Term"
  using assms by (auto simp: handleFailure_def routeToDLQ_def split: prod.splits option.splits)

lemma handleMessage_ack: "fst (handleMessage S handler msg w) = Ack \<Longrightarrow> accepted S handler msg w"
  by (auto simp: handleMessage_def runHandler_def handleFailure_def routeToDLQ_def accepted_def split: sum.splits option.splits prod.splits if_splits)

lemma handleMessage_term:
  assumes "handleMessage S handler msg w = (Term, w')"
  shows "isl (sb_decode S (jm_Data msg)) \<or> sc_dlqSubject (sb_cfg S) = ''''
    \<or> dead_lettered S (jm_Data msg) w'"
proof (rule ccontr)
  assume n: "\<not> ?thesis"
  then obtain env where e: "sb_decode S (jm_Data msg) = Inr env" "sc_dlqSubject (sb_cfg S) \<noteq> ''''"
      "\<And>v. snd (sb_publish S (sc_dlqSubject (sb_cfg S)) (ee_ID env @ ''-dlq'') (jm_Data msg) v) \<noteq> w'"
    by (cases "sb_decode S (jm_Data msg)") (auto simp: dead_lettered_def)
  have "routeToDLQ S msg env v \<noteq> (Term, w')" for v
    using e(2) e(3) [of v] by (auto simp: routeToDLQ_def split: prod.splits option.splits)
  then have "handleFailure S msg env v \<noteq> (Term, w')" for v
    by (auto simp: handleFailure_def split: option.splits)
  then have "runHandler S handler msg env v \<noteq> (Term, w')" for v
    by (auto simp: runHandler_def split: prod.splits option.splits)
  then show False using assms e(1) by (auto simp: handleMessage_def split: option.splits prod.splits sum.splits if_splits)
qed

lemma handleMessage_last_nak:
  assumes "sc_maxRetries (sb_cfg S) > 0" "jm_NumDelivered msg = Some n" "n \<ge> sc_maxRetries (sb_cfg S) + 1"
    and "fst (handleMessage S handler msg w) = Nak"
  shows "store_fails S handler msg w"
proof -
  obtain env where e: "sb_decode S (jm_Data msg) = Inr env" using assms(4) by (auto simp: handleMessage_def split: sum.splits)
  have rh: "\<exists>st w2. sc_store (sb_cfg S) = Some st \<and> handler env v = (None, w2) \<and> fst (ps_MarkProcessed st (ee_ID env) w2) \<noteq> None"
    if "fst (runHandler S handler msg env v) = Nak" for v
    using that handleFailure_last [OF assms(1-3)] by (auto simp: runHandler_def split: prod.splits option.splits)
  show ?thesis
  proof (cases "sc_store (sb_cfg S)")
    case None
    then show ?thesis using assms(4) e rh [of w] by (simp add: handleMessage_def)
  next
    case (Some st)
    obtain rp w1 where p: "ps_IsProcessed st (ee_ID env) w = (rp, w1)" by fastforce
    show ?thesis
    proof (cases rp)
      case (Inl err)
      then show ?thesis using e Some p by (simp add: store_fails_def)
    next
      case (Inr b)
      then have "\<not> b" "fst (runHandler S handler msg env w1) = Nak" using assms(4) e Some p by (auto simp: handleMessage_def split: if_splits)
      then show ?thesis using rh [of w1] e Some p Inr unfolding store_fails_def by auto
    qed
  qed
qed

text \<open>
  The end of all deliveries of a message with a retry limit: acknowledged after the handler or the store
  accepted it, terminated, or left after its last delivery because the store of processed ids failed.
\<close>

lemma deliver_end:
  assumes "sc_maxRetries (sb_cfg S) > 0" "n + int k = sc_maxRetries (sb_cfg S) + 2" "0 < k" "deliver S handler data k n w = (d, w')"
  shows "\<exists>v i. fst (handleMessage S handler \<lparr>jm_Data = data, jm_NumDelivered = Some i\<rparr> v) = d
    \<and> snd (handleMessage S handler \<lparr>jm_Data = data, jm_NumDelivered = Some i\<rparr> v) = w'
    \<and> (d = Ack \<longrightarrow> accepted S handler \<lparr>jm_Data = data, jm_NumDelivered = Some i\<rparr> v)
    \<and> (d = Nak \<longrightarrow> store_fails S handler \<lparr>jm_Data = data, jm_NumDelivered = Some i\<rparr> v)"
  using assms(2-4)
proof (induction k arbitrary: n w)
  case (Suc k)
  let ?m = "\<lparr>jm_Data = data, jm_NumDelivered = Some n\<rparr>"
  obtain d1 w1 where h: "handleMessage S handler ?m w = (d1, w1)" by fastforce
  show ?case
  proof (cases "d1 = Nak \<and> 0 < k")
    case True
    then have "deliver S handler data k (n + 1) w1 = (d, w')" using Suc.prems(3) h by simp
    then show ?thesis using Suc.IH [of "n + 1" w1] Suc.prems(1) True by simp
  next
    case False
    then have dw: "d = d1" "w' = w1" using Suc.prems(3) h by (auto split: disposition.splits)
    have "d = Nak \<Longrightarrow> store_fails S handler ?m w"
      using False handleMessage_last_nak [OF assms(1), of ?m n handler w] Suc.prems(1) dw h by simp
    then show ?thesis using handleMessage_ack [of S handler ?m w] h dw by (intro exI [of _ w] exI [of _ n]) simp
  qed
qed simp

section \<open>Metering\<close>

lemma onNet_bill: "onNet f w = (a, w') \<Longrightarrow> mw_bill w' = mw_bill w"
  by (auto simp: onNet_def split: prod.splits)

text \<open>The ledger has exactly one record for the key of the team.\<close>

definition metered_once :: "billView \<Rightarrow> string \<Rightarrow> string \<Rightarrow> bool" where
  "metered_once A team key \<longleftrightarrow> length (filter (\<lambda>r. ur_Team r = team \<and> ur_IdempotencyKey r = key) (bv_ledger A)) = 1"

lemma metered_once_keyed: "metered_once A team key \<Longrightarrow> \<exists>r. keyed_record A team key = Some r"
proof -
  assume "metered_once A team key"
  then have "filter (\<lambda>r. ur_Team r = team \<and> ur_IdempotencyKey r = key) (bv_ledger A) \<noteq> []" by (auto simp: metered_once_def)
  then have "keyed A team key" by (auto simp: keyed_def filter_empty_conv)
  then show ?thesis using keyed_record_None by fastforce
qed

context bill_store
begin

lemma keyed_metered: "sound d \<Longrightarrow> keyed_record (view d) team key = Some r \<Longrightarrow> key \<noteq> '''' \<Longrightarrow> metered_once (view d) team key"
  using keyed_once by (simp add: metered_once_def)

abbreviation metered_key :: "('s, 'p) meterWorld \<Rightarrow> string \<Rightarrow> string \<Rightarrow> bool" where
  "metered_key w \<equiv> metered_once (view (bl_db (mw_bill w)))"

abbreviation quiet :: "('s, 'p) meterWorld \<Rightarrow> ('s, 'p) meterWorld \<Rightarrow> bool" where
  "quiet w w' \<equiv> calm (bl_db (mw_bill w)) (bl_db (mw_bill w'))"

lemma metered_key_stays:
  assumes "quiet w w'" "metered_key w team key" "key \<noteq> ''''"
  shows "metered_key w' team key"
proof -
  obtain r where "keyed_record (view (bl_db (mw_bill w))) team key = Some r" using metered_once_keyed [OF assms(2)] by blast
  from keyed_metered [OF calm_sound [OF assms(1)] keyed_record_stays [OF calm_evolves [OF assms(1)] this] assms(3)] show ?thesis .
qed

lemma meter_spec:
  assumes "sound (bl_db (mw_bill w))" "bs_stores P = B" "meter P team inp w = (e, w')"
  shows "quiet w w'" and "e = None \<Longrightarrow> ru_IdempotencyKey inp \<noteq> '''' \<Longrightarrow> metered_key w' team (ru_IdempotencyKey inp)"
proof -
  obtain res b where r: "RecordUsage P team inp (mw_bill w) = (res, b)" by fastforce
  have b: "mw_bill w' = b" using assms(3) r by (auto simp: meter_def split: sum.splits)
  have k: "calm (bl_db (mw_bill w)) (bl_db b)" using RecordUsage_spec [OF assms(1,2) r] by blast
  then show "quiet w w'" by (simp add: b)
  assume "e = None" and key: "ru_IdempotencyKey inp \<noteq> ''''"
  then obtain x dup where x: "res = Inr (x, dup)" using assms(3) r by (cases res) (auto simp: meter_def poison_def split: if_splits)
  show "metered_key w' team (ru_IdempotencyKey inp)"
    using RecordUsage_keyed [OF assms(1,2) r [unfolded x] key] keyed_metered [OF calm_sound [OF k] _ key] unfolding b by blast
qed

lemma inference_spec:
  assumes "sound (bl_db (mw_bill w))" "bs_stores (ic_svc c) = B" "handleInferenceCompleted c env w = (e, w')"
  shows "quiet w w' \<and> (e = None \<longrightarrow> (\<exists>ev team. ic_decode c (ee_Data env) = Inr ev \<and> if_RequestId ev \<noteq> '''' \<and> metered_key w' team (if_RequestId ev)
    \<and> (0 <s if_TokenCount ev \<longrightarrow> metered_key w' team (if_RequestId ev @ '':tokens''))))"
proof (cases "ic_decode c (ee_Data env)")
  case (Inl err)
  then show ?thesis using assms by (auto simp: handleInferenceCompleted_def poison_def calm_refl)
next
  case (Inr ev)
  show ?thesis
  proof (cases "if_RequestId ev = '''' \<or> if_ApiKeyId ev = ''''")
    case True
    then have "w' = w \<and> e \<noteq> None" using assms(3) Inr by (auto simp: handleInferenceCompleted_def poison_def split: if_splits)
    then show ?thesis using assms(1) by (auto simp: calm_refl)
  next
    case False
    obtain rt w1 where t: "onNet (ic_ResolveTeam c (if_ApiKeyId ev)) w = (rt, w1)" by fastforce
    have b1: "mw_bill w1 = mw_bill w" using onNet_bill [OF t] .
    show ?thesis
    proof (cases rt)
      case (Inl err)
      then have "w' = w1 \<and> e \<noteq> None" using assms(3) Inr False t by (auto simp: handleInferenceCompleted_def poison_def)
      then show ?thesis using b1 assms(1) by (auto simp: calm_refl)
    next
      case team: (Inr team)
      obtain e2 w2 where m: "meter (ic_svc c) team (requestInput ev) w1 = (e2, w2)" by fastforce
      have s1: "sound (bl_db (mw_bill w1))" using assms(1) b1 by simp
      note ms = meter_spec [OF s1 assms(2) m]
      have k: "e2 = None \<Longrightarrow> metered_key w2 team (if_RequestId ev)" using ms(2) False by (simp add: requestInput_def)
      have run: "(e, w') = (if e2 \<noteq> None then (e2, w2) else if 0 <s if_TokenCount ev then meter (ic_svc c) team (tokenInput ev) w2 else (None, w2))"
        using assms(3) Inr False t team m by (auto simp: handleInferenceCompleted_def split: option.splits)
      show ?thesis
      proof (cases "e2 = None \<and> 0 <s if_TokenCount ev")
        case True
        then have m2: "meter (ic_svc c) team (tokenInput ev) w2 = (e, w')" using run by simp
        have s2: "sound (bl_db (mw_bill w2))" using calm_sound [OF ms(1)] .
        note ms2 = meter_spec [OF s2 assms(2) m2]
        have k2: "e = None \<Longrightarrow> metered_key w' team (if_RequestId ev @ '':tokens'')" using ms2(2) by (simp add: tokenInput_def)
        have k1: "metered_key w' team (if_RequestId ev)" using metered_key_stays [OF ms2(1) k] True False by simp
        have "quiet w w'" using calm_trans [OF ms(1) ms2(1)] b1 by simp
        then show ?thesis using k1 k2 Inr False by blast
      next
        case no: False
        then have "e = e2" "w' = w2" using run by (auto split: if_splits)
        then show ?thesis using ms(1) b1 k Inr False no by auto
      qed
    qed
  qed
qed

lemma storage_spec:
  assumes "sound (bl_db (mw_bill w))" "bs_stores (st_svc c) = B" "handleModelVersionReady c env w = (e, w')"
  shows "quiet w w' \<and> (e = None \<longrightarrow> (\<exists>ev. st_decode c (ee_Data env) = Inr ev \<and> mr_VersionId ev \<noteq> ''''
    \<and> (0 <s mr_SizeBytes ev \<longrightarrow> (\<exists>team. metered_key w' team (mr_VersionId ev @ '':storage'')))))"
proof (cases "st_decode c (ee_Data env)")
  case (Inl err)
  then show ?thesis using assms by (auto simp: handleModelVersionReady_def poison_def calm_refl)
next
  case (Inr ev)
  show ?thesis
  proof (cases "mr_VersionId ev = '''' \<or> mr_ModelId ev = '''' \<or> mr_SizeBytes ev \<le>s 0")
    case True
    then show ?thesis using assms Inr by (auto simp: handleModelVersionReady_def poison_def calm_refl word_sle_eq word_sless_alt split: if_splits)
  next
    case False
    obtain rt w1 where t: "onNet (st_ResolveVersionTeam c (mr_ModelId ev) (mr_VersionId ev)) w = (rt, w1)" by fastforce
    have b1: "mw_bill w1 = mw_bill w" using onNet_bill [OF t] .
    show ?thesis
    proof (cases rt)
      case (Inl err)
      then have "w' = w1 \<and> e \<noteq> None" using assms(3) Inr False t by (auto simp: handleModelVersionReady_def poison_def)
      then show ?thesis using b1 assms(1) by (auto simp: calm_refl)
    next
      case team: (Inr team)
      have m: "meter (st_svc c) team (storageInput ev) w1 = (e, w')" using assms(3) Inr False t team by (simp add: handleModelVersionReady_def)
      have s1: "sound (bl_db (mw_bill w1))" using assms(1) b1 by simp
      note ms = meter_spec [OF s1 assms(2) m]
      have "e = None \<Longrightarrow> metered_key w' team (mr_VersionId ev @ '':storage'')" using ms(2) by (simp add: storageInput_def)
      then show ?thesis using ms(1) b1 Inr False by auto
    qed
  qed
qed

lemma handle_spec:
  assumes "sound (bl_db (mw_bill w))" "bs_stores (ac_svc c) = B" "handle c env w = (e, w')"
  shows "quiet w w' \<and> (e = None \<longrightarrow> (\<exists>ev. ac_decode c (ee_Data env) = Inr ev \<and> al_RequestID ev \<noteq> ''''
    \<and> (0 <s (scast (al_TotalTokens ev) :: int64) \<longrightarrow> metered_key w' (al_Team ev) (al_RequestID ev @ '':ai-tokens''))))"
proof (cases "ac_decode c (ee_Data env)")
  case (Inl err)
  then show ?thesis using assms by (auto simp: handle_def poison_def calm_refl)
next
  case (Inr ev)
  show ?thesis
  proof (cases "al_RequestID ev = '''' \<or> al_Team ev = '''' \<or> (scast (al_TotalTokens ev) :: int64) \<le>s 0")
    case True
    then show ?thesis using assms Inr by (auto simp: handle_def poison_def calm_refl word_sle_eq word_sless_alt split: if_splits)
  next
    case False
    then have m: "meter (ac_svc c) (al_Team ev) (aiInput ev) w = (e, w')" using assms(3) Inr by (simp add: handle_def)
    note ms = meter_spec [OF assms(1,2) m]
    have "e = None \<Longrightarrow> metered_key w' (al_Team ev) (al_RequestID ev @ '':ai-tokens'')" using ms(2) by (simp add: aiInput_def)
    then show ?thesis using ms(1) Inr False by blast
  qed
qed

end

end
