(* ===== verification/BillingSystem.thy ===== *)
theory BillingSystem
  imports BillingMetering
begin

text \<open>
  Billing as \<^verbatim>\<open>cmd/server/main.go\<close> composes it: the service over the Postgres stores, the three consumers
  over the service, and the relay from the outbox table to the stream, in any order of their steps.
\<close>

section \<open>Deployment\<close>

text \<open>
  What a deployment fixes: the precision of stored times and the page tokens, the clock and the ids of the
  service, the clock of the database, the surroundings of a publish, the configuration of the relay, and
  the decoding, the resolvers and the processed-id store of the consumers.
\<close>

record 'p deployment =
  dp_pt :: "time \<Rightarrow> time"
  dp_cc :: cursorCodec
  dp_clock :: "nat \<Rightarrow> time"
  dp_ids :: "nat \<Rightarrow> string"
  dp_dbclock :: "billDB \<Rightarrow> time"
  dp_encode :: "EventMessage \<Rightarrow> goerr + string"
  dp_px :: pubContext
  dp_cfg :: RelayConfig
  dp_inference :: "string \<Rightarrow> goerr + InferenceCompleted"
  dp_ready :: "string \<Rightarrow> goerr + ModelVersionReady"
  dp_served :: "string \<Rightarrow> goerr + aiCompletionServed"
  dp_team :: "string \<Rightarrow> 'p \<Rightarrow> (goerr + string) \<times> 'p"
  dp_versionTeam :: "string \<Rightarrow> string \<Rightarrow> 'p \<Rightarrow> (goerr + string) \<times> 'p"
  dp_processed :: "'p ProcessedStore"

definition svc :: "'p deployment \<Rightarrow> billDB billingService" where
  "svc D = \<lparr>bs_stores = PgStores (dp_pt D) (dp_cc D), bs_clock = dp_clock D, bs_ids = dp_ids D\<rparr>"

definition relay :: "'p deployment \<Rightarrow> (billDB, jetStream) OutboxRelay" where
  "relay D = NewOutboxRelay (PgxOutboxReader (dp_pt D) (dp_dbclock D)) (RelayPublisher (dp_encode D) (dp_px D) Source) (dp_cfg D)"

definition inferenceConsumer :: "'p deployment \<Rightarrow> (billDB, 'p) InferenceConsumer" where
  "inferenceConsumer D = \<lparr>ic_svc = svc D, ic_decode = dp_inference D, ic_ResolveTeam = dp_team D\<rparr>"

definition storageConsumer :: "'p deployment \<Rightarrow> (billDB, 'p) StorageConsumer" where
  "storageConsumer D = \<lparr>st_svc = svc D, st_decode = dp_ready D, st_ResolveVersionTeam = dp_versionTeam D\<rparr>"

definition aiConsumer :: "'p deployment \<Rightarrow> (billDB, 'p) AIConsumer" where
  "aiConsumer D = \<lparr>ac_svc = svc D, ac_decode = dp_served D, ac_store = Some (dp_processed D)\<rparr>"

section \<open>Steps\<close>

record 'p billSystem =
  sy_world :: "(billDB, 'p) meterWorld"
  sy_stream :: jetStream

definition sy_db :: "'p billSystem \<Rightarrow> billDB" where
  "sy_db s = bl_db (mw_bill (sy_world s))"

datatype step = Serve BillCall | RelayBatch | OnInference EventEnvelope | OnReady EventEnvelope | OnServed EventEnvelope

definition with_bill :: "('a billState \<Rightarrow> 'a billState) \<Rightarrow> ('a, 'p) meterWorld \<Rightarrow> ('a, 'p) meterWorld" where
  "with_bill f w = w\<lparr>mw_bill := f (mw_bill w)\<rparr>"

definition relay_batch :: "'p deployment \<Rightarrow> 'p billSystem \<Rightarrow> 'p billSystem" where
  "relay_batch D s = (let (rn, d, b) = processBatch (relay D) (sy_db s, sy_stream s)
     in s\<lparr>sy_world := with_bill (\<lambda>t. t\<lparr>bl_db := d\<rparr>) (sy_world s), sy_stream := b\<rparr>)"

fun system_step :: "'p deployment \<Rightarrow> step \<Rightarrow> 'p billSystem \<Rightarrow> 'p billSystem" where
  "system_step D (Serve c) s = s\<lparr>sy_world := with_bill (run_call (svc D) c) (sy_world s)\<rparr>"
| "system_step D RelayBatch s = relay_batch D s"
| "system_step D (OnInference env) s = s\<lparr>sy_world := snd (handleInferenceCompleted (inferenceConsumer D) env (sy_world s))\<rparr>"
| "system_step D (OnReady env) s = s\<lparr>sy_world := snd (handleModelVersionReady (storageConsumer D) env (sy_world s))\<rparr>"
| "system_step D (OnServed env) s = s\<lparr>sy_world := snd (dispatch (aiConsumer D) env (sy_world s))\<rparr>"

fun run_system :: "'p deployment \<Rightarrow> step list \<Rightarrow> 'p billSystem \<Rightarrow> 'p billSystem" where
  "run_system D [] s = s"
| "run_system D (a # acts) s = run_system D acts (system_step D a s)"

section \<open>Invariant\<close>

text \<open>A message of the stream tells an event of the outbox, and a marked event has its message.\<close>

definition told :: "(EventMessage \<Rightarrow> goerr + string) \<Rightarrow> OutboxEvent \<Rightarrow> string \<times> string \<times> string \<Rightarrow> bool" where
  "told encode e x \<longleftrightarrow> (\<exists>d. encode (toProto (oe_Payload e)) = Inr d \<and> x = (oe_EventType e, oe_ID e, d))"

definition stream_ok :: "(EventMessage \<Rightarrow> goerr + string) \<Rightarrow> OutboxEvent list \<Rightarrow> (string \<times> string \<times> string) list \<Rightarrow> bool" where
  "stream_ok encode es l \<longleftrightarrow> (\<forall>e \<in> set es. oe_PublishedAt e \<noteq> None \<longrightarrow> oe_ID e \<in> (fst \<circ> snd) ` set l) \<and> (\<forall>x \<in> set l. \<exists>e \<in> set es. told encode e x)"

definition system_ok :: "'p deployment \<Rightarrow> 'p billSystem \<Rightarrow> bool" where
  "system_ok D s \<longleftrightarrow> db_inv (sy_db s) \<and> paired (dp_pt D) (db_view (sy_db s))
     \<and> stream_ok (dp_encode D) (bv_outbox (db_view (sy_db s))) (js_view (sy_stream s))"

lemma row_message_event:
  assumes "db_inv s" "row \<in> set (bd_outbox s)"
  shows "row_message (outbox_view row) m \<longleftrightarrow> m = toProto (oe_Payload (row_event row))"
proof -
  have "list_all (\<lambda>row. \<exists>p. unmarshalPayload (ox_EventType row) (ox_Payload row) = Inr p) (bd_outbox s)" using assms(1) by (simp add: db_inv_def rows_ok_def)
  then obtain p where "unmarshalPayload (ox_EventType row) (ox_Payload row) = Inr p" using assms(2) by (auto simp: list_all_iff)
  then show ?thesis by (auto simp: row_message_def decodeOutboxPayload_def outbox_view_def row_event_def)
qed

lemma told_row:
  assumes "db_inv s" "row \<in> set (bd_outbox s)"
  shows "from_row encode {outbox_view row} x \<longleftrightarrow> told encode (row_event row) x"
  using row_message_event [OF assms] by (auto simp: from_row_def told_def outbox_view_def row_event_def)

lemma from_row_UN: "from_row encode (f ` A) x \<longleftrightarrow> (\<exists>a \<in> A. from_row encode {f a} x)"
  by (auto simp: from_row_def)

lemma relay_stream:
  assumes "db_inv s"
  shows "relay_ok encode (db_queue s) l \<longleftrightarrow> stream_ok encode (bv_outbox (db_view s)) l"
proof -
  have rows: "fst ` set (db_queue s) = outbox_view ` set (bd_outbox s)" by (auto simp: db_queue_def image_image)
  have "from_row encode (fst ` set (db_queue s)) x \<longleftrightarrow> (\<exists>e \<in> set (bv_outbox (db_view s)). told encode e x)" for x
    unfolding rows from_row_UN db_view_simps using told_row [OF assms] by auto
  moreover have "(\<forall>x \<in> set (db_queue s). snd x \<longrightarrow> rw_ID (fst x) \<in> (fst \<circ> snd) ` set l)
      \<longleftrightarrow> (\<forall>e \<in> set (bv_outbox (db_view s)). oe_PublishedAt e \<noteq> None \<longrightarrow> oe_ID e \<in> (fst \<circ> snd) ` set l)"
    by (simp add: db_queue_def db_view_simps outbox_view_def row_event_def)
  ultimately show ?thesis by (simp add: relay_ok_def stream_ok_def)
qed

lemma evolves_unpublished:
  assumes "evolves pt A B" obtains es where "bv_outbox B = bv_outbox A @ es" "list_all (\<lambda>e. oe_PublishedAt e = None) es"
proof -
  note outs = that
  have "\<exists>es. bv_outbox B = bv_outbox A @ es \<and> list_all (\<lambda>e. oe_PublishedAt e = None) es" using assms
  proof (induction rule: rtranclp_induct)
    case (step B C)
    then obtain w es where w: "honest w" "C = commit pt w B" and es: "bv_outbox B = bv_outbox A @ es" "list_all (\<lambda>e. oe_PublishedAt e = None) es"
      by (auto simp: bill_step_def)
    have "\<exists>fs. bv_outbox C = bv_outbox B @ fs \<and> list_all (\<lambda>e. oe_PublishedAt e = None) fs"
      using w by (cases w) (auto simp: list_all_iff own_event_def event_row_def)
    then show ?case using es by auto
  qed simp
  with outs show thesis by blast
qed

lemma stream_ok_evolves:
  assumes "evolves pt A B" "stream_ok encode (bv_outbox A) l" shows "stream_ok encode (bv_outbox B) l"
proof -
  obtain es where "bv_outbox B = bv_outbox A @ es" "list_all (\<lambda>e. oe_PublishedAt e = None) es" using evolves_unpublished [OF assms(1)] .
  then show ?thesis using assms(2) by (auto simp: stream_ok_def list_all_iff)
qed

text \<open>A step of the service or of a consumer moves the tables as the contract of the stores allows.\<close>

abbreviation calm :: "'p deployment \<Rightarrow> billDB \<Rightarrow> billDB \<Rightarrow> bool" where
  "calm D \<equiv> kept (dp_pt D) db_view db_inv db_healthy"

lemma svc_stores [simp]: "bs_stores (svc D) = PgStores (dp_pt D) (dp_cc D)"
  by (simp add: svc_def)

lemma dispatch_calm:
  assumes "db_inv (bl_db (mw_bill w))" "dispatch (aiConsumer D) env w = (e, w')"
  shows "calm D (bl_db (mw_bill w)) (bl_db (mw_bill w'))"
proof -
  obtain rp w1 where p: "onNet (ps_IsProcessed (dp_processed D) (ee_ID env)) w = (rp, w1)" by fastforce
  have b1: "mw_bill w1 = mw_bill w" using onNet_bill [OF p] .
  obtain e2 w2 where h: "handle (aiConsumer D) env w1 = (e2, w2)" by fastforce
  have s: "bs_stores (ac_svc (aiConsumer D)) = PgStores (dp_pt D) (dp_cc D)" by (simp add: aiConsumer_def)
  have "db_inv (bl_db (mw_bill w1))" using assms(1) b1 by simp
  then have c: "calm D (bl_db (mw_bill w)) (bl_db (mw_bill w2))" using pgb.handle_spec [OF _ s h] b1 by simp
  have "mw_bill w' = mw_bill w \<or> mw_bill w' = mw_bill w2"
    using assms(2) p h b1 by (auto simp: dispatch_def aiConsumer_def split: sum.splits if_splits option.splits prod.splits dest!: onNet_bill)
  then show ?thesis using c assms(1) by (auto simp: kept_def)
qed

lemma step_calm:
  assumes "db_inv (sy_db s)" "a \<noteq> RelayBatch"
  shows "calm D (sy_db s) (sy_db (system_step D a s)) \<and> sy_stream (system_step D a s) = sy_stream s"
proof (cases a)
  case (Serve c)
  then show ?thesis using pgb.run_call_calm [OF assms(1) [unfolded sy_db_def] svc_stores, of D c] by (simp add: sy_db_def with_bill_def)
next
  case (OnInference env)
  have "bs_stores (ic_svc (inferenceConsumer D)) = PgStores (dp_pt D) (dp_cc D)" by (simp add: inferenceConsumer_def)
  then show ?thesis using pgb.inference_spec [OF assms(1) [unfolded sy_db_def] _ surjective_pairing] OnInference by (simp add: sy_db_def)
next
  case (OnReady env)
  have "bs_stores (st_svc (storageConsumer D)) = PgStores (dp_pt D) (dp_cc D)" by (simp add: storageConsumer_def)
  then show ?thesis using pgb.storage_spec [OF assms(1) [unfolded sy_db_def] _ surjective_pairing] OnReady by (simp add: sy_db_def)
next
  case (OnServed env)
  then show ?thesis using dispatch_calm [OF assms(1) [unfolded sy_db_def] surjective_pairing] by (simp add: sy_db_def)
qed (use assms(2) in simp)

section \<open>Runs\<close>

lemma relay_rl: "relay D = outbox_relay.rl (PgxOutboxReader (dp_pt D) (dp_dbclock D)) (RelayPublisher (dp_encode D) (dp_px D) Source) (dp_cfg D)"
  by (simp add: relay_def pgo.rl_def)

lemma good_system:
  "outbox_relay.good db_queue (db_sound (dp_pt D) L) js_view (dp_encode D) (sy_db s, sy_stream s) \<longleftrightarrow>
     system_ok D s \<and> (\<exists>rs. bv_ledger (db_view (sy_db s)) = L @ rs)"
  unfolding pgo.good_def fst_conv snd_conv db_sound_def system_ok_def using relay_stream [of "sy_db s"] by blast

lemma relay_batch_step:
  assumes "system_ok D s"
  shows "system_ok D (relay_batch D s) \<and> (\<exists>rs. bv_ledger (db_view (sy_db (relay_batch D s))) = bv_ledger (db_view (sy_db s)) @ rs)"
proof -
  obtain rn d b where p: "processBatch (relay D) (sy_db s, sy_stream s) = (rn, d, b)" by (cases "processBatch (relay D) (sy_db s, sy_stream s)") auto
  define s' where "s' = relay_batch D s"
  have s': "sy_db s' = d" "sy_stream s' = b" unfolding s'_def relay_batch_def p by (simp_all add: sy_db_def with_bill_def)
  have "outbox_relay.good db_queue (db_sound (dp_pt D) (bv_ledger (db_view (sy_db s)))) js_view (dp_encode D) (sy_db s, sy_stream s)"
    unfolding good_system using assms by simp
  from pgo.processBatch_safe [OF this p [unfolded relay_rl]]
  have "outbox_relay.good db_queue (db_sound (dp_pt D) (bv_ledger (db_view (sy_db s)))) js_view (dp_encode D) (sy_db s', sy_stream s')"
    unfolding s' by blast
  then show ?thesis unfolding good_system s'_def .
qed

lemma system_step_ok:
  assumes "system_ok D s"
  shows "system_ok D (system_step D a s) \<and> (\<exists>rs. bv_ledger (db_view (sy_db (system_step D a s))) = bv_ledger (db_view (sy_db s)) @ rs)"
proof (cases "a = RelayBatch")
  case True
  then show ?thesis using relay_batch_step [OF assms] by simp
next
  case False
  have i: "db_inv (sy_db s)" using assms by (simp add: system_ok_def)
  note c = step_calm [OF i False, of D]
  have e: "evolves (dp_pt D) (db_view (sy_db s)) (db_view (sy_db (system_step D a s)))" using c by (simp add: kept_def)
  obtain rs where "bv_ledger (db_view (sy_db (system_step D a s))) = bv_ledger (db_view (sy_db s)) @ rs" using evolves_grows [OF e] by metis
  then show ?thesis using c assms evolves_paired [OF e] stream_ok_evolves [OF e] by (auto simp: system_ok_def kept_def)
qed

lemma run_system_ok:
  "system_ok D s \<Longrightarrow> system_ok D (run_system D acts s) \<and> (\<exists>rs. bv_ledger (db_view (sy_db (run_system D acts s))) = bv_ledger (db_view (sy_db s)) @ rs)"
proof (induction acts arbitrary: s)
  case (Cons a acts)
  note h = system_step_ok [OF Cons.prems, of a]
  from Cons.IH [OF conjunct1 [OF h]] h show ?case by auto
qed simp

text \<open>A key metered once stays metered once.\<close>

lemma run_metered:
  assumes "system_ok D s" "metered_once (db_view (sy_db s)) team key" "key \<noteq> ''''"
  shows "metered_once (db_view (sy_db (run_system D acts s))) team key"
proof -
  define s' where "s' = run_system D acts s"
  have r: "system_ok D s'" "\<exists>rs. bv_ledger (db_view (sy_db s')) = bv_ledger (db_view (sy_db s)) @ rs"
    using run_system_ok [OF assms(1), of acts] by (simp_all add: s'_def)
  obtain r where "keyed_record (db_view (sy_db s)) team key = Some r" using metered_once_keyed [OF assms(2)] by blast
  then have "\<exists>r. keyed_record (db_view (sy_db s')) team key = Some r"
    using r(2) by (auto simp: keyed_record_def find_append_case split: option.splits)
  then show ?thesis using pgb.keyed_metered [OF _ _ assms(3)] r(1) by (auto simp: system_ok_def s'_def)
qed

text \<open>Once nothing is unpublished, the stream tells every record of the ledger.\<close>

definition record_told :: "(time \<Rightarrow> time) \<Rightarrow> (EventMessage \<Rightarrow> goerr + string) \<Rightarrow> (string \<times> string \<times> string) list \<Rightarrow> UsageRecord \<Rightarrow> bool" where
  "record_told pt encode l r \<longleftrightarrow> (\<exists>p i d. stamp_usage pt p = usagePayload r \<and> encode (UsageRecordedM (usageRecordedToProto p)) = Inr d
     \<and> (EventTypeUsageRecorded, i, d) \<in> set l)"

lemma ledger_told:
  assumes "paired pt A" "\<forall>e \<in> set (bv_outbox A). \<exists>x \<in> set l. told encode e x" "r \<in> set (bv_ledger A)"
  shows "record_told pt encode l r"
proof -
  have "usagePayload r \<in> set (map usagePayload (bv_ledger A))" using assms(3) by simp
  also have "\<dots> = stamp_usage pt ` set (usage_payloads (bv_outbox A))" using assms(1) by (simp add: paired_def)
  finally obtain p where p: "usagePayload r = stamp_usage pt p" "p \<in> set (usage_payloads (bv_outbox A))" by blast
  from p(2) obtain e where e: "e \<in> set (bv_outbox A)" "oe_Payload e = UsageRecordedP p"
    by (auto simp: usage_payloads_def map_filter_def split: OutboxPayload.splits)
  have "list_all (\<lambda>e. oe_EventType e = EventType (oe_Payload e)) (bv_outbox A)" using assms(1) by (simp add: paired_def)
  then have t: "oe_EventType e = EventTypeUsageRecorded" using e by (auto simp: list_all_iff)
  obtain x where x: "x \<in> set l" "told encode e x" using assms(2) e(1) by blast
  then show ?thesis using p(1) e(2) t unfolding record_told_def told_def by (metis toProto.simps(1))
qed

lemma relay_delivers:
  assumes "system_ok D s" "\<forall>m. \<not> isl (dp_encode D m)" "db_turns (sy_db s) + js_faults (sy_stream s) < n"
  shows "\<exists>d b. Run (relay D) (replicate n Tick) (sy_db s, sy_stream s) = Some (None, d, b)
    \<and> (\<forall>r \<in> set (bv_ledger (db_view d)). record_told (dp_pt D) (dp_encode D) (js_view b) r)
    \<and> set (bv_ledger (db_view (sy_db s))) \<subseteq> set (bv_ledger (db_view d)) \<and> db_turns d = 0"
proof -
  let ?L = "bv_ledger (db_view (sy_db s))"
  have g: "outbox_relay.good db_queue (db_sound (dp_pt D) ?L) js_view (dp_encode D) (sy_db s, sy_stream s)"
    unfolding good_system using assms(1) by simp
  have t: "db_turns (fst (sy_db s, sy_stream s)) + js_faults (snd (sy_db s, sy_stream s)) < n \<or> outbox_relay.emptied db_queue db_turns (sy_db s, sy_stream s)"
    using assms(3) by simp
  obtain w where w: "Run (relay D) (replicate n Tick) (sy_db s, sy_stream s) = Some (None, w)"
      "outbox_relay.good db_queue (db_sound (dp_pt D) ?L) js_view (dp_encode D) w" "outbox_relay.emptied db_queue db_turns w"
    using pgo.Run_empties [OF g assms(2) t, folded relay_rl] unfolding relay_rl by blast
  obtain d b where db: "w = (d, b)" by (cases w)
  have i: "db_inv d" "paired (dp_pt D) (db_view d)" "\<exists>rs. bv_ledger (db_view d) = ?L @ rs"
    using w(2) unfolding db pgo.good_def db_sound_def by auto
  have "\<exists>x \<in> set (js_view b). told (dp_encode D) e x" if e: "e \<in> set (bv_outbox (db_view d))" for e
  proof -
    obtain row where row: "row \<in> set (bd_outbox d)" "e = row_event row" using e by (auto simp: db_view_simps)
    have q: "outbox_view row \<in> fst ` set (db_queue d)" using row(1) by (auto simp: db_queue_def image_image)
    obtain m x where m: "row_message (outbox_view row) m" "dp_encode D m = Inr x" "(rw_EventType (outbox_view row), rw_ID (outbox_view row), x) \<in> set (js_view b)"
      using pgo.emptied_delivered [OF w(2,3), unfolded db fst_conv snd_conv, OF q] by blast
    have "told (dp_encode D) e (rw_EventType (outbox_view row), rw_ID (outbox_view row), x)"
      using m(1,2) row_message_event [OF i(1) row(1)] by (simp add: told_def row(2) outbox_view_def row_event_def)
    with m(3) show ?thesis by blast
  qed
  then have "\<forall>r \<in> set (bv_ledger (db_view d)). record_told (dp_pt D) (dp_encode D) (js_view b) r" using ledger_told [OF i(2)] by blast
  moreover have "db_turns d = 0" using w(3) unfolding db pgo.emptied_def by simp
  ultimately show ?thesis using w(1) i(3) unfolding db by auto
qed

end
