(* ===== verification/Billing.thy ===== *)
theory Billing
  imports BillingSystem
begin

text \<open>
  The properties of billing: on its contents and its outbox under any run of the service, the consumers and
  the relay, with any faults and any writes of other replicas; on prices, invoices and stored documents; and
  on the deliveries of a message.
\<close>

section \<open>An example\<close>

text \<open>A team on a plan with one price and an allowance, a clock that stands in 2024, and a relay without trace.\<close>

definition example_plan :: RatePlan where
  "example_plan = \<lparr>rp_ID = ''plan'', rp_Name = ''Standard'', rp_UnitPrices = [(MeterTypeInferenceRequest, \<lparr>AmountMicros = 250, CurrencyCode = ''USD''\<rparr>)],
     rp_IncludedQuantities = [], rp_QuotaLimits = [], rp_CreatedAt = 0\<rparr>"

definition example_db :: "RatePlan \<Rightarrow> billDB" where
  "example_db p = \<lparr>bd_usage = [], bd_plans = [\<lparr>pr_ID = rp_ID p, pr_Name = rp_Name p, pr_UnitPrices = marshalUnitPrices (rp_UnitPrices p),
       pr_Included = marshalQtyMap (rp_IncludedQuantities p), pr_Quotas = marshalQtyMap (rp_QuotaLimits p), pr_CreatedAt = rp_CreatedAt p\<rparr>],
     bd_pkeys = [], bd_teams = [(''acme'', rp_ID p)], bd_invoices = [], bd_outbox = [], bd_turns = []\<rparr>"

definition example_deployment :: "unit deployment" where
  "example_deployment = \<lparr>dp_pt = (\<lambda>t. t div 1000 * 1000), dp_cc = \<lparr>encodeCursor = (\<lambda>c. snd c), decodeToken = (\<lambda>t. Inl jsonError)\<rparr>,
     dp_clock = (\<lambda>n. 63871200000000001234), dp_ids = (\<lambda>n. ''id'' @ replicate n (CHR ''x'')), dp_dbclock = (\<lambda>d. 63871200000000000000),
     dp_encode = (\<lambda>m. Inr ''data''), dp_px = \<lparr>px_uuid = (\<lambda>n. ''uuid''), px_now = (\<lambda>n. 0), px_correlation = None, px_trace = None, px_carrier = []\<rparr>,
     dp_cfg = \<lparr>rc_PollInterval = 0, rc_BatchSize = 0\<rparr>,
     dp_inference = (\<lambda>t. Inr \<lparr>if_RequestId = t, if_ModelId = ''m'', if_Version = ''1'', if_ApiKeyId = ''key'', if_TokenCount = 0, if_CompletedAt = None\<rparr>),
     dp_ready = (\<lambda>t. Inl jsonError), dp_served = (\<lambda>t. Inl jsonError), dp_team = (\<lambda>k p. (Inr ''acme'', p)), dp_versionTeam = (\<lambda>m v p. (Inl ErrTeamNotFound, p)),
     dp_processed = \<lparr>ps_IsProcessed = (\<lambda>i p. (Inr False, p)), ps_MarkProcessed = (\<lambda>i p. (None, p))\<rparr>\<rparr>"

definition example_state :: "RatePlan \<Rightarrow> billDB billState" where
  "example_state p = \<lparr>bl_db = example_db p, bl_ticks = 0, bl_ids = 0\<rparr>"

definition example_input :: "string \<Rightarrow> int64 \<Rightarrow> RecordUsageInput" where
  "example_input key q = \<lparr>ru_MeterType = MeterTypeInferenceRequest, ru_Quantity = q, ru_ModelID = ''m'', ru_ModelVersion = ''1'',
     ru_SourceRequestID = ''r1'', ru_OccurredAt = 0, ru_IdempotencyKey = key\<rparr>"

lemma example_db_inv: "plan_ok p \<Longrightarrow> db_inv (example_db p)"
  by (simp add: example_db_def db_inv_def indexes_hold_def references_hold_def rows_ok_def scanPlan_def plan_ok_def)

lemma example_plan_ok: "plan_ok example_plan"
  by (simp add: plan_ok_def example_plan_def IsBillable_def meter_defs IsValidCurrencyCode_def word_sless_alt)

lemma example_call:
  "\<exists>r. RecordUsage (svc example_deployment) ''acme'' (example_input ''r1'' 3) (example_state example_plan)
     = (Inr (r, False), snd (RecordUsage (svc example_deployment) ''acme'' (example_input ''r1'' 3) (example_state example_plan)))"
proof -
  have "case fst (RecordUsage (svc example_deployment) ''acme'' (example_input ''r1'' 3) (example_state example_plan)) of Inr (r, dup) \<Rightarrow> \<not> dup | Inl _ \<Rightarrow> False"
    by code_simp
  then show ?thesis
    by (cases "RecordUsage (svc example_deployment) ''acme'' (example_input ''r1'' 3) (example_state example_plan)") (auto split: sum.splits)
qed

section \<open>The contents\<close>

text \<open>Empty tables and an empty stream, with any turns to come.\<close>

definition start :: "turn list \<Rightarrow> pubTurn list \<Rightarrow> 'p \<Rightarrow> 'p billSystem" where
  "start turns pubs net = \<lparr>sy_world = \<lparr>mw_bill = \<lparr>bl_db = \<lparr>bd_usage = [], bd_plans = [], bd_pkeys = [], bd_teams = [], bd_invoices = [],
       bd_outbox = [], bd_turns = turns\<rparr>, bl_ticks = 0, bl_ids = 0\<rparr>, mw_net = net\<rparr>,
     sy_stream = \<lparr>js_log = [], js_turns = pubs, js_calls = 0\<rparr>\<rparr>"

definition turns_honest :: "turn list \<Rightarrow> bool" where
  "turns_honest turns \<longleftrightarrow> list_all (\<lambda>t. list_all honest (tn_others t)) turns"

lemma start_ok: "turns_honest turns \<Longrightarrow> system_ok D (start turns pubs net)"
  by (simp add: system_ok_def start_def sy_db_def db_inv_def indexes_hold_def references_hold_def rows_ok_def turns_honest_def paired_def
      db_view_def stream_ok_def js_view_def usage_payloads_def invoice_payloads_def List.map_filter_def)

lemma run_start_ok: "turns_honest turns \<Longrightarrow> system_ok D (run_system D acts (start turns pubs net))"
  by (rule conjunct1 [OF run_system_ok [OF start_ok]])

text \<open>C5: From empty tables and an empty stream, whatever the service, the consumers and the relay do, in any order, with any
  faults of the database and the broker and any writes of other replicas: the outbox holds one event for each ledger record and for
  each invoice, in the order of their commits and with their data; an event marked as published has its message in the stream; and
  every message of the stream tells an event of the outbox, under its subject and its id.\<close>

theorem billing_tells_what_it_booked:
  assumes "turns_honest turns"
  shows "system_ok D (run_system D acts (start turns pubs net))"
  by (rule run_start_ok [OF assms])

definition example_turns :: "turn list" where
  "example_turns = [\<lparr>tn_others = [WPlan example_plan '''', WAssign ''acme'' ''plan''], tn_fault = Some (AckLost ''timeout'')\<rparr>]"

lemma example_turns_honest: "turns_honest example_turns"
  using example_plan_ok by (simp add: turns_honest_def example_turns_def)

theorem billing_tells_what_it_booked_witness:
  "system_ok example_deployment (run_system example_deployment [Serve (CallUsage ''acme'' (example_input ''r1'' 3)), RelayBatch] (start example_turns [] ()))"
  by (rule billing_tells_what_it_booked [OF example_turns_honest])



text \<open>C16: After any such run, the relay running for more rounds than faults and turns of others are to come publishes, for every
  record then in the ledger, a message on the usage subject that tells the record; it is still running, and no fault is left.\<close>

theorem relay_publishes_every_record:
  assumes "turns_honest turns" "s = run_system D acts (start turns pubs net)" "\<forall>m. \<not> isl (dp_encode D m)"
    and "db_turns (sy_db s) + js_faults (sy_stream s) < n"
  shows "\<exists>d b. Run (relay D) (replicate n Tick) (sy_db s, sy_stream s) = Some (None, d, b)
    \<and> (\<forall>r \<in> set (bv_ledger (db_view d)). record_told (dp_pt D) (dp_encode D) (js_view b) r)
    \<and> set (bv_ledger (db_view (sy_db s))) \<subseteq> set (bv_ledger (db_view d)) \<and> db_turns d = 0"
  by (rule relay_delivers [OF _ assms(3,4)]) (simp add: assms(2) run_start_ok [OF assms(1)])

theorem relay_publishes_every_record_witness:
  "\<exists>d b. Run (relay example_deployment) (replicate 3 Tick) (sy_db (start example_turns [\<lparr>pn_window = True, pn_fault = Some (Refused ''down'')\<rparr>] ()),
       sy_stream (start example_turns [\<lparr>pn_window = True, pn_fault = Some (Refused ''down'')\<rparr>] ())) = Some (None, d, b)
    \<and> (\<forall>r \<in> set (bv_ledger (db_view d)). record_told (dp_pt example_deployment) (dp_encode example_deployment) (js_view b) r)
    \<and> set (bv_ledger (db_view (sy_db (start example_turns [\<lparr>pn_window = True, pn_fault = Some (Refused ''down'')\<rparr>] ())))) \<subseteq> set (bv_ledger (db_view d))
    \<and> db_turns d = 0"
  using relay_publishes_every_record [OF example_turns_honest, of "start example_turns [\<lparr>pn_window = True, pn_fault = Some (Refused ''down'')\<rparr>] ()"
      example_deployment "[]" "[\<lparr>pn_window = True, pn_fault = Some (Refused ''down'')\<rparr>]" "()" 3]
  by (simp add: example_deployment_def start_def sy_db_def db_turns_def js_faults_def example_turns_def)

section \<open>Metering\<close>







text \<open>C7: A call with an idempotency key that succeeds leaves exactly one record under the key, and any later call of the team with the
  key that succeeds, after any other calls, answers that very record as stored, flagged as a duplicate, whatever else it asks for.\<close>

theorem retry_returns_the_original:
  assumes "db_inv (bl_db s)" "RecordUsage (svc D) team inp s = (Inr (r, False), s1)" "ru_IdempotencyKey inp \<noteq> ''''"
    and "ru_IdempotencyKey inp' = ru_IdempotencyKey inp" "RecordUsage (svc D) team inp' (run_calls (svc D) cs s1) = (Inr (r', dup), s2)"
  shows "metered_once (db_view (bl_db s1)) team (ru_IdempotencyKey inp) \<and> dup \<and> r' = usage_row (dp_pt D) r
    \<and> metered_once (db_view (bl_db s2)) team (ru_IdempotencyKey inp)"
proof -
  have i1: "db_inv (bl_db s1)" using pgb.RecordUsage_spec [OF assms(1) svc_stores assms(2)] by (simp add: kept_def)
  note k1 = pgb.RecordUsage_keyed [OF assms(1) svc_stores assms(2,3), unfolded if_False]
  note run = pgb.run_calls_calm [OF i1 svc_stores, of D cs]
  have i2: "db_inv (bl_db (run_calls (svc D) cs s1))" using run by (simp add: kept_def)
  have k2: "keyed_record (db_view (bl_db (run_calls (svc D) cs s1))) team (ru_IdempotencyKey inp') = Some (usage_row (dp_pt D) r)"
    using keyed_record_stays [OF pgb.calm_evolves [OF run] k1] assms(4) by simp
  have key: "ru_IdempotencyKey inp' \<noteq> ''''" using assms(3,4) by simp
  have i3: "db_inv (bl_db s2)" using pgb.RecordUsage_spec [OF i2 svc_stores assms(5)] by (simp add: kept_def)
  have "keyed_record (db_view (bl_db s2)) team (ru_IdempotencyKey inp') \<noteq> None"
    using pgb.RecordUsage_keyed [OF i2 svc_stores assms(5) key] by simp
  then have "metered_once (db_view (bl_db s2)) team (ru_IdempotencyKey inp)"
    using pgb.keyed_metered [OF i3 _ key] assms(4) by auto
  then show ?thesis using pgb.keyed_metered [OF i1 k1 assms(3)] pgb.RecordUsage_repeat [OF i2 svc_stores assms(5) key k2] by blast
qed

lemma example_retry:
  "\<exists>r dup. RecordUsage (svc example_deployment) ''acme'' (example_input ''r1'' 5)
       (run_calls (svc example_deployment) [CallQuota ''acme'' MeterTypeInferenceRequest]
          (snd (RecordUsage (svc example_deployment) ''acme'' (example_input ''r1'' 3) (example_state example_plan))))
     = (Inr (r, dup), snd (RecordUsage (svc example_deployment) ''acme'' (example_input ''r1'' 5)
       (run_calls (svc example_deployment) [CallQuota ''acme'' MeterTypeInferenceRequest]
          (snd (RecordUsage (svc example_deployment) ''acme'' (example_input ''r1'' 3) (example_state example_plan))))))" (is "\<exists>r dup. ?c = _")
proof -
  have n: "\<not> isl (fst ?c)" by code_simp
  obtain a b where c: "?c = (a, b)" by (cases ?c)
  obtain r dup where "a = Inr (r, dup)" using n c by (cases a) auto
  then show ?thesis unfolding c by auto
qed

theorem retry_returns_the_original_witness:
  "\<exists>r. metered_once (db_view (bl_db (snd (RecordUsage (svc example_deployment) ''acme'' (example_input ''r1'' 3) (example_state example_plan))))) ''acme'' ''r1''
    \<and> fst (RecordUsage (svc example_deployment) ''acme'' (example_input ''r1'' 5)
       (run_calls (svc example_deployment) [CallQuota ''acme'' MeterTypeInferenceRequest]
          (snd (RecordUsage (svc example_deployment) ''acme'' (example_input ''r1'' 3) (example_state example_plan)))))
      = Inr (usage_row (dp_pt example_deployment) r, True)"
proof -
  obtain r where c: "RecordUsage (svc example_deployment) ''acme'' (example_input ''r1'' 3) (example_state example_plan)
     = (Inr (r, False), snd (RecordUsage (svc example_deployment) ''acme'' (example_input ''r1'' 3) (example_state example_plan)))"
    using example_call by blast
  obtain r' dup where c': "RecordUsage (svc example_deployment) ''acme'' (example_input ''r1'' 5)
       (run_calls (svc example_deployment) [CallQuota ''acme'' MeterTypeInferenceRequest]
          (snd (RecordUsage (svc example_deployment) ''acme'' (example_input ''r1'' 3) (example_state example_plan))))
     = (Inr (r', dup), snd (RecordUsage (svc example_deployment) ''acme'' (example_input ''r1'' 5)
       (run_calls (svc example_deployment) [CallQuota ''acme'' MeterTypeInferenceRequest]
          (snd (RecordUsage (svc example_deployment) ''acme'' (example_input ''r1'' 3) (example_state example_plan))))))"
    using example_retry by blast
  have i: "db_inv (bl_db (example_state example_plan))" using example_db_inv [OF example_plan_ok] by (simp add: example_state_def)
  have k: "ru_IdempotencyKey (example_input ''r1'' 3) \<noteq> ''''" "ru_IdempotencyKey (example_input ''r1'' 5) = ru_IdempotencyKey (example_input ''r1'' 3)"
    "ru_IdempotencyKey (example_input ''r1'' 3) = ''r1''"
    by (simp_all add: example_input_def)
  note w = retry_returns_the_original [OF i c k(1,2) c', unfolded k(3)]
  show ?thesis using w arg_cong [OF c', of fst] by auto
qed



text \<open>C22: The overflow-checked arithmetic answers the exact product and the exact sum when they fit 64 bits, and the overflow error
  otherwise.\<close>

theorem checked_arithmetic_is_exact:
  "mulInt64Checked a b = (if in_int64 (sint a * sint b) then Inr (word_of_int (sint a * sint b)) else Inl ErrAmountOverflow)
   \<and> addInt64Checked a b = (if in_int64 (sint a + sint b) then Inr (word_of_int (sint a + sint b)) else Inl ErrAmountOverflow)"
  by (simp add: mulInt64Checked_exact addInt64Checked_exact)

text \<open>C23: Every stored document reads back as written: prices, quantities and invoice lines from their columns, and the relay decodes
  the payload of an outbox row into the message of the payload; a payload is refused only for a time no JSON text stands for.\<close>

theorem documents_read_back:
  "unmarshalUnitPrices (marshalUnitPrices prices) = Inr prices \<and> unmarshalQtyMap (marshalQtyMap quantities) = Inr quantities
   \<and> unmarshalLineItems (marshalLineItems items) = Inr items
   \<and> (case marshalOutboxPayload p of Inr j \<Rightarrow> decodeOutboxPayload (EventType p) j = Inr (toProto p) | Inl err \<Rightarrow> \<not> encodable p)"
proof -
  have "decodeOutboxPayload (EventType p) j = Inr (toProto p)" if "marshalOutboxPayload p = Inr j" for j
    using payload_roundtrip [OF that] by (simp add: decodeOutboxPayload_def)
  then show ?thesis using marshal_ok [of p] by (auto split: sum.splits)
qed

text \<open>C24: Fed with the gross usage before each record, the allowance is spent exactly once: over a sequence of records the billed
  quantities sum to what the plan's allowance leaves of the whole usage.\<close>

theorem allowance_is_spent_once:
  assumes "0 \<le> sint prior" "0 \<le> sint included" "\<forall>q \<in> set qs. 0 \<le> sint q" "in_int64 (sint prior + sum_list (map sint qs))"
  shows "sum_list (map sint (metered included prior qs)) = billed_units (sint prior) (sum_list (map sint qs)) (sint included)"
  using assms by (rule metered_total)

theorem allowance_is_spent_once_witness:
  "sum_list (map sint (metered 100 20 [60, 70, 5])) = 55"
  using allowance_is_spent_once [of 20 100 "[60, 70, 5]"] by (simp add: in_int64_def billed_units_def)








section \<open>Deliveries\<close>




end
