(* ===== verification/Spec2Isabelle.thy ===== *)
theory Spec2Isabelle
  imports FPrelude PipelineService GatewayTable GatewayPredict FeatureStore Registry Billing
begin

text \<open>
  A verification library for Forgepoint, a machine-learning platform written as Go services under
  \<^verbatim>\<open>src/services\<close>. Five services are modelled here: the pipeline orchestrator (a saga and DAG engine), the
  inference gateway (routing, traffic splitting and circuit breaking), the feature store (an event-sourced log
  with projections), the registry (the life cycle of models and their versions) and billing (metering, plans,
  invoices and a transactional outbox). Each is
  built the same way in the code: a domain package with types, errors, ports and a service, and
  adapters that implement the ports. The services meet through events: a pipeline that deploys or
  promotes a model publishes the lifecycle events the gateway applies to its routing table, and billing meters
  the inferences, artifacts and completions other services announce.

  \<^bold>\<open>Common ground.\<close> \<open>FPrelude\<close> has the Go values the services use: times and durations as integers of
  nanoseconds, error values with \<^verbatim>\<open>errors.Is\<close> and wrapping, dynamic JSON values, the texts of formatted
  errors, and Hoare triples over the library's state monad.

  \<^bold>\<open>Pipeline orchestrator\<close> (\<^verbatim>\<open>services/pipeline-orchestrator/internal/domain\<close>).
  \<^item> \<open>PipelineGraph\<close>: the template types of \<^verbatim>\<open>models.go\<close>, the sentinels of \<^verbatim>\<open>errors.go\<close>, and the graph functions
    \<^verbatim>\<open>validateGraph\<close>, \<^verbatim>\<open>topoLevels\<close>, \<^verbatim>\<open>topoOrder\<close>. Validation accepts exactly the well-formed acyclic
    graphs; the levels of an accepted graph are a complete schedule.
  \<^item> \<open>PipelineEngine\<close>: the execution types and every function from \<^verbatim>\<open>run\<close> down, in the order of the file. The
    ports are a record of functions on an arbitrary world; the engine's state is the world, the execution,
    the checkpoint errors, the cancel registry and a trace of the port calls.
  \<^item> \<open>PipelineTrace\<close>, \<open>PipelineSteps\<close>, \<open>PipelineSaga\<close>, \<open>PipelineDag\<close>: what single calls, steps, the saga loop with
    its compensation and the DAG loop do to the execution and to the trace.
  \<^item> \<open>PipelineRun\<close>: the properties of a run: undo in reverse order, every step of an aborted saga undone, forward
    actions within budget and after their checkpoint, the terminal state durable before its event.
  \<^item> \<open>PipelineService\<close>: the operations of \<^verbatim>\<open>pipeline_service_impl.go\<close> on templates and executions, with the cancel
    registry and the bounded wait of a cancel.

  \<^bold>\<open>Inference gateway\<close> (\<^verbatim>\<open>services/inference-gateway/internal\<close>).
  \<^item> \<open>GatewayBreaker\<close>: \<^verbatim>\<open>domain/circuit_breaker.go\<close> and \<^verbatim>\<open>domain/breaker_registry.go\<close>; the states a breaker can
    reach are the inductive relation \<open>breaker_run\<close>.
  \<^item> \<open>GatewayRoutes\<close>: routes, the splitter (\<^verbatim>\<open>domain/traffic_splitter.go\<close>), the route store adapter
    (\<^verbatim>\<open>repository/redis/route_store.go\<close>) and the control plane of \<^verbatim>\<open>domain/inference_service_impl.go\<close>. The port
    \<^verbatim>\<open>RouteStore\<close> is the locale \<open>route_store\<close>, interpreted on the adapter.
  \<^item> \<open>GatewayTable\<close>: the properties of the routing table. \<open>GatewayPredict\<close>: the operation \<^verbatim>\<open>Predict\<close> and its properties.

  \<^bold>\<open>Feature store\<close> (\<^verbatim>\<open>services/feature-store/internal\<close>).
  \<^item> \<open>FeatureFold\<close>: the types of \<^verbatim>\<open>domain/models.go\<close> and the pure folds \<^verbatim>\<open>ProjectLatest\<close>, \<^verbatim>\<open>ProjectAsOf\<close>, \<^verbatim>\<open>foldView\<close>.
  \<^item> \<open>FeatureLog\<close>: the port \<^verbatim>\<open>EventLog\<close> as the locale \<open>event_log\<close>, and its Postgres adapter
    (\<^verbatim>\<open>repository/postgres/eventlog.go\<close>, \<^verbatim>\<open>codec.go\<close>) on its tables. The interpretation \<open>pg\<close> shows the adapter
    keeps the contract.
  \<^item> \<open>FeatureViews\<close>: the ports \<^verbatim>\<open>OnlineViewStore\<close> and \<^verbatim>\<open>OfflineViewStore\<close> as locales, and their adapters
    (\<^verbatim>\<open>repository/redis/online.go\<close>, \<^verbatim>\<open>repository/postgres/offline.go\<close>) with the interpretations \<open>redis\<close> and \<open>offline\<close>.
  \<^item> \<open>FeatureService\<close>: every operation of \<^verbatim>\<open>domain/featurestore_service_impl.go\<close>; what they do follows from the three
    contracts in the locale \<open>feature_store\<close>.
  \<^item> \<open>FeatureStore\<close>: the service on its adapters (interpretation \<open>fs\<close>) and the properties: writes are all or
    nothing, point-in-time reads are reproducible, a rebuild restores the read models from the log, the
    online store stays current, teams are isolated, and how definitions and deletions change a view.

  \<^bold>\<open>Registry\<close> (\<^verbatim>\<open>services/registry/internal\<close>).
  \<^item> \<open>RegistryModel\<close>: the types and errors of \<^verbatim>\<open>domain/models.go\<close>, \<^verbatim>\<open>domain/errors.go\<close> and \<^verbatim>\<open>domain/ports.go\<close>, with the
    stage machine. \<open>RegistryStore\<close>: the port \<^verbatim>\<open>WriteStore\<close> as the locale \<open>write_store\<close> over the contents of a store.
  \<^item> \<open>RegistryLife\<close>: what the registry promises, as the step relation \<open>reg_step\<close> on those contents, its invariant
    \<open>life_ok\<close> and what may become of a version and a model over time.
  \<^item> \<open>RegistryService\<close>: every command and query of \<^verbatim>\<open>domain/registry_service_impl.go\<close>. \<open>RegistryCommands\<close>: what a
    command does to the store, case by case, from the contract alone. \<open>RegistryRun\<close>: any sequence of calls refines
    \<open>reg_step\<close>, and events tell the changes. \<open>RegistryLabels\<close>: the labels the service assigns.
  \<^item> \<open>RegistryPostgres\<close>: the adapter \<^verbatim>\<open>repository/postgres/write_store.go\<close> on its tables with the constraints of
    \<^verbatim>\<open>migrations/001_init.up.sql\<close>; the interpretation \<open>pgw\<close> shows it keeps the contract. \<open>Registry\<close>: the properties of the
    service on it.

  \<^bold>\<open>Billing\<close> (\<^verbatim>\<open>services/billing/internal\<close>, \<^verbatim>\<open>pkg/natsutil\<close>).
  \<^item> \<open>BillingMoney\<close>, \<open>BillingModel\<close>: the money arithmetic on 64-bit words and the types of \<^verbatim>\<open>domain/models.go\<close>, \<^verbatim>\<open>errors.go\<close>,
    \<^verbatim>\<open>ports.go\<close> and \<^verbatim>\<open>billing_service.go\<close>, with the calendar they use. \<open>BillingService\<close>: every operation of
    \<^verbatim>\<open>domain/billing_service_impl.go\<close>.
  \<^item> \<open>BillingLedger\<close>: the three storage ports as the locale \<open>bill_store\<close> over the contents of the database, the writes the
    service makes, and the invariants of the contents, among them that outbox and ledger tell the same.
    \<open>BillingCalls\<close>, \<open>BillingRun\<close>: what the operations do, from the contract alone.
  \<^item> \<open>BillingColumns\<close>, \<open>BillingPostgres\<close>: the JSON columns of \<^verbatim>\<open>repository/postgres/mapping.go\<close>, and the adapters on
    rows with the indexes and references of \<^verbatim>\<open>migrations/001_init.up.sql\<close>. \<open>BillingTables\<close>: the interpretation \<open>pgb\<close> of \<open>bill_store\<close>.
  \<^item> \<open>BillingRelay\<close>: the relay from the outbox to the broker (\<^verbatim>\<open>events/relay.go\<close>, \<^verbatim>\<open>outbox_reader.go\<close>, \<^verbatim>\<open>publisher.go\<close>).
    \<open>BillingDelivery\<close>: its ports as the locales \<open>outbox_reader\<close> and \<open>id_publisher\<close>, and in \<open>outbox_relay\<close> that no mark is without its
    message and that every row is delivered once the faults end. \<open>BillingOutbox\<close>: the interpretation \<open>pgo\<close> on the tables and the stream.
  \<^item> \<open>BillingConsumers\<close>, \<open>BillingMetering\<close>: the subscriber of \<^verbatim>\<open>pkg/natsutil/subscriber.go\<close>, the consumers of
    \<^verbatim>\<open>events/subscriber.go\<close> and \<^verbatim>\<open>events/ai_consumer.go\<close>, and that an accepted event is metered exactly once.
  \<^item> \<open>BillingSystem\<close>: service, consumers and relay composed as \<^verbatim>\<open>cmd/server/main.go\<close> does, in any order of steps.
    \<open>Billing\<close>: the properties, with their concrete instances.

  \<^bold>\<open>How state and effects are rendered.\<close> A struct is a record, an enum a datatype. A Go map is a partial
  function, or the list of its entries where a loop takes them in some order. Code that calls ports threads
  the state of the ports: as a state monad in the orchestrator and the predict path, explicitly elsewhere.
  Fallible calls return a sum. Failures of the surroundings are part of the model: the orchestrator and
  the predict path take arbitrary ports; the adapters carry a list of the faults to come, one per call.
  A mutex or a database transaction makes a method one step, so a concurrent execution is a sequence of
  such steps; where the code does more than one step outside a lock the model has the parts separately
  (\<open>appendLocked\<close>). In billing every call of the database takes a turn in which other replicas commit writes of the
  service's kinds and a fault strikes before the work or after its commit; a publish takes a turn likewise. The goroutines of a DAG level run in an order the environment picks.

  \<^bold>\<open>Bounds and termination.\<close> Every function of the model is total. The loop of \<^verbatim>\<open>topoLevels\<close> is bounded by the
  number of steps, retry loops by their budget, the wait of a cancel and the terminal save by their own
  limits in the code, the labels of a version by the hundred attempts of the code, and page walks by the number of rows.
  The inner loop of the relay is a partial function that is proved to return; its outer loop, which runs until it is
  cancelled, is given the rounds it runs. Tensor sizes, stored integers and
  floats are 64-bit words; versions, counters and times are integers, which stay far below 64 bits.

  \<^bold>\<open>Assumptions.\<close> Text is ASCII where a function looks into it (lower-casing, quoting). \<^verbatim>\<open>sort.Slice\<close> is taken as
  stable. The values of a struct feature hold no integers, as a decoded protobuf struct does not. View ids
  have no colon, as the text of a UUID, which keeps the keys of the online store apart; properties that
  need it name it. What Postgres decides (time precision, \<^verbatim>\<open>ILIKE\<close>, collation) is a parameter.

  \<^bold>\<open>Not modelled.\<close> The other services: experiment tracker, model monitor, auth, notification,
  model serving, AI gateway and BFF, of which the first has a state machine of its own that is the
  next candidate. The read projection of the registry and its event transport, which are parameters here. The handlers, which
  translate protobuf messages, and the main programs beyond their composition of billing. The adapters of
  the orchestrator, and the rate limiter, quota checker and breaker store of the gateway, which are ports
  here; the rate limiter is a Lua script. The shared packages other than the subscriber, which wrap libraries. Of billing the
  encodings of protobuf, the resolvers of teams and the Redis store of processed ids are parameters, a fault of the database is
  never an error of a context, and one relay runs at a time. Generated code, the
  command line client, the SDK, the web console and the deployment files.
\<close>

end
